(* ===== verification/Prelude.thy ===== *)
theory Prelude
  imports Complex_Main "HOL-Library.Multiset"
begin

text \<open>
  Shared vocabulary of the development: Python exceptions as values, insertion ordered
  dictionaries, slices, prefix sums, and the lemma collections the component theories use.
  Nothing here models a particular file; it models what the sources use of Python itself.
\<close>

section \<open>Errors as values\<close>

text \<open>
  Every \<open>raise\<close>, failing \<open>assert\<close> and out of range access of the sources is a value
  \<open>Inl e\<close>. \<open>NonTermination\<close> is no Python exception: it is the value of a loop whose
  fuel ran out, and every fuelled loop comes with a lemma that its fuel is enough.
\<close>

datatype py_error =
    AssertionError | ValueError | TypeError | KeyError | IndexError | RuntimeError
  | AttributeError | ZeroDivisionError | SystemError | NotImplementedError | FileNotFoundError
  | UnboundLocalError | StopIteration | NonTermination

type_synonym 'a res = "py_error + 'a"

definition bind_res :: "'a res \<Rightarrow> ('a \<Rightarrow> 'b res) \<Rightarrow> 'b res" where
  "bind_res m k = (case m of Inl e \<Rightarrow> Inl e | Inr x \<Rightarrow> k x)"

text \<open>\<open>require b e k\<close> continues with \<open>k\<close> when \<open>b\<close> holds and raises \<open>e\<close> otherwise.\<close>

definition require :: "bool \<Rightarrow> py_error \<Rightarrow> 'a res \<Rightarrow> 'a res" where
  "require b e k = (if b then k else Inl e)"

fun map_res :: "('a \<Rightarrow> 'b res) \<Rightarrow> 'a list \<Rightarrow> 'b list res" where
  "map_res f [] = Inr []"
| "map_res f (x # xs) =
     (case f x of Inl e \<Rightarrow> Inl e
      | Inr y \<Rightarrow> (case map_res f xs of Inl e \<Rightarrow> Inl e | Inr ys \<Rightarrow> Inr (y # ys)))"

fun fold_res :: "('a \<Rightarrow> 's \<Rightarrow> 's res) \<Rightarrow> 'a list \<Rightarrow> 's \<Rightarrow> 's res" where
  "fold_res f [] s = Inr s"
| "fold_res f (x # xs) s = (case f x s of Inl e \<Rightarrow> Inl e | Inr s' \<Rightarrow> fold_res f xs s')"

named_theorems res_simps \<open>unfolding rules of the error values\<close>

lemma bind_res_simps [simp, res_simps]:
  "bind_res (Inl e) k = Inl e"
  "bind_res (Inr x) k = k x"
  by (simp_all add: bind_res_def)

lemma require_simps [simp, res_simps]:
  "require True e k = k"
  "require False e k = Inl e"
  by (simp_all add: require_def)

lemma bind_res_eq_Inr:
  "bind_res m k = Inr y \<longleftrightarrow> (\<exists>x. m = Inr x \<and> k x = Inr y)"
  by (cases m) auto

lemma require_eq_Inr:
  "require b e k = Inr y \<longleftrightarrow> b \<and> k = Inr y"
  by (simp add: require_def)

lemma bind_res_cong [fundef_cong]:
  "m = m' \<Longrightarrow> (\<And>x. m' = Inr x \<Longrightarrow> k x = k' x) \<Longrightarrow> bind_res m k = bind_res m' k'"
  by (cases m') simp_all

lemma map_res_Inr_length: "map_res f xs = Inr ys \<Longrightarrow> length ys = length xs"
  by (induction xs arbitrary: ys) (auto split: sum.splits)

lemma map_res_Inr_nth:
  "map_res f xs = Inr ys \<Longrightarrow> i < length xs \<Longrightarrow> f (xs ! i) = Inr (ys ! i)"
  by (induction xs arbitrary: ys i) (auto split: sum.splits simp: nth_Cons')

lemma map_res_total:
  "(\<And>x. x \<in> set xs \<Longrightarrow> f x = Inr (g x)) \<Longrightarrow> map_res f xs = Inr (map g xs)"
  by (induction xs) auto

lemma fold_res_append:
  "fold_res f (xs @ ys) s =
     (case fold_res f xs s of Inl e \<Rightarrow> Inl e | Inr s' \<Rightarrow> fold_res f ys s')"
  by (induction xs arbitrary: s) (auto split: sum.splits)

lemma fold_res_invariant:
  assumes "fold_res f xs s = Inr s'" "P s"
    and "\<And>x s s'. x \<in> set xs \<Longrightarrow> f x s = Inr s' \<Longrightarrow> P s \<Longrightarrow> P s'"
  shows "P s'"
  using assms
proof (induction xs arbitrary: s)
  case Nil
  then show ?case by simp
next
  case (Cons x xs)
  then obtain s1 where s1: "f x s = Inr s1" "fold_res f xs s1 = Inr s'"
    by (auto split: sum.splits)
  have "P s1" using Cons.prems(3)[OF _ s1(1) Cons.prems(2)] by simp
  then show ?case using Cons.IH[OF s1(2)] Cons.prems(3) by (metis list.set_intros(2))
qed

section \<open>Indexing and slicing\<close>

text \<open>Reading a list outside its range raises; Python slices clamp to the list instead.\<close>

definition nth_res :: "'a list \<Rightarrow> nat \<Rightarrow> 'a res" where
  "nth_res xs i = (if i < length xs then Inr (xs ! i) else Inl IndexError)"

text \<open>Assigning to an element of a list or tensor.\<close>

definition put_res :: "'a list \<Rightarrow> nat \<Rightarrow> 'a \<Rightarrow> 'a list res" where
  "put_res xs i v = (if i < length xs then Inr (xs[i := v]) else Inl IndexError)"

definition slice :: "'a list \<Rightarrow> nat \<Rightarrow> nat \<Rightarrow> 'a list" where
  "slice xs a b = drop a (take b xs)"

lemma nth_res_in [simp]: "i < length xs \<Longrightarrow> nth_res xs i = Inr (xs ! i)"
  by (simp add: nth_res_def)

lemma nth_res_eq_Inr: "nth_res xs i = Inr x \<longleftrightarrow> i < length xs \<and> x = xs ! i"
  by (auto simp: nth_res_def)

lemma put_res_in [simp]: "i < length xs \<Longrightarrow> put_res xs i v = Inr (xs[i := v])"
  by (simp add: put_res_def)

lemma slice_full [simp]: "length xs \<le> b \<Longrightarrow> slice xs 0 b = xs"
  by (simp add: slice_def)

lemma slice_empty [simp]: "slice xs a a = []"
  by (simp add: slice_def)

lemma slice_join: "a \<le> b \<Longrightarrow> b \<le> c \<Longrightarrow> slice xs a b @ slice xs b c = slice xs a c"
proof -
  assume "a \<le> b" "b \<le> c"
  then have "take b xs @ drop b (take c xs) = take c xs"
    by (metis append_take_drop_id min.absorb1 take_take)
  then have "drop a (take b xs @ drop b (take c xs)) = drop a (take c xs)"
    by simp
  moreover have "drop a (take b xs @ drop b (take c xs)) =
      drop a (take b xs) @ drop b (take c xs)"
  proof (cases "b \<le> length xs")
    case True
    then show ?thesis using \<open>a \<le> b\<close> by simp
  next
    case False
    then show ?thesis by simp
  qed
  ultimately show ?thesis by (simp add: slice_def)
qed

lemma length_slice: "length (slice xs a b) = min b (length xs) - a"
  by (simp add: slice_def)

section \<open>Prefix sums\<close>

fun accumulate_from :: "nat \<Rightarrow> nat list \<Rightarrow> nat list" where
  "accumulate_from a [] = []"
| "accumulate_from a (x # xs) = (a + x) # accumulate_from (a + x) xs"

text \<open>\<open>itertools.accumulate\<close> with its default addition.\<close>

definition accumulate :: "nat list \<Rightarrow> nat list" where
  "accumulate xs = accumulate_from 0 xs"

lemma length_accumulate_from [simp]: "length (accumulate_from a xs) = length xs"
  by (induction xs arbitrary: a) auto

lemma length_accumulate [simp]: "length (accumulate xs) = length xs"
  by (simp add: accumulate_def)

lemma nth_accumulate_from:
  "i < length xs \<Longrightarrow> accumulate_from a xs ! i = a + sum_list (take (Suc i) xs)"
proof (induction xs arbitrary: a i)
  case (Cons x xs)
  then show ?case by (cases i) auto
qed simp

lemma nth_accumulate: "i < length xs \<Longrightarrow> accumulate xs ! i = sum_list (take (Suc i) xs)"
  by (simp add: accumulate_def nth_accumulate_from)

lemma nth_zero_accumulate:
  "i \<le> length xs \<Longrightarrow> (0 # accumulate xs) ! i = sum_list (take i xs)"
  by (cases i) (simp_all add: nth_accumulate)

lemma sum_list_take_Suc:
  "i < length xs \<Longrightarrow> sum_list (take (Suc i) xs) = sum_list (take i xs) + (xs ! i :: 'a::comm_monoid_add)"
  by (simp add: take_Suc_conv_app_nth)

lemma sum_list_take_le: "sum_list (take i (xs :: nat list)) \<le> sum_list xs"
  by (metis append_take_drop_id le_add1 sum_list_append)

section \<open>Insertion ordered dictionaries\<close>

text \<open>
  A Python \<open>dict\<close> keeps insertion order: assigning to a present key keeps its place,
  a new key goes to the end. \<open>dict_pop\<close> is \<open>d.pop(k, None)\<close> on the dictionary.
\<close>

type_synonym ('k, 'v) dict = "('k \<times> 'v) list"

fun dict_set :: "'k \<Rightarrow> 'v \<Rightarrow> ('k, 'v) dict \<Rightarrow> ('k, 'v) dict" where
  "dict_set k v [] = [(k, v)]"
| "dict_set k v (p # d) = (if fst p = k then (k, v) # d else p # dict_set k v d)"

definition dict_pop :: "'k \<Rightarrow> ('k, 'v) dict \<Rightarrow> ('k, 'v) dict" where
  "dict_pop k d = filter (\<lambda>p. fst p \<noteq> k) d"

abbreviation dict_keys :: "('k, 'v) dict \<Rightarrow> 'k list" where
  "dict_keys d \<equiv> map fst d"

abbreviation dict_values :: "('k, 'v) dict \<Rightarrow> 'v list" where
  "dict_values d \<equiv> map snd d"

abbreviation dict_get :: "('k, 'v) dict \<Rightarrow> 'k \<Rightarrow> 'v option" where
  "dict_get \<equiv> map_of"

definition dict_at :: "('k, 'v) dict \<Rightarrow> 'k \<Rightarrow> 'v res" where
  "dict_at d k = (case dict_get d k of None \<Rightarrow> Inl KeyError | Some v \<Rightarrow> Inr v)"

lemma dict_get_set [simp]: "dict_get (dict_set k v d) = (dict_get d)(k \<mapsto> v)"
  by (induction d) (auto simp: fun_eq_iff)

lemma dict_set_keys [simp]: "set (dict_keys (dict_set k v d)) = insert k (set (dict_keys d))"
  by (induction d) auto

lemma dict_set_fresh: "k \<notin> set (dict_keys d) \<Longrightarrow> dict_set k v d = d @ [(k, v)]"
  by (induction d) auto

lemma distinct_dict_set [simp]: "distinct (dict_keys d) \<Longrightarrow> distinct (dict_keys (dict_set k v d))"
proof (induction d)
  case (Cons p d)
  have "fst p \<noteq> k \<Longrightarrow> fst p \<notin> set (dict_keys (dict_set k v d))"
    using Cons.prems by (subst dict_set_keys) simp
  then show ?case using Cons by auto
qed simp

lemma dict_pop_keys [simp]: "set (dict_keys (dict_pop k d)) = set (dict_keys d) - {k}"
  by (auto simp: dict_pop_def)

lemma distinct_dict_pop [simp]: "distinct (dict_keys d) \<Longrightarrow> distinct (dict_keys (dict_pop k d))"
  by (induction d) (auto simp: dict_pop_def)

lemma dict_get_pop [simp]: "dict_get (dict_pop k d) = (dict_get d)(k := None)"
  by (induction d) (auto simp: dict_pop_def fun_eq_iff)

lemma dict_keys_images [simp]:
  "fst ` set (dict_pop k d) = fst ` set d - {k}"
  "fst ` set (dict_set k v d) = insert k (fst ` set d)"
  using dict_pop_keys[of k d] dict_set_keys[of k v d] by simp_all

lemma dict_pop_subset: "set (dict_pop k d) \<subseteq> set d"
  by (auto simp: dict_pop_def)

lemma dict_pop_absent: "k \<notin> set (dict_keys d) \<Longrightarrow> dict_pop k d = d"
  by (induction d) (auto simp: dict_pop_def)

lemma sum_dict_set_fresh:
  "k \<notin> set (dict_keys d) \<Longrightarrow> sum_list (dict_values (dict_set k v d)) = sum_list (dict_values d) + (v :: int)"
  by (simp add: dict_set_fresh)

lemma sum_dict_pop:
  "distinct (dict_keys d) \<Longrightarrow> dict_get d k = Some v \<Longrightarrow>
    sum_list (dict_values (dict_pop k d)) = sum_list (dict_values d) - (v :: int)"
proof (induction d)
  case (Cons p d)
  show ?case
  proof (cases "fst p = k")
    case True
    then have "k \<notin> set (dict_keys d)" "snd p = v" using Cons.prems by auto
    then show ?thesis using True dict_pop_absent[of k d] by (simp add: dict_pop_def)
  next
    case False
    then show ?thesis using Cons by (simp add: dict_pop_def)
  qed
qed simp

end
