(* ===== verification/DpMetadata.thy ===== *)
theory DpMetadata
  imports Prelude
begin

text \<open>
  Data parallel metadata, \<^verbatim>\<open>vllm_mlu/mlu_forward_context.py\<close>: the record
  \<^verbatim>\<open>MLUDPMetadata\<close> and its constructor \<^verbatim>\<open>make_oot\<close>, which decides from the
  token counts of the data parallel ranks whether a layer runs with reduce scatter and all
  gather, and how many tokens each card then holds. Token counts are \<open>nat\<close>: they are
  lengths. The field \<open>prefill_pad_to_token_num\<close> is \<open>int\<close> because \<open>-1\<close> is its
  "no padding" value.
\<close>

section \<open>The record\<close>

record dp_metadata =
  token_num :: nat
  token_num_offset :: nat
  layer_use_reduce_scatter :: bool
  prefill_pad_to_token_num :: int
  token_split_list :: "nat list"
  attn_token_split_list_reduce_scatter :: "nat list option"
  moe_token_split_list_reduce_scatter :: "nat list option"
  dp_is_prefill :: "bool list"
  seq_lens :: "nat list option"
  batch_sizes :: "nat list option"
  emb_token_split_list :: "nat list option"
  logits_batch_split_list :: "nat list option"
  dense_attn_token_split_list :: "nat list option"

section \<open>The constructor\<close>

text \<open>
  \<^verbatim>\<open>all(num != 0 and num % tensor_parallel_size == 0 for num in token_split_list)\<close>,
  evaluated left to right: the first zero stops it, and a zero divisor raises when it is reached.
\<close>

fun all_divisible :: "nat \<Rightarrow> nat list \<Rightarrow> bool res" where
  "all_divisible tp [] = Inr True"
| "all_divisible tp (x # xs) =
     (if x = 0 then Inr False
      else if tp = 0 then Inl ZeroDivisionError
      else if x mod tp \<noteq> 0 then Inr False
      else all_divisible tp xs)"

text \<open>The two optimised layouts: reduce scatter for every layer, or padding for prefill.\<close>

definition rs_split_lists ::
  "nat \<Rightarrow> nat \<Rightarrow> nat list \<Rightarrow> bool list \<Rightarrow> bool \<Rightarrow> bool
    \<Rightarrow> (int \<times> nat list option \<times> nat list option) res" where
  "rs_split_lists dp_size tp dp_token_nums is_prefill use_RS_AG layer_rs =
     (let tp_world_size = dp_size * tp in
      if layer_rs then
        (let attn = replicate tp_world_size (hd dp_token_nums div tp)
         in Inr (-1, Some attn, Some (take tp attn)))
      else if use_RS_AG \<and> list_all id is_prefill then
        (if tp = 0 then Inl ZeroDivisionError
         else (let pad = (Max (set dp_token_nums) + tp - 1) div tp * tp
               in Inr (int pad, Some (replicate tp_world_size (pad div tp)), None)))
      else Inr (-1, None, None))"

definition make_oot ::
  "nat \<Rightarrow> nat \<Rightarrow> nat \<Rightarrow> nat list \<Rightarrow> bool list \<Rightarrow> bool \<Rightarrow> nat list option \<Rightarrow> nat list option
    \<Rightarrow> nat list option \<Rightarrow> nat list option \<Rightarrow> nat list option \<Rightarrow> dp_metadata res" where
  "make_oot rank dp_size tp dp_token_nums is_prefill use_RS_AG sls bss emb logits dense =
     bind_res (nth_res dp_token_nums rank) (\<lambda>tn.
     bind_res (all_divisible tp dp_token_nums) (\<lambda>attn_rs.
     let all_equal = list_all (\<lambda>n. n = hd dp_token_nums) dp_token_nums;
         layer_rs = (attn_rs \<and> all_equal)
     in bind_res (rs_split_lists dp_size tp dp_token_nums is_prefill use_RS_AG layer_rs)
       (\<lambda>(pad, attn, moe). Inr
         \<lparr>token_num = tn,
          token_num_offset = sum_list (take rank dp_token_nums),
          layer_use_reduce_scatter = layer_rs,
          prefill_pad_to_token_num = pad,
          token_split_list = dp_token_nums,
          attn_token_split_list_reduce_scatter = attn,
          moe_token_split_list_reduce_scatter = moe,
          dp_is_prefill = is_prefill,
          seq_lens = sls,
          batch_sizes = bss,
          emb_token_split_list = emb,
          logits_batch_split_list = logits,
          dense_attn_token_split_list = dense\<rparr>)))"

section \<open>What the constructor promises\<close>

lemma all_divisible_True:
  "all_divisible tp xs = Inr True \<Longrightarrow> x \<in> set xs \<Longrightarrow> 0 < x \<and> 0 < tp \<and> tp dvd x"
  by (induction xs) (auto split: if_splits)

lemma all_divisible_total: "0 < tp \<Longrightarrow> \<exists>b. all_divisible tp xs = Inr b"
  by (induction xs) auto

lemma rs_split_lists_total:
  "0 < tp \<Longrightarrow> \<exists>r. rs_split_lists dp_size tp ns pre rs lrs = Inr r"
  by (auto simp: rs_split_lists_def Let_def)

lemma make_oot_total:
  assumes "rank < length ns" "0 < tp"
  shows "\<exists>m. make_oot rank dp_size tp ns pre rs sls bss emb logits dense = Inr m"
proof -
  obtain b where "all_divisible tp ns = Inr b" using all_divisible_total[OF assms(2)] by blast
  moreover obtain r where
    "rs_split_lists dp_size tp ns pre rs (b \<and> list_all (\<lambda>n. n = hd ns) ns) = Inr r"
    using rs_split_lists_total[OF assms(2)] by blast
  ultimately show ?thesis using assms(1) by (cases r) (simp add: make_oot_def)
qed

lemma make_oot_fields:
  assumes "make_oot rank dp_size tp ns pre rs sls bss emb logits dense = Inr m"
  shows "rank < length ns" "token_num m = ns ! rank"
    "token_num_offset m = sum_list (take rank ns)" "token_split_list m = ns"
    "seq_lens m = sls" "batch_sizes m = bss" "dp_is_prefill m = pre"
  using assms
  by (auto simp: make_oot_def Let_def bind_res_eq_Inr nth_res_eq_Inr split: prod.splits)

lemma cdiv_mult_ge: "0 < (b :: nat) \<Longrightarrow> a \<le> (a + b - 1) div b * b"
proof -
  assume b: "0 < b"
  have "(a + b - 1) div b * b + (a + b - 1) mod b = a + b - 1" by simp
  moreover have "(a + b - 1) mod b < b" using b by simp
  ultimately show ?thesis using b by linarith
qed

text \<open>The two layouts, as the rest of the system sees them.\<close>

lemma make_oot_layer_rs:
  assumes "make_oot rank dp_size tp ns pre rs sls bss emb logits dense = Inr m"
    and "layer_use_reduce_scatter m"
  shows "\<exists>k. 0 < k \<and> (\<forall>n \<in> set ns. n = k * tp)
    \<and> attn_token_split_list_reduce_scatter m = Some (replicate (dp_size * tp) k)
    \<and> moe_token_split_list_reduce_scatter m = Some (take tp (replicate (dp_size * tp) k))
    \<and> prefill_pad_to_token_num m = -1"
proof -
  have r: "rank < length ns" using make_oot_fields(1)[OF assms(1)] .
  from assms have ad: "all_divisible tp ns = Inr True"
    and eq: "list_all (\<lambda>n. n = hd ns) ns"
    by (auto simp: make_oot_def Let_def bind_res_eq_Inr nth_res_eq_Inr split: prod.splits)
  have hd: "hd ns \<in> set ns" using r by (cases ns) auto
  have k: "0 < hd ns" "0 < tp" "tp dvd hd ns" using all_divisible_True[OF ad hd] by auto
  let ?k = "hd ns div tp"
  have "0 < ?k" using k by (auto simp: dvd_def)
  moreover have "\<forall>n \<in> set ns. n = ?k * tp" using eq k by (auto simp: list_all_iff)
  ultimately show ?thesis using assms ad eq
    by (intro exI[of _ ?k])
      (auto simp: make_oot_def rs_split_lists_def Let_def bind_res_eq_Inr nth_res_eq_Inr)
qed

lemma make_oot_padded:
  assumes "make_oot rank dp_size tp ns pre rs sls bss emb logits dense = Inr m"
    and "prefill_pad_to_token_num m \<noteq> -1"
  shows "\<exists>pad. prefill_pad_to_token_num m = int pad \<and> tp dvd pad \<and> (\<forall>n \<in> set ns. n \<le> pad)
    \<and> \<not> layer_use_reduce_scatter m \<and> list_all id pre
    \<and> attn_token_split_list_reduce_scatter m = Some (replicate (dp_size * tp) (pad div tp))"
proof -
  obtain b where b: "all_divisible tp ns = Inr b"
    and rs: "rs_split_lists dp_size tp ns pre rs (b \<and> list_all (\<lambda>n. n = hd ns) ns)
      = Inr (prefill_pad_to_token_num m, attn_token_split_list_reduce_scatter m,
             moe_token_split_list_reduce_scatter m)"
    and l: "layer_use_reduce_scatter m = (b \<and> list_all (\<lambda>n. n = hd ns) ns)"
    using assms(1) by (auto simp: make_oot_def Let_def bind_res_eq_Inr nth_res_eq_Inr)
  let ?pad = "(Max (set ns) + tp - 1) div tp * tp"
  have facts: "0 < tp" "\<not> layer_use_reduce_scatter m" "list_all id pre"
    "prefill_pad_to_token_num m = int ?pad"
    "attn_token_split_list_reduce_scatter m = Some (replicate (dp_size * tp) (?pad div tp))"
    using rs assms(2) l by (auto simp: rs_split_lists_def Let_def split: if_splits)
  have "n \<le> ?pad" if "n \<in> set ns" for n
    using that cdiv_mult_ge[OF facts(1), of "Max (set ns)"]
    by (meson List.finite_set Max_ge le_trans)
  then show ?thesis using facts by (intro exI[of _ ?pad]) auto
qed

text \<open>
  The data parallel layouts lose no token. When \<open>make_oot\<close> selects reduce scatter for
  the layers, the per card counts it announces for the attention all gather add up to exactly
  the tokens of all ranks and no padding is announced; when it announces a prefill padding, every
  rank fits into the padded size, the size is divisible by the tensor parallel size, and the per
  card counts add up to one padded block per rank. The rank's own window lies inside the total.
\<close>
theorem make_oot_conserves_tokens:
  assumes "make_oot rank (length ns) tp ns pre rs sls bss emb logits dense = Inr m"
  shows "token_num_offset m + token_num m \<le> sum_list ns
    \<and> (layer_use_reduce_scatter m \<longrightarrow> prefill_pad_to_token_num m = -1
        \<and> (\<exists>cards. attn_token_split_list_reduce_scatter m = Some cards
            \<and> length cards = length ns * tp \<and> sum_list cards = sum_list ns))
    \<and> (prefill_pad_to_token_num m \<noteq> -1 \<longrightarrow>
        (\<exists>pad cards. prefill_pad_to_token_num m = int pad \<and> tp dvd pad
            \<and> list_all (\<lambda>n. n \<le> pad) ns
            \<and> attn_token_split_list_reduce_scatter m = Some cards
            \<and> length cards = length ns * tp \<and> sum_list cards = length ns * pad))"
proof (intro conjI impI)
  note f = make_oot_fields[OF assms]
  have "token_num_offset m + token_num m = sum_list (take (Suc rank) ns)"
    using f by (simp add: sum_list_take_Suc)
  then show "token_num_offset m + token_num m \<le> sum_list ns" using sum_list_take_le by metis
next
  assume "layer_use_reduce_scatter m"
  then obtain k where k: "\<forall>n \<in> set ns. n = k * tp"
    "attn_token_split_list_reduce_scatter m = Some (replicate (length ns * tp) k)"
    "prefill_pad_to_token_num m = -1"
    using make_oot_layer_rs[OF assms] by blast
  have "map (\<lambda>n. n) ns = map (\<lambda>n. k * tp) ns" using k(1) by (intro map_cong) auto
  then have "sum_list (map (\<lambda>n. n) ns) = sum_list (map (\<lambda>n. k * tp) ns)" by (rule arg_cong)
  then have "sum_list ns = length ns * (k * tp)" by (simp add: sum_list_triv)
  then show "\<exists>cards. attn_token_split_list_reduce_scatter m = Some cards
      \<and> length cards = length ns * tp \<and> sum_list cards = sum_list ns"
    using k(2) by (simp add: sum_list_replicate mult_ac)
  show "prefill_pad_to_token_num m = -1" by (rule k(3))
next
  assume "prefill_pad_to_token_num m \<noteq> -1"
  then obtain pad where pad: "prefill_pad_to_token_num m = int pad" "tp dvd pad"
    "\<forall>n \<in> set ns. n \<le> pad"
    "attn_token_split_list_reduce_scatter m = Some (replicate (length ns * tp) (pad div tp))"
    using make_oot_padded[OF assms] by blast
  show "\<exists>pad cards. prefill_pad_to_token_num m = int pad \<and> tp dvd pad
      \<and> list_all (\<lambda>n. n \<le> pad) ns
      \<and> attn_token_split_list_reduce_scatter m = Some cards
      \<and> length cards = length ns * tp \<and> sum_list cards = length ns * pad"
    using pad by (intro exI[of _ pad] exI[of _ "replicate (length ns * tp) (pad div tp)"])
      (auto simp: list_all_iff sum_list_replicate dvd_def)
qed

lemma make_oot_conserves_tokens_witness:
  "\<exists>m. make_oot 1 2 4 [10, 7] [True, True] True None None None None None = Inr m
    \<and> prefill_pad_to_token_num m = 12 \<and> token_num_offset m + token_num m \<le> 17"
proof -
  let ?r = "make_oot 1 (length [10 :: nat, 7]) 4 [10, 7] [True, True] True None None None None None"
  have "\<exists>m. ?r = Inr m \<and> prefill_pad_to_token_num m = 12"
    by (simp add: make_oot_def rs_split_lists_def)
  then obtain m where m: "?r = Inr m" "prefill_pad_to_token_num m = 12" by blast
  show ?thesis using make_oot_conserves_tokens[OF m(1)] m
    by (intro exI[of _ m]) (simp add: numeral_2_eq_2)
qed

end
