(* ===== verification/Partition.thy ===== *)
theory Partition
  imports DpMetadata
begin

text \<open>
  Work partition for the merged compute and communication mode,
  \<^verbatim>\<open>vllm_mlu/model_executor/models/partition_utils.py\<close>: the near equal split of a
  count, the plan that chooses the dimension to split, and the split of the data parallel
  metadata, of the input, of the positions and of the attention metadata. The near equal split
  is the interface (locale \<open>splitter\<close>): the clients only use that the parts add up and
  that the offsets are their prefix sums.
\<close>

section \<open>The near equal split\<close>

definition get_data_num_and_offset :: "nat \<Rightarrow> nat \<Rightarrow> (nat list \<times> nat list) res" where
  "get_data_num_and_offset total_size parts_to_split =
     (if parts_to_split = 0 then Inl ZeroDivisionError
      else (let quotient = total_size div parts_to_split;
                remainder = total_size mod parts_to_split;
                data_num_list = replicate remainder (quotient + 1)
                  @ replicate (parts_to_split - remainder) quotient;
                offset_list = 0 # accumulate data_num_list
            in Inr (data_num_list, butlast offset_list)))"

locale splitter =
  fixes split :: "nat \<Rightarrow> nat \<Rightarrow> (nat list \<times> nat list) res"
  assumes split_zero: "split tot 0 = Inl ZeroDivisionError"
    and split_ok: "0 < parts \<Longrightarrow> \<exists>nums offs. split tot parts = Inr (nums, offs)"
    and split_length: "split tot parts = Inr (nums, offs) \<Longrightarrow> length nums = parts"
    and split_sum: "split tot parts = Inr (nums, offs) \<Longrightarrow> sum_list nums = tot"
    and split_offsets: "split tot parts = Inr (nums, offs) \<Longrightarrow>
      offs = map (\<lambda>i. sum_list (take i nums)) [0..<parts]"
    and split_even: "split tot parts = Inr (nums, offs) \<Longrightarrow> n \<in> set nums \<Longrightarrow>
      n = tot div parts \<or> n = tot div parts + 1"
begin

lemma split_pos: "split tot parts = Inr (nums, offs) \<Longrightarrow> 0 < parts"
  using split_zero by (cases parts) auto

lemma offsets_nth:
  "split tot parts = Inr (nums, offs) \<Longrightarrow> i < parts \<Longrightarrow> offs ! i = sum_list (take i nums)"
  by (drule split_offsets) simp

lemma offsets_length: "split tot parts = Inr (nums, offs) \<Longrightarrow> length offs = parts"
  by (drule split_offsets) simp

lemma part_end_le:
  assumes "split tot parts = Inr (nums, offs)" "i < parts"
  shows "offs ! i + nums ! i \<le> tot"
proof -
  have "offs ! i + nums ! i = sum_list (take (Suc i) nums)"
    using assms by (simp add: offsets_nth sum_list_take_Suc split_length)
  also have "\<dots> \<le> sum_list nums" by (rule sum_list_take_le)
  finally show ?thesis using split_sum[OF assms(1)] by simp
qed

text \<open>Cutting a list at the offsets gives back the list: nothing lost, nothing twice.\<close>

lemma slices_upto:
  assumes "split tot parts = Inr (nums, offs)" "k \<le> parts"
  shows "concat (map (\<lambda>i. slice xs (offs ! i) (offs ! i + nums ! i)) [0..<k]) =
    slice xs 0 (sum_list (take k nums))"
  using assms(2)
proof (induction k)
  case 0
  then show ?case by simp
next
  case (Suc k)
  have o: "offs ! k = sum_list (take k nums)" using assms(1) Suc.prems by (simp add: offsets_nth)
  have n: "sum_list (take (Suc k) nums) = offs ! k + nums ! k"
    using assms(1) Suc.prems o by (simp add: sum_list_take_Suc split_length)
  show ?case using Suc o n slice_join[of 0 "offs ! k" "offs ! k + nums ! k" xs] by simp
qed

lemma slices_cover:
  assumes "split tot parts = Inr (nums, offs)" "length xs = tot"
  shows "concat (map (\<lambda>i. slice xs (offs ! i) (offs ! i + nums ! i)) [0..<parts]) = xs"
  using slices_upto[OF assms(1) le_refl, of xs] assms split_length[OF assms(1)] split_sum[OF assms(1)]
  by simp

lemma slice_part_length:
  assumes "split tot parts = Inr (nums, offs)" "length xs = tot" "i < parts"
  shows "length (slice xs (offs ! i) (offs ! i + nums ! i)) = nums ! i"
  using part_end_le[OF assms(1,3)] assms(2) by (simp add: length_slice)

end

lemma get_data_num_and_offset_sum:
  assumes "0 < (p :: nat)"
  shows "sum_list (replicate (t mod p) (t div p + 1) @ replicate (p - t mod p) (t div p)) = t"
proof -
  have "t mod p \<le> p" using assms by (simp add: less_imp_le)
  then have "(t mod p) * (t div p) + (p - t mod p) * (t div p) = p * (t div p)"
    by (metis add_mult_distrib le_add_diff_inverse)
  then have "t mod p + ((t mod p) * (t div p) + (p - t mod p) * (t div p)) = t"
    by (simp only:) simp
  then show ?thesis by (simp add: sum_list_replicate)
qed

lemma butlast_offsets:
  "butlast (0 # accumulate nums) = map (\<lambda>i. sum_list (take i nums)) [0..<length nums]"
  by (rule nth_equalityI) (simp_all only: length_butlast nth_butlast, simp_all add: nth_zero_accumulate del: butlast.simps)

interpretation gd: splitter get_data_num_and_offset
proof
  fix tot parts :: nat and nums offs :: "nat list" and n :: nat
  show "get_data_num_and_offset tot 0 = Inl ZeroDivisionError"
    by (simp add: get_data_num_and_offset_def)
  show "\<exists>nums offs. get_data_num_and_offset tot parts = Inr (nums, offs)" if "0 < parts"
    using that by (simp add: get_data_num_and_offset_def Let_def)
  assume s: "get_data_num_and_offset tot parts = Inr (nums, offs)"
  then have p: "0 < parts" by (auto simp: get_data_num_and_offset_def split: if_splits)
  have n: "nums = replicate (tot mod parts) (tot div parts + 1)
      @ replicate (parts - tot mod parts) (tot div parts)"
    using s p by (auto simp: get_data_num_and_offset_def Let_def)
  have mle: "tot mod parts \<le> parts" using p by (simp add: less_imp_le)
  show l: "length nums = parts" using n mle by simp
  show "sum_list nums = tot" using n get_data_num_and_offset_sum[OF p] by simp
  have "offs = butlast (0 # accumulate nums)"
    using s p n by (auto simp: get_data_num_and_offset_def Let_def)
  then show "offs = map (\<lambda>i. sum_list (take i nums)) [0..<parts]"
    by (simp only: butlast_offsets l)
  show "n = tot div parts \<or> n = tot div parts + 1" if "n \<in> set nums"
    using that n by (auto split: if_splits)
qed

section \<open>Attention metadata\<close>

text \<open>
  Tensors of one dimension are lists. The metadata object of a step is absent, one layer's
  metadata (dummy runs), or a dictionary from layer names to metadata objects; a dictionary
  value carries the identity of the object it refers to, since the code compares identities.
  The field \<open>decode\<close> is an opaque object of another module that is passed on unread.
\<close>

datatype infer_mode = CHUNKED | PREFILL_ONLY | DECODE_ONLY

record common_md =
  cm_query_start_loc :: "int list"
  cm_query_start_loc_cpu :: "int list"
  cm_seq_lens :: "int list"
  cm_seq_lens_cpu :: "int list"
  cm_num_computed_tokens_cpu :: "int list"
  cm_num_reqs :: nat
  cm_num_actual_tokens :: nat
  cm_max_query_len :: int
  cm_max_seq_len :: int
  cm_block_table_tensor :: "int list list"
  cm_slot_mapping :: "int list"
  cm_seq_start_loc :: "int list"
  cm_num_input_tokens :: nat
  cm_infer_mode :: "infer_mode option"
  cm_num_prefill_query_tokens :: nat
  cm_num_prefill_kv_tokens :: nat

record prefill_md =
  pf_block_table :: "int list list"
  pf_query_start_loc :: "int list"
  pf_max_query_len :: int
  pf_chunked_context :: "unit option"
  pf_num_prefills :: nat
  pf_max_seq_len :: int
  pf_cu_seqlens_kv :: "int list option"

record 'd layer_md =
  lm_num_reqs :: nat
  lm_max_query_len :: int
  lm_max_seq_len :: int
  lm_num_actual_tokens :: nat
  lm_query_start_loc :: "int list option"
  lm_slot_mapping :: "int list"
  lm_num_decodes :: nat
  lm_num_decode_tokens :: nat
  lm_num_prefills :: "nat option"
  lm_num_prefill_tokens :: nat
  lm_head_dim :: "nat option"
  lm_decode :: 'd
  lm_prefill :: "prefill_md option"

datatype 'd md_val = CommonV common_md | LayerV "'d layer_md"

datatype 'd attn_md =
    MdNone
  | MdLayer "'d layer_md"
  | MdDict "(string \<times> nat \<times> 'd md_val) list"

definition COMMON_METADATA_STR :: string where
  "COMMON_METADATA_STR = ''common_metadata''"

definition SEQUENCE_DIM_PARITION_THRESHOLD :: nat where
  "SEQUENCE_DIM_PARITION_THRESHOLD = 1024"

text \<open>
  A value of the wrong class fails at the first attribute the code reads, which is an
  \<open>AttributeError\<close>. \<^verbatim>\<open>next(..., None)\<close> takes the first entry under another key.
\<close>

definition get_common_and_layer_metadata ::
  "'d attn_md \<Rightarrow> (common_md option \<times> 'd layer_md option) res" where
  "get_common_and_layer_metadata attn_metadata =
     (case attn_metadata of
        MdNone \<Rightarrow> Inr (None, None)
      | MdLayer l \<Rightarrow> Inr (None, Some l)
      | MdDict d \<Rightarrow>
          require (COMMON_METADATA_STR \<in> set (dict_keys d)) AssertionError
          (require (card (set (map (\<lambda>(k, i, v). i) d)) = 2) AssertionError
          (case dict_get d COMMON_METADATA_STR of
             Some (_, CommonV c) \<Rightarrow>
               (case find (\<lambda>(k, i, v). k \<noteq> COMMON_METADATA_STR) d of
                  None \<Rightarrow> Inr (Some c, None)
                | Some (_, _, LayerV l) \<Rightarrow> Inr (Some c, Some l)
                | Some (_, _, CommonV _) \<Rightarrow> Inl AttributeError)
           | _ \<Rightarrow> Inl AttributeError)))"

definition is_prefill_only :: "common_md \<Rightarrow> bool" where
  "is_prefill_only c = (cm_infer_mode c = Some PREFILL_ONLY)"

definition should_skip_partition :: "'d layer_md option \<Rightarrow> common_md option \<Rightarrow> bool" where
  "should_skip_partition layer_metadata common_metadata =
     ((case layer_metadata of
         None \<Rightarrow> True
       | Some l \<Rightarrow> lm_prefill l = None
           \<or> (case lm_query_start_loc l of None \<Rightarrow> True | Some q \<Rightarrow> q = []))
      \<or> (case common_metadata of None \<Rightarrow> True | Some c \<Rightarrow> \<not> is_prefill_only c))"

section \<open>The plan\<close>

text \<open>\<^verbatim>\<open>torch.diff\<close> of a tensor of one dimension, and Python's \<^verbatim>\<open>max\<close> of a list.\<close>

fun diff :: "int list \<Rightarrow> int list" where
  "diff (x # y # ys) = (y - x) # diff (y # ys)"
| "diff xs = []"

definition max_res :: "nat list option \<Rightarrow> nat res" where
  "max_res xs = (case xs of None \<Rightarrow> Inl TypeError
     | Some ys \<Rightarrow> if ys = [] then Inl ValueError else Inr (Max (set ys)))"

definition attn_mcc_plan ::
  "'d attn_md \<Rightarrow> dp_metadata option \<Rightarrow> nat \<Rightarrow> (nat \<times> nat) res" where
  "attn_mcc_plan attn_metadata dp_params parts_to_split =
     bind_res (get_common_and_layer_metadata attn_metadata) (\<lambda>(common_metadata, layer_metadata).
     case dp_params of
       None \<Rightarrow>
         if should_skip_partition layer_metadata common_metadata then Inr (1, 1)
         else (let qsl = the (lm_query_start_loc (the layer_metadata));
                   num_prefills = length qsl - 1
               in if 1 < num_prefills then Inr (min parts_to_split num_prefills, 1)
                  else if diff qsl = [] then Inr (1, 1)
                  else (let max_query_len = Max (set (diff qsl))
                        in if max_query_len < int SEQUENCE_DIM_PARITION_THRESHOLD then Inr (1, 1)
                           else Inr (1, min parts_to_split (nat max_query_len))))
     | Some p \<Rightarrow>
         if \<not> list_all id (dp_is_prefill p) then Inr (1, 1)
         else bind_res (max_res (batch_sizes p)) (\<lambda>max_bs.
              bind_res (max_res (Some (token_split_list p))) (\<lambda>max_tokens.
              if 1 < max_bs then
                (if max_tokens < SEQUENCE_DIM_PARITION_THRESHOLD then Inr (1, 1)
                 else Inr (min parts_to_split max_bs, 1))
              else
                (if max_tokens < SEQUENCE_DIM_PARITION_THRESHOLD then Inr (1, 1)
                 else Inr (1, parts_to_split)))))"

section \<open>Splitting the data parallel metadata\<close>

text \<open>
  Sequence split: rank \<open>i\<close> holds at most one sequence; \<open>bs_offset\<close> walks over the
  ranks that hold one. A rank without a sequence contributes zeros.
\<close>

fun query_lens_per_rank :: "nat \<Rightarrow> nat list \<Rightarrow> nat list \<Rightarrow> nat \<Rightarrow> nat list \<Rightarrow> nat list list res" where
  "query_lens_per_rank parts bss sls bs_offset [] = Inr []"
| "query_lens_per_rank parts bss sls bs_offset (i # is) =
     bind_res (nth_res bss i) (\<lambda>bs.
     if 0 < bs then
       bind_res (nth_res sls bs_offset) (\<lambda>seq_len.
       bind_res (get_data_num_and_offset seq_len parts) (\<lambda>(tokens, _).
       bind_res (query_lens_per_rank parts bss sls (bs_offset + bs) is) (\<lambda>rest.
       Inr (tokens # rest))))
     else
       bind_res (query_lens_per_rank parts bss sls bs_offset is) (\<lambda>rest.
       Inr (replicate parts 0 # rest)))"

definition split_dp_params_seq ::
  "nat \<Rightarrow> nat \<Rightarrow> nat \<Rightarrow> bool \<Rightarrow> nat \<Rightarrow> nat list \<Rightarrow> nat list \<Rightarrow> dp_metadata list res" where
  "split_dp_params_seq parts dp_size tp use_RS_AG rank sls bss =
     bind_res (map_res (\<lambda>s. get_data_num_and_offset s parts) sls) (\<lambda>splits.
     bind_res (query_lens_per_rank parts bss sls 0 [0..<dp_size]) (\<lambda>per_rank.
     map_res (\<lambda>i. make_oot rank dp_size tp
         (map (\<lambda>j. per_rank ! j ! i) [0..<dp_size])
         (replicate dp_size True) use_RS_AG
         (Some (map (\<lambda>s. fst s ! i) splits)) (Some bss) None None None)
       [0..<parts]))"

text \<open>
  Batch split: the sequences of rank \<open>r\<close> are the slice of \<open>seq_lens\<close> behind those of
  the ranks before it; part \<open>i\<close> of rank \<open>r\<close> is a slice of that slice.
\<close>

definition split_rank_batches ::
  "nat \<Rightarrow> nat list \<Rightarrow> nat list \<Rightarrow> nat \<Rightarrow> (nat list \<times> nat list list) res" where
  "split_rank_batches parts bss sls r =
     bind_res (nth_res bss r) (\<lambda>bs.
     bind_res (get_data_num_and_offset bs parts) (\<lambda>(nums, offs).
     let base = sum_list (take r bss)
     in Inr (nums, map (\<lambda>i. slice sls (base + offs ! i) (base + offs ! i + nums ! i)) [0..<parts])))"

definition split_dp_params_batch ::
  "nat \<Rightarrow> nat \<Rightarrow> nat \<Rightarrow> bool \<Rightarrow> nat \<Rightarrow> nat list \<Rightarrow> nat list \<Rightarrow> dp_metadata list res" where
  "split_dp_params_batch parts dp_size tp use_RS_AG rank sls bss =
     bind_res (map_res (split_rank_batches parts bss sls) [0..<dp_size]) (\<lambda>ranks.
     map_res (\<lambda>i. make_oot rank dp_size tp
         (map (\<lambda>r. sum_list (snd (ranks ! r) ! i)) [0..<dp_size])
         (replicate dp_size True) use_RS_AG
         (Some (concat (map (\<lambda>r. snd (ranks ! r) ! i) [0..<dp_size])))
         (Some (map (\<lambda>r. fst (ranks ! r) ! i) [0..<dp_size])) None None None)
       [0..<parts])"

definition split_dp_params ::
  "dp_metadata option \<Rightarrow> nat \<Rightarrow> nat \<Rightarrow> nat \<Rightarrow> nat \<Rightarrow> bool \<Rightarrow> nat \<Rightarrow> dp_metadata option list res" where
  "split_dp_params dp_params bs_parts seq_parts dp_size tp use_RS_AG rank =
     require (bs_parts = 1 \<or> seq_parts = 1) AssertionError
     (case dp_params of
        None \<Rightarrow> Inr (replicate (bs_parts * seq_parts) None)
      | Some p \<Rightarrow>
          if bs_parts * seq_parts = 1 then Inr [Some p]
          else (case (seq_lens p, batch_sizes p) of
            (Some sls, Some bss) \<Rightarrow>
              bind_res
                (if bs_parts = 1 then split_dp_params_seq seq_parts dp_size tp use_RS_AG rank sls bss
                 else split_dp_params_batch bs_parts dp_size tp use_RS_AG rank sls bss)
                (\<lambda>ms. Inr (map Some ms))
          | _ \<Rightarrow> Inl TypeError))"

section \<open>Splitting the input and the positions\<close>

definition token_counts :: "'a list \<Rightarrow> 'd attn_md list \<Rightarrow> nat list res" where
  "token_counts inp mds =
     map_res (\<lambda>(i, md). bind_res (get_common_and_layer_metadata md) (\<lambda>(_, layer_metadata).
       Inr (case layer_metadata of Some l \<Rightarrow> lm_num_actual_tokens l
            | None \<Rightarrow> if i = 0 then length inp else 0)))
     (enumerate 0 mds)"

definition split_input ::
  "'a list option \<Rightarrow> nat \<Rightarrow> nat \<Rightarrow> 'd attn_md list \<Rightarrow> 'a list option list res" where
  "split_input inp bs_parts seq_parts attn_metadata_list =
     require (seq_parts = 1 \<or> bs_parts = 1) AssertionError
     (case inp of
        None \<Rightarrow> Inr (replicate (bs_parts * seq_parts) None)
      | Some xs \<Rightarrow>
          if bs_parts * seq_parts = 1 then Inr [Some xs]
          else bind_res (token_counts xs attn_metadata_list) (\<lambda>token_num_list.
            map_res (\<lambda>i. bind_res (nth_res token_num_list i) (\<lambda>n.
                let start = sum_list (take i token_num_list)
                in Inr (Some (slice xs start (start + n)))))
              [0..<bs_parts * seq_parts]))"

definition split_positions ::
  "'a list \<Rightarrow> nat \<Rightarrow> nat \<Rightarrow> 'd attn_md \<Rightarrow> 'a list list res" where
  "split_positions positions bs_parts seq_parts attn_metadata =
     (if seq_parts = 1 then Inr (replicate bs_parts positions)
      else bind_res (get_common_and_layer_metadata attn_metadata) (\<lambda>(_, layer_metadata).
        let total_tokens = (case layer_metadata of Some l \<Rightarrow> lm_num_actual_tokens l | None \<Rightarrow> 0)
        in bind_res (get_data_num_and_offset total_tokens seq_parts) (\<lambda>(tokens, offsets).
          Inr (map (\<lambda>i. slice positions (offsets ! i) (offsets ! i + tokens ! i)) [0..<seq_parts]))))"

section \<open>Splitting the attention metadata\<close>

text \<open>
  \<^verbatim>\<open>torch.empty_like\<close> leaves the contents of the new tensor unspecified: the
  parameter \<open>uninit\<close> is whatever the memory holds. Writing past the end raises.
\<close>

definition empty_like :: "(nat \<Rightarrow> int) \<Rightarrow> int list \<Rightarrow> int list" where
  "empty_like uninit xs = map uninit [0..<length xs]"

definition set_pair :: "int list \<Rightarrow> int \<Rightarrow> int \<Rightarrow> int list res" where
  "set_pair xs a b = (if 2 \<le> length xs then Inr (xs[0 := a, 1 := b]) else Inl IndexError)"

text \<open>One part of the sequence split: tokens \<open>off\<close> to \<open>off + n\<close> of the one sequence.\<close>

definition seq_part_common :: "(nat \<Rightarrow> int) \<Rightarrow> common_md \<Rightarrow> nat \<Rightarrow> nat \<Rightarrow> common_md res" where
  "seq_part_common uninit c off n =
     bind_res (set_pair (empty_like uninit (cm_query_start_loc c)) 0 (int n)) (\<lambda>qsl.
     bind_res (set_pair (empty_like uninit (cm_seq_start_loc c)) (int off) (int (off + n))) (\<lambda>ssl.
     Inr \<lparr>cm_query_start_loc = qsl,
          cm_query_start_loc_cpu = cm_query_start_loc_cpu c,
          cm_seq_lens = [int (off + n)],
          cm_seq_lens_cpu = cm_seq_lens_cpu c,
          cm_num_computed_tokens_cpu = cm_num_computed_tokens_cpu c,
          cm_num_reqs = cm_num_reqs c,
          cm_num_actual_tokens = n,
          cm_max_query_len = int n,
          cm_max_seq_len = int n,
          cm_block_table_tensor = cm_block_table_tensor c,
          cm_slot_mapping = cm_slot_mapping c,
          cm_seq_start_loc = ssl,
          cm_num_input_tokens = n,
          cm_infer_mode = cm_infer_mode c,
          cm_num_prefill_query_tokens = n,
          cm_num_prefill_kv_tokens = off + n\<rparr>))"

definition seq_part_layer ::
  "(nat \<Rightarrow> int) \<Rightarrow> common_md \<Rightarrow> 'd layer_md \<Rightarrow> nat \<Rightarrow> nat \<Rightarrow> 'd layer_md res" where
  "seq_part_layer uninit sub l off n =
     (case lm_num_prefills l of None \<Rightarrow> Inl ValueError | Some np \<Rightarrow>
      require (lm_num_decodes l = 0 \<and> lm_num_decode_tokens l = 0 \<and> np = 1) AssertionError
      (case lm_prefill l of None \<Rightarrow> Inl AttributeError | Some pf \<Rightarrow>
       require (pf_chunked_context pf = None) AssertionError
       (bind_res (set_pair (empty_like uninit (cm_query_start_loc sub)) 0 (int (off + n))) (\<lambda>kv.
        Inr \<lparr>lm_num_reqs = lm_num_reqs l,
             lm_max_query_len = int n,
             lm_max_seq_len = int n,
             lm_num_actual_tokens = n,
             lm_query_start_loc = Some (cm_query_start_loc sub),
             lm_slot_mapping = slice (lm_slot_mapping l) off (off + n),
             lm_num_decodes = lm_num_decodes l,
             lm_num_decode_tokens = lm_num_decode_tokens l,
             lm_num_prefills = Some np,
             lm_num_prefill_tokens = n,
             lm_head_dim = lm_head_dim l,
             lm_decode = lm_decode l,
             lm_prefill = Some
               \<lparr>pf_block_table = pf_block_table pf,
                pf_query_start_loc = cm_query_start_loc sub,
                pf_max_query_len = int n,
                pf_chunked_context = None,
                pf_num_prefills = pf_num_prefills pf,
                pf_max_seq_len = pf_max_seq_len pf,
                pf_cu_seqlens_kv = Some kv\<rparr>\<rparr>))))"

text \<open>
  One part of the batch split: sequences \<open>start\<close> to \<open>start + bs\<close>; the start locations are
  rebased so that the part begins at 0. \<open>done\<close> is the number of tokens of the parts before it.
\<close>

definition batch_part_common :: "common_md \<Rightarrow> nat \<Rightarrow> nat \<Rightarrow> nat \<Rightarrow> common_md res" where
  "batch_part_common c i start bs =
     bind_res
       (if 0 < i then bind_res (nth_res (cm_query_start_loc c) start) (\<lambda>base.
            Inr (map (\<lambda>x. x - base) (slice (cm_query_start_loc c) start (start + bs + 1))))
        else Inr (slice (cm_query_start_loc c) start (start + bs + 1))) (\<lambda>qsl.
     let sl = slice (cm_seq_lens c) start (start + bs);
         max_query_len = (if sl = [] then 0 else Max (set sl))
     in require (qsl \<noteq> []) IndexError
        (Inr \<lparr>cm_query_start_loc = qsl,
          cm_query_start_loc_cpu = cm_query_start_loc_cpu c,
          cm_seq_lens = sl,
          cm_seq_lens_cpu = cm_seq_lens_cpu c,
          cm_num_computed_tokens_cpu = cm_num_computed_tokens_cpu c,
          cm_num_reqs = cm_num_reqs c,
          cm_num_actual_tokens = nat (last qsl),
          cm_max_query_len = max_query_len,
          cm_max_seq_len = max_query_len,
          cm_block_table_tensor = cm_block_table_tensor c,
          cm_slot_mapping = cm_slot_mapping c,
          cm_seq_start_loc = qsl,
          cm_num_input_tokens = nat (last qsl),
          cm_infer_mode = cm_infer_mode c,
          cm_num_prefill_query_tokens = nat (last qsl),
          cm_num_prefill_kv_tokens = nat (last qsl)\<rparr>))"

definition batch_part_layer :: "common_md \<Rightarrow> 'd layer_md \<Rightarrow> nat \<Rightarrow> nat \<Rightarrow> 'd layer_md" where
  "batch_part_layer sub l before bs =
     \<lparr>lm_num_reqs = bs,
      lm_max_query_len = cm_max_query_len sub,
      lm_max_seq_len = cm_max_query_len sub,
      lm_num_actual_tokens = cm_num_actual_tokens sub,
      lm_query_start_loc = Some (cm_query_start_loc sub),
      lm_slot_mapping = slice (lm_slot_mapping l) before (before + cm_num_actual_tokens sub),
      lm_num_decodes = lm_num_decodes l,
      lm_num_decode_tokens = 0,
      lm_num_prefills = Some bs,
      lm_num_prefill_tokens = cm_num_actual_tokens sub,
      lm_head_dim = lm_head_dim l,
      lm_decode = lm_decode l,
      lm_prefill = Some
        \<lparr>pf_block_table = replicate bs [],
         pf_query_start_loc = cm_query_start_loc sub,
         pf_max_query_len = cm_max_query_len sub,
         pf_chunked_context = None,
         pf_num_prefills = bs,
         pf_max_seq_len = cm_max_query_len sub,
         pf_cu_seqlens_kv = None\<rparr>\<rparr>"

text \<open>The parts in order, each with its common metadata; \<open>before\<close> counts the tokens so far.\<close>

fun batch_parts ::
  "common_md \<Rightarrow> 'd layer_md \<Rightarrow> nat \<Rightarrow> nat \<Rightarrow> (nat \<times> nat) list \<Rightarrow> (common_md \<times> 'd layer_md) list res" where
  "batch_parts c l i before [] = Inr []"
| "batch_parts c l i before ((start, bs) # ps) =
     bind_res (if lm_prefill l = None then Inl AttributeError else Inr ()) (\<lambda>_.
     bind_res (batch_part_common c i start bs) (\<lambda>sub.
     bind_res (batch_parts c l (Suc i) (before + cm_num_actual_tokens sub) ps) (\<lambda>rest.
     Inr ((sub, batch_part_layer sub l before bs) # rest))))"

text \<open>The dictionary of a part: the same keys, the common object and one layer object.\<close>

definition part_dict ::
  "(string \<times> nat \<times> 'd md_val) list \<Rightarrow> common_md \<Rightarrow> 'd layer_md \<Rightarrow> 'd attn_md" where
  "part_dict d c l = MdDict (map (\<lambda>(k, _, _).
     if k = COMMON_METADATA_STR then (k, 0, CommonV c) else (k, 1, LayerV l)) d)"

definition split_attn_metadata ::
  "(nat \<Rightarrow> int) \<Rightarrow> 'd attn_md \<Rightarrow> nat \<Rightarrow> nat \<Rightarrow> 'd attn_md list res" where
  "split_attn_metadata uninit attn_metadata bs_parts seq_parts =
     require (bs_parts = 1 \<or> seq_parts = 1) AssertionError
     (if bs_parts = 1 \<and> seq_parts = 1 then Inr [attn_metadata]
      else case attn_metadata of
        MdNone \<Rightarrow> Inr (replicate (bs_parts * seq_parts) MdNone)
      | MdLayer l \<Rightarrow>
          if 1 < seq_parts then Inl ValueError
          else if 1 < bs_parts then
            (if lm_num_prefills l = None then Inl ValueError else Inl AttributeError)
          else Inl TypeError \<comment> \<open>the code returns \<open>None\<close> here and its callers raise\<close>
      | MdDict d \<Rightarrow>
          if seq_parts \<le> 1 \<and> bs_parts \<le> 1 then Inl TypeError
          else
          bind_res (get_common_and_layer_metadata attn_metadata) (\<lambda>(cm, lm).
          case (cm, lm) of
            (Some c, Some l) \<Rightarrow>
              bind_res
                (if 1 < seq_parts then
                   bind_res (get_data_num_and_offset (cm_num_actual_tokens c) seq_parts) (\<lambda>(tokens, offsets).
                   map_res (\<lambda>i. bind_res (seq_part_common uninit c (offsets ! i) (tokens ! i)) (\<lambda>sub.
                       bind_res (seq_part_layer uninit sub l (offsets ! i) (tokens ! i)) (\<lambda>sl.
                       Inr (sub, sl))))
                     [0..<seq_parts])
                 else
                   (case lm_num_prefills l of None \<Rightarrow> Inl ValueError | Some tot_batch \<Rightarrow>
                    bind_res (get_data_num_and_offset tot_batch bs_parts) (\<lambda>(nums, offsets).
                    batch_parts c l 0 0 (zip offsets nums))))
                (\<lambda>parts. Inr (map (\<lambda>(c', l'). part_dict d c' l') parts))
          | _ \<Rightarrow> Inl (if 1 < seq_parts then AttributeError else ValueError)))"

section \<open>Nothing is lost in a split\<close>

lemma split_positions_concat:
  assumes "split_positions xs bs parts md = Inr pss" "parts \<noteq> 1"
    and "get_common_and_layer_metadata md = Inr (c, Some l)" "lm_num_actual_tokens l = length xs"
  shows "concat pss = xs" "length pss = parts"
proof -
  obtain toks offs where s: "get_data_num_and_offset (length xs) parts = Inr (toks, offs)"
    and p: "pss = map (\<lambda>i. slice xs (offs ! i) (offs ! i + toks ! i)) [0..<parts]"
    using assms by (auto simp: split_positions_def bind_res_eq_Inr)
  show "concat pss = xs" unfolding p by (rule gd.slices_cover[OF s refl])
  show "length pss = parts" by (simp add: p)
qed

lemma mset_concat_upt: "mset (concat (map f [0..<n])) = (\<Sum>i<n. mset (f i))"
  by (induction n) (simp_all add: add.commute)

lemma mset_concat_swap:
  "mset (concat (map (\<lambda>i. concat (map (\<lambda>j. f i j) [0..<n])) [0..<m])) =
   mset (concat (map (\<lambda>j. concat (map (\<lambda>i. f i j) [0..<m])) [0..<n]))"
  by (simp add: mset_concat_upt sum.swap[of _ "{..<m}"])

lemma sum_list_concat_map_upt:
  "sum_list (concat (map f [0..<n])) = (\<Sum>i\<leftarrow>[0..<n]. sum_list (f i) :: nat)"
  by (induction n) simp_all

text \<open>The sequences of the ranks, one slice after the other, are all the sequences.\<close>

lemma rank_slices_cover:
  assumes "length bss = dp_size" "sum_list bss = length sls"
  shows "concat (map (\<lambda>r. slice sls (sum_list (take r bss)) (sum_list (take r bss) + bss ! r))
    [0..<dp_size]) = sls"
proof -
  have "k \<le> dp_size \<Longrightarrow> concat (map (\<lambda>r. slice sls (sum_list (take r bss))
      (sum_list (take r bss) + bss ! r)) [0..<k]) = slice sls 0 (sum_list (take k bss))" for k
  proof (induction k)
    case (Suc k)
    then have "sum_list (take (Suc k) bss) = sum_list (take k bss) + bss ! k"
      using assms(1) by (simp add: sum_list_take_Suc)
    then show ?case using Suc by (simp add: slice_join)
  qed simp
  from this[of dp_size] show ?thesis using assms by simp
qed

lemma slice_shift: "slice xs (b + i) (b + j) = slice (drop b xs) i j"
  by (simp add: slice_def drop_take add.commute)

lemma slice_of_slice:
  "j \<le> n \<Longrightarrow> slice xs (b + i) (b + j) = slice (slice xs b (b + n)) i j"
  by (simp add: slice_def drop_take min_absorb1 add.commute)

lemma split_rank_batches_concat:
  assumes "split_rank_batches parts bss sls r = Inr (nums, ss)"
    and "sum_list bss = length sls"
  shows "concat (map (\<lambda>i. ss ! i) [0..<parts]) =
      slice sls (sum_list (take r bss)) (sum_list (take r bss) + bss ! r)"
    and "length nums = parts" "sum_list nums = bss ! r" "r < length bss"
    and "\<forall>i < parts. length (ss ! i) = nums ! i"
proof -
  let ?b = "sum_list (take r bss)"
  obtain offs where s: "get_data_num_and_offset (bss ! r) parts = Inr (nums, offs)"
    and ss: "ss = map (\<lambda>i. slice sls (?b + offs ! i) (?b + offs ! i + nums ! i)) [0..<parts]"
    and r: "r < length bss"
    using assms by (auto simp: split_rank_batches_def bind_res_eq_Inr nth_res_eq_Inr Let_def)
  let ?own = "slice sls ?b (?b + bss ! r)"
  have "?b + bss ! r = sum_list (take (Suc r) bss)" using r by (simp add: sum_list_take_Suc)
  then have own: "length ?own = bss ! r"
    using sum_list_take_le[of "Suc r" bss] assms(2) by (simp add: length_slice)
  have part: "ss ! i = slice ?own (offs ! i) (offs ! i + nums ! i)" if "i < parts" for i
    using that gd.part_end_le[OF s that] slice_of_slice[of "offs ! i + nums ! i" "bss ! r" sls ?b "offs ! i"]
    by (simp add: ss add.assoc)
  have "map (\<lambda>i. ss ! i) [0..<parts] =
      map (\<lambda>i. slice ?own (offs ! i) (offs ! i + nums ! i)) [0..<parts]"
    using part by simp
  then show "concat (map (\<lambda>i. ss ! i) [0..<parts]) = ?own"
    using gd.slices_cover[OF s own] by (simp only:)
  show "length nums = parts" "sum_list nums = bss ! r" "r < length bss"
    using gd.split_length[OF s] gd.split_sum[OF s] r by simp_all
  show "\<forall>i < parts. length (ss ! i) = nums ! i"
    using part gd.slice_part_length[OF s own] by simp
qed

lemma split_rank_batches_total:
  "r < length bss \<Longrightarrow> 0 < parts \<Longrightarrow> \<exists>x. split_rank_batches parts bss sls r = Inr x"
  using gd.split_ok[of parts "bss ! r"] by (auto simp: split_rank_batches_def Let_def)

lemma map_res_total_ex:
  "(\<And>x. x \<in> set xs \<Longrightarrow> \<exists>y. f x = Inr y) \<Longrightarrow> \<exists>ys. map_res f xs = Inr ys"
  by (induction xs) fastforce+

lemma split_dp_params_batch_run:
  assumes "length bss = dp_size" "sum_list bss = length sls" "rank < dp_size" "0 < tp" "0 < parts"
  shows "\<exists>ranks ms. split_dp_params_batch parts dp_size tp rs rank sls bss = Inr ms
    \<and> length ms = parts \<and> length ranks = dp_size
    \<and> (\<forall>r < dp_size. split_rank_batches parts bss sls r = Inr (ranks ! r))
    \<and> (\<forall>i < parts. token_split_list (ms ! i) = map (\<lambda>r. sum_list (snd (ranks ! r) ! i)) [0..<dp_size]
        \<and> token_num (ms ! i) = sum_list (snd (ranks ! rank) ! i)
        \<and> seq_lens (ms ! i) = Some (concat (map (\<lambda>r. snd (ranks ! r) ! i) [0..<dp_size]))
        \<and> batch_sizes (ms ! i) = Some (map (\<lambda>r. fst (ranks ! r) ! i) [0..<dp_size]))"
proof -
  have "\<exists>ranks. map_res (split_rank_batches parts bss sls) [0..<dp_size] = Inr ranks"
    using split_rank_batches_total assms(1,5) by (intro map_res_total_ex) auto
  then obtain ranks where ranks: "map_res (split_rank_batches parts bss sls) [0..<dp_size] = Inr ranks"
    by blast
  let ?mk = "\<lambda>i. make_oot rank dp_size tp (map (\<lambda>r. sum_list (snd (ranks ! r) ! i)) [0..<dp_size])
         (replicate dp_size True) rs
         (Some (concat (map (\<lambda>r. snd (ranks ! r) ! i) [0..<dp_size])))
         (Some (map (\<lambda>r. fst (ranks ! r) ! i) [0..<dp_size])) None None None"
  have "\<exists>ms. map_res ?mk [0..<parts] = Inr ms"
    using assms(3,4) by (intro map_res_total_ex make_oot_total) auto
  then obtain ms where ms: "map_res ?mk [0..<parts] = Inr ms" by blast
  have "\<forall>i < parts. ?mk i = Inr (ms ! i)" using map_res_Inr_nth[OF ms] by simp
  then have "\<forall>i < parts. token_split_list (ms ! i) = map (\<lambda>r. sum_list (snd (ranks ! r) ! i)) [0..<dp_size]
        \<and> token_num (ms ! i) = sum_list (snd (ranks ! rank) ! i)
        \<and> seq_lens (ms ! i) = Some (concat (map (\<lambda>r. snd (ranks ! r) ! i) [0..<dp_size]))
        \<and> batch_sizes (ms ! i) = Some (map (\<lambda>r. fst (ranks ! r) ! i) [0..<dp_size])"
    using make_oot_fields assms(3) by fastforce
  moreover have "\<forall>r < dp_size. split_rank_batches parts bss sls r = Inr (ranks ! r)"
    using map_res_Inr_nth[OF ranks] by simp
  ultimately show ?thesis using ranks ms map_res_Inr_length[OF ranks] map_res_Inr_length[OF ms]
    by (intro exI[of _ ranks] exI[of _ ms]) (simp add: split_dp_params_batch_def)
qed

text \<open>
  Splitting a step along the batch dimension keeps every sequence: the data parallel
  metadata of the parts exists, one per part; the sequences of all parts together are the
  sequences of the step as a multiset; the tokens of this rank over the parts are the tokens of
  its own sequences; and in each part the rank's token count is its entry of the part's token list.
\<close>
theorem split_dp_params_conserves:
  assumes "seq_lens p = Some sls" "batch_sizes p = Some bss"
    and "length bss = dp_size" "sum_list bss = length sls" "rank < dp_size" "0 < tp" "1 < parts"
  shows "\<exists>ms. split_dp_params (Some p) parts 1 dp_size tp rs rank = Inr (map Some ms)
    \<and> length ms = parts
    \<and> mset (concat (map (\<lambda>m. the (seq_lens m)) ms)) = mset sls
    \<and> sum_list (map token_num ms) =
        sum_list (slice sls (sum_list (take rank bss)) (sum_list (take rank bss) + bss ! rank))
    \<and> list_all (\<lambda>m. token_num m = token_split_list m ! rank) ms"
proof -
  obtain ranks ms where ms: "split_dp_params_batch parts dp_size tp rs rank sls bss = Inr ms"
    "length ms = parts" "length ranks = dp_size"
    "\<forall>r < dp_size. split_rank_batches parts bss sls r = Inr (ranks ! r)"
    and el: "\<forall>i < parts. token_split_list (ms ! i) = map (\<lambda>r. sum_list (snd (ranks ! r) ! i)) [0..<dp_size]
        \<and> token_num (ms ! i) = sum_list (snd (ranks ! rank) ! i)
        \<and> seq_lens (ms ! i) = Some (concat (map (\<lambda>r. snd (ranks ! r) ! i) [0..<dp_size]))"
    using split_dp_params_batch_run[OF assms(3,4,5,6), of parts rs] assms(7) by auto
  have own: "concat (map (\<lambda>i. snd (ranks ! r) ! i) [0..<parts]) =
      slice sls (sum_list (take r bss)) (sum_list (take r bss) + bss ! r)" if "r < dp_size" for r
    using split_rank_batches_concat(1)[of parts bss sls r "fst (ranks ! r)" "snd (ranks ! r)"]
      ms(4) that assms(4) by simp
  have idx: "ms = map (\<lambda>i. ms ! i) [0..<parts]" using ms(2) by (simp add: map_nth flip: ms(2))
  have "map (\<lambda>m. the (seq_lens m)) ms =
      map (\<lambda>i. concat (map (\<lambda>r. snd (ranks ! r) ! i) [0..<dp_size])) [0..<parts]"
    using el by (subst idx) simp
  then have "mset (concat (map (\<lambda>m. the (seq_lens m)) ms)) =
      mset (concat (map (\<lambda>r. concat (map (\<lambda>i. snd (ranks ! r) ! i) [0..<parts])) [0..<dp_size]))"
    by (simp only: mset_concat_swap[of "\<lambda>i r. snd (ranks ! r) ! i"])
  also have "map (\<lambda>r. concat (map (\<lambda>i. snd (ranks ! r) ! i) [0..<parts])) [0..<dp_size] =
      map (\<lambda>r. slice sls (sum_list (take r bss)) (sum_list (take r bss) + bss ! r)) [0..<dp_size]"
    using own by simp
  finally have m: "mset (concat (map (\<lambda>m. the (seq_lens m)) ms)) = mset sls"
    by (simp only: rank_slices_cover[OF assms(3,4)])
  have "map token_num ms = map (\<lambda>i. sum_list (snd (ranks ! rank) ! i)) [0..<parts]"
    using el by (subst idx) simp
  then have t: "sum_list (map token_num ms) =
      sum_list (concat (map (\<lambda>i. snd (ranks ! rank) ! i) [0..<parts]))"
    by (simp only: sum_list_concat_map_upt)
  have "list_all (\<lambda>m. token_num m = token_split_list m ! rank) ms"
    using el assms(5) ms(2) by (simp add: list_all_length)
  then show ?thesis using ms(1,2) m t own[OF assms(5)] assms(1,2,7)
    by (intro exI[of _ ms]) (simp add: split_dp_params_def)
qed

definition example_dp_params :: dp_metadata where
  "example_dp_params =
     \<lparr>token_num = 9, token_num_offset = 0, layer_use_reduce_scatter = False,
      prefill_pad_to_token_num = -1, token_split_list = [9, 4],
      attn_token_split_list_reduce_scatter = None, moe_token_split_list_reduce_scatter = None,
      dp_is_prefill = [True, True], seq_lens = Some [2, 3, 4, 4], batch_sizes = Some [3, 1],
      emb_token_split_list = None, logits_batch_split_list = None,
      dense_attn_token_split_list = None\<rparr>"

lemma split_dp_params_conserves_witness:
  "\<exists>ms. split_dp_params (Some example_dp_params) 2 1 2 1 False 0 = Inr (map Some ms)
    \<and> sum_list (map token_num ms) = 9"
  using split_dp_params_conserves[of example_dp_params "[2, 3, 4, 4]" "[3, 1]" 2 0 1 2 False]
  by (auto simp: example_dp_params_def slice_def numeral_2_eq_2)

text \<open>
  A plan can always be carried out: the plan never asks for a batch split and a sequence
  split at once, so the assertions of the split functions cannot fail, and when at least one part
  is asked for it has at least one part and never more than that in either dimension.
\<close>
theorem attn_mcc_plan_valid:
  assumes "attn_mcc_plan md p parts = Inr (bs, sq)" "0 < parts"
  shows "(bs = 1 \<or> sq = 1) \<and> 1 \<le> bs \<and> 1 \<le> sq \<and> bs \<le> parts \<and> sq \<le> parts"
proof -
  have thr: "0 < SEQUENCE_DIM_PARITION_THRESHOLD" by (simp add: SEQUENCE_DIM_PARITION_THRESHOLD_def)
  obtain c l where cl: "get_common_and_layer_metadata md = Inr (c, l)"
    using assms(1) by (auto simp: attn_mcc_plan_def bind_res_eq_Inr)
  show ?thesis
  proof (cases p)
    case None
    then show ?thesis using assms cl thr
      by (auto simp: attn_mcc_plan_def Let_def simp del: Max_less_iff split: if_splits)
  next
    case (Some q)
    then show ?thesis using assms cl
      by (auto simp: attn_mcc_plan_def Let_def bind_res_eq_Inr split: if_splits)
  qed
qed

lemma attn_mcc_plan_valid_witness:
  "attn_mcc_plan MdNone (Some (example_dp_params\<lparr>token_split_list := [2048, 4]\<rparr>)) 2 = Inr (2, 1)
    \<and> (2 :: nat) \<le> 2"
proof -
  have "attn_mcc_plan MdNone (Some (example_dp_params\<lparr>token_split_list := [2048, 4]\<rparr>)) 2 = Inr (2, 1)"
    by (simp add: attn_mcc_plan_def get_common_and_layer_metadata_def example_dp_params_def
        max_res_def SEQUENCE_DIM_PARITION_THRESHOLD_def)
  from attn_mcc_plan_valid[OF this] this show ?thesis by simp
qed

section \<open>The parts of the attention metadata\<close>

text \<open>A part has the keys of the whole, so it is again a common and one layer object.\<close>

lemma find_key_part:
  "find (\<lambda>(k, i, v). k \<noteq> C) d = Some x \<Longrightarrow>
   find (\<lambda>(k, i, v). k \<noteq> C)
     (map (\<lambda>(k, _, _). if k = C then (k, 0, CommonV c) else (k, 1, LayerV l)) d)
     = Some (fst x, 1, LayerV l)"
  by (induction d) (auto split: if_splits)

lemma get_key_part:
  "C \<in> set (dict_keys d) \<Longrightarrow>
   dict_get (map (\<lambda>(k, _, _). if k = C then (k, 0, CommonV c) else (k, 1, LayerV l)) d) C
     = Some (0, CommonV c)"
proof (induction d)
  case (Cons p d)
  then show ?case by (cases p; cases "fst p = C") simp_all
qed simp

lemma find_in_set: "find P xs = Some x \<Longrightarrow> x \<in> set xs \<and> P x"
  by (induction xs) (auto split: if_splits)

lemma pair_set_eq: "S \<subseteq> {a, b} \<Longrightarrow> a \<in> S \<Longrightarrow> b \<in> S \<Longrightarrow> S = {a, b}"
  by blast

lemma part_dict_metadata:
  assumes "get_common_and_layer_metadata (MdDict d) = Inr (Some c, Some l)"
  shows "get_common_and_layer_metadata (part_dict d c' l') = Inr (Some c', Some l')"
proof -
  let ?d = "map (\<lambda>(k, _, _). if k = COMMON_METADATA_STR then (k, 0 :: nat, CommonV c')
    else (k, 1, LayerV l')) d"
  from assms have k: "COMMON_METADATA_STR \<in> set (dict_keys d)"
    by (auto simp: get_common_and_layer_metadata_def require_def split: if_splits)
  from assms obtain x where f: "find (\<lambda>(k, i, v). k \<noteq> COMMON_METADATA_STR) d = Some x"
    by (auto simp: get_common_and_layer_metadata_def require_def
        split: if_splits option.splits md_val.splits prod.splits)
  have ids: "(\<lambda>(k, i, v). i) x \<in> {0, 1}" if "x \<in> set ?d" for x
    using that by (auto split: if_splits)
  have "(COMMON_METADATA_STR, 0, CommonV c') \<in> set ?d"
    using get_key_part[OF k] by (rule map_of_SomeD)
  then have i0: "0 \<in> (\<lambda>(k, i, v). i) ` set ?d"
    by (rule rev_image_eqI) (simp only: prod.case)
  have "(fst x, 1, LayerV l') \<in> set ?d"
    using find_in_set[OF find_key_part[OF f]] by (rule conjunct1)
  then have i1: "1 \<in> (\<lambda>(k, i, v). i) ` set ?d"
    by (rule rev_image_eqI) (simp only: prod.case)
  have "set (map (\<lambda>(k, i, v). i) ?d) = {0, 1}"
    by (subst set_map, rule pair_set_eq[OF image_subsetI i0 i1]) (rule ids)
  then have card: "card (set (map (\<lambda>(k, i, v). i) ?d)) = 2" by simp
  have keys: "COMMON_METADATA_STR \<in> set (dict_keys ?d)"
    by (subst set_map, rule rev_image_eqI[OF map_of_SomeD[OF get_key_part[OF k]]]) simp
  have g: "dict_get ?d COMMON_METADATA_STR = Some (0, CommonV c')" by (rule get_key_part[OF k])
  have fp: "find (\<lambda>(k, i, v). k \<noteq> COMMON_METADATA_STR) ?d = Some (fst x, 1, LayerV l')"
    by (rule find_key_part[OF f])
  show ?thesis unfolding part_dict_def get_common_and_layer_metadata_def attn_md.case
    by (simp only: card keys g fp refl require_simps option.case prod.case md_val.case)
qed

fun chain :: "nat \<Rightarrow> (nat \<times> nat) list \<Rightarrow> bool" where
  "chain a [] = True"
| "chain a ((s, b) # ps) = (s = a \<and> chain (a + b) ps)"

lemma chain_offsets:
  "chain a (zip (map (\<lambda>i. a + sum_list (take i nums)) [0..<length nums]) nums)"
proof (induction nums arbitrary: a)
  case (Cons n nums)
  have "map (\<lambda>i. a + sum_list (take i (n # nums))) [0..<length (n # nums)] =
      a # map (\<lambda>i. (a + n) + sum_list (take i nums)) [0..<length nums]"
    by (rule nth_equalityI) (auto simp: nth_Cons' take_Cons' simp del: upt_Suc)
  then show ?case using Cons[of "a + n"] by simp
qed simp

lemma chain_split:
  assumes "get_data_num_and_offset tot parts = Inr (nums, offs)"
  shows "chain 0 (zip offs nums)"
  using chain_offsets[of 0 nums] gd.split_offsets[OF assms] gd.split_length[OF assms] by simp

lemma last_slice: "b < length xs \<Longrightarrow> a \<le> b \<Longrightarrow> last (slice xs a (b + 1)) = xs ! b"
  by (simp add: slice_def take_Suc_conv_app_nth)

lemma hd_slice: "a < b \<Longrightarrow> a < length xs \<Longrightarrow> hd (slice xs a b) = xs ! a"
  by (simp add: slice_def hd_drop_conv_nth)

lemma slice_ne: "a < b \<Longrightarrow> a < length xs \<Longrightarrow> slice xs a b \<noteq> []"
  by (simp add: slice_def)

lemma batch_part_common_ok:
  assumes "sorted (cm_query_start_loc c)" "cm_query_start_loc c ! 0 = 0"
    "start + bs < length (cm_query_start_loc c)" "i = 0 \<longrightarrow> start = 0"
  shows "\<exists>sub. batch_part_common c i start bs = Inr sub
    \<and> hd (cm_query_start_loc sub) = 0
    \<and> int (cm_num_actual_tokens sub) = last (cm_query_start_loc sub)
    \<and> int (cm_num_actual_tokens sub) =
        cm_query_start_loc c ! (start + bs) - cm_query_start_loc c ! start"
proof -
  let ?q = "cm_query_start_loc c"
  let ?s = "slice ?q start (start + bs + 1)"
  have ne: "?s \<noteq> []" using assms(3) by (intro slice_ne) auto
  have l: "last ?s = ?q ! (start + bs)" using assms(3) by (intro last_slice) auto
  have h: "hd ?s = ?q ! start" using assms(3) by (intro hd_slice) auto
  have le: "?q ! start \<le> ?q ! (start + bs)" using assms(1,3) by (simp add: sorted_nth_mono)
  show ?thesis
  proof (cases i)
    case 0
    then have "start = 0" using assms(4) by simp
    then show ?thesis using 0 ne l h le assms(2) by (auto simp: batch_part_common_def Let_def)
  next
    case (Suc j)
    have "hd (map (\<lambda>x. x - ?q ! start) ?s) = 0" "last (map (\<lambda>x. x - ?q ! start) ?s)
        = ?q ! (start + bs) - ?q ! start"
      using ne l h by (simp_all add: hd_map last_map)
    then show ?thesis using Suc ne le assms(3) by (auto simp: batch_part_common_def Let_def)
  qed
qed

lemma batch_parts_run:
  assumes "chain a ps" "sorted (cm_query_start_loc c)" "cm_query_start_loc c ! 0 = 0"
    "a + sum_list (map snd ps) < length (cm_query_start_loc c)" "i = 0 \<longrightarrow> a = 0"
    "before = nat (cm_query_start_loc c ! a)" "lm_prefill l \<noteq> None"
  shows "\<exists>out. batch_parts c l i before ps = Inr out \<and> length out = length ps
    \<and> concat (map (\<lambda>y. lm_slot_mapping (snd y)) out) =
        slice (lm_slot_mapping l) before (nat (cm_query_start_loc c ! (a + sum_list (map snd ps))))
    \<and> list_all (\<lambda>y. hd (cm_query_start_loc (fst y)) = 0
        \<and> int (cm_num_actual_tokens (fst y)) = last (cm_query_start_loc (fst y))) out
    \<and> map (\<lambda>y. lm_num_prefills (snd y)) out = map (\<lambda>p. Some (snd p)) ps"
  using assms
proof (induction ps arbitrary: a i before)
  case Nil
  then show ?case by simp
next
  case (Cons p ps)
  obtain b where p: "p = (a, b)" and ch: "chain (a + b) ps" using Cons.prems(1) by (cases p) auto
  let ?q = "cm_query_start_loc c"
  have len: "a + b < length ?q" using Cons.prems(4) p by simp
  obtain sub where sub: "batch_part_common c i a b = Inr sub" "hd (cm_query_start_loc sub) = 0"
    "int (cm_num_actual_tokens sub) = last (cm_query_start_loc sub)"
    "int (cm_num_actual_tokens sub) = ?q ! (a + b) - ?q ! a"
    using batch_part_common_ok[OF Cons.prems(2,3) len Cons.prems(5)] by blast
  have nn: "0 \<le> ?q ! a" using Cons.prems(2,3) len by (metis add_lessD1 le0 sorted_nth_mono)
  have nxt: "before + cm_num_actual_tokens sub = nat (?q ! (a + b))"
    using sub(4) nn Cons.prems(6) by linarith
  have tot: "a + b + sum_list (map snd ps) < length ?q" using Cons.prems(4) p by simp
  obtain out where out: "batch_parts c l (Suc i) (nat (?q ! (a + b))) ps = Inr out"
    "length out = length ps"
    "concat (map (\<lambda>y. lm_slot_mapping (snd y)) out) =
        slice (lm_slot_mapping l) (nat (?q ! (a + b))) (nat (?q ! (a + b + sum_list (map snd ps))))"
    "list_all (\<lambda>y. hd (cm_query_start_loc (fst y)) = 0
        \<and> int (cm_num_actual_tokens (fst y)) = last (cm_query_start_loc (fst y))) out"
    "map (\<lambda>y. lm_num_prefills (snd y)) out = map (\<lambda>p. Some (snd p)) ps"
    using Cons.IH[OF ch Cons.prems(2,3) tot _ refl Cons.prems(7), of "Suc i"] by auto
  have mono: "nat (?q ! (a + b)) \<le> nat (?q ! (a + b + sum_list (map snd ps)))"
    using tot Cons.prems(2) by (intro nat_mono sorted_nth_mono) auto
  have "slice (lm_slot_mapping l) before (nat (?q ! (a + b)))
      @ slice (lm_slot_mapping l) (nat (?q ! (a + b))) (nat (?q ! (a + b + sum_list (map snd ps))))
      = slice (lm_slot_mapping l) before (nat (?q ! (a + b + sum_list (map snd ps))))"
    using nxt mono by (intro slice_join) auto
  then show ?case using p sub out nxt Cons.prems(7)
    by (auto simp: batch_part_layer_def add.assoc)
qed

text \<open>
  Splitting the attention metadata along the batch dimension loses no token: the split
  returns one metadata dictionary per part, each readable again as a common and a layer object;
  the slot mappings of the parts, in order, are the slot mapping of the whole batch up to its last
  token; the parts hold all sequences; and the start locations of every part run from 0 to its own
  token count.
\<close>
theorem split_attn_metadata_batch:
  assumes "get_common_and_layer_metadata (MdDict d) = Inr (Some c, Some l)"
    and "lm_num_prefills l = Some n" "lm_prefill l \<noteq> None" "1 < parts"
    and "sorted (cm_query_start_loc c)" "cm_query_start_loc c ! 0 = 0"
    and "n < length (cm_query_start_loc c)"
  shows "\<exists>ps. split_attn_metadata uninit (MdDict d) parts 1 = Inr (map (\<lambda>(c', l'). part_dict d c' l') ps)
    \<and> length ps = parts
    \<and> list_all (\<lambda>(c', l'). get_common_and_layer_metadata (part_dict d c' l') = Inr (Some c', Some l')
        \<and> hd (cm_query_start_loc c') = 0
        \<and> int (cm_num_actual_tokens c') = last (cm_query_start_loc c')) ps
    \<and> concat (map (\<lambda>y. lm_slot_mapping (snd y)) ps) =
        slice (lm_slot_mapping l) 0 (nat (cm_query_start_loc c ! n))
    \<and> sum_list (map (\<lambda>y. the (lm_num_prefills (snd y))) ps) = n"
proof -
  obtain nums offs where g: "get_data_num_and_offset n parts = Inr (nums, offs)"
    using gd.split_ok[of parts n] assms(4) by auto
  have len: "length nums = parts" "length offs = parts"
    using gd.split_length[OF g] gd.split_offsets[OF g] by auto
  have snds: "map snd (zip offs nums) = nums" using len by simp
  have sum: "sum_list (map snd (zip offs nums)) = n"
    using gd.split_sum[OF g] by (simp only: snds)
  obtain ps where ps: "batch_parts c l 0 0 (zip offs nums) = Inr ps" "length ps = parts"
    "concat (map (\<lambda>y. lm_slot_mapping (snd y)) ps) =
        slice (lm_slot_mapping l) 0 (nat (cm_query_start_loc c ! n))"
    "list_all (\<lambda>y. hd (cm_query_start_loc (fst y)) = 0
        \<and> int (cm_num_actual_tokens (fst y)) = last (cm_query_start_loc (fst y))) ps"
    "map (\<lambda>y. lm_num_prefills (snd y)) ps = map (\<lambda>p. Some (snd p)) (zip offs nums)"
    using batch_parts_run[OF chain_split[OF g] assms(5,6), of 0 0 l] assms(3,6,7) sum len by auto
  have "map (\<lambda>y. the (lm_num_prefills (snd y))) ps = map the (map (\<lambda>y. lm_num_prefills (snd y)) ps)"
    by simp
  also have "\<dots> = nums" using snds by (simp only: ps(5)) (simp add: comp_def)
  finally have "sum_list (map (\<lambda>y. the (lm_num_prefills (snd y))) ps) = n"
    using gd.split_sum[OF g] by simp
  moreover have "split_attn_metadata uninit (MdDict d) parts 1 =
      Inr (map (\<lambda>(c', l'). part_dict d c' l') ps)"
    using assms(1,2,4) g ps(1) by (simp add: split_attn_metadata_def)
  ultimately show ?thesis using ps part_dict_metadata[OF assms(1)]
    by (intro exI[of _ ps]) (auto simp: list_all_iff)
qed

definition example_common :: common_md where
  "example_common =
     \<lparr>cm_query_start_loc = [0, 2, 5, 6], cm_query_start_loc_cpu = [0, 2, 5, 6], cm_seq_lens = [2, 3, 1],
      cm_seq_lens_cpu = [2, 3, 1], cm_num_computed_tokens_cpu = [0, 0, 0], cm_num_reqs = 3,
      cm_num_actual_tokens = 6, cm_max_query_len = 3, cm_max_seq_len = 3,
      cm_block_table_tensor = [], cm_slot_mapping = [7, 8, 9, 10, 11, 12],
      cm_seq_start_loc = [0, 2, 5, 6], cm_num_input_tokens = 6, cm_infer_mode = Some PREFILL_ONLY,
      cm_num_prefill_query_tokens = 6, cm_num_prefill_kv_tokens = 6\<rparr>"

definition example_layer :: "unit layer_md" where
  "example_layer =
     \<lparr>lm_num_reqs = 3, lm_max_query_len = 3, lm_max_seq_len = 3, lm_num_actual_tokens = 6,
      lm_query_start_loc = Some [0, 2, 5, 6], lm_slot_mapping = [7, 8, 9, 10, 11, 12],
      lm_num_decodes = 0, lm_num_decode_tokens = 0, lm_num_prefills = Some 3,
      lm_num_prefill_tokens = 6, lm_head_dim = Some 64, lm_decode = (),
      lm_prefill = Some \<lparr>pf_block_table = [[], [], []], pf_query_start_loc = [0, 2, 5, 6],
        pf_max_query_len = 3, pf_chunked_context = None, pf_num_prefills = 3, pf_max_seq_len = 3,
        pf_cu_seqlens_kv = None\<rparr>\<rparr>"

definition example_dict :: "(string \<times> nat \<times> unit md_val) list" where
  "example_dict = [(COMMON_METADATA_STR, 0, CommonV example_common), (''layer.0'', 1, LayerV example_layer)]"

lemma example_dict_metadata:
  "get_common_and_layer_metadata (MdDict example_dict) = Inr (Some example_common, Some example_layer)"
  by (simp add: get_common_and_layer_metadata_def example_dict_def COMMON_METADATA_STR_def)

lemma split_attn_metadata_batch_witness:
  "\<exists>ps. split_attn_metadata (\<lambda>_. 0) (MdDict example_dict) 2 1 = Inr (map (\<lambda>(c', l'). part_dict example_dict c' l') ps)
    \<and> concat (map (\<lambda>y. lm_slot_mapping (snd y)) ps) = [7, 8, 9, 10, 11, 12]"
  using split_attn_metadata_batch[OF example_dict_metadata, of 3 2 "\<lambda>_. 0"]
  by (auto simp: example_common_def example_layer_def slice_def)

lemma seq_part_run:
  assumes "2 \<le> length (cm_query_start_loc c)" "2 \<le> length (cm_seq_start_loc c)"
    and "lm_num_prefills l = Some 1" "lm_num_decodes l = 0" "lm_num_decode_tokens l = 0"
    and "lm_prefill l = Some pf" "pf_chunked_context pf = None"
  shows "\<exists>sub sl. bind_res (seq_part_common uninit c off n) (\<lambda>sub.
      bind_res (seq_part_layer uninit sub l off n) (\<lambda>sl. Inr (sub, sl))) = Inr (sub, sl)
    \<and> cm_num_actual_tokens sub = n \<and> take 2 (cm_query_start_loc sub) = [0, int n]
    \<and> take 2 (cm_seq_start_loc sub) = [int off, int (off + n)]
    \<and> lm_slot_mapping sl = slice (lm_slot_mapping l) off (off + n)
    \<and> (\<exists>q kv. lm_prefill sl = Some q \<and> pf_cu_seqlens_kv q = Some kv \<and> take 2 kv = [0, int (off + n)])"
proof -
  have t2: "take 2 (xs[0 := a, Suc 0 := b]) = [a, b]" if "2 \<le> length xs" for xs :: "int list" and a b
  proof -
    from that obtain x y zs where "xs = x # y # zs"
      by (metis One_nat_def Suc_1 Suc_le_length_iff)
    then show ?thesis by simp
  qed
  show ?thesis using assms
    by (auto simp: seq_part_common_def seq_part_layer_def set_pair_def empty_like_def t2)
qed

text \<open>
  Splitting the attention metadata of one prefill along the sequence dimension loses no token
  and keeps causality: there is one part per requested part, the slot mappings of the parts in
  order are the slot mapping of the sequence, the queries of a part run from 0 to its token count,
  and its keys run from 0 to the end of the part, so every part attends to exactly the tokens of
  the parts before it and its own.
\<close>
theorem split_attn_metadata_sequence:
  assumes "get_common_and_layer_metadata (MdDict d) = Inr (Some c, Some l)"
    and "lm_num_prefills l = Some 1" "lm_num_decodes l = 0" "lm_num_decode_tokens l = 0"
    and "lm_prefill l = Some pf" "pf_chunked_context pf = None" "1 < parts"
    and "2 \<le> length (cm_query_start_loc c)" "2 \<le> length (cm_seq_start_loc c)"
    and "length (lm_slot_mapping l) = cm_num_actual_tokens c"
  shows "\<exists>ps. split_attn_metadata uninit (MdDict d) 1 parts = Inr (map (\<lambda>(c', l'). part_dict d c' l') ps)
    \<and> length ps = parts
    \<and> concat (map (\<lambda>y. lm_slot_mapping (snd y)) ps) = lm_slot_mapping l
    \<and> sum_list (map (\<lambda>y. cm_num_actual_tokens (fst y)) ps) = cm_num_actual_tokens c
    \<and> list_all (\<lambda>i. let n = cm_num_actual_tokens (fst (ps ! i));
           before = sum_list (take i (map (\<lambda>y. cm_num_actual_tokens (fst y)) ps))
        in take 2 (cm_query_start_loc (fst (ps ! i))) = [0, int n]
         \<and> take 2 (the (pf_cu_seqlens_kv (the (lm_prefill (snd (ps ! i)))))) = [0, int (before + n)])
       [0..<parts]"
proof -
  obtain nums offs where g: "get_data_num_and_offset (cm_num_actual_tokens c) parts = Inr (nums, offs)"
    using gd.split_ok[of parts "cm_num_actual_tokens c"] assms(7) by auto
  let ?f = "\<lambda>i. bind_res (seq_part_common uninit c (offs ! i) (nums ! i)) (\<lambda>sub.
      bind_res (seq_part_layer uninit sub l (offs ! i) (nums ! i)) (\<lambda>sl. Inr (sub, sl)))"
  note run = seq_part_run[OF assms(8,9,2,3,4,5,6)]
  have "\<exists>ps. map_res ?f [0..<parts] = Inr ps"
    by (rule map_res_total_ex) (use run in blast)
  then obtain ps where ps: "map_res ?f [0..<parts] = Inr ps" by blast
  have len: "length ps = parts" using map_res_Inr_length[OF ps] by simp
  have part: "cm_num_actual_tokens (fst (ps ! i)) = nums ! i
      \<and> take 2 (cm_query_start_loc (fst (ps ! i))) = [0, int (nums ! i)]
      \<and> lm_slot_mapping (snd (ps ! i)) = slice (lm_slot_mapping l) (offs ! i) (offs ! i + nums ! i)
      \<and> take 2 (the (pf_cu_seqlens_kv (the (lm_prefill (snd (ps ! i)))))) = [0, int (offs ! i + nums ! i)]"
    if "i < parts" for i
  proof -
    have f: "?f i = Inr (ps ! i)" using map_res_Inr_nth[OF ps, of i] that by simp
    obtain sub sl q kv where r: "?f i = Inr (sub, sl)" "cm_num_actual_tokens sub = nums ! i"
      "take 2 (cm_query_start_loc sub) = [0, int (nums ! i)]"
      "lm_slot_mapping sl = slice (lm_slot_mapping l) (offs ! i) (offs ! i + nums ! i)"
      "lm_prefill sl = Some q" "pf_cu_seqlens_kv q = Some kv"
      "take 2 kv = [0, int (offs ! i + nums ! i)]"
      using run[of uninit "offs ! i" "nums ! i"] by blast
    have "ps ! i = (sub, sl)" using trans[OF f[symmetric] r(1)] by (rule Inr_inject)
    then show ?thesis using r by simp
  qed
  have ne: "length nums = parts" by (rule gd.split_length[OF g])
  have tok: "map (\<lambda>y. cm_num_actual_tokens (fst y)) ps = nums"
    by (rule nth_equalityI) (simp_all add: len ne part)
  have "map (\<lambda>y. lm_slot_mapping (snd y)) ps =
      map (\<lambda>i. slice (lm_slot_mapping l) (offs ! i) (offs ! i + nums ! i)) [0..<parts]"
    by (rule nth_equalityI) (simp_all add: len part)
  then have slots: "concat (map (\<lambda>y. lm_slot_mapping (snd y)) ps) = lm_slot_mapping l"
    using gd.slices_cover[OF g assms(10)] by simp
  have "split_attn_metadata uninit (MdDict d) 1 parts = Inr (map (\<lambda>(c', l'). part_dict d c' l') ps)"
    using assms(1,7) g ps by (simp add: split_attn_metadata_def)
  then show ?thesis using len slots tok gd.split_sum[OF g] part gd.offsets_nth[OF g]
    by (intro exI[of _ ps]) (simp add: list_all_iff)
qed

definition example_seq_dict :: "(string \<times> nat \<times> unit md_val) list" where
  "example_seq_dict =
    [(COMMON_METADATA_STR, 0,
        CommonV (example_common\<lparr>cm_query_start_loc := [0, 6], cm_seq_start_loc := [0, 6]\<rparr>)),
     (''layer.0'', 1, LayerV (example_layer\<lparr>lm_num_prefills := Some 1\<rparr>))]"

lemma example_seq_dict_metadata:
  "get_common_and_layer_metadata (MdDict example_seq_dict) =
     Inr (Some (example_common\<lparr>cm_query_start_loc := [0, 6], cm_seq_start_loc := [0, 6]\<rparr>),
          Some (example_layer\<lparr>lm_num_prefills := Some 1\<rparr>))"
  by (simp add: get_common_and_layer_metadata_def example_seq_dict_def COMMON_METADATA_STR_def)

lemma split_attn_metadata_sequence_witness:
  "\<exists>ps. split_attn_metadata (\<lambda>_. 0) (MdDict example_seq_dict) 1 2
      = Inr (map (\<lambda>(c', l'). part_dict example_seq_dict c' l') ps)
    \<and> concat (map (\<lambda>y. lm_slot_mapping (snd y)) ps) = [7, 8, 9, 10, 11, 12]"
  using split_attn_metadata_sequence[OF example_seq_dict_metadata,
      of "the (lm_prefill example_layer)" 2 "\<lambda>_. 0"]
  by (auto simp: example_common_def example_layer_def)

end
