(* ===== verification/SchedData.thy ===== *)
theory SchedData
  imports Prelude
begin

text \<open>
  The data of the schedulers (\<^verbatim>\<open>vllm_mlu/v1/core/sched/scheduler.py\<close> and
  \<^verbatim>\<open>output.py\<close>): requests, the configuration they read, the state of the scheduler object,
  the local variables of \<^verbatim>\<open>schedule\<close>, and the operations of objects outside the repository
  (the request queue, the KV cache manager, the encoder cache manager, the connectors and the
  parent class), which are fields of the record \<open>ext\<close>.

  Requests are shared mutable objects of the program: the model keeps one object per request id
  in the map \<open>s_requests\<close> and every list and queue holds ids. Token counts are \<open>int\<close>, since
  the code subtracts them freely; \<open>arrival_time\<close> is only compared, so it is an \<open>int\<close>.
\<close>

section \<open>Requests\<close>

datatype req_status =
    WAITING | WAITING_FOR_FSM | WAITING_FOR_REMOTE_KVS | RUNNING | PREEMPTED | FINISHED

datatype req_event = QUEUED_EV | SCHEDULED_EV | PREEMPTED_EV

datatype sched_policy = FCFS | PRIORITY

datatype sched_mode = CHUNK | UNCHUNK

text \<open>Objects the sources only hand on are handles.\<close>

type_synonym handle = nat

type_synonym req_id = string

text \<open>The dictionary \<^verbatim>\<open>request.kv_transfer_params\<close>; an absent key is \<open>None\<close>.\<close>

record kv_params =
  first_tok :: "int option"
  first_spec_tok :: "int list option"
  ret_first_tok :: bool
  kv_other :: "(string \<times> handle) list"

record request =
  r_status :: req_status
  r_priority :: int
  r_arrival_time :: int
  r_num_prompt_tokens :: int
  r_prompt_token_ids :: "int list option"
  r_output_token_ids :: "int list"
  r_max_tokens :: int
  r_spec_token_ids :: "int list"
  r_num_computed_tokens :: int
  r_num_output_placeholders :: int
  r_num_preemptions :: nat
  r_num_cached_tokens :: int
  r_has_encoder_inputs :: bool
  r_lora :: "int option"
  r_use_structured_output :: bool
  r_grammar_ready :: bool
  r_kv_transfer_params :: "kv_params option"
  r_events :: "req_event list"
  r_client_index :: nat
  r_wants_logprobs :: bool
  r_num_nans_in_logits :: int
  r_mm_features :: handle
  r_sampling_params :: "handle option"
  r_pooling_params :: "handle option"
  r_prompt_embeds :: "handle option"

text \<open>
  \<^verbatim>\<open>num_tokens_with_spec = len(prompt_token_ids) + len(output_token_ids) + len(spec_token_ids)\<close>,
  and \<^verbatim>\<open>num_tokens\<close> is the count without the speculative tokens.
\<close>

definition num_tokens :: "request \<Rightarrow> int" where
  "num_tokens r = r_num_prompt_tokens r + int (length (r_output_token_ids r))"

definition num_tokens_with_spec :: "request \<Rightarrow> int" where
  "num_tokens_with_spec r = num_tokens r + int (length (r_spec_token_ids r))"

type_synonym heap = "req_id \<Rightarrow> request"

section \<open>The output of a step\<close>

record new_request_data =
  nd_req_id :: req_id
  nd_prompt_token_ids :: "int list option"
  nd_mm_features :: handle
  nd_sampling_params :: "handle option"
  nd_pooling_params :: "handle option"
  nd_block_ids :: "nat list list"
  nd_num_computed_tokens :: int
  nd_lora_request :: "int option"
  nd_new_token_ids :: "int list"
  nd_prompt_embeds :: "handle option"

definition from_request :: "req_id \<Rightarrow> request \<Rightarrow> nat list list \<Rightarrow> new_request_data" where
  "from_request rid r block_ids =
     \<lparr>nd_req_id = rid,
      nd_prompt_token_ids = r_prompt_token_ids r,
      nd_mm_features = r_mm_features r,
      nd_sampling_params = r_sampling_params r,
      nd_pooling_params = r_pooling_params r,
      nd_block_ids = block_ids,
      nd_num_computed_tokens = r_num_computed_tokens r,
      nd_lora_request = r_lora r,
      nd_new_token_ids = r_output_token_ids r,
      nd_prompt_embeds = r_prompt_embeds r\<rparr>"

record sched_output =
  so_new_reqs :: "new_request_data list"
  so_cached_reqs :: handle
  so_num_scheduled_tokens :: "(req_id, int) dict"
  so_total_num_scheduled_tokens :: int
  so_spec_decode_tokens :: "(req_id, int list) dict"
  so_encoder_inputs :: "(req_id, int list) dict"
  so_num_common_prefix_blocks :: "nat list"
  so_finished_req_ids :: "req_id list"
  so_free_encoder_mm_hashes :: "string list"
  so_kv_connector_metadata :: "handle option"
  so_ec_connector_metadata :: "handle option"
  so_pending_structured_output_tokens :: bool

section \<open>Configuration\<close>

record config =
  c_max_num_scheduled_tokens :: int
  c_max_num_running_reqs :: nat
  c_max_num_encoder_input_tokens :: int
  c_long_prefill_token_threshold :: int
  c_enable_chunked_prefill :: bool
  c_max_model_len :: int
  c_num_lookahead_tokens :: int
  c_num_speculative_tokens :: "nat option"
  c_policy :: sched_policy
  c_max_loras :: "nat option"
  c_is_encoder_decoder :: bool
  c_window_size :: int
  c_num_kv_cache_groups :: nat
  c_log_stats :: bool
  c_sched_profiler :: bool
  c_v1_benchmark :: bool
  c_min_prefill_batch :: nat
  c_disagg_fake_decoder :: bool
  c_disagg_trans_all_blocks :: bool

section \<open>State\<close>

record metric =
  m_step :: nat
  m_waiting_reqs :: nat
  m_running_reqs :: nat
  m_finished_reqs :: nat
  m_wait_to_run_reqs :: nat
  m_run_to_wait_reqs :: nat
  m_token_usage :: rat
  m_batch_usage :: rat
  m_block_usage :: rat
  m_num_scheduled_batchs :: nat
  m_num_scheduled_tokens :: int
  m_num_scheduled_seqlens :: int

text \<open>The scheduler object. \<open>'w\<close> is the state of the objects outside the repository.\<close>

record 'w sched =
  s_running :: "req_id list"
  s_waiting :: "req_id list"
  s_requests :: heap
  s_world :: 'w
  s_finished_req_ids :: "req_id list"
  s_prev_step_scheduled :: "req_id list"
  s_sched_step :: nat
  s_sched_metrics :: "metric list"

text \<open>The scheduler object together with the local variables of \<^verbatim>\<open>schedule\<close>.\<close>

record ('w, 'b) step = "'w sched" +
  l_new :: "req_id list"
  l_resumed :: "req_id list"
  l_scheduled_running :: "req_id list"
  l_preempted :: "req_id list"
  l_new_blocks :: "(req_id, 'b) dict"
  l_num_scheduled :: "(req_id, int) dict"
  l_budget :: int
  l_encoder_inputs :: "(req_id, int list) dict"
  l_encoder_budget :: int
  l_spec_tokens :: "(req_id, int list) dict"
  l_loras :: "int list"
  l_skipped :: "req_id list"
  l_req_index :: int

definition begin_step :: "config \<Rightarrow> 'w sched \<Rightarrow> ('w, 'b) step" where
  "begin_step cfg st = sched.extend st
     \<lparr>l_new = [], l_resumed = [], l_scheduled_running = [], l_preempted = [],
      l_new_blocks = [], l_num_scheduled = [],
      l_budget = c_max_num_scheduled_tokens cfg,
      l_encoder_inputs = [],
      l_encoder_budget = c_max_num_encoder_input_tokens cfg,
      l_spec_tokens = [], l_loras = [], l_skipped = [], l_req_index = 0\<rparr>"

definition req_of :: "('w, 'z) sched_scheme \<Rightarrow> req_id \<Rightarrow> request" where
  "req_of s rid = s_requests s rid"

definition upd_req :: "req_id \<Rightarrow> (request \<Rightarrow> request) \<Rightarrow> ('w, 'z) sched_scheme \<Rightarrow> ('w, 'z) sched_scheme" where
  "upd_req rid f s = s\<lparr>s_requests := (s_requests s)(rid := f (s_requests s rid))\<rparr>"

section \<open>Operations outside the repository\<close>

text \<open>
  The queue operations read the requests because the priority queue orders by their fields.
  \<open>e_peek\<close> and \<open>e_pop\<close> raise on an empty queue. A connector that is not configured is \<open>None\<close>.
\<close>

record ('w, 'b) connector =
  k_matched_tokens :: "req_id \<Rightarrow> request \<Rightarrow> int \<Rightarrow> 'w \<Rightarrow> (int option \<times> bool) \<times> 'w"
  k_update_after_alloc :: "req_id \<Rightarrow> 'b \<Rightarrow> int \<Rightarrow> 'w \<Rightarrow> 'w"
  k_prefix_cache_stats :: "req_id \<Rightarrow> int \<Rightarrow> 'w \<Rightarrow> 'w"
  k_build_meta :: "sched_output \<Rightarrow> 'w \<Rightarrow> handle \<times> 'w"

record 'w ec_connector =
  ec_update_after_alloc :: "req_id \<Rightarrow> int \<Rightarrow> 'w \<Rightarrow> 'w"
  ec_build_meta :: "sched_output \<Rightarrow> 'w \<Rightarrow> handle \<times> 'w"

record ('w, 'b) ext =
  e_peek :: "heap \<Rightarrow> req_id list \<Rightarrow> req_id res"
  e_pop :: "heap \<Rightarrow> req_id list \<Rightarrow> (req_id \<times> req_id list) res"
  e_prepend :: "heap \<Rightarrow> req_id \<Rightarrow> req_id list \<Rightarrow> req_id list"
  e_prepend_all :: "heap \<Rightarrow> req_id list \<Rightarrow> req_id list \<Rightarrow> req_id list"
  e_allocate_slots :: "req_id \<Rightarrow> request \<Rightarrow> int \<Rightarrow> int \<Rightarrow> 'b option \<Rightarrow> int \<Rightarrow> bool \<Rightarrow> int \<Rightarrow> int
    \<Rightarrow> 'w \<Rightarrow> ('b option \<times> 'w) res"
  e_kv_free :: "req_id \<Rightarrow> 'w \<Rightarrow> 'w"
  e_encoder_free :: "req_id \<Rightarrow> 'w \<Rightarrow> 'w"
  e_encoder_allocate :: "req_id \<Rightarrow> int \<Rightarrow> 'w \<Rightarrow> 'w"
  e_num_encoder_tokens :: "req_id \<Rightarrow> int \<Rightarrow> int"
  e_try_encoder :: "req_id \<Rightarrow> request \<Rightarrow> int \<Rightarrow> int \<Rightarrow> int \<Rightarrow> 'w
    \<Rightarrow> (int list option \<times> int \<times> int \<times> int list) \<times> 'w"
  e_update_remote_kv :: "req_id \<Rightarrow> request \<Rightarrow> 'w \<Rightarrow> bool \<times> request \<times> 'w"
  e_get_computed_blocks :: "req_id \<Rightarrow> request \<Rightarrow> 'w \<Rightarrow> ('b \<times> int) \<times> 'w"
  e_empty_blocks :: 'b
  e_add_blocks :: "'b \<Rightarrow> 'b \<Rightarrow> 'b"
  e_get_blocks :: "req_id \<Rightarrow> 'w \<Rightarrow> 'b"
  e_block_ids :: "'b \<Rightarrow> nat list list"
  e_append_output :: "int \<Rightarrow> request \<Rightarrow> request"
  e_common_prefix_blocks :: "req_id \<Rightarrow> 'w \<Rightarrow> nat list"
  e_freed_mm_hashes :: "'w \<Rightarrow> string list \<times> 'w"
  e_kv_usage :: "'w \<Rightarrow> rat"
  e_cached_request_data :: "heap \<Rightarrow> req_id list \<Rightarrow> req_id list \<Rightarrow> (req_id, int) dict
    \<Rightarrow> (req_id, int list) dict \<Rightarrow> (req_id, 'b) dict \<Rightarrow> handle"
  e_connector :: "('w, 'b) connector option"
  e_ec_connector :: "'w ec_connector option"

section \<open>Metrics of a step\<close>

definition build_metric ::
  "nat \<Rightarrow> nat \<Rightarrow> nat \<Rightarrow> nat \<Rightarrow> heap \<Rightarrow> req_id list \<Rightarrow> req_id list \<Rightarrow> req_id list \<Rightarrow> req_id list
    \<Rightarrow> int \<Rightarrow> int \<Rightarrow> nat \<Rightarrow> rat \<Rightarrow> metric res" where
  "build_metric stp waiting_reqs running_reqs finished_reqs rq new_reqs resumed_reqs sched_running preempted
       total_tokens max_tokens max_running block_usage =
     (let wait_to_run_reqs = length new_reqs + length resumed_reqs;
          total_batchs = wait_to_run_reqs + length sched_running;
          total_seqlens = sum_list (map (\<lambda>rid. r_num_computed_tokens (rq rid))
            (new_reqs @ resumed_reqs @ sched_running))
      in require (max_tokens \<noteq> 0 \<and> max_running \<noteq> 0) ZeroDivisionError
        (Inr \<lparr>m_step = stp, m_waiting_reqs = waiting_reqs, m_running_reqs = running_reqs,
              m_finished_reqs = finished_reqs, m_wait_to_run_reqs = wait_to_run_reqs,
              m_run_to_wait_reqs = length preempted,
              m_token_usage = of_int total_tokens / of_int max_tokens,
              m_batch_usage = of_nat total_batchs / of_nat max_running,
              m_block_usage = block_usage,
              m_num_scheduled_batchs = total_batchs,
              m_num_scheduled_tokens = total_tokens,
              m_num_scheduled_seqlens = total_seqlens\<rparr>))"

end
