(* ===== verification/SchedRunning.thy ===== *)
theory SchedRunning
  imports SchedData
begin

text \<open>
  The scheduling of the running requests in \<^verbatim>\<open>schedule\<close>: how many tokens a request
  gets, the encoder inputs, the allocation loop with preemption, and the loop over the running
  queue, in the chunked and in the unchunked scheduler.
\<close>

section \<open>Preemption\<close>

text \<open>\<^verbatim>\<open>max(xs, key=...)\<close>: the first element with the greatest key.\<close>

fun first_max :: "('a \<Rightarrow> 'a \<Rightarrow> bool) \<Rightarrow> 'a \<Rightarrow> 'a list \<Rightarrow> 'a" where
  "first_max lt m [] = m"
| "first_max lt m (x # xs) = first_max lt (if lt m x then x else m) xs"

definition key_less :: "heap \<Rightarrow> req_id \<Rightarrow> req_id \<Rightarrow> bool" where
  "key_less rq a b =
     (r_priority (rq a) < r_priority (rq b)
      \<or> r_priority (rq a) = r_priority (rq b) \<and> r_arrival_time (rq a) < r_arrival_time (rq b))"

text \<open>Take a request that was already scheduled in this step back out of the step.\<close>

definition unschedule :: "('w, 'b) ext \<Rightarrow> req_id \<Rightarrow> ('w, 'b) step \<Rightarrow> ('w, 'b) step res" where
  "unschedule env v s =
     bind_res (dict_at (l_num_scheduled s) v) (\<lambda>n.
     bind_res (dict_at (l_new_blocks s) v) (\<lambda>_.
     let restore = (case dict_get (l_encoder_inputs s) v of
           None \<Rightarrow> 0 | Some is \<Rightarrow> sum_list (map (e_num_encoder_tokens env v) is))
     in Inr (s\<lparr>l_scheduled_running := remove1 v (l_scheduled_running s),
               l_budget := l_budget s + n,
               l_new_blocks := dict_pop v (l_new_blocks s),
               l_num_scheduled := dict_pop v (l_num_scheduled s),
               l_spec_tokens := dict_pop v (l_spec_tokens s),
               l_encoder_inputs := dict_pop v (l_encoder_inputs s),
               l_encoder_budget := l_encoder_budget s + restore,
               l_req_index := l_req_index s - 1\<rparr>)))"

text \<open>Choose the request to preempt and take it out of the running queue.\<close>

definition pick_victim :: "('w, 'b) ext \<Rightarrow> config \<Rightarrow> ('w, 'b) step \<Rightarrow> (req_id \<times> ('w, 'b) step) res" where
  "pick_victim env cfg s =
     (case c_policy cfg of
        PRIORITY \<Rightarrow>
          (case s_running s of
             [] \<Rightarrow> Inl ValueError
           | x # xs \<Rightarrow>
               let v = first_max (key_less (s_requests s)) x xs;
                   s' = s\<lparr>s_running := remove1 v (s_running s)\<rparr>
               in if v \<in> set (l_scheduled_running s')
                  then bind_res (unschedule env v s') (\<lambda>s''. Inr (v, s''))
                  else Inr (v, s'))
      | FCFS \<Rightarrow>
          if s_running s = [] then Inl IndexError
          else Inr (last (s_running s), s\<lparr>s_running := butlast (s_running s)\<rparr>))"

definition preempt_one :: "('w, 'b) ext \<Rightarrow> config \<Rightarrow> ('w, 'b) step \<Rightarrow> (req_id \<times> ('w, 'b) step) res" where
  "preempt_one env cfg s =
     bind_res (pick_victim env cfg s) (\<lambda>(v, s1).
     let s2 = s1\<lparr>s_world := e_encoder_free env v (e_kv_free env v (s_world s1))\<rparr>;
         s3 = upd_req v (\<lambda>r. r\<lparr>r_status := PREEMPTED, r_num_computed_tokens := 0,
                r_num_preemptions := r_num_preemptions r + 1,
                r_events := (if c_log_stats cfg then r_events r @ [PREEMPTED_EV] else r_events r)\<rparr>) s2
     in Inr (v, s3\<lparr>s_waiting := e_prepend env (s_requests s3) v (s_waiting s3),
                   l_preempted := l_preempted s3 @ [v]\<rparr>))"

lemma upd_req_simps [simp]:
  "s_running (upd_req rid f s) = s_running s"
  "s_waiting (upd_req rid f s) = s_waiting s"
  "s_world (upd_req rid f s) = s_world s"
  "s_finished_req_ids (upd_req rid f s) = s_finished_req_ids s"
  "s_requests (upd_req rid f s) = (s_requests s)(rid := f (s_requests s rid))"
  by (simp_all add: upd_req_def)

lemma upd_req_step_simps [simp]:
  "l_new (upd_req rid f s) = l_new s"
  "l_resumed (upd_req rid f s) = l_resumed s"
  "l_scheduled_running (upd_req rid f s) = l_scheduled_running s"
  "l_preempted (upd_req rid f s) = l_preempted s"
  "l_new_blocks (upd_req rid f s) = l_new_blocks s"
  "l_num_scheduled (upd_req rid f s) = l_num_scheduled s"
  "l_budget (upd_req rid f s) = l_budget s"
  "l_encoder_inputs (upd_req rid f s) = l_encoder_inputs s"
  "l_encoder_budget (upd_req rid f s) = l_encoder_budget s"
  "l_spec_tokens (upd_req rid f s) = l_spec_tokens s"
  "l_loras (upd_req rid f s) = l_loras s"
  "l_skipped (upd_req rid f s) = l_skipped s"
  "l_req_index (upd_req rid f s) = l_req_index s"
  by (simp_all add: upd_req_def)

lemma first_max_in: "first_max lt m xs \<in> insert m (set xs)"
  by (induction xs arbitrary: m) (auto split: if_splits)

lemma pick_victim_measure:
  assumes "pick_victim env cfg s = Inr (v, s')"
  shows "v \<in> set (s_running s)" "length (s_running s') < length (s_running s)"
    "int (length (s_running s')) - l_req_index s' \<le> int (length (s_running s)) - l_req_index s"
proof -
  have in_run: "first_max lt x xs \<in> set (x # xs)" for lt :: "req_id \<Rightarrow> req_id \<Rightarrow> bool" and x xs
    using first_max_in[of lt x xs] by simp
  have "v \<in> set (s_running s) \<and> length (s_running s') < length (s_running s)
    \<and> int (length (s_running s')) - l_req_index s' \<le> int (length (s_running s)) - l_req_index s"
  proof (cases "c_policy cfg")
    case FCFS
    then show ?thesis using assms by (auto simp: pick_victim_def split: if_splits)
  next
    case PRIORITY
    then obtain x xs where r: "s_running s = x # xs"
      using assms by (cases "s_running s") (auto simp: pick_victim_def)
    let ?v = "first_max (key_less (s_requests s)) x xs"
    have v: "v = ?v" using assms PRIORITY r
      by (auto simp: pick_victim_def Let_def bind_res_eq_Inr split: if_splits)
    have vin: "v \<in> set (x # xs)" using in_run v by simp
    have "length (remove1 v (x # xs)) = length xs" using vin length_remove1[of v "x # xs"]
      by (simp del: remove1.simps)
    then show ?thesis using assms PRIORITY r v vin
      by (auto simp: pick_victim_def unschedule_def Let_def bind_res_eq_Inr split: if_splits)
  qed
  then show "v \<in> set (s_running s)" "length (s_running s') < length (s_running s)"
    "int (length (s_running s')) - l_req_index s' \<le> int (length (s_running s)) - l_req_index s"
    by blast+
qed

lemma preempt_one_measure:
  assumes "preempt_one env cfg s = Inr (v, s')"
  shows "v \<in> set (s_running s)" "length (s_running s') < length (s_running s)"
    "int (length (s_running s')) - l_req_index s' \<le> int (length (s_running s)) - l_req_index s"
  using assms pick_victim_measure[of env cfg s]
  by (auto simp: preempt_one_def Let_def bind_res_eq_Inr)

section \<open>The allocation loop\<close>

text \<open>
  \<^verbatim>\<open>while True\<close>: allocate; when the cache is full, preempt a request and try again, until
  the request itself was preempted. \<open>win\<close> is the argument \<^verbatim>\<open>fixed_window_tokens\<close>.
\<close>

function alloc_loop ::
  "('w, 'b) ext \<Rightarrow> config \<Rightarrow> int \<Rightarrow> req_id \<Rightarrow> int \<Rightarrow> ('w, 'b) step \<Rightarrow> ('b option \<times> ('w, 'b) step) res" where
  "alloc_loop env cfg win rid n s =
     (case e_allocate_slots env rid (req_of s rid) n 0 None (c_num_lookahead_tokens cfg) False 0 win (s_world s) of
        Inl e \<Rightarrow> Inl e
      | Inr (Some b, w) \<Rightarrow> Inr (Some b, s\<lparr>s_world := w\<rparr>)
      | Inr (None, w) \<Rightarrow>
          if c_v1_benchmark cfg then Inl RuntimeError
          else (case preempt_one env cfg (s\<lparr>s_world := w\<rparr>) of
              Inl e \<Rightarrow> Inl e
            | Inr (v, s') \<Rightarrow> if v = rid then Inr (None, s') else alloc_loop env cfg win rid n s'))"
  by pat_completeness auto

termination
  by (relation "measure (\<lambda>(env, cfg, win, rid, n, s). length (s_running s))")
    (auto dest: preempt_one_measure(2))

declare alloc_loop.simps [simp del]

text \<open>The rule for the loop: \<open>I\<close> holds while it runs, \<open>J\<close> once the request itself is gone.\<close>

lemma alloc_loop_rule:
  assumes "alloc_loop env cfg win rid n s = Inr (ob, s')" "I s"
    and world: "\<And>s w. I s \<Longrightarrow> I (s\<lparr>s_world := w\<rparr>)"
    and other: "\<And>s v s'. preempt_one env cfg s = Inr (v, s') \<Longrightarrow> I s \<Longrightarrow> v \<noteq> rid \<Longrightarrow> I s'"
    and self: "\<And>s s'. preempt_one env cfg s = Inr (rid, s') \<Longrightarrow> I s \<Longrightarrow> J s'"
  shows "case ob of Some b \<Rightarrow> I s' | None \<Rightarrow> J s'"
  using assms(1,2)
proof (induction "length (s_running s)" arbitrary: s rule: less_induct)
  case less
  let ?a = "e_allocate_slots env rid (req_of s rid) n 0 None (c_num_lookahead_tokens cfg) False 0 win (s_world s)"
  obtain ob1 w where a: "?a = Inr (ob1, w)"
    using less.prems(1) by (subst (asm) alloc_loop.simps) (auto split: sum.splits)
  show ?case
  proof (cases ob1)
    case (Some b)
    then show ?thesis using less.prems a world by (subst (asm) alloc_loop.simps) auto
  next
    case None
    then have nb: "\<not> c_v1_benchmark cfg"
      using less.prems(1) a by (subst (asm) alloc_loop.simps) auto
    then obtain v s1 where v: "preempt_one env cfg (s\<lparr>s_world := w\<rparr>) = Inr (v, s1)"
      using less.prems(1) a None by (subst (asm) alloc_loop.simps) (auto split: sum.splits)
    have Iw: "I (s\<lparr>s_world := w\<rparr>)" by (rule world[OF less.prems(2)])
    show ?thesis
    proof (cases "v = rid")
      case True
      then show ?thesis using less.prems(1) a None nb v self[OF _ Iw]
        by (subst (asm) alloc_loop.simps) auto
    next
      case False
      have r: "alloc_loop env cfg win rid n s1 = Inr (ob, s')"
        using less.prems(1) a None nb v False by (subst (asm) alloc_loop.simps) simp
      have "length (s_running s1) < length (s_running s)" using preempt_one_measure(2)[OF v] by simp
      from less.hyps[OF this r other[OF v Iw False]] show ?thesis .
    qed
  qed
qed

lemma alloc_loop_measure:
  assumes "alloc_loop env cfg win rid n s = Inr (ob, s')"
  shows "int (length (s_running s')) - l_req_index s' \<le> int (length (s_running s)) - l_req_index s"
proof -
  let ?I = "\<lambda>t. int (length (s_running t)) - l_req_index t \<le> int (length (s_running s)) - l_req_index s"
  have "case ob of Some b \<Rightarrow> ?I s' | None \<Rightarrow> ?I s'"
    by (rule alloc_loop_rule[OF assms]) (force dest: preempt_one_measure(3))+
  then show ?thesis by (cases ob) auto
qed

section \<open>One running request\<close>

text \<open>Reading a Python list: negative indices count from the end.\<close>

definition py_nth :: "'a list \<Rightarrow> int \<Rightarrow> 'a res" where
  "py_nth xs i =
     (if 0 \<le> i then nth_res xs (nat i)
      else if - int (length xs) \<le> i then Inr (xs ! nat (int (length xs) + i))
      else Inl IndexError)"

definition wanted_tokens :: "config \<Rightarrow> request \<Rightarrow> int \<Rightarrow> int" where
  "wanted_tokens cfg r budget =
     (let n = num_tokens_with_spec r + r_num_output_placeholders r - r_num_computed_tokens r;
          n = (if 0 < c_long_prefill_token_threshold cfg \<and> c_long_prefill_token_threshold cfg < n
               then c_long_prefill_token_threshold cfg else n)
      in min n budget)"

definition chunk_running_tokens :: "config \<Rightarrow> request \<Rightarrow> int \<Rightarrow> int" where
  "chunk_running_tokens cfg r budget =
     min (wanted_tokens cfg r budget) (c_max_model_len cfg - r_num_computed_tokens r)"

definition unchunk_running_tokens :: "config \<Rightarrow> request \<Rightarrow> int \<Rightarrow> int" where
  "unchunk_running_tokens cfg r budget =
     (let max_total_tokens = min (r_num_prompt_tokens r + r_max_tokens r) (c_max_model_len cfg);
          num_speculative_tokens = (case c_num_speculative_tokens cfg of None \<Rightarrow> 0 | Some k \<Rightarrow> int k)
      in min (wanted_tokens cfg r budget)
          (max_total_tokens + num_speculative_tokens - 1 - r_num_computed_tokens r))"

definition running_tokens :: "sched_mode \<Rightarrow> config \<Rightarrow> request \<Rightarrow> int \<Rightarrow> int" where
  "running_tokens md cfg r budget =
     (case md of CHUNK \<Rightarrow> chunk_running_tokens cfg r budget
      | UNCHUNK \<Rightarrow> unchunk_running_tokens cfg r budget)"

text \<open>
  The encoder inputs of a request: the inputs to schedule, the possibly reduced token count, the
  encoder budget that is left, and the inputs loaded from elsewhere.
\<close>

definition plan_encoder ::
  "('w, 'b) ext \<Rightarrow> req_id \<Rightarrow> int \<Rightarrow> int \<Rightarrow> ('w, 'b) step
    \<Rightarrow> (int list option \<times> int \<times> int \<times> int list) \<times> ('w, 'b) step" where
  "plan_encoder env rid computed n s =
     (if r_has_encoder_inputs (req_of s rid)
      then (let (p, w) = e_try_encoder env rid (req_of s rid) computed n (l_encoder_budget s) (s_world s)
            in (p, s\<lparr>s_world := w\<rparr>))
      else ((None, n, l_encoder_budget s, []), s))"

text \<open>Allocate the encoder cache for the inputs of a request that was just scheduled.\<close>

definition commit_encoder ::
  "('w, 'b) ext \<Rightarrow> req_id \<Rightarrow> int list option \<Rightarrow> int \<Rightarrow> int list \<Rightarrow> ('w, 'b) step \<Rightarrow> ('w, 'b) step" where
  "commit_encoder env rid inputs new_budget external s =
     (let s1 = (case inputs of
            None \<Rightarrow> s
          | Some [] \<Rightarrow> s
          | Some is \<Rightarrow> s\<lparr>l_encoder_inputs := dict_set rid is (l_encoder_inputs s),
                        s_world := fold (e_encoder_allocate env rid) is (s_world s),
                        l_encoder_budget := new_budget\<rparr>)
      in s1\<lparr>s_world := fold (\<lambda>i w. case e_ec_connector env of
              None \<Rightarrow> e_encoder_allocate env rid i w
            | Some ec \<Rightarrow> ec_update_after_alloc ec rid i (e_encoder_allocate env rid i w))
            external (s_world s1)\<rparr>)"

text \<open>
  The speculative tokens of a scheduled request: as many as fit behind its own tokens are handed
  to the step, and the list of the request is emptied.
\<close>

definition commit_spec :: "req_id \<Rightarrow> int \<Rightarrow> ('w, 'b) step \<Rightarrow> ('w, 'b) step" where
  "commit_spec rid n s =
     (let r = req_of s rid;
          k = n + r_num_computed_tokens r - num_tokens r - r_num_output_placeholders r
      in if r_spec_token_ids r = [] then s
         else upd_req rid (\<lambda>r. r\<lparr>r_spec_token_ids := []\<rparr>)
           (if 0 < k then s\<lparr>l_spec_tokens := dict_set rid (take (nat k) (r_spec_token_ids r)) (l_spec_tokens s)\<rparr>
            else s))"

definition commit_running :: "req_id \<Rightarrow> int \<Rightarrow> 'b \<Rightarrow> ('w, 'b) step \<Rightarrow> ('w, 'b) step" where
  "commit_running rid n b s =
     s\<lparr>l_scheduled_running := l_scheduled_running s @ [rid],
       l_new_blocks := dict_set rid b (l_new_blocks s),
       l_num_scheduled := dict_set rid n (l_num_scheduled s),
       l_budget := l_budget s - n,
       l_req_index := l_req_index s + 1\<rparr>"

datatype 's flow = Continue 's | Break 's

text \<open>The scheduler passes its sliding window to the cache manager only when it is unchunked.\<close>

definition window_tokens :: "sched_mode \<Rightarrow> config \<Rightarrow> int" where
  "window_tokens md cfg = (case md of CHUNK \<Rightarrow> 0 | UNCHUNK \<Rightarrow> c_window_size cfg)"

definition running_step ::
  "sched_mode \<Rightarrow> ('w, 'b) ext \<Rightarrow> config \<Rightarrow> ('w, 'b) step \<Rightarrow> ('w, 'b) step flow res" where
  "running_step md env cfg s =
     bind_res (py_nth (s_running s) (l_req_index s)) (\<lambda>rid.
     let r = req_of s rid;
         n0 = running_tokens md cfg r (l_budget s);
         ((inputs, n, new_budget, external), s1) =
           plan_encoder env rid (r_num_computed_tokens r) n0 s
     in if n = 0 then Inr (Continue (s1\<lparr>l_req_index := l_req_index s1 + 1\<rparr>))
        else bind_res (alloc_loop env cfg (window_tokens md cfg) rid n s1) (\<lambda>(ob, s2).
          case ob of
            None \<Rightarrow> Inr (Break s2)
          | Some b \<Rightarrow> Inr (Continue (commit_encoder env rid inputs new_budget external
              (commit_spec rid n (commit_running rid n b s2))))))"

text \<open>The body of the loop in the unchunked scheduler, and its last statements.\<close>

definition unchunk_running_step ::
  "('w, 'b) ext \<Rightarrow> config \<Rightarrow> ('w, 'b) step \<Rightarrow> ('w, 'b) step flow res" where
  "unchunk_running_step = running_step UNCHUNK"

definition commit_scheduled ::
  "('w, 'b) ext \<Rightarrow> req_id \<Rightarrow> int \<Rightarrow> 'b \<Rightarrow> int list option \<Rightarrow> int \<Rightarrow> int list \<Rightarrow> ('w, 'b) step \<Rightarrow> ('w, 'b) step" where
  "commit_scheduled env rid n b inputs new_budget external s =
     commit_encoder env rid inputs new_budget external (commit_spec rid n (commit_running rid n b s))"

lemma unchunk_selects:
  "running_tokens UNCHUNK cfg r b = unchunk_running_tokens cfg r b" "window_tokens UNCHUNK cfg = c_window_size cfg"
  by (simp_all add: running_tokens_def window_tokens_def)

lemma unchunk_running_step:
  "unchunk_running_step env cfg s =
     bind_res (py_nth (s_running s) (l_req_index s)) (\<lambda>rid.
     let r = req_of s rid;
         ((inputs, n, new_budget, external), s1) =
           plan_encoder env rid (r_num_computed_tokens r) (unchunk_running_tokens cfg r (l_budget s)) s
     in if n = 0 then Inr (Continue (s1\<lparr>l_req_index := l_req_index s1 + 1\<rparr>))
        else bind_res (alloc_loop env cfg (c_window_size cfg) rid n s1) (\<lambda>(ob, s2).
          case ob of
            None \<Rightarrow> Inr (Break s2)
          | Some b \<Rightarrow> Inr (Continue (commit_scheduled env rid n b inputs new_budget external s2))))"
  unfolding unchunk_running_step_def running_step_def commit_scheduled_def unchunk_selects Let_def by (rule refl)

section \<open>The loop over the running queue\<close>

lemma plan_encoder_keeps:
  assumes "plan_encoder env rid computed n s = (p, s')"
  shows "\<exists>w. s' = s\<lparr>s_world := w\<rparr>"
  using assms by (cases "r_has_encoder_inputs (req_of s rid)")
    (auto simp: plan_encoder_def split: prod.splits intro: exI[of _ "s_world s"])

lemma commit_encoder_keeps [simp]:
  "s_running (commit_encoder env rid i b e s) = s_running s"
  "s_waiting (commit_encoder env rid i b e s) = s_waiting s"
  "s_requests (commit_encoder env rid i b e s) = s_requests s"
  "s_finished_req_ids (commit_encoder env rid i b e s) = s_finished_req_ids s"
  "l_new (commit_encoder env rid i b e s) = l_new s"
  "l_resumed (commit_encoder env rid i b e s) = l_resumed s"
  "l_scheduled_running (commit_encoder env rid i b e s) = l_scheduled_running s"
  "l_preempted (commit_encoder env rid i b e s) = l_preempted s"
  "l_new_blocks (commit_encoder env rid i b e s) = l_new_blocks s"
  "l_num_scheduled (commit_encoder env rid i b e s) = l_num_scheduled s"
  "l_budget (commit_encoder env rid i b e s) = l_budget s"
  "l_spec_tokens (commit_encoder env rid i b e s) = l_spec_tokens s"
  "l_loras (commit_encoder env rid i b e s) = l_loras s"
  "l_skipped (commit_encoder env rid i b e s) = l_skipped s"
  "l_req_index (commit_encoder env rid i b e s) = l_req_index s"
  by (simp_all add: commit_encoder_def Let_def split: option.splits list.splits)

lemma commit_spec_keeps [simp]:
  "s_running (commit_spec rid n s) = s_running s"
  "s_waiting (commit_spec rid n s) = s_waiting s"
  "s_world (commit_spec rid n s) = s_world s"
  "s_finished_req_ids (commit_spec rid n s) = s_finished_req_ids s"
  "l_new (commit_spec rid n s) = l_new s"
  "l_resumed (commit_spec rid n s) = l_resumed s"
  "l_scheduled_running (commit_spec rid n s) = l_scheduled_running s"
  "l_preempted (commit_spec rid n s) = l_preempted s"
  "l_new_blocks (commit_spec rid n s) = l_new_blocks s"
  "l_num_scheduled (commit_spec rid n s) = l_num_scheduled s"
  "l_budget (commit_spec rid n s) = l_budget s"
  "l_skipped (commit_spec rid n s) = l_skipped s"
  "l_loras (commit_spec rid n s) = l_loras s"
  "l_req_index (commit_spec rid n s) = l_req_index s"
  by (simp_all add: commit_spec_def Let_def)

text \<open>Case analysis of one step, the form every proof about the loop uses.\<close>

lemma running_step_cases:
  assumes "running_step md env cfg s = Inr f"
  obtains (skip) rid inputs bud external w where
      "py_nth (s_running s) (l_req_index s) = Inr rid"
      "plan_encoder env rid (r_num_computed_tokens (req_of s rid))
         (running_tokens md cfg (req_of s rid) (l_budget s)) s = ((inputs, 0, bud, external), s\<lparr>s_world := w\<rparr>)"
      "f = Continue (s\<lparr>s_world := w, l_req_index := l_req_index s + 1\<rparr>)"
  | (gone) rid inputs n bud external w s2 where
      "py_nth (s_running s) (l_req_index s) = Inr rid"
      "plan_encoder env rid (r_num_computed_tokens (req_of s rid))
         (running_tokens md cfg (req_of s rid) (l_budget s)) s = ((inputs, n, bud, external), s\<lparr>s_world := w\<rparr>)"
      "n \<noteq> 0" "alloc_loop env cfg (window_tokens md cfg) rid n (s\<lparr>s_world := w\<rparr>) = Inr (None, s2)"
      "f = Break s2"
  | (sched) rid inputs n bud external w b s2 where
      "py_nth (s_running s) (l_req_index s) = Inr rid"
      "plan_encoder env rid (r_num_computed_tokens (req_of s rid))
         (running_tokens md cfg (req_of s rid) (l_budget s)) s = ((inputs, n, bud, external), s\<lparr>s_world := w\<rparr>)"
      "n \<noteq> 0" "alloc_loop env cfg (window_tokens md cfg) rid n (s\<lparr>s_world := w\<rparr>) = Inr (Some b, s2)"
      "f = Continue (commit_encoder env rid inputs bud external (commit_spec rid n (commit_running rid n b s2)))"
proof -
  obtain rid where rid: "py_nth (s_running s) (l_req_index s) = Inr rid"
    using assms by (auto simp: running_step_def bind_res_eq_Inr)
  obtain inputs n bud external s1 where p: "plan_encoder env rid (r_num_computed_tokens (req_of s rid))
         (running_tokens md cfg (req_of s rid) (l_budget s)) s = ((inputs, n, bud, external), s1)"
    by (metis surj_pair)
  obtain w where w: "s1 = s\<lparr>s_world := w\<rparr>" using plan_encoder_keeps[OF p] by blast
  show ?thesis
  proof (cases "n = 0")
    case True
    then show ?thesis using assms rid p w by (intro skip) (auto simp: running_step_def)
  next
    case False
    then obtain ob s2 where a: "alloc_loop env cfg (window_tokens md cfg) rid n s1 = Inr (ob, s2)"
      using assms rid p by (auto simp: running_step_def Let_def bind_res_eq_Inr)
    show ?thesis
    proof (cases ob)
      case None
      then show ?thesis using assms rid p w False a by (intro gone) (auto simp: running_step_def)
    next
      case (Some b)
      then show ?thesis using assms rid p w False a by (intro sched) (auto simp: running_step_def)
    qed
  qed
qed

lemma running_step_measure:
  assumes "running_step md env cfg s = Inr (Continue s')"
  shows "int (length (s_running s')) - l_req_index s' < int (length (s_running s)) - l_req_index s"
  using assms
proof (cases rule: running_step_cases)
  case (sched rid inputs n bud external w b s2)
  then show ?thesis using alloc_loop_measure[OF sched(4)] by (simp add: commit_running_def)
qed auto

function running_loop ::
  "sched_mode \<Rightarrow> ('w, 'b) ext \<Rightarrow> config \<Rightarrow> ('w, 'b) step \<Rightarrow> ('w, 'b) step res" where
  "running_loop md env cfg s =
     (if l_req_index s < int (length (s_running s)) \<and> 0 < l_budget s then
        (case running_step md env cfg s of
           Inl e \<Rightarrow> Inl e
         | Inr (Break s') \<Rightarrow> Inr s'
         | Inr (Continue s') \<Rightarrow> running_loop md env cfg s')
      else Inr s)"
  by pat_completeness auto

termination
  by (relation "measure (\<lambda>(md, env, cfg, s). nat (int (length (s_running s)) - l_req_index s))")
    (auto dest: running_step_measure)

declare running_loop.simps [simp del]

lemma running_loop_rule:
  assumes "running_loop md env cfg s = Inr s'" "I s"
    and "\<And>s s'. running_step md env cfg s = Inr (Continue s') \<Longrightarrow> I s \<Longrightarrow> 0 < l_budget s
      \<Longrightarrow> l_req_index s < int (length (s_running s)) \<Longrightarrow> I s'"
    and "\<And>s s'. running_step md env cfg s = Inr (Break s') \<Longrightarrow> I s \<Longrightarrow> 0 < l_budget s
      \<Longrightarrow> l_req_index s < int (length (s_running s)) \<Longrightarrow> J s'"
    and "\<And>s. I s \<Longrightarrow> J s"
  shows "J s'"
  using assms(1,2)
proof (induction "nat (int (length (s_running s)) - l_req_index s)" arbitrary: s rule: less_induct)
  case less
  show ?case
  proof (cases "l_req_index s < int (length (s_running s)) \<and> 0 < l_budget s")
    case False
    then show ?thesis using less.prems assms(5) by (subst (asm) running_loop.simps) auto
  next
    case True
    then obtain f where f: "running_step md env cfg s = Inr f"
      using less.prems(1) by (subst (asm) running_loop.simps) (auto split: sum.splits)
    show ?thesis
    proof (cases f)
      case (Break s1)
      then show ?thesis using less.prems True f assms(4) by (subst (asm) running_loop.simps) auto
    next
      case (Continue s1)
      have st: "running_step md env cfg s = Inr (Continue s1)" using f Continue by simp
      have m: "nat (int (length (s_running s1)) - l_req_index s1) < nat (int (length (s_running s)) - l_req_index s)"
        using running_step_measure[OF st] True by linarith
      have "running_loop md env cfg s1 = Inr s'"
        using less.prems(1) True st by (subst (asm) running_loop.simps) simp
      then show ?thesis using less.hyps[OF m] assms(3)[OF st less.prems(2)] True by simp
    qed
  qed
qed

end
