(* ===== verification/SchedInv.thy ===== *)
theory SchedInv
  imports SchedRunning
begin

text \<open>
  The invariant of a scheduling step and what the schedulers rely on from the objects outside the
  repository. The invariant ties the three queues, the budget and the dictionaries of the step
  together; every operation of the running phase is shown to keep it.
\<close>

section \<open>What the schedulers rely on\<close>

text \<open>
  A request queue holds requests: peeking and popping agree, popping removes one element,
  prepending adds one, and the order depends on nothing but priorities and arrival times.
\<close>

definition same_keys :: "heap \<Rightarrow> heap \<Rightarrow> bool" where
  "same_keys rq rq' \<longleftrightarrow> (\<forall>v. r_priority (rq v) = r_priority (rq' v)
     \<and> r_arrival_time (rq v) = r_arrival_time (rq' v))"

definition queue_laws :: "('w, 'b) ext \<Rightarrow> bool" where
  "queue_laws env \<longleftrightarrow>
     (\<forall>rq q. q \<noteq> [] \<longrightarrow> (\<exists>v q'. e_peek env rq q = Inr v \<and> e_pop env rq q = Inr (v, q')
        \<and> mset q = add_mset v (mset q')))
   \<and> (\<forall>rq v q. mset (e_prepend env rq v q) = add_mset v (mset q))
   \<and> (\<forall>rq q' q. mset (e_prepend_all env rq q' q) = mset q' + mset q)
   \<and> (\<forall>rq rq' q. same_keys rq rq' \<longrightarrow> e_pop env rq q = e_pop env rq' q)"

text \<open>The encoder planner only ever reduces the number of tokens, and not below zero.\<close>

definition encoder_laws :: "('w, 'b) ext \<Rightarrow> bool" where
  "encoder_laws env \<longleftrightarrow> (\<forall>rid r c n b w inputs n' b' x w'. 0 \<le> n \<longrightarrow>
     e_try_encoder env rid r c n b w = ((inputs, n', b', x), w') \<longrightarrow> 0 \<le> n' \<and> n' \<le> n)"

text \<open>The operations that hand a request back leave the keys of the queue order alone.\<close>

definition request_laws :: "('w, 'b) ext \<Rightarrow> bool" where
  "request_laws env \<longleftrightarrow>
     (\<forall>rid r w. r_priority (fst (snd (e_update_remote_kv env rid r w))) = r_priority r
        \<and> r_arrival_time (fst (snd (e_update_remote_kv env rid r w))) = r_arrival_time r)
   \<and> (\<forall>t r. r_priority (e_append_output env t r) = r_priority r
        \<and> r_arrival_time (e_append_output env t r) = r_arrival_time r)"

definition ext_laws :: "('w, 'b) ext \<Rightarrow> bool" where
  "ext_laws env \<longleftrightarrow> queue_laws env \<and> encoder_laws env \<and> request_laws env"

lemma ext_lawsD:
  assumes "ext_laws env"
  shows "mset (e_prepend env rq v q) = add_mset v (mset q)"
    "mset (e_prepend_all env rq q' q) = mset q' + mset q"
    "same_keys rq rq' \<Longrightarrow> e_pop env rq q = e_pop env rq' q"
    "q \<noteq> [] \<Longrightarrow> \<exists>v q'. e_peek env rq q = Inr v \<and> e_pop env rq q = Inr (v, q') \<and> mset q = add_mset v (mset q')"
    "0 \<le> n \<Longrightarrow> e_try_encoder env rid r c n b w = ((inputs, n', b', x), w') \<Longrightarrow> 0 \<le> n' \<and> n' \<le> n"
    "r_priority (fst (snd (e_update_remote_kv env rid r w))) = r_priority r"
    "r_arrival_time (fst (snd (e_update_remote_kv env rid r w))) = r_arrival_time r"
    "r_priority (e_append_output env t r) = r_priority r"
    "r_arrival_time (e_append_output env t r) = r_arrival_time r"
proof -
  have q: "queue_laws env" and e: "encoder_laws env" and r: "request_laws env"
    using assms by (auto simp: ext_laws_def)
  show "mset (e_prepend env rq v q) = add_mset v (mset q)"
    "mset (e_prepend_all env rq q' q) = mset q' + mset q"
    using q by (simp_all add: queue_laws_def)
  show "e_pop env rq q = e_pop env rq' q" if "same_keys rq rq'"
    using q that unfolding queue_laws_def by metis
  show "\<exists>v q'. e_peek env rq q = Inr v \<and> e_pop env rq q = Inr (v, q') \<and> mset q = add_mset v (mset q')"
    if "q \<noteq> []"
    using q that by (simp add: queue_laws_def)
  show "0 \<le> n' \<and> n' \<le> n" if "0 \<le> n" "e_try_encoder env rid r c n b w = ((inputs, n', b', x), w')"
    using e that unfolding encoder_laws_def by blast
  show "r_priority (fst (snd (e_update_remote_kv env rid r w))) = r_priority r"
    "r_arrival_time (fst (snd (e_update_remote_kv env rid r w))) = r_arrival_time r"
    "r_priority (e_append_output env t r) = r_priority r"
    "r_arrival_time (e_append_output env t r) = r_arrival_time r"
    using r by (simp_all add: request_laws_def)
qed

text \<open>
  A running request is ready when its computed tokens are behind the tokens it knows about and
  inside the length limit its scheduler enforces.
\<close>

definition length_limit :: "sched_mode \<Rightarrow> config \<Rightarrow> request \<Rightarrow> int" where
  "length_limit md cfg r =
     (case md of
        CHUNK \<Rightarrow> c_max_model_len cfg
      | UNCHUNK \<Rightarrow> min (r_num_prompt_tokens r + r_max_tokens r) (c_max_model_len cfg)
          + (case c_num_speculative_tokens cfg of None \<Rightarrow> 0 | Some k \<Rightarrow> int k) - 1)"

definition ready :: "sched_mode \<Rightarrow> config \<Rightarrow> request \<Rightarrow> bool" where
  "ready md cfg r \<longleftrightarrow>
     r_num_computed_tokens r \<le> num_tokens r + r_num_output_placeholders r
   \<and> r_num_computed_tokens r \<le> length_limit md cfg r"

section \<open>The invariant\<close>

definition scheduled :: "('w, 'b) step \<Rightarrow> req_id list" where
  "scheduled s = l_new s @ l_resumed s @ l_scheduled_running s"

text \<open>\<open>xs\<close> lists the requests that are running or waiting when the step begins.\<close>

definition queues_inv :: "req_id list \<Rightarrow> ('w, 'b) step \<Rightarrow> bool" where
  "queues_inv xs s \<longleftrightarrow> mset (s_running s) + mset (s_waiting s) + mset (l_skipped s) = mset xs"

definition books_inv :: "config \<Rightarrow> ('w, 'b) step \<Rightarrow> bool" where
  "books_inv cfg s \<longleftrightarrow>
     distinct (dict_keys (l_num_scheduled s))
   \<and> set (dict_keys (l_num_scheduled s)) = set (scheduled s)
   \<and> set (dict_keys (l_new_blocks s)) = set (scheduled s)
   \<and> distinct (scheduled s) \<and> set (scheduled s) \<subseteq> set (s_running s)
   \<and> l_budget s + sum_list (dict_values (l_num_scheduled s)) = c_max_num_scheduled_tokens cfg
   \<and> 0 \<le> l_budget s \<and> (\<forall>n \<in> set (dict_values (l_num_scheduled s)). 0 < n)"

definition step_inv :: "config \<Rightarrow> req_id list \<Rightarrow> ('w, 'b) step \<Rightarrow> bool" where
  "step_inv cfg xs s \<longleftrightarrow> queues_inv xs s \<and> books_inv cfg s
     \<and> length (s_running s) \<le> c_max_num_running_reqs cfg"

text \<open>In the running phase: nothing was admitted, and the scheduled requests lie before the index.\<close>

definition run_inv :: "sched_mode \<Rightarrow> config \<Rightarrow> req_id list \<Rightarrow> ('w, 'b) step \<Rightarrow> bool" where
  "run_inv md cfg xs s \<longleftrightarrow> step_inv cfg xs s \<and> l_new s = [] \<and> l_resumed s = []
     \<and> l_skipped s = []
     \<and> (\<forall>v \<in> set (s_running s). ready md cfg (s_requests s v))
     \<and> int (length (l_scheduled_running s)) \<le> l_req_index s
     \<and> set (l_scheduled_running s) \<subseteq> set (take (nat (l_req_index s)) (s_running s))"

lemma queues_distinct:
  assumes "queues_inv xs s" "distinct xs"
  shows "distinct (s_running s @ s_waiting s @ l_skipped s)"
proof -
  have "mset (s_running s @ s_waiting s @ l_skipped s) = mset xs"
    using assms(1) by (simp add: queues_inv_def add.assoc)
  then show ?thesis using assms(2) mset_eq_imp_distinct_iff by blast
qed

lemma inv_world [simp]:
  "step_inv cfg xs (s\<lparr>s_world := w\<rparr>) = step_inv cfg xs s"
  "run_inv md cfg xs (s\<lparr>s_world := w\<rparr>) = run_inv md cfg xs s"
  by (simp_all add: step_inv_def run_inv_def queues_inv_def books_inv_def scheduled_def)

section \<open>Preemption keeps the invariant\<close>

lemma take_remove1:
  "set (take n xs) - {v} \<subseteq> set (take n (remove1 v xs))"
proof (induction xs arbitrary: n)
  case (Cons x xs)
  show ?case
  proof (cases n)
    case 0
    then show ?thesis by simp
  next
    case (Suc m)
    have "set (take m xs) \<subseteq> set (take (Suc m) xs)" by (simp add: set_take_subset_set_take)
    then show ?thesis using Suc Cons[of m] by auto
  qed
qed simp

lemma take_remove1_before:
  assumes "v \<in> set (take n xs)" "distinct xs"
  shows "set (take n xs) - {v} \<subseteq> set (take (n - 1) (remove1 v xs))"
  using assms
proof (induction xs arbitrary: n)
  case (Cons x xs)
  then show ?case
  proof (cases n)
    case (Suc m)
    show ?thesis
    proof (cases "v = x")
      case False
      then have "v \<in> set (take m xs)" using Cons.prems Suc by simp
      moreover have "0 < m" using calculation by (cases m) auto
      ultimately show ?thesis using Suc False Cons.IH[of m] Cons.prems by (cases m) auto
    qed (use Suc Cons.prems in auto)
  qed simp
qed simp

lemma butlast_remove1: "distinct xs \<Longrightarrow> xs \<noteq> [] \<Longrightarrow> butlast xs = remove1 (last xs) xs"
  by (induction xs) auto

text \<open>What a preemption does to the step, whichever policy chose the victim.\<close>

definition dropped :: "req_id \<Rightarrow> ('w, 'b) step \<Rightarrow> ('w, 'b) step \<Rightarrow> bool" where
  "dropped v s t \<longleftrightarrow> v \<in> set (s_running s) \<and> s_running t = remove1 v (s_running s)
     \<and> s_waiting t = s_waiting s \<and> s_requests t = s_requests s \<and> l_skipped t = l_skipped s
     \<and> l_new t = l_new s \<and> l_resumed t = l_resumed s \<and> l_preempted t = l_preempted s
     \<and> (if v \<in> set (l_scheduled_running s)
        then l_scheduled_running t = remove1 v (l_scheduled_running s)
           \<and> l_num_scheduled t = dict_pop v (l_num_scheduled s)
           \<and> l_new_blocks t = dict_pop v (l_new_blocks s)
           \<and> dict_get (l_num_scheduled s) v = Some (l_budget t - l_budget s)
           \<and> l_req_index t = l_req_index s - 1
        else l_scheduled_running t = l_scheduled_running s \<and> l_num_scheduled t = l_num_scheduled s
           \<and> l_new_blocks t = l_new_blocks s \<and> l_budget t = l_budget s
           \<and> l_req_index t = l_req_index s)"

text \<open>While the slots of \<open>rid\<close> are allocated it is not scheduled yet, and not behind the index.\<close>

definition alloc_inv :: "sched_mode \<Rightarrow> config \<Rightarrow> req_id list \<Rightarrow> req_id \<Rightarrow> ('w, 'b) step \<Rightarrow> bool" where
  "alloc_inv md cfg xs rid s \<longleftrightarrow> run_inv md cfg xs s
     \<and> rid \<in> set (take (nat (l_req_index s) + 1) (s_running s))
     \<and> rid \<notin> set (l_scheduled_running s)
     \<and> (c_policy cfg = FCFS \<longrightarrow> rid \<in> set (drop (nat (l_req_index s)) (s_running s)))"

lemma alloc_inv_world [simp]:
  "alloc_inv md cfg xs rid (s\<lparr>s_world := w\<rparr>) = alloc_inv md cfg xs rid s"
  by (simp add: alloc_inv_def)

lemma run_inv_distinct: "run_inv md cfg xs s \<Longrightarrow> distinct xs \<Longrightarrow> distinct (s_running s)"
  using queues_distinct by (auto simp: run_inv_def step_inv_def)

lemma last_not_taken:
  assumes "distinct xs" "x \<in> set (drop n xs)"
  shows "last xs \<notin> set (take n xs)"
proof -
  have n: "n < length xs" using assms(2) by (cases "n < length xs") auto
  then have "last xs \<in> set (drop n xs)" using last_in_set[of "drop n xs"] by simp
  moreover have "set (take n xs) \<inter> set (drop n xs) = {}"
    using assms(1) set_take_disj_set_drop_if_distinct[of xs n n] by simp
  ultimately show ?thesis by blast
qed

lemma pick_victim_dropped:
  assumes "pick_victim env cfg s = Inr (v, t)" "alloc_inv md cfg xs rid s" "distinct xs"
  shows "dropped v s t"
proof (cases "c_policy cfg")
  case FCFS
  have d: "distinct (s_running s)" using assms(2,3) run_inv_distinct by (auto simp: alloc_inv_def)
  have v: "v = last (s_running s)" "t = s\<lparr>s_running := butlast (s_running s)\<rparr>" "s_running s \<noteq> []"
    using assms(1) FCFS by (auto simp: pick_victim_def split: if_splits)
  have "v \<notin> set (take (nat (l_req_index s)) (s_running s))"
    using last_not_taken[OF d] assms(2) FCFS v(1) by (auto simp: alloc_inv_def)
  then have "v \<notin> set (l_scheduled_running s)" using assms(2) by (auto simp: alloc_inv_def run_inv_def)
  then show ?thesis using v butlast_remove1[OF d] by (simp add: dropped_def)
next
  case PRIORITY
  then obtain y ys where r: "s_running s = y # ys"
    using assms(1) by (cases "s_running s") (auto simp: pick_victim_def)
  let ?v = "first_max (key_less (s_requests s)) y ys"
  have "v = ?v" using assms(1) PRIORITY r
    by (auto simp: pick_victim_def Let_def bind_res_eq_Inr split: if_splits)
  then have vin: "v \<in> set (s_running s)" using first_max_in[of "key_less (s_requests s)" y ys] r by simp
  show ?thesis using assms(1) PRIORITY r vin \<open>v = ?v\<close>
    by (auto simp: pick_victim_def unschedule_def dropped_def Let_def bind_res_eq_Inr dict_at_def
        split: if_splits option.splits)
qed

lemma dropped_books:
  assumes "dropped v s t" "books_inv cfg s" "l_new s = []" "l_resumed s = []" "distinct (s_running s)"
  shows "books_inv cfg t"
proof (cases "v \<in> set (l_scheduled_running s)")
  case True
  have g: "dict_get (l_num_scheduled s) v = Some (l_budget t - l_budget s)"
    and p: "l_num_scheduled t = dict_pop v (l_num_scheduled s)" "l_new_blocks t = dict_pop v (l_new_blocks s)"
      "l_scheduled_running t = remove1 v (l_scheduled_running s)" "l_new t = []" "l_resumed t = []"
      "s_running t = remove1 v (s_running s)"
    using assms(1,3,4) True by (auto simp: dropped_def)
  have pos: "0 < l_budget t - l_budget s" using assms(2) map_of_SomeD[OF g] by (force simp: books_inv_def)
  have b: "distinct (dict_keys (l_num_scheduled s))" "fst ` set (l_num_scheduled s) = set (l_scheduled_running s)"
    "fst ` set (l_new_blocks s) = set (l_scheduled_running s)" "distinct (l_scheduled_running s)"
    "set (l_scheduled_running s) \<subseteq> set (s_running s)"
    "l_budget s + sum_list (dict_values (l_num_scheduled s)) = c_max_num_scheduled_tokens cfg"
    "0 \<le> l_budget s" "\<forall>p \<in> set (l_num_scheduled s). 0 < snd p"
    using assms(2-4) by (auto simp: books_inv_def scheduled_def)
  have vals: "\<forall>p \<in> set (dict_pop v (l_num_scheduled s)). 0 < snd p"
    using b(8) dict_pop_subset by fast
  have sum: "l_budget t + sum_list (dict_values (dict_pop v (l_num_scheduled s))) = c_max_num_scheduled_tokens cfg"
    using b(6) sum_dict_pop[OF b(1) g] by simp
  show ?thesis unfolding books_inv_def scheduled_def p
    using b assms(5) pos vals sum by (auto simp: distinct_dict_pop)
next
  case False
  then show ?thesis using assms
    by (auto simp: dropped_def books_inv_def scheduled_def)
qed

lemma dropped_run_inv:
  assumes "dropped v s t" "run_inv md cfg xs s" "distinct xs" "ext_laws env"
    and t': "s_running t' = s_running t" "s_waiting t' = e_prepend env rq v (s_waiting t)"
      "l_skipped t' = l_skipped t" "l_new t' = l_new t" "l_resumed t' = l_resumed t"
      "l_scheduled_running t' = l_scheduled_running t" "l_num_scheduled t' = l_num_scheduled t"
      "l_new_blocks t' = l_new_blocks t" "l_budget t' = l_budget t" "l_req_index t' = l_req_index t"
    and "\<And>u. u \<noteq> v \<Longrightarrow> s_requests t' u = s_requests t u"
  shows "run_inv md cfg xs t'"
proof -
  have d: "distinct (s_running s)" using assms(2,3) by (rule run_inv_distinct)
  have vin: "v \<in> set (s_running s)" "s_running t = remove1 v (s_running s)"
    "s_requests t = s_requests s" "s_waiting t = s_waiting s" "l_skipped t = l_skipped s"
    "l_new t = l_new s" "l_resumed t = l_resumed s"
    using assms(1) by (auto simp: dropped_def)
  have b: "books_inv cfg t" using dropped_books[OF assms(1) _ _ _ d] assms(2)
    by (auto simp: run_inv_def step_inv_def)
  have books: "books_inv cfg t'" using b t' by (simp add: books_inv_def scheduled_def)
  have queues: "queues_inv xs t'" using assms(2) vin t' ext_lawsD(1)[OF assms(4)]
    by (auto simp: run_inv_def step_inv_def queues_inv_def)
  have len: "length (s_running t') \<le> c_max_num_running_reqs cfg"
    using assms(2) vin t' by (auto simp: run_inv_def step_inv_def length_remove1)
  have rdy: "\<forall>u \<in> set (s_running t'). ready md cfg (s_requests t' u)"
    using assms(2) vin t' d assms(15) by (auto simp: run_inv_def)
  have "int (length (l_scheduled_running t)) \<le> l_req_index t
      \<and> set (l_scheduled_running t) \<subseteq> set (take (nat (l_req_index t)) (s_running t))"
  proof (cases "v \<in> set (l_scheduled_running s)")
    case True
    have "v \<in> set (take (nat (l_req_index s)) (s_running s))" using True assms(2) by (auto simp: run_inv_def)
    moreover have n: "nat (l_req_index s) - 1 = nat (l_req_index s - 1)" by simp
    ultimately have sub: "set (take (nat (l_req_index s)) (s_running s)) - {v}
        \<subseteq> set (take (nat (l_req_index s - 1)) (remove1 v (s_running s)))"
      using take_remove1_before[OF _ d, of v "nat (l_req_index s)"] by (simp only: n)
    have "distinct (l_scheduled_running s)"
      using assms(2) by (simp add: run_inv_def step_inv_def books_inv_def scheduled_def)
    then have "set (remove1 v (l_scheduled_running s)) = set (l_scheduled_running s) - {v}" by simp
    moreover have "0 < length (l_scheduled_running s)" using True by auto
    ultimately show ?thesis using True assms(1,2) vin sub
      by (auto simp: dropped_def run_inv_def length_remove1)
  next
    case False
    then show ?thesis using assms(1,2) take_remove1[of "nat (l_req_index s)" "s_running s" v] vin
      by (auto simp: dropped_def run_inv_def)
  qed
  then show ?thesis using books queues len rdy t' vin assms(2)
    by (simp add: run_inv_def step_inv_def)
qed

text \<open>One preemption: the victim is dropped and joins the waiting queue.\<close>

lemma preempt_one_drops:
  assumes "preempt_one env cfg s = Inr (v, s')" "alloc_inv md cfg xs rid s" "distinct xs"
  obtains t where "dropped v s t"
    "s_running s' = s_running t" "s_waiting s' = e_prepend env (s_requests s') v (s_waiting t)"
    "l_skipped s' = l_skipped t" "l_new s' = l_new t" "l_resumed s' = l_resumed t"
    "l_scheduled_running s' = l_scheduled_running t" "l_num_scheduled s' = l_num_scheduled t"
    "l_new_blocks s' = l_new_blocks t" "l_budget s' = l_budget t" "l_req_index s' = l_req_index t"
    "\<And>u. u \<noteq> v \<Longrightarrow> s_requests s' u = s_requests t u" "l_preempted s' = l_preempted t @ [v]"
proof -
  obtain t where t: "pick_victim env cfg s = Inr (v, t)"
    using assms(1) by (auto simp: preempt_one_def Let_def bind_res_eq_Inr)
  have "dropped v s t" by (rule pick_victim_dropped[OF t assms(2,3)])
  then show ?thesis using assms(1) t
    by (intro that[of t]) (auto simp: preempt_one_def Let_def)
qed

lemma preempt_one_run_inv:
  assumes "preempt_one env cfg s = Inr (v, s')" "alloc_inv md cfg xs rid s" "distinct xs" "ext_laws env"
  shows "run_inv md cfg xs s'"
proof -
  obtain t where d: "dropped v s t" and f: "s_running s' = s_running t"
    "s_waiting s' = e_prepend env (s_requests s') v (s_waiting t)"
    "l_skipped s' = l_skipped t" "l_new s' = l_new t" "l_resumed s' = l_resumed t"
    "l_scheduled_running s' = l_scheduled_running t" "l_num_scheduled s' = l_num_scheduled t"
    "l_new_blocks s' = l_new_blocks t" "l_budget s' = l_budget t" "l_req_index s' = l_req_index t"
    "\<And>u. u \<noteq> v \<Longrightarrow> s_requests s' u = s_requests t u"
    using preempt_one_drops[OF assms(1-3)] by blast
  have "run_inv md cfg xs s" using assms(2) by (simp add: alloc_inv_def)
  from dropped_run_inv[OF d this assms(3,4) f] show ?thesis .
qed

lemma in_drop_butlast: "x \<in> set (drop n xs) \<Longrightarrow> x \<noteq> last xs \<Longrightarrow> x \<in> set (drop n (butlast xs))"
proof -
  assume x: "x \<in> set (drop n xs)" "x \<noteq> last xs"
  then have "n < length xs" by (cases "n < length xs") auto
  then have "drop n xs \<noteq> []" "last (drop n xs) = last xs" by (auto simp: last_drop)
  then have "x \<in> set (butlast (drop n xs))"
    using x append_butlast_last_id[of "drop n xs"] by (metis insert_iff set_append Un_iff list.set(2) list.set(1) empty_iff)
  then show ?thesis by (simp add: butlast_drop)
qed

lemma preempt_one_alloc_inv:
  assumes "preempt_one env cfg s = Inr (v, s')" "alloc_inv md cfg xs rid s" "v \<noteq> rid"
    and "distinct xs" "ext_laws env"
  shows "alloc_inv md cfg xs rid s'"
proof -
  have ri: "run_inv md cfg xs s'" by (rule preempt_one_run_inv[OF assms(1,2,4,5)])
  obtain t where d: "dropped v s t" and f: "s_running s' = s_running t"
    "l_scheduled_running s' = l_scheduled_running t" "l_req_index s' = l_req_index t"
    using preempt_one_drops[OF assms(1,2,4)] by metis
  have old: "run_inv md cfg xs s" "rid \<in> set (take (nat (l_req_index s) + 1) (s_running s))"
    "rid \<notin> set (l_scheduled_running s)"
    using assms(2) by (auto simp: alloc_inv_def)
  have ds: "distinct (s_running s)" using run_inv_distinct[OF old(1) assms(4)] .
  have "rid \<in> set (take (nat (l_req_index t) + 1) (s_running t))"
  proof (cases "v \<in> set (l_scheduled_running s)")
    case True
    let ?n = "nat (l_req_index s)"
    have "v \<in> set (take ?n (s_running s))" using True old(1) by (auto simp: run_inv_def)
    then have vin: "v \<in> set (take (?n + 1) (s_running s))"
      using set_take_subset_set_take[of ?n "?n + 1" "s_running s"] by auto
    have "0 < length (l_scheduled_running s)" using True by auto
    moreover have "int (length (l_scheduled_running s)) \<le> l_req_index s"
      using old(1) by (simp add: run_inv_def)
    ultimately have "0 < l_req_index s" by linarith
    then have n: "nat (l_req_index t) + 1 = ?n" using d True by (simp add: dropped_def nat_diff_distrib')
    have "rid \<in> set (take (?n + 1 - 1) (remove1 v (s_running s)))"
      using take_remove1_before[OF vin ds] old(2) assms(3) by blast
    moreover have "s_running t = remove1 v (s_running s)" using d by (simp add: dropped_def)
    ultimately show ?thesis using n by (simp only: add_diff_cancel_right')
  next
    case False
    then show ?thesis
      using d take_remove1[of "nat (l_req_index s) + 1" "s_running s" v] old(2) assms(3)
      by (auto simp: dropped_def)
  qed
  moreover have "rid \<notin> set (l_scheduled_running t)"
    using d old(3) set_remove1_subset[of v "l_scheduled_running s"]
    by (auto simp: dropped_def split: if_splits)
  moreover have "rid \<in> set (drop (nat (l_req_index t)) (s_running t))" if "c_policy cfg = FCFS"
  proof -
    have v: "v = last (s_running s)" "s_running s \<noteq> []"
      using assms(1) that by (auto simp: preempt_one_def pick_victim_def Let_def bind_res_eq_Inr split: if_splits)
    have r: "rid \<in> set (drop (nat (l_req_index s)) (s_running s))"
      using assms(2) that by (simp add: alloc_inv_def)
    have "v \<notin> set (take (nat (l_req_index s)) (s_running s))"
      using last_not_taken[OF ds r] v by simp
    then have ns: "v \<notin> set (l_scheduled_running s)" using old(1) by (auto simp: run_inv_def)
    have "s_running t = butlast (s_running s)"
      using d v butlast_remove1[OF ds v(2)] by (simp add: dropped_def)
    then show ?thesis using in_drop_butlast[OF r] v assms(3) d ns by (simp add: dropped_def)
  qed
  ultimately show ?thesis using ri f by (simp add: alloc_inv_def)
qed

text \<open>Preempting a scheduled request gives its tokens back to the budget.\<close>

lemma preempt_one_budget:
  assumes "preempt_one env cfg s = Inr (v, s')" "alloc_inv md cfg xs rid s" "distinct xs"
  shows "l_budget s \<le> l_budget s'"
proof -
  obtain t where d: "dropped v s t" and f: "l_budget s' = l_budget t"
    using preempt_one_drops[OF assms(1-3)] by metis
  have b: "books_inv cfg s" using assms(2) by (auto simp: alloc_inv_def run_inv_def step_inv_def)
  show ?thesis
  proof (cases "v \<in> set (l_scheduled_running s)")
    case True
    then have "dict_get (l_num_scheduled s) v = Some (l_budget t - l_budget s)"
      using d by (simp add: dropped_def)
    from map_of_SomeD[OF this] have "0 < l_budget t - l_budget s" using b by (force simp: books_inv_def)
    then show ?thesis using f by simp
  next
    case False
    then show ?thesis using d f by (simp add: dropped_def)
  qed
qed

lemma alloc_loop_inv:
  assumes "alloc_loop env cfg win rid n s = Inr (ob, s')" "alloc_inv md cfg xs rid s"
    and "distinct xs" "ext_laws env" "B \<le> l_budget s"
  shows "case ob of Some _ \<Rightarrow> alloc_inv md cfg xs rid s' \<and> B \<le> l_budget s' | None \<Rightarrow> run_inv md cfg xs s'"
proof (rule alloc_loop_rule[OF assms(1), where J = "run_inv md cfg xs"])
  show "alloc_inv md cfg xs rid s \<and> B \<le> l_budget s" using assms(2,5) by simp
  fix s v s'
  assume p: "preempt_one env cfg s = Inr (v, s')" and i: "alloc_inv md cfg xs rid s \<and> B \<le> l_budget s"
  assume "v \<noteq> rid"
  then show "alloc_inv md cfg xs rid s' \<and> B \<le> l_budget s'"
    using preempt_one_alloc_inv[OF p _ _ assms(3,4)] preempt_one_budget[OF p _ assms(3)] i
    by (meson order_trans)
next
  fix s s'
  assume "preempt_one env cfg s = Inr (rid, s')" "alloc_inv md cfg xs rid s \<and> B \<le> l_budget s"
  then show "run_inv md cfg xs s'" using preempt_one_run_inv assms(3,4) by blast
qed simp

section \<open>The running phase keeps the invariant\<close>

lemma py_nth_nonneg: "0 \<le> i \<Longrightarrow> i < int (length xs) \<Longrightarrow> py_nth xs i = Inr (xs ! nat i)"
  by (simp add: py_nth_def nat_less_iff)

lemma running_tokens_bounds:
  assumes "ready md cfg r" "0 < b"
  shows "0 \<le> running_tokens md cfg r b \<and> running_tokens md cfg r b \<le> b"
proof -
  have "r_num_computed_tokens r \<le> num_tokens_with_spec r + r_num_output_placeholders r"
    using assms(1) by (simp add: ready_def num_tokens_with_spec_def)
  then have w: "0 \<le> wanted_tokens cfg r b" "wanted_tokens cfg r b \<le> b"
    using assms(2) by (simp_all add: wanted_tokens_def Let_def)
  have "r_num_computed_tokens r \<le> length_limit md cfg r" using assms(1) by (simp add: ready_def)
  then show ?thesis using w
    by (cases md) (auto simp: running_tokens_def chunk_running_tokens_def unchunk_running_tokens_def
        length_limit_def Let_def split: option.splits)
qed

lemma plan_encoder_bounds:
  assumes "plan_encoder env rid c n s = ((inputs, n', b, x), s')" "0 \<le> n" "ext_laws env"
  shows "0 \<le> n' \<and> n' \<le> n"
  using assms ext_lawsD(5)[OF assms(3,2)] by (auto simp: plan_encoder_def split: if_splits prod.splits)

lemma ready_without_spec [simp]: "ready md cfg (r\<lparr>r_spec_token_ids := []\<rparr>) = ready md cfg r"
  by (cases md) (simp_all add: ready_def length_limit_def num_tokens_def)

lemma commit_spec_ready:
  "ready md cfg (s_requests (commit_spec rid n s) v) = ready md cfg (s_requests s v)"
  by (simp add: commit_spec_def Let_def)

lemma books_commit_running:
  assumes "books_inv cfg s" "rid \<in> set (s_running s)" "rid \<notin> set (scheduled s)"
    and "0 < n" "n \<le> l_budget s"
  shows "books_inv cfg (commit_running rid n b s)"
proof -
  have "rid \<notin> fst ` set (l_num_scheduled s)" using assms(1,3) by (auto simp: books_inv_def)
  then have d: "dict_set rid n (l_num_scheduled s) = l_num_scheduled s @ [(rid, n)]"
    by (intro dict_set_fresh) simp
  have s': "scheduled (commit_running rid n b s) = scheduled s @ [rid]"
    by (simp add: scheduled_def commit_running_def)
  have "distinct (dict_keys (dict_set rid n (l_num_scheduled s)))"
    using assms(1) by (intro distinct_dict_set) (simp add: books_inv_def)
  then show ?thesis unfolding books_inv_def s'
    using assms by (auto simp: commit_running_def d books_inv_def)
qed

text \<open>The fields of the step that the invariants read.\<close>

lemma books_inv_cong:
  assumes "l_num_scheduled t = l_num_scheduled s" "l_new_blocks t = l_new_blocks s"
    "l_new t = l_new s" "l_resumed t = l_resumed s" "l_scheduled_running t = l_scheduled_running s"
    "s_running t = s_running s" "l_budget t = l_budget s"
  shows "books_inv cfg t = books_inv cfg s"
  using assms by (simp add: books_inv_def scheduled_def)

lemma queues_inv_cong:
  assumes "s_running t = s_running s" "s_waiting t = s_waiting s" "l_skipped t = l_skipped s"
  shows "queues_inv xs t = queues_inv xs s"
  using assms by (simp add: queues_inv_def)

lemma running_step_inv:
  assumes "running_step md env cfg s = Inr f" "run_inv md cfg xs s"
    and "0 < l_budget s" "l_req_index s < int (length (s_running s))"
    and "distinct xs" "ext_laws env"
  shows "case f of Continue s' \<Rightarrow> run_inv md cfg xs s' | Break s' \<Rightarrow> run_inv md cfg xs s'"
proof -
  let ?i = "nat (l_req_index s)"
  let ?rid = "s_running s ! ?i"
  have i0: "0 \<le> l_req_index s" using assms(2) by (auto simp: run_inv_def)
  have nth: "py_nth (s_running s) (l_req_index s) = Inr ?rid" using py_nth_nonneg[OF i0 assms(4)] .
  have il: "?i < length (s_running s)" using i0 assms(4) by linarith
  have ds: "distinct (s_running s)" using run_inv_distinct[OF assms(2,5)] .
  have nin: "?rid \<notin> set (take ?i (s_running s))"
    using ds il by (auto simp: in_set_conv_nth nth_eq_iff_index_eq)
  have fresh: "?rid \<notin> set (l_scheduled_running s)" using nin assms(2) by (auto simp: run_inv_def)
  have "ready md cfg (req_of s ?rid)" using assms(2) il by (auto simp: run_inv_def req_of_def)
  note n0 = running_tokens_bounds[OF this assms(3)]
  have ai: "alloc_inv md cfg xs ?rid (s\<lparr>s_world := w\<rparr>)" for w
    using assms(2) fresh il by (auto simp: alloc_inv_def take_Suc_conv_app_nth
        in_set_conv_nth[of _ "drop _ _"] intro!: exI[of _ 0])
  show ?thesis using assms(1)
  proof (cases rule: running_step_cases)
    case (skip rid inputs bud external w)
    have sub: "set (take ?i (s_running s)) \<subseteq> set (take (nat (l_req_index s + 1)) (s_running s))"
      by (rule set_take_subset_set_take) simp
    have "run_inv md cfg xs (s\<lparr>s_world := w, l_req_index := l_req_index s + 1\<rparr>)"
      using assms(2) sub unfolding run_inv_def step_inv_def
      by (auto simp: books_inv_def queues_inv_def scheduled_def)
    then show ?thesis using skip(3) by simp
  next
    case (gone rid inputs n bud external w s2)
    then have r: "rid = ?rid" using nth by simp
    show ?thesis using alloc_loop_inv[OF gone(4)[unfolded r] ai assms(5,6) order_refl] gone(5) by simp
  next
    case (sched rid inputs n bud external w b s2)
    then have r: "rid = ?rid" using nth by simp
    have n: "0 < n" "n \<le> l_budget s"
      using plan_encoder_bounds[OF sched(2) _ assms(6)] n0 sched(3) r by auto
    have a2: "alloc_inv md cfg xs rid s2" "n \<le> l_budget s2"
      using alloc_loop_inv[OF sched(4)[unfolded r] ai assms(5,6), of n] n(2) r by auto
    have r2: "run_inv md cfg xs s2" using a2(1) by (simp add: alloc_inv_def)
    have rin: "rid \<in> set (take (nat (l_req_index s2) + 1) (s_running s2))" "rid \<notin> set (scheduled s2)"
      using a2(1) r2 by (auto simp: alloc_inv_def run_inv_def scheduled_def)
    have rr: "rid \<in> set (s_running s2)" using rin(1) by (meson in_set_takeD)
    let ?c = "commit_running rid n b s2"
    let ?t = "commit_encoder env rid inputs bud external (commit_spec rid n ?c)"
    have "books_inv cfg ?c"
      using books_commit_running[OF _ rr rin(2) n(1) a2(2)] r2 by (auto simp: run_inv_def step_inv_def)
    then have bt: "books_inv cfg ?t" by (subst books_inv_cong[of _ ?c]) simp_all
    have qt: "queues_inv xs ?t" using r2
      by (subst queues_inv_cong[of _ s2]) (simp_all add: run_inv_def step_inv_def commit_running_def)
    have i2: "0 \<le> l_req_index s2" using r2 by (auto simp: run_inv_def)
    then have idx: "nat (l_req_index s2 + 1) = nat (l_req_index s2) + 1" by (simp add: nat_add_distrib)
    have tk: "set (take (nat (l_req_index s2)) (s_running s2)) \<subseteq> set (take (nat (l_req_index s2) + 1) (s_running s2))"
      by (rule set_take_subset_set_take) simp
    have "s_requests ?c = s_requests s2" by (simp add: commit_running_def)
    then have rdy: "\<forall>v \<in> set (s_running ?t). ready md cfg (s_requests ?t v)"
      using r2 by (simp add: commit_spec_ready run_inv_def commit_running_def)
    have "run_inv md cfg xs ?t"
      using bt qt rdy r2 rin(1) idx tk unfolding run_inv_def step_inv_def
      by (auto simp: commit_running_def)
    then show ?thesis using sched(5) by simp
  qed
qed

theorem running_loop_inv:
  assumes "running_loop md env cfg s = Inr s'" "run_inv md cfg xs s" "distinct xs" "ext_laws env"
  shows "run_inv md cfg xs s'"
  by (rule running_loop_rule[OF assms(1), where I = "run_inv md cfg xs" and J = "run_inv md cfg xs"])
    (use assms(2-4) running_step_inv in fastforce)+

end
