(* ===== verification/SchedWaiting.thy ===== *)
theory SchedWaiting
  imports SchedInv
begin

text \<open>
  The scheduling of the waiting requests in \<^verbatim>\<open>schedule\<close>, chunked and unchunked: the
  reasons to skip a request or to stop, the cache lookup, the token count, the allocation and the
  admission, and the loop over the waiting queue.
\<close>

section \<open>Control flow of the loop body\<close>

text \<open>
  \<open>Next\<close> is \<^verbatim>\<open>continue\<close>, \<open>Stop\<close> is \<^verbatim>\<open>break\<close>, and \<open>Go\<close> hands a value to the statements
  that follow.
\<close>

datatype ('s, 'a) ctl = Next 's | Stop 's | Go 's 'a

definition go :: "('s, 'a) ctl res \<Rightarrow> ('s \<Rightarrow> 'a \<Rightarrow> ('s, 'b) ctl res) \<Rightarrow> ('s, 'b) ctl res" where
  "go m k =
     (case m of
        Inl e \<Rightarrow> Inl e
      | Inr (Next s) \<Rightarrow> Inr (Next s)
      | Inr (Stop s) \<Rightarrow> Inr (Stop s)
      | Inr (Go s a) \<Rightarrow> k s a)"

definition ctl_all ::
  "('s \<Rightarrow> bool) \<Rightarrow> ('s \<Rightarrow> bool) \<Rightarrow> ('s \<Rightarrow> 'a \<Rightarrow> bool) \<Rightarrow> ('s, 'a) ctl res \<Rightarrow> bool" where
  "ctl_all P Q R m =
     (case m of
        Inl e \<Rightarrow> True
      | Inr (Next s) \<Rightarrow> P s
      | Inr (Stop s) \<Rightarrow> Q s
      | Inr (Go s a) \<Rightarrow> R s a)"

lemma ctl_all_simps [simp]:
  "ctl_all P Q R (Inl e)"
  "ctl_all P Q R (Inr (Next s)) = P s"
  "ctl_all P Q R (Inr (Stop s)) = Q s"
  "ctl_all P Q R (Inr (Go s a)) = R s a"
  by (simp_all add: ctl_all_def)

lemma ctl_all_go:
  assumes "ctl_all P Q R m" "\<And>s a. R s a \<Longrightarrow> ctl_all P Q S (k s a)"
  shows "ctl_all P Q S (go m k)"
proof (cases m)
  case (Inr c)
  then show ?thesis using assms by (cases c) (simp_all add: go_def)
qed (simp add: go_def)

section \<open>One waiting request\<close>

text \<open>\<^verbatim>\<open>self.waiting.pop_request(); skipped_waiting_requests.prepend_request(request); continue\<close>\<close>

definition skip_request ::
  "('w, 'b) ext \<Rightarrow> req_id \<Rightarrow> ('w, 'b) step \<Rightarrow> (('w, 'b) step, 'a) ctl res" where
  "skip_request env rid s =
     bind_res (e_pop env (s_requests s) (s_waiting s)) (\<lambda>(_, q).
       Inr (Next (s\<lparr>s_waiting := q, l_skipped := e_prepend env (s_requests s) rid (l_skipped s)\<rparr>)))"

text \<open>Only the chunked scheduler takes the first tokens of a disaggregated prefill.\<close>

definition fake_decoder_params :: "config \<Rightarrow> kv_params" where
  "fake_decoder_params cfg =
     \<lparr>first_tok = Some 0,
      first_spec_tok = (if c_num_speculative_tokens cfg = None then None else Some [1]),
      ret_first_tok = False, kv_other = []\<rparr>"

definition take_first_tok :: "('w, 'b) ext \<Rightarrow> request \<Rightarrow> request" where
  "take_first_tok env r =
     (case r_kv_transfer_params r of
        None \<Rightarrow> r
      | Some p \<Rightarrow> (case first_tok p of
            None \<Rightarrow> r
          | Some t \<Rightarrow> e_append_output env t (r\<lparr>r_kv_transfer_params := Some (p\<lparr>first_tok := None\<rparr>)\<rparr>)))"

definition take_first_spec_tok :: "request \<Rightarrow> request" where
  "take_first_spec_tok r =
     (case r_kv_transfer_params r of
        None \<Rightarrow> r
      | Some p \<Rightarrow> (case first_spec_tok p of
            None \<Rightarrow> r
          | Some ts \<Rightarrow> r\<lparr>r_kv_transfer_params := Some (p\<lparr>first_spec_tok := None\<rparr>),
                         r_spec_token_ids := ts\<rparr>))"

definition prepare_disagg ::
  "sched_mode \<Rightarrow> ('w, 'b) ext \<Rightarrow> config \<Rightarrow> req_id \<Rightarrow> ('w, 'b) step \<Rightarrow> ('w, 'b) step" where
  "prepare_disagg md env cfg rid s =
     (case md of
        UNCHUNK \<Rightarrow> s
      | CHUNK \<Rightarrow>
          let s1 = (if c_disagg_fake_decoder cfg
              then upd_req rid (\<lambda>r. r\<lparr>r_kv_transfer_params := Some (fake_decoder_params cfg)\<rparr>) s else s)
          in if c_disagg_trans_all_blocks cfg
             then upd_req rid (\<lambda>r. take_first_spec_tok (take_first_tok env r)) s1 else s1)"

definition check_remote_kv ::
  "('w, 'b) ext \<Rightarrow> req_id \<Rightarrow> ('w, 'b) step \<Rightarrow> (('w, 'b) step, unit) ctl res" where
  "check_remote_kv env rid s =
     (if r_status (req_of s rid) = WAITING_FOR_REMOTE_KVS
      then (let (is_ready, r, w) = e_update_remote_kv env rid (req_of s rid) (s_world s);
                s1 = upd_req rid (\<lambda>_. r) (s\<lparr>s_world := w\<rparr>)
            in if is_ready then Inr (Go (upd_req rid (\<lambda>r. r\<lparr>r_status := WAITING\<rparr>) s1) ())
               else skip_request env rid s1)
      else Inr (Go s ()))"

definition check_grammar ::
  "('w, 'b) ext \<Rightarrow> req_id \<Rightarrow> ('w, 'b) step \<Rightarrow> (('w, 'b) step, unit) ctl res" where
  "check_grammar env rid s =
     (if r_status (req_of s rid) = WAITING_FOR_FSM
      then (if r_grammar_ready (req_of s rid)
            then Inr (Go (upd_req rid (\<lambda>r. r\<lparr>r_status := WAITING\<rparr>) s) ())
            else skip_request env rid s)
      else Inr (Go s ()))"

definition check_lora ::
  "('w, 'b) ext \<Rightarrow> config \<Rightarrow> req_id \<Rightarrow> ('w, 'b) step \<Rightarrow> (('w, 'b) step, unit) ctl res" where
  "check_lora env cfg rid s =
     (case (c_max_loras cfg, r_lora (req_of s rid)) of
        (Some k, Some l) \<Rightarrow>
          if length (l_loras s) = k \<and> l \<notin> set (l_loras s) then skip_request env rid s else Inr (Go s ())
      | _ \<Rightarrow> Inr (Go s ()))"

text \<open>
  The tokens that are already cached: the computed blocks, how many tokens are cached locally and
  by the connector, whether the connector loads them asynchronously, and their sum.
\<close>

definition lookup_computed ::
  "('w, 'b) ext \<Rightarrow> req_id \<Rightarrow> ('w, 'b) step
    \<Rightarrow> (('w, 'b) step, 'b \<times> int \<times> int \<times> bool \<times> int) ctl res" where
  "lookup_computed env rid s =
     (if r_num_computed_tokens (req_of s rid) = 0
      then (let ((blocks, loc), w) = e_get_computed_blocks env rid (req_of s rid) (s_world s);
                s1 = s\<lparr>s_world := w\<rparr>
            in case e_connector env of
                 None \<Rightarrow> Inr (Go s1 (blocks, loc, 0, False, loc))
               | Some k \<Rightarrow>
                   let ((ext_tokens, load_async), w2) = k_matched_tokens k rid (req_of s1 rid) loc (s_world s1);
                       s2 = s1\<lparr>s_world := w2\<rparr>
                   in (case ext_tokens of
                         None \<Rightarrow> skip_request env rid s2
                       | Some x \<Rightarrow> Inr (Go s2 (blocks, loc, x, load_async, loc + x))))
      else Inr (Go s (e_empty_blocks env, 0, 0, False, r_num_computed_tokens (req_of s rid))))"

text \<open>
  How many tokens the request gets. The chunked scheduler cuts the request to the budget (or skips
  it when chunked prefill is off); the unchunked scheduler stops when it does not fit.
\<close>

definition prompt_tokens :: "sched_mode \<Rightarrow> config \<Rightarrow> request \<Rightarrow> int \<Rightarrow> int" where
  "prompt_tokens md cfg r computed =
     (let n = num_tokens r - computed;
          n = (if md = CHUNK \<and> c_disagg_trans_all_blocks cfg \<and> r_spec_token_ids r \<noteq> []
               then num_tokens_with_spec r - computed else n);
          threshold = c_long_prefill_token_threshold cfg
      in if 0 < threshold \<and> threshold < n then threshold else n)"

definition admit_tokens ::
  "sched_mode \<Rightarrow> ('w, 'b) ext \<Rightarrow> config \<Rightarrow> req_id \<Rightarrow> int \<Rightarrow> int \<Rightarrow> bool \<Rightarrow> ('w, 'b) step
    \<Rightarrow> (('w, 'b) step, int list option \<times> int \<times> int \<times> int list) ctl res" where
  "admit_tokens md env cfg rid computed external load_async s =
     (if load_async
      then require (0 < external) AssertionError (Inr (Go s (None, 0, l_encoder_budget s, [])))
      else (let n = prompt_tokens md cfg (req_of s rid) computed in
        if md = CHUNK \<and> \<not> c_enable_chunked_prefill cfg \<and> l_budget s < n then skip_request env rid s
        else if md = UNCHUNK \<and> l_budget s < n then Inr (Stop s)
        else require (0 < min n (l_budget s)) AssertionError
          (let ((inputs, n', new_budget, ext_inputs), s1) =
             plan_encoder env rid computed (min n (l_budget s)) s
           in if r_has_encoder_inputs (req_of s rid) \<and> n' = 0 then Inr (Stop s1)
              else Inr (Go s1 (inputs, n', new_budget, ext_inputs)))))"

definition allocate_waiting ::
  "sched_mode \<Rightarrow> ('w, 'b) ext \<Rightarrow> config \<Rightarrow> req_id \<Rightarrow> 'b \<Rightarrow> int \<Rightarrow> int \<Rightarrow> bool \<Rightarrow> int \<Rightarrow> ('w, 'b) step
    \<Rightarrow> (('w, 'b) step, unit) ctl res" where
  "allocate_waiting md env cfg rid blocks loc external load_async n s =
     (let r = req_of s rid;
          lookahead = (if r_num_computed_tokens r = 0 then 0 else c_num_lookahead_tokens cfg);
          num_encoder_tokens = (if c_is_encoder_decoder cfg \<and> r_has_encoder_inputs r
            then c_max_num_encoder_input_tokens cfg else 0)
      in bind_res (e_allocate_slots env rid r (n + external) loc (Some blocks) lookahead load_async
            num_encoder_tokens (window_tokens md cfg) (s_world s)) (\<lambda>(ob, w).
         let s1 = s\<lparr>s_world := w\<rparr> in
         case ob of
           None \<Rightarrow> Inr (Stop s1)
         | Some new_blocks \<Rightarrow>
             (case e_connector env of
                None \<Rightarrow> Inr (Go s1 ())
              | Some k \<Rightarrow> Inr (Go (s1\<lparr>s_world := k_prefix_cache_stats k rid external
                  (k_update_after_alloc k rid (e_add_blocks env blocks new_blocks) external (s_world s1))\<rparr>) ()))))"

text \<open>The admitted request joins the running queue and the books of the step.\<close>

definition admit ::
  "sched_mode \<Rightarrow> ('w, 'b) ext \<Rightarrow> config \<Rightarrow> req_id \<Rightarrow> int \<Rightarrow> int \<Rightarrow> ('w, 'b) step \<Rightarrow> ('w, 'b) step res" where
  "admit md env cfg rid computed n s =
     (let r = req_of s rid;
          s1 = (if md = CHUNK \<and> c_disagg_trans_all_blocks cfg \<and> r_spec_token_ids r \<noteq> []
                then s\<lparr>l_spec_tokens := dict_set rid (r_spec_token_ids r) (l_spec_tokens s)\<rparr> else s);
          s2 = s1\<lparr>l_req_index := l_req_index s1 + 1, s_running := s_running s1 @ [rid]\<rparr>
      in bind_res
           (if r_status r = WAITING then Inr (s2\<lparr>l_new := l_new s2 @ [rid]\<rparr>)
            else if r_status r = PREEMPTED then Inr (s2\<lparr>l_resumed := l_resumed s2 @ [rid]\<rparr>)
            else Inl RuntimeError) (\<lambda>s3.
         Inr (upd_req rid (\<lambda>r. r\<lparr>r_status := RUNNING, r_num_computed_tokens := computed,
                r_num_cached_tokens := (if r_num_cached_tokens r < 0 then computed else r_num_cached_tokens r),
                r_events := (if c_log_stats cfg then r_events r @ [SCHEDULED_EV] else r_events r)\<rparr>)
              (s3\<lparr>l_loras := (case (c_max_loras cfg, r_lora r) of
                     (Some _, Some l) \<Rightarrow> List.insert l (l_loras s) | _ \<Rightarrow> l_loras s),
                  l_new_blocks := dict_set rid (e_get_blocks env rid (s_world s)) (l_new_blocks s),
                  l_num_scheduled := dict_set rid n (l_num_scheduled s),
                  l_budget := l_budget s - n\<rparr>))))"

definition commit_waiting ::
  "sched_mode \<Rightarrow> ('w, 'b) ext \<Rightarrow> config \<Rightarrow> bool \<Rightarrow> int \<Rightarrow> int list option \<times> int \<times> int \<times> int list
    \<Rightarrow> ('w, 'b) step \<Rightarrow> (('w, 'b) step, unit) ctl res" where
  "commit_waiting md env cfg load_async computed plan s =
     bind_res (e_pop env (s_requests s) (s_waiting s)) (\<lambda>(rid, q).
     let (inputs, n, new_budget, ext_inputs) = plan; s1 = s\<lparr>s_waiting := q\<rparr>
     in if load_async
        then Inr (Next (upd_req rid (\<lambda>r. r\<lparr>r_status := WAITING_FOR_REMOTE_KVS\<rparr>)
              (s1\<lparr>l_skipped := e_prepend env (s_requests s1) rid (l_skipped s1)\<rparr>)))
        else bind_res (admit md env cfg rid computed n s1) (\<lambda>s2.
             Inr (Next (commit_encoder env rid inputs new_budget ext_inputs s2))))"

definition waiting_step ::
  "sched_mode \<Rightarrow> ('w, 'b) ext \<Rightarrow> config \<Rightarrow> ('w, 'b) step \<Rightarrow> (('w, 'b) step, unit) ctl res" where
  "waiting_step md env cfg s =
     bind_res (e_peek env (s_requests s) (s_waiting s)) (\<lambda>rid.
     go (check_remote_kv env rid (prepare_disagg md env cfg rid s)) (\<lambda>s _.
     go (check_grammar env rid s) (\<lambda>s _.
     go (check_lora env cfg rid s) (\<lambda>s _.
     go (lookup_computed env rid s) (\<lambda>s (blocks, loc, external, load_async, computed).
     go (admit_tokens md env cfg rid computed external load_async s) (\<lambda>s plan.
     go (allocate_waiting md env cfg rid blocks loc external load_async (fst (snd plan)) s) (\<lambda>s _.
     commit_waiting md env cfg load_async computed plan s)))))))"

text \<open>The statements of the unchunked scheduler, in the order of its loop body.\<close>

definition unchunk_checks ::
  "('w, 'b) ext \<Rightarrow> config \<Rightarrow> req_id \<Rightarrow> ('w, 'b) step
    \<Rightarrow> (('w, 'b) step, 'b \<times> int \<times> int \<times> bool \<times> int) ctl res" where
  "unchunk_checks env cfg rid s =
     go (check_remote_kv env rid s) (\<lambda>s _.
     go (check_grammar env rid s) (\<lambda>s _.
     go (check_lora env cfg rid s) (\<lambda>s _. lookup_computed env rid s)))"

definition unchunk_admit_tokens ::
  "('w, 'b) ext \<Rightarrow> config \<Rightarrow> req_id \<Rightarrow> int \<Rightarrow> int \<Rightarrow> bool \<Rightarrow> ('w, 'b) step
    \<Rightarrow> (('w, 'b) step, int list option \<times> int \<times> int \<times> int list) ctl res" where
  "unchunk_admit_tokens = admit_tokens UNCHUNK"

definition unchunk_allocate_waiting ::
  "('w, 'b) ext \<Rightarrow> config \<Rightarrow> req_id \<Rightarrow> 'b \<Rightarrow> int \<Rightarrow> int \<Rightarrow> bool \<Rightarrow> int \<Rightarrow> ('w, 'b) step
    \<Rightarrow> (('w, 'b) step, unit) ctl res" where
  "unchunk_allocate_waiting = allocate_waiting UNCHUNK"

definition unchunk_commit_waiting ::
  "('w, 'b) ext \<Rightarrow> config \<Rightarrow> bool \<Rightarrow> int \<Rightarrow> int list option \<times> int \<times> int \<times> int list
    \<Rightarrow> ('w, 'b) step \<Rightarrow> (('w, 'b) step, unit) ctl res" where
  "unchunk_commit_waiting = commit_waiting UNCHUNK"

lemma go_assoc: "go (go m k) h = go m (\<lambda>s a. go (k s a) h)"
  by (auto simp: go_def split: sum.splits ctl.splits)

lemma unchunk_waiting_step:
  "waiting_step UNCHUNK env cfg s =
     bind_res (e_peek env (s_requests s) (s_waiting s)) (\<lambda>rid.
     go (unchunk_checks env cfg rid s) (\<lambda>s (blocks, loc, external, load_async, computed).
     go (unchunk_admit_tokens env cfg rid computed external load_async s) (\<lambda>s plan.
     go (unchunk_allocate_waiting env cfg rid blocks loc external load_async (fst (snd plan)) s) (\<lambda>s _.
     unchunk_commit_waiting env cfg load_async computed plan s))))"
  by (simp add: waiting_step_def unchunk_checks_def unchunk_admit_tokens_def unchunk_allocate_waiting_def
      unchunk_commit_waiting_def prepare_disagg_def go_assoc)

text \<open>
  The loop. \<open>enough\<close> is \<^verbatim>\<open>is_prefill_batch_met\<close>, always true in the chunked scheduler.
\<close>

fun waiting_loop ::
  "sched_mode \<Rightarrow> ('w, 'b) ext \<Rightarrow> config \<Rightarrow> bool \<Rightarrow> nat \<Rightarrow> ('w, 'b) step \<Rightarrow> ('w, 'b) step res" where
  "waiting_loop md env cfg enough fuel s =
     (if s_waiting s = [] \<or> l_budget s \<le> 0 then Inr s
      else if \<not> enough then Inr s
      else if length (s_running s) = c_max_num_running_reqs cfg then Inr s
      else (case fuel of
          0 \<Rightarrow> Inl NonTermination
        | Suc k \<Rightarrow> (case waiting_step md env cfg s of
            Inl e \<Rightarrow> Inl e
          | Inr (Next s') \<Rightarrow> waiting_loop md env cfg enough k s'
          | Inr (Stop s') \<Rightarrow> Inr s'
          | Inr (Go s' _) \<Rightarrow> Inr s')))"

declare waiting_loop.simps [simp del]

section \<open>A waiting request keeps the invariant\<close>

text \<open>Up to the admission a step only changes requests and the world; \<open>framed\<close> says so.\<close>

definition framed :: "req_id \<Rightarrow> ('w, 'b) step \<Rightarrow> ('w, 'b) step \<Rightarrow> bool" where
  "framed rid s t \<longleftrightarrow> s_running t = s_running s \<and> s_waiting t = s_waiting s \<and> l_skipped t = l_skipped s
     \<and> l_new t = l_new s \<and> l_resumed t = l_resumed s \<and> l_scheduled_running t = l_scheduled_running s
     \<and> l_num_scheduled t = l_num_scheduled s \<and> l_new_blocks t = l_new_blocks s
     \<and> l_budget t = l_budget s \<and> l_preempted t = l_preempted s
     \<and> same_keys (s_requests s) (s_requests t)
     \<and> (\<forall>v. v \<noteq> rid \<longrightarrow> s_requests t v = s_requests s v)"

lemma framed_refl [simp]: "framed rid s s"
  by (simp add: framed_def same_keys_def)

lemma framed_world [simp]: "framed rid s (t\<lparr>s_world := w\<rparr>) = framed rid s t"
  by (simp add: framed_def)

lemma same_keys_upd:
  "same_keys rq rq' \<Longrightarrow> r_priority x = r_priority (rq' rid) \<Longrightarrow>
   r_arrival_time x = r_arrival_time (rq' rid) \<Longrightarrow> same_keys rq (rq'(rid := x))"
  by (simp add: same_keys_def)

lemma framed_upd:
  "framed rid s t \<Longrightarrow> r_priority (f (s_requests t rid)) = r_priority (s_requests t rid) \<Longrightarrow>
   r_arrival_time (f (s_requests t rid)) = r_arrival_time (s_requests t rid) \<Longrightarrow> framed rid s (upd_req rid f t)"
  by (simp add: framed_def same_keys_upd)

lemma framed_step_inv: "framed rid s t \<Longrightarrow> step_inv cfg xs t = step_inv cfg xs s"
  by (simp add: framed_def step_inv_def queues_inv_def books_inv_def scheduled_def)

text \<open>What a step leaves behind; when it continues, the queue is shorter, too.\<close>

definition kept :: "config \<Rightarrow> req_id list \<Rightarrow> ('w, 'b) step \<Rightarrow> ('w, 'b) step \<Rightarrow> bool" where
  "kept cfg xs s t \<longleftrightarrow> step_inv cfg xs t
     \<and> l_scheduled_running t = l_scheduled_running s \<and> l_preempted t = l_preempted s
     \<and> (\<exists>zs. s_running t = s_running s @ zs \<and>
          length (l_new t) + length (l_resumed t) = length (l_new s) + length (l_resumed s) + length zs)
     \<and> (\<forall>v \<in> set (s_running s). s_requests t v = s_requests s v)"

definition shorter :: "config \<Rightarrow> req_id list \<Rightarrow> ('w, 'b) step \<Rightarrow> ('w, 'b) step \<Rightarrow> bool" where
  "shorter cfg xs s t \<longleftrightarrow> kept cfg xs s t \<and> length (s_waiting t) < length (s_waiting s)"

lemma kept_trans: "kept cfg xs s t \<Longrightarrow> kept cfg xs t u \<Longrightarrow> kept cfg xs s u"
  by (fastforce simp: kept_def)

lemma framed_pop:
  assumes "framed rid s t" "e_peek env (s_requests s) (s_waiting s) = Inr rid" "s_waiting s \<noteq> []"
    and "ext_laws env"
  obtains q where "e_pop env (s_requests t) (s_waiting t) = Inr (rid, q)"
    "mset (s_waiting s) = add_mset rid (mset q)"
proof -
  obtain v q where v: "e_peek env (s_requests s) (s_waiting s) = Inr v"
    "e_pop env (s_requests s) (s_waiting s) = Inr (v, q)" "mset (s_waiting s) = add_mset v (mset q)"
    using ext_lawsD(4)[OF assms(4,3)] by blast
  have "same_keys (s_requests s) (s_requests t)" "s_waiting t = s_waiting s"
    using assms(1) by (simp_all add: framed_def)
  then have "e_pop env (s_requests t) (s_waiting t) = Inr (v, q)"
    using ext_lawsD(3)[OF assms(4), of "s_requests s" "s_requests t" "s_waiting s"] v(2) by simp
  then show ?thesis using that[of q] v assms(2) by simp
qed

text \<open>The outcomes of the stages of a step that began in \<open>s0\<close>: \<open>T\<close> holds where a stage goes on.\<close>

definition stage ::
  "req_id \<Rightarrow> config \<Rightarrow> req_id list \<Rightarrow> ('w, 'b) step \<Rightarrow> ('a \<Rightarrow> bool) \<Rightarrow> (('w, 'b) step, 'a) ctl res \<Rightarrow> bool" where
  "stage rid cfg xs s0 T m = ctl_all (shorter cfg xs s0) (framed rid s0) (\<lambda>t a. framed rid s0 t \<and> T a) m"

lemma stage_go:
  assumes "stage rid cfg xs s0 T m" "\<And>t a. framed rid s0 t \<Longrightarrow> T a \<Longrightarrow> stage rid cfg xs s0 U (k t a)"
  shows "stage rid cfg xs s0 U (go m k)"
  using assms unfolding stage_def by (auto intro: ctl_all_go)

lemma stage_simps [simp]:
  "stage rid cfg xs s0 T (Inl e)"
  "stage rid cfg xs s0 T (Inr (Next t)) = shorter cfg xs s0 t"
  "stage rid cfg xs s0 T (Inr (Stop t)) = framed rid s0 t"
  "stage rid cfg xs s0 T (Inr (Go t a)) = (framed rid s0 t \<and> T a)"
  by (simp_all add: stage_def)

text \<open>The facts at the beginning of a step.\<close>

definition peeked :: "('w, 'b) ext \<Rightarrow> config \<Rightarrow> req_id list \<Rightarrow> req_id \<Rightarrow> ('w, 'b) step \<Rightarrow> bool" where
  "peeked env cfg xs rid s \<longleftrightarrow> ext_laws env \<and> distinct xs \<and> step_inv cfg xs s \<and> s_waiting s \<noteq> []
     \<and> e_peek env (s_requests s) (s_waiting s) = Inr rid \<and> 0 < l_budget s
     \<and> length (s_running s) < c_max_num_running_reqs cfg"

lemma peeked_not_running:
  assumes "peeked env cfg xs rid s"
  shows "rid \<notin> set (s_running s)"
proof -
  obtain q where "mset (s_waiting s) = add_mset rid (mset q)"
    using framed_pop[OF framed_refl, of env s rid] assms by (auto simp: peeked_def)
  then have "rid \<in> set (s_waiting s)" by (metis set_mset_add_mset_insert set_mset_mset insertI1)
  then show ?thesis using assms queues_distinct[of xs s] by (auto simp: peeked_def step_inv_def)
qed

lemma framed_kept:
  assumes "framed rid s t" "step_inv cfg xs s" "rid \<notin> set (s_running s)"
  shows "kept cfg xs s t"
  using assms framed_step_inv[OF assms(1), of cfg xs] by (auto simp: kept_def framed_def)

lemma skip_request_stage:
  assumes "peeked env cfg xs rid s" "framed rid s t"
  shows "stage rid cfg xs s T (skip_request env rid t)"
proof -
  obtain q where q: "e_pop env (s_requests t) (s_waiting t) = Inr (rid, q)"
    "mset (s_waiting s) = add_mset rid (mset q)"
    using framed_pop[OF assms(2)] assms(1) by (auto simp: peeked_def)
  have len: "length q < length (s_waiting s)" using arg_cong[OF q(2), of size] by simp
  let ?t = "t\<lparr>s_waiting := q, l_skipped := e_prepend env (s_requests t) rid (l_skipped t)\<rparr>"
  have "books_inv cfg ?t" "length (s_running ?t) \<le> c_max_num_running_reqs cfg"
    using assms by (auto simp: framed_def peeked_def step_inv_def books_inv_def scheduled_def)
  moreover have "queues_inv xs ?t"
    using assms q(2) ext_lawsD(1)[of env] by (auto simp: framed_def peeked_def step_inv_def queues_inv_def)
  ultimately have inv: "step_inv cfg xs ?t" by (simp add: step_inv_def)
  have "kept cfg xs s ?t" using inv assms(2) peeked_not_running[OF assms(1)]
    by (auto simp: kept_def framed_def)
  then show ?thesis using q(1) len by (simp add: skip_request_def shorter_def)
qed

lemma prepare_disagg_framed:
  assumes "ext_laws env"
  shows "framed rid s (prepare_disagg md env cfg rid s)"
proof -
  have k: "r_priority (take_first_spec_tok (take_first_tok env r)) = r_priority r
      \<and> r_arrival_time (take_first_spec_tok (take_first_tok env r)) = r_arrival_time r" for r
    using ext_lawsD(8,9)[OF assms]
    by (auto simp: take_first_spec_tok_def take_first_tok_def split: option.splits)
  show ?thesis
    by (cases md) (auto simp: prepare_disagg_def Let_def k intro!: framed_upd)
qed

lemma check_remote_kv_stage:
  assumes "peeked env cfg xs rid s" "framed rid s t"
  shows "stage rid cfg xs s (\<lambda>_. True) (check_remote_kv env rid t)"
proof (cases "r_status (req_of t rid) = WAITING_FOR_REMOTE_KVS")
  case True
  obtain rdy r w where u: "e_update_remote_kv env rid (req_of t rid) (s_world t) = (rdy, r, w)"
    by (metis surj_pair)
  have env: "ext_laws env" using assms(1) by (simp add: peeked_def)
  have f: "framed rid s (upd_req rid (\<lambda>_. r) (t\<lparr>s_world := w\<rparr>))"
    using ext_lawsD(6,7)[OF env, of rid "req_of t rid" "s_world t"] u assms(2)
    by (intro framed_upd) (auto simp: req_of_def)
  show ?thesis using True u f skip_request_stage[OF assms(1) f]
    by (auto simp: check_remote_kv_def Let_def intro!: framed_upd)
qed (use assms(2) in \<open>simp add: check_remote_kv_def\<close>)

lemma check_grammar_stage:
  assumes "peeked env cfg xs rid s" "framed rid s t"
  shows "stage rid cfg xs s (\<lambda>_. True) (check_grammar env rid t)"
  using skip_request_stage[OF assms] assms(2)
  by (auto simp: check_grammar_def intro!: framed_upd)

lemma check_lora_stage:
  assumes "peeked env cfg xs rid s" "framed rid s t"
  shows "stage rid cfg xs s (\<lambda>_. True) (check_lora env cfg rid t)"
  using skip_request_stage[OF assms] assms(2)
  by (auto simp: check_lora_def split: option.splits)

lemma lookup_computed_stage:
  assumes "peeked env cfg xs rid s" "framed rid s t"
  shows "stage rid cfg xs s (\<lambda>_. True) (lookup_computed env rid t)"
proof -
  have sk: "stage rid cfg xs s (\<lambda>_. True) (skip_request env rid (t\<lparr>s_world := w\<rparr>))" for w
    using skip_request_stage[OF assms(1), of "t\<lparr>s_world := w\<rparr>"] assms(2) by simp
  show ?thesis using assms(2) sk
    by (auto simp: lookup_computed_def Let_def split: prod.splits option.splits)
qed

text \<open>The token count is positive and within the budget unless the blocks are loaded asynchronously.\<close>

lemma admit_tokens_stage:
  assumes "peeked env cfg xs rid s" "framed rid s t"
  shows "stage rid cfg xs s (\<lambda>plan. \<not> async \<longrightarrow> 0 < fst (snd plan) \<and> fst (snd plan) \<le> l_budget s)
    (admit_tokens md env cfg rid computed external async t)"
proof (cases async)
  case True
  then show ?thesis using assms(2) by (auto simp: admit_tokens_def require_def)
next
  case False
  have env: "ext_laws env" using assms(1) by (simp add: peeked_def)
  let ?n = "prompt_tokens md cfg (req_of t rid) computed"
  have lb: "l_budget t = l_budget s" using assms(2) by (simp add: framed_def)
  obtain inputs n' nb x t1 where p: "plan_encoder env rid computed (min ?n (l_budget t)) t = ((inputs, n', nb, x), t1)"
    by (metis surj_pair)
  obtain w where t1: "t1 = t\<lparr>s_world := w\<rparr>" using plan_encoder_keeps[OF p] by blast
  have f1: "framed rid s t1" using assms(2) t1 by simp
  have n': "0 \<le> n' \<and> n' \<le> l_budget s" if "0 < min ?n (l_budget t)"
    using plan_encoder_bounds[OF p _ env] that lb by auto
  have nz: "n' = min ?n (l_budget t)" if "\<not> r_has_encoder_inputs (req_of t rid)"
    using p that by (auto simp: plan_encoder_def)
  show ?thesis using False p f1 n' nz assms(2) skip_request_stage[OF assms]
    by (auto simp: admit_tokens_def require_def Let_def)
qed

lemma allocate_waiting_stage:
  assumes "framed rid s t"
  shows "stage rid cfg xs s (\<lambda>_. True) (allocate_waiting md env cfg rid blocks loc external async n t)"
  using assms by (auto simp: allocate_waiting_def Let_def bind_res_def split: sum.splits prod.splits option.splits)

lemma admit_fields:
  assumes "admit md env cfg rid computed n s = Inr t"
  shows "s_running t = s_running s @ [rid]" "s_waiting t = s_waiting s"
    "l_skipped t = l_skipped s" "l_scheduled_running t = l_scheduled_running s"
    "l_preempted t = l_preempted s" "l_num_scheduled t = dict_set rid n (l_num_scheduled s)"
    "l_budget t = l_budget s - n"
    "l_new_blocks t = dict_set rid (e_get_blocks env rid (s_world s)) (l_new_blocks s)"
    "(l_new t = l_new s @ [rid] \<and> l_resumed t = l_resumed s)
     \<or> (l_new t = l_new s \<and> l_resumed t = l_resumed s @ [rid])"
    "r_status (s_requests s rid) \<in> {WAITING, PREEMPTED}"
    "r_num_computed_tokens (s_requests t rid) = computed" "r_status (s_requests t rid) = RUNNING"
  using assms by (auto simp: admit_def Let_def req_of_def split: if_split_asm)

lemma admit_other:
  assumes "admit md env cfg rid computed n s = Inr t" "v \<noteq> rid"
  shows "s_requests t v = s_requests s v"
  using assms by (auto simp: admit_def Let_def req_of_def split: if_split_asm)

lemma admit_books:
  assumes "admit md env cfg rid computed n s = Inr t" "books_inv cfg s" "rid \<notin> set (s_running s)"
    and "0 < n" "n \<le> l_budget s"
  shows "books_inv cfg t"
proof -
  have nk: "rid \<notin> fst ` set (l_num_scheduled s)" using assms(2,3) by (auto simp: books_inv_def)
  then have d: "l_num_scheduled t = l_num_scheduled s @ [(rid, n)]"
    using admit_fields(6)[OF assms(1)] by (simp add: dict_set_fresh)
  have sch: "set (scheduled t) = insert rid (set (scheduled s))"
    "distinct (scheduled s) \<Longrightarrow> rid \<notin> set (scheduled s) \<Longrightarrow> distinct (scheduled t)"
    using admit_fields(9)[OF assms(1)] admit_fields(4)[OF assms(1)] by (auto simp: scheduled_def)
  have ns: "rid \<notin> set (scheduled s)" using assms(2,3) by (auto simp: books_inv_def)
  show ?thesis using assms(2,4,5) nk ns sch admit_fields(1,7,8)[OF assms(1)]
    by (simp add: books_inv_def d) blast
qed

lemma commit_waiting_stage:
  assumes "peeked env cfg xs rid s" "framed rid s t"
    and "\<not> async \<longrightarrow> 0 < fst (snd plan) \<and> fst (snd plan) \<le> l_budget s"
  shows "stage rid cfg xs s (\<lambda>_. True) (commit_waiting md env cfg async computed plan t)"
proof -
  obtain inputs n nb x where plan: "plan = (inputs, n, nb, x)" by (metis surj_pair)
  obtain q where q: "e_pop env (s_requests t) (s_waiting t) = Inr (rid, q)"
    "mset (s_waiting s) = add_mset rid (mset q)"
    using framed_pop[OF assms(2)] assms(1) by (auto simp: peeked_def)
  have len: "length q < length (s_waiting s)" using arg_cong[OF q(2), of size] by simp
  have env: "ext_laws env" and inv: "step_inv cfg xs t" and dx: "distinct xs"
    using assms(1,2) framed_step_inv[OF assms(2)] by (auto simp: peeked_def)
  have fr: "s_running t = s_running s" "s_waiting t = s_waiting s" "l_skipped t = l_skipped s"
    "l_budget t = l_budget s" "l_scheduled_running t = l_scheduled_running s" "l_preempted t = l_preempted s"
    "l_new t = l_new s" "l_resumed t = l_resumed s"
    using assms(2) by (auto simp: framed_def)
  have frh: "\<And>v. v \<noteq> rid \<Longrightarrow> s_requests t v = s_requests s v"
    using assms(2) by (auto simp: framed_def)
  have nr: "rid \<notin> set (s_running s)" by (rule peeked_not_running[OF assms(1)])
  show ?thesis
  proof (cases async)
    case True
    let ?t = "upd_req rid (\<lambda>r. r\<lparr>r_status := WAITING_FOR_REMOTE_KVS\<rparr>)
      (t\<lparr>s_waiting := q, l_skipped := e_prepend env (s_requests t) rid (l_skipped t)\<rparr>)"
    have "books_inv cfg ?t" using inv by (simp add: step_inv_def books_inv_def scheduled_def)
    moreover have "queues_inv xs ?t"
      using inv q(2) ext_lawsD(1)[OF env] fr by (auto simp: step_inv_def queues_inv_def)
    ultimately have "shorter cfg xs s ?t"
      using inv len fr frh nr by (auto simp: shorter_def kept_def step_inv_def)
    then show ?thesis using True q(1) plan by (simp add: commit_waiting_def)
  next
    case False
    let ?t = "t\<lparr>s_waiting := q\<rparr>"
    show ?thesis
    proof (cases "admit md env cfg rid computed n ?t")
      case (Inl e)
      then show ?thesis using False q(1) plan by (simp add: commit_waiting_def)
    next
      case (Inr u)
      let ?u = "commit_encoder env rid inputs nb x u"
      have bt: "books_inv cfg ?t" using inv by (simp add: step_inv_def books_inv_def scheduled_def)
      have "books_inv cfg u"
        using admit_books[OF Inr bt] nr assms(3) False plan fr by simp
      then have bu: "books_inv cfg ?u" by (subst books_inv_cong[of _ u]) simp_all
      note f = admit_fields[OF Inr]
      have hp: "s_requests u v = s_requests s v" if "v \<in> set (s_running s)" for v
        using admit_other[OF Inr, of v] frh[of v] nr that by (cases "v = rid") simp_all
      have ad: "length (l_new u) + length (l_resumed u) = length (l_new s) + length (l_resumed s) + length [rid]"
        using f(9) fr(7,8) by auto
      have "queues_inv xs ?u" using inv q(2) f(1,2,3) fr by (simp add: step_inv_def queues_inv_def)
      moreover have "length (s_running ?u) \<le> c_max_num_running_reqs cfg"
        using assms(1) f(1) fr by (simp add: peeked_def)
      ultimately have "shorter cfg xs s ?u"
        using bu f(1-5) len fr hp ad by (auto simp: shorter_def kept_def step_inv_def)
      then show ?thesis using False q(1) plan Inr by (simp add: commit_waiting_def)
    qed
  qed
qed

lemma waiting_step_stage:
  assumes "peeked env cfg xs rid s"
  shows "stage rid cfg xs s (\<lambda>_. True) (waiting_step md env cfg s)"
proof -
  have env: "ext_laws env" and pk: "e_peek env (s_requests s) (s_waiting s) = Inr rid"
    using assms by (auto simp: peeked_def)
  note f0 = prepare_disagg_framed[OF env, of rid s md cfg]
  show ?thesis unfolding waiting_step_def pk bind_res_simps
    apply (rule stage_go[OF check_remote_kv_stage[OF assms f0]])
    apply (rule stage_go[OF check_grammar_stage[OF assms]], assumption)
    apply (rule stage_go[OF check_lora_stage[OF assms]], assumption)
    apply (rule stage_go[OF lookup_computed_stage[OF assms]], assumption)
    apply (clarify, rule stage_go[OF admit_tokens_stage[OF assms]], assumption)
    apply (rule stage_go[OF allocate_waiting_stage], assumption)
    by (rule commit_waiting_stage[OF assms])
qed

section \<open>The waiting loop\<close>

lemma peek_ok:
  assumes "ext_laws env" "s_waiting s \<noteq> []"
  obtains rid where "e_peek env (s_requests s) (s_waiting s) = Inr rid"
  using ext_lawsD(4)[OF assms] by blast

lemma waiting_step_outcome:
  assumes "waiting_step md env cfg s = Inr c" "step_inv cfg xs s" "distinct xs" "ext_laws env"
    and "s_waiting s \<noteq> []" "0 < l_budget s" "length (s_running s) \<noteq> c_max_num_running_reqs cfg"
  shows "case c of Next t \<Rightarrow> shorter cfg xs s t | Stop t \<Rightarrow> kept cfg xs s t | Go t _ \<Rightarrow> kept cfg xs s t"
proof -
  obtain rid where rid: "e_peek env (s_requests s) (s_waiting s) = Inr rid"
    using peek_ok[OF assms(4,5)] .
  have "length (s_running s) < c_max_num_running_reqs cfg"
    using assms(2,7) by (simp add: step_inv_def)
  then have p: "peeked env cfg xs rid s" using assms rid by (simp add: peeked_def)
  from waiting_step_stage[OF this, of md] assms(1) show ?thesis
    using framed_kept[OF _ assms(2) peeked_not_running[OF p]] by (cases c) auto
qed

text \<open>The loop keeps the invariant, and the length of the queue is fuel enough.\<close>

lemma waiting_loop_inv:
  assumes "waiting_loop md env cfg enough fuel s = Inr t" "step_inv cfg xs s" "distinct xs" "ext_laws env"
  shows "kept cfg xs s t"
  using assms(1,2)
proof (induction fuel arbitrary: s)
  case 0
  then have "t = s" by (subst (asm) waiting_loop.simps) (auto split: if_splits)
  then show ?case using 0 by (simp add: kept_def)
next
  case (Suc k)
  show ?case
  proof (cases "s_waiting s = [] \<or> l_budget s \<le> 0 \<or> \<not> enough \<or> length (s_running s) = c_max_num_running_reqs cfg")
    case True
    then have "t = s" using Suc.prems by (subst (asm) waiting_loop.simps) (auto split: if_splits)
    then show ?thesis using Suc.prems by (simp add: kept_def)
  next
    case False
    then obtain c where c: "waiting_step md env cfg s = Inr c"
      using Suc.prems(1) by (subst (asm) waiting_loop.simps) (auto split: sum.splits)
    note oc = waiting_step_outcome[OF c Suc.prems(2) assms(3,4)]
    show ?thesis
    proof (cases c)
      case (Next u)
      then have "waiting_loop md env cfg enough k u = Inr t"
        using Suc.prems(1) False c by (subst (asm) waiting_loop.simps) auto
      moreover have "kept cfg xs s u" using oc Next False by (simp add: shorter_def)
      ultimately show ?thesis using Suc.IH[of u] kept_trans by (auto simp: kept_def)
    next
      case (Stop u)
      then have "t = u" using Suc.prems(1) False c by (subst (asm) waiting_loop.simps) auto
      then show ?thesis using oc Stop False by simp
    next
      case (Go u a)
      then have "t = u" using Suc.prems(1) False c by (subst (asm) waiting_loop.simps) auto
      then show ?thesis using oc Go False by simp
    qed
  qed
qed

lemma waiting_loop_fuel:
  assumes "length (s_waiting s) \<le> fuel" "step_inv cfg xs s" "distinct xs" "ext_laws env"
    and "\<And>s. waiting_step md env cfg s \<noteq> Inl NonTermination"
  shows "waiting_loop md env cfg enough fuel s \<noteq> Inl NonTermination"
  using assms(1,2)
proof (induction fuel arbitrary: s)
  case 0
  then show ?case by (subst waiting_loop.simps) simp
next
  case (Suc k)
  show ?case
  proof (cases "s_waiting s = [] \<or> l_budget s \<le> 0 \<or> \<not> enough \<or> length (s_running s) = c_max_num_running_reqs cfg")
    case True
    then show ?thesis by (subst waiting_loop.simps) auto
  next
    case False
    show ?thesis
    proof (cases "waiting_step md env cfg s")
      case (Inl e)
      then show ?thesis using False assms(5)[of s] by (subst waiting_loop.simps) auto
    next
      case (Inr c)
      note oc = waiting_step_outcome[OF Inr Suc.prems(2) assms(3,4)]
      show ?thesis using Inr oc False Suc.IH Suc.prems(1)
        by (subst waiting_loop.simps) (cases c; force simp: shorter_def kept_def)
    qed
  qed
qed

end
