(* ===== verification/Schedule.thy ===== *)
theory Schedule
  imports SchedWaiting
begin

text \<open>
  The two \<^verbatim>\<open>schedule\<close> methods: \<^verbatim>\<open>SchedulerWithProfiler.schedule\<close> (chunked: running
  requests first, waiting ones only when nothing was preempted) and
  \<^verbatim>\<open>MLUUnchunkScheduler.schedule\<close> (waiting requests first, running ones only when nothing was
  admitted), the final assertions and the construction of the output.
\<close>

section \<open>The phases\<close>

definition record_loras :: "config \<Rightarrow> ('w, 'b) step \<Rightarrow> ('w, 'b) step res" where
  "record_loras cfg s =
     (case c_max_loras cfg of
        None \<Rightarrow> Inr (s\<lparr>l_loras := []\<rparr>)
      | Some k \<Rightarrow>
          let ls = remdups (filter (\<lambda>l. 0 < l)
                (List.map_filter (\<lambda>rid. r_lora (req_of s rid)) (l_scheduled_running s)))
          in require (length ls \<le> k) AssertionError (Inr (s\<lparr>l_loras := ls\<rparr>)))"

text \<open>Put back the skipped requests; the temporary queue is not used after this.\<close>

definition put_back :: "('w, 'b) ext \<Rightarrow> ('w, 'b) step \<Rightarrow> ('w, 'b) step" where
  "put_back env s =
     (if l_skipped s = [] then s
      else s\<lparr>s_waiting := e_prepend_all env (s_requests s) (l_skipped s) (s_waiting s), l_skipped := []\<rparr>)"

definition chunk_phases :: "('w, 'b) ext \<Rightarrow> config \<Rightarrow> 'w sched \<Rightarrow> ('w, 'b) step res" where
  "chunk_phases env cfg st =
     bind_res (running_loop CHUNK env cfg (begin_step cfg st)) (\<lambda>s1.
     bind_res (record_loras cfg s1) (\<lambda>s2.
     bind_res (if l_preempted s2 = []
               then waiting_loop CHUNK env cfg True (length (s_waiting s2)) s2 else Inr s2) (\<lambda>s3.
     Inr (put_back env s3))))"

definition unchunk_phases :: "('w, 'b) ext \<Rightarrow> config \<Rightarrow> 'w sched \<Rightarrow> ('w, 'b) step res" where
  "unchunk_phases env cfg st =
     bind_res (record_loras cfg (begin_step cfg st)) (\<lambda>s1.
     let s2 = s1\<lparr>l_req_index := int (length (s_running s1))\<rparr>;
         is_prefill_batch_met = (c_min_prefill_batch cfg \<le> length (s_waiting s2))
     in bind_res (waiting_loop UNCHUNK env cfg is_prefill_batch_met (length (s_waiting s2)) s2) (\<lambda>s3.
     let s4 = put_back env s3
     in if l_new s4 = [] \<and> l_resumed s4 = []
        then running_loop UNCHUNK env cfg (s4\<lparr>l_req_index := 0\<rparr>)
        else Inr s4))"

text \<open>The assertions at the end of both methods.\<close>

definition check_constraints :: "config \<Rightarrow> ('w, 'b) step \<Rightarrow> unit res" where
  "check_constraints cfg s =
     require (sum_list (dict_values (l_num_scheduled s)) \<le> c_max_num_scheduled_tokens cfg) AssertionError
     (require (0 \<le> l_budget s) AssertionError
     (require (length (s_running s) \<le> c_max_num_running_reqs cfg) AssertionError
     (require (length (l_new s) + length (l_resumed s) + length (l_scheduled_running s)
         \<le> length (s_running s)) AssertionError
     (Inr ()))))"

section \<open>The output\<close>

definition new_reqs_data :: "('w, 'b) ext \<Rightarrow> ('w, 'b) step \<Rightarrow> new_request_data list res" where
  "new_reqs_data env s = map_res (\<lambda>rid. bind_res (dict_at (l_new_blocks s) rid) (\<lambda>b.
     Inr (from_request rid (req_of s rid) (e_block_ids env b)))) (l_new s)"

definition common_prefix_blocks :: "('w, 'b) ext \<Rightarrow> config \<Rightarrow> ('w, 'b) step \<Rightarrow> nat list" where
  "common_prefix_blocks env cfg s =
     (case s_running s of
        [] \<Rightarrow> replicate (c_num_kv_cache_groups cfg) 0
      | r # _ \<Rightarrow> e_common_prefix_blocks env r (s_world s))"

definition make_output ::
  "('w, 'b) ext \<Rightarrow> config \<Rightarrow> ('w, 'b) step \<Rightarrow> (sched_output \<times> ('w, 'b) step) res" where
  "make_output env cfg s =
     bind_res (new_reqs_data env s) (\<lambda>new_data.
     let cached = e_cached_request_data env (s_requests s) (l_scheduled_running s) (l_resumed s)
            (l_num_scheduled s) (l_spec_tokens s) (l_new_blocks s);
         (hashes, w) = e_freed_mm_hashes env (s_world s)
     in Inr (\<lparr>so_new_reqs = new_data,
              so_cached_reqs = cached,
              so_num_scheduled_tokens = l_num_scheduled s,
              so_total_num_scheduled_tokens = sum_list (dict_values (l_num_scheduled s)),
              so_spec_decode_tokens = l_spec_tokens s,
              so_encoder_inputs = l_encoder_inputs s,
              so_num_common_prefix_blocks = common_prefix_blocks env cfg s,
              so_finished_req_ids = s_finished_req_ids s,
              so_free_encoder_mm_hashes = hashes,
              so_kv_connector_metadata = None,
              so_ec_connector_metadata = None,
              so_pending_structured_output_tokens = False\<rparr>,
             s\<lparr>s_prev_step_scheduled := dict_keys (l_num_scheduled s), s_world := w\<rparr>))"

text \<open>Profiling, in the chunked scheduler only: one metric per step.\<close>

definition profile_step :: "('w, 'b) ext \<Rightarrow> config \<Rightarrow> ('w, 'b) step \<Rightarrow> ('w, 'b) step res" where
  "profile_step env cfg s =
     (if c_sched_profiler cfg
      then bind_res (build_metric (s_sched_step s + 1) (length (s_waiting s)) (length (s_running s))
             (length (s_finished_req_ids s)) (s_requests s) (l_new s) (l_resumed s)
             (l_scheduled_running s) (l_preempted s) (sum_list (dict_values (l_num_scheduled s)))
             (c_max_num_scheduled_tokens cfg) (c_max_num_running_reqs cfg) (e_kv_usage env (s_world s)))
           (\<lambda>m. Inr (s\<lparr>s_sched_step := s_sched_step s + 1, s_sched_metrics := s_sched_metrics s @ [m]\<rparr>))
      else Inr s)"

definition add_metadata ::
  "('w, 'b) ext \<Rightarrow> sched_output \<Rightarrow> ('w, 'b) step \<Rightarrow> sched_output \<times> ('w, 'b) step" where
  "add_metadata env out s =
     (let (out1, s1) = (case e_connector env of
            None \<Rightarrow> (out, s)
          | Some k \<Rightarrow> let (m, w) = k_build_meta k out (s_world s)
              in (out\<lparr>so_kv_connector_metadata := Some m\<rparr>, s\<lparr>s_world := w\<rparr>))
      in case e_ec_connector env of
           None \<Rightarrow> (out1, s1)
         | Some k \<Rightarrow> let (m, w) = ec_build_meta k out1 (s_world s1)
             in (out1\<lparr>so_ec_connector_metadata := Some m\<rparr>, s1\<lparr>s_world := w\<rparr>))"

text \<open>\<open>after\<close> is the method \<^verbatim>\<open>_update_after_schedule\<close> of the scheduler's class.\<close>

definition chunk_schedule ::
  "(sched_output \<Rightarrow> 'w sched \<Rightarrow> (sched_output \<times> 'w sched) res) \<Rightarrow> ('w, 'b) ext \<Rightarrow> config
    \<Rightarrow> 'w sched \<Rightarrow> (sched_output \<times> 'w sched) res" where
  "chunk_schedule after env cfg st =
     bind_res (chunk_phases env cfg st) (\<lambda>s.
     bind_res (check_constraints cfg s) (\<lambda>_.
     bind_res (make_output env cfg s) (\<lambda>(out, s1).
     bind_res (profile_step env cfg s1) (\<lambda>s2.
     let (out', s3) = add_metadata env out s2 in after out' (sched.truncate s3)))))"

definition unchunk_schedule ::
  "(sched_output \<Rightarrow> 'w sched \<Rightarrow> (sched_output \<times> 'w sched) res) \<Rightarrow> ('w, 'b) ext \<Rightarrow> config
    \<Rightarrow> 'w sched \<Rightarrow> (sched_output \<times> 'w sched) res" where
  "unchunk_schedule after env cfg st =
     bind_res (unchunk_phases env cfg st) (\<lambda>s.
     bind_res (check_constraints cfg s) (\<lambda>_.
     bind_res (make_output env cfg s) (\<lambda>(out, s1).
     let (out', s2) = add_metadata env out s1 in after out' (sched.truncate s2))))"

section \<open>The phases keep the invariant\<close>

text \<open>The states of the scheduler object between steps.\<close>

definition sched_ok :: "sched_mode \<Rightarrow> config \<Rightarrow> 'w sched \<Rightarrow> bool" where
  "sched_ok md cfg st \<longleftrightarrow> distinct (s_running st @ s_waiting st)
     \<and> length (s_running st) \<le> c_max_num_running_reqs cfg
     \<and> 0 \<le> c_max_num_scheduled_tokens cfg
     \<and> list_all (\<lambda>v. ready md cfg (s_requests st v)) (s_running st)"

lemma begin_step_simps [simp]:
  "s_running (begin_step cfg st) = s_running st" "s_waiting (begin_step cfg st) = s_waiting st"
  "s_requests (begin_step cfg st) = s_requests st" "l_new (begin_step cfg st) = []"
  "l_resumed (begin_step cfg st) = []" "l_scheduled_running (begin_step cfg st) = []"
  "l_preempted (begin_step cfg st) = []" "l_skipped (begin_step cfg st) = []"
  "l_num_scheduled (begin_step cfg st) = []" "l_new_blocks (begin_step cfg st) = []"
  "l_budget (begin_step cfg st) = c_max_num_scheduled_tokens cfg" "l_req_index (begin_step cfg st) = 0"
  by (simp_all add: begin_step_def sched.defs)

lemma begin_step_inv:
  assumes "sched_ok md cfg st"
  shows "step_inv cfg (s_running st @ s_waiting st) (begin_step cfg st)"
    "run_inv md cfg (s_running st @ s_waiting st) (begin_step cfg st)"
  using assms by (auto simp: sched_ok_def step_inv_def run_inv_def queues_inv_def books_inv_def
      scheduled_def list_all_iff)

lemma record_loras_keeps:
  assumes "record_loras cfg s = Inr t"
  shows "\<exists>ls. t = s\<lparr>l_loras := ls\<rparr>"
  using assms by (auto simp: record_loras_def require_eq_Inr Let_def split: option.splits)

lemma inv_loras [simp]: "step_inv cfg xs (s\<lparr>l_loras := ls\<rparr>) = step_inv cfg xs s"
  by (simp add: step_inv_def queues_inv_def books_inv_def scheduled_def)

lemma inv_req_index [simp]: "step_inv cfg xs (s\<lparr>l_req_index := i\<rparr>) = step_inv cfg xs s"
  by (simp add: step_inv_def queues_inv_def books_inv_def scheduled_def)

lemma put_back_inv:
  assumes "step_inv cfg xs s" "ext_laws env"
  shows "step_inv cfg xs (put_back env s)" "l_skipped (put_back env s) = []"
  using assms ext_lawsD(2)[OF assms(2)]
  by (auto simp: put_back_def step_inv_def queues_inv_def books_inv_def scheduled_def ac_simps)

lemma put_back_fields [simp]:
  "s_running (put_back env s) = s_running s" "l_new (put_back env s) = l_new s"
  "l_resumed (put_back env s) = l_resumed s" "l_scheduled_running (put_back env s) = l_scheduled_running s"
  "l_preempted (put_back env s) = l_preempted s" "l_num_scheduled (put_back env s) = l_num_scheduled s"
  "l_budget (put_back env s) = l_budget s" "s_requests (put_back env s) = s_requests s"
  by (simp_all add: put_back_def)

lemma run_inv_start:
  assumes "step_inv cfg xs s" "l_new s = []" "l_resumed s = []" "l_scheduled_running s = []"
    and "l_skipped s = []"
    and "\<forall>v \<in> set (s_running s). ready md cfg (s_requests s v)"
  shows "run_inv md cfg xs (s\<lparr>l_req_index := 0\<rparr>)"
  using assms by (simp add: run_inv_def)

lemma chunk_phases_cases:
  assumes "chunk_phases env cfg st = Inr s" "sched_ok CHUNK cfg st" "ext_laws env"
  obtains s1 ls where "running_loop CHUNK env cfg (begin_step cfg st) = Inr s1"
    "run_inv CHUNK cfg (s_running st @ s_waiting st) s1"
    "l_preempted s1 \<noteq> []" "s = put_back env (s1\<lparr>l_loras := ls\<rparr>)"
  | s1 ls s3 where "running_loop CHUNK env cfg (begin_step cfg st) = Inr s1"
    "run_inv CHUNK cfg (s_running st @ s_waiting st) s1"
    "l_preempted s1 = []"
    "waiting_loop CHUNK env cfg True (length (s_waiting s1)) (s1\<lparr>l_loras := ls\<rparr>) = Inr s3"
    "kept cfg (s_running st @ s_waiting st) (s1\<lparr>l_loras := ls\<rparr>) s3" "s = put_back env s3"
proof -
  let ?xs = "s_running st @ s_waiting st"
  have dx: "distinct ?xs" using assms(2) by (simp add: sched_ok_def)
  obtain s1 s2 where s1: "running_loop CHUNK env cfg (begin_step cfg st) = Inr s1"
    and s2: "record_loras cfg s1 = Inr s2"
    using assms(1) by (auto simp: chunk_phases_def bind_res_eq_Inr)
  obtain ls where ls: "s2 = s1\<lparr>l_loras := ls\<rparr>" using record_loras_keeps[OF s2] by blast
  have r1: "run_inv CHUNK cfg ?xs s1"
    using running_loop_inv[OF s1 begin_step_inv(2)[OF assms(2)] dx assms(3)] .
  show ?thesis
  proof (cases "l_preempted s1 = []")
    case False
    then show ?thesis using that(1)[OF s1 r1 False] assms(1) s1 s2 ls by (auto simp: chunk_phases_def)
  next
    case True
    then obtain s3 where s3: "waiting_loop CHUNK env cfg True (length (s_waiting s2)) s2 = Inr s3"
      "s = put_back env s3"
      using assms(1) s1 s2 ls by (auto simp: chunk_phases_def bind_res_eq_Inr)
    have i2: "step_inv cfg ?xs s2" using r1 ls by (simp add: run_inv_def)
    have "kept cfg ?xs s2 s3" by (rule waiting_loop_inv[OF s3(1) i2 dx assms(3)])
    then show ?thesis using that(2)[OF s1 r1 True] s3 ls by simp
  qed
qed

lemma chunk_phases_inv:
  assumes "chunk_phases env cfg st = Inr s" "sched_ok CHUNK cfg st" "ext_laws env"
  shows "step_inv cfg (s_running st @ s_waiting st) s \<and> l_skipped s = []"
  using assms
proof (cases rule: chunk_phases_cases)
  case (1 s1 ls)
  then show ?thesis using put_back_inv[OF _ assms(3), of cfg "s_running st @ s_waiting st" "s1\<lparr>l_loras := ls\<rparr>"]
    by (simp add: run_inv_def)
next
  case (2 s1 ls s3)
  then show ?thesis using put_back_inv[OF _ assms(3), of cfg "s_running st @ s_waiting st" s3] by (simp add: kept_def)
qed

lemma unchunk_phases_cases:
  assumes "unchunk_phases env cfg st = Inr s" "sched_ok UNCHUNK cfg st" "ext_laws env"
  obtains s1 s3 where "s1 = (begin_step cfg st)\<lparr>l_loras := [], l_req_index := int (length (s_running st))\<rparr>"
    "waiting_loop UNCHUNK env cfg (c_min_prefill_batch cfg \<le> length (s_waiting st)) (length (s_waiting st)) s1 = Inr s3"
    "kept cfg (s_running st @ s_waiting st) s1 s3" "l_new s3 \<noteq> [] \<or> l_resumed s3 \<noteq> []" "s = put_back env s3"
  | s1 s3 where "s1 = (begin_step cfg st)\<lparr>l_loras := [], l_req_index := int (length (s_running st))\<rparr>"
    "waiting_loop UNCHUNK env cfg (c_min_prefill_batch cfg \<le> length (s_waiting st)) (length (s_waiting st)) s1 = Inr s3"
    "kept cfg (s_running st @ s_waiting st) s1 s3" "l_new s3 = []" "l_resumed s3 = []"
    "running_loop UNCHUNK env cfg ((put_back env s3)\<lparr>l_req_index := 0\<rparr>) = Inr s"
    "run_inv UNCHUNK cfg (s_running st @ s_waiting st) ((put_back env s3)\<lparr>l_req_index := 0\<rparr>)"
proof -
  let ?xs = "s_running st @ s_waiting st"
  let ?s1 = "(begin_step cfg st)\<lparr>l_loras := [], l_req_index := int (length (s_running st))\<rparr>"
  have dx: "distinct ?xs" using assms(2) by (simp add: sched_ok_def)
  have rl: "record_loras cfg (begin_step cfg st) = Inr ((begin_step cfg st)\<lparr>l_loras := []\<rparr>)"
    by (simp add: record_loras_def List.map_filter_def split: option.splits)
  obtain s3 where s3: "waiting_loop UNCHUNK env cfg (c_min_prefill_batch cfg \<le> length (s_waiting st))
      (length (s_waiting st)) ?s1 = Inr s3"
    and rest: "(if l_new s3 = [] \<and> l_resumed s3 = []
        then running_loop UNCHUNK env cfg ((put_back env s3)\<lparr>l_req_index := 0\<rparr>)
        else Inr (put_back env s3)) = Inr s"
    using assms(1) by (auto simp: unchunk_phases_def rl Let_def bind_res_eq_Inr)
  have i1: "step_inv cfg ?xs ?s1" using begin_step_inv(1)[OF assms(2)] by simp
  have k: "kept cfg ?xs ?s1 s3" by (rule waiting_loop_inv[OF s3 i1 dx assms(3)])
  show ?thesis
  proof (cases "l_new s3 = [] \<and> l_resumed s3 = []")
    case False
    then show ?thesis using that(1)[OF refl s3 k] rest by auto
  next
    case True
    have i3: "step_inv cfg ?xs s3" and sr: "l_scheduled_running s3 = []" using k by (auto simp: kept_def)
    have run: "s_running s3 = s_running st" using k True by (auto simp: kept_def)
    have "\<forall>v \<in> set (s_running st). ready UNCHUNK cfg (s_requests s3 v)"
      using k assms(2) by (auto simp: kept_def sched_ok_def list_all_iff)
    then have "run_inv UNCHUNK cfg ?xs ((put_back env s3)\<lparr>l_req_index := 0\<rparr>)"
      using put_back_inv[OF i3 assms(3)] True sr run by (intro run_inv_start) auto
    then show ?thesis using that(2)[OF refl s3 k] True rest by simp
  qed
qed

lemma unchunk_phases_inv:
  assumes "unchunk_phases env cfg st = Inr s" "sched_ok UNCHUNK cfg st" "ext_laws env"
  shows "step_inv cfg (s_running st @ s_waiting st) s \<and> l_skipped s = []"
  using assms
proof (cases rule: unchunk_phases_cases)
  case (1 s1 s3)
  then show ?thesis using put_back_inv[OF _ assms(3), of cfg "s_running st @ s_waiting st" s3] by (simp add: kept_def)
next
  case (2 s1 s3)
  have "distinct (s_running st @ s_waiting st)" using assms(2) by (simp add: sched_ok_def)
  from running_loop_inv[OF 2(6,7) this assms(3)] show ?thesis by (simp add: run_inv_def)
qed

text \<open>The invariant implies the assertions at the end of \<^verbatim>\<open>schedule\<close>.\<close>

lemma step_inv_constraints:
  assumes "step_inv cfg xs s" "distinct xs"
  shows "check_constraints cfg s = Inr ()"
proof -
  have b: "books_inv cfg s" using assms(1) by (simp add: step_inv_def)
  have "distinct (s_running s)" using queues_distinct[OF _ assms(2), of s] assms(1) by (simp add: step_inv_def)
  moreover have "distinct (scheduled s)" "set (scheduled s) \<subseteq> set (s_running s)"
    using b by (simp_all add: books_inv_def)
  ultimately have "length (scheduled s) \<le> length (s_running s)"
    by (metis card_mono distinct_card finite_set)
  then show ?thesis using b assms(1)
    by (auto simp: check_constraints_def books_inv_def step_inv_def scheduled_def require_def)
qed

lemma step_inv_unskipped:
  assumes "step_inv cfg xs s" "l_skipped s = []"
  shows "mset (s_running s @ s_waiting s) = mset xs"
  using assms by (simp add: step_inv_def queues_inv_def)

end
