(* ===== verification/SchedProps.thy ===== *)
theory SchedProps
  imports Schedule
begin

text \<open>
  The properties of the two schedulers, with a small concrete environment on which each is
  evaluated: a first-come first-served queue and a cache manager that counts free blocks.
\<close>

section \<open>A concrete environment\<close>

definition demo_env :: "(nat, nat) ext" where
  "demo_env =
     \<lparr>e_peek = \<lambda>_ q. nth_res q 0,
      e_pop = \<lambda>_ q. case q of [] \<Rightarrow> Inl IndexError | v # q' \<Rightarrow> Inr (v, q'),
      e_prepend = \<lambda>_ v q. v # q,
      e_prepend_all = \<lambda>_ q' q. q' @ q,
      e_allocate_slots = \<lambda>_ _ n _ _ _ _ _ _ free.
        if nat n \<le> free then Inr (Some (nat n), free - nat n) else Inr (None, free),
      e_kv_free = \<lambda>_ free. free + 4,
      e_encoder_free = \<lambda>_ free. free,
      e_encoder_allocate = \<lambda>_ _ free. free,
      e_num_encoder_tokens = \<lambda>_ _. 0,
      e_try_encoder = \<lambda>_ _ _ n b free. ((None, n, b, []), free),
      e_update_remote_kv = \<lambda>_ r free. (True, r, free),
      e_get_computed_blocks = \<lambda>_ _ free. ((0, 0), free),
      e_empty_blocks = 0,
      e_add_blocks = (+),
      e_get_blocks = \<lambda>_ _. 1,
      e_block_ids = \<lambda>n. [[0..<n]],
      e_append_output = \<lambda>t r. r\<lparr>r_output_token_ids := r_output_token_ids r @ [t]\<rparr>,
      e_common_prefix_blocks = \<lambda>_ _. [0],
      e_freed_mm_hashes = \<lambda>free. ([], free),
      e_kv_usage = \<lambda>_. 0,
      e_cached_request_data = \<lambda>_ _ _ _ _ _. 0,
      e_connector = None,
      e_ec_connector = None\<rparr>"

lemma demo_env_laws: "ext_laws demo_env"
  by (auto simp: ext_laws_def queue_laws_def encoder_laws_def request_laws_def demo_env_def neq_Nil_conv)

definition demo_request :: "req_status \<Rightarrow> int \<Rightarrow> int \<Rightarrow> int list \<Rightarrow> request" where
  "demo_request status prompt computed outputs =
     \<lparr>r_status = status, r_priority = 0, r_arrival_time = 0, r_num_prompt_tokens = prompt,
      r_prompt_token_ids = None, r_output_token_ids = outputs, r_max_tokens = 8, r_spec_token_ids = [],
      r_num_computed_tokens = computed, r_num_output_placeholders = 0, r_num_preemptions = 0,
      r_num_cached_tokens = -1, r_has_encoder_inputs = False, r_lora = None,
      r_use_structured_output = False, r_grammar_ready = False, r_kv_transfer_params = None,
      r_events = [], r_client_index = 0, r_wants_logprobs = False, r_num_nans_in_logits = 0,
      r_mm_features = 0, r_sampling_params = None, r_pooling_params = None, r_prompt_embeds = None\<rparr>"

definition demo_config :: config where
  "demo_config =
     \<lparr>c_max_num_scheduled_tokens = 8, c_max_num_running_reqs = 4, c_max_num_encoder_input_tokens = 0,
      c_long_prefill_token_threshold = 0, c_enable_chunked_prefill = True, c_max_model_len = 64,
      c_num_lookahead_tokens = 0, c_num_speculative_tokens = None, c_policy = FCFS, c_max_loras = None,
      c_is_encoder_decoder = False, c_window_size = 0, c_num_kv_cache_groups = 1, c_log_stats = False,
      c_sched_profiler = False, c_v1_benchmark = False, c_min_prefill_batch = 1,
      c_disagg_fake_decoder = False, c_disagg_trans_all_blocks = False\<rparr>"

text \<open>Two requests that decode, and one that waits with a prompt of six tokens.\<close>

definition demo_sched :: "nat \<Rightarrow> nat sched" where
  "demo_sched free =
     \<lparr>s_running = [''a'', ''b''], s_waiting = [''c''],
      s_requests = (\<lambda>v. if v = ''c'' then demo_request WAITING 6 0 [] else demo_request RUNNING 3 3 [7]),
      s_world = free, s_finished_req_ids = [], s_prev_step_scheduled = [], s_sched_step = 0,
      s_sched_metrics = []\<rparr>"

lemma demo_sched_ok: "sched_ok md demo_config (demo_sched free)"
  by (cases md) (simp_all add: sched_ok_def demo_sched_def demo_config_def ready_def length_limit_def
      demo_request_def num_tokens_def)

text \<open>A run in which every request fits, and one in which the cache holds no free block.\<close>

lemma demo_chunk_run:
  "case chunk_phases demo_env demo_config (demo_sched 20) of
     Inl _ \<Rightarrow> False
   | Inr s \<Rightarrow> l_num_scheduled s = [(''a'', 1), (''b'', 1), (''c'', 6)] \<and> l_new s = [''c'']"
  by code_simp

lemma demo_chunk_preempts:
  "case chunk_phases demo_env demo_config (demo_sched 0) of
     Inl _ \<Rightarrow> False
   | Inr s \<Rightarrow> l_preempted s = [''b''] \<and> s_waiting s = [''b'', ''c'']"
  by code_simp

lemma demo_unchunk_run:
  "case unchunk_phases demo_env demo_config (demo_sched 20) of
     Inl _ \<Rightarrow> False
   | Inr s \<Rightarrow> l_num_scheduled s = [(''c'', 6)] \<and> l_new s = [''c'']"
  by code_simp

lemma demo_budget: "c_max_num_scheduled_tokens demo_config = 8"
  by (simp add: demo_config_def)

lemma demo_result:
  assumes "case m of Inl _ \<Rightarrow> False | Inr s \<Rightarrow> P s"
  obtains s where "m = Inr s" "P s"
  using assms by (cases m) auto

lemma books_entries:
  assumes "books_inv cfg s"
  shows "list_all (\<lambda>(rid, n). 0 < n \<and> rid \<in> set (s_running s)) (l_num_scheduled s)"
proof -
  have "0 < n \<and> rid \<in> set (s_running s)" if p: "(rid, n) \<in> set (l_num_scheduled s)" for rid n
  proof -
    have "rid \<in> set (dict_keys (l_num_scheduled s))" "n \<in> set (dict_values (l_num_scheduled s))"
      using imageI[OF p, of fst] imageI[OF p, of snd] by simp_all
    then show ?thesis using assms unfolding books_inv_def by blast
  qed
  then show ?thesis by (auto simp: list_all_iff)
qed

section \<open>The chunked scheduler\<close>

text \<open>
  C1. The chunked scheduler keeps its books: from a state between steps, whenever the phases of
  \<^verbatim>\<open>schedule\<close> return, every assertion at its end holds, the tokens handed out and the budget that is
  left add up to \<^verbatim>\<open>max_num_scheduled_tokens\<close> (also when scheduled requests were preempted and gave
  their tokens back), every scheduled request gets at least one token and is running, and none is
  scheduled twice.
\<close>
theorem chunk_schedule_books:
  assumes "chunk_phases env cfg st = Inr s" "sched_ok CHUNK cfg st" "ext_laws env"
  shows "check_constraints cfg s = Inr ()
    \<and> l_budget s + sum_list (dict_values (l_num_scheduled s)) = c_max_num_scheduled_tokens cfg
    \<and> list_all (\<lambda>(rid, n). 0 < n \<and> rid \<in> set (s_running s)) (l_num_scheduled s)
    \<and> distinct (dict_keys (l_num_scheduled s))"
proof -
  have i: "step_inv cfg (s_running st @ s_waiting st) s"
    using chunk_phases_inv[OF assms] by blast
  have "distinct (s_running st @ s_waiting st)" using assms(2) by (simp add: sched_ok_def)
  from step_inv_constraints[OF i this] i show ?thesis
    using books_entries[of cfg s] by (simp add: step_inv_def books_inv_def)
qed

lemma chunk_schedule_books_witness:
  "\<exists>s. chunk_phases demo_env demo_config (demo_sched 20) = Inr s
    \<and> check_constraints demo_config s = Inr () \<and> l_budget s = 0"
proof -
  obtain s where s: "chunk_phases demo_env demo_config (demo_sched 20) = Inr s"
    "l_num_scheduled s = [(''a'', 1), (''b'', 1), (''c'', 6)] \<and> l_new s = [''c'']"
    by (rule demo_result[OF demo_chunk_run])
  from chunk_schedule_books[OF s(1) demo_sched_ok demo_env_laws] s show ?thesis
    by (intro exI[of _ s]) (simp add: demo_budget)
qed

text \<open>
  C3. The chunked scheduler neither loses nor duplicates a request: after the phases the running
  and the waiting queue together hold exactly the requests they held before.
\<close>
theorem chunk_schedule_keeps_requests:
  assumes "chunk_phases env cfg st = Inr s" "sched_ok CHUNK cfg st" "ext_laws env"
  shows "mset (s_running s @ s_waiting s) = mset (s_running st @ s_waiting st)"
  using chunk_phases_inv[OF assms] step_inv_unskipped by blast

lemma chunk_schedule_keeps_requests_witness:
  "\<exists>s. chunk_phases demo_env demo_config (demo_sched 0) = Inr s
    \<and> mset (s_running s @ s_waiting s) = {#''a'', ''b'', ''c''#}"
proof -
  obtain s where s: "chunk_phases demo_env demo_config (demo_sched 0) = Inr s"
    "l_preempted s = [''b''] \<and> s_waiting s = [''b'', ''c'']"
    by (rule demo_result[OF demo_chunk_preempts])
  from chunk_schedule_keeps_requests[OF s(1) demo_sched_ok demo_env_laws] s(1) show ?thesis
    by (auto simp: demo_sched_def)
qed

text \<open>
  C8. The chunked scheduler admits no waiting request in a step that preempted a running one, so a
  preempted request is not competed with by a new one in the same step.
\<close>
theorem chunk_no_admission_after_preemption:
  assumes "chunk_phases env cfg st = Inr s" "sched_ok CHUNK cfg st" "ext_laws env"
    and "l_preempted s \<noteq> []"
  shows "l_new s = [] \<and> l_resumed s = []"
  using assms(1-3)
proof (cases rule: chunk_phases_cases)
  case (1 s1 ls)
  then show ?thesis by (simp add: run_inv_def)
next
  case (2 s1 ls s3)
  then show ?thesis using assms(4) by (simp add: kept_def)
qed

lemma chunk_no_admission_after_preemption_witness:
  "\<exists>s. chunk_phases demo_env demo_config (demo_sched 0) = Inr s \<and> l_preempted s = [''b'']
    \<and> l_new s = [] \<and> l_resumed s = []"
proof -
  obtain s where s: "chunk_phases demo_env demo_config (demo_sched 0) = Inr s"
    "l_preempted s = [''b''] \<and> s_waiting s = [''b'', ''c'']"
    by (rule demo_result[OF demo_chunk_preempts])
  from chunk_no_admission_after_preemption[OF s(1) demo_sched_ok demo_env_laws] s show ?thesis by auto
qed

section \<open>The unchunked scheduler\<close>

text \<open>
  C4. The unchunked scheduler keeps its books and its requests: whenever its phases return, every
  assertion at the end holds, tokens and budget add up, every scheduled request has a positive
  count and is running, and the queues together hold the requests they held before.
\<close>
theorem unchunk_schedule_books:
  assumes "unchunk_phases env cfg st = Inr s" "sched_ok UNCHUNK cfg st" "ext_laws env"
  shows "check_constraints cfg s = Inr ()
    \<and> l_budget s + sum_list (dict_values (l_num_scheduled s)) = c_max_num_scheduled_tokens cfg
    \<and> list_all (\<lambda>(rid, n). 0 < n \<and> rid \<in> set (s_running s)) (l_num_scheduled s)
    \<and> distinct (dict_keys (l_num_scheduled s))
    \<and> mset (s_running s @ s_waiting s) = mset (s_running st @ s_waiting st)"
proof -
  have i: "step_inv cfg (s_running st @ s_waiting st) s" "l_skipped s = []"
    using unchunk_phases_inv[OF assms] by auto
  have "distinct (s_running st @ s_waiting st)" using assms(2) by (simp add: sched_ok_def)
  from step_inv_constraints[OF i(1) this] i(1) step_inv_unskipped[OF i] show ?thesis
    using books_entries[of cfg s] by (simp add: step_inv_def books_inv_def)
qed

lemma unchunk_schedule_books_witness:
  "\<exists>s. unchunk_phases demo_env demo_config (demo_sched 20) = Inr s
    \<and> check_constraints demo_config s = Inr () \<and> l_budget s = 2"
proof -
  obtain s where s: "unchunk_phases demo_env demo_config (demo_sched 20) = Inr s"
    "l_num_scheduled s = [(''c'', 6)] \<and> l_new s = [''c'']"
    by (rule demo_result[OF demo_unchunk_run])
  from unchunk_schedule_books[OF s(1) demo_sched_ok demo_env_laws] s show ?thesis
    by (intro exI[of _ s]) (simp add: demo_budget)
qed

text \<open>
  C7. The unchunked scheduler never mixes prefill and decode: in a step that admits a waiting
  request no running request is scheduled and none is preempted, and the requests that were
  running stay at the front of the running queue, in their order.
\<close>
theorem unchunk_exclusive:
  assumes "unchunk_phases env cfg st = Inr s" "sched_ok UNCHUNK cfg st" "ext_laws env"
    and "l_new s @ l_resumed s \<noteq> []"
  shows "l_scheduled_running s = [] \<and> l_preempted s = []
    \<and> take (length (s_running st)) (s_running s) = s_running st"
  using assms(1-3)
proof (cases rule: unchunk_phases_cases)
  case (1 s1 s3)
  then show ?thesis by (auto simp: kept_def)
next
  case (2 s1 s3)
  have "distinct (s_running st @ s_waiting st)" using assms(2) by (simp add: sched_ok_def)
  from running_loop_inv[OF 2(6,7) this assms(3)] assms(4) show ?thesis by (simp add: run_inv_def)
qed

lemma unchunk_exclusive_witness:
  "\<exists>s. unchunk_phases demo_env demo_config (demo_sched 20) = Inr s
    \<and> l_new s = [''c''] \<and> l_scheduled_running s = []"
proof -
  obtain s where s: "unchunk_phases demo_env demo_config (demo_sched 20) = Inr s"
    "l_num_scheduled s = [(''c'', 6)] \<and> l_new s = [''c'']"
    by (rule demo_result[OF demo_unchunk_run])
  from unchunk_exclusive[OF s(1) demo_sched_ok demo_env_laws] s show ?thesis by auto
qed

section \<open>Preemption\<close>

lemma first_max_greatest:
  assumes "\<And>a b c. lt a b \<Longrightarrow> lt b c \<Longrightarrow> lt a c" "\<And>a b c. \<not> lt a b \<Longrightarrow> \<not> lt b a \<Longrightarrow> lt c a = lt c b"
    and "\<And>a. \<not> lt a a"
  shows "\<forall>x \<in> insert m (set xs). \<not> lt (first_max lt m xs) x"
proof (induction xs arbitrary: m)
  case (Cons y ys)
  let ?m = "if lt m y then y else m"
  let ?f = "first_max lt ?m ys"
  have f: "\<not> lt ?f ?m" "\<forall>x \<in> set ys. \<not> lt ?f x" using Cons[of ?m] by simp_all
  have "\<not> lt ?f m \<and> \<not> lt ?f y"
  proof (cases "lt m y")
    case True
    then show ?thesis using f(1) assms(1)[of "first_max lt y ys" m y] by fastforce
  next
    case False
    then show ?thesis using f(1) assms(1)[of "first_max lt m ys" y m] assms(2)[of m y "first_max lt m ys"]
      by fastforce
  qed
  then show ?case using f(2) by simp
qed (use assms(3) in simp)

lemma key_less_order:
  "key_less rq a b \<Longrightarrow> key_less rq b c \<Longrightarrow> key_less rq a c"
  "\<not> key_less rq a b \<Longrightarrow> \<not> key_less rq b a \<Longrightarrow> key_less rq c a = key_less rq c b"
  "\<not> key_less rq a a"
  by (auto simp: key_less_def)

text \<open>
  C23. Under the priority policy the preempted request is a running request that no running request
  exceeds in the order by priority and arrival: the lowest-priority, latest request goes first.
\<close>
theorem priority_preempts_last:
  assumes "preempt_one env cfg s = Inr (v, s')" "c_policy cfg = PRIORITY"
  shows "v \<in> set (s_running s) \<and> list_all (\<lambda>u. \<not> key_less (s_requests s) v u) (s_running s)"
proof -
  obtain y ys where r: "s_running s = y # ys"
    using assms by (cases "s_running s") (auto simp: preempt_one_def pick_victim_def Let_def bind_res_eq_Inr)
  have "v = first_max (key_less (s_requests s)) y ys" using assms r
    by (auto simp: preempt_one_def pick_victim_def Let_def bind_res_eq_Inr split: if_splits)
  then show ?thesis
    using first_max_in[of "key_less (s_requests s)" y ys] r
      first_max_greatest[where lt = "key_less (s_requests s)" and m = y and xs = ys, OF key_less_order]
    by (simp add: list_all_iff)
qed

definition demo_step :: "(nat, nat) step" where
  "demo_step = begin_step demo_config (demo_sched 0)"

lemma demo_priority_run:
  "case preempt_one demo_env (demo_config\<lparr>c_policy := PRIORITY\<rparr>) demo_step of
     Inl _ \<Rightarrow> False
   | Inr (v, s) \<Rightarrow> v = ''a'' \<and> s_running s = [''b'']"
  by code_simp

lemma priority_preempts_last_witness:
  "\<exists>s'. preempt_one demo_env (demo_config\<lparr>c_policy := PRIORITY\<rparr>) demo_step = Inr (''a'', s')
    \<and> list_all (\<lambda>u. \<not> key_less (s_requests demo_step) ''a'' u) (s_running demo_step)"
proof -
  obtain s' where s': "preempt_one demo_env (demo_config\<lparr>c_policy := PRIORITY\<rparr>) demo_step = Inr (''a'', s')"
    using demo_priority_run by (auto split: sum.splits)
  from priority_preempts_last[OF s'] show ?thesis using s' by simp
qed

lemma butlast_last_append: "xs \<noteq> [] \<Longrightarrow> butlast xs @ last xs # ys = xs @ ys"
  by (induction xs) auto

text \<open>
  C15. Under the first-come first-served policy the running phase preempts from the tail: the
  requests that still run are a prefix of those that ran, and the preempted ones are the rest in
  reverse order, the most recent request first.
\<close>
theorem fcfs_preempts_tail:
  assumes "running_loop md env cfg s = Inr s'" "c_policy cfg = FCFS"
  shows "s_running s' @ rev (l_preempted s') = s_running s @ rev (l_preempted s)"
proof -
  let ?I = "\<lambda>t. s_running t @ rev (l_preempted t) = s_running s @ rev (l_preempted s)"
  have pre: "?I t'" if "preempt_one env cfg t = Inr (v, t')" "?I t" for t v t'
    using that assms(2) butlast_last_append[of "s_running t" "rev (l_preempted t)"]
    by (auto simp: preempt_one_def pick_victim_def Let_def bind_res_eq_Inr split: if_splits)
  have al: "?I t'" if "alloc_loop env cfg win rid n t = Inr (ob, t')" "?I t" for win rid n ob t t'
  proof -
    have "case ob of Some _ \<Rightarrow> ?I t' | None \<Rightarrow> ?I t'"
      by (rule alloc_loop_rule[OF that(1), where I = ?I and J = ?I]) (use that(2) pre in auto)
    then show ?thesis by (cases ob) auto
  qed
  have st: "?I t'" if "running_step md env cfg t = Inr f" "?I t" "f = Continue t' \<or> f = Break t'" for t f t'
    using that(1)
  proof (cases rule: running_step_cases)
    case (skip rid inputs bud external w)
    then show ?thesis using that(2,3) by auto
  next
    case (gone rid inputs n bud external w s2)
    then show ?thesis using al[OF gone(4)] that(2,3) by auto
  next
    case (sched rid inputs n bud external w b s2)
    then show ?thesis using al[OF sched(4)] that(2,3) by (auto simp: commit_running_def)
  qed
  show ?thesis
    by (rule running_loop_rule[OF assms(1), where I = ?I and J = ?I]) (use st in blast)+
qed

lemma demo_fcfs_run:
  "case running_loop CHUNK demo_env demo_config demo_step of
     Inl _ \<Rightarrow> False
   | Inr s \<Rightarrow> l_preempted s = [''b'']"
  by code_simp

lemma fcfs_preempts_tail_witness:
  "\<exists>s. running_loop CHUNK demo_env demo_config demo_step = Inr s
    \<and> s_running s @ rev [''b''] = [''a'', ''b'']"
proof -
  obtain s where s: "running_loop CHUNK demo_env demo_config demo_step = Inr s" "l_preempted s = [''b'']"
    by (rule demo_result[OF demo_fcfs_run])
  from fcfs_preempts_tail[OF s(1)] s show ?thesis
    by (intro exI[of _ s]) (simp add: demo_config_def demo_step_def begin_step_def demo_sched_def sched.defs)
qed

text \<open>
  A preemption resets the computed tokens of the victim and marks it preempted, and it does not
  touch its output placeholders: those of an asynchronous step that is still running stay.
\<close>
theorem preemption_keeps_placeholders:
  assumes "preempt_one env cfg s = Inr (v, s')"
  shows "r_num_computed_tokens (s_requests s' v) = 0 \<and> r_status (s_requests s' v) = PREEMPTED
    \<and> r_num_preemptions (s_requests s' v) = r_num_preemptions (s_requests s v) + 1
    \<and> r_num_output_placeholders (s_requests s' v) = r_num_output_placeholders (s_requests s v)
    \<and> r_spec_token_ids (s_requests s' v) = r_spec_token_ids (s_requests s v)"
proof -
  obtain t where t: "pick_victim env cfg s = Inr (v, t)"
    using assms by (auto simp: preempt_one_def Let_def bind_res_eq_Inr)
  have "s_requests t = s_requests s" using t
    by (auto simp: pick_victim_def unschedule_def Let_def bind_res_eq_Inr
        split: sched_policy.splits list.splits if_splits)
  then show ?thesis using assms t by (auto simp: preempt_one_def Let_def)
qed

lemma preemption_keeps_placeholders_witness:
  "\<exists>s'. preempt_one demo_env (demo_config\<lparr>c_policy := PRIORITY\<rparr>) demo_step = Inr (''a'', s')
    \<and> r_num_computed_tokens (s_requests s' ''a'') = 0"
proof -
  obtain s' where s': "preempt_one demo_env (demo_config\<lparr>c_policy := PRIORITY\<rparr>) demo_step = Inr (''a'', s')"
    using demo_priority_run by (auto split: sum.splits)
  from preemption_keeps_placeholders[OF s'] show ?thesis using s' by simp
qed

section \<open>Termination\<close>

text \<open>\<open>NonTermination\<close> is no exception of the program, so no operation of it raises it.\<close>

definition no_hang :: "('w, 'b) ext \<Rightarrow> bool" where
  "no_hang env \<longleftrightarrow> (\<forall>rq q. e_peek env rq q \<noteq> Inl NonTermination \<and> e_pop env rq q \<noteq> Inl NonTermination)
     \<and> (\<forall>rid r n c b l d e f w. e_allocate_slots env rid r n c b l d e f w \<noteq> Inl NonTermination)"

lemma bind_res_eq_Inl:
  "bind_res m k = Inl e \<longleftrightarrow> m = Inl e \<or> (\<exists>x. m = Inr x \<and> k x = Inl e)"
  by (cases m) auto

lemma bind_res_no_hang:
  "m \<noteq> Inl NonTermination \<Longrightarrow> (\<And>x. k x \<noteq> Inl NonTermination) \<Longrightarrow> bind_res m k \<noteq> Inl NonTermination"
  by (cases m) auto

lemma go_eq_Inl:
  "go m k = Inl e \<longleftrightarrow> m = Inl e \<or> (\<exists>s a. m = Inr (Go s a) \<and> k s a = Inl e)"
  by (auto simp: go_def split: sum.splits ctl.splits)

lemma preempt_no_hang: "preempt_one env cfg s \<noteq> Inl NonTermination"
  unfolding preempt_one_def
  by (rule bind_res_no_hang)
    (auto simp: pick_victim_def unschedule_def dict_at_def Let_def
      split: sched_policy.splits list.splits option.splits)

lemma alloc_loop_no_hang:
  assumes "no_hang env"
  shows "alloc_loop env cfg win rid n s \<noteq> Inl NonTermination"
proof (induction "length (s_running s)" arbitrary: s rule: less_induct)
  case less
  let ?a = "e_allocate_slots env rid (req_of s rid) n 0 None (c_num_lookahead_tokens cfg) False 0 win (s_world s)"
  have a: "?a \<noteq> Inl NonTermination" using assms by (auto simp: no_hang_def)
  show ?case
  proof
    assume "alloc_loop env cfg win rid n s = Inl NonTermination"
    then obtain w where w: "?a = Inr (None, w)" "\<not> c_v1_benchmark cfg"
      "(case preempt_one env cfg (s\<lparr>s_world := w\<rparr>) of Inl e \<Rightarrow> Inl e
        | Inr (v, s') \<Rightarrow> if v = rid then Inr (None, s') else alloc_loop env cfg win rid n s') = Inl NonTermination"
      using a by (subst (asm) alloc_loop.simps) (auto split: sum.splits option.splits if_splits)
    then obtain v s' where v: "preempt_one env cfg (s\<lparr>s_world := w\<rparr>) = Inr (v, s')"
      using preempt_no_hang by (auto split: sum.splits)
    have "length (s_running s') < length (s_running s)" using preempt_one_measure(2)[OF v] by simp
    from less[OF this] w(3) v show False by (auto split: if_splits)
  qed
qed

lemma running_step_no_hang:
  assumes "no_hang env"
  shows "running_step md env cfg s \<noteq> Inl NonTermination"
  unfolding running_step_def
  using alloc_loop_no_hang[OF assms]
  by (auto simp: py_nth_def nth_res_def Let_def bind_res_eq_Inl split: prod.splits option.splits if_splits)

lemma running_loop_no_hang:
  assumes "no_hang env"
  shows "running_loop md env cfg s \<noteq> Inl NonTermination"
proof (induction "nat (int (length (s_running s)) - l_req_index s)" arbitrary: s rule: less_induct)
  case less
  show ?case
  proof
    assume h: "running_loop md env cfg s = Inl NonTermination"
    then have c: "l_req_index s < int (length (s_running s))" "0 < l_budget s"
      by (subst (asm) running_loop.simps; auto split: if_splits)+
    then obtain s' where s': "running_step md env cfg s = Inr (Continue s')"
      "running_loop md env cfg s' = Inl NonTermination"
      using h running_step_no_hang[OF assms]
      by (subst (asm) running_loop.simps) (auto split: sum.splits flow.splits)
    have "nat (int (length (s_running s')) - l_req_index s') < nat (int (length (s_running s)) - l_req_index s)"
      using running_step_measure[OF s'(1)] c by linarith
    from less[OF this] s'(2) show False by simp
  qed
qed

lemma skip_no_hang: "no_hang env \<Longrightarrow> skip_request env rid s \<noteq> Inl NonTermination"
  unfolding skip_request_def by (rule bind_res_no_hang) (auto simp: no_hang_def)

lemma waiting_step_no_hang:
  assumes "no_hang env"
  shows "waiting_step md env cfg s \<noteq> Inl NonTermination"
proof -
  note sk = skip_no_hang[OF assms]
  have pk: "e_peek env rq q \<noteq> Inl NonTermination" "e_pop env rq q \<noteq> Inl NonTermination" for rq q
    using assms by (auto simp: no_hang_def)
  have "check_remote_kv env rid t \<noteq> Inl NonTermination" "check_grammar env rid t \<noteq> Inl NonTermination"
    "check_lora env cfg rid t \<noteq> Inl NonTermination" "lookup_computed env rid t \<noteq> Inl NonTermination"
    "admit_tokens md env cfg rid c x a t \<noteq> Inl NonTermination" for rid t c x a
    using sk by (auto simp: check_remote_kv_def check_grammar_def check_lora_def lookup_computed_def
        admit_tokens_def require_def Let_def split: prod.splits option.splits)
  moreover have "allocate_waiting md env cfg rid b l x a n t \<noteq> Inl NonTermination" for rid b l x a n t
    using assms unfolding allocate_waiting_def Let_def
    by (intro bind_res_no_hang) (auto simp: no_hang_def split: option.splits prod.splits)
  moreover have "admit md env cfg rid c n t \<noteq> Inl NonTermination" for rid c n t
    by (auto simp: admit_def Let_def)
  then have "commit_waiting md env cfg a c pl t \<noteq> Inl NonTermination" for a c pl t
    using pk by (auto simp: commit_waiting_def Let_def bind_res_eq_Inl split: prod.splits if_splits)
  ultimately show ?thesis unfolding waiting_step_def
    using pk by (auto simp: bind_res_eq_Inl go_eq_Inl split: prod.splits)
qed

text \<open>
  C11. Both schedulers terminate: the running loop always ends (its measure is the number of
  requests at or behind the index), the allocation loop always ends (every preemption shortens the
  running queue), and the waiting loop ends within as many rounds as requests wait, since each round
  takes one request off the queue or stops.
\<close>
theorem schedulers_terminate:
  assumes "ext_laws env" "no_hang env" "sched_ok md cfg st"
  shows "(case md of CHUNK \<Rightarrow> chunk_phases env cfg st | UNCHUNK \<Rightarrow> unchunk_phases env cfg st)
    \<noteq> Inl NonTermination"
proof (cases md)
  case CHUNK
  have dx: "distinct (s_running st @ s_waiting st)" using assms(3) by (simp add: sched_ok_def)
  have "waiting_loop CHUNK env cfg True (length (s_waiting t)) t \<noteq> Inl NonTermination"
    if "running_loop CHUNK env cfg (begin_step cfg st) = Inr s" "record_loras cfg s = Inr t" for s t
  proof -
    have "run_inv CHUNK cfg (s_running st @ s_waiting st) s"
      using running_loop_inv[OF that(1) begin_step_inv(2) dx assms(1)] assms(3) CHUNK by simp
    then have "step_inv cfg (s_running st @ s_waiting st) t"
      using record_loras_keeps[OF that(2)] by (auto simp: run_inv_def)
    from waiting_loop_fuel[OF le_refl this dx assms(1) waiting_step_no_hang[OF assms(2)]]
    show ?thesis .
  qed
  then show ?thesis using CHUNK running_loop_no_hang[OF assms(2)]
    by (auto simp: chunk_phases_def bind_res_eq_Inl record_loras_def require_def Let_def
        split: option.splits if_splits)
next
  case UNCHUNK
  have dx: "distinct (s_running st @ s_waiting st)" using assms(3) by (simp add: sched_ok_def)
  have "waiting_loop UNCHUNK env cfg enough (length (s_waiting t)) (t\<lparr>l_req_index := i\<rparr>) \<noteq> Inl NonTermination"
    if "record_loras cfg (begin_step cfg st) = Inr t" for t i enough
  proof -
    have "step_inv cfg (s_running st @ s_waiting st) (t\<lparr>l_req_index := i\<rparr>)"
      using record_loras_keeps[OF that] begin_step_inv(1)[OF assms(3)] by auto
    from waiting_loop_fuel[OF _ this dx assms(1) waiting_step_no_hang[OF assms(2)]]
    show ?thesis by simp
  qed
  then show ?thesis using UNCHUNK running_loop_no_hang[OF assms(2)]
    by (auto simp: unchunk_phases_def bind_res_eq_Inl record_loras_def require_def Let_def
        split: option.splits if_splits)
qed

lemma demo_env_no_hang: "no_hang demo_env"
  by (auto simp: no_hang_def demo_env_def nth_res_def split: list.splits)

lemma schedulers_terminate_witness:
  "unchunk_phases demo_env demo_config (demo_sched 1) \<noteq> Inl NonTermination"
  using schedulers_terminate[OF demo_env_laws demo_env_no_hang demo_sched_ok[of UNCHUNK 1]] by simp

end
