(* ===== verification/SchedUpdate.thy ===== *)
theory SchedUpdate
  imports SchedData
begin

text \<open>
  \<^verbatim>\<open>SchedulerWithProfiler.update_from_output\<close>: how the results of the model update the
  requests, which requests stop, and what is sent to the clients; and the two asynchronous
  schedulers of \<^verbatim>\<open>async_scheduler.py\<close>, which override \<^verbatim>\<open>_update_after_schedule\<close> and
  \<^verbatim>\<open>_update_request_with_output\<close>.
\<close>

section \<open>Data\<close>

record draft_tokens =
  dt_req_ids :: "req_id list"
  dt_token_ids :: "int list list"

text \<open>The scheduler with the fields only the update reads; \<open>s_known\<close> are the keys of \<^verbatim>\<open>self.requests\<close>.\<close>

record 'w core = "'w sched" +
  s_known :: "req_id list"
  s_draft :: "draft_tokens option"
  s_finished_dict :: "(nat, req_id list) dict option"

record kv_output =
  ko_handle :: handle
  ko_stats :: "handle option"
  ko_invalid_block_ids :: "nat list"

record model_output =
  mo_sampled_token_ids :: "int list list"
  mo_req_id_to_index :: "(req_id, nat) dict"
  mo_logprobs :: "handle option"
  mo_prompt_logprobs :: "(req_id, handle option) dict"
  mo_pooler_output :: "handle option list"
  mo_num_nans :: "(req_id, int) dict option"
  mo_kv_output :: "kv_output option"

record core_output =
  co_request_id :: req_id
  co_new_token_ids :: "int list"
  co_finish_reason :: "handle option"
  co_new_logprobs :: "handle option"
  co_prompt_logprobs :: "handle option"
  co_pooling_output :: "handle option"
  co_stop_reason :: "handle option"
  co_events :: "req_event list"
  co_kv_transfer_params :: "kv_params option"
  co_trace_headers :: "handle option"
  co_num_cached_tokens :: int
  co_num_nans_in_logits :: int

record client_output =
  cl_outputs :: "core_output list"
  cl_finished_requests :: "req_id list option"
  cl_scheduler_stats :: "handle option"

text \<open>The local variables of the method.\<close>

record 'w upd = "'w core" +
  u_outputs :: "(nat, core_output list) dict"
  u_spec_stats :: "handle option"
  u_stopped_running :: "req_id list"
  u_stopped_preempted :: "req_id list"

text \<open>Operations of the parent class and of objects outside the repository.\<close>

record 'w uext =
  x_update_request :: "req_id \<Rightarrow> int list \<Rightarrow> 'w core \<Rightarrow> ((int list \<times> bool) \<times> 'w core) res"
  x_check_stop :: "request \<Rightarrow> int \<Rightarrow> handle option \<Rightarrow> request \<times> bool"
  x_free_request :: "req_id \<Rightarrow> 'w core \<Rightarrow> kv_params option \<times> 'w core"
  x_handle_invalid :: "nat list \<Rightarrow> 'w core \<Rightarrow> req_id list \<times> 'w core"
  x_spec_stats :: "handle option \<Rightarrow> nat \<Rightarrow> int \<Rightarrow> handle option"
  x_slice_logprobs :: "handle \<Rightarrow> nat \<Rightarrow> nat \<Rightarrow> handle"
  x_should_advance :: "request \<Rightarrow> bool"
  x_accept_tokens :: "req_id \<Rightarrow> int list \<Rightarrow> 'w \<Rightarrow> 'w"
  x_finish_reason :: "request \<Rightarrow> handle option"
  x_stop_reason :: "request \<Rightarrow> handle option"
  x_trace_headers :: "request \<Rightarrow> handle option"
  x_remove_all :: "req_id list \<Rightarrow> req_id list \<Rightarrow> req_id list"
  x_remove_waiting :: "heap \<Rightarrow> req_id list \<Rightarrow> req_id list \<Rightarrow> req_id list"
  x_kv_xfer_finished :: "kv_output \<Rightarrow> 'w core \<Rightarrow> 'w core"
  x_take_events :: "'w \<Rightarrow> handle list option \<times> 'w"
  x_connector_events :: "('w \<Rightarrow> handle list \<times> 'w) option"
  x_connector_stats :: "'w \<Rightarrow> handle option"
  x_aggregate :: "handle \<Rightarrow> handle \<Rightarrow> handle"
  x_publish :: "handle list \<Rightarrow> 'w \<Rightarrow> 'w"
  x_make_stats :: "handle option \<Rightarrow> handle option \<Rightarrow> 'w core \<Rightarrow> handle option"

definition upd_core :: "'w upd \<Rightarrow> ('w core \<Rightarrow> 'w core) \<Rightarrow> 'w upd" where
  "upd_core u f = core.extend (f (core.truncate u)) (upd.fields (u_outputs u) (u_spec_stats u)
     (u_stopped_running u) (u_stopped_preempted u))"

section \<open>One request\<close>

text \<open>
  The draft tokens the model rejected are taken back from the computed tokens, and from the output
  placeholders when the scheduler is asynchronous.
\<close>

definition take_back :: "int \<Rightarrow> request \<Rightarrow> request" where
  "take_back rejected r =
     r\<lparr>r_num_computed_tokens :=
         (if 0 < r_num_computed_tokens r then r_num_computed_tokens r - rejected else r_num_computed_tokens r),
       r_num_output_placeholders :=
         (if 0 < r_num_output_placeholders r then r_num_output_placeholders r - rejected
          else r_num_output_placeholders r)\<rparr>"

definition num_rejected :: "int list \<Rightarrow> int list \<Rightarrow> int" where
  "num_rejected drafts generated = int (length drafts) - (int (length generated) - 1)"

definition apply_rejections ::
  "'w uext \<Rightarrow> req_id \<Rightarrow> int list option \<Rightarrow> int list \<Rightarrow> 'w upd \<Rightarrow> 'w upd" where
  "apply_rejections x rid drafts generated u =
     (case drafts of
        None \<Rightarrow> u
      | Some [] \<Rightarrow> u
      | Some ds \<Rightarrow>
          (upd_req rid (take_back (num_rejected ds generated)) u)
            \<lparr>u_spec_stats := x_spec_stats x (u_spec_stats u) (length ds) (int (length generated) - 1)\<rparr>)"

text \<open>\<^verbatim>\<open>list.index\<close>\<close>

fun index_of :: "'a \<Rightarrow> 'a list \<Rightarrow> nat option" where
  "index_of a [] = None"
| "index_of a (x # xs) = (if x = a then Some 0 else map_option Suc (index_of a xs))"

text \<open>
  A stopped request is freed; a disaggregated prefill hands its draft tokens on. The result has the
  transfer parameters and the row \<^verbatim>\<open>req_index\<close>, which the code overwrites with the position in
  the draft tokens.
\<close>

definition finish_request ::
  "'w uext \<Rightarrow> config \<Rightarrow> req_id \<Rightarrow> req_status \<Rightarrow> nat \<Rightarrow> 'w upd \<Rightarrow> ((kv_params option \<times> nat) \<times> 'w upd) res" where
  "finish_request x cfg rid status_before row u =
     (let kv = fst (x_free_request x rid (core.truncate u));
          u1 = upd_core u (\<lambda>c. snd (x_free_request x rid c));
          r = req_of u1 rid;
          wants = (c_disagg_trans_all_blocks cfg
            \<and> (case r_kv_transfer_params r of None \<Rightarrow> False | Some p \<Rightarrow> ret_first_tok p))
      in bind_res
           (case (wants, s_draft u1) of
              (True, Some d) \<Rightarrow>
                (case index_of rid (dt_req_ids d) of
                   None \<Rightarrow> Inl ValueError
                 | Some i \<Rightarrow> bind_res (nth_res (dt_token_ids d) i) (\<lambda>ts.
                     (case kv of None \<Rightarrow> Inl TypeError
                      | Some p \<Rightarrow> Inr (Some (p\<lparr>first_spec_tok := Some ts\<rparr>), i))))
            | _ \<Rightarrow> Inr (kv, row)) (\<lambda>(kv', row').
         Inr ((kv', row'),
           if status_before = RUNNING
           then u1\<lparr>u_stopped_running := List.insert rid (u_stopped_running u1)\<rparr>
           else u1\<lparr>u_stopped_preempted := List.insert rid (u_stopped_preempted u1)\<rparr>)))"

text \<open>A Python dictionary is true when it is not empty.\<close>

definition kv_nonempty :: "kv_params option \<Rightarrow> bool" where
  "kv_nonempty kv = (case kv of None \<Rightarrow> False
     | Some p \<Rightarrow> first_tok p \<noteq> None \<or> first_spec_tok p \<noteq> None \<or> ret_first_tok p \<or> kv_other p \<noteq> [])"

definition add_output :: "nat \<Rightarrow> core_output \<Rightarrow> 'w upd \<Rightarrow> 'w upd" where
  "add_output client out u = u\<lparr>u_outputs := dict_set client
     ((case dict_get (u_outputs u) client of None \<Rightarrow> [] | Some os \<Rightarrow> os) @ [out]) (u_outputs u)\<rparr>"

text \<open>Advance the grammar of a structured output, and note the NaNs of the logits.\<close>

definition advance_grammar :: "'w uext \<Rightarrow> req_id \<Rightarrow> int list \<Rightarrow> 'w upd \<Rightarrow> 'w upd res" where
  "advance_grammar x rid new_ids u =
     (if new_ids \<noteq> [] \<and> x_should_advance x (req_of u rid)
      then require (r_grammar_ready (req_of u rid)) AssertionError
        (Inr (u\<lparr>s_world := x_accept_tokens x rid new_ids (s_world u)\<rparr>))
      else Inr u)"

definition note_nans :: "model_output \<Rightarrow> req_id \<Rightarrow> 'w upd \<Rightarrow> 'w upd" where
  "note_nans mo rid u =
     (case mo_num_nans mo of
        None \<Rightarrow> u
      | Some d \<Rightarrow> (case dict_get d rid of
            None \<Rightarrow> u
          | Some k \<Rightarrow> upd_req rid (\<lambda>r. r\<lparr>r_num_nans_in_logits := k\<rparr>) u))"

definition request_output ::
  "'w uext \<Rightarrow> req_id \<Rightarrow> request \<Rightarrow> int list \<Rightarrow> handle option \<Rightarrow> handle option \<Rightarrow> handle option
    \<Rightarrow> kv_params option \<Rightarrow> core_output" where
  "request_output x rid r new_ids logprobs prompt pooler kv =
     \<lparr>co_request_id = rid, co_new_token_ids = new_ids, co_finish_reason = x_finish_reason x r,
      co_new_logprobs = logprobs, co_prompt_logprobs = prompt, co_pooling_output = pooler,
      co_stop_reason = x_stop_reason x r, co_events = r_events r,
      co_kv_transfer_params = kv, co_trace_headers = x_trace_headers x r,
      co_num_cached_tokens = r_num_cached_tokens r,
      co_num_nans_in_logits = r_num_nans_in_logits r\<rparr>"

text \<open>
  The output of a request. Row \<open>row\<close> of the log probabilities belongs to it; without an output
  there must be no prompt log probabilities. Sending the events empties them.
\<close>

definition row_logprobs :: "'w uext \<Rightarrow> model_output \<Rightarrow> request \<Rightarrow> nat \<Rightarrow> handle option" where
  "row_logprobs x mo r row =
     (if r_sampling_params r \<noteq> None \<and> r_wants_logprobs r
      then map_option (\<lambda>l. x_slice_logprobs x l row (row + 1)) (mo_logprobs mo) else None)"

definition report ::
  "'w uext \<Rightarrow> model_output \<Rightarrow> req_id \<Rightarrow> nat \<Rightarrow> int list \<Rightarrow> handle option \<Rightarrow> kv_params option
    \<Rightarrow> 'w upd \<Rightarrow> 'w upd res" where
  "report x mo rid row new_ids pooler kv u =
     bind_res (advance_grammar x rid new_ids u) (\<lambda>u1.
     let u2 = note_nans mo rid u1;
         prompt = (case dict_get (mo_prompt_logprobs mo) rid of None \<Rightarrow> None | Some p \<Rightarrow> p);
         out = request_output x rid (req_of u2 rid) new_ids (row_logprobs x mo (req_of u rid) row) prompt pooler kv
     in if new_ids \<noteq> [] \<or> pooler \<noteq> None \<or> kv_nonempty kv
        then Inr (upd_req rid (\<lambda>r. r\<lparr>r_events := []\<rparr>)
          (add_output (r_client_index (req_of u2 rid)) out u2))
        else require (prompt = None) AssertionError (Inr u2))"

text \<open>The new tokens of the request, cut at a stop, and whether it stopped.\<close>

definition take_new_tokens ::
  "'w uext \<Rightarrow> req_id \<Rightarrow> int list \<Rightarrow> 'w upd \<Rightarrow> ((int list \<times> bool) \<times> 'w upd) res" where
  "take_new_tokens x rid generated u =
     (if generated = [] then Inr ((generated, False), u)
      else bind_res (x_update_request x rid generated (core.truncate u)) (\<lambda>(p, c).
        Inr (p, upd_core u (\<lambda>_. c))))"

definition take_pooler ::
  "'w uext \<Rightarrow> config \<Rightarrow> model_output \<Rightarrow> req_id \<Rightarrow> nat \<Rightarrow> bool \<Rightarrow> 'w upd
    \<Rightarrow> ((handle option \<times> bool) \<times> 'w upd) res" where
  "take_pooler x cfg mo rid row stopped u =
     (if mo_pooler_output mo = [] then Inr ((None, stopped), u)
      else bind_res (nth_res (mo_pooler_output mo) row) (\<lambda>po.
        let (r, st) = x_check_stop x (req_of u rid) (c_max_model_len cfg) po
        in Inr ((po, st), upd_req rid (\<lambda>_. r) u)))"

definition update_request ::
  "'w uext \<Rightarrow> config \<Rightarrow> sched_output \<Rightarrow> model_output \<Rightarrow> req_id list \<Rightarrow> req_id \<times> int \<Rightarrow> 'w upd \<Rightarrow> 'w upd res" where
  "update_request x cfg so mo failed rn u =
     (let (rid, n) = rn in
      require (0 < n) AssertionError
      (if rid \<in> set failed \<or> rid \<notin> set (s_known u) then Inr u
       else
       bind_res (dict_at (mo_req_id_to_index mo) rid) (\<lambda>row.
       bind_res (if mo_sampled_token_ids mo = [] then Inr [] else nth_res (mo_sampled_token_ids mo) row) (\<lambda>generated.
       let u1 = apply_rejections x rid (dict_get (so_spec_decode_tokens so) rid) generated u;
           status_before = r_status (req_of u1 rid)
       in bind_res (take_new_tokens x rid generated u1) (\<lambda>((new_ids, stopped), u2).
       bind_res (take_pooler x cfg mo rid row stopped u2) (\<lambda>((pooler, stopped), u3).
       bind_res (if stopped then finish_request x cfg rid status_before row u3
                 else Inr ((None, row), u3)) (\<lambda>((kv, row'), u4).
       report x mo rid row' new_ids pooler kv u4)))))))"

section \<open>The whole step\<close>

definition begin_update :: "'w core \<Rightarrow> 'w upd" where
  "begin_update c = core.extend c (upd.fields [] None [] [])"

definition remove_stopped :: "'w uext \<Rightarrow> 'w upd \<Rightarrow> 'w upd" where
  "remove_stopped x u =
     (let u1 = (if u_stopped_running u = [] then u
                else u\<lparr>s_running := x_remove_all x (s_running u) (u_stopped_running u)\<rparr>)
      in if u_stopped_preempted u1 = [] then u1
         else u1\<lparr>s_waiting := x_remove_waiting x (s_requests u1) (u_stopped_preempted u1) (s_waiting u1)\<rparr>)"

definition publish_events :: "'w uext \<Rightarrow> 'w upd \<Rightarrow> 'w upd" where
  "publish_events x u =
     (let (events, w1) = x_take_events x (s_world u);
          (events, w2) = (case x_connector_events x of
              None \<Rightarrow> (events, w1)
            | Some f \<Rightarrow> (case f w1 of
                ([], w) \<Rightarrow> (events, w)
              | (es, w) \<Rightarrow> (case events of None \<Rightarrow> (Some es, w) | Some ev \<Rightarrow> (Some (ev @ es), w))))
      in u\<lparr>s_world := (case events of None \<Rightarrow> w2 | Some [] \<Rightarrow> w2 | Some ev \<Rightarrow> x_publish x ev w2)\<rparr>)"

definition empty_client :: client_output where
  "empty_client = \<lparr>cl_outputs = [], cl_finished_requests = None, cl_scheduler_stats = None\<rparr>"

text \<open>The ids that finished since the last outputs were sent go to their clients.\<close>

definition add_finished :: "(nat, req_id list) dict \<Rightarrow> (nat, client_output) dict \<Rightarrow> (nat, client_output) dict" where
  "add_finished fin outs = fold (\<lambda>(client, ids) os.
     dict_set client ((case dict_get os client of None \<Rightarrow> empty_client | Some c \<Rightarrow> c)
       \<lparr>cl_finished_requests := Some ids\<rparr>) os) fin outs"

definition add_stats :: "handle option \<Rightarrow> (nat, client_output) dict \<Rightarrow> (nat, client_output) dict" where
  "add_stats stats outs =
     (case stats of
        None \<Rightarrow> outs
      | Some st \<Rightarrow> (case outs of
            [] \<Rightarrow> [(0, empty_client\<lparr>cl_scheduler_stats := Some st\<rparr>)]
          | (client, c) # os \<Rightarrow> (client, c\<lparr>cl_scheduler_stats := Some st\<rparr>) # os))"

definition update_from_output ::
  "'w uext \<Rightarrow> config \<Rightarrow> sched_output \<Rightarrow> model_output \<Rightarrow> 'w core \<Rightarrow> ((nat, client_output) dict \<times> 'w core) res" where
  "update_from_output x cfg so mo c =
     (let kv_stats = (case mo_kv_output mo of
            None \<Rightarrow> None
          | Some k \<Rightarrow> (case (ko_stats k, x_connector_events x) of
              (Some st, Some _) \<Rightarrow> (case x_connector_stats x (s_world c) of
                  None \<Rightarrow> Some st | Some st' \<Rightarrow> Some (x_aggregate x st st'))
            | (st, _) \<Rightarrow> st));
          (failed, c1) = (case mo_kv_output mo of
            None \<Rightarrow> ([], c)
          | Some k \<Rightarrow> if ko_invalid_block_ids k = [] then ([], c)
              else x_handle_invalid x (ko_invalid_block_ids k) c)
      in bind_res (fold_res (update_request x cfg so mo failed) (so_num_scheduled_tokens so) (begin_update c1)) (\<lambda>u1.
         let u2 = remove_stopped x u1;
             u3 = (case mo_kv_output mo of None \<Rightarrow> u2 | Some k \<Rightarrow> upd_core u2 (x_kv_xfer_finished x k));
             u4 = publish_events x u3;
             outs = map (\<lambda>(client, os). (client, empty_client\<lparr>cl_outputs := os\<rparr>)) (u_outputs u4);
             outs = (case s_finished_dict u4 of None \<Rightarrow> outs | Some fin \<Rightarrow> add_finished fin outs);
             u5 = (case s_finished_dict u4 of None \<Rightarrow> u4 | Some _ \<Rightarrow> u4\<lparr>s_finished_dict := Some []\<rparr>);
             outs = add_stats (x_make_stats x (u_spec_stats u5) kv_stats (core.truncate u5)) outs
         in Inr (outs, core.truncate u5)))"

section \<open>The asynchronous schedulers\<close>

text \<open>
  After scheduling, a request whose computed tokens have caught up gets placeholders for the token
  and the speculative tokens the running step will produce.
\<close>

definition grow_placeholders :: "nat \<Rightarrow> nat \<Rightarrow> request \<Rightarrow> request" where
  "grow_placeholders num_spec cur r =
     (if r_num_computed_tokens r = num_tokens r + r_num_output_placeholders r + int cur
      then r\<lparr>r_num_output_placeholders := r_num_output_placeholders r + (1 + int cur),
             r_spec_token_ids := replicate num_spec (-1)\<rparr>
      else r)"

definition spec_count :: "sched_output \<Rightarrow> req_id \<Rightarrow> nat" where
  "spec_count out rid = (case dict_get (so_spec_decode_tokens out) rid of None \<Rightarrow> 0 | Some ts \<Rightarrow> length ts)"

definition async_after_schedule ::
  "(sched_output \<Rightarrow> 'w sched \<Rightarrow> 'w sched) \<Rightarrow> nat \<Rightarrow> sched_output \<Rightarrow> 'w sched
    \<Rightarrow> (sched_output \<times> 'w sched) res" where
  "async_after_schedule super num_spec out st =
     (let (pending, st') = fold (\<lambda>rid (pending, st).
            (pending \<or> (r_use_structured_output (s_requests st rid)
               \<and> 0 < r_num_output_placeholders (s_requests st rid)),
             upd_req rid (grow_placeholders num_spec (spec_count out rid)) st))
          (dict_keys (so_num_scheduled_tokens out)) (False, super out st)
      in Inr (out\<lparr>so_pending_structured_output_tokens := pending\<rparr>, st'))"

definition unchunk_async_after_schedule ::
  "(sched_output \<Rightarrow> 'w sched \<Rightarrow> 'w sched) \<Rightarrow> nat \<Rightarrow> sched_output \<Rightarrow> 'w sched
    \<Rightarrow> (sched_output \<times> 'w sched) res" where
  "unchunk_async_after_schedule super num_spec out st =
     Inr (out, fold (\<lambda>rid. upd_req rid (grow_placeholders num_spec (spec_count out rid)))
       (dict_keys (so_num_scheduled_tokens out)) (super out st))"

text \<open>
  The results replace placeholders. \<open>super\<close> is the method of the parent class, \<open>cache\<close> is
  \<^verbatim>\<open>kv_cache_manager.cache_blocks\<close>.
\<close>

definition cache_running ::
  "(req_id \<Rightarrow> request \<Rightarrow> int \<Rightarrow> 'w \<Rightarrow> 'w) \<Rightarrow> req_id \<Rightarrow> req_status \<Rightarrow> 'w core \<Rightarrow> 'w core" where
  "cache_running cache rid status c =
     (let r = req_of c rid in
      if status = RUNNING
      then c\<lparr>s_world := cache rid r (r_num_computed_tokens r - r_num_output_placeholders r) (s_world c)\<rparr>
      else c)"

definition async_update_request ::
  "(req_id \<Rightarrow> int list \<Rightarrow> 'w core \<Rightarrow> ((int list \<times> bool) \<times> 'w core) res)
    \<Rightarrow> (req_id \<Rightarrow> request \<Rightarrow> int \<Rightarrow> 'w \<Rightarrow> 'w)
    \<Rightarrow> req_id \<Rightarrow> int list \<Rightarrow> 'w core \<Rightarrow> ((int list \<times> bool) \<times> 'w core) res" where
  "async_update_request super cache rid ids c =
     bind_res (super rid ids c) (\<lambda>((new_ids, stopped), c1).
     let c2 = upd_req rid (\<lambda>r. r\<lparr>r_num_output_placeholders :=
           r_num_output_placeholders r - int (length new_ids)\<rparr>) c1
     in require (0 \<le> r_num_output_placeholders (req_of c2 rid)) AssertionError
       (Inr ((new_ids, stopped), cache_running cache rid (r_status (req_of c rid)) c2)))"

definition unchunk_async_update_request ::
  "(req_id \<Rightarrow> int list \<Rightarrow> 'w core \<Rightarrow> ((int list \<times> bool) \<times> 'w core) res)
    \<Rightarrow> (req_id \<Rightarrow> request \<Rightarrow> int \<Rightarrow> 'w \<Rightarrow> 'w)
    \<Rightarrow> req_id \<Rightarrow> int list \<Rightarrow> 'w core \<Rightarrow> ((int list \<times> bool) \<times> 'w core) res" where
  "unchunk_async_update_request super cache rid ids c =
     bind_res (super rid ids c) (\<lambda>((new_ids, stopped), c1).
     let c2 = (if 0 < r_num_output_placeholders (req_of c1 rid)
           then upd_req rid (\<lambda>r. r\<lparr>r_num_output_placeholders :=
             r_num_output_placeholders r - int (length new_ids)\<rparr>) c1 else c1)
     in require (0 \<le> r_num_output_placeholders (req_of c2 rid)) AssertionError
       (Inr ((new_ids, stopped), cache_running cache rid (r_status (req_of c rid)) c2)))"

text \<open>An override that the update of this repository does not call.\<close>

definition unchunk_async_after_speculation ::
  "(req_id \<Rightarrow> int \<Rightarrow> 'w core \<Rightarrow> 'w core) \<Rightarrow> req_id \<Rightarrow> int \<Rightarrow> 'w core \<Rightarrow> 'w core" where
  "unchunk_async_after_speculation super rid rejected c =
     super rid rejected
       (if 0 < r_num_computed_tokens (req_of c rid)
        then upd_req rid (\<lambda>r. r\<lparr>r_num_output_placeholders := r_num_output_placeholders r - rejected\<rparr>) c
        else c)"

section \<open>Placeholders over one asynchronous round\<close>

lemma upd_req_core_simps [simp]:
  "s_requests (upd_req rid f s) = (s_requests s)(rid := f (s_requests s rid))"
  "s_known (upd_req rid f c) = s_known c" "s_draft (upd_req rid f c) = s_draft c"
  "s_world (upd_req rid f s) = s_world s" "s_running (upd_req rid f s) = s_running s"
  by (simp_all add: upd_req_def)

lemma cache_running_requests [simp]: "s_requests (cache_running cache rid st c) = s_requests c"
  by (simp add: cache_running_def Let_def)

lemma num_tokens_take_back [simp]: "num_tokens (take_back k r) = num_tokens r"
  by (simp add: take_back_def num_tokens_def)

text \<open>
  The method of the parent class appends the new tokens one by one; at a stop it drops the tokens after
  it. It returns the tokens it kept, at least one, and changes no counter.
\<close>

definition appends_until_stop :: "(req_id \<Rightarrow> int list \<Rightarrow> 'w core \<Rightarrow> ((int list \<times> bool) \<times> 'w core) res) \<Rightarrow> bool" where
  "appends_until_stop super \<longleftrightarrow> (\<forall>rid ids c. ids \<noteq> [] \<longrightarrow> (\<exists>n stopped c'. super rid ids c = Inr ((take n ids, stopped), c')
     \<and> 1 \<le> n \<and> n \<le> length ids \<and> (n < length ids \<longrightarrow> stopped)
     \<and> s_requests c' rid = (s_requests c rid)
         \<lparr>r_output_token_ids := r_output_token_ids (s_requests c rid) @ take n ids,
          r_status := r_status (s_requests c' rid)\<rparr>))"

text \<open>A request as the next step finds it: the step of the drafts, the rejections, the new tokens.\<close>

definition round_request :: "nat \<Rightarrow> int list \<Rightarrow> int list \<Rightarrow> request \<Rightarrow> request" where
  "round_request num_spec ds generated r =
     (let r1 = grow_placeholders num_spec (length ds) r
      in if ds = [] then r1 else take_back (num_rejected ds generated) r1)"

text \<open>
  C12. One round of asynchronous scheduling accounts for its placeholders: when a request has caught up,
  the placeholders a step adds are taken away by its rejected drafts and by the new tokens that are kept,
  for every number of accepted drafts. In both asynchronous schedulers the assertion on the placeholders
  holds and the computed tokens stay one short of the tokens and placeholders together; a request that
  does not stop keeps all new tokens and has the placeholders of before the round, so that exactly one of
  its tokens is not computed, and a request that stops is left with one placeholder for every token
  dropped after the stop.
\<close>
theorem async_round_closes:
  assumes "appends_until_stop super" "s_requests c rid = round_request num_spec ds generated r"
    and "r_num_computed_tokens r = num_tokens r + r_num_output_placeholders r + int (length ds)"
    and "0 \<le> r_num_output_placeholders r" "0 < r_num_computed_tokens r"
    and "1 \<le> length generated" "length generated \<le> length ds + 1"
  shows "list_all (\<lambda>update. case update rid generated c of
      Inl _ \<Rightarrow> False
    | Inr ((ids, stopped), c') \<Rightarrow> ids \<noteq> [] \<and> ids = take (length ids) generated \<and> (\<not> stopped \<longrightarrow> ids = generated)
        \<and> r_num_output_placeholders (s_requests c' rid)
            = r_num_output_placeholders r + int (length generated - length ids)
        \<and> num_tokens (s_requests c' rid) = num_tokens r + int (length ids)
        \<and> r_num_computed_tokens (s_requests c' rid) =
            num_tokens (s_requests c' rid) + r_num_output_placeholders (s_requests c' rid) - 1)
    [async_update_request super cache, unchunk_async_update_request super cache]"
proof -
  have "generated \<noteq> []" using assms(6) by auto
  then obtain n stopped c1 where c1: "super rid generated c = Inr ((take n generated, stopped), c1)"
    "1 \<le> n" "n \<le> length generated" "n < length generated \<longrightarrow> stopped"
    "s_requests c1 rid = (s_requests c rid)
         \<lparr>r_output_token_ids := r_output_token_ids (s_requests c rid) @ take n generated,
          r_status := r_status (s_requests c1 rid)\<rparr>"
    using assms(1) unfolding appends_until_stop_def by blast
  let ?q = "s_requests c rid"
  have ph: "r_num_output_placeholders ?q = r_num_output_placeholders r + int (length generated)"
    and cp: "r_num_computed_tokens ?q = num_tokens r + r_num_output_placeholders r + int (length generated) - 1"
    and nt: "num_tokens ?q = num_tokens r"
    using assms(2-7) by (auto simp: round_request_def grow_placeholders_def take_back_def
        num_rejected_def num_tokens_def Let_def)
  have "r_num_output_placeholders (s_requests c1 rid) = r_num_output_placeholders ?q"
    "r_num_computed_tokens (s_requests c1 rid) = r_num_computed_tokens ?q"
    "num_tokens (s_requests c1 rid) = num_tokens ?q + int n"
    using c1(3) by (subst c1(5), simp add: num_tokens_def)+
  then show ?thesis using c1 ph cp nt assms(4,6)
    by (auto simp: async_update_request_def unchunk_async_update_request_def req_of_def Let_def num_tokens_def min_def)
qed

text \<open>A parent method for the witness: the token 7 stops a request.\<close>

definition sample_super :: "req_id \<Rightarrow> int list \<Rightarrow> unit core \<Rightarrow> ((int list \<times> bool) \<times> unit core) res" where
  "sample_super rid ids c =
     (let n = length (takeWhile (\<lambda>t. t \<noteq> 7) ids); kept = take (n + 1) ids
      in Inr ((kept, n < length ids), upd_req rid (\<lambda>r. r\<lparr>r_output_token_ids := r_output_token_ids r @ kept\<rparr>) c))"

lemma sample_super_appends: "appends_until_stop sample_super"
  unfolding appends_until_stop_def
proof (intro allI impI)
  fix rid :: req_id and ids :: "int list" and c :: "unit core"
  assume ids: "ids \<noteq> []"
  let ?k = "length (takeWhile (\<lambda>t. t \<noteq> 7) ids)"
  let ?n = "min (?k + 1) (length ids)"
  have "take (?k + 1) ids = take ?n ids" by (simp add: min_def)
  moreover have "?n < length ids \<longrightarrow> ?k < length ids" "1 \<le> ?n" using ids by (auto simp: Suc_le_eq)
  ultimately show "\<exists>n stopped c'. sample_super rid ids c = Inr ((take n ids, stopped), c')
     \<and> 1 \<le> n \<and> n \<le> length ids \<and> (n < length ids \<longrightarrow> stopped)
     \<and> s_requests c' rid = (s_requests c rid)\<lparr>r_output_token_ids := r_output_token_ids (s_requests c rid) @ take n ids,
          r_status := r_status (s_requests c' rid)\<rparr>"
    by (intro exI[of _ ?n] exI[of _ "?k < length ids"]) (simp add: sample_super_def Let_def)
qed

text \<open>A request in flight: ten tokens, one placeholder, two drafts in the running step.\<close>

definition sample_request :: request where
  "sample_request =
     \<lparr>r_status = RUNNING, r_priority = 0, r_arrival_time = 0, r_num_prompt_tokens = 9,
      r_prompt_token_ids = None, r_output_token_ids = [5], r_max_tokens = 20, r_spec_token_ids = [],
      r_num_computed_tokens = 13, r_num_output_placeholders = 1, r_num_preemptions = 0,
      r_num_cached_tokens = 0, r_has_encoder_inputs = False, r_lora = None,
      r_use_structured_output = False, r_grammar_ready = False, r_kv_transfer_params = None,
      r_events = [], r_client_index = 0, r_wants_logprobs = False, r_num_nans_in_logits = 0,
      r_mm_features = 0, r_sampling_params = Some 0, r_pooling_params = None, r_prompt_embeds = None\<rparr>"

definition sample_core :: "(req_id \<Rightarrow> request) \<Rightarrow> unit core" where
  "sample_core rq =
     \<lparr>s_running = [''a''], s_waiting = [], s_requests = rq, s_world = (), s_finished_req_ids = [],
      s_prev_step_scheduled = [], s_sched_step = 0, s_sched_metrics = [], s_known = [''a''],
      s_draft = None, s_finished_dict = None\<rparr>"

lemma async_round_closes_witness:
  "case async_update_request sample_super (\<lambda>_ _ _ w. w) ''a'' [6, 7, 8]
      (sample_core (\<lambda>_. round_request 2 [1, 2] [6, 7, 8] sample_request)) of
     Inl _ \<Rightarrow> False
   | Inr ((ids, stopped), c') \<Rightarrow> ids = [6, 7] \<and> stopped \<and> r_num_output_placeholders (s_requests c' ''a'') = 2
       \<and> r_num_computed_tokens (s_requests c' ''a'') = 13"
proof -
  let ?c = "sample_core (\<lambda>_. round_request 2 [1, 2] [6, 7, 8] sample_request)"
  have run: "\<exists>c'. async_update_request sample_super (\<lambda>_ _ _ w. w) ''a'' [6, 7, 8] ?c = Inr (([6, 7], True), c')"
    by (simp add: async_update_request_def sample_super_def Let_def sample_core_def sample_request_def req_of_def
        round_request_def grow_placeholders_def take_back_def num_rejected_def num_tokens_def)
  then show ?thesis
    using async_round_closes[OF sample_super_appends, of ?c "''a''" 2 "[1, 2]" "[6, 7, 8]"
      sample_request "\<lambda>_ _ _ w. w"]
    by (auto simp: sample_core_def sample_request_def num_tokens_def)
qed

section \<open>Synchronous rounds\<close>

text \<open>
  One round of synchronous scheduling leaves a decoding request where it was: a request whose
  last token is the only one not computed is scheduled with its drafts; after the rejected drafts
  are taken back and the new tokens are appended, again exactly its last token is not computed.
\<close>
theorem sync_round_advances:
  assumes "r_num_computed_tokens r = num_tokens r - 1 + (1 + int (length ds))"
    and "r_num_output_placeholders r = 0" "0 < num_tokens r"
    and "1 \<le> length generated" "length generated \<le> length ds + 1"
  shows "let r1 = (if ds = [] then r else take_back (num_rejected ds generated) r);
             r2 = r1\<lparr>r_output_token_ids := r_output_token_ids r1 @ generated\<rparr>
         in r_num_computed_tokens r2 = num_tokens r2 - 1 \<and> r_num_output_placeholders r2 = 0"
  using assms by (auto simp: take_back_def num_rejected_def num_tokens_def Let_def)

lemma sync_round_advances_witness:
  "r_num_computed_tokens (take_back (num_rejected [1, 2] [6])
     (sample_request\<lparr>r_num_computed_tokens := 12, r_num_output_placeholders := 0\<rparr>)) = 10"
  using sync_round_advances[of "sample_request\<lparr>r_num_computed_tokens := 12, r_num_output_placeholders := 0\<rparr>"
      "[1, 2]" "[6]"]
  by (simp add: sample_request_def num_tokens_def Let_def take_back_def num_rejected_def)

section \<open>What is reported\<close>

text \<open>The ids of all outputs collected so far, over all clients.\<close>

definition reported :: "'w upd \<Rightarrow> req_id list" where
  "reported u = concat (map (map co_request_id) (dict_values (u_outputs u)))"

lemma upd_core_outputs [simp]:
  "u_outputs (upd_core u f) = u_outputs u" "u_stopped_running (upd_core u f) = u_stopped_running u"
  "u_stopped_preempted (upd_core u f) = u_stopped_preempted u" "u_spec_stats (upd_core u f) = u_spec_stats u"
  by (simp_all add: upd_core_def core.defs upd.defs)

lemma upd_req_outputs [simp]: "u_outputs (upd_req rid f (u :: 'w upd)) = u_outputs u"
  by (simp add: upd_req_def)

lemma concat_dict_set:
  assumes "distinct (dict_keys d)"
  shows "mset (concat (map f (dict_values (dict_set k v d))))
    + mset (case dict_get d k of None \<Rightarrow> [] | Some w \<Rightarrow> f w)
    = mset (concat (map f (dict_values d))) + mset (f v)"
  using assms by (induction d) (auto simp: dict_get_set split: option.splits)

definition books :: "'w upd \<Rightarrow> bool" where
  "books u \<longleftrightarrow> distinct (dict_keys (u_outputs u))"

lemma add_output_reported:
  assumes "books u"
  shows "mset (reported (add_output client out u)) = mset (reported u) + {#co_request_id out#}"
    "books (add_output client out u)"
proof -
  let ?os = "case dict_get (u_outputs u) client of None \<Rightarrow> [] | Some os \<Rightarrow> os"
  have "mset (concat (map (map co_request_id) (dict_values (dict_set client (?os @ [out]) (u_outputs u)))))
    + mset (case dict_get (u_outputs u) client of None \<Rightarrow> [] | Some w \<Rightarrow> map co_request_id w)
    = mset (concat (map (map co_request_id) (dict_values (u_outputs u)))) + mset (map co_request_id (?os @ [out]))"
    using assms by (intro concat_dict_set) (simp add: books_def)
  then show "mset (reported (add_output client out u)) = mset (reported u) + {#co_request_id out#}"
    by (cases "dict_get (u_outputs u) client") (simp_all add: reported_def add_output_def)
  show "books (add_output client out u)" using assms by (simp add: books_def add_output_def)
qed

lemma reported_same_outputs: "u_outputs t = u_outputs u \<Longrightarrow> reported t = reported u"
  by (simp add: reported_def)

lemma report_reported:
  assumes "report x mo rid row ids pooler kv u = Inr t" "books u"
  shows "mset (reported t) \<subseteq># add_mset rid (mset (reported u)) \<and> books t"
proof -
  obtain u0 where u0: "advance_grammar x rid ids u = Inr u0"
    using assms(1) by (auto simp: report_def bind_res_eq_Inr)
  define u1 where "u1 = note_nans mo rid u0"
  have "u_outputs u0 = u_outputs u" using u0 by (auto simp: advance_grammar_def require_eq_Inr split: if_splits)
  then have u1: "u_outputs u1 = u_outputs u" by (simp add: u1_def note_nans_def split: option.splits)
  have b: "books u1" using assms(2) u1 by (simp add: books_def)
  have r: "reported u1 = reported u" using u1 by (rule reported_same_outputs)
  show ?thesis
  proof (cases "ids \<noteq> [] \<or> pooler \<noteq> None \<or> kv_nonempty kv")
    case False
    then have "t = u1" using assms(1) unfolding report_def u0 bind_res_simps Let_def u1_def[symmetric]
      by (auto simp: require_eq_Inr split: if_splits)
    then show ?thesis using b r by simp
  next
    case True
    then obtain client lp pr where o: "u_outputs t = u_outputs (add_output client (request_output x rid (req_of u1 rid) ids lp pr pooler kv) u1)"
      using assms(1) unfolding report_def u0 bind_res_simps Let_def u1_def[symmetric] by auto
    have "reported t = reported (add_output client (request_output x rid (req_of u1 rid) ids lp pr pooler kv) u1)"
      using o by (rule reported_same_outputs)
    then show ?thesis using add_output_reported[OF b] o r by (simp add: books_def request_output_def)
  qed
qed

lemma finish_request_outputs:
  "finish_request x cfg rid st row u = Inr (p, t) \<Longrightarrow> u_outputs t = u_outputs u"
  by (auto simp: finish_request_def Let_def bind_res_eq_Inr split: if_splits)

lemma update_request_reported:
  assumes "update_request x cfg so mo failed (rid, n) u = Inr t" "books u"
  shows "mset (reported t) \<subseteq># add_mset rid (mset (reported u)) \<and> books t"
proof (cases "rid \<in> set failed \<or> rid \<notin> set (s_known u)")
  case True
  then show ?thesis using assms by (auto simp: update_request_def require_eq_Inr)
next
  case False
  obtain row' new_ids pooler kv u4 where r: "report x mo rid row' new_ids pooler kv u4 = Inr t"
    and o4: "u_outputs u4 = u_outputs u"
  proof -
    obtain row generated new_ids st u2 pooler st' u3 kv row' u4 where
      tk: "take_new_tokens x rid generated (apply_rejections x rid (dict_get (so_spec_decode_tokens so) rid) generated u)
          = Inr ((new_ids, st), u2)"
      and po: "take_pooler x cfg mo rid row st u2 = Inr ((pooler, st'), u3)"
      and fi: "(if st' then finish_request x cfg rid (r_status (req_of
            (apply_rejections x rid (dict_get (so_spec_decode_tokens so) rid) generated u) rid)) row u3
          else Inr ((None, row), u3)) = Inr ((kv, row'), u4)"
      and re: "report x mo rid row' new_ids pooler kv u4 = Inr t"
      using assms(1) False by (auto simp: update_request_def Let_def require_eq_Inr bind_res_eq_Inr)
    have "u_outputs u2 = u_outputs u" using tk
      by (auto simp: take_new_tokens_def apply_rejections_def bind_res_eq_Inr split: if_splits option.splits list.splits)
    moreover have "u_outputs u3 = u_outputs u2" using po
      by (auto simp: take_pooler_def bind_res_eq_Inr Let_def case_prod_unfold split: if_splits)
    moreover have "u_outputs u4 = u_outputs u3" using fi finish_request_outputs by (auto split: if_splits)
    ultimately show ?thesis using that[OF re] by simp
  qed
  have "books u4" using assms(2) o4 by (simp add: books_def)
  from report_reported[OF r this] show ?thesis using reported_same_outputs[OF o4] by simp
qed

lemma update_loop_reported:
  assumes "fold_res (update_request x cfg so mo failed) ns u = Inr t" "books u"
  shows "mset (reported t) \<subseteq># mset (dict_keys ns) + mset (reported u) \<and> books t"
  using assms
proof (induction ns arbitrary: u)
  case (Cons p ns)
  obtain rid n where p: "p = (rid, n)" by (cases p)
  obtain u1 where u1: "update_request x cfg so mo failed (rid, n) u = Inr u1"
    "fold_res (update_request x cfg so mo failed) ns u1 = Inr t"
    using Cons.prems(1) p by (auto split: sum.splits)
  have s1: "mset (reported u1) \<subseteq># add_mset rid (mset (reported u))" "books u1"
    using update_request_reported[OF u1(1) Cons.prems(2)] by auto
  have "mset (reported t) \<subseteq># mset (dict_keys ns) + mset (reported u1)" "books t"
    using Cons.IH[OF u1(2) s1(2)] by auto
  moreover have "mset (dict_keys ns) + mset (reported u1)
      \<subseteq># mset (dict_keys ns) + add_mset rid (mset (reported u))"
    using s1(1) by (rule subset_mset.add_left_mono)
  ultimately show ?case using p by (auto intro: subset_mset.order_trans)
qed simp

lemma begin_update_outputs [simp]: "u_outputs (begin_update c) = []"
  by (simp add: begin_update_def core.defs upd.defs)

lemma distinct_submultiset:
  assumes "mset xs \<subseteq># mset ys" "distinct ys"
  shows "distinct xs"
proof -
  obtain zs where "mset ys = mset xs + mset zs"
    using assms(1) ex_mset by (metis subset_mset.le_iff_add)
  then have "mset (xs @ zs) = mset ys" by simp
  then show ?thesis using assms(2) mset_eq_imp_distinct_iff by (metis distinct_append)
qed

text \<open>
  C13. A step reports every request at most once, whatever the model returned: the outputs collected
  for all clients together name only requests of the step, and none of them twice.
\<close>
theorem update_reports_once:
  assumes "fold_res (update_request x cfg so mo failed) (so_num_scheduled_tokens so) (begin_update c) = Inr u"
    and "distinct (dict_keys (so_num_scheduled_tokens so))"
  shows "distinct (reported u) \<and> set (reported u) \<subseteq> set (dict_keys (so_num_scheduled_tokens so))"
proof -
  have "reported (begin_update c) = []" "books (begin_update c)" by (simp_all add: reported_def books_def)
  then have sub: "mset (reported u) \<subseteq># mset (dict_keys (so_num_scheduled_tokens so))"
    using update_loop_reported[OF assms(1)] by simp
  then have "set (reported u) \<subseteq> set (dict_keys (so_num_scheduled_tokens so))"
    using set_mset_mono by fastforce
  moreover have "distinct (reported u)" by (rule distinct_submultiset[OF sub assms(2)])
  ultimately show ?thesis by simp
qed

text \<open>
  When a stopped request of a disaggregated prefill has draft tokens, the row that is used for
  its log probabilities is its position in the draft tokens and not its row in the model output:
  the result does not depend on the row it was given.
\<close>
theorem finish_request_overwrites_row:
  assumes "c_disagg_trans_all_blocks cfg"
    and "s_draft (snd (x_free_request x rid (core.truncate u))) = Some d"
    and "r_kv_transfer_params (s_requests (snd (x_free_request x rid (core.truncate u))) rid) = Some p"
    and "ret_first_tok p"
  shows "finish_request x cfg rid st row u = finish_request x cfg rid st row2 u"
proof -
  have "s_draft (upd_core u (\<lambda>c. snd (x_free_request x rid c))) = Some d"
    "r_kv_transfer_params (req_of (upd_core u (\<lambda>c. snd (x_free_request x rid c))) rid) = Some p"
    using assms(2,3) by (simp_all add: upd_core_def core.defs req_of_def)
  then show ?thesis using assms(1,4) by (simp add: finish_request_def Let_def)
qed

definition sample_uext :: "unit uext" where
  "sample_uext =
     \<lparr>x_update_request = sample_super,
      x_check_stop = \<lambda>r _ _. (r, True),
      x_free_request = \<lambda>rid c. (Some \<lparr>first_tok = None, first_spec_tok = None, ret_first_tok = False, kv_other = []\<rparr>, c),
      x_handle_invalid = \<lambda>_ c. ([], c),
      x_spec_stats = \<lambda>s _ _. s,
      x_slice_logprobs = \<lambda>_ a _. a,
      x_should_advance = \<lambda>_. False,
      x_accept_tokens = \<lambda>_ _ w. w,
      x_finish_reason = \<lambda>_. None, x_stop_reason = \<lambda>_. None, x_trace_headers = \<lambda>_. None,
      x_remove_all = \<lambda>q stopped. filter (\<lambda>v. v \<notin> set stopped) q,
      x_remove_waiting = \<lambda>_ stopped q. filter (\<lambda>v. v \<notin> set stopped) q,
      x_kv_xfer_finished = \<lambda>_ c. c,
      x_take_events = \<lambda>w. (None, w), x_connector_events = None, x_connector_stats = \<lambda>_. None,
      x_aggregate = (+), x_publish = \<lambda>_ w. w, x_make_stats = \<lambda>_ _ _. None\<rparr>"

definition sample_output :: sched_output where
  "sample_output =
     \<lparr>so_new_reqs = [], so_cached_reqs = 0, so_num_scheduled_tokens = [(''a'', 3), (''b'', 1)],
      so_total_num_scheduled_tokens = 4, so_spec_decode_tokens = [(''a'', [1, 2])], so_encoder_inputs = [],
      so_num_common_prefix_blocks = [], so_finished_req_ids = [], so_free_encoder_mm_hashes = [],
      so_kv_connector_metadata = None, so_ec_connector_metadata = None,
      so_pending_structured_output_tokens = False\<rparr>"

definition sample_model_output :: model_output where
  "sample_model_output =
     \<lparr>mo_sampled_token_ids = [[6, 7], [8]], mo_req_id_to_index = [(''a'', 0), (''b'', 1)],
      mo_logprobs = None, mo_prompt_logprobs = [], mo_pooler_output = [], mo_num_nans = None,
      mo_kv_output = None\<rparr>"

definition sample_config :: config where
  "sample_config =
     \<lparr>c_max_num_scheduled_tokens = 8, c_max_num_running_reqs = 4, c_max_num_encoder_input_tokens = 0,
      c_long_prefill_token_threshold = 0, c_enable_chunked_prefill = True, c_max_model_len = 64,
      c_num_lookahead_tokens = 0, c_num_speculative_tokens = Some 2, c_policy = FCFS, c_max_loras = None,
      c_is_encoder_decoder = False, c_window_size = 0, c_num_kv_cache_groups = 1, c_log_stats = False,
      c_sched_profiler = False, c_v1_benchmark = False, c_min_prefill_batch = 1,
      c_disagg_fake_decoder = False, c_disagg_trans_all_blocks = True\<rparr>"

lemma sample_update_run:
  "case fold_res (update_request sample_uext sample_config sample_output sample_model_output [])
      (so_num_scheduled_tokens sample_output) (begin_update (sample_core (\<lambda>_. sample_request))) of
     Inl _ \<Rightarrow> False
   | Inr u \<Rightarrow> reported u = [''a'']"
  by code_simp

lemma update_reports_once_witness:
  "\<exists>u. fold_res (update_request sample_uext sample_config sample_output sample_model_output [])
      (so_num_scheduled_tokens sample_output) (begin_update (sample_core (\<lambda>_. sample_request))) = Inr u
    \<and> distinct (reported u)"
proof -
  obtain u where u: "fold_res (update_request sample_uext sample_config sample_output sample_model_output [])
      (so_num_scheduled_tokens sample_output) (begin_update (sample_core (\<lambda>_. sample_request))) = Inr u"
    using sample_update_run by (auto split: sum.splits)
  have "distinct (dict_keys (so_num_scheduled_tokens sample_output))" by (simp add: sample_output_def)
  from update_reports_once[OF u this] u show ?thesis by blast
qed

text \<open>A request in row 0 of the model output whose draft tokens are in row 1.\<close>

definition sample_prefill :: "unit upd" where
  "sample_prefill = begin_update ((sample_core (\<lambda>_. sample_request
       \<lparr>r_kv_transfer_params := Some \<lparr>first_tok = None, first_spec_tok = None, ret_first_tok = True, kv_other = []\<rparr>\<rparr>))
     \<lparr>s_draft := Some \<lparr>dt_req_ids = [''z'', ''a''], dt_token_ids = [[1], [2]]\<rparr>\<rparr>)"

lemma finish_request_overwrites_row_witness:
  "finish_request sample_uext sample_config ''a'' RUNNING 0 sample_prefill
     = finish_request sample_uext sample_config ''a'' RUNNING 1 sample_prefill"
  by (rule finish_request_overwrites_row[where
        d = "\<lparr>dt_req_ids = [''z'', ''a''], dt_token_ids = [[1], [2]]\<rparr>" and
        p = "\<lparr>first_tok = None, first_spec_tok = None, ret_first_tok = True, kv_other = []\<rparr>"])
    (simp_all add: sample_config_def sample_prefill_def sample_uext_def begin_update_def sample_core_def
      core.defs upd.defs)

end
