(* ===== verification/Sampler.thy ===== *)
theory Sampler
  imports Prelude
begin

text \<open>
  Rejection sampling of draft tokens (\<^verbatim>\<open>vllm_mlu/v1/sample/rejection_sampler.py\<close>): the
  kernels, one program per request of the batch, and the function that launches them. Tensors are
  lists and a load or store outside a tensor is an error value; probabilities are exact rationals
  where the device has 32 bit floats. The random numbers are arguments.
\<close>

section \<open>Expanding per-request values to tokens\<close>

definition MAX_SPEC_LEN :: nat where "MAX_SPEC_LEN = 128"

definition MAX_BATCH_SIZE :: nat where "MAX_BATCH_SIZE = 65536"

definition PLACEHOLDER_TOKEN_ID :: int where "PLACEHOLDER_TOKEN_ID = -1"

text \<open>The tokens of request \<open>i\<close> lie between two entries of the cumulative counts.\<close>

definition token_range :: "nat list \<Rightarrow> nat \<Rightarrow> (nat \<times> nat) res" where
  "token_range cu i =
     bind_res (if i = 0 then Inr 0 else nth_res cu (i - 1)) (\<lambda>start_idx.
     bind_res (nth_res cu i) (\<lambda>end_idx. Inr (start_idx, end_idx)))"

text \<open>A store of one value to \<open>m\<close> neighbouring places.\<close>

definition store_range :: "'a list \<Rightarrow> nat \<Rightarrow> nat \<Rightarrow> 'a \<Rightarrow> 'a list res" where
  "store_range out a m v =
     (if m = 0 then Inr out
      else if a + m \<le> length out then Inr (take a out @ replicate m v @ drop (a + m) out)
      else Inl IndexError)"

definition expand_kernel :: "'a list \<Rightarrow> nat list \<Rightarrow> 'a \<Rightarrow> 'a \<Rightarrow> nat \<Rightarrow> 'a list \<Rightarrow> 'a list res" where
  "expand_kernel x cu replace_from replace_to req_idx out =
     bind_res (token_range cu req_idx) (\<lambda>(start_idx, end_idx).
     bind_res (nth_res x req_idx) (\<lambda>v.
     store_range out start_idx (min MAX_SPEC_LEN (end_idx - start_idx))
       (if v = replace_from then replace_to else v)))"

definition expand_batch_to_tokens ::
  "(nat \<Rightarrow> 'a) \<Rightarrow> 'a list \<Rightarrow> nat list \<Rightarrow> nat \<Rightarrow> 'a \<Rightarrow> 'a \<Rightarrow> 'a list res" where
  "expand_batch_to_tokens uninit x cu num_tokens replace_from replace_to =
     require (length cu = length x) AssertionError
     (require (length x \<le> MAX_BATCH_SIZE) ValueError
     (fold_res (expand_kernel x cu replace_from replace_to) [0..<length x] (map uninit [0..<num_tokens])))"

section \<open>Verifying the drafts of one request\<close>

definition prob_at :: "rat list list \<Rightarrow> nat \<Rightarrow> nat \<Rightarrow> rat res" where
  "prob_at ps i j = bind_res (nth_res ps i) (\<lambda>row. nth_res row j)"

definition store :: "'a list \<Rightarrow> nat \<Rightarrow> 'a \<Rightarrow> 'a list res" where
  "store row i v = (if i < length row then Inr (row[i := v]) else Inl IndexError)"

text \<open>
  What the random kernel does at token \<open>i\<close>: the token it stores, and whether it rejects the rest.
  Without draft probabilities (n-gram drafts) the draft probability is 1.
\<close>

definition random_pos ::
  "bool \<Rightarrow> nat list \<Rightarrow> rat list list option \<Rightarrow> rat list list \<Rightarrow> nat list \<Rightarrow> rat list \<Rightarrow> nat \<Rightarrow> (int \<times> bool) res" where
  "random_pos has_rate drafts dprobs tprobs recovered uniform i =
     bind_res (nth_res drafts i) (\<lambda>d.
     bind_res (case dprobs of None \<Rightarrow> Inr 1 | Some ps \<Rightarrow> prob_at ps i d) (\<lambda>dp.
     bind_res (prob_at tprobs i d) (\<lambda>tp.
     bind_res (nth_res uniform i) (\<lambda>u.
       if 0 < dp \<and> u \<le> tp / dp \<or> has_rate then Inr (int d, False)
       else bind_res (nth_res recovered i) (\<lambda>t. Inr (int t, True))))))"

text \<open>The greedy kernel stores the best token of the target and rejects when the draft differs.\<close>

definition greedy_pos :: "nat list \<Rightarrow> nat list \<Rightarrow> nat \<Rightarrow> (int \<times> bool) res" where
  "greedy_pos drafts target_argmax i =
     bind_res (nth_res drafts i) (\<lambda>d.
     bind_res (nth_res target_argmax i) (\<lambda>t. Inr (int t, d \<noteq> t)))"

text \<open>The loop of both kernels over the positions of a request, and the bonus token.\<close>

definition verify_step ::
  "(nat \<Rightarrow> (int \<times> bool) res) \<Rightarrow> nat \<Rightarrow> int list \<times> bool \<Rightarrow> (int list \<times> bool) res" where
  "verify_step look pos s =
     (let (row, rejected) = s in
      if rejected then Inr s
      else bind_res (look pos) (\<lambda>(t, r). bind_res (store row pos t) (\<lambda>row'. Inr (row', r))))"

definition verify_row ::
  "(nat \<Rightarrow> (int \<times> bool) res) \<Rightarrow> bool \<Rightarrow> nat \<Rightarrow> int \<Rightarrow> int list \<Rightarrow> int list res" where
  "verify_row look has_rate n bonus row =
     bind_res (fold_res (verify_step look) [0..<n] (row, False)) (\<lambda>(row', rejected).
     if \<not> rejected \<or> has_rate then store row' n bonus else Inr row')"

definition random_kernel ::
  "bool \<Rightarrow> nat list \<Rightarrow> nat list \<Rightarrow> rat list list option \<Rightarrow> rat list list \<Rightarrow> int list \<Rightarrow> nat list \<Rightarrow> rat list
    \<Rightarrow> bool list \<Rightarrow> nat \<Rightarrow> int list list \<Rightarrow> int list list res" where
  "random_kernel has_rate cu drafts dprobs tprobs bonus recovered uniform is_greedy req_idx out =
     bind_res (nth_res is_greedy req_idx) (\<lambda>g.
     if g then Inr out
     else
       bind_res (token_range cu req_idx) (\<lambda>(a, b).
       bind_res (nth_res bonus req_idx) (\<lambda>bo.
       bind_res (nth_res out req_idx) (\<lambda>row.
       bind_res (verify_row (\<lambda>pos. random_pos has_rate drafts dprobs tprobs recovered uniform (a + pos))
           has_rate (b - a) bo row) (\<lambda>row'.
       Inr (out[req_idx := row']))))))"

definition greedy_kernel ::
  "bool \<Rightarrow> nat list \<Rightarrow> nat list \<Rightarrow> nat list \<Rightarrow> int list \<Rightarrow> bool list option
    \<Rightarrow> nat \<Rightarrow> int list list \<Rightarrow> int list list res" where
  "greedy_kernel has_rate cu drafts target_argmax bonus is_greedy req_idx out =
     bind_res (case is_greedy of None \<Rightarrow> Inr True | Some g \<Rightarrow> nth_res g req_idx) (\<lambda>g.
     if \<not> g then Inr out
     else
       bind_res (token_range cu req_idx) (\<lambda>(a, b).
       bind_res (nth_res bonus req_idx) (\<lambda>bo.
       bind_res (nth_res out req_idx) (\<lambda>row.
       bind_res (verify_row (\<lambda>pos. greedy_pos drafts target_argmax (a + pos)) has_rate (b - a) bo row) (\<lambda>row'.
       Inr (out[req_idx := row']))))))"

section \<open>Recovered tokens\<close>

text \<open>
  The kernel finds the best score block by block. Lanes behind the vocabulary load probability 0 and
  \<open>q = -\<infinity>\<close>, so they score 0. A block's \<^verbatim>\<open>argmax\<close> is its first maximum.
\<close>

fun arg_first_max :: "rat list \<Rightarrow> nat" where
  "arg_first_max [] = 0"
| "arg_first_max [x] = 0"
| "arg_first_max (x # y # ys) = (let j = arg_first_max (y # ys) in if x < (y # ys) ! j then Suc j else 0)"

definition recovered_score ::
  "nat \<Rightarrow> rat list option \<Rightarrow> rat list \<Rightarrow> rat list \<Rightarrow> nat \<Rightarrow> rat" where
  "recovered_score vocab_size dprob tprob q v =
     (if v < vocab_size
      then (case dprob of None \<Rightarrow> tprob ! v | Some d \<Rightarrow> max (tprob ! v - d ! v) 0) / q ! v
      else 0)"

definition block_step ::
  "nat \<Rightarrow> rat list option \<Rightarrow> rat list \<Rightarrow> rat list \<Rightarrow> nat \<Rightarrow> nat \<Rightarrow> rat option \<times> nat \<Rightarrow> rat option \<times> nat" where
  "block_step vocab_size dprob tprob q block i s =
     (let (max_score, max_index) = s;
          scores = map (\<lambda>l. recovered_score vocab_size dprob tprob q (i * block + l)) [0..<block];
          cur = arg_first_max scores
      in if (case max_score of None \<Rightarrow> True | Some m \<Rightarrow> m < scores ! cur)
         then (Some (scores ! cur), i * block + cur) else s)"

text \<open>
  One program of the kernel: the token for one rejected position. Without draft probabilities the
  probability of the draft token counts as 0 while the kernel runs and is restored afterwards.
\<close>

definition recovered_token ::
  "nat \<Rightarrow> nat \<Rightarrow> nat \<Rightarrow> nat \<Rightarrow> rat list option \<Rightarrow> rat list \<Rightarrow> rat list \<Rightarrow> nat \<times> rat list" where
  "recovered_token vocab_size padded block draft dprob tprob q =
     (let work = (if dprob = None then tprob[draft := 0] else tprob);
          num_blocks = (padded + block - 1) div block;
          best = snd (fold (block_step vocab_size dprob work q block) [0..<num_blocks] (None, 0))
      in (best, if dprob = None then work[draft := tprob ! draft] else work))"

section \<open>Uniform probabilities\<close>

text \<open>
  The tokens of a request with a generator of its own are drawn from it; the others keep the values
  of the shared generator. \<open>gen i n\<close> are \<open>n\<close> numbers of request \<open>i\<close>'s generator.
\<close>

fun seed_uniform :: "(nat \<Rightarrow> (nat \<Rightarrow> 'a list) option) \<Rightarrow> nat \<Rightarrow> nat \<Rightarrow> nat list \<Rightarrow> 'a list \<Rightarrow> 'a list" where
  "seed_uniform gen req_idx start [] u = u"
| "seed_uniform gen req_idx start (n # ns) u =
     (if n = 0 then seed_uniform gen (Suc req_idx) start ns u
      else seed_uniform gen (Suc req_idx) (start + n) ns
        (case gen req_idx of None \<Rightarrow> u
         | Some g \<Rightarrow> take start u @ take (length (slice u start (start + n))) (g n) @ drop (start + n) u))"

definition generate_uniform_probs :: "(nat \<Rightarrow> 'a list) \<Rightarrow> (nat \<Rightarrow> (nat \<Rightarrow> 'a list) option) \<Rightarrow> nat \<Rightarrow> nat list \<Rightarrow> 'a list" where
  "generate_uniform_probs shared gen num_tokens num_draft_tokens =
     seed_uniform gen 0 0 num_draft_tokens (shared num_tokens)"

section \<open>Expanding is concatenation\<close>

lemma token_range_accumulate:
  assumes "i < length counts"
  shows "token_range (accumulate counts) i = Inr (sum_list (take i counts), sum_list (take (Suc i) counts))"
proof (cases i)
  case 0
  then show ?thesis using assms by (simp add: token_range_def nth_accumulate)
next
  case (Suc j)
  then show ?thesis using assms by (simp add: token_range_def nth_accumulate)
qed

lemma length_expand_prefix:
  "length xs = length counts \<Longrightarrow>
   length (concat (map2 (\<lambda>v n. replicate n (f v)) xs counts)) = sum_list counts"
  by (induction xs counts rule: list_induct2) auto

text \<open>
  Expanding a batch gives every token the value of its request, with the replacement applied:
  from the cumulative counts of the tokens per request the result is the concatenation of the
  values, each repeated as often as its request has tokens, and no lane writes outside the tensor.
\<close>
theorem expand_batch_to_tokens_concat:
  assumes "length x = length counts" "\<forall>n \<in> set counts. n \<le> MAX_SPEC_LEN" "length counts \<le> MAX_BATCH_SIZE"
  shows "expand_batch_to_tokens uninit x (accumulate counts) (sum_list counts) from_val to_val =
    Inr (concat (map2 (\<lambda>v n. replicate n (if v = from_val then to_val else v)) x counts))"
proof -
  let ?f = "\<lambda>v. if v = from_val then to_val else v"
  let ?pre = "\<lambda>k. concat (map2 (\<lambda>v n. replicate n (?f v)) (take k x) (take k counts))"
  let ?mem = "\<lambda>k. ?pre k @ drop (sum_list (take k counts)) (map uninit [0..<sum_list counts])"
  have len: "length (?pre k) = sum_list (take k counts)" for k
    using assms(1) by (intro length_expand_prefix) simp
  have "fold_res (expand_kernel x (accumulate counts) from_val to_val) [0..<k] (map uninit [0..<sum_list counts])
      = Inr (?mem k)" if "k \<le> length counts" for k
    using that
  proof (induction k)
    case 0
    then show ?case by simp
  next
    case (Suc k)
    have k: "k < length counts" "k < length x" using Suc.prems assms(1) by auto
    let ?a = "sum_list (take k counts)" and ?n = "counts ! k"
    have step: "sum_list (take (Suc k) counts) = ?a + ?n" using k by (simp add: sum_list_take_Suc)
    have n: "min MAX_SPEC_LEN (sum_list (take (Suc k) counts) - ?a) = ?n"
      using assms(2) k step by (simp add: min_absorb2)
    have le: "?a + ?n \<le> sum_list counts" using sum_list_take_le[of "Suc k" counts] step by simp
    have pre: "?pre (Suc k) = ?pre k @ replicate ?n (?f (x ! k))"
      using k by (simp add: take_Suc_conv_app_nth)
    have "expand_kernel x (accumulate counts) from_val to_val k (?mem k) =
        store_range (?mem k) ?a ?n (?f (x ! k))"
      using k n by (simp add: expand_kernel_def token_range_accumulate)
    also have "\<dots> = Inr (?mem (Suc k))"
    proof (cases "?n = 0")
      case True
      then show ?thesis using pre step by (simp add: store_range_def)
    next
      case False
      then show ?thesis using len[of k] le pre step
        by (simp add: store_range_def drop_append add.commute)
    qed
    finally show ?case using Suc by (simp add: fold_res_append)
  qed
  from this[of "length x"] show ?thesis using assms
    by (simp add: expand_batch_to_tokens_def)
qed

lemma expand_batch_to_tokens_concat_witness:
  "expand_batch_to_tokens (\<lambda>_. 0) [7, 8, -1 :: int] [2, 5, 6] 6 (-1) 9 = Inr [7, 7, 8, 8, 8, 9]"
proof -
  have "replicate 3 v = [v, v, v]" "replicate 2 v = [v, v]" for v :: int by (simp_all add: numeral_eq_Suc)
  moreover have "accumulate [2, 3, 1] = [2, 5, 6]" "sum_list [2, 3, 1 :: nat] = 6"
    by (simp_all add: accumulate_def)
  ultimately show ?thesis
    using expand_batch_to_tokens_concat[of "[7, 8, -1 :: int]" "[2, 3, 1]" "\<lambda>_. 0" "-1" 9]
    by (simp add: MAX_SPEC_LEN_def MAX_BATCH_SIZE_def)
qed

section \<open>What a verified row holds\<close>

text \<open>The reference: the tokens of the accepted drafts, then the token of the first rejection, or the bonus.\<close>

fun emitted :: "(int \<times> bool) list \<Rightarrow> int \<Rightarrow> int list" where
  "emitted [] bonus = [bonus]"
| "emitted ((t, rejected) # ps) bonus = (if rejected then [t] else t # emitted ps bonus)"

fun stored :: "(int \<times> bool) list \<Rightarrow> int list" where
  "stored [] = []"
| "stored ((t, rejected) # ps) = (if rejected then [t] else t # stored ps)"

definition any_rejected :: "(int \<times> bool) list \<Rightarrow> bool" where
  "any_rejected ps = list_ex snd ps"

lemma emitted_stored: "emitted ps bonus = (if any_rejected ps then stored ps else map fst ps @ [bonus])"
  by (induction ps) (auto simp: any_rejected_def)

lemma stored_length: "length (stored ps) \<le> length ps"
  by (induction ps) auto

lemma stored_all: "\<not> any_rejected ps \<Longrightarrow> stored ps = map fst ps"
  by (induction ps) (auto simp: any_rejected_def)

lemma stored_snoc: "stored (ps @ [p]) = (if any_rejected ps then stored ps else stored ps @ [fst p])"
  by (induction ps) (cases p, auto simp: any_rejected_def split: prod.splits)+

lemma verify_step_simps:
  "verify_step look pos (row, True) = Inr (row, True)"
  "verify_step look pos (row, False) =
     bind_res (look pos) (\<lambda>(t, r). bind_res (store row pos t) (\<lambda>row'. Inr (row', r)))"
  by (simp_all add: verify_step_def)

lemma verify_fold:
  assumes "\<And>i. i < length ps \<Longrightarrow> look i = Inr (ps ! i)" "length ps \<le> length row" "k \<le> length ps"
  shows "fold_res (verify_step look) [0..<k] (row, False) =
    Inr (stored (take k ps) @ drop (length (stored (take k ps))) row, any_rejected (take k ps))"
  using assms(3)
proof (induction k)
  case 0
  then show ?case by (simp add: any_rejected_def)
next
  case (Suc k)
  let ?q = "take k ps"
  have k: "k < length ps" using Suc.prems by simp
  have tk: "take (Suc k) ps = ?q @ [ps ! k]" using k by (rule take_Suc_conv_app_nth)
  have anys: "any_rejected (take (Suc k) ps) = (any_rejected ?q \<or> snd (ps ! k))"
    by (simp add: tk any_rejected_def)
  have IH: "fold_res (verify_step look) [0..<k] (row, False) =
      Inr (stored ?q @ drop (length (stored ?q)) row, any_rejected ?q)" using Suc by simp
  show ?case
  proof (cases "any_rejected ?q")
    case True
    then show ?thesis using IH anys by (simp add: fold_res_append verify_step_simps tk stored_snoc)
  next
    case False
    have len: "length (stored ?q) = k" using stored_all[OF False] k by simp
    obtain t r where p: "ps ! k = (t, r)" by (cases "ps ! k")
    have kr: "k < length row" using k assms(2) by simp
    have "(stored ?q @ drop k row)[k := t] = (stored ?q @ [t]) @ drop (Suc k) row"
      using len kr by (simp add: list_update_append Cons_nth_drop_Suc[symmetric])
    then show ?thesis using IH anys False len p kr assms(1)[OF k]
      by (simp add: fold_res_append verify_step_simps tk stored_snoc store_def)
  qed
qed

text \<open>
  Without a fixed acceptance rate a verified row is what rejection sampling should emit, and the
  rest of the row is untouched.
\<close>

lemma verify_row_emitted:
  assumes "list_all2 (\<lambda>i p. look i = Inr p) [0..<length ps] ps" "length ps < length row"
  shows "verify_row look False (length ps) bonus row =
    Inr (emitted ps bonus @ drop (length (emitted ps bonus)) row)"
proof -
  have look: "\<And>i. i < length ps \<Longrightarrow> look i = Inr (ps ! i)"
    using assms(1) by (auto simp: list_all2_conv_all_nth)
  have f: "fold_res (verify_step look) [0..<length ps] (row, False) =
      Inr (stored ps @ drop (length (stored ps)) row, any_rejected ps)"
    using verify_fold[of ps look row "length ps"] look assms(2) by simp
  show ?thesis
  proof (cases "any_rejected ps")
    case True
    then show ?thesis using f by (simp add: verify_row_def emitted_stored)
  next
    case False
    have len: "length (stored ps) = length ps" using stored_all[OF False] by simp
    have "(stored ps @ drop (length ps) row)[length ps := bonus] = (stored ps @ [bonus]) @ drop (Suc (length ps)) row"
      using len assms(2) by (simp add: list_update_append Cons_nth_drop_Suc[symmetric])
    then show ?thesis using f False len assms(2) stored_all[OF False]
      by (simp add: verify_row_def emitted_stored store_def)
  qed
qed

text \<open>
  With a fixed acceptance rate the greedy kernel still stops at the first draft that differs
  from the target, but it stores the bonus token after all drafts: every place between the rejection
  and the bonus keeps its placeholder, so the row has a hole although all drafts count as accepted.
\<close>
theorem greedy_rate_hole:
  assumes "length drafts = n" "length targets = n" "n < length row" "j < n" "drafts ! j \<noteq> targets ! j"
    and "list_all (\<lambda>i. drafts ! i = targets ! i) [0..<j]"
  shows "verify_row (greedy_pos drafts targets) True n bonus row =
    Inr ((map int (take (Suc j) targets) @ drop (Suc j) row)[n := bonus])"
proof -
  let ?ps = "map (\<lambda>i. (int (targets ! i), drafts ! i \<noteq> targets ! i)) [0..<n]"
  have look: "\<And>i. i < length ?ps \<Longrightarrow> greedy_pos drafts targets i = Inr (?ps ! i)"
    using assms(1,2) by (simp add: greedy_pos_def)
  have f: "fold_res (verify_step (greedy_pos drafts targets)) [0..<n] (row, False) =
      Inr (stored ?ps @ drop (length (stored ?ps)) row, any_rejected ?ps)"
    using verify_fold[of ?ps "greedy_pos drafts targets" row n] look assms(3) by simp
  have split: "[0..<n] = [0..<j] @ j # [Suc j..<n]"
    using assms(4) upt_add_eq_append[of 0 j "n - j"] upt_conv_Cons[of j n] by simp
  have st: "stored (xs @ (t, True) # ys) = map fst xs @ [t]" if "\<not> any_rejected xs" for xs t ys
    using that by (induction xs) (auto simp: any_rejected_def)
  have nr: "\<not> any_rejected (map (\<lambda>i. (int (targets ! i), drafts ! i \<noteq> targets ! i)) [0..<j])"
    using assms(6) by (auto simp: any_rejected_def list_ex_iff list_all_iff)
  have "map (\<lambda>i. int (targets ! i)) [0..<j] @ [int (targets ! j)] = map int (take (Suc j) targets)"
    using assms(2,4) by (intro nth_equalityI) (auto simp: nth_append less_Suc_eq)
  then have "stored ?ps = map int (take (Suc j) targets)"
    unfolding split map_append list.map using st[OF nr] assms(5) by (simp add: comp_def)
  then show ?thesis using f assms(2,3,4) by (simp add: verify_row_def store_def)
qed

lemma greedy_rate_hole_witness:
  "verify_row (greedy_pos [5, 6] [7, 6]) True 2 9 [-1, -1, -1] = Inr [7, -1, 9]"
  using greedy_rate_hole[of "[5, 6]" 2 "[7, 6]" "[-1, -1, -1]" 0 9] by simp

section \<open>The block loop finds the first maximum\<close>

definition is_first_max :: "(nat \<Rightarrow> rat) \<Rightarrow> nat \<Rightarrow> nat \<Rightarrow> bool" where
  "is_first_max f n j \<longleftrightarrow> j < n \<and> (\<forall>i < n. f i \<le> f j) \<and> (\<forall>i < j. f i < f j)"

lemma arg_first_max_correct:
  "xs \<noteq> [] \<Longrightarrow> is_first_max (\<lambda>i. xs ! i) (length xs) (arg_first_max xs)"
proof (induction xs rule: arg_first_max.induct)
  case (3 x y ys)
  let ?j = "arg_first_max (y # ys)"
  have j: "is_first_max (\<lambda>i. (y # ys) ! i) (length (y # ys)) ?j" using 3 by simp
  show ?case
  proof (cases "x < (y # ys) ! ?j")
    case True
    have "(x # y # ys) ! i \<le> (x # y # ys) ! Suc ?j" if "i < length (x # y # ys)" for i
      using that True j by (cases i) (auto simp: is_first_max_def)
    moreover have "(x # y # ys) ! i < (x # y # ys) ! Suc ?j" if "i < Suc ?j" for i
      using that True j by (cases i) (auto simp: is_first_max_def)
    ultimately show ?thesis using True j by (simp add: is_first_max_def)
  next
    case False
    have "(x # y # ys) ! i \<le> x" if "i < length (x # y # ys)" for i
      using that False j by (cases i) (auto simp: is_first_max_def intro: order_trans)
    then show ?thesis using False by (simp add: is_first_max_def)
  qed
qed (simp_all add: is_first_max_def)

lemma block_loop_first_max:
  assumes "0 < block" "0 < k"
  shows "\<exists>j. fold (block_step vocab dprob work q block) [0..<k] (None, 0)
      = (Some (recovered_score vocab dprob work q j), j)
    \<and> is_first_max (recovered_score vocab dprob work q) (k * block) j"
  using assms(2)
proof (induction k rule: nat_induct_non_zero)
  let ?f = "recovered_score vocab dprob work q"
  case 1
  let ?s = "map (\<lambda>l. ?f (0 * block + l)) [0..<block]"
  have "is_first_max (\<lambda>i. ?s ! i) (length ?s) (arg_first_max ?s)"
    using assms(1) by (intro arg_first_max_correct) simp
  then show ?case by (auto simp: block_step_def is_first_max_def Let_def)
next
  let ?f = "recovered_score vocab dprob work q"
  case (Suc k)
  obtain j where j: "fold (block_step vocab dprob work q block) [0..<k] (None, 0) = (Some (?f j), j)"
    "is_first_max ?f (k * block) j" using Suc by blast
  let ?s = "map (\<lambda>l. ?f (k * block + l)) [0..<block]"
  let ?c = "arg_first_max ?s"
  have "is_first_max (\<lambda>i. ?s ! i) (length ?s) ?c"
    using assms(1) by (intro arg_first_max_correct) simp
  then have c: "?c < block" "\<And>l. l < block \<Longrightarrow> ?f (k * block + l) \<le> ?f (k * block + ?c)"
    "\<And>l. l < ?c \<Longrightarrow> ?f (k * block + l) < ?f (k * block + ?c)"
    by (auto simp: is_first_max_def)
  have split: "i < k * block \<or> (\<exists>l < block. i = k * block + l)" if "i < Suc k * block" for i
    using that by (metis add.commute add_less_cancel_left le_add_diff_inverse mult_Suc not_le_imp_less)
  have st: "fold (block_step vocab dprob work q block) [0..<Suc k] (None, 0) =
      (if ?f j < ?f (k * block + ?c) then (Some (?f (k * block + ?c)), k * block + ?c) else (Some (?f j), j))"
  proof -
    have "fold (block_step vocab dprob work q block) [0..<Suc k] (None, 0) =
        block_step vocab dprob work q block k (Some (?f j), j)" using j(1) by simp
    then show ?thesis using c(1) by (simp add: block_step_def Let_def)
  qed
  show ?case
  proof (cases "?f j < ?f (k * block + ?c)")
    case True
    have "is_first_max ?f (Suc k * block) (k * block + ?c)"
      unfolding is_first_max_def
    proof (intro conjI allI impI)
      show "k * block + ?c < Suc k * block" using c(1) by simp
      fix i
      show "?f i \<le> ?f (k * block + ?c)" if "i < Suc k * block"
        using split[OF that] c(2) j(2) True by (auto simp: is_first_max_def intro: order_trans less_imp_le)
      show "?f i < ?f (k * block + ?c)" if "i < k * block + ?c"
      proof (cases "i < k * block")
        case True
        then show ?thesis using j(2) \<open>?f j < ?f (k * block + ?c)\<close> by (auto simp: is_first_max_def intro: le_less_trans)
      next
        case False
        then show ?thesis using c(3)[of "i - k * block"] that by simp
      qed
    qed
    then show ?thesis using True by (subst st) auto
  next
    case False
    have "is_first_max ?f (Suc k * block) j"
      unfolding is_first_max_def
    proof (intro conjI allI impI)
      show "j < Suc k * block" using j(2) by (simp add: is_first_max_def)
      fix i
      show "?f i \<le> ?f j" if "i < Suc k * block"
      proof (cases "i < k * block")
        case True
        then show ?thesis using j(2) by (simp add: is_first_max_def)
      next
        case out: False
        then obtain l where "l < block" "i = k * block + l" using split[of i] \<open>i < Suc k * block\<close> by auto
        then show ?thesis using c(2)[of l] False by simp
      qed
      show "?f i < ?f j" if "i < j" using j(2) that by (simp add: is_first_max_def)
    qed
    then show ?thesis using False by (subst st) auto
  qed
qed

text \<open>
  The block loop of the recovered token kernel equals one pass over the vocabulary: it returns
  the first index of the vocabulary with the greatest score, never one of the padding lanes, and
  the target probabilities are as before when it returns.
\<close>
theorem recovered_token_first_max:
  assumes "0 < block" "0 < vocab" "vocab \<le> padded" "length tprob = vocab" "draft < vocab"
    and "\<forall>v < vocab. 0 \<le> tprob ! v \<and> 0 < q ! v"
    and "work = (if dprob = None then tprob[draft := 0] else tprob)"
  shows "case recovered_token vocab padded block draft dprob tprob q of (best, after) \<Rightarrow>
    is_first_max (recovered_score vocab dprob work q) vocab best \<and> after = tprob"
proof -
  let ?f = "recovered_score vocab dprob work q"
  let ?k = "(padded + block - 1) div block"
  have k: "0 < ?k" "vocab \<le> ?k * block"
  proof -
    have "?k * block + (padded + block - 1) mod block = padded + block - 1" by simp
    moreover have "(padded + block - 1) mod block < block" using assms(1) by simp
    ultimately have "padded \<le> ?k * block" by linarith
    then show "vocab \<le> ?k * block" using assms(3) by simp
    then show "0 < ?k" using assms(2) by (cases ?k) auto
  qed
  obtain j where j: "fold (block_step vocab dprob work q block) [0..<?k] (None, 0) = (Some (?f j), j)"
    "is_first_max ?f (?k * block) j"
    using block_loop_first_max[OF assms(1) k(1)] by blast
  have pos: "0 \<le> ?f v" if "v < vocab" for v
    using that assms(4-7) by (auto simp: recovered_score_def nth_list_update split: option.splits
        intro!: divide_nonneg_pos)
  have "j < vocab"
  proof (rule ccontr)
    assume "\<not> j < vocab"
    then have "?f j = 0" "0 < j" using assms(2) by (auto simp: recovered_score_def)
    then have "?f 0 < 0" using j(2) by (metis is_first_max_def)
    then show False using pos[OF assms(2)] by simp
  qed
  then have "is_first_max ?f vocab j" using j(2) k(2) by (simp add: is_first_max_def)
  moreover have "(if dprob = None then work[draft := tprob ! draft] else work) = tprob"
    using assms(4,5,7) by simp
  ultimately show ?thesis using j(1) assms(7) by (simp add: recovered_token_def Let_def)
qed

lemma recovered_token_first_max_witness:
  "case recovered_token 3 4 2 0 None [1/2, 1/4, 1/4] [1, 1, 1/2] of (best, after) \<Rightarrow>
    is_first_max (recovered_score 3 None [0, 1/4, 1/4] [1, 1, 1/2]) 3 best \<and> after = [1/2, 1/4, 1/4]"
  using recovered_token_first_max[of 2 3 4 "[1/2, 1/4, 1/4]" 0 "[1, 1, 1/2]" "[0, 1/4, 1/4]" None]
  by (simp add: less_Suc_eq numeral_3_eq_3)

end
