(* ===== verification/AcceptRate.thy ===== *)
theory AcceptRate
  imports Sampler
begin

text \<open>
  The controller of \<^verbatim>\<open>VLLM_MTP_FIXED_ACCEPTANCE_RATE\<close> (function
  \<^verbatim>\<open>filter_with_acceptance_rate\<close> of \<^verbatim>\<open>rejection_sampler.py\<close>), whose static
  attributes are a record. The floats of the controller are reals.
\<close>

section \<open>A fixed acceptance rate\<close>

text \<open>
  \<^verbatim>\<open>filter_with_acceptance_rate\<close> keeps its controller in attributes of the function; they are
  the record \<open>ctrl\<close> (created with the initial values on the first call). Arithmetic is exact over
  \<^typ>\<open>real\<close>; \<open>noise\<close> and \<open>rnd\<close> are the two calls of \<^verbatim>\<open>torch.rand\<close>.
\<close>

record ctrl =
  k_cumulative_error :: real
  k_total :: nat
  k_accepted :: nat
  k_window_size :: nat
  k_history :: "nat list"
  k_precision :: real
  k_recent :: "real list"
  k_target_rate :: real

definition initial_ctrl :: "real \<Rightarrow> ctrl" where
  "initial_ctrl rate =
     \<lparr>k_cumulative_error = 0, k_total = 0, k_accepted = 0, k_window_size = 1000, k_history = [],
      k_precision = 0, k_recent = [], k_target_rate = rate\<rparr>"

definition clamp01 :: "real \<Rightarrow> real" where
  "clamp01 x = max 0 (min 1 x)"

text \<open>Count the batch, and record it as rejected until the decision.\<close>

definition count_batch :: "real \<Rightarrow> ctrl \<Rightarrow> ctrl" where
  "count_batch rate k =
     (let k1 = (if k_target_rate k \<noteq> rate
                then k\<lparr>k_precision := 0, k_recent := [], k_target_rate := rate\<rparr> else k);
          h = k_history k1 @ [0]
      in k1\<lparr>k_total := k_total k1 + 1,
            k_history := (if k_window_size k1 < length h then tl h else h)\<rparr>)"

definition global_rate :: "ctrl \<Rightarrow> real" where
  "global_rate k = (if 0 < k_total k then real (k_accepted k) / real (k_total k) else 0)"

definition combined_error :: "real \<Rightarrow> ctrl \<Rightarrow> real" where
  "combined_error rate k =
     (let window_rate = real (sum_list (k_history k)) / real (length (k_history k));
          batch_weight_factor = 1 - exp (- real (k_total k) / 30);
          window_significance = min (real (length (k_history k)) / 100) (9 / 10);
          window_weight = window_significance * batch_weight_factor;
          global_weight = 1 - window_weight
      in global_weight * (global_rate k - rate) + window_weight * (window_rate - rate))"

text \<open>The PID adjustment, once there are more than fifty batches.\<close>

definition recent_errors :: "real \<Rightarrow> ctrl \<Rightarrow> real list" where
  "recent_errors rate k =
     (let r = k_recent k @ [global_rate k - rate] in if 20 < length r then tl r else r)"

definition pid_adjustment :: "real \<Rightarrow> ctrl \<Rightarrow> real" where
  "pid_adjustment rate k =
     (let recent = recent_errors rate k;
          d_term = (if 2 \<le> length recent
            then recent ! (length recent - 1) - recent ! (length recent - 2) else 0)
      in 5 / 100 * (global_rate k - rate) + 1 / 1000 * sum_list recent + 1 / 100 * d_term)"

definition max_adjustment :: "ctrl \<Rightarrow> real" where
  "max_adjustment k = 2 / 100 + 3 / 100 * (1 - exp (- real (k_total k) / 500))"

definition adjust_precision :: "real \<Rightarrow> ctrl \<Rightarrow> ctrl" where
  "adjust_precision rate k =
     (if 50 < k_total k
      then k\<lparr>k_recent := recent_errors rate k,
             k_precision := max (- max_adjustment k) (min (max_adjustment k) (pid_adjustment rate k))\<rparr>
      else k)"

definition correction_factor :: "real \<Rightarrow> real" where
  "correction_factor err =
     (let m = \<bar>err\<bar>;
          c = (if 5 / 10000 < m
               then 1 + (2 + (1 - exp (- m * 50)) * (3 / 2)) * m * (if 0 < err then 1 else -1) else 1)
      in if c = 0 then 1 else c)"

definition corrected_rate :: "real \<Rightarrow> ctrl \<Rightarrow> real" where
  "corrected_rate rate k =
     (let r1 = clamp01 (rate * (1 / correction_factor (combined_error rate k)));
          r2 = clamp01 (r1 - k_precision k)
      in if 0 < rate \<and> rate < 5 / 100
         then (if k_total k mod nat \<lfloor>1 / rate\<rfloor> = 0 then 1 else r2)
         else if rate = 0 then 0
         else if rate = 1 then 1
         else r2)"

text \<open>The batches that are missing or too many, against the target.\<close>

definition acceptance_gap :: "real \<Rightarrow> ctrl \<Rightarrow> int" where
  "acceptance_gap rate k = \<lfloor>real (k_total k) * rate + 1 / 2\<rfloor> - int (k_accepted k)"

definition gap_rate :: "real \<Rightarrow> ctrl \<Rightarrow> real" where
  "gap_rate rate k =
     (let r = corrected_rate rate k;
          gap = acceptance_gap rate k;
          gap_relative = real_of_int \<bar>gap\<bar> / max 1 (real (k_total k));
          gap_threshold = max 1 \<lfloor>real (k_total k) * (5 / 1000)\<rfloor>;
          gap_importance = 1 - exp (- gap_relative * 50);
          strength_factor = exp (- real (k_total k) / 1000);
          factor = gap_importance * (2 / 10 + 8 / 10 * strength_factor)
      in if gap_threshold \<le> \<bar>gap\<bar>
         then (if 0 < gap then min 1 (r + (1 - r) * factor) else max 0 (r * (1 - factor)))
         else r)"

definition perturbed_rate :: "real \<Rightarrow> real \<Rightarrow> ctrl \<Rightarrow> real" where
  "perturbed_rate noise rate k =
     (let r = gap_rate rate k
      in if 1 / 100 < r \<and> r < 99 / 100 \<and> 100 < k_total k
         then clamp01 (r + (noise * 2 - 1) * (1 / 100 * exp (- real (k_total k) / 500))) else r)"

definition reject_row :: "int list \<Rightarrow> int list" where
  "reject_row row = take 1 row @ replicate (length row - 1) PLACEHOLDER_TOKEN_ID"

definition record_decision :: "real \<Rightarrow> bool \<Rightarrow> ctrl \<Rightarrow> ctrl" where
  "record_decision rate accept k =
     (let k1 = (if accept then k\<lparr>k_accepted := k_accepted k + 1, k_history := butlast (k_history k) @ [1]\<rparr> else k);
          alpha = 5 / 100 * exp (- real (k_total k1) / 200) + 1 / 100
      in k1\<lparr>k_cumulative_error := alpha * (real (k_accepted k1) / real (k_total k1) - rate)
              + (1 - alpha) * k_cumulative_error k1\<rparr>)"

definition filter_with_acceptance_rate ::
  "real \<Rightarrow> real \<Rightarrow> real option \<Rightarrow> ctrl option \<Rightarrow> int list list \<Rightarrow> (int list list \<times> ctrl option) res" where
  "filter_with_acceptance_rate noise rnd fixed st out =
     (case fixed of
        None \<Rightarrow> Inr (out, st)
      | Some rate \<Rightarrow>
          require (0 \<le> rate \<and> rate \<le> 1) AssertionError
          (let k0 = (case st of None \<Rightarrow> initial_ctrl rate | Some k \<Rightarrow> k);
               k = adjust_precision rate (count_batch rate k0);
               accept = (rnd < perturbed_rate noise rate k)
           in Inr (if accept then out else map reject_row out, Some (record_decision rate accept k))))"

text \<open>What the controller keeps: counts that fit together and bounded histories.\<close>

definition ctrl_ok :: "ctrl \<Rightarrow> bool" where
  "ctrl_ok k \<longleftrightarrow> k_accepted k \<le> k_total k \<and> length (k_history k) \<le> k_window_size k \<and> 1 \<le> k_window_size k
     \<and> length (k_recent k) \<le> 20 \<and> \<bar>k_precision k\<bar> \<le> 5 / 100"

lemma clamp01_bounds: "0 \<le> clamp01 x \<and> clamp01 x \<le> 1"
  by (simp add: clamp01_def)

lemma corrected_rate_bounds: "0 \<le> corrected_rate rate k \<and> corrected_rate rate k \<le> 1"
  using clamp01_bounds by (simp add: corrected_rate_def Let_def)

lemma gap_factor_bounds:
  assumes "0 \<le> x" "0 \<le> t"
  shows "0 \<le> (1 - exp (- x * 50)) * (2 / 10 + 8 / 10 * exp (- t / 1000 :: real))"
    "(1 - exp (- x * 50)) * (2 / 10 + 8 / 10 * exp (- t / 1000 :: real)) \<le> 1"
proof -
  have a: "0 \<le> 1 - exp (- x * 50)" "1 - exp (- x * 50) \<le> 1" using assms(1) by auto
  have b: "0 \<le> 2 / 10 + 8 / 10 * exp (- t / 1000)" "2 / 10 + 8 / 10 * exp (- t / 1000) \<le> 1"
  proof -
    have "0 < exp (- t / 1000)" "exp (- t / 1000) \<le> exp 0"
      using assms(2) by (simp_all only: exp_gt_zero exp_le_cancel_iff)
    then show "0 \<le> 2 / 10 + 8 / 10 * exp (- t / 1000)" "2 / 10 + 8 / 10 * exp (- t / 1000) \<le> 1"
      unfolding exp_zero by linarith+
  qed
  show "0 \<le> (1 - exp (- x * 50)) * (2 / 10 + 8 / 10 * exp (- t / 1000))"
    using a b by (simp del: exp_le_one_iff)
  show "(1 - exp (- x * 50)) * (2 / 10 + 8 / 10 * exp (- t / 1000)) \<le> 1"
    by (rule mult_le_one[OF a(2) b])
qed

lemma gap_rate_bounds: "0 \<le> gap_rate rate k \<and> gap_rate rate k \<le> 1"
proof -
  let ?r = "corrected_rate rate k"
  let ?x = "real_of_int \<bar>acceptance_gap rate k\<bar> / max 1 (real (k_total k))"
  let ?f = "(1 - exp (- ?x * 50)) * (2 / 10 + 8 / 10 * exp (- real (k_total k) / 1000))"
  have f: "0 \<le> ?f" "?f \<le> 1" by (rule gap_factor_bounds; simp)+
  have r: "0 \<le> ?r" "?r \<le> 1" using corrected_rate_bounds by auto
  have "0 \<le> ?r + (1 - ?r) * ?f" using f(1) r by (intro add_nonneg_nonneg mult_nonneg_nonneg) auto
  moreover have "?r * (1 - ?f) \<le> 1" using f r by (intro mult_le_one) auto
  moreover have "0 \<le> ?r * (1 - ?f)" using f r by simp
  ultimately show ?thesis using r unfolding gap_rate_def Let_def by auto
qed

lemma perturbed_rate_bounds: "0 \<le> perturbed_rate noise rate k \<and> perturbed_rate noise rate k \<le> 1"
  using gap_rate_bounds clamp01_bounds by (simp add: perturbed_rate_def Let_def)

lemma max_adjustment_bound: "0 \<le> max_adjustment k" "max_adjustment k \<le> 5 / 100"
proof -
  define e where "e = exp (- real (k_total k) / 500)"
  have "0 < e" "e \<le> 1" by (simp_all add: e_def)
  then show "0 \<le> max_adjustment k" "max_adjustment k \<le> 5 / 100"
    unfolding max_adjustment_def e_def[symmetric] by (simp_all add: field_simps)
qed

lemma adjust_precision_fields [simp]:
  "k_total (adjust_precision rate k) = k_total k" "k_accepted (adjust_precision rate k) = k_accepted k"
  "k_history (adjust_precision rate k) = k_history k" "k_window_size (adjust_precision rate k) = k_window_size k"
  by (simp_all add: adjust_precision_def Let_def)

lemma count_batch_fields:
  "k_total (count_batch rate k) = k_total k + 1" "k_accepted (count_batch rate k) = k_accepted k"
  "k_window_size (count_batch rate k) = k_window_size k" "k_history (count_batch rate k) \<noteq> [] \<or> k_window_size k = 0"
  by (auto simp: count_batch_def Let_def tl_append split: list.splits)

lemma adjust_precision_bound:
  "\<bar>k_precision k\<bar> \<le> 5 / 100 \<Longrightarrow> \<bar>k_precision (adjust_precision rate k)\<bar> \<le> 5 / 100"
  using max_adjustment_bound[of k] by (auto simp: adjust_precision_def abs_le_iff)

lemma adjust_precision_recent:
  "length (k_recent k) \<le> 20 \<Longrightarrow> length (k_recent (adjust_precision rate k)) \<le> 20"
  by (simp add: adjust_precision_def recent_errors_def Let_def)

lemma adjust_precision_ok: "ctrl_ok k \<Longrightarrow> ctrl_ok (adjust_precision rate k)"
  using adjust_precision_bound adjust_precision_recent by (simp add: ctrl_ok_def)

lemma count_batch_ok: "ctrl_ok k \<Longrightarrow> ctrl_ok (count_batch rate k) \<and> k_accepted k < k_total (count_batch rate k)"
  by (auto simp: ctrl_ok_def count_batch_def Let_def)

text \<open>
  The controller of the fixed acceptance rate is safe: from a controller in order, one call
  keeps it in order (no more accepted batches than batches, bounded histories, a bounded precision
  adjustment), counts the batch once, accepts with a probability between 0 and 1, and either leaves
  the tokens alone or keeps exactly the first token of every row.
\<close>
theorem filter_keeps_controller:
  assumes "filter_with_acceptance_rate noise rnd (Some rate) (Some k) out = Inr (out', st')" "ctrl_ok k"
  shows "\<exists>k'. st' = Some k' \<and> ctrl_ok k' \<and> k_total k' = k_total k + 1
    \<and> (if k_accepted k' = k_accepted k then out' = map reject_row out
       else k_accepted k' = k_accepted k + 1 \<and> out' = out)
    \<and> (0 \<le> perturbed_rate noise rate (adjust_precision rate (count_batch rate k))
       \<and> perturbed_rate noise rate (adjust_precision rate (count_batch rate k)) \<le> 1)"
proof -
  let ?k = "adjust_precision rate (count_batch rate k)"
  let ?a = "rnd < perturbed_rate noise rate ?k"
  have k: "ctrl_ok ?k" "k_accepted ?k < k_total ?k" "k_total ?k = k_total k + 1" "k_accepted ?k = k_accepted k"
    "k_history ?k \<noteq> []"
    using count_batch_ok[OF assms(2), of rate] adjust_precision_ok count_batch_fields[of rate k] assms(2)
    by (auto simp: ctrl_ok_def)
  have "ctrl_ok (record_decision rate ?a ?k)" "k_total (record_decision rate ?a ?k) = k_total k + 1"
    "k_accepted (record_decision rate ?a ?k) = (if ?a then k_accepted k + 1 else k_accepted k)"
    using k by (auto simp: record_decision_def Let_def ctrl_ok_def)
  moreover have "st' = Some (record_decision rate ?a ?k)" "out' = (if ?a then out else map reject_row out)"
    using assms(1) by (auto simp: filter_with_acceptance_rate_def require_eq_Inr Let_def)
  ultimately show ?thesis using perturbed_rate_bounds by auto
qed

lemma initial_ctrl_ok: "ctrl_ok (initial_ctrl rate)"
  by (simp add: ctrl_ok_def initial_ctrl_def)

lemma filter_keeps_controller_witness:
  "\<exists>out' k'. filter_with_acceptance_rate 0 (1 / 2) (Some 1) (Some (initial_ctrl 1)) [[5, 6]] = Inr (out', Some k')
    \<and> k_total k' = 1"
proof -
  obtain out' st' where r: "filter_with_acceptance_rate 0 (1 / 2) (Some 1) (Some (initial_ctrl 1)) [[5, 6]] = Inr (out', st')"
    by (simp add: filter_with_acceptance_rate_def Let_def)
  from filter_keeps_controller[OF r initial_ctrl_ok] r show ?thesis by (auto simp: initial_ctrl_def)
qed

text \<open>
  The extreme rates are exact: with rate 0 every batch is rejected and with rate 1 every batch
  is accepted, whatever the history, the noise and the random number in \<open>[0, 1)\<close>.
\<close>
theorem filter_extreme_rates:
  assumes "ctrl_ok k" "0 \<le> rnd" "rnd < 1"
  shows "\<exists>k0 k1. filter_with_acceptance_rate noise rnd (Some 0) (Some k) out = Inr (map reject_row out, Some k0)
    \<and> filter_with_acceptance_rate noise rnd (Some 1) (Some k) out = Inr (out, Some k1)"
proof -
  let ?k0 = "adjust_precision 0 (count_batch 0 k)" and ?k1 = "adjust_precision 1 (count_batch 1 k)"
  have "acceptance_gap 0 ?k0 \<le> 0" by (simp add: acceptance_gap_def)
  then have "gap_rate 0 ?k0 = 0" by (simp add: gap_rate_def corrected_rate_def Let_def)
  then have p0: "perturbed_rate noise 0 ?k0 = 0" by (simp add: perturbed_rate_def)
  have "0 < acceptance_gap 1 ?k1"
  proof -
    have "\<lfloor>real (k_total ?k1) * 1 + 1 / 2\<rfloor> = int (k_total ?k1)"
      by (simp add: floor_eq_iff)
    then show ?thesis using count_batch_ok[OF assms(1), of 1] count_batch_fields[of 1 k]
      by (simp add: acceptance_gap_def)
  qed
  then have "gap_rate 1 ?k1 = 1" by (simp add: gap_rate_def corrected_rate_def Let_def)
  then have p1: "perturbed_rate noise 1 ?k1 = 1" by (simp add: perturbed_rate_def)
  show ?thesis using p0 p1 assms(2,3) by (simp add: filter_with_acceptance_rate_def Let_def)
qed

lemma filter_extreme_rates_witness:
  "\<exists>k1. filter_with_acceptance_rate 0 (1 / 2) (Some 1) (Some (initial_ctrl 1)) [[5, 6]] = Inr ([[5, 6]], Some k1)"
  using filter_extreme_rates[of "initial_ctrl 1" "1 / 2" 0 "[[5, 6]]"] initial_ctrl_ok by auto

text \<open>
  The correction overshoots: when the acceptance is below the target by at least a half, the
  correction factor is negative, and the corrected rate, which should be raised, is clamped to 0.
\<close>
theorem correction_overshoots:
  assumes "err \<le> - (1 / 2)" "0 \<le> rate"
  shows "correction_factor err < 0 \<and> clamp01 (rate * (1 / correction_factor err)) = 0"
proof -
  let ?m = "\<bar>err\<bar>"
  have m: "1 / 2 \<le> ?m" "\<not> 0 < err" using assms(1) by auto
  have e: "exp (- ?m * 50) < 1" using m(1) by simp
  have "2 * (1 / 2) < (2 + (1 - exp (- ?m * 50)) * (3 / 2)) * ?m"
  proof -
    have "2 < 2 + (1 - exp (- ?m * 50)) * (3 / 2)" using e by simp
    then have "2 * ?m < (2 + (1 - exp (- ?m * 50)) * (3 / 2)) * ?m"
      using m(1) by (intro mult_strict_right_mono) auto
    then show ?thesis using m(1) by linarith
  qed
  then have "1 + (2 + (1 - exp (- ?m * 50)) * (3 / 2)) * ?m * (if 0 < err then 1 else -1) < 0"
    using m(2) by simp
  then have c: "correction_factor err < 0" using m(1) by (auto simp: correction_factor_def Let_def)
  then have "rate * (1 / correction_factor err) \<le> 0"
    using assms(2) by (simp add: mult_nonneg_nonpos divide_nonpos_neg zero_le_divide_iff divide_le_0_iff)
  then show ?thesis using c by (simp add: clamp01_def)
qed

lemma correction_overshoots_witness:
  "clamp01 (8 / 10 * (1 / correction_factor (- (8 / 10)))) = 0"
  using correction_overshoots[of "- (8 / 10)" "8 / 10"] by simp

end
