(* ===== verification/RejectionSample.thy ===== *)
theory RejectionSample
  imports AcceptRate
begin

text \<open>
  \<^verbatim>\<open>rejection_sample\<close> of \<^verbatim>\<open>rejection_sampler.py\<close>: which kernels run on a
  batch, in which order, and what the rows of the output hold afterwards. The fused kernel of the
  device library and the wrapper that launches the kernel for the recovered tokens are arguments, as
  are the random numbers.
\<close>

section \<open>The launch\<close>

text \<open>The tensors of a call; a tensor that is absent when \<open>all_greedy\<close> holds is not looked at.\<close>

record sample_inputs =
  si_draft_token_ids :: "nat list"
  si_num_draft_tokens :: "nat list"
  si_max_spec_len :: nat
  si_cu_num_draft_tokens :: "nat list"
  si_draft_probs :: "rat list list option"
  si_target_probs :: "rat list list"
  si_bonus_token_ids :: "int list"
  si_all_greedy :: bool
  si_all_random :: bool
  si_is_greedy :: "bool list"

definition use_fusion_kernel :: "sample_inputs \<Rightarrow> bool" where
  "use_fusion_kernel s \<longleftrightarrow> si_all_random s \<and> si_max_spec_len s = 1 \<and> 0 \<notin> set (si_num_draft_tokens s)"

text \<open>Fresh exponential numbers, and a row from a request's own generator for every entry of the dict.\<close>

definition generate_recovered_uniform_probs ::
  "(nat \<Rightarrow> nat \<Rightarrow> 'a list list) \<Rightarrow> (nat \<times> (nat \<Rightarrow> 'a list)) list \<Rightarrow> nat \<Rightarrow> nat \<Rightarrow> nat list \<Rightarrow> 'a list list res" where
  "generate_recovered_uniform_probs shared generators num_tokens vocab_size num_draft_tokens =
     fold_res (\<lambda>(i, gen) q. bind_res (nth_res num_draft_tokens i) (\<lambda>n.
         if 0 < n then store q i (gen vocab_size) else Inr q))
       generators (shared num_tokens vocab_size)"

definition fill_tail :: "int \<Rightarrow> int list \<Rightarrow> int list" where
  "fill_tail v row = take 1 row @ replicate (length row - 1) v"

definition launch_greedy :: "bool \<Rightarrow> sample_inputs \<Rightarrow> int list list \<Rightarrow> int list list res" where
  "launch_greedy has_rate s out =
     fold_res (greedy_kernel has_rate (si_cu_num_draft_tokens s) (si_draft_token_ids s)
         (map arg_first_max (si_target_probs s)) (si_bonus_token_ids s)
         (if si_all_greedy s then None else Some (si_is_greedy s)))
       [0..<length (si_num_draft_tokens s)] out"

definition launch_random ::
  "bool \<Rightarrow> sample_inputs \<Rightarrow> nat list \<Rightarrow> rat list \<Rightarrow> int list list \<Rightarrow> int list list res" where
  "launch_random has_rate s recovered uniform out =
     fold_res (random_kernel has_rate (si_cu_num_draft_tokens s) (si_draft_token_ids s)
         (si_draft_probs s) (si_target_probs s) (si_bonus_token_ids s) recovered uniform (si_is_greedy s))
       [0..<length (si_num_draft_tokens s)] out"

definition rejection_sample ::
  "(sample_inputs \<Rightarrow> rat list \<Rightarrow> rat list list \<Rightarrow> int list list) \<Rightarrow> (sample_inputs \<Rightarrow> nat list)
    \<Rightarrow> rat list \<Rightarrow> rat list list res \<Rightarrow> real \<Rightarrow> real \<Rightarrow> real option \<Rightarrow> ctrl option
    \<Rightarrow> sample_inputs \<Rightarrow> (int list list \<times> ctrl option) res" where
  "rejection_sample fused_kernel sample_recovered uniform recovered_uniform noise rnd fixed st s =
     require (length (si_target_probs s) = length (si_draft_token_ids s)) AssertionError
     (if use_fusion_kernel s then
        bind_res recovered_uniform (\<lambda>q.
        let out = fused_kernel s uniform q
        in if fixed = None then Inr (out, st)
           else filter_with_acceptance_rate noise rnd fixed st (map (fill_tail 0) out))
      else
        let has_rate = (fixed \<noteq> None);
            out = replicate (length (si_num_draft_tokens s))
              (replicate (si_max_spec_len s + 1) PLACEHOLDER_TOKEN_ID)
        in bind_res (if si_all_random s then Inr out else launch_greedy has_rate s out) (\<lambda>out1.
           if \<not> si_all_random s \<and> si_all_greedy s then filter_with_acceptance_rate noise rnd fixed st out1
           else bind_res (launch_random has_rate s (sample_recovered s) uniform out1) (\<lambda>out2.
                filter_with_acceptance_rate noise rnd fixed st out2)))"

section \<open>The reference: what every request emits\<close>

text \<open>The place of a draft in the flat tensors, and what a request does with it.\<close>

definition first_draft :: "sample_inputs \<Rightarrow> nat \<Rightarrow> nat" where
  "first_draft s i = sum_list (take i (si_num_draft_tokens s))"

definition draft_prob :: "sample_inputs \<Rightarrow> nat \<Rightarrow> rat" where
  "draft_prob s t = (case si_draft_probs s of None \<Rightarrow> 1 | Some ps \<Rightarrow> ps ! t ! (si_draft_token_ids s ! t))"

definition pick :: "sample_inputs \<Rightarrow> nat list \<Rightarrow> rat list \<Rightarrow> bool \<Rightarrow> nat \<Rightarrow> int \<times> bool" where
  "pick s recovered uniform greedy t =
     (let d = si_draft_token_ids s ! t; p = si_target_probs s ! t
      in if greedy then (int (arg_first_max p), d \<noteq> arg_first_max p)
         else if 0 < draft_prob s t \<and> uniform ! t \<le> p ! d / draft_prob s t then (int d, False)
         else (int (recovered ! t), True))"

definition row_of :: "sample_inputs \<Rightarrow> nat list \<Rightarrow> rat list \<Rightarrow> nat \<Rightarrow> int list" where
  "row_of s recovered uniform i =
     (let e = emitted (map (\<lambda>pos. pick s recovered uniform (si_is_greedy s ! i) (first_draft s i + pos))
                [0..<si_num_draft_tokens s ! i]) (si_bonus_token_ids s ! i)
      in e @ replicate (si_max_spec_len s + 1 - length e) PLACEHOLDER_TOKEN_ID)"

text \<open>Tensors that fit together, and flags that agree with the temperatures.\<close>

definition inputs_ok :: "sample_inputs \<Rightarrow> nat list \<Rightarrow> rat list \<Rightarrow> bool" where
  "inputs_ok s recovered uniform \<longleftrightarrow>
     (let n = sum_list (si_num_draft_tokens s); b = length (si_num_draft_tokens s); v = length (hd (si_target_probs s))
      in length (si_draft_token_ids s) = n \<and> length (si_target_probs s) = n
       \<and> si_cu_num_draft_tokens s = accumulate (si_num_draft_tokens s)
       \<and> list_all (\<lambda>k. k \<le> si_max_spec_len s) (si_num_draft_tokens s)
       \<and> list_all (\<lambda>row. length row = v) (si_target_probs s)
       \<and> list_all (\<lambda>d. d < v) (si_draft_token_ids s)
       \<and> (case si_draft_probs s of None \<Rightarrow> True
          | Some ps \<Rightarrow> length ps = n \<and> list_all (\<lambda>row. length row = v) ps)
       \<and> length (si_bonus_token_ids s) = b \<and> length (si_is_greedy s) = b
       \<and> (if si_all_greedy s then list_all id (si_is_greedy s) else True)
       \<and> (if si_all_random s then list_all Not (si_is_greedy s) \<and> \<not> si_all_greedy s else True)
       \<and> length recovered = n \<and> length uniform = n)"

section \<open>The rows of a batch\<close>

lemma fold_rows:
  assumes "length out = b"
    and "\<And>i out'. i < b \<Longrightarrow> length out' = b \<Longrightarrow> out' ! i = out ! i \<Longrightarrow> K i out' = Inr (out'[i := h i])"
  shows "fold_res K [0..<b] out = Inr (map h [0..<b])"
proof -
  have "fold_res K [0..<k] out = Inr (map h [0..<k] @ drop k out)" if "k \<le> b" for k
    using that
  proof (induction k)
    case 0
    then show ?case by simp
  next
    case (Suc k)
    let ?o = "map h [0..<k] @ drop k out"
    have k: "k < b" using Suc.prems by simp
    have "K k ?o = Inr (?o[k := h k])" using assms k by (intro assms(2)) (simp_all add: nth_append)
    moreover have "?o[k := h k] = map h [0..<Suc k] @ drop (Suc k) out"
      using assms(1) k by (simp add: list_update_append Cons_nth_drop_Suc[symmetric])
    ultimately show ?case using Suc by (simp add: fold_res_append)
  qed
  from this[of b] show ?thesis using assms(1) by simp
qed

lemma placeholder_row:
  assumes "\<And>pos. pos < n \<Longrightarrow> look pos = Inr (f pos)" "n \<le> m"
  shows "verify_row look False n bonus (replicate (m + 1) v) =
    Inr (emitted (map f [0..<n]) bonus @ replicate (m + 1 - length (emitted (map f [0..<n]) bonus)) v)"
  using verify_row_emitted[of look "map f [0..<n]" "replicate (m + 1) v" bonus] assms
  by (simp add: list_all2_conv_all_nth drop_replicate del: replicate.simps)

lemma draft_in_batch:
  assumes "i < length (si_num_draft_tokens s)" "pos < si_num_draft_tokens s ! i"
  shows "first_draft s i + pos < sum_list (si_num_draft_tokens s)"
  using assms sum_list_take_le[of "Suc i" "si_num_draft_tokens s"]
  by (simp add: first_draft_def sum_list_take_Suc)

lemma batch_range:
  assumes "inputs_ok s recovered uniform" "i < length (si_num_draft_tokens s)"
  shows "token_range (si_cu_num_draft_tokens s) i =
    Inr (first_draft s i, first_draft s i + si_num_draft_tokens s ! i)"
  using assms by (simp add: inputs_ok_def Let_def token_range_accumulate first_draft_def sum_list_take_Suc)

lemma greedy_look:
  assumes "inputs_ok s recovered uniform" "t < sum_list (si_num_draft_tokens s)"
  shows "greedy_pos (si_draft_token_ids s) (map arg_first_max (si_target_probs s)) t =
    Inr (pick s recovered uniform True t)"
  using assms by (simp add: inputs_ok_def Let_def greedy_pos_def pick_def)

lemma random_look:
  assumes "inputs_ok s recovered uniform" "t < sum_list (si_num_draft_tokens s)"
  shows "random_pos False (si_draft_token_ids s) (si_draft_probs s) (si_target_probs s) recovered uniform t =
    Inr (pick s recovered uniform False t)"
proof -
  have len: "t < length (si_draft_token_ids s)" "t < length (si_target_probs s)" "t < length recovered"
      "t < length uniform" using assms by (auto simp: inputs_ok_def Let_def)
  have d: "si_draft_token_ids s ! t < length (si_target_probs s ! t)"
    using assms len by (simp add: inputs_ok_def Let_def list_all_length)
  have p: "(case si_draft_probs s of None \<Rightarrow> Inr 1 | Some ps \<Rightarrow> prob_at ps t (si_draft_token_ids s ! t))
      = Inr (draft_prob s t)"
    using assms len d
    by (auto simp: inputs_ok_def Let_def list_all_length draft_prob_def prob_at_def split: option.splits)
  show ?thesis using len d p by (auto simp: random_pos_def prob_at_def pick_def Let_def)
qed

lemma greedy_row:
  assumes "inputs_ok s recovered uniform" "i < length (si_num_draft_tokens s)" "si_is_greedy s ! i"
    and "length out = length (si_num_draft_tokens s)"
    and "out ! i = replicate (si_max_spec_len s + 1) PLACEHOLDER_TOKEN_ID"
  shows "greedy_kernel False (si_cu_num_draft_tokens s) (si_draft_token_ids s)
      (map arg_first_max (si_target_probs s)) (si_bonus_token_ids s)
      (if si_all_greedy s then None else Some (si_is_greedy s)) i out = Inr (out[i := row_of s recovered uniform i])"
proof -
  have b: "i < length (si_bonus_token_ids s)" "i < length (si_is_greedy s)"
      "si_num_draft_tokens s ! i \<le> si_max_spec_len s"
    using assms(1,2) by (auto simp: inputs_ok_def Let_def list_all_length)
  have "verify_row (\<lambda>pos. greedy_pos (si_draft_token_ids s) (map arg_first_max (si_target_probs s)) (first_draft s i + pos))
      False (si_num_draft_tokens s ! i) (si_bonus_token_ids s ! i) (out ! i) = Inr (row_of s recovered uniform i)"
    unfolding assms(5) row_of_def Let_def
    by (subst placeholder_row[where f = "\<lambda>pos. pick s recovered uniform True (first_draft s i + pos)"])
      (use b assms(3) greedy_look[OF assms(1)] draft_in_batch[OF assms(2)] in auto)
  then show ?thesis using assms b by (simp add: greedy_kernel_def batch_range)
qed

lemma random_row:
  assumes "inputs_ok s recovered uniform" "i < length (si_num_draft_tokens s)" "\<not> si_is_greedy s ! i"
    and "length out = length (si_num_draft_tokens s)"
    and "out ! i = replicate (si_max_spec_len s + 1) PLACEHOLDER_TOKEN_ID"
  shows "random_kernel False (si_cu_num_draft_tokens s) (si_draft_token_ids s)
      (si_draft_probs s) (si_target_probs s) (si_bonus_token_ids s) recovered uniform (si_is_greedy s) i out =
    Inr (out[i := row_of s recovered uniform i])"
proof -
  have b: "i < length (si_bonus_token_ids s)" "i < length (si_is_greedy s)"
      "si_num_draft_tokens s ! i \<le> si_max_spec_len s"
    using assms(1,2) by (auto simp: inputs_ok_def Let_def list_all_length)
  have "verify_row (\<lambda>pos. random_pos False (si_draft_token_ids s) (si_draft_probs s) (si_target_probs s)
        recovered uniform (first_draft s i + pos))
      False (si_num_draft_tokens s ! i) (si_bonus_token_ids s ! i) (out ! i) = Inr (row_of s recovered uniform i)"
    unfolding assms(5) row_of_def Let_def
    by (subst placeholder_row[where f = "\<lambda>pos. pick s recovered uniform False (first_draft s i + pos)"])
      (use b assms(3) random_look[OF assms(1)] draft_in_batch[OF assms(2)] in auto)
  then show ?thesis using assms b by (simp add: random_kernel_def batch_range)
qed

lemma launch_greedy_rows:
  assumes "inputs_ok s recovered uniform"
  shows "launch_greedy False s (replicate (length (si_num_draft_tokens s)) (replicate (si_max_spec_len s + 1) PLACEHOLDER_TOKEN_ID))
    = Inr (map (\<lambda>i. if si_is_greedy s ! i then row_of s recovered uniform i
                     else replicate (si_max_spec_len s + 1) PLACEHOLDER_TOKEN_ID) [0..<length (si_num_draft_tokens s)])"
  unfolding launch_greedy_def
proof (rule fold_rows)
  fix i out
  let ?p = "replicate (si_max_spec_len s + 1) PLACEHOLDER_TOKEN_ID"
  assume i: "i < length (si_num_draft_tokens s)" "length out = length (si_num_draft_tokens s)"
    and o: "out ! i = replicate (length (si_num_draft_tokens s)) ?p ! i"
  have g: "i < length (si_is_greedy s)" "si_all_greedy s \<Longrightarrow> si_is_greedy s ! i"
    using assms i by (auto simp: inputs_ok_def Let_def list_all_length split: if_splits)
  have p: "out ! i = ?p" using o i(1) by simp
  show "greedy_kernel False (si_cu_num_draft_tokens s) (si_draft_token_ids s)
      (map arg_first_max (si_target_probs s)) (si_bonus_token_ids s)
      (if si_all_greedy s then None else Some (si_is_greedy s)) i out =
    Inr (out[i := if si_is_greedy s ! i then row_of s recovered uniform i else ?p])"
  proof (cases "si_is_greedy s ! i")
    case True
    then show ?thesis using greedy_row[OF assms i(1) True i(2) p] by simp
  next
    case False
    then have "out[i := ?p] = out" by (metis list_update_id p)
    then show ?thesis using False g by (auto simp: greedy_kernel_def)
  qed
qed simp

lemma launch_random_rows:
  assumes "inputs_ok s recovered uniform" "length out = length (si_num_draft_tokens s)"
    and "\<And>i. i < length out \<Longrightarrow> out ! i =
      (if si_is_greedy s ! i then row_of s recovered uniform i else replicate (si_max_spec_len s + 1) PLACEHOLDER_TOKEN_ID)"
  shows "launch_random False s recovered uniform out =
    Inr (map (row_of s recovered uniform) [0..<length (si_num_draft_tokens s)])"
  unfolding launch_random_def
proof (rule fold_rows[OF assms(2)])
  fix i out'
  assume i: "i < length (si_num_draft_tokens s)" "length out' = length (si_num_draft_tokens s)" "out' ! i = out ! i"
  have g: "i < length (si_is_greedy s)" using assms(1) i(1) by (simp add: inputs_ok_def Let_def)
  show "random_kernel False (si_cu_num_draft_tokens s) (si_draft_token_ids s)
      (si_draft_probs s) (si_target_probs s) (si_bonus_token_ids s) recovered uniform (si_is_greedy s) i out' =
    Inr (out'[i := row_of s recovered uniform i])"
  proof (cases "si_is_greedy s ! i")
    case True
    then have "out'[i := row_of s recovered uniform i] = out'"
      using assms(2,3) i by (metis list_update_id)
    then show ?thesis using True g by (simp add: random_kernel_def)
  next
    case False
    then show ?thesis using random_row[OF assms(1) i(1) False i(2)] i assms(2,3) by simp
  qed
qed

text \<open>
  C26. Rejection sampling without a fixed acceptance rate and outside the fused kernel emits exactly
  what it should: on tensors that fit together no kernel reads or writes outside its tensor, every
  request gets the tokens of its accepted drafts, then the replacement of its first rejected draft,
  or its bonus token when all drafts were accepted, and placeholders up to the width of the output,
  whether the batch is greedy, random or mixed.
\<close>
theorem rejection_sample_rows:
  assumes "inputs_ok s (sample_recovered s) uniform" "\<not> use_fusion_kernel s"
  shows "rejection_sample fused sample_recovered uniform q noise rnd None st s =
    Inr (map (row_of s (sample_recovered s) uniform) [0..<length (si_num_draft_tokens s)], st)"
proof -
  let ?b = "length (si_num_draft_tokens s)"
  let ?p = "replicate (si_max_spec_len s + 1) PLACEHOLDER_TOKEN_ID"
  let ?row = "row_of s (sample_recovered s) uniform"
  let ?g = "map (\<lambda>i. if si_is_greedy s ! i then ?row i else ?p) [0..<?b]"
  have len: "length (si_target_probs s) = length (si_draft_token_ids s)" "length (si_is_greedy s) = ?b"
    using assms(1) by (simp_all add: inputs_ok_def Let_def)
  have greedy: "si_is_greedy s ! i" if "si_all_greedy s" "i < ?b" for i
    using assms(1) that by (auto simp: inputs_ok_def Let_def list_all_length)
  have random: "\<not> si_is_greedy s ! i" if "si_all_random s" "i < ?b" for i
    using assms(1) that by (auto simp: inputs_ok_def Let_def list_all_length)
  have both: "launch_random False s (sample_recovered s) uniform out = Inr (map ?row [0..<?b])"
    if "if si_all_random s then out = replicate ?b ?p else out = ?g" for out
    by (rule launch_random_rows[OF assms(1)]) (use that random in \<open>auto split: if_splits\<close>)
  have all: "?g = map ?row [0..<?b]" if "si_all_greedy s" using greedy[OF that] by simp
  have none: "filter_with_acceptance_rate noise rnd None st out = Inr (out, st)" for out
    by (simp add: filter_with_acceptance_rate_def)
  note launch = rejection_sample_def require_def Let_def none assms(2) len(1) launch_greedy_rows[OF assms(1)]
  show ?thesis
  proof (cases "si_all_random s")
    case True
    then show ?thesis using both[of "replicate ?b ?p"] by (simp add: launch del: replicate.simps)
  next
    case False
    then show ?thesis using both[of ?g] all
      by (cases "si_all_greedy s") (simp_all only: launch bind_res_simps if_True if_False simp_thms option.simps)
  qed
qed

definition demo_inputs :: sample_inputs where
  "demo_inputs =
     \<lparr>si_draft_token_ids = [1, 0, 1], si_num_draft_tokens = [2, 1], si_max_spec_len = 2,
      si_cu_num_draft_tokens = [2, 3], si_draft_probs = None,
      si_target_probs = [[1 / 4, 3 / 4], [1 / 2, 1 / 2], [1, 0]], si_bonus_token_ids = [7, 8],
      si_all_greedy = False, si_all_random = False, si_is_greedy = [True, False]\<rparr>"

lemma rejection_sample_rows_witness:
  "rejection_sample (\<lambda>_ _ _. []) (\<lambda>_. [1, 1, 0]) [0, 0, 1 / 2] (Inr []) 0 0 None None demo_inputs =
    Inr ([[1, 0, 7], [0, -1, -1]], None)"
proof -
  have "inputs_ok demo_inputs [1, 1, 0] [0, 0, 1 / 2]" "\<not> use_fusion_kernel demo_inputs"
    by (simp_all add: inputs_ok_def demo_inputs_def use_fusion_kernel_def accumulate_def)
  moreover have "map (row_of demo_inputs [1, 1, 0] [0, 0, 1 / 2]) [0..<2] = [[1, 0, 7], [0, -1, -1]]"
    by (simp add: row_of_def demo_inputs_def pick_def first_draft_def draft_prob_def PLACEHOLDER_TOKEN_ID_def
        numeral_eq_Suc)
  moreover have "length (si_num_draft_tokens demo_inputs) = 2" by (simp add: demo_inputs_def)
  ultimately show ?thesis
    using rejection_sample_rows[of demo_inputs "\<lambda>_. [1, 1, 0]" "[0, 0, 1 / 2]" "\<lambda>_ _ _. []" "Inr []" 0 0 None]
    by (simp only: simp_thms)
qed

text \<open>
  With a fixed acceptance rate the fused branch loses every draft: whatever the fused kernel
  returns, an accepted batch holds token 0 in all speculative columns and the bonus column, and a
  rejected batch placeholders. No draft and no bonus token survives.
\<close>
theorem fused_fixed_rate_drops_drafts:
  assumes "rejection_sample fused sample_recovered uniform (Inr q) noise rnd (Some rate) st s = Inr (out, st')"
    and "use_fusion_kernel s"
  shows "out = map (fill_tail 0) (fused s uniform q) \<or> out = map (fill_tail PLACEHOLDER_TOKEN_ID) (fused s uniform q)"
proof -
  have "reject_row (fill_tail 0 row) = fill_tail PLACEHOLDER_TOKEN_ID row" for row
    by (cases row) (simp_all add: reject_row_def fill_tail_def)
  then show ?thesis using assms
    by (auto simp: rejection_sample_def filter_with_acceptance_rate_def require_eq_Inr Let_def split: if_splits)
qed

definition demo_fused :: sample_inputs where
  "demo_fused = demo_inputs\<lparr>si_draft_token_ids := [1], si_num_draft_tokens := [1], si_max_spec_len := 1,
     si_target_probs := [[1 / 4, 3 / 4]], si_all_random := True\<rparr>"

lemma fused_fixed_rate_drops_drafts_witness:
  "\<exists>out st'. rejection_sample (\<lambda>_ _ _. [[1, 7]]) (\<lambda>_. []) [0] (Inr [[1]]) 0 0 (Some 1) None demo_fused = Inr (out, st')
    \<and> out \<in> {[[1, 0]], [[1, -1]]}"
proof -
  have u: "use_fusion_kernel demo_fused" by (simp add: use_fusion_kernel_def demo_fused_def)
  obtain out st' where r: "rejection_sample (\<lambda>_ _ _. [[1, 7]]) (\<lambda>_. []) [0] (Inr [[1]]) 0 0 (Some 1) None demo_fused
      = Inr (out, st')"
    using u by (simp add: rejection_sample_def demo_fused_def filter_with_acceptance_rate_def Let_def)
  from fused_fixed_rate_drops_drafts[OF r u] r show ?thesis
    by (auto simp: fill_tail_def PLACEHOLDER_TOKEN_ID_def)
qed

end
