(* ===== verification/Reorder.thy ===== *)
theory Reorder
  imports Prelude
begin

text \<open>
  Reordering the batch into decode, extend and prefill requests
  (\<^verbatim>\<open>reorder_batch_to_split_decodes_and_prefills\<close> of
  \<^verbatim>\<open>vllm_mlu/v1/attention/backends/utils.py\<close>). The input batch and its
  \<^verbatim>\<open>swap_states\<close> belong to vLLM: the batch is a type of its own with a view of
  its rows, and what \<^verbatim>\<open>swap_states\<close> does to the rows is a hypothesis.
\<close>

section \<open>The code\<close>

record batch_row =
  br_req_id :: nat
  br_num_computed_tokens :: int
  br_num_prompt_tokens :: int

definition is_decode :: "int \<Rightarrow> int \<Rightarrow> batch_row \<Rightarrow> bool" where
  "is_decode decode_threshold scheduled r \<longleftrightarrow>
     scheduled \<le> decode_threshold \<and> br_num_prompt_tokens r \<le> br_num_computed_tokens r"

definition is_extend :: "int \<Rightarrow> int \<Rightarrow> batch_row \<Rightarrow> bool" where
  "is_extend decode_threshold scheduled r \<longleftrightarrow>
     \<not> is_decode decode_threshold scheduled r \<and> 0 < br_num_computed_tokens r"

definition is_prefill :: "int \<Rightarrow> int \<Rightarrow> batch_row \<Rightarrow> bool" where
  "is_prefill decode_threshold scheduled r \<longleftrightarrow>
     \<not> is_decode decode_threshold scheduled r \<and> br_num_computed_tokens r = 0"

definition req_region :: "int \<Rightarrow> int \<Rightarrow> batch_row \<Rightarrow> nat" where
  "req_region decode_threshold scheduled r =
     (if is_prefill decode_threshold scheduled r then 2
      else if is_extend decode_threshold scheduled r then 1 else 0)"

definition target_region :: "nat \<Rightarrow> nat \<Rightarrow> nat \<Rightarrow> nat" where
  "target_region num_decodes num_extends i =
     (if i < num_decodes then 0 else if i < num_decodes + num_extends then 1 else 2)"

text \<open>The indices that move, and the map from where a row is to where it goes.\<close>

definition needs_swap :: "nat list \<Rightarrow> (nat \<Rightarrow> nat) \<Rightarrow> nat list" where
  "needs_swap regions target = filter (\<lambda>i. regions ! i \<noteq> target i) [0..<length regions]"

definition src_dest_map :: "nat list \<Rightarrow> (nat \<Rightarrow> nat) \<Rightarrow> (nat, nat) dict" where
  "src_dest_map regions target =
     (let orig_indices = needs_swap regions target
      in zip (sort_key (\<lambda>i. regions ! i) orig_indices) orig_indices)"

text \<open>
  The inner loop follows a cycle of the map. The fuel is the size of the map, which suffices
  for a map that is a permutation.
\<close>

fun follow_cycle ::
  "nat \<Rightarrow> (nat \<Rightarrow> nat \<Rightarrow> 'b \<Rightarrow> 'b) \<Rightarrow> nat \<Rightarrow> nat \<Rightarrow> (nat, nat) dict \<times> 'b \<Rightarrow> ((nat, nat) dict \<times> 'b) res" where
  "follow_cycle fuel swap src dst (m, b) =
     (if src = dst then Inr (m, b)
      else (case fuel of
          0 \<Rightarrow> Inl NonTermination
        | Suc f \<Rightarrow>
            follow_cycle f swap src (case dict_get m dst of None \<Rightarrow> dst | Some d \<Rightarrow> d)
              (dict_set dst dst m, swap src dst b)))"

declare follow_cycle.simps [simp del]

definition visit_src ::
  "nat \<Rightarrow> (nat \<Rightarrow> nat \<Rightarrow> 'b \<Rightarrow> 'b) \<Rightarrow> nat \<Rightarrow> (nat, nat) dict \<times> 'b \<Rightarrow> ((nat, nat) dict \<times> 'b) res" where
  "visit_src fuel swap src s =
     bind_res (dict_at (fst s) src) (\<lambda>dst. follow_cycle fuel swap src dst s)"

definition apply_moves ::
  "(nat \<Rightarrow> nat \<Rightarrow> 'b \<Rightarrow> 'b) \<Rightarrow> (nat, nat) dict \<Rightarrow> 'b \<Rightarrow> ((nat, nat) dict \<times> 'b) res" where
  "apply_moves swap m b = fold_res (visit_src (length m) swap) (dict_keys m) (m, b)"

definition reorder_batch ::
  "(nat \<Rightarrow> nat \<Rightarrow> 'b \<Rightarrow> 'b) \<Rightarrow> ('b \<Rightarrow> batch_row list) \<Rightarrow> (nat, int) dict \<Rightarrow> int \<Rightarrow> 'b \<Rightarrow> (bool \<times> 'b) res" where
  "reorder_batch swap rows num_scheduled_tokens decode_threshold b =
     bind_res (map_res (\<lambda>r. dict_at num_scheduled_tokens (br_req_id r)) (rows b)) (\<lambda>scheduled.
     let regions = map2 (req_region decode_threshold) scheduled (rows b);
         num_decodes = length (filter (\<lambda>(n, r). is_decode decode_threshold n r) (zip scheduled (rows b)));
         num_extends = length (filter (\<lambda>(n, r). is_extend decode_threshold n r) (zip scheduled (rows b)));
         m = src_dest_map regions (target_region num_decodes num_extends)
     in if needs_swap regions (target_region num_decodes num_extends) = [] then Inr (False, b)
        else bind_res (apply_moves swap m b) (\<lambda>(m', b'). Inr (True, b')))"

section \<open>Following the cycles of a permutation\<close>

text \<open>
  What remains to be done is a permutation: the row at \<open>i\<close> has to go to \<open>todo V m i\<close>,
  where \<open>V\<close> holds the sources already visited, whose entries in the map are stale.
\<close>

definition todo :: "nat set \<Rightarrow> (nat, nat) dict \<Rightarrow> nat \<Rightarrow> nat" where
  "todo V m i = (if i \<in> V then i else case dict_get m i of None \<Rightarrow> i | Some d \<Rightarrow> d)"

definition moves_to :: "(nat \<Rightarrow> nat) \<Rightarrow> 'r list \<Rightarrow> 'r list \<Rightarrow> bool" where
  "moves_to f xs goal \<longleftrightarrow> length goal = length xs \<and> bij_betw f {..<length xs} {..<length xs}
     \<and> (\<forall>i < length xs. goal ! f i = xs ! i)"

definition swap_nth :: "nat \<Rightarrow> nat \<Rightarrow> 'r list \<Rightarrow> 'r list" where
  "swap_nth i j xs = xs[i := xs ! j, j := xs ! i]"

lemma length_swap_nth [simp]: "length (swap_nth i j xs) = length xs"
  by (simp add: swap_nth_def)

lemma nth_swap_nth:
  "i < length xs \<Longrightarrow> j < length xs \<Longrightarrow> k < length xs \<Longrightarrow>
   swap_nth i j xs ! k = xs ! (if k = i then j else if k = j then i else k)"
  by (auto simp: swap_nth_def nth_list_update)

lemma moves_to_swap:
  assumes "moves_to f xs goal" "i < length xs" "j < length xs"
    and "g = (\<lambda>k. f (if k = i then j else if k = j then i else k))"
  shows "moves_to g (swap_nth i j xs) goal"
proof -
  let ?t = "\<lambda>k. if k = i then j else if k = j then i else k"
  have "bij_betw ?t {..<length xs} {..<length xs}"
    using assms(2,3) by (intro bij_betw_byWitness[where f' = ?t]) auto
  then have "bij_betw (f \<circ> ?t) {..<length xs} {..<length xs}"
    using assms(1) by (intro bij_betw_trans) (auto simp: moves_to_def)
  then have b: "bij_betw g {..<length xs} {..<length xs}" by (simp add: assms(4) comp_def)
  have "goal ! g k = swap_nth i j xs ! k" if "k < length xs" for k
  proof -
    have "?t k < length xs" using assms(2,3) that by simp
    then have "goal ! f (?t k) = xs ! ?t k" using assms(1) unfolding moves_to_def by blast
    then show ?thesis using nth_swap_nth[OF assms(2,3) that] assms(4) by simp
  qed
  then show ?thesis using b assms(1) by (simp add: moves_to_def)
qed

lemma moves_to_id: "moves_to (\<lambda>i. i) xs goal \<Longrightarrow> xs = goal"
  by (auto simp: moves_to_def intro: nth_equalityI)

text \<open>The number of rows that are not in place, which every swap lowers.\<close>

definition misplaced :: "(nat \<Rightarrow> nat) \<Rightarrow> nat \<Rightarrow> nat" where
  "misplaced f n = card {i. i < n \<and> f i \<noteq> i}"

lemma misplaced_swap:
  assumes "bij_betw f {..<n} {..<n}" "src < n" "f src \<noteq> src"
  shows "misplaced (f(f src := f src, src := f (f src))) n < misplaced f n"
proof -
  let ?d = "f src"
  have d: "?d < n" using assms(1,2) by (auto simp: bij_betw_def)
  have "f ?d \<noteq> ?d" using assms d by (auto simp: bij_betw_def inj_on_def)
  then have "{i. i < n \<and> (f(?d := ?d, src := f ?d)) i \<noteq> i} \<subset> {i. i < n \<and> f i \<noteq> i}"
    using assms d by (auto split: if_splits)
  then show ?thesis unfolding misplaced_def by (intro psubset_card_mono) auto
qed

text \<open>What the code relies on: \<^verbatim>\<open>swap_states\<close> swaps two rows of the batch.\<close>

definition swaps_rows :: "(nat \<Rightarrow> nat \<Rightarrow> 'b \<Rightarrow> 'b) \<Rightarrow> ('b \<Rightarrow> batch_row list) \<Rightarrow> bool" where
  "swaps_rows swap rows \<longleftrightarrow>
     (\<forall>b i j. i < length (rows b) \<longrightarrow> j < length (rows b) \<longrightarrow> rows (swap i j b) = swap_nth i j (rows b))"

lemma dict_set_present: "k \<in> set (dict_keys d) \<Longrightarrow> dict_keys (dict_set k v d) = dict_keys d"
  by (induction d) auto

lemma dict_get_in_keys: "dict_get d k \<noteq> None \<Longrightarrow> k \<in> set (dict_keys d)"
  by (metis map_of_eq_None_iff set_map)

lemma follow_cycle_places:
  assumes "swaps_rows swap rows" "moves_to ((todo V m)(src := dst)) (rows b) goal" "src \<notin> V"
    and "src < length (rows b)" "misplaced ((todo V m)(src := dst)) (length (rows b)) \<le> fuel"
  shows "\<exists>m' b'. follow_cycle fuel swap src dst (m, b) = Inr (m', b') \<and> dict_keys m' = dict_keys m
    \<and> moves_to (todo (insert src V) m') (rows b') goal"
  using assms(2-)
proof (induction fuel arbitrary: m dst b)
  case 0
  have "dst = src"
  proof (rule ccontr)
    assume "dst \<noteq> src"
    then have "src \<in> {i. i < length (rows b) \<and> ((todo V m)(src := dst)) i \<noteq> i}" using 0 by simp
    then show False using 0 by (auto simp: misplaced_def card_gt_0_iff)
  qed
  moreover have "(todo V m)(src := src) = todo (insert src V) m" by (auto simp: todo_def fun_eq_iff)
  ultimately show ?case using 0 by (simp add: follow_cycle.simps)
next
  case (Suc fuel)
  let ?f = "(todo V m)(src := dst)" and ?n = "length (rows b)"
  show ?case
  proof (cases "src = dst")
    case True
    moreover have "(todo V m)(src := src) = todo (insert src V) m" by (auto simp: todo_def fun_eq_iff)
    ultimately show ?thesis using Suc.prems by (simp add: follow_cycle.simps)
  next
    case False
    have bij: "bij_betw ?f {..<?n} {..<?n}" using Suc.prems(1) unfolding moves_to_def by blast
    have d: "dst < ?n" using bij Suc.prems(3) by (auto simp: bij_betw_def)
    have moved: "todo V m dst \<noteq> dst"
    proof
      assume "todo V m dst = dst"
      then have "?f dst = ?f src" using False by simp
      then show False using bij d Suc.prems(3) False by (auto simp: bij_betw_def inj_on_def)
    qed
    then have dst: "dst \<notin> V" "dst \<in> set (dict_keys m)"
      by (auto simp: todo_def simp del: set_map intro!: dict_get_in_keys split: if_splits option.splits)
    let ?next = "case dict_get m dst of None \<Rightarrow> dst | Some x \<Rightarrow> x"
    let ?m = "dict_set dst dst m" and ?b = "swap src dst b"
    have nxt: "?next = ?f dst" using dst False by (simp add: todo_def)
    have f': "(todo V ?m)(src := ?next) = ?f(dst := dst, src := ?f dst)"
      using dst False by (auto simp: todo_def fun_eq_iff)
    have rows: "rows ?b = swap_nth src dst (rows b)"
      using assms(1) Suc.prems(3) d by (simp add: swaps_rows_def)
    have g: "?f(dst := dst, src := ?f dst) = (\<lambda>k. ?f (if k = src then dst else if k = dst then src else k))"
      using False by (auto simp: fun_eq_iff)
    have "moves_to ((todo V ?m)(src := ?next)) (rows ?b) goal"
      unfolding f' rows by (rule moves_to_swap[OF Suc.prems(1,3) d g])
    moreover have "misplaced ((todo V ?m)(src := ?next)) (length (rows ?b)) \<le> fuel"
    proof -
      have "?f src \<noteq> src" using False by simp
      from misplaced_swap[OF bij Suc.prems(3) this] have
        "misplaced (?f(dst := dst, src := ?f dst)) ?n < misplaced ?f ?n" by (simp only: fun_upd_same)
      then show ?thesis using Suc.prems(4) unfolding f' rows length_swap_nth by linarith
    qed
    ultimately obtain m' b' where "follow_cycle fuel swap src ?next (?m, ?b) = Inr (m', b')"
        "dict_keys m' = dict_keys ?m" "moves_to (todo (insert src V) m') (rows b') goal"
      using Suc.IH[of ?m ?next ?b] Suc.prems(2,3) rows by (metis length_swap_nth)
    then show ?thesis using False dict_set_present[OF dst(2)]
      by (simp add: follow_cycle.simps[of "Suc fuel"])
  qed
qed

lemma misplaced_le: "misplaced ((todo V m)(src := d)) n \<le> length (dict_keys m)"
  if "src \<in> set (dict_keys m)"
proof -
  have "{i. i < n \<and> ((todo V m)(src := d)) i \<noteq> i} \<subseteq> set (dict_keys m)"
  proof
    fix i
    assume "i \<in> {i. i < n \<and> ((todo V m)(src := d)) i \<noteq> i}"
    then have "i = src \<or> dict_get m i \<noteq> None" by (auto simp: todo_def split: if_splits option.splits)
    then show "i \<in> set (dict_keys m)" using that dict_get_in_keys by metis
  qed
  then show ?thesis unfolding misplaced_def
    by (meson List.finite_set card_length card_mono order_trans)
qed

lemma visit_all_places:
  assumes "swaps_rows swap rows" "moves_to (todo V m) (rows b) goal" "set ks \<subseteq> set (dict_keys m)"
    and "distinct ks" "set ks \<inter> V = {}" "\<forall>k \<in> set ks. k < length goal" "length (dict_keys m) \<le> fuel"
  shows "\<exists>m' b'. fold_res (visit_src fuel swap) ks (m, b) = Inr (m', b') \<and> dict_keys m' = dict_keys m
    \<and> moves_to (todo (V \<union> set ks) m') (rows b') goal"
  using assms(2-)
proof (induction ks arbitrary: V m b)
  case Nil
  then show ?case by simp
next
  case (Cons k ks)
  have k: "k \<in> set (dict_keys m)" "k < length (rows b)" "k \<notin> V"
    using Cons.prems by (auto simp: moves_to_def)
  obtain dst where dst: "dict_get m k = Some dst"
    using k(1) by (cases "dict_get m k") (auto simp: map_of_eq_None_iff)
  have f: "(todo V m)(k := dst) = todo V m" using dst k(3) by (auto simp: todo_def fun_eq_iff)
  have "misplaced ((todo V m)(k := dst)) (length (rows b)) \<le> fuel"
    using misplaced_le[OF k(1)] Cons.prems(6) by (rule order_trans)
  then obtain m1 b1 where s: "follow_cycle fuel swap k dst (m, b) = Inr (m1, b1)" "dict_keys m1 = dict_keys m"
      "moves_to (todo (insert k V) m1) (rows b1) goal"
    using follow_cycle_places[of swap rows V m k dst b goal fuel] assms(1) Cons.prems(1) k f by auto
  obtain m' b' where "fold_res (visit_src fuel swap) ks (m1, b1) = Inr (m', b')" "dict_keys m' = dict_keys m1"
      "moves_to (todo (insert k V \<union> set ks) m') (rows b') goal"
    using Cons.IH[OF s(3)] Cons.prems s(2) by auto
  moreover have "visit_src fuel swap k (m, b) = Inr (m1, b1)"
    using s(1) dst by (simp add: visit_src_def dict_at_def)
  ultimately show ?case using s(2) by simp
qed

lemma goal_exists:
  assumes "bij_betw f {..<length xs} {..<length xs}"
  shows "\<exists>goal. moves_to f xs goal"
proof (intro exI)
  let ?goal = "map (\<lambda>j. xs ! inv_into {..<length xs} f j) [0..<length xs]"
  show "moves_to f xs ?goal"
    using assms bij_betw_apply[OF assms] bij_betw_inv_into_left[OF assms] by (simp add: moves_to_def)
qed

lemma moves_to_mset:
  assumes "moves_to f xs goal"
  shows "mset goal = mset xs"
proof -
  let ?n = "length xs"
  have f: "inj_on f {..<?n}" "f ` {..<?n} = {..<?n}" and len: "length goal = ?n"
    using assms by (auto simp: moves_to_def bij_betw_def)
  have nth: "mset ys = image_mset ((!) ys) (mset_set {..<?n})" if "length ys = ?n" for ys :: "'a list"
  proof -
    have "mset (map ((!) ys) [0..<?n]) = image_mset ((!) ys) (mset_set {..<?n})"
      unfolding mset_map by (simp add: lessThan_atLeast0)
    then show ?thesis using that map_nth[of ys] by metis
  qed
  have "mset goal = image_mset ((!) goal) (image_mset f (mset_set {..<?n}))"
    using nth[OF len] f by (simp add: image_mset_mset_set)
  also have "\<dots> = image_mset ((!) xs) (mset_set {..<?n})"
    unfolding multiset.map_comp using assms by (intro image_mset_cong) (simp add: moves_to_def)
  finally show ?thesis using nth[of xs] by simp
qed

lemma apply_moves_places:
  assumes "swaps_rows swap rows" "distinct (dict_keys m)" "set (dict_keys m) \<subseteq> {..<length (rows b)}"
    and "moves_to (todo {} m) (rows b) goal"
  shows "\<exists>m' b'. apply_moves swap m b = Inr (m', b') \<and> rows b' = goal"
proof -
  have "length goal = length (rows b)" using assms(4) by (simp add: moves_to_def)
  then obtain m' b' where r: "fold_res (visit_src (length m) swap) (dict_keys m) (m, b) = Inr (m', b')"
      "dict_keys m' = dict_keys m" "moves_to (todo (set (dict_keys m)) m') (rows b') goal"
    using visit_all_places[OF assms(1,4), of "dict_keys m" "length m"] assms(2,3) by auto
  have "todo (set (dict_keys m)) m' = (\<lambda>i. i)"
    using r(2) dict_get_in_keys[of m'] by (auto simp: todo_def fun_eq_iff simp del: set_map split: option.splits)
  then show ?thesis using r moves_to_id unfolding apply_moves_def by fastforce
qed

section \<open>The order of the regions\<close>

text \<open>The region of a row, reading its scheduled tokens from the output of the scheduler.\<close>

definition region_of :: "(nat, int) dict \<Rightarrow> int \<Rightarrow> batch_row \<Rightarrow> nat" where
  "region_of num_scheduled_tokens decode_threshold r =
     req_region decode_threshold (the (dict_get num_scheduled_tokens (br_req_id r))) r"

lemma region_counts:
  fixes zs :: "(int \<times> batch_row) list" and d :: int
  assumes "\<forall>(n, r) \<in> set zs. 0 \<le> br_num_computed_tokens r"
  defines "nd \<equiv> length (filter (\<lambda>(n, r). is_decode d n r) zs)"
    and "ne \<equiv> length (filter (\<lambda>(n, r). is_extend d n r) zs)"
  shows "nd + ne \<le> length zs"
    and "mset (map (\<lambda>(n, r). req_region d n r) zs) = mset (map (target_region nd ne) [0..<length zs])"
proof -
  have "length (filter (\<lambda>(n, r). is_decode d n r) xs) + length (filter (\<lambda>(n, r). is_extend d n r) xs) \<le> length xs
    \<and> mset (map (\<lambda>(n, r). req_region d n r) xs) =
      replicate_mset (length (filter (\<lambda>(n, r). is_decode d n r) xs)) 0
      + replicate_mset (length (filter (\<lambda>(n, r). is_extend d n r) xs)) 1
      + replicate_mset (length xs - length (filter (\<lambda>(n, r). is_decode d n r) xs)
          - length (filter (\<lambda>(n, r). is_extend d n r) xs)) 2"
    if "\<forall>(n, r) \<in> set xs. 0 \<le> br_num_computed_tokens r" for xs :: "(int \<times> batch_row) list"
    using that
    by (induction xs) (auto simp: req_region_def is_prefill_def is_extend_def Suc_diff_le)
  note this[OF assms(1)]
  moreover have "map (target_region a b) [0..<a + b + c] = replicate a 0 @ replicate b 1 @ replicate c 2" for a b c
    by (rule nth_equalityI) (auto simp: target_region_def nth_append)
  from this[of nd ne "length zs - nd - ne"] show "nd + ne \<le> length zs"
    and "mset (map (\<lambda>(n, r). req_region d n r) zs) = mset (map (target_region nd ne) [0..<length zs])"
    using calculation unfolding nd_def ne_def by (simp_all add: add.assoc)
qed

lemma target_region_mono: "i \<le> j \<Longrightarrow> target_region nd ne i \<le> target_region nd ne j"
  by (simp add: target_region_def)

lemma sorted_target: "sorted (map (target_region nd ne) [0..<n])"
  by (simp add: sorted_map sorted_wrt_iff_nth_less target_region_mono)

lemma same_mset_filter:
  fixes f g :: "'a \<Rightarrow> 'b"
  assumes "mset (map f xs) = mset (map g xs)"
  shows "mset (map f (filter (\<lambda>i. f i \<noteq> g i) xs)) = mset (map g (filter (\<lambda>i. f i \<noteq> g i) xs))"
proof -
  have split: "mset (map h xs) = mset (map h (filter P xs)) + mset (map h (filter (\<lambda>i. \<not> P i) xs))"
    for h and P by (induction xs) auto
  have same: "map f (filter (\<lambda>i. \<not> f i \<noteq> g i) xs) = map g (filter (\<lambda>i. \<not> f i \<noteq> g i) xs)" by simp
  show ?thesis
    using assms unfolding split[of f "\<lambda>i. f i \<noteq> g i"] split[of g "\<lambda>i. f i \<noteq> g i"] same
    by (rule add_right_imp_eq)
qed

text \<open>The map moves every index that is out of place to one of its region.\<close>

lemma src_dest_map_permutes:
  fixes regions :: "nat list"
  defines "n \<equiv> length regions"
  assumes "mset regions = mset (map (target_region nd ne) [0..<n])"
  defines "m \<equiv> src_dest_map regions (target_region nd ne)"
  shows "distinct (dict_keys m)" "set (dict_keys m) = set (needs_swap regions (target_region nd ne))"
    and "bij_betw (todo {} m) {..<n} {..<n}"
    and "i < n \<Longrightarrow> target_region nd ne (todo {} m i) = regions ! i"
proof -
  let ?t = "target_region nd ne"
  define orig where "orig = needs_swap regions ?t"
  define src where "src = sort_key (\<lambda>i. regions ! i) orig"
  have m: "m = zip src orig" by (simp add: m_def src_dest_map_def src_def orig_def Let_def)
  have src: "set src = set orig" "distinct src" "length src = length orig" "distinct orig"
    by (simp_all add: src_def orig_def needs_swap_def)
  have keys: "dict_keys m = src" using src(3) by (simp add: m)
  show "distinct (dict_keys m)" "set (dict_keys m) = set (needs_swap regions ?t)"
    using src keys by (simp_all add: orig_def)
  have orig: "i \<in> set orig \<longleftrightarrow> i < n \<and> regions ! i \<noteq> ?t i" for i by (auto simp: orig_def needs_swap_def n_def)
  have get: "todo {} m (src ! k) = orig ! k" if "k < length orig" for k
    using src that by (simp add: todo_def m map_of_zip_nth)
  have other: "todo {} m i = i" if "i \<notin> set orig" for i
    using that keys src(1) dict_get_in_keys[of m i] by (auto simp: todo_def split: option.splits)
  have img: "todo {} m ` set orig = set orig"
  proof -
    have "todo {} m ` set src = (\<lambda>k. orig ! k) ` {..<length orig}"
      using get src(3) by (auto simp: set_conv_nth image_def)
    then show ?thesis using src(1) by (auto simp: set_conv_nth)
  qed
  then have "todo {} m ` {..<n} = {..<n}"
  proof -
    have "{..<n} = set orig \<union> ({..<n} - set orig)" using orig by auto
    then have "todo {} m ` {..<n} = todo {} m ` set orig \<union> todo {} m ` ({..<n} - set orig)" by (metis image_Un)
    also have "todo {} m ` ({..<n} - set orig) = {..<n} - set orig" using other by force
    finally show ?thesis using img orig by auto
  qed
  then show "bij_betw (todo {} m) {..<n} {..<n}"
    by (simp add: bij_betw_def eq_card_imp_inj_on)
  have "mset (map (\<lambda>i. regions ! i) [0..<n]) = mset (map ?t [0..<n])"
    using assms(2) map_nth[of regions] by (simp add: n_def)
  from same_mset_filter[OF this] have "mset (map (\<lambda>i. regions ! i) orig) = mset (map ?t orig)"
    by (simp add: orig_def needs_swap_def n_def)
  moreover have "sorted (map (\<lambda>i. regions ! i) src)" by (simp add: src_def)
  moreover have "mset (map (\<lambda>i. regions ! i) src) = mset (map (\<lambda>i. regions ! i) orig)"
    by (simp add: src_def)
  moreover have "sorted (map ?t orig)"
    unfolding orig_def needs_swap_def sorted_map
    by (rule sorted_wrt_filter) (simp add: sorted_wrt_iff_nth_less target_region_mono)
  ultimately have eq: "map (\<lambda>i. regions ! i) src = map ?t orig"
    by (metis properties_for_sort sorted_sort_id)
  show "i < n \<Longrightarrow> ?t (todo {} m i) = regions ! i"
  proof (cases "i \<in> set orig")
    case True
    then obtain k where "k < length orig" "i = src ! k" using src by (metis in_set_conv_nth)
    then show ?thesis using get eq src(3) by (metis length_map nth_map)
  next
    case False
    then show "i < n \<Longrightarrow> ?thesis" using other orig by auto
  qed
qed

lemma moved_regions:
  assumes "moves_to f xs goal" "\<And>i. i < length xs \<Longrightarrow> t (f i) = h (xs ! i)"
  shows "map h goal = map t [0..<length xs]"
proof (rule nth_equalityI)
  show "length (map h goal) = length (map t [0..<length xs])" using assms(1) by (simp add: moves_to_def)
  fix j
  assume "j < length (map h goal)"
  then have j: "j < length xs" "j < length goal" using assms(1) by (auto simp: moves_to_def)
  then obtain i where "i < length xs" "j = f i"
    using assms(1) unfolding moves_to_def bij_betw_def by (metis imageE lessThan_iff)
  then show "map h goal ! j = map t [0..<length xs] ! j" using assms j unfolding moves_to_def by simp
qed

text \<open>
  C39. Reordering splits the batch: when \<^verbatim>\<open>swap_states\<close> swaps two rows and every request
  of the batch is scheduled, the reordering ends without an error, keeps exactly the rows of the
  batch, and puts all decodes before all extends before all prefills. It reports a change exactly
  when the batch was out of order, and then only touches the batch.
\<close>
theorem reorder_batch_sorts:
  assumes "swaps_rows swap rows"
    and "\<forall>r \<in> set (rows b). br_req_id r \<in> set (dict_keys sched) \<and> 0 \<le> br_num_computed_tokens r"
  shows "\<exists>moved b'. reorder_batch swap rows sched d b = Inr (moved, b')
    \<and> mset (rows b') = mset (rows b) \<and> sorted (map (region_of sched d) (rows b'))
    \<and> moved = (\<not> sorted (map (region_of sched d) (rows b))) \<and> (moved \<or> b' = b)"
proof -
  let ?rows = "rows b" and ?h = "region_of sched d"
  let ?s = "map (\<lambda>r. the (dict_get sched (br_req_id r))) ?rows"
  let ?n = "length ?rows"
  define nd where "nd = length (filter (\<lambda>(n, r). is_decode d n r) (zip ?s ?rows))"
  define ne where "ne = length (filter (\<lambda>(n, r). is_extend d n r) (zip ?s ?rows))"
  let ?t = "target_region nd ne" and ?regions = "map2 (req_region d) ?s ?rows"
  have sched: "map_res (\<lambda>r. dict_at sched (br_req_id r)) ?rows = Inr ?s"
  proof (rule map_res_total)
    fix r
    assume "r \<in> set ?rows"
    then have "dict_get sched (br_req_id r) \<noteq> None" using assms(2) by (metis map_of_eq_None_iff set_map)
    then show "dict_at sched (br_req_id r) = Inr (the (dict_get sched (br_req_id r)))"
      by (auto simp: dict_at_def)
  qed
  have regions: "?regions = map ?h ?rows" by (simp add: region_of_def zip_map1 zip_same_conv_map)
  have "\<forall>(n, r) \<in> set (zip ?s ?rows). 0 \<le> br_num_computed_tokens r"
    using assms(2) by (auto dest: set_zip_rightD)
  from region_counts(2)[OF this, of d] have m: "mset (map ?h ?rows) = mset (map ?t [0..<?n])"
    unfolding nd_def[symmetric] ne_def[symmetric] regions by simp
  have code: "reorder_batch swap rows sched d b =
     (if needs_swap (map ?h ?rows) ?t = [] then Inr (False, b)
      else bind_res (apply_moves swap (src_dest_map (map ?h ?rows) ?t) b) (\<lambda>(m', b'). Inr (True, b')))"
    unfolding reorder_batch_def sched bind_res_simps Let_def nd_def[symmetric] ne_def[symmetric] regions ..
  have order: "(needs_swap (map ?h ?rows) ?t = []) = sorted (map ?h ?rows)"
  proof
    assume "needs_swap (map ?h ?rows) ?t = []"
    then have "map ?h ?rows = map ?t [0..<?n]"
      by (intro nth_equalityI) (auto simp: needs_swap_def filter_empty_conv)
    then show "sorted (map ?h ?rows)" using sorted_target by metis
  next
    assume "sorted (map ?h ?rows)"
    then have "map ?h ?rows = map ?t [0..<?n]" using m sorted_target by (metis properties_for_sort sorted_sort_id)
    then have "map ?h ?rows ! i = ?t i" if "i < ?n" for i using that by simp
    then show "needs_swap (map ?h ?rows) ?t = []" by (simp add: needs_swap_def filter_empty_conv)
  qed
  show ?thesis
  proof (cases "sorted (map ?h ?rows)")
    case True
    then show ?thesis using code order by (intro exI[of _ False] exI[of _ b]) simp
  next
    case False
    note perm = src_dest_map_permutes[of "map ?h ?rows", unfolded length_map, OF m]
    obtain goal where goal: "moves_to (todo {} (src_dest_map (map ?h ?rows) ?t)) ?rows goal"
      using goal_exists[OF perm(3)] by blast
    have "set (dict_keys (src_dest_map (map ?h ?rows) ?t)) \<subseteq> {..<?n}"
      unfolding perm(2) by (auto simp: needs_swap_def)
    then obtain m' b' where b': "apply_moves swap (src_dest_map (map ?h ?rows) ?t) b = Inr (m', b')" "rows b' = goal"
      using apply_moves_places[OF assms(1) perm(1) _ goal] by blast
    have "map ?h goal = map ?t [0..<?n]" by (rule moved_regions[OF goal]) (simp add: perm(4))
    then have "sorted (map ?h goal)" using sorted_target by metis
    then show ?thesis using code order False b' moves_to_mset[OF goal]
      by (intro exI[of _ True] exI[of _ b']) simp
  qed
qed

lemma reorder_batch_sorts_witness:
  "\<exists>b'. reorder_batch swap_nth id [(7, 9), (8, 1), (9, 1)] 1
      [\<lparr>br_req_id = 7, br_num_computed_tokens = 0, br_num_prompt_tokens = 9\<rparr>,
       \<lparr>br_req_id = 8, br_num_computed_tokens = 4, br_num_prompt_tokens = 5\<rparr>,
       \<lparr>br_req_id = 9, br_num_computed_tokens = 6, br_num_prompt_tokens = 5\<rparr>] = Inr (True, b')
    \<and> sorted (map (region_of [(7, 9), (8, 1), (9, 1)] 1) b')"
proof -
  let ?b = "[\<lparr>br_req_id = 7, br_num_computed_tokens = 0, br_num_prompt_tokens = 9\<rparr>,
       \<lparr>br_req_id = 8, br_num_computed_tokens = 4, br_num_prompt_tokens = 5\<rparr>,
       \<lparr>br_req_id = 9, br_num_computed_tokens = 6, br_num_prompt_tokens = 5\<rparr>]"
  have swap: "swaps_rows swap_nth id" by (simp add: swaps_rows_def)
  have "\<not> sorted (map (region_of [(7, 9), (8, 1), (9, 1)] 1) (id ?b))"
    by (simp add: region_of_def req_region_def is_decode_def is_extend_def is_prefill_def)
  then show ?thesis
    using reorder_batch_sorts[OF swap, of ?b "[(7, 9), (8, 1), (9, 1)]" 1] by auto
qed

end
