(* ===== verification/SlotPool.thy ===== *)
theory SlotPool
  imports Prelude
begin

text \<open>
  The contract of a component that hands out a fixed number of slots: what is in use and what is free
  partition the slots. The counting lemmas are proved once from it.
\<close>

locale slot_pool =
  fixes inv :: "'s \<Rightarrow> bool"
    and used :: "'s \<Rightarrow> nat list"
    and free :: "'s \<Rightarrow> nat set"
    and cap :: "'s \<Rightarrow> nat"
  assumes distinct_used: "inv s \<Longrightarrow> distinct (used s)"
    and disjoint: "inv s \<Longrightarrow> set (used s) \<inter> free s = {}"
    and cover: "inv s \<Longrightarrow> set (used s) \<union> free s = {..<cap s}"
begin

lemma finite_free: "inv s \<Longrightarrow> finite (free s)"
  using cover[of s] by (metis finite_Un finite_lessThan)

lemma used_below: "inv s \<Longrightarrow> x \<in> set (used s) \<Longrightarrow> x < cap s"
  using cover[of s] by auto

lemma free_below: "inv s \<Longrightarrow> x \<in> free s \<Longrightarrow> x < cap s"
  using cover[of s] by auto

lemma count: "inv s \<Longrightarrow> length (used s) + card (free s) = cap s"
proof -
  assume i: "inv s"
  have "card (set (used s) \<union> free s) = length (used s) + card (free s)"
    using disjoint[OF i] finite_free[OF i] distinct_card[OF distinct_used[OF i]]
    by (simp add: card_Un_disjoint)
  then show ?thesis using cover[OF i] by simp
qed

lemma has_free: "inv s \<Longrightarrow> length (used s) < cap s \<Longrightarrow> free s \<noteq> {}"
  using count[of s] by auto

lemma full_iff: "inv s \<Longrightarrow> free s = {} \<longleftrightarrow> length (used s) = cap s"
  using count[of s] finite_free[of s] by (auto simp: card_eq_0_iff)

end

end
