(* ===== verification/LocalIds.thy ===== *)
theory LocalIds
  imports SlotPool
begin

text \<open>
  The map from global state ids to the local ids of the linear attention cache
  (\<^verbatim>\<open>DeviceAwareLocalIdMapper\<close> of \<^verbatim>\<open>vllm_mlu/v1/attention/backends/gdn_attn.py\<close>):
  a least recently used assignment of a fixed number of local ids. A batch is the flat list of its
  ids. The order in which Python enumerates the set of missing ids is an argument.
\<close>

section \<open>The code\<close>

record id_mapper =
  lm_batch_size :: nat
  lm_global_to_local :: "(int, nat) dict"
  lm_local_to_global :: "(nat, int) dict"
  lm_available :: "nat list"

definition new_mapper :: "int \<Rightarrow> id_mapper res" where
  "new_mapper batch_size =
     require (0 < batch_size) ValueError
     (Inr \<lparr>lm_batch_size = nat batch_size, lm_global_to_local = [], lm_local_to_global = [],
           lm_available = [0..<nat batch_size]\<rparr>)"

definition reset_mapper :: "id_mapper \<Rightarrow> id_mapper" where
  "reset_mapper s = s\<lparr>lm_global_to_local := [], lm_local_to_global := [],
     lm_available := [0..<lm_batch_size s]\<rparr>"

text \<open>Pass 1: hits move to the end of the dictionary, misses are collected and marked by -1.\<close>

definition move_to_end :: "'k \<Rightarrow> 'v \<Rightarrow> ('k, 'v) dict \<Rightarrow> ('k, 'v) dict" where
  "move_to_end k v d = dict_pop k d @ [(k, v)]"

fun handle_hits :: "(int, nat) dict \<Rightarrow> int list \<Rightarrow> (int, nat) dict \<times> int list \<times> int list" where
  "handle_hits g2l [] = (g2l, [], [])"
| "handle_hits g2l (gid # gids) =
     (case dict_get g2l gid of
        Some l \<Rightarrow> (let (g, ls, ms) = handle_hits (move_to_end gid l g2l) gids in (g, int l # ls, ms))
      | None \<Rightarrow> (let (g, ls, ms) = handle_hits g2l gids in (g, -1 # ls, gid # ms)))"

text \<open>Pass 2: a new id takes the first available local id, after evicting the oldest entry when full.\<close>

definition evict_oldest :: "id_mapper \<Rightarrow> id_mapper res" where
  "evict_oldest s =
     (case lm_global_to_local s of
        [] \<Rightarrow> Inl KeyError
      | (old_gid, old_local) # rest \<Rightarrow>
          Inr (s\<lparr>lm_global_to_local := rest, lm_available := lm_available s @ [old_local],
                lm_local_to_global := dict_pop old_local (lm_local_to_global s)\<rparr>))"

definition assign_new :: "int \<Rightarrow> id_mapper \<times> (int, nat) dict \<Rightarrow> (id_mapper \<times> (int, nat) dict) res" where
  "assign_new gid sn =
     (let (s, new_mappings) = sn in
      bind_res (if lm_batch_size s \<le> length (lm_global_to_local s) then evict_oldest s else Inr s) (\<lambda>s1.
      case lm_available s1 of
        [] \<Rightarrow> Inl IndexError
      | new_local # rest \<Rightarrow>
          Inr (s1\<lparr>lm_available := rest,
                 lm_global_to_local := dict_set gid new_local (lm_global_to_local s1),
                 lm_local_to_global := dict_set new_local gid (lm_local_to_global s1)\<rparr>,
               dict_set gid new_local new_mappings)))"

text \<open>Pass 3: the missing positions.\<close>

definition fill_miss :: "(int, nat) dict \<Rightarrow> int \<times> int \<Rightarrow> int res" where
  "fill_miss new_mappings p =
     (let (gid, l) = p in
      if l = -1 then bind_res (dict_at new_mappings gid) (\<lambda>n. Inr (int n)) else Inr l)"

definition batch_get_local_ids ::
  "(int list \<Rightarrow> int list) \<Rightarrow> int list \<Rightarrow> id_mapper \<Rightarrow> (id_mapper \<times> int list) res" where
  "batch_get_local_ids set_order gids s =
     (let (g2l, local_ids, misses) = handle_hits (lm_global_to_local s) gids
      in bind_res (fold_res assign_new (set_order misses) (s\<lparr>lm_global_to_local := g2l\<rparr>, [])) (\<lambda>(s', new_mappings).
         bind_res (map_res (fill_miss new_mappings) (zip gids local_ids)) (\<lambda>ls. Inr (s', ls))))"

section \<open>The invariant\<close>

text \<open>
  Every local id below the batch size is either available or assigned to one global id, and the two
  dictionaries are inverse to each other.
\<close>

definition mapper_ok :: "id_mapper \<Rightarrow> bool" where
  "mapper_ok s \<longleftrightarrow> 0 < lm_batch_size s
     \<and> distinct (dict_keys (lm_global_to_local s))
     \<and> distinct (lm_available s @ dict_values (lm_global_to_local s))
     \<and> set (lm_available s @ dict_values (lm_global_to_local s)) = {..<lm_batch_size s}
     \<and> distinct (dict_keys (lm_local_to_global s))
     \<and> set (lm_local_to_global s) = prod.swap ` set (lm_global_to_local s)"

text \<open>What the code relies on: a set of Python enumerates its elements once each.\<close>

definition enumerates_set :: "(int list \<Rightarrow> int list) \<Rightarrow> bool" where
  "enumerates_set f \<longleftrightarrow> (\<forall>xs. distinct (f xs) \<and> set (f xs) = set xs)"

lemma new_mapper_ok: "new_mapper b = Inr s \<Longrightarrow> mapper_ok s"
  by (auto simp: new_mapper_def require_eq_Inr mapper_ok_def)

lemma reset_mapper_ok: "mapper_ok s \<Longrightarrow> mapper_ok (reset_mapper s)"
  by (auto simp: reset_mapper_def mapper_ok_def)

interpretation mapper: slot_pool mapper_ok "\<lambda>s. dict_values (lm_global_to_local s)" "\<lambda>s. set (lm_available s)" lm_batch_size
  by unfold_locales (auto simp: mapper_ok_def)

lemma move_to_end_facts:
  assumes "dict_get d k = Some v" "distinct (dict_keys d)"
  shows "set (move_to_end k v d) = set d" "distinct (dict_keys (move_to_end k v d))"
    "dict_get (move_to_end k v d) = dict_get d" "mset (move_to_end k v d) = mset d"
proof -
  show s: "set (move_to_end k v d) = set d"
    using assms by (auto simp: move_to_end_def dict_pop_def dest: map_of_SomeD eq_key_imp_eq_value)
  show d: "distinct (dict_keys (move_to_end k v d))"
    using assms(2) by (auto simp: move_to_end_def dict_pop_def distinct_map inj_on_def)
  show "dict_get (move_to_end k v d) = dict_get d" using s d assms(2) by (metis map_of_inject_set)
  show "mset (move_to_end k v d) = mset d"
    using s d assms(2) by (metis distinct_map set_eq_iff_mset_eq_distinct)
qed

section \<open>The three passes\<close>

lemma handle_hits_facts:
  assumes "distinct (dict_keys g)" "handle_hits g gids = (g', ls, ms)"
  shows "mset g' = mset g \<and> dict_get g' = dict_get g
    \<and> ls = map (\<lambda>x. case dict_get g x of Some l \<Rightarrow> int l | None \<Rightarrow> -1) gids
    \<and> set ms = set gids - fst ` set g
    \<and> (\<exists>cur. g' = filter (\<lambda>p. fst p \<notin> set gids) g @ cur \<and> fst ` set cur = set gids \<inter> fst ` set g)"
  using assms
proof (induction g gids arbitrary: g' ls ms rule: handle_hits.induct)
  case (1 g)
  then show ?case by simp
next
  case (2 g gid gids)
  show ?case
  proof (cases "dict_get g gid")
    case None
    then have "gid \<notin> fst ` set g" by (simp add: map_of_eq_None_iff)
    then have f: "filter (\<lambda>p. fst p \<notin> set (gid # gids)) g = filter (\<lambda>p. fst p \<notin> set gids) g"
      by (intro filter_cong) auto
    obtain ga la ma where r: "handle_hits g gids = (ga, la, ma)" by (cases "handle_hits g gids")
    have e: "g' = ga" "ls = -1 # la" "ms = gid # ma" using "2.prems"(2) None r by auto
    have d: "set (gid # ma) = set (gid # gids) - fst ` set g" "set (gid # gids) \<inter> fst ` set g = set gids \<inter> fst ` set g"
      if "set ma = set gids - fst ` set g" using that \<open>gid \<notin> fst ` set g\<close> by auto
    from "2.IH"(1)[OF None "2.prems"(1) r] show ?thesis unfolding e f using None d by simp
  next
    case (Some l)
    note m = move_to_end_facts[OF Some "2.prems"(1)]
    obtain ga la ma where r: "handle_hits (move_to_end gid l g) gids = (ga, la, ma)"
      by (cases "handle_hits (move_to_end gid l g) gids")
    from "2.IH"(2)[OF Some m(2) r] obtain cur where
      IH: "mset ga = mset g" "dict_get ga = dict_get g"
        "la = map (\<lambda>x. case dict_get g x of Some l \<Rightarrow> int l | None \<Rightarrow> -1) gids" "set ma = set gids - fst ` set g"
        "ga = filter (\<lambda>p. fst p \<notin> set gids) (move_to_end gid l g) @ cur" "fst ` set cur = set gids \<inter> fst ` set g"
      unfolding m by auto
    have gid: "gid \<in> fst ` set g" using Some by (force dest: map_of_SomeD)
    let ?c = "filter (\<lambda>p. fst p \<notin> set gids) [(gid, l)] @ cur"
    have "ga = filter (\<lambda>p. fst p \<notin> set (gid # gids)) g @ ?c"
      by (subst IH(5)) (auto simp: move_to_end_def dict_pop_def intro: filter_cong)
    moreover have "fst ` set ?c = set (gid # gids) \<inter> fst ` set g" using IH(6) gid by auto
    ultimately have "\<exists>cur. ga = filter (\<lambda>p. fst p \<notin> set (gid # gids)) g @ cur
        \<and> fst ` set cur = set (gid # gids) \<inter> fst ` set g" by blast
    moreover have "(g', ls, ms) = (ga, int l # la, ma)" using "2.prems"(2) Some r by simp
    ultimately show ?thesis using IH gid Some by auto
  qed
qed

lemma mapper_ok_reorder:
  assumes "mapper_ok s" "mset g = mset (lm_global_to_local s)"
  shows "mapper_ok (s\<lparr>lm_global_to_local := g\<rparr>)"
proof -
  have "set g = set (lm_global_to_local s)" using assms(2) by (rule mset_eq_setD)
  moreover have "distinct (dict_keys g) = distinct (dict_keys (lm_global_to_local s))"
    "distinct (dict_values g) = distinct (dict_values (lm_global_to_local s))"
    using assms(2) by (metis mset_eq_imp_distinct_iff mset_map)+
  ultimately show ?thesis using assms(1) by (simp add: mapper_ok_def)
qed

lemma evict_oldest_ok:
  assumes "mapper_ok s" "lm_batch_size s \<le> length (lm_global_to_local s)"
  shows "\<exists>s'. evict_oldest s = Inr s' \<and> mapper_ok s' \<and> lm_batch_size s' = lm_batch_size s
    \<and> lm_global_to_local s' = tl (lm_global_to_local s) \<and> lm_available s' \<noteq> []"
proof (cases "lm_global_to_local s")
  case Nil
  then show ?thesis using assms by (simp add: mapper_ok_def)
next
  case (Cons p rest)
  obtain g l where p: "p = (g, l)" by (cases p)
  let ?s = "s\<lparr>lm_global_to_local := rest, lm_available := lm_available s @ [l],
                lm_local_to_global := dict_pop l (lm_local_to_global s)\<rparr>"
  have "distinct (dict_values (lm_global_to_local s))" using assms(1) by (simp add: mapper_ok_def)
  then have fresh: "(g', l) \<notin> set rest" for g' using Cons p by (simp add: image_iff) (metis snd_conv)
  have "set (dict_pop l (lm_local_to_global s)) = prod.swap ` set rest"
    using assms(1) Cons p fresh by (auto simp: mapper_ok_def dict_pop_def)
  then have "mapper_ok ?s" using assms(1) Cons p by (auto simp: mapper_ok_def)
  then show ?thesis using Cons p by (simp add: evict_oldest_def)
qed

text \<open>Assigning a new id: at most the oldest entry goes, and the new one stands at the end.\<close>

lemma assign_new_ok:
  assumes "mapper_ok s" "gid \<notin> fst ` set (lm_global_to_local s)"
  shows "\<exists>s' l. assign_new gid (s, nm) = Inr (s', dict_set gid l nm) \<and> mapper_ok s'
    \<and> lm_batch_size s' = lm_batch_size s \<and> l < lm_batch_size s
    \<and> lm_global_to_local s' =
        (if lm_batch_size s \<le> length (lm_global_to_local s) then tl (lm_global_to_local s)
         else lm_global_to_local s) @ [(gid, l)]"
proof -
  let ?full = "lm_batch_size s \<le> length (lm_global_to_local s)"
  define g where "g = (if ?full then tl (lm_global_to_local s) else lm_global_to_local s)"
  obtain s1 where s1: "(if ?full then evict_oldest s else Inr s) = Inr s1" "mapper_ok s1"
      "lm_batch_size s1 = lm_batch_size s" "lm_global_to_local s1 = g" "lm_available s1 \<noteq> []"
  proof (cases ?full)
    case True
    then obtain s' where "evict_oldest s = Inr s' \<and> mapper_ok s' \<and> lm_batch_size s' = lm_batch_size s
        \<and> lm_global_to_local s' = tl (lm_global_to_local s) \<and> lm_available s' \<noteq> []"
      using evict_oldest_ok[OF assms(1)] by blast
    then show ?thesis by (intro that[of s']) (use True in \<open>simp_all add: g_def\<close>)
  next
    case False
    then have "lm_available s \<noteq> []" using mapper.has_free[OF assms(1)] by simp
    then show ?thesis by (intro that[of s]) (use False assms(1) in \<open>simp_all add: g_def\<close>)
  qed
  obtain l rest where av: "lm_available s1 = l # rest" using s1(5) by (cases "lm_available s1") auto
  have "set g \<subseteq> set (lm_global_to_local s)" by (cases "lm_global_to_local s") (auto simp: g_def)
  then have fresh: "gid \<notin> fst ` set g" using assms(2) by blast
  have set_g: "dict_set gid l (lm_global_to_local s1) = g @ [(gid, l)]"
    using fresh by (simp add: dict_set_fresh s1(4))
  have parts: "insert l (set rest) \<union> snd ` set g = {..<lm_batch_size s1}" "distinct (l # rest)"
    "set (l # rest) \<inter> snd ` set g = {}" "distinct (dict_keys g)" "distinct (dict_values g)"
    "distinct (dict_keys (lm_local_to_global s1))" "set (lm_local_to_global s1) = prod.swap ` set g"
    "0 < lm_batch_size s1"
    using s1(2) unfolding mapper_ok_def s1(4) av by (simp_all only: set_append set_map distinct_append list.set)
  have l: "l < lm_batch_size s" "l \<notin> snd ` set g" "l \<notin> set rest" using parts(1-3) s1(3) by auto
  then have "l \<notin> fst ` set (lm_local_to_global s1)" unfolding parts(7) by (auto simp: image_iff)
  then have set_l: "dict_set l gid (lm_local_to_global s1) = lm_local_to_global s1 @ [(l, gid)]"
    by (simp add: dict_set_fresh)
  let ?s = "s1\<lparr>lm_available := rest, lm_global_to_local := g @ [(gid, l)],
              lm_local_to_global := lm_local_to_global s1 @ [(l, gid)]\<rparr>"
  have "mapper_ok ?s" using parts l fresh \<open>l \<notin> fst ` set (lm_local_to_global s1)\<close>
    by (simp add: mapper_ok_def)
  moreover have "assign_new gid (s, nm) = Inr (?s, dict_set gid l nm)"
    unfolding assign_new_def using s1(1) av set_g set_l by simp
  ultimately show ?thesis using s1(3) l(1) unfolding g_def[symmetric] by auto
qed

text \<open>
  Assigning all missing ids: none fails, every one gets a local id, and when the entries of the
  batch fit (\<open>cur\<close>, at the end of the dictionary) only older entries are evicted.
\<close>

lemma assign_all_ok:
  assumes "mapper_ok s" "distinct gs" "set gs \<inter> fst ` set (lm_global_to_local s) = {}"
  shows "\<exists>s' nm'. fold_res assign_new gs (s, nm) = Inr (s', nm') \<and> mapper_ok s'
    \<and> lm_batch_size s' = lm_batch_size s
    \<and> (\<forall>g \<in> set gs. \<exists>l. dict_get nm' g = Some l \<and> l < lm_batch_size s)
    \<and> (\<forall>g. g \<notin> set gs \<longrightarrow> dict_get nm' g = dict_get nm g)
    \<and> (\<forall>olds cur. lm_global_to_local s = olds @ cur \<longrightarrow> length cur + length gs \<le> lm_batch_size s \<longrightarrow>
         (\<exists>olds' new. lm_global_to_local s' = olds' @ cur @ new \<and> map fst new = gs
            \<and> (\<forall>(g, l) \<in> set new. dict_get nm' g = Some l)))"
  using assms
proof (induction gs arbitrary: s nm)
  case Nil
  then show ?case by auto
next
  case (Cons gid gs)
  let ?full = "lm_batch_size s \<le> length (lm_global_to_local s)"
  obtain s1 l where s1: "assign_new gid (s, nm) = Inr (s1, dict_set gid l nm)" "mapper_ok s1"
      "lm_batch_size s1 = lm_batch_size s" "l < lm_batch_size s"
      "lm_global_to_local s1 = (if ?full then tl (lm_global_to_local s) else lm_global_to_local s) @ [(gid, l)]"
    using assign_new_ok[of s gid nm] Cons.prems by auto
  have "set (tl (lm_global_to_local s)) \<subseteq> set (lm_global_to_local s)" by (cases "lm_global_to_local s") auto
  then have "fst ` set (lm_global_to_local s1) \<subseteq> insert gid (fst ` set (lm_global_to_local s))"
    unfolding s1(5) by auto
  then have "set gs \<inter> fst ` set (lm_global_to_local s1) = {}" using Cons.prems(2,3) by auto
  from Cons.IH[OF s1(2) _ this, of "dict_set gid l nm"] Cons.prems(2) obtain s' nm' where
    r: "fold_res assign_new gs (s1, dict_set gid l nm) = Inr (s', nm')" "mapper_ok s'"
      "lm_batch_size s' = lm_batch_size s" "\<forall>g \<in> set gs. \<exists>l. dict_get nm' g = Some l \<and> l < lm_batch_size s"
      "\<And>g. g \<notin> set gs \<Longrightarrow> dict_get nm' g = ((dict_get nm)(gid \<mapsto> l)) g"
      and fit: "\<And>olds cur. lm_global_to_local s1 = olds @ cur \<Longrightarrow> length cur + length gs \<le> lm_batch_size s \<Longrightarrow>
         \<exists>olds' new. lm_global_to_local s' = olds' @ cur @ new \<and> map fst new = gs
            \<and> (\<forall>(g, l) \<in> set new. dict_get nm' g = Some l)"
    unfolding s1(3) dict_get_set by auto
  have gid: "dict_get nm' gid = Some l" using r(5)[of gid] Cons.prems(2) by simp
  have "\<exists>olds' new. lm_global_to_local s' = olds' @ cur @ new \<and> map fst new = gid # gs
            \<and> (\<forall>(g, l) \<in> set new. dict_get nm' g = Some l)"
    if g: "lm_global_to_local s = olds @ cur" and "length cur + length (gid # gs) \<le> lm_batch_size s" for olds cur
  proof -
    have "?full \<Longrightarrow> olds \<noteq> []" using that by auto
    then obtain olds1 where "lm_global_to_local s1 = olds1 @ cur @ [(gid, l)]"
      using s1(5) g by (cases ?full) (auto simp: tl_append split: list.splits)
    from fit[OF this] that(2) obtain olds' new where
      "lm_global_to_local s' = olds' @ (cur @ [(gid, l)]) @ new" "map fst new = gs"
      "\<forall>(g, l) \<in> set new. dict_get nm' g = Some l" by auto
    then show ?thesis using gid by (intro exI[of _ olds'] exI[of _ "(gid, l) # new"]) auto
  qed
  moreover have "\<forall>g \<in> set (gid # gs). \<exists>l. dict_get nm' g = Some l \<and> l < lm_batch_size s"
    using r(4) gid s1(4) by auto
  moreover have "fold_res assign_new (gid # gs) (s, nm) = Inr (s', nm')" using s1(1) r(1) by simp
  moreover have "\<forall>g. g \<notin> set (gid # gs) \<longrightarrow> dict_get nm' g = dict_get nm g" using r(5) by auto
  ultimately show ?case using r(2,3) by (intro exI[of _ s'] exI[of _ nm'] conjI) blast+
qed

text \<open>The result of a batch as a function of the id.\<close>

lemma batch_get_local_ids_run:
  assumes "mapper_ok s" "enumerates_set ord"
  defines "g0 \<equiv> lm_global_to_local s"
  shows "\<exists>s' h. batch_get_local_ids ord gids s = Inr (s', map (\<lambda>g. int (h g)) gids) \<and> mapper_ok s'
    \<and> lm_batch_size s' = lm_batch_size s \<and> (\<forall>g \<in> set gids. h g < lm_batch_size s)
    \<and> (\<forall>g l. dict_get g0 g = Some l \<longrightarrow> h g = l)
    \<and> (card (set gids) \<le> lm_batch_size s \<longrightarrow> (\<forall>g \<in> set gids. dict_get (lm_global_to_local s') g = Some (h g)))"
proof -
  obtain g1 ls ms where r: "handle_hits g0 gids = (g1, ls, ms)" by (cases "handle_hits g0 gids")
  have d0: "distinct (dict_keys g0)" using assms(1) by (simp add: mapper_ok_def g0_def)
  from handle_hits_facts[OF d0 r] obtain cur where
    h0: "mset g1 = mset g0" "dict_get g1 = dict_get g0"
      "ls = map (\<lambda>x. case dict_get g0 x of Some l \<Rightarrow> int l | None \<Rightarrow> -1) gids" "set ms = set gids - fst ` set g0"
      "g1 = filter (\<lambda>p. fst p \<notin> set gids) g0 @ cur" "fst ` set cur = set gids \<inter> fst ` set g0" by auto
  let ?s = "s\<lparr>lm_global_to_local := g1\<rparr>"
  have ok: "mapper_ok ?s" using mapper_ok_reorder[OF assms(1)] h0(1) by (simp add: g0_def)
  have os: "distinct (ord ms)" "set (ord ms) = set gids - fst ` set g0"
    using assms(2) h0(4) by (auto simp: enumerates_set_def)
  have "set g1 = set g0" using h0(1) by (rule mset_eq_setD)
  then have "set (ord ms) \<inter> fst ` set (lm_global_to_local ?s) = {}" using os(2) by auto
  from assign_all_ok[OF ok os(1) this, of "[]"] obtain s' nm' where
    a: "fold_res assign_new (ord ms) (?s, []) = Inr (s', nm')" "mapper_ok s'" "lm_batch_size s' = lm_batch_size s"
      "\<forall>g \<in> set (ord ms). \<exists>l. dict_get nm' g = Some l \<and> l < lm_batch_size s"
      and fit: "\<And>olds cur. g1 = olds @ cur \<Longrightarrow> length cur + length (ord ms) \<le> lm_batch_size s \<Longrightarrow>
         \<exists>olds' new. lm_global_to_local s' = olds' @ cur @ new \<and> map fst new = ord ms
            \<and> (\<forall>(g, l) \<in> set new. dict_get nm' g = Some l)"
    by auto
  define h where "h g = (case dict_get g0 g of Some l \<Rightarrow> l | None \<Rightarrow> the (dict_get nm' g))" for g
  have miss: "g \<in> set (ord ms)" if "g \<in> set gids" "dict_get g0 g = None" for g
    using that os(2) by (simp add: map_of_eq_None_iff)
  have fill: "fill_miss nm' (g, case dict_get g0 g of Some l \<Rightarrow> int l | None \<Rightarrow> -1) = Inr (int (h g))"
    if "g \<in> set gids" for g
  proof (cases "dict_get g0 g")
    case None
    then show ?thesis using miss[OF that] a(4) by (auto simp: fill_miss_def h_def dict_at_def)
  next
    case (Some l)
    then show ?thesis by (simp add: fill_miss_def h_def)
  qed
  have "map_res (fill_miss nm') (zip gids ls) = Inr (map (\<lambda>g. int (h g)) gids)"
  proof -
    have "zip gids ls = map (\<lambda>g. (g, case dict_get g0 g of Some l \<Rightarrow> int l | None \<Rightarrow> -1)) gids"
      unfolding h0(3) by (simp add: zip_map2 zip_same_conv_map)
    moreover have "map_res (fill_miss nm') (map f xs) = Inr (map (\<lambda>g. int (h g)) xs)"
      if "\<And>g. g \<in> set xs \<Longrightarrow> fill_miss nm' (f g) = Inr (int (h g))" for f xs
      using that by (induction xs) auto
    ultimately show ?thesis using fill by simp
  qed
  then have run: "batch_get_local_ids ord gids s = Inr (s', map (\<lambda>g. int (h g)) gids)"
    unfolding batch_get_local_ids_def g0_def[symmetric] r using a(1) by simp
  have hit: "h g = l" if "dict_get g0 g = Some l" for g l using that by (simp add: h_def)
  have bound: "h g < lm_batch_size s" if "g \<in> set gids" for g
  proof (cases "dict_get g0 g")
    case None
    then show ?thesis using miss[OF that None] a(4) by (auto simp: h_def)
  next
    case (Some l)
    then have "l \<in> snd ` set g0" by (force dest: map_of_SomeD)
    then show ?thesis using assms(1) hit[OF Some] unfolding mapper_ok_def g0_def set_append set_map by blast
  qed
  have "dict_get (lm_global_to_local s') g = Some (h g)" if "card (set gids) \<le> lm_batch_size s" "g \<in> set gids" for g
  proof -
    have dk: "distinct (dict_keys g1)" using ok by (simp add: mapper_ok_def)
    then have "length cur = card (set gids \<inter> fst ` set g0)"
      unfolding h0(6)[symmetric] h0(5) using distinct_card[of "dict_keys cur"] by simp
    moreover have "length (ord ms) = card (set gids - fst ` set g0)" using os distinct_card by metis
    moreover have "card (set gids) = card (set gids \<inter> fst ` set g0) + card (set gids - fst ` set g0)"
      by (subst card_Un_disjoint[symmetric]) (auto simp: Int_Diff_Un)
    ultimately have "length cur + length (ord ms) \<le> lm_batch_size s" using that(1) by linarith
    from fit[OF h0(5) this] obtain olds' new where
      new: "lm_global_to_local s' = olds' @ cur @ new" "map fst new = ord ms" "\<forall>(g, l) \<in> set new. dict_get nm' g = Some l"
      by auto
    have ds: "distinct (dict_keys (lm_global_to_local s'))" using a(2) by (simp add: mapper_ok_def)
    show ?thesis
    proof (cases "dict_get g0 g")
      case None
      then have "g \<in> fst ` set new" using miss[OF that(2)] new(2) by (metis set_map)
      then obtain l where "(g, l) \<in> set new" by auto
      then have "(g, l) \<in> set (lm_global_to_local s')" "dict_get nm' g = Some l" using new by auto
      then have "dict_get (lm_global_to_local s') g = Some l" "dict_get nm' g = Some l"
        using map_of_is_SomeI[OF ds] by auto
      then show ?thesis using None by (simp add: h_def)
    next
      case (Some l)
      then have "g \<in> fst ` set cur" using that(2) h0(6) by (force dest: map_of_SomeD)
      then obtain l' where l': "(g, l') \<in> set cur" by auto
      then have "dict_get g1 g = Some l'" using dk h0(5) by (intro map_of_is_SomeI) auto
      then have "l' = l" using Some h0(2) by simp
      moreover have "dict_get (lm_global_to_local s') g = Some l'"
        using l' new(1) by (intro map_of_is_SomeI[OF ds]) simp
      ultimately show ?thesis using hit[OF Some] by simp
    qed
  qed
  then show ?thesis using run a(2,3) hit bound by blast
qed

text \<open>
  A batch with no more ids than the mapper has places gets unique local ids: the call succeeds,
  keeps the invariant, returns for every position the local id the mapper now holds for it, below
  the batch size, different ids get different local ids, and an id that was known keeps its own.
\<close>
theorem local_ids_unique:
  assumes "mapper_ok s" "enumerates_set ord" "card (set gids) \<le> lm_batch_size s"
  shows "\<exists>s' h. batch_get_local_ids ord gids s = Inr (s', map (\<lambda>g. int (h g)) gids) \<and> mapper_ok s'
    \<and> (\<forall>g \<in> set gids. dict_get (lm_global_to_local s') g = Some (h g) \<and> h g < lm_batch_size s)
    \<and> inj_on h (set gids)
    \<and> (\<forall>g l. dict_get (lm_global_to_local s) g = Some l \<longrightarrow> h g = l)"
proof -
  obtain s' h where r: "batch_get_local_ids ord gids s = Inr (s', map (\<lambda>g. int (h g)) gids)" "mapper_ok s'"
      "\<forall>g \<in> set gids. h g < lm_batch_size s" "\<forall>g l. dict_get (lm_global_to_local s) g = Some l \<longrightarrow> h g = l"
      "\<forall>g \<in> set gids. dict_get (lm_global_to_local s') g = Some (h g)"
    using batch_get_local_ids_run[OF assms(1,2), of gids] assms(3) by auto
  have "distinct (dict_values (lm_global_to_local s'))" using r(2) by (simp add: mapper_ok_def)
  then have "inj_on snd (set (lm_global_to_local s'))" by (simp add: distinct_map)
  then have "inj_on h (set gids)" using r(5) unfolding inj_on_def by (metis map_of_SomeD snd_conv fst_conv)
  then show ?thesis using r by blast
qed

lemma local_ids_unique_witness:
  "\<exists>s' a b. batch_get_local_ids remdups [40, 17, 40]
     \<lparr>lm_batch_size = 2, lm_global_to_local = [], lm_local_to_global = [], lm_available = [0, 1]\<rparr> =
     Inr (s', [int a, int b, int a]) \<and> a \<noteq> b"
proof -
  let ?s = "\<lparr>lm_batch_size = 2, lm_global_to_local = [], lm_local_to_global = [], lm_available = [0, 1]\<rparr>"
  have "mapper_ok ?s" "enumerates_set remdups" by (auto simp: mapper_ok_def enumerates_set_def)
  moreover have "card (set [40, 17, 40 :: int]) \<le> lm_batch_size ?s" by (simp add: card_insert_if)
  ultimately obtain s' h where "batch_get_local_ids remdups [40, 17, 40] ?s = Inr (s', map (\<lambda>g. int (h g)) [40, 17, 40 :: int])"
      "inj_on h (set [40, 17, 40 :: int])" using local_ids_unique by blast
  then show ?thesis by (intro exI[of _ s'] exI[of _ "h 40"] exI[of _ "h 17"]) (auto simp: inj_on_def)
qed

text \<open>
  A batch with more ids than places is not refused: the call still succeeds and keeps the
  invariant, but two different ids of the batch get the same local id.
\<close>
theorem local_ids_collide:
  assumes "mapper_ok s" "enumerates_set ord" "lm_batch_size s < card (set gids)"
  shows "\<exists>s' h. batch_get_local_ids ord gids s = Inr (s', map (\<lambda>g. int (h g)) gids) \<and> mapper_ok s'
    \<and> \<not> inj_on h (set gids)"
proof -
  obtain s' h where r: "batch_get_local_ids ord gids s = Inr (s', map (\<lambda>g. int (h g)) gids)" "mapper_ok s'"
      "\<forall>g \<in> set gids. h g < lm_batch_size s"
    using batch_get_local_ids_run[OF assms(1,2), of gids] by auto
  have "card (set gids) \<le> lm_batch_size s" if "inj_on h (set gids)"
    using card_inj_on_le[OF that, of "{..<lm_batch_size s}"] r(3) by auto
  then show ?thesis using r assms(3) by force
qed

lemma local_ids_collide_witness:
  "\<exists>s'. batch_get_local_ids remdups [40, 17]
     \<lparr>lm_batch_size = 1, lm_global_to_local = [], lm_local_to_global = [], lm_available = [0]\<rparr> =
     Inr (s', [0, 0])"
proof -
  let ?s = "\<lparr>lm_batch_size = 1, lm_global_to_local = [], lm_local_to_global = [], lm_available = [0]\<rparr>"
  have ok: "mapper_ok ?s" "enumerates_set remdups" by (auto simp: mapper_ok_def enumerates_set_def)
  have r: "map_sum id snd (batch_get_local_ids remdups [40, 17] ?s) = Inr [0, 0]" by code_simp
  have "lm_batch_size ?s < card (set [40, 17 :: int])" by (simp add: card_insert_if)
  then obtain s' h where b: "batch_get_local_ids remdups [40, 17] ?s = Inr (s', map (\<lambda>g. int (h g)) [40, 17 :: int])"
    using local_ids_collide[OF ok] by blast
  show ?thesis using r unfolding b by auto
qed

end
