(* ===== verification/CnMem.thy ===== *)
theory CnMem
  imports Prelude
begin

text \<open>
  The memory allocator of sleep mode (\<^verbatim>\<open>vllm_mlu/device_allocator/cnmem.py\<close>).
  The device is a type of its own; mapping, unmapping and copying are arguments, and what they do to
  the contents of the device is a hypothesis. A failing copy raises, as the extension returns no
  object then; mapping and unmapping only print their errors.
\<close>

section \<open>The code\<close>

text \<open>\<open>py_device, py_alignedSize, py_d_mem, py_p_memHandle\<close>\<close>

record handle =
  h_device :: nat
  h_size :: nat
  h_d_mem :: nat
  h_mem_handle :: nat

record 'c allocation_data =
  ad_handle :: handle
  ad_tag :: string
  ad_backup :: "'c option"

record ('c, 'p) allocator =
  al_pointer_to_data :: "(nat, 'c allocation_data) dict"
  al_current_tag :: string
  al_pools :: "(string, 'p) dict"

definition default_tag :: string where "default_tag = ''default''"

definition new_allocator :: "bool \<Rightarrow> ('c, 'p) allocator res" where
  "new_allocator expandable_segments =
     require (\<not> expandable_segments) AssertionError
     (Inr \<lparr>al_pointer_to_data = [], al_current_tag = default_tag, al_pools = []\<rparr>)"

text \<open>The singleton: the class attribute is the state.\<close>

definition get_instance ::
  "bool \<Rightarrow> bool \<Rightarrow> ('c, 'p) allocator option \<Rightarrow> ('c, 'p) allocator res" where
  "get_instance cnmem_available expandable_segments inst =
     require cnmem_available AssertionError
     (case inst of None \<Rightarrow> new_allocator expandable_segments | Some a \<Rightarrow> Inr a)"

record ('d, 'c) device_ops =
  create_and_map :: "handle \<Rightarrow> 'd \<Rightarrow> 'd"
  unmap_and_release :: "handle \<Rightarrow> 'd \<Rightarrow> 'd"
  memcpy_to_host :: "nat \<Rightarrow> nat \<Rightarrow> 'd \<Rightarrow> 'c res"
  memcpy_to_device :: "nat \<Rightarrow> 'c \<Rightarrow> 'd \<Rightarrow> 'd res"

definition malloc_callback :: "handle \<Rightarrow> ('c, 'p) allocator \<Rightarrow> ('c, 'p) allocator" where
  "malloc_callback h a =
     a\<lparr>al_pointer_to_data := dict_set (h_d_mem h)
         \<lparr>ad_handle = h, ad_tag = al_current_tag a, ad_backup = None\<rparr> (al_pointer_to_data a)\<rparr>"

definition free_callback :: "nat \<Rightarrow> ('c, 'p) allocator \<Rightarrow> (('c, 'p) allocator \<times> handle) res" where
  "free_callback ptr a =
     bind_res (dict_at (al_pointer_to_data a) ptr) (\<lambda>data.
     Inr (a\<lparr>al_pointer_to_data := dict_pop ptr (al_pointer_to_data a)\<rparr>, ad_handle data))"

text \<open>One entry falls asleep: it is copied to the host when its tag asks for it, and unmapped.\<close>

definition sleep_entry ::
  "('d, 'c) device_ops \<Rightarrow> string list \<Rightarrow> nat \<times> 'c allocation_data
    \<Rightarrow> (nat, 'c allocation_data) dict \<times> 'd \<Rightarrow> ((nat, 'c allocation_data) dict \<times> 'd) res" where
  "sleep_entry ops tags p s =
     (let (ptr, data) = p; (out, d) = s in
      bind_res (if ad_tag data \<in> set tags
          then bind_res (memcpy_to_host ops ptr (h_size (ad_handle data)) d) (\<lambda>c. Inr (data\<lparr>ad_backup := Some c\<rparr>))
          else Inr data) (\<lambda>data'.
      Inr (out @ [(ptr, data')], unmap_and_release ops (ad_handle data) d)))"

definition offload_list :: "string list option \<Rightarrow> string list" where
  "offload_list tags = (case tags of None \<Rightarrow> [default_tag] | Some ts \<Rightarrow> ts)"

definition sleep ::
  "('d, 'c) device_ops \<Rightarrow> string list option \<Rightarrow> ('c, 'p) allocator \<times> 'd \<Rightarrow> (('c, 'p) allocator \<times> 'd) res" where
  "sleep ops tags s =
     (let (a, d) = s in
      bind_res (fold_res (sleep_entry ops (offload_list tags)) (al_pointer_to_data a) ([], d)) (\<lambda>(m, d').
      Inr (a\<lparr>al_pointer_to_data := m\<rparr>, d')))"

text \<open>One entry wakes up: it is mapped again and gets its copy back, if there is one.\<close>

definition wake_entry ::
  "('d, 'c) device_ops \<Rightarrow> string list option \<Rightarrow> nat \<times> 'c allocation_data
    \<Rightarrow> (nat, 'c allocation_data) dict \<times> 'd \<Rightarrow> ((nat, 'c allocation_data) dict \<times> 'd) res" where
  "wake_entry ops tags p s =
     (let (ptr, data) = p; (out, d) = s in
      if (case tags of None \<Rightarrow> True | Some ts \<Rightarrow> ad_tag data \<in> set ts)
      then let d1 = create_and_map ops (ad_handle data) d
           in (case ad_backup data of
                 None \<Rightarrow> Inr (out @ [(ptr, data)], d1)
               | Some c \<Rightarrow> bind_res (memcpy_to_device ops ptr c d1) (\<lambda>d2.
                   Inr (out @ [(ptr, data\<lparr>ad_backup := None\<rparr>)], d2)))
      else Inr (out @ [(ptr, data)], d))"

definition wake_up ::
  "('d, 'c) device_ops \<Rightarrow> string list option \<Rightarrow> ('c, 'p) allocator \<times> 'd \<Rightarrow> (('c, 'p) allocator \<times> 'd) res" where
  "wake_up ops tags s =
     (let (a, d) = s in
      bind_res (fold_res (wake_entry ops tags) (al_pointer_to_data a) ([], d)) (\<lambda>(m, d').
      Inr (a\<lparr>al_pointer_to_data := m\<rparr>, d')))"

definition get_current_usage :: "('c, 'p) allocator \<Rightarrow> nat" where
  "get_current_usage a = sum_list (map (\<lambda>p. h_size (ad_handle (snd p))) (al_pointer_to_data a))"

text \<open>
  The context manager: the tag is set, the body runs, unused allocations of the pool are released and
  the tag is restored. An exception of the body leaves the generator at its \<^verbatim>\<open>yield\<close>, so
  the result keeps the state beside the error.
\<close>

fun release_unused ::
  "('d, 'c) device_ops \<Rightarrow> (nat \<times> nat) list \<Rightarrow> ('c, 'p) allocator \<times> 'd \<Rightarrow> ('c, 'p) allocator \<times> 'd \<times> py_error option" where
  "release_unused ops [] (a, d) = (a, d, None)"
| "release_unused ops ((address, allocated_size) # rest) (a, d) =
     (if allocated_size = 0
      then (case free_callback address a of
              Inl e \<Rightarrow> (a, d, Some e)
            | Inr (a', h) \<Rightarrow> release_unused ops rest (a', unmap_and_release ops h d))
      else release_unused ops rest (a, d))"

definition use_memory_pool ::
  "('d, 'c) device_ops \<Rightarrow> 'p \<Rightarrow> ('p \<Rightarrow> 'd \<Rightarrow> (nat \<times> nat) list) \<Rightarrow> string option
    \<Rightarrow> (('c, 'p) allocator \<times> 'd \<Rightarrow> ('c, 'p) allocator \<times> 'd \<times> py_error option)
    \<Rightarrow> ('c, 'p) allocator \<times> 'd \<Rightarrow> ('c, 'p) allocator \<times> 'd \<times> py_error option" where
  "use_memory_pool ops pool snapshot tag body s =
     (let (a, d) = s;
          t = (case tag of None \<Rightarrow> default_tag | Some t \<Rightarrow> t);
          old_tag = al_current_tag a;
          (a1, d1, err) = body (a\<lparr>al_current_tag := t, al_pools := dict_set t pool (al_pools a)\<rparr>, d)
      in case err of
           Some e \<Rightarrow> (a1, d1, Some e)
         | None \<Rightarrow>
             (case release_unused ops (snapshot pool d1) (a1, d1) of
                (a2, d2, Some e) \<Rightarrow> (a2, d2, Some e)
              | (a2, d2, None) \<Rightarrow> (a2\<lparr>al_current_tag := old_tag\<rparr>, d2, None)))"

section \<open>What the code relies on\<close>

text \<open>
  \<open>view d p\<close> is what is mapped at address \<open>p\<close>: mapping gives an unmapped address some content,
  unmapping takes it away, copies move whole contents and fail on unmapped addresses.
\<close>

definition device_laws :: "('d, 'c) device_ops \<Rightarrow> ('d \<Rightarrow> nat \<Rightarrow> 'c option) \<Rightarrow> bool" where
  "device_laws ops view \<longleftrightarrow>
     (\<forall>h d. view d (h_d_mem h) = None \<longrightarrow> (\<exists>c. view (create_and_map ops h d) = (view d)(h_d_mem h \<mapsto> c)))
   \<and> (\<forall>h d. view (unmap_and_release ops h d) = (view d)(h_d_mem h := None))
   \<and> (\<forall>p n d. memcpy_to_host ops p n d = (case view d p of None \<Rightarrow> Inl SystemError | Some c \<Rightarrow> Inr c))
   \<and> (\<forall>p c d. view d p \<noteq> None \<longrightarrow>
        (\<exists>d'. memcpy_to_device ops p c d = Inr d' \<and> view d' = (view d)(p \<mapsto> c)))"

definition entries_ok :: "(nat, 'c allocation_data) dict \<Rightarrow> bool" where
  "entries_ok m \<longleftrightarrow> distinct (dict_keys m) \<and> (\<forall>(p, x) \<in> set m. h_d_mem (ad_handle x) = p)"

lemma entries_ok_Cons:
  "entries_ok ((p, x) # m) \<longleftrightarrow> p \<notin> fst ` set m \<and> h_d_mem (ad_handle x) = p \<and> entries_ok m"
  by (auto simp: entries_ok_def)

text \<open>The allocator keeps its entries in order, and counts what it holds.\<close>

lemma malloc_callback_ok: "entries_ok (al_pointer_to_data a) \<Longrightarrow> entries_ok (al_pointer_to_data (malloc_callback h a))"
proof -
  have "set (dict_set k v d) \<subseteq> insert (k, v) (set d)" for k and v :: "'v" and d
    by (induction d) auto
  then show "entries_ok (al_pointer_to_data a) \<Longrightarrow> ?thesis"
    by (fastforce simp: entries_ok_def malloc_callback_def)
qed

lemma free_callback_ok:
  "free_callback p a = Inr (a', h) \<Longrightarrow> entries_ok (al_pointer_to_data a) \<Longrightarrow> entries_ok (al_pointer_to_data a')"
  using distinct_dict_pop[of "al_pointer_to_data a" p] dict_pop_subset[of p "al_pointer_to_data a"]
  by (auto simp: free_callback_def bind_res_eq_Inr entries_ok_def)

section \<open>Falling asleep and waking up\<close>

definition asleep_data :: "string list \<Rightarrow> (nat \<Rightarrow> 'c option) \<Rightarrow> nat \<times> 'c allocation_data \<Rightarrow> nat \<times> 'c allocation_data" where
  "asleep_data tags v p =
     (fst p, if ad_tag (snd p) \<in> set tags then (snd p)\<lparr>ad_backup := v (fst p)\<rparr> else snd p)"

lemma sleep_entries:
  assumes "device_laws ops view" "entries_ok m" "\<forall>p \<in> fst ` set m. view d p \<noteq> None"
  shows "\<exists>d'. fold_res (sleep_entry ops tags) m (out, d) = Inr (out @ map (asleep_data tags (view d)) m, d')
    \<and> view d' = (\<lambda>p. if p \<in> fst ` set m then None else view d p)"
  using assms(2,3)
proof (induction m arbitrary: out d)
  case Nil
  then show ?case by simp
next
  case (Cons q m)
  obtain p x where q: "q = (p, x)" by (cases q)
  note ok = Cons.prems(1)[unfolded q entries_ok_Cons]
  obtain c where c: "view d p = Some c" using Cons.prems(2) q by auto
  let ?d = "unmap_and_release ops (ad_handle x) d"
  have v: "view ?d = (view d)(p := None)" using assms(1) ok by (simp add: device_laws_def)
  have "\<forall>p \<in> fst ` set m. view ?d p \<noteq> None"
  proof
    fix p'
    assume "p' \<in> fst ` set m"
    then have "p' \<noteq> p" using ok by blast
    moreover have "view d p' \<noteq> None" using Cons.prems(2) \<open>p' \<in> fst ` set m\<close> unfolding list.set by blast
    ultimately show "view ?d p' \<noteq> None" using v by simp
  qed
  from Cons.IH[OF _ this, of "out @ [asleep_data tags (view d) q]"] ok obtain d' where
    r: "fold_res (sleep_entry ops tags) m (out @ [asleep_data tags (view d) q], ?d) =
        Inr (out @ [asleep_data tags (view d) q] @ map (asleep_data tags (view ?d)) m, d')"
      "view d' = (\<lambda>p. if p \<in> fst ` set m then None else view ?d p)" by auto
  have "sleep_entry ops tags q (out, d) = Inr (out @ [asleep_data tags (view d) q], ?d)"
    using assms(1) c by (auto simp: sleep_entry_def asleep_data_def q device_laws_def)
  moreover have "map (asleep_data tags (view ?d)) m = map (asleep_data tags (view d)) m"
    using ok v by (intro map_cong) (auto simp: asleep_data_def image_iff)
  ultimately show ?case using r v by (intro exI[of _ d']) (auto simp: q fun_eq_iff)
qed

definition wakes :: "string list option \<Rightarrow> 'c allocation_data \<Rightarrow> bool" where
  "wakes tags x = (case tags of None \<Rightarrow> True | Some ts \<Rightarrow> ad_tag x \<in> set ts)"

definition awake_data :: "string list option \<Rightarrow> nat \<times> 'c allocation_data \<Rightarrow> nat \<times> 'c allocation_data" where
  "awake_data tags p = (fst p, if wakes tags (snd p) then (snd p)\<lparr>ad_backup := None\<rparr> else snd p)"

lemma wake_entries:
  assumes "device_laws ops view" "entries_ok m" "\<forall>(p, x) \<in> set m. wakes tags x \<longrightarrow> view d p = None"
  shows "\<exists>d'. fold_res (wake_entry ops tags) m (out, d) = Inr (out @ map (awake_data tags) m, d')
    \<and> (\<forall>(p, x) \<in> set m. wakes tags x \<longrightarrow> view d' p \<noteq> None \<and> (\<forall>c. ad_backup x = Some c \<longrightarrow> view d' p = Some c))
    \<and> (\<forall>p. (\<forall>x. (p, x) \<in> set m \<longrightarrow> \<not> wakes tags x) \<longrightarrow> view d' p = view d p)"
  using assms(2,3)
proof (induction m arbitrary: out d)
  case Nil
  then show ?case by simp
next
  case (Cons q m)
  obtain p x where q: "q = (p, x)" by (cases q)
  note ok = Cons.prems(1)[unfolded q entries_ok_Cons]
  obtain d1 where d1: "wake_entry ops tags q (out, d) = Inr (out @ [awake_data tags q], d1)"
      "wakes tags x \<Longrightarrow> view d1 p \<noteq> None \<and> (\<forall>c. ad_backup x = Some c \<longrightarrow> view d1 p = Some c)"
      "\<And>p'. p' \<noteq> p \<or> \<not> wakes tags x \<Longrightarrow> view d1 p' = view d p'"
  proof (cases "wakes tags x")
    case False
    then show ?thesis
      by (intro that[of d]) (auto simp: wake_entry_def wakes_def awake_data_def q split: option.splits)
  next
    case True
    let ?d = "create_and_map ops (ad_handle x) d"
    have "view d (h_d_mem (ad_handle x)) = None" using Cons.prems(2) True ok by (auto simp: q)
    then obtain c0 where v: "view ?d = (view d)(p \<mapsto> c0)" using assms(1) ok unfolding device_laws_def by metis
    show ?thesis
    proof (cases "ad_backup x")
      case None
      then show ?thesis using True v
        by (intro that[of ?d]) (auto simp: wake_entry_def wakes_def awake_data_def q split: option.splits)
    next
      case (Some c)
      have "view ?d p \<noteq> None" using v by simp
      then obtain d2 where d2: "memcpy_to_device ops p c ?d = Inr d2" "view d2 = (view ?d)(p \<mapsto> c)"
        using assms(1) unfolding device_laws_def by metis
      then show ?thesis using True v Some
        by (intro that[of d2]) (auto simp: wake_entry_def wakes_def awake_data_def q split: option.splits)
    qed
  qed
  have "\<forall>(p, x) \<in> set m. wakes tags x \<longrightarrow> view d1 p = None"
  proof (intro ballI, clarify)
    fix p' x'
    assume "(p', x') \<in> set m" "wakes tags x'"
    then have "p' \<noteq> p" using ok by force
    moreover have "view d p' = None" using Cons.prems(2) \<open>(p', x') \<in> set m\<close> \<open>wakes tags x'\<close> by auto
    ultimately show "view d1 p' = None" using d1(3) by simp
  qed
  from Cons.IH[OF _ this, of "out @ [awake_data tags q]"] ok obtain d' where
    r: "fold_res (wake_entry ops tags) m (out @ [awake_data tags q], d1) = Inr (out @ [awake_data tags q] @ map (awake_data tags) m, d')"
      "\<forall>(p, x) \<in> set m. wakes tags x \<longrightarrow> view d' p \<noteq> None \<and> (\<forall>c. ad_backup x = Some c \<longrightarrow> view d' p = Some c)"
      "\<And>p. \<forall>x. (p, x) \<in> set m \<longrightarrow> \<not> wakes tags x \<Longrightarrow> view d' p = view d1 p" by auto
  have same: "view d' p = view d1 p" using ok by (intro r(3)) force
  show ?case
  proof (intro exI conjI)
    show "fold_res (wake_entry ops tags) (q # m) (out, d) = Inr (out @ map (awake_data tags) (q # m), d')"
      using d1(1) r(1) by simp
    show "\<forall>(p, x) \<in> set (q # m). wakes tags x \<longrightarrow> view d' p \<noteq> None \<and> (\<forall>c. ad_backup x = Some c \<longrightarrow> view d' p = Some c)"
      using r(2) d1(2) same by (simp add: q)
    show "\<forall>p. (\<forall>x. (p, x) \<in> set (q # m) \<longrightarrow> \<not> wakes tags x) \<longrightarrow> view d' p = view d p"
    proof (intro allI impI)
      fix p'
      assume a: "\<forall>x. (p', x) \<in> set (q # m) \<longrightarrow> \<not> wakes tags x"
      then have "view d' p' = view d1 p'" by (intro r(3)) simp
      also have "\<dots> = view d p'" using a by (intro d1(3)) (auto simp: q)
      finally show "view d' p' = view d p'" .
    qed
  qed
qed

text \<open>
  The state between sleeping and waking: entries whose tag is in \<open>W\<close> are awake again, the others
  are unmapped and keep their copy. \<open>v\<close> is what the device held before.
\<close>

definition partly_awake ::
  "string list \<Rightarrow> (nat \<Rightarrow> 'c option) \<Rightarrow> (nat, 'c allocation_data) dict \<Rightarrow> string set
    \<Rightarrow> (nat, 'c allocation_data) dict \<Rightarrow> (nat \<Rightarrow> 'c option) \<Rightarrow> bool" where
  "partly_awake tags v m W m' v' \<longleftrightarrow>
     m' = map (\<lambda>q. if ad_tag (snd q) \<in> W then q else asleep_data tags v q) m
   \<and> (\<forall>(p, x) \<in> set m. if ad_tag x \<in> W then (if ad_tag x \<in> set tags then v' p = v p else v' p \<noteq> None) else v' p = None)
   \<and> (\<forall>p. p \<notin> fst ` set m \<longrightarrow> v' p = v p)"

lemma entry_key: "(p, x) \<in> set m \<Longrightarrow> p \<in> fst ` set m"
  by (metis fst_conv imageI)

lemma partly_awake_sleep:
  assumes "device_laws ops view" "entries_ok (al_pointer_to_data a)"
    and "\<forall>p \<in> fst ` set (al_pointer_to_data a). view d p \<noteq> None"
  shows "\<exists>a' d'. sleep ops tags (a, d) = Inr (a', d') \<and> a' = a\<lparr>al_pointer_to_data := al_pointer_to_data a'\<rparr>
    \<and> partly_awake (offload_list tags) (view d) (al_pointer_to_data a) {} (al_pointer_to_data a') (view d')"
  using sleep_entries[OF assms, of "offload_list tags" "[]"]
  by (auto simp: sleep_def partly_awake_def) (metis entry_key)

lemma partly_awake_wake:
  assumes "device_laws ops view" "entries_ok m" "\<forall>(p, x) \<in> set m. ad_backup x = None \<and> v p \<noteq> None"
    and "partly_awake tags v m W (al_pointer_to_data a) (view d)" "set ts \<inter> W = {}"
  shows "\<exists>a' d'. wake_up ops (Some ts) (a, d) = Inr (a', d') \<and> a' = a\<lparr>al_pointer_to_data := al_pointer_to_data a'\<rparr>
    \<and> partly_awake tags v m (W \<union> set ts) (al_pointer_to_data a') (view d')"
proof -
  let ?f = "\<lambda>q. if ad_tag (snd q) \<in> W then q else asleep_data tags v q"
  let ?g = "\<lambda>q. if ad_tag (snd q) \<in> W \<union> set ts then q else asleep_data tags v q"
  have f: "fst (?f q) = fst q" "ad_tag (snd (?f q)) = ad_tag (snd q)" "ad_handle (snd (?f q)) = ad_handle (snd q)" for q
    by (simp_all add: asleep_data_def)
  have m': "al_pointer_to_data a = map ?f m" using assms(4) by (simp add: partly_awake_def)
  define mm where "mm = map ?f m"
  have keys: "dict_keys (map ?f m) = dict_keys m" by (simp add: comp_def asleep_data_def if_distrib)
  have ok: "entries_ok mm"
    using assms(2) unfolding entries_ok_def mm_def keys by (auto simp: asleep_data_def)
  have "\<forall>(p, x) \<in> set mm. wakes (Some ts) x \<longrightarrow> view d p = None"
    using assms(4,5) by (fastforce simp: mm_def partly_awake_def wakes_def asleep_data_def)
  from wake_entries[OF assms(1) ok this, of "[]"] obtain d' where
    r0: "fold_res (wake_entry ops (Some ts)) mm ([], d) = Inr ([] @ map (awake_data (Some ts)) mm, d')"
      "\<forall>(p, x) \<in> set mm. wakes (Some ts) x \<longrightarrow> view d' p \<noteq> None \<and> (\<forall>c. ad_backup x = Some c \<longrightarrow> view d' p = Some c)"
      "\<forall>p. (\<forall>x. (p, x) \<in> set mm \<longrightarrow> \<not> wakes (Some ts) x) \<longrightarrow> view d' p = view d p"
    by blast
  have r: "fold_res (wake_entry ops (Some ts)) mm ([], d) = Inr (map (awake_data (Some ts)) mm, d')"
      "\<And>p x. (p, x) \<in> set mm \<Longrightarrow> wakes (Some ts) x \<Longrightarrow>
         view d' p \<noteq> None \<and> (\<forall>c. ad_backup x = Some c \<longrightarrow> view d' p = Some c)"
      "\<And>p. \<forall>x. (p, x) \<in> set mm \<longrightarrow> \<not> wakes (Some ts) x \<Longrightarrow> view d' p = view d p"
    using r0 by auto
  have undo: "awake_data (Some ts) (?f q) = ?g q" if "q \<in> set m" for q
    using assms(3,5) that by (cases q) (auto simp: awake_data_def wakes_def asleep_data_def)
  have h1: "if ad_tag x \<in> W \<union> set ts then (if ad_tag x \<in> set tags then view d' p = v p else view d' p \<noteq> None) else view d' p = None"
    if px: "(p, x) \<in> set m" for p x
  proof (cases "ad_tag x \<in> set ts")
    case True
    then have W: "ad_tag x \<notin> W" using assms(5) by auto
    have "asleep_data tags v (p, x) \<in> set mm" using px W by (force simp: mm_def)
    then obtain y where y: "(p, y) \<in> set mm" "(p, y) = asleep_data tags v (p, x)" "ad_tag y = ad_tag x"
      by (auto simp: asleep_data_def split: if_splits)
    obtain c where "v p = Some c" using assms(3) px by auto
    then show ?thesis using r(2)[OF y(1)] y(2,3) True by (auto simp: wakes_def asleep_data_def)
  next
    case False
    have "\<not> wakes (Some ts) y" if y: "(p, y) \<in> set mm" for y
    proof -
      obtain q where q: "q \<in> set m" "(p, y) = ?f q" using y by (auto simp: mm_def)
      then have "fst q = p" "ad_tag y = ad_tag (snd q)" using f[of q] by (metis fst_conv, metis snd_conv)
      moreover have "snd q = x" using q(1) \<open>(p, x) \<in> set m\<close> assms(2) \<open>fst q = p\<close>
        by (metis entries_ok_def eq_key_imp_eq_value prod.collapse)
      ultimately show ?thesis using False by (simp add: wakes_def)
    qed
    then have "view d' p = view d p" using r(3) by blast
    then show ?thesis using assms(4) px False by (fastforce simp: partly_awake_def)
  qed
  have h2: "view d' p = v p" if "p \<notin> fst ` set m" for p
  proof -
    have "view d' p = view d p" using that by (intro r(3)) (force simp: asleep_data_def mm_def)
    then show ?thesis using assms(4) that by (simp add: partly_awake_def)
  qed
  have "map (awake_data (Some ts)) mm = map ?g m" using undo by (simp add: mm_def)
  then have "wake_up ops (Some ts) (a, d) = Inr (a\<lparr>al_pointer_to_data := map ?g m\<rparr>, d')"
    using r(1) m' unfolding mm_def[symmetric] wake_up_def by simp
  moreover have "partly_awake tags v m (W \<union> set ts) (map ?g m) (view d')"
    unfolding partly_awake_def using h1 h2 by blast
  ultimately show ?thesis by (intro exI[of _ "a\<lparr>al_pointer_to_data := map ?g m\<rparr>"] exI[of _ d']) simp
qed

lemma partly_awake_groups:
  assumes "device_laws ops view" "entries_ok m" "\<forall>(p, x) \<in> set m. ad_backup x = None \<and> v p \<noteq> None"
    and "partly_awake tags v m W (al_pointer_to_data a) (view d)" "distinct (concat groups)" "set (concat groups) \<inter> W = {}"
  shows "\<exists>a' d'. fold_res (\<lambda>ts. wake_up ops (Some ts)) groups (a, d) = Inr (a', d')
    \<and> a' = a\<lparr>al_pointer_to_data := al_pointer_to_data a'\<rparr>
    \<and> partly_awake tags v m (W \<union> set (concat groups)) (al_pointer_to_data a') (view d')"
  using assms(4-)
proof (induction groups arbitrary: W a d)
  case Nil
  then show ?case by simp
next
  case (Cons ts groups)
  obtain a1 d1 where s: "wake_up ops (Some ts) (a, d) = Inr (a1, d1)"
      "a1 = a\<lparr>al_pointer_to_data := al_pointer_to_data a1\<rparr>"
      "partly_awake tags v m (W \<union> set ts) (al_pointer_to_data a1) (view d1)"
    using partly_awake_wake[OF assms(1-3) Cons.prems(1), of ts] Cons.prems(3) by auto
  have dis: "distinct (concat groups)" "set (concat groups) \<inter> (W \<union> set ts) = {}"
    using Cons.prems(2,3) by auto
  obtain a' d' where "fold_res (\<lambda>ts. wake_up ops (Some ts)) groups (a1, d1) = Inr (a', d')"
      "a' = a1\<lparr>al_pointer_to_data := al_pointer_to_data a'\<rparr>"
      "partly_awake tags v m ((W \<union> set ts) \<union> set (concat groups)) (al_pointer_to_data a') (view d')"
    using Cons.IH[OF s(3) dis] by blast
  moreover from this(2) s(2) have "a' = a\<lparr>al_pointer_to_data := al_pointer_to_data a'\<rparr>"
    by (metis allocator.update_convs(1) allocator.surjective)
  ultimately show ?case using s(1) by (intro exI[of _ a'] exI[of _ d']) (simp add: Un_assoc)
qed

text \<open>
  C17. Sleeping frees all memory and waking up restores what was offloaded: after a sleep no entry of
  the allocator is mapped; waking up the tags, all at once or group by group in any order, succeeds
  and leaves the allocator as it was, every offloaded entry holds its old content, every discarded
  entry is mapped again, and nothing outside the allocator changes.
\<close>
theorem sleep_wake_restores:
  assumes "device_laws ops view" "entries_ok (al_pointer_to_data a)"
    and "\<forall>(p, x) \<in> set (al_pointer_to_data a). ad_backup x = None \<and> view d p \<noteq> None"
    and "distinct (concat groups)" "\<forall>(p, x) \<in> set (al_pointer_to_data a). ad_tag x \<in> set (concat groups)"
  shows "\<exists>a1 d1 d2. sleep ops tags (a, d) = Inr (a1, d1)
    \<and> (\<forall>(p, x) \<in> set (al_pointer_to_data a). view d1 p = None)
    \<and> fold_res (\<lambda>ts. wake_up ops (Some ts)) groups (a1, d1) = Inr (a, d2)
    \<and> (\<forall>(p, x) \<in> set (al_pointer_to_data a).
         if ad_tag x \<in> set (offload_list tags) then view d2 p = view d p else view d2 p \<noteq> None)
    \<and> (\<forall>p. p \<notin> fst ` set (al_pointer_to_data a) \<longrightarrow> view d2 p = view d p)"
proof -
  let ?m = "al_pointer_to_data a" and ?T = "offload_list tags"
  have "\<forall>p \<in> fst ` set ?m. view d p \<noteq> None" using assms(3) by auto
  from partly_awake_sleep[OF assms(1,2) this, of tags] obtain a1 d1 where
    s: "sleep ops tags (a, d) = Inr (a1, d1)" "a1 = a\<lparr>al_pointer_to_data := al_pointer_to_data a1\<rparr>"
      "partly_awake ?T (view d) ?m {} (al_pointer_to_data a1) (view d1)" by auto
  from partly_awake_groups[OF assms(1-3) s(3) assms(4)] obtain a2 d2 where
    w: "fold_res (\<lambda>ts. wake_up ops (Some ts)) groups (a1, d1) = Inr (a2, d2)"
      "a2 = a1\<lparr>al_pointer_to_data := al_pointer_to_data a2\<rparr>"
      "partly_awake ?T (view d) ?m (set (concat groups)) (al_pointer_to_data a2) (view d2)" by auto
  have "al_pointer_to_data a2 = ?m"
  proof -
    have "(if ad_tag (snd q) \<in> set (concat groups) then q else asleep_data ?T (view d) q) = q" if "q \<in> set ?m" for q
      using assms(5) that by (cases q) fastforce
    then show ?thesis using w(3) unfolding partly_awake_def by (simp add: map_idI del: set_concat)
  qed
  then have "a2 = a" using w(2) s(2) by (metis allocator.update_convs(1) allocator.surjective)
  moreover have "\<forall>(p, x) \<in> set ?m. view d1 p = None" using s(3) by (auto simp: partly_awake_def)
  moreover have "\<forall>(p, x) \<in> set ?m. if ad_tag x \<in> set ?T then view d2 p = view d p else view d2 p \<noteq> None"
  proof
    fix q
    assume q: "q \<in> set ?m"
    have "\<forall>(p, x) \<in> set ?m. if ad_tag x \<in> set (concat groups)
        then (if ad_tag x \<in> set ?T then view d2 p = view d p else view d2 p \<noteq> None) else view d2 p = None"
      using w(3) unfolding partly_awake_def by blast
    from bspec[OF this q] bspec[OF assms(5) q]
    show "case q of (p, x) \<Rightarrow> if ad_tag x \<in> set ?T then view d2 p = view d p else view d2 p \<noteq> None"
      by (cases q) (simp del: set_concat)
  qed
  moreover have "\<forall>p. p \<notin> fst ` set ?m \<longrightarrow> view d2 p = view d p" using w(3) by (simp add: partly_awake_def)
  ultimately show ?thesis using s(1) w(1) by blast
qed

text \<open>A device for examples: a finite memory of one content per address.\<close>

definition demo_ops :: "((nat, int) dict, int) device_ops" where
  "demo_ops =
     \<lparr>create_and_map = (\<lambda>h d. dict_set (h_d_mem h) 0 d),
      unmap_and_release = (\<lambda>h d. dict_pop (h_d_mem h) d),
      memcpy_to_host = (\<lambda>p n d. case dict_get d p of None \<Rightarrow> Inl SystemError | Some c \<Rightarrow> Inr c),
      memcpy_to_device = (\<lambda>p c d. Inr (dict_set p c d))\<rparr>"

lemma demo_ops_laws: "device_laws demo_ops dict_get"
  by (auto simp: device_laws_def demo_ops_def)

definition demo_handle :: "nat \<Rightarrow> handle" where
  "demo_handle p = \<lparr>h_device = 0, h_size = 4, h_d_mem = p, h_mem_handle = 0\<rparr>"

definition demo_allocator :: "(int, unit) allocator" where
  "demo_allocator =
     \<lparr>al_pointer_to_data = [(16, \<lparr>ad_handle = demo_handle 16, ad_tag = ''weights'', ad_backup = None\<rparr>),
                           (32, \<lparr>ad_handle = demo_handle 32, ad_tag = ''kv_cache'', ad_backup = None\<rparr>)],
      al_current_tag = default_tag, al_pools = []\<rparr>"

lemma sleep_wake_restores_witness:
  "\<exists>a1 d1 d2. sleep demo_ops (Some [''weights'']) (demo_allocator, [(16, 7), (32, 8)]) = Inr (a1, d1)
    \<and> fold_res (\<lambda>ts. wake_up demo_ops (Some ts)) [[''kv_cache''], [''weights'']] (a1, d1) = Inr (demo_allocator, d2)
    \<and> dict_get d2 16 = Some 7"
proof -
  have "entries_ok (al_pointer_to_data demo_allocator)"
    by (simp add: entries_ok_def demo_allocator_def demo_handle_def)
  from sleep_wake_restores[OF demo_ops_laws this, of "[(16, 7), (32, 8)]" "[[''kv_cache''], [''weights'']]" "Some [''weights'']"]
  show ?thesis by (force simp: demo_allocator_def offload_list_def)
qed

text \<open>
  Sleeping twice without waking up raises: the entries to offload are not mapped any more, so the
  second copy to the host fails, before any backup is lost.
\<close>
theorem sleep_twice_raises:
  assumes "device_laws ops view" "entries_ok (al_pointer_to_data a)"
    and "\<forall>p \<in> fst ` set (al_pointer_to_data a). view d p \<noteq> None"
    and "sleep ops tags (a, d) = Inr s1" "list_ex (\<lambda>q. ad_tag (snd q) \<in> set (offload_list tags)) (al_pointer_to_data a)"
  shows "sleep ops tags s1 = Inl SystemError"
proof -
  let ?m = "al_pointer_to_data a" and ?T = "offload_list tags"
  have raise: "fold_res (sleep_entry ops ?T) m (out, d) = Inl SystemError"
    if "list_ex (\<lambda>q. ad_tag (snd q) \<in> set ?T) m" "\<forall>p \<in> fst ` set m. view d p = None" for m out d
    using that
  proof (induction m arbitrary: out d)
    case (Cons q m)
    obtain p x where q: "q = (p, x)" by (cases q)
    show ?case
    proof (cases "ad_tag x \<in> set ?T")
      case True
      then show ?thesis using Cons.prems(2) assms(1) by (simp add: sleep_entry_def q device_laws_def)
    next
      case False
      let ?d = "unmap_and_release ops (ad_handle x) d"
      have "\<forall>p \<in> fst ` set m. view ?d p = None" using Cons.prems(2) assms(1) by (simp add: device_laws_def)
      then show ?thesis using Cons.IH Cons.prems(1) False by (simp add: sleep_entry_def q)
    qed
  qed simp
  obtain a1 d1 where s: "s1 = (a1, d1)" "partly_awake ?T (view d) ?m {} (al_pointer_to_data a1) (view d1)"
    using partly_awake_sleep[OF assms(1-3), of tags] assms(4) by auto
  have m1: "al_pointer_to_data a1 = map (asleep_data ?T (view d)) ?m" using s(2) by (simp add: partly_awake_def)
  have "list_ex (\<lambda>q. ad_tag (snd q) \<in> set ?T) (al_pointer_to_data a1)"
    using assms(5) unfolding m1 by (auto simp: list_ex_iff asleep_data_def)
  moreover have "\<forall>p \<in> fst ` set (al_pointer_to_data a1). view d1 p = None"
    using s(2) unfolding m1 by (auto simp: partly_awake_def asleep_data_def)
  ultimately show ?thesis using raise by (simp add: sleep_def s(1))
qed

lemma sleep_twice_raises_witness:
  "\<exists>s1. sleep demo_ops (Some [''weights'']) (demo_allocator, [(16, 7), (32, 8)]) = Inr s1
    \<and> sleep demo_ops (Some [''weights'']) s1 = Inl SystemError"
proof -
  have e: "entries_ok (al_pointer_to_data demo_allocator)"
    "\<forall>p \<in> fst ` set (al_pointer_to_data demo_allocator). dict_get [(16, 7 :: int), (32, 8)] p \<noteq> None"
    by (simp_all add: entries_ok_def demo_allocator_def demo_handle_def)
  then obtain s1 where s: "sleep demo_ops (Some [''weights'']) (demo_allocator, [(16, 7), (32, 8)]) = Inr s1"
    using partly_awake_sleep[OF demo_ops_laws, of demo_allocator "[(16, 7), (32, 8)]" "Some [''weights'']"] by auto
  show ?thesis using s sleep_twice_raises[OF demo_ops_laws e s]
    by (auto simp: demo_allocator_def offload_list_def)
qed

lemma release_unused_tag: "al_current_tag (fst (release_unused ops l (a, d))) = al_current_tag a"
proof (induction l arbitrary: a d)
  case Nil
  then show ?case by simp
next
  case (Cons q l)
  show ?case using Cons by (cases q) (auto simp: free_callback_def bind_res_eq_Inr split: sum.splits)
qed

text \<open>
  The memory pool context restores the tag only when its body and the release of the unused
  allocations succeed: after an exception the allocator keeps the tag of the context, and later
  allocations outside of it are recorded under that tag.
\<close>
theorem use_memory_pool_tag:
  assumes "\<And>s. al_current_tag (fst (body s)) = al_current_tag (fst s)"
    and "use_memory_pool ops pool snapshot tag body (a, d) = (a', d', err)"
  shows "al_current_tag a' =
    (if err = None then al_current_tag a else case tag of None \<Rightarrow> default_tag | Some t \<Rightarrow> t)"
proof -
  let ?t = "case tag of None \<Rightarrow> default_tag | Some t \<Rightarrow> t"
  obtain a1 d1 e where b: "body (a\<lparr>al_current_tag := ?t, al_pools := dict_set ?t pool (al_pools a)\<rparr>, d) = (a1, d1, e)"
    by (metis prod_cases3)
  have t: "al_current_tag a1 = ?t"
    using assms(1)[of "(a\<lparr>al_current_tag := ?t, al_pools := dict_set ?t pool (al_pools a)\<rparr>, d)"] b by simp
  obtain a2 d2 e2 where r: "release_unused ops (snapshot pool d1) (a1, d1) = (a2, d2, e2)" by (metis prod_cases3)
  have "al_current_tag a2 = ?t" using release_unused_tag[of ops "snapshot pool d1" a1 d1] r t by simp
  then show ?thesis using assms(2) b r t
    by (auto simp: use_memory_pool_def Let_def split: option.splits)
qed

lemma use_memory_pool_tag_witness:
  "al_current_tag (fst (use_memory_pool demo_ops () (\<lambda>_ _. []) (Some ''kv_cache'')
     (\<lambda>(a, d). (a, d, Some RuntimeError)) (demo_allocator, []))) = ''kv_cache''"
proof -
  let ?body = "\<lambda>(a, d). (a, d, Some RuntimeError)"
  obtain a' d' err where r: "use_memory_pool demo_ops () (\<lambda>_ _. []) (Some ''kv_cache'') ?body (demo_allocator, []) = (a', d', err)"
    by (metis prod_cases3)
  then have "err = Some RuntimeError" by (simp add: use_memory_pool_def Let_def)
  with use_memory_pool_tag[OF _ r] r show ?thesis by (auto split: prod.splits)
qed

text \<open>
  The bookkeeping of the callbacks: recording a fresh allocation raises the usage by its size, and
  freeing it returns its handle and leaves the allocator as it was before.
\<close>
theorem malloc_free_roundtrip:
  assumes "h_d_mem h \<notin> fst ` set (al_pointer_to_data a)"
  shows "get_current_usage (malloc_callback h a) = get_current_usage a + h_size h
    \<and> free_callback (h_d_mem h) (malloc_callback h a) = Inr (a, h)"
proof -
  have "dict_set (h_d_mem h) x (al_pointer_to_data a) = al_pointer_to_data a @ [(h_d_mem h, x)]" for x
    using assms by (simp add: dict_set_fresh)
  moreover have "dict_pop (h_d_mem h) (al_pointer_to_data a) = al_pointer_to_data a"
    using assms by (simp add: dict_pop_absent)
  moreover have "dict_get (al_pointer_to_data a) (h_d_mem h) = None" using assms by (simp add: map_of_eq_None_iff)
  ultimately show ?thesis
    by (simp add: get_current_usage_def malloc_callback_def free_callback_def dict_at_def dict_pop_def map_add_def)
qed

lemma malloc_free_roundtrip_witness:
  "free_callback 48 (malloc_callback (demo_handle 48) demo_allocator) = Inr (demo_allocator, demo_handle 48)"
  using malloc_free_roundtrip[of "demo_handle 48" demo_allocator] by (simp add: demo_allocator_def demo_handle_def)

end
