(* ===== verification/KvState.thy ===== *)
theory KvState
  imports SlotPool
begin

text \<open>
  The slots of the cached states of a model runner (\<^verbatim>\<open>_init_kv_state\<close>,
  \<^verbatim>\<open>_insert_req_id\<close> and \<^verbatim>\<open>_remove_req_id\<close> of
  \<^verbatim>\<open>vllm_mlu/v1/worker/gpu_model_runner.py\<close>). The attributes exist for one model
  type only, so the state is an option; which element \<^verbatim>\<open>set.pop\<close> takes is an argument.
\<close>

record kv_state =
  ks_free :: "nat list"
  ks_slots :: "(nat, nat) dict"

definition init_kv_state :: "string \<Rightarrow> nat \<Rightarrow> kv_state option" where
  "init_kv_state model_type max_num_seqs =
     (if model_type \<noteq> ''deepseek_v4'' then None
      else Some \<lparr>ks_free = [0..<max_num_seqs], ks_slots = []\<rparr>)"

definition insert_one :: "(nat list \<Rightarrow> nat) \<Rightarrow> nat \<Rightarrow> kv_state \<Rightarrow> kv_state res" where
  "insert_one pick req_id s =
     require (dict_get (ks_slots s) req_id = None) AssertionError
     (require (ks_free s \<noteq> []) AssertionError
     (let slot = pick (ks_free s)
      in Inr (s\<lparr>ks_free := remove1 slot (ks_free s), ks_slots := dict_set req_id slot (ks_slots s)\<rparr>)))"

definition insert_req_id :: "(nat list \<Rightarrow> nat) \<Rightarrow> nat list \<Rightarrow> kv_state option \<Rightarrow> kv_state option res" where
  "insert_req_id pick new_reqs st =
     (case st of
        None \<Rightarrow> if new_reqs = [] then Inr None else Inl AttributeError
      | Some s \<Rightarrow> bind_res (fold_res (insert_one pick) new_reqs s) (\<lambda>s'. Inr (Some s')))"

definition remove_one :: "nat \<Rightarrow> kv_state \<Rightarrow> kv_state res" where
  "remove_one req_id s =
     bind_res (dict_at (ks_slots s) req_id) (\<lambda>slot.
     Inr (s\<lparr>ks_slots := dict_pop req_id (ks_slots s), ks_free := List.insert slot (ks_free s)\<rparr>))"

definition remove_req_id :: "nat list \<Rightarrow> kv_state option \<Rightarrow> kv_state option res" where
  "remove_req_id finished_req_ids st =
     (case st of
        None \<Rightarrow> if finished_req_ids = [] then Inr None else Inl AttributeError
      | Some s \<Rightarrow> bind_res (fold_res remove_one finished_req_ids s) (\<lambda>s'. Inr (Some s')))"

section \<open>The invariant, and the contract of a slot pool\<close>

definition kv_state_ok :: "nat \<Rightarrow> kv_state \<Rightarrow> bool" where
  "kv_state_ok n s \<longleftrightarrow> distinct (ks_free s) \<and> distinct (dict_keys (ks_slots s))
     \<and> distinct (dict_values (ks_slots s)) \<and> set (dict_values (ks_slots s)) \<inter> set (ks_free s) = {}
     \<and> set (dict_values (ks_slots s)) \<union> set (ks_free s) = {..<n}"

interpretation kv: slot_pool "kv_state_ok n" "\<lambda>s. dict_values (ks_slots s)" "\<lambda>s. set (ks_free s)" "\<lambda>_. n" for n
  by unfold_locales (simp_all add: kv_state_ok_def)

definition picks_member :: "(nat list \<Rightarrow> nat) \<Rightarrow> bool" where
  "picks_member f \<longleftrightarrow> (\<forall>xs. xs \<noteq> [] \<longrightarrow> f xs \<in> set xs)"

lemma kv_fresh_value: "distinct (dict_keys d) \<Longrightarrow> k \<notin> fst ` set d \<Longrightarrow> dict_set k v d = d @ [(k, v)]"
  by (simp add: dict_set_fresh)

lemma insert_one_ok:
  assumes "kv_state_ok n s" "picks_member pick" "insert_one pick r s = Inr s'"
  shows "kv_state_ok n s' \<and> set (dict_keys (ks_slots s')) = insert r (set (dict_keys (ks_slots s)))
    \<and> r \<notin> set (dict_keys (ks_slots s)) \<and> length (ks_slots s') = Suc (length (ks_slots s))"
proof -
  let ?slot = "pick (ks_free s)"
  have r: "r \<notin> fst ` set (ks_slots s)" "ks_free s \<noteq> []"
      "s' = s\<lparr>ks_free := remove1 ?slot (ks_free s), ks_slots := ks_slots s @ [(r, ?slot)]\<rparr>"
    using assms(3) by (auto simp: insert_one_def require_eq_Inr map_of_eq_None_iff dict_set_fresh Let_def)
  have m: "?slot \<in> set (ks_free s)" using assms(2) r(2) by (simp add: picks_member_def)
  show ?thesis using assms(1) r m by (auto simp: kv_state_ok_def)
qed

lemma insert_one_total:
  assumes "kv_state_ok n s" "picks_member pick" "length (ks_slots s) < n" "r \<notin> set (dict_keys (ks_slots s))"
  shows "\<exists>s'. insert_one pick r s = Inr s'"
proof -
  have "set (ks_free s) \<noteq> {}" using kv.has_free[OF assms(1)] assms(3) by simp
  moreover have "dict_get (ks_slots s) r = None" using assms(4) by (simp add: map_of_eq_None_iff)
  ultimately show ?thesis by (simp add: insert_one_def Let_def)
qed

lemma insert_all_ok:
  assumes "kv_state_ok n s" "picks_member pick" "distinct rs" "set rs \<inter> set (dict_keys (ks_slots s)) = {}"
    and "length (ks_slots s) + length rs \<le> n"
  shows "\<exists>s'. fold_res (insert_one pick) rs s = Inr s' \<and> kv_state_ok n s'
    \<and> set (dict_keys (ks_slots s')) = set (dict_keys (ks_slots s)) \<union> set rs"
  using assms(1,3-)
proof (induction rs arbitrary: s)
  case Nil
  then show ?case by simp
next
  case (Cons r rs)
  obtain s1 where s1: "insert_one pick r s = Inr s1"
    using insert_one_total[OF Cons.prems(1) assms(2), of r] Cons.prems(3,4) by auto
  note k = insert_one_ok[OF Cons.prems(1) assms(2) s1]
  have "\<exists>s'. fold_res (insert_one pick) rs s1 = Inr s' \<and> kv_state_ok n s'
    \<and> set (dict_keys (ks_slots s')) = set (dict_keys (ks_slots s1)) \<union> set rs"
  proof (rule Cons.IH)
    have "set rs \<inter> insert r (set (dict_keys (ks_slots s))) = {}" using Cons.prems(2,3) by auto
    then show "set rs \<inter> set (dict_keys (ks_slots s1)) = {}" using k by (simp only:)
  qed (use k Cons.prems in auto)
  then show ?case using s1 k by auto
qed

lemma remove_one_ok:
  assumes "kv_state_ok n s" "remove_one r s = Inr s'"
  shows "kv_state_ok n s' \<and> set (dict_keys (ks_slots s')) = set (dict_keys (ks_slots s)) - {r}"
proof -
  obtain slot where slot: "dict_get (ks_slots s) r = Some slot"
      "s' = s\<lparr>ks_slots := dict_pop r (ks_slots s), ks_free := List.insert slot (ks_free s)\<rparr>"
    using assms(2) by (auto simp: remove_one_def bind_res_eq_Inr dict_at_def split: option.splits)
  have mem: "(r, slot) \<in> set (ks_slots s)" using slot(1) by (rule map_of_SomeD)
  have dk: "distinct (dict_keys (ks_slots s))" and dv: "distinct (dict_values (ks_slots s))"
    using assms(1) by (simp_all add: kv_state_ok_def)
  have vals: "snd ` set (dict_pop r (ks_slots s)) = snd ` set (ks_slots s) - {slot}"
  proof -
    have "snd q \<noteq> slot" if "q \<in> set (ks_slots s)" "fst q \<noteq> r" for q
      using dv mem that unfolding distinct_map inj_on_def by (metis fst_conv snd_conv)
    moreover have "snd q = slot" if "q \<in> set (ks_slots s)" "fst q = r" for q
      using dk mem that by (metis eq_key_imp_eq_value prod.collapse)
    ultimately show ?thesis by (auto simp: dict_pop_def image_iff)
  qed
  have "distinct (dict_values (dict_pop r (ks_slots s)))"
    using dv by (simp add: dict_pop_def distinct_map inj_on_def)
  moreover have "slot \<in> snd ` set (ks_slots s)" using mem by force
  ultimately show ?thesis using assms(1) slot(2) vals by (auto simp: kv_state_ok_def)
qed

lemma remove_all_ok:
  assumes "kv_state_ok n s" "distinct rs" "set rs \<subseteq> set (dict_keys (ks_slots s))"
  shows "\<exists>s'. fold_res remove_one rs s = Inr s' \<and> kv_state_ok n s'
    \<and> set (dict_keys (ks_slots s')) = set (dict_keys (ks_slots s)) - set rs"
  using assms
proof (induction rs arbitrary: s)
  case Nil
  then show ?case by simp
next
  case (Cons r rs)
  have "dict_get (ks_slots s) r \<noteq> None"
    using Cons.prems(3) by (metis list.set_intros(1) map_of_eq_None_iff set_map subsetD)
  then obtain s1 where s1: "remove_one r s = Inr s1" by (auto simp: remove_one_def dict_at_def)
  note k = remove_one_ok[OF Cons.prems(1) s1]
  have "set rs \<subseteq> set (dict_keys (ks_slots s)) - {r}" using Cons.prems(2,3) by auto
  then have sub: "set rs \<subseteq> set (dict_keys (ks_slots s1))" using k by (simp only:)
  have "distinct rs" using Cons.prems(2) by simp
  from Cons.IH[OF conjunct1[OF k] this sub] obtain s' where "fold_res remove_one rs s1 = Inr s'" "kv_state_ok n s'"
      "set (dict_keys (ks_slots s')) = set (dict_keys (ks_slots s1)) - set rs"
    by blast
  then show ?case using s1 k by auto
qed

lemma kv_keys_count: "kv_state_ok n s \<Longrightarrow> card (set (dict_keys (ks_slots s))) = length (ks_slots s)"
  by (metis distinct_card kv_state_ok_def length_map)

text \<open>
  The slots of the cached states: when the finished requests of a step hold slots and the requests
  left over and the new ones fit, removing and inserting succeed, exactly the live requests hold
  slots, no two of them share one, and free and used slots partition the pool.
\<close>
theorem kv_slots_step:
  assumes "kv_state_ok n s" "picks_member pick" "distinct finished" "distinct new"
    and "set finished \<subseteq> set (dict_keys (ks_slots s))"
    and "set new \<inter> (set (dict_keys (ks_slots s)) - set finished) = {}"
    and "length (ks_slots s) + length new \<le> n + length finished"
  shows "\<exists>s'. bind_res (remove_req_id finished (Some s)) (insert_req_id pick new) = Inr (Some s')
    \<and> kv_state_ok n s'
    \<and> set (dict_keys (ks_slots s')) = (set (dict_keys (ks_slots s)) - set finished) \<union> set new"
proof -
  obtain s1 where s1: "fold_res remove_one finished s = Inr s1" "kv_state_ok n s1"
      "set (dict_keys (ks_slots s1)) = set (dict_keys (ks_slots s)) - set finished"
    using remove_all_ok[OF assms(1,3,5)] by auto
  have "length (ks_slots s1) = length (ks_slots s) - length finished"
    using kv_keys_count[OF s1(2)] kv_keys_count[OF assms(1)] s1(3) assms(3,5)
    by (simp add: card_Diff_subset distinct_card)
  moreover have "length finished \<le> length (ks_slots s)"
    using card_mono[OF _ assms(5)] kv_keys_count[OF assms(1)] distinct_card[OF assms(3)] by simp
  ultimately have "length (ks_slots s1) + length new \<le> n" using assms(7) by linarith
  moreover have "set new \<inter> set (dict_keys (ks_slots s1)) = {}" unfolding s1(3) by (rule assms(6))
  ultimately obtain s' where "fold_res (insert_one pick) new s1 = Inr s'" "kv_state_ok n s'"
      "set (dict_keys (ks_slots s')) = set (dict_keys (ks_slots s1)) \<union> set new"
    using insert_all_ok[OF s1(2) assms(2,4)] by blast
  then show ?thesis using s1(1,3) by (simp add: remove_req_id_def insert_req_id_def)
qed

lemma kv_slots_step_witness:
  "\<exists>s'. bind_res (remove_req_id [7] (Some \<lparr>ks_free = [], ks_slots = [(7, 0), (8, 1)]\<rparr>)) (insert_req_id hd [9]) = Inr (Some s')
    \<and> kv_state_ok 2 s'"
proof -
  let ?s = "\<lparr>ks_free = [], ks_slots = [(7, 0), (8, 1)]\<rparr>"
  have "kv_state_ok 2 ?s" by (auto simp: kv_state_ok_def)
  moreover have "picks_member hd" by (simp add: picks_member_def)
  ultimately show ?thesis using kv_slots_step[of 2 ?s hd "[7]" "[9]"] by auto
qed

text \<open>
  The attributes exist for one model type only, but both methods run for every model: with any other
  model type the first step that brings a new request, or a finished one, raises an attribute error.
  With that model type, finishing a request that never got a slot raises a key error.
\<close>
theorem kv_slots_other_models:
  "insert_req_id pick (r # rs) (init_kv_state model_type n) =
     (if model_type = ''deepseek_v4'' then insert_req_id pick (r # rs) (Some \<lparr>ks_free = [0..<n], ks_slots = []\<rparr>)
      else Inl AttributeError)
   \<and> remove_req_id (r # rs) (init_kv_state model_type n) =
     (if model_type = ''deepseek_v4'' then Inl KeyError else Inl AttributeError)"
  by (simp add: insert_req_id_def remove_req_id_def init_kv_state_def remove_one_def dict_at_def)

end
