(* ===== verification/GrammarMask.thy ===== *)
theory GrammarMask
  imports Prelude
begin

text \<open>
  Reordering the bitmask of structured outputs to the rows of the logits
  (\<^verbatim>\<open>apply_grammar_bitmask\<close> of \<^verbatim>\<open>vllm_mlu/v1/worker/gpu_model_runner.py\<close>).
  A row of the bitmask is a value of its own; the result is what is handed to the kernel of xgrammar.
\<close>

section \<open>The code\<close>

definition num_spec :: "(nat, int list) dict \<Rightarrow> nat \<Rightarrow> nat" where
  "num_spec spec r = length (case dict_get spec r of None \<Rightarrow> [] | Some ts \<Rightarrow> ts)"

text \<open>The logit row of every structured request, from the requests sorted by their batch index.\<close>

fun struct_out_req_batch_indices ::
  "(nat, int list) dict \<Rightarrow> nat list \<Rightarrow> nat \<Rightarrow> (nat \<times> nat) list \<Rightarrow> (nat, nat) dict \<Rightarrow> (nat, nat) dict" where
  "struct_out_req_batch_indices spec structured cumulative_offset [] d = d"
| "struct_out_req_batch_indices spec structured cumulative_offset ((req_id, batch_index) # seq) d =
     struct_out_req_batch_indices spec structured (cumulative_offset + num_spec spec req_id) seq
       (if req_id \<in> set structured then dict_set req_id (batch_index + cumulative_offset) d else d)"

definition copy_row ::
  "'w list \<Rightarrow> nat \<Rightarrow> nat \<Rightarrow> nat \<Rightarrow> 'w list \<times> nat list \<Rightarrow> ('w list \<times> nat list) res" where
  "copy_row bitmask cumulative_index logit_index i s =
     (let (rows, out_indices) = s in
      bind_res (nth_res bitmask (cumulative_index + i)) (\<lambda>w.
      bind_res (put_res rows (logit_index + i) w) (\<lambda>rows'.
      Inr (rows', out_indices @ [logit_index + i]))))"

definition mask_step ::
  "(nat, int list) dict \<Rightarrow> (nat, nat) dict \<Rightarrow> 'w list \<Rightarrow> nat \<Rightarrow> nat \<times> 'w list \<times> nat list
    \<Rightarrow> (nat \<times> 'w list \<times> nat list) res" where
  "mask_step spec indices bitmask req_id s =
     (let (cumulative_index, rows, out_indices) = s in
      bind_res (case dict_get indices req_id of
          None \<Rightarrow> Inr (rows, out_indices)
        | Some logit_index \<Rightarrow>
            fold_res (copy_row bitmask cumulative_index logit_index) [0..<1 + num_spec spec req_id] (rows, out_indices))
        (\<lambda>(rows', out'). Inr (cumulative_index + 1 + num_spec spec req_id, rows', out')))"

definition apply_grammar_bitmask ::
  "(nat, nat) dict \<Rightarrow> (nat, int list) dict \<Rightarrow> nat list \<Rightarrow> 'w list \<Rightarrow> 'w \<Rightarrow> nat \<Rightarrow> ('w list \<times> nat list option) res" where
  "apply_grammar_bitmask req_id_to_index spec structured bitmask fill num_logits =
     (let seq = sort_key snd req_id_to_index;
          indices = struct_out_req_batch_indices spec structured 0 seq []
      in bind_res (fold_res (mask_step spec indices bitmask) structured (0, replicate num_logits fill, []))
           (\<lambda>(_, rows, out_indices).
         Inr (rows, if length out_indices = num_logits then None else Some out_indices)))"

section \<open>The reference\<close>

text \<open>The rows of one request, and how many rows come before it in a list of requests.\<close>

definition width :: "(nat, int list) dict \<Rightarrow> nat \<Rightarrow> nat" where
  "width spec r = 1 + num_spec spec r"

definition rows_before :: "(nat, int list) dict \<Rightarrow> nat list \<Rightarrow> nat \<Rightarrow> nat" where
  "rows_before spec rs r = sum_list (map (width spec) (takeWhile (\<lambda>x. x \<noteq> r) rs))"

definition mask_rows :: "(nat, int list) dict \<Rightarrow> nat list \<Rightarrow> 'w list \<Rightarrow> nat \<Rightarrow> 'w list" where
  "mask_rows spec structured bitmask r =
     slice bitmask (rows_before spec structured r) (rows_before spec structured r + width spec r)"

definition aligned_mask :: "(nat, int list) dict \<Rightarrow> nat list \<Rightarrow> nat list \<Rightarrow> 'w list \<Rightarrow> 'w \<Rightarrow> 'w list" where
  "aligned_mask spec batch structured bitmask fill =
     concat (map (\<lambda>r. if r \<in> set structured then mask_rows spec structured bitmask r
                      else replicate (width spec r) fill) batch)"

section \<open>Copying segments\<close>

lemma copy_rows:
  assumes "c + m \<le> length bitmask" "l + m \<le> length rows"
  shows "fold_res (copy_row bitmask c l) [0..<m] (rows, out) =
    Inr (take l rows @ slice bitmask c (c + m) @ drop (l + m) rows, out @ [l..<l + m])"
  using assms
proof (induction m)
  case 0
  then show ?case by simp
next
  case (Suc m)
  have k: "c + m < length bitmask" "l + m < length rows" using Suc.prems by auto
  have s: "slice bitmask c (c + Suc m) = slice bitmask c (c + m) @ [bitmask ! (c + m)]"
    using k by (simp add: slice_def take_Suc_conv_app_nth)
  have len: "length (slice bitmask c (c + m)) = m" using k by (simp add: length_slice)
  have "(take l rows @ slice bitmask c (c + m) @ drop (l + m) rows)[l + m := bitmask ! (c + m)]
      = take l rows @ (slice bitmask c (c + m) @ [bitmask ! (c + m)]) @ drop (l + Suc m) rows"
    using k len by (simp add: list_update_append Cons_nth_drop_Suc[symmetric])
  moreover have "l + m < length (take l rows @ slice bitmask c (c + m) @ drop (l + m) rows)" using k len by simp
  ultimately show ?case using Suc k s by (simp add: fold_res_append copy_row_def)
qed

lemma rows_before_split:
  assumes "distinct (as @ r # bs)"
  shows "rows_before spec (as @ r # bs) r = sum_list (map (width spec) as)"
proof -
  have "takeWhile (\<lambda>x. x \<noteq> r) (as @ r # bs) = as" using assms by (subst takeWhile_append2) auto
  then show ?thesis by (simp add: rows_before_def)
qed

lemma replace_segment:
  assumes "distinct batch" "r \<in> set batch" "\<And>x. x \<in> set batch \<Longrightarrow> length (f x) = width spec x" "length ys = width spec r"
  shows "take (rows_before spec batch r) (concat (map f batch)) @ ys
      @ drop (rows_before spec batch r + width spec r) (concat (map f batch)) = concat (map (f(r := ys)) batch)"
    "rows_before spec batch r + width spec r \<le> length (concat (map f batch))"
proof -
  obtain as bs where b: "batch = as @ r # bs" using assms(2) by (meson split_list)
  have n: "rows_before spec batch r = sum_list (map (width spec) as)"
    unfolding b using assms(1) b by (intro rows_before_split) simp
  have len: "length (concat (map f as)) = sum_list (map (width spec) as)"
    using assms(3) b by (simp add: length_concat comp_def cong: map_cong)
  have "r \<notin> set as" "r \<notin> set bs" using assms(1) b by auto
  then have m: "map (f(r := ys)) as = map f as" "map (f(r := ys)) bs = map f bs" by auto
  have r: "length (f r) = width spec r" using assms(2,3) by simp
  show "take (rows_before spec batch r) (concat (map f batch)) @ ys
      @ drop (rows_before spec batch r + width spec r) (concat (map f batch)) = concat (map (f(r := ys)) batch)"
    unfolding n unfolding b map_append list.map m using len r by simp
  show "rows_before spec batch r + width spec r \<le> length (concat (map f batch))"
    unfolding n unfolding b using len r by simp
qed

text \<open>The dictionary holds the first logit row of every structured request of the batch.\<close>

lemma struct_indices:
  assumes "map snd seq = [a..<a + length seq]" "distinct (map fst seq)"
  shows "dict_get (struct_out_req_batch_indices spec structured c seq d) r =
    (if r \<in> set (map fst seq) \<and> r \<in> set structured then Some (a + c + rows_before spec (map fst seq) r) else dict_get d r)"
  using assms
proof (induction spec structured c seq d arbitrary: a rule: struct_out_req_batch_indices.induct)
  case (1 spec structured c d)
  then show ?case by simp
next
  case (2 spec structured c q i seq d)
  have i: "i = a" "map snd seq = [Suc a..<Suc a + length seq]"
    using "2.prems"(1) by (simp_all add: upt_conv_Cons del: upt_Suc)
  have "distinct (map fst seq)" "q \<notin> set (map fst seq)" using "2.prems"(2) by auto
  note IH = "2.IH"[OF i(2) this(1)] and q = this(2)
  show ?case
  proof (cases "q = r")
    case True
    then show ?thesis using q unfolding struct_out_req_batch_indices.simps IH
      by (simp add: i(1) rows_before_def)
  next
    case False
    then show ?thesis unfolding struct_out_req_batch_indices.simps IH
      by (simp add: rows_before_def width_def)
  qed
qed

text \<open>After a prefix of the structured requests their rows stand where they belong.\<close>

lemma mask_loop:
  fixes fill :: 'w
  assumes batch: "distinct batch" and str: "distinct structured"
    and idx: "\<And>r. dict_get indices r =
        (if r \<in> set batch \<and> r \<in> set structured then Some (rows_before spec batch r) else None)"
    and len: "sum_list (map (width spec) structured) \<le> length bitmask"
  defines "seg \<equiv> \<lambda>done r. if r \<in> set done then mask_rows spec structured bitmask r else replicate (width spec r) fill"
  assumes "structured = done @ rest"
  shows "\<exists>out'. fold_res (mask_step spec indices bitmask) rest
      (sum_list (map (width spec) done), concat (map (seg done) batch), out) =
    Inr (sum_list (map (width spec) structured), concat (map (seg structured) batch),
         out @ concat (map (\<lambda>r. if r \<in> set batch then [rows_before spec batch r..<rows_before spec batch r + width spec r] else []) rest))"
  using assms(6)
proof (induction rest arbitrary: "done" out)
  case Nil
  then show ?case by simp
next
  case (Cons r rest)
  let ?c = "sum_list (map (width spec) done)"
  have before: "rows_before spec structured r = ?c"
    unfolding Cons.prems using str Cons.prems by (intro rows_before_split) simp
  have fits: "?c + width spec r \<le> length bitmask" using len unfolding Cons.prems by simp
  have rows: "length (seg ds x) = width spec x" if "structured = ds @ es" "x \<in> set batch" for ds es x
  proof (cases "x \<in> set ds")
    case True
    then obtain as bs where ds: "ds = as @ x # bs" by (meson split_list)
    then have "rows_before spec structured x = sum_list (map (width spec) as)"
      using str that(1) by (metis append.assoc append_Cons rows_before_split)
    moreover have "sum_list (map (width spec) as) + width spec x \<le> length bitmask"
      using len unfolding that(1) ds by simp
    ultimately show ?thesis using True by (simp add: seg_def mask_rows_def length_slice)
  qed (simp add: seg_def)
  have "\<exists>o1. mask_step spec indices bitmask r (?c, concat (map (seg done) batch), out) =
    Inr (sum_list (map (width spec) (done @ [r])), concat (map (seg (done @ [r])) batch), o1)
    \<and> o1 = out @ (if r \<in> set batch then [rows_before spec batch r..<rows_before spec batch r + width spec r] else [])"
  proof (cases "r \<in> set batch")
    case True
    have i: "dict_get indices r = Some (rows_before spec batch r)" using idx[of r] True Cons.prems by simp
    let ?ys = "slice bitmask ?c (?c + width spec r)"
    have ys: "length ?ys = width spec r" using fits by (simp add: length_slice)
    note rep = replace_segment[OF batch True rows[OF Cons.prems] ys]
    have "(seg done)(r := ?ys) = seg (done @ [r])"
      using before by (auto simp: seg_def fun_eq_iff mask_rows_def)
    then show ?thesis
      using copy_rows[OF fits rep(2), of out] rep(1) i True by (simp add: mask_step_def width_def add.commute)
  next
    case False
    then have "dict_get indices r = None" using idx[of r] by simp
    moreover have "map (seg (done @ [r])) batch = map (seg done) batch" using False by (auto simp: seg_def)
    ultimately show ?thesis using False by (simp add: mask_step_def width_def del: map_eq_conv)
  qed
  then show ?case using Cons.IH[of "done @ [r]"] Cons.prems by force
qed

text \<open>
  The bitmask is aligned with the logits: when the batch indices are the positions of the requests
  and the tensors fit, the call succeeds, every structured request of the batch finds exactly its own
  rows of the compacted bitmask at its own logit rows, one per sampled and speculative token, all
  other rows allow every token, and the indices name exactly the rows that were set, unless those are
  all rows.
\<close>
theorem apply_grammar_bitmask_aligned:
  assumes "distinct (map fst req_id_to_index)"
    and "map snd (sort_key snd req_id_to_index) = [0..<length req_id_to_index]"
    and "distinct structured" "sum_list (map (width spec) structured) \<le> length bitmask"
  defines "batch \<equiv> map fst (sort_key snd req_id_to_index)"
  shows "\<exists>indices. apply_grammar_bitmask req_id_to_index spec structured bitmask fill (sum_list (map (width spec) batch))
      = Inr (aligned_mask spec batch structured bitmask fill, indices)
    \<and> (case indices of None \<Rightarrow> True
       | Some l \<Rightarrow> l = concat (map (\<lambda>r. if r \<in> set batch then [rows_before spec batch r..<rows_before spec batch r + width spec r] else []) structured))"
proof -
  let ?seq = "sort_key snd req_id_to_index"
  let ?d = "struct_out_req_batch_indices spec structured 0 ?seq []"
  let ?n = "sum_list (map (width spec) batch)"
  let ?l = "concat (map (\<lambda>r. if r \<in> set batch then [rows_before spec batch r..<rows_before spec batch r + width spec r] else []) structured)"
  have batch: "distinct batch"
    unfolding batch_def using assms(1) by (metis mset_eq_imp_distinct_iff mset_map mset_sort)
  have idx: "dict_get ?d r = (if r \<in> set batch \<and> r \<in> set structured then Some (rows_before spec batch r) else None)" for r
    using struct_indices[of ?seq 0 spec structured 0 "[]" r] assms(2) batch unfolding batch_def by simp
  have init: "replicate ?n fill = concat (map (\<lambda>r. replicate (width spec r) fill) batch)"
    by (induction batch) (simp_all add: replicate_add)
  have "\<exists>out'. fold_res (mask_step spec ?d bitmask) structured (0, replicate ?n fill, []) =
      Inr (sum_list (map (width spec) structured), aligned_mask spec batch structured bitmask fill, ?l)"
    using mask_loop[OF batch assms(3) idx assms(4), of "[]" structured fill "[]"] unfolding init aligned_mask_def by simp
  then show ?thesis by (auto simp: apply_grammar_bitmask_def Let_def)
qed

lemma apply_grammar_bitmask_aligned_witness:
  "\<exists>indices. apply_grammar_bitmask [(8, 1), (7, 0), (9, 2)] [(7, [5])] [9, 7] [''a'', ''b'', ''c''] ''-'' 4
     = Inr ([''b'', ''c'', ''-'', ''a''], indices)"
proof -
  have s: "sort_key snd [(8 :: nat, 1 :: nat), (7, 0), (9, 2)] = [(7, 0), (8, 1), (9, 2)]"
    by simp
  have w: "width [(7, [5])] 7 = 2" "width [(7, [5])] 8 = 1" "width [(7, [5])] 9 = 1"
    by (simp_all add: width_def num_spec_def)
  have "\<exists>indices. apply_grammar_bitmask [(8, 1), (7, 0), (9, 2)] [(7, [5])] [9, 7] [''a'', ''b'', ''c''] ''-'' 4
     = Inr (aligned_mask [(7, [5])] [7, 8, 9] [9, 7] [''a'', ''b'', ''c''] ''-'', indices)"
    using apply_grammar_bitmask_aligned[of "[(8, 1), (7, 0), (9, 2)]" "[9, 7]" "[(7, [5])]" "[''a'', ''b'', ''c'']" "''-''"]
    unfolding s by (auto simp: w upt_rec)
  moreover have "aligned_mask [(7, [5])] [7, 8, 9] [9, 7] [''a'', ''b'', ''c''] ''-'' = [''b'', ''c'', ''-'', ''a'']"
    by (simp add: aligned_mask_def mask_rows_def rows_before_def w slice_def)
  ultimately show ?thesis by simp
qed

end
