(* ===== verification/RunnerInputs.thy ===== *)
theory RunnerInputs
  imports KvState GrammarMask
begin

text \<open>
  The inputs of a model step (\<^verbatim>\<open>_get_num_input_tokens\<close> and
  \<^verbatim>\<open>_prepare_inputs\<close> of \<^verbatim>\<open>vllm_mlu/v1/worker/gpu_model_runner.py\<close>).
  Buffers are lists with their unused tail written out; copies to the device, the block table, the
  multimodal positions and the metadata of speculative decoding belong to vLLM: what is computed from
  them is an argument. Buffers are taken to be as long as the step needs unless a length is checked.
\<close>

section \<open>Padding\<close>

record pad_config =
  pc_decode_only :: bool
  pc_cudagraph_off :: bool
  pc_batch_sizes :: "nat list option"
  pc_sequence_parallelism :: bool
  pc_tp_size :: nat

definition round_up :: "nat \<Rightarrow> nat \<Rightarrow> nat" where
  "round_up n m = ((n + m - 1) div m) * m"

definition get_num_input_tokens :: "(nat \<Rightarrow> nat) \<Rightarrow> pad_config \<Rightarrow> nat \<Rightarrow> nat" where
  "get_num_input_tokens pad_for_cudagraph c n =
     (if pc_decode_only c \<and> \<not> pc_cudagraph_off c
         \<and> (case pc_batch_sizes c of None \<Rightarrow> False | Some bs \<Rightarrow> bs \<noteq> [] \<and> n \<le> last bs)
      then pad_for_cudagraph n
      else if pc_sequence_parallelism c \<and> 1 < pc_tp_size c then round_up n (pc_tp_size c)
      else n)"

section \<open>Positions and token ids\<close>

text \<open>\<^verbatim>\<open>np.repeat\<close> of the request indices, and the index within each request.\<close>

definition repeat_index :: "nat list \<Rightarrow> nat list" where
  "repeat_index scheduled = concat (map2 replicate scheduled [0..<length scheduled])"

definition batched_arange :: "nat list \<Rightarrow> nat list" where
  "batched_arange scheduled = concat (map (\<lambda>n. [0..<n]) scheduled)"

definition positions_of :: "nat list \<Rightarrow> nat list \<Rightarrow> nat list res" where
  "positions_of computed scheduled =
     map_res (\<lambda>(r, a). bind_res (nth_res computed r) (\<lambda>c. Inr (c + a)))
       (zip (repeat_index scheduled) (batched_arange scheduled))"

definition token_indices_of :: "nat \<Rightarrow> nat list \<Rightarrow> nat list \<Rightarrow> nat list" where
  "token_indices_of row_width positions req_indices = map2 (\<lambda>p r. p + r * row_width) positions req_indices"

definition index_select :: "'a list \<Rightarrow> nat list \<Rightarrow> 'a list res" where
  "index_select xs idx = map_res (nth_res xs) idx"

text \<open>Prompt embeddings are copied request by request to their place in the step's buffer.\<close>

definition overwrite :: "'e list \<Rightarrow> nat \<Rightarrow> 'e list \<Rightarrow> 'e list" where
  "overwrite buf k xs = take k buf @ xs @ drop (k + length xs) buf"

fun copy_prompt_embeds ::
  "(nat, 'e list) dict \<Rightarrow> nat list \<Rightarrow> nat \<Rightarrow> nat \<Rightarrow> nat list \<Rightarrow> 'e list \<Rightarrow> 'e list" where
  "copy_prompt_embeds embeds computed req_idx output_idx [] buf = buf"
| "copy_prompt_embeds embeds computed req_idx output_idx (num_sched # rest) buf =
     copy_prompt_embeds embeds computed (Suc req_idx) (output_idx + num_sched) rest
       (case dict_get embeds req_idx of
          None \<Rightarrow> buf
        | Some req_embeds \<Rightarrow>
            let start_pos = computed ! req_idx;
                actual_end = min (start_pos + num_sched) (length req_embeds)
            in if num_sched = 0 \<or> length req_embeds \<le> start_pos \<or> actual_end \<le> start_pos then buf
               else overwrite buf output_idx (slice req_embeds start_pos actual_end))"

section \<open>Draft tokens\<close>

text \<open>The loop over the scheduled drafts: counts, and counts of decoding requests with -1 elsewhere.\<close>

definition draft_step ::
  "(nat, nat) dict \<Rightarrow> nat list \<Rightarrow> nat list \<Rightarrow> nat \<times> int list \<Rightarrow> nat list \<times> int list \<Rightarrow> (nat list \<times> int list) res" where
  "draft_step req_id_to_index computed prompt q s =
     (let (req_id, drafts) = q; (num_draft, num_decode) = s in
      bind_res (dict_at req_id_to_index req_id) (\<lambda>i.
      bind_res (put_res num_draft i (length drafts)) (\<lambda>num_draft'.
      bind_res (nth_res computed i) (\<lambda>c.
      bind_res (nth_res prompt i) (\<lambda>p.
      bind_res (put_res num_decode i (if p \<le> c then int (length drafts) else -1)) (\<lambda>num_decode'.
      Inr (num_draft', num_decode')))))))"

definition draft_counts ::
  "(nat, nat) dict \<Rightarrow> nat list \<Rightarrow> nat list \<Rightarrow> (nat, int list) dict \<Rightarrow> nat \<Rightarrow> (nat list \<times> int list) res" where
  "draft_counts req_id_to_index computed prompt spec num_reqs =
     fold_res (draft_step req_id_to_index computed prompt) spec (replicate num_reqs 0, replicate num_reqs (-1))"

section \<open>The step\<close>

record 'e runner_batch =
  rb_req_ids :: "nat list"
  rb_req_id_to_index :: "(nat, nat) dict"
  rb_num_computed_tokens :: "nat list"
  rb_num_prompt_tokens :: "nat list"
  rb_token_ids :: "int list list"
  rb_row_width :: nat
  rb_req_prompt_embeds :: "(nat, 'e list) dict"

record step_output =
  so_new_reqs :: "nat list"
  so_total_num_scheduled_tokens :: nat
  so_spec_decode_tokens :: "(nat, int list) dict"

record ('dp, 'e) prepared =
  pr_req_indices :: "nat list"
  pr_positions :: "nat list"
  pr_input_ids :: "int list"
  pr_inputs_embeds :: "'e list"
  pr_query_start_loc :: "nat list"
  pr_seq_lens :: "nat list"
  pr_seq_start_loc :: "nat list"
  pr_discard :: "nat list"
  pr_logits_indices :: "nat list"
  pr_num_sampled :: "nat list"
  pr_num_decode_draft :: "int list option"
  pr_num_tokens_padded :: nat
  pr_num_tokens_across_dp :: 'dp

text \<open>The buffer of the query start locations, padded so that it does not decrease.\<close>

definition query_start_loc :: "nat \<Rightarrow> nat list \<Rightarrow> nat list" where
  "query_start_loc max_num_reqs scheduled =
     0 # accumulate scheduled @ replicate (max_num_reqs - length scheduled) (last (accumulate scheduled))"

definition seq_start_loc :: "nat \<Rightarrow> nat list \<Rightarrow> nat list" where
  "seq_start_loc max_num_reqs seq_lens =
     0 # accumulate seq_lens @ replicate (max_num_reqs - length seq_lens) (last (0 # accumulate seq_lens))"

definition discard_requests :: "nat list \<Rightarrow> nat list \<Rightarrow> nat list" where
  "discard_requests seq_lens num_tokens = filter (\<lambda>i. seq_lens ! i < num_tokens ! i) [0..<length seq_lens]"

text \<open>
  The metadata of the data parallel ranks: with the custom optimisation, from the token count, the
  number of requests counted in tokens of a decode, and the query lengths read off the buffer.
\<close>

definition across_dp ::
  "bool \<Rightarrow> (nat \<Rightarrow> nat \<Rightarrow> bool \<Rightarrow> nat list \<Rightarrow> 'dp) \<Rightarrow> (nat \<Rightarrow> nat \<Rightarrow> bool \<Rightarrow> bool \<Rightarrow> nat list \<Rightarrow> 'dp)
    \<Rightarrow> bool \<Rightarrow> bool \<Rightarrow> nat \<Rightarrow> bool \<Rightarrow> bool \<Rightarrow> nat \<Rightarrow> nat \<Rightarrow> nat list \<Rightarrow> nat list \<Rightarrow> 'dp" where
  "across_dp custom_opt get_metadata coordinate prefill_only decode_only num_spec_tokens allow_dp_padding uniform_decode
     total_tokens padded scheduled qsl =
     (if custom_opt
      then (let n = length scheduled;
                cur_num_reqs = (if prefill_only then n else n * (1 + num_spec_tokens));
                query_lens = map2 (\<lambda>b a. b - a) (tl qsl) (butlast qsl)
            in get_metadata total_tokens cur_num_reqs decode_only (take cur_num_reqs query_lens))
      else coordinate total_tokens padded allow_dp_padding uniform_decode scheduled)"

record 'dp step_config =
  sc_pad :: pad_config
  sc_pad_for_cudagraph :: "nat \<Rightarrow> nat"
  sc_max_num_reqs :: nat
  sc_prefill_only :: bool
  sc_num_spec_tokens :: nat
  sc_uniform_decode_query_len :: nat
  sc_custom_dp_opt :: bool
  sc_dp_metadata :: "nat \<Rightarrow> nat \<Rightarrow> bool \<Rightarrow> nat list \<Rightarrow> 'dp"
  sc_coordinate :: "nat \<Rightarrow> nat \<Rightarrow> bool \<Rightarrow> bool \<Rightarrow> nat list \<Rightarrow> 'dp"
  sc_spec_logits :: "nat list \<Rightarrow> nat list \<Rightarrow> nat list"
  sc_lora_max_tokens :: "nat option"

definition prepare_inputs ::
  "'dp step_config \<Rightarrow> (nat list \<Rightarrow> nat) \<Rightarrow> (nat, nat) dict \<Rightarrow> 'e runner_batch \<Rightarrow> 'e list \<Rightarrow> step_output \<Rightarrow> nat list \<Rightarrow> nat
    \<Rightarrow> kv_state option \<Rightarrow> (kv_state option \<times> ('dp, 'e) prepared) res" where
  "prepare_inputs c pick num_tokens_of rb embeds_buf so scheduled max_scheduled kv =
     bind_res (insert_req_id pick (so_new_reqs so) kv) (\<lambda>kv'.
     let total_tokens = so_total_num_scheduled_tokens so; n = length (rb_req_ids rb) in
     require (0 < total_tokens) AssertionError
     (require (0 < n) AssertionError
     (require (length scheduled = n) ValueError
     (bind_res (positions_of (rb_num_computed_tokens rb) scheduled) (\<lambda>positions.
     require (length positions = total_tokens) ValueError
     (let req_indices = repeat_index scheduled in
     bind_res (index_select (concat (rb_token_ids rb)) (token_indices_of (rb_row_width rb) positions req_indices)) (\<lambda>ids.
     require (n \<le> sc_max_num_reqs c) ValueError
     (let qsl = query_start_loc (sc_max_num_reqs c) scheduled;
          padded = get_num_input_tokens (sc_pad_for_cudagraph c) (sc_pad c) total_tokens;
          uniform = (max_scheduled = sc_uniform_decode_query_len c \<and> total_tokens = n * max_scheduled);
          dp = across_dp (sc_custom_dp_opt c) (sc_dp_metadata c) (sc_coordinate c) (sc_prefill_only c)
                 (pc_decode_only (sc_pad c)) (sc_num_spec_tokens c) (\<not> pc_cudagraph_off (sc_pad c)) uniform
                 total_tokens padded scheduled qsl;
          lens = map2 (+) (take n (rb_num_computed_tokens rb)) scheduled in
     bind_res (map_res (dict_at num_tokens_of) (rb_req_ids rb)) (\<lambda>num_tokens.
     bind_res (if so_spec_decode_tokens so = []
         then Inr (map (\<lambda>x. x - 1) (accumulate scheduled), replicate n 1, None)
         else bind_res (draft_counts (rb_req_id_to_index rb) (rb_num_computed_tokens rb) (rb_num_prompt_tokens rb)
                  (so_spec_decode_tokens so) n) (\<lambda>(drafts, decodes).
              Inr (sc_spec_logits c drafts (accumulate scheduled), map Suc drafts,
                   Some (decodes @ replicate (sc_max_num_reqs c - n) (-1))))) (\<lambda>(logits, sampled, decodes).
     require (case sc_lora_max_tokens c of None \<Rightarrow> True | Some m \<Rightarrow> sum_list sampled \<le> m) AssertionError
     (Inr (kv', \<lparr>pr_req_indices = req_indices, pr_positions = positions, pr_input_ids = ids,
            pr_inputs_embeds = copy_prompt_embeds (rb_req_prompt_embeds rb) (rb_num_computed_tokens rb) 0 0 scheduled embeds_buf,
            pr_query_start_loc = qsl,
            pr_seq_lens = lens @ replicate (sc_max_num_reqs c - n) 0,
            pr_seq_start_loc = seq_start_loc (sc_max_num_reqs c) lens,
            pr_discard = discard_requests lens num_tokens,
            pr_logits_indices = logits, pr_num_sampled = sampled, pr_num_decode_draft = decodes,
            pr_num_tokens_padded = padded, pr_num_tokens_across_dp = dp\<rparr>))))))))))))"

section \<open>The flat tensors are the concatenation of the requests\<close>

definition step_pairs :: "nat list \<Rightarrow> (nat \<times> nat) list" where
  "step_pairs scheduled = concat (map (\<lambda>i. map (Pair i) [0..<scheduled ! i]) [0..<length scheduled])"

lemma step_pairs_snoc: "step_pairs (xs @ [k]) = step_pairs xs @ map (Pair (length xs)) [0..<k]"
proof -
  have "map (\<lambda>i. map (Pair i) [0..<(xs @ [k]) ! i]) [0..<length xs] = map (\<lambda>i. map (Pair i) [0..<xs ! i]) [0..<length xs]"
    by (rule map_cong) (simp_all add: nth_append)
  then show ?thesis by (simp add: step_pairs_def del: map_eq_conv)
qed

lemma length_repeat_index: "length (repeat_index xs) = length (batched_arange xs)"
  by (induction xs rule: rev_induct) (simp_all add: repeat_index_def batched_arange_def)

lemma zip_step_pairs: "zip (repeat_index xs) (batched_arange xs) = step_pairs xs"
proof (induction xs rule: rev_induct)
  case Nil
  then show ?case by (simp add: repeat_index_def step_pairs_def)
next
  case (snoc k xs)
  have "zip (replicate k i) [0..<k] = map (Pair i) [0..<k]" for i :: nat
    by (rule nth_equalityI) simp_all
  moreover have "repeat_index (xs @ [k]) = repeat_index xs @ replicate k (length xs)"
    by (simp add: repeat_index_def)
  moreover have "batched_arange (xs @ [k]) = batched_arange xs @ [0..<k]" by (simp add: batched_arange_def)
  ultimately show ?case using snoc length_repeat_index[of xs] by (simp add: step_pairs_snoc)
qed

lemma repeat_index_pairs: "repeat_index xs = map fst (step_pairs xs)"
  using zip_step_pairs[of xs] length_repeat_index[of xs] by (metis map_fst_zip)

lemma step_pairs_mem: "(i, a) \<in> set (step_pairs xs) \<Longrightarrow> i < length xs \<and> a < xs ! i"
  by (auto simp: step_pairs_def)

lemma map_step_pairs: "map f (step_pairs xs) = concat (map (\<lambda>i. map (\<lambda>a. f (i, a)) [0..<xs ! i]) [0..<length xs])"
  by (simp add: step_pairs_def map_concat comp_def)

lemma length_step_pairs: "length (step_pairs xs) = sum_list xs"
  by (induction xs rule: rev_induct) (simp_all add: step_pairs_snoc, simp add: step_pairs_def)

lemma positions_of_pairs:
  assumes "length scheduled \<le> length computed"
  shows "positions_of computed scheduled = Inr (map (\<lambda>(i, a). computed ! i + a) (step_pairs scheduled))"
  unfolding positions_of_def zip_step_pairs
  by (rule map_res_total) (use assms in \<open>auto dest!: step_pairs_mem\<close>)

lemma flat_nth:
  assumes "\<forall>row \<in> set rows. length row = m" "i < length rows" "p < m"
  shows "p + i * m < length (concat rows)" "concat rows ! (p + i * m) = rows ! i ! p"
proof -
  have "p + i * m < length (concat rows) \<and> concat rows ! (p + i * m) = rows ! i ! p"
    using assms
  proof (induction rows arbitrary: i)
    case (Cons row rows)
    show ?case
    proof (cases i)
      case 0
      then show ?thesis using Cons.prems by (simp add: nth_append)
    next
      case (Suc j)
      then have "p + j * m < length (concat rows) \<and> concat rows ! (p + j * m) = rows ! j ! p"
        using Cons by simp
      then show ?thesis using Cons.prems Suc by (simp add: nth_append)
    qed
  qed simp
  then show "p + i * m < length (concat rows)" "concat rows ! (p + i * m) = rows ! i ! p" by auto
qed

lemma index_select_pairs:
  assumes "\<forall>row \<in> set rows. length row = m" "length scheduled \<le> length rows"
    and "\<forall>i < length scheduled. computed ! i + scheduled ! i \<le> m"
  shows "index_select (concat rows) (token_indices_of m (map (\<lambda>(i, a). computed ! i + a) (step_pairs scheduled)) (repeat_index scheduled))
    = Inr (map (\<lambda>(i, a). rows ! i ! (computed ! i + a)) (step_pairs scheduled))"
proof -
  have t: "token_indices_of m (map (\<lambda>(i, a). computed ! i + a) (step_pairs scheduled)) (repeat_index scheduled)
      = map (\<lambda>(i, a). computed ! i + a + i * m) (step_pairs scheduled)"
    unfolding repeat_index_pairs token_indices_of_def
    by (rule nth_equalityI) (auto split: prod.splits)
  have "map_res (nth_res (concat rows)) (map f xs) = Inr (map g xs)"
    if "\<And>x. x \<in> set xs \<Longrightarrow> nth_res (concat rows) (f x) = Inr (g x)" for f g and xs :: "(nat \<times> nat) list"
    using that by (induction xs) auto
  moreover have "nth_res (concat rows) (case q of (i, a) \<Rightarrow> computed ! i + a + i * m)
      = Inr (case q of (i, a) \<Rightarrow> rows ! i ! (computed ! i + a))" if q: "q \<in> set (step_pairs scheduled)" for q
  proof -
    obtain i a where ia: "q = (i, a)" by (cases q)
    then have b: "i < length scheduled" "a < scheduled ! i" using q step_pairs_mem by auto
    then have "computed ! i + a < m" using assms(3) by (metis add_less_cancel_left less_le_trans)
    then show ?thesis using flat_nth[OF assms(1), of i "computed ! i + a"] b assms(2) ia by simp
  qed
  ultimately show ?thesis unfolding index_select_def t by blast
qed

text \<open>The element of a request in the flat tensor.\<close>

lemma concat_segment_nth:
  assumes "\<forall>i < n. length (f i) = ks ! i" "i < n" "a < ks ! i" "n \<le> length ks"
  shows "concat (map f [0..<n]) ! (sum_list (take i ks) + a) = f i ! a"
proof -
  have len: "length (concat (map f [0..<k])) = sum_list (take k ks)" if "k \<le> n" for k
    using that
  proof (induction k)
    case (Suc k)
    then show ?case using assms(1,4) by (simp add: sum_list_take_Suc)
  qed simp
  have "[0..<n] = [0..<i] @ i # [Suc i..<n]"
    using assms(2) upt_add_eq_append[of 0 i "n - i"] upt_conv_Cons[of i n] by simp
  then have "concat (map f [0..<n]) = concat (map f [0..<i]) @ f i @ concat (map f [Suc i..<n])" by simp
  then show ?thesis using len[of i] assms(1-3) by (simp add: nth_append)
qed

text \<open>A batch and a step that fit together.\<close>

definition step_ok :: "'dp step_config \<Rightarrow> (nat, nat) dict \<Rightarrow> 'e runner_batch \<Rightarrow> step_output \<Rightarrow> nat list \<Rightarrow> bool" where
  "step_ok c num_tokens_of rb so scheduled \<longleftrightarrow>
     rb_req_ids rb \<noteq> [] \<and> length scheduled = length (rb_req_ids rb)
   \<and> 0 < so_total_num_scheduled_tokens so \<and> sum_list scheduled = so_total_num_scheduled_tokens so
   \<and> length (rb_req_ids rb) \<le> sc_max_num_reqs c
   \<and> length (rb_req_ids rb) \<le> length (rb_num_computed_tokens rb)
   \<and> length (rb_req_ids rb) \<le> length (rb_token_ids rb)
   \<and> list_all (\<lambda>row. length row = rb_row_width rb) (rb_token_ids rb)
   \<and> list_all (\<lambda>i. rb_num_computed_tokens rb ! i + scheduled ! i \<le> rb_row_width rb) [0..<length scheduled]
   \<and> list_all (\<lambda>r. dict_get num_tokens_of r \<noteq> None) (rb_req_ids rb)"

lemma inputs_of_step:
  assumes "step_ok c num_tokens_of rb so scheduled"
  defines "start \<equiv> \<lambda>i. rb_num_computed_tokens rb ! i"
  shows "positions_of (rb_num_computed_tokens rb) scheduled =
      Inr (concat (map (\<lambda>i. [start i..<start i + scheduled ! i]) [0..<length scheduled]))"
    and "length (concat (map (\<lambda>i. [start i..<start i + scheduled ! i]) [0..<length scheduled])) = sum_list scheduled"
    and "index_select (concat (rb_token_ids rb)) (token_indices_of (rb_row_width rb)
        (concat (map (\<lambda>i. [start i..<start i + scheduled ! i]) [0..<length scheduled])) (repeat_index scheduled)) =
      Inr (concat (map (\<lambda>i. slice (rb_token_ids rb ! i) (start i) (start i + scheduled ! i)) [0..<length scheduled]))"
proof -
  let ?p = "map (\<lambda>(i, a). start i + a) (step_pairs scheduled)"
  have fits: "length scheduled \<le> length (rb_num_computed_tokens rb)" "length scheduled \<le> length (rb_token_ids rb)"
      "\<forall>row \<in> set (rb_token_ids rb). length row = rb_row_width rb"
      "\<forall>i < length scheduled. start i + scheduled ! i \<le> rb_row_width rb"
    using assms(1) by (auto simp: step_ok_def list_all_iff start_def)
  have upt: "map ((+) k) [0..<n] = [k..<k + n]" for k n :: nat
    by (rule nth_equalityI) simp_all
  have p: "?p = concat (map (\<lambda>i. [start i..<start i + scheduled ! i]) [0..<length scheduled])"
    unfolding map_step_pairs by (simp add: upt)
  show "positions_of (rb_num_computed_tokens rb) scheduled =
      Inr (concat (map (\<lambda>i. [start i..<start i + scheduled ! i]) [0..<length scheduled]))"
    unfolding positions_of_pairs[OF fits(1)] p[symmetric] by (simp add: start_def)
  show "length (concat (map (\<lambda>i. [start i..<start i + scheduled ! i]) [0..<length scheduled])) = sum_list scheduled"
    unfolding p[symmetric] by (simp add: length_step_pairs)
  have seg: "map (\<lambda>a. rb_token_ids rb ! i ! (start i + a)) [0..<scheduled ! i]
      = slice (rb_token_ids rb ! i) (start i) (start i + scheduled ! i)" if "i < length scheduled" for i
  proof -
    have "start i + scheduled ! i \<le> length (rb_token_ids rb ! i)" using fits(2-4) that by simp
    then show ?thesis by (intro nth_equalityI) (simp_all add: slice_def)
  qed
  have "map (\<lambda>(i, a). rb_token_ids rb ! i ! (start i + a)) (step_pairs scheduled)
      = concat (map (\<lambda>i. slice (rb_token_ids rb ! i) (start i) (start i + scheduled ! i)) [0..<length scheduled])"
    unfolding map_step_pairs by (intro arg_cong[of _ _ concat] map_cong) (simp_all add: seg)
  then show "index_select (concat (rb_token_ids rb)) (token_indices_of (rb_row_width rb)
        (concat (map (\<lambda>i. [start i..<start i + scheduled ! i]) [0..<length scheduled])) (repeat_index scheduled)) =
      Inr (concat (map (\<lambda>i. slice (rb_token_ids rb ! i) (start i) (start i + scheduled ! i)) [0..<length scheduled]))"
    using index_select_pairs[OF fits(3,2,4)[unfolded start_def]] unfolding start_def p[unfolded start_def, symmetric] by simp
qed

text \<open>
  C33. The inputs of a step without drafts: when the batch and the step fit together, preparing them
  succeeds exactly if the slots of the cached states do, and then position and token tensors hold for
  every request its scheduled tokens in order, the start locations are the prefix sums, padded by
  their last value, the sequence lengths count what is computed after the step, the logits of a
  request are taken at its last token, and the requests discarded are those still within their prompt.
\<close>
theorem prepare_inputs_correct:
  assumes "step_ok c num_tokens_of rb so scheduled" "so_spec_decode_tokens so = []"
    and "insert_req_id pick (so_new_reqs so) kv = Inr kv'" "sc_lora_max_tokens c = None"
  defines "n \<equiv> length scheduled" and "start \<equiv> \<lambda>i. rb_num_computed_tokens rb ! i"
  shows "\<exists>p. prepare_inputs c pick num_tokens_of rb embeds so scheduled max_scheduled kv = Inr (kv', p)
    \<and> pr_positions p = concat (map (\<lambda>i. [start i..<start i + scheduled ! i]) [0..<n])
    \<and> pr_input_ids p = concat (map (\<lambda>i. slice (rb_token_ids rb ! i) (start i) (start i + scheduled ! i)) [0..<n])
    \<and> list_all (\<lambda>i. pr_query_start_loc p ! i = sum_list (take i scheduled)) [0..<Suc (sc_max_num_reqs c)]
    \<and> list_all (\<lambda>i. pr_seq_lens p ! i = start i + scheduled ! i) [0..<n]
    \<and> list_all (\<lambda>i. if scheduled ! i = 0 then True
                     else pr_positions p ! (pr_logits_indices p ! i) = start i + scheduled ! i - 1) [0..<n]
    \<and> pr_discard p = filter (\<lambda>i. start i + scheduled ! i < the (dict_get num_tokens_of (rb_req_ids rb ! i))) [0..<n]"
proof -
  let ?pos = "concat (map (\<lambda>i. [start i..<start i + scheduled ! i]) [0..<n])"
  let ?ids = "concat (map (\<lambda>i. slice (rb_token_ids rb ! i) (start i) (start i + scheduled ! i)) [0..<n])"
  let ?lens = "map2 (+) (take n (rb_num_computed_tokens rb)) scheduled"
  let ?nt = "map (\<lambda>r. the (dict_get num_tokens_of r)) (rb_req_ids rb)"
  note ok = assms(1)[unfolded step_ok_def]
  note ins = inputs_of_step[OF assms(1), folded start_def n_def]
  have n: "length (rb_req_ids rb) = n" "0 < n" "n \<le> length (rb_num_computed_tokens rb)" "n \<le> sc_max_num_reqs c"
    using ok by (auto simp: n_def)
  have nt: "map_res (dict_at num_tokens_of) (rb_req_ids rb) = Inr ?nt"
    by (rule map_res_total) (use ok in \<open>auto simp: dict_at_def list_all_iff\<close>)
  have qsl: "query_start_loc (sc_max_num_reqs c) scheduled ! i = sum_list (take i scheduled)"
    if lt: "i < Suc (sc_max_num_reqs c)" for i
  proof (cases "i \<le> n")
    case True
    then show ?thesis
      by (cases i) (simp_all add: query_start_loc_def nth_append nth_accumulate n_def)
  next
    case False
    then obtain j where j: "i = Suc j" "n \<le> j" "j < sc_max_num_reqs c" using lt by (cases i) auto
    have "accumulate scheduled \<noteq> []" using n(2) by (metis length_accumulate length_greater_0_conv n_def)
    then have "last (accumulate scheduled) = sum_list scheduled"
      using n(2) by (simp add: last_conv_nth nth_accumulate n_def)
    then show ?thesis using j by (simp add: query_start_loc_def nth_append n_def)
  qed
  have lens: "?lens ! i = start i + scheduled ! i" if "i < n" for i
    using that n by (simp add: start_def n_def)
  have logit: "?pos ! (accumulate scheduled ! i - 1) = start i + scheduled ! i - 1" if "i < n" "scheduled ! i \<noteq> 0" for i
  proof -
    have "?pos ! (sum_list (take i scheduled) + (scheduled ! i - 1)) = [start i..<start i + scheduled ! i] ! (scheduled ! i - 1)"
      by (rule concat_segment_nth[where ks = scheduled]) (use that in \<open>auto simp: n_def\<close>)
    then show ?thesis using that by (simp add: nth_accumulate n_def sum_list_take_Suc)
  qed
  have disc: "discard_requests ?lens ?nt = filter (\<lambda>i. start i + scheduled ! i < the (dict_get num_tokens_of (rb_req_ids rb ! i))) [0..<n]"
  proof -
    have "length ?lens = n" using n by (simp add: n_def)
    then show ?thesis unfolding discard_requests_def by (intro filter_cong) (simp_all add: n start_def)
  qed
  have l: "length scheduled = length (rb_req_ids rb)" "sum_list scheduled = so_total_num_scheduled_tokens so"
    "0 < so_total_num_scheduled_tokens so" "rb_req_ids rb \<noteq> []" using ok by auto
  have run: "\<exists>p. prepare_inputs c pick num_tokens_of rb embeds so scheduled max_scheduled kv = Inr (kv', p)
      \<and> pr_positions p = ?pos \<and> pr_input_ids p = ?ids
      \<and> pr_query_start_loc p = query_start_loc (sc_max_num_reqs c) scheduled
      \<and> pr_seq_lens p = ?lens @ replicate (sc_max_num_reqs c - n) 0
      \<and> pr_logits_indices p = map (\<lambda>x. x - 1) (accumulate scheduled)
      \<and> pr_discard p = discard_requests ?lens ?nt"
    unfolding prepare_inputs_def Let_def assms(2-4) ins(1) bind_res_simps nt
    using l n ins(2,3) by simp
  then obtain p where p: "prepare_inputs c pick num_tokens_of rb embeds so scheduled max_scheduled kv = Inr (kv', p)"
      "pr_positions p = ?pos" "pr_input_ids p = ?ids"
      "pr_query_start_loc p = query_start_loc (sc_max_num_reqs c) scheduled"
      "pr_seq_lens p = ?lens @ replicate (sc_max_num_reqs c - n) 0"
      "pr_logits_indices p = map (\<lambda>x. x - 1) (accumulate scheduled)"
      "pr_discard p = discard_requests ?lens ?nt" by blast
  have "length ?lens = n" using n by (simp add: n_def)
  then have a1: "list_all (\<lambda>i. pr_seq_lens p ! i = start i + scheduled ! i) [0..<n]"
    using lens unfolding p(5) list_all_iff by (simp add: nth_append)
  have a2: "list_all (\<lambda>i. pr_query_start_loc p ! i = sum_list (take i scheduled)) [0..<Suc (sc_max_num_reqs c)]"
    using qsl unfolding p(4) list_all_iff by simp
  have a3: "list_all (\<lambda>i. if scheduled ! i = 0 then True
      else pr_positions p ! (pr_logits_indices p ! i) = start i + scheduled ! i - 1) [0..<n]"
    using logit unfolding p(2,6) list_all_iff by (simp add: n_def)
  show ?thesis
    by (intro exI[of _ p] conjI) (fact p(1) p(2) p(3) a1 a2 a3 p(7)[unfolded disc])+
qed

definition demo_step_config :: "unit step_config" where
  "demo_step_config =
     \<lparr>sc_pad = \<lparr>pc_decode_only = False, pc_cudagraph_off = True, pc_batch_sizes = None,
                pc_sequence_parallelism = False, pc_tp_size = 1\<rparr>,
      sc_pad_for_cudagraph = id, sc_max_num_reqs = 4, sc_prefill_only = False, sc_num_spec_tokens = 0,
      sc_uniform_decode_query_len = 1, sc_custom_dp_opt = False,
      sc_dp_metadata = (\<lambda>_ _ _ _. ()), sc_coordinate = (\<lambda>_ _ _ _ _. ()), sc_spec_logits = (\<lambda>_ _. []),
      sc_lora_max_tokens = None\<rparr>"

definition demo_runner_batch :: "unit runner_batch" where
  "demo_runner_batch =
     \<lparr>rb_req_ids = [7, 8], rb_req_id_to_index = [(7, 0), (8, 1)], rb_num_computed_tokens = [2, 0],
      rb_num_prompt_tokens = [2, 3], rb_token_ids = [[1, 2, 3, 0], [4, 5, 6, 0]], rb_row_width = 4,
      rb_req_prompt_embeds = []\<rparr>"

lemma prepare_inputs_correct_witness:
  "\<exists>p. prepare_inputs demo_step_config hd [(7, 3), (8, 3)] demo_runner_batch []
      \<lparr>so_new_reqs = [], so_total_num_scheduled_tokens = 3, so_spec_decode_tokens = []\<rparr> [1, 2] 2 None = Inr (None, p)
    \<and> pr_input_ids p = [3, 4, 5] \<and> pr_discard p = [1]"
proof -
  let ?so = "\<lparr>so_new_reqs = [], so_total_num_scheduled_tokens = 3, so_spec_decode_tokens = []\<rparr>"
  have "step_ok demo_step_config [(7, 3), (8, 3)] demo_runner_batch ?so [1, 2]"
    by (simp add: step_ok_def demo_step_config_def demo_runner_batch_def upt_rec)
  from prepare_inputs_correct[OF this, of hd None None "[]" 2] show ?thesis
    by (fastforce simp: insert_req_id_def demo_step_config_def demo_runner_batch_def upt_rec slice_def)
qed

section \<open>Counting drafts\<close>

text \<open>
  The drafts of a step are counted at the index of their request: the count, and for requests past
  their prompt the count of decode drafts; every other place stays 0, respectively -1. A request that
  still computes its prompt keeps -1 even when it has drafts.
\<close>
theorem draft_counts_correct:
  assumes "distinct (dict_keys spec)" "inj_on (\<lambda>r. the (dict_get index r)) (set (dict_keys spec))"
    and "list_all (\<lambda>(r, ts). case dict_get index r of None \<Rightarrow> False | Some i \<Rightarrow> i < n) spec"
    and "n \<le> length computed" "n \<le> length prompt"
  defines "of_index \<equiv> \<lambda>i. find (\<lambda>q. dict_get index (fst q) = Some i) spec"
  shows "draft_counts index computed prompt spec n = Inr
    (map (\<lambda>i. case of_index i of None \<Rightarrow> 0 | Some q \<Rightarrow> length (snd q)) [0..<n],
     map (\<lambda>i. case of_index i of None \<Rightarrow> -1
              | Some q \<Rightarrow> if prompt ! i \<le> computed ! i then int (length (snd q)) else -1) [0..<n])"
proof -
  have "fold_res (draft_step index computed prompt) sp (nd, dd) = Inr
      (map (\<lambda>i. case find (\<lambda>q. dict_get index (fst q) = Some i) sp of None \<Rightarrow> nd ! i | Some q \<Rightarrow> length (snd q)) [0..<n],
       map (\<lambda>i. case find (\<lambda>q. dict_get index (fst q) = Some i) sp of None \<Rightarrow> dd ! i
              | Some q \<Rightarrow> if prompt ! i \<le> computed ! i then int (length (snd q)) else -1) [0..<n])"
    if "length nd = n" "length dd = n" "distinct (dict_keys sp)" "inj_on (\<lambda>r. the (dict_get index r)) (set (dict_keys sp))"
      "list_all (\<lambda>(r, ts). case dict_get index r of None \<Rightarrow> False | Some i \<Rightarrow> i < n) sp" for sp nd dd
    using that
  proof (induction sp arbitrary: nd dd)
    case Nil
    then show ?case by (auto intro!: nth_equalityI)
  next
    case (Cons q sp)
    obtain r ts where q: "q = (r, ts)" by (cases q)
    obtain k where k: "dict_get index r = Some k" "k < n" using Cons.prems(5) by (auto simp: q split: option.splits)
    have others: "dict_get index (fst p) \<noteq> Some k" if "p \<in> set sp" for p
    proof
      assume a: "dict_get index (fst p) = Some k"
      have "fst p \<in> set (dict_keys (q # sp))" "r \<in> set (dict_keys (q # sp))" using that q by auto
      then have "fst p = r" using Cons.prems(4) a k(1) unfolding inj_on_def by (metis option.sel)
      then show False using Cons.prems(3) that q by (auto simp: image_iff)
    qed
    then have none: "find (\<lambda>p. dict_get index (fst p) = Some k) sp = None" unfolding find_None_iff using others by blast
    have step: "draft_step index computed prompt q (nd, dd) =
        Inr (nd[k := length ts], dd[k := if prompt ! k \<le> computed ! k then int (length ts) else -1])"
      using k Cons.prems(1,2) assms(4,5) by (simp add: draft_step_def q dict_at_def)
    have rest: "distinct (dict_keys sp)" "inj_on (\<lambda>r. the (dict_get index r)) (set (dict_keys sp))"
        "list_all (\<lambda>(r, ts). case dict_get index r of None \<Rightarrow> False | Some i \<Rightarrow> i < n) sp"
      using Cons.prems(3-5) by (auto simp: inj_on_def)
    let ?nd = "nd[k := length ts]" and ?dd = "dd[k := if prompt ! k \<le> computed ! k then int (length ts) else -1]"
    have IH: "fold_res (draft_step index computed prompt) sp (?nd, ?dd) = Inr
      (map (\<lambda>i. case find (\<lambda>q. dict_get index (fst q) = Some i) sp of None \<Rightarrow> ?nd ! i | Some q \<Rightarrow> length (snd q)) [0..<n],
       map (\<lambda>i. case find (\<lambda>q. dict_get index (fst q) = Some i) sp of None \<Rightarrow> ?dd ! i
              | Some q \<Rightarrow> if prompt ! i \<le> computed ! i then int (length (snd q)) else -1) [0..<n])"
      using Cons.IH[of ?nd ?dd] Cons.prems(1,2) rest by simp
    have find: "find (\<lambda>q. dict_get index (fst q) = Some i) (q # sp) =
        (if i = k then Some q else find (\<lambda>q. dict_get index (fst q) = Some i) sp)" for i
      using k(1) by (auto simp: q)
    have same: "(case find (\<lambda>q. dict_get index (fst q) = Some i) sp of None \<Rightarrow> ?nd ! i | Some q \<Rightarrow> length (snd q))
        = (case find (\<lambda>q. dict_get index (fst q) = Some i) (q # sp) of None \<Rightarrow> nd ! i | Some q \<Rightarrow> length (snd q))"
      "(case find (\<lambda>q. dict_get index (fst q) = Some i) sp of None \<Rightarrow> ?dd ! i
              | Some q \<Rightarrow> if prompt ! i \<le> computed ! i then int (length (snd q)) else -1)
        = (case find (\<lambda>q. dict_get index (fst q) = Some i) (q # sp) of None \<Rightarrow> dd ! i
              | Some q \<Rightarrow> if prompt ! i \<le> computed ! i then int (length (snd q)) else -1)" for i
    proof -
      have nth: "?nd ! k = length ts" "?dd ! k = (if prompt ! k \<le> computed ! k then int (length ts) else -1)"
        using k(2) Cons.prems(1,2) by (simp_all only: nth_list_update_eq)
      have oth: "?nd ! i = nd ! i" "?dd ! i = dd ! i" if "i \<noteq> k" using that by (simp_all only: nth_list_update_neq simp_thms)
      show "(case find (\<lambda>q. dict_get index (fst q) = Some i) sp of None \<Rightarrow> ?nd ! i | Some q \<Rightarrow> length (snd q))
        = (case find (\<lambda>q. dict_get index (fst q) = Some i) (q # sp) of None \<Rightarrow> nd ! i | Some q \<Rightarrow> length (snd q))"
      proof (cases "i = k")
        case True
        show ?thesis unfolding find unfolding True none nth by (simp only: option.case if_True simp_thms q snd_conv)
      next
        case False
        then show ?thesis unfolding find oth[OF False] by (simp only: if_False)
      qed
      show "(case find (\<lambda>q. dict_get index (fst q) = Some i) sp of None \<Rightarrow> ?dd ! i
              | Some q \<Rightarrow> if prompt ! i \<le> computed ! i then int (length (snd q)) else -1)
        = (case find (\<lambda>q. dict_get index (fst q) = Some i) (q # sp) of None \<Rightarrow> dd ! i
              | Some q \<Rightarrow> if prompt ! i \<le> computed ! i then int (length (snd q)) else -1)"
      proof (cases "i = k")
        case True
        show ?thesis unfolding find unfolding True none nth by (simp only: option.case if_True simp_thms q snd_conv)
      next
        case False
        then show ?thesis unfolding find oth[OF False] by (simp only: if_False)
      qed
    qed
    have "fold_res (draft_step index computed prompt) (q # sp) (nd, dd) =
        fold_res (draft_step index computed prompt) sp (?nd, ?dd)" using step by simp
    then show ?case unfolding IH same .
  qed
  from this[of "replicate n 0" "replicate n (-1)" spec] show ?thesis
    using assms(1-3) unfolding draft_counts_def of_index_def by (simp split: option.split)
qed

lemma draft_counts_correct_witness:
  "draft_counts [(7, 0), (8, 1)] [2, 0] [2, 3] [(8, [5, 6]), (7, [9])] 2 = Inr ([1, 2], [1, -1])"
  using draft_counts_correct[of "[(8, [5, 6]), (7, [9])]" "[(7, 0), (8, 1)]" 2 "[2, 0]" "[2, 3]"]
  by (simp add: draft_counts_def draft_step_def dict_at_def put_res_def nth_res_def numeral_eq_Suc)

end
