(* ===== verification/KvCache.thy ===== *)
theory KvCache
  imports Prelude
begin

text \<open>
  The sizes of cache pages (\<^verbatim>\<open>vllm_mlu/v1/kv_cache_interface.py\<close>), how the memory is
  divided into tensors (\<^verbatim>\<open>vllm_mlu/v1/core/kv_cache_utils.py\<close>) and how a request gets
  slots (\<^verbatim>\<open>vllm_mlu/v1/core/kv_cache_manager.py\<close>). The block pool and the coordinator of
  vLLM are arguments.
\<close>

section \<open>Page sizes\<close>

datatype dtype = Int8 | UInt8 | Dtype nat

definition get_dtype_size :: "dtype \<Rightarrow> nat" where
  "get_dtype_size d = (case d of Int8 \<Rightarrow> 1 | UInt8 \<Rightarrow> 1 | Dtype n \<Rightarrow> n)"

definition float32 :: dtype where "float32 = Dtype 4"

record attention_spec =
  as_block_size :: nat
  as_num_kv_heads :: nat
  as_head_size :: nat
  as_dtype :: dtype

definition full_cache_size :: "attention_spec \<Rightarrow> nat" where
  "full_cache_size s = 2 * as_block_size s * as_num_kv_heads s * as_head_size s * get_dtype_size (as_dtype s)"

definition full_scale_size :: "attention_spec \<Rightarrow> nat" where
  "full_scale_size s =
     (if as_dtype s \<in> {Int8, UInt8} then 2 * as_block_size s * as_num_kv_heads s * get_dtype_size float32 else 0)"

definition full_page_size :: "attention_spec \<Rightarrow> nat" where
  "full_page_size s = full_cache_size s + full_scale_size s"

record mla_spec = attention_spec +
  ms_cache_dtype_str :: "string option"
  ms_index_head_dim :: nat
  ms_index_n_heads :: nat

definition mla_cache_size :: "mla_spec \<Rightarrow> nat" where
  "mla_cache_size s = as_block_size s * as_num_kv_heads s * as_head_size s * get_dtype_size (as_dtype s)"

definition mla_scale_size :: "mla_spec \<Rightarrow> nat" where
  "mla_scale_size s =
     (if as_dtype s \<in> {Int8, UInt8} then as_block_size s * as_num_kv_heads s * get_dtype_size float32 else 0)"

definition mla_index_cache_size :: "mla_spec \<Rightarrow> nat" where
  "mla_index_cache_size s =
     as_block_size s * ms_index_n_heads s * ms_index_head_dim s * get_dtype_size (as_dtype s)"

definition mla_page_size :: "mla_spec \<Rightarrow> nat" where
  "mla_page_size s = mla_cache_size s + mla_scale_size s + mla_index_cache_size s"

text \<open>Merging the specs of a group: all must use one quantization; the rest is taken from the first.\<close>

definition mla_merge :: "mla_spec list \<Rightarrow> mla_spec res" where
  "mla_merge specs =
     require (length (remdups (map ms_cache_dtype_str specs)) = 1) AssertionError
     (bind_res (nth_res specs 0) Inr)"

record sliding_spec = attention_spec +
  sw_sliding_window :: nat

definition sliding_cache_size :: "sliding_spec \<Rightarrow> nat" where
  "sliding_cache_size s = 2 * as_block_size s * as_num_kv_heads s * as_head_size s * get_dtype_size (as_dtype s)"

definition sliding_scale_size :: "sliding_spec \<Rightarrow> nat" where
  "sliding_scale_size s =
     (if as_dtype s \<in> {Int8, UInt8} then 2 * as_block_size s * as_num_kv_heads s * get_dtype_size float32 else 0)"

definition sliding_page_size :: "sliding_spec \<Rightarrow> nat" where
  "sliding_page_size s = sliding_cache_size s + sliding_scale_size s"

definition mamba_page_size :: "(nat list \<times> dtype) list \<Rightarrow> nat option \<Rightarrow> nat" where
  "mamba_page_size shapes_dtypes page_size_padded =
     (case page_size_padded of
        Some p \<Rightarrow> p
      | None \<Rightarrow> sum_list (map (\<lambda>(shape, d). prod_list shape * get_dtype_size d) shapes_dtypes))"

text \<open>
  The contract of a page size: it is proportional to the block size. Whoever divides memory into
  blocks relies on it; the consequences are proved once.
\<close>

locale page_spec =
  fixes page :: "'s \<Rightarrow> nat" and block :: "'s \<Rightarrow> nat" and resize :: "nat \<Rightarrow> 's \<Rightarrow> 's"
  assumes page_proportional: "page (resize b s) * block s = page s * b"
    and block_resize: "block (resize b s) = b"
begin

text \<open>Splitting a block into \<open>k\<close> kernel blocks splits its page into \<open>k\<close> pages.\<close>

lemma split_block: "block s = k * b \<Longrightarrow> 0 < b \<Longrightarrow> 0 < k \<Longrightarrow> page s = k * page (resize b s)"
proof -
  assume b: "block s = k * b" "0 < b" "0 < k"
  have "page s * b = (k * page (resize b s)) * b"
    using page_proportional[of b s] unfolding b(1) by (metis mult.assoc mult.commute)
  then show ?thesis using b(2) by (metis mult_right_cancel neq0_conv)
qed

lemma blocks_fit: "(memory div page s) * page s \<le> memory"
  by simp

end

interpretation full: page_spec full_page_size as_block_size "\<lambda>b s. s\<lparr>as_block_size := b\<rparr>"
  by unfold_locales (simp_all add: full_page_size_def full_cache_size_def full_scale_size_def algebra_simps)

interpretation mla: page_spec mla_page_size as_block_size "\<lambda>b s. s\<lparr>as_block_size := b\<rparr>"
  by unfold_locales
    (simp_all add: mla_page_size_def mla_cache_size_def mla_scale_size_def mla_index_cache_size_def algebra_simps)

interpretation sliding: page_spec sliding_page_size as_block_size "\<lambda>b s. s\<lparr>as_block_size := b\<rparr>"
  by unfold_locales (simp_all add: sliding_page_size_def sliding_cache_size_def sliding_scale_size_def algebra_simps)

section \<open>Dividing the memory into tensors\<close>

record kv_group =
  kg_layer_names :: "string list"
  kg_uniform :: "(nat \<times> (string, nat) dict) option"

record kv_tensor =
  kt_size :: int
  kt_shared_by :: "string list"

record kv_config =
  kc_num_blocks :: int
  kc_tensors :: "kv_tensor list"
  kc_groups :: "kv_group list"

record mamba_config =
  mc_split_page_size :: bool
  mc_attn_block_ratio :: nat
  mc_max_batch_size :: nat

definition shared_by :: "kv_group list \<Rightarrow> nat \<Rightarrow> string list" where
  "shared_by groups i =
     map (\<lambda>g. kg_layer_names g ! i) (filter (\<lambda>g. i < length (kg_layer_names g)) groups)"

definition group_size :: "kv_group list \<Rightarrow> nat" where
  "group_size groups = Max (set (map (\<lambda>g. length (kg_layer_names g)) groups))"

definition reserved_for_mamba :: "mamba_config \<Rightarrow> nat \<Rightarrow> nat \<Rightarrow> nat" where
  "reserved_for_mamba mc page_size gs =
     (if mc_split_page_size mc then page_size * mc_attn_block_ratio mc * mc_max_batch_size mc * gs * 3 else 0)"

definition get_kv_cache_config_from_groups ::
  "(int \<Rightarrow> int) \<Rightarrow> nat res \<Rightarrow> (nat \<Rightarrow> int \<Rightarrow> nat \<Rightarrow> int) \<Rightarrow> mamba_config \<Rightarrow> kv_group list \<Rightarrow> int \<Rightarrow> kv_config res" where
  "get_kv_cache_config_from_groups may_override_num_blocks uniform_page_size get_num_blocks mc groups available_memory =
     (case groups of
        [] \<Rightarrow> Inr \<lparr>kc_num_blocks = 1, kc_tensors = [], kc_groups = groups\<rparr>
      | g # rest \<Rightarrow>
         (case (if rest = [] then kg_uniform g else None) of
            Some (page_size_bytes, per_layer) \<Rightarrow>
              require (page_size_bytes \<noteq> 0) ZeroDivisionError
              (let num_blocks = may_override_num_blocks (available_memory div int page_size_bytes) in
               bind_res (map_res (\<lambda>l. bind_res (dict_at per_layer l) (\<lambda>p.
                   Inr \<lparr>kt_size = int p * num_blocks, kt_shared_by = [l]\<rparr>)) (kg_layer_names g)) (\<lambda>ts.
               Inr \<lparr>kc_num_blocks = num_blocks, kc_tensors = ts, kc_groups = groups\<rparr>))
          | None \<Rightarrow>
              let gs = group_size groups in
              bind_res uniform_page_size (\<lambda>page_size.
              let available = available_memory - int (reserved_for_mamba mc page_size gs) in
              require (0 < gs) AssertionError
              (let num_blocks = get_num_blocks gs available page_size in
               Inr \<lparr>kc_num_blocks = num_blocks,
                    kc_tensors = map (\<lambda>i. \<lparr>kt_size = int page_size * num_blocks, kt_shared_by = shared_by groups i\<rparr>) [0..<gs],
                    kc_groups = groups\<rparr>))))"

section \<open>Slots of a request\<close>

text \<open>
  Whether the caller passes no blocks, the empty blocks of the manager itself, or blocks of its own:
  the code compares object identities.
\<close>

datatype 'b computed_blocks = NoBlocks | OwnEmpty | Blocks "'b list list"

record ('s, 'b) kv_ops =
  ko_remove_skipped_blocks :: "nat \<Rightarrow> nat \<Rightarrow> 's \<Rightarrow> 's"
  ko_num_blocks_to_allocate :: "nat \<Rightarrow> nat \<Rightarrow> 'b list list \<Rightarrow> nat \<Rightarrow> 's \<Rightarrow> nat"
  ko_num_free_blocks :: "'s \<Rightarrow> nat"
  ko_touch :: "'b list list \<Rightarrow> 's \<Rightarrow> 's"
  ko_save_new_computed_blocks :: "nat \<Rightarrow> 'b list list \<Rightarrow> 's \<Rightarrow> 's"
  ko_allocate_new_blocks :: "nat \<Rightarrow> nat \<Rightarrow> nat \<Rightarrow> 's \<Rightarrow> 'b list list \<times> 's"
  ko_cache_blocks :: "nat \<Rightarrow> nat \<Rightarrow> 's \<Rightarrow> 's"
  ko_empty_blocks :: "'b list list"

record alloc_request =
  ar_request_id :: nat
  ar_num_computed_tokens :: nat
  ar_num_tokens :: nat

definition allocate_slots ::
  "('s, 'b) kv_ops \<Rightarrow> bool \<Rightarrow> nat \<Rightarrow> alloc_request \<Rightarrow> nat \<Rightarrow> nat \<Rightarrow> 'b computed_blocks \<Rightarrow> nat \<Rightarrow> bool \<Rightarrow> nat \<Rightarrow> nat
    \<Rightarrow> 's \<Rightarrow> ('b list list option \<times> 's) res" where
  "allocate_slots ops enable_caching max_model_len r num_new_tokens num_new_computed_tokens new_computed
     num_lookahead_tokens delay_cache_blocks num_encoder_tokens fixed_window_tokens s =
     require (num_new_tokens \<noteq> 0) ValueError
     (let blocks = (case new_computed of Blocks bs \<Rightarrow> bs | _ \<Rightarrow> ko_empty_blocks ops);
          s1 = ko_remove_skipped_blocks ops (ar_request_id r) (ar_num_computed_tokens r) s;
          num_computed_tokens = ar_num_computed_tokens r + num_new_computed_tokens;
          need = min (num_computed_tokens + num_new_tokens + num_lookahead_tokens + fixed_window_tokens) max_model_len;
          to_allocate = ko_num_blocks_to_allocate ops (ar_request_id r) need blocks num_encoder_tokens s1
      in if ko_num_free_blocks ops s1 < to_allocate then Inr (None, s1)
         else require (enable_caching \<or> list_all (\<lambda>b. b = []) blocks) AssertionError
         (let s2 = (if enable_caching then ko_touch ops blocks s1 else s1);
              s3 = (case new_computed of
                     Blocks bs \<Rightarrow> ko_save_new_computed_blocks ops (ar_request_id r) bs s2 | _ \<Rightarrow> s2);
              (new_blocks, s4) = ko_allocate_new_blocks ops (ar_request_id r) need num_encoder_tokens s3
          in if \<not> enable_caching \<or> delay_cache_blocks then Inr (Some new_blocks, s4)
             else Inr (Some new_blocks,
               ko_cache_blocks ops (ar_request_id r) (min (num_computed_tokens + num_new_tokens) (ar_num_tokens r)) s4)))"

section \<open>Every layer gets its share\<close>

lemma shared_by_Cons:
  "shared_by (g # gs) i = (if i < length (kg_layer_names g) then [kg_layer_names g ! i] else []) @ shared_by gs i"
  by (simp add: shared_by_def)

lemma concat_prefix_nth: "length xs \<le> n \<Longrightarrow> concat (map (\<lambda>i. if i < length xs then [xs ! i] else []) [0..<n]) = xs"
proof -
  let ?f = "\<lambda>i. if i < length xs then [xs ! i] else []"
  assume "length xs \<le> n"
  then have "[0..<n] = [0..<length xs] @ [length xs..<n]" using upt_add_eq_append[of 0 "length xs" "n - length xs"] by simp
  moreover have "map ?f [0..<length xs] = map (\<lambda>i. [xs ! i]) [0..<length xs]" by (intro map_cong) simp_all
  moreover have "concat (map ?f [length xs..<n]) = []" by (auto simp: concat_eq_Nil_conv)
  ultimately have "concat (map ?f [0..<n]) = map ((!) xs) [0..<length xs]"
    by (simp only: map_append concat_append concat_map_singleton append_Nil2)
  then show ?thesis by (simp add: map_nth)
qed

lemma shared_layers:
  assumes "\<forall>g \<in> set groups. length (kg_layer_names g) \<le> n"
  shows "mset (concat (map (shared_by groups) [0..<n])) = mset (concat (map kg_layer_names groups))"
  using assms
proof (induction groups)
  case Nil
  then show ?case by (simp add: shared_by_def)
next
  case (Cons g groups)
  have split: "mset (concat (map (\<lambda>i. a i @ b i) xs)) = mset (concat (map a xs)) + mset (concat (map b xs))"
    for a b :: "nat \<Rightarrow> string list" and xs by (induction xs) auto
  have "mset (concat (map (shared_by (g # groups)) [0..<n])) =
      mset (concat (map (\<lambda>i. if i < length (kg_layer_names g) then [kg_layer_names g ! i] else []) [0..<n]))
      + mset (concat (map (shared_by groups) [0..<n]))"
    unfolding shared_by_Cons split ..
  moreover have "concat (map (\<lambda>i. if i < length (kg_layer_names g) then [kg_layer_names g ! i] else []) [0..<n]) = kg_layer_names g"
    using Cons.prems by (intro concat_prefix_nth) simp
  ultimately show ?case using Cons by simp
qed

lemma group_size_bound: "g \<in> set groups \<Longrightarrow> length (kg_layer_names g) \<le> group_size groups"
  unfolding group_size_def by (intro Max_ge) auto

text \<open>What the code relies on: the blocks fit into the memory left, and a uniform page is the sum of its layers.\<close>

definition blocks_law :: "(nat \<Rightarrow> int \<Rightarrow> nat \<Rightarrow> int) \<Rightarrow> bool" where
  "blocks_law f \<longleftrightarrow> (\<forall>gs m p. 0 \<le> f gs m p \<and> f gs m p * int p * int gs \<le> max 0 m)"

definition uniform_ok :: "kv_group \<Rightarrow> bool" where
  "uniform_ok g \<longleftrightarrow> (case kg_uniform g of None \<Rightarrow> True
     | Some (p, per_layer) \<Rightarrow> p = sum_list (map (\<lambda>l. the (dict_get per_layer l)) (kg_layer_names g)))"

lemma uniform_tensors:
  "map_res (\<lambda>l. bind_res (dict_at d l) (\<lambda>p. Inr \<lparr>kt_size = int p * n, kt_shared_by = [l]\<rparr>)) ls = Inr ts \<Longrightarrow>
   concat (map kt_shared_by ts) = ls \<and> sum_list (map kt_size ts) = n * int (sum_list (map (\<lambda>l. the (dict_get d l)) ls))"
  by (induction ls arbitrary: ts)
    (auto simp: dict_at_def algebra_simps split: sum.splits option.splits)

lemma div_mult_le_int: "0 \<le> (m :: int) \<Longrightarrow> m div int p * int p \<le> m"
proof -
  assume "0 \<le> m"
  then have "0 \<le> m mod int p" by (cases "p = 0") simp_all
  then show ?thesis using minus_mod_eq_div_mult[of m "int p"] by linarith
qed

text \<open>
  Dividing the memory serves every layer once and stays within the memory: the layers named by the
  tensors are exactly the layers of the groups, each as often as its groups name it, and the tensors
  together do not exceed the available memory.
\<close>
theorem kv_config_shares:
  assumes "get_kv_cache_config_from_groups id upage get_num_blocks mc groups available = Inr cfg"
    and "blocks_law get_num_blocks" "list_all uniform_ok groups" "0 \<le> available"
  shows "mset (concat (map kt_shared_by (kc_tensors cfg))) = mset (concat (map kg_layer_names groups))
    \<and> sum_list (map kt_size (kc_tensors cfg)) \<le> available"
proof (cases groups)
  case Nil
  then show ?thesis using assms(1,4) by (auto simp: get_kv_cache_config_from_groups_def)
next
  case (Cons g rest)
  show ?thesis
  proof (cases "if rest = [] then kg_uniform g else None")
    case (Some q)
    obtain p d where q: "q = (p, d)" by (cases q)
    have rest: "rest = []" "kg_uniform g = Some (p, d)" using Some q by (auto split: if_splits)
    let ?n = "available div int p"
    obtain ts where ts: "map_res (\<lambda>l. bind_res (dict_at d l) (\<lambda>p. Inr \<lparr>kt_size = int p * ?n, kt_shared_by = [l]\<rparr>))
        (kg_layer_names g) = Inr ts" "kc_tensors cfg = ts"
      using assms(1) Cons rest
      by (auto simp: get_kv_cache_config_from_groups_def require_eq_Inr bind_res_eq_Inr Let_def)
    have "p = sum_list (map (\<lambda>l. the (dict_get d l)) (kg_layer_names g))"
      using assms(3) Cons rest by (simp add: uniform_ok_def)
    then have "sum_list (map kt_size ts) = ?n * int p" using uniform_tensors[OF ts(1)] by simp
    also have "\<dots> \<le> available" using assms(4) by (rule div_mult_le_int)
    finally show ?thesis using uniform_tensors[OF ts(1)] ts(2) Cons rest by simp
  next
    case None
    let ?gs = "group_size groups"
    obtain page where r: "upage = Inr page" "kc_tensors cfg = map (\<lambda>i. \<lparr>kt_size = int page * get_num_blocks ?gs
        (available - int (reserved_for_mamba mc page ?gs)) page, kt_shared_by = shared_by groups i\<rparr>) [0..<?gs]"
      using assms(1) None Cons
      by (auto simp: get_kv_cache_config_from_groups_def require_eq_Inr bind_res_eq_Inr Let_def)
    let ?m = "available - int (reserved_for_mamba mc page ?gs)"
    have "sum_list (map kt_size (kc_tensors cfg)) = get_num_blocks ?gs ?m page * int page * int ?gs"
      unfolding r(2) by (simp add: comp_def sum_list_triv)
    also have "\<dots> \<le> max 0 ?m" using assms(2) unfolding blocks_law_def by blast
    finally have "sum_list (map kt_size (kc_tensors cfg)) \<le> available" using assms(4) by simp
    moreover have "mset (concat (map kt_shared_by (kc_tensors cfg))) = mset (concat (map kg_layer_names groups))"
      using shared_layers[of groups ?gs] group_size_bound[of _ groups] unfolding r(2) by (simp add: comp_def)
    ultimately show ?thesis by simp
  qed
qed

text \<open>A division of the memory as vLLM does it.\<close>

definition demo_num_blocks :: "nat \<Rightarrow> int \<Rightarrow> nat \<Rightarrow> int" where
  "demo_num_blocks gs m p = max 0 m div int p div int gs"

lemma demo_blocks_law: "blocks_law demo_num_blocks"
  unfolding blocks_law_def demo_num_blocks_def
proof (intro allI conjI)
  fix gs p :: nat and m :: int
  let ?q = "max 0 m div int p"
  have q: "0 \<le> ?q" "?q * int p \<le> max 0 m"
    by (cases "p = 0", simp_all add: pos_imp_zdiv_nonneg_iff div_mult_le_int)
  show "0 \<le> ?q div int gs" using q(1) by (cases "gs = 0") (simp_all add: pos_imp_zdiv_nonneg_iff)
  have "?q div int gs * int gs \<le> ?q" using q(1) by (rule div_mult_le_int)
  then have "?q div int gs * int gs * int p \<le> ?q * int p" by (intro mult_right_mono) simp_all
  then show "?q div int gs * int p * int gs \<le> max 0 m" using q(2) by (simp add: ac_simps)
qed

lemma kv_config_shares_witness:
  "\<exists>cfg. get_kv_cache_config_from_groups id (Inr 3) demo_num_blocks
       \<lparr>mc_split_page_size = True, mc_attn_block_ratio = 2, mc_max_batch_size = 1\<rparr>
       [\<lparr>kg_layer_names = [''a'', ''b''], kg_uniform = None\<rparr>, \<lparr>kg_layer_names = [''c''], kg_uniform = None\<rparr>] 100 = Inr cfg
     \<and> map kt_shared_by (kc_tensors cfg) = [[''a'', ''c''], [''b'']] \<and> map kt_size (kc_tensors cfg) = [30, 30]
     \<and> sum_list (map kt_size (kc_tensors cfg)) \<le> 100"
proof -
  let ?mc = "\<lparr>mc_split_page_size = True, mc_attn_block_ratio = 2, mc_max_batch_size = 1\<rparr>"
  let ?gs = "[\<lparr>kg_layer_names = [''a'', ''b''], kg_uniform = None\<rparr>, \<lparr>kg_layer_names = [''c''], kg_uniform = None\<rparr>]"
  obtain cfg where r: "get_kv_cache_config_from_groups id (Inr 3) demo_num_blocks ?mc ?gs 100 = Inr cfg"
      "map kt_shared_by (kc_tensors cfg) = [[''a'', ''c''], [''b'']]" "map kt_size (kc_tensors cfg) = [30, 30]"
    by (simp add: get_kv_cache_config_from_groups_def group_size_def reserved_for_mamba_def shared_by_def
        demo_num_blocks_def upt_rec Let_def)
  then show ?thesis using kv_config_shares[OF r(1) demo_blocks_law] by (auto simp: uniform_ok_def)
qed

end
