(* ===== verification/MoeAlign.thy ===== *)
theory MoeAlign
  imports Prelude
begin

text \<open>
  Aligning the tokens of a mixture of experts to blocks
  (\<^verbatim>\<open>vllm_mlu/model_executor/layers/fused_moe/moe_align_block_size.py\<close>). A device
  buffer is a function from offsets to values; the programs of a kernel's grid run one after another
  in an arbitrary order, which is an argument of the model.
\<close>

section \<open>The kernels\<close>

type_synonym buffer = "nat \<Rightarrow> nat"

definition ceil_div :: "nat \<Rightarrow> nat \<Rightarrow> nat" where
  "ceil_div a b = (a + b - 1) div b"

definition grid :: "(nat \<Rightarrow> 's \<Rightarrow> 's) \<Rightarrow> nat list \<Rightarrow> 's \<Rightarrow> 's" where
  "grid program order s = fold program order s"

definition count_token :: "nat list \<Rightarrow> nat \<Rightarrow> nat \<Rightarrow> buffer \<Rightarrow> buffer" where
  "count_token ids off_c j cnts =
     (if j < length ids then cnts(off_c + ids ! j := cnts (off_c + ids ! j) + 1) else cnts)"

definition align_stage1 :: "nat list \<Rightarrow> nat \<Rightarrow> nat \<Rightarrow> nat \<Rightarrow> buffer \<Rightarrow> buffer" where
  "align_stage1 ids num_experts tokens_per_thread pid cnts =
     (let start_idx = pid * tokens_per_thread; off_c = (pid + 1) * num_experts
      in fold (\<lambda>i. count_token ids off_c (start_idx + i)) [0..<tokens_per_thread] cnts)"

definition align_stage2 :: "nat \<Rightarrow> nat \<Rightarrow> buffer \<Rightarrow> buffer" where
  "align_stage2 num_experts pid cnts =
     snd (fold (\<lambda>i (last_cnt, cnts).
            let last_cnt' = last_cnt + cnts (i * num_experts + pid)
            in (last_cnt', cnts(i * num_experts + pid := last_cnt'))) [1..<num_experts + 1] (0, cnts))"

text \<open>The third kernel has a single program: the padded prefix sums and the padded total.\<close>

definition align_stage3 :: "nat \<Rightarrow> nat \<Rightarrow> buffer \<Rightarrow> buffer \<Rightarrow> nat \<times> buffer" where
  "align_stage3 num_experts block_size cnts cumsum =
     fold (\<lambda>i (last_cumsum, cumsum).
        let token_cnt = cnts (num_experts * num_experts + i - 1);
            last_cumsum' = last_cumsum + ceil_div token_cnt block_size * block_size
        in (last_cumsum', cumsum(i := last_cumsum'))) [1..<num_experts + 1] (0, cumsum)"

record align_out =
  ao_sorted_token_ids :: buffer
  ao_expert_ids :: buffer
  ao_tokens_cnts :: buffer

definition range_step :: "nat \<Rightarrow> nat \<Rightarrow> nat \<Rightarrow> nat list" where
  "range_step a b step = map (\<lambda>k. a + k * step) [0..<ceil_div (b - a) step]"

definition place_token :: "nat list \<Rightarrow> buffer \<Rightarrow> nat \<Rightarrow> nat \<Rightarrow> align_out \<Rightarrow> align_out" where
  "place_token ids cumsum off_t i s =
     (let expert_id = ids ! i;
          token_cnt = ao_tokens_cnts s (off_t + expert_id);
          rank_post_pad = token_cnt + cumsum expert_id
      in s\<lparr>ao_sorted_token_ids := (ao_sorted_token_ids s)(rank_post_pad := i),
           ao_tokens_cnts := (ao_tokens_cnts s)(off_t + expert_id := token_cnt + 1)\<rparr>)"

definition align_stage4 :: "nat list \<Rightarrow> nat \<Rightarrow> nat \<Rightarrow> nat \<Rightarrow> buffer \<Rightarrow> nat \<Rightarrow> align_out \<Rightarrow> align_out" where
  "align_stage4 ids num_experts block_size tokens_per_thread cumsum pid s =
     (let s1 = s\<lparr>ao_expert_ids :=
            fold (\<lambda>i m. m(i div block_size := pid)) (range_step (cumsum pid) (cumsum (pid + 1)) block_size)
              (ao_expert_ids s)\<rparr>;
          start_idx = pid * tokens_per_thread
      in fold (place_token ids cumsum (pid * num_experts))
           [start_idx..<min (start_idx + tokens_per_thread) (length ids)] s1)"

text \<open>Launching the four kernels; the orders of the grids are arguments.\<close>

definition moe_align_block_size_triton ::
  "nat list \<Rightarrow> nat list \<Rightarrow> nat list \<Rightarrow> nat list \<Rightarrow> nat \<Rightarrow> nat \<Rightarrow> align_out \<times> nat" where
  "moe_align_block_size_triton order1 order2 order4 ids num_experts block_size =
     (let tokens_per_thread = ceil_div (length ids) num_experts;
          cnts1 = grid (align_stage1 ids num_experts tokens_per_thread) order1 (\<lambda>_. 0);
          cnts2 = grid (align_stage2 num_experts) order2 cnts1;
          (total_post_pad, cumsum) = align_stage3 num_experts block_size cnts2 (\<lambda>_. 0)
      in (grid (align_stage4 ids num_experts block_size tokens_per_thread cumsum) order4
            \<lparr>ao_sorted_token_ids = (\<lambda>_. length ids), ao_expert_ids = (\<lambda>_. 0), ao_tokens_cnts = cnts2\<rparr>,
          total_post_pad))"

definition round_up_to :: "int \<Rightarrow> int \<Rightarrow> int" where
  "round_up_to x y = (x + y - 1) div y * y"

definition moe_align_block_size ::
  "nat list \<Rightarrow> nat list \<Rightarrow> nat list \<Rightarrow> nat list \<Rightarrow> nat \<Rightarrow> nat \<Rightarrow> int list option \<Rightarrow> bool
    \<Rightarrow> (nat list \<times> int list \<times> nat) res" where
  "moe_align_block_size order1 order2 order4 ids block_size num_experts expert_map pad_sorted_ids =
     require (\<not> pad_sorted_ids \<or> block_size \<noteq> 0) ZeroDivisionError
     (let max0 = int (length ids) + int num_experts * (int block_size - 1);
          max_num_tokens_padded = (if pad_sorted_ids then round_up_to max0 (int block_size) else max0)
      in require (0 \<le> max_num_tokens_padded) RuntimeError
         (require (block_size \<noteq> 0) ZeroDivisionError
         (require (num_experts \<noteq> 0) ZeroDivisionError
         (let max_num_m_blocks = ceil_div (nat max_num_tokens_padded) block_size;
              (out, total) = moe_align_block_size_triton order1 order2 order4 ids num_experts block_size;
              sorted_ids = map (ao_sorted_token_ids out) [0..<nat max_num_tokens_padded];
              expert_ids = map (ao_expert_ids out) [0..<max_num_m_blocks]
          in case expert_map of
               None \<Rightarrow> Inr (sorted_ids, map int expert_ids, total)
             | Some em \<Rightarrow> bind_res (map_res (nth_res em) expert_ids) (\<lambda>es. Inr (sorted_ids, es, total))))))"

section \<open>The reference: buckets padded to blocks\<close>

definition bucket :: "nat list \<Rightarrow> nat \<Rightarrow> nat list" where
  "bucket ids e = filter (\<lambda>i. ids ! i = e) [0..<length ids]"

definition blocks_of :: "nat list \<Rightarrow> nat \<Rightarrow> nat \<Rightarrow> nat" where
  "blocks_of ids B e = ceil_div (length (bucket ids e)) B"

definition padded_bucket :: "nat list \<Rightarrow> nat \<Rightarrow> nat \<Rightarrow> nat list" where
  "padded_bucket ids B e =
     bucket ids e @ replicate (blocks_of ids B e * B - length (bucket ids e)) (length ids)"

definition reference_sorted :: "nat list \<Rightarrow> nat \<Rightarrow> nat \<Rightarrow> nat list" where
  "reference_sorted ids E B = concat (map (padded_bucket ids B) [0..<E])"

definition reference_experts :: "nat list \<Rightarrow> nat \<Rightarrow> nat \<Rightarrow> nat list" where
  "reference_experts ids E B = concat (map (\<lambda>e. replicate (blocks_of ids B e) e) [0..<E])"

section \<open>Counting\<close>

definition count_upto :: "nat list \<Rightarrow> nat \<Rightarrow> nat \<Rightarrow> nat" where
  "count_upto ids n e = length (filter (\<lambda>j. ids ! j = e) [0..<n])"

lemma count_upto_0 [simp]: "count_upto ids 0 e = 0"
  by (simp add: count_upto_def)

lemma count_upto_Suc [simp]: "count_upto ids (Suc n) e = count_upto ids n e + (if ids ! n = e then 1 else 0)"
  by (simp add: count_upto_def)

lemma count_upto_mono: "a \<le> b \<Longrightarrow> count_upto ids a e \<le> count_upto ids b e"
  by (induction b) (auto simp: le_Suc_eq)

lemma cell_eq:
  fixes E :: nat
  assumes "e < E" "e' < E"
  shows "p * E + e = p' * E + e' \<longleftrightarrow> p = p' \<and> e = e'"
proof
  assume h: "p * E + e = p' * E + e'"
  then have "(p * E + e) div E = (p' * E + e') div E" "(p * E + e) mod E = (p' * E + e') mod E" by simp_all
  then show "p = p' \<and> e = e'" using assms by simp
qed simp

text \<open>Where the chunk of a program ends.\<close>

definition chunk :: "nat list \<Rightarrow> nat \<Rightarrow> nat \<Rightarrow> nat" where
  "chunk ids t p = min (p * t) (length ids)"

abbreviation "in_range ids E \<equiv> (\<forall>j < length ids. ids ! j < E)"

lemma stage1_cells:
  assumes "in_range ids E" "e < E"
  shows "align_stage1 ids E t pid m (q * E + e) =
    m (q * E + e) + (if q = pid + 1 then count_upto ids (chunk ids t (Suc pid)) e - count_upto ids (chunk ids t pid) e else 0)"
proof -
  have "fold (\<lambda>i. count_token ids ((pid + 1) * E) (pid * t + i)) [0..<n] m (q * E + e) =
      m (q * E + e) + (if q = pid + 1
        then count_upto ids (min (pid * t + n) (length ids)) e - count_upto ids (chunk ids t pid) e else 0)" for n
  proof (induction n)
    case 0
    then show ?case by (simp add: chunk_def)
  next
    case (Suc n)
    let ?j = "pid * t + n"
    show ?case
    proof (cases "?j < length ids")
      case True
      have eq: "q * E + e = (pid + 1) * E + ids ! ?j \<longleftrightarrow> q = pid + 1 \<and> e = ids ! ?j"
        using assms True by (intro cell_eq) auto
      have m: "min (pid * t + Suc n) (length ids) = Suc ?j" "min ?j (length ids) = ?j" using True by simp_all
      have "chunk ids t pid \<le> ?j" by (simp add: chunk_def min_def)
      then have le: "count_upto ids (chunk ids t pid) e \<le> count_upto ids ?j e" by (rule count_upto_mono)
      let ?m = "fold (\<lambda>i. count_token ids ((pid + 1) * E) (pid * t + i)) [0..<n] m"
      have "fold (\<lambda>i. count_token ids ((pid + 1) * E) (pid * t + i)) [0..<Suc n] m (q * E + e) =
          (if q = pid + 1 \<and> e = ids ! ?j then ?m (q * E + e) + 1 else ?m (q * E + e))"
        using True eq by (auto simp: count_token_def)
      then show ?thesis using Suc le unfolding m by auto
    next
      case False
      then have "min (pid * t + Suc n) (length ids) = min ?j (length ids)" by simp
      then show ?thesis using Suc False by (simp add: count_token_def)
    qed
  qed
  from this[of t] show ?thesis by (simp add: align_stage1_def Let_def chunk_def add.commute)
qed

lemma stage1_grid:
  assumes "in_range ids E" "e < E" "distinct ps"
  shows "grid (align_stage1 ids E t) ps m (q * E + e) =
    m (q * E + e) + (if 0 < q \<and> q - 1 \<in> set ps
      then count_upto ids (chunk ids t q) e - count_upto ids (chunk ids t (q - 1)) e else 0)"
  using assms(3)
proof (induction ps arbitrary: m)
  case (Cons p ps)
  have "grid (align_stage1 ids E t) (p # ps) m = grid (align_stage1 ids E t) ps (align_stage1 ids E t p m)"
    by (simp add: grid_def)
  then show ?case using Cons stage1_cells[OF assms(1,2), of t p m q] by (cases q) auto
qed (simp add: grid_def)

abbreviation sum_step :: "nat \<Rightarrow> nat \<Rightarrow> nat \<Rightarrow> nat \<times> buffer \<Rightarrow> nat \<times> buffer" where
  "sum_step E pid i \<equiv> (\<lambda>(c, m). let c' = c + m (i * E + pid) in (c', m(i * E + pid := c')))"

lemma stage2_loop:
  assumes "pid < E"
  shows "fst (fold (sum_step E pid) [1..<n + 1] (0, m)) = (\<Sum>k \<in> {1..n}. m (k * E + pid)) \<and>
    (\<forall>i. \<forall>e < E. snd (fold (sum_step E pid) [1..<n + 1] (0, m)) (i * E + e) =
      (if e = pid \<and> 0 < i \<and> i \<le> n then (\<Sum>k \<in> {1..i}. m (k * E + e)) else m (i * E + e)))"
proof (induction n)
  case (Suc n)
  obtain c m' where f: "fold (sum_step E pid) [1..<n + 1] (0, m) = (c, m')" by (cases "fold (sum_step E pid) [1..<n + 1] (0, m)")
  have step: "fold (sum_step E pid) [1..<Suc n + 1] (0, m) =
      (c + m' (Suc n * E + pid), m'(Suc n * E + pid := c + m' (Suc n * E + pid)))"
    using f by (simp add: Let_def)
  note IH = Suc[unfolded f fst_conv snd_conv]
  have c: "c = (\<Sum>k \<in> {1..n}. m (k * E + pid))" using IH by (rule conjunct1)
  have m': "m' (i * E + e) = (if e = pid \<and> 0 < i \<and> i \<le> n then (\<Sum>k \<in> {1..i}. m (k * E + e)) else m (i * E + e))"
    if "e < E" for i e using IH that by blast
  have "m' (Suc n * E + pid) = m (Suc n * E + pid)" using m'[OF assms, of "Suc n"] by simp
  then have sum: "c + m' (Suc n * E + pid) = (\<Sum>k \<in> {1..Suc n}. m (k * E + pid))" by (simp add: c)
  show ?case unfolding step
  proof (intro conjI allI impI)
    show "fst (c + m' (Suc n * E + pid), m'(Suc n * E + pid := c + m' (Suc n * E + pid))) =
        (\<Sum>k \<in> {1..Suc n}. m (k * E + pid))" using sum by simp
    fix i e assume e: "e < E"
    have "i * E + e = Suc n * E + pid \<longleftrightarrow> i = Suc n \<and> e = pid" using e assms by (rule cell_eq)
    then show "snd (c + m' (Suc n * E + pid), m'(Suc n * E + pid := c + m' (Suc n * E + pid))) (i * E + e) =
        (if e = pid \<and> 0 < i \<and> i \<le> Suc n then (\<Sum>k \<in> {1..i}. m (k * E + e)) else m (i * E + e))"
      using m'[OF e, of i] sum by (auto simp: le_Suc_eq)
  qed
qed simp

lemma stage2_cells:
  assumes "pid < E" "e < E"
  shows "align_stage2 E pid m (i * E + e) =
    (if e = pid \<and> 0 < i \<and> i \<le> E then (\<Sum>k \<in> {1..i}. m (k * E + e)) else m (i * E + e))"
  using stage2_loop[OF assms(1), of E m] assms(2) by (simp add: align_stage2_def)

lemma stage2_grid:
  assumes "e < E" "distinct ps" "set ps \<subseteq> {..<E}"
  shows "grid (align_stage2 E) ps m (i * E + e) =
    (if e \<in> set ps \<and> 0 < i \<and> i \<le> E then (\<Sum>k \<in> {1..i}. m (k * E + e)) else m (i * E + e))"
  using assms(2,3)
proof (induction ps arbitrary: m)
  case (Cons p ps)
  have p: "p < E" using Cons.prems by simp
  have cell: "align_stage2 E p m (k * E + e) =
      (if e = p \<and> 0 < k \<and> k \<le> E then (\<Sum>k \<in> {1..k}. m (k * E + e)) else m (k * E + e))" for k
    by (rule stage2_cells[OF p assms(1)])
  have IH: "grid (align_stage2 E) ps (align_stage2 E p m) (i * E + e) =
      (if e \<in> set ps \<and> 0 < i \<and> i \<le> E then (\<Sum>k \<in> {1..i}. align_stage2 E p m (k * E + e))
       else align_stage2 E p m (i * E + e))" using Cons.prems by (intro Cons.IH) simp_all
  have "grid (align_stage2 E) (p # ps) m = grid (align_stage2 E) ps (align_stage2 E p m)"
    by (simp add: grid_def)
  moreover have "p \<notin> set ps" using Cons.prems by simp
  ultimately show ?case using IH cell by (cases "e = p") simp_all
qed (simp add: grid_def)

lemma telescope: "(\<And>k. f k \<le> (f (Suc k) :: nat)) \<Longrightarrow> (\<Sum>k \<in> {1..n}. f k - f (k - 1)) = f n - f 0"
proof (induction n)
  case (Suc n)
  have "f 0 \<le> f n" using Suc.prems by (induction n) (auto intro: le_trans)
  then show ?case using Suc.IH[OF Suc.prems] Suc.prems[of n] by simp
qed simp

lemma chunk_mono: "chunk ids t p \<le> chunk ids t (Suc p)"
  by (simp add: chunk_def min_def)

lemma order_distinct: "mset ps = mset [0..<n] \<Longrightarrow> distinct ps"
  by (metis distinct_upt mset_eq_imp_distinct_iff)

lemma order_set: "mset ps = mset [0..<n] \<Longrightarrow> set ps = {..<n}"
  by (metis atLeast_upt mset_eq_setD)

text \<open>After the first two kernels row \<open>p\<close> counts the tokens in front of the chunk of program \<open>p\<close>.\<close>

lemma counts:
  assumes "in_range ids E" "e < E" "mset order1 = mset [0..<E]" "mset order2 = mset [0..<E]" "p \<le> E"
  shows "grid (align_stage2 E) order2 (grid (align_stage1 ids E t) order1 (\<lambda>_. 0)) (p * E + e) =
    count_upto ids (chunk ids t p) e"
proof -
  note o = order_distinct[OF assms(3)] order_distinct[OF assms(4)] order_set[OF assms(3)] order_set[OF assms(4)]
  let ?f = "\<lambda>k. count_upto ids (chunk ids t k) e"
  let ?m = "grid (align_stage1 ids E t) order1 (\<lambda>_. 0)"
  have m: "?m (k * E + e) = (if 0 < k \<and> k \<le> E then ?f k - ?f (k - 1) else 0)" for k
  proof -
    have "(0 < k \<and> k - 1 \<in> set order1) = (0 < k \<and> k \<le> E)" unfolding o(3) by auto
    then show ?thesis using stage1_grid[OF assms(1,2) o(1), of t "\<lambda>_. 0" k] by (simp only: add_0)
  qed
  have "(\<Sum>k \<in> {1..p}. ?m (k * E + e)) = (\<Sum>k \<in> {1..p}. ?f k - ?f (k - 1))"
    using assms(5) by (intro sum.cong) (auto simp: m)
  also have "\<dots> = ?f p - ?f 0" by (intro telescope count_upto_mono chunk_mono)
  finally have "(\<Sum>k \<in> {1..p}. ?m (k * E + e)) = ?f p" by (simp add: chunk_def)
  then have "(if e \<in> set order2 \<and> 0 < p \<and> p \<le> E then \<Sum>k \<in> {1..p}. ?m (k * E + e) else ?m (p * E + e)) = ?f p"
    using assms(2,5) o(4) m[of 0] by (cases "p = 0") (simp_all add: chunk_def)
  moreover have "set order2 \<subseteq> {..<E}" using o(4) by simp
  ultimately show ?thesis using stage2_grid[OF assms(2) o(2), of ?m p] by simp
qed

section \<open>Offsets\<close>

definition off :: "(nat \<Rightarrow> nat) \<Rightarrow> nat \<Rightarrow> nat" where
  "off f e = (\<Sum>k < e. f k)"

lemma off_simps [simp]: "off f 0 = 0" "off f (Suc e) = off f e + f e"
  by (simp_all add: off_def)

lemma off_mono: "a \<le> b \<Longrightarrow> off f a \<le> off f b"
  by (induction b) (auto simp: le_Suc_eq)

lemma off_find: "q < off f n \<Longrightarrow> \<exists>e < n. \<exists>r < f e. q = off f e + r"
proof (induction n)
  case (Suc n)
  show ?case
  proof (cases "q < off f n")
    case True
    then show ?thesis using Suc by (meson less_Suc_eq)
  next
    case False
    then have "q - off f n < f n" "q = off f n + (q - off f n)" using Suc.prems by simp_all
    then show ?thesis by (meson lessI)
  qed
qed simp

lemma off_unique:
  assumes "off f e + r = off f e' + r'" "r < f e" "r' < f e'"
  shows "e = e' \<and> r = r'"
proof -
  have "\<not> e < e'" using off_mono[of "Suc e" e' f] assms by (auto simp: Suc_le_eq)
  moreover have "\<not> e' < e" using off_mono[of "Suc e'" e f] assms by (auto simp: Suc_le_eq)
  ultimately show ?thesis using assms(1) by simp
qed

lemma length_concat_off: "length (concat (map g [0..<n])) = off (\<lambda>e. length (g e)) n"
  by (induction n) simp_all

lemma nth_concat_off:
  "e < n \<Longrightarrow> r < length (g e) \<Longrightarrow> concat (map g [0..<n]) ! (off (\<lambda>e. length (g e)) e + r) = g e ! r"
proof (induction n)
  case (Suc n)
  show ?case
  proof (cases "e = n")
    case True
    then show ?thesis using Suc.prems by (simp add: nth_append length_concat_off)
  next
    case False
    then have e: "e < n" using Suc.prems by simp
    have "off (\<lambda>e. length (g e)) (Suc e) \<le> off (\<lambda>e. length (g e)) n" using e by (intro off_mono) simp
    then have "off (\<lambda>e. length (g e)) e + r < length (concat (map g [0..<n]))"
      using Suc.prems by (simp add: length_concat_off)
    then show ?thesis using Suc.IH[OF e] Suc.prems by (simp add: nth_append)
  qed
qed simp

lemma off_scale: "off (\<lambda>e. f e * B) n = off f n * (B :: nat)"
  by (induction n) (simp_all add: algebra_simps)

section \<open>The third kernel\<close>

lemma stage3_sums:
  "align_stage3 E B cnts (\<lambda>_. 0) =
    (off (\<lambda>e. ceil_div (cnts (E * E + e)) B * B) E,
     \<lambda>j. if j \<le> E then off (\<lambda>e. ceil_div (cnts (E * E + e)) B * B) j else 0)"
proof -
  let ?r = "\<lambda>e. ceil_div (cnts (E * E + e)) B * B"
  have "fold (\<lambda>i (c, m). let t = cnts (E * E + i - 1); c' = c + ceil_div t B * B in (c', m(i := c'))) [1..<n + 1] (0, \<lambda>_. 0) =
      (off ?r n, \<lambda>j. if j \<le> n then off ?r j else 0)" for n
    by (induction n) (auto simp: Let_def fun_eq_iff le_Suc_eq)
  from this[of E] show ?thesis unfolding align_stage3_def by simp
qed

section \<open>The fourth kernel\<close>

definition write_all :: "(nat \<Rightarrow> nat) \<Rightarrow> nat list \<Rightarrow> buffer \<Rightarrow> buffer" where
  "write_all pos xs m = fold (\<lambda>i m. m(pos i := i)) xs m"

lemma write_all_append: "write_all pos (xs @ ys) m = write_all pos ys (write_all pos xs m)"
  by (simp add: write_all_def)

lemma write_all_other: "q \<notin> pos ` set xs \<Longrightarrow> write_all pos xs m q = m q"
  by (induction xs arbitrary: m) (auto simp: write_all_def)

lemma write_all_at: "inj_on pos (set xs) \<Longrightarrow> i \<in> set xs \<Longrightarrow> write_all pos xs m (pos i) = i"
proof (induction xs arbitrary: m)
  case (Cons x xs)
  show ?case
  proof (cases "i \<in> set xs")
    case True
    then show ?thesis using Cons by (simp add: write_all_def inj_on_insert)
  next
    case False
    then have "pos i \<notin> pos ` set xs" "i = x" using Cons.prems by (auto simp: inj_on_def)
    then show ?thesis using write_all_other[of "pos i" pos xs] by (simp add: write_all_def)
  qed
qed simp

text \<open>The position of a token: the offset of its expert and the tokens of that expert in front of it.\<close>

definition position :: "nat list \<Rightarrow> buffer \<Rightarrow> nat \<Rightarrow> nat" where
  "position ids cumsum i = count_upto ids i (ids ! i) + cumsum (ids ! i)"

lemma place_tokens:
  assumes "in_range ids E" "a \<le> b" "b \<le> length ids"
    and "\<And>e. e < E \<Longrightarrow> ao_tokens_cnts s (p * E + e) = count_upto ids a e"
    and "s' = fold (place_token ids cumsum (p * E)) [a..<b] s"
  shows "ao_sorted_token_ids s' = write_all (position ids cumsum) [a..<b] (ao_sorted_token_ids s)
    \<and> ao_expert_ids s' = ao_expert_ids s
    \<and> (\<forall>q. \<forall>e < E. ao_tokens_cnts s' (q * E + e) = (if q = p then count_upto ids b e else ao_tokens_cnts s (q * E + e)))"
  unfolding assms(5) using assms(2,3)
proof (induction b rule: dec_induct)
  case base
  then show ?case using assms(4) by (auto simp: write_all_def)
next
  case (step n)
  let ?s = "fold (place_token ids cumsum (p * E)) [a..<n] s"
  have IH: "ao_sorted_token_ids ?s = write_all (position ids cumsum) [a..<n] (ao_sorted_token_ids s)"
      "ao_expert_ids ?s = ao_expert_ids s"
      "\<And>q e. e < E \<Longrightarrow> ao_tokens_cnts ?s (q * E + e) = (if q = p then count_upto ids n e else ao_tokens_cnts s (q * E + e))"
    using step by simp_all
  have x: "ids ! n < E" using assms(1) step by simp
  have split: "[a..<Suc n] = [a..<n] @ [n]" using step by simp
  have cell: "q * E + e = p * E + ids ! n \<longleftrightarrow> q = p \<and> e = ids ! n" if "e < E" for q e
    using that x by (rule cell_eq)
  have cnt: "ao_tokens_cnts ?s (p * E + ids ! n) = count_upto ids n (ids ! n)" using IH(3)[OF x] by simp
  show ?case unfolding split fold_append write_all_append
    using IH(1,2) by (auto simp: place_token_def Let_def cnt cell IH(3) write_all_def position_def)
qed

lemma fold_block_ids:
  "fold (\<lambda>k m. m(a + k := p)) [0..<n] m = (\<lambda>q. if a \<le> q \<and> q < a + n then p else (m q :: nat))"
  by (induction n) (auto simp: fun_eq_iff)

lemma ceil_div_mult: "0 < B \<Longrightarrow> ceil_div (n * B) B = n"
proof -
  assume B: "0 < B"
  then have "n * B + B - 1 = (B - 1) + n * B" by simp
  then show ?thesis using B unfolding ceil_div_def using div_mult_self1[of B "B - 1" n] by simp
qed

lemma le_ceil_div: "0 < B \<Longrightarrow> n \<le> ceil_div n B * B"
proof -
  assume B: "0 < B"
  have "n + B - 1 = (n + B - 1) div B * B + (n + B - 1) mod B" by simp
  moreover have "(n + B - 1) mod B < B" using B by simp
  ultimately show ?thesis unfolding ceil_div_def using B by linarith
qed

lemma ceil_div_le: "0 < B \<Longrightarrow> ceil_div n B * B \<le> n + (B - 1)"
proof -
  assume B: "0 < B"
  have "ceil_div n B * B \<le> n + B - 1" unfolding ceil_div_def by (rule div_times_less_eq_dividend)
  then show ?thesis using B by linarith
qed

lemma expert_blocks:
  assumes "0 < B" "cumsum p = off bl p * B" "cumsum (p + 1) = off bl (Suc p) * B"
  shows "fold (\<lambda>i m. m(i div B := p)) (range_step (cumsum p) (cumsum (p + 1)) B) m =
    (\<lambda>q. if off bl p \<le> q \<and> q < off bl (Suc p) then p else m q)"
proof -
  have "cumsum (p + 1) - cumsum p = bl p * B" using assms(2,3) by (simp add: algebra_simps)
  then have "range_step (cumsum p) (cumsum (p + 1)) B = map (\<lambda>k. (off bl p + k) * B) [0..<bl p]"
    using assms(1,2) ceil_div_mult[OF assms(1), of "bl p"] by (simp add: range_step_def algebra_simps)
  then have "fold (\<lambda>i m. m(i div B := p)) (range_step (cumsum p) (cumsum (p + 1)) B) m =
      fold (\<lambda>k m. m(off bl p + k := p)) [0..<bl p] m"
    using assms(1) by (simp add: fold_map comp_def)
  then show ?thesis by (simp add: fold_block_ids)
qed

definition chunk_tokens :: "nat list \<Rightarrow> nat \<Rightarrow> nat \<Rightarrow> nat list" where
  "chunk_tokens ids t p = [chunk ids t p..<chunk ids t (Suc p)]"

lemma chunk_range: "[p * t..<min (p * t + t) (length ids)] = chunk_tokens ids t p"
  by (cases "p * t \<le> length ids") (auto simp: chunk_tokens_def chunk_def add.commute min_def)

text \<open>One program of the fourth kernel.\<close>

lemma stage4_program:
  assumes "in_range ids E" "0 < B" "cumsum p = off bl p * B" "cumsum (p + 1) = off bl (Suc p) * B"
    and "\<And>e. e < E \<Longrightarrow> ao_tokens_cnts s (p * E + e) = count_upto ids (chunk ids t p) e"
  shows "ao_sorted_token_ids (align_stage4 ids E B t cumsum p s) =
      write_all (position ids cumsum) (chunk_tokens ids t p) (ao_sorted_token_ids s)" (is ?A)
    and "ao_expert_ids (align_stage4 ids E B t cumsum p s) =
      (\<lambda>q. if off bl p \<le> q \<and> q < off bl (Suc p) then p else ao_expert_ids s q)" (is ?B)
    and "q \<noteq> p \<Longrightarrow> e < E \<Longrightarrow>
      ao_tokens_cnts (align_stage4 ids E B t cumsum p s) (q * E + e) = ao_tokens_cnts s (q * E + e)" (is "_ \<Longrightarrow> _ \<Longrightarrow> ?C")
proof -
  let ?m = "\<lambda>q. if off bl p \<le> q \<and> q < off bl (Suc p) then p else ao_expert_ids s q"
  let ?s = "s\<lparr>ao_expert_ids := ?m\<rparr>"
  have eq: "align_stage4 ids E B t cumsum p s =
      fold (place_token ids cumsum (p * E)) [chunk ids t p..<chunk ids t (Suc p)] ?s"
    unfolding align_stage4_def Let_def expert_blocks[OF assms(2,3,4)] chunk_range chunk_tokens_def ..
  have "chunk ids t (Suc p) \<le> length ids" by (simp add: chunk_def)
  from place_tokens[OF assms(1) chunk_mono this _ refl, of ?s p cumsum] assms(5)
  show ?A ?B "q \<noteq> p \<Longrightarrow> e < E \<Longrightarrow> ?C" unfolding eq chunk_tokens_def by simp_all
qed

lemma stage4_grid:
  assumes "in_range ids E" "0 < B" "\<And>p. p \<le> E \<Longrightarrow> cumsum p = off bl p * B" "distinct ps" "set ps \<subseteq> {..<E}"
    and "\<And>p e. p \<in> set ps \<Longrightarrow> e < E \<Longrightarrow> ao_tokens_cnts s (p * E + e) = count_upto ids (chunk ids t p) e"
  shows "ao_sorted_token_ids (grid (align_stage4 ids E B t cumsum) ps s) =
      write_all (position ids cumsum) (concat (map (chunk_tokens ids t) ps)) (ao_sorted_token_ids s)
    \<and> (\<forall>q. (\<forall>p \<in> set ps. \<not> (off bl p \<le> q \<and> q < off bl (Suc p))) \<longrightarrow>
        ao_expert_ids (grid (align_stage4 ids E B t cumsum) ps s) q = ao_expert_ids s q)
    \<and> (\<forall>p \<in> set ps. \<forall>r < bl p. ao_expert_ids (grid (align_stage4 ids E B t cumsum) ps s) (off bl p + r) = p)"
  using assms(4,5,6)
proof (induction ps arbitrary: s)
  case (Cons p ps)
  let ?s = "align_stage4 ids E B t cumsum p s"
  let ?g = "grid (align_stage4 ids E B t cumsum) ps ?s"
  have p: "p < E" using Cons.prems by simp
  have one: "ao_sorted_token_ids ?s = write_all (position ids cumsum) (chunk_tokens ids t p) (ao_sorted_token_ids s)"
      "ao_expert_ids ?s = (\<lambda>q. if off bl p \<le> q \<and> q < off bl (Suc p) then p else ao_expert_ids s q)"
      "\<And>q e. q \<noteq> p \<Longrightarrow> e < E \<Longrightarrow> ao_tokens_cnts ?s (q * E + e) = ao_tokens_cnts s (q * E + e)"
    using p assms(3)[of p] assms(3)[of "p + 1"] Cons.prems(3)[of p]
    by (intro stage4_program[where bl = bl, OF assms(1,2)]; simp del: off_simps)+
  have IH: "ao_sorted_token_ids ?g =
      write_all (position ids cumsum) (concat (map (chunk_tokens ids t) ps)) (ao_sorted_token_ids ?s)
    \<and> (\<forall>q. (\<forall>p \<in> set ps. \<not> (off bl p \<le> q \<and> q < off bl (Suc p))) \<longrightarrow> ao_expert_ids ?g q = ao_expert_ids ?s q)
    \<and> (\<forall>p \<in> set ps. \<forall>r < bl p. ao_expert_ids ?g (off bl p + r) = p)"
  proof (intro Cons.IH)
    show "ao_tokens_cnts ?s (p' * E + e) = count_upto ids (chunk ids t p') e" if "p' \<in> set ps" "e < E" for p' e
      using one(3)[of p' e] Cons.prems(1,3) that by force
  qed (use Cons.prems in simp_all)
  have grid: "grid (align_stage4 ids E B t cumsum) (p # ps) s = ?g" by (simp add: grid_def)
  have own: "ao_expert_ids ?g (off bl p + r) = p" if r: "r < bl p" for r
  proof -
    have "\<not> (off bl p' \<le> off bl p + r \<and> off bl p + r < off bl (Suc p'))" if "p' \<in> set ps" for p'
    proof
      assume "off bl p' \<le> off bl p + r \<and> off bl p + r < off bl (Suc p')"
      then have "off bl p + r = off bl p' + (off bl p + r - off bl p')" "off bl p + r - off bl p' < bl p'" by auto
      then have "p = p'" using off_unique r by blast
      then show False using that Cons.prems(1) by simp
    qed
    then show ?thesis using IH one(2) r by (simp del: off_simps add: off_simps(2)[of bl p])
  qed
  show ?case unfolding grid
  proof (intro conjI allI impI ballI)
    show "ao_sorted_token_ids ?g =
        write_all (position ids cumsum) (concat (map (chunk_tokens ids t) (p # ps))) (ao_sorted_token_ids s)"
      using IH one(1) by (simp add: write_all_append)
  next
    fix q assume "\<forall>p' \<in> set (p # ps). \<not> (off bl p' \<le> q \<and> q < off bl (Suc p'))"
    then have "\<forall>p' \<in> set ps. \<not> (off bl p' \<le> q \<and> q < off bl (Suc p'))" "\<not> (off bl p \<le> q \<and> q < off bl (Suc p))"
      by auto
    then show "ao_expert_ids ?g q = ao_expert_ids s q" using IH one(2) by presburger
  next
    fix p' r assume "p' \<in> set (p # ps)" "r < bl p'"
    then show "ao_expert_ids ?g (off bl p' + r) = p'" using IH own by auto
  qed
qed (simp add: grid_def write_all_def)

section \<open>The kernels compute the reference\<close>

lemma bucket_nth:
  "r < length (filter (\<lambda>i. ids ! i = e) [0..<n]) \<Longrightarrow>
    (let i = filter (\<lambda>i. ids ! i = e) [0..<n] ! r in i < n \<and> ids ! i = e \<and> count_upto ids i e = r)"
proof (induction n)
  case (Suc n)
  show ?case
  proof (cases "r < length (filter (\<lambda>i. ids ! i = e) [0..<n])")
    case True
    then show ?thesis using Suc.IH by (auto simp: Let_def nth_append)
  next
    case False
    then have "ids ! n = e" "r = count_upto ids n e"
      using Suc.prems by (auto simp: count_upto_def split: if_splits)
    then show ?thesis by (simp add: Let_def nth_append count_upto_def)
  qed
qed simp

lemma length_bucket: "length (bucket ids e) = count_upto ids (length ids) e"
  by (simp add: bucket_def count_upto_def)

lemma count_less: "i < n \<Longrightarrow> count_upto ids i (ids ! i) < count_upto ids n (ids ! i)"
  using count_upto_mono[of "Suc i" n ids "ids ! i"] by simp

lemma count_all: "\<forall>j < n. ids ! j < E \<Longrightarrow> (\<Sum>e < E. count_upto ids n e) = n"
proof (induction n)
  case (Suc n)
  have "(\<Sum>e < E. if ids ! n = e then 1 else 0) = (1 :: nat)" using Suc.prems by simp
  then show ?case using Suc by (simp add: sum.distrib)
qed simp

lemma chunks_cover:
  assumes "mset order4 = mset [0..<E]" "length ids \<le> E * t"
  shows "set (concat (map (chunk_tokens ids t) order4)) = {..<length ids}"
proof -
  have "\<exists>p < E. p * t \<le> i \<and> i < Suc p * t" if "i < length ids" for i
  proof (intro exI conjI)
    have t: "0 < t" using assms(2) that by (cases t) auto
    show "i div t < E" using assms(2) that t by (simp add: less_mult_imp_div_less)
    show "i div t * t \<le> i" by simp
    show "i < Suc (i div t) * t" using t by (simp add: dividend_less_div_times)
  qed
  then show ?thesis unfolding set_concat set_map order_set[OF assms(1)]
    by (fastforce simp: chunk_tokens_def chunk_def)
qed

lemma enough_chunks: "0 < E \<Longrightarrow> n \<le> E * ceil_div n E"
  using le_ceil_div[of E n] by (simp add: mult.commute)

lemma bucket_fits: "0 < B \<Longrightarrow> length (bucket ids e) \<le> blocks_of ids B e * B"
  unfolding blocks_of_def by (rule le_ceil_div)

abbreviation slot_of :: "nat list \<Rightarrow> nat \<Rightarrow> nat \<Rightarrow> nat" where
  "slot_of ids B i \<equiv> count_upto ids i (ids ! i) + off (blocks_of ids B) (ids ! i) * B"

lemma rank_fits: "0 < B \<Longrightarrow> i < length ids \<Longrightarrow> count_upto ids i (ids ! i) < blocks_of ids B (ids ! i) * B"
  using count_less[of i "length ids" ids] bucket_fits[of B ids "ids ! i"] by (simp add: length_bucket)

lemma slot_unique:
  assumes "0 < B" "i < length ids" "slot_of ids B i = off (blocks_of ids B) e * B + r" "r < blocks_of ids B e * B"
  shows "ids ! i = e \<and> count_upto ids i e = r"
proof -
  let ?f = "\<lambda>e. blocks_of ids B e * B"
  have "off ?f (ids ! i) + count_upto ids i (ids ! i) = off ?f e + r"
    using assms(3) by (simp add: off_scale add.commute)
  from off_unique[OF this rank_fits[OF assms(1,2)] assms(4)] show ?thesis by auto
qed

lemma slot_inj: "0 < B \<Longrightarrow> inj_on (slot_of ids B) {..<length ids}"
proof (rule linorder_inj_onI)
  fix i j :: nat
  assume h: "0 < B" "i < j" "i \<in> {..<length ids}" "j \<in> {..<length ids}"
  show "slot_of ids B i \<noteq> slot_of ids B j"
  proof
    assume eq: "slot_of ids B i = slot_of ids B j"
    have "ids ! i = ids ! j \<and> count_upto ids i (ids ! j) = count_upto ids j (ids ! j)"
      using h eq rank_fits[of B j ids] by (intro slot_unique) (simp_all add: add.commute)
    moreover have "count_upto ids (Suc i) (ids ! i) \<le> count_upto ids j (ids ! i)" using h by (intro count_upto_mono) simp
    ultimately show False by simp
  qed
qed auto

lemma total_fits: "0 < B \<Longrightarrow> in_range ids E \<Longrightarrow> off (blocks_of ids B) E * B \<le> length ids + E * (B - 1)"
proof -
  assume h: "0 < B" "in_range ids E"
  have "off (blocks_of ids B) E * B = (\<Sum>e < E. blocks_of ids B e * B)" by (simp add: off_def sum_distrib_right)
  also have "\<dots> \<le> (\<Sum>e < E. count_upto ids (length ids) e + (B - 1))"
    unfolding blocks_of_def length_bucket using ceil_div_le[OF h(1)] by (intro sum_mono) simp
  also have "\<dots> = length ids + E * (B - 1)" using count_all[of "length ids" ids E] h(2) by (simp add: sum.distrib)
  finally show ?thesis .
qed

lemma triton_result:
  assumes "in_range ids E" "0 < B" "0 < E"
    and "mset order1 = mset [0..<E]" "mset order2 = mset [0..<E]" "mset order4 = mset [0..<E]"
    and "moe_align_block_size_triton order1 order2 order4 ids E B = (out, tot)"
  shows "tot = off (blocks_of ids B) E * B"
    and "i < length ids \<Longrightarrow> ao_sorted_token_ids out (slot_of ids B i) = i"
    and "(\<And>i. i < length ids \<Longrightarrow> q \<noteq> slot_of ids B i) \<Longrightarrow> ao_sorted_token_ids out q = length ids"
    and "e < E \<Longrightarrow> r < blocks_of ids B e \<Longrightarrow> ao_expert_ids out (off (blocks_of ids B) e + r) = e"
    and "off (blocks_of ids B) E \<le> k \<Longrightarrow> ao_expert_ids out k = 0"
proof -
  let ?t = "ceil_div (length ids) E" and ?bl = "blocks_of ids B"
  define cnts where "cnts = grid (align_stage2 E) order2 (grid (align_stage1 ids E ?t) order1 (\<lambda>_. 0))"
  have c: "cnts (p * E + e) = count_upto ids (chunk ids ?t p) e" if "p \<le> E" "e < E" for p e
    unfolding cnts_def using counts[OF assms(1) that(2) assms(4,5) that(1)] .
  have last: "chunk ids ?t E = length ids" using enough_chunks[OF assms(3)] by (simp add: chunk_def)
  define cs where "cs = (\<lambda>j. if j \<le> E then off ?bl j * B else 0)"
  have "off (\<lambda>e. ceil_div (cnts (E * E + e)) B * B) j = off ?bl j * B" if "j \<le> E" for j
    using that unfolding off_def sum_distrib_right
    by (intro sum.cong) (simp_all add: c last blocks_of_def length_bucket)
  then have s3: "align_stage3 E B cnts (\<lambda>_. 0) = (off ?bl E * B, cs)"
    unfolding stage3_sums cs_def by (auto simp: fun_eq_iff)
  let ?s = "\<lparr>ao_sorted_token_ids = (\<lambda>_. length ids), ao_expert_ids = (\<lambda>_. 0), ao_tokens_cnts = cnts\<rparr>"
  have out: "out = grid (align_stage4 ids E B ?t cs) order4 ?s" "tot = off ?bl E * B"
    using assms(7) s3 unfolding moe_align_block_size_triton_def Let_def cnts_def[symmetric] by simp_all
  show "tot = off (blocks_of ids B) E * B" by (rule out(2))
  have g: "ao_sorted_token_ids out = write_all (position ids cs) (concat (map (chunk_tokens ids ?t) order4)) (\<lambda>_. length ids)
    \<and> (\<forall>q. (\<forall>p \<in> set order4. \<not> (off ?bl p \<le> q \<and> q < off ?bl (Suc p))) \<longrightarrow> ao_expert_ids out q = 0)
    \<and> (\<forall>p \<in> set order4. \<forall>r < ?bl p. ao_expert_ids out (off ?bl p + r) = p)"
    using stage4_grid[where bl = ?bl and cumsum = cs and t = ?t and s = ?s, OF assms(1,2) _ order_distinct[OF assms(6)]]
      order_set[OF assms(6)] c unfolding out(1) by (simp add: cs_def)
  let ?xs = "concat (map (chunk_tokens ids ?t) order4)"
  have xs: "set ?xs = {..<length ids}" by (intro chunks_cover[OF assms(6)] enough_chunks assms(3))
  have pos: "position ids cs i = slot_of ids B i" if "i < length ids" for i
    using assms(1) that by (auto simp: position_def cs_def less_imp_le)
  have inj: "inj_on (position ids cs) (set ?xs)"
    unfolding xs using slot_inj[OF assms(2), of ids] inj_on_cong[of "{..<length ids}", OF pos] by auto
  show "i < length ids \<Longrightarrow> ao_sorted_token_ids out (slot_of ids B i) = i"
    using conjunct1[OF g] write_all_at[OF inj, unfolded xs, of i] pos by simp
  show "(\<And>i. i < length ids \<Longrightarrow> q \<noteq> slot_of ids B i) \<Longrightarrow> ao_sorted_token_ids out q = length ids"
    using g write_all_other[of q "position ids cs" ?xs] pos unfolding xs by auto
  show "e < E \<Longrightarrow> r < blocks_of ids B e \<Longrightarrow> ao_expert_ids out (off (blocks_of ids B) e + r) = e"
    using g order_set[OF assms(6)] by auto
  show "off (blocks_of ids B) E \<le> k \<Longrightarrow> ao_expert_ids out k = 0"
  proof -
    assume "off ?bl E \<le> k"
    moreover have "off ?bl (Suc p) \<le> off ?bl E" if "p < E" for p using that by (intro off_mono) simp
    ultimately have "\<forall>p \<in> set order4. \<not> (off ?bl p \<le> k \<and> k < off ?bl (Suc p))"
      using order_set[OF assms(6)] by (metis lessThan_iff not_less order_trans)
    then show ?thesis using g by blast
  qed
qed

lemma length_padded_bucket: "0 < B \<Longrightarrow> length (padded_bucket ids B e) = blocks_of ids B e * B"
  using bucket_fits[of B ids e] by (simp add: padded_bucket_def)

lemma length_reference_sorted: "0 < B \<Longrightarrow> length (reference_sorted ids E B) = off (blocks_of ids B) E * B"
  unfolding reference_sorted_def length_concat_off by (simp add: length_padded_bucket off_scale)

lemma length_reference_experts: "length (reference_experts ids E B) = off (blocks_of ids B) E"
  unfolding reference_experts_def length_concat_off by simp

lemma sorted_reference:
  assumes "in_range ids E" "0 < B"
    and "\<And>i. i < length ids \<Longrightarrow> m (slot_of ids B i) = i"
    and "\<And>q. (\<And>i. i < length ids \<Longrightarrow> q \<noteq> slot_of ids B i) \<Longrightarrow> m q = length ids"
    and "off (blocks_of ids B) E * B \<le> L"
  shows "map m [0..<L] = reference_sorted ids E B @ replicate (L - off (blocks_of ids B) E * B) (length ids)"
proof (rule nth_equalityI)
  show "length (map m [0..<L]) =
      length (reference_sorted ids E B @ replicate (L - off (blocks_of ids B) E * B) (length ids))"
    using assms(2,5) by (simp add: length_reference_sorted)
  fix q assume "q < length (map m [0..<L])"
  then have q: "q < L" by simp
  let ?bl = "blocks_of ids B"
  let ?rhs = "(reference_sorted ids E B @ replicate (L - off ?bl E * B) (length ids)) ! q"
  have "m q = ?rhs"
  proof (cases "q < off ?bl E * B")
    case True
    then obtain e r where e: "e < E" "r < ?bl e * B" "q = off ?bl e * B + r"
      using off_find[of q "\<lambda>e. ?bl e * B" E] by (auto simp: off_scale)
    have rhs: "?rhs = padded_bucket ids B e ! r"
      using True e nth_concat_off[of e E r "padded_bucket ids B"] assms(2)
      by (simp add: nth_append length_reference_sorted reference_sorted_def[symmetric] length_padded_bucket off_scale)
    show ?thesis
    proof (cases "r < length (bucket ids e)")
      case True
      let ?i = "bucket ids e ! r"
      have i: "?i < length ids" "ids ! ?i = e" "count_upto ids ?i e = r"
        using bucket_nth[of r ids e "length ids"] True unfolding bucket_def by (simp_all add: Let_def)
      then have "slot_of ids B ?i = q" using e(3) by simp
      then show ?thesis using assms(3)[OF i(1)] rhs True by (simp add: padded_bucket_def nth_append)
    next
      case False
      have "q \<noteq> slot_of ids B i" if i: "i < length ids" for i
      proof
        assume "q = slot_of ids B i"
        then have "ids ! i = e" "count_upto ids i e = r" using slot_unique[OF assms(2) i _ e(2)] e(3) by simp_all
        then show False using count_less[OF i, of ids] False by (simp add: length_bucket)
      qed
      then have "m q = length ids" using assms(4) by blast
      then show ?thesis using rhs False e(2) by (simp add: padded_bucket_def nth_append)
    qed
  next
    case False
    have "q \<noteq> slot_of ids B i" if i: "i < length ids" for i
    proof -
      have "off ?bl (Suc (ids ! i)) \<le> off ?bl E" using assms(1) i by (intro off_mono) (simp add: Suc_le_eq)
      then have "off ?bl (Suc (ids ! i)) * B \<le> off ?bl E * B" by simp
      then show ?thesis using rank_fits[OF assms(2) i] False by (simp add: algebra_simps)
    qed
    then have "m q = length ids" using assms(4) by blast
    then show ?thesis using False q assms(2,5) by (simp add: nth_append length_reference_sorted)
  qed
  then show "map m [0..<L] ! q = ?rhs" using q by simp
qed

lemma experts_reference:
  assumes "\<And>e r. e < E \<Longrightarrow> r < blocks_of ids B e \<Longrightarrow> m (off (blocks_of ids B) e + r) = e"
    and "\<And>k. off (blocks_of ids B) E \<le> k \<Longrightarrow> m k = 0" and "off (blocks_of ids B) E \<le> L"
  shows "map m [0..<L] = reference_experts ids E B @ replicate (L - off (blocks_of ids B) E) 0"
proof (rule nth_equalityI)
  show "length (map m [0..<L]) = length (reference_experts ids E B @ replicate (L - off (blocks_of ids B) E) 0)"
    using assms(3) by (simp add: length_reference_experts)
  fix k assume "k < length (map m [0..<L])"
  then have k: "k < L" by simp
  let ?bl = "blocks_of ids B"
  show "map m [0..<L] ! k = (reference_experts ids E B @ replicate (L - off ?bl E) 0) ! k"
  proof (cases "k < off ?bl E")
    case True
    then obtain e r where e: "e < E" "r < ?bl e" "k = off ?bl e + r" using off_find by blast
    then have "reference_experts ids E B ! k = e"
      using nth_concat_off[of e E r "\<lambda>e. replicate (?bl e) e"] by (simp add: reference_experts_def)
    then show ?thesis using True k e assms(1)[OF e(1,2)] by (simp add: nth_append length_reference_experts)
  next
    case False
    then show ?thesis using k assms(2)[of k] assms(3) by (simp add: nth_append length_reference_experts)
  qed
qed

lemma moe_align_reference:
  assumes "mset order1 = mset [0..<E]" "mset order2 = mset [0..<E]" "mset order4 = mset [0..<E]"
    and "0 < E" "0 < B" "\<forall>j < length ids. ids ! j < E" "\<And>em. emap = Some em \<Longrightarrow> E \<le> length em"
  shows "\<exists>k l. moe_align_block_size order1 order2 order4 ids B E emap pad =
      Inr (reference_sorted ids E B @ replicate k (length ids),
           map (\<lambda>e. case emap of None \<Rightarrow> int e | Some em \<Rightarrow> em ! e) (reference_experts ids E B @ replicate l 0),
           length (reference_sorted ids E B))
    \<and> (length (reference_sorted ids E B) + k) mod (if pad then B else 1) = 0"
proof -
  let ?M0 = "int (length ids) + int E * (int B - 1)"
  define M where "M = (if pad then round_up_to ?M0 (int B) else ?M0)"
  let ?bl = "blocks_of ids B"
  have M0: "?M0 = int (length ids + E * (B - 1))" using assms(5) by (simp add: of_nat_diff)
  have fit: "off ?bl E * B \<le> length ids + E * (B - 1)" using total_fits assms(5,6) by blast
  have up: "round_up_to ?M0 (int B) = int (ceil_div (length ids + E * (B - 1)) B * B)"
    unfolding M0 round_up_to_def ceil_div_def using assms(5) by (simp add: of_nat_div of_nat_diff)
  have nM: "nat M = (if pad then ceil_div (length ids + E * (B - 1)) B * B else length ids + E * (B - 1))"
    unfolding M_def up unfolding M0 by (cases pad) (simp_all only: nat_int if_True if_False)
  have "0 \<le> M" unfolding M_def up unfolding M0 by (cases pad) simp_all
  moreover have "off ?bl E * B \<le> nat M"
    unfolding nM using fit order_trans[OF fit le_ceil_div[OF assms(5)]] by (simp only: if_split) simp
  moreover have "nat M mod (if pad then B else 1) = 0" unfolding nM by (cases pad) simp_all
  ultimately have M: "0 \<le> M" "off ?bl E * B \<le> nat M" "nat M mod (if pad then B else 1) = 0" by blast+
  let ?L = "ceil_div (nat M) B"
  have "off ?bl E * B \<le> ?L * B" using M(2) le_ceil_div[OF assms(5)] by (rule order_trans)
  then have L: "off ?bl E \<le> ?L" using assms(5) by simp
  obtain out tot where r: "moe_align_block_size_triton order1 order2 order4 ids E B = (out, tot)"
    by (cases "moe_align_block_size_triton order1 order2 order4 ids E B")
  note res = triton_result[OF assms(6,5,4,1,2,3) r]
  let ?es = "reference_experts ids E B @ replicate (?L - off ?bl E) 0"
  have s: "map (ao_sorted_token_ids out) [0..<nat M] =
      reference_sorted ids E B @ replicate (nat M - off ?bl E * B) (length ids)"
    using res(2,3) M(2) by (intro sorted_reference[OF assms(6,5)]) auto
  have e: "map (ao_expert_ids out) [0..<?L] = ?es"
    using res(4,5) L by (intro experts_reference) auto
  have small: "x < E" if "x \<in> set ?es" for x
    using that assms(4) by (auto simp: reference_experts_def split: if_splits)
  have em: "map_res (nth_res em) ?es = Inr (map ((!) em) ?es)" if "emap = Some em" for em
  proof (rule map_res_total)
    fix x assume "x \<in> set ?es"
    then show "nth_res em x = Inr (em ! x)" using small[of x] assms(7)[OF that] by simp
  qed
  have eq: "moe_align_block_size order1 order2 order4 ids B E emap pad =
      Inr (reference_sorted ids E B @ replicate (nat M - off ?bl E * B) (length ids),
           map (\<lambda>e. case emap of None \<Rightarrow> int e | Some em \<Rightarrow> em ! e) ?es, tot)"
    unfolding moe_align_block_size_def Let_def M_def[symmetric] r prod.case s e
    using M(1) assms(4,5) em by (cases emap) (simp_all del: map_append)
  have tot: "tot = length (reference_sorted ids E B)" using res(1) assms(5) by (simp add: length_reference_sorted)
  have "(length (reference_sorted ids E B) + (nat M - off ?bl E * B)) mod (if pad then B else 1) = 0"
    using M(2,3) assms(5) by (simp add: length_reference_sorted)
  then show ?thesis using eq unfolding tot by (intro exI conjI)
qed

text \<open>
  C29. The kernels compute the reference, whatever order the programs of a grid run in: the sorted
  token ids are the tokens of expert 0, of expert 1 and so on in their order, each group filled up to
  whole blocks with the number of tokens, and the rest of the buffer holds that number too; the
  expert of every block is the expert of its tokens, translated by the expert map when there is one;
  the total is the length of the padded groups and fits into the buffer.
\<close>
theorem moe_align_is_reference:
  assumes "mset order1 = mset [0..<E]" "mset order2 = mset [0..<E]" "mset order4 = mset [0..<E]"
    and "0 < E" "0 < B" "\<forall>j < length ids. ids ! j < E" "\<And>em. emap = Some em \<Longrightarrow> E \<le> length em"
  shows "\<exists>k l. moe_align_block_size order1 order2 order4 ids B E emap pad =
      Inr (reference_sorted ids E B @ replicate k (length ids),
           map (\<lambda>e. case emap of None \<Rightarrow> int e | Some em \<Rightarrow> em ! e) (reference_experts ids E B @ replicate l 0),
           length (reference_sorted ids E B))
    \<and> (length (reference_sorted ids E B) + k) mod (if pad then B else 1) = 0"
  using assms by (rule moe_align_reference)

lemma moe_align_is_reference_witness:
  "\<exists>k l. moe_align_block_size [2, 0, 1] [1, 2, 0] [0, 2, 1] [2, 0, 2, 2, 0] 2 3 (Some [-1, 0, 1]) True =
      Inr ([1, 4, 0, 2, 3, 5] @ replicate k 5, [-1, 1, 1] @ replicate l (-1), 6) \<and> (6 + k) mod 2 = 0"
proof -
  let ?ids = "[2, 0, 2, 2, 0] :: nat list"
  have b: "bucket ?ids 0 = [1, 4]" "bucket ?ids (Suc 0) = []" "bucket ?ids (Suc (Suc 0)) = [0, 2, 3]"
    by (simp_all add: bucket_def upt_rec)
  then have r: "reference_sorted ?ids 3 2 = [1, 4, 0, 2, 3, 5]" "reference_experts ?ids 3 2 = [0, 2, 2]"
    by (simp_all add: reference_sorted_def reference_experts_def padded_bucket_def blocks_of_def ceil_div_def
        upt_rec)
  show ?thesis
    using moe_align_is_reference[of "[2, 0, 1]" 3 "[1, 2, 0]" "[0, 2, 1]" 2 ?ids "Some [-1, 0, 1]" True]
    unfolding r by (simp add: upt_rec less_Suc_eq numeral_eq_Suc nth_Cons')
qed

end
