(* ===== verification/DpForward.thy ===== *)
theory DpForward
  imports DpMetadata
begin

text \<open>
  The forward pass under data parallelism (\<^verbatim>\<open>vllm_mlu/model_executor/models/dp_utils.py\<close>),
  as one program over all ranks: rank \<open>(d, t)\<close> is tensor parallel rank \<open>t\<close> of data parallel group
  \<open>d\<close> and has the number \<open>d * T + t\<close> in the world. A tensor is the list of its rows. The
  collectives of vLLM, the norms, the attention and the MLP of a layer are arguments; the layer
  forward with reduce scatter and all gather, with all to all and the common one are the code's. A
  \<open>NonTermination\<close> result stands for ranks that wait for each other.
\<close>

section \<open>Tensors and ranks\<close>

record 'a comm =
  cm_all_gather :: "'a list list \<Rightarrow> 'a list"
  cm_all_reduce :: "'a list list \<Rightarrow> 'a list"
  cm_reduce_scatter :: "'a list list \<Rightarrow> 'a list list"
  cm_empty :: "nat \<Rightarrow> 'a list"

text \<open>Adding two tensors broadcasts a single row.\<close>

definition add_tensors :: "'a::comm_monoid_add list \<Rightarrow> 'a list \<Rightarrow> 'a list res" where
  "add_tensors xs ys =
     (if length xs = length ys then Inr (map2 (+) xs ys)
      else if length xs = 1 then Inr (map (\<lambda>y. hd xs + y) ys)
      else if length ys = 1 then Inr (map (\<lambda>x. x + hd ys) xs)
      else Inl RuntimeError)"

definition pad_rows :: "int \<Rightarrow> 'a::zero list \<Rightarrow> 'a list" where
  "pad_rows n xs = (if 0 \<le> n then xs @ replicate (nat n) 0 else take (nat (int (length xs) + n)) xs)"

definition tab :: "nat \<Rightarrow> nat \<Rightarrow> (nat \<Rightarrow> nat \<Rightarrow> 'b) \<Rightarrow> 'b list list" where
  "tab D T f = map (\<lambda>d. map (f d) [0..<T]) [0..<D]"

definition each :: "nat \<Rightarrow> nat \<Rightarrow> (nat \<Rightarrow> nat \<Rightarrow> 'b res) \<Rightarrow> 'b list list res" where
  "each D T f = map_res (\<lambda>d. map_res (f d) [0..<T]) [0..<D]"

definition some_res :: "'b option \<Rightarrow> 'b res" where
  "some_res x = (case x of None \<Rightarrow> Inl TypeError | Some y \<Rightarrow> Inr y)"

section \<open>Gathering tensors of different lengths\<close>

fun cut_parts :: "'a list \<Rightarrow> nat \<Rightarrow> nat \<Rightarrow> nat list \<Rightarrow> 'a list list" where
  "cut_parts h padding_to offset [] = []"
| "cut_parts h padding_to offset (n # ns) =
     (if n \<noteq> 0 then [slice h offset (offset + n)] else []) @ cut_parts h padding_to (offset + padding_to) ns"

definition remove_paddings_after_all_gather :: "'a list \<Rightarrow> nat \<Rightarrow> nat list \<Rightarrow> 'a list res" where
  "remove_paddings_after_all_gather h padding_to_token_num token_num_list =
     (let dp_group_tensors = cut_parts h padding_to_token_num 0 token_num_list
      in if length dp_group_tensors = 1 then Inr (hd dp_group_tensors)
         else if dp_group_tensors = [] then Inl RuntimeError
         else Inr (concat dp_group_tensors))"

definition num_tokens_equal :: "nat list \<Rightarrow> bool" where
  "num_tokens_equal ns = list_all (\<lambda>x. x = hd ns) ns"

definition pad_for_gather :: "'a::zero comm \<Rightarrow> nat list \<Rightarrow> nat \<Rightarrow> 'a list option \<Rightarrow> 'a list res" where
  "pad_for_gather c group_num_tokens rank h =
     (let own = (case h of None \<Rightarrow> Inl AttributeError | Some x \<Rightarrow> Inr x)
      in if num_tokens_equal group_num_tokens then own
         else bind_res (nth_res group_num_tokens rank) (\<lambda>n.
           let max_num_tokens = Max (set group_num_tokens); num_padding = max_num_tokens - n
           in if 0 < num_padding
              then (case h of None \<Rightarrow> Inr (cm_empty c max_num_tokens) | Some x \<Rightarrow> Inr (pad_rows (int num_padding) x))
              else own))"

definition unpad_gathered :: "nat list \<Rightarrow> 'a list \<Rightarrow> 'a list res" where
  "unpad_gathered group_num_tokens h =
     (if num_tokens_equal group_num_tokens then Inr h
      else remove_paddings_after_all_gather h (Max (set group_num_tokens)) group_num_tokens)"

text \<open>
  One call of the gather by all ranks of a group: rank \<open>i\<close> passes its own counts \<open>splits ! i\<close> and its
  own tensor, and receives the result of the collective without the padding.
\<close>

definition tensor_model_parallel_all_gather_dp ::
  "'a::zero comm \<Rightarrow> nat list list \<Rightarrow> 'a list option list \<Rightarrow> 'a list list res" where
  "tensor_model_parallel_all_gather_dp c splits hs =
     bind_res (map_res (\<lambda>i. pad_for_gather c (splits ! i) i (hs ! i)) [0..<length hs]) (\<lambda>ps.
     map_res (\<lambda>ns. unpad_gathered ns (cm_all_gather c ps)) splits)"

text \<open>The variant without padding: every rank writes its rows at its place of the output.\<close>

definition tensor_model_parallel_all_gather_op_v2 ::
  "nat list \<Rightarrow> 'a list option list \<Rightarrow> 'a list res" where
  "tensor_model_parallel_all_gather_op_v2 dim_size_list inputs =
     (let xs = map (\<lambda>x. case x of None \<Rightarrow> [] | Some x \<Rightarrow> x) inputs
      in require (map length xs = dim_size_list) RuntimeError (Inr (concat xs)))"

section \<open>Communication after the attention\<close>

definition chunks :: "nat \<Rightarrow> 'b list \<Rightarrow> 'b list list" where
  "chunks k xs = map (\<lambda>i. slice xs (i * k) (Suc i * k)) [0..<length xs div k]"

definition tp_gather :: "'a::zero comm \<Rightarrow> nat \<Rightarrow> (nat \<Rightarrow> nat list res) \<Rightarrow> 'a list list list \<Rightarrow> 'a list list list res" where
  "tp_gather c T counts w =
     map_res (\<lambda>d. bind_res (counts d) (\<lambda>ns.
       tensor_model_parallel_all_gather_dp c (replicate T ns) (map Some (w ! d)))) [0..<length w]"

definition world_gather :: "'a::zero comm \<Rightarrow> nat \<Rightarrow> (nat \<Rightarrow> nat list res) \<Rightarrow> 'a list list list \<Rightarrow> 'a list list res" where
  "world_gather c T counts w =
     bind_res (map_res counts [0..<length w]) (\<lambda>splits.
     tensor_model_parallel_all_gather_dp c (concat (map (replicate T) splits)) (map Some (concat w)))"

text \<open>
  A group of its own for the dense layers is given by its size and by the counts every rank of the
  world holds for it; the world is cut into groups of that size.
\<close>

definition process_post_attention_communication ::
  "'a::comm_monoid_add comm \<Rightarrow> nat \<Rightarrow> nat \<Rightarrow> dp_metadata list \<Rightarrow> (nat \<times> (nat \<Rightarrow> nat list option)) option
    \<Rightarrow> 'a list list list \<Rightarrow> 'a list list list res" where
  "process_post_attention_communication c D T md tp_group w =
     (case tp_group of
        Some (G, dense_attn_splits) \<Rightarrow>
          let w1 = tab D T (\<lambda>d t. if token_num (md ! d) \<noteq> 0 then cm_all_reduce c (w ! d) else w ! d ! t);
              ranks = chunks G (concat w1)
          in bind_res (map_res (\<lambda>g. bind_res (map_res (\<lambda>i. some_res (dense_attn_splits (g * G + i))) [0..<G])
               (\<lambda>splits. tensor_model_parallel_all_gather_dp c splits (map Some (ranks ! g)))) [0..<length ranks]) (\<lambda>gs.
             Inr (tab D T (\<lambda>d t. concat gs ! (d * T + t))))
      | None \<Rightarrow>
          if \<not> (\<forall>m \<in> set md. (prefill_pad_to_token_num m = -1) = (prefill_pad_to_token_num (hd md) = -1)) then Inl NonTermination
          else if prefill_pad_to_token_num (hd md) \<noteq> -1 then
            let w1 = tab D T (\<lambda>d t. let pad_num = prefill_pad_to_token_num (md ! d) - int (token_num (md ! d))
                       in if pad_num \<noteq> 0 then pad_rows pad_num (w ! d ! t) else w ! d ! t);
                w2 = map (cm_reduce_scatter c) w1
            in bind_res (world_gather c T (\<lambda>d. some_res (attn_token_split_list_reduce_scatter (md ! d))) w2) (\<lambda>g.
               each D T (\<lambda>d t. remove_paddings_after_all_gather (g ! (d * T + t))
                 (nat (prefill_pad_to_token_num (md ! d))) (token_split_list (md ! d))))
          else
            let w1 = tab D T (\<lambda>d t. cm_all_reduce c (w ! d))
            in bind_res (map_res (\<lambda>t. tensor_model_parallel_all_gather_dp c (map token_split_list md)
                 (map (\<lambda>d. Some (w1 ! d ! t)) [0..<D])) [0..<T]) (\<lambda>gs.
               Inr (tab D T (\<lambda>d t. gs ! t ! d))))"

section \<open>The forward of a layer\<close>

record 'a layer =
  ly_input_norm :: "'a list \<Rightarrow> 'a list"
  ly_fused_input_norm :: "'a list \<Rightarrow> 'a list \<Rightarrow> 'a list \<times> 'a list"
  ly_attn :: "nat \<Rightarrow> nat \<Rightarrow> 'a list \<Rightarrow> 'a list"
  ly_post_norm :: "'a list \<Rightarrow> 'a list"
  ly_fused_post_norm :: "'a list \<Rightarrow> 'a list \<Rightarrow> 'a list \<times> 'a list"
  ly_mlp :: "nat \<Rightarrow> nat \<Rightarrow> 'a list \<Rightarrow> 'a list"
  ly_mlp_all2all :: "nat \<Rightarrow> nat \<Rightarrow> 'a list \<Rightarrow> 'a list"
  ly_enable_all2all :: bool

text \<open>The hidden states of a rank and its residual.\<close>

type_synonym 'a states = "('a list \<times> 'a list option) list list"

definition rs_attention ::
  "'a::comm_monoid_add layer \<Rightarrow> bool \<Rightarrow> nat \<Rightarrow> nat \<Rightarrow> 'a list \<times> 'a list option \<Rightarrow> ('a list \<times> 'a list) res" where
  "rs_attention L is_first d t s =
     (let residual = (case snd s of None \<Rightarrow> fst s | Some r \<Rightarrow> r);
          h1 = (if is_first then ly_input_norm L (fst s) else fst s);
          h2 = ly_attn L d t h1
      in if is_first \<and> t = 0 then bind_res (add_tensors h2 residual) (\<lambda>h3. Inr (h3, residual)) else Inr (h2, residual))"

definition norm_between :: "'a layer \<Rightarrow> bool \<Rightarrow> 'a list \<Rightarrow> 'a list \<Rightarrow> 'a list \<times> 'a list" where
  "norm_between L is_first h residual =
     (if is_first then (ly_post_norm L h, h) else ly_fused_post_norm L h residual)"

definition rs_finish ::
  "bool \<Rightarrow> ('a::comm_monoid_add list \<Rightarrow> 'a list \<Rightarrow> 'a list \<times> 'a list) option \<Rightarrow> 'a list \<Rightarrow> 'a list
    \<Rightarrow> ('a list \<times> 'a list option) res" where
  "rs_finish is_last next_norm h residual =
     (if is_last then bind_res (add_tensors h residual) (\<lambda>h. Inr (h, None))
      else (case next_norm of None \<Rightarrow> Inl AssertionError
            | Some f \<Rightarrow> (let (h', r') = f h residual in Inr (h', Some r'))))"

text \<open>From the input of the layer to the normed shards behind the attention.\<close>

definition rs_front ::
  "'a::comm_monoid_add comm \<Rightarrow> nat \<Rightarrow> nat \<Rightarrow> 'a layer \<Rightarrow> bool \<Rightarrow> 'a states \<Rightarrow> ('a list \<times> 'a list) list list res" where
  "rs_front c D T L is_first w =
     bind_res (each D T (\<lambda>d t. rs_attention L is_first d t (w ! d ! t))) (\<lambda>w1.
     let w2 = map (\<lambda>ranks. cm_reduce_scatter c (map fst ranks)) w1
     in Inr (tab D T (\<lambda>d t. norm_between L is_first (w2 ! d ! t) (snd (w1 ! d ! t)))))"

text \<open>From the output shards of the MLP to the input of the next layer.\<close>

definition rs_back ::
  "'a::comm_monoid_add comm \<Rightarrow> nat \<Rightarrow> nat \<Rightarrow> dp_metadata list \<Rightarrow> bool
    \<Rightarrow> ('a list \<Rightarrow> 'a list \<Rightarrow> 'a list \<times> 'a list) option \<Rightarrow> 'a list list list \<Rightarrow> 'a list list list \<Rightarrow> 'a states res" where
  "rs_back c D T md is_last next_norm hs residuals =
     bind_res (each D T (\<lambda>d t. rs_finish is_last next_norm (hs ! d ! t) (residuals ! d ! t))) (\<lambda>w1.
     bind_res (tp_gather c T (\<lambda>d. some_res (moe_token_split_list_reduce_scatter (md ! d))) (map (map fst) w1)) (\<lambda>g.
     Inr (tab D T (\<lambda>d t. (g ! d ! t, snd (w1 ! d ! t))))))"

definition dp_forward_layer_rs_ag ::
  "'a::comm_monoid_add comm \<Rightarrow> nat \<Rightarrow> nat \<Rightarrow> dp_metadata list \<Rightarrow> 'a layer \<Rightarrow> bool \<Rightarrow> bool
    \<Rightarrow> ('a list \<Rightarrow> 'a list \<Rightarrow> 'a list \<times> 'a list) option \<Rightarrow> 'a states \<Rightarrow> 'a states res" where
  "dp_forward_layer_rs_ag c D T md L is_first is_last next_norm w =
     bind_res (rs_front c D T L is_first w) (\<lambda>w1.
     bind_res (world_gather c T (\<lambda>d. some_res (attn_token_split_list_reduce_scatter (md ! d))) (map (map fst) w1)) (\<lambda>g.
     let out = cm_reduce_scatter c (concat (tab D T (\<lambda>d t. ly_mlp L d t (g ! (d * T + t)))))
     in rs_back c D T md is_last next_norm (tab D T (\<lambda>d t. out ! (d * T + t))) (map (map snd) w1)))"

definition dp_forward_layer_all2all ::
  "'a::comm_monoid_add comm \<Rightarrow> nat \<Rightarrow> nat \<Rightarrow> dp_metadata list \<Rightarrow> 'a layer \<Rightarrow> bool \<Rightarrow> bool
    \<Rightarrow> ('a list \<Rightarrow> 'a list \<Rightarrow> 'a list \<times> 'a list) option \<Rightarrow> 'a states \<Rightarrow> 'a states res" where
  "dp_forward_layer_all2all c D T md L is_first is_last next_norm w =
     bind_res (rs_front c D T L is_first w) (\<lambda>w1.
     rs_back c D T md is_last next_norm (tab D T (\<lambda>d t. ly_mlp_all2all L d t (fst (w1 ! d ! t)))) (map (map snd) w1))"

definition common_attention ::
  "'a::comm_monoid_add layer \<Rightarrow> nat \<Rightarrow> nat \<Rightarrow> 'a list \<times> 'a list option \<Rightarrow> 'a list res" where
  "common_attention L d t s =
     (let residual = (case snd s of None \<Rightarrow> fst s | Some r \<Rightarrow> r);
          h = ly_attn L d t (ly_input_norm L (fst s))
      in if t = 0 then add_tensors h residual else Inr h)"

definition own_rows :: "dp_metadata \<Rightarrow> 'a list \<Rightarrow> 'a list" where
  "own_rows m h = slice h (token_num_offset m) (token_num_offset m + token_num m)"

definition dp_forward_layer_common ::
  "'a::comm_monoid_add comm \<Rightarrow> nat \<Rightarrow> nat \<Rightarrow> dp_metadata list \<Rightarrow> 'a layer \<Rightarrow> 'a states \<Rightarrow> 'a states res" where
  "dp_forward_layer_common c D T md L w =
     bind_res (each D T (\<lambda>d t. common_attention L d t (w ! d ! t))) (\<lambda>w1.
     bind_res (process_post_attention_communication c D T md None w1) (\<lambda>w2.
     let out = cm_all_reduce c (concat (tab D T (\<lambda>d t. ly_mlp L d t (ly_post_norm L (w2 ! d ! t)))))
     in each D T (\<lambda>d t.
          bind_res (add_tensors (own_rows (md ! d) out) (own_rows (md ! d) (w2 ! d ! t))) (\<lambda>h. Inr (h, Some h)))))"

text \<open>
  The choice of the forward function is made by every rank for itself, from its metadata and from
  whether its own batch is all decode; ranks that choose differently wait for each other.
\<close>

datatype path = RsAg | All2All | Common

definition layer_path :: "dp_metadata \<Rightarrow> 'a layer \<Rightarrow> bool \<Rightarrow> path" where
  "layer_path m L is_decode_only =
     (if layer_use_reduce_scatter m then (if ly_enable_all2all L \<and> is_decode_only then All2All else RsAg) else Common)"

definition dp_layer_forward ::
  "'a::comm_monoid_add comm \<Rightarrow> nat \<Rightarrow> nat \<Rightarrow> dp_metadata list \<Rightarrow> bool list \<Rightarrow> 'a layer \<Rightarrow> bool \<Rightarrow> bool
    \<Rightarrow> ('a list \<Rightarrow> 'a list \<Rightarrow> 'a list \<times> 'a list) option \<Rightarrow> 'a states \<Rightarrow> 'a states res" where
  "dp_layer_forward c D T md decode_only L is_first is_last next_norm w =
     (let paths = map (\<lambda>d. layer_path (md ! d) L (decode_only ! d)) [0..<D]
      in if \<not> list_all (\<lambda>p. p = hd paths) paths then Inl NonTermination
         else (case hd paths of
                 RsAg \<Rightarrow> dp_forward_layer_rs_ag c D T md L is_first is_last next_norm w
               | All2All \<Rightarrow> dp_forward_layer_all2all c D T md L is_first is_last next_norm w
               | Common \<Rightarrow> dp_forward_layer_common c D T md L w))"

section \<open>The forward of the model\<close>

definition layer_step ::
  "'a::comm_monoid_add comm \<Rightarrow> nat \<Rightarrow> nat \<Rightarrow> dp_metadata list \<Rightarrow> bool list \<Rightarrow> 'a layer list \<Rightarrow> nat \<Rightarrow> nat \<Rightarrow> nat
    \<Rightarrow> 'a states \<Rightarrow> 'a states res" where
  "layer_step c D T md decode_only layers start_layer end_layer i w =
     (let is_last = (i = end_layer - 1)
      in bind_res (if is_last then Inr None
                   else bind_res (nth_res layers (i + 1)) (\<lambda>L. Inr (Some (ly_fused_input_norm L)))) (\<lambda>next_norm.
         bind_res (nth_res layers i) (\<lambda>L.
         dp_layer_forward c D T md decode_only L (i = start_layer) is_last next_norm w)))"

datatype 'a model_output = Intermediate "'a states" | Hidden "'a list list list"

definition dp_model_forward ::
  "'a::comm_monoid_add comm \<Rightarrow> nat \<Rightarrow> nat \<Rightarrow> dp_metadata list \<Rightarrow> bool list \<Rightarrow> bool \<Rightarrow> bool
    \<Rightarrow> (nat \<Rightarrow> nat \<Rightarrow> 'a list) \<Rightarrow> 'a states option \<Rightarrow> ('a list \<Rightarrow> 'a list) \<Rightarrow> 'a layer list \<Rightarrow> nat \<Rightarrow> nat
    \<Rightarrow> 'a model_output res" where
  "dp_model_forward c D T md decode_only is_first_rank is_last_rank embedded intermediate model_norm layers start_layer end_layer =
     bind_res (if is_first_rank then Inr (tab D T (\<lambda>d t. (embedded d t, None)))
               else (case intermediate of None \<Rightarrow> Inl AssertionError | Some w \<Rightarrow> Inr w)) (\<lambda>w.
     bind_res (fold_res (layer_step c D T md decode_only layers start_layer end_layer) [start_layer..<end_layer] w) (\<lambda>w'.
     if is_last_rank then Inr (Hidden (tab D T (\<lambda>d t. model_norm (fst (w' ! d ! t))))) else Inr (Intermediate w')))"

end
