(* ===== verification/DpRefine.thy ===== *)
theory DpRefine
  imports DpForward
begin

text \<open>
  The forward pass under data parallelism refines the plain transformer: on every rank it returns
  what applying the layers to the tokens of its group returns.
\<close>

section \<open>The reference\<close>

definition rowsum :: "'a::comm_monoid_add list list \<Rightarrow> 'a list" where
  "rowsum xs = map (\<lambda>j. sum_list (map (\<lambda>x. x ! j) xs)) [0..<length (hd xs)]"

definition ref_attn :: "'a::comm_monoid_add layer \<Rightarrow> nat \<Rightarrow> nat \<Rightarrow> 'a list \<Rightarrow> 'a list" where
  "ref_attn L T d xs = rowsum (map (\<lambda>t. ly_attn L d t xs) [0..<T])"

definition ref_mlp :: "'a::comm_monoid_add layer \<Rightarrow> nat \<Rightarrow> nat \<Rightarrow> 'a list \<Rightarrow> 'a list" where
  "ref_mlp L D T xs = rowsum (concat (tab D T (\<lambda>d t. ly_mlp L d t xs)))"

definition plus_rows :: "'a::comm_monoid_add list \<Rightarrow> 'a list \<Rightarrow> 'a list" where
  "plus_rows xs ys = map2 (+) xs ys"

definition ref_middle :: "'a::comm_monoid_add layer \<Rightarrow> nat \<Rightarrow> nat \<Rightarrow> 'a list \<Rightarrow> 'a list" where
  "ref_middle L T d xs = plus_rows (ref_attn L T d (ly_input_norm L xs)) xs"

definition ref_layer :: "'a::comm_monoid_add layer \<Rightarrow> nat \<Rightarrow> nat \<Rightarrow> nat \<Rightarrow> 'a list \<Rightarrow> 'a list" where
  "ref_layer L D T d xs =
     (let a = ref_middle L T d xs in plus_rows (ref_mlp L D T (ly_post_norm L a)) a)"

text \<open>What the collectives do, and what the modules of a layer are.\<close>

definition comm_ok :: "'a::comm_monoid_add comm \<Rightarrow> bool" where
  "comm_ok c \<longleftrightarrow>
     (\<forall>xs n. (\<forall>x \<in> set xs. length x = n) \<longrightarrow> cm_all_gather c xs = concat xs)
   \<and> (\<forall>xs n. xs \<noteq> [] \<and> (\<forall>x \<in> set xs. length x = n) \<longrightarrow> cm_all_reduce c xs = rowsum xs)
   \<and> (\<forall>xs k. xs \<noteq> [] \<and> (\<forall>x \<in> set xs. length x = length xs * k) \<longrightarrow>
        cm_reduce_scatter c xs = map (\<lambda>i. slice (rowsum xs) (i * k) (Suc i * k)) [0..<length xs])"

definition norm_ok ::
  "('a::comm_monoid_add list \<Rightarrow> 'a list) \<Rightarrow> ('a list \<Rightarrow> 'a list \<Rightarrow> 'a list \<times> 'a list) \<Rightarrow> bool" where
  "norm_ok nrm fused \<longleftrightarrow> (\<exists>f. \<forall>xs. nrm xs = map f xs)
     \<and> (\<forall>xs rs. length xs = length rs \<longrightarrow> fused xs rs = (nrm (plus_rows xs rs), plus_rows xs rs))"

definition layer_ok :: "nat \<Rightarrow> nat \<Rightarrow> 'a::comm_monoid_add layer \<Rightarrow> bool" where
  "layer_ok D T L \<longleftrightarrow> norm_ok (ly_input_norm L) (ly_fused_input_norm L)
     \<and> norm_ok (ly_post_norm L) (ly_fused_post_norm L)
     \<and> (\<forall>d t xs. length (ly_attn L d t xs) = length xs)
     \<and> (\<exists>m. \<forall>d t xs. ly_mlp L d t xs = map (m d t) xs)
     \<and> (\<forall>d < D. \<forall>t < T. \<forall>xs. ly_mlp_all2all L d t xs = ref_mlp L D T xs)"

section \<open>Tables of ranks\<close>

lemma nth_tab [simp]: "d < D \<Longrightarrow> t < T \<Longrightarrow> tab D T f ! d ! t = f d t"
  by (simp add: tab_def)

lemma nth_tab_row [simp]: "d < D \<Longrightarrow> tab D T f ! d = map (f d) [0..<T]"
  by (simp add: tab_def)

lemma length_tab [simp]: "length (tab D T f) = D"
  by (simp add: tab_def)

lemma map_tab: "map (map g) (tab D T f) = tab D T (\<lambda>d t. g (f d t))"
  by (simp add: tab_def)

lemma tab_cong: "(\<And>d t. d < D \<Longrightarrow> t < T \<Longrightarrow> f d t = g d t) \<Longrightarrow> tab D T f = tab D T g"
  by (simp add: tab_def)

lemma each_tab:
  assumes "\<And>d t. d < D \<Longrightarrow> t < T \<Longrightarrow> f d t = Inr (g d t)"
  shows "each D T f = Inr (tab D T g)"
  unfolding each_def tab_def using assms by (intro map_res_total) (simp add: map_res_total)

lemma concat_tab: "0 < T \<Longrightarrow> concat (tab D T f) = map (\<lambda>i. f (i div T) (i mod T)) [0..<D * T]"
proof (induction D)
  case (Suc D)
  have "[0..<Suc D * T] = [0..<D * T] @ map (\<lambda>t. t + D * T) [0..<T]"
    using upt_add_eq_append[of 0 "D * T" T] by (simp add: map_add_upt add.commute)
  then show ?case using Suc by (simp add: tab_def)
qed (simp add: tab_def)

lemma rank_less: "d < D \<Longrightarrow> t < T \<Longrightarrow> d * T + t < D * (T :: nat)"
proof -
  assume "d < D" "t < T"
  then have "d * T + t < Suc d * T" "Suc d * T \<le> D * T" by (simp, intro mult_le_mono1) simp
  then show ?thesis by (rule less_le_trans)
qed

lemma nth_concat_tab [simp]: "d < D \<Longrightarrow> t < T \<Longrightarrow> concat (tab D T f) ! (d * T + t) = f d t"
  using rank_less[of d D t T] by (simp add: concat_tab)

lemma length_concat_tab [simp]: "0 < T \<Longrightarrow> length (concat (tab D T f)) = D * T"
  by (simp add: concat_tab)

lemma set_concat_tab: "set (concat (tab D T f)) = {f d t | d t. d < D \<and> t < T}"
  by (fastforce simp: tab_def)

section \<open>Rows\<close>

lemma length_plus_rows [simp]: "length (plus_rows xs ys) = min (length xs) (length ys)"
  by (simp add: plus_rows_def)

lemma nth_plus_rows [simp]: "j < length xs \<Longrightarrow> j < length ys \<Longrightarrow> plus_rows xs ys ! j = xs ! j + ys ! j"
  by (simp add: plus_rows_def)

lemma add_tensors_same: "length xs = length ys \<Longrightarrow> add_tensors xs ys = Inr (plus_rows xs ys)"
  by (simp add: add_tensors_def plus_rows_def)

lemma slice_map: "slice (map f xs) a b = map f (slice xs a b)"
  by (simp add: slice_def take_map drop_map)

lemma slice_plus_rows: "slice (plus_rows xs ys) a b = plus_rows (slice xs a b) (slice ys a b)"
  by (simp add: slice_def plus_rows_def take_map drop_map take_zip drop_zip)

lemma slice_slice: "j \<le> n \<Longrightarrow> slice (slice xs p (p + n)) i j = slice xs (p + i) (p + j)"
  by (simp add: slice_def take_drop min_def add.commute)

lemma length_rowsum [simp]: "length (rowsum xs) = length (hd xs)"
  by (simp add: rowsum_def)

lemma rowsum_maps:
  assumes "js \<noteq> []"
  shows "rowsum (map (\<lambda>i. map (f i) xs) js) = map (\<lambda>x. sum_list (map (\<lambda>i. f i x) js)) xs"
  using assms by (intro nth_equalityI) (auto simp: rowsum_def hd_map comp_def)

text \<open>Adding the residual on the first rank adds it once to the sum of all ranks.\<close>

lemma rowsum_first:
  assumes "0 < T" "\<And>t. t < T \<Longrightarrow> length (f t) = length r"
  shows "rowsum (map (\<lambda>t. if t = 0 then plus_rows (f t) r else f t) [0..<T]) = plus_rows (rowsum (map f [0..<T])) r"
proof -
  let ?g = "\<lambda>t. if t = 0 then plus_rows (f t) r else f t"
  obtain n where T: "T = Suc n" using assms(1) by (cases T) auto
  have up: "[0..<T] = 0 # map Suc [0..<n]" unfolding T map_Suc_upt by (rule upt_conv_Cons) simp
  have len: "length (rowsum (map f [0..<T])) = length r" using assms by (simp add: up)
  show ?thesis
  proof (rule nth_equalityI)
    show "length (rowsum (map ?g [0..<T])) = length (plus_rows (rowsum (map f [0..<T])) r)"
      using assms(2)[OF assms(1)] len by (simp add: up)
    fix j assume "j < length (rowsum (map ?g [0..<T]))"
    then have j: "j < length r" using assms(2)[OF assms(1)] by (simp add: up)
    have f0: "length (f 0) = length r" using assms by simp
    have "rowsum (map ?g [0..<T]) ! j = (f 0 ! j + r ! j) + sum_list (map (\<lambda>t. f t ! j) (map Suc [0..<n]))"
      using j f0 by (simp add: rowsum_def up comp_def)
    also have "\<dots> = (f 0 ! j + sum_list (map (\<lambda>t. f t ! j) (map Suc [0..<n]))) + r ! j" by (simp add: ac_simps)
    also have "\<dots> = rowsum (map f [0..<T]) ! j + r ! j" using j f0 by (simp add: rowsum_def up comp_def)
    finally show "rowsum (map ?g [0..<T]) ! j = plus_rows (rowsum (map f [0..<T])) r ! j" using j len by simp
  qed
qed

abbreviation shard :: "nat \<Rightarrow> nat \<Rightarrow> 'b list \<Rightarrow> 'b list" where
  "shard k t xs \<equiv> slice xs (t * k) (Suc t * k)"

lemma length_shard: "length xs = T * k \<Longrightarrow> t < T \<Longrightarrow> length (shard k t xs) = k"
proof -
  assume h: "length xs = T * k" "t < T"
  have "Suc t * k \<le> T * k" using h(2) by (intro mult_le_mono1) simp
  then show ?thesis using h(1) by (simp add: length_slice)
qed

lemma concat_shards: "length xs = T * k \<Longrightarrow> concat (map (\<lambda>t. shard k t xs) [0..<T]) = xs"
proof -
  have "concat (map (\<lambda>t. shard k t xs) [0..<n]) = slice xs 0 (n * k)" for n
  proof (induction n)
    case (Suc n)
    then show ?case using slice_join[of 0 "n * k" "Suc n * k" xs] by simp
  qed (simp add: slice_def)
  then show "length xs = T * k \<Longrightarrow> ?thesis" by simp
qed

lemma slice_block:
  "d < length xs \<Longrightarrow> slice (concat xs) (sum_list (map length (take d xs))) (sum_list (map length (take d xs)) + length (xs ! d)) = xs ! d"
proof (induction xs arbitrary: d)
  case (Cons x xs)
  show ?case
  proof (cases d)
    case 0
    then show ?thesis by (simp add: slice_def)
  next
    case (Suc e)
    then show ?thesis using Cons.IH[of e] Cons.prems by (simp add: slice_def)
  qed
qed simp

lemma sum_list_same: "(\<And>x. x \<in> set xs \<Longrightarrow> f x = (n :: nat)) \<Longrightarrow> sum_list (map f xs) = length xs * n"
  by (induction xs) auto

text \<open>The shard of a rank of the world is the shard of its group.\<close>

lemma world_shard:
  assumes "\<And>d. d < D \<Longrightarrow> length (a d) = T * k" "d < D" "t < T"
  shows "shard k (d * T + t) (concat (map a [0..<D])) = shard k t (a d)"
proof -
  let ?xs = "map a [0..<D]"
  have p: "sum_list (map length (take d ?xs)) = d * (T * k)"
  proof -
    have "length x = T * k" if "x \<in> set (take d ?xs)" for x
      using that assms(1) in_set_takeD[of x d ?xs] by auto
    then show ?thesis using sum_list_same[of "take d ?xs" length "T * k"] assms(2) by simp
  qed
  have b: "slice (concat ?xs) (d * (T * k)) (d * (T * k) + T * k) = a d"
    using slice_block[of d ?xs] assms(1,2) p by simp
  have "Suc t * k \<le> T * k" using assms(3) by (intro mult_le_mono1) simp
  from slice_slice[OF this, of "concat ?xs" "d * (T * k)" "t * k"] show ?thesis
    unfolding b by (simp add: algebra_simps)
qed

section \<open>The collectives on tables\<close>

lemma comm_gather:
  assumes "comm_ok c" "\<And>x. x \<in> set xs \<Longrightarrow> length x = n"
  shows "cm_all_gather c xs = concat xs"
  using assms(1)[unfolded comm_ok_def, THEN conjunct1, rule_format, of xs n] assms(2) by blast

lemma comm_reduce:
  assumes "comm_ok c" "xs \<noteq> []" "\<And>x. x \<in> set xs \<Longrightarrow> length x = n"
  shows "cm_all_reduce c xs = rowsum xs"
  using assms(1)[unfolded comm_ok_def, THEN conjunct2, THEN conjunct1, rule_format, of xs n] assms(2,3) by blast

lemma comm_scatter:
  assumes "comm_ok c" "xs \<noteq> []" "\<And>x. x \<in> set xs \<Longrightarrow> length x = length xs * k"
  shows "cm_reduce_scatter c xs = map (\<lambda>i. shard k i (rowsum xs)) [0..<length xs]"
  using assms(1)[unfolded comm_ok_def, THEN conjunct2, THEN conjunct2, rule_format, of xs k] assms(2,3) by blast

lemma gather_equal:
  assumes "comm_ok c" "\<And>x. x \<in> set xs \<Longrightarrow> length x = n" "\<And>s. s \<in> set splits \<Longrightarrow> num_tokens_equal s"
    "length xs = length splits"
  shows "tensor_model_parallel_all_gather_dp c splits (map Some xs) = Inr (map (\<lambda>_. concat xs) splits)"
proof -
  have "map_res (\<lambda>i. pad_for_gather c (splits ! i) i (map Some xs ! i)) [0..<length (map Some xs)] =
      Inr (map ((!) xs) [0..<length xs])"
    using assms(3,4) map_res_total[of "[0..<length xs]" _ "(!) xs"] by (simp add: pad_for_gather_def)
  moreover have "map_res (\<lambda>s. unpad_gathered s (concat xs)) splits = Inr (map (\<lambda>_. concat xs) splits)"
    using assms(3) by (intro map_res_total) (simp add: unpad_gathered_def)
  ultimately show ?thesis
    using comm_gather[OF assms(1,2)] by (simp add: tensor_model_parallel_all_gather_dp_def map_nth)
qed

text \<open>Cutting the padding out of the gathered tensor.\<close>

lemma concat_cut_parts:
  assumes "\<And>x. x \<in> set xs \<Longrightarrow> length x + length (f x) = P"
  shows "concat (cut_parts (pre @ concat (map (\<lambda>x. x @ f x) xs)) P (length pre) (map length xs)) = concat xs"
  using assms
proof (induction xs arbitrary: pre)
  case (Cons x xs)
  have "concat (cut_parts ((pre @ x @ f x) @ concat (map (\<lambda>x. x @ f x) xs)) P (length (pre @ x @ f x)) (map length xs)) = concat xs"
    using Cons.prems by (intro Cons.IH) simp
  moreover have "length (pre @ x @ f x) = length pre + P" using Cons.prems by simp
  ultimately show ?case by (simp add: slice_def)
qed simp

lemma remove_paddings:
  assumes "\<And>x. x \<in> set xs \<Longrightarrow> length x + length (f x) = P" "concat xs \<noteq> []"
  shows "remove_paddings_after_all_gather (concat (map (\<lambda>x. x @ f x) xs)) P (map length xs) = Inr (concat xs)"
proof -
  let ?ps = "cut_parts (concat (map (\<lambda>x. x @ f x) xs)) P 0 (map length xs)"
  have "concat ?ps = concat xs" using concat_cut_parts[of xs f P "[]", OF assms(1)] by simp
  then show ?thesis using assms(2)
    by (cases ?ps) (auto simp: remove_paddings_after_all_gather_def Let_def)
qed

lemma map_res_replicate: "f x = Inr y \<Longrightarrow> map_res f (replicate n x) = Inr (replicate n y)"
  by (induction n) simp_all

text \<open>The gather of tensors of any lengths returns their concatenation on every rank.\<close>

lemma gather_dp:
  assumes "comm_ok c" "concat xs \<noteq> []"
  shows "tensor_model_parallel_all_gather_dp c (replicate (length xs) (map length xs)) (map Some xs) =
    Inr (replicate (length xs) (concat xs))"
proof (cases "num_tokens_equal (map length xs)")
  case True
  then have "\<And>x. x \<in> set xs \<Longrightarrow> length x = length (hd xs)"
    using assms(2) by (cases xs) (auto simp: num_tokens_equal_def list_all_iff)
  from gather_equal[OF assms(1) this, where splits = "replicate (length xs) (map length xs)"] True
  show ?thesis by (simp add: map_replicate_const)
next
  case False
  let ?P = "Max (set (map length xs))"
  let ?pad = "\<lambda>x. x @ replicate (?P - length x) 0"
  have le: "length x \<le> ?P" if "x \<in> set xs" for x using that by (intro Max_ge) auto
  have pad: "pad_for_gather c (map length xs) i (map Some xs ! i) = Inr (?pad (xs ! i))" if "i < length xs" for i
    using False that le[of "xs ! i"] by (auto simp: pad_for_gather_def pad_rows_def Let_def)
  have "map_res (\<lambda>i. pad_for_gather c (replicate (length xs) (map length xs) ! i) i (map Some xs ! i)) [0..<length (map Some xs)]
      = Inr (map (\<lambda>i. ?pad (xs ! i)) [0..<length xs])"
    unfolding length_map
  proof (rule map_res_total)
    fix i assume "i \<in> set [0..<length xs]"
    then have i: "i < length xs" by simp
    show "pad_for_gather c (replicate (length xs) (map length xs) ! i) i (map Some xs ! i) = Inr (?pad (xs ! i))"
      unfolding nth_replicate[OF i] by (rule pad[OF i])
  qed
  moreover have "map (\<lambda>i. ?pad (xs ! i)) [0..<length xs] = map ?pad xs" by (intro nth_equalityI) simp_all
  moreover have "cm_all_gather c (map ?pad xs) = concat (map ?pad xs)"
    using le by (intro comm_gather[OF assms(1), where n = ?P]) auto
  moreover have "unpad_gathered (map length xs) (concat (map ?pad xs)) = Inr (concat xs)"
    using False le assms(2) remove_paddings[of xs "\<lambda>x. replicate (?P - length x) 0" ?P] by (simp add: unpad_gathered_def)
  ultimately show ?thesis
    by (simp add: tensor_model_parallel_all_gather_dp_def map_res_replicate)
qed

section \<open>The metadata of the ranks\<close>

lemma make_oot_same:
  assumes "make_oot r D T ns pre rs sls bss emb lgt dense = Inr m"
    "make_oot r' D T ns pre rs sls' bss' emb' lgt' dense' = Inr m'"
  shows "layer_use_reduce_scatter m = layer_use_reduce_scatter m'"
    "prefill_pad_to_token_num m = prefill_pad_to_token_num m'"
  using assms by (auto simp: make_oot_def Let_def bind_res_eq_Inr nth_res_eq_Inr)

text \<open>The ranks of all groups agree on the counts, the modes and the split of the tokens.\<close>

definition metadata_ok :: "nat \<Rightarrow> nat \<Rightarrow> nat list \<Rightarrow> dp_metadata list \<Rightarrow> bool" where
  "metadata_ok D T ns md \<longleftrightarrow> length ns = D \<and> length md = D
     \<and> (\<exists>pre rs. \<forall>d < D. \<exists>sls bss emb lgt dense. make_oot d D T ns pre rs sls bss emb lgt dense = Inr (md ! d))"

lemma metadata_make:
  assumes "metadata_ok D T ns md" "d < D" "d' < D"
  obtains pre rs sls bss emb lgt dense sls' bss' emb' lgt' dense' where
    "make_oot d D T ns pre rs sls bss emb lgt dense = Inr (md ! d)"
    "make_oot d' D T ns pre rs sls' bss' emb' lgt' dense' = Inr (md ! d')"
  using assms unfolding metadata_ok_def by metis

lemma metadata_fields:
  assumes "metadata_ok D T ns md" "d < D"
  shows "token_num (md ! d) = ns ! d" "token_num_offset (md ! d) = sum_list (take d ns)"
    "token_split_list (md ! d) = ns"
  using metadata_make[OF assms(1,2,2)] make_oot_fields by metis+

lemma metadata_modes:
  assumes "metadata_ok D T ns md" "d < D" "d' < D"
  shows "layer_use_reduce_scatter (md ! d) = layer_use_reduce_scatter (md ! d')"
    "prefill_pad_to_token_num (md ! d) = prefill_pad_to_token_num (md ! d')"
  using metadata_make[OF assms] make_oot_same by metis+

lemma metadata_rs:
  assumes "metadata_ok D T ns md" "d < D" "layer_use_reduce_scatter (md ! d)"
  shows "ns ! d div T = hd ns div T \<and> ns ! d = T * (hd ns div T)
    \<and> attn_token_split_list_reduce_scatter (md ! d) = Some (replicate (D * T) (hd ns div T))
    \<and> moe_token_split_list_reduce_scatter (md ! d) = Some (take T (replicate (D * T) (hd ns div T)))"
proof -
  obtain pre rs sls bss emb lgt dense where m: "make_oot d D T ns pre rs sls bss emb lgt dense = Inr (md ! d)"
    using assms unfolding metadata_ok_def by blast
  obtain k where k: "0 < k" "\<forall>n \<in> set ns. n = k * T"
      "attn_token_split_list_reduce_scatter (md ! d) = Some (replicate (D * T) k)"
      "moe_token_split_list_reduce_scatter (md ! d) = Some (take T (replicate (D * T) k))"
    using make_oot_layer_rs[OF m assms(3)] by blast
  have "length ns = D" using assms(1) by (simp add: metadata_ok_def)
  then have "ns \<noteq> []" "d < length ns" using assms(2) by auto
  then have n: "ns ! d = k * T" "hd ns = k * T" using k(2) assms(2) nth_mem[of d ns] hd_in_set[of ns] by auto
  show ?thesis
  proof (cases "T = 0")
    case True
    then show ?thesis using k n by simp
  next
    case False
    then show ?thesis using k n by simp
  qed
qed

lemma metadata_pad:
  assumes "metadata_ok D T ns md" "d < D" "prefill_pad_to_token_num (md ! d) \<noteq> -1"
  shows "\<exists>q. prefill_pad_to_token_num (md ! d) = int (T * q) \<and> (\<forall>n \<in> set ns. n \<le> T * q)
    \<and> attn_token_split_list_reduce_scatter (md ! d) = Some (replicate (D * T) (T * q div T))"
proof -
  obtain pre rs sls bss emb lgt dense where m: "make_oot d D T ns pre rs sls bss emb lgt dense = Inr (md ! d)"
    using assms unfolding metadata_ok_def by blast
  from make_oot_padded[OF m assms(3)] show ?thesis by (auto simp: dvd_def)
qed

section \<open>The layer with reduce scatter and all gather\<close>

lemma num_tokens_equal_replicate [simp]: "num_tokens_equal (replicate n k)"
  by (cases n) (simp_all add: num_tokens_equal_def list_all_iff)

lemma layer_okD:
  assumes "layer_ok D T L"
  shows "\<exists>f. \<forall>xs. ly_input_norm L xs = map f xs" "\<exists>f. \<forall>xs. ly_post_norm L xs = map f xs"
    "length xs = length rs \<Longrightarrow> ly_fused_input_norm L xs rs = (ly_input_norm L (plus_rows xs rs), plus_rows xs rs)"
    "length xs = length rs \<Longrightarrow> ly_fused_post_norm L xs rs = (ly_post_norm L (plus_rows xs rs), plus_rows xs rs)"
    "length (ly_attn L d t xs) = length xs" "\<exists>m. \<forall>d t xs. ly_mlp L d t xs = map (m d t) xs"
    "d < D \<Longrightarrow> t < T \<Longrightarrow> ly_mlp_all2all L d t xs = ref_mlp L D T xs"
  using assms unfolding layer_ok_def norm_ok_def by simp_all

lemma norm_slice:
  assumes "layer_ok D T L"
  shows "ly_post_norm L (slice xs a b) = slice (ly_post_norm L xs) a b"
    "ly_input_norm L (slice xs a b) = slice (ly_input_norm L xs) a b"
    "length (ly_post_norm L xs) = length xs" "length (ly_input_norm L xs) = length xs"
proof -
  obtain f g where "\<And>xs. ly_post_norm L xs = map f xs" "\<And>xs. ly_input_norm L xs = map g xs"
    using layer_okD(1,2)[OF assms] by blast
  then show "ly_post_norm L (slice xs a b) = slice (ly_post_norm L xs) a b"
    "ly_input_norm L (slice xs a b) = slice (ly_input_norm L xs) a b"
    "length (ly_post_norm L xs) = length xs" "length (ly_input_norm L xs) = length xs"
    by (simp_all add: slice_map)
qed

lemma length_ref_attn: "layer_ok D T L \<Longrightarrow> 0 < T \<Longrightarrow> length (ref_attn L T d xs) = length xs"
  by (simp add: ref_attn_def hd_map layer_okD(5))

lemma ref_mlp_map:
  assumes "layer_ok D T L" "0 < D" "0 < T"
  shows "\<exists>f. \<forall>xs. ref_mlp L D T xs = map f xs"
proof -
  obtain m where m: "\<And>d t xs. ly_mlp L d t xs = map (m d t) xs" using layer_okD(6)[OF assms(1)] by blast
  have "ref_mlp L D T xs = map (\<lambda>x. sum_list (map (\<lambda>i. m (i div T) (i mod T) x) [0..<D * T])) xs" for xs
    unfolding ref_mlp_def m concat_tab[OF assms(3)] using assms by (intro rowsum_maps) simp
  then show ?thesis by blast
qed

lemma length_ref_middle: "layer_ok D T L \<Longrightarrow> 0 < T \<Longrightarrow> length (ref_middle L T d xs) = length xs"
  by (simp add: ref_middle_def length_ref_attn norm_slice)

lemma length_ref_layer: "layer_ok D T L \<Longrightarrow> 0 < D \<Longrightarrow> 0 < T \<Longrightarrow> length (ref_layer L D T d xs) = length xs"
  using ref_mlp_map[of D T L] by (auto simp: ref_layer_def Let_def length_ref_middle norm_slice)

text \<open>The states of the ranks at a layer boundary: whole tokens, or normed tokens and a shard of the residual.\<close>

definition boundary :: "nat \<Rightarrow> nat \<Rightarrow> nat \<Rightarrow> 'a::comm_monoid_add layer option \<Rightarrow> (nat \<Rightarrow> 'a list) \<Rightarrow> 'a states" where
  "boundary D T k L y = tab D T (\<lambda>d t. case L of None \<Rightarrow> (y d, None)
     | Some L \<Rightarrow> (ly_input_norm L (y d), Some (shard k t (y d))))"

lemma scatter_attention:
  assumes "comm_ok c" "layer_ok D T L" "0 < T" "length (y :: 'a::comm_monoid_add list) = T * k"
  shows "cm_reduce_scatter c (map (\<lambda>t. ly_attn L d t (ly_input_norm L y)) [0..<T]) =
      map (\<lambda>t. shard k t (ref_attn L T d (ly_input_norm L y))) [0..<T]"
    and "cm_reduce_scatter c (map (\<lambda>t. if t = 0 then plus_rows (ly_attn L d t (ly_input_norm L y)) y
        else ly_attn L d t (ly_input_norm L y)) [0..<T]) = map (\<lambda>t. shard k t (ref_middle L T d y)) [0..<T]"
proof -
  let ?f = "\<lambda>t. ly_attn L d t (ly_input_norm L y)"
  have len: "length (?f t) = length y" for t using assms(2) by (simp add: layer_okD(5) norm_slice)
  show "cm_reduce_scatter c (map ?f [0..<T]) = map (\<lambda>t. shard k t (ref_attn L T d (ly_input_norm L y))) [0..<T]"
    using comm_scatter[OF assms(1), of "map ?f [0..<T]" k] assms(3,4) len by (auto simp: ref_attn_def)
  let ?g = "\<lambda>t. if t = 0 then plus_rows (?f t) y else ?f t"
  have rs: "rowsum (map ?g [0..<T]) = ref_middle L T d y"
    using rowsum_first[OF assms(3), of ?f y] len by (simp add: ref_middle_def ref_attn_def)
  show "cm_reduce_scatter c (map ?g [0..<T]) = map (\<lambda>t. shard k t (ref_middle L T d y)) [0..<T]"
  proof -
    have g: "length (?g t) = T * k" for t using len assms(4) by simp
    then have "length x = length (map ?g [0..<T]) * k" if "x \<in> set (map ?g [0..<T])" for x
      using that unfolding length_map length_upt diff_zero set_map by blast
    from comm_scatter[OF assms(1) _ this] show ?thesis using assms(3) rs by simp
  qed
qed

lemma rs_front_boundary:
  assumes "comm_ok c" "layer_ok D T L" "0 < T" "\<And>d. d < D \<Longrightarrow> length (y d :: 'a::comm_monoid_add list) = T * k"
  shows "rs_front c D T L is_first (boundary D T k (if is_first then None else Some L) y) =
    Inr (tab D T (\<lambda>d t. (ly_post_norm L (shard k t (ref_middle L T d (y d))), shard k t (ref_middle L T d (y d)))))"
proof (cases is_first)
  case True
  let ?g = "\<lambda>d t. if t = 0 then plus_rows (ly_attn L d t (ly_input_norm L (y d))) (y d) else ly_attn L d t (ly_input_norm L (y d))"
  have "each D T (\<lambda>d t. rs_attention L True d t (boundary D T k None y ! d ! t)) = Inr (tab D T (\<lambda>d t. (?g d t, y d)))"
    using assms(2) by (intro each_tab)
      (simp add: boundary_def rs_attention_def add_tensors_same layer_okD(5) norm_slice Let_def)
  moreover have "map (\<lambda>ranks. cm_reduce_scatter c (map fst ranks)) (tab D T (\<lambda>d t. (?g d t, y d))) =
      tab D T (\<lambda>d t. shard k t (ref_middle L T d (y d)))"
    using scatter_attention(2)[OF assms(1-3)] assms(4) by (simp add: tab_def comp_def)
  ultimately show ?thesis using True
    by (auto simp: rs_front_def norm_between_def Let_def intro!: tab_cong)
next
  case False
  let ?g = "\<lambda>d t. ly_attn L d t (ly_input_norm L (y d))"
  have "each D T (\<lambda>d t. rs_attention L False d t (boundary D T k (Some L) y ! d ! t)) =
      Inr (tab D T (\<lambda>d t. (?g d t, shard k t (y d))))"
    using assms(2) by (intro each_tab) (simp add: boundary_def rs_attention_def)
  moreover have "map (\<lambda>ranks. cm_reduce_scatter c (map fst ranks)) (tab D T (\<lambda>d t. (?g d t, shard k t (y d)))) =
      tab D T (\<lambda>d t. shard k t (ref_attn L T d (ly_input_norm L (y d))))"
    using scatter_attention(1)[OF assms(1-3)] assms(4) by (simp add: tab_def comp_def)
  moreover have "norm_between L False (shard k t (ref_attn L T d (ly_input_norm L (y d)))) (shard k t (y d)) =
      (ly_post_norm L (shard k t (ref_middle L T d (y d))), shard k t (ref_middle L T d (y d)))" for d t
    using assms(2,3) by (simp add: norm_between_def layer_okD(4) ref_middle_def slice_plus_rows length_slice
        length_ref_attn norm_slice(4))
  ultimately show ?thesis using False
    by (auto simp: rs_front_def Let_def intro!: tab_cong)
qed

text \<open>The variant without padding gathers the same.\<close>

lemma gather_v2_same:
  assumes "comm_ok c" "concat xs \<noteq> []"
  shows "tensor_model_parallel_all_gather_dp c (replicate (length xs) (map length xs)) (map Some xs) =
    bind_res (tensor_model_parallel_all_gather_op_v2 (map length xs) (map Some xs)) (\<lambda>g. Inr (replicate (length xs) g))"
  using gather_dp[OF assms] by (simp add: tensor_model_parallel_all_gather_op_v2_def comp_def)

lemma concat_concat_map: "concat (concat xss) = concat (map concat xss)"
  by (induction xss) auto

lemma concat_tab_shards:
  assumes "\<And>d. d < D \<Longrightarrow> length (a d) = T * k"
  shows "concat (concat (tab D T (\<lambda>d t. shard k t (a d)))) = concat (map a [0..<D])"
proof -
  have "map concat (tab D T (\<lambda>d t. shard k t (a d))) = map a [0..<D]"
    unfolding tab_def map_map comp_def using assms concat_shards by (intro map_cong) auto
  then show ?thesis by (simp only: concat_concat_map)
qed

lemma world_gather_equal:
  assumes "comm_ok c" "0 < T" "\<And>d. d < D \<Longrightarrow> counts d = Inr (s d)" "\<And>d. d < D \<Longrightarrow> num_tokens_equal (s d)"
    and "\<And>d t. d < D \<Longrightarrow> t < T \<Longrightarrow> length (f d t) = n"
  shows "world_gather c T counts (tab D T f) = Inr (replicate (D * T) (concat (concat (tab D T f))))"
proof -
  let ?s = "concat (map (replicate T) (map s [0..<D]))"
  have "map_res counts [0..<D] = Inr (map s [0..<D])" using assms(3) by (intro map_res_total) simp
  moreover have len: "length ?s = D * T" by (induction D) simp_all
  moreover have "tensor_model_parallel_all_gather_dp c ?s (map Some (concat (tab D T f))) =
      Inr (map (\<lambda>_. concat (concat (tab D T f))) ?s)"
  proof (rule gather_equal[OF assms(1), where n = n])
    show "x \<in> set (concat (tab D T f)) \<Longrightarrow> length x = n" for x using assms(5) unfolding set_concat_tab by blast
    show "z \<in> set ?s \<Longrightarrow> num_tokens_equal z" for z using assms(4) by auto
    show "length (concat (tab D T f)) = length ?s" using len assms(2) by simp
  qed
  ultimately show ?thesis by (simp add: world_gather_def map_replicate_const)
qed

lemma mlp_shards:
  assumes "comm_ok c" "layer_ok D T L" "0 < T" "d < D" "t < T"
    and "\<And>d. d < D \<Longrightarrow> length (a d :: 'a::comm_monoid_add list) = T * k"
  shows "cm_reduce_scatter c (concat (tab D T (\<lambda>d t. ly_mlp L d t (concat (map a [0..<D]))))) ! (d * T + t) =
    shard k t (ref_mlp L D T (a d))"
proof -
  let ?X = "concat (map a [0..<D])"
  let ?xs = "concat (tab D T (\<lambda>d t. ly_mlp L d t ?X))"
  have D: "0 < D" using assms(4) by simp
  obtain f where f: "\<And>xs. ref_mlp L D T xs = map f xs" using ref_mlp_map[OF assms(2) D assms(3)] by blast
  obtain m where m: "\<And>d t xs. ly_mlp L d t xs = map (m d t) xs" using layer_okD(6)[OF assms(2)] by blast
  have X: "length ?X = D * T * k"
    using assms(6) sum_list_same[of "[0..<D]" "length \<circ> a" "T * k"] by (simp add: length_concat comp_def)
  have len: "length ?xs = D * T" using assms(3) by simp
  have ne: "?xs \<noteq> []"
  proof
    assume "?xs = []"
    then show False using len D assms(3) by (metis less_numeral_extra(3) list.size(3) nat_0_less_mult_iff)
  qed
  have "length x = length ?xs * k" if "x \<in> set ?xs" for x
    using that X unfolding len set_concat_tab m by auto
  from comm_scatter[OF assms(1) ne this]
  have "cm_reduce_scatter c ?xs = map (\<lambda>i. shard k i (ref_mlp L D T ?X)) [0..<D * T]"
    unfolding len ref_mlp_def by simp
  then have "cm_reduce_scatter c ?xs ! (d * T + t) = shard k (d * T + t) (map f ?X)"
    using rank_less[OF assms(4,5)] by (simp add: f)
  also have "\<dots> = map f (shard k t (a d))" unfolding slice_map using world_shard[of D a T k d t] assms(4-6) by simp
  finally show ?thesis by (simp add: f slice_map)
qed

lemma rs_back_boundary:
  assumes "comm_ok c" "metadata_ok D T ns md" "\<And>d. d < D \<Longrightarrow> layer_use_reduce_scatter (md ! d)"
    and "\<And>d. d < D \<Longrightarrow> length (a d :: 'a::comm_monoid_add list) = T * k" "\<And>d. d < D \<Longrightarrow> length (q d) = T * k"
    and "\<And>L. nl = Some L \<Longrightarrow> layer_ok D T L"
  shows "rs_back c D T md (nl = None) (map_option ly_fused_input_norm nl) (tab D T (\<lambda>d t. shard k t (q d)))
      (tab D T (\<lambda>d t. shard k t (a d))) = Inr (boundary D T k nl (\<lambda>d. plus_rows (q d) (a d)))"
proof -
  let ?y = "\<lambda>d. plus_rows (q d) (a d)"
  let ?h = "\<lambda>d t. case nl of None \<Rightarrow> shard k t (?y d) | Some L \<Rightarrow> shard k t (ly_input_norm L (?y d))"
  let ?r = "\<lambda>d t. case nl of None \<Rightarrow> None | Some L \<Rightarrow> Some (shard k t (?y d))"
  have ly: "length (?y d) = T * k" if "d < D" for d using assms(4,5) that by simp
  have "each D T (\<lambda>d t. rs_finish (nl = None) (map_option ly_fused_input_norm nl)
      (tab D T (\<lambda>d t. shard k t (q d)) ! d ! t) (tab D T (\<lambda>d t. shard k t (a d)) ! d ! t)) = Inr (tab D T (\<lambda>d t. (?h d t, ?r d t)))"
  proof (rule each_tab)
    fix d t assume dt: "d < D" "t < T"
    have len: "length (shard k t (q d)) = length (shard k t (a d))" using assms(4,5) dt by (simp add: length_slice)
    show "rs_finish (nl = None) (map_option ly_fused_input_norm nl) (tab D T (\<lambda>d t. shard k t (q d)) ! d ! t)
        (tab D T (\<lambda>d t. shard k t (a d)) ! d ! t) = Inr (?h d t, ?r d t)"
    proof (cases nl)
      case None
      then show ?thesis using dt add_tensors_same[OF len] by (simp add: rs_finish_def slice_plus_rows)
    next
      case (Some L)
      then show ?thesis using dt layer_okD(3)[OF assms(6)[OF Some] len]
        norm_slice(2)[OF assms(6)[OF Some], of "?y d", symmetric]
        by (simp add: rs_finish_def slice_plus_rows)
    qed
  qed
  moreover have "tp_gather c T (\<lambda>d. some_res (moe_token_split_list_reduce_scatter (md ! d))) (tab D T ?h) =
      Inr (map (\<lambda>d. map (\<lambda>_. concat (map (?h d) [0..<T])) [0..<T]) [0..<D])"
    unfolding tp_gather_def length_tab
  proof (rule map_res_total)
    fix d assume "d \<in> set [0..<D]"
    then have d: "d < D" by simp
    have len: "length (?h d t) = k" if "t < T" for t
    proof (cases nl)
      case None
      then show ?thesis using length_shard[OF ly[OF d] that] by (simp only: option.case)
    next
      case (Some L)
      have "length (ly_input_norm L (?y d)) = T * k" using ly[OF d] norm_slice(4)[OF assms(6)[OF Some]] by simp
      then show ?thesis using length_shard[of "ly_input_norm L (?y d)" T k t] that Some by (simp only: option.case)
    qed
    show "bind_res (some_res (moe_token_split_list_reduce_scatter (md ! d))) (\<lambda>ns.
        tensor_model_parallel_all_gather_dp c (replicate T ns) (map Some (tab D T ?h ! d))) =
      Inr (map (\<lambda>_. concat (map (?h d) [0..<T])) [0..<T])"
    proof -
      have "x \<in> set (map (?h d) [0..<T]) \<Longrightarrow> length x = k" for x using len by auto
      from gather_equal[where xs = "map (?h d) [0..<T]", OF assms(1) this, where splits = "replicate T (take T (replicate (D * T) (hd ns div T)))"]
      show ?thesis using metadata_rs[OF assms(2) d assms(3)[OF d]] d
        by (simp add: some_res_def map_replicate_const)
    qed
  qed
  moreover have "concat (map (?h d) [0..<T]) = (case nl of None \<Rightarrow> ?y d | Some L \<Rightarrow> ly_input_norm L (?y d))" if "d < D" for d
  proof (cases nl)
    case None
    then show ?thesis using concat_shards[OF ly[OF that]] by (simp only: option.case)
  next
    case (Some L)
    have "length (ly_input_norm L (?y d)) = T * k" using ly[OF that] norm_slice(4)[OF assms(6)[OF Some]] by simp
    from concat_shards[OF this] show ?thesis using Some by (simp only: option.case)
  qed
  ultimately show ?thesis
    by (simp add: rs_back_def map_tab boundary_def) (auto intro!: tab_cong split: option.splits)
qed

text \<open>The two forward functions with reduce scatter compute the layer.\<close>

lemma rs_layers:
  assumes "comm_ok c" "metadata_ok D T ns md" "\<And>d. d < D \<Longrightarrow> layer_use_reduce_scatter (md ! d)" "0 < D" "0 < T"
    and "layer_ok D T L" "\<And>L. nl = Some L \<Longrightarrow> layer_ok D T L"
    and "\<And>d. d < D \<Longrightarrow> length (y d :: 'a::comm_monoid_add list) = T * k"
    and w_def: "w = boundary D T k (if is_first then None else Some L) y"
  shows "dp_forward_layer_rs_ag c D T md L is_first (nl = None) (map_option ly_fused_input_norm nl) w =
      Inr (boundary D T k nl (\<lambda>d. ref_layer L D T d (y d)))"
    and "dp_forward_layer_all2all c D T md L is_first (nl = None) (map_option ly_fused_input_norm nl) w =
      Inr (boundary D T k nl (\<lambda>d. ref_layer L D T d (y d)))"
proof -
  let ?a = "\<lambda>d. ref_middle L T d (y d)"
  let ?n = "\<lambda>d. ly_post_norm L (?a d)"
  let ?q = "\<lambda>d. ref_mlp L D T (?n d)"
  let ?w1 = "tab D T (\<lambda>d t. (shard k t (?n d), shard k t (?a d)))"
  have front: "rs_front c D T L is_first w = Inr ?w1"
    unfolding w_def using rs_front_boundary[where is_first = is_first, OF assms(1,6,5,8)] norm_slice(1)[OF assms(6)] by simp
  have len: "length (?a d) = T * k" "length (?n d) = T * k" "length (?q d) = T * k" if "d < D" for d
    using assms(4-6,8) that ref_mlp_map[OF assms(6,4,5)] by (auto simp: length_ref_middle norm_slice(3))
  note bk = rs_back_boundary[where a = ?a and q = ?q, OF assms(1-3) len(1,3) assms(7), unfolded ref_layer_def[symmetric]]
  have lay: "plus_rows (?q d) (?a d) = ref_layer L D T d (y d)" for d by (simp add: ref_layer_def Let_def)
  have "world_gather c T (\<lambda>d. some_res (attn_token_split_list_reduce_scatter (md ! d))) (map (map fst) ?w1) =
      Inr (replicate (D * T) (concat (concat (tab D T (\<lambda>d t. shard k t (?n d))))))"
    unfolding map_tab fst_conv
  proof (rule world_gather_equal[OF assms(1,5), where n = k])
    fix d assume d: "d < D"
    show "some_res (attn_token_split_list_reduce_scatter (md ! d)) = Inr (replicate (D * T) (hd ns div T))"
      using metadata_rs[OF assms(2) d assms(3)[OF d]] by (simp add: some_res_def)
    show "t < T \<Longrightarrow> length (shard k t (?n d)) = k" for t by (rule length_shard[OF len(2)[OF d]])
  qed simp
  then have "dp_forward_layer_rs_ag c D T md L is_first (nl = None) (map_option ly_fused_input_norm nl) w =
      rs_back c D T md (nl = None) (map_option ly_fused_input_norm nl)
        (tab D T (\<lambda>d t. cm_reduce_scatter c (concat (tab D T (\<lambda>d t. ly_mlp L d t
           (replicate (D * T) (concat (concat (tab D T (\<lambda>d t. shard k t (?n d))))) ! (d * T + t))))) ! (d * T + t)))
        (tab D T (\<lambda>d t. shard k t (?a d)))"
    by (simp add: dp_forward_layer_rs_ag_def front map_tab Let_def)
  also have "tab D T (\<lambda>d t. ly_mlp L d t (replicate (D * T) (concat (concat (tab D T (\<lambda>d t. shard k t (?n d))))) ! (d * T + t)))
      = tab D T (\<lambda>d t. ly_mlp L d t (concat (map ?n [0..<D])))"
  proof (rule tab_cong)
    have cc: "concat (concat (tab D T (\<lambda>d t. shard k t (?n d)))) = concat (map ?n [0..<D])"
      by (rule concat_tab_shards) (rule len(2))
    show "ly_mlp L d t (replicate (D * T) (concat (concat (tab D T (\<lambda>d t. shard k t (?n d))))) ! (d * T + t)) =
        ly_mlp L d t (concat (map ?n [0..<D]))" if "d < D" "t < T" for d t
      unfolding nth_replicate[OF rank_less[OF that]] cc ..
  qed
  also have "tab D T (\<lambda>d t. cm_reduce_scatter c (concat (tab D T (\<lambda>d t. ly_mlp L d t (concat (map ?n [0..<D]))))) ! (d * T + t))
      = tab D T (\<lambda>d t. shard k t (?q d))"
    using len(2) by (intro tab_cong mlp_shards[OF assms(1,6,5)])
  also note bk
  finally show "dp_forward_layer_rs_ag c D T md L is_first (nl = None) (map_option ly_fused_input_norm nl) w =
      Inr (boundary D T k nl (\<lambda>d. ref_layer L D T d (y d)))" unfolding lay .
  have "tab D T (\<lambda>d t. ly_mlp_all2all L d t (fst (?w1 ! d ! t))) = tab D T (\<lambda>d t. shard k t (?q d))"
    using layer_okD(7)[OF assms(6)] ref_mlp_map[OF assms(6,4,5)] by (auto intro!: tab_cong simp: slice_map)
  then show "dp_forward_layer_all2all c D T md L is_first (nl = None) (map_option ly_fused_input_norm nl) w =
      Inr (boundary D T k nl (\<lambda>d. ref_layer L D T d (y d)))"
    using bk by (simp add: dp_forward_layer_all2all_def front map_tab lay)
qed

section \<open>The common layer\<close>

lemma slice_group:
  assumes "\<And>d. d < D \<Longrightarrow> length (a d) = ns ! d" "length ns = D" "d < D"
  shows "slice (concat (map a [0..<D])) (sum_list (take d ns)) (sum_list (take d ns) + ns ! d) = a d"
proof -
  have "map length (map a [0..<D]) = ns" using assms(1,2) by (intro nth_equalityI) simp_all
  then have "map length (take d (map a [0..<D])) = take d ns" by (metis take_map)
  then show ?thesis using slice_block[of d "map a [0..<D]"] assms(1,3) by simp
qed

lemma rowsum_padded:
  assumes "0 < T" "\<And>t. t < T \<Longrightarrow> length (f t :: 'a::comm_monoid_add list) = n"
  shows "rowsum (map (\<lambda>t. f t @ replicate j 0) [0..<T]) = rowsum (map f [0..<T]) @ replicate j 0"
proof -
  have hd: "hd (map g [0..<T]) = g 0" for g :: "nat \<Rightarrow> 'a list" using assms(1) by (simp add: hd_map)
  show ?thesis
  proof (rule nth_equalityI)
    show "length (rowsum (map (\<lambda>t. f t @ replicate j 0) [0..<T])) = length (rowsum (map f [0..<T]) @ replicate j 0)"
      using hd by simp
    fix i assume "i < length (rowsum (map (\<lambda>t. f t @ replicate j 0) [0..<T]))"
    then have i: "i < n + j" using assms hd by simp
    have l: "length (rowsum (map f [0..<T])) = n" using assms hd by simp
    have "rowsum (map (\<lambda>t. f t @ replicate j 0) [0..<T]) ! i =
        sum_list (map (\<lambda>t. if i < n then f t ! i else 0) [0..<T])"
      unfolding rowsum_def using i assms hd
      by (auto simp: nth_append comp_def intro!: arg_cong[of _ _ sum_list])
    then show "rowsum (map (\<lambda>t. f t @ replicate j 0) [0..<T]) ! i = (rowsum (map f [0..<T]) @ replicate j 0) ! i"
      using i l assms(1,2) hd by (cases "i < n") (simp_all add: nth_append rowsum_def comp_def)
  qed
qed

lemma pad_rows_nat: "pad_rows (int n) xs = xs @ replicate n 0"
  by (simp add: pad_rows_def)

lemma post_attention:
  assumes "comm_ok c" "metadata_ok D T ns md" "0 < D" "0 < T" "0 < sum_list ns"
    and "\<And>d t. d < D \<Longrightarrow> t < T \<Longrightarrow> length (f d t :: 'a::comm_monoid_add list) = ns ! d"
    and "\<And>d. d < D \<Longrightarrow> a d = rowsum (map (f d) [0..<T])"
  shows "process_post_attention_communication c D T md None (tab D T f) = Inr (tab D T (\<lambda>_ _. concat (map a [0..<D])))"
proof -
  let ?X = "concat (map a [0..<D])"
  have ns: "length ns = D" "length md = D" using assms(2) by (simp_all add: metadata_ok_def)
  have la: "length (a d) = ns ! d" if "d < D" for d using assms(4,6,7) that by (simp add: hd_map)
  have mla: "map length (map a [0..<D]) = ns" using la ns(1) by (intro nth_equalityI) simp_all
  have X: "?X \<noteq> []"
  proof
    assume "?X = []"
    moreover have "length ?X = sum_list ns" unfolding length_concat mla ..
    ultimately show False using assms(5) by (metis less_numeral_extra(3) list.size(3))
  qed
  have md: "hd md = md ! 0" using ns assms(3) by (cases md) auto
  have uni: "\<forall>m \<in> set md. (prefill_pad_to_token_num m = -1) = (prefill_pad_to_token_num (hd md) = -1)"
    unfolding md using metadata_modes(2)[OF assms(2) _ assms(3)] ns by (metis in_set_conv_nth)
  show ?thesis
  proof (cases "prefill_pad_to_token_num (hd md) \<noteq> -1")
    case True
    obtain q where q: "prefill_pad_to_token_num (md ! 0) = int (T * q)" "\<forall>n \<in> set ns. n \<le> T * q"
      using metadata_pad[OF assms(2,3)] True md by auto
    have pd: "prefill_pad_to_token_num (md ! d) = int (T * q)" if "d < D" for d
      using metadata_modes(2)[OF assms(2) that assms(3)] q(1) by simp
    have sp: "attn_token_split_list_reduce_scatter (md ! d) = Some (replicate (D * T) (T * q div T))" if "d < D" for d
    proof -
      have "prefill_pad_to_token_num (md ! d) \<noteq> -1" unfolding pd[OF that] by (simp del: of_nat_mult)
      from metadata_pad[OF assms(2) that this] pd[OF that] assms(4) show ?thesis
        by (auto simp del: of_nat_mult)
    qed
    have le: "ns ! d \<le> T * q" if "d < D" for d using q(2) ns that by simp
    let ?p = "\<lambda>d. replicate (T * q - ns ! d) 0"
    let ?w1 = "tab D T (\<lambda>d t. f d t @ ?p d)"
    have w1: "tab D T (\<lambda>d t. let pad_num = prefill_pad_to_token_num (md ! d) - int (token_num (md ! d))
        in if pad_num \<noteq> 0 then pad_rows pad_num (tab D T f ! d ! t) else tab D T f ! d ! t) = ?w1"
    proof (rule tab_cong)
      fix d t assume d: "d < D" "t < T"
      have eq: "int (T * q) - int (ns ! d) = int (T * q - ns ! d)" by (rule of_nat_diff[OF le[OF d(1)], symmetric])
      show "(let pad_num = prefill_pad_to_token_num (md ! d) - int (token_num (md ! d))
          in if pad_num \<noteq> 0 then pad_rows pad_num (tab D T f ! d ! t) else tab D T f ! d ! t) = f d t @ ?p d"
        unfolding pd[OF d(1)] metadata_fields(1)[OF assms(2) d(1)] nth_tab[OF d] eq Let_def pad_rows_nat
        by simp
    qed
    have w2: "map (cm_reduce_scatter c) ?w1 = tab D T (\<lambda>d t. shard q t (a d @ ?p d))"
    proof (rule nth_equalityI)
      fix d assume "d < length (map (cm_reduce_scatter c) ?w1)"
      then have d: "d < D" by simp
      have "length x = length (map (\<lambda>t. f d t @ ?p d) [0..<T]) * q" if "x \<in> set (map (\<lambda>t. f d t @ ?p d) [0..<T])" for x
        using that assms(6) d le[OF d] by auto
      from comm_scatter[OF assms(1) _ this] show "map (cm_reduce_scatter c) ?w1 ! d = tab D T (\<lambda>d t. shard q t (a d @ ?p d)) ! d"
        using d assms(4,7) rowsum_padded[OF assms(4), of "f d" "ns ! d"] assms(6) by simp
    qed simp
    have len: "length (a d @ ?p d) = T * q" if "d < D" for d using la le that by simp
    have "world_gather c T (\<lambda>d. some_res (attn_token_split_list_reduce_scatter (md ! d))) (tab D T (\<lambda>d t. shard q t (a d @ ?p d))) =
        Inr (replicate (D * T) (concat (concat (tab D T (\<lambda>d t. shard q t (a d @ ?p d))))))"
    proof (rule world_gather_equal[OF assms(1,4), where n = q])
      fix d assume d: "d < D"
      show "some_res (attn_token_split_list_reduce_scatter (md ! d)) = Inr (replicate (D * T) (T * q div T))"
        unfolding sp[OF d] some_res_def by simp
      show "t < T \<Longrightarrow> length (shard q t (a d @ ?p d)) = q" for t by (rule length_shard[OF len[OF d]])
    qed simp
    also have "concat (concat (tab D T (\<lambda>d t. shard q t (a d @ ?p d)))) = concat (map (\<lambda>d. a d @ ?p d) [0..<D])"
      by (rule concat_tab_shards) (rule len)
    finally have g: "world_gather c T (\<lambda>d. some_res (attn_token_split_list_reduce_scatter (md ! d))) (tab D T (\<lambda>d t. shard q t (a d @ ?p d))) =
        Inr (replicate (D * T) (concat (map (\<lambda>d. a d @ ?p d) [0..<D])))" .
    have pads: "map (\<lambda>d. a d @ ?p d) [0..<D] = map (\<lambda>x. x @ replicate (T * q - length x) 0) (map a [0..<D])"
      using la by simp
    have "remove_paddings_after_all_gather (concat (map (\<lambda>d. a d @ ?p d) [0..<D])) (T * q) ns = Inr ?X"
    proof -
      have "length x + length (replicate (T * q - length x) (0 :: 'a)) = T * q" if "x \<in> set (map a [0..<D])" for x
        using that le la by auto
      from remove_paddings[OF this X] show ?thesis unfolding pads mla .
    qed
    then have "each D T (\<lambda>d t. remove_paddings_after_all_gather (replicate (D * T) (concat (map (\<lambda>d. a d @ ?p d) [0..<D])) ! (d * T + t))
        (nat (prefill_pad_to_token_num (md ! d))) (token_split_list (md ! d))) = Inr (tab D T (\<lambda>_ _. ?X))"
      using pd metadata_fields(3)[OF assms(2)] rank_less by (intro each_tab) (simp add: nat_mult_distrib)
    then show ?thesis using True uni
      unfolding process_post_attention_communication_def option.case Let_def w1[unfolded Let_def] w2
      by (simp only: g bind_res_simps if_not_P not_not simp_thms if_True)
  next
    case False
    have w1: "tab D T (\<lambda>d t. cm_all_reduce c (tab D T f ! d)) = tab D T (\<lambda>d _. a d)"
    proof (rule tab_cong)
      fix d t assume d: "d < D" "t < T"
      show "cm_all_reduce c (tab D T f ! d) = a d"
      proof -
        have "length x = ns ! d" if "x \<in> set (map (f d) [0..<T])" for x using that assms(6) d by auto
        from comm_reduce[where xs = "map (f d) [0..<T]", OF assms(1) _ this] show ?thesis using d assms(7) by simp
      qed
    qed
    have mds: "map token_split_list md = replicate (length (map a [0..<D])) (map length (map a [0..<D]))"
      unfolding mla using metadata_fields(3)[OF assms(2)] ns by (intro nth_equalityI) simp_all
    have "tensor_model_parallel_all_gather_dp c (map token_split_list md) (map (\<lambda>d. Some (tab D T (\<lambda>d _. a d) ! d ! t)) [0..<D]) =
        Inr (replicate D ?X)" if "t < T" for t
    proof -
      have "map (\<lambda>d. Some (tab D T (\<lambda>d _. a d) ! d ! t)) [0..<D] = map Some (map a [0..<D])" using that by simp
      then have "map (\<lambda>d. Some (tab D T (\<lambda>d _. a d) ! d ! t)) [0..<D] = map Some (map a [0..<D])" by simp
      moreover have "length (map a [0..<D]) = D" by simp
      ultimately show ?thesis unfolding mds using gather_dp[OF assms(1) X] by (simp only:)
    qed
    then have "map_res (\<lambda>t. tensor_model_parallel_all_gather_dp c (map token_split_list md)
        (map (\<lambda>d. Some (tab D T (\<lambda>d _. a d) ! d ! t)) [0..<D])) [0..<T] = Inr (map (\<lambda>_. replicate D ?X) [0..<T])"
      by (intro map_res_total) simp
    moreover have "tab D T (\<lambda>d t. map (\<lambda>_. replicate D ?X) [0..<T] ! t ! d) = tab D T (\<lambda>_ _. ?X)" by (intro tab_cong) simp
    ultimately show ?thesis using False uni
      unfolding process_post_attention_communication_def option.case Let_def w1
      by (simp only: bind_res_simps not_not simp_thms if_True if_False) simp
  qed
qed

lemma common_layer:
  assumes "comm_ok c" "metadata_ok D T ns md" "0 < D" "0 < T" "0 < sum_list ns" "layer_ok D T L"
    and y: "\<And>d. d < D \<Longrightarrow> length (y d :: 'a::comm_monoid_add list) = ns ! d"
    and r: "\<And>d. d < D \<Longrightarrow> r d = None \<or> r d = Some (y d)"
  shows "dp_forward_layer_common c D T md L (tab D T (\<lambda>d t. (y d, r d))) =
    Inr (tab D T (\<lambda>d t. (ref_layer L D T d (y d), Some (ref_layer L D T d (y d)))))"
proof -
  let ?f = "\<lambda>d t. if t = 0 then plus_rows (ly_attn L d t (ly_input_norm L (y d))) (y d) else ly_attn L d t (ly_input_norm L (y d))"
  let ?a = "\<lambda>d. ref_middle L T d (y d)"
  let ?X = "concat (map ?a [0..<D])"
  have ns: "length ns = D" using assms(2) by (simp add: metadata_ok_def)
  have len: "length (ly_attn L d t (ly_input_norm L (y d))) = length (y d)" for d t
    using assms(6) by (simp add: layer_okD(5) norm_slice)
  have w1: "each D T (\<lambda>d t. common_attention L d t (tab D T (\<lambda>d t. (y d, r d)) ! d ! t)) = Inr (tab D T ?f)"
    using r len by (intro each_tab) (force simp: common_attention_def add_tensors_same Let_def)
  have a: "?a d = rowsum (map (?f d) [0..<T])" for d
    using rowsum_first[OF assms(4), of "\<lambda>t. ly_attn L d t (ly_input_norm L (y d))" "y d"] len
    by (simp add: ref_middle_def ref_attn_def)
  have w2: "process_post_attention_communication c D T md None (tab D T ?f) = Inr (tab D T (\<lambda>_ _. ?X))"
    using len y a by (intro post_attention[OF assms(1-5)]) auto
  obtain g where g: "\<And>xs. ref_mlp L D T xs = map g xs" using ref_mlp_map[OF assms(6,3,4)] by blast
  obtain m where m: "\<And>d t xs. ly_mlp L d t xs = map (m d t) xs" using layer_okD(6)[OF assms(6)] by blast
  have tb: "tab D T (\<lambda>d t. ly_mlp L d t (ly_post_norm L (tab D T (\<lambda>_ _. ?X) ! d ! t))) =
      tab D T (\<lambda>d t. ly_mlp L d t (ly_post_norm L ?X))" by (intro tab_cong) simp
  have out: "cm_all_reduce c (concat (tab D T (\<lambda>d t. ly_mlp L d t (ly_post_norm L ?X)))) = ref_mlp L D T (ly_post_norm L ?X)"
    unfolding ref_mlp_def
  proof (rule comm_reduce[OF assms(1), where n = "length ?X"])
    show "concat (tab D T (\<lambda>d t. ly_mlp L d t (ly_post_norm L ?X))) \<noteq> []"
      using length_concat_tab[OF assms(4), of D "\<lambda>d t. ly_mlp L d t (ly_post_norm L ?X)"] assms(3,4)
      by (metis less_numeral_extra(3) list.size(3) nat_0_less_mult_iff)
    show "x \<in> set (concat (tab D T (\<lambda>d t. ly_mlp L d t (ly_post_norm L ?X)))) \<Longrightarrow> length x = length ?X" for x
      unfolding set_concat_tab m using norm_slice(3)[OF assms(6)] by auto
  qed
  have la: "length (?a d) = ns ! d" if "d < D" for d using that assms(4,6) y by (simp add: length_ref_middle)
  have own: "own_rows (md ! d) ?X = ?a d" if "d < D" for d
    unfolding own_rows_def metadata_fields[OF assms(2) that] by (rule slice_group[where a = ?a, OF la ns that])
  have ownm: "own_rows (md ! d) (ref_mlp L D T (ly_post_norm L ?X)) = ref_mlp L D T (ly_post_norm L (?a d))" if "d < D" for d
    using own[OF that] unfolding own_rows_def g slice_map by (metis norm_slice(1)[OF assms(6)])
  have "add_tensors (ref_mlp L D T (ly_post_norm L (?a d))) (?a d) = Inr (ref_layer L D T d (y d))" for d
    using g norm_slice(3)[OF assms(6)] by (simp add: add_tensors_same ref_layer_def Let_def)
  then have "each D T (\<lambda>d t. bind_res (add_tensors (own_rows (md ! d) (ref_mlp L D T (ly_post_norm L ?X)))
      (own_rows (md ! d) (tab D T (\<lambda>_ _. ?X) ! d ! t))) (\<lambda>h. Inr (h, Some h))) =
    Inr (tab D T (\<lambda>d t. (ref_layer L D T d (y d), Some (ref_layer L D T d (y d)))))"
    using own ownm by (intro each_tab) simp
  then show ?thesis by (simp only: dp_forward_layer_common_def w1 w2 bind_res_simps Let_def tb out)
qed

section \<open>The forward of the model\<close>

definition ref_forward :: "'a::comm_monoid_add layer list \<Rightarrow> nat \<Rightarrow> nat \<Rightarrow> nat \<Rightarrow> 'a list \<Rightarrow> 'a list" where
  "ref_forward layers D T d xs = fold (\<lambda>L. ref_layer L D T d) layers xs"

lemma ref_forward_snoc:
  "i < length layers \<Longrightarrow> s \<le> i \<Longrightarrow>
    ref_forward (slice layers s (Suc i)) D T d xs = ref_layer (layers ! i) D T d (ref_forward (slice layers s i) D T d xs)"
  by (simp add: ref_forward_def slice_def take_Suc_conv_app_nth)

lemma length_ref_forward:
  assumes "\<And>L. L \<in> set layers \<Longrightarrow> layer_ok D T L" "0 < D" "0 < T"
  shows "length (ref_forward layers D T d xs) = length xs"
  using assms(1) by (induction layers arbitrary: xs) (simp_all add: ref_forward_def length_ref_layer[OF _ assms(2,3)])

lemma set_slice: "x \<in> set (slice xs a b) \<Longrightarrow> x \<in> set xs"
  unfolding slice_def by (meson in_set_dropD in_set_takeD)

text \<open>The states of all ranks in front of layer \<open>i\<close>.\<close>

definition states_at ::
  "nat \<Rightarrow> nat \<Rightarrow> bool \<Rightarrow> nat \<Rightarrow> 'a::comm_monoid_add layer list \<Rightarrow> nat \<Rightarrow> nat \<Rightarrow> (nat \<Rightarrow> 'a list) \<Rightarrow> nat \<Rightarrow> 'a states" where
  "states_at D T rs k layers s e x i =
     (let y = (\<lambda>d. ref_forward (slice layers s i) D T d (x d))
      in if rs then boundary D T k (if i = s \<or> i = e then None else Some (layers ! i)) y
         else tab D T (\<lambda>d t. (y d, if i = s then None else Some (y d))))"

lemma layer_step_states:
  assumes "comm_ok c" "metadata_ok D T ns md" "0 < D" "0 < T" "0 < sum_list ns"
    and "\<And>L. L \<in> set layers \<Longrightarrow> layer_ok D T L" "\<And>d. d < D \<Longrightarrow> decode_only ! d = dec"
    and "\<And>d. d < D \<Longrightarrow> length (x d :: 'a::comm_monoid_add list) = ns ! d"
    and i: "s \<le> i" "i < e" "e \<le> length layers"
  defines "rs \<equiv> layer_use_reduce_scatter (md ! 0)"
  shows "layer_step c D T md decode_only layers s e i (states_at D T rs (hd ns div T) layers s e x i) =
    Inr (states_at D T rs (hd ns div T) layers s e x (Suc i))"
proof -
  let ?L = "layers ! i" and ?k = "hd ns div T"
  let ?nl = "if i = e - 1 then None else Some (layers ! Suc i)"
  let ?y = "\<lambda>d. ref_forward (slice layers s i) D T d (x d)"
  have L: "layer_ok D T ?L" using assms(6) i by simp
  have nl: "layer_ok D T L" if "?nl = Some L" for L using that assms(6) i by (auto split: if_splits)
  have y: "length (?y d) = ns ! d" if "d < D" for d
    using assms(8)[OF that] length_ref_forward[of "slice layers s i", OF assms(6)[OF set_slice] assms(3,4)] by simp
  have y': "ref_layer ?L D T d (?y d) = ref_forward (slice layers s (Suc i)) D T d (x d)" for d
    using ref_forward_snoc[of i layers s D T d "x d"] i by simp
  have rsd: "layer_use_reduce_scatter (md ! d) = rs" if "d < D" for d
    unfolding rs_def by (rule metadata_modes(1)[OF assms(2) that assms(3)])
  let ?p = "layer_path (md ! 0) ?L dec"
  have p: "map (\<lambda>d. layer_path (md ! d) ?L (decode_only ! d)) [0..<D] = replicate D ?p"
  proof (rule nth_equalityI)
    fix d assume "d < length (map (\<lambda>d. layer_path (md ! d) ?L (decode_only ! d)) [0..<D])"
    then have d: "d < D" by simp
    show "map (\<lambda>d. layer_path (md ! d) ?L (decode_only ! d)) [0..<D] ! d = replicate D ?p ! d"
      using d rsd[OF d] rsd[OF assms(3)] assms(7)[OF d] by (simp add: layer_path_def)
  qed simp
  have next_norm: "(if i = e - 1 then Inr None else bind_res (nth_res layers (i + 1)) (\<lambda>L. Inr (Some (ly_fused_input_norm L))))
      = Inr (map_option ly_fused_input_norm ?nl)" using i by simp
  have last: "(i = e - 1) = (?nl = None)" by simp
  have step: "layer_step c D T md decode_only layers s e i w =
      (case ?p of RsAg \<Rightarrow> dp_forward_layer_rs_ag c D T md ?L (i = s) (?nl = None) (map_option ly_fused_input_norm ?nl) w
       | All2All \<Rightarrow> dp_forward_layer_all2all c D T md ?L (i = s) (?nl = None) (map_option ly_fused_input_norm ?nl) w
       | Common \<Rightarrow> dp_forward_layer_common c D T md ?L w)" for w
  proof -
    have il: "i < length layers" using i by simp
    have "hd (replicate D ?p) = ?p" "list_all (\<lambda>p. p = ?p) (replicate D ?p)" using assms(3) by (simp_all add: list_all_iff)
    then show ?thesis
      unfolding layer_step_def Let_def next_norm bind_res_simps nth_res_in[OF il] dp_layer_forward_def p last[symmetric]
      by (simp only: not_True_eq_False if_False)
  qed
  show ?thesis
  proof (cases rs)
    case True
    have k: "length (?y d) = T * ?k" if "d < D" for d
      using y[OF that] metadata_rs[OF assms(2) that] rsd[OF that] True by simp
    have r: "\<And>d. d < D \<Longrightarrow> layer_use_reduce_scatter (md ! d)" using rsd True by simp
    note both = rs_layers[where y = ?y and nl = ?nl and is_first = "i = s", OF assms(1,2) r assms(3,4) L nl k refl, unfolded y']
    have "states_at D T rs ?k layers s e x i = boundary D T ?k (if i = s then None else Some ?L) ?y"
      using True i by (simp add: states_at_def)
    moreover have "states_at D T rs ?k layers s e x (Suc i) =
        boundary D T ?k ?nl (\<lambda>d. ref_forward (slice layers s (Suc i)) D T d (x d))"
      using True i by (auto simp: states_at_def)
    moreover have "?p = RsAg \<or> ?p = All2All" using True rsd[OF assms(3)] by (simp add: layer_path_def)
    ultimately show ?thesis using both unfolding step by auto
  next
    case False
    have "states_at D T rs ?k layers s e x i = tab D T (\<lambda>d t. (?y d, if i = s then None else Some (?y d)))"
      using False by (simp add: states_at_def)
    moreover have "states_at D T rs ?k layers s e x (Suc i) =
        tab D T (\<lambda>d t. (ref_layer ?L D T d (?y d), Some (ref_layer ?L D T d (?y d))))"
      using False i by (auto simp: states_at_def y')
    moreover have "?p = Common" using False rsd[OF assms(3)] by (simp add: layer_path_def)
    ultimately show ?thesis
      using common_layer[OF assms(1-5) L y, of "\<lambda>d. if i = s then None else Some (?y d)"] unfolding step by simp
  qed
qed

lemma layers_states:
  assumes "comm_ok c" "metadata_ok D T ns md" "0 < D" "0 < T" "0 < sum_list ns"
    and "\<And>L. L \<in> set layers \<Longrightarrow> layer_ok D T L" "\<And>d. d < D \<Longrightarrow> decode_only ! d = dec"
    and "\<And>d. d < D \<Longrightarrow> length (x d :: 'a::comm_monoid_add list) = ns ! d"
    and "s \<le> i" "i \<le> e" "e \<le> length layers"
  defines "rs \<equiv> layer_use_reduce_scatter (md ! 0)"
  shows "fold_res (layer_step c D T md decode_only layers s e) [s..<i] (states_at D T rs (hd ns div T) layers s e x s) =
    Inr (states_at D T rs (hd ns div T) layers s e x i)"
  using assms(9,10)
proof (induction i rule: dec_induct)
  case (step i)
  then show ?case
    using layer_step_states[where s = s and i = i and e = e, OF assms(1-8)] assms(11) unfolding rs_def
    by (simp add: fold_res_append)
qed simp

text \<open>
  C2. The forward pass under data parallelism refines the plain transformer. Every rank holds the
  tokens of its group; the metadata are those the ranks construct from the exchanged token counts;
  the collectives and the modules of the layers do what they document. Then the run of all layers on
  all ranks, whichever of the three layer functions the counts select, ends without an error and
  without ranks waiting for each other, and every rank returns the final norm of the layers applied
  to the tokens of its own group.
\<close>
theorem dp_model_forward_refines:
  assumes "comm_ok c" "metadata_ok D T ns md" "0 < D" "0 < T" "0 < sum_list ns"
    and "\<forall>L \<in> set layers. layer_ok D T L" "\<forall>d < D. decode_only ! d = dec"
    and "\<forall>d < D. length (x d :: 'a::comm_monoid_add list) = ns ! d" "s \<le> e" "e \<le> length layers"
  shows "dp_model_forward c D T md decode_only True True (\<lambda>d t. x d) None model_norm layers s e =
    Inr (Hidden (tab D T (\<lambda>d t. model_norm (ref_forward (slice layers s e) D T d (x d)))))"
proof -
  let ?rs = "layer_use_reduce_scatter (md ! 0)"
  have "states_at D T ?rs (hd ns div T) layers s e x s = tab D T (\<lambda>d t. (x d, None))"
    by (simp add: states_at_def boundary_def ref_forward_def)
  then have "fold_res (layer_step c D T md decode_only layers s e) [s..<e] (tab D T (\<lambda>d t. (x d, None))) =
      Inr (states_at D T ?rs (hd ns div T) layers s e x e)"
    using layers_states[where layers = layers and decode_only = decode_only and dec = dec and x = x and s = s and e = e and i = e, OF assms(1-5)]
      assms(6-10) by simp
  moreover have "tab D T (\<lambda>d t. model_norm (fst (states_at D T ?rs (hd ns div T) layers s e x e ! d ! t))) =
      tab D T (\<lambda>d t. model_norm (ref_forward (slice layers s e) D T d (x d)))"
    by (intro tab_cong) (simp add: states_at_def boundary_def)
  ultimately show ?thesis by (simp add: dp_model_forward_def)
qed

definition sum_comm :: "int comm" where
  "sum_comm = \<lparr>cm_all_gather = concat, cm_all_reduce = rowsum,
     cm_reduce_scatter = (\<lambda>xs. let k = length (hd xs) div length xs
       in map (\<lambda>i. shard k i (rowsum xs)) [0..<length xs]), cm_empty = (\<lambda>n. replicate n 0)\<rparr>"

lemma sum_comm_ok: "comm_ok sum_comm"
  by (auto simp: comm_ok_def sum_comm_def Let_def)

definition sample_layer :: "int layer" where
  "sample_layer = \<lparr>ly_input_norm = map ((*) 2), ly_fused_input_norm = (\<lambda>xs rs. (map ((*) 2) (plus_rows xs rs), plus_rows xs rs)),
     ly_attn = (\<lambda>d t xs. if t = 0 then xs else rev xs), ly_post_norm = map ((+) 1),
     ly_fused_post_norm = (\<lambda>xs rs. (map ((+) 1) (plus_rows xs rs), plus_rows xs rs)),
     ly_mlp = (\<lambda>d t. map ((*) (int (d + t)))), ly_mlp_all2all = (\<lambda>_ _. map ((*) 4)), ly_enable_all2all = True\<rparr>"

lemma sample_layer_ok: "layer_ok 2 2 sample_layer"
proof -
  have tab2: "tab 2 2 f = [[f 0 0, f 0 1], [f 1 0, f 1 (1 :: nat)]]" for f :: "nat \<Rightarrow> nat \<Rightarrow> int list"
    by (simp add: tab_def numeral_2_eq_2)
  have "map ((*) 4) xs = ref_mlp sample_layer 2 2 xs" for xs :: "int list"
    unfolding ref_mlp_def tab2 by (intro nth_equalityI) (simp_all add: rowsum_def sample_layer_def)
  then show ?thesis by (auto simp: layer_ok_def norm_ok_def sample_layer_def)
qed

lemma dp_model_forward_refines_witness:
  "\<exists>m0 m1. make_oot 0 2 2 [1, 3] [True, True] True None None None None None = Inr m0
     \<and> make_oot 1 2 2 [1, 3] [True, True] True None None None None None = Inr m1
     \<and> prefill_pad_to_token_num m0 = 4
     \<and> dp_model_forward sum_comm 2 2 [m0, m1] [False, False] True True (\<lambda>d t. [[5], [1, 2, 3]] ! d) None id
          [sample_layer, sample_layer] 0 2 =
        Inr (Hidden (tab 2 2 (\<lambda>d t. ref_forward [sample_layer, sample_layer] 2 2 d ([[5], [1, 2, 3]] ! d))))"
proof -
  obtain m0 m1 where m: "make_oot 0 2 2 [1, 3] [True, True] True None None None None None = Inr m0"
      "make_oot 1 2 2 [1, 3] [True, True] True None None None None None = Inr m1"
    using make_oot_total[of 0 "[1, 3]" 2] make_oot_total[of 1 "[1, 3]" 2] by force
  have p: "prefill_pad_to_token_num m0 = 4"
    using m(1) by (auto simp: make_oot_def rs_split_lists_def Let_def)
  have md: "metadata_ok 2 2 [1, 3] [m0, m1]"
    unfolding metadata_ok_def
  proof (intro conjI exI[of _ "[True, True]"] exI[of _ True] allI impI)
    fix d :: nat assume "d < 2"
    then consider "d = 0" | "d = 1" by linarith
    then show "\<exists>sls bss emb lgt dense. make_oot d 2 2 [1, 3] [True, True] True sls bss emb lgt dense = Inr ([m0, m1] ! d)"
      using m by cases (simp only: nth_Cons_0, blast, simp only: nth_Cons_0 One_nat_def nth_Cons_Suc, blast)
  qed simp_all
  show ?thesis using m p
    dp_model_forward_refines[OF sum_comm_ok md, of "[sample_layer, sample_layer]" "[False, False]" False "\<lambda>d. [[5], [1, 2, 3]] ! d" 0 2 id]
    by (auto simp: sample_layer_ok less_2_cases_iff slice_def)
qed

text \<open>
  The layer function is chosen by every rank from its own batch: when one group decodes and another
  prefills with token counts that allow reduce scatter, one runs all to all, the other all gather,
  and both wait.
\<close>

lemma mixed_batches_wait:
  assumes "d < D" "d' < D" "layer_use_reduce_scatter (md ! d)" "layer_use_reduce_scatter (md ! d')"
    and "ly_enable_all2all L" "decode_only ! d" "\<not> decode_only ! d'"
  shows "dp_layer_forward c D T md decode_only L is_first is_last next_norm w = Inl NonTermination"
proof -
  let ?ps = "map (\<lambda>d. layer_path (md ! d) L (decode_only ! d)) [0..<D]"
  have at: "?ps ! d = All2All" "?ps ! d' = RsAg" using assms by (simp_all add: layer_path_def)
  have l: "d < length ?ps" "d' < length ?ps" using assms(1,2) by simp_all
  have mem: "All2All \<in> set ?ps" "RsAg \<in> set ?ps"
    using nth_mem[OF l(1)] nth_mem[OF l(2)] unfolding at .
  have "\<not> list_all (\<lambda>p. p = hd ?ps) ?ps"
  proof
    assume "list_all (\<lambda>p. p = hd ?ps) ?ps"
    then have h: "\<forall>p \<in> set ?ps. p = hd ?ps" unfolding list_all_iff .
    have "All2All = RsAg" using bspec[OF h mem(1)] bspec[OF h mem(2)] by (rule trans[OF _ sym])
    then show False by simp
  qed
  then show ?thesis by (simp only: dp_layer_forward_def Let_def not_True_eq_False if_True simp_thms)
qed

end
