(* ===== verification/DpRunner.thy ===== *)
theory DpRunner
  imports DpRefine
begin

text \<open>
  The exchange of token counts between the data parallel groups at the start of a step and the
  metadata built from it (\<^verbatim>\<open>dp_utils.py\<close> and \<^verbatim>\<open>v1/worker/dp_gpu_model_runner.py\<close>).
  What the ranks contribute is one list with an entry for every group.
\<close>

section \<open>The exchange\<close>

record group_info =
  gi_num_tokens :: nat
  gi_num_requests :: nat
  gi_all_prefill :: bool
  gi_seq_lens :: "nat list"

definition dp_tensor :: "group_info \<Rightarrow> nat list" where
  "dp_tensor g = [gi_num_tokens g, gi_num_requests g, if gi_all_prefill g then 1 else 0]"

definition read_infos :: "nat \<Rightarrow> nat list \<Rightarrow> (nat \<times> nat \<times> bool) list res" where
  "read_infos dp_world_size outputs =
     map_res (\<lambda>k. bind_res (nth_res outputs (3 * k)) (\<lambda>query_len.
       bind_res (nth_res outputs (3 * k + 1)) (\<lambda>bs.
       bind_res (nth_res outputs (3 * k + 2)) (\<lambda>prefill. Inr (query_len, bs, prefill \<noteq> 0))))) [0..<dp_world_size]"

definition get_runtime_infos_per_dp_group ::
  "bool \<Rightarrow> nat \<Rightarrow> nat \<Rightarrow> group_info list \<Rightarrow> (nat list \<times> nat list \<times> bool list \<times> nat list) res" where
  "get_runtime_infos_per_dp_group is_dpsk_mcc_enabled dp_world_size d groups =
     bind_res (read_infos dp_world_size (concat (map dp_tensor groups))) (\<lambda>infos.
     let dp_query_lens = map fst infos; dp_group_bs = map (fst \<circ> snd) infos; prefills = map (snd \<circ> snd) infos
     in if is_dpsk_mcc_enabled \<and> list_all id prefills
        then require (length (gi_seq_lens (groups ! d)) = gi_num_requests (groups ! d)) AssertionError
          (require (list_all (\<lambda>g. length (gi_seq_lens g) = gi_num_requests g) groups) NonTermination
          (Inr (dp_query_lens, dp_group_bs, prefills, concat (map gi_seq_lens groups))))
        else Inr (dp_query_lens, dp_group_bs, prefills, replicate (sum_list dp_group_bs) 0))"

section \<open>Custom splits\<close>

record rank_config =
  rc_dp_size :: nat
  rc_tp_size :: nat
  rc_logits_tp_size :: nat
  rc_dense_mlp_tp_size :: nat
  rc_tp_world_size :: nat

definition group_slice :: "nat \<Rightarrow> nat \<Rightarrow> 'a list \<Rightarrow> 'a list res" where
  "group_slice gsize rank xs =
     require (gsize \<noteq> 0) ZeroDivisionError (Inr (slice xs (rank div gsize * gsize) (rank div gsize * gsize + gsize)))"

definition get_deepseek_layer_split_list ::
  "rank_config \<Rightarrow> nat \<Rightarrow> nat list \<Rightarrow> nat list \<Rightarrow> (nat list option \<times> nat list option \<times> nat list option) res" where
  "get_deepseek_layer_split_list rc rank dp_query_lens dp_group_bs =
     (if length dp_query_lens \<noteq> length dp_group_bs \<or> length dp_query_lens \<noteq> rc_dp_size rc then Inr (None, None, None)
      else
        let all_dp_query_lens = concat (map (replicate (rc_tp_size rc)) dp_query_lens);
            all_dp_group_bs = concat (map (replicate (rc_tp_size rc)) dp_group_bs)
        in bind_res (if rc_logits_tp_size rc \<noteq> rc_tp_size rc
             then bind_res (group_slice (rc_logits_tp_size rc) rank all_dp_query_lens) (\<lambda>q.
                  bind_res (group_slice (rc_logits_tp_size rc) rank all_dp_group_bs) (\<lambda>b. Inr (Some q, Some b)))
             else Inr (None, None)) (\<lambda>(emb, logits).
           bind_res (if rc_dense_mlp_tp_size rc \<noteq> rc_tp_world_size rc
             then bind_res (group_slice (rc_dense_mlp_tp_size rc) rank all_dp_query_lens) (\<lambda>q. Inr (Some q))
             else Inr None) (\<lambda>dense. Inr (emb, logits, dense))))"

text \<open>Metadata of a dummy run or of the capture of a graph.\<close>

definition get_dp_metadata :: "rank_config \<Rightarrow> nat \<Rightarrow> nat \<Rightarrow> nat \<Rightarrow> nat \<Rightarrow> bool \<Rightarrow> bool \<Rightarrow> dp_metadata res" where
  "get_dp_metadata rc num_tokens dp_size d tp_size use_RS_AG has_attn_metadata =
     (let dp_query_lens = replicate dp_size num_tokens;
          prefills = replicate dp_size (\<not> has_attn_metadata);
          emb = (if rc_logits_tp_size rc \<noteq> rc_tp_size rc then Some (replicate (rc_logits_tp_size rc) num_tokens) else None);
          dense = (if rc_dense_mlp_tp_size rc \<noteq> rc_tp_world_size rc
                   then Some (replicate (rc_dense_mlp_tp_size rc) num_tokens) else None)
      in make_oot d dp_size tp_size dp_query_lens prefills use_RS_AG None None emb None dense)"

section \<open>The runner\<close>

text \<open>Rank \<open>t\<close> of group \<open>d\<close> builds its metadata of a step.\<close>

definition get_data_parallel_metadata ::
  "rank_config \<Rightarrow> bool \<Rightarrow> bool \<Rightarrow> group_info list \<Rightarrow> nat \<Rightarrow> nat \<Rightarrow> dp_metadata res" where
  "get_data_parallel_metadata rc is_dpsk_mcc_enabled use_RS_AG groups d t =
     bind_res (get_runtime_infos_per_dp_group is_dpsk_mcc_enabled (rc_dp_size rc) d groups)
       (\<lambda>(dp_query_lens, dp_group_bs, prefills, seq_len_per_batch).
     bind_res (get_deepseek_layer_split_list rc (d * rc_tp_size rc + t) dp_query_lens dp_group_bs) (\<lambda>(emb, logits, dense).
     make_oot d (rc_dp_size rc) (rc_tp_size rc) dp_query_lens prefills use_RS_AG
       (if list_all id prefills then Some seq_len_per_batch else None) (Some dp_group_bs) emb logits dense))"

record graph_config =
  gc_use_cuda_graph :: bool
  gc_cudagraph_batch_sizes :: "nat list"
  gc_pad_for_cudagraph :: "nat \<Rightarrow> nat"

definition get_dp_graph_info :: "graph_config \<Rightarrow> nat \<Rightarrow> nat \<Rightarrow> nat \<Rightarrow> dp_metadata \<Rightarrow> (nat \<times> nat \<times> bool) res" where
  "get_dp_graph_info gc K num_reqs num_scheduled_tokens m =
     (let no_graph = Inr (num_scheduled_tokens, num_reqs, False)
      in if gc_use_cuda_graph gc \<and> list_all Not (dp_is_prefill m)
         then if token_split_list m \<noteq> [] \<and> gc_cudagraph_batch_sizes gc = [] then Inl IndexError
              else if list_all (\<lambda>n. n \<le> last (gc_cudagraph_batch_sizes gc)) (token_split_list m)
              then require (token_split_list m \<noteq> []) ValueError
                (let num_input_tokens = gc_pad_for_cudagraph gc (Max (set (token_split_list m)))
                 in require (num_input_tokens mod (K + 1) = 0) AssertionError
                    (Inr (num_input_tokens, num_input_tokens div (1 + K), True)))
              else no_graph
         else no_graph)"

section \<open>What the ranks learn\<close>

lemma concat_dp_tensor_nth:
  "k < length groups \<Longrightarrow> concat (map dp_tensor groups) ! (3 * k) = gi_num_tokens (groups ! k)
    \<and> concat (map dp_tensor groups) ! (3 * k + 1) = gi_num_requests (groups ! k)
    \<and> concat (map dp_tensor groups) ! (3 * k + 2) = (if gi_all_prefill (groups ! k) then 1 else 0)"
proof (induction groups arbitrary: k)
  case (Cons g groups)
  show ?case
  proof (cases k)
    case 0
    then show ?thesis by (simp add: dp_tensor_def)
  next
    case (Suc j)
    have nx: "concat (map dp_tensor (g # groups)) ! (3 + i) = concat (map dp_tensor groups) ! i" for i
      by (simp add: dp_tensor_def numeral_3_eq_3)
    have "3 * k = 3 + 3 * j" "3 * k + 1 = 3 + (3 * j + 1)" "3 * k + 2 = 3 + (3 * j + 2)" using Suc by simp_all
    then show ?thesis using Cons.IH[of j] Cons.prems nx[of "3 * j"] nx[of "3 * j + 1"] nx[of "3 * j + 2"]
      unfolding Suc by (simp only: nth_Cons_Suc) simp
  qed
qed simp

lemma length_concat_dp_tensor: "length (concat (map dp_tensor groups)) = 3 * length groups"
  by (induction groups) (simp_all add: dp_tensor_def)

lemma read_infos_all:
  "read_infos (length groups) (concat (map dp_tensor groups)) =
    Inr (map (\<lambda>g. (gi_num_tokens g, gi_num_requests g, gi_all_prefill g)) groups)"
proof -
  have "read_infos (length groups) (concat (map dp_tensor groups)) =
      Inr (map (\<lambda>k. (gi_num_tokens (groups ! k), gi_num_requests (groups ! k), gi_all_prefill (groups ! k))) [0..<length groups])"
    unfolding read_infos_def
  proof (rule map_res_total)
    fix k assume "k \<in> set [0..<length groups]"
    then have k: "k < length groups" by simp
    have "3 * k < length (concat (map dp_tensor groups))" "3 * k + 1 < length (concat (map dp_tensor groups))"
        "3 * k + 2 < length (concat (map dp_tensor groups))" unfolding length_concat_dp_tensor using k by linarith+
    then show "bind_res (nth_res (concat (map dp_tensor groups)) (3 * k)) (\<lambda>query_len.
        bind_res (nth_res (concat (map dp_tensor groups)) (3 * k + 1)) (\<lambda>bs.
        bind_res (nth_res (concat (map dp_tensor groups)) (3 * k + 2)) (\<lambda>prefill. Inr (query_len, bs, prefill \<noteq> 0)))) =
      Inr (gi_num_tokens (groups ! k), gi_num_requests (groups ! k), gi_all_prefill (groups ! k))"
      using concat_dp_tensor_nth[OF k] by (simp only: nth_res_in bind_res_simps) simp
  qed
  also have "map (\<lambda>k. (gi_num_tokens (groups ! k), gi_num_requests (groups ! k), gi_all_prefill (groups ! k))) [0..<length groups]
      = map (\<lambda>g. (gi_num_tokens g, gi_num_requests g, gi_all_prefill g)) groups"
    by (intro nth_equalityI) simp_all
  finally show ?thesis .
qed

lemma runtime_infos:
  assumes "\<not> mcc \<or> (\<forall>g \<in> set groups. length (gi_seq_lens g) = gi_num_requests g)" "d < length groups"
  shows "\<exists>sls. get_runtime_infos_per_dp_group mcc (length groups) d groups =
    Inr (map gi_num_tokens groups, map gi_num_requests groups, map gi_all_prefill groups, sls)"
  using assms
  by (auto simp: get_runtime_infos_per_dp_group_def read_infos_all comp_def Let_def list_all_iff require_def)

lemma split_list:
  assumes "0 < rc_logits_tp_size rc" "0 < rc_dense_mlp_tp_size rc" "length ns = rc_dp_size rc" "length bs = rc_dp_size rc"
  shows "\<exists>emb lgt dense. get_deepseek_layer_split_list rc r ns bs = Inr (emb, lgt, dense)
    \<and> (\<forall>ys. emb = Some ys \<longrightarrow> group_slice (rc_logits_tp_size rc) r (concat (map (replicate (rc_tp_size rc)) ns)) = Inr ys)
    \<and> (\<forall>ys. dense = Some ys \<longrightarrow> group_slice (rc_dense_mlp_tp_size rc) r (concat (map (replicate (rc_tp_size rc)) ns)) = Inr ys)"
  using assms by (simp add: get_deepseek_layer_split_list_def group_slice_def Let_def)

lemma make_oot_splits:
  "make_oot d D T ns pre rs sls bss emb lgt dense = Inr m \<Longrightarrow> emb_token_split_list m = emb
    \<and> dp_metadata.dense_attn_token_split_list m = dense"
  by (auto simp: make_oot_def Let_def bind_res_eq_Inr nth_res_eq_Inr)

lemma nth_concat_replicate:
  "d < length xs \<Longrightarrow> t < T \<Longrightarrow> concat (map (replicate T) xs) ! (d * T + t) = xs ! d"
proof (induction xs arbitrary: d)
  case (Cons x xs)
  then show ?case by (cases d) (simp_all add: nth_append add.assoc)
qed simp

lemma nth_slice: "a + i < b \<Longrightarrow> a + i < length xs \<Longrightarrow> slice xs a b ! i = xs ! (a + i)"
  by (simp add: slice_def)

text \<open>The entry of a rank in the slice of its group is its own.\<close>

lemma group_slice_own:
  assumes "group_slice gsize (d * T + t) (concat (map (replicate T) xs)) = Inr ys" "d < length xs" "t < T"
  shows "(d * T + t) mod gsize < length ys \<and> ys ! ((d * T + t) mod gsize) = xs ! d"
proof -
  let ?r = "d * T + t" and ?zs = "concat (map (replicate T) xs)"
  have s: "0 < gsize" "ys = slice ?zs (?r div gsize * gsize) (?r div gsize * gsize + gsize)"
    using assms(1) by (auto simp: group_slice_def require_eq_Inr)
  have len: "length ?zs = length xs * T" by (induction xs) simp_all
  have r: "?r < length ?zs" unfolding len using rank_less[OF assms(2,3)] .
  have m: "?r div gsize * gsize + ?r mod gsize = ?r" "?r mod gsize < gsize" using s(1) by simp_all
  have lt: "?r < ?r div gsize * gsize + gsize" using m by linarith
  have "?r mod gsize < length ys" unfolding s(2) length_slice using r m by linarith
  moreover have "ys ! (?r mod gsize) = ?zs ! ?r"
    using lt nth_slice[of "?r div gsize * gsize" "?r mod gsize" "?r div gsize * gsize + gsize" ?zs] r m(2)
    unfolding s(2) m(1) by simp
  ultimately show ?thesis using nth_concat_replicate[OF assms(2,3)] by simp
qed

text \<open>
  The ranks agree on a step. When every group contributes its counts, every rank builds its
  metadata without an error; the metadata of the groups are those of one common list of counts, so
  that all ranks choose the same layout; and where the embedding, the logits or the dense layers have
  groups of their own, the entry of a rank in the split of its group is its own number of tokens.
\<close>
theorem step_metadata_agree:
  assumes "length groups = rc_dp_size rc" "0 < rc_tp_size rc" "0 < rc_logits_tp_size rc" "0 < rc_dense_mlp_tp_size rc"
    and "\<not> mcc \<or> (\<forall>g \<in> set groups. length (gi_seq_lens g) = gi_num_requests g)"
  shows "\<exists>md. (\<forall>d < rc_dp_size rc. \<forall>t < rc_tp_size rc. get_data_parallel_metadata rc mcc use_RS_AG groups d t = Inr (md d t)
      \<and> (\<forall>ys. emb_token_split_list (md d t) = Some ys \<longrightarrow>
          ys ! ((d * rc_tp_size rc + t) mod rc_logits_tp_size rc) = gi_num_tokens (groups ! d))
      \<and> (\<forall>ys. dp_metadata.dense_attn_token_split_list (md d t) = Some ys \<longrightarrow>
          ys ! ((d * rc_tp_size rc + t) mod rc_dense_mlp_tp_size rc) = gi_num_tokens (groups ! d)))
    \<and> (\<forall>t < rc_tp_size rc. metadata_ok (rc_dp_size rc) (rc_tp_size rc) (map gi_num_tokens groups)
         (map (\<lambda>d. md d t) [0..<rc_dp_size rc]))"
proof -
  let ?D = "rc_dp_size rc" and ?T = "rc_tp_size rc" and ?ns = "map gi_num_tokens groups"
  have one: "\<exists>m sls bss emb lgt dense. get_data_parallel_metadata rc mcc use_RS_AG groups d t = Inr m
      \<and> make_oot d ?D ?T ?ns (map gi_all_prefill groups) use_RS_AG sls bss emb lgt dense = Inr m
      \<and> (\<forall>ys. emb_token_split_list m = Some ys \<longrightarrow> ys ! ((d * ?T + t) mod rc_logits_tp_size rc) = gi_num_tokens (groups ! d))
      \<and> (\<forall>ys. dp_metadata.dense_attn_token_split_list m = Some ys \<longrightarrow>
          ys ! ((d * ?T + t) mod rc_dense_mlp_tp_size rc) = gi_num_tokens (groups ! d))"
    if dt: "d < ?D" "t < ?T" for d t
  proof -
    have d: "d < length ?ns" "d < length groups" using dt assms(1) by simp_all
    obtain sls where i: "get_runtime_infos_per_dp_group mcc ?D d groups =
        Inr (?ns, map gi_num_requests groups, map gi_all_prefill groups, sls)"
      using runtime_infos[OF assms(5) d(2)] assms(1) by auto
    obtain emb lgt dense where s: "get_deepseek_layer_split_list rc (d * ?T + t) ?ns (map gi_num_requests groups) = Inr (emb, lgt, dense)"
        "\<And>ys. emb = Some ys \<Longrightarrow> group_slice (rc_logits_tp_size rc) (d * ?T + t) (concat (map (replicate ?T) ?ns)) = Inr ys"
        "\<And>ys. dense = Some ys \<Longrightarrow> group_slice (rc_dense_mlp_tp_size rc) (d * ?T + t) (concat (map (replicate ?T) ?ns)) = Inr ys"
      using split_list[OF assms(3,4), of ?ns "map gi_num_requests groups" "d * ?T + t"] assms(1) by auto
    obtain m where m: "make_oot d ?D ?T ?ns (map gi_all_prefill groups) use_RS_AG
        (if list_all id (map gi_all_prefill groups) then Some sls else None) (Some (map gi_num_requests groups)) emb lgt dense = Inr m"
      using make_oot_total[OF d(1) assms(2)] by blast
    have "get_data_parallel_metadata rc mcc use_RS_AG groups d t = Inr m"
      using i s(1) m by (simp add: get_data_parallel_metadata_def)
    moreover have "ys ! ((d * ?T + t) mod g) = gi_num_tokens (groups ! d)"
      if "group_slice g (d * ?T + t) (concat (map (replicate ?T) ?ns)) = Inr ys" for g ys
      using group_slice_own[OF that d(1) dt(2)] d(2) by simp
    ultimately show ?thesis using m make_oot_splits[OF m] s(2,3) by blast
  qed
  define md where "md = (\<lambda>d t. projr (get_data_parallel_metadata rc mcc use_RS_AG groups d t))"
  have md: "get_data_parallel_metadata rc mcc use_RS_AG groups d t = Inr m \<Longrightarrow> m = md d t" for d t m
    by (simp add: md_def)
  have "metadata_ok ?D ?T ?ns (map (\<lambda>d. md d t) [0..<?D])" if "t < ?T" for t
    unfolding metadata_ok_def
  proof (intro conjI exI[of _ "map gi_all_prefill groups"] exI[of _ use_RS_AG] allI impI)
    fix d assume d: "d < ?D"
    show "\<exists>sls bss emb lgt dense. make_oot d ?D ?T ?ns (map gi_all_prefill groups) use_RS_AG sls bss emb lgt dense =
        Inr (map (\<lambda>d. md d t) [0..<?D] ! d)"
      using one[OF d that] md d by fastforce
  qed (use assms(1) in simp_all)
  moreover have "get_data_parallel_metadata rc mcc use_RS_AG groups d t = Inr (md d t)" if "d < ?D" "t < ?T" for d t
    using one[OF that] md by fastforce
  ultimately show ?thesis using one md by (intro exI[of _ md]) blast
qed

lemma step_metadata_agree_witness:
  "\<exists>md. metadata_ok 2 2 [5, 3] [md (0 :: nat) (1 :: nat), md 1 1]
    \<and> get_data_parallel_metadata
        \<lparr>rc_dp_size = 2, rc_tp_size = 2, rc_logits_tp_size = 4, rc_dense_mlp_tp_size = 4, rc_tp_world_size = 4\<rparr> True True
        [\<lparr>gi_num_tokens = 5, gi_num_requests = 1, gi_all_prefill = True, gi_seq_lens = [5]\<rparr>,
         \<lparr>gi_num_tokens = 3, gi_num_requests = 2, gi_all_prefill = True, gi_seq_lens = [1, 2]\<rparr>] 1 1 = Inr (md 1 1)"
proof -
  let ?rc = "\<lparr>rc_dp_size = 2, rc_tp_size = 2, rc_logits_tp_size = 4, rc_dense_mlp_tp_size = 4, rc_tp_world_size = 4\<rparr>"
  let ?g = "[\<lparr>gi_num_tokens = 5, gi_num_requests = 1, gi_all_prefill = True, gi_seq_lens = [5]\<rparr>,
      \<lparr>gi_num_tokens = 3, gi_num_requests = 2, gi_all_prefill = True, gi_seq_lens = [1, 2]\<rparr>]"
  have up: "[0..<2] = [0, 1 :: nat]" by (simp add: upt_rec)
  obtain md where md: "\<forall>d < 2. \<forall>t < 2. get_data_parallel_metadata ?rc True True ?g d t = Inr (md d t)"
      "\<forall>t < 2. metadata_ok 2 2 [5, 3] (map (\<lambda>d. md d t) [0..<2])"
    using step_metadata_agree[of ?g ?rc True True] by auto
  then show ?thesis by (intro exI[of _ md]) (auto simp: up)
qed

end
