(* ===== verification/UpdateStates.thy ===== *)
theory UpdateStates
  imports KvState
begin

text \<open>
  The cached states of a model runner (\<^verbatim>\<open>_update_states\<close> of
  \<^verbatim>\<open>vllm_mlu/v1/worker/gpu_model_runner.py\<close>): what a scheduler output does to the cached requests
  and to the persistent batch. The operations of the persistent batch of vLLM (removing, adding,
  condensing, refreshing) and the backend's reordering are arguments; the fields the code itself
  reads and writes are fields of the model. A request that is to be added is named by its id, as the
  list of the code refers to the very object that the dictionary holds.
\<close>

section \<open>Python's slices with signed bounds\<close>

definition py_bound :: "nat \<Rightarrow> int \<Rightarrow> nat" where
  "py_bound n i = (if i < 0 then nat (max 0 (int n + i)) else nat (min i (int n)))"

text \<open>Assigning a list to a slice of an array row: the lengths must agree, a single value is broadcast.\<close>

definition put_slice :: "'a list \<Rightarrow> int \<Rightarrow> int \<Rightarrow> 'a list \<Rightarrow> 'a list res" where
  "put_slice xs a b vs =
     (let i = py_bound (length xs) a; j = py_bound (length xs) b; n = j - i
      in if length vs = n then Inr (take i xs @ vs @ drop (i + n) xs)
         else if length vs = 1 then Inr (take i xs @ replicate n (hd vs) @ drop (i + n) xs)
         else Inl ValueError)"

text \<open>\<open>xs[-n:]\<close> for a positive \<open>n\<close>; \<open>xs[-0:]\<close> is the whole list.\<close>

definition last_n :: "int \<Rightarrow> 'a list \<Rightarrow> 'a list" where
  "last_n n xs = drop (py_bound (length xs) (- n)) xs"

section \<open>The state\<close>

record 'p cached_request =
  cr_req_id :: nat
  cr_block_ids :: "nat list list"
  cr_num_computed_tokens :: int
  cr_output_token_ids :: "int list"
  cr_num_prompt_tokens :: nat
  cr_prev_num_draft_len :: nat
  cr_params :: 'p

record 'x batch =
  b_index :: "(nat, nat) dict"
  b_prev_index :: "(nat, nat) dict option"
  b_num_prompt_tokens :: "int list"
  b_num_tokens :: "int list"
  b_num_tokens_no_spec :: "int list"
  b_num_computed_tokens :: "int list"
  b_token_ids :: "int list list"
  b_spec_token_ids :: "int list list"
  b_rest :: 'x

record ('p, 'x) batch_ops =
  bo_remove :: "nat \<Rightarrow> 'x batch \<Rightarrow> 'x batch"
  bo_add :: "'p cached_request \<Rightarrow> 'x batch \<Rightarrow> 'x batch"
  bo_append_row :: "nat list list \<Rightarrow> nat \<Rightarrow> 'x batch \<Rightarrow> 'x batch"
  bo_condense :: "'x batch \<Rightarrow> 'x batch"
  bo_reorder :: "'x batch \<Rightarrow> 'x batch"
  bo_refresh :: "'x batch \<Rightarrow> 'x batch"

record cached_data =
  cd_req_ids :: "nat list"
  cd_resumed_req_ids :: "nat list"
  cd_new_token_ids :: "int list list"
  cd_all_token_ids :: "(nat, int list) dict"
  cd_new_block_ids :: "nat list list option list"
  cd_num_computed_tokens :: "int list"
  cd_num_output_tokens :: "nat list"

record 'p new_request =
  nr_req_id :: nat
  nr_block_ids :: "nat list list"
  nr_num_computed_tokens :: int
  nr_new_token_ids :: "int list option"
  nr_num_prompt_tokens :: nat
  nr_pooling_task :: "nat option"
  nr_params :: 'p

record 'p update_output =
  uo_finished_req_ids :: "nat list"
  uo_free_encoder_mm_hashes :: "nat list"
  uo_scheduled_new_reqs :: "'p new_request list"
  uo_scheduled_cached_reqs :: cached_data
  uo_num_scheduled_tokens :: "(nat, int) dict"
  uo_total_num_scheduled_tokens :: int
  uo_scheduled_spec_decode_tokens :: "(nat, int list) dict"

record ('p, 'x) runner_state =
  rs_requests :: "(nat, 'p cached_request) dict"
  rs_batch :: "'x batch"
  rs_kv :: "kv_state option"
  rs_encoder_cache :: "(nat, nat) dict"

text \<open>While the update runs: the state, the scheduler output it modifies and the requests to add.\<close>

record ('p, 'x) update_state =
  us_state :: "('p, 'x) runner_state"
  us_output :: "'p update_output"
  us_add :: "nat list"

record update_config =
  uc_is_pooling_model :: bool
  uc_is_last_rank :: bool
  uc_use_async_scheduling :: bool
  uc_has_draft_token_ids :: bool

section \<open>Requests that leave the batch\<close>

definition drop_finished :: "('p, 'x) batch_ops \<Rightarrow> 'p update_output \<Rightarrow> ('p, 'x) runner_state \<Rightarrow> ('p, 'x) runner_state res" where
  "drop_finished ops so s =
     bind_res (remove_req_id (uo_finished_req_ids so) (rs_kv s)) (\<lambda>kv.
     let s1 = s\<lparr>rs_kv := kv, rs_requests := fold dict_pop (uo_finished_req_ids so) (rs_requests s)\<rparr>;
         s2 = s1\<lparr>rs_batch := fold (bo_remove ops) (uo_finished_req_ids so) (rs_batch s1)\<rparr>
     in Inr (s2\<lparr>rs_encoder_cache := fold dict_pop (uo_free_encoder_mm_hashes so) (rs_encoder_cache s2)\<rparr>))"

text \<open>The difference of the two key views is a set; the order of its elements is an argument.\<close>

definition drop_unscheduled ::
  "('p, 'x) batch_ops \<Rightarrow> (nat list \<Rightarrow> nat list) \<Rightarrow> 'p update_output \<Rightarrow> ('p, 'x) runner_state \<Rightarrow> ('p, 'x) runner_state" where
  "drop_unscheduled ops set_order so s =
     (let unscheduled = filter (\<lambda>r. r \<notin> set (dict_keys (uo_num_scheduled_tokens so))) (dict_keys (b_index (rs_batch s)))
      in s\<lparr>rs_batch := fold (bo_remove ops) (set_order unscheduled) (rs_batch s)\<rparr>)"

definition cached_request_of :: "'p new_request \<Rightarrow> 'p cached_request" where
  "cached_request_of r =
     \<lparr>cr_req_id = nr_req_id r, cr_block_ids = nr_block_ids r, cr_num_computed_tokens = nr_num_computed_tokens r,
      cr_output_token_ids = (case nr_new_token_ids r of None \<Rightarrow> [] | Some ts \<Rightarrow> ts),
      cr_num_prompt_tokens = nr_num_prompt_tokens r, cr_prev_num_draft_len = 0, cr_params = nr_params r\<rparr>"

definition add_new :: "update_config \<Rightarrow> 'p new_request \<Rightarrow> ('p, 'x) update_state \<Rightarrow> ('p, 'x) update_state res" where
  "add_new cfg r u =
     require (\<not> uc_is_pooling_model cfg \<or> nr_pooling_task r \<noteq> None) AssertionError
     (let s = us_state u in Inr (u\<lparr>us_state := s\<lparr>rs_requests := dict_set (nr_req_id r) (cached_request_of r) (rs_requests s)\<rparr>,
        us_add := us_add u @ [nr_req_id r]\<rparr>))"

section \<open>Running and resumed requests\<close>

text \<open>The drafts of the last step that were not accepted are taken back.\<close>

definition settle_drafts ::
  "int list \<Rightarrow> 'x batch \<Rightarrow> nat option \<Rightarrow> nat \<Rightarrow> int \<Rightarrow> 'p cached_request \<Rightarrow> ('p cached_request \<times> int) res" where
  "settle_drafts valid_counts b req_index req_id computed r =
     (if cr_prev_num_draft_len r = 0 then Inr (r, computed)
      else case req_index of
        None \<Rightarrow> Inr (r\<lparr>cr_prev_num_draft_len := 0\<rparr>, computed)
      | Some _ \<Rightarrow>
          (case b_prev_index b of
             None \<Rightarrow> Inl AssertionError
           | Some prev \<Rightarrow>
               bind_res (dict_at prev req_id) (\<lambda>prev_req_index.
               bind_res (nth_res valid_counts prev_req_index) (\<lambda>count.
               let num_accepted = count - 1; num_rejected = int (cr_prev_num_draft_len r) - num_accepted
               in Inr (r\<lparr>cr_output_token_ids := cr_output_token_ids r @ replicate (nat num_accepted) (-1)\<rparr>,
                    computed - num_rejected)))))"

text \<open>
  The output tokens of the cached state: on a pipeline rank that is not the last they come from the
  scheduler, on the last rank they are cut back when the scheduler discarded some.
\<close>

definition sync_outputs ::
  "update_config \<Rightarrow> cached_data \<Rightarrow> nat \<Rightarrow> nat option \<Rightarrow> int \<Rightarrow> 'p cached_request \<Rightarrow> 'x batch
    \<Rightarrow> ('p cached_request \<times> 'x batch \<times> int list) res" where
  "sync_outputs cfg cd i req_index computed r b =
     bind_res (nth_res (cd_num_output_tokens cd) i) (\<lambda>num_output_tokens.
     if \<not> uc_is_last_rank cfg then
       bind_res (nth_res (cd_new_token_ids cd) i) (\<lambda>new_token_ids.
       let num_new_tokens = computed + int (length new_token_ids)
             - int (cr_num_prompt_tokens r + length (cr_output_token_ids r))
       in if num_new_tokens = 1 then
            require (new_token_ids \<noteq> []) IndexError
              (Inr (r\<lparr>cr_output_token_ids := cr_output_token_ids r @ [last new_token_ids]\<rparr>, b, new_token_ids))
          else if 0 < num_new_tokens then
            Inr (r\<lparr>cr_output_token_ids := cr_output_token_ids r @ last_n num_new_tokens new_token_ids\<rparr>, b, new_token_ids)
          else Inr (r, b, new_token_ids))
     else if num_output_tokens < length (cr_output_token_ids r) then
       (let r' = r\<lparr>cr_output_token_ids := take num_output_tokens (cr_output_token_ids r)\<rparr>
        in case req_index of
             None \<Rightarrow> Inr (r', b, [])
           | Some k \<Rightarrow>
               bind_res (nth_res (b_num_prompt_tokens b) k) (\<lambda>np.
               bind_res (put_res (b_num_tokens b) k (np + int num_output_tokens)) (\<lambda>nt.
               bind_res (put_res (b_num_tokens_no_spec b) k (np + int num_output_tokens)) (\<lambda>ns.
               Inr (r', b\<lparr>b_num_tokens := nt, b_num_tokens_no_spec := ns\<rparr>, [])))))
     else Inr (r, b, []))"

fun extend_blocks :: "nat list list \<Rightarrow> nat list list \<Rightarrow> nat list list" where
  "extend_blocks (b # bs) (n # ns) = (b @ n) # extend_blocks bs ns"
| "extend_blocks bs ns = bs"

definition update_blocks ::
  "bool \<Rightarrow> nat option \<Rightarrow> nat list list option \<Rightarrow> 'p cached_request \<Rightarrow> 'p cached_request res" where
  "update_blocks resumed req_index new_block_ids r =
     (if \<not> resumed then
        Inr (case new_block_ids of None \<Rightarrow> r | Some ns \<Rightarrow> r\<lparr>cr_block_ids := extend_blocks (cr_block_ids r) ns\<rparr>)
      else require (req_index = None) AssertionError
        (case new_block_ids of None \<Rightarrow> Inl AssertionError | Some ns \<Rightarrow> Inr (r\<lparr>cr_block_ids := ns\<rparr>)))"

text \<open>
  The row of a request that stays in the batch: its computed tokens and blocks, the sampled tokens on
  a rank that is not the last, and the scheduled drafts behind the tokens.
\<close>

definition block_row :: "('p, 'x) batch_ops \<Rightarrow> nat \<Rightarrow> int \<Rightarrow> nat list list option \<Rightarrow> 'x batch \<Rightarrow> 'x batch res" where
  "block_row ops k computed new_block_ids b =
     bind_res (put_res (b_num_computed_tokens b) k computed) (\<lambda>nc.
     let b1 = b\<lparr>b_num_computed_tokens := nc\<rparr>
     in Inr (case new_block_ids of None \<Rightarrow> b1 | Some ns \<Rightarrow> bo_append_row ops ns k b1))"

definition token_row :: "update_config \<Rightarrow> nat \<Rightarrow> int \<Rightarrow> int list \<Rightarrow> 'x batch \<Rightarrow> 'x batch res" where
  "token_row cfg k computed new_token_ids b =
     (if uc_is_last_rank cfg then Inr b
      else let end_token_index = computed + int (length new_token_ids) in
        bind_res (nth_res (b_token_ids b) k) (\<lambda>row.
        bind_res (put_slice row computed end_token_index new_token_ids) (\<lambda>row'.
        bind_res (put_res (b_num_tokens_no_spec b) k end_token_index) (\<lambda>ns.
        bind_res (put_res (b_num_tokens b) k end_token_index) (\<lambda>nt.
        Inr (b\<lparr>b_token_ids := (b_token_ids b)[k := row'], b_num_tokens_no_spec := ns, b_num_tokens := nt\<rparr>))))))"

definition draft_row :: "nat \<Rightarrow> int list \<Rightarrow> 'x batch \<Rightarrow> 'x batch res" where
  "draft_row k spec_token_ids b =
     bind_res (if spec_token_ids = [] then Inr b
       else bind_res (nth_res (b_num_tokens_no_spec b) k) (\<lambda>start_index.
            bind_res (nth_res (b_token_ids b) k) (\<lambda>row.
            bind_res (put_slice row start_index (start_index + int (length spec_token_ids)) spec_token_ids) (\<lambda>row'.
            bind_res (nth_res (b_num_tokens b) k) (\<lambda>nt.
            Inr (b\<lparr>b_token_ids := (b_token_ids b)[k := row'],
                   b_num_tokens := (b_num_tokens b)[k := nt + int (length spec_token_ids)]\<rparr>)))))) (\<lambda>b'.
     bind_res (put_res (b_spec_token_ids b') k spec_token_ids) (\<lambda>st. Inr (b'\<lparr>b_spec_token_ids := st\<rparr>)))"

definition update_row ::
  "('p, 'x) batch_ops \<Rightarrow> update_config \<Rightarrow> nat \<Rightarrow> int \<Rightarrow> nat list list option \<Rightarrow> int list \<Rightarrow> int list \<Rightarrow> 'x batch \<Rightarrow> 'x batch res" where
  "update_row ops cfg k computed new_block_ids new_token_ids spec_token_ids b =
     bind_res (block_row ops k computed new_block_ids b) (\<lambda>b1.
     bind_res (token_row cfg k computed new_token_ids b1) (draft_row k spec_token_ids))"

text \<open>Without drafts of the last step the scheduled drafts of the request are taken out of the output.\<close>

definition withdraw_drafts :: "nat \<Rightarrow> int list \<Rightarrow> 'p update_output \<Rightarrow> 'p update_output res" where
  "withdraw_drafts req_id spec_token_ids so =
     bind_res (dict_at (uo_num_scheduled_tokens so) req_id) (\<lambda>n.
     Inr (so\<lparr>uo_total_num_scheduled_tokens := uo_total_num_scheduled_tokens so - int (length spec_token_ids),
             uo_num_scheduled_tokens := dict_set req_id (n - int (length spec_token_ids)) (uo_num_scheduled_tokens so),
             uo_scheduled_spec_decode_tokens := dict_pop req_id (uo_scheduled_spec_decode_tokens so)\<rparr>))"

definition refresh_request ::
  "update_config \<Rightarrow> int list \<Rightarrow> cached_data \<Rightarrow> nat \<Rightarrow> nat option \<Rightarrow> 'p cached_request \<Rightarrow> 'x batch
    \<Rightarrow> ('p cached_request \<times> int \<times> 'x batch \<times> int list \<times> nat list list option) res" where
  "refresh_request cfg valid_counts cd i req_index r b =
     bind_res (nth_res (cd_req_ids cd) i) (\<lambda>req_id.
     bind_res (nth_res (cd_num_computed_tokens cd) i) (\<lambda>computed0.
     bind_res (nth_res (cd_new_block_ids cd) i) (\<lambda>new_block_ids.
     bind_res (settle_drafts valid_counts b req_index req_id computed0 r) (\<lambda>(r1, computed).
     bind_res (sync_outputs cfg cd i req_index computed (r1\<lparr>cr_num_computed_tokens := computed\<rparr>) b) (\<lambda>(r2, b1, new_token_ids).
     bind_res (update_blocks (req_id \<in> set (cd_resumed_req_ids cd)) req_index new_block_ids r2) (\<lambda>r3.
     Inr (r3, computed, b1, new_token_ids, new_block_ids)))))))"

definition keep_request :: "nat \<Rightarrow> 'p cached_request \<Rightarrow> 'x batch \<Rightarrow> ('p, 'x) update_state \<Rightarrow> ('p, 'x) update_state" where
  "keep_request req_id r b u =
     u\<lparr>us_state := (us_state u)\<lparr>rs_requests := dict_set req_id r (rs_requests (us_state u)), rs_batch := b\<rparr>\<rparr>"

text \<open>A request outside the batch is to be added again.\<close>

definition readd_request ::
  "update_config \<Rightarrow> cached_data \<Rightarrow> nat \<Rightarrow> nat \<Rightarrow> 'p cached_request \<Rightarrow> 'x batch \<Rightarrow> ('p, 'x) update_state \<Rightarrow> ('p, 'x) update_state res" where
  "readd_request cfg cd i req_id r b u =
     bind_res (nth_res (cd_num_output_tokens cd) i) (\<lambda>num_output_tokens.
     bind_res (if uc_use_async_scheduling cfg \<and> 0 < num_output_tokens
       then bind_res (dict_at (cd_all_token_ids cd) req_id) (\<lambda>all_tokens.
            Inr (r\<lparr>cr_output_token_ids := last_n (int num_output_tokens) all_tokens\<rparr>))
       else Inr r) (\<lambda>r'.
     let u' = keep_request req_id r' b u in Inr (u'\<lparr>us_add := us_add u' @ [req_id]\<rparr>)))"

definition scheduled_drafts :: "'p update_output \<Rightarrow> nat \<Rightarrow> int list" where
  "scheduled_drafts so req_id = (case dict_get (uo_scheduled_spec_decode_tokens so) req_id of None \<Rightarrow> [] | Some ts \<Rightarrow> ts)"

definition update_cached ::
  "('p, 'x) batch_ops \<Rightarrow> update_config \<Rightarrow> int list \<Rightarrow> nat \<Rightarrow> ('p, 'x) update_state \<Rightarrow> ('p, 'x) update_state res" where
  "update_cached ops cfg valid_counts i u =
     (let cd = uo_scheduled_cached_reqs (us_output u); b = rs_batch (us_state u) in
      bind_res (nth_res (cd_req_ids cd) i) (\<lambda>req_id.
      bind_res (dict_at (rs_requests (us_state u)) req_id) (\<lambda>r.
      let req_index = dict_get (b_index b) req_id in
      bind_res (refresh_request cfg valid_counts cd i req_index r b) (\<lambda>(r', computed, b1, new_token_ids, new_block_ids).
      case req_index of
        None \<Rightarrow> readd_request cfg cd i req_id r' b1 u
      | Some k \<Rightarrow>
          let spec_token_ids = scheduled_drafts (us_output u) req_id in
          bind_res (update_row ops cfg k computed new_block_ids new_token_ids spec_token_ids b1) (\<lambda>b2.
          if uc_use_async_scheduling cfg then
            let u1 = keep_request req_id (r'\<lparr>cr_prev_num_draft_len := length spec_token_ids\<rparr>) b2 u
            in if spec_token_ids \<noteq> [] \<and> \<not> uc_has_draft_token_ids cfg
               then bind_res (withdraw_drafts req_id spec_token_ids (us_output u1)) (\<lambda>so. Inr (u1\<lparr>us_output := so\<rparr>))
               else Inr u1
          else Inr (keep_request req_id r' b2 u))))))"

section \<open>Requests that enter the batch\<close>

definition add_to_batch :: "('p, 'x) batch_ops \<Rightarrow> nat \<Rightarrow> ('p, 'x) update_state \<Rightarrow> ('p, 'x) update_state res" where
  "add_to_batch ops req_id u =
     (let s = us_state u in
      bind_res (dict_at (rs_requests s) req_id) (\<lambda>r.
      let b = bo_add ops r (rs_batch s) in
      (case dict_get (b_index b) (cr_req_id r) of
         None \<Rightarrow> Inl AssertionError
       | Some k \<Rightarrow>
           bind_res (nth_res (b_num_tokens b) k) (\<lambda>num_tokens.
           let spec_token_ids = scheduled_drafts (us_output u) (cr_req_id r)
           in bind_res (if spec_token_ids = [] then Inr (b_token_ids b)
                else bind_res (nth_res (b_token_ids b) k) (\<lambda>row.
                     bind_res (put_slice row num_tokens (num_tokens + int (length spec_token_ids)) spec_token_ids) (\<lambda>row'.
                     Inr ((b_token_ids b)[k := row'])))) (\<lambda>rows.
              Inr (u\<lparr>us_state := s\<lparr>rs_batch := b\<lparr>b_token_ids := rows,
                       b_num_tokens := (b_num_tokens b)[k := num_tokens + int (length spec_token_ids)]\<rparr>\<rparr>\<rparr>))))))"

definition update_states ::
  "('p, 'x) batch_ops \<Rightarrow> update_config \<Rightarrow> (nat list \<Rightarrow> nat list) \<Rightarrow> int list \<Rightarrow> 'p update_output \<Rightarrow> ('p, 'x) runner_state
    \<Rightarrow> (('p, 'x) runner_state \<times> 'p update_output) res" where
  "update_states ops cfg set_order valid_counts so s =
     bind_res (drop_finished ops so s) (\<lambda>s1.
     let u0 = \<lparr>us_state = drop_unscheduled ops set_order so s1, us_output = so, us_add = []\<rparr>
     in bind_res (fold_res (add_new cfg) (uo_scheduled_new_reqs so) u0) (\<lambda>u1.
        bind_res (fold_res (update_cached ops cfg valid_counts) [0..<length (cd_req_ids (uo_scheduled_cached_reqs so))] u1) (\<lambda>u2.
        bind_res (fold_res (add_to_batch ops) (us_add u2) u2) (\<lambda>u3.
        let s3 = us_state u3
        in Inr (s3\<lparr>rs_batch := bo_refresh ops (bo_reorder ops (bo_condense ops (rs_batch s3)))\<rparr>, us_output u3)))))"

section \<open>What the update does\<close>

abbreviation batch_keys :: "'x batch \<Rightarrow> nat set" where
  "batch_keys b \<equiv> set (dict_keys (b_index b))"

text \<open>What the code relies on: the operations of the batch change its set of requests as they say.\<close>

definition ops_ok :: "('p, 'x) batch_ops \<Rightarrow> bool" where
  "ops_ok ops \<longleftrightarrow> (\<forall>r b. batch_keys (bo_remove ops r b) = batch_keys b - {r})
     \<and> (\<forall>r b. batch_keys (bo_add ops r b) = insert (cr_req_id r) (batch_keys b))
     \<and> (\<forall>ns k b. batch_keys (bo_append_row ops ns k b) = batch_keys b)
     \<and> (\<forall>b. batch_keys (bo_condense ops b) = batch_keys b)
     \<and> (\<forall>b. batch_keys (bo_reorder ops b) = batch_keys b)
     \<and> (\<forall>b. batch_keys (bo_refresh ops b) = batch_keys b)"

definition requests_ok :: "(nat, 'p cached_request) dict \<Rightarrow> bool" where
  "requests_ok d \<longleftrightarrow> (\<forall>k r. dict_get d k = Some r \<longrightarrow> cr_req_id r = k)"

lemma removed_keys: "ops_ok ops \<Longrightarrow> batch_keys (fold (bo_remove ops) rs b) = batch_keys b - set rs"
  by (induction rs arbitrary: b) (auto simp: ops_ok_def)

lemma popped_get: "dict_get (fold dict_pop ks d) k = (if k \<in> set ks then None else dict_get d k)"
  by (induction ks arbitrary: d) auto

lemma settle_drafts_fields:
  assumes "settle_drafts vc b idx rid c r = Inr (r1, c1)"
  shows "cr_req_id r1 = cr_req_id r \<and> cr_block_ids r1 = cr_block_ids r \<and> (cr_prev_num_draft_len r = 0 \<longrightarrow> c1 = c)"
  using assms by (auto simp: settle_drafts_def bind_res_eq_Inr Let_def split: if_splits option.splits)

lemma sync_outputs_fields:
  assumes "sync_outputs cfg cd i idx c r b = Inr (r1, b1, ts)"
  shows "cr_req_id r1 = cr_req_id r \<and> cr_block_ids r1 = cr_block_ids r \<and> cr_num_computed_tokens r1 = cr_num_computed_tokens r
    \<and> b_index b1 = b_index b"
  using assms by (auto simp: sync_outputs_def bind_res_eq_Inr require_eq_Inr Let_def split: if_splits option.splits)

lemma update_blocks_fields:
  assumes "update_blocks resumed idx nb r = Inr r1"
  shows "cr_req_id r1 = cr_req_id r \<and> cr_num_computed_tokens r1 = cr_num_computed_tokens r
    \<and> cr_block_ids r1 = (if resumed then the nb else case nb of None \<Rightarrow> cr_block_ids r | Some ns \<Rightarrow> extend_blocks (cr_block_ids r) ns)"
  using assms by (auto simp: update_blocks_def require_eq_Inr split: if_splits option.splits)

text \<open>What one cached request contributes.\<close>

definition updated_from :: "cached_data \<Rightarrow> nat \<Rightarrow> 'p cached_request \<Rightarrow> 'p cached_request \<Rightarrow> bool" where
  "updated_from cd i r r' \<longleftrightarrow> cr_req_id r' = cr_req_id r
     \<and> (cr_prev_num_draft_len r = 0 \<longrightarrow> cr_num_computed_tokens r' = cd_num_computed_tokens cd ! i)
     \<and> cr_block_ids r' = (if cd_req_ids cd ! i \<in> set (cd_resumed_req_ids cd) then the (cd_new_block_ids cd ! i)
         else case cd_new_block_ids cd ! i of None \<Rightarrow> cr_block_ids r | Some ns \<Rightarrow> extend_blocks (cr_block_ids r) ns)"

lemma token_row_index: "token_row cfg k c ts b = Inr b' \<Longrightarrow> b_index b' = b_index b"
  by (auto simp: token_row_def bind_res_eq_Inr Let_def split: if_splits)

lemma draft_row_index: "draft_row k sp b = Inr b' \<Longrightarrow> b_index b' = b_index b"
  by (auto simp: draft_row_def bind_res_eq_Inr split: if_splits)

lemma block_row_keys: "ops_ok ops \<Longrightarrow> block_row ops k c nb b = Inr b' \<Longrightarrow> batch_keys b' = batch_keys b"
  by (cases nb) (auto simp: block_row_def bind_res_eq_Inr Let_def ops_ok_def simp del: set_map)

lemma update_row_keys:
  assumes "ops_ok ops" "update_row ops cfg k c nb ts sp b = Inr b'"
  shows "batch_keys b' = batch_keys b"
proof -
  obtain b1 b2 where "block_row ops k c nb b = Inr b1" "token_row cfg k c ts b1 = Inr b2" "draft_row k sp b2 = Inr b'"
    using assms(2) by (auto simp: update_row_def bind_res_eq_Inr)
  then show ?thesis using block_row_keys[OF assms(1)] by (simp add: token_row_index draft_row_index)
qed

lemma refresh_request_fields:
  assumes "refresh_request cfg vc cd i idx r b = Inr (r', c, b', ts, nb)"
  shows "updated_from cd i r r' \<and> b_index b' = b_index b"
proof -
  obtain r1 r2 where h: "i < length (cd_req_ids cd)" "i < length (cd_num_computed_tokens cd)" "i < length (cd_new_block_ids cd)"
    and 1: "settle_drafts vc b idx (cd_req_ids cd ! i) (cd_num_computed_tokens cd ! i) r = Inr (r1, c)"
    and 2: "sync_outputs cfg cd i idx c (r1\<lparr>cr_num_computed_tokens := c\<rparr>) b = Inr (r2, b', ts)"
    and 3: "update_blocks (cd_req_ids cd ! i \<in> set (cd_resumed_req_ids cd)) idx (cd_new_block_ids cd ! i) r2 = Inr r'"
    using assms by (auto simp: refresh_request_def bind_res_eq_Inr nth_res_eq_Inr)
  show ?thesis
    using settle_drafts_fields[OF 1] sync_outputs_fields[OF 2] update_blocks_fields[OF 3]
    by (simp add: updated_from_def cong: option.case_cong)
qed

lemma update_cached_step:
  assumes "ops_ok ops" "update_cached ops cfg vc i u = Inr u'" "cd = uo_scheduled_cached_reqs (us_output u)"
  shows "\<exists>r r'. dict_get (rs_requests (us_state u)) (cd_req_ids cd ! i) = Some r
    \<and> rs_requests (us_state u') = dict_set (cd_req_ids cd ! i) r' (rs_requests (us_state u)) \<and> updated_from cd i r r'
    \<and> batch_keys (rs_batch (us_state u')) = batch_keys (rs_batch (us_state u))
    \<and> set (us_add u') = set (us_add u) \<union> ({cd_req_ids cd ! i} - batch_keys (rs_batch (us_state u)))
    \<and> uo_scheduled_cached_reqs (us_output u') = cd"
proof -
  let ?rid = "cd_req_ids cd ! i" and ?b = "rs_batch (us_state u)"
  obtain r r' c b' ts nb where r: "dict_get (rs_requests (us_state u)) ?rid = Some r"
    and ref: "refresh_request cfg vc cd i (dict_get (b_index ?b) ?rid) r ?b = Inr (r', c, b', ts, nb)"
    and tail: "(case dict_get (b_index ?b) ?rid of None \<Rightarrow> readd_request cfg cd i ?rid r' b' u
      | Some k \<Rightarrow> let sp = scheduled_drafts (us_output u) ?rid in
          bind_res (update_row ops cfg k c nb ts sp b') (\<lambda>b2.
          if uc_use_async_scheduling cfg then
            let u1 = keep_request ?rid (r'\<lparr>cr_prev_num_draft_len := length sp\<rparr>) b2 u
            in if sp \<noteq> [] \<and> \<not> uc_has_draft_token_ids cfg
               then bind_res (withdraw_drafts ?rid sp (us_output u1)) (\<lambda>so. Inr (u1\<lparr>us_output := so\<rparr>)) else Inr u1
          else Inr (keep_request ?rid r' b2 u))) = Inr u'"
    using assms(2) unfolding update_cached_def assms(3)[symmetric] Let_def
    by (auto simp: bind_res_eq_Inr nth_res_eq_Inr dict_at_def split: option.splits)
  note f = refresh_request_fields[OF ref]
  show ?thesis
  proof (cases "dict_get (b_index ?b) ?rid")
    case None
    then have "?rid \<notin> batch_keys ?b" by (simp add: map_of_eq_None_iff)
    moreover obtain r2 where "u' = (keep_request ?rid r2 b' u)\<lparr>us_add := us_add u @ [?rid]\<rparr>" "updated_from cd i r r2"
      using tail None f
      by (auto simp: readd_request_def bind_res_eq_Inr keep_request_def updated_from_def Let_def split: if_splits)
    ultimately show ?thesis using r f assms(3) by (auto simp: keep_request_def)
  next
    case (Some k)
    then have k: "?rid \<in> batch_keys ?b" by (force dest: map_of_SomeD)
    obtain b2 where b2: "update_row ops cfg k c nb ts (scheduled_drafts (us_output u) ?rid) b' = Inr b2"
      using tail Some by (auto simp: Let_def bind_res_eq_Inr)
    have keys: "batch_keys b2 = batch_keys ?b" using update_row_keys[OF assms(1) b2] f by simp
    have "\<exists>r2. rs_requests (us_state u') = dict_set ?rid r2 (rs_requests (us_state u)) \<and> updated_from cd i r r2
        \<and> rs_batch (us_state u') = b2 \<and> us_add u' = us_add u \<and> uo_scheduled_cached_reqs (us_output u') = cd"
      using tail Some b2 assms(3) f
      by (auto simp: Let_def withdraw_drafts_def bind_res_eq_Inr keep_request_def updated_from_def split: if_splits)
    then show ?thesis using r k keys by auto
  qed
qed

text \<open>The new requests, the cached requests and the requests to add, one after another.\<close>

lemma add_new_all:
  assumes "fold_res (add_new cfg) rs u = Inr u'"
  shows "set (dict_keys (rs_requests (us_state u'))) = set (dict_keys (rs_requests (us_state u))) \<union> set (map nr_req_id rs)
    \<and> (\<forall>k. k \<notin> set (map nr_req_id rs) \<longrightarrow> dict_get (rs_requests (us_state u')) k = dict_get (rs_requests (us_state u)) k)
    \<and> (requests_ok (rs_requests (us_state u)) \<longrightarrow> requests_ok (rs_requests (us_state u')))
    \<and> rs_batch (us_state u') = rs_batch (us_state u) \<and> us_output u' = us_output u
    \<and> us_add u' = us_add u @ map nr_req_id rs"
  using assms
proof (induction rs arbitrary: u)
  case (Cons r rs)
  obtain u1 where u1: "add_new cfg r u = Inr u1" "fold_res (add_new cfg) rs u1 = Inr u'"
    using Cons.prems by (auto split: sum.splits)
  have "u1 = u\<lparr>us_state := (us_state u)\<lparr>rs_requests := dict_set (nr_req_id r) (cached_request_of r) (rs_requests (us_state u))\<rparr>,
      us_add := us_add u @ [nr_req_id r]\<rparr>"
    using u1(1) by (simp add: add_new_def require_eq_Inr Let_def)
  then have d: "rs_requests (us_state u1) = dict_set (nr_req_id r) (cached_request_of r) (rs_requests (us_state u))"
      "rs_batch (us_state u1) = rs_batch (us_state u)" "us_output u1 = us_output u" "us_add u1 = us_add u @ [nr_req_id r]"
    by simp_all
  have ok: "requests_ok (rs_requests (us_state u)) \<Longrightarrow> requests_ok (rs_requests (us_state u1))"
    by (simp add: d requests_ok_def cached_request_of_def)
  note IH = Cons.IH[OF u1(2)]
  show ?case
  proof (intro conjI impI allI)
    show "set (dict_keys (rs_requests (us_state u'))) = set (dict_keys (rs_requests (us_state u))) \<union> set (map nr_req_id (r # rs))"
      using conjunct1[OF IH] unfolding d dict_set_keys by simp
    show "dict_get (rs_requests (us_state u')) k = dict_get (rs_requests (us_state u)) k" if "k \<notin> set (map nr_req_id (r # rs))" for k
      using IH that d(1) by simp
  qed (use IH ok d in simp_all)
qed simp

lemma update_cached_all:
  assumes "ops_ok ops" "fold_res (update_cached ops cfg vc) [0..<n] u = Inr u'"
    and "distinct (cd_req_ids (uo_scheduled_cached_reqs (us_output u)))"
    and "n \<le> length (cd_req_ids (uo_scheduled_cached_reqs (us_output u)))"
  defines "cd \<equiv> uo_scheduled_cached_reqs (us_output u)"
  shows "uo_scheduled_cached_reqs (us_output u') = cd
    \<and> batch_keys (rs_batch (us_state u')) = batch_keys (rs_batch (us_state u))
    \<and> set (us_add u') = set (us_add u) \<union> (set (take n (cd_req_ids cd)) - batch_keys (rs_batch (us_state u)))
    \<and> set (dict_keys (rs_requests (us_state u'))) = set (dict_keys (rs_requests (us_state u)))
    \<and> (requests_ok (rs_requests (us_state u)) \<longrightarrow> requests_ok (rs_requests (us_state u')))
    \<and> (\<forall>k. k \<notin> set (take n (cd_req_ids cd)) \<longrightarrow> dict_get (rs_requests (us_state u')) k = dict_get (rs_requests (us_state u)) k)
    \<and> (\<forall>i < n. \<exists>r r'. dict_get (rs_requests (us_state u)) (cd_req_ids cd ! i) = Some r
        \<and> dict_get (rs_requests (us_state u')) (cd_req_ids cd ! i) = Some r' \<and> updated_from cd i r r')"
  using assms(2,4) unfolding cd_def[symmetric]
proof (induction n arbitrary: u')
  case 0
  then show ?case by (simp add: cd_def)
next
  case (Suc n)
  obtain u1 where u1: "fold_res (update_cached ops cfg vc) [0..<n] u = Inr u1" "update_cached ops cfg vc n u1 = Inr u'"
    using Suc.prems(1) by (auto simp: fold_res_append split: sum.splits)
  note IH = Suc.IH[OF u1(1)]
  have n: "n < length (cd_req_ids cd)" using Suc.prems(2) by simp
  have cd1: "cd = uo_scheduled_cached_reqs (us_output u1)" using IH n by simp
  let ?id = "cd_req_ids cd ! n"
  have fresh: "?id \<notin> set (take n (cd_req_ids cd))"
    using assms(3) n unfolding cd_def[symmetric] by (auto simp: in_set_conv_nth nth_eq_iff_index_eq)
  have old: "cd_req_ids cd ! i \<noteq> ?id" if "i < n" for i
    using assms(3) n that unfolding cd_def[symmetric] by (simp add: nth_eq_iff_index_eq)
  have tk: "set (take (Suc n) (cd_req_ids cd)) = insert ?id (set (take n (cd_req_ids cd)))"
    using n by (simp add: take_Suc_conv_app_nth)
  obtain r r' where st: "dict_get (rs_requests (us_state u1)) ?id = Some r"
      "rs_requests (us_state u') = dict_set ?id r' (rs_requests (us_state u1))" "updated_from cd n r r'"
      "batch_keys (rs_batch (us_state u')) = batch_keys (rs_batch (us_state u1))"
      "set (us_add u') = set (us_add u1) \<union> ({?id} - batch_keys (rs_batch (us_state u1)))"
      "uo_scheduled_cached_reqs (us_output u') = cd"
    using update_cached_step[OF assms(1) u1(2) cd1] by blast
  have r: "dict_get (rs_requests (us_state u)) ?id = Some r" using st(1) IH fresh n by simp
  have mem: "?id \<in> set (dict_keys (rs_requests (us_state u1)))" using st(1) by (force dest: map_of_SomeD)
  show ?case
  proof (intro conjI allI impI)
    show "requests_ok (rs_requests (us_state u'))" if "requests_ok (rs_requests (us_state u))"
    proof -
      have ok: "requests_ok (rs_requests (us_state u1))" using IH n that by simp
      then have "cr_req_id r' = ?id" using st(1,3) by (simp add: requests_ok_def updated_from_def)
      then show ?thesis using ok st(2) by (simp add: requests_ok_def)
    qed
    show "\<exists>r r'. dict_get (rs_requests (us_state u)) (cd_req_ids cd ! i) = Some r
        \<and> dict_get (rs_requests (us_state u')) (cd_req_ids cd ! i) = Some r' \<and> updated_from cd i r r'" if "i < Suc n" for i
    proof (cases "i = n")
      case True
      then show ?thesis using r st by auto
    next
      case False
      then have i: "i < n" using that by simp
      then have "dict_get (rs_requests (us_state u')) (cd_req_ids cd ! i) = dict_get (rs_requests (us_state u1)) (cd_req_ids cd ! i)"
        using old[OF i] st(2) by simp
      then show ?thesis using IH n i by simp
    qed
    show "set (dict_keys (rs_requests (us_state u'))) = set (dict_keys (rs_requests (us_state u)))"
      using IH n mem unfolding st(2) dict_set_keys by auto
    show "set (us_add u') = set (us_add u) \<union> (set (take (Suc n) (cd_req_ids cd)) - batch_keys (rs_batch (us_state u)))"
      using IH n unfolding st(5) tk by auto
    show "dict_get (rs_requests (us_state u')) k = dict_get (rs_requests (us_state u)) k"
      if "k \<notin> set (take (Suc n) (cd_req_ids cd))" for k
      using that IH n unfolding tk st(2) by simp
  qed (use IH n st in simp_all)
qed

lemma add_to_batch_all:
  assumes "ops_ok ops" "fold_res (add_to_batch ops) ids u = Inr u'" "requests_ok (rs_requests (us_state u))"
  shows "rs_requests (us_state u') = rs_requests (us_state u)
    \<and> batch_keys (rs_batch (us_state u')) = batch_keys (rs_batch (us_state u)) \<union> set ids"
  using assms(2,3)
proof (induction ids arbitrary: u)
  case (Cons i ids)
  obtain u1 where u1: "add_to_batch ops i u = Inr u1" "fold_res (add_to_batch ops) ids u1 = Inr u'"
    using Cons.prems(1) by (auto split: sum.splits)
  obtain r where r: "dict_get (rs_requests (us_state u)) i = Some r" "rs_requests (us_state u1) = rs_requests (us_state u)"
      "b_index (rs_batch (us_state u1)) = b_index (bo_add ops r (rs_batch (us_state u)))"
    using u1(1) by (auto simp: add_to_batch_def bind_res_eq_Inr dict_at_def Let_def split: option.splits)
  have "cr_req_id r = i" using Cons.prems(2) r(1) by (simp add: requests_ok_def)
  then have "batch_keys (rs_batch (us_state u1)) = insert i (batch_keys (rs_batch (us_state u)))"
    using assms(1) r(3) unfolding ops_ok_def by metis
  then show ?case using Cons.IH[OF u1(2)] Cons.prems(2) r(2) by auto
qed simp

text \<open>
  C10. After the update the persistent batch holds exactly the requests of the step, in whatever order
  the sets of ids are traversed: finished and unscheduled requests have left it, new and resumed ones
  have entered it. The cached requests are the old ones without the finished and with the new ones,
  each under its own id, and every running or resumed request carries the computed tokens of the
  scheduler (unless drafts of the last step are settled) and its blocks, extended or, after a
  preemption, replaced.
\<close>
theorem update_states_batch:
  assumes "ops_ok ops" "\<And>xs. set (set_order xs) = set xs" "requests_ok (rs_requests s)"
    and "distinct (cd_req_ids (uo_scheduled_cached_reqs so))"
    and "set (map nr_req_id (uo_scheduled_new_reqs so)) \<inter> set (cd_req_ids (uo_scheduled_cached_reqs so)) = {}"
    and "set (dict_keys (uo_num_scheduled_tokens so)) =
      set (map nr_req_id (uo_scheduled_new_reqs so)) \<union> set (cd_req_ids (uo_scheduled_cached_reqs so))"
    and "update_states ops cfg set_order valid_counts so s = Inr (s', so')"
  shows "batch_keys (rs_batch s') = set (dict_keys (uo_num_scheduled_tokens so))
    \<and> set (dict_keys (rs_requests s')) =
        set (dict_keys (rs_requests s)) - set (uo_finished_req_ids so) \<union> set (map nr_req_id (uo_scheduled_new_reqs so))
    \<and> requests_ok (rs_requests s')
    \<and> (\<forall>i < length (cd_req_ids (uo_scheduled_cached_reqs so)).
        \<exists>r r'. dict_get (rs_requests s) (cd_req_ids (uo_scheduled_cached_reqs so) ! i) = Some r
          \<and> dict_get (rs_requests s') (cd_req_ids (uo_scheduled_cached_reqs so) ! i) = Some r'
          \<and> updated_from (uo_scheduled_cached_reqs so) i r r')"
proof -
  let ?cd = "uo_scheduled_cached_reqs so" and ?sched = "set (dict_keys (uo_num_scheduled_tokens so))"
  let ?new = "map nr_req_id (uo_scheduled_new_reqs so)" and ?fin = "set (uo_finished_req_ids so)"
  let ?n = "length (cd_req_ids ?cd)"
  obtain s1 u1 u2 u3 where s1: "drop_finished ops so s = Inr s1"
    and u1: "fold_res (add_new cfg) (uo_scheduled_new_reqs so)
        \<lparr>us_state = drop_unscheduled ops set_order so s1, us_output = so, us_add = []\<rparr> = Inr u1"
    and u2: "fold_res (update_cached ops cfg valid_counts) [0..<?n] u1 = Inr u2"
    and u3: "fold_res (add_to_batch ops) (us_add u2) u2 = Inr u3"
    and s': "s' = (us_state u3)\<lparr>rs_batch := bo_refresh ops (bo_reorder ops (bo_condense ops (rs_batch (us_state u3))))\<rparr>"
    using assms(7) by (auto simp: update_states_def bind_res_eq_Inr Let_def)
  have d1: "rs_requests s1 = fold dict_pop (uo_finished_req_ids so) (rs_requests s)"
    and k1: "batch_keys (rs_batch s1) = batch_keys (rs_batch s) - ?fin"
    using s1 removed_keys[OF assms(1)] by (auto simp: drop_finished_def bind_res_eq_Inr Let_def simp del: set_map)
  let ?s2 = "drop_unscheduled ops set_order so s1"
  have d2: "rs_requests ?s2 = rs_requests s1" by (simp add: drop_unscheduled_def Let_def)
  have k2: "batch_keys (rs_batch ?s2) \<subseteq> ?sched"
    using removed_keys[OF assms(1)] assms(2) by (auto simp: drop_unscheduled_def Let_def simp del: set_map)
  have ok1: "requests_ok (rs_requests s1)" using assms(3) unfolding d1 requests_ok_def popped_get by simp
  have keys1: "set (dict_keys (rs_requests s1)) = set (dict_keys (rs_requests s)) - ?fin"
  proof -
    have "set (dict_keys (fold dict_pop ks d)) = set (dict_keys d) - set ks" for ks and d :: "(nat, 'a cached_request) dict"
      by (induction ks arbitrary: d) (auto simp del: set_map)
    then show ?thesis unfolding d1 .
  qed
  note a = add_new_all[OF u1, unfolded update_state.simps d2]
  have out1: "us_output u1 = so" using a by simp
  note c = update_cached_all[OF assms(1) u2, unfolded out1, OF assms(4) order_refl]
  have ok2: "requests_ok (rs_requests (us_state u2))" using a c ok1 by simp
  note b = add_to_batch_all[OF assms(1) u3 ok2]
  have "batch_keys (rs_batch s') = batch_keys (rs_batch (us_state u3))"
    using assms(1) unfolding s' ops_ok_def by simp
  also have "\<dots> = batch_keys (rs_batch ?s2) \<union> set ?new \<union> set (cd_req_ids ?cd)"
    using a b c by auto
  also have "\<dots> = ?sched" using k2 assms(6) by auto
  finally have batch: "batch_keys (rs_batch s') = ?sched" .
  have keys: "set (dict_keys (rs_requests s')) = set (dict_keys (rs_requests s)) - ?fin \<union> set ?new"
    using a b c keys1 unfolding s' by simp
  have "\<exists>r r'. dict_get (rs_requests s) (cd_req_ids ?cd ! i) = Some r
      \<and> dict_get (rs_requests s') (cd_req_ids ?cd ! i) = Some r' \<and> updated_from ?cd i r r'" if i: "i < ?n" for i
  proof -
    have notnew: "cd_req_ids ?cd ! i \<notin> set ?new" using assms(5) nth_mem[OF i] by auto
    obtain r r' where r: "dict_get (rs_requests (us_state u1)) (cd_req_ids ?cd ! i) = Some r"
        "dict_get (rs_requests (us_state u2)) (cd_req_ids ?cd ! i) = Some r'" "updated_from ?cd i r r'"
      using c i by blast
    have "dict_get (rs_requests s1) (cd_req_ids ?cd ! i) = Some r" using a r(1) notnew by metis
    then have "dict_get (rs_requests s) (cd_req_ids ?cd ! i) = Some r" unfolding d1 popped_get by (simp split: if_splits)
    moreover have "dict_get (rs_requests s') (cd_req_ids ?cd ! i) = Some r'" using b r(2) unfolding s' by simp
    ultimately show ?thesis using r(3) by blast
  qed
  then show ?thesis using batch keys b ok2 unfolding s' by simp
qed

section \<open>A concrete step\<close>

definition demo_ops :: "(unit, unit) batch_ops" where
  "demo_ops = \<lparr>bo_remove = (\<lambda>r b. b\<lparr>b_index := dict_pop r (b_index b)\<rparr>),
     bo_add = (\<lambda>r b. b\<lparr>b_index := dict_set (cr_req_id r) 1 (b_index b)\<rparr>),
     bo_append_row = (\<lambda>_ _ b. b), bo_condense = id, bo_reorder = id, bo_refresh = id\<rparr>"

lemma demo_ops_ok: "ops_ok demo_ops"
  by (simp add: ops_ok_def demo_ops_def)

definition demo_request :: "nat \<Rightarrow> unit cached_request" where
  "demo_request r = \<lparr>cr_req_id = r, cr_block_ids = [[r]], cr_num_computed_tokens = 4, cr_output_token_ids = [],
     cr_num_prompt_tokens = 4, cr_prev_num_draft_len = 0, cr_params = ()\<rparr>"

definition demo_runner :: "(unit, unit) runner_state" where
  "demo_runner = \<lparr>rs_requests = [(1, demo_request 1), (2, demo_request 2), (3, demo_request 3)],
     rs_batch = \<lparr>b_index = [(1, 0), (2, 1), (3, 2)], b_prev_index = None, b_num_prompt_tokens = [4, 4, 4],
       b_num_tokens = [4, 4, 4], b_num_tokens_no_spec = [4, 4, 4], b_num_computed_tokens = [0, 0, 0],
       b_token_ids = [[0, 0, 0, 0, 0, 0], [], []], b_spec_token_ids = [[], [], []], b_rest = ()\<rparr>,
     rs_kv = Some \<lparr>ks_free = [1], ks_slots = [(2, 0)]\<rparr>, rs_encoder_cache = []\<rparr>"

definition demo_output :: "unit update_output" where
  "demo_output = \<lparr>uo_finished_req_ids = [2], uo_free_encoder_mm_hashes = [],
     uo_scheduled_new_reqs = [\<lparr>nr_req_id = 4, nr_block_ids = [[7]], nr_num_computed_tokens = 0, nr_new_token_ids = None,
       nr_num_prompt_tokens = 3, nr_pooling_task = None, nr_params = ()\<rparr>],
     uo_scheduled_cached_reqs = \<lparr>cd_req_ids = [1], cd_resumed_req_ids = [], cd_new_token_ids = [], cd_all_token_ids = [],
       cd_new_block_ids = [Some [[8]]], cd_num_computed_tokens = [4], cd_num_output_tokens = [0]\<rparr>,
     uo_num_scheduled_tokens = [(4, 3), (1, 2)], uo_total_num_scheduled_tokens = 5,
     uo_scheduled_spec_decode_tokens = [(1, [9])]\<rparr>"

abbreviation "demo_config \<equiv> \<lparr>uc_is_pooling_model = False, uc_is_last_rank = True, uc_use_async_scheduling = False,
  uc_has_draft_token_ids = True\<rparr>"

lemmas update_states_defs = update_states_def drop_finished_def remove_req_id_def remove_one_def drop_unscheduled_def add_new_def
  cached_request_of_def update_cached_def refresh_request_def settle_drafts_def sync_outputs_def update_blocks_def update_row_def
  block_row_def token_row_def draft_row_def keep_request_def readd_request_def scheduled_drafts_def add_to_batch_def put_slice_def
  py_bound_def dict_at_def dict_pop_def Let_def

lemma update_states_batch_witness:
  "\<exists>s' so'. update_states demo_ops demo_config rev [] demo_output demo_runner = Inr (s', so')
    \<and> batch_keys (rs_batch s') = {1, 4} \<and> set (dict_keys (rs_requests s')) = {1, 3, 4}
    \<and> (\<exists>r'. dict_get (rs_requests s') 1 = Some r' \<and> updated_from (uo_scheduled_cached_reqs demo_output) 0 (demo_request 1) r')"
proof -
  obtain s' so' where r: "update_states demo_ops demo_config rev [] demo_output demo_runner = Inr (s', so')"
    by (simp add: update_states_defs demo_ops_def demo_output_def demo_runner_def demo_request_def)
  have ok: "requests_ok (rs_requests demo_runner)"
    by (auto simp: requests_ok_def demo_runner_def demo_request_def split: if_splits)
  have out: "uo_scheduled_cached_reqs demo_output = \<lparr>cd_req_ids = [1], cd_resumed_req_ids = [], cd_new_token_ids = [],
      cd_all_token_ids = [], cd_new_block_ids = [Some [[8]]], cd_num_computed_tokens = [4], cd_num_output_tokens = [0]\<rparr>"
    by (simp add: demo_output_def)
  have "distinct (cd_req_ids (uo_scheduled_cached_reqs demo_output))" by (simp add: out)
  moreover have "set (map nr_req_id (uo_scheduled_new_reqs demo_output)) \<inter> set (cd_req_ids (uo_scheduled_cached_reqs demo_output)) = {}"
      "set (dict_keys (uo_num_scheduled_tokens demo_output)) = set (map nr_req_id (uo_scheduled_new_reqs demo_output))
        \<union> set (cd_req_ids (uo_scheduled_cached_reqs demo_output))"
    by (auto simp: demo_output_def)
  ultimately have u: "batch_keys (rs_batch s') = set (dict_keys (uo_num_scheduled_tokens demo_output))
      \<and> set (dict_keys (rs_requests s')) = set (dict_keys (rs_requests demo_runner)) - set (uo_finished_req_ids demo_output)
          \<union> set (map nr_req_id (uo_scheduled_new_reqs demo_output))
      \<and> requests_ok (rs_requests s')
      \<and> (\<forall>i < length (cd_req_ids (uo_scheduled_cached_reqs demo_output)).
          \<exists>r r'. dict_get (rs_requests demo_runner) (cd_req_ids (uo_scheduled_cached_reqs demo_output) ! i) = Some r
            \<and> dict_get (rs_requests s') (cd_req_ids (uo_scheduled_cached_reqs demo_output) ! i) = Some r'
            \<and> updated_from (uo_scheduled_cached_reqs demo_output) i r r')"
    by (intro update_states_batch[OF demo_ops_ok set_rev ok _ _ _ r])
  have "set (dict_keys (uo_num_scheduled_tokens demo_output)) = {1, 4}"
      "set (dict_keys (rs_requests demo_runner)) - set (uo_finished_req_ids demo_output)
        \<union> set (map nr_req_id (uo_scheduled_new_reqs demo_output)) = {1, 3, 4}"
      "dict_get (rs_requests demo_runner) 1 = Some (demo_request 1)"
    by (auto simp: demo_output_def demo_runner_def)
  then show ?thesis using u r by (intro exI[of _ s'] exI[of _ so']) (auto simp: out simp del: set_map)
qed

end
