(* ===== verification/Bookkeeping.thy ===== *)
theory Bookkeeping
  imports UpdateStates
begin

text \<open>
  Recording the sampled tokens (\<^verbatim>\<open>_bookkeeping_sync\<close> of
  \<^verbatim>\<open>vllm_mlu/v1/worker/gpu_model_runner.py\<close>). The conversion of the sampled tensor into lists
  (vLLM's \<^verbatim>\<open>_to_list\<close> and \<^verbatim>\<open>parse_output\<close>) is an argument; the log probabilities are not
  modelled beyond the prefix sums the code hands to them.
\<close>

section \<open>The state\<close>

record book_config =
  bc_use_async_scheduling :: bool
  bc_num_spec_tokens :: nat
  bc_max_model_len :: nat
  bc_wants_logprobs :: bool

record ('p, 'x) book_state =
  bk_requests :: "(nat, 'p cached_request) dict"
  bk_req_ids :: "nat list"
  bk_batch :: "'x batch"
  bk_is_token_ids :: "bool list list"
  bk_generators :: "(nat, int) dict"
  bk_prev_sampled :: "int list list option"

text \<open>A generator of a discarded request is set back by the four steps it took.\<close>

definition rewind_generator :: "nat \<Rightarrow> (nat, int) dict \<Rightarrow> (nat, int) dict" where
  "rewind_generator i gens = (case dict_get gens i of None \<Rightarrow> gens | Some off \<Rightarrow> dict_set i (off - 4) gens)"

section \<open>The valid tokens of the step\<close>

definition sync_valid_tokens ::
  "(int list list \<Rightarrow> int list list) \<Rightarrow> (int list list \<Rightarrow> int list list) \<Rightarrow> nat \<Rightarrow> nat list \<Rightarrow> int list list \<Rightarrow> int list list res" where
  "sync_valid_tokens to_list parse_output max_gen_len discarded sampled =
     fold_res (\<lambda>i valid. put_res valid i []) discarded
       (if max_gen_len = 1 then to_list sampled else parse_output sampled)"

definition cache_sampled ::
  "nat \<Rightarrow> nat list \<Rightarrow> int list list \<Rightarrow> ('p, 'x) book_state \<Rightarrow> ('p, 'x) book_state res" where
  "cache_sampled max_gen_len discarded sampled s =
     bind_res (case bk_prev_sampled s of
         None \<Rightarrow> require (max_gen_len = 1) AssertionError (Inr (s\<lparr>bk_prev_sampled := Some sampled\<rparr>))
       | Some _ \<Rightarrow> Inr s) (\<lambda>s1.
     let prev = map (\<lambda>i. (bk_req_ids s1 ! i, i)) (filter (\<lambda>i. i \<notin> set discarded) [0..<length (bk_req_ids s1)])
     in Inr (s1\<lparr>bk_batch := (bk_batch s1)\<lparr>b_prev_index := Some (foldl (\<lambda>d (r, i). dict_set r i d) [] prev)\<rparr>\<rparr>))"

section \<open>Writing the tokens of a request\<close>

definition store_tokens :: "book_config \<Rightarrow> nat \<Rightarrow> int list \<Rightarrow> ('p, 'x) book_state \<Rightarrow> ('p, 'x) book_state res" where
  "store_tokens cfg req_idx sampled_ids s =
     (let b = bk_batch s; max_len = int (bc_max_model_len cfg) in
      bind_res (nth_res (b_num_tokens_no_spec b) req_idx) (\<lambda>start_idx.
      let end_idx = start_idx + int (length sampled_ids)
      in require (end_idx \<le> int (bc_num_spec_tokens cfg) + max_len + (if bc_use_async_scheduling cfg then 1 else 0)) AssertionError
        (let over = max_len < end_idx;
             end_idx' = (if over then max_len else end_idx);
             ids = (if over then take (py_bound (length sampled_ids) (max_len - start_idx)) sampled_ids else sampled_ids)
         in bind_res (nth_res (b_token_ids b) req_idx) (\<lambda>row.
            bind_res (put_slice row start_idx end_idx' ids) (\<lambda>row'.
            bind_res (nth_res (bk_is_token_ids s) req_idx) (\<lambda>flags.
            bind_res (put_slice flags start_idx end_idx' [True]) (\<lambda>flags'.
            bind_res (put_res (b_num_tokens b) req_idx end_idx') (\<lambda>nt.
            bind_res (nth_res (bk_req_ids s) req_idx) (\<lambda>req_id.
            bind_res (dict_at (bk_requests s) req_id) (\<lambda>r.
            Inr (s\<lparr>bk_batch := b\<lparr>b_token_ids := (b_token_ids b)[req_idx := row'],
                       b_num_tokens_no_spec := (b_num_tokens_no_spec b)[req_idx := end_idx'], b_num_tokens := nt\<rparr>,
                   bk_is_token_ids := (bk_is_token_ids s)[req_idx := flags'],
                   bk_requests := dict_set req_id (r\<lparr>cr_output_token_ids := cr_output_token_ids r @ ids\<rparr>) (bk_requests s)\<rparr>)))))))))))"

text \<open>One request: the prefix sum of accepted tokens, and the tokens unless there are none.\<close>

definition book_request ::
  "book_config \<Rightarrow> nat list \<Rightarrow> int list list \<Rightarrow> nat \<Rightarrow> nat list option \<times> ('p, 'x) book_state
    \<Rightarrow> (nat list option \<times> ('p, 'x) book_state) res" where
  "book_request cfg discarded valid req_idx st =
     bind_res (if bc_use_async_scheduling cfg then Inr (if req_idx \<in> set discarded then None else Some [-1])
               else bind_res (nth_res valid req_idx) (\<lambda>ids. Inr (Some ids))) (\<lambda>sampled_ids.
     let num_sampled_ids = (case sampled_ids of None \<Rightarrow> 0 | Some ids \<Rightarrow> length ids);
         cu = (case fst st of None \<Rightarrow> None | Some cu \<Rightarrow> Some (cu @ [last cu + num_sampled_ids]))
     in case sampled_ids of
          None \<Rightarrow> Inr (cu, snd st)
        | Some ids \<Rightarrow> if ids = [] then Inr (cu, snd st)
            else bind_res (store_tokens cfg req_idx ids (snd st)) (\<lambda>s. Inr (cu, s)))"

record bookkeeping =
  bo_cu_num_accepted :: "nat list option"
  bo_valid_sampled_token_ids :: "int list list"
  bo_req_ids :: "nat list"
  bo_req_id_to_index :: "(nat, nat) dict"
  bo_invalid_req_indices :: "nat list"

definition bookkeeping_sync ::
  "(int list list \<Rightarrow> int list list) \<Rightarrow> (int list list \<Rightarrow> int list list) \<Rightarrow> book_config \<Rightarrow> nat \<Rightarrow> nat list \<Rightarrow> int list list
    \<Rightarrow> ('p, 'x) book_state \<Rightarrow> (bookkeeping \<times> ('p, 'x) book_state) res" where
  "bookkeeping_sync to_list parse_output cfg max_gen_len discarded sampled s =
     (let s1 = s\<lparr>bk_generators := fold rewind_generator discarded (bk_generators s)\<rparr>
      in bind_res (if bc_use_async_scheduling cfg
           then bind_res (cache_sampled max_gen_len discarded sampled s1) (\<lambda>s2. Inr ([], discarded, s2))
           else bind_res (sync_valid_tokens to_list parse_output max_gen_len discarded sampled) (\<lambda>v. Inr (v, [], s1)))
         (\<lambda>(valid, invalid, s2).
         bind_res (fold_res (book_request cfg invalid valid) [0..<length sampled]
           (if bc_wants_logprobs cfg then Some [0] else None, s2)) (\<lambda>(cu, s3).
         Inr (\<lparr>bo_cu_num_accepted = cu, bo_valid_sampled_token_ids = valid, bo_req_ids = bk_req_ids s,
               bo_req_id_to_index = b_index (bk_batch s), bo_invalid_req_indices = invalid\<rparr>, s3))))"

section \<open>The rows and the cached requests agree\<close>

definition row_ok :: "book_config \<Rightarrow> ('p, 'x) book_state \<Rightarrow> nat \<Rightarrow> bool" where
  "row_ok cfg s k \<longleftrightarrow> k < length (bk_req_ids s) \<and> k < length (b_token_ids (bk_batch s)) \<and> k < length (bk_is_token_ids s)
     \<and> k < length (b_num_tokens (bk_batch s)) \<and> k < length (b_num_tokens_no_spec (bk_batch s))
     \<and> length (b_token_ids (bk_batch s) ! k) = bc_max_model_len cfg \<and> length (bk_is_token_ids s ! k) = bc_max_model_len cfg
     \<and> (case dict_get (bk_requests s) (bk_req_ids s ! k) of None \<Rightarrow> False
        | Some r \<Rightarrow> b_num_tokens_no_spec (bk_batch s) ! k = int (cr_num_prompt_tokens r + length (cr_output_token_ids r))
            \<and> cr_num_prompt_tokens r + length (cr_output_token_ids r) \<le> bc_max_model_len cfg)"

abbreviation tokens_of :: "('p, 'x) book_state \<Rightarrow> nat \<Rightarrow> nat" where
  "tokens_of s k \<equiv> nat (b_num_tokens_no_spec (bk_batch s) ! k)"

abbreviation outputs_of :: "('p, 'x) book_state \<Rightarrow> nat \<Rightarrow> int list" where
  "outputs_of s k \<equiv> cr_output_token_ids (the (dict_get (bk_requests s) (bk_req_ids s ! k)))"

lemma put_slice_fits:
  assumes "a + length vs \<le> length xs"
  shows "put_slice xs (int a) (int (a + length vs)) vs = Inr (take a xs @ vs @ drop (a + length vs) xs)"
proof -
  have "py_bound (length xs) (int a) = a" "py_bound (length xs) (int (a + length vs)) = a + length vs"
    using assms by (simp_all add: py_bound_def)
  then show ?thesis by (simp only: put_slice_def Let_def add_diff_cancel_left') simp
qed

lemma put_slice_broadcast:
  assumes "a + n \<le> length xs"
  shows "put_slice xs (int a) (int (a + n)) [v] = Inr (take a xs @ replicate n v @ drop (a + n) xs)"
proof -
  have "py_bound (length xs) (int a) = a" "py_bound (length xs) (int (a + n)) = a + n"
    using assms by (simp_all add: py_bound_def)
  then show ?thesis by (simp only: put_slice_def Let_def add_diff_cancel_left') auto
qed

text \<open>How far the assertion lets a request be sampled.\<close>

definition length_limit :: "book_config \<Rightarrow> nat" where
  "length_limit cfg = bc_num_spec_tokens cfg + bc_max_model_len cfg + (if bc_use_async_scheduling cfg then 1 else 0)"

text \<open>What storing tokens does to one row and one request.\<close>

lemma store_tokens_ok:
  assumes "row_ok cfg s k" "tokens_of s k + length ids \<le> length_limit cfg"
  defines "kept \<equiv> take (bc_max_model_len cfg - tokens_of s k) ids"
  shows "\<exists>s' r. store_tokens cfg k ids s = Inr s' \<and> dict_get (bk_requests s) (bk_req_ids s ! k) = Some r
    \<and> bk_requests s' = dict_set (bk_req_ids s ! k) (r\<lparr>cr_output_token_ids := cr_output_token_ids r @ kept\<rparr>) (bk_requests s)
    \<and> bk_req_ids s' = bk_req_ids s
    \<and> b_num_tokens_no_spec (bk_batch s') = (b_num_tokens_no_spec (bk_batch s))[k := int (tokens_of s k + length kept)]
    \<and> b_num_tokens (bk_batch s') = (b_num_tokens (bk_batch s))[k := int (tokens_of s k + length kept)]
    \<and> b_token_ids (bk_batch s') = (b_token_ids (bk_batch s))[k := take (tokens_of s k) (b_token_ids (bk_batch s) ! k) @ kept
        @ drop (tokens_of s k + length kept) (b_token_ids (bk_batch s) ! k)]
    \<and> bk_is_token_ids s' = (bk_is_token_ids s)[k := take (tokens_of s k) (bk_is_token_ids s ! k) @ replicate (length kept) True
        @ drop (tokens_of s k + length kept) (bk_is_token_ids s ! k)]"
proof -
  let ?b = "bk_batch s" and ?M = "bc_max_model_len cfg"
  obtain r where r: "dict_get (bk_requests s) (bk_req_ids s ! k) = Some r"
      "b_num_tokens_no_spec ?b ! k = int (cr_num_prompt_tokens r + length (cr_output_token_ids r))"
      "cr_num_prompt_tokens r + length (cr_output_token_ids r) \<le> ?M"
    using assms(1) by (auto simp: row_ok_def split: option.splits)
  define a where "a = cr_num_prompt_tokens r + length (cr_output_token_ids r)"
  have a: "b_num_tokens_no_spec ?b ! k = int a" "tokens_of s k = a" "a \<le> ?M" using r(2,3) by (simp_all add: a_def)
  have kept: "kept = take (?M - a) ids" using a by (simp add: kept_def)
  have end_idx: "(if int ?M < int a + int (length ids) then int ?M else int a + int (length ids)) = int (a + length kept)"
    using a(3) by (auto simp: kept)
  have cut: "(if int ?M < int a + int (length ids) then take (py_bound (length ids) (int ?M - int a)) ids else ids) = kept"
    using a(3) by (auto simp: kept py_bound_def nat_diff_distrib min_def)
  have len: "a + length kept \<le> ?M" using a(3) by (simp add: kept)
  have rows: "k < length (b_token_ids ?b)" "k < length (bk_is_token_ids s)" "k < length (b_num_tokens ?b)"
      "k < length (b_num_tokens_no_spec ?b)" "k < length (bk_req_ids s)"
      "length (b_token_ids ?b ! k) = ?M" "length (bk_is_token_ids s ! k) = ?M"
    using assms(1) by (simp_all add: row_ok_def)
  have fits: "int a + int (length ids) \<le> int (bc_num_spec_tokens cfg) + int ?M + (if bc_use_async_scheduling cfg then 1 else 0)"
    using assms(2) a(2) by (auto simp: length_limit_def)
  have tok: "put_slice (b_token_ids ?b ! k) (int a) (int (a + length kept)) kept =
      Inr (take a (b_token_ids ?b ! k) @ kept @ drop (a + length kept) (b_token_ids ?b ! k))"
    using put_slice_fits[of a kept "b_token_ids ?b ! k"] len rows by simp
  have flg: "put_slice (bk_is_token_ids s ! k) (int a) (int (a + length kept)) [True] =
      Inr (take a (bk_is_token_ids s ! k) @ replicate (length kept) True @ drop (a + length kept) (bk_is_token_ids s ! k))"
    using put_slice_broadcast[of a "length kept" "bk_is_token_ids s ! k" True] len rows by simp
  show ?thesis
    unfolding store_tokens_def Let_def nth_res_in[OF rows(4)] bind_res_simps a(1) a(2) end_idx cut require_def if_P[OF fits]
      nth_res_in[OF rows(1)] tok nth_res_in[OF rows(2)] flg put_res_in[OF rows(3)] nth_res_in[OF rows(5)]
    using r(1) by (simp add: dict_at_def)
qed

text \<open>The tokens that fit, and the row with them.\<close>

definition kept_tokens :: "book_config \<Rightarrow> ('p, 'x) book_state \<Rightarrow> nat \<Rightarrow> int list \<Rightarrow> int list" where
  "kept_tokens cfg s k ids = take (bc_max_model_len cfg - tokens_of s k) ids"

definition row_with :: "('p, 'x) book_state \<Rightarrow> nat \<Rightarrow> int list \<Rightarrow> int list" where
  "row_with s k ids = take (tokens_of s k) (b_token_ids (bk_batch s) ! k) @ ids
     @ drop (tokens_of s k + length ids) (b_token_ids (bk_batch s) ! k)"

text \<open>The state in which the rows named by \<open>T\<close> have received their tokens.\<close>

definition booked :: "book_config \<Rightarrow> ('p, 'x) book_state \<Rightarrow> (nat \<Rightarrow> int list) \<Rightarrow> nat \<Rightarrow> ('p, 'x) book_state \<Rightarrow> bool" where
  "booked cfg s new n s' \<longleftrightarrow> bk_req_ids s' = bk_req_ids s
     \<and> (\<forall>k < n. row_ok cfg s' k \<and> outputs_of s' k = outputs_of s k @ new k
         \<and> tokens_of s' k = tokens_of s k + length (new k)
         \<and> b_token_ids (bk_batch s') ! k = row_with s k (new k))"

lemma bookedD:
  "booked cfg s new n s' \<Longrightarrow> k < n \<Longrightarrow> outputs_of s' k = outputs_of s k @ new k \<and> tokens_of s' k = tokens_of s k + length (new k)"
  unfolding booked_def by blast

lemma booked_start: "(\<And>k. k < n \<Longrightarrow> row_ok cfg s k) \<Longrightarrow> booked cfg s (\<lambda>_. []) n s"
  by (simp add: booked_def row_with_def)

lemma row_ok_tokens:
  assumes "row_ok cfg s k"
  shows "\<exists>r. dict_get (bk_requests s) (bk_req_ids s ! k) = Some r
    \<and> b_num_tokens_no_spec (bk_batch s) ! k = int (tokens_of s k) \<and> tokens_of s k \<le> bc_max_model_len cfg
    \<and> tokens_of s k = cr_num_prompt_tokens r + length (cr_output_token_ids r)"
  using assms by (auto simp: row_ok_def split: option.splits)

lemma store_booked:
  assumes b: "booked cfg s new n s1" and k: "k < n" "new k = []" and d: "distinct (bk_req_ids s)"
    and fits: "tokens_of s k + length ids \<le> length_limit cfg"
  shows "\<exists>s'. store_tokens cfg k ids s1 = Inr s' \<and> booked cfg s (new(k := kept_tokens cfg s k ids)) n s'"
proof -
  let ?kept = "kept_tokens cfg s k ids"
  have ids: "bk_req_ids s1 = bk_req_ids s" and ok: "row_ok cfg s1 k" and t: "tokens_of s1 k = tokens_of s k"
    and o: "outputs_of s1 k = outputs_of s k"
    and row: "b_token_ids (bk_batch s1) ! k = b_token_ids (bk_batch s) ! k"
  proof -
    have h: "bk_req_ids s1 = bk_req_ids s" "row_ok cfg s1 k \<and> outputs_of s1 k = outputs_of s k @ new k
        \<and> tokens_of s1 k = tokens_of s k + length (new k) \<and> b_token_ids (bk_batch s1) ! k = row_with s k (new k)"
      using b k(1) unfolding booked_def by blast+
    show "bk_req_ids s1 = bk_req_ids s" by (rule h(1))
    show "row_ok cfg s1 k" "tokens_of s1 k = tokens_of s k" "outputs_of s1 k = outputs_of s k"
      "b_token_ids (bk_batch s1) ! k = b_token_ids (bk_batch s) ! k"
      using h(2) k(2) by (simp_all add: row_with_def)
  qed
  have fits1: "tokens_of s1 k + length ids \<le> length_limit cfg" using fits t by simp
  obtain s' r where s': "store_tokens cfg k ids s1 = Inr s'" "dict_get (bk_requests s1) (bk_req_ids s1 ! k) = Some r"
    "bk_requests s' = dict_set (bk_req_ids s1 ! k) (r\<lparr>cr_output_token_ids := cr_output_token_ids r @ ?kept\<rparr>) (bk_requests s1)"
    "bk_req_ids s' = bk_req_ids s1"
    "b_num_tokens_no_spec (bk_batch s') = (b_num_tokens_no_spec (bk_batch s1))[k := int (tokens_of s k + length ?kept)]"
    "b_num_tokens (bk_batch s') = (b_num_tokens (bk_batch s1))[k := int (tokens_of s k + length ?kept)]"
    "b_token_ids (bk_batch s') = (b_token_ids (bk_batch s1))[k := row_with s k ?kept]"
    "bk_is_token_ids s' = (bk_is_token_ids s1)[k := take (tokens_of s k) (bk_is_token_ids s1 ! k) @ replicate (length ?kept) True
        @ drop (tokens_of s k + length ?kept) (bk_is_token_ids s1 ! k)]"
    using store_tokens_ok[OF ok fits1] unfolding t row kept_tokens_def[symmetric] row_with_def[symmetric] by blast
  obtain tk: "tokens_of s k = cr_num_prompt_tokens r + length (cr_output_token_ids r)" "tokens_of s k \<le> bc_max_model_len cfg"
    using row_ok_tokens[OF ok] s'(2) t by auto
  have kl: "tokens_of s k + length ?kept \<le> bc_max_model_len cfg" using tk(2) by (simp add: kept_tokens_def)
  have kr: "k < length (bk_req_ids s)" using ok ids by (simp add: row_ok_def)
  have "row_ok cfg s' j \<and> outputs_of s' j = outputs_of s j @ (new(k := ?kept)) j
      \<and> tokens_of s' j = tokens_of s j + length ((new(k := ?kept)) j)
      \<and> b_token_ids (bk_batch s') ! j = row_with s j ((new(k := ?kept)) j)" if j: "j < n" for j
  proof (cases "j = k")
    case True
    have "k < length (b_token_ids (bk_batch s1))" "k < length (b_num_tokens_no_spec (bk_batch s1))"
      "k < length (bk_is_token_ids s1)" "k < length (b_num_tokens (bk_batch s1))"
      "length (b_token_ids (bk_batch s1) ! k) = bc_max_model_len cfg" "length (bk_is_token_ids s1 ! k) = bc_max_model_len cfg"
      using ok by (simp_all add: row_ok_def)
    then show ?thesis using True s' ids kr kl tk o row
      by (simp add: row_ok_def row_with_def)
  next
    case False
    have oj: "row_ok cfg s1 j" "outputs_of s1 j = outputs_of s j @ new j" "tokens_of s1 j = tokens_of s j + length (new j)"
      "b_token_ids (bk_batch s1) ! j = row_with s j (new j)" using b j unfolding booked_def by blast+
    have "j < length (bk_req_ids s)" using oj(1) ids by (simp add: row_ok_def)
    then have ne: "bk_req_ids s ! j \<noteq> bk_req_ids s ! k" using d kr False by (simp add: nth_eq_iff_index_eq)
    have get: "dict_get (bk_requests s') (bk_req_ids s ! j) = dict_get (bk_requests s1) (bk_req_ids s ! j)"
      using ne unfolding s'(3) ids by simp
    have "row_ok cfg s' j" using oj(1) get False unfolding row_ok_def s'(4-8) ids by (simp cong: option.case_cong)
    then show ?thesis using oj get False unfolding s'(4,5,7) ids by simp
  qed
  then show ?thesis using s'(1,4) ids by (auto simp: booked_def)
qed

text \<open>The tokens recorded for a request: the sampled ones, or a placeholder for a token that stays on the device.\<close>

definition recorded :: "book_config \<Rightarrow> nat list \<Rightarrow> int list list \<Rightarrow> nat \<Rightarrow> int list" where
  "recorded cfg bad valid k = (if bc_use_async_scheduling cfg then (if k \<in> set bad then [] else [-1]) else valid ! k)"

lemma book_all:
  assumes "distinct (bk_req_ids s)" "\<And>k. k < n \<Longrightarrow> row_ok cfg s k" "bc_use_async_scheduling cfg \<or> n \<le> length valid"
    and "\<And>k. k < n \<Longrightarrow> tokens_of s k + length (recorded cfg bad valid k) \<le> length_limit cfg" "m \<le> n"
  shows "\<exists>s'. fold_res (book_request cfg bad valid) [0..<m] (if bc_wants_logprobs cfg then Some [0] else None, s) =
      Inr (if bc_wants_logprobs cfg then Some (0 # accumulate (map (length \<circ> recorded cfg bad valid) [0..<m])) else None, s')
    \<and> booked cfg s (\<lambda>k. if k < m then kept_tokens cfg s k (recorded cfg bad valid k) else []) n s'"
  using assms(5)
proof (induction m)
  case 0
  then show ?case using booked_start[OF assms(2)] by (simp add: accumulate_def)
next
  case (Suc m)
  let ?rec = "recorded cfg bad valid"
  let ?new = "\<lambda>m k. if k < m then kept_tokens cfg s k (?rec k) else []"
  let ?cu = "\<lambda>m. if bc_wants_logprobs cfg then Some (0 # accumulate (map (length \<circ> ?rec) [0..<m])) else None"
  obtain s1 where s1: "fold_res (book_request cfg bad valid) [0..<m] (if bc_wants_logprobs cfg then Some [0] else None, s) = Inr (?cu m, s1)" "booked cfg s (?new m) n s1"
    using Suc by auto
  have m: "m < n" using Suc.prems by simp
  have new: "(?new m)(m := kept_tokens cfg s m (?rec m)) = ?new (Suc m)" by (auto simp: fun_eq_iff less_Suc_eq)
  have acc: "accumulate_from a (xs @ [x]) = accumulate_from a xs @ [a + sum_list xs + x]" for a x and xs :: "nat list"
    by (induction xs arbitrary: a) simp_all
  have last: "last (a # accumulate_from a xs) = a + sum_list xs" for a and xs :: "nat list"
    by (induction xs arbitrary: a) simp_all
  have cu: "accumulate (map (length \<circ> ?rec) [0..<Suc m]) =
      accumulate (map (length \<circ> ?rec) [0..<m]) @ [last (0 # accumulate (map (length \<circ> ?rec) [0..<m])) + length (?rec m)]"
    using last[of 0] by (simp add: accumulate_def acc)
  have step: "book_request cfg bad valid m (?cu m, s1) =
      (if ?rec m = [] then Inr (?cu (Suc m), s1) else bind_res (store_tokens cfg m (?rec m) s1) (\<lambda>s. Inr (?cu (Suc m), s)))"
    using m assms(3) unfolding cu by (auto simp: book_request_def recorded_def Let_def)
  have "\<exists>s'. book_request cfg bad valid m (?cu m, s1) = Inr (?cu (Suc m), s') \<and> booked cfg s (?new (Suc m)) n s'"
  proof (cases "?rec m = []")
    case True
    then have "?new (Suc m) = ?new m" by (auto simp: fun_eq_iff kept_tokens_def less_Suc_eq)
    then show ?thesis using True s1(2) step by auto
  next
    case False
    obtain s' where "store_tokens cfg m (?rec m) s1 = Inr s'" "booked cfg s ((?new m)(m := kept_tokens cfg s m (?rec m))) n s'"
      using store_booked[OF s1(2) m _ assms(1) assms(4)[OF m]] by auto
    then show ?thesis using False step unfolding new by auto
  qed
  then obtain s' where "book_request cfg bad valid m (?cu m, s1) = Inr (?cu (Suc m), s')" "booked cfg s (?new (Suc m)) n s'" by blast
  moreover have "[0..<Suc m] = [0..<m] @ [m]" by simp
  ultimately show ?case using s1(1) by (simp only: fold_res_append sum.case fold_res.simps) blast
qed

text \<open>Recording changes neither the generators nor what the next step reads of this one.\<close>

definition next_step_view :: "('p, 'x) book_state \<Rightarrow> (nat, int) dict \<times> int list list option \<times> (nat, nat) dict option" where
  "next_step_view s = (bk_generators s, bk_prev_sampled s, b_prev_index (bk_batch s))"

lemma store_tokens_view: "store_tokens cfg k ids s = Inr s' \<Longrightarrow> next_step_view s' = next_step_view s"
  unfolding store_tokens_def Let_def bind_res_eq_Inr require_eq_Inr
  by (elim exE conjE) (drule arg_cong[of _ _ "\<lambda>r. next_step_view (projr r)"], simp add: next_step_view_def)

lemma book_all_view:
  assumes "fold_res (book_request cfg bad valid) ks (cu, s) = Inr (cu', s')"
  shows "next_step_view s' = next_step_view s"
proof -
  have "next_step_view (snd (cu', s')) = next_step_view s"
  proof (rule fold_res_invariant[OF assms, where P = "\<lambda>st. next_step_view (snd st) = next_step_view s"])
    fix k and st st' :: "nat list option \<times> ('a, 'b) book_state"
    assume "book_request cfg bad valid k st = Inr st'" "next_step_view (snd st) = next_step_view s"
    moreover have "snd st' = snd st \<or> (\<exists>ids. store_tokens cfg k ids (snd st) = Inr (snd st'))" if "book_request cfg bad valid k st = Inr st'"
      using that by (fastforce simp: book_request_def Let_def bind_res_eq_Inr split: option.splits if_splits)
    ultimately show "next_step_view (snd st') = next_step_view s" using store_tokens_view by metis
  qed simp
  then show ?thesis by simp
qed

lemma rewind_all:
  "dict_get (fold rewind_generator ds gens) i = map_option (\<lambda>off. off - 4 * int (count_list ds i)) (dict_get gens i)"
proof (induction ds arbitrary: gens)
  case (Cons d ds)
  have "dict_get (rewind_generator d gens) i = map_option (\<lambda>off. if i = d then off - 4 else off) (dict_get gens i)"
    by (cases "dict_get gens d"; cases "dict_get gens i") (auto simp: rewind_generator_def dict_get_set)
  then show ?case using Cons[of "rewind_generator d gens"] by (auto simp: option.map_comp comp_def algebra_simps intro!: option.map_cong)
qed (simp add: option.map_ident)

lemma dict_get_foldl:
  "distinct (map fst xs) \<Longrightarrow> dict_get (foldl (\<lambda>d (r, i). dict_set r i d) d xs) k
    = (case map_of xs k of None \<Rightarrow> dict_get d k | Some i \<Rightarrow> Some i)"
proof (induction xs arbitrary: d)
  case (Cons x xs)
  obtain r i where x: "x = (r, i)" by (cases x)
  then have "map_of xs r = None" using Cons.prems by (simp add: map_of_eq_None_iff)
  then show ?case using Cons.IH[of "dict_set r i d"] Cons.prems x by (auto simp: dict_get_set split: option.splits)
qed simp

text \<open>The rows the next step may copy sampled tokens from: those of the requests that are not discarded.\<close>

definition rows_with_tokens :: "nat list \<Rightarrow> nat list \<Rightarrow> (nat, nat) dict \<Rightarrow> bool" where
  "rows_with_tokens req_ids discarded d \<longleftrightarrow>
     (\<forall>r i. dict_get d r = Some i \<longleftrightarrow> i < length req_ids \<and> req_ids ! i = r \<and> i \<notin> set discarded)"

lemma cache_sampled_ok:
  assumes "distinct (bk_req_ids s)" "bk_prev_sampled s = None \<longrightarrow> max_gen_len = 1"
  shows "\<exists>d. cache_sampled max_gen_len discarded sampled s =
      Inr (s\<lparr>bk_prev_sampled := Some (case bk_prev_sampled s of None \<Rightarrow> sampled | Some p \<Rightarrow> p),
             bk_batch := (bk_batch s)\<lparr>b_prev_index := Some d\<rparr>\<rparr>)
    \<and> rows_with_tokens (bk_req_ids s) discarded d"
proof -
  let ?xs = "map (\<lambda>i. (bk_req_ids s ! i, i)) (filter (\<lambda>i. i \<notin> set discarded) [0..<length (bk_req_ids s)])"
  let ?d = "foldl (\<lambda>d (r, i). dict_set r i d) [] ?xs"
  have dist: "distinct (map fst ?xs)"
    using assms(1) by (auto simp: distinct_map comp_def inj_on_def nth_eq_iff_index_eq)
  have "dict_get ?d r = map_of ?xs r" for r using dict_get_foldl[OF dist, of "[]" r] by (simp only: map_of.simps split: option.splits) auto
  moreover have "map_of ?xs r = Some i \<longleftrightarrow> i < length (bk_req_ids s) \<and> bk_req_ids s ! i = r \<and> i \<notin> set discarded" for r i
    unfolding map_of_eq_Some_iff[OF dist] by auto
  ultimately have "rows_with_tokens (bk_req_ids s) discarded ?d" by (simp only: rows_with_tokens_def simp_thms)
  moreover have "cache_sampled max_gen_len discarded sampled s =
      Inr (s\<lparr>bk_prev_sampled := Some (case bk_prev_sampled s of None \<Rightarrow> sampled | Some p \<Rightarrow> p),
             bk_batch := (bk_batch s)\<lparr>b_prev_index := Some ?d\<rparr>\<rparr>)"
    using assms(2) by (cases "bk_prev_sampled s") (simp_all add: cache_sampled_def Let_def)
  ultimately show ?thesis by blast
qed

lemma discard_all:
  assumes "\<forall>i \<in> set ds. i < length raw"
  shows "fold_res (\<lambda>i valid. put_res valid i []) ds raw = Inr (map (\<lambda>k. if k \<in> set ds then [] else raw ! k) [0..<length raw])"
  using assms
proof (induction ds arbitrary: raw)
  case Nil
  then show ?case by (simp add: map_nth)
next
  case (Cons d ds)
  have "map (\<lambda>k. if k \<in> set ds then [] else raw[d := []] ! k) [0..<length raw] =
      map (\<lambda>k. if k \<in> set (d # ds) then [] else raw ! k) [0..<length raw]"
    using Cons.prems by (intro map_cong) (auto simp: nth_list_update)
  then show ?case using Cons.IH[of "raw[d := []]"] Cons.prems by simp
qed

text \<open>
  C24. Recording the sampled tokens keeps the batch and the cached requests in step, with and without asynchronous
  scheduling. When every row agrees with its request and, without asynchronous scheduling, no request is sampled beyond the
  length the drafts allow (with it, the first step that keeps its tensor samples one token per request, as the code
  asserts), the call returns; afterwards every row again agrees with its request and holds at most the
  maximal number of tokens. The output of a request is extended, as far as they fit, by its valid tokens, or by
  one placeholder \<open>-1\<close> when the tokens stay on the device, its row holds the same behind the old
  tokens, and a discarded request is left alone. The generator of a discarded request is set back by four, the others are
  as before; asynchronous scheduling keeps the sampled tensor and, for the next step, the rows of exactly the
  requests that are not discarded.
\<close>
theorem bookkeeping_agrees:
  assumes "distinct (bk_req_ids s)" "\<forall>k < length sampled. row_ok cfg s k"
    and "raw = (if max_gen_len = 1 then to_list sampled else parse_output sampled)"
    and "\<not> bc_use_async_scheduling cfg \<longrightarrow> length raw = length sampled \<and> (\<forall>i \<in> set discarded. i < length sampled)
      \<and> (\<forall>k < length sampled. tokens_of s k + length (raw ! k) \<le> bc_num_spec_tokens cfg + bc_max_model_len cfg)"
    and "bc_use_async_scheduling cfg \<longrightarrow> bk_prev_sampled s = None \<longrightarrow> max_gen_len = 1"
  shows "\<exists>out s'. bookkeeping_sync to_list parse_output cfg max_gen_len discarded sampled s = Inr (out, s')
    \<and> booked cfg s (\<lambda>k. if k < length sampled \<and> k \<notin> set discarded
        then kept_tokens cfg s k (if bc_use_async_scheduling cfg then [-1] else raw ! k) else []) (length sampled) s'
    \<and> (\<forall>i. dict_get (bk_generators s') i = map_option (\<lambda>off. off - 4 * int (count_list discarded i)) (dict_get (bk_generators s) i))
    \<and> (if bc_use_async_scheduling cfg
       then bo_valid_sampled_token_ids out = [] \<and> bo_invalid_req_indices out = discarded
         \<and> bk_prev_sampled s' = Some (case bk_prev_sampled s of None \<Rightarrow> sampled | Some p \<Rightarrow> p)
         \<and> (\<exists>d. b_prev_index (bk_batch s') = Some d \<and> rows_with_tokens (bk_req_ids s) discarded d)
       else bo_valid_sampled_token_ids out = map (\<lambda>k. if k \<in> set discarded then [] else raw ! k) [0..<length sampled]
         \<and> bo_invalid_req_indices out = [] \<and> bk_prev_sampled s' = bk_prev_sampled s)"
proof -
  let ?n = "length sampled" and ?s1 = "s\<lparr>bk_generators := fold rewind_generator discarded (bk_generators s)\<rparr>"
  let ?async = "bc_use_async_scheduling cfg"
  have same: "row_ok cfg (s\<lparr>bk_generators := g, bk_prev_sampled := ps, bk_batch := (bk_batch s)\<lparr>b_prev_index := d\<rparr>\<rparr>) k = row_ok cfg s k"
    "kept_tokens cfg (s\<lparr>bk_generators := g, bk_prev_sampled := ps, bk_batch := (bk_batch s)\<lparr>b_prev_index := d\<rparr>\<rparr>) k = kept_tokens cfg s k"
    "booked cfg (s\<lparr>bk_generators := g, bk_prev_sampled := ps, bk_batch := (bk_batch s)\<lparr>b_prev_index := d\<rparr>\<rparr>) new n s' = booked cfg s new n s'"
    for k n s' new g ps d
    by (simp_all add: row_ok_def kept_tokens_def booked_def row_with_def fun_eq_iff cong: option.case_cong)
  have run: "\<exists>s'. fold_res (book_request cfg bad valid) [0..<?n] (if bc_wants_logprobs cfg then Some [0] else None, s2) =
      Inr (if bc_wants_logprobs cfg then Some (0 # accumulate (map (length \<circ> recorded cfg bad valid) [0..<?n])) else None, s')
    \<and> booked cfg s (\<lambda>k. if k < ?n then kept_tokens cfg s k (recorded cfg bad valid k) else []) ?n s' \<and> next_step_view s' = next_step_view s2"
    if s2: "s2 = s\<lparr>bk_generators := g, bk_prev_sampled := ps, bk_batch := (bk_batch s)\<lparr>b_prev_index := d\<rparr>\<rparr>"
      and len: "?async \<or> ?n \<le> length valid" "\<And>k. k < ?n \<Longrightarrow> tokens_of s k + length (recorded cfg bad valid k) \<le> length_limit cfg"
    for s2 g ps d bad valid
  proof -
    have "\<exists>s'. fold_res (book_request cfg bad valid) [0..<?n] (if bc_wants_logprobs cfg then Some [0] else None, s2) =
        Inr (if bc_wants_logprobs cfg then Some (0 # accumulate (map (length \<circ> recorded cfg bad valid) [0..<?n])) else None, s')
      \<and> booked cfg s2 (\<lambda>k. if k < ?n then kept_tokens cfg s2 k (recorded cfg bad valid k) else []) ?n s'"
      by (rule book_all) (use assms(1,2) len same in \<open>simp_all add: s2\<close>)
    then show ?thesis using book_all_view unfolding s2 same by blast
  qed
  show ?thesis
  proof (cases ?async)
    case True
    obtain d where d: "cache_sampled max_gen_len discarded sampled ?s1 =
        Inr (?s1\<lparr>bk_prev_sampled := Some (case bk_prev_sampled s of None \<Rightarrow> sampled | Some p \<Rightarrow> p),
               bk_batch := (bk_batch s)\<lparr>b_prev_index := Some d\<rparr>\<rparr>)" "rows_with_tokens (bk_req_ids s) discarded d"
      using cache_sampled_ok[of ?s1 max_gen_len discarded sampled] assms(1,5) True by auto
    have fits: "k < ?n \<Longrightarrow> tokens_of s k + length (recorded cfg discarded [] k) \<le> length_limit cfg" for k
      using row_ok_tokens[of cfg s k] assms(2) True by (auto simp: recorded_def length_limit_def)
    obtain s' where s': "fold_res (book_request cfg discarded []) [0..<?n] (if bc_wants_logprobs cfg then Some [0] else None,
          ?s1\<lparr>bk_prev_sampled := Some (case bk_prev_sampled s of None \<Rightarrow> sampled | Some p \<Rightarrow> p),
               bk_batch := (bk_batch s)\<lparr>b_prev_index := Some d\<rparr>\<rparr>) =
        Inr (if bc_wants_logprobs cfg then Some (0 # accumulate (map (length \<circ> recorded cfg discarded []) [0..<?n])) else None, s')"
      "booked cfg s (\<lambda>k. if k < ?n then kept_tokens cfg s k (recorded cfg discarded [] k) else []) ?n s'"
      "next_step_view s' = next_step_view (?s1\<lparr>bk_prev_sampled := Some (case bk_prev_sampled s of None \<Rightarrow> sampled | Some p \<Rightarrow> p),
               bk_batch := (bk_batch s)\<lparr>b_prev_index := Some d\<rparr>\<rparr>)"
      using run[where d = "Some d", OF refl _ fits] True by blast
    have "(\<lambda>k. if k < ?n then kept_tokens cfg s k (recorded cfg discarded [] k) else []) =
        (\<lambda>k. if k < ?n \<and> k \<notin> set discarded then kept_tokens cfg s k (if ?async then [-1] else raw ! k) else [])"
      using True by (auto simp: fun_eq_iff kept_tokens_def recorded_def)
    then show ?thesis using s' d True rewind_all[of discarded "bk_generators s"]
      by (simp add: bookkeeping_sync_def next_step_view_def)
  next
    case False
    let ?valid = "map (\<lambda>k. if k \<in> set discarded then [] else raw ! k) [0..<?n]"
    have a4: "length raw = ?n" "\<forall>i \<in> set discarded. i < ?n"
      "\<And>k. k < ?n \<Longrightarrow> tokens_of s k + length (raw ! k) \<le> bc_num_spec_tokens cfg + bc_max_model_len cfg"
      using assms(4) False by blast+
    have v: "sync_valid_tokens to_list parse_output max_gen_len discarded sampled = Inr ?valid"
      using discard_all[of discarded raw] assms(3) a4 by (simp add: sync_valid_tokens_def)
    have fits: "k < ?n \<Longrightarrow> tokens_of s k + length (recorded cfg [] ?valid k) \<le> length_limit cfg" for k
      using a4(3)[of k] False by (auto simp: recorded_def length_limit_def)
    have s1: "?s1 = s\<lparr>bk_generators := fold rewind_generator discarded (bk_generators s), bk_prev_sampled := bk_prev_sampled s,
        bk_batch := (bk_batch s)\<lparr>b_prev_index := b_prev_index (bk_batch s)\<rparr>\<rparr>" by simp
    obtain s' where s': "fold_res (book_request cfg [] ?valid) [0..<?n] (if bc_wants_logprobs cfg then Some [0] else None, ?s1) =
        Inr (if bc_wants_logprobs cfg then Some (0 # accumulate (map (length \<circ> recorded cfg [] ?valid) [0..<?n])) else None, s')"
      "booked cfg s (\<lambda>k. if k < ?n then kept_tokens cfg s k (recorded cfg [] ?valid k) else []) ?n s'"
      "next_step_view s' = next_step_view ?s1"
      using run[OF s1 _ fits] by (metis (no_types, lifting) diff_zero dual_order.refl length_map length_upt)
    have "(\<lambda>k. if k < ?n then kept_tokens cfg s k (recorded cfg [] ?valid k) else []) =
        (\<lambda>k. if k < ?n \<and> k \<notin> set discarded then kept_tokens cfg s k (if ?async then [-1] else raw ! k) else [])"
      using False by (auto simp: fun_eq_iff kept_tokens_def recorded_def)
    then show ?thesis using s' v False rewind_all[of discarded "bk_generators s"]
      by (simp add: bookkeeping_sync_def next_step_view_def)
  qed
qed

definition demo_book :: "(unit, unit) book_state" where
  "demo_book = \<lparr>bk_requests = [(1, demo_request 1), (3, demo_request 3)], bk_req_ids = [3, 1],
     bk_batch = (rs_batch demo_runner)\<lparr>b_num_tokens := [4, 4], b_num_tokens_no_spec := [4, 4],
       b_token_ids := [[1, 2, 3, 4, 0, 0], [5, 6, 7, 8, 0, 0]]\<rparr>,
     bk_is_token_ids = replicate 2 (replicate 6 True), bk_generators = [(1, 12)], bk_prev_sampled = None\<rparr>"

lemma bookkeeping_agrees_witness:
  "\<exists>out s'. bookkeeping_sync id (map (filter (\<lambda>t. t \<noteq> -1)))
      \<lparr>bc_use_async_scheduling = False, bc_num_spec_tokens = 2, bc_max_model_len = 6, bc_wants_logprobs = False\<rparr>
      3 [1] [[20, 21, 22], [30, -1, -1]] demo_book = Inr (out, s')
    \<and> outputs_of s' 0 = [20, 21] \<and> outputs_of s' 1 = [] \<and> tokens_of s' 0 = 6"
proof -
  let ?cfg = "\<lparr>bc_use_async_scheduling = False, bc_num_spec_tokens = 2, bc_max_model_len = 6, bc_wants_logprobs = False\<rparr>"
  let ?sampled = "[[20, 21, 22], [30, -1, -1]] :: int list list"
  have rows: "\<forall>k < length ?sampled. row_ok ?cfg demo_book k"
    by (simp add: less_Suc_eq row_ok_def demo_book_def demo_request_def all_conj_distrib)
  have t: "tokens_of demo_book 0 = 4" "tokens_of demo_book (Suc 0) = 4"
    "outputs_of demo_book 0 = []" "outputs_of demo_book (Suc 0) = []" by (simp_all add: demo_book_def demo_request_def)
  have fit: "\<not> bc_use_async_scheduling ?cfg \<longrightarrow> length [[20, 21, 22], [30 :: int]] = length ?sampled \<and> (\<forall>i \<in> set [1]. i < length ?sampled)
      \<and> (\<forall>k < length ?sampled. tokens_of demo_book k + length ([[20, 21, 22], [30 :: int]] ! k) \<le> bc_num_spec_tokens ?cfg + bc_max_model_len ?cfg)"
    using t by (auto simp: less_Suc_eq simp del: nat_eq_iff)
  have dist: "distinct (bk_req_ids demo_book)" by (simp add: demo_book_def)
  have raw: "[[20, 21, 22], [30 :: int]] = (if (3 :: nat) = 1 then id ?sampled else map (filter (\<lambda>t. t \<noteq> -1)) ?sampled)" by simp
  have sync: "bc_use_async_scheduling ?cfg \<longrightarrow> bk_prev_sampled demo_book = None \<longrightarrow> (3 :: nat) = 1" by simp
  obtain out s' where r: "bookkeeping_sync id (map (filter (\<lambda>t. t \<noteq> -1))) ?cfg 3 [1] ?sampled demo_book = Inr (out, s')"
      "booked ?cfg demo_book (\<lambda>k. if k < length ?sampled \<and> k \<notin> set [1]
          then kept_tokens ?cfg demo_book k (if bc_use_async_scheduling ?cfg then [-1] else [[20, 21, 22], [30]] ! k) else []) (length ?sampled) s'"
    using bookkeeping_agrees[where to_list = id and parse_output = "map (filter (\<lambda>t. t \<noteq> -1))" and discarded = "[1]" and max_gen_len = 3,
      OF dist rows raw fit sync] by blast
  note k = bookedD[OF r(2), of 0] bookedD[OF r(2), of 1]
  have "outputs_of s' 0 = [20, 21]" "outputs_of s' 1 = []" "tokens_of s' 0 = 6"
    using k t by (auto simp: kept_tokens_def simp del: nat_eq_iff)
  then show ?thesis using r(1) by (intro exI[of _ out] exI[of _ s']) simp
qed

end
