(* ===== verification/SharedStorage.thy ===== *)
theory SharedStorage
  imports SchedData "HOL-Library.Word"
begin

text \<open>
  The connector that keeps the KV cache of prompts on a shared disk
  (\<^verbatim>\<open>vllm_mlu/distributed/kv_transfer/kv_connector/v1/shared_storage_connector.py\<close>): which
  prompts are found, what the scheduler side hands to the workers, and how the workers save and load
  the rows of the paged cache. The digest of the folder names is an argument, as are the identifiers
  of multimodal inputs. Strings are the bytes of their UTF-8 encoding.
\<close>

section \<open>The disk and the tensors\<close>

type_synonym bytes = "8 word list"

text \<open>A tensor is its shape and its elements in row major order.\<close>

record 'e tensor =
  t_shape :: "nat list"
  t_data :: "'e list"

text \<open>The saved file of a layer: for every plane (keys and values, or the latent cache) its rows.\<close>

type_synonym 'e kv_file = "'e list list list"

record 'e disk =
  d_folders :: "string list"
  d_files :: "(string, 'e kv_file) dict"

record connector_env =
  ce_storage_path :: string
  ce_block_size :: nat
  ce_md5 :: "bytes \<Rightarrow> string"
  ce_identifiers :: "handle \<Rightarrow> string list"

section \<open>Names of folders and files\<close>

text \<open>\<^verbatim>\<open>(num_tokens - 1) // block_size * block_size\<close>; the slice with a negative end counts from the end.\<close>

definition align_to_block_size :: "int \<Rightarrow> nat \<Rightarrow> int" where
  "align_to_block_size n block_size = (n - 1) div int block_size * int block_size"

definition take_to :: "int \<Rightarrow> 'a list \<Rightarrow> 'a list" where
  "take_to n xs = (if n < 0 then take (length xs - nat (- n)) xs else take (nat n) xs)"

text \<open>A token is a 64 bit integer in little endian order.\<close>

definition token_bytes :: "int \<Rightarrow> bytes" where
  "token_bytes t = map (\<lambda>i. ucast (drop_bit (8 * i) (word_of_int t :: 64 word))) [0..<8]"

definition string_bytes :: "string \<Rightarrow> bytes" where
  "string_bytes s = map of_char s"

fun join :: "string \<Rightarrow> string list \<Rightarrow> string" where
  "join sep [] = []"
| "join sep [s] = s"
| "join sep (s # ss) = s @ sep @ join sep ss"

definition path_join :: "string \<Rightarrow> string \<Rightarrow> string" where
  "path_join a b =
     (if take 1 b = ''/'' then b
      else if a = [] \<or> last a = CHR ''/'' then a @ b
      else a @ ''/'' @ b)"

definition folder_bytes :: "int list \<Rightarrow> string list \<Rightarrow> bytes" where
  "folder_bytes token_ids mm_hashes =
     concat (map token_bytes token_ids)
       @ (if mm_hashes = [] then [] else string_bytes (join ''-'' mm_hashes))"

definition generate_foldername :: "connector_env \<Rightarrow> int list \<Rightarrow> string list \<Rightarrow> string" where
  "generate_foldername env token_ids mm_hashes =
     path_join (ce_storage_path env) (ce_md5 env (folder_bytes token_ids mm_hashes))"

text \<open>Naming a file creates its folder.\<close>

definition generate_filename ::
  "connector_env \<Rightarrow> string \<Rightarrow> int list \<Rightarrow> string list \<Rightarrow> 'e disk \<Rightarrow> string \<times> 'e disk" where
  "generate_filename env layer_name token_ids mm_hashes dk =
     (let folder = generate_foldername env token_ids mm_hashes
      in (path_join folder (layer_name @ ''.safetensors''),
          dk\<lparr>d_folders := List.insert folder (d_folders dk)\<rparr>))"

definition found_match_for_prompt :: "connector_env \<Rightarrow> 'e disk \<Rightarrow> int list \<Rightarrow> string list \<Rightarrow> bool" where
  "found_match_for_prompt env dk prompt mm_hashes =
     (let num_tokens_to_check = align_to_block_size (int (length prompt) - 1) (ce_block_size env)
      in generate_foldername env (take_to num_tokens_to_check prompt) mm_hashes \<in> set (d_folders dk))"

definition list_or_empty :: "'a list option \<Rightarrow> 'a list" where
  "list_or_empty o' = (case o' of None \<Rightarrow> [] | Some xs \<Rightarrow> xs)"

definition found_match_for_request :: "connector_env \<Rightarrow> 'e disk \<Rightarrow> request \<Rightarrow> bool" where
  "found_match_for_request env dk r =
     found_match_for_prompt env dk (list_or_empty (r_prompt_token_ids r)) (ce_identifiers env (r_mm_features r))"

section \<open>The side of the scheduler\<close>

record req_meta =
  rm_token_ids :: "int list"
  rm_slot_mapping :: "nat list"
  rm_is_store :: bool
  rm_mm_hashes :: "string list"

definition make_meta :: "int list \<Rightarrow> nat list \<Rightarrow> nat \<Rightarrow> bool \<Rightarrow> string list \<Rightarrow> req_meta" where
  "make_meta token_ids block_ids block_size is_store mm_hashes =
     (let valid_num_tokens = align_to_block_size (int (length token_ids)) block_size;
          slot_mapping = concat (map (\<lambda>b. map (\<lambda>offset. offset + b * block_size) [0..<block_size]) block_ids)
      in \<lparr>rm_token_ids = take_to valid_num_tokens token_ids,
          rm_slot_mapping = take_to valid_num_tokens slot_mapping,
          rm_is_store = is_store, rm_mm_hashes = mm_hashes\<rparr>)"

definition get_num_new_matched_tokens ::
  "connector_env \<Rightarrow> 'e disk \<Rightarrow> request \<Rightarrow> int \<Rightarrow> int option \<times> bool" where
  "get_num_new_matched_tokens env dk r num_computed_tokens =
     (if \<not> found_match_for_request env dk r then (Some 0, False)
      else let token_ids = list_or_empty (r_prompt_token_ids r)
        in (Some (align_to_block_size (int (length token_ids) - 1) (ce_block_size env) - num_computed_tokens), False))"

text \<open>The requests that need a load, as the ids of the dictionary \<^verbatim>\<open>_requests_need_load\<close>.\<close>

definition update_state_after_alloc :: "req_id \<Rightarrow> int \<Rightarrow> req_id list \<Rightarrow> req_id list" where
  "update_state_after_alloc rid num_external_tokens need =
     (if 0 < num_external_tokens then (if rid \<in> set need then need else need @ [rid]) else need)"

record cached_reqs =
  cq_req_ids :: "req_id list"
  cq_resumed_req_ids :: "req_id list"
  cq_new_block_ids :: "nat list list option list"
  cq_num_computed_tokens :: "int list"

definition meta_of_new ::
  "connector_env \<Rightarrow> 'e disk \<Rightarrow> req_id list \<Rightarrow> new_request_data \<Rightarrow> req_meta list \<times> nat
    \<Rightarrow> (req_meta list \<times> nat) res" where
  "meta_of_new env dk need nd acc =
     (let (metas, n_load) = acc;
          token_ids = list_or_empty (nd_prompt_token_ids nd);
          mm_hashes = ce_identifiers env (nd_mm_features nd)
      in if nd_req_id nd \<in> set need
         then bind_res (nth_res (nd_block_ids nd) 0) (\<lambda>block_ids.
           Inr (metas @ [make_meta token_ids block_ids (ce_block_size env) False mm_hashes], n_load + 1))
         else if \<not> found_match_for_prompt env dk token_ids mm_hashes
         then bind_res (nth_res (nd_block_ids nd) 0) (\<lambda>block_ids.
           Inr (metas @ [make_meta token_ids block_ids (ce_block_size env) True mm_hashes], n_load))
         else Inr (metas, n_load))"

definition all_token_ids :: "request \<Rightarrow> int list" where
  "all_token_ids r = list_or_empty (r_prompt_token_ids r) @ r_output_token_ids r"

definition meta_of_cached ::
  "connector_env \<Rightarrow> heap \<Rightarrow> (req_id, int) dict \<Rightarrow> cached_reqs \<Rightarrow> req_id list \<Rightarrow> nat \<times> req_id
    \<Rightarrow> req_meta list \<times> nat \<Rightarrow> (req_meta list \<times> nat) res" where
  "meta_of_cached env hp num_scheduled cq need irid acc =
     (let (i, rid) = irid; (metas, n_load) = acc
      in if rid \<notin> set (cq_resumed_req_ids cq) \<or> rid \<notin> set need then Inr acc
         else
         bind_res (nth_res (cq_num_computed_tokens cq) i) (\<lambda>num_computed_tokens.
         bind_res (dict_at num_scheduled rid) (\<lambda>num_new_tokens.
         bind_res (nth_res (cq_new_block_ids cq) i) (\<lambda>new_block_ids.
         let r = hp rid;
             token_ids = take_to (num_computed_tokens + num_new_tokens) (all_token_ids r)
         in case new_block_ids of
              None \<Rightarrow> Inl AssertionError
            | Some bs \<Rightarrow> bind_res (nth_res bs 0) (\<lambda>block_ids.
                Inr (metas @ [make_meta token_ids block_ids (ce_block_size env) False
                       (ce_identifiers env (r_mm_features r))], n_load + 1))))))"

text \<open>The metadata of a step, and the connector's state after it.\<close>

definition build_connector_meta ::
  "connector_env \<Rightarrow> 'e disk \<Rightarrow> heap \<Rightarrow> sched_output \<Rightarrow> cached_reqs \<Rightarrow> req_id list
    \<Rightarrow> (req_meta list \<times> req_id list) res" where
  "build_connector_meta env dk hp so cq need =
     bind_res (fold_res (meta_of_new env dk need) (so_new_reqs so) ([], 0)) (\<lambda>acc.
     bind_res (fold_res (meta_of_cached env hp (so_num_scheduled_tokens so) cq need)
       (enumerate 0 (cq_req_ids cq)) acc) (\<lambda>(metas, total_need_load).
     require (total_need_load = length need) AssertionError (Inr (metas, []))))"

section \<open>The side of the workers\<close>

text \<open>
  \<^verbatim>\<open>reshape(n, -1)\<close> of the elements: \<open>n\<close> rows of equal length. The planes are the whole tensor
  for the latent cache, and its two halves otherwise (\<^verbatim>\<open>reshape(2, n, -1)\<close>).
\<close>

definition rows_of :: "nat \<Rightarrow> 'e list \<Rightarrow> 'e list list res" where
  "rows_of n xs =
     require (0 < n \<and> length xs mod n = 0) RuntimeError
       (let w = length xs div n in Inr (map (\<lambda>i. Prelude.slice xs (i * w) ((i + 1) * w)) [0..<n]))"

definition num_slots :: "bool \<Rightarrow> 'e tensor \<Rightarrow> nat res" where
  "num_slots mla t =
     bind_res (nth_res (t_shape t) (if mla then 0 else 1)) (\<lambda>num_pages.
     bind_res (nth_res (t_shape t) (if mla then 1 else 2)) (\<lambda>page_size. Inr (num_pages * page_size)))"

definition layer_planes :: "bool \<Rightarrow> 'e tensor \<Rightarrow> 'e list list list res" where
  "layer_planes mla t =
     bind_res (num_slots mla t) (\<lambda>n.
       if mla then bind_res (rows_of n (t_data t)) (\<lambda>rows. Inr [rows])
       else require (length (t_data t) mod 2 = 0) RuntimeError
         (let h = length (t_data t) div 2
          in bind_res (rows_of n (take h (t_data t))) (\<lambda>k.
             bind_res (rows_of n (drop h (t_data t))) (\<lambda>v. Inr [k, v]))))"

definition extract_kv_from_layer :: "bool \<Rightarrow> 'e tensor \<Rightarrow> nat list \<Rightarrow> 'e kv_file res" where
  "extract_kv_from_layer mla layer slot_mapping =
     bind_res (layer_planes mla layer) (\<lambda>planes.
       map_res (\<lambda>rows. map_res (nth_res rows) slot_mapping) planes)"

text \<open>
  Assigning rows at a list of slots: a single plane, row or element is broadcast. The reshaped tensor
  is a view, so the assignment writes the layer.
\<close>

definition broadcast :: "nat \<Rightarrow> 'a list \<Rightarrow> 'a list res" where
  "broadcast n xs =
     (if length xs = n then Inr xs
      else if length xs = 1 then Inr (replicate n (hd xs)) else Inl RuntimeError)"

definition put_rows :: "nat list \<Rightarrow> 'e list list \<Rightarrow> 'e list list \<Rightarrow> 'e list list res" where
  "put_rows slot_mapping src rows =
     bind_res (broadcast (length slot_mapping) src) (\<lambda>rs.
     bind_res (map_res (broadcast (length (hd rows))) rs) (\<lambda>rs.
       fold_res (\<lambda>(slot, row) rows. put_res rows slot row) (zip slot_mapping rs) rows))"

definition inject_kv_into_layer :: "bool \<Rightarrow> 'e kv_file \<Rightarrow> nat list \<Rightarrow> 'e tensor \<Rightarrow> 'e tensor res" where
  "inject_kv_into_layer mla src slot_mapping dst =
     bind_res (layer_planes mla dst) (\<lambda>planes.
     bind_res (broadcast (length planes) src) (\<lambda>src.
     bind_res (map_res (\<lambda>(s, rows). put_rows slot_mapping s rows) (zip src planes)) (\<lambda>planes'.
       Inr (dst\<lparr>t_data := concat (map concat planes')\<rparr>))))"

text \<open>Saving the layer of a step, for all its requests.\<close>

definition save_request ::
  "connector_env \<Rightarrow> bool \<Rightarrow> string \<Rightarrow> 'e tensor \<Rightarrow> req_meta \<Rightarrow> 'e disk \<Rightarrow> 'e disk res" where
  "save_request env mla layer_name kv_layer r dk =
     (if \<not> rm_is_store r then Inr dk
      else let (filename, dk1) = generate_filename env layer_name (rm_token_ids r) (rm_mm_hashes r) dk
        in bind_res (extract_kv_from_layer mla kv_layer (rm_slot_mapping r)) (\<lambda>kv_cache.
           Inr (dk1\<lparr>d_files := dict_set filename kv_cache (d_files dk1)\<rparr>)))"

definition save_kv_layer ::
  "connector_env \<Rightarrow> bool \<Rightarrow> req_meta list \<Rightarrow> string \<Rightarrow> 'e tensor \<Rightarrow> 'e disk \<Rightarrow> 'e disk res" where
  "save_kv_layer env mla metas layer_name kv_layer dk =
     fold_res (save_request env mla layer_name kv_layer) metas dk"

text \<open>Loading all layers that have a cache, for all requests.\<close>

type_synonym 'e layers = "(string, 'e tensor option) dict"

definition load_layer ::
  "connector_env \<Rightarrow> bool \<Rightarrow> req_meta \<Rightarrow> string \<Rightarrow> 'e layers \<times> 'e disk \<Rightarrow> ('e layers \<times> 'e disk) res" where
  "load_layer env mla r layer_name st =
     (let (layers, dk) = st in
      case dict_get layers layer_name of
        Some (Some kv_cache_layer) \<Rightarrow>
          (let (filename, dk1) = generate_filename env layer_name (rm_token_ids r) (rm_mm_hashes r) dk
           in case dict_get (d_files dk1) filename of
                None \<Rightarrow> Inl FileNotFoundError
              | Some kv_cache \<Rightarrow> bind_res (inject_kv_into_layer mla kv_cache (rm_slot_mapping r) kv_cache_layer) (\<lambda>t.
                  Inr (dict_set layer_name (Some t) layers, dk1)))
      | _ \<Rightarrow> Inr st)"

definition start_load_kv ::
  "connector_env \<Rightarrow> bool option \<Rightarrow> req_meta list \<Rightarrow> 'e layers \<times> 'e disk \<Rightarrow> ('e layers \<times> 'e disk) res" where
  "start_load_kv env attn_metadata metas st =
     (case attn_metadata of
        None \<Rightarrow> Inr st
      | Some mla \<Rightarrow> fold_res (\<lambda>r st. if rm_is_store r then Inr st
          else fold_res (load_layer env mla r) (dict_keys (fst st)) st) metas st)"

section \<open>Rows of a tensor\<close>

lemma map_res_map: "map_res g (map h xs) = map_res (\<lambda>x. g (h x)) xs"
  by (induction xs) (auto split: sum.splits)

lemma rows_of_shape:
  assumes "rows_of n xs = Inr rows"
  shows "length rows = n" "concat rows = xs" "\<forall>r \<in> set rows. length r = length xs div n"
proof -
  let ?w = "length xs div n"
  have n: "0 < n" "length xs = n * ?w"
    and rows: "rows = map (\<lambda>i. Prelude.slice xs (i * ?w) ((i + 1) * ?w)) [0..<n]"
    using assms by (auto simp: rows_of_def Let_def require_eq_Inr mult.commute)
  show "length rows = n" using rows by simp
  have join: "concat (map (\<lambda>i. Prelude.slice xs (i * ?w) ((i + 1) * ?w)) [0..<m]) = Prelude.slice xs 0 (m * ?w)" for m
  proof (induction m)
    case (Suc m)
    then show ?case by (simp add: slice_join)
  qed simp
  have "concat rows = Prelude.slice xs 0 (n * ?w)" using join[of n] rows by simp
  then show "concat rows = xs" using n(2) by simp
  have "length (Prelude.slice xs (i * ?w) ((i + 1) * ?w)) = ?w" if "i < n" for i
  proof -
    have "(i + 1) * ?w \<le> n * ?w" using that by (intro mult_le_mono1) simp
    then show ?thesis using n(2) by (simp add: length_slice)
  qed
  then show "\<forall>r \<in> set rows. length r = ?w" using rows by auto
qed

lemma rows_of_concat:
  assumes "0 < length rows" "\<forall>r \<in> set rows. length r = w"
  shows "rows_of (length rows) (concat rows) = Inr rows"
proof -
  have len: "length (concat rs) = length rs * w" if "\<forall>r \<in> set rs. length r = w" for rs :: "'a list list"
    using that by (induction rs) auto
  have nth: "Prelude.slice (concat rs) (i * w) ((i + 1) * w) = rs ! i"
    if "\<forall>r \<in> set rs. length r = w" "i < length rs" for i and rs :: "'a list list"
    using that
  proof (induction rs arbitrary: i)
    case (Cons r rs)
    then show ?case by (cases i) (auto simp: Prelude.slice_def)
  qed simp
  have "map (\<lambda>i. Prelude.slice (concat rows) (i * w) ((i + 1) * w)) [0..<length rows] = rows"
    by (rule nth_equalityI) (use nth[OF assms(2)] in auto)
  moreover have "length (concat rows) div length rows = w" using assms(1) len[OF assms(2)] by simp
  ultimately show ?thesis using assms(1) len[OF assms(2)] by (simp add: rows_of_def Let_def)
qed

text \<open>What the planes of a layer are: as many rows as slots, of one width, and together the elements.\<close>

lemma layer_planes_shape:
  assumes "layer_planes mla t = Inr ps"
  obtains n w where "num_slots mla t = Inr n" "0 < n" "length ps = (if mla then 1 else 2)"
    "\<forall>p \<in> set ps. length p = n \<and> (\<forall>r \<in> set p. length r = w)" "concat (map concat ps) = t_data t"
proof -
  obtain n where n: "num_slots mla t = Inr n" using assms by (auto simp: layer_planes_def bind_res_eq_Inr)
  have pos: "0 < n" if "rows_of n xs = Inr rows" for xs and rows :: "'a list list"
    using that by (simp add: rows_of_def require_eq_Inr)
  show thesis
  proof (cases mla)
    case True
    then obtain rows where rows: "rows_of n (t_data t) = Inr rows" "ps = [rows]"
      using assms n by (auto simp: layer_planes_def bind_res_eq_Inr)
    show ?thesis by (rule that[OF n pos[OF rows(1)]]) (use rows(2) rows_of_shape[OF rows(1)] True in auto)
  next
    case False
    let ?h = "length (t_data t) div 2"
    obtain k v where kv: "rows_of n (take ?h (t_data t)) = Inr k" "rows_of n (drop ?h (t_data t)) = Inr v"
      "ps = [k, v]" "length (t_data t) mod 2 = 0"
      using assms n False by (auto simp: layer_planes_def bind_res_eq_Inr Let_def require_eq_Inr)
    then have h: "length (drop ?h (t_data t)) = ?h" "length (take ?h (t_data t)) = ?h" by auto
    show ?thesis
      by (rule that[OF n pos[OF kv(1)]])
        (use kv(3) rows_of_shape[OF kv(1)] rows_of_shape[OF kv(2)] h False in auto)
  qed
qed

lemma layer_planes_of:
  assumes "num_slots mla t = Inr n" "0 < n" "length ps = (if mla then 1 else 2)"
    "\<forall>p \<in> set ps. length p = n \<and> (\<forall>r \<in> set p. length r = w)" "concat (map concat ps) = t_data t"
  shows "layer_planes mla t = Inr ps"
proof (cases mla)
  case True
  then obtain p where "ps = [p]" using assms(3) by (cases ps) auto
  then show ?thesis using assms True rows_of_concat[of p w] by (auto simp: layer_planes_def)
next
  case False
  then obtain k v where ps: "ps = [k, v]" using assms(3) by (cases ps; cases "tl ps") auto
  have len: "length (concat rs) = length rs * w" if "\<forall>r \<in> set rs. length r = w" for rs :: "'a list list"
    using that by (induction rs) auto
  have "length (concat k) = n * w" "length (concat v) = n * w" "t_data t = concat k @ concat v"
    using ps assms(4,5) len[of k] len[of v] by auto
  then show ?thesis using ps assms False rows_of_concat[of k w] rows_of_concat[of v w]
    by (auto simp: layer_planes_def Let_def)
qed

lemma layer_planes_like:
  fixes t u :: "'e tensor"
  assumes "layer_planes mla t = Inr ps" "t_shape u = t_shape t" "length (t_data u) = length (t_data t)"
  obtains qs where "layer_planes mla u = Inr qs" "length qs = length ps"
    "\<forall>i < length ps. length (qs ! i) = length (ps ! i)
      \<and> (\<forall>r \<in> set (ps ! i). \<forall>r' \<in> set (qs ! i). length r' = length r)"
proof -
  have like: "\<exists>rows'. rows_of n ys = Inr rows' \<and> length rows' = length rows
      \<and> (\<forall>r \<in> set rows. \<forall>r' \<in> set rows'. length r' = length r)"
    if "rows_of n xs = Inr rows" "length ys = length xs" for n and xs ys :: "'e list" and rows
  proof -
    have "0 < n \<and> length ys mod n = 0" using that by (simp add: rows_of_def require_eq_Inr)
    then obtain rows' where r: "rows_of n ys = Inr rows'" by (simp add: rows_of_def Let_def)
    then show ?thesis using rows_of_shape[OF r] rows_of_shape[OF that(1)] that(2) by auto
  qed
  have ns: "num_slots mla u = num_slots mla t" using assms(2) by (simp add: num_slots_def)
  obtain n where n: "num_slots mla t = Inr n" using assms(1) by (auto simp: layer_planes_def bind_res_eq_Inr)
  show thesis
  proof (cases mla)
    case True
    then obtain rows where "rows_of n (t_data t) = Inr rows" "ps = [rows]"
      using assms(1) n by (auto simp: layer_planes_def bind_res_eq_Inr)
    moreover from like[OF this(1) assms(3)] obtain rows' where "rows_of n (t_data u) = Inr rows'"
      "length rows' = length rows" "\<forall>r \<in> set rows. \<forall>r' \<in> set rows'. length r' = length r" by blast
    ultimately show ?thesis by (intro that[of "[rows']"]) (use True n ns in \<open>auto simp: layer_planes_def\<close>)
  next
    case False
    let ?h = "length (t_data t) div 2"
    obtain k v where kv: "rows_of n (take ?h (t_data t)) = Inr k" "rows_of n (drop ?h (t_data t)) = Inr v"
      "ps = [k, v]" "length (t_data t) mod 2 = 0"
      using assms(1) n False by (auto simp: layer_planes_def bind_res_eq_Inr Let_def require_eq_Inr)
    obtain k' where k': "rows_of n (take ?h (t_data u)) = Inr k'" "length k' = length k"
      "\<forall>r \<in> set k. \<forall>r' \<in> set k'. length r' = length r"
      using like[OF kv(1), of "take ?h (t_data u)"] assms(3) by auto
    obtain v' where v': "rows_of n (drop ?h (t_data u)) = Inr v'" "length v' = length v"
      "\<forall>r \<in> set v. \<forall>r' \<in> set v'. length r' = length r"
      using like[OF kv(2), of "drop ?h (t_data u)"] assms(3) by auto
    show ?thesis
      by (rule that[of "[k', v']"])
        (use False n ns k' v' kv(3,4) assms(3) in \<open>auto simp: layer_planes_def Let_def nth_Cons' split: if_splits\<close>)
  qed
qed

lemma put_fold:
  assumes "length rs = length slots" "\<forall>s \<in> set slots. s < length rows" "distinct slots"
  shows "\<exists>rows'. fold_res (\<lambda>(slot, row) rows. put_res rows slot row) (zip slots rs) rows = Inr rows'
    \<and> length rows' = length rows \<and> (\<forall>i < length slots. rows' ! (slots ! i) = rs ! i)
    \<and> (\<forall>s. s \<notin> set slots \<longrightarrow> rows' ! s = rows ! s)
    \<and> set rows' \<subseteq> set rows \<union> set rs"
  using assms
proof (induction slots arbitrary: rs rows)
  case Nil
  then show ?case by auto
next
  case (Cons a slots)
  then obtain r rs' where rs: "rs = r # rs'" by (cases rs) auto
  have "\<exists>rows'. fold_res (\<lambda>(slot, row) rows. put_res rows slot row) (zip slots rs') (rows[a := r]) = Inr rows'
    \<and> length rows' = length rows \<and> (\<forall>i < length slots. rows' ! (slots ! i) = rs' ! i)
    \<and> (\<forall>s. s \<notin> set slots \<longrightarrow> rows' ! s = rows[a := r] ! s)
    \<and> set rows' \<subseteq> set (rows[a := r]) \<union> set rs'"
    using Cons.IH[of rs' "rows[a := r]"] Cons.prems rs by simp
  then obtain rows' where rows': "fold_res (\<lambda>(slot, row) rows. put_res rows slot row) (zip slots rs') (rows[a := r]) = Inr rows'"
    "length rows' = length rows" "\<forall>i < length slots. rows' ! (slots ! i) = rs' ! i"
    "\<forall>s. s \<notin> set slots \<longrightarrow> rows' ! s = rows[a := r] ! s" "set rows' \<subseteq> set (rows[a := r]) \<union> set rs'"
    by blast
  have a: "rows' ! a = r" using rows'(4) Cons.prems by simp
  have "set rows' \<subseteq> set rows \<union> set rs" using rows'(5) set_update_subset_insert[of rows a r] rs by auto
  then show ?case
    using rows'(1-4) a Cons.prems rs by (intro exI[of _ rows']) (auto simp: nth_Cons')
qed

lemma put_rows_correct:
  assumes "length src = length slots" "\<forall>s \<in> set slots. s < length rows" "distinct slots"
    and "\<forall>r \<in> set rows. length r = w" "\<forall>r \<in> set src. length r = w" "rows \<noteq> []"
  shows "\<exists>rows'. put_rows slots src rows = Inr rows' \<and> length rows' = length rows
    \<and> (\<forall>r \<in> set rows'. length r = w) \<and> (\<forall>i < length slots. rows' ! (slots ! i) = src ! i)
    \<and> (\<forall>s. s \<notin> set slots \<longrightarrow> rows' ! s = rows ! s)"
proof -
  have "map_res (broadcast (length (hd rows))) src = Inr src"
    using map_res_total[of src "broadcast w" "\<lambda>r. r"] assms(4-6) by (simp add: broadcast_def)
  then show ?thesis using put_fold[OF assms(1-3)] assms(1,4,5)
    by (fastforce simp: put_rows_def broadcast_def)
qed

lemma length_concat_uniform: "\<forall>x \<in> set xs. length x = w \<Longrightarrow> length (concat xs) = length xs * w"
  by (induction xs) auto

text \<open>A whole layer: every plane gets the rows of the file at the slots and keeps the others.\<close>

lemma inject_correct:
  assumes "layer_planes mla t = Inr qs" "length src = length qs" "distinct slots"
    and "\<And>i. i < length qs \<Longrightarrow> length (src ! i) = length slots"
    and "\<And>i r. i < length qs \<Longrightarrow> r \<in> set (src ! i) \<Longrightarrow> length r = length (hd (qs ! i))"
    and "num_slots mla t = Inr n" "\<forall>s \<in> set slots. s < n"
  shows "\<exists>t' ps'. inject_kv_into_layer mla src slots t = Inr t' \<and> layer_planes mla t' = Inr ps'
    \<and> t_shape t' = t_shape t \<and> length (t_data t') = length (t_data t) \<and> length ps' = length qs
    \<and> (\<forall>p < length qs. (\<forall>i < length slots. ps' ! p ! (slots ! i) = src ! p ! i)
        \<and> (\<forall>s. s \<notin> set slots \<longrightarrow> ps' ! p ! s = qs ! p ! s))"
proof -
  obtain w where q: "0 < n" "length qs = (if mla then 1 else 2)"
    "\<forall>p \<in> set qs. length p = n \<and> (\<forall>r \<in> set p. length r = w)" "concat (map concat qs) = t_data t"
    by (rule layer_planes_shape[OF assms(1)]) (use assms(6) in auto)
  have hd: "length (hd (qs ! i)) = w" "qs ! i \<noteq> []" if "i < length qs" for i
    using q that by (metis hd_in_set less_irrefl list.size(3) nth_mem)+
  let ?P = "\<lambda>i rows'. put_rows slots (src ! i) (qs ! i) = Inr rows' \<and> length rows' = length (qs ! i)
    \<and> (\<forall>r \<in> set rows'. length r = w) \<and> (\<forall>j < length slots. rows' ! (slots ! j) = src ! i ! j)
    \<and> (\<forall>s. s \<notin> set slots \<longrightarrow> rows' ! s = qs ! i ! s)"
  have "\<exists>rows'. ?P i rows'" if "i < length qs" for i
    by (rule put_rows_correct) (use assms that q hd in auto)
  then obtain f where f: "?P i (f i)" if "i < length qs" for i by metis
  let ?ps = "map f [0..<length qs]"
  have "map_res (\<lambda>(s, rows). put_rows slots s rows) (zip src qs)
      = map_res (\<lambda>i. put_rows slots (src ! i) (qs ! i)) [0..<length qs]"
  proof -
    have "zip src qs = map (\<lambda>i. (src ! i, qs ! i)) [0..<length qs]"
      by (rule nth_equalityI) (use assms(2) in auto)
    then show ?thesis by (simp add: map_res_map)
  qed
  also have "\<dots> = Inr ?ps" by (rule map_res_total) (use f in auto)
  finally have inj: "inject_kv_into_layer mla src slots t = Inr (t\<lparr>t_data := concat (map concat ?ps)\<rparr>)"
    using assms(1,2) by (simp add: inject_kv_into_layer_def broadcast_def)
  let ?t = "t\<lparr>t_data := concat (map concat ?ps)\<rparr>"
  have "layer_planes mla ?t = Inr ?ps"
    by (rule layer_planes_of[of _ _ n]) (use assms(6) q f in \<open>auto simp: num_slots_def\<close>)
  have all: "length (concat (map concat xs)) = length xs * (n * w)"
    if "\<forall>p \<in> set xs. length p = n \<and> (\<forall>r \<in> set p. length r = w)" for xs :: "'a list list list"
  proof -
    have "length (concat x) = n * w" if "x \<in> set xs" for x
      using that \<open>\<forall>p \<in> set xs. _ p\<close> length_concat_uniform[of x w] by simp
    then show ?thesis using length_concat_uniform[of "map concat xs" "n * w"] by simp
  qed
  have "\<forall>p \<in> set ?ps. length p = n \<and> (\<forall>r \<in> set p. length r = w)" using f q(3) by auto
  then have "length (t_data ?t) = length (t_data t)" using all[of ?ps] all[OF q(3)] q(4) by simp
  then show ?thesis using \<open>layer_planes mla ?t = Inr ?ps\<close> inj f by (intro exI[of _ ?t] exI[of _ ?ps]) auto
qed

section \<open>What is stored is loaded\<close>

lemma extract_rows:
  assumes "extract_kv_from_layer mla layer slots = Inr src"
  obtains ps n where "layer_planes mla layer = Inr ps" "num_slots mla layer = Inr n" "length src = length ps"
    "\<forall>s \<in> set slots. s < n \<or> ps = []"
    "\<forall>p < length ps. length (src ! p) = length slots \<and> (\<forall>i < length slots. src ! p ! i = ps ! p ! (slots ! i))
      \<and> set (src ! p) \<subseteq> set (ps ! p)"
proof -
  obtain ps where ps: "layer_planes mla layer = Inr ps"
    and src: "map_res (\<lambda>rows. map_res (nth_res rows) slots) ps = Inr src"
    using assms by (auto simp: extract_kv_from_layer_def bind_res_eq_Inr)
  obtain n w where n: "num_slots mla layer = Inr n"
    "\<forall>p \<in> set ps. length p = n \<and> (\<forall>r \<in> set p. length r = w)"
    by (rule layer_planes_shape[OF ps]) auto
  have rows: "map_res (nth_res (ps ! p)) slots = Inr (src ! p)" if "p < length ps" for p
    using map_res_Inr_nth[OF src that] by simp
  have row: "slots ! i < length (ps ! p) \<and> src ! p ! i = ps ! p ! (slots ! i)"
    if "p < length ps" "i < length slots" for p i
    using map_res_Inr_nth[OF rows[OF that(1)] that(2)] by (auto simp: nth_res_eq_Inr)
  have len: "length (src ! p) = length slots" if "p < length ps" for p
    using map_res_Inr_length[OF rows[OF that]] .
  have "s < n" if "s \<in> set slots" "ps \<noteq> []" for s
    using that row[of 0] n(2) by (fastforce simp: in_set_conv_nth)
  moreover have "set (src ! p) \<subseteq> set (ps ! p)" if "p < length ps" for p
    using that row len by (fastforce simp: in_set_conv_nth)
  ultimately show thesis using that[OF ps n(1)] map_res_Inr_length[OF src] row len by blast
qed

lemma save_request_disk:
  assumes "save_request env mla name layer r dk = Inr dk1"
  shows "(rm_is_store r \<longrightarrow> (\<exists>src. extract_kv_from_layer mla layer (rm_slot_mapping r) = Inr src
      \<and> dict_get (d_files dk1) (fst (generate_filename env name (rm_token_ids r) (rm_mm_hashes r) dk)) = Some src
      \<and> generate_foldername env (rm_token_ids r) (rm_mm_hashes r) \<in> set (d_folders dk1)))
    \<and> (\<forall>f. rm_is_store r \<longrightarrow> f \<noteq> fst (generate_filename env name (rm_token_ids r) (rm_mm_hashes r) dk)
        \<longrightarrow> dict_get (d_files dk1) f = dict_get (d_files dk) f)
    \<and> (\<not> rm_is_store r \<longrightarrow> dk1 = dk) \<and> set (d_folders dk) \<subseteq> set (d_folders dk1)"
  using assms by (cases "rm_is_store r") (auto simp: save_request_def generate_filename_def Let_def bind_res_eq_Inr)

text \<open>The name of a file does not depend on the disk.\<close>

definition kv_path :: "connector_env \<Rightarrow> string \<Rightarrow> req_meta \<Rightarrow> string" where
  "kv_path env name r = path_join (generate_foldername env (rm_token_ids r) (rm_mm_hashes r)) (name @ ''.safetensors'')"

lemma fst_generate_filename [simp]:
  "fst (generate_filename env name (rm_token_ids r) (rm_mm_hashes r) dk) = kv_path env name r"
  by (simp add: generate_filename_def kv_path_def Let_def)

lemma save_keeps_file:
  assumes "save_kv_layer env mla ys name layer dk = Inr dk1"
    and "\<forall>r \<in> set ys. rm_is_store r \<longrightarrow> kv_path env name r \<noteq> f"
  shows "dict_get (d_files dk1) f = dict_get (d_files dk) f \<and> set (d_folders dk) \<subseteq> set (d_folders dk1)"
  by (rule fold_res_invariant[OF assms(1)[unfolded save_kv_layer_def]])
    (use save_request_disk assms(2) in fastforce)+

lemma saved_file:
  assumes "save_kv_layer env mla (xs @ r # ys) name layer dk = Inr dk1" "rm_is_store r"
    and "\<forall>r' \<in> set ys. rm_is_store r' \<longrightarrow> kv_path env name r' \<noteq> kv_path env name r"
  obtains src where "extract_kv_from_layer mla layer (rm_slot_mapping r) = Inr src"
    "dict_get (d_files dk1) (kv_path env name r) = Some src"
    "generate_foldername env (rm_token_ids r) (rm_mm_hashes r) \<in> set (d_folders dk1)"
proof -
  obtain dka dkb where dk: "save_request env mla name layer r dka = Inr dkb"
    "save_kv_layer env mla ys name layer dkb = Inr dk1"
    using assms(1) by (auto simp: save_kv_layer_def fold_res_append split: sum.splits)
  show thesis using save_request_disk[OF dk(1)] save_keeps_file[OF dk(2) assms(3)] assms(2) that by auto
qed

text \<open>
  Rows: after a layer has been saved for the requests of a step, loading a request with the same tokens
  and multimodal inputs into a layer of the same shape succeeds, puts every saved row at the slot the
  loading request has for it, in every plane, and changes no other row. Which elements a row
  holds depends on the shape of the layer (theory \<open>StorageLayout\<close>).
\<close>
lemma stored_rows_are_loaded:
  assumes "save_kv_layer env mla (xs @ st # ys) name layer dk = Inr dk1" "rm_is_store st"
    and "\<forall>r \<in> set ys. rm_is_store r \<longrightarrow> kv_path env name r \<noteq> kv_path env name st"
    and "rm_token_ids ld = rm_token_ids st" "rm_mm_hashes ld = rm_mm_hashes st"
    and "length (rm_slot_mapping ld) = length (rm_slot_mapping st)" "distinct (rm_slot_mapping ld)"
    and "dict_get layers name = Some (Some t)"
    and "t_shape t = t_shape layer" "length (t_data t) = length (t_data layer)"
    and "num_slots mla t = Inr n" "\<forall>s \<in> set (rm_slot_mapping ld). s < n"
  shows "\<exists>ps qs t' ps' dk2. layer_planes mla layer = Inr ps \<and> layer_planes mla t = Inr qs
    \<and> load_layer env mla ld name (layers, dk1) = Inr (dict_set name (Some t') layers, dk2)
    \<and> layer_planes mla t' = Inr ps' \<and> t_shape t' = t_shape t \<and> length (t_data t') = length (t_data t) \<and> length ps' = length ps
    \<and> (\<forall>p < length ps. (\<forall>i < length (rm_slot_mapping ld).
          ps' ! p ! (rm_slot_mapping ld ! i) = ps ! p ! (rm_slot_mapping st ! i))
        \<and> (\<forall>s. s \<notin> set (rm_slot_mapping ld) \<longrightarrow> ps' ! p ! s = qs ! p ! s))"
proof -
  obtain src where src: "extract_kv_from_layer mla layer (rm_slot_mapping st) = Inr src"
    "dict_get (d_files dk1) (kv_path env name st) = Some src"
    by (rule saved_file[OF assms(1-3)])
  obtain ps where ps: "layer_planes mla layer = Inr ps" "length src = length ps"
    and rows: "\<forall>p < length ps. length (src ! p) = length (rm_slot_mapping st)
      \<and> (\<forall>i < length (rm_slot_mapping st). src ! p ! i = ps ! p ! (rm_slot_mapping st ! i))
      \<and> set (src ! p) \<subseteq> set (ps ! p)"
    by (rule extract_rows[OF src(1)])
  obtain qs where qs: "layer_planes mla t = Inr qs" "length qs = length ps"
    "\<forall>i < length ps. length (qs ! i) = length (ps ! i)
      \<and> (\<forall>r \<in> set (ps ! i). \<forall>r' \<in> set (qs ! i). length r' = length r)"
    by (rule layer_planes_like[OF ps(1) assms(9,10)])
  have width: "length r = length (hd (qs ! i))" if "i < length qs" "r \<in> set (src ! i)" for i r
    using that qs(2,3) rows ps(2) by (metis hd_in_set length_0_conv length_pos_if_in_set less_irrefl subsetD)
  have "\<exists>t' ps'. inject_kv_into_layer mla src (rm_slot_mapping ld) t = Inr t' \<and> layer_planes mla t' = Inr ps'
    \<and> t_shape t' = t_shape t \<and> length (t_data t') = length (t_data t) \<and> length ps' = length qs
    \<and> (\<forall>p < length qs. (\<forall>i < length (rm_slot_mapping ld). ps' ! p ! (rm_slot_mapping ld ! i) = src ! p ! i)
        \<and> (\<forall>s. s \<notin> set (rm_slot_mapping ld) \<longrightarrow> ps' ! p ! s = qs ! p ! s))"
    by (rule inject_correct[OF qs(1) _ assms(7) _ width assms(11,12)]) (use ps(2) qs(2) rows assms(6) in auto)
  then obtain t' ps' where t': "inject_kv_into_layer mla src (rm_slot_mapping ld) t = Inr t'" "layer_planes mla t' = Inr ps'"
    "t_shape t' = t_shape t" "length (t_data t') = length (t_data t)" "length ps' = length qs"
    "\<forall>p < length qs. (\<forall>i < length (rm_slot_mapping ld). ps' ! p ! (rm_slot_mapping ld ! i) = src ! p ! i)
        \<and> (\<forall>s. s \<notin> set (rm_slot_mapping ld) \<longrightarrow> ps' ! p ! s = qs ! p ! s)"
    by blast
  have path: "kv_path env name ld = kv_path env name st" using assms(4,5) by (simp add: kv_path_def)
  have "\<exists>dk2. load_layer env mla ld name (layers, dk1) = Inr (dict_set name (Some t') layers, dk2)"
    using src(2) t'(1) assms(8) path
    by (simp add: load_layer_def generate_filename_def kv_path_def Let_def)
  then show ?thesis using ps(1) qs(1,2) t' rows assms(6) by auto
qed

section \<open>Which prompts are found\<close>

lemma align_nonneg: "0 < bs \<Longrightarrow> 1 \<le> n \<Longrightarrow> 0 \<le> align_to_block_size n bs"
  by (simp add: align_to_block_size_def pos_imp_zdiv_nonneg_iff)

lemma align_le: "0 < bs \<Longrightarrow> 1 \<le> n \<Longrightarrow> align_to_block_size n bs < n"
proof -
  assume "0 < bs" "1 \<le> n"
  then have "0 \<le> (n - 1) mod int bs" by simp
  then show ?thesis using div_mult_mod_eq[of "n - 1" "int bs"] by (simp only: align_to_block_size_def)
qed

text \<open>Aligning one token less gives the same count unless the last token is alone in its block.\<close>

lemma align_pred:
  assumes "0 < bs" "(n - 1) mod int bs \<noteq> 0"
  shows "align_to_block_size (n - 1) bs = align_to_block_size n bs"
proof -
  have "(n - 1 - 1) div int bs = (n - 1) div int bs"
  proof (rule int_div_pos_eq)
    show "n - 1 - 1 = int bs * ((n - 1) div int bs) + ((n - 1) mod int bs - 1)" by simp
    have "0 \<le> (n - 1) mod int bs" "(n - 1) mod int bs < int bs" using assms(1) by simp_all
    then show "0 \<le> (n - 1) mod int bs - 1" "(n - 1) mod int bs - 1 < int bs" using assms(2) by linarith+
  qed
  then show ?thesis by (simp add: align_to_block_size_def)
qed

lemma align_block: "0 < bs \<Longrightarrow> align_to_block_size (int (k * bs)) bs = (int k - 1) * int bs"
proof -
  assume "0 < bs"
  then have "(int (k * bs) - 1) div int bs = int k - 1"
    by (intro int_div_pos_eq[where r = "int bs - 1"]) (auto simp: algebra_simps)
  then show ?thesis by (simp add: align_to_block_size_def)
qed

lemma take_to_int [simp]: "take_to (int m) xs = take m xs"
  by (simp add: take_to_def)

lemma length_take_to: "0 \<le> n \<Longrightarrow> n \<le> int (length xs) \<Longrightarrow> int (length (take_to n xs)) = n"
  by (simp add: take_to_def)

text \<open>
  A stored prompt is found again: after the workers have stored a prompt whose last token is not
  the first of its block, a request with the same prompt and multimodal inputs is found, and the
  tokens it is told to load are exactly those of the stored file.
\<close>
theorem stored_prompt_found:
  assumes "save_kv_layer env mla (xs @ st # ys) name layer dk = Inr dk1"
    and "\<forall>r \<in> set ys. rm_is_store r \<longrightarrow> kv_path env name r \<noteq> kv_path env name st"
    and "st = make_meta p block_ids (ce_block_size env) True (ce_identifiers env (r_mm_features r))"
    and "r_prompt_token_ids r = Some p" "0 < ce_block_size env"
    and "(int (length p) - 1) mod int (ce_block_size env) \<noteq> 0" "p \<noteq> []"
  shows "found_match_for_request env dk1 r
    \<and> get_num_new_matched_tokens env dk1 r num_computed
        = (Some (int (length (rm_token_ids st)) - num_computed), False)"
proof -
  let ?n = "align_to_block_size (int (length p)) (ce_block_size env)"
  have n: "align_to_block_size (int (length p) - 1) (ce_block_size env) = ?n" "0 \<le> ?n" "?n < int (length p)"
    using align_pred[OF assms(5,6)] align_nonneg[OF assms(5)] align_le[OF assms(5)] assms(7)
    by (auto simp: Suc_le_eq)
  have st: "rm_token_ids st = take_to ?n p" "rm_mm_hashes st = ce_identifiers env (r_mm_features r)" "rm_is_store st"
    by (simp_all add: assms(3) make_meta_def Let_def)
  have "generate_foldername env (rm_token_ids st) (rm_mm_hashes st) \<in> set (d_folders dk1)"
    by (rule saved_file[OF assms(1) st(3) assms(2)])
  then have "found_match_for_request env dk1 r"
    using n(1) st assms(4)
    by (simp add: found_match_for_request_def found_match_for_prompt_def list_or_empty_def)
  then show ?thesis
    using n length_take_to[OF n(2), of p] st(1) assms(4)
    by (simp add: get_num_new_matched_tokens_def list_or_empty_def)
qed

text \<open>
  A prompt of whole blocks and one token is found when only its whole blocks are on the disk, but
  the load then asks for one block more than is stored: the file does not exist and the worker
  raises.
\<close>
theorem found_prompt_without_file:
  assumes "save_kv_layer env mla [st] name layer \<lparr>d_folders = [], d_files = []\<rparr> = Inr dk1"
    and "st = make_meta q block_ids (ce_block_size env) True mm"
    and "ld = make_meta (q @ [t]) block_ids' (ce_block_size env) False mm"
    and "length q = k * ce_block_size env" "1 \<le> k" "0 < ce_block_size env"
    and "r_prompt_token_ids r = Some (q @ [t])" "ce_identifiers env (r_mm_features r) = mm"
    and "kv_path env name ld \<noteq> kv_path env name st"
    and "dict_get layers name = Some (Some kv_cache)"
  shows "get_num_new_matched_tokens env dk1 r num_computed
        = (Some (int ((k - 1) * ce_block_size env) - num_computed), False)
    \<and> load_layer env mla ld name (layers, dk1) = Inl FileNotFoundError"
proof -
  let ?bs = "ce_block_size env"
  have al: "align_to_block_size (int (length q)) ?bs = int ((k - 1) * ?bs)"
    "align_to_block_size (int (length (q @ [t])) - 1) ?bs = int ((k - 1) * ?bs)"
    using align_block[OF assms(6), of k] assms(4,5) by (simp_all add: of_nat_diff)
  have "(k - 1) * ?bs \<le> length q" using assms(4) by (simp add: diff_mult_distrib)
  then have tok: "take_to (int ((k - 1) * ?bs)) (q @ [t]) = take_to (int ((k - 1) * ?bs)) q"
    unfolding take_to_int by simp
  have st: "rm_token_ids st = take_to (int ((k - 1) * ?bs)) q" "rm_mm_hashes st = mm" "rm_is_store st"
    using al(1) by (simp_all add: assms(2) make_meta_def Let_def)
  obtain src where src: "generate_foldername env (rm_token_ids st) (rm_mm_hashes st) \<in> set (d_folders dk1)"
    "d_files dk1 = [(kv_path env name st, src)]"
    using assms(1) st(3)
    by (auto simp: save_kv_layer_def save_request_def generate_filename_def kv_path_def Let_def
        bind_res_eq_Inr split: sum.splits)
  have "found_match_for_request env dk1 r"
    using src(1) st al(2) tok assms(7,8)
    by (simp add: found_match_for_request_def found_match_for_prompt_def list_or_empty_def)
  then have "get_num_new_matched_tokens env dk1 r num_computed = (Some (int ((k - 1) * ?bs) - num_computed), False)"
    using al(2) assms(7) by (simp add: get_num_new_matched_tokens_def list_or_empty_def)
  moreover have "load_layer env mla ld name (layers, dk1) = Inl FileNotFoundError"
    using src(2) assms(9,10) by (simp add: load_layer_def generate_filename_def kv_path_def Let_def)
  ultimately show ?thesis by simp
qed

section \<open>The layout of the cache of the device\<close>

lemma map_res_index_error:
  "s \<in> set slots \<Longrightarrow> length rows \<le> s \<Longrightarrow> map_res (nth_res rows) slots = Inl IndexError"
  by (induction slots) (auto simp: nth_res_def split: sum.splits)

text \<open>
  The cache of the device has the shape of blocks, heads, block size and head size behind the two
  planes, and the connector takes the number of heads for the size of a page: with fewer heads than
  tokens in a block, storing a prompt that uses the last block raises.
\<close>
theorem device_layout_raises:
  assumes "t_shape layer = [2, num_blocks, heads, ce_block_size env, head_size]"
    and "length (t_data layer) = 2 * (num_blocks * heads * ce_block_size env * head_size)"
    and "0 < heads" "heads < ce_block_size env" "num_blocks - 1 \<in> set block_ids" "0 < num_blocks"
    and "length p = length block_ids * ce_block_size env + 1"
  shows "save_kv_layer env False (make_meta p block_ids (ce_block_size env) True mm # ys) name layer dk
    = Inl IndexError"
proof -
  let ?bs = "ce_block_size env" and ?n = "num_blocks * heads"
  let ?slots = "concat (map (\<lambda>b. map (\<lambda>offset. offset + b * ?bs) [0..<?bs]) block_ids)"
  have bs: "0 < ?bs" using assms(4) by simp
  have "length ?slots = length block_ids * ?bs" by (induction block_ids) auto
  moreover have "align_to_block_size (int (length p)) ?bs = int (length block_ids * ?bs)"
    using assms(7) bs by (simp add: align_to_block_size_def)
  ultimately have slots: "rm_slot_mapping (make_meta p block_ids ?bs True mm) = ?slots"
    by (simp only: make_meta_def Let_def req_meta.simps take_to_int) simp
  have half: "length (t_data layer) div 2 = ?n * (?bs * head_size)" "length (t_data layer) mod 2 = 0"
    using assms(2) by (simp_all add: mult.assoc)
  have rows: "\<exists>rows. rows_of ?n xs = Inr rows \<and> length rows = ?n" if "length xs = ?n * (?bs * head_size)"
    for xs :: "'a list"
    using that assms(3,6) by (simp add: rows_of_def Let_def)
  moreover have "length (take (?n * (?bs * head_size)) (t_data layer)) = ?n * (?bs * head_size)"
    "length (drop (?n * (?bs * head_size)) (t_data layer)) = ?n * (?bs * head_size)"
    using assms(2) by (simp_all add: mult.assoc)
  ultimately obtain k v where kv: "rows_of ?n (take (?n * (?bs * head_size)) (t_data layer)) = Inr k" "length k = ?n"
    "rows_of ?n (drop (?n * (?bs * head_size)) (t_data layer)) = Inr v" by metis
  have planes: "layer_planes False layer = Inr [k, v]"
    using assms(1) kv half by (simp add: layer_planes_def num_slots_def Let_def)
  have "?bs - 1 + (num_blocks - 1) * ?bs \<in> set ?slots" using assms(5) bs by force
  moreover have "?n \<le> ?bs - 1 + (num_blocks - 1) * ?bs"
  proof -
    have "num_blocks * heads + num_blocks \<le> num_blocks * ?bs"
      using assms(4) by (metis Suc_leI add.commute mult_Suc_right mult_le_mono2)
    moreover have "?bs + (num_blocks - 1) * ?bs = num_blocks * ?bs" using assms(6) by (cases num_blocks) auto
    ultimately show ?thesis using assms(6) bs by linarith
  qed
  ultimately have "map_res (nth_res k) ?slots = Inl IndexError"
    using kv(2) map_res_index_error[of "?bs - 1 + (num_blocks - 1) * ?bs" ?slots k] by simp
  then have "extract_kv_from_layer False layer ?slots = Inl IndexError"
    by (simp add: extract_kv_from_layer_def planes)
  then show ?thesis
    using slots by (simp add: save_kv_layer_def save_request_def generate_filename_def Let_def)
      (simp add: make_meta_def Let_def)
qed

section \<open>The metadata of a step\<close>

definition needs_new :: "connector_env \<Rightarrow> 'e disk \<Rightarrow> req_id list \<Rightarrow> new_request_data \<Rightarrow> bool" where
  "needs_new env dk need nd \<longleftrightarrow> nd_req_id nd \<in> set need
     \<or> \<not> found_match_for_prompt env dk (list_or_empty (nd_prompt_token_ids nd)) (ce_identifiers env (nd_mm_features nd))"

definition new_meta :: "connector_env \<Rightarrow> req_id list \<Rightarrow> new_request_data \<Rightarrow> req_meta" where
  "new_meta env need nd = make_meta (list_or_empty (nd_prompt_token_ids nd)) (hd (nd_block_ids nd)) (ce_block_size env)
     (nd_req_id nd \<notin> set need) (ce_identifiers env (nd_mm_features nd))"

definition needs_cached :: "cached_reqs \<Rightarrow> req_id list \<Rightarrow> nat \<times> req_id \<Rightarrow> bool" where
  "needs_cached cq need p \<longleftrightarrow> snd p \<in> set (cq_resumed_req_ids cq) \<and> snd p \<in> set need"

definition cached_meta :: "connector_env \<Rightarrow> heap \<Rightarrow> (req_id, int) dict \<Rightarrow> cached_reqs \<Rightarrow> nat \<times> req_id \<Rightarrow> req_meta" where
  "cached_meta env hp num_scheduled cq p =
     make_meta (take_to (cq_num_computed_tokens cq ! fst p + the (dict_get num_scheduled (snd p))) (all_token_ids (hp (snd p))))
       (hd (the (cq_new_block_ids cq ! fst p))) (ce_block_size env) False (ce_identifiers env (r_mm_features (hp (snd p))))"

lemma fold_meta_of_new:
  assumes "\<forall>nd \<in> set new. nd_block_ids nd \<noteq> []"
  shows "fold_res (meta_of_new env dk need) new (ms, n) =
     Inr (ms @ map (new_meta env need) (filter (needs_new env dk need) new),
          n + length (filter (\<lambda>nd. nd_req_id nd \<in> set need) new))"
  using assms
proof (induction new arbitrary: ms n)
  case (Cons nd new)
  then have "nth_res (nd_block_ids nd) 0 = Inr (hd (nd_block_ids nd))" by (simp add: nth_res_def hd_conv_nth)
  then show ?case using Cons by (simp add: meta_of_new_def Let_def needs_new_def new_meta_def)
qed simp

definition cached_fits :: "cached_reqs \<Rightarrow> (req_id, int) dict \<Rightarrow> nat \<times> req_id \<Rightarrow> bool" where
  "cached_fits cq num_scheduled p \<longleftrightarrow> fst p < length (cq_num_computed_tokens cq) \<and> fst p < length (cq_new_block_ids cq)
     \<and> snd p \<in> set (dict_keys num_scheduled)
     \<and> (case cq_new_block_ids cq ! fst p of None \<Rightarrow> False | Some bs \<Rightarrow> bs \<noteq> [])"

lemma fold_meta_of_cached:
  assumes "\<forall>p \<in> set ps. needs_cached cq need p \<longrightarrow> cached_fits cq num_scheduled p"
  shows "fold_res (meta_of_cached env hp num_scheduled cq need) ps (ms, n) =
     Inr (ms @ map (cached_meta env hp num_scheduled cq) (filter (needs_cached cq need) ps),
          n + length (filter (needs_cached cq need) ps))"
  using assms
proof (induction ps arbitrary: ms n)
  case (Cons p ps)
  obtain i rid where p: "p = (i, rid)" by (cases p)
  show ?case
  proof (cases "needs_cached cq need p")
    case True
    then obtain bs m where "cq_new_block_ids cq ! i = Some bs" "bs \<noteq> []" "i < length (cq_num_computed_tokens cq)"
      "i < length (cq_new_block_ids cq)" "dict_get num_scheduled rid = Some m"
      using Cons.prems p by (auto simp: cached_fits_def split: option.splits) (metis domIff dom_map_of_conv_image_fst image_eqI fst_conv option.exhaust_sel)
    then have "meta_of_cached env hp num_scheduled cq need p (ms, n)
        = Inr (ms @ [cached_meta env hp num_scheduled cq p], n + 1)"
      using True p by (simp add: meta_of_cached_def needs_cached_def cached_meta_def dict_at_def nth_res_def hd_conv_nth Let_def)
    then show ?thesis using Cons True by simp
  next
    case False
    then have "meta_of_cached env hp num_scheduled cq need p (ms, n) = Inr (ms, n)"
      using p by (auto simp: meta_of_cached_def needs_cached_def)
    then show ?thesis using Cons False by simp
  qed
qed simp

lemma card_Int_full: "finite X \<Longrightarrow> card (X \<inter> Y) = card X \<longleftrightarrow> X \<subseteq> Y"
  using card_subset_eq[of X "X \<inter> Y"] by (auto simp: Int_absorb2)

text \<open>
  The metadata of a step: the new requests and the resumed ones that need a load get one each, new
  prompts that are not found get a store, in the order of the scheduler output, and the connector
  forgets its requests; the assertion on the number of loads holds exactly when every request that
  needs a load is scheduled as a new or a resumed one.
\<close>
theorem build_connector_meta_complete:
  assumes "distinct (map nd_req_id (so_new_reqs so) @ cq_req_ids cq)" "distinct need"
    and "\<forall>nd \<in> set (so_new_reqs so). nd_block_ids nd \<noteq> []"
    and "\<forall>p \<in> set (enumerate 0 (cq_req_ids cq)). needs_cached cq need p
      \<longrightarrow> cached_fits cq (so_num_scheduled_tokens so) p"
  shows "build_connector_meta env dk hp so cq need =
    (if set need \<subseteq> set (map nd_req_id (so_new_reqs so)) \<union> set (cq_req_ids cq) \<inter> set (cq_resumed_req_ids cq)
     then Inr (map (new_meta env need) (filter (needs_new env dk need) (so_new_reqs so))
       @ map (cached_meta env hp (so_num_scheduled_tokens so) cq)
           (filter (needs_cached cq need) (enumerate 0 (cq_req_ids cq))), [])
     else Inl AssertionError)"
proof -
  let ?new = "filter (\<lambda>nd. nd_req_id nd \<in> set need) (so_new_reqs so)"
  let ?cached = "filter (needs_cached cq need) (enumerate 0 (cq_req_ids cq))"
  let ?ids = "map nd_req_id ?new @ map snd ?cached"
  have cached: "map snd (filter (needs_cached cq need) (enumerate n xs))
      = filter (\<lambda>rid. rid \<in> set (cq_resumed_req_ids cq) \<and> rid \<in> set need) xs" for n xs
    by (induction xs arbitrary: n) (auto simp: needs_cached_def)
  have new: "map nd_req_id (filter (\<lambda>nd. nd_req_id nd \<in> set need) xs) = filter (\<lambda>rid. rid \<in> set need) (map nd_req_id xs)" for xs
    by (induction xs) auto
  have "distinct ?ids" using assms(1) unfolding cached new by (auto intro: distinct_filter)
  then have "length ?new + length ?cached = card (set ?ids)" using distinct_card[of ?ids] by simp
  also have "set ?ids = set need \<inter>
      (set (map nd_req_id (so_new_reqs so)) \<union> set (cq_req_ids cq) \<inter> set (cq_resumed_req_ids cq))"
    unfolding set_append cached new by auto
  finally have "length ?new + length ?cached = card (set need \<inter>
      (set (map nd_req_id (so_new_reqs so)) \<union> set (cq_req_ids cq) \<inter> set (cq_resumed_req_ids cq)))" .
  moreover have "card (set need) = length need" using assms(2) by (rule distinct_card)
  moreover note card_Int_full[of "set need"
      "set (map nd_req_id (so_new_reqs so)) \<union> set (cq_req_ids cq) \<inter> set (cq_resumed_req_ids cq)"]
  ultimately have "length ?new + length ?cached = length need \<longleftrightarrow>
      set need \<subseteq> set (map nd_req_id (so_new_reqs so)) \<union> set (cq_req_ids cq) \<inter> set (cq_resumed_req_ids cq)"
    using List.finite_set[of need] by (simp only:)
  then show ?thesis
    using fold_meta_of_new[OF assms(3), of env dk need "[]" 0] fold_meta_of_cached[OF assms(4)]
    by (simp add: build_connector_meta_def require_def)
qed

section \<open>A concrete connector\<close>

definition shelf_env :: connector_env where
  "shelf_env = \<lparr>ce_storage_path = ''/tmp'', ce_block_size = 2,
     ce_md5 = (\<lambda>bs. if length bs < 20 then ''a'' else ''b''), ce_identifiers = (\<lambda>_. [])\<rparr>"

definition shelf_layer :: "nat list \<Rightarrow> nat tensor" where
  "shelf_layer xs = \<lparr>t_shape = [2, 2, 2], t_data = xs\<rparr>"

definition shelf_empty :: "nat disk" where
  "shelf_empty = \<lparr>d_folders = [], d_files = []\<rparr>"

lemmas shelf_defs = shelf_env_def shelf_layer_def shelf_empty_def

definition shelf_request :: "int list \<Rightarrow> request" where
  "shelf_request p = \<lparr>r_status = RUNNING, r_priority = 0, r_arrival_time = 0, r_num_prompt_tokens = int (length p),
     r_prompt_token_ids = Some p, r_output_token_ids = [], r_max_tokens = 8, r_spec_token_ids = [],
     r_num_computed_tokens = 0, r_num_output_placeholders = 0, r_num_preemptions = 0, r_num_cached_tokens = 0,
     r_has_encoder_inputs = False, r_lora = None, r_use_structured_output = False, r_grammar_ready = False,
     r_kv_transfer_params = None, r_events = [], r_client_index = 0, r_wants_logprobs = False,
     r_num_nans_in_logits = 0, r_mm_features = 0, r_sampling_params = None, r_pooling_params = None,
     r_prompt_embeds = None\<rparr>"

definition shelf_store :: "int list \<Rightarrow> req_meta" where
  "shelf_store p = make_meta p [0, 1] 2 True []"

definition shelf_load :: "int list \<Rightarrow> req_meta" where
  "shelf_load p = make_meta p [1, 0] 2 False []"

lemma length_token_bytes [simp]: "length (token_bytes t) = 8"
  by (simp add: token_bytes_def)

lemma shelf_metas:
  "shelf_store [5, 6, 7] = \<lparr>rm_token_ids = [5, 6], rm_slot_mapping = [0, 1], rm_is_store = True, rm_mm_hashes = []\<rparr>"
  "shelf_store [5, 6, 7, 8] = \<lparr>rm_token_ids = [5, 6], rm_slot_mapping = [0, 1], rm_is_store = True, rm_mm_hashes = []\<rparr>"
  "shelf_load [5, 6, 7] = \<lparr>rm_token_ids = [5, 6], rm_slot_mapping = [2, 3], rm_is_store = False, rm_mm_hashes = []\<rparr>"
  "shelf_load [5, 6, 7, 8, 9] = \<lparr>rm_token_ids = [5, 6, 7, 8], rm_slot_mapping = [2, 3, 0, 1], rm_is_store = False, rm_mm_hashes = []\<rparr>"
  by (simp_all add: shelf_store_def shelf_load_def make_meta_def align_to_block_size_def take_to_def upt_rec)

definition shelf_disk :: "nat disk" where
  "shelf_disk = \<lparr>d_folders = [path_join ''/tmp'' ''a''],
     d_files = [(kv_path shelf_env ''l0'' (shelf_store [5, 6, 7]), [[[10], [11]], [[14], [15]]])]\<rparr>"

lemma shelf_saved:
  "save_kv_layer shelf_env False ([] @ shelf_store [5, 6, 7] # []) ''l0'' (shelf_layer [10, 11, 12, 13, 14, 15, 16, 17]) shelf_empty
     = Inr shelf_disk"
  by (simp add: save_kv_layer_def save_request_def generate_filename_def shelf_metas shelf_defs shelf_disk_def
      kv_path_def generate_foldername_def folder_bytes_def Let_def extract_kv_from_layer_def
      layer_planes_def num_slots_def rows_of_def Prelude.slice_def upt_rec)

lemma shelf_file_names:
  "kv_path shelf_env ''l0'' (shelf_load [5, 6, 7, 8, 9]) \<noteq> kv_path shelf_env ''l0'' (shelf_store [5, 6, 7, 8])"
  by (simp add: kv_path_def generate_foldername_def folder_bytes_def shelf_metas shelf_env_def path_join_def)

lemma shelf_saved_block:
  "save_kv_layer shelf_env False [shelf_store [5, 6, 7, 8]] ''l0'' (shelf_layer [10, 11, 12, 13, 14, 15, 16, 17])
      \<lparr>d_folders = [], d_files = []\<rparr> = Inr shelf_disk"
  using shelf_saved unfolding shelf_empty_def by (simp add: shelf_metas)

lemma shelf_saved_last:
  "save_kv_layer shelf_env False ([] @ shelf_store [5, 6, 7, 8] # []) ''l0''
      (shelf_layer [10, 11, 12, 13, 14, 15, 16, 17]) \<lparr>d_folders = [], d_files = []\<rparr> = Inr shelf_disk"
  using shelf_saved_block by simp

lemma stored_prompt_found_witness:
  "found_match_for_request shelf_env shelf_disk (shelf_request [5, 6, 7, 8])
    \<and> get_num_new_matched_tokens shelf_env shelf_disk (shelf_request [5, 6, 7, 8]) 0
        = (Some (int (length (rm_token_ids (shelf_store [5, 6, 7, 8]))) - 0), False)"
  by (rule stored_prompt_found[OF shelf_saved_last, where p = "[5, 6, 7, 8]"])
    (simp_all add: shelf_store_def shelf_env_def shelf_request_def)

lemma found_prompt_without_file_witness:
  "get_num_new_matched_tokens shelf_env shelf_disk (shelf_request ([5, 6, 7, 8] @ [9])) 0
        = (Some (int ((2 - 1) * ce_block_size shelf_env) - 0), False)
    \<and> load_layer shelf_env False (shelf_load [5, 6, 7, 8, 9]) ''l0''
        ([(''l0'', Some (shelf_layer [0, 1, 2, 3, 4, 5, 6, 7]))], shelf_disk) = Inl FileNotFoundError"
  by (rule found_prompt_without_file[OF shelf_saved_block _ _ _ _ _ _ _ shelf_file_names])
    (simp_all add: shelf_store_def shelf_load_def shelf_env_def shelf_request_def)

lemma device_layout_raises_witness:
  "save_kv_layer shelf_env False (make_meta [5, 6, 7] [2] (ce_block_size shelf_env) True [] # []) ''l0''
     \<lparr>t_shape = [2, 3, 1, ce_block_size shelf_env, 1], t_data = [0..<12]\<rparr> shelf_empty = Inl IndexError"
  by (rule device_layout_raises[where num_blocks = 3 and heads = 1 and head_size = 1])
    (simp_all add: shelf_env_def)

definition shelf_step :: sched_output where
  "shelf_step = \<lparr>so_new_reqs = [from_request ''a'' (shelf_request [5, 6, 7]) [[0, 1]], from_request ''b'' (shelf_request [1, 2]) [[2]]],
     so_cached_reqs = 0, so_num_scheduled_tokens = [(''a'', 1), (''b'', 2), (''c'', 2)], so_total_num_scheduled_tokens = 5,
     so_spec_decode_tokens = [], so_encoder_inputs = [], so_num_common_prefix_blocks = [], so_finished_req_ids = [],
     so_free_encoder_mm_hashes = [], so_kv_connector_metadata = None, so_ec_connector_metadata = None,
     so_pending_structured_output_tokens = False\<rparr>"

definition shelf_cached :: cached_reqs where
  "shelf_cached = \<lparr>cq_req_ids = [''c''], cq_resumed_req_ids = [''c''], cq_new_block_ids = [Some [[3, 4]]],
     cq_num_computed_tokens = [2]\<rparr>"

lemma build_connector_meta_complete_witness:
  "build_connector_meta shelf_env shelf_disk (\<lambda>_. shelf_request [5, 6, 7, 8]) shelf_step shelf_cached [''a'', ''c''] =
    (if set [''a'', ''c''] \<subseteq> set (map nd_req_id (so_new_reqs shelf_step))
        \<union> set (cq_req_ids shelf_cached) \<inter> set (cq_resumed_req_ids shelf_cached)
     then Inr (map (new_meta shelf_env [''a'', ''c''])
           (filter (needs_new shelf_env shelf_disk [''a'', ''c'']) (so_new_reqs shelf_step))
       @ map (cached_meta shelf_env (\<lambda>_. shelf_request [5, 6, 7, 8]) (so_num_scheduled_tokens shelf_step) shelf_cached)
           (filter (needs_cached shelf_cached [''a'', ''c'']) (enumerate 0 (cq_req_ids shelf_cached))), [])
     else Inl AssertionError)"
  by (rule build_connector_meta_complete)
    (simp_all add: shelf_step_def shelf_cached_def from_request_def cached_fits_def)

end
