(* ===== verification/HybridConfig.thy ===== *)
theory HybridConfig
  imports KvCache
begin

text \<open>
  The configuration of models that mix attention and linear attention (mamba) layers, from
  \<^verbatim>\<open>vllm_mlu/model_executor/models/config.py\<close>: the attention block size is chosen so that the
  state of a linear layer fits into one attention page, or, when the device splits the pages,
  into a whole number of them. The update of the base class and the page sizes of vLLM's own
  attention specs are arguments; the page size of the states is the one of
  \<^verbatim>\<open>vllm_mlu/v1/kv_cache_interface.py\<close>.
\<close>

section \<open>The configuration\<close>

record cache_config =
  cf_block_size :: "nat option"
  cf_cache_dtype :: "dtype option"
  cf_enable_prefix_caching :: bool
  cf_mamba_block_size :: "nat option"
  cf_mamba_page_size_padded :: "nat option"

text \<open>What the code asks the model, the platform and the environment.\<close>

record hybrid_model =
  hm_use_mla :: bool
  hm_attention_backend :: "string option"
  hm_capability_100 :: bool
  hm_dtype :: dtype
  hm_num_kv_heads :: nat
  hm_head_size :: nat
  hm_mamba_states :: "(nat list \<times> dtype) list"
  hm_mamba_chunk_size :: "nat option"

definition cdiv :: "nat \<Rightarrow> nat \<Rightarrow> nat res" where
  "cdiv a b = require (b \<noteq> 0) ZeroDivisionError (Inr ((a + b - 1) div b))"

text \<open>The alignment the kernels want; \<open>page\<close> sizes one token.\<close>

definition kernel_block_alignment :: "hybrid_model \<Rightarrow> nat" where
  "kernel_block_alignment m =
     (if hm_use_mla m then (if hm_attention_backend m = Some ''CUTLASS_MLA'' then 128 else 64)
      else if hm_capability_100 m \<and> hm_head_size m = 256
           \<and> (hm_attention_backend m = None \<or> hm_attention_backend m = Some ''FLASHINFER'') then 32
      else 16)"

definition one_token_spec :: "hybrid_model \<Rightarrow> cache_config \<Rightarrow> attention_spec" where
  "one_token_spec m c =
     \<lparr>as_block_size = 1, as_num_kv_heads = hm_num_kv_heads m, as_head_size = hm_head_size m,
      as_dtype = (case cf_cache_dtype c of None \<Rightarrow> hm_dtype m | Some d \<Rightarrow> d)\<rparr>"

definition attn_page_size_1_token ::
  "(attention_spec \<Rightarrow> nat) \<Rightarrow> (attention_spec \<Rightarrow> nat) \<Rightarrow> hybrid_model \<Rightarrow> cache_config \<Rightarrow> nat" where
  "attn_page_size_1_token full_page mla_page m c =
     (if hm_use_mla m then mla_page (one_token_spec m c) else full_page (one_token_spec m c))"

text \<open>
  The block size for attention, and the cache configuration with the block size of the states. A
  block size of zero counts as not given (\<open>or\<close>); a chunk size \<open>None\<close> makes \<open>lcm\<close> raise.
\<close>

definition choose_block_size ::
  "hybrid_model \<Rightarrow> nat option \<Rightarrow> nat \<Rightarrow> nat \<Rightarrow> cache_config \<Rightarrow> (nat \<times> cache_config) res" where
  "choose_block_size m user_mamba_block_size page_1_token mamba_page c =
     (if cf_enable_prefix_caching c then
        bind_res (case user_mamba_block_size of
            Some (Suc n) \<Rightarrow> Inr (Suc n)
          | _ \<Rightarrow> (case hm_mamba_chunk_size m of None \<Rightarrow> Inl TypeError | Some n \<Rightarrow> Inr n)) (\<lambda>base_chunk_size.
        bind_res (cdiv mamba_page page_1_token) (\<lambda>tokens_per_state.
        let chunk_size = lcm base_chunk_size (kernel_block_alignment m) in
        bind_res (cdiv tokens_per_state chunk_size) (\<lambda>n.
        Inr (chunk_size * n, c\<lparr>cf_mamba_block_size := Some (chunk_size * n)\<rparr>))))
      else
        bind_res (cdiv mamba_page (kernel_block_alignment m * page_1_token)) (\<lambda>n.
        Inr (kernel_block_alignment m * n, c)))"

text \<open>
  The whole update: with split pages only the ratio and the padded page of a small block are set;
  otherwise the attention block grows until a state fits, and the state is padded to its page.
\<close>

definition verify_and_update_config ::
  "(attention_spec \<Rightarrow> nat) \<Rightarrow> (attention_spec \<Rightarrow> nat) \<Rightarrow> (cache_config \<Rightarrow> cache_config) \<Rightarrow> hybrid_model
     \<Rightarrow> cache_config \<Rightarrow> mamba_config \<Rightarrow> (cache_config \<times> mamba_config) res" where
  "verify_and_update_config full_page mla_page base_update m c0 mc =
     (let c = base_update c0;
          page_1_token = attn_page_size_1_token full_page mla_page m c;
          mamba_page = mamba_page_size (hm_mamba_states m) None
      in if mamba_page = 0 then Inr (c, mc)
         else bind_res (choose_block_size m (cf_mamba_block_size c0) page_1_token mamba_page c) (\<lambda>(attn_block_size, c1).
           if mc_split_page_size mc then
             (case cf_block_size c1 of
                None \<Rightarrow> Inl TypeError
              | Some b \<Rightarrow> bind_res (cdiv attn_block_size b) (\<lambda>ratio.
                  Inr (c1\<lparr>cf_mamba_page_size_padded := Some (b * page_1_token)\<rparr>,
                       mc\<lparr>mc_attn_block_ratio := ratio\<rparr>)))
           else
             let b = (case cf_block_size c1 of
                        Some b \<Rightarrow> if b < attn_block_size then attn_block_size else b
                      | None \<Rightarrow> attn_block_size);
                 c2 = c1\<lparr>cf_block_size := Some b\<rparr>;
                 attn_page = b * page_1_token
             in require (mamba_page \<le> attn_page) AssertionError
                (if attn_page = mamba_page then Inr (c2, mc)
                 else Inr (c2\<lparr>cf_mamba_page_size_padded := Some attn_page\<rparr>, mc))))"

lemma update_keeps_device:
  "verify_and_update_config fp mp base m c0 mc = Inr (c, mc') \<Longrightarrow>
   mc_split_page_size mc' = mc_split_page_size mc \<and> mc_max_batch_size mc' = mc_max_batch_size mc"
  by (auto simp: verify_and_update_config_def Let_def bind_res_eq_Inr require_eq_Inr split: if_splits option.splits)

section \<open>A state fits into its pages\<close>

lemma cdiv_eq_Inr: "cdiv a b = Inr n \<longleftrightarrow> b \<noteq> 0 \<and> n = (a + b - 1) div b"
  by (auto simp: cdiv_def require_eq_Inr)

lemma cdiv_covers: "cdiv a b = Inr n \<Longrightarrow> a \<le> b * n"
proof -
  assume "cdiv a b = Inr n"
  then have b: "b \<noteq> 0" "n = (a + b - 1) div b" by (simp_all add: cdiv_eq_Inr)
  have "a + b - 1 < b * n + b"
    using b(2) by (metis add.commute b(1) dividend_less_div_times mult.commute neq0_conv)
  then show ?thesis using b(1) by simp
qed

lemma kernel_alignment_pos: "0 < kernel_block_alignment m"
  by (simp add: kernel_block_alignment_def)

lemma chosen_block_covers:
  assumes "choose_block_size m ub p mamba_page c = Inr (n, c1)"
  shows "mamba_page \<le> n * p \<and> c1 = c\<lparr>cf_mamba_block_size := cf_mamba_block_size c1\<rparr>"
proof (cases "cf_enable_prefix_caching c")
  case True
  then obtain chunk tokens k where r: "cdiv mamba_page p = Inr tokens" "cdiv tokens chunk = Inr k" "n = chunk * k"
      "c1 = c\<lparr>cf_mamba_block_size := Some n\<rparr>"
    using assms unfolding choose_block_size_def by (auto simp: bind_res_eq_Inr Let_def)
  have "tokens \<le> n" using cdiv_covers[OF r(2)] r(3) by simp
  then have "p * tokens \<le> p * n" by (rule mult_le_mono2)
  then have "mamba_page \<le> n * p" using cdiv_covers[OF r(1)] by (metis le_trans mult.commute)
  then show ?thesis using r(4) by simp
next
  case False
  then obtain k where r: "cdiv mamba_page (kernel_block_alignment m * p) = Inr k" "n = kernel_block_alignment m * k" "c1 = c"
    using assms unfolding choose_block_size_def by (auto simp: bind_res_eq_Inr)
  then show ?thesis using cdiv_covers[OF r(1)] by (simp add: ac_simps)
qed

text \<open>The number of attention pages a state occupies.\<close>

definition pages_per_state :: "mamba_config \<Rightarrow> nat" where
  "pages_per_state mc = (if mc_split_page_size mc then mc_attn_block_ratio mc else 1)"

lemma page_1_token_cong:
  "cf_cache_dtype c = cf_cache_dtype c' \<Longrightarrow> attn_page_size_1_token fp mp m c = attn_page_size_1_token fp mp m c'"
  by (simp add: attn_page_size_1_token_def one_token_spec_def)

text \<open>
  After the update the state of a linear layer fits into its pages: the page its spec reports (the
  padded one, if any) times the pages per state is at least the size of the state, with split pages
  and without; and that page is exactly the page of an attention block.
\<close>

lemma hybrid_state_fits:
  assumes upd: "verify_and_update_config full_page mla_page base_update m c0 mc = Inr (c, mc')"
    and new: "cf_mamba_page_size_padded (base_update c0) = None"
    and state: "mamba_page_size (hm_mamba_states m) None \<noteq> 0"
  shows "mamba_page_size (hm_mamba_states m) None
      \<le> mamba_page_size (hm_mamba_states m) (cf_mamba_page_size_padded c) * pages_per_state mc'
    \<and> (\<exists>b. cf_block_size c = Some b \<and> mamba_page_size (hm_mamba_states m) (cf_mamba_page_size_padded c)
          = b * attn_page_size_1_token full_page mla_page m c)"
proof -
  let ?c = "base_update c0" and ?s = "mamba_page_size (hm_mamba_states m) None"
  let ?p = "attn_page_size_1_token full_page mla_page m ?c"
  obtain n c1 where ch: "choose_block_size m (cf_mamba_block_size c0) ?p ?s ?c = Inr (n, c1)"
    using upd state unfolding verify_and_update_config_def Let_def by (auto simp: bind_res_eq_Inr)
  note cov = chosen_block_covers[OF ch]
  have padded: "cf_mamba_page_size_padded c1 = None" "cf_cache_dtype c1 = cf_cache_dtype ?c"
    using cov new by (metis cache_config.surjective cache_config.update_convs(4) cache_config.ext_inject)+
  note upd' = upd[unfolded verify_and_update_config_def Let_def, simplified state if_False ch bind_res_simps prod.case]
  show ?thesis
  proof (cases "mc_split_page_size mc")
    case True
    then obtain b ratio where r: "cf_block_size c1 = Some b" "cdiv n b = Inr ratio"
        "c = c1\<lparr>cf_mamba_page_size_padded := Some (b * ?p)\<rparr>" "mc' = mc\<lparr>mc_attn_block_ratio := ratio\<rparr>"
      using upd' by (auto simp: bind_res_eq_Inr split: option.splits)
    have "?s \<le> n * ?p" "n \<le> b * ratio" using cov cdiv_covers[OF r(2)] by simp_all
    then have "?s \<le> b * ratio * ?p" by (meson le_trans mult_le_mono1)
    moreover have "attn_page_size_1_token full_page mla_page m c = ?p"
      using r(3) padded(2) by (intro page_1_token_cong) simp
    ultimately show ?thesis using r True by (simp add: mamba_page_size_def pages_per_state_def ac_simps)
  next
    case False
    let ?b = "case cf_block_size c1 of Some b \<Rightarrow> if b < n then n else b | None \<Rightarrow> n"
    have r: "?s \<le> ?b * ?p" "mc' = mc"
        "c = (if ?b * ?p = ?s then c1\<lparr>cf_block_size := Some ?b\<rparr>
              else c1\<lparr>cf_block_size := Some ?b, cf_mamba_page_size_padded := Some (?b * ?p)\<rparr>)"
      using upd' False by (auto simp: require_eq_Inr split: if_splits)
    have "attn_page_size_1_token full_page mla_page m c = ?p"
      using r(3) padded(2) by (intro page_1_token_cong) simp
    then show ?thesis using r False padded(1)
      by (auto simp: pages_per_state_def mamba_page_size_def)
  qed
qed

text \<open>A model with one convolution state and one recurrent state, on a device that splits the pages.\<close>

definition demo_model :: hybrid_model where
  "demo_model = \<lparr>hm_use_mla = False, hm_attention_backend = None, hm_capability_100 = False, hm_dtype = Dtype 2,
     hm_num_kv_heads = 2, hm_head_size = 8, hm_mamba_states = [([3, 40], Dtype 2), ([4, 8, 16], Dtype 4)],
     hm_mamba_chunk_size = Some 64\<rparr>"

definition demo_cache_config :: cache_config where
  "demo_cache_config = \<lparr>cf_block_size = Some 16, cf_cache_dtype = None, cf_enable_prefix_caching = False,
     cf_mamba_block_size = None, cf_mamba_page_size_padded = None\<rparr>"

definition demo_mamba_config :: mamba_config where
  "demo_mamba_config = \<lparr>mc_split_page_size = True, mc_attn_block_ratio = 1, mc_max_batch_size = 3\<rparr>"

lemma demo_update:
  "verify_and_update_config full_page_size full_page_size id demo_model demo_cache_config demo_mamba_config =
     Inr (demo_cache_config\<lparr>cf_mamba_page_size_padded := Some 1024\<rparr>, demo_mamba_config\<lparr>mc_attn_block_ratio := 3\<rparr>)"
  by (simp add: verify_and_update_config_def choose_block_size_def demo_model_def demo_cache_config_def
      demo_mamba_config_def kernel_block_alignment_def attn_page_size_1_token_def one_token_spec_def cdiv_def
      mamba_page_size_def get_dtype_size_def full_page_size_def full_cache_size_def full_scale_size_def)

end
