(* ===== verification/KvTensors.thy ===== *)
theory KvTensors
  imports HybridConfig "HOL-Library.Sublist"
begin

text \<open>
  The tensors of the KV cache in \<^verbatim>\<open>vllm_mlu/v1/worker/gpu_model_runner.py\<close>: allocating raw
  bytes for every layer, viewing them in the shapes of the attention backends and of the states of linear
  attention, and binding them to the layers. A raw tensor is a number into a list of sizes,
  a view is a buffer with an offset, sizes and strides; the contents are not modelled, the
  addresses are. The update of the hybrid layout and \<open>bind_kv_cache\<close> of vLLM are arguments.
\<close>

section \<open>Raw tensors\<close>

record mamba_spec =
  mb_states :: "(nat list \<times> dtype) list"
  mb_page_size_padded :: "nat option"

datatype kv_spec =
    Full attention_spec | MLA mla_spec | Sliding sliding_spec | Mamba mamba_spec | Uniform nat

definition page_size_bytes :: "kv_spec \<Rightarrow> nat" where
  "page_size_bytes s = (case s of
     Full a \<Rightarrow> full_page_size a | MLA a \<Rightarrow> mla_page_size a | Sliding a \<Rightarrow> sliding_page_size a
   | Mamba b \<Rightarrow> mamba_page_size (mb_states b) (mb_page_size_padded b) | Uniform p \<Rightarrow> p)"

text \<open>
  The bytes per block of the cache, its scales and its index, and the type of the elements. Specs of linear
  attention and uniform specs have none of these attributes.
\<close>

record attn_layout =
  al_dtype :: dtype
  al_cache :: nat
  al_scale :: nat
  al_index :: nat

definition attn_sizes :: "kv_spec \<Rightarrow> attn_layout res" where
  "attn_sizes s = (case s of
     Full a \<Rightarrow> Inr \<lparr>al_dtype = as_dtype a, al_cache = full_cache_size a, al_scale = full_scale_size a, al_index = 0\<rparr>
   | MLA a \<Rightarrow> Inr \<lparr>al_dtype = as_dtype a, al_cache = mla_cache_size a, al_scale = mla_scale_size a,
       al_index = (if 0 < ms_index_n_heads a then mla_index_cache_size a else 0)\<rparr>
   | Sliding a \<Rightarrow> Inr \<lparr>al_dtype = as_dtype a, al_cache = sliding_cache_size a, al_scale = sliding_scale_size a, al_index = 0\<rparr>
   | Mamba _ \<Rightarrow> Inl AttributeError | Uniform _ \<Rightarrow> Inl AttributeError)"

definition is_full_attention :: "kv_spec \<Rightarrow> bool" where
  "is_full_attention s = (case s of Full _ \<Rightarrow> True | MLA _ \<Rightarrow> True | _ \<Rightarrow> False)"

record spec_group = kv_group +
  sg_spec :: kv_spec

text \<open>The allocated buffers by number, with their bytes. \<open>torch.tensor([])\<close> is a buffer of no bytes.\<close>

type_synonym heap = "nat list"

definition torch_zeros :: "int \<Rightarrow> heap \<Rightarrow> (nat \<times> heap) res" where
  "torch_zeros n heap = require (0 \<le> n) RuntimeError (Inr (length heap, heap @ [nat n]))"

record raw_tensors =
  rt_cache :: nat
  rt_scale :: nat
  rt_index :: nat

definition linear_attn :: "string \<Rightarrow> bool" where
  "linear_attn name = sublist ''linear_attn'' name"

definition add_layer ::
  "mamba_config \<Rightarrow> nat \<Rightarrow> raw_tensors \<Rightarrow> string \<Rightarrow> heap \<times> (string, raw_tensors) dict
     \<Rightarrow> (heap \<times> (string, raw_tensors) dict) res" where
  "add_layer mc mamba_size t layer st = (case st of (heap, raw) \<Rightarrow>
     if mc_split_page_size mc \<and> linear_attn layer then
       bind_res (torch_zeros (int mamba_size) heap) (\<lambda>(buf, heap).
       Inr (heap, dict_set layer (t\<lparr>rt_cache := buf\<rparr>) raw))
     else Inr (heap, dict_set layer t raw))"

definition allocate_tensor ::
  "mamba_config \<Rightarrow> kv_spec \<Rightarrow> nat \<Rightarrow> kv_tensor \<Rightarrow> heap \<times> (string, raw_tensors) dict
     \<Rightarrow> (heap \<times> (string, raw_tensors) dict) res" where
  "allocate_tensor mc spec mamba_size kt st = (case st of (heap, raw) \<Rightarrow>
     let page = page_size_bytes spec in
     require (page \<noteq> 0) ZeroDivisionError
     (require (kt_size kt mod int page = 0) AssertionError
     (let num_blocks = kt_size kt div int page in
      bind_res (attn_sizes spec) (\<lambda>l.
      bind_res (torch_zeros (num_blocks * int (al_cache l)) heap) (\<lambda>(cache, heap).
      bind_res (torch_zeros (if al_dtype l \<in> {Int8, UInt8} then num_blocks * int (al_scale l) else 0) heap) (\<lambda>(scale, heap).
      bind_res (torch_zeros (num_blocks * int (al_index l)) heap) (\<lambda>(index, heap).
      fold_res (add_layer mc mamba_size \<lparr>rt_cache = cache, rt_scale = scale, rt_index = index\<rparr>)
        (kt_shared_by kt) (heap, raw))))))))"

text \<open>The group whose spec sizes the tensors: with split pages the first of full attention, if any.\<close>

definition page_group :: "mamba_config \<Rightarrow> spec_group list \<Rightarrow> spec_group res" where
  "page_group mc groups = bind_res (nth_res groups 0) (\<lambda>g0.
     Inr (if mc_split_page_size mc then
            (case find (\<lambda>g. is_full_attention (sg_spec g)) groups of Some g \<Rightarrow> g | None \<Rightarrow> g0)
          else g0))"

definition mamba_tensor_size :: "mamba_config \<Rightarrow> kv_spec \<Rightarrow> nat" where
  "mamba_tensor_size mc spec = page_size_bytes spec * mc_attn_block_ratio mc * mc_max_batch_size mc"

definition allocate_kv_cache_tensors ::
  "mamba_config \<Rightarrow> string set \<Rightarrow> kv_tensor list \<Rightarrow> spec_group list
     \<Rightarrow> (heap \<times> (string, raw_tensors) dict) res" where
  "allocate_kv_cache_tensors mc runner_only tensors groups =
     bind_res (page_group mc groups) (\<lambda>g.
     bind_res (fold_res (allocate_tensor mc (sg_spec g) (mamba_tensor_size mc (sg_spec g))) tensors ([], [])) (\<lambda>(heap, raw).
     require (set (concat (map kg_layer_names groups)) - runner_only = set (dict_keys raw)) AssertionError
       (Inr (heap, raw))))"

section \<open>What is allocated\<close>

lemma attn_sizes_page:
  "attn_sizes s = Inr l \<Longrightarrow>
   page_size_bytes s = al_cache l + (if al_dtype l \<in> {Int8, UInt8} then al_scale l else 0) + al_index l"
  by (cases s)
    (auto simp: attn_sizes_def page_size_bytes_def full_page_size_def full_scale_size_def mla_page_size_def
      mla_scale_size_def mla_index_cache_size_def sliding_page_size_def sliding_scale_size_def)

definition linear_bytes :: "mamba_config \<Rightarrow> nat \<Rightarrow> string list \<Rightarrow> nat" where
  "linear_bytes mc mamba_size layers =
     (if mc_split_page_size mc then mamba_size * length (filter linear_attn layers) else 0)"

lemma add_layers:
  "\<exists>heap' raw'. fold_res (add_layer mc n t) layers (heap, raw) = Inr (heap', raw')
     \<and> sum_list heap' = sum_list heap + linear_bytes mc n layers
     \<and> set (dict_keys raw') = set (dict_keys raw) \<union> set layers"
proof (induction layers arbitrary: heap raw)
  case Nil
  then show ?case by (simp add: linear_bytes_def)
next
  case (Cons layer layers)
  let ?new = "mc_split_page_size mc \<and> linear_attn layer"
  let ?h = "if ?new then heap @ [n] else heap"
  let ?r = "dict_set layer (if ?new then t\<lparr>rt_cache := length heap\<rparr> else t) raw"
  have "add_layer mc n t layer (heap, raw) = Inr (?h, ?r)" by (simp add: add_layer_def torch_zeros_def)
  moreover have "sum_list ?h + linear_bytes mc n layers = sum_list heap + linear_bytes mc n (layer # layers)"
    by (simp add: linear_bytes_def)
  ultimately show ?case using Cons.IH[of ?h ?r] by (auto simp del: if_split)
qed

lemma torch_zeros_nat:
  "torch_zeros (int k * int c) heap = Inr (length heap, heap @ [k * c])"
  "torch_zeros 0 heap = Inr (length heap, heap @ [0])"
  by (simp_all add: torch_zeros_def nat_mult_distrib)

lemma allocate_tensor_sizes:
  assumes "attn_sizes spec = Inr l" "page_size_bytes spec \<noteq> 0" "0 \<le> kt_size kt" "int (page_size_bytes spec) dvd kt_size kt"
  shows "\<exists>heap' raw'. allocate_tensor mc spec n kt (heap, raw) = Inr (heap', raw')
     \<and> int (sum_list heap') = int (sum_list heap) + kt_size kt + int (linear_bytes mc n (kt_shared_by kt))
     \<and> set (dict_keys raw') = set (dict_keys raw) \<union> set (kt_shared_by kt)"
proof -
  let ?p = "int (page_size_bytes spec)"
  let ?scale = "if al_dtype l \<in> {Int8, UInt8} then al_scale l else 0"
  obtain k where k: "kt_size kt = int k * ?p"
    using that[of "nat (kt_size kt div ?p)"] assms(2-4) by (simp add: pos_imp_zdiv_nonneg_iff)
  have sizes: "page_size_bytes spec = al_cache l + ?scale + al_index l" using attn_sizes_page[OF assms(1)] .
  have div: "kt_size kt div ?p = int k" using k assms(2) by simp
  let ?h = "heap @ [k * al_cache l, k * ?scale, k * al_index l]"
  let ?t = "\<lparr>rt_cache = length heap, rt_scale = Suc (length heap), rt_index = Suc (Suc (length heap))\<rparr>"
  have "allocate_tensor mc spec n kt (heap, raw) = fold_res (add_layer mc n ?t) (kt_shared_by kt) (?h, raw)"
    using assms(1,2) k by (simp add: allocate_tensor_def Let_def torch_zeros_nat)
  moreover have "int (sum_list ?h) = int (sum_list heap) + kt_size kt" using k sizes by (simp add: algebra_simps)
  ultimately show ?thesis using add_layers[of mc n ?t "kt_shared_by kt" ?h raw] by fastforce
qed

lemma allocate_tensors_sizes:
  assumes "attn_sizes spec = Inr l" "page_size_bytes spec \<noteq> 0"
    and "\<forall>kt \<in> set tensors. 0 \<le> kt_size kt \<and> int (page_size_bytes spec) dvd kt_size kt"
  shows "\<exists>heap' raw'. fold_res (allocate_tensor mc spec n) tensors (heap, raw) = Inr (heap', raw')
     \<and> int (sum_list heap') = int (sum_list heap) + sum_list (map kt_size tensors)
         + int (linear_bytes mc n (concat (map kt_shared_by tensors)))
     \<and> set (dict_keys raw') = set (dict_keys raw) \<union> set (concat (map kt_shared_by tensors))"
  using assms(3)
proof (induction tensors arbitrary: heap raw)
  case Nil
  then show ?case by (simp add: linear_bytes_def)
next
  case (Cons kt tensors)
  obtain h1 r1 where s1: "allocate_tensor mc spec n kt (heap, raw) = Inr (h1, r1)"
      "int (sum_list h1) = int (sum_list heap) + kt_size kt + int (linear_bytes mc n (kt_shared_by kt))"
      "set (dict_keys r1) = set (dict_keys raw) \<union> set (kt_shared_by kt)"
    using allocate_tensor_sizes[OF assms(1,2), of kt mc n heap raw] Cons.prems by auto
  have "linear_bytes mc n (concat (map kt_shared_by (kt # tensors)))
      = linear_bytes mc n (kt_shared_by kt) + linear_bytes mc n (concat (map kt_shared_by tensors))"
    by (simp add: linear_bytes_def algebra_simps)
  then show ?case using Cons.IH[of h1 r1] Cons.prems s1 by fastforce
qed

text \<open>Without split pages the first group sizes the tensors; when it is linear, its spec has no element type.\<close>

lemma linear_first_group_raises:
  assumes "\<not> mc_split_page_size mc" "sg_spec g = Mamba m" "page_size_bytes (sg_spec g) \<noteq> 0"
    and "kt_size kt mod int (page_size_bytes (sg_spec g)) = 0"
  shows "allocate_kv_cache_tensors mc runner_only (kt # tensors) (g # groups) = Inl AttributeError"
  using assms
  by (simp add: allocate_kv_cache_tensors_def page_group_def allocate_tensor_def attn_sizes_def Let_def)

lemma general_tensors:
  assumes "get_kv_cache_config_from_groups ovr (Inr page) gnb mc groups available = Inr cfg"
    and "groups \<noteq> []" "\<forall>g \<in> set groups. kg_uniform g = None"
  shows "kc_tensors cfg = map (\<lambda>i. \<lparr>kt_size = int page * gnb (group_size groups)
      (available - int (reserved_for_mamba mc page (group_size groups))) page, kt_shared_by = shared_by groups i\<rparr>)
      [0..<group_size groups]"
proof (cases groups)
  case Nil
  then show ?thesis using assms(2) by simp
next
  case (Cons g rest)
  then have "(if rest = [] then kg_uniform g else None) = None" using assms(3) by simp
  then show ?thesis using assms(1) Cons
    by (auto simp: get_kv_cache_config_from_groups_def require_eq_Inr Let_def simp del: if_split)
qed

lemma filter_concat_bound:
  "\<forall>xs \<in> set xss. length xs \<le> n \<Longrightarrow>
   length (filter P (concat xss)) \<le> n * length (filter (\<lambda>xs. \<exists>x \<in> set xs. P x) xss)"
proof (induction xss)
  case Nil
  then show ?case by simp
next
  case (Cons xs xss)
  have "length (filter P xs) \<le> (if \<exists>x \<in> set xs. P x then n else 0)"
    using Cons.prems le_trans[OF length_filter_le] by (auto simp: filter_empty_conv)
  then show ?case using Cons by (cases "\<exists>x \<in> set xs. P x") simp_all
qed

lemma linear_layers_bound:
  assumes "length (filter (\<lambda>g. \<exists>l \<in> set (kg_layer_names g). linear_attn l) groups) \<le> 3"
  shows "length (filter linear_attn (concat (map (shared_by groups) [0..<group_size groups]))) \<le> 3 * group_size groups"
proof -
  let ?n = "group_size groups" and ?names = "map kg_layer_names groups"
  have "mset (concat (map (shared_by groups) [0..<?n])) = mset (concat ?names)"
    using shared_layers[of groups ?n] group_size_bound[of _ groups] by blast
  then have "length (filter linear_attn (concat (map (shared_by groups) [0..<?n]))) = length (filter linear_attn (concat ?names))"
    by (metis mset_filter size_mset)
  also have "\<dots> \<le> ?n * length (filter (\<lambda>xs. \<exists>l \<in> set xs. linear_attn l) ?names)"
    using group_size_bound[of _ groups] by (intro filter_concat_bound) auto
  also have "\<dots> \<le> ?n * 3" using assms by (intro mult_le_mono2) (simp add: filter_map comp_def)
  finally show ?thesis by (simp add: mult.commute)
qed

text \<open>
  C28. What the planned tensors take of the memory: when the groups of a model share one
  page size, at most three of them hold linear attention layers and none is of the runner alone, allocating the tensors of
  \<open>get_kv_cache_config_from_groups\<close> succeeds, gives every layer its tensors, and the
  bytes allocated, the states of the linear layers included, exceed neither the available memory nor,
  where that is larger, the bytes set aside for linear attention. Nothing checks that these fit: when
  they do not, no blocks are planned and the attention layers get tensors without bytes, but the
  states are allocated all the same.
\<close>
theorem kv_memory_bounded:
  assumes cfg: "get_kv_cache_config_from_groups id (Inr page) get_num_blocks mc (map kv_group.truncate groups) available = Inr cfg"
    and law: "blocks_law get_num_blocks"
    and uniform: "\<forall>g \<in> set groups. kg_uniform g = None \<and> page_size_bytes (sg_spec g) = page" "page \<noteq> 0"
    and attn: "page_group mc groups = Inr g" "g \<in> set groups" "attn_sizes (sg_spec g) = Inr l"
    and three: "length (filter (\<lambda>g. \<exists>l \<in> set (kg_layer_names g). linear_attn l) groups) \<le> 3"
    and reserved: "reserved = int (reserved_for_mamba mc page (group_size (map kv_group.truncate groups)))"
    and runner_only: "runner_only \<inter> set (concat (map kg_layer_names groups)) = {}"
  shows "\<exists>heap raw. allocate_kv_cache_tensors mc runner_only (kc_tensors cfg) groups = Inr (heap, raw)
    \<and> int (sum_list heap) \<le> max available reserved
    \<and> (available \<le> reserved \<longrightarrow> (\<forall>kt \<in> set (kc_tensors cfg). kt_size kt = 0)
         \<and> sum_list heap = linear_bytes mc (mamba_tensor_size mc (sg_spec g)) (concat (map kg_layer_names groups)))
    \<and> set (dict_keys raw) = set (concat (map kg_layer_names groups))"
proof -
  let ?gs = "map kv_group.truncate groups"
  let ?n = "group_size ?gs"
  let ?m = "available - int (reserved_for_mamba mc page ?n)"
  let ?size = "int page * get_num_blocks ?n ?m page"
  have names: "map kg_layer_names ?gs = map kg_layer_names groups" by (simp add: kv_group.truncate_def comp_def)
  have t: "kc_tensors cfg = map (\<lambda>i. \<lparr>kt_size = ?size, kt_shared_by = shared_by ?gs i\<rparr>) [0..<?n]"
    using general_tensors[OF cfg] uniform(1) attn(2) by (force simp: kv_group.truncate_def)
  have blocks: "0 \<le> get_num_blocks ?n ?m page" "?size * int ?n \<le> max 0 ?m"
    using law unfolding blocks_law_def by (metis, metis mult.commute)
  have page: "page_size_bytes (sg_spec g) = page" using uniform(1) attn(2) by blast
  have "\<forall>kt \<in> set (kc_tensors cfg). 0 \<le> kt_size kt \<and> int (page_size_bytes (sg_spec g)) dvd kt_size kt"
    using blocks(1) unfolding t page by auto
  then obtain heap raw where r: "fold_res (allocate_tensor mc (sg_spec g) (mamba_tensor_size mc (sg_spec g))) (kc_tensors cfg) ([], [])
        = Inr (heap, raw)"
      "int (sum_list heap) = sum_list (map kt_size (kc_tensors cfg))
        + int (linear_bytes mc (mamba_tensor_size mc (sg_spec g)) (concat (map kt_shared_by (kc_tensors cfg))))"
      "set (dict_keys raw) = set (concat (map kt_shared_by (kc_tensors cfg)))"
    using allocate_tensors_sizes[OF attn(3), of "kc_tensors cfg" mc "mamba_tensor_size mc (sg_spec g)" "[]" "[]"] uniform(2) page
    by auto
  have layers: "mset (concat (map kt_shared_by (kc_tensors cfg))) = mset (concat (map kg_layer_names groups))"
    using shared_layers[of ?gs ?n] group_size_bound[of _ ?gs] unfolding t names[symmetric] by (simp add: comp_def)
  have linear: "linear_bytes mc (mamba_tensor_size mc (sg_spec g)) (concat (map kt_shared_by (kc_tensors cfg)))
      = linear_bytes mc (mamba_tensor_size mc (sg_spec g)) (concat (map kg_layer_names groups))"
    unfolding linear_bytes_def using layers by (metis mset_filter size_mset)
  have "linear_bytes mc (mamba_tensor_size mc (sg_spec g)) (concat (map kt_shared_by (kc_tensors cfg)))
      \<le> reserved_for_mamba mc page ?n"
    using linear_layers_bound[of ?gs] three mult_le_mono2[of _ "3 * ?n" "mamba_tensor_size mc (sg_spec g)"] page
    unfolding t by (simp add: linear_bytes_def reserved_for_mamba_def mamba_tensor_size_def comp_def
        filter_map kv_group.truncate_def ac_simps)
  moreover have total: "sum_list (map kt_size (kc_tensors cfg)) = ?size * int ?n" unfolding t by (simp add: comp_def sum_list_triv)
  ultimately have "int (sum_list heap) \<le> max available reserved" using r(2) blocks(2) reserved by linarith
  moreover have "(\<forall>kt \<in> set (kc_tensors cfg). kt_size kt = 0)
      \<and> sum_list heap = linear_bytes mc (mamba_tensor_size mc (sg_spec g)) (concat (map kg_layer_names groups))"
    if "available \<le> reserved"
  proof -
    have "0 \<le> ?size" using blocks(1) by simp
    moreover have "?size * int ?n \<le> 0" using that blocks(2) reserved by simp
    ultimately have "?size = 0 \<or> ?n = 0" by (metis mult_nonneg_nonneg mult_eq_0_iff antisym of_nat_0_le_iff of_nat_eq_0_iff)
    then have none: "\<forall>kt \<in> set (kc_tensors cfg). kt_size kt = 0" unfolding t by auto
    have "sum_list (map kt_size (kc_tensors cfg)) = 0" using \<open>?size = 0 \<or> ?n = 0\<close> unfolding total by simp
    then show ?thesis using none r(2) linear by linarith
  qed
  moreover have keys: "set (dict_keys raw) = set (concat (map kg_layer_names groups))"
    using r(3) mset_eq_setD[OF layers] by simp
  ultimately show ?thesis using r(1) attn(1) runner_only
    unfolding allocate_kv_cache_tensors_def by (auto simp: Int_commute Diff_triv)
qed

text \<open>One linear layer and one of attention, planned for 40000 and for 5000 bytes.\<close>

definition demo_groups :: "spec_group list" where
  "demo_groups =
     [\<lparr>kg_layer_names = [''0.linear_attn''], kg_uniform = None,
       sg_spec = Mamba \<lparr>mb_states = hm_mamba_states demo_model, mb_page_size_padded = Some 1024\<rparr>\<rparr>,
      \<lparr>kg_layer_names = [''1.attn''], kg_uniform = None,
       sg_spec = Full \<lparr>as_block_size = 16, as_num_kv_heads = 2, as_head_size = 8, as_dtype = Dtype 2\<rparr>\<rparr>]"

lemma kv_memory_bounded_witness:
  "(\<exists>cfg heap raw. get_kv_cache_config_from_groups id (Inr 1024) demo_num_blocks (demo_mamba_config\<lparr>mc_attn_block_ratio := 3\<rparr>)
       (map kv_group.truncate demo_groups) 40000 = Inr cfg
     \<and> map kt_size (kc_tensors cfg) = [12288]
     \<and> allocate_kv_cache_tensors (demo_mamba_config\<lparr>mc_attn_block_ratio := 3\<rparr>) {} (kc_tensors cfg) demo_groups = Inr (heap, raw)
     \<and> int (sum_list heap) \<le> 40000 \<and> set (dict_keys raw) = {''0.linear_attn'', ''1.attn''})
   \<and> (\<exists>cfg heap raw. get_kv_cache_config_from_groups id (Inr 1024) demo_num_blocks (demo_mamba_config\<lparr>mc_attn_block_ratio := 3\<rparr>)
       (map kv_group.truncate demo_groups) 5000 = Inr cfg
     \<and> allocate_kv_cache_tensors (demo_mamba_config\<lparr>mc_attn_block_ratio := 3\<rparr>) {} (kc_tensors cfg) demo_groups = Inr (heap, raw)
     \<and> (\<forall>kt \<in> set (kc_tensors cfg). kt_size kt = 0) \<and> sum_list heap = 9216)"
proof -
  let ?mc = "demo_mamba_config\<lparr>mc_attn_block_ratio := 3\<rparr>" and ?g = "demo_groups ! 1"
  let ?cfg = "get_kv_cache_config_from_groups id (Inr 1024) demo_num_blocks ?mc (map kv_group.truncate demo_groups)"
  note ev = demo_groups_def demo_mamba_config_def kv_group.truncate_def group_size_def reserved_for_mamba_def
  have lin: "linear_attn ''0.linear_attn''" "\<not> linear_attn ''1.attn''"
    by code_simp+
  note sizes = ev page_group_def page_size_bytes_def mamba_page_size_def full_page_size_def full_cache_size_def
    full_scale_size_def get_dtype_size_def is_full_attention_def attn_sizes_def lin
  have linear: "linear_bytes ?mc (mamba_tensor_size ?mc (sg_spec ?g)) (concat (map kg_layer_names demo_groups)) = 9216"
    by (simp add: sizes linear_bytes_def mamba_tensor_size_def)
  have run: "\<exists>heap raw. allocate_kv_cache_tensors ?mc {} (kc_tensors cfg) demo_groups = Inr (heap, raw)
      \<and> int (sum_list heap) \<le> max available 27648
      \<and> (available \<le> 27648 \<longrightarrow> (\<forall>kt \<in> set (kc_tensors cfg). kt_size kt = 0)
           \<and> sum_list heap = linear_bytes ?mc (mamba_tensor_size ?mc (sg_spec ?g)) (concat (map kg_layer_names demo_groups)))
      \<and> set (dict_keys raw) = set (concat (map kg_layer_names demo_groups))"
    if "?cfg available = Inr cfg" for available cfg
    by (rule kv_memory_bounded[OF that demo_blocks_law, of ?g]) (simp_all add: sizes)
  obtain c1 where c1: "?cfg 40000 = Inr c1" "map kt_size (kc_tensors c1) = [12288]"
    by (simp add: get_kv_cache_config_from_groups_def ev demo_num_blocks_def Let_def)
  obtain c2 where c2: "?cfg 5000 = Inr c2"
    by (simp add: get_kv_cache_config_from_groups_def ev demo_num_blocks_def Let_def)
  have "set (concat (map kg_layer_names demo_groups)) = {''0.linear_attn'', ''1.attn''}" by (auto simp: demo_groups_def)
  then show ?thesis using c1 c2 run[OF c1(1)] run[OF c2] unfolding linear by fastforce
qed

section \<open>Views\<close>

record view =
  vw_buffer :: nat
  vw_dtype :: dtype
  vw_offset :: nat
  vw_size :: "nat list"
  vw_stride :: "nat list"

text \<open>The strides of a contiguous tensor, innermost dimension last.\<close>

fun contiguous :: "nat list \<Rightarrow> nat list" where
  "contiguous [] = []"
| "contiguous (n # ns) = prod_list (map (max 1) ns) # contiguous ns"

fun element_offset :: "nat list \<Rightarrow> nat list \<Rightarrow> nat" where
  "element_offset (i # is) (s # ss) = i * s + element_offset is ss"
| "element_offset _ _ = 0"

text \<open>\<open>torch.as_strided\<close> checks that the last element lies in the storage.\<close>

definition as_strided :: "heap \<Rightarrow> nat \<Rightarrow> dtype \<Rightarrow> nat list \<Rightarrow> nat list \<Rightarrow> nat \<Rightarrow> view res" where
  "as_strided heap buf dt dims stride offset =
     require (0 \<in> set dims \<or> (offset + element_offset (map (\<lambda>n. n - 1) dims) stride + 1) * get_dtype_size dt \<le> heap ! buf)
       RuntimeError
     (Inr \<lparr>vw_buffer = buf, vw_dtype = dt, vw_offset = offset, vw_size = dims, vw_stride = stride\<rparr>)"

text \<open>
  The states of a linear attention layer, one after the other within a page: every view starts at the
  bytes of the states before it and steps from slot to slot by whole pages. \<open>pages\<close> is the
  ratio of a split page, else one.
\<close>

fun mamba_views :: "heap \<Rightarrow> nat \<Rightarrow> nat \<Rightarrow> nat \<Rightarrow> nat \<Rightarrow> (nat list \<times> dtype) list \<Rightarrow> nat \<Rightarrow> view list res" where
  "mamba_views heap buf page pages num_blocks [] offset_bytes = Inr []"
| "mamba_views heap buf page pages num_blocks ((shape, dt) # states) offset_bytes =
     (let d = get_dtype_size dt;
          stride = contiguous (num_blocks # shape)
      in require (offset_bytes mod d = 0) AssertionError
         (require (heap ! buf mod d = 0) RuntimeError
         (bind_res (as_strided heap buf dt (num_blocks # shape) (page div d * pages # tl stride) (offset_bytes div d)) (\<lambda>v.
          bind_res (mamba_views heap buf page pages num_blocks states (offset_bytes + hd stride * d)) (\<lambda>vs.
          Inr (v # vs))))))"

text \<open>The bytes of the element with the given index: from the address, the size of the type.\<close>

definition address :: "view \<Rightarrow> nat list \<Rightarrow> nat" where
  "address v is = (vw_offset v + element_offset is (vw_stride v)) * get_dtype_size (vw_dtype v)"

definition element_bytes :: "view \<Rightarrow> nat list \<Rightarrow> nat set" where
  "element_bytes v is = {address v is..<address v is + get_dtype_size (vw_dtype v)}"

definition in_shape :: "nat list \<Rightarrow> nat list \<Rightarrow> bool" where
  "in_shape is dims = list_all2 (<) is dims"

subsection \<open>Contiguous tensors number their elements\<close>

lemma prod_max_pos: "0 < prod_list (map (max (1 :: nat)) ns)"
  by (induction ns) auto

lemma prod_max: "0 \<notin> set ns \<Longrightarrow> prod_list (map (max (1 :: nat)) ns) = prod_list ns"
  by (induction ns) (auto simp: max_def)

lemma in_shape_Cons: "in_shape is (n # ns) \<longleftrightarrow> (\<exists>i js. is = i # js \<and> i < n \<and> in_shape js ns)"
  by (auto simp: in_shape_def list_all2_Cons2)

lemma element_offset_less: "in_shape is ns \<Longrightarrow> element_offset is (contiguous ns) < prod_list (map (max 1) ns)"
proof (induction ns arbitrary: "is")
  case Nil
  then show ?case by (simp add: in_shape_def)
next
  case (Cons n ns)
  then obtain i js where i: "is = i # js" "i < n" "in_shape js ns" by (auto simp: in_shape_Cons)
  let ?p = "prod_list (map (max 1) ns)"
  have "i * ?p + element_offset js (contiguous ns) < Suc i * ?p" using Cons.IH[OF i(3)] by simp
  also have "\<dots> \<le> max 1 n * ?p" using i(2) by (intro mult_le_mono1) simp
  finally show ?case using i(1) by simp
qed

lemma element_offset_inj:
  "in_shape is ns \<Longrightarrow> in_shape js ns \<Longrightarrow> element_offset is (contiguous ns) = element_offset js (contiguous ns) \<Longrightarrow> is = js"
proof (induction ns arbitrary: "is" js)
  case Nil
  then show ?case by (simp add: in_shape_def)
next
  case (Cons n ns)
  then obtain i1 is1 j1 js1 where s: "is = i1 # is1" "js = j1 # js1" "in_shape is1 ns" "in_shape js1 ns"
    by (auto simp: in_shape_Cons)
  let ?p = "prod_list (map (max 1) ns)"
  let ?a = "element_offset is1 (contiguous ns)" and ?b = "element_offset js1 (contiguous ns)"
  have eq: "i1 * ?p + ?a = j1 * ?p + ?b" using Cons.prems(3) s by simp
  have lt: "?a < ?p" "?b < ?p" using element_offset_less s by simp_all
  have "i1 = (i1 * ?p + ?a) div ?p" "j1 = (j1 * ?p + ?b) div ?p" using lt by simp_all
  then have "i1 = j1" using eq by simp
  then show ?case using eq s Cons.IH by simp
qed

lemma element_offset_last: "0 \<notin> set ns \<Longrightarrow> Suc (element_offset (map (\<lambda>n. n - 1) ns) (contiguous ns)) = prod_list ns"
proof (induction ns)
  case Nil
  then show ?case by simp
next
  case (Cons n ns)
  then have "(n - 1) * prod_list ns + prod_list ns = n * prod_list ns" by (cases n) simp_all
  then show ?case using Cons prod_max[of ns] by simp
qed

subsection \<open>The states of linear attention keep apart\<close>

definition state_bytes :: "nat list \<times> dtype \<Rightarrow> nat" where
  "state_bytes s = prod_list (fst s) * get_dtype_size (snd s)"

lemma mamba_page_states: "mamba_page_size states None = sum_list (map state_bytes states)"
  unfolding mamba_page_size_def option.case by (rule arg_cong[of _ _ sum_list]) (auto simp: state_bytes_def)

text \<open>
  What the views need: proper shapes, types whose sizes divide the page, and every state at an
  offset that its type divides.
\<close>

definition states_ok :: "nat \<Rightarrow> (nat list \<times> dtype) list \<Rightarrow> bool" where
  "states_ok page states \<longleftrightarrow> (\<forall>k < length states.
     0 \<notin> set (fst (states ! k)) \<and> 0 < get_dtype_size (snd (states ! k)) \<and> get_dtype_size (snd (states ! k)) dvd page
     \<and> get_dtype_size (snd (states ! k)) dvd sum_list (map state_bytes (take k states)))"

definition state_view :: "nat \<Rightarrow> nat \<Rightarrow> nat \<Rightarrow> nat \<Rightarrow> nat list \<times> dtype \<Rightarrow> nat \<Rightarrow> view" where
  "state_view buf page pages num_blocks s offset_bytes =
     \<lparr>vw_buffer = buf, vw_dtype = snd s, vw_offset = offset_bytes div get_dtype_size (snd s), vw_size = num_blocks # fst s,
      vw_stride = page div get_dtype_size (snd s) * pages # contiguous (fst s)\<rparr>"

lemma state_view_address:
  assumes "0 < get_dtype_size (snd s)" "get_dtype_size (snd s) dvd page" "get_dtype_size (snd s) dvd off"
  shows "address (state_view buf page pages n s off) (b # e)
    = off + b * (page * pages) + element_offset e (contiguous (fst s)) * get_dtype_size (snd s)"
proof -
  let ?d = "get_dtype_size (snd s)"
  obtain p q where "page = ?d * p" "off = ?d * q" using assms(2,3) by (auto elim!: dvdE)
  then show ?thesis using assms(1) by (simp add: address_def state_view_def algebra_simps)
qed

lemma state_strided:
  assumes ok: "0 \<notin> set (fst s)" "0 < get_dtype_size (snd s)" "get_dtype_size (snd s) dvd page" "get_dtype_size (snd s) dvd off"
    and room: "off + state_bytes s \<le> page * pages" "heap ! buf = page * pages * n"
  shows "as_strided heap buf (snd s) (n # fst s) (page div get_dtype_size (snd s) * pages # contiguous (fst s))
      (off div get_dtype_size (snd s)) = Inr (state_view buf page pages n s off)"
proof (cases "n = 0")
  case True
  then show ?thesis by (simp add: as_strided_def state_view_def)
next
  case False
  let ?d = "get_dtype_size (snd s)" and ?last = "map (\<lambda>n. n - 1) (fst s)"
  let ?v = "state_view buf page pages n s off"
  have "(vw_offset ?v + element_offset ((n - 1) # ?last) (vw_stride ?v) + 1) * ?d = address ?v ((n - 1) # ?last) + ?d"
    by (simp add: address_def state_view_def)
  also have "\<dots> = off + (n - 1) * (page * pages) + Suc (element_offset ?last (contiguous (fst s))) * ?d"
    using state_view_address[OF ok(2-4)] by (simp add: algebra_simps)
  also have "\<dots> = (off + state_bytes s) + (n - 1) * (page * pages)"
    using element_offset_last[OF ok(1)] by (simp add: state_bytes_def)
  also have "\<dots> \<le> page * pages + (n - 1) * (page * pages)" using room(1) by simp
  also have "\<dots> = heap ! buf" using room(2) False by (cases n) (simp_all add: algebra_simps)
  finally show ?thesis by (simp add: as_strided_def state_view_def)
qed

lemma mamba_views_run:
  assumes "heap ! buf = page * pages * n" "off + sum_list (map state_bytes states) \<le> page * pages"
    and "\<forall>k < length states. 0 \<notin> set (fst (states ! k)) \<and> 0 < get_dtype_size (snd (states ! k))
      \<and> get_dtype_size (snd (states ! k)) dvd page
      \<and> get_dtype_size (snd (states ! k)) dvd off + sum_list (map state_bytes (take k states))"
  shows "mamba_views heap buf page pages n states off
    = Inr (map (\<lambda>k. state_view buf page pages n (states ! k) (off + sum_list (map state_bytes (take k states)))) [0..<length states])"
  using assms(2,3)
proof (induction states arbitrary: off)
  case Nil
  then show ?case by simp
next
  case (Cons s states)
  obtain shape dt where s: "s = (shape, dt)" by (cases s)
  let ?d = "get_dtype_size dt"
  have ok: "0 \<notin> set shape" "0 < ?d" "?d dvd page" "?d dvd off" using Cons.prems(2)[rule_format, of 0] s by simp_all
  have view: "as_strided heap buf dt (n # shape) (page div ?d * pages # contiguous shape) (off div ?d)
      = Inr (state_view buf page pages n s off)"
    using state_strided[of s page off pages heap buf n] ok Cons.prems(1) assms(1) s by simp
  have rest: "mamba_views heap buf page pages n states (off + state_bytes s)
      = Inr (map (\<lambda>k. state_view buf page pages n (states ! k) (off + state_bytes s + sum_list (map state_bytes (take k states))))
          [0..<length states])"
  proof (rule Cons.IH)
    show "off + state_bytes s + sum_list (map state_bytes states) \<le> page * pages" using Cons.prems(1) by simp
    show "\<forall>k < length states. 0 \<notin> set (fst (states ! k)) \<and> 0 < get_dtype_size (snd (states ! k))
      \<and> get_dtype_size (snd (states ! k)) dvd page
      \<and> get_dtype_size (snd (states ! k)) dvd off + state_bytes s + sum_list (map state_bytes (take k states))"
    proof (intro allI impI)
      fix k assume "k < length states"
      then show "0 \<notin> set (fst (states ! k)) \<and> 0 < get_dtype_size (snd (states ! k))
          \<and> get_dtype_size (snd (states ! k)) dvd page
          \<and> get_dtype_size (snd (states ! k)) dvd off + state_bytes s + sum_list (map state_bytes (take k states))"
        using Cons.prems(2)[rule_format, of "Suc k"] by (simp add: add.assoc)
    qed
  qed
  have "heap ! buf mod ?d = 0" using assms(1) ok(3) by auto
  then have "mamba_views heap buf page pages n (s # states) off
      = bind_res (mamba_views heap buf page pages n states (off + state_bytes s)) (\<lambda>vs. Inr (state_view buf page pages n s off # vs))"
    using view ok prod_max[OF ok(1)] unfolding s by (simp add: Let_def state_bytes_def)
  then show ?case unfolding rest by (simp add: upt_conv_Cons map_Suc_upt[symmetric] comp_def add.assoc del: upt_Suc)
qed

lemma state_view_range:
  assumes s: "0 < get_dtype_size (snd s)" "get_dtype_size (snd s) dvd page" "get_dtype_size (snd s) dvd off" "0 \<notin> set (fst s)"
    and idx: "in_shape (b # e) (n # fst s)"
  shows "element_bytes (state_view buf page pages n s off) (b # e)
    \<subseteq> {b * (page * pages) + off..<b * (page * pages) + off + state_bytes s}"
proof -
  let ?d = "get_dtype_size (snd s)" and ?o = "element_offset e (contiguous (fst s))"
  have "Suc ?o \<le> prod_list (fst s)" using element_offset_less[of e "fst s"] idx prod_max[OF s(4)] by (simp add: in_shape_Cons)
  then have "Suc ?o * ?d \<le> state_bytes s" unfolding state_bytes_def by (rule mult_le_mono1)
  then show ?thesis using state_view_address[OF s(1-3), of buf pages n b e]
    by (auto simp: element_bytes_def state_view_def)
qed

lemma pages_apart:
  assumes "(b :: nat) < c" "u \<le> p"
  shows "{b * p + i..<b * p + u} \<inter> {c * p + j..<c * p + v} = {}"
proof -
  have "b * p + u \<le> Suc b * p" using assms(2) by simp
  also have "\<dots> \<le> c * p" using assms(1) by (intro mult_le_mono1) simp
  finally show ?thesis by auto
qed

lemma elements_apart:
  assumes "(i :: nat) \<noteq> j"
  shows "{a + i * d..<a + i * d + d} \<inter> {a + j * d..<a + j * d + d} = {}"
proof -
  have "Suc i * d \<le> j * d \<or> Suc j * d \<le> i * d" using assms by (metis mult_le_mono1 Suc_leI linorder_neqE_nat)
  then show ?thesis by auto
qed

lemma sum_take_le: "k < j \<Longrightarrow> j \<le> length xs \<Longrightarrow> sum_list (take k xs) + xs ! k \<le> sum_list (take j (xs :: nat list))"
proof -
  assume k: "k < j" "j \<le> length xs"
  then have "sum_list (take k xs) + xs ! k = sum_list (take (Suc k) xs)" by (simp add: sum_list_take_Suc)
  also have "\<dots> = sum_list (take (Suc k) (take j xs))" using k by (simp add: min_def)
  also have "\<dots> \<le> sum_list (take j xs)" by (rule sum_list_take_le)
  finally show ?thesis .
qed

text \<open>The views of a layer's states stay inside their tensor and share no byte.\<close>

definition views_apart :: "heap \<Rightarrow> view list \<Rightarrow> bool" where
  "views_apart heap views \<longleftrightarrow>
     (\<forall>k < length views. \<forall>is. in_shape is (vw_size (views ! k)) \<longrightarrow>
        element_bytes (views ! k) is \<subseteq> {..<heap ! vw_buffer (views ! k)}
        \<and> (\<forall>j < length views. \<forall>js. in_shape js (vw_size (views ! j)) \<longrightarrow> (k, is) \<noteq> (j, js) \<longrightarrow>
              element_bytes (views ! k) is \<inter> element_bytes (views ! j) js = {}))"

lemma state_views_apart:
  assumes ok: "states_ok page states" and room: "sum_list (map state_bytes states) \<le> page * pages"
    and bytes: "heap ! buf = page * pages * n"
  shows "views_apart heap (map (\<lambda>k. state_view buf page pages n (states ! k) (sum_list (map state_bytes (take k states))))
      [0..<length states])" (is "views_apart heap ?vs")
proof -
  let ?off = "\<lambda>k. sum_list (map state_bytes (take k states))" and ?P = "page * pages"
  have s: "0 < get_dtype_size (snd (states ! k))" "get_dtype_size (snd (states ! k)) dvd page"
      "get_dtype_size (snd (states ! k)) dvd ?off k" "0 \<notin> set (fst (states ! k))" if "k < length states" for k
    using ok that unfolding states_ok_def by blast+
  have after: "?off k + state_bytes (states ! k) \<le> ?off j" if "k < j" "j \<le> length states" for k j
    using sum_take_le[of k j "map state_bytes states"] that by (simp add: take_map)
  have top: "?off k + state_bytes (states ! k) \<le> ?P" if "k < length states" for k
    using after[of k "length states"] that room by simp
  note range = state_view_range[OF s]
  have sub: "element_bytes (state_view buf page pages n (states ! k) (?off k)) (b # e) \<subseteq> {..<heap ! buf}"
    if k: "k < length states" and idx: "in_shape (b # e) (n # fst (states ! k))" for k b e
  proof -
    have "b * ?P + ?off k + state_bytes (states ! k) \<le> Suc b * ?P" using top[OF k] by simp
    also have "\<dots> \<le> n * ?P" using idx by (intro mult_le_mono1) (simp add: in_shape_Cons)
    finally have "b * ?P + ?off k + state_bytes (states ! k) \<le> heap ! buf" using bytes by (simp add: ac_simps)
    then show ?thesis using range[OF k k k k idx, of buf pages] by fastforce
  qed
  have apart: "element_bytes (state_view buf page pages n (states ! k) (?off k)) (b # e)
      \<inter> element_bytes (state_view buf page pages n (states ! j) (?off j)) (c # f) = {}"
    if k: "k < length states" "in_shape (b # e) (n # fst (states ! k))"
      and j: "j < length states" "in_shape (c # f) (n # fst (states ! j))" and ne: "(k, b # e) \<noteq> (j, c # f)" for k b e j c f
  proof -
    note rk = range[OF k(1) k(1) k(1) k(1) k(2), of buf pages, folded add.assoc]
    note rj = range[OF j(1) j(1) j(1) j(1) j(2), of buf pages, folded add.assoc]
    consider "b < c" | "c < b" | "b = c" "k < j" | "b = c" "j < k" | "b = c" "k = j" "e \<noteq> f" using ne by fastforce
    then show ?thesis
    proof cases
      case 1
      then show ?thesis using pages_apart[OF 1 top[OF k(1)], of "?off k" "?off j" "?off j + state_bytes (states ! j)"] rk rj
        unfolding add.assoc by blast
    next
      case 2
      then show ?thesis using pages_apart[OF 2 top[OF j(1)], of "?off j" "?off k" "?off k + state_bytes (states ! k)"] rk rj
        unfolding add.assoc by blast
    next
      case 3
      then show ?thesis using after[OF 3(2)] j(1) rk rj by fastforce
    next
      case 4
      then show ?thesis using after[OF 4(2)] k(1) rk rj by fastforce
    next
      case 5
      let ?d = "get_dtype_size (snd (states ! k))"
      have "element_offset e (contiguous (fst (states ! k))) \<noteq> element_offset f (contiguous (fst (states ! k)))"
        using element_offset_inj[of e "fst (states ! k)" f] k(2) j(2) 5 by (auto simp: in_shape_Cons)
      from elements_apart[OF this, of "?off k + b * ?P" ?d] show ?thesis
        using state_view_address[OF s(1-3)[OF k(1)], of buf pages n] 5
        by (simp add: element_bytes_def state_view_def)
    qed
  qed
  show ?thesis unfolding views_apart_def
  proof (intro allI impI conjI)
    fix k "is" assume k: "k < length ?vs" and idx: "in_shape is (vw_size (?vs ! k))"
    then obtain b e where b: "is = b # e" "in_shape (b # e) (n # fst (states ! k))"
      by (auto simp: state_view_def in_shape_Cons)
    show "element_bytes (?vs ! k) is \<subseteq> {..<heap ! vw_buffer (?vs ! k)}"
      using sub[OF _ b(2)] k b(1) by (simp add: state_view_def)
    fix j js assume j: "j < length ?vs" "in_shape js (vw_size (?vs ! j))" and ne: "(k, is) \<noteq> (j, js)"
    then obtain c f where c: "js = c # f" "in_shape (c # f) (n # fst (states ! j))"
      by (auto simp: state_view_def in_shape_Cons)
    show "element_bytes (?vs ! k) is \<inter> element_bytes (?vs ! j) js = {}"
      using apart[OF _ b(2) _ c(2)] k j ne b(1) c(1) by simp
  qed
qed

end
