(* ===== verification/KvLayers.thy ===== *)
theory KvLayers
  imports KvTensors
begin

text \<open>
  Giving the raw tensors of the KV cache their shapes and binding them to the layers
  (\<^verbatim>\<open>vllm_mlu/v1/worker/gpu_model_runner.py\<close>), with the shapes of the attention backends of
  \<^verbatim>\<open>vllm_mlu/v1/attention/backends\<close> and the check that the layers of a draft model share a group
  (\<^verbatim>\<open>vllm_mlu/v1/spec_decode/eagle.py\<close>). The stride order of a backend, the groups of the
  attention layers, the hybrid layout and \<open>bind_kv_cache\<close> of vLLM are arguments.
\<close>

section \<open>The shapes of the backends\<close>

datatype attn_backend = FlashAttention | FlashMLA

definition get_kv_cache_shape :: "attn_backend \<Rightarrow> nat \<Rightarrow> nat \<Rightarrow> nat \<Rightarrow> nat \<Rightarrow> nat list" where
  "get_kv_cache_shape b num_blocks block_size num_kv_heads head_size =
     [case b of FlashAttention \<Rightarrow> 2 | FlashMLA \<Rightarrow> 1, num_blocks, num_kv_heads, block_size, head_size]"

definition get_kv_cache_scale_shape :: "attn_backend \<Rightarrow> nat \<Rightarrow> nat \<Rightarrow> nat \<Rightarrow> nat list" where
  "get_kv_cache_scale_shape b num_blocks block_size num_kv_heads =
     [case b of FlashAttention \<Rightarrow> 2 | FlashMLA \<Rightarrow> 1, num_blocks, num_kv_heads, block_size]"

section \<open>Reshaping a layer\<close>

text \<open>A raw tensor as it is, and one viewed with another type and shape, which must cover it.\<close>

definition raw_view :: "heap \<Rightarrow> nat \<Rightarrow> view" where
  "raw_view heap buf = \<lparr>vw_buffer = buf, vw_dtype = Int8, vw_offset = 0, vw_size = [heap ! buf], vw_stride = [1]\<rparr>"

definition view_as :: "heap \<Rightarrow> nat \<Rightarrow> dtype \<Rightarrow> nat list \<Rightarrow> view res" where
  "view_as heap buf dt dims =
     require (heap ! buf mod get_dtype_size dt = 0) RuntimeError
     (require (prod_list dims = heap ! buf div get_dtype_size dt) RuntimeError
     (Inr \<lparr>vw_buffer = buf, vw_dtype = dt, vw_offset = 0, vw_size = dims, vw_stride = contiguous dims\<rparr>))"

definition permute :: "nat list \<Rightarrow> view \<Rightarrow> view" where
  "permute dims v = v\<lparr>vw_size := map ((!) (vw_size v)) dims, vw_stride := map ((!) (vw_stride v)) dims\<rparr>"

fun list_index :: "'a list \<Rightarrow> 'a \<Rightarrow> nat res" where
  "list_index [] x = Inl ValueError"
| "list_index (y # ys) x = (if y = x then Inr 0 else bind_res (list_index ys x) (\<lambda>i. Inr (Suc i)))"

text \<open>
  The cache in the stride order of the backend, seen in its own shape. A backend that does not
  define an order raises, which the code catches.
\<close>

definition stride_order_of :: "(attn_backend \<Rightarrow> nat list option) \<Rightarrow> attn_backend \<Rightarrow> nat list \<Rightarrow> nat list res" where
  "stride_order_of stride_order b dims = (case stride_order b of
     None \<Rightarrow> Inr [0..<length dims]
   | Some order \<Rightarrow> require (length order = length dims) AssertionError (Inr order))"

definition ordered_view :: "heap \<Rightarrow> nat \<Rightarrow> dtype \<Rightarrow> nat list \<Rightarrow> nat list \<Rightarrow> view res" where
  "ordered_view heap buf dt order dims =
     bind_res (map_res (nth_res dims) order) (\<lambda>stored.
     bind_res (map_res (list_index order) [0..<length order]) (\<lambda>inv_order.
     bind_res (view_as heap buf dt stored) (\<lambda>v.
     Inr (permute inv_order v))))"

datatype layer_cache = AttnCache view view view | StateCache "view list"

definition reshape_attention ::
  "(attn_backend \<Rightarrow> nat list option) \<Rightarrow> heap \<Rightarrow> attn_backend \<Rightarrow> nat \<Rightarrow> attention_spec \<Rightarrow> (nat \<times> nat) option
     \<Rightarrow> nat \<Rightarrow> raw_tensors \<Rightarrow> layer_cache res" where
  "reshape_attention stride_order heap b kernel_block_size a index num_blocks t =
     require (kernel_block_size \<noteq> 0) ZeroDivisionError
     (let kernel_num_blocks = num_blocks * (as_block_size a div kernel_block_size);
          dims = get_kv_cache_shape b kernel_num_blocks kernel_block_size (as_num_kv_heads a) (as_head_size a)
      in bind_res (stride_order_of stride_order b dims) (\<lambda>order.
         bind_res (ordered_view heap (rt_cache t) (as_dtype a) order dims) (\<lambda>cache.
         bind_res (if as_dtype a \<in> {Int8, UInt8}
             then view_as heap (rt_scale t) float32
               (get_kv_cache_scale_shape b kernel_num_blocks kernel_block_size (as_num_kv_heads a))
             else Inr (raw_view heap (rt_scale t))) (\<lambda>scale.
         bind_res (case index of
             Some (n_heads, head_dim) \<Rightarrow> view_as heap (rt_index t) (as_dtype a)
               [kernel_num_blocks, n_heads, kernel_block_size, head_dim]
           | None \<Rightarrow> Inr (raw_view heap (rt_index t))) (\<lambda>index_cache.
         Inr (AttnCache cache scale index_cache))))))"

definition reshape_layer ::
  "(attn_backend \<Rightarrow> nat list option) \<Rightarrow> mamba_config \<Rightarrow> heap \<Rightarrow> attn_backend \<Rightarrow> nat \<Rightarrow> kv_spec \<Rightarrow> raw_tensors
     \<Rightarrow> layer_cache res" where
  "reshape_layer stride_order mc heap b kernel_block_size spec t =
     (let total_numel = heap ! rt_cache t + heap ! rt_scale t + heap ! rt_index t;
          page = page_size_bytes spec
      in require (page \<noteq> 0) ZeroDivisionError
         (require (total_numel mod page = 0) AssertionError
         (let num_blocks = total_numel div page in
          case spec of
            Full a \<Rightarrow> reshape_attention stride_order heap b kernel_block_size a None num_blocks t
          | Sliding a \<Rightarrow> reshape_attention stride_order heap b kernel_block_size (attention_spec.truncate a) None num_blocks t
          | MLA a \<Rightarrow> reshape_attention stride_order heap b kernel_block_size (attention_spec.truncate a)
              (if 0 < ms_index_n_heads a then Some (ms_index_n_heads a, ms_index_head_dim a) else None) num_blocks t
          | Mamba m \<Rightarrow> bind_res (if mc_split_page_size mc
                then mamba_views heap (rt_cache t) page (mc_attn_block_ratio mc) (mc_max_batch_size mc) (mb_states m) 0
                else mamba_views heap (rt_cache t) page 1 num_blocks (mb_states m) 0) (\<lambda>views.
              Inr (StateCache views))
          | Uniform _ \<Rightarrow> Inl NotImplementedError)))"

section \<open>Reshaping all layers\<close>

record attn_group =
  ag_spec :: kv_spec
  ag_backend :: attn_backend
  ag_kv_cache_group_id :: nat
  ag_layer_names :: "string list"

type_synonym kv_caches = "(string, layer_cache) dict"

text \<open>The flags say whether attention layers and linear layers were met.\<close>

definition reshape_one ::
  "(attn_backend \<Rightarrow> nat list option) \<Rightarrow> mamba_config \<Rightarrow> heap \<Rightarrow> (string, raw_tensors) dict \<Rightarrow> string set \<Rightarrow> attn_group
     \<Rightarrow> nat \<Rightarrow> string \<Rightarrow> kv_caches \<times> bool \<times> bool \<Rightarrow> (kv_caches \<times> bool \<times> bool) res" where
  "reshape_one stride_order mc heap raw runner_only g kernel_block_size layer st = (case st of (caches, has_attn, has_mamba) \<Rightarrow>
     if layer \<in> runner_only then Inr st
     else bind_res (dict_at raw layer) (\<lambda>t.
          bind_res (reshape_layer stride_order mc heap (ag_backend g) kernel_block_size (ag_spec g) t) (\<lambda>c.
          Inr (dict_set layer c caches,
               has_attn \<or> (case c of AttnCache _ _ _ \<Rightarrow> True | StateCache _ \<Rightarrow> False),
               has_mamba \<or> (case c of AttnCache _ _ _ \<Rightarrow> False | StateCache _ \<Rightarrow> True)))))"

definition reshape_group ::
  "(attn_backend \<Rightarrow> nat list option) \<Rightarrow> mamba_config \<Rightarrow> heap \<Rightarrow> (string, raw_tensors) dict \<Rightarrow> string set \<Rightarrow> nat list
     \<Rightarrow> attn_group \<Rightarrow> kv_caches \<times> bool \<times> bool \<Rightarrow> (kv_caches \<times> bool \<times> bool) res" where
  "reshape_group stride_order mc heap raw runner_only kernel_block_sizes g st =
     (if ag_kv_cache_group_id g = length kernel_block_sizes then Inr st
      else bind_res (nth_res kernel_block_sizes (ag_kv_cache_group_id g)) (\<lambda>kernel_block_size.
           fold_res (reshape_one stride_order mc heap raw runner_only g kernel_block_size) (ag_layer_names g) st))"

definition reshape_kv_cache_tensors ::
  "(attn_backend \<Rightarrow> nat list option) \<Rightarrow> (kv_caches \<Rightarrow> kv_caches) \<Rightarrow> mamba_config \<Rightarrow> heap \<Rightarrow> (string, raw_tensors) dict
     \<Rightarrow> string set \<Rightarrow> nat list \<Rightarrow> attn_group list \<Rightarrow> kv_caches res" where
  "reshape_kv_cache_tensors stride_order update_hybrid_layout mc heap raw runner_only kernel_block_sizes groups =
     bind_res (fold_res (reshape_group stride_order mc heap raw runner_only kernel_block_sizes) groups ([], False, False))
       (\<lambda>(caches, has_attn, has_mamba).
     Inr (if has_attn \<and> has_mamba \<and> \<not> mc_split_page_size mc then update_hybrid_layout caches else caches))"

section \<open>The cache of an attention layer\<close>

definition is_order :: "nat list \<Rightarrow> nat \<Rightarrow> bool" where
  "is_order order n \<longleftrightarrow> distinct order \<and> set order = {..<n}"

lemma is_order_length: "is_order order n \<Longrightarrow> length order = n"
  unfolding is_order_def by (metis card_lessThan distinct_card)

lemma list_index_in: "x \<in> set xs \<Longrightarrow> \<exists>i. list_index xs x = Inr i \<and> i < length xs \<and> xs ! i = x"
  by (induction xs) auto

lemma map_res_ex: "\<forall>x \<in> set xs. \<exists>y. f x = Inr y \<and> P x y \<Longrightarrow>
  \<exists>ys. map_res f xs = Inr ys \<and> length ys = length xs \<and> (\<forall>i < length xs. P (xs ! i) (ys ! i))"
proof (induction xs)
  case Nil
  then show ?case by simp
next
  case (Cons x xs)
  then obtain y ys where "f x = Inr y" "P x y" "map_res f xs = Inr ys" "length ys = length xs" "\<forall>i < length xs. P (xs ! i) (ys ! i)"
    by auto
  then show ?case by (auto simp: nth_Cons split: nat.split)
qed

lemma element_offset_sum:
  "length is = length ss \<Longrightarrow> element_offset is ss = (\<Sum>i < length ss. is ! i * ss ! i)"
proof (induction "is" ss rule: element_offset.induct)
  case (1 i "is" s ss)
  then show ?case by (simp add: sum.lessThan_Suc_shift del: sum.lessThan_Suc)
qed auto

lemma length_contiguous [simp]: "length (contiguous dims) = length dims"
  by (induction dims) auto

lemma prod_list_lessThan: "prod_list xs = (\<Prod>i < length xs. xs ! i)" for xs :: "nat list"
  by (induction xs) (simp_all add: prod.lessThan_Suc_shift del: prod.lessThan_Suc)

lemma order_bij: "is_order order n \<Longrightarrow> bij_betw ((!) order) {..<n} {..<n}"
proof -
  assume o: "is_order order n"
  have "{..<n} = {..<length order}" using is_order_length[OF o] by simp
  then show ?thesis using bij_betw_nth[of order "{..<n}" "{..<n}"] o unfolding is_order_def by blast
qed

lemma prod_order: "is_order order (length dims) \<Longrightarrow> prod_list (map ((!) dims) order) = prod_list dims" for dims :: "nat list"
proof -
  assume o: "is_order order (length dims)"
  have "(\<Prod>i < length dims. dims ! (order ! i)) = (\<Prod>i < length dims. dims ! i)"
    using order_bij[OF o] by (rule prod.reindex_bij_betw)
  then show ?thesis using is_order_length[OF o] by (simp add: prod_list_lessThan)
qed

text \<open>Reading a permuted view is reading the stored tensor at the permuted index.\<close>

lemma permuted_offset:
  assumes o: "is_order order n" and iv: "length iv = n" "\<forall>i < n. iv ! i < n \<and> order ! (iv ! i) = i"
    and len: "length is = n" "length ss = n"
  shows "element_offset is (map ((!) ss) iv) = element_offset (map ((!) is) order) ss"
proof -
  have undo: "iv ! (order ! j) = j" if "j < n" for j
  proof -
    have "order ! j < n" using o that is_order_length[OF o] unfolding is_order_def by (metis lessThan_iff nth_mem)
    then have "iv ! (order ! j) < n" "order ! (iv ! (order ! j)) = order ! j" using iv(2) by simp_all
    then show ?thesis using o that is_order_length[OF o] unfolding is_order_def by (metis nth_eq_iff_index_eq)
  qed
  have "element_offset is (map ((!) ss) iv) = (\<Sum>i < n. is ! i * ss ! (iv ! i))"
    using len iv(1) by (simp add: element_offset_sum)
  also have "\<dots> = (\<Sum>j < n. is ! (order ! j) * ss ! (iv ! (order ! j)))"
    using sum.reindex_bij_betw[OF order_bij[OF o], of "\<lambda>i. is ! i * ss ! (iv ! i)"] by simp
  also have "\<dots> = (\<Sum>j < n. is ! (order ! j) * ss ! j)" using undo by simp
  also have "\<dots> = element_offset (map ((!) is) order) ss"
    using len is_order_length[OF o] by (simp add: element_offset_sum)
  finally show ?thesis .
qed

lemma in_shape_nth: "in_shape is dims \<longleftrightarrow> length is = length dims \<and> (\<forall>i < length dims. is ! i < dims ! i)"
  by (auto simp: in_shape_def list_all2_conv_all_nth)

lemma in_shape_order:
  "is_order order (length dims) \<Longrightarrow> in_shape is dims \<Longrightarrow> in_shape (map ((!) is) order) (map ((!) dims) order)"
  unfolding in_shape_nth is_order_def by (auto simp: subset_iff)

lemma in_shape_pos: "in_shape is dims \<Longrightarrow> 0 \<notin> set dims"
  unfolding in_shape_nth by (metis in_set_conv_nth not_less_zero)

lemma ordered_view_run:
  assumes o: "is_order order (length dims)" and bytes: "heap ! buf = prod_list dims * get_dtype_size dt" "0 < get_dtype_size dt"
  shows "\<exists>v. ordered_view heap buf dt order dims = Inr v \<and> vw_size v = dims \<and> vw_buffer v = buf \<and> vw_dtype v = dt
    \<and> views_apart heap [v]"
proof -
  let ?n = "length dims" and ?d = "get_dtype_size dt" and ?st = "map ((!) dims) order"
  have len: "length order = ?n" using is_order_length[OF o] .
  have "map_res (nth_res dims) order = Inr ?st" using o by (intro map_res_total) (auto simp: is_order_def)
  moreover obtain iv where iv: "map_res (list_index order) [0..<?n] = Inr iv" "length iv = ?n"
      "\<forall>i < ?n. iv ! i < ?n \<and> order ! (iv ! i) = i"
    using map_res_ex[of "[0..<?n]" "list_index order" "\<lambda>x y. y < ?n \<and> order ! y = x"] list_index_in[of _ order] o len
    by (auto simp: is_order_def)
  moreover have "view_as heap buf dt ?st = Inr \<lparr>vw_buffer = buf, vw_dtype = dt, vw_offset = 0, vw_size = ?st, vw_stride = contiguous ?st\<rparr>"
    using bytes prod_order[OF o] by (simp add: view_as_def)
  ultimately obtain v where v: "ordered_view heap buf dt order dims = Inr v" "v = \<lparr>vw_buffer = buf, vw_dtype = dt, vw_offset = 0,
      vw_size = map ((!) ?st) iv, vw_stride = map ((!) (contiguous ?st)) iv\<rparr>"
    using len by (simp add: ordered_view_def permute_def)
  have dims: "map ((!) ?st) iv = dims" using iv(2,3) len by (intro nth_equalityI) auto
  have addr: "address v is = element_offset (map ((!) is) order) (contiguous ?st) * ?d" if "in_shape is dims" for "is"
    using permuted_offset[OF o iv(2,3), of "is" "contiguous ?st"] that len v(2) by (simp add: address_def in_shape_nth)
  have sub: "element_bytes v is \<subseteq> {..<heap ! buf}" if idx: "in_shape is dims" for "is"
  proof -
    have "Suc (element_offset (map ((!) is) order) (contiguous ?st)) \<le> prod_list dims"
      using element_offset_less[OF in_shape_order[OF o idx]] prod_max[OF in_shape_pos[OF in_shape_order[OF o idx]]] prod_order[OF o]
      by simp
    then have "Suc (element_offset (map ((!) is) order) (contiguous ?st)) * ?d \<le> heap ! buf"
      using bytes(1) mult_le_mono1 by presburger
    then show ?thesis using addr[OF idx] v(2) by (auto simp: element_bytes_def)
  qed
  have apart: "element_bytes v is \<inter> element_bytes v js = {}" if idx: "in_shape is dims" "in_shape js dims" "is \<noteq> js" for "is" js
  proof -
    have "map ((!) is) order \<noteq> map ((!) js) order"
    proof
      assume eq: "map ((!) is) order = map ((!) js) order"
      have "is ! i = js ! i" if "i < ?n" for i
        using o eq that unfolding is_order_def by (metis lessThan_iff map_eq_conv)
      then show False using idx by (auto simp: in_shape_nth intro: nth_equalityI)
    qed
    then have "element_offset (map ((!) is) order) (contiguous ?st) \<noteq> element_offset (map ((!) js) order) (contiguous ?st)"
      using element_offset_inj in_shape_order[OF o] idx by blast
    from elements_apart[OF this, of 0 ?d] show ?thesis using addr idx v(2) by (simp add: element_bytes_def)
  qed
  show ?thesis using v dims sub apart by (auto simp: views_apart_def)
qed

definition attn_spec_of :: "kv_spec \<Rightarrow> attention_spec option" where
  "attn_spec_of s = (case s of Full a \<Rightarrow> Some a | MLA a \<Rightarrow> Some (attention_spec.truncate a)
     | Sliding a \<Rightarrow> Some (attention_spec.truncate a) | _ \<Rightarrow> None)"

definition backend_for :: "kv_spec \<Rightarrow> attn_backend" where
  "backend_for s = (case s of MLA _ \<Rightarrow> FlashMLA | _ \<Rightarrow> FlashAttention)"

text \<open>The raw tensors hold \<open>n\<close> blocks of the spec.\<close>

definition holds_blocks :: "heap \<Rightarrow> raw_tensors \<Rightarrow> attn_layout \<Rightarrow> nat \<Rightarrow> bool" where
  "holds_blocks heap t l n \<longleftrightarrow> heap ! rt_cache t = n * al_cache l
     \<and> heap ! rt_scale t = (if al_dtype l \<in> {Int8, UInt8} then n * al_scale l else 0) \<and> heap ! rt_index t = n * al_index l"

lemma view_as_fits:
  "heap ! buf = prod_list dims * get_dtype_size dt \<Longrightarrow> 0 < get_dtype_size dt \<Longrightarrow>
   view_as heap buf dt dims = Inr \<lparr>vw_buffer = buf, vw_dtype = dt, vw_offset = 0, vw_size = dims, vw_stride = contiguous dims\<rparr>"
  by (simp add: view_as_def)

lemma reshape_attention_run:
  assumes kb: "0 < kb" "as_block_size a = k * kb" and d: "0 < get_dtype_size (as_dtype a)"
    and order: "\<forall>order. stride_order b = Some order \<longrightarrow> is_order order 5"
    and cache: "heap ! rt_cache t
      = prod_list (get_kv_cache_shape b (n * k) kb (as_num_kv_heads a) (as_head_size a)) * get_dtype_size (as_dtype a)"
    and scale: "as_dtype a \<in> {Int8, UInt8} \<Longrightarrow>
      heap ! rt_scale t = prod_list (get_kv_cache_scale_shape b (n * k) kb (as_num_kv_heads a)) * 4"
    and index: "\<forall>h hd. index = Some (h, hd) \<longrightarrow> heap ! rt_index t = prod_list [n * k, h, kb, hd] * get_dtype_size (as_dtype a)"
  shows "\<exists>c s i. reshape_attention stride_order heap b kb a index n t = Inr (AttnCache c s i)
    \<and> vw_size c = get_kv_cache_shape b (n * k) kb (as_num_kv_heads a) (as_head_size a)
    \<and> vw_buffer c = rt_cache t \<and> views_apart heap [c]
    \<and> (as_dtype a \<in> {Int8, UInt8} \<longrightarrow> vw_size s = get_kv_cache_scale_shape b (n * k) kb (as_num_kv_heads a))"
proof -
  let ?dims = "get_kv_cache_shape b (n * k) kb (as_num_kv_heads a) (as_head_size a)"
  let ?sdims = "get_kv_cache_scale_shape b (n * k) kb (as_num_kv_heads a)"
  have five: "length ?dims = 5" by (simp add: get_kv_cache_shape_def)
  have "\<exists>order. stride_order_of stride_order b ?dims = Inr order \<and> is_order order (length ?dims)"
    using order is_order_length five
    by (cases "stride_order b") (auto simp: stride_order_of_def is_order_def atLeast0LessThan)
  then obtain order where o: "stride_order_of stride_order b ?dims = Inr order" "is_order order (length ?dims)" by blast
  obtain c where c: "ordered_view heap (rt_cache t) (as_dtype a) order ?dims = Inr c" "vw_size c = ?dims"
      "vw_buffer c = rt_cache t" "views_apart heap [c]"
    using ordered_view_run[OF o(2) cache d] by blast
  obtain s where s: "(if as_dtype a \<in> {Int8, UInt8} then view_as heap (rt_scale t) float32 ?sdims
        else Inr (raw_view heap (rt_scale t))) = Inr s" "as_dtype a \<in> {Int8, UInt8} \<longrightarrow> vw_size s = ?sdims"
    using view_as_fits[of heap "rt_scale t" ?sdims float32] scale
    by (cases "as_dtype a \<in> {Int8, UInt8}") (auto simp: float32_def get_dtype_size_def)
  obtain i where i: "(case index of Some (n_heads, head_dim) \<Rightarrow> view_as heap (rt_index t) (as_dtype a) [n * k, n_heads, kb, head_dim]
        | None \<Rightarrow> Inr (raw_view heap (rt_index t))) = Inr i"
    using view_as_fits[of heap "rt_index t" _ "as_dtype a"] index d by (cases index) auto
  have k: "as_block_size a div kb = k" using kb by simp
  have "reshape_attention stride_order heap b kb a index n t = Inr (AttnCache c s i)"
    using kb(1) o(1) c(1) s(1) i unfolding reshape_attention_def Let_def k by simp
  then show ?thesis using c s by blast
qed

text \<open>
  The cache of an attention layer that was given whole blocks gets the shape of its backend in
  kernel blocks, whatever the stride order of the backend: reshaping succeeds for full, sliding
  window and latent attention, with and without scales and an index; the elements of the cache lie
  in its tensor and no two of them share a byte.
\<close>
theorem attention_cache_in_place:
  assumes spec: "attn_spec_of spec = Some a" "attn_sizes spec = Inr l" "page_size_bytes spec \<noteq> 0"
    and blocks: "holds_blocks heap t l n"
    and kernel: "0 < kb" "as_block_size a = k * kb" "0 < get_dtype_size (as_dtype a)"
    and order: "\<forall>order. stride_order (backend_for spec) = Some order \<longrightarrow> is_order order 5"
  shows "\<exists>c s i. reshape_layer stride_order mc heap (backend_for spec) kb spec t = Inr (AttnCache c s i)
    \<and> vw_size c = get_kv_cache_shape (backend_for spec) (n * k) kb (as_num_kv_heads a) (as_head_size a)
    \<and> vw_buffer c = rt_cache t \<and> views_apart heap [c]
    \<and> (as_dtype a \<in> {Int8, UInt8} \<longrightarrow>
         vw_size s = get_kv_cache_scale_shape (backend_for spec) (n * k) kb (as_num_kv_heads a))"
proof -
  let ?b = "backend_for spec"
  have dt: "al_dtype l = as_dtype a" using spec(1,2)
    by (cases spec) (auto simp: attn_sizes_def attn_spec_of_def attention_spec.truncate_def)
  have total: "heap ! rt_cache t + heap ! rt_scale t + heap ! rt_index t = n * page_size_bytes spec"
    using blocks attn_sizes_page[OF spec(2)] by (simp add: holds_blocks_def algebra_simps)
  have cache: "heap ! rt_cache t
      = prod_list (get_kv_cache_shape ?b (n * k) kb (as_num_kv_heads a) (as_head_size a)) * get_dtype_size (as_dtype a)"
    using blocks spec(1,2) kernel(2) unfolding holds_blocks_def
    by (cases spec) (auto simp: attn_sizes_def attn_spec_of_def attention_spec.truncate_def backend_for_def get_kv_cache_shape_def
        full_cache_size_def mla_cache_size_def sliding_cache_size_def)
  have scale: "heap ! rt_scale t = prod_list (get_kv_cache_scale_shape ?b (n * k) kb (as_num_kv_heads a)) * 4"
    if "as_dtype a \<in> {Int8, UInt8}"
    using blocks spec(1,2) kernel(2) that dt unfolding holds_blocks_def
    by (cases spec) (auto simp: attn_sizes_def attn_spec_of_def attention_spec.truncate_def backend_for_def get_kv_cache_scale_shape_def
        full_scale_size_def mla_scale_size_def sliding_scale_size_def float32_def get_dtype_size_def)
  note run = reshape_attention_run[where stride_order = stride_order and b = ?b, OF kernel order cache scale]
  show ?thesis
  proof (cases spec)
    case (Full a')
    then show ?thesis using run[of None] spec total by (simp add: reshape_layer_def attn_spec_of_def)
  next
    case (Sliding a')
    then show ?thesis using run[of None] spec total by (simp add: reshape_layer_def attn_spec_of_def)
  next
    case (MLA m)
    let ?index = "if 0 < ms_index_n_heads m then Some (ms_index_n_heads m, ms_index_head_dim m) else None"
    have "\<forall>h hd. ?index = Some (h, hd) \<longrightarrow> heap ! rt_index t = prod_list [n * k, h, kb, hd] * get_dtype_size (as_dtype a)"
      using blocks spec(1,2) kernel(2) MLA
      by (auto simp: holds_blocks_def attn_sizes_def attn_spec_of_def attention_spec.truncate_def mla_index_cache_size_def)
    from run[OF _ this] show ?thesis using MLA spec total by (simp add: reshape_layer_def attn_spec_of_def)
  qed (use spec in \<open>simp_all add: attn_spec_of_def\<close>)
qed

text \<open>
  C18. With split pages the states of linear attention are laid out safely: after the update of the
  configuration, the tensor allocated for a linear layer takes the views of all its states for the
  maximal batch. Reshaping succeeds, every state has one slot per request of the batch and its own
  shape, all elements lie in the tensor, and no element of any state of any slot shares a byte with
  another.
\<close>
theorem linear_states_in_place:
  assumes upd: "verify_and_update_config full_page mla_page base_update m c0 mc = Inr (c, mc')"
    and new: "cf_mamba_page_size_padded (base_update c0) = None"
    and split: "mc_split_page_size mc"
    and state: "mamba_page_size (hm_mamba_states m) None \<noteq> 0"
    and spec: "spec = Mamba \<lparr>mb_states = hm_mamba_states m, mb_page_size_padded = cf_mamba_page_size_padded c\<rparr>"
    and ok: "states_ok (page_size_bytes spec) (hm_mamba_states m)"
    and raw: "heap ! rt_cache t = mamba_tensor_size mc' attn" "page_size_bytes attn = page_size_bytes spec"
      "heap ! rt_scale t = 0" "heap ! rt_index t = 0"
  shows "\<exists>views. reshape_layer stride_order mc' heap b kb spec t = Inr (StateCache views)
    \<and> map vw_size views = map (\<lambda>s. mc_max_batch_size mc # fst s) (hm_mamba_states m)
    \<and> (\<forall>v \<in> set views. vw_buffer v = rt_cache t) \<and> views_apart heap views"
proof -
  let ?page = "page_size_bytes spec" and ?states = "hm_mamba_states m" and ?n = "mc_max_batch_size mc"
  let ?vs = "map (\<lambda>k. state_view (rt_cache t) ?page (mc_attn_block_ratio mc') ?n (?states ! k)
      (sum_list (map state_bytes (take k ?states)))) [0..<length ?states]"
  have mc': "mc_split_page_size mc'" "mc_max_batch_size mc' = ?n" using update_keeps_device[OF upd] split by simp_all
  have page: "?page = mamba_page_size ?states (cf_mamba_page_size_padded c)" unfolding spec by (simp add: page_size_bytes_def)
  have room: "sum_list (map state_bytes ?states) \<le> ?page * mc_attn_block_ratio mc'"
    using hybrid_state_fits[OF upd new state] mc'(1) page by (simp add: mamba_page_states pages_per_state_def)
  then have ne: "?page \<noteq> 0" using state unfolding mamba_page_states by (metis le_zero_eq mult_zero_left)
  have bytes: "heap ! rt_cache t = ?page * mc_attn_block_ratio mc' * ?n"
    using raw(1,2) mc'(2) by (simp add: mamba_tensor_size_def)
  have "mamba_views heap (rt_cache t) ?page (mc_attn_block_ratio mc') ?n ?states 0 = Inr ?vs"
    using mamba_views_run[OF bytes, of 0 ?states] room ok unfolding states_ok_def by simp
  then have "reshape_layer stride_order mc' heap b kb spec t = Inr (StateCache ?vs)"
    using ne bytes raw(3,4) mc' unfolding reshape_layer_def by (subst (2) spec) (simp add: Let_def)
  moreover have "views_apart heap ?vs" using state_views_apart[OF ok room bytes] .
  moreover have "map vw_size ?vs = map (\<lambda>s. ?n # fst s) ?states"
    by (rule nth_equalityI) (simp_all add: state_view_def)
  moreover have "\<forall>v \<in> set ?vs. vw_buffer v = rt_cache t" by (simp add: state_view_def)
  ultimately show ?thesis by blast
qed

section \<open>Which layers need a cache\<close>

record attn_module =
  am_is_attention :: bool
  am_kv_sharing_target :: "string option"
  am_kv_cache_spec :: "kv_spec option"

record model_kind =
  mk_is_deepseek_mla :: bool
  mk_is_longcat_flash :: bool
  mk_model_type :: string

definition needs_no_cache :: "model_kind \<Rightarrow> string \<Rightarrow> bool" where
  "needs_no_cache k name \<longleftrightarrow>
     (mk_is_deepseek_mla k \<and> suffix ''self_attn.attn'' name)
     \<or> (mk_is_longcat_flash k \<and> (suffix ''self_attn.0.attn'' name \<or> suffix ''self_attn.1.attn'' name))"

definition spec_of_layer ::
  "model_kind \<Rightarrow> string \<times> attn_module \<Rightarrow> (string, kv_spec) dict \<times> (string, string) dict
     \<Rightarrow> (string, kv_spec) dict \<times> (string, string) dict" where
  "spec_of_layer k layer st = (case (layer, st) of ((name, m), (specs, shared)) \<Rightarrow>
     case (if am_is_attention m then am_kv_sharing_target m else None) of
       Some (c # cs) \<Rightarrow> (specs, dict_set name (c # cs) shared)
     | _ \<Rightarrow> if needs_no_cache k name then (specs, shared)
            else (case am_kv_cache_spec m of
                    None \<Rightarrow> (specs, shared)
                  | Some s \<Rightarrow> (dict_set name s specs, shared)))"

text \<open>The specs of the layers, and the layers that share the cache of another one.\<close>

definition get_kv_cache_spec ::
  "model_kind \<Rightarrow> (string, attn_module) dict \<Rightarrow> (string, string) dict \<Rightarrow> (string, kv_spec) dict \<times> (string, string) dict" where
  "get_kv_cache_spec k layers shared = fold (spec_of_layer k) layers ([], shared)"

section \<open>Binding the caches to the layers\<close>

text \<open>\<open>str.replace\<close> of a pattern that is not empty.\<close>

fun str_replace :: "string \<Rightarrow> string \<Rightarrow> nat \<Rightarrow> string \<Rightarrow> string" where
  "str_replace old new skip [] = []"
| "str_replace old new (Suc skip) (c # cs) = str_replace old new skip cs"
| "str_replace old new 0 (c # cs) =
     (if prefix old (c # cs) then new @ str_replace old new (length old - 1) cs
      else c # str_replace old new 0 cs)"

definition deepseek_target :: "string \<Rightarrow> string" where
  "deepseek_target name =
     (if suffix ''self_attn.mla_attn'' name then str_replace ''self_attn.mla_attn'' ''self_attn.attn'' 0 name else name)"

definition longcat_target :: "string \<Rightarrow> string" where
  "longcat_target name =
     (if suffix ''self_attn.0.mla_attn'' name then str_replace ''self_attn.0.mla_attn'' ''self_attn.0.attn'' 0 name
      else if suffix ''self_attn.1.mla_attn'' name then str_replace ''self_attn.1.mla_attn'' ''self_attn.1.attn'' 0 name
      else name)"

type_synonym forward_context = "(string, layer_cache list) dict"

definition bind_targets :: "(string \<Rightarrow> string) \<Rightarrow> kv_caches \<Rightarrow> forward_context \<Rightarrow> forward_context res" where
  "bind_targets target caches ctx =
     fold_res (\<lambda>(name, c) ctx. require (target name \<in> set (dict_keys ctx)) KeyError
       (Inr (dict_set (target name) [c] ctx))) caches ctx"

definition validate_same_kv_cache_group :: "kv_group list \<Rightarrow> string list \<Rightarrow> nat res" where
  "validate_same_kv_cache_group groups attn_layer_names =
     (let group_of = fold (\<lambda>(i, g) d. fold (\<lambda>l. dict_set l i) (kg_layer_names g) d) (enumerate 0 groups) [];
          eagle_cache_groups = remdups (List.map_filter (dict_get group_of) attn_layer_names)
      in require (length eagle_cache_groups = 1) AssertionError (Inr (hd eagle_cache_groups)))"

definition share_layers :: "(string, string) dict \<Rightarrow> kv_caches \<Rightarrow> kv_caches res" where
  "share_layers shared caches =
     fold_res (\<lambda>(layer, target) caches. bind_res (dict_at caches target) (\<lambda>c. Inr (dict_set layer c caches))) shared caches"

text \<open>
  The drafter is \<open>None\<close> without speculative decoding by a draft model, else the attention
  layers of an \<open>EagleProposer\<close>, if it is one. \<open>bind_kv_cache\<close> of vLLM changes the forward context
  and the list of caches of the runner.
\<close>

record runner_config =
  rc_model :: model_kind
  rc_mamba :: mamba_config
  rc_runner_only :: "string set"
  rc_drafter :: "string list option option"
  rc_shared :: "(string, string) dict"

record kv_binding =
  kb_caches :: kv_caches
  kb_context :: forward_context
  kb_runner_caches :: "layer_cache list"
  kb_drafter_group :: "nat option"

definition initialize_kv_cache_tensors ::
  "(attn_backend \<Rightarrow> nat list option) \<Rightarrow> (kv_caches \<Rightarrow> kv_caches)
     \<Rightarrow> (kv_caches \<Rightarrow> nat \<Rightarrow> forward_context \<times> layer_cache list \<Rightarrow> (forward_context \<times> layer_cache list) res)
     \<Rightarrow> runner_config \<Rightarrow> kv_tensor list \<Rightarrow> spec_group list \<Rightarrow> attn_group list \<Rightarrow> nat list
     \<Rightarrow> forward_context \<Rightarrow> layer_cache list \<Rightarrow> kv_binding res" where
  "initialize_kv_cache_tensors stride_order hybrid_layout bind_kv_cache rc tensors groups attn_groups kernel_block_sizes ctx rcaches =
     bind_res (allocate_kv_cache_tensors (rc_mamba rc) (rc_runner_only rc) tensors groups) (\<lambda>(heap, raw).
     bind_res (reshape_kv_cache_tensors stride_order hybrid_layout (rc_mamba rc) heap raw (rc_runner_only rc)
       kernel_block_sizes attn_groups) (\<lambda>caches.
     bind_res (case rc_drafter rc of
         None \<Rightarrow> Inr None
       | Some None \<Rightarrow> Inl AssertionError
       | Some (Some names) \<Rightarrow>
           bind_res (validate_same_kv_cache_group (map kv_group.truncate groups) names) (\<lambda>i. Inr (Some i))) (\<lambda>group_id.
     bind_res (share_layers (rc_shared rc) caches) (\<lambda>caches.
     bind_res (bind_kv_cache caches (if mk_model_type (rc_model rc) = ''longcat_flash'' then 2 else 1) (ctx, rcaches)) (\<lambda>(ctx, rcaches).
     bind_res (if mk_is_deepseek_mla (rc_model rc) then bind_targets deepseek_target caches ctx else Inr ctx) (\<lambda>ctx.
     bind_res (if mk_is_longcat_flash (rc_model rc) then bind_targets longcat_target caches ctx else Inr ctx) (\<lambda>ctx.
     Inr \<lparr>kb_caches = caches, kb_context = ctx, kb_runner_caches = rcaches, kb_drafter_group = group_id\<rparr>)))))))"

lemma share_layers_alias:
  assumes "share_layers shared caches = Inr caches'" "distinct (dict_keys shared)"
    and "\<forall>(layer, target) \<in> set shared. target \<notin> set (dict_keys shared)"
  shows "(\<forall>(layer, target) \<in> set shared. dict_get caches' layer = dict_get caches' target \<and> dict_get caches' target \<noteq> None)
    \<and> (\<forall>name. name \<notin> set (dict_keys shared) \<longrightarrow> dict_get caches' name = dict_get caches name)"
  using assms
proof (induction shared arbitrary: caches)
  case Nil
  then show ?case by (simp add: share_layers_def)
next
  case (Cons lt shared)
  obtain layer target where lt: "lt = (layer, target)" by (cases lt)
  obtain c where c: "dict_get caches target = Some c" "share_layers shared (dict_set layer c caches) = Inr caches'"
    using Cons.prems(1) unfolding lt share_layers_def
    by (auto simp: dict_at_def split: sum.splits option.splits)
  have ih: "(\<forall>(layer, target) \<in> set shared. dict_get caches' layer = dict_get caches' target \<and> dict_get caches' target \<noteq> None)
    \<and> (\<forall>name. name \<notin> set (dict_keys shared) \<longrightarrow> dict_get caches' name = dict_get (dict_set layer c caches) name)"
  proof (rule Cons.IH[OF c(2)])
    show "distinct (dict_keys shared)" using Cons.prems(2) by simp
    show "\<forall>(layer, target) \<in> set shared. target \<notin> set (dict_keys shared)" using Cons.prems(3) by auto
  qed
  have "dict_get caches' layer = Some c" "dict_get caches' target = Some c"
    using ih c(1) Cons.prems(2,3) lt by auto
  then show ?case using ih lt by auto
qed

lemma bind_targets_all:
  assumes "bind_targets target caches ctx = Inr ctx'" "inj_on target (set (dict_keys caches))" "distinct (dict_keys caches)"
  shows "(\<forall>(name, c) \<in> set caches. dict_get ctx' (target name) = Some [c])
    \<and> (\<forall>n. n \<notin> target ` set (dict_keys caches) \<longrightarrow> dict_get ctx' n = dict_get ctx n)"
  using assms
proof (induction caches arbitrary: ctx)
  case Nil
  then show ?case by (simp add: bind_targets_def)
next
  case (Cons nc caches)
  obtain name c where nc: "nc = (name, c)" by (cases nc)
  have step: "bind_targets target caches (dict_set (target name) [c] ctx) = Inr ctx'"
    using Cons.prems(1) unfolding nc bind_targets_def by (auto simp: require_def split: if_splits)
  have ih: "(\<forall>(name, c) \<in> set caches. dict_get ctx' (target name) = Some [c])
    \<and> (\<forall>n. n \<notin> target ` set (dict_keys caches) \<longrightarrow> dict_get ctx' n = dict_get (dict_set (target name) [c] ctx) n)"
    using Cons.IH[OF step] Cons.prems(2,3) nc by (auto simp: inj_on_def)
  have "target name \<notin> target ` set (dict_keys caches)"
    using Cons.prems(2,3) nc by (auto simp: inj_on_def)
  then have "dict_get ctx' (target name) = Some [c]" using ih by simp
  then show ?case using ih nc by auto
qed

lemma str_replace_skip: "str_replace old new n s = str_replace old new 0 (drop n s)"
  by (induction old new n s rule: str_replace.induct) simp_all

lemma str_replace_end:
  "old \<noteq> [] \<Longrightarrow> \<forall>i < length p. \<not> prefix old (drop i (p @ old)) \<Longrightarrow> str_replace old new 0 (p @ old) = p @ new"
proof (induction p)
  case Nil
  then obtain c cs where "old = c # cs" by (cases old) auto
  then show ?case by (simp add: str_replace_skip[of _ _ "length cs"])
next
  case (Cons c p)
  have "\<not> prefix old (c # p @ old)" using Cons.prems(2)[rule_format, of 0] by simp
  moreover have "\<forall>i < length p. \<not> prefix old (drop i (p @ old))" using Cons.prems(2) by (metis Suc_mono append_Cons drop_Suc_Cons length_Cons)
  ultimately show ?case using Cons by simp
qed

text \<open>
  Layers without a cache of their own are bound to the right one: after the caches are
  initialized, a layer that shares the cache of another holds the very tensors of that layer, and in
  models with latent attention the prefill layer, which \<open>get_kv_cache_spec\<close> leaves out, is bound to the cache
  of the layer it belongs to.
\<close>
theorem layers_without_cache_are_bound:
  assumes init: "initialize_kv_cache_tensors stride_order layout bind_kv rc tensors groups attn_groups sizes ctx rcaches = Inr r"
    and shared: "distinct (dict_keys (rc_shared rc))" "\<forall>(layer, target) \<in> set (rc_shared rc). target \<notin> set (dict_keys (rc_shared rc))"
    and kind: "mk_is_deepseek_mla (rc_model rc)" "\<not> mk_is_longcat_flash (rc_model rc)"
    and names: "distinct (dict_keys (kb_caches r))" "inj_on deepseek_target (set (dict_keys (kb_caches r)))"
    and layer: "(p @ ''self_attn.mla_attn'', c) \<in> set (kb_caches r)"
      "\<forall>i < length p. \<not> prefix ''self_attn.mla_attn'' (drop i (p @ ''self_attn.mla_attn''))"
  shows "(\<forall>(layer, target) \<in> set (rc_shared rc). dict_get (kb_caches r) layer = dict_get (kb_caches r) target
        \<and> dict_get (kb_caches r) target \<noteq> None)
    \<and> dict_get (kb_context r) (p @ ''self_attn.attn'') = Some [c]
    \<and> needs_no_cache (rc_model rc) (p @ ''self_attn.attn'')"
proof -
  obtain caches ctx1 where s: "share_layers (rc_shared rc) caches = Inr (kb_caches r)"
      "bind_targets deepseek_target (kb_caches r) ctx1 = Inr (kb_context r)"
    using init kind unfolding initialize_kv_cache_tensors_def by (auto simp: bind_res_eq_Inr)
  have "deepseek_target (p @ ''self_attn.mla_attn'') = p @ ''self_attn.attn''"
    using str_replace_end[OF _ layer(2), of "''self_attn.attn''"] by (simp add: deepseek_target_def suffix_def)
  moreover have "dict_get (kb_context r) (deepseek_target (p @ ''self_attn.mla_attn'')) = Some [c]"
    using bind_targets_all[OF s(2) names(2,1)] layer(1) by fast
  moreover have "needs_no_cache (rc_model rc) (p @ ''self_attn.attn'')" using kind(1) by (simp add: needs_no_cache_def suffix_def)
  ultimately show ?thesis using share_layers_alias[OF s(1) shared] by simp
qed

section \<open>Examples\<close>

definition demo_attention :: attention_spec where
  "demo_attention = \<lparr>as_block_size = 16, as_num_kv_heads = 2, as_head_size = 8, as_dtype = Dtype 2\<rparr>"

lemma demo_attention_fields:
  "as_block_size demo_attention = 16" "as_num_kv_heads demo_attention = 2" "as_head_size demo_attention = 8"
  "as_dtype demo_attention = Dtype 2"
  by (simp_all add: demo_attention_def)

lemma demo_attention_page: "page_size_bytes (Full demo_attention) = 1024"
  by (simp add: demo_attention_def page_size_bytes_def full_page_size_def full_cache_size_def full_scale_size_def get_dtype_size_def)

lemma attention_cache_in_place_witness:
  "\<exists>c s i. reshape_layer (\<lambda>_. Some [0, 1, 3, 2, 4]) demo_mamba_config [5120, 0, 0] FlashAttention 8 (Full demo_attention)
       \<lparr>rt_cache = 0, rt_scale = 1, rt_index = 2\<rparr> = Inr (AttnCache c s i)
     \<and> vw_size c = [2, 10, 2, 8, 8] \<and> views_apart [5120, 0, 0] [c]"
proof -
  let ?t = "\<lparr>rt_cache = 0, rt_scale = 1, rt_index = 2\<rparr>" and ?l = "\<lparr>al_dtype = Dtype 2, al_cache = 1024, al_scale = 0, al_index = 0\<rparr>"
  have l: "attn_sizes (Full demo_attention) = Inr ?l"
    by (simp add: attn_sizes_def demo_attention_def full_cache_size_def full_scale_size_def get_dtype_size_def)
  have b: "holds_blocks [5120, 0, 0] ?t ?l 5" by (simp add: holds_blocks_def)
  have o: "is_order [0, 1, 3, 2, 4] 5" unfolding is_order_def by (auto simp: numeral_eq_Suc lessThan_Suc)
  show ?thesis
    using attention_cache_in_place[of "Full demo_attention" demo_attention, OF _ l _ b, of 8 2 "\<lambda>_. Some [0, 1, 3, 2, 4]" demo_mamba_config] o
    demo_attention_fields
    by (auto simp: attn_spec_of_def demo_attention_page backend_for_def get_kv_cache_shape_def get_dtype_size_def)
qed

lemma linear_states_in_place_witness:
  "\<exists>c mc' views. verify_and_update_config full_page_size full_page_size id demo_model demo_cache_config demo_mamba_config = Inr (c, mc')
     \<and> reshape_layer (\<lambda>_. None) mc' [9216, 0, 0] FlashAttention 16
         (Mamba \<lparr>mb_states = hm_mamba_states demo_model, mb_page_size_padded = cf_mamba_page_size_padded c\<rparr>)
         \<lparr>rt_cache = 0, rt_scale = 1, rt_index = 2\<rparr> = Inr (StateCache views)
     \<and> map vw_size views = [[3, 3, 40], [3, 4, 8, 16]] \<and> views_apart [9216, 0, 0] views"
proof -
  let ?c = "demo_cache_config\<lparr>cf_mamba_page_size_padded := Some 1024\<rparr>"
  let ?mc = "demo_mamba_config\<lparr>mc_attn_block_ratio := 3\<rparr>"
  let ?spec = "Mamba \<lparr>mb_states = hm_mamba_states demo_model, mb_page_size_padded = cf_mamba_page_size_padded ?c\<rparr>"
  let ?t = "\<lparr>rt_cache = 0, rt_scale = 1, rt_index = 2\<rparr>"
  have page': "page_size_bytes (Mamba \<lparr>mb_states = hm_mamba_states demo_model, mb_page_size_padded = Some 1024\<rparr>) = 1024"
    by (simp add: page_size_bytes_def mamba_page_size_def)
  then have page: "page_size_bytes ?spec = 1024" by simp
  have ok: "states_ok (page_size_bytes ?spec) (hm_mamba_states demo_model)"
    unfolding page by (auto simp: states_ok_def demo_model_def less_Suc_eq get_dtype_size_def state_bytes_def)
  have state: "mamba_page_size (hm_mamba_states demo_model) None \<noteq> 0"
    by (simp add: mamba_page_size_def demo_model_def get_dtype_size_def)
  have "\<exists>views. reshape_layer (\<lambda>_. None) ?mc [9216, 0, 0] FlashAttention 16 ?spec ?t = Inr (StateCache views)
      \<and> map vw_size views = map (\<lambda>s. mc_max_batch_size demo_mamba_config # fst s) (hm_mamba_states demo_model)
      \<and> (\<forall>v \<in> set views. vw_buffer v = rt_cache ?t) \<and> views_apart [9216, 0, 0] views"
    by (rule linear_states_in_place[OF demo_update _ _ state refl ok, of _ _ "Full demo_attention"])
      (simp_all add: demo_cache_config_def demo_mamba_config_def mamba_tensor_size_def demo_attention_page page')
  then show ?thesis using demo_update by (auto simp: demo_mamba_config_def demo_model_def)
qed

text \<open>A latent attention layer and one that shares its cache.\<close>

definition demo_mla :: mla_spec where
  "demo_mla = \<lparr>as_block_size = 16, as_num_kv_heads = 1, as_head_size = 4, as_dtype = Dtype 2, ms_cache_dtype_str = None,
     ms_index_head_dim = 0, ms_index_n_heads = 0\<rparr>"

definition demo_runner :: runner_config where
  "demo_runner = \<lparr>rc_model = \<lparr>mk_is_deepseek_mla = True, mk_is_longcat_flash = False, mk_model_type = ''deepseek_v3''\<rparr>,
     rc_mamba = \<lparr>mc_split_page_size = False, mc_attn_block_ratio = 1, mc_max_batch_size = 0\<rparr>, rc_runner_only = {},
     rc_drafter = None, rc_shared = [(''b'', ''a.self_attn.mla_attn'')]\<rparr>"

lemma layers_without_cache_are_bound_witness:
  "\<exists>r c. initialize_kv_cache_tensors (\<lambda>_. None) id (\<lambda>caches n st. Inr st) demo_runner
       [\<lparr>kt_size = 256, kt_shared_by = [''a.self_attn.mla_attn'']\<rparr>]
       [\<lparr>kg_layer_names = [''a.self_attn.mla_attn''], kg_uniform = None, sg_spec = MLA demo_mla\<rparr>]
       [\<lparr>ag_spec = MLA demo_mla, ag_backend = FlashMLA, ag_kv_cache_group_id = 0, ag_layer_names = [''a.self_attn.mla_attn'']\<rparr>]
       [8] [(''a.self_attn.attn'', []), (''b'', [])] [] = Inr r
     \<and> dict_get (kb_context r) ''a.self_attn.attn'' = Some [c] \<and> dict_get (kb_caches r) ''b'' = Some c"
proof -
  let ?name = "''a.self_attn.mla_attn''"
  let ?tensors = "[\<lparr>kt_size = 256, kt_shared_by = [?name]\<rparr>]"
  let ?groups = "[\<lparr>kg_layer_names = [?name], kg_uniform = None, sg_spec = MLA demo_mla\<rparr>]"
  let ?attn = "[\<lparr>ag_spec = MLA demo_mla, ag_backend = FlashMLA, ag_kv_cache_group_id = 0, ag_layer_names = [?name]\<rparr>]"
  let ?bind = "\<lambda>(caches :: kv_caches) (n :: nat) st. Inr st"
  have alloc: "allocate_kv_cache_tensors (rc_mamba demo_runner) {} ?tensors ?groups
      = Inr ([256, 0, 0], [(?name, \<lparr>rt_cache = 0, rt_scale = 1, rt_index = 2\<rparr>)])"
    by (simp add: allocate_kv_cache_tensors_def page_group_def allocate_tensor_def page_size_bytes_def mla_page_size_def
        mla_cache_size_def mla_scale_size_def mla_index_cache_size_def demo_mla_def attn_sizes_def torch_zeros_def
        add_layer_def demo_runner_def get_dtype_size_def Let_def)
  have reshape: "\<exists>c. reshape_kv_cache_tensors (\<lambda>_. None) id (rc_mamba demo_runner) [256, 0, 0]
      [(?name, \<lparr>rt_cache = 0, rt_scale = 1, rt_index = 2\<rparr>)] {} [8] ?attn = Inr [(?name, c)]"
    by (simp add: reshape_kv_cache_tensors_def reshape_group_def reshape_one_def dict_at_def reshape_layer_def page_size_bytes_def
        mla_page_size_def mla_cache_size_def mla_scale_size_def mla_index_cache_size_def demo_mla_def get_dtype_size_def Let_def
        reshape_attention_def attention_spec.truncate_def get_kv_cache_shape_def stride_order_of_def ordered_view_def view_as_def
        demo_runner_def upt_rec)
  then obtain c where c: "reshape_kv_cache_tensors (\<lambda>_. None) id (rc_mamba demo_runner) [256, 0, 0]
      [(?name, \<lparr>rt_cache = 0, rt_scale = 1, rt_index = 2\<rparr>)] {} [8] ?attn = Inr [(?name, c)]" by blast
  have share: "share_layers (rc_shared demo_runner) [(?name, c)] = Inr [(?name, c), (''b'', c)]"
    by (simp add: share_layers_def demo_runner_def dict_at_def)
  have target: "deepseek_target ?name = ''a.self_attn.attn''" "deepseek_target ''b'' = ''b''"
    by code_simp+
  have "\<exists>r. initialize_kv_cache_tensors (\<lambda>_. None) id ?bind demo_runner ?tensors ?groups ?attn [8]
      [(''a.self_attn.attn'', []), (''b'', [])] [] = Inr r \<and> kb_caches r = [(?name, c), (''b'', c)]"
    using alloc c share target
    by (simp add: initialize_kv_cache_tensors_def bind_targets_def demo_runner_def)
  then obtain r where r: "initialize_kv_cache_tensors (\<lambda>_. None) id ?bind demo_runner ?tensors ?groups ?attn [8]
      [(''a.self_attn.attn'', []), (''b'', [])] [] = Inr r" "kb_caches r = [(?name, c), (''b'', c)]" by blast
  have occ: "\<forall>i < length ''a.''. \<not> prefix ''self_attn.mla_attn'' (drop i (''a.'' @ ''self_attn.mla_attn''))"
    by (simp add: less_Suc_eq)
  show ?thesis
    using layers_without_cache_are_bound[OF r(1), of "''a.''" c] occ r target by (auto simp: demo_runner_def inj_on_def)
qed

end
