(* ===== verification/StorageLayout.thy ===== *)
theory StorageLayout
  imports SharedStorage KvLayers
begin

text \<open>
  The shared storage connector on the caches of the attention backends: which elements of a layer
  its slots stand for. The connector reshapes a layer into rows as if a block were the dimension
  before the tokens; the backends put the heads there, so that a row is all tokens of a block for one
  head (or, for the latent cache, a whole block) and not one token.
\<close>

section \<open>Elements and rows\<close>

















section \<open>What a load moves\<close>




end
