(* ===== verification/EngineCore.thy ===== *)
theory EngineCore
  imports Prelude
begin

text \<open>
  The engine core (\<^verbatim>\<open>vllm_mlu/v1/engine/core.py\<close>): a step of the engine, with and without
  the queue of batches in flight, and the loop that takes client requests before a step. The
  scheduler, the executor and the futures are seen through the methods the engine calls, which are
  fields of the record \<open>engine_env\<close>; the scheduler of the repository is modelled in the scheduler
  theories.
\<close>

section \<open>Interfaces and state\<close>

record ('s, 'o, 'g, 'w, 'f, 'm, 'd, 'c) engine_env =
  en_has_requests :: "'s \<Rightarrow> bool"
  en_schedule :: "'s \<Rightarrow> ('o \<times> 's) res"
  en_grammar_bitmask :: "'s \<Rightarrow> 'o \<Rightarrow> 'g"
  en_update_from_output :: "'o \<Rightarrow> 'm \<Rightarrow> 's \<Rightarrow> ((nat, 'c) dict \<times> 's) res"
  en_set_draft_tokens :: "'d \<Rightarrow> 's \<Rightarrow> 's"
  en_total_num_scheduled_tokens :: "'o \<Rightarrow> int"
  en_pending_structured_output_tokens :: "'o \<Rightarrow> bool"
  en_execute_model :: "'o \<Rightarrow> 'w \<Rightarrow> 'f \<times> 'w"
  en_sample_tokens :: "'g \<Rightarrow> 'w \<Rightarrow> 'm \<times> 'w"
  en_sample_tokens_future :: "'g \<Rightarrow> 'w \<Rightarrow> 'f \<times> 'w"
  en_done :: "'f \<Rightarrow> 'w \<Rightarrow> bool"
  en_result :: "'f \<Rightarrow> 'w \<Rightarrow> ('m option \<times> 'w) res"
  en_take_draft_tokens :: "'w \<Rightarrow> 'd \<times> 'w"
  en_cost_time :: "'w \<Rightarrow> int"
  en_model_exec_latency :: "'w \<Rightarrow> int"
  en_mm_encoder_latency :: "'w \<Rightarrow> int option"

record engine_config =
  ec_batch_queue_size :: nat
  ec_ec_producer :: bool
  ec_is_pooling_model :: bool
  ec_use_spec_decode :: bool
  ec_kv_role :: "string option"
  ec_latency_debug :: bool
  ec_latency_debug_with_device :: bool

text \<open>The state. Index 0 of the batch queue is its left end, where batches enter.\<close>

record ('s, 'o, 'w, 'f) engine =
  g_scheduler :: 's
  g_executor :: 'w
  g_batch_queue :: "('f \<times> 'o) list option"
  g_step_latency :: "int list"
  g_model_exec_latency :: "int list"
  g_mm_encoder_latency :: "int list"

text \<open>A queue is created for more than one batch in flight only.\<close>

definition init_batch_queue :: "engine_config \<Rightarrow> ('f \<times> 'o) list option" where
  "init_batch_queue cfg = (if 1 < ec_batch_queue_size cfg then Some [] else None)"

text \<open>\<^verbatim>\<open>deque(maxlen=n).appendleft\<close>: a full deque loses its right end.\<close>

definition append_left :: "nat \<Rightarrow> 'a \<Rightarrow> 'a list \<Rightarrow> 'a list" where
  "append_left maxlen x q = take maxlen (x # q)"

section \<open>A step without the queue\<close>

definition takes_drafts :: "engine_config \<Rightarrow> bool" where
  "takes_drafts cfg \<longleftrightarrow> ec_use_spec_decode cfg \<and> ec_kv_role cfg = Some ''kv_producer''"

text \<open>A disaggregated prefill hands its draft tokens to the scheduler before the update.\<close>

definition hand_drafts ::
  "('s, 'o, 'g, 'w, 'f, 'm, 'd, 'c) engine_env \<Rightarrow> engine_config \<Rightarrow> ('s, 'o, 'w, 'f) engine \<Rightarrow> ('s, 'o, 'w, 'f) engine" where
  "hand_drafts env cfg g =
     (if takes_drafts cfg
      then let (d, w) = en_take_draft_tokens env (g_executor g)
        in g\<lparr>g_executor := w, g_scheduler := en_set_draft_tokens env d (g_scheduler g)\<rparr>
      else g)"

definition record_latency ::
  "('s, 'o, 'g, 'w, 'f, 'm, 'd, 'c) engine_env \<Rightarrow> engine_config \<Rightarrow> int \<Rightarrow> bool
    \<Rightarrow> ('s, 'o, 'w, 'f) engine \<Rightarrow> ('s, 'o, 'w, 'f) engine" where
  "record_latency env cfg step_start has_sched_reqs g =
     (let g1 = (if ec_latency_debug cfg \<and> has_sched_reqs
            then g\<lparr>g_step_latency := g_step_latency g @ [en_cost_time env (g_executor g) - step_start]\<rparr> else g)
      in if ec_latency_debug_with_device cfg \<and> has_sched_reqs
         then let g2 = g1\<lparr>g_model_exec_latency := g_model_exec_latency g1 @ [en_model_exec_latency env (g_executor g1)]\<rparr>
           in case en_mm_encoder_latency env (g_executor g2) of
                None \<Rightarrow> g2
              | Some l \<Rightarrow> if l = 0 then g2 else g2\<lparr>g_mm_encoder_latency := g_mm_encoder_latency g2 @ [l]\<rparr>
         else g1)"

definition engine_step ::
  "('s, 'o, 'g, 'w, 'f, 'm, 'd, 'c) engine_env \<Rightarrow> engine_config \<Rightarrow> ('s, 'o, 'w, 'f) engine
    \<Rightarrow> (((nat, 'c) dict \<times> bool) \<times> ('s, 'o, 'w, 'f) engine) res" where
  "engine_step env cfg g =
     (if \<not> en_has_requests env (g_scheduler g) then Inr (([], False), g)
      else let step_start = en_cost_time env (g_executor g) in
      bind_res (en_schedule env (g_scheduler g)) (\<lambda>(out, s1).
      let (future, w1) = en_execute_model env out (g_executor g);
          grammar_output = en_grammar_bitmask env s1 out
      in bind_res (en_result env future w1) (\<lambda>(model_output, w2).
      let (model_output, w3) = (case model_output of
            Some m \<Rightarrow> (m, w2) | None \<Rightarrow> en_sample_tokens env grammar_output w2);
          g1 = hand_drafts env cfg (g\<lparr>g_scheduler := s1, g_executor := w3\<rparr>)
      in bind_res (en_update_from_output env out model_output (g_scheduler g1)) (\<lambda>(outputs, s2).
      let has_sched_reqs = 0 < en_total_num_scheduled_tokens env out
      in Inr ((outputs, has_sched_reqs), record_latency env cfg step_start has_sched_reqs (g1\<lparr>g_scheduler := s2\<rparr>))))))"

section \<open>A step with the queue\<close>

text \<open>
  Scheduling a batch: the new state, whether the model executes, and the batch itself when its
  sampling is deferred, because it needs tokens a batch in flight has not produced.
\<close>

definition schedule_batch ::
  "('s, 'o, 'g, 'w, 'f, 'm, 'd, 'c) engine_env \<Rightarrow> engine_config \<Rightarrow> ('f \<times> 'o) list \<Rightarrow> ('s, 'o, 'w, 'f) engine
    \<Rightarrow> ((bool \<times> 'o option \<times> ('f \<times> 'o) list) \<times> ('s, 'o, 'w, 'f) engine) res" where
  "schedule_batch env cfg q g =
     bind_res (en_schedule env (g_scheduler g)) (\<lambda>(out, s1).
     let (exec_future, w1) = en_execute_model env out (g_executor g);
         model_executed = (\<not> ec_ec_producer cfg \<and> 0 < en_total_num_scheduled_tokens env out);
         g1 = g\<lparr>g_scheduler := s1, g_executor := w1\<rparr>
     in if ec_is_pooling_model cfg \<or> \<not> model_executed
        then Inr ((model_executed, None, append_left (ec_batch_queue_size cfg) (exec_future, out) q), g1)
        else if \<not> en_pending_structured_output_tokens env out
        then let (future, w2) = en_sample_tokens_future env (en_grammar_bitmask env s1 out) w1
          in Inr ((model_executed, None, append_left (ec_batch_queue_size cfg) (future, out) q), g1\<lparr>g_executor := w2\<rparr>)
        else Inr ((model_executed, Some out, q), g1))"

text \<open>
  Taking the oldest batch: its result updates the scheduler, and a deferred batch is sampled after
  that. Popping an empty queue raises, and so does an update without a model output.
\<close>

definition finish_batch ::
  "('s, 'o, 'g, 'w, 'f, 'm, 'd, 'c) engine_env \<Rightarrow> engine_config \<Rightarrow> bool \<Rightarrow> 'o option \<Rightarrow> ('f \<times> 'o) list
    \<Rightarrow> ('s, 'o, 'w, 'f) engine \<Rightarrow> (((nat, 'c) dict option \<times> bool) \<times> ('s, 'o, 'w, 'f) engine) res" where
  "finish_batch env cfg model_executed deferred q g =
     (if q = [] then Inl IndexError
      else let (future, out) = last q; q1 = butlast q in
      bind_res (en_result env future (g_executor g)) (\<lambda>(model_output, w1).
      let g1 = hand_drafts env cfg (g\<lparr>g_executor := w1\<rparr>) in
      case model_output of None \<Rightarrow> Inl AttributeError | Some m \<Rightarrow>
      bind_res (en_update_from_output env out m (g_scheduler g1)) (\<lambda>(outputs, s2).
      let g2 = g1\<lparr>g_scheduler := s2\<rparr> in
      case deferred of
        None \<Rightarrow> Inr ((Some outputs, model_executed), g2\<lparr>g_batch_queue := Some q1\<rparr>)
      | Some d \<Rightarrow>
          (let (future', w2) = en_sample_tokens_future env (en_grammar_bitmask env s2 d) (g_executor g2)
           in Inr ((Some outputs, model_executed),
                g2\<lparr>g_executor := w2, g_batch_queue := Some (append_left (ec_batch_queue_size cfg) (future', d) q1)\<rparr>)))))"

definition step_with_batch_queue ::
  "('s, 'o, 'g, 'w, 'f, 'm, 'd, 'c) engine_env \<Rightarrow> engine_config \<Rightarrow> ('s, 'o, 'w, 'f) engine
    \<Rightarrow> (((nat, 'c) dict option \<times> bool) \<times> ('s, 'o, 'w, 'f) engine) res" where
  "step_with_batch_queue env cfg g =
     (case g_batch_queue g of
        None \<Rightarrow> Inl AssertionError
      | Some q \<Rightarrow>
          require (length q < ec_batch_queue_size cfg) AssertionError
          (if en_has_requests env (g_scheduler g)
           then bind_res (schedule_batch env cfg q g) (\<lambda>((model_executed, deferred, q1), g1).
             if deferred = None \<and> model_executed \<and> length q1 < ec_batch_queue_size cfg
                \<and> \<not> en_done env (fst (last q1)) (g_executor g1)
             then Inr ((None, True), g1\<lparr>g_batch_queue := Some q1\<rparr>)
             else finish_batch env cfg model_executed deferred q1 g1)
           else if q = [] then Inr ((None, False), g)
           else finish_batch env cfg False None q g))"

text \<open>\<^verbatim>\<open>step_fn\<close>; the outputs of a step without the queue are never \<^verbatim>\<open>None\<close>.\<close>

definition step_fn ::
  "('s, 'o, 'g, 'w, 'f, 'm, 'd, 'c) engine_env \<Rightarrow> engine_config \<Rightarrow> ('s, 'o, 'w, 'f) engine
    \<Rightarrow> (((nat, 'c) dict option \<times> bool) \<times> ('s, 'o, 'w, 'f) engine) res" where
  "step_fn env cfg g =
     (case g_batch_queue g of
        None \<Rightarrow> bind_res (engine_step env cfg g) (\<lambda>((outputs, b), g'). Inr ((Some outputs, b), g'))
      | Some _ \<Rightarrow> step_with_batch_queue env cfg g)"

text \<open>Several steps in a row, with what each returned.\<close>

fun run_steps ::
  "nat \<Rightarrow> ('s, 'o, 'g, 'w, 'f, 'm, 'd, 'c) engine_env \<Rightarrow> engine_config \<Rightarrow> ('s, 'o, 'w, 'f) engine
    \<Rightarrow> (((nat, 'c) dict option \<times> bool) list \<times> ('s, 'o, 'w, 'f) engine) res" where
  "run_steps 0 env cfg g = Inr ([], g)"
| "run_steps (Suc n) env cfg g =
     bind_res (step_with_batch_queue env cfg g) (\<lambda>(out, g1).
     bind_res (run_steps n env cfg g1) (\<lambda>(outs, g2). Inr (out # outs, g2)))"

section \<open>Client requests\<close>

text \<open>
  What the engine sees of its input queue, observation by observation: a request, or \<open>None\<close> for an
  empty queue. A blocking \<^verbatim>\<open>get\<close> skips empty observations.
\<close>

record ('q, 'e) input_env =
  in_engines_running :: "'e \<Rightarrow> bool"
  in_has_requests :: "'e \<Rightarrow> bool"
  in_batch_queue :: "'e \<Rightarrow> bool"
  in_handle_request :: "'q \<Rightarrow> 'e \<Rightarrow> 'e"
  in_response_remote_alloc :: "'e \<Rightarrow> 'e"
  in_kv_consumer :: bool

definition has_work :: "('q, 'e) input_env \<Rightarrow> 'e \<Rightarrow> bool" where
  "has_work env e \<longleftrightarrow> in_engines_running env e \<or> in_has_requests env e \<or> in_batch_queue env e"

fun wait_for_work :: "('q, 'e) input_env \<Rightarrow> 'q option list \<Rightarrow> 'e \<Rightarrow> ('e \<times> 'q option list) res" where
  "wait_for_work env [] e = (if has_work env e then Inr (e, []) else Inl NonTermination)"
| "wait_for_work env (o' # os) e =
     (if has_work env e then Inr (e, o' # os)
      else let e1 = (if in_kv_consumer env then in_response_remote_alloc env e else e)
        in case o' of None \<Rightarrow> wait_for_work env os (if in_kv_consumer env then e1 else e)
           | Some r \<Rightarrow> wait_for_work env os (in_handle_request env r e1))"

fun drain_input :: "('q, 'e) input_env \<Rightarrow> 'q option list \<Rightarrow> 'e \<Rightarrow> 'e \<times> 'q option list" where
  "drain_input env (Some r # os) e = drain_input env os (in_handle_request env r e)"
| "drain_input env (None # os) e = (e, os)"
| "drain_input env [] e = (e, [])"

definition process_input_queue :: "('q, 'e) input_env \<Rightarrow> 'q option list \<Rightarrow> 'e \<Rightarrow> ('e \<times> 'q option list) res" where
  "process_input_queue env os e =
     bind_res (wait_for_work env os e) (\<lambda>(e1, os1).
     Inr (drain_input env os1 (if in_kv_consumer env then in_response_remote_alloc env e1 else e1)))"

section \<open>The log of a run\<close>

text \<open>
  The same engine over a scheduler that also notes which batches it scheduled and which it was updated
  with.
\<close>

definition logged ::
  "('s, 'o, 'g, 'w, 'f, 'm, 'd, 'c) engine_env \<Rightarrow> ('s \<times> 'o list \<times> 'o list, 'o, 'g, 'w, 'f, 'm, 'd, 'c) engine_env" where
  "logged env =
     \<lparr>en_has_requests = (\<lambda>(s, _). en_has_requests env s),
      en_schedule = (\<lambda>(s, a, b). bind_res (en_schedule env s) (\<lambda>(out, s'). Inr (out, s', a @ [out], b))),
      en_grammar_bitmask = (\<lambda>(s, _). en_grammar_bitmask env s),
      en_update_from_output = (\<lambda>out m (s, a, b).
        bind_res (en_update_from_output env out m s) (\<lambda>(outputs, s'). Inr (outputs, s', a, b @ [out]))),
      en_set_draft_tokens = (\<lambda>d (s, l). (en_set_draft_tokens env d s, l)),
      en_total_num_scheduled_tokens = en_total_num_scheduled_tokens env,
      en_pending_structured_output_tokens = en_pending_structured_output_tokens env,
      en_execute_model = en_execute_model env, en_sample_tokens = en_sample_tokens env,
      en_sample_tokens_future = en_sample_tokens_future env, en_done = en_done env, en_result = en_result env,
      en_take_draft_tokens = en_take_draft_tokens env, en_cost_time = en_cost_time env,
      en_model_exec_latency = en_model_exec_latency env, en_mm_encoder_latency = en_mm_encoder_latency env\<rparr>"

definition with_log ::
  "('s, 'o, 'w, 'f) engine \<Rightarrow> 'o list \<Rightarrow> 'o list \<Rightarrow> ('s \<times> 'o list \<times> 'o list, 'o, 'w, 'f) engine" where
  "with_log g a b =
     \<lparr>g_scheduler = (g_scheduler g, a, b), g_executor = g_executor g, g_batch_queue = g_batch_queue g,
      g_step_latency = g_step_latency g, g_model_exec_latency = g_model_exec_latency g,
      g_mm_encoder_latency = g_mm_encoder_latency g\<rparr>"

lemma logged_simps [simp]:
  "en_has_requests (logged env) (s, l) = en_has_requests env s"
  "en_schedule (logged env) (s, a, b) = bind_res (en_schedule env s) (\<lambda>(out, s'). Inr (out, s', a @ [out], b))"
  "en_grammar_bitmask (logged env) (s, l) = en_grammar_bitmask env s"
  "en_update_from_output (logged env) out m (s, a, b) =
     bind_res (en_update_from_output env out m s) (\<lambda>(outputs, s'). Inr (outputs, s', a, b @ [out]))"
  "en_set_draft_tokens (logged env) d (s, l) = (en_set_draft_tokens env d s, l)"
  "en_total_num_scheduled_tokens (logged env) = en_total_num_scheduled_tokens env"
  "en_pending_structured_output_tokens (logged env) = en_pending_structured_output_tokens env"
  "en_execute_model (logged env) = en_execute_model env"
  "en_sample_tokens_future (logged env) = en_sample_tokens_future env"
  "en_done (logged env) = en_done env" "en_result (logged env) = en_result env"
  "en_take_draft_tokens (logged env) = en_take_draft_tokens env"
  by (simp_all add: logged_def)

lemma with_log_simps [simp]:
  "g_scheduler (with_log g a b) = (g_scheduler g, a, b)" "g_executor (with_log g a b) = g_executor g"
  "g_batch_queue (with_log g a b) = g_batch_queue g"
  "(with_log g a b)\<lparr>g_executor := w\<rparr> = with_log (g\<lparr>g_executor := w\<rparr>) a b"
  "(with_log g a b)\<lparr>g_batch_queue := q\<rparr> = with_log (g\<lparr>g_batch_queue := q\<rparr>) a b"
  "(with_log g a b)\<lparr>g_scheduler := (s, a', b')\<rparr> = with_log (g\<lparr>g_scheduler := s\<rparr>) a' b'"
  by (simp_all add: with_log_def)

lemma hand_drafts_log [simp]: "hand_drafts (logged env) cfg (with_log g a b) = with_log (hand_drafts env cfg g) a b"
  by (simp add: hand_drafts_def split: prod.split)

lemma hand_drafts_queue [simp]: "g_batch_queue (hand_drafts env cfg g) = g_batch_queue g"
  by (simp add: hand_drafts_def split: prod.split)

lemma append_left_room: "length q < n \<Longrightarrow> append_left n x q = x # q"
  by (simp add: append_left_def)

lemma schedule_batch_log:
  assumes "schedule_batch env cfg q g = Inr ((me, df, q1), g1)" "length q < ec_batch_queue_size cfg"
  obtains out where "schedule_batch (logged env) cfg q (with_log g a b) = Inr ((me, df, q1), with_log g1 (a @ [out]) b)"
    "df = None \<and> (\<exists>f. q1 = (f, out) # q) \<or> df = Some out \<and> q1 = q"
  using assms
  by (fastforce simp: schedule_batch_def bind_res_eq_Inr append_left_room Let_def split: prod.splits if_splits)

lemma finish_batch_log:
  assumes "finish_batch env cfg me df q g = Inr (r, g')"
    and "length q \<le> ec_batch_queue_size cfg"
  shows "q \<noteq> [] \<and> fst r \<noteq> None \<and> snd r = me \<and> (\<exists>q'. g_batch_queue g' = Some q'
    \<and> finish_batch (logged env) cfg me df q (with_log g a b) = Inr (r, with_log g' a (b @ [snd (last q)]))
    \<and> (df = None \<and> q' = butlast q \<or> (\<exists>d f. df = Some d \<and> q' = (f, d) # butlast q)))"
proof -
  have q: "q \<noteq> []" using assms(1) by (auto simp: finish_batch_def)
  obtain fut out where lst: "last q = (fut, out)" by (cases "last q")
  obtain mo w1 where res: "en_result env fut (g_executor g) = Inr (mo, w1)"
    using assms(1) q lst by (cases "en_result env fut (g_executor g)") (auto simp: finish_batch_def)
  let ?g1 = "hand_drafts env cfg (g\<lparr>g_executor := w1\<rparr>)"
  obtain m where m: "mo = Some m"
    using assms(1) q lst res by (cases mo) (auto simp: finish_batch_def)
  obtain outputs s2 where upd: "en_update_from_output env out m (g_scheduler ?g1) = Inr (outputs, s2)"
    using assms(1) q lst res m
    by (cases "en_update_from_output env out m (g_scheduler ?g1)") (auto simp: finish_batch_def)
  have room: "length (butlast q) < ec_batch_queue_size cfg" using assms(2) q by (cases q) auto
  show ?thesis
  proof (cases df)
    case None
    then show ?thesis using assms(1) q lst res m upd by (auto simp: finish_batch_def)
  next
    case (Some d)
    obtain f w2 where f: "en_sample_tokens_future env (en_grammar_bitmask env s2 d) (g_executor ?g1) = (f, w2)"
      by fastforce
    then show ?thesis using assms(1) q lst res m upd Some append_left_room[OF room, of "(f, d)"]
      by (auto simp: finish_batch_def)
  qed
qed

text \<open>What a step does to the log: the batches in flight are those scheduled and not yet processed.\<close>

definition in_flight :: "'o list \<Rightarrow> 'o list \<Rightarrow> ('f \<times> 'o) list \<Rightarrow> bool" where
  "in_flight scheduled processed q \<longleftrightarrow> scheduled = processed @ rev (map snd q)"

lemma step_log:
  assumes "step_with_batch_queue env cfg g = Inr (r, g')" "g_batch_queue g = Some q" "in_flight a b q"
  obtains q' a' b' where
    "step_with_batch_queue (logged env) cfg (with_log g a b) = Inr (r, with_log g' a' b')"
    "g_batch_queue g' = Some q'" "length q' < ec_batch_queue_size cfg" "in_flight a' b' q'"
    "fst r = None \<longrightarrow> snd r \<longrightarrow> length q' = Suc (length q)"
    "fst r = None \<longrightarrow> \<not> snd r \<longrightarrow> q = [] \<and> \<not> en_has_requests env (g_scheduler g)"
proof -
  note result = that
  have size: "length q < ec_batch_queue_size cfg"
    using assms(1,2) by (simp add: step_with_batch_queue_def require_eq_Inr)
  have popped: "thesis"
    if fin: "finish_batch env cfg me df q1 g1 = Inr (r, g')" and len: "length q1 \<le> ec_batch_queue_size cfg"
      and stp: "step_with_batch_queue (logged env) cfg (with_log g a b)
        = finish_batch (logged env) cfg me df q1 (with_log g1 a1 b)"
      and fl: "in_flight a1 b ((case df of None \<Rightarrow> [] | Some d \<Rightarrow> [(undefined, d)]) @ q1)"
      and df: "df = None \<or> length q1 < ec_batch_queue_size cfg" for me df q1 g1 a1
  proof -
    obtain q' where q': "q1 \<noteq> []" "fst r \<noteq> None" "g_batch_queue g' = Some q'"
      "finish_batch (logged env) cfg me df q1 (with_log g1 a1 b) = Inr (r, with_log g' a1 (b @ [snd (last q1)]))"
      "df = None \<and> q' = butlast q1 \<or> (\<exists>d f. df = Some d \<and> q' = (f, d) # butlast q1)"
      using finish_batch_log[OF fin len, of a1 b] by blast
    have "rev (map snd q1) = snd (last q1) # rev (map snd (butlast q1))"
      using q'(1) by (cases q1 rule: rev_cases) auto
    then have "in_flight a1 (b @ [snd (last q1)]) q'" using fl q'(5) by (auto simp: in_flight_def)
    moreover have "length q' < ec_batch_queue_size cfg" using q'(1,5) len df by (cases q1) auto
    ultimately show thesis using q'(2-4) stp by (intro result[of a1 "b @ [snd (last q1)]" q']) auto
  qed
  show thesis
  proof (cases "en_has_requests env (g_scheduler g)")
    case True
    obtain me df q1 g1 where sb: "schedule_batch env cfg q g = Inr ((me, df, q1), g1)"
      using assms(1,2) size True by (cases "schedule_batch env cfg q g") (auto simp: step_with_batch_queue_def)
    obtain out where out: "schedule_batch (logged env) cfg q (with_log g a b) = Inr ((me, df, q1), with_log g1 (a @ [out]) b)"
      "df = None \<and> (\<exists>f. q1 = (f, out) # q) \<or> df = Some out \<and> q1 = q"
      by (rule schedule_batch_log[OF sb size])
    let ?quick = "df = None \<and> me \<and> length q1 < ec_batch_queue_size cfg \<and> \<not> en_done env (fst (last q1)) (g_executor g1)"
    show thesis
    proof (cases ?quick)
      case quick: True
      then obtain f where q1: "q1 = (f, out) # q" using out(2) by auto
      have r: "r = (None, True)" "g' = g1\<lparr>g_batch_queue := Some q1\<rparr>"
        using assms(1,2) size True sb quick by (auto simp: step_with_batch_queue_def)
      show thesis
        by (rule that[of "a @ [out]" b q1])
          (use assms(2,3) size True out(1) quick r q1 in \<open>simp_all add: step_with_batch_queue_def in_flight_def\<close>)
    next
      case False
      then have fin: "finish_batch env cfg me df q1 g1 = Inr (r, g')"
        using assms(1,2) size True sb by (auto simp: step_with_batch_queue_def)
      have stp: "step_with_batch_queue (logged env) cfg (with_log g a b)
          = finish_batch (logged env) cfg me df q1 (with_log g1 (a @ [out]) b)"
        using assms(2) size True out(1) False by (auto simp: step_with_batch_queue_def)
      show thesis
        by (rule popped[OF fin _ stp]) (use out(2) assms(3) size in \<open>auto simp: in_flight_def\<close>)
    qed
  next
    case False
    show thesis
    proof (cases "q = []")
      case True
      then have "r = (None, False)" "g' = g"
        using assms(1,2) size False by (auto simp: step_with_batch_queue_def)
      then show thesis
        by (intro that[of a b q]) (use assms(2,3) size True False in \<open>auto simp: step_with_batch_queue_def\<close>)
    next
      case q: False
      then have fin: "finish_batch env cfg False None q g = Inr (r, g')"
        using assms(1,2) size False by (auto simp: step_with_batch_queue_def)
      have stp: "step_with_batch_queue (logged env) cfg (with_log g a b)
          = finish_batch (logged env) cfg False None q (with_log g a b)"
        using assms(2) size False q by (auto simp: step_with_batch_queue_def)
      show thesis by (rule popped[OF fin _ stp]) (use assms(3) size in auto)
    qed
  qed
qed

section \<open>Pipelining\<close>

lemma run_logged:
  assumes "run_steps n env cfg g = Inr (outs, g')" "g_batch_queue g = Some q" "length q < ec_batch_queue_size cfg" "in_flight a b q"
  shows "\<exists>q' a' b'. g_batch_queue g' = Some q' \<and> length q' < ec_batch_queue_size cfg
      \<and> run_steps n (logged env) cfg (with_log g a b) = Inr (outs, with_log g' a' b') \<and> in_flight a' b' q'"
  using assms
proof (induction n arbitrary: g q a b outs)
  case (Suc n)
  obtain r g1 outs1 where st: "step_with_batch_queue env cfg g = Inr (r, g1)"
    "run_steps n env cfg g1 = Inr (outs1, g')" "outs = r # outs1"
    using Suc.prems(1) by (auto simp: bind_res_eq_Inr)
  show ?case
    by (rule step_log[OF st(1) Suc.prems(2,4)]) (use Suc.IH[OF st(2)] st(3) in fastforce)
qed auto

text \<open>
  C5. The queue of batches in flight is a lossless first in first out pipeline: in every run from an
  empty queue, noting the batches changes nothing, the batches processed are exactly the oldest of
  those scheduled, in their order, the others are in flight in the queue, newest first, and the queue
  is never full between steps, so that the assertion at the start of a step holds and no batch is
  dropped by the bounded deque.
\<close>
theorem batch_queue_pipeline:
  assumes "run_steps n env cfg g = Inr (outs, g')" "g_batch_queue g = Some []" "1 < ec_batch_queue_size cfg"
  shows "\<exists>q scheduled processed. g_batch_queue g' = Some q \<and> length q < ec_batch_queue_size cfg
    \<and> run_steps n (logged env) cfg (with_log g [] []) = Inr (outs, with_log g' scheduled processed)
    \<and> scheduled = processed @ rev (map snd q)"
  using run_logged[OF assms(1,2), of "[]" "[]"] assms(3) by (auto simp: in_flight_def)

text \<open>
  C14. The engine makes progress: of as many steps in a row as the queue has places, one processes the
  result of a batch, or finds the engine idle without requests and without batches in flight.
\<close>
theorem engine_progress:
  assumes "run_steps (ec_batch_queue_size cfg) env cfg g = Inr (outs, g')"
    and "g_batch_queue g = Some q" "length q < ec_batch_queue_size cfg" "0 < ec_batch_queue_size cfg"
  shows "\<exists>out \<in> set outs. fst out \<noteq> None \<or> snd out = False"
proof (rule ccontr)
  assume none: "\<not> ?thesis"
  have "length q + n < ec_batch_queue_size cfg"
    if "run_steps n env cfg g = Inr (outs, g')" "g_batch_queue g = Some q" "length q < ec_batch_queue_size cfg"
      "\<forall>out \<in> set outs. fst out = None \<and> snd out" for n g q outs
    using that
  proof (induction n arbitrary: g q outs)
    case (Suc n)
    obtain r g1 outs1 where st: "step_with_batch_queue env cfg g = Inr (r, g1)"
      "run_steps n env cfg g1 = Inr (outs1, g')" "outs = r # outs1"
      using Suc.prems(1) by (auto simp: bind_res_eq_Inr)
    have "in_flight (rev (map snd q)) [] q" by (simp add: in_flight_def)
    from step_log[OF st(1) Suc.prems(2) this] obtain q' where q': "g_batch_queue g1 = Some q'"
      "length q' < ec_batch_queue_size cfg" "length q' = Suc (length q)"
      using Suc.prems(4) st(3) by (metis list.set_intros(1))
    have "length q' + n < ec_batch_queue_size cfg"
      by (rule Suc.IH[OF st(2) q'(1,2)]) (use Suc.prems(4) st(3) in auto)
    then show ?case using q'(3) by simp
  qed simp
  from this[OF assms(1-3)] none show False by auto
qed

section \<open>Draining\<close>

text \<open>
  What the engine does with its scheduler when no client request comes: it schedules while there are requests
  and room, updates with the oldest batch in flight, with any result, and hands drafts over. The number counts
  the updates, the list has the batches in flight, oldest first.
\<close>

inductive scheduler_runs ::
  "('s, 'o, 'g, 'w, 'f, 'm, 'd, 'c) engine_env \<Rightarrow> nat \<Rightarrow> 's \<Rightarrow> 'o list \<Rightarrow> nat \<Rightarrow> 's \<Rightarrow> 'o list \<Rightarrow> bool"
  for env places s0 fl0 where
  start: "scheduler_runs env places s0 fl0 0 s0 fl0"
| schedule: "scheduler_runs env places s0 fl0 k s fl \<Longrightarrow> en_has_requests env s \<Longrightarrow> length fl < places
    \<Longrightarrow> en_schedule env s = Inr (out, s') \<Longrightarrow> scheduler_runs env places s0 fl0 k s' (fl @ [out])"
| update: "scheduler_runs env places s0 fl0 k s (out # fl) \<Longrightarrow> en_update_from_output env out m s = Inr (outputs, s')
    \<Longrightarrow> scheduler_runs env places s0 fl0 (Suc k) s' fl"
| drafts: "scheduler_runs env places s0 fl0 k s fl \<Longrightarrow> scheduler_runs env places s0 fl0 k (en_set_draft_tokens env d s) fl"

lemma hand_drafts_runs:
  "scheduler_runs env n s0 fl0 k (g_scheduler g) fl \<Longrightarrow> scheduler_runs env n s0 fl0 k (g_scheduler (hand_drafts env cfg g)) fl"
  by (auto simp: hand_drafts_def split: prod.split intro: scheduler_runs.drafts)

lemma schedule_runs:
  assumes "schedule_batch env cfg q g = Inr ((me, df, q1), g1)" "length q < ec_batch_queue_size cfg"
    "en_has_requests env (g_scheduler g)"
    "scheduler_runs env (ec_batch_queue_size cfg) s0 fl0 k (g_scheduler g) (rev (map snd q))"
  shows "\<exists>out. scheduler_runs env (ec_batch_queue_size cfg) s0 fl0 k (g_scheduler g1) (rev (map snd q) @ [out])
    \<and> (df = None \<and> (\<exists>f. q1 = (f, out) # q) \<or> df = Some out \<and> q1 = q)"
proof -
  obtain out s1 where out: "en_schedule env (g_scheduler g) = Inr (out, s1)"
    using assms(1) by (auto simp: schedule_batch_def bind_res_eq_Inr)
  have "scheduler_runs env (ec_batch_queue_size cfg) s0 fl0 k s1 (rev (map snd q) @ [out])"
    using scheduler_runs.schedule[OF assms(4,3) _ out] assms(2) by simp
  moreover have "g_scheduler g1 = s1" "df = None \<and> (\<exists>f. q1 = (f, out) # q) \<or> df = Some out \<and> q1 = q"
    using assms(1,2) out by (auto simp: schedule_batch_def append_left_room Let_def split: prod.splits if_splits)
  ultimately show ?thesis by auto
qed

lemma finish_runs:
  assumes "finish_batch env cfg me df q g = Inr (r, g')" "length q \<le> ec_batch_queue_size cfg"
    "scheduler_runs env (ec_batch_queue_size cfg) s0 fl0 k (g_scheduler g)
       (rev (map snd q) @ (case df of None \<Rightarrow> [] | Some d \<Rightarrow> [d]))"
  shows "q \<noteq> [] \<and> fst r \<noteq> None \<and> (\<exists>q'. g_batch_queue g' = Some q'
    \<and> scheduler_runs env (ec_batch_queue_size cfg) s0 fl0 (Suc k) (g_scheduler g') (rev (map snd q'))
    \<and> (df = None \<and> q' = butlast q \<or> (\<exists>d f. df = Some d \<and> q' = (f, d) # butlast q)))"
proof -
  have q: "q \<noteq> []" using assms(1) by (auto simp: finish_batch_def)
  obtain fut out where lst: "last q = (fut, out)" by (cases "last q")
  obtain mo w1 where res: "en_result env fut (g_executor g) = Inr (mo, w1)"
    using assms(1) q lst by (cases "en_result env fut (g_executor g)") (auto simp: finish_batch_def)
  let ?g1 = "hand_drafts env cfg (g\<lparr>g_executor := w1\<rparr>)"
  obtain m where m: "mo = Some m" using assms(1) q lst res by (cases mo) (auto simp: finish_batch_def)
  obtain outputs s2 where upd: "en_update_from_output env out m (g_scheduler ?g1) = Inr (outputs, s2)"
    using assms(1) q lst res m
    by (cases "en_update_from_output env out m (g_scheduler ?g1)") (auto simp: finish_batch_def)
  have "rev (map snd q) = out # rev (map snd (butlast q))" using q lst by (cases q rule: rev_cases) auto
  then have run: "scheduler_runs env (ec_batch_queue_size cfg) s0 fl0 (Suc k) s2
      (rev (map snd (butlast q)) @ (case df of None \<Rightarrow> [] | Some d \<Rightarrow> [d]))"
    using scheduler_runs.update[OF _ upd] hand_drafts_runs[of env "ec_batch_queue_size cfg" s0 fl0 k "g\<lparr>g_executor := w1\<rparr>"] assms(3) by simp
  have room: "length (butlast q) < ec_batch_queue_size cfg" using assms(2) q by (cases q) auto
  show ?thesis
  proof (cases df)
    case None
    then show ?thesis using assms(1) q lst res m upd run by (auto simp: finish_batch_def)
  next
    case (Some d)
    obtain f w2 where "en_sample_tokens_future env (en_grammar_bitmask env s2 d) (g_executor ?g1) = (f, w2)" by fastforce
    then show ?thesis using assms(1) q lst res m upd run Some append_left_room[OF room, of "(f, d)"]
      by (auto simp: finish_batch_def)
  qed
qed

text \<open>A step processes a batch, or it queues one, or the engine is idle.\<close>

lemma step_runs:
  assumes "step_with_batch_queue env cfg g = Inr (r, g')" "g_batch_queue g = Some q"
    "scheduler_runs env (ec_batch_queue_size cfg) s0 fl0 k (g_scheduler g) (rev (map snd q))"
  obtains (processes) q' where "g_batch_queue g' = Some q'" "length q' < ec_batch_queue_size cfg"
      "scheduler_runs env (ec_batch_queue_size cfg) s0 fl0 (Suc k) (g_scheduler g') (rev (map snd q'))"
      "length q \<le> Suc (length q')" "\<not> en_has_requests env (g_scheduler g) \<longrightarrow> length q = Suc (length q')"
  | (queues) q' where "g_batch_queue g' = Some q'" "length q' < ec_batch_queue_size cfg"
      "scheduler_runs env (ec_batch_queue_size cfg) s0 fl0 k (g_scheduler g') (rev (map snd q'))"
      "length q' = Suc (length q)" "en_has_requests env (g_scheduler g)"
  | (idle) "q = []" "\<not> en_has_requests env (g_scheduler g)"
proof -
  have size: "length q < ec_batch_queue_size cfg"
    using assms(1,2) by (simp add: step_with_batch_queue_def require_eq_Inr)
  show thesis
  proof (cases "en_has_requests env (g_scheduler g)")
    case True
    obtain me df q1 g1 where sb: "schedule_batch env cfg q g = Inr ((me, df, q1), g1)"
      using assms(1,2) size True by (cases "schedule_batch env cfg q g") (auto simp: step_with_batch_queue_def)
    obtain out where out: "scheduler_runs env (ec_batch_queue_size cfg) s0 fl0 k (g_scheduler g1) (rev (map snd q) @ [out])"
      "df = None \<and> (\<exists>f. q1 = (f, out) # q) \<or> df = Some out \<and> q1 = q"
      using schedule_runs[OF sb size True assms(3)] by blast
    show thesis
    proof (cases "df = None \<and> me \<and> length q1 < ec_batch_queue_size cfg \<and> \<not> en_done env (fst (last q1)) (g_executor g1)")
      case quick: True
      then have "g' = g1\<lparr>g_batch_queue := Some q1\<rparr>" using assms(1,2) size True sb by (auto simp: step_with_batch_queue_def)
      then show thesis using out quick True by (intro queues[of q1]) auto
    next
      case False
      then have fin: "finish_batch env cfg me df q1 g1 = Inr (r, g')"
        using assms(1,2) size True sb by (auto simp: step_with_batch_queue_def)
      have "scheduler_runs env (ec_batch_queue_size cfg) s0 fl0 k (g_scheduler g1)
          (rev (map snd q1) @ (case df of None \<Rightarrow> [] | Some d \<Rightarrow> [d]))" using out by auto
      from finish_runs[OF fin _ this] out(2) size obtain q' where q': "q1 \<noteq> []" "g_batch_queue g' = Some q'"
        "scheduler_runs env (ec_batch_queue_size cfg) s0 fl0 (Suc k) (g_scheduler g') (rev (map snd q'))"
        "df = None \<and> q' = butlast q1 \<or> (\<exists>d f. df = Some d \<and> q' = (f, d) # butlast q1)" by fastforce
      have "length q' = length q" using q'(1,4) out(2) by (cases q1) auto
      then show thesis using q' size True by (intro processes[of q']) auto
    qed
  next
    case False
    show thesis
    proof (cases "q = []")
      case q: False
      then have fin: "finish_batch env cfg False None q g = Inr (r, g')"
        using assms(1,2) size False by (auto simp: step_with_batch_queue_def)
      from finish_runs[OF fin, of s0 fl0 k] assms(3) size obtain q' where q': "g_batch_queue g' = Some q'"
        "scheduler_runs env (ec_batch_queue_size cfg) s0 fl0 (Suc k) (g_scheduler g') (rev (map snd q'))" "q' = butlast q" by auto
      have len: "length q = Suc (length q')" using q q'(3) by (cases q) auto
      show thesis by (rule processes[OF q'(1) _ q'(2)]) (use len size in simp_all)
    qed (use idle False in blast)
  qed
qed

lemma idle_stays:
  assumes "g_batch_queue g = Some []" "\<not> en_has_requests env (g_scheduler g)"
  shows "run_steps n env cfg g = Inr (outs, g') \<Longrightarrow> g' = g"
proof (induction n arbitrary: outs)
  case (Suc n)
  have "step_with_batch_queue env cfg g = Inr (out, g1) \<Longrightarrow> g1 = g" for out g1
    using assms by (auto simp: step_with_batch_queue_def require_eq_Inr)
  then show ?case using Suc by (fastforce simp: bind_res_eq_Inr)
qed simp

text \<open>How many steps are left: \<open>N - k\<close> updates, each after filling the queue, and then the queue.\<close>

definition steps_left :: "nat \<Rightarrow> nat \<Rightarrow> nat \<Rightarrow> nat \<Rightarrow> nat" where
  "steps_left places N k len = (if k < N then (N - k) * (places + 1) + (places - len) else len)"

lemma steps_left_processes:
  assumes "len < places" "len' < places" "len \<le> Suc len'" "\<not> k < N \<longrightarrow> len = Suc len'"
  shows "Suc (steps_left places N (Suc k) len') \<le> steps_left places N k len"
proof (cases "k < N")
  case True
  then obtain j where N: "N = k + Suc j" by (metis less_imp_Suc_add add_Suc_right)
  show ?thesis using assms unfolding N steps_left_def by (cases j) (simp_all add: algebra_simps)
next
  case False
  then show ?thesis using assms by (simp add: steps_left_def)
qed

lemma run_drains:
  assumes "\<And>k s fl. scheduler_runs env (ec_batch_queue_size cfg) s0 fl0 k s fl \<Longrightarrow> N \<le> k \<Longrightarrow> \<not> en_has_requests env s"
  shows "run_steps n env cfg g = Inr (outs, g') \<Longrightarrow> g_batch_queue g = Some q \<Longrightarrow> length q < ec_batch_queue_size cfg
    \<Longrightarrow> scheduler_runs env (ec_batch_queue_size cfg) s0 fl0 k (g_scheduler g) (rev (map snd q))
    \<Longrightarrow> steps_left (ec_batch_queue_size cfg) N k (length q) \<le> n
    \<Longrightarrow> g_batch_queue g' = Some [] \<and> \<not> en_has_requests env (g_scheduler g')"
proof (induction n arbitrary: g q k outs)
  case 0
  then have "steps_left (ec_batch_queue_size cfg) N k (length q) = 0" by simp
  then have "\<not> k < N" "q = []" by (auto simp: steps_left_def split: if_splits)
  then show ?case using 0 assms[OF 0(4)] by auto
next
  case (Suc n)
  obtain r g1 outs1 where st: "step_with_batch_queue env cfg g = Inr (r, g1)" "run_steps n env cfg g1 = Inr (outs1, g')"
    using Suc.prems(1) by (auto simp: bind_res_eq_Inr)
  have spent: "\<not> k < N \<longrightarrow> \<not> en_has_requests env (g_scheduler g)" using assms[OF Suc.prems(4)] by simp
  show ?case
  proof (rule step_runs[OF st(1) Suc.prems(2,4)])
    fix q' assume p: "g_batch_queue g1 = Some q'" "length q' < ec_batch_queue_size cfg"
      "scheduler_runs env (ec_batch_queue_size cfg) s0 fl0 (Suc k) (g_scheduler g1) (rev (map snd q'))"
      "length q \<le> Suc (length q')" "\<not> en_has_requests env (g_scheduler g) \<longrightarrow> length q = Suc (length q')"
    have "\<not> k < N \<longrightarrow> length q = Suc (length q')" using spent p(5) by blast
    then show ?thesis
      using Suc.IH[OF st(2) p(1-3)] steps_left_processes[OF Suc.prems(3) p(2,4), of k N] Suc.prems(5) by simp
  next
    fix q' assume p: "g_batch_queue g1 = Some q'" "length q' < ec_batch_queue_size cfg"
      "scheduler_runs env (ec_batch_queue_size cfg) s0 fl0 k (g_scheduler g1) (rev (map snd q'))"
      "length q' = Suc (length q)" "en_has_requests env (g_scheduler g)"
    have "k < N" using spent p(5) by blast
    then have "Suc (steps_left (ec_batch_queue_size cfg) N k (length q')) \<le> steps_left (ec_batch_queue_size cfg) N k (length q)"
      using p(2,4) by (simp add: steps_left_def)
    then show ?thesis using Suc.IH[OF st(2) p(1-3)] Suc.prems(5) by simp
  next
    assume i: "q = []" "\<not> en_has_requests env (g_scheduler g)"
    have "g' = g" by (rule idle_stays[OF _ i(2) Suc.prems(1)]) (use Suc.prems(2) i(1) in simp)
    then show ?thesis using Suc.prems(2) i by simp
  qed
qed

text \<open>
  C19. When no more requests come, the engine drains. Let the unfinished requests of the scheduler need at most
  \<open>N\<close> results of batches, whatever the results are. Then in every run of \<open>N * (size + 1) + size\<close> steps or
  more that raises nothing, for a batch queue of \<open>size\<close> places, the engine becomes idle: the scheduler has no
  requests, nothing is in flight, and every batch that was in flight or was scheduled on the way has been
  processed, in order.
\<close>
theorem engine_drains:
  assumes "run_steps n env cfg g = Inr (outs, g')" "g_batch_queue g = Some q" "length q < ec_batch_queue_size cfg"
    and "\<And>k s fl. scheduler_runs env (ec_batch_queue_size cfg) (g_scheduler g) (rev (map snd q)) k s fl \<Longrightarrow> N \<le> k
      \<Longrightarrow> \<not> en_has_requests env s"
    and "N * (ec_batch_queue_size cfg + 1) + ec_batch_queue_size cfg \<le> n"
  shows "g_batch_queue g' = Some [] \<and> \<not> en_has_requests env (g_scheduler g')
    \<and> (\<exists>batches. run_steps n (logged env) cfg (with_log g (rev (map snd q)) []) = Inr (outs, with_log g' batches batches))"
proof -
  have "steps_left (ec_batch_queue_size cfg) N 0 (length q) \<le> n" using assms(3,5) by (auto simp: steps_left_def)
  then have idle: "g_batch_queue g' = Some [] \<and> \<not> en_has_requests env (g_scheduler g')"
    by (intro run_drains[where N = N and k = 0, OF _ assms(1-3) scheduler_runs.start]) (use assms(4) in blast)
  obtain q' a b where "g_batch_queue g' = Some q'" "in_flight a b q'"
      "run_steps n (logged env) cfg (with_log g (rev (map snd q)) []) = Inr (outs, with_log g' a b)"
    using run_logged[OF assms(1-3), of "rev (map snd q)" "[]"] by (auto simp: in_flight_def)
  then show ?thesis using idle by (auto simp: in_flight_def)
qed

text \<open>
  A batch whose sampling needs tokens of a batch in flight waits for them: the step first updates
  the scheduler with the oldest batch, computes the bitmask of the deferred batch from the updated
  scheduler, and only then queues it. With nothing in flight the step raises instead of waiting.
\<close>
theorem deferred_batch_waits:
  assumes "g_batch_queue g = Some q" "length q < ec_batch_queue_size cfg" "\<not> takes_drafts cfg"
    and "en_has_requests env (g_scheduler g)" "en_schedule env (g_scheduler g) = Inr (out, s1)"
    and "en_pending_structured_output_tokens env out" "0 < en_total_num_scheduled_tokens env out"
    and "\<not> ec_ec_producer cfg" "\<not> ec_is_pooling_model cfg"
    and "en_execute_model env out (g_executor g) = (exec_future, w1)"
  shows "step_with_batch_queue env cfg g =
    (if q = [] then Inl IndexError
     else bind_res (en_result env (fst (last q)) w1) (\<lambda>(model_output, w2).
       case model_output of None \<Rightarrow> Inl AttributeError | Some m \<Rightarrow>
       bind_res (en_update_from_output env (snd (last q)) m s1) (\<lambda>(outputs, s2).
       let (future, w3) = en_sample_tokens_future env (en_grammar_bitmask env s2 out) w2
       in Inr ((Some outputs, True),
            g\<lparr>g_scheduler := s2, g_executor := w3, g_batch_queue := Some ((future, out) # butlast q)\<rparr>))))"
proof -
  have "schedule_batch env cfg q g = Inr ((True, Some out, q), g\<lparr>g_scheduler := s1, g_executor := w1\<rparr>)"
    using assms by (simp add: schedule_batch_def)
  moreover have "q \<noteq> [] \<Longrightarrow> append_left (ec_batch_queue_size cfg) x (butlast q) = x # butlast q" for x
    using assms(2) by (intro append_left_room) (cases q; simp)
  ultimately show ?thesis
    using assms(1-4)
    by (cases "last q") (auto simp: step_with_batch_queue_def finish_batch_def hand_drafts_def bind_res_def
        split: sum.splits prod.splits option.splits)
qed

section \<open>Waiting for work\<close>

definition respond :: "('q, 'e) input_env \<Rightarrow> 'e \<Rightarrow> 'e" where
  "respond env e = (if in_kv_consumer env then in_response_remote_alloc env e else e)"

definition observe :: "('q, 'e) input_env \<Rightarrow> 'q option \<Rightarrow> 'e \<Rightarrow> 'e" where
  "observe env o' e = (case o' of None \<Rightarrow> respond env e | Some r \<Rightarrow> in_handle_request env r (respond env e))"

lemma find_upt_Suc:
  "find P [0..<Suc n] = (if P 0 then Some 0 else map_option Suc (find (\<lambda>j. P (Suc j)) [0..<n]))"
proof -
  have "find P (map Suc xs) = map_option Suc (find (\<lambda>j. P (Suc j)) xs)" for xs by (induction xs) auto
  moreover have "[0..<Suc n] = 0 # map Suc [0..<n]" by (simp add: upt_conv_Cons map_Suc_upt del: upt_Suc)
  ultimately show ?thesis by simp
qed

lemma wait_for_work_first:
  "wait_for_work env os e =
    (case find (\<lambda>j. has_work env (fold (observe env) (take j os) e)) [0..<Suc (length os)] of
       None \<Rightarrow> Inl NonTermination
     | Some j \<Rightarrow> Inr (fold (observe env) (take j os) e, drop j os))"
proof (induction os arbitrary: e)
  case Nil
  then show ?case by simp
next
  case (Cons o' os)
  show ?case
  proof (cases "has_work env e")
    case True
    then show ?thesis by (simp add: find_upt_Suc del: upt_Suc)
  next
    case False
    have "wait_for_work env (o' # os) e = wait_for_work env os (observe env o' e)"
      using False by (cases o') (auto simp: observe_def respond_def Let_def)
    also have "\<dots> = (case find (\<lambda>j. has_work env (fold (observe env) (take j os) (observe env o' e))) [0..<Suc (length os)] of
       None \<Rightarrow> Inl NonTermination
     | Some j \<Rightarrow> Inr (fold (observe env) (take j os) (observe env o' e), drop j os))" by (rule Cons.IH)
    finally show ?thesis
      using False by (subst length_Cons, subst find_upt_Suc) (simp split: option.splits del: upt_Suc)
  qed
qed

lemma drain_input_takeWhile:
  "drain_input env os e =
    (fold (in_handle_request env) (map the (takeWhile (\<lambda>x. x \<noteq> None) os)) e,
     drop (Suc (length (takeWhile (\<lambda>x. x \<noteq> None) os))) os)"
  by (induction env os e rule: drain_input.induct) auto

text \<open>
  Taking client requests: the engine waits for the first observation of its input queue after which
  it has work (engines running, requests, or batches in flight) and then handles every request up to
  the first empty observation, each exactly once and in the order of arrival; it waits forever exactly
  when no observation ever gives it work.
\<close>
theorem process_input_queue_waits:
  "process_input_queue env os e =
    (case find (\<lambda>j. has_work env (fold (observe env) (take j os) e)) [0..<Suc (length os)] of
       None \<Rightarrow> Inl NonTermination
     | Some j \<Rightarrow>
         (let rs = takeWhile (\<lambda>x. x \<noteq> None) (drop j os)
          in Inr (fold (in_handle_request env) (map the rs) (respond env (fold (observe env) (take j os) e)),
               drop (Suc (length rs)) (drop j os))))"
  by (simp add: process_input_queue_def wait_for_work_first drain_input_takeWhile respond_def Let_def
      split: option.splits del: upt_Suc)

section \<open>A concrete engine\<close>

text \<open>
  A scheduler with a number of requests: each batch is numbered, needs one request, and every third
  one needs the tokens of the batch before it. Futures hold their results.
\<close>

definition tiny_env :: "(nat \<times> nat, nat, nat, unit, nat, nat, unit, nat) engine_env" where
  "tiny_env =
     \<lparr>en_has_requests = (\<lambda>(waiting, _). 0 < waiting),
      en_schedule = (\<lambda>(waiting, n). Inr (n, (waiting - 1, Suc n))),
      en_grammar_bitmask = (\<lambda>_ out. 10 * out),
      en_update_from_output = (\<lambda>out m s. Inr ([(0, m)], s)),
      en_set_draft_tokens = (\<lambda>_ s. s),
      en_total_num_scheduled_tokens = (\<lambda>_. 1),
      en_pending_structured_output_tokens = (\<lambda>out. out mod 3 = 2),
      en_execute_model = (\<lambda>out w. (out, w)),
      en_sample_tokens = (\<lambda>gr w. (gr, w)),
      en_sample_tokens_future = (\<lambda>gr w. (gr, w)),
      en_done = (\<lambda>_ _. False),
      en_result = (\<lambda>f w. Inr (Some f, w)),
      en_take_draft_tokens = (\<lambda>w. ((), w)),
      en_cost_time = (\<lambda>_. 0), en_model_exec_latency = (\<lambda>_. 0), en_mm_encoder_latency = (\<lambda>_. None)\<rparr>"

definition tiny_config :: engine_config where
  "tiny_config = \<lparr>ec_batch_queue_size = 3, ec_ec_producer = False, ec_is_pooling_model = False,
     ec_use_spec_decode = False, ec_kv_role = None, ec_latency_debug = False, ec_latency_debug_with_device = False\<rparr>"

definition tiny_engine :: "nat \<Rightarrow> nat \<Rightarrow> (nat \<times> nat) list \<Rightarrow> (nat \<times> nat, nat, unit, nat) engine" where
  "tiny_engine waiting n q = \<lparr>g_scheduler = (waiting, n), g_executor = (), g_batch_queue = Some q,
     g_step_latency = [], g_model_exec_latency = [], g_mm_encoder_latency = []\<rparr>"

lemma tiny_step:
  "step_with_batch_queue tiny_env tiny_config (tiny_engine 4 0 []) = Inr ((None, True), tiny_engine 3 1 [(0, 0)])"
  "step_with_batch_queue tiny_env tiny_config (tiny_engine 3 1 [(0, 0)])
    = Inr ((None, True), tiny_engine 2 2 [(10, 1), (0, 0)])"
  "step_with_batch_queue tiny_env tiny_config (tiny_engine 2 2 [(10, 1), (0, 0)])
    = Inr ((Some [(0, 0)], True), tiny_engine 1 3 [(20, 2), (10, 1)])"
  by (simp_all add: step_with_batch_queue_def schedule_batch_def finish_batch_def hand_drafts_def takes_drafts_def
      tiny_env_def tiny_config_def tiny_engine_def append_left_def)

lemma tiny_run:
  "run_steps (ec_batch_queue_size tiny_config) tiny_env tiny_config (tiny_engine 4 0 [])
    = Inr ([(None, True), (None, True), (Some [(0, 0)], True)], tiny_engine 1 3 [(20, 2), (10, 1)])"
proof -
  have "ec_batch_queue_size tiny_config = Suc (Suc (Suc 0))" by (simp add: tiny_config_def)
  then show ?thesis by (simp only: run_steps.simps tiny_step bind_res_simps prod.case)
qed

lemma batch_queue_pipeline_witness:
  "\<exists>q scheduled processed. g_batch_queue (tiny_engine 1 3 [(20, 2), (10, 1)]) = Some q
    \<and> length q < ec_batch_queue_size tiny_config
    \<and> run_steps (ec_batch_queue_size tiny_config) (logged tiny_env) tiny_config (with_log (tiny_engine 4 0 []) [] [])
      = Inr ([(None, True), (None, True), (Some [(0, 0)], True)],
          with_log (tiny_engine 1 3 [(20, 2), (10, 1)]) scheduled processed)
    \<and> scheduled = processed @ rev (map snd q)"
  by (rule batch_queue_pipeline[OF tiny_run]) (simp_all add: tiny_engine_def tiny_config_def)

lemma engine_progress_witness:
  "\<exists>out \<in> set [(None, True), (None, True), (Some [(0, 0)], True)]. fst out \<noteq> (None :: (nat, nat) dict option) \<or> snd out = False"
  by (rule engine_progress[OF tiny_run, where q = "[]"]) (simp_all add: tiny_engine_def tiny_config_def)

lemma tiny_work:
  "scheduler_runs tiny_env n s0 [] k s fl \<Longrightarrow> fst s + k + length fl = fst s0"
  by (induction rule: scheduler_runs.induct) (auto simp: tiny_env_def)

lemma tiny_drains:
  "run_steps 7 tiny_env tiny_config (tiny_engine 1 0 [])
    = Inr ([(None, True), (Some [(0, 0)], False), (None, False), (None, False), (None, False), (None, False), (None, False)],
        tiny_engine 0 1 [])"
proof -
  have "step_with_batch_queue tiny_env tiny_config (tiny_engine 1 0 []) = Inr ((None, True), tiny_engine 0 1 [(0, 0)])"
    "step_with_batch_queue tiny_env tiny_config (tiny_engine 0 1 [(0, 0)]) = Inr ((Some [(0, 0)], False), tiny_engine 0 1 [])"
    "step_with_batch_queue tiny_env tiny_config (tiny_engine 0 1 []) = Inr ((None, False), tiny_engine 0 1 [])"
    by (simp_all add: step_with_batch_queue_def schedule_batch_def finish_batch_def hand_drafts_def takes_drafts_def
        tiny_env_def tiny_config_def tiny_engine_def append_left_def)
  moreover have "(7 :: nat) = Suc (Suc (Suc (Suc (Suc (Suc (Suc 0))))))" by simp
  ultimately show ?thesis by (simp only: run_steps.simps bind_res_simps prod.case)
qed

lemma engine_drains_witness:
  "\<exists>batches. run_steps 7 (logged tiny_env) tiny_config (with_log (tiny_engine 1 0 []) [] [])
    = Inr ([(None, True), (Some [(0, 0)], False), (None, False), (None, False), (None, False), (None, False), (None, False)],
        with_log (tiny_engine 0 1 []) batches batches)"
proof -
  have "g_batch_queue (tiny_engine 0 1 []) = Some [] \<and> \<not> en_has_requests tiny_env (g_scheduler (tiny_engine 0 1 []))
    \<and> (\<exists>batches. run_steps 7 (logged tiny_env) tiny_config (with_log (tiny_engine 1 0 []) (rev (map snd ([] :: (nat \<times> nat) list))) [])
    = Inr ([(None, True), (Some [(0, 0)], False), (None, False), (None, False), (None, False), (None, False), (None, False)],
        with_log (tiny_engine 0 1 []) batches batches))"
  proof (rule engine_drains[OF tiny_drains, where N = 1])
    fix k s and fl :: "nat list"
    assume "scheduler_runs tiny_env (ec_batch_queue_size tiny_config) (g_scheduler (tiny_engine 1 0 [])) (rev (map snd ([] :: (nat \<times> nat) list))) k s fl" "1 \<le> k"
    then have "fst s = 0"
      using tiny_work[of "ec_batch_queue_size tiny_config" "g_scheduler (tiny_engine 1 0 [])" k s fl]
      by (simp add: tiny_engine_def)
    then show "\<not> en_has_requests tiny_env s" by (cases s) (simp add: tiny_env_def)
  qed (simp_all add: tiny_engine_def tiny_config_def)
  then show ?thesis by simp
qed

lemma deferred_batch_waits_witness:
  "step_with_batch_queue tiny_env tiny_config (tiny_engine 1 2 []) = Inl IndexError"
  using deferred_batch_waits[of "tiny_engine 1 2 []" "[]" tiny_config tiny_env 2 "(0, 3)" 2 "()"]
  by (simp add: tiny_engine_def tiny_config_def tiny_env_def takes_drafts_def)

end
