(* ===== verification/Eagle.thy ===== *)
theory Eagle
  imports Partition
begin

text \<open>
  The proposer of draft tokens (\<^verbatim>\<open>vllm_mlu/v1/spec_decode/eagle.py\<close>): how the inputs of the
  draft model are prepared from the batch of the target model, with the rejected tokens removed or kept
  as padding, and the loop that proposes one draft token after another. The draft model with its
  attention is an argument. The branches for multimodal inputs and for positions of three dimensions
  (M-RoPE) are not modelled; which device graph runs the model does not matter here.
\<close>

section \<open>Tensors of one dimension\<close>

text \<open>Reading and writing at a signed index, which counts from the end when it is negative.\<close>

definition at_index :: "'a list \<Rightarrow> int \<Rightarrow> 'a res" where
  "at_index xs i =
     (if 0 \<le> i then nth_res xs (nat i)
      else if - int (length xs) \<le> i then nth_res xs (nat (int (length xs) + i)) else Inl IndexError)"

definition put_index :: "'a list \<Rightarrow> int \<Rightarrow> 'a \<Rightarrow> 'a list res" where
  "put_index xs i v =
     (if 0 \<le> i then put_res xs (nat i) v
      else if - int (length xs) \<le> i then put_res xs (nat (int (length xs) + i)) v else Inl IndexError)"

definition gather_at :: "'a list \<Rightarrow> int list \<Rightarrow> 'a list res" where
  "gather_at xs is = map_res (at_index xs) is"

fun cumsum :: "int \<Rightarrow> int list \<Rightarrow> int list" where
  "cumsum a [] = []"
| "cumsum a (x # xs) = (a + x) # cumsum (a + x) xs"

text \<open>\<^verbatim>\<open>np.cumsum(xs, out=t[1:])\<close> into a tensor of \<open>n\<close> zeros.\<close>

definition start_locs :: "nat \<Rightarrow> int list \<Rightarrow> int list res" where
  "start_locs n xs = require (length xs + 1 = n) ValueError (Inr (0 # cumsum 0 xs))"

text \<open>\<^verbatim>\<open>np.repeat\<close>; the counts must not be negative.\<close>

definition np_repeat :: "int list \<Rightarrow> int list \<Rightarrow> int list res" where
  "np_repeat xs counts =
     require (length xs = length counts \<and> (\<forall>c \<in> set counts. 0 \<le> c)) ValueError
       (Inr (concat (map (\<lambda>(x, c). replicate (nat c) x) (zip xs counts))))"

text \<open>Element by element; tensors of different lengths do not combine.\<close>

definition zip_with :: "(int \<Rightarrow> int \<Rightarrow> int) \<Rightarrow> int list \<Rightarrow> int list \<Rightarrow> int list res" where
  "zip_with f xs ys = require (length xs = length ys) RuntimeError (Inr (map2 f xs ys))"

definition max_of :: "int list \<Rightarrow> int res" where
  "max_of xs = (if xs = [] then Inl RuntimeError else Inr (Max (set xs)))"

section \<open>Inputs without the rejected tokens\<close>

definition eagle_prepare_inputs :: "nat \<Rightarrow> common_md \<Rightarrow> int list \<Rightarrow> (common_md \<times> int list) res" where
  "eagle_prepare_inputs max_num_tokens cm num_rejected_tokens =
     (let query_start_loc_cpu = cm_query_start_loc_cpu cm; n = length query_start_loc_cpu in
      bind_res (zip_with (-) (cm_seq_lens_cpu cm) num_rejected_tokens) (\<lambda>new_seq_lens_cpu.
      let new_query_len_per_req = diff query_start_loc_cpu in
      bind_res (zip_with (-) new_query_len_per_req num_rejected_tokens) (\<lambda>new_num_tokens_per_req.
      bind_res (start_locs n new_num_tokens_per_req) (\<lambda>new_query_start_loc.
      let total_num_tokens = last new_query_start_loc in
      bind_res (np_repeat (butlast new_query_start_loc) new_num_tokens_per_req) (\<lambda>new_query_start_locs_expanded.
      bind_res (zip_with (-) (take (nat total_num_tokens) (map int [0..<max_num_tokens])) new_query_start_locs_expanded)
        (\<lambda>token_offsets.
      bind_res (np_repeat (butlast query_start_loc_cpu) new_num_tokens_per_req) (\<lambda>old_query_start_locs_expanded.
      bind_res (zip_with (+) token_offsets old_query_start_locs_expanded) (\<lambda>token_indices.
      bind_res (start_locs n new_seq_lens_cpu) (\<lambda>new_seq_start_loc.
      bind_res (max_of new_query_len_per_req) (\<lambda>max_query_len.
      bind_res (gather_at (cm_slot_mapping cm) token_indices) (\<lambda>slot_mapping.
      Inr (cm\<lparr>cm_query_start_loc := new_query_start_loc, cm_seq_lens := new_seq_lens_cpu,
             cm_query_start_loc_cpu := new_query_start_loc, cm_seq_lens_cpu := new_seq_lens_cpu,
             cm_num_actual_tokens := nat total_num_tokens, cm_max_query_len := max_query_len,
             cm_slot_mapping := slot_mapping, cm_seq_start_loc := new_seq_start_loc,
             cm_num_input_tokens := nat total_num_tokens, cm_num_prefill_query_tokens := nat total_num_tokens,
             cm_num_prefill_kv_tokens := nat total_num_tokens\<rparr>, token_indices))))))))))))"

section \<open>Inputs with the rejected tokens as padding\<close>

definition num_rejected_padded :: "int list \<Rightarrow> int list \<Rightarrow> int list res" where
  "num_rejected_padded cu_num_draft_tokens valid_sampled_tokens_count =
     (let num_draft_tokens = take 1 cu_num_draft_tokens @ diff cu_num_draft_tokens
      in zip_with (\<lambda>d v. if 0 < d then d + 1 - v else 0) num_draft_tokens valid_sampled_tokens_count)"

definition prepare_inputs_padded ::
  "nat \<Rightarrow> common_md \<Rightarrow> int list \<Rightarrow> int list \<Rightarrow> (common_md \<times> int list \<times> int list \<times> int list) res" where
  "prepare_inputs_padded num_arange cm cu_num_draft_tokens valid_sampled_tokens_count =
     bind_res (num_rejected_padded cu_num_draft_tokens valid_sampled_tokens_count) (\<lambda>num_rejected_tokens.
     let query_start_loc_cpu = cm_query_start_loc_cpu cm;
         new_query_len_per_req = diff query_start_loc_cpu
     in bind_res (at_index query_start_loc_cpu (-1)) (\<lambda>total_num_tokens.
     let token_indices = take (nat total_num_tokens) (map int [0..<num_arange]) in
     bind_res (start_locs (length query_start_loc_cpu) (cm_seq_lens cm)) (\<lambda>new_seq_start_loc.
     bind_res (max_of new_query_len_per_req) (\<lambda>max_query_len.
     bind_res (max_of (cm_seq_lens_cpu cm)) (\<lambda>max_seq_len.
     bind_res (gather_at (cm_slot_mapping cm) token_indices) (\<lambda>slot_mapping.
     bind_res (zip_with (\<lambda>q r. q - 1 - r) (tl (cm_query_start_loc cm)) num_rejected_tokens)
       (\<lambda>token_indices_to_sample.
     Inr (cm\<lparr>cm_num_actual_tokens := nat total_num_tokens, cm_max_query_len := max_query_len,
            cm_max_seq_len := max_seq_len, cm_slot_mapping := slot_mapping, cm_seq_start_loc := new_seq_start_loc,
            cm_num_input_tokens := nat total_num_tokens, cm_num_prefill_query_tokens := nat total_num_tokens,
            cm_num_prefill_kv_tokens := nat total_num_tokens\<rparr>,
          token_indices, token_indices_to_sample, num_rejected_tokens))))))))"

section \<open>Proposing\<close>

record eagle_config =
  eg_method :: string
  eg_num_speculative_tokens :: nat
  eg_max_model_len :: int
  eg_block_size :: int

text \<open>
  The draft model: a forward pass over the tokens of a step gives the last hidden states and the hidden
  states to continue with (the method \<^verbatim>\<open>mtp\<close> has only the former); the logits of hidden states
  give the greedy tokens. The state \<open>'w\<close> holds what the model keeps, its KV cache.
\<close>

record ('h, 'w) draft_model =
  dm_combine_hidden_states :: "'h list \<Rightarrow> 'h list"
  dm_forward :: "common_md \<Rightarrow> int list \<Rightarrow> int list \<Rightarrow> 'h list \<Rightarrow> 'w \<Rightarrow> ('h list \<times> 'h list) \<times> 'w"
  dm_greedy :: "'h list \<Rightarrow> int list"

definition PADDING_SLOT_ID :: int where
  "PADDING_SLOT_ID = -1"

text \<open>The input ids, shifted by one token, with the next tokens at the last token of every request.\<close>

definition shift_input_ids :: "int list \<Rightarrow> int list \<Rightarrow> int list \<Rightarrow> int list \<Rightarrow> int list res" where
  "shift_input_ids buffer target_token_ids last_token_indices next_token_ids =
     require (target_token_ids \<noteq> [] \<and> length target_token_ids \<le> length buffer
         \<and> length last_token_indices = length next_token_ids) RuntimeError
       (fold_res (\<lambda>(i, t) b. put_index b i t) (zip last_token_indices next_token_ids)
         (tl target_token_ids @ drop (length target_token_ids - 1) buffer))"

text \<open>\<^verbatim>\<open>MLUCommonAttentionMetadata.build\<close>\<close>

definition build_infer_mode :: "bool \<Rightarrow> int \<Rightarrow> nat \<Rightarrow> bool \<Rightarrow> infer_mode" where
  "build_infer_mode is_start_loc_match max_query_len num_speculative_tokens has_prefill_reqs =
     (if is_start_loc_match then PREFILL_ONLY
      else if max_query_len \<le> 1 + int num_speculative_tokens \<and> \<not> has_prefill_reqs then DECODE_ONLY
      else CHUNKED)"

definition build_common_metadata ::
  "int list \<Rightarrow> int list \<Rightarrow> int list \<Rightarrow> nat \<Rightarrow> nat \<Rightarrow> int \<Rightarrow> int list list \<Rightarrow> int list \<Rightarrow> int list \<Rightarrow> bool \<Rightarrow> nat
    \<Rightarrow> nat \<Rightarrow> bool \<Rightarrow> common_md res" where
  "build_common_metadata query_start_loc lens num_computed_tokens num_reqs num_actual_tokens max_query_len
       block_table slot_mapping seq_start_loc is_start_loc_match num_input_tokens num_speculative_tokens
       has_prefill_reqs =
     bind_res (max_of lens) (\<lambda>max_seq_len.
     Inr \<lparr>cm_query_start_loc = query_start_loc, cm_query_start_loc_cpu = query_start_loc,
          cm_seq_lens = lens, cm_seq_lens_cpu = lens, cm_num_computed_tokens_cpu = num_computed_tokens,
          cm_num_reqs = num_reqs, cm_num_actual_tokens = num_actual_tokens, cm_max_query_len = max_query_len,
          cm_max_seq_len = max_seq_len, cm_block_table_tensor = block_table, cm_slot_mapping = slot_mapping,
          cm_seq_start_loc = seq_start_loc,
          cm_num_input_tokens = (if num_input_tokens = 0 then num_actual_tokens else num_input_tokens),
          cm_infer_mode = Some (build_infer_mode is_start_loc_match max_query_len num_speculative_tokens has_prefill_reqs),
          cm_num_prefill_query_tokens = num_actual_tokens, cm_num_prefill_kv_tokens = num_actual_tokens\<rparr>)"

text \<open>The metadata of the remaining draft steps, where every request has one token.\<close>

definition decode_metadata :: "eagle_config \<Rightarrow> nat \<Rightarrow> common_md \<Rightarrow> common_md res" where
  "decode_metadata cfg batch_size cm =
     (if cm_infer_mode cm \<noteq> Some DECODE_ONLY
      then let seq_lens_cpu = replicate batch_size 1
        in build_common_metadata (0 # cumsum 0 seq_lens_cpu) seq_lens_cpu (cm_num_computed_tokens_cpu cm)
             (cm_num_reqs cm) batch_size 1 (cm_block_table_tensor cm) (cm_slot_mapping cm)
             (map int [0..<batch_size + 1]) False batch_size (eg_num_speculative_tokens cfg)
             (cm_infer_mode cm = Some CHUNKED)
      else Inr (cm\<lparr>cm_num_actual_tokens := batch_size, cm_num_input_tokens := batch_size, cm_max_query_len := 1,
             cm_query_start_loc := map int [0..<batch_size + 1],
             cm_query_start_loc_cpu := map int [0..<batch_size + 1]\<rparr>))"

text \<open>
  One more draft token: the positions advance; a request beyond the maximal length stays in the batch
  with position 0, sequence length 1 and the padding slot.
\<close>

definition slot_of :: "int \<Rightarrow> int list \<times> int \<Rightarrow> int res" where
  "slot_of block_size rp =
     (let (row, p) = rp in bind_res (at_index row (p div block_size)) (\<lambda>b. Inr (b * block_size + p mod block_size)))"

definition advance_metadata ::
  "eagle_config \<Rightarrow> int list \<Rightarrow> common_md \<Rightarrow> (int list \<times> common_md) res" where
  "advance_metadata cfg positions cm =
     (let exceeds = map (\<lambda>p. eg_max_model_len cfg \<le> p) positions;
          clamped = map (\<lambda>p. if eg_max_model_len cfg \<le> p then 0 else p) positions;
          seq_lens_cpu = map (\<lambda>s. s + 1) (cm_seq_lens_cpu cm)
      in require (length (cm_seq_lens cm) = length positions \<and> length positions \<le> length (cm_block_table_tensor cm))
           RuntimeError
         (let lens = map2 (\<lambda>s e. if e then 1 else s + 1) (cm_seq_lens cm) exceeds in
          bind_res (map_res (slot_of (eg_block_size cfg)) (zip (cm_block_table_tensor cm) clamped)) (\<lambda>slots.
          Inr (clamped, cm\<lparr>cm_seq_lens := lens, cm_seq_lens_cpu := seq_lens_cpu,
              cm_num_computed_tokens_cpu := map (\<lambda>s. s - 1) seq_lens_cpu,
              cm_slot_mapping := map2 (\<lambda>s e. if e then PADDING_SLOT_ID else s) slots exceeds\<rparr>))))"

fun draft_loop ::
  "nat \<Rightarrow> ('h, 'w) draft_model \<Rightarrow> eagle_config \<Rightarrow> nat \<Rightarrow> int list \<Rightarrow> common_md \<Rightarrow> 'h list \<Rightarrow> int list list \<Rightarrow> 'w
    \<Rightarrow> (int list list \<times> 'w) res" where
  "draft_loop 0 m cfg batch_size positions cm hidden drafts w = Inr (drafts, w)"
| "draft_loop (Suc n) m cfg batch_size positions cm hidden drafts w =
     (let positions = map (\<lambda>p. p + 1) positions in
      bind_res (advance_metadata cfg positions cm) (\<lambda>(clamped, cm).
      let ((last_hidden_states, new_hidden), w) = dm_forward m cm (last drafts) clamped hidden w;
          hidden = take batch_size (if eg_method cfg = ''mtp'' then hidden else new_hidden);
          draft_token_ids = dm_greedy m (take batch_size last_hidden_states)
      in draft_loop n m cfg batch_size positions cm hidden (drafts @ [draft_token_ids]) w))"

text \<open>
  \<^verbatim>\<open>torch.stack(drafts, dim=1)\<close>: a row of draft tokens for every request. The result of
  \<open>propose\<close> has the buffer of input ids too; a later step leaves its own inputs, the drafts of the step
  before, at its start.
\<close>

definition stack_rows :: "nat \<Rightarrow> int list list \<Rightarrow> int list list" where
  "stack_rows batch_size drafts = map (\<lambda>i. map (\<lambda>d. d ! i) drafts) [0..<batch_size]"

definition propose ::
  "('h, 'w) draft_model \<Rightarrow> eagle_config \<Rightarrow> int list \<Rightarrow> int list \<Rightarrow> int list \<Rightarrow> 'h list \<Rightarrow> int list \<Rightarrow> int list option
    \<Rightarrow> common_md \<Rightarrow> 'w \<Rightarrow> (int list list \<times> int list \<times> 'w) res" where
  "propose m cfg buffer target_token_ids target_positions target_hidden_states next_token_ids
       last_token_indices cm w =
     (let num_tokens = length target_token_ids;
          batch_size = length next_token_ids;
          last_token_indices = (case last_token_indices of
            None \<Rightarrow> map (\<lambda>q. q - 1) (tl (cm_query_start_loc cm)) | Some is \<Rightarrow> is);
          target_hidden_states = (if eg_method cfg = ''eagle3'' then dm_combine_hidden_states m target_hidden_states
            else target_hidden_states)
      in bind_res (shift_input_ids buffer target_token_ids last_token_indices next_token_ids) (\<lambda>buffer.
      let ((last_hidden_states, hidden_states), w) =
            dm_forward m cm (take num_tokens buffer) (take num_tokens target_positions) target_hidden_states w
      in bind_res (gather_at last_hidden_states last_token_indices) (\<lambda>sample_hidden_states.
      let draft_token_ids = dm_greedy m sample_hidden_states
      in if eg_num_speculative_tokens cfg = 1
         then Inr (map (\<lambda>t. [t]) draft_token_ids, buffer, w)
         else
         bind_res (gather_at target_positions last_token_indices) (\<lambda>positions.
         bind_res (decode_metadata cfg batch_size cm) (\<lambda>cm_k.
         bind_res (draft_loop (eg_num_speculative_tokens cfg - 1) m cfg batch_size positions cm_k
             sample_hidden_states [draft_token_ids] w) (\<lambda>(drafts, w).
         Inr (stack_rows batch_size drafts, last (butlast drafts) @ drop batch_size buffer, w)))))))"

section \<open>Start locations\<close>

lemma length_cumsum [simp]: "length (cumsum a xs) = length xs"
  by (induction xs arbitrary: a) auto

lemma nth_cumsum: "i < length xs \<Longrightarrow> cumsum a xs ! i = a + sum_list (take (Suc i) xs)"
proof (induction xs arbitrary: a i)
  case (Cons x xs)
  then show ?case by (cases i) auto
qed simp

lemma last_cumsum: "last (a # cumsum a xs) = a + sum_list xs"
  by (induction xs arbitrary: a) auto

lemma diff_cumsum: "diff (a # cumsum a xs) = xs"
proof (induction xs arbitrary: a)
  case (Cons x xs)
  from Cons[of "a + x"] show ?case by simp
qed simp

lemma sum_list_int: "sum_list (map int xs) = int (sum_list xs)"
  by (induction xs) auto

lemma nth_start_locs: "i \<le> length q \<Longrightarrow> (0 # cumsum 0 (map int q)) ! i = int (sum_list (take i q))"
  by (cases i) (simp_all add: nth_cumsum sum_list_int take_map)

lemma map2_append:
  "length xs = length ys \<Longrightarrow> map2 f (xs @ xs') (ys @ ys') = map2 f xs ys @ map2 f xs' ys'"
  by simp

lemma map2_const: "map2 f (map g [a..<a + k]) (replicate k c) = map (\<lambda>j. f (g (a + j)) c) [0..<k]"
  by (rule nth_equalityI) simp_all

lemma length_repeats: "length xs = length m \<Longrightarrow> length (concat (map (\<lambda>(x, c). replicate (nat c) x) (zip xs (map int m)))) = sum_list m"
  by (induction xs m rule: list_induct2) auto

lemma length_locs: "length (butlast (a # cumsum b xs)) = length xs"
  by (simp only: length_butlast length_Cons length_cumsum diff_Suc_1)

lemma nth_locs: "i < length q \<Longrightarrow> butlast (0 # cumsum 0 (map int q)) ! i = int (sum_list (take i q))"
  by (subst nth_butlast) (simp_all only: length_locs length_map nth_start_locs less_imp_le)

lemma butlast_cumsum: "butlast (a # cumsum a (x # xs)) = a # butlast ((a + x) # cumsum (a + x) xs)"
  by simp

text \<open>
  Counting the tokens of a batch, less the new start of each request, plus its old start: the tokens
  each request keeps, at their old places.
\<close>

lemma kept_tokens:
  assumes "length olds = length m"
  shows "map2 (+) (map2 (-) (map int [a..<a + sum_list m])
        (concat (map (\<lambda>(x, c). replicate (nat c) x) (zip (butlast (int a # cumsum (int a) (map int m))) (map int m)))))
      (concat (map (\<lambda>(x, c). replicate (nat c) x) (zip olds (map int m))))
    = concat (map2 (\<lambda>o' k. map (\<lambda>j. o' + int j) [0..<k]) olds m)"
  using assms
proof (induction olds m arbitrary: a rule: list_induct2)
  case Nil
  then show ?case by simp
next
  case (Cons o' olds k m)
  let ?rep = "\<lambda>xs. concat (map (\<lambda>(x, c). replicate (nat c) x) (zip xs (map int m)))"
  have up: "[a..<a + sum_list (k # m)] = [a..<a + k] @ [a + k..<(a + k) + sum_list m]"
    using upt_add_eq_append[of a "a + k" "sum_list m"] by (simp add: add.assoc)
  have len: "length (?rep (butlast (int (a + k) # cumsum (int (a + k)) (map int m)))) = sum_list m"
    by (rule length_repeats) (simp only: length_locs length_map)
  have new: "concat (map (\<lambda>(x, c). replicate (nat c) x) (zip (butlast (int a # cumsum (int a) (map int (k # m)))) (map int (k # m))))
      = replicate k (int a) @ ?rep (butlast (int (a + k) # cumsum (int (a + k)) (map int m)))"
    by simp
  have "map2 (-) (map int [a..<a + k]) (replicate k (int a)) = map int [0..<k]"
    by (subst map2_const) (simp cong: map_cong)
  moreover have "map2 (+) (map int [0..<k]) (replicate k o') = map (\<lambda>j. o' + int j) [0..<k]"
    using map2_const[of "(+)" int 0 k o'] by (simp add: add.commute)
  ultimately show ?case
    unfolding up new using Cons.IH[of "a + k"] len by (simp add: map2_append del: upt_Suc)
qed

definition start_of :: "nat list \<Rightarrow> nat \<Rightarrow> nat" where
  "start_of q i = sum_list (take i q)"

text \<open>The tokens request \<open>i\<close> keeps when \<open>n ! i\<close> of its \<open>q ! i\<close> tokens are rejected.\<close>

definition kept_of :: "nat list \<Rightarrow> nat list \<Rightarrow> nat \<Rightarrow> int list" where
  "kept_of q n i = map (\<lambda>j. int (start_of q i) + int j) [0..<q ! i - n ! i]"

lemma kept_list:
  assumes "length n = length q" "\<forall>i < length q. n ! i \<le> q ! i"
  shows "map2 (-) (map int q) (map int n) = map int (map2 (-) q n)"
    "concat (map2 (\<lambda>o' k. map (\<lambda>j. o' + int j) [0..<k]) (butlast (0 # cumsum 0 (map int q))) (map2 (-) q n))
      = concat (map (kept_of q n) [0..<length q])"
proof -
  show "map2 (-) (map int q) (map int n) = map int (map2 (-) q n)"
    by (rule nth_equalityI) (use assms in \<open>auto simp: of_nat_diff\<close>)
  have "map2 (\<lambda>o' k. map (\<lambda>j. o' + int j) [0..<k]) (butlast (0 # cumsum 0 (map int q))) (map2 (-) q n)
      = map (kept_of q n) [0..<length q]"
  proof (rule nth_equalityI)
    show "length (map2 (\<lambda>o' k. map (\<lambda>j. o' + int j) [0..<k]) (butlast (0 # cumsum 0 (map int q))) (map2 (-) q n))
        = length (map (kept_of q n) [0..<length q])"
      using assms(1) by (simp only: length_map length_zip length_locs) simp
    fix i assume "i < length (map2 (\<lambda>o' k. map (\<lambda>j. o' + int j) [0..<k]) (butlast (0 # cumsum 0 (map int q))) (map2 (-) q n))"
    then have "i < length q" "i < length (butlast (0 # cumsum 0 (map int q)))" "i < length (map2 (-) q n)"
      by (simp_all only: length_map length_zip length_locs min_less_iff_conj)
    then show "map2 (\<lambda>o' k. map (\<lambda>j. o' + int j) [0..<k]) (butlast (0 # cumsum 0 (map int q))) (map2 (-) q n) ! i
        = map (kept_of q n) [0..<length q] ! i"
      using assms(1) nth_locs[of i q] by (simp add: kept_of_def start_of_def del: butlast.simps)
  qed
  then show "concat (map2 (\<lambda>o' k. map (\<lambda>j. o' + int j) [0..<k]) (butlast (0 # cumsum 0 (map int q))) (map2 (-) q n))
      = concat (map (kept_of q n) [0..<length q])" by simp
qed

lemma gather_at_nat:
  "\<forall>i \<in> set is. 0 \<le> i \<and> i < int (length xs) \<Longrightarrow> gather_at xs is = Inr (map (\<lambda>i. xs ! nat i) is)"
  unfolding gather_at_def by (rule map_res_total) (auto simp: at_index_def)

lemma start_of_less: "i < length q \<Longrightarrow> j < q ! i \<Longrightarrow> start_of q i + j < sum_list q"
proof -
  assume "i < length q" "j < q ! i"
  then have "start_of q i + j < sum_list (take (Suc i) q)" by (simp add: start_of_def sum_list_take_Suc)
  then show ?thesis using sum_list_take_le[of "Suc i" q] by linarith
qed

lemma kept_range:
  assumes "k \<in> set (concat (map (kept_of q n) [0..<length q]))"
  shows "0 \<le> k \<and> k < int (sum_list q)"
proof -
  obtain i j where "i < length q" "j < q ! i - n ! i" "k = int (start_of q i) + int j"
    using assms by (auto simp: kept_of_def)
  moreover from this have "start_of q i + j < sum_list q" by (intro start_of_less) simp_all
  ultimately show ?thesis by (simp del: of_nat_add add: of_nat_add[symmetric])
qed

lemma prepare_inputs_kept:
  assumes "cm_query_start_loc_cpu cm = 0 # cumsum 0 (map int q)" "q \<noteq> []"
    and "length n = length q" "\<forall>i < length q. n ! i \<le> q ! i"
    and "length (cm_seq_lens_cpu cm) = length q" "sum_list (map2 (-) q n) \<le> max_num_tokens"
    and "sum_list q \<le> length (cm_slot_mapping cm)"
  shows "case eagle_prepare_inputs max_num_tokens cm (map int n) of
      Inl _ \<Rightarrow> False
    | Inr (cm', token_indices) \<Rightarrow> token_indices = concat (map (kept_of q n) [0..<length q])
        \<and> cm_query_start_loc cm' = 0 # cumsum 0 (map int (map2 (-) q n))
        \<and> cm_seq_lens cm' = map2 (-) (cm_seq_lens_cpu cm) (map int n)
        \<and> cm_num_actual_tokens cm' = sum_list (map2 (-) q n)
        \<and> cm_slot_mapping cm' = map (\<lambda>k. cm_slot_mapping cm ! nat k) token_indices"
proof -
  let ?m = "map2 (-) q n" and ?loc = "0 # cumsum 0 (map int q)"
  let ?kept = "concat (map (kept_of q n) [0..<length q])"
  have len: "length (butlast ?loc) = length ?m" using assms(3) by (simp add: length_locs del: butlast.simps)
  have diffs: "diff ?loc = map int q" by (rule diff_cumsum)
  have counts: "zip_with (-) (map int q) (map int n) = Inr (map int ?m)"
    using kept_list(1)[OF assms(3,4)] assms(3) by (simp add: zip_with_def)
  have locs: "start_locs (length ?loc) (map int ?m) = Inr (0 # cumsum 0 (map int ?m))"
    using assms(3) by (simp add: start_locs_def)
  have tot: "last (0 # cumsum 0 (map int ?m)) = int (sum_list ?m)" by (simp only: last_cumsum sum_list_int)
  have rep: "np_repeat xs (map int ?m) = Inr (concat (map (\<lambda>(x, c). replicate (nat c) x) (zip xs (map int ?m))))"
    if "length xs = length ?m" for xs using that by (simp add: np_repeat_def)
  have range: "take (nat (int (sum_list ?m))) (map int [0..<max_num_tokens]) = map int [0..<sum_list ?m]"
    using assms(6) by (simp add: take_map)
  let ?new = "concat (map (\<lambda>(x, c). replicate (nat c) x) (zip (butlast (0 # cumsum 0 (map int ?m))) (map int ?m)))"
  let ?old = "concat (map (\<lambda>(x, c). replicate (nat c) x) (zip (butlast ?loc) (map int ?m)))"
  have bl: "length (butlast (0 # cumsum 0 (map int ?m))) = length ?m" by (simp only: length_locs length_map)
  have lens: "length ?new = sum_list ?m" "length ?old = sum_list ?m"
    by (rule length_repeats[OF bl], rule length_repeats[OF len])
  have offs: "zip_with (-) (map int [0..<sum_list ?m]) ?new = Inr (map2 (-) (map int [0..<sum_list ?m]) ?new)"
    using lens by (simp only: zip_with_def) simp
  have idx: "zip_with (+) (map2 (-) (map int [0..<sum_list ?m]) ?new) ?old = Inr ?kept"
    using lens kept_tokens[OF len, of 0] kept_list(2)[OF assms(3,4)] by (simp add: zip_with_def)
  have seqs: "zip_with (-) (cm_seq_lens_cpu cm) (map int n) = Inr (map2 (-) (cm_seq_lens_cpu cm) (map int n))"
    "start_locs (length ?loc) (map2 (-) (cm_seq_lens_cpu cm) (map int n))
      = Inr (0 # cumsum 0 (map2 (-) (cm_seq_lens_cpu cm) (map int n)))"
    using assms(3,5) by (simp_all add: zip_with_def start_locs_def)
  have mx: "max_of (map int q) = Inr (Max (set (map int q)))" using assms(2) by (simp add: max_of_def)
  have slots: "gather_at (cm_slot_mapping cm) ?kept = Inr (map (\<lambda>k. cm_slot_mapping cm ! nat k) ?kept)"
    by (rule gather_at_nat) (use kept_range assms(7) in fastforce)
  show ?thesis
    unfolding eagle_prepare_inputs_def Let_def assms(1) seqs(1) bind_res_simps diffs counts locs tot
      rep[OF bl] range offs rep[OF len] idx seqs(2) mx slots
    by simp
qed

text \<open>
  Without the rejected tokens the drafter gets, request by request and in order, exactly the tokens
  the target model kept: for request \<open>i\<close> with \<open>q ! i\<close> tokens, \<open>n ! i\<close> of them rejected, the first
  \<open>q ! i - n ! i\<close> at its old place; the new start locations are the prefix sums of what is kept, and
  every kept token keeps its slot.
\<close>
theorem prepare_inputs_keeps:
  assumes "cm_query_start_loc_cpu cm = 0 # cumsum 0 (map int q)" "q \<noteq> []"
    and "length n = length q" "\<forall>i < length q. n ! i \<le> q ! i"
    and "length (cm_seq_lens_cpu cm) = length q" "sum_list (map2 (-) q n) \<le> max_num_tokens"
    and "sum_list q \<le> length (cm_slot_mapping cm)"
  shows "case eagle_prepare_inputs max_num_tokens cm (map int n) of
      Inl _ \<Rightarrow> False
    | Inr (cm', token_indices) \<Rightarrow> token_indices = concat (map (kept_of q n) [0..<length q])
        \<and> cm_query_start_loc cm' = 0 # cumsum 0 (map int (map2 (-) q n))
        \<and> cm_seq_lens cm' = map2 (-) (cm_seq_lens_cpu cm) (map int n)
        \<and> cm_num_actual_tokens cm' = sum_list (map2 (-) q n)
        \<and> cm_slot_mapping cm' = map (\<lambda>k. cm_slot_mapping cm ! nat k) token_indices"
  using assms by (rule prepare_inputs_kept)

lemma concat_nth_last:
  assumes "i < length xss" "xss ! i \<noteq> []"
  shows "concat xss ! (sum_list (map length (take (Suc i) xss)) - 1) = last (xss ! i)"
proof -
  have split: "concat xss = concat (take i xss) @ xss ! i @ concat (drop (Suc i) xss)"
    using assms(1) by (metis concat.simps(2) concat_append id_take_nth_drop)
  have "sum_list (map length (take (Suc i) xss)) - 1 = length (concat (take i xss)) + (length (xss ! i) - 1)"
    using assms by (cases "xss ! i") (simp_all add: take_Suc_conv_app_nth length_concat)
  then show ?thesis using assms(2) by (simp add: split nth_append last_conv_nth)
qed

lemma padded_inputs_total:
  assumes "cm_query_start_loc_cpu cm = 0 # cumsum 0 (map int q)" "cm_query_start_loc cm = cm_query_start_loc_cpu cm"
    and "q \<noteq> []" "length n = length q"
    and "length (cm_seq_lens_cpu cm) = length q" "length (cm_seq_lens cm) = length q"
    and "sum_list q \<le> num_arange" "sum_list q \<le> length (cm_slot_mapping cm)"
    and "num_rejected_padded cu_num_draft_tokens valid_counts = Inr (map int n)"
  shows "\<exists>cm2. prepare_inputs_padded num_arange cm cu_num_draft_tokens valid_counts
      = Inr (cm2, map int [0..<sum_list q], map2 (\<lambda>a r. a - 1 - r) (cumsum 0 (map int q)) (map int n), map int n)
    \<and> cm_seq_lens cm2 = cm_seq_lens cm \<and> cm_block_table_tensor cm2 = cm_block_table_tensor cm"
proof -
  have tot: "at_index (0 # cumsum 0 (map int q)) (-1) = Inr (int (sum_list q))"
    using nth_start_locs[of "length q" q] by (simp add: at_index_def nth_res_def)
  have range: "take (nat (int (sum_list q))) (map int [0..<num_arange]) = map int [0..<sum_list q]"
    using assms(7) by (simp add: take_map)
  have sel: "gather_at (cm_slot_mapping cm) (map int [0..<sum_list q])
      = Inr (map (\<lambda>k. cm_slot_mapping cm ! nat k) (map int [0..<sum_list q]))"
    by (rule gather_at_nat) (use assms(8) in auto)
  have "cm_seq_lens_cpu cm \<noteq> []" using assms(3,5) by auto
  then show ?thesis
    using assms tot range sel
    by (auto simp: prepare_inputs_padded_def Let_def start_locs_def max_of_def zip_with_def diff_cumsum simp del: upt_Suc)
qed

text \<open>
  C40. Keeping the rejected tokens as padding prepares the same drafts: the padded inputs are all tokens
  of the target model, the unpadded ones are among them, and the token whose hidden state is sampled for
  a request, the last one it keeps, is the same token in both.
\<close>
theorem padded_inputs_agree:
  assumes "cm_query_start_loc_cpu cm = 0 # cumsum 0 (map int q)" "cm_query_start_loc cm = cm_query_start_loc_cpu cm"
    and "q \<noteq> []" "length n = length q" "\<forall>i < length q. n ! i < q ! i"
    and "length (cm_seq_lens_cpu cm) = length q" "length (cm_seq_lens cm) = length q"
    and "sum_list q \<le> max_num_tokens" "sum_list q \<le> num_arange" "sum_list q \<le> length (cm_slot_mapping cm)"
    and "num_rejected_padded cu_num_draft_tokens valid_counts = Inr (map int n)"
  shows "case (eagle_prepare_inputs max_num_tokens cm (map int n),
        prepare_inputs_padded num_arange cm cu_num_draft_tokens valid_counts) of
      (Inr (cm1, kept), Inr (cm2, padded, to_sample, rejected)) \<Rightarrow>
        padded = map int [0..<sum_list q] \<and> set kept \<subseteq> set padded \<and> rejected = map int n
        \<and> length to_sample = length q
        \<and> list_all (\<lambda>i. to_sample ! i = kept ! nat (cm_query_start_loc cm1 ! Suc i - 1)) [0..<length q]
    | _ \<Rightarrow> False"
proof -
  let ?m = "map2 (-) q n" and ?kept = "concat (map (kept_of q n) [0..<length q])"
  have le: "\<forall>i < length q. n ! i \<le> q ! i" using assms(5) by (simp add: less_imp_le)
  have sub: "sum_list ?m \<le> sum_list q"
  proof -
    have "sum_list ?m \<le> sum_list (map fst (zip q n))" by (rule sum_list_mono) auto
    then show ?thesis using assms(4) by simp
  qed
  obtain cm1 where un: "eagle_prepare_inputs max_num_tokens cm (map int n) = Inr (cm1, ?kept)"
    "cm_query_start_loc cm1 = 0 # cumsum 0 (map int ?m)"
    using prepare_inputs_kept[OF assms(1,3,4) le assms(6) _ assms(10), of max_num_tokens] sub assms(8)
    by (auto split: sum.splits)
  let ?sample = "map2 (\<lambda>a r. a - 1 - r) (cumsum 0 (map int q)) (map int n)"
  obtain cm2 where pd: "prepare_inputs_padded num_arange cm cu_num_draft_tokens valid_counts
      = Inr (cm2, map int [0..<sum_list q], ?sample, map int n)"
    using padded_inputs_total[OF assms(1-4,6,7,9-11)] by blast
  have smp: "?sample ! i = ?kept ! nat (cm_query_start_loc cm1 ! Suc i - 1)" if i: "i < length q" for i
  proof -
    have lens: "map length (take (Suc i) (map (kept_of q n) [0..<length q])) = take (Suc i) ?m"
      by (rule nth_equalityI) (use i assms(4) in \<open>auto simp: kept_of_def\<close>)
    have ne: "kept_of q n i \<noteq> []" using i assms(5) by (auto simp: kept_of_def not_le)
    have "?kept ! (sum_list (take (Suc i) ?m) - 1) = last (kept_of q n i)"
      using concat_nth_last[of i "map (kept_of q n) [0..<length q]"] i ne lens by simp
    moreover have "nat (cm_query_start_loc cm1 ! Suc i - 1) = sum_list (take (Suc i) ?m) - 1"
      using nth_start_locs[of "Suc i" ?m] i assms(4) un(2) by (simp add: nat_diff_distrib')
    moreover have "last (kept_of q n i) = int (start_of q i) + int (q ! i - n ! i - 1)"
      using ne i assms(5) by (simp add: kept_of_def last_map)
    moreover have "?sample ! i = int (start_of q i) + int (q ! i) - 1 - int (n ! i)"
      using i assms(4) by (simp add: nth_cumsum take_map sum_list_int sum_list_take_Suc start_of_def
          del: take_Suc_Cons)
    moreover have "int (q ! i - n ! i - 1) = int (q ! i) - int (n ! i) - 1" using i assms(5) by auto
    ultimately show ?thesis by simp
  qed
  have "set ?kept \<subseteq> set (map int [0..<sum_list q])"
  proof
    fix k assume "k \<in> set ?kept"
    then have "0 \<le> k \<and> k < int (sum_list q)" by (rule kept_range)
    then show "k \<in> set (map int [0..<sum_list q])" by (auto intro!: image_eqI[of _ _ "nat k"])
  qed
  then show ?thesis using un(1) pd smp assms(4) by (simp add: list_all_iff)
qed

section \<open>The inputs of the draft steps\<close>

text \<open>
  What step \<open>j\<close> of the loop gives to the model, in closed form: a request whose last token has position
  \<open>p\<close> drafts for position \<open>p + j\<close>, in its slot of the block table, or is parked at position 0.
\<close>

definition draft_positions :: "eagle_config \<Rightarrow> int list \<Rightarrow> nat \<Rightarrow> int list" where
  "draft_positions cfg ps j = map (\<lambda>p. if eg_max_model_len cfg \<le> p + int j then 0 else p + int j) ps"

definition draft_seq_lens :: "eagle_config \<Rightarrow> int list \<Rightarrow> common_md \<Rightarrow> nat \<Rightarrow> int list" where
  "draft_seq_lens cfg ps cm j =
     map2 (\<lambda>s p. if 0 < j \<and> eg_max_model_len cfg \<le> p + int j then 1 else s + int j) (cm_seq_lens cm) ps"

definition draft_slots :: "eagle_config \<Rightarrow> int list \<Rightarrow> common_md \<Rightarrow> nat \<Rightarrow> int list" where
  "draft_slots cfg ps cm j =
     map2 (\<lambda>row p. if eg_max_model_len cfg \<le> p + int j then PADDING_SLOT_ID
        else row ! nat ((p + int j) div eg_block_size cfg) * eg_block_size cfg + (p + int j) mod eg_block_size cfg)
       (cm_block_table_tensor cm) ps"

definition draft_metadata :: "eagle_config \<Rightarrow> int list \<Rightarrow> common_md \<Rightarrow> nat \<Rightarrow> common_md" where
  "draft_metadata cfg ps cm j =
     cm\<lparr>cm_seq_lens := draft_seq_lens cfg ps cm j,
        cm_seq_lens_cpu := map (\<lambda>s. s + int j) (cm_seq_lens_cpu cm),
        cm_num_computed_tokens_cpu := map (\<lambda>s. s + int j - 1) (cm_seq_lens_cpu cm),
        cm_slot_mapping := draft_slots cfg ps cm j\<rparr>"

fun draft_steps ::
  "nat \<Rightarrow> nat \<Rightarrow> ('h, 'w) draft_model \<Rightarrow> eagle_config \<Rightarrow> nat \<Rightarrow> int list \<Rightarrow> common_md \<Rightarrow> 'h list \<Rightarrow> int list list \<Rightarrow> 'w
    \<Rightarrow> int list list \<times> 'w" where
  "draft_steps 0 j m cfg batch_size ps cm hidden drafts w = (drafts, w)"
| "draft_steps (Suc n) j m cfg batch_size ps cm hidden drafts w =
     (let ((last_hidden_states, new_hidden), w) =
            dm_forward m (draft_metadata cfg ps cm (Suc j)) (last drafts) (draft_positions cfg ps (Suc j)) hidden w
      in draft_steps n (Suc j) m cfg batch_size ps cm
           (take batch_size (if eg_method cfg = ''mtp'' then hidden else new_hidden))
           (drafts @ [dm_greedy m (take batch_size last_hidden_states)]) w)"

text \<open>The block table has a block for every position a request can have.\<close>

definition table_covers :: "eagle_config \<Rightarrow> int list \<Rightarrow> common_md \<Rightarrow> bool" where
  "table_covers cfg ps cm \<longleftrightarrow> 0 < eg_block_size cfg \<and> 0 < eg_max_model_len cfg
     \<and> length (cm_seq_lens cm) = length ps \<and> length ps \<le> length (cm_block_table_tensor cm)
     \<and> list_all (\<lambda>p. 0 \<le> p) ps
     \<and> list_all (\<lambda>row. eg_max_model_len cfg \<le> int (length row) * eg_block_size cfg) (cm_block_table_tensor cm)"

lemma slot_of_covered:
  assumes "0 < bs" "0 \<le> p" "p < int (length row) * bs"
  shows "slot_of bs (row, p) = Inr (row ! nat (p div bs) * bs + p mod bs)"
proof -
  have "0 \<le> p div bs" using assms(1,2) by (simp add: pos_imp_zdiv_nonneg_iff)
  moreover have "p div bs < int (length row)"
  proof (rule ccontr)
    assume "\<not> p div bs < int (length row)"
    then have "int (length row) * bs \<le> p div bs * bs" using assms(1) by (intro mult_right_mono) simp_all
    moreover have "p div bs * bs \<le> p" using div_mult_mod_eq[of p bs] pos_mod_sign[OF assms(1), of p] by linarith
    ultimately show False using assms(3) by simp
  qed
  ultimately show ?thesis by (simp add: slot_of_def at_index_def nth_res_def nat_less_iff)
qed

lemma advance_metadata_step:
  assumes "table_covers cfg ps cm"
    and "cmj = cm\<lparr>cm_seq_lens := draft_seq_lens cfg ps cm j, cm_seq_lens_cpu := map (\<lambda>s. s + int j) (cm_seq_lens_cpu cm),
      cm_num_computed_tokens_cpu := nc, cm_slot_mapping := sl\<rparr>"
  shows "advance_metadata cfg (map (\<lambda>p. p + int (Suc j)) ps) cmj
    = Inr (draft_positions cfg ps (Suc j), draft_metadata cfg ps cm (Suc j))"
proof -
  let ?ps = "map (\<lambda>p. p + int (Suc j)) ps" and ?M = "eg_max_model_len cfg"
  let ?cl = "\<lambda>p. if ?M \<le> p then 0 else p"
  have cov: "0 < eg_block_size cfg" "0 < ?M" "length (cm_seq_lens cm) = length ps"
    "length ps \<le> length (cm_block_table_tensor cm)" "\<forall>p \<in> set ps. 0 \<le> p"
    "\<forall>row \<in> set (cm_block_table_tensor cm). ?M \<le> int (length row) * eg_block_size cfg"
    using assms(1) by (auto simp: table_covers_def list_all_iff)
  have slots: "map_res (slot_of (eg_block_size cfg)) (zip (cm_block_table_tensor cm) (map ?cl ?ps))
    = Inr (map (\<lambda>(row, p). row ! nat (p div eg_block_size cfg) * eg_block_size cfg + p mod eg_block_size cfg)
        (zip (cm_block_table_tensor cm) (map ?cl ?ps)))"
  proof (rule map_res_total)
    fix x assume "x \<in> set (zip (cm_block_table_tensor cm) (map ?cl ?ps))"
    then obtain row p where x: "x = (row, ?cl p)" "row \<in> set (cm_block_table_tensor cm)" "p \<in> set ?ps"
      by (auto simp: set_zip)
    have "0 \<le> ?cl p \<and> ?cl p < ?M" using x(3) cov(2,5) by auto
    then show "slot_of (eg_block_size cfg) x
        = Inr (case x of (row, p) \<Rightarrow> row ! nat (p div eg_block_size cfg) * eg_block_size cfg + p mod eg_block_size cfg)"
      using x(1,2) cov(1,6) slot_of_covered[of "eg_block_size cfg" "?cl p" row] by force
  qed
  have lens: "map2 (\<lambda>s e. if e then 1 else s + 1) (draft_seq_lens cfg ps cm j) (map (\<lambda>p. ?M \<le> p) ?ps)
      = draft_seq_lens cfg ps cm (Suc j)"
    by (rule nth_equalityI) (use cov(3) in \<open>auto simp: draft_seq_lens_def\<close>)
  have sl: "map2 (\<lambda>s e. if e then PADDING_SLOT_ID else s)
        (map (\<lambda>(row, p). row ! nat (p div eg_block_size cfg) * eg_block_size cfg + p mod eg_block_size cfg)
          (zip (cm_block_table_tensor cm) (map ?cl ?ps))) (map (\<lambda>p. ?M \<le> p) ?ps)
      = draft_slots cfg ps cm (Suc j)"
    by (rule nth_equalityI) (use cov(4) in \<open>auto simp: draft_slots_def\<close>)
  have len: "length (draft_seq_lens cfg ps cm j) = length ps" using cov(3) by (simp add: draft_seq_lens_def)
  show ?thesis
    using slots lens sl len cov(4) assms(2)
    by (simp add: advance_metadata_def Let_def draft_metadata_def draft_positions_def add.assoc comp_def)
qed

lemma draft_loop_steps:
  assumes "table_covers cfg ps cm"
  shows "draft_loop n m cfg batch_size ps cm hidden drafts w
    = Inr (draft_steps n 0 m cfg batch_size ps cm hidden drafts w)"
proof -
  have loop: "draft_loop n m cfg batch_size (map (\<lambda>p. p + int j) ps) cmj hidden drafts w
      = Inr (draft_steps n j m cfg batch_size ps cm hidden drafts w)"
    if "\<exists>nc sl. cmj = cm\<lparr>cm_seq_lens := draft_seq_lens cfg ps cm j,
        cm_seq_lens_cpu := map (\<lambda>s. s + int j) (cm_seq_lens_cpu cm),
        cm_num_computed_tokens_cpu := nc, cm_slot_mapping := sl\<rparr>" for j cmj hidden drafts w
    using that
  proof (induction n arbitrary: j cmj hidden drafts w)
    case (Suc n)
    have pos: "map (\<lambda>p. p + 1) (map (\<lambda>p. p + int j) ps) = map (\<lambda>p. p + int (Suc j)) ps" by simp
    have adv: "advance_metadata cfg (map (\<lambda>p. p + int (Suc j)) ps) cmj
        = Inr (draft_positions cfg ps (Suc j), draft_metadata cfg ps cm (Suc j))"
      using advance_metadata_step[OF assms] Suc.prems by blast
    have "\<exists>nc sl. draft_metadata cfg ps cm (Suc j) = cm\<lparr>cm_seq_lens := draft_seq_lens cfg ps cm (Suc j),
        cm_seq_lens_cpu := map (\<lambda>s. s + int (Suc j)) (cm_seq_lens_cpu cm),
        cm_num_computed_tokens_cpu := nc, cm_slot_mapping := sl\<rparr>"
      unfolding draft_metadata_def by blast
    note step = Suc.IH[OF this]
    show ?case
      unfolding draft_loop.simps draft_steps.simps Let_def pos adv bind_res_simps prod.case
      using step by (simp split: prod.splits)
  qed simp
  have "draft_seq_lens cfg ps cm 0 = cm_seq_lens cm"
    by (rule nth_equalityI) (use assms in \<open>auto simp: draft_seq_lens_def table_covers_def\<close>)
  then have "cm = cm\<lparr>cm_seq_lens := draft_seq_lens cfg ps cm 0,
      cm_seq_lens_cpu := map (\<lambda>s. s + int 0) (cm_seq_lens_cpu cm),
      cm_num_computed_tokens_cpu := cm_num_computed_tokens_cpu cm, cm_slot_mapping := cm_slot_mapping cm\<rparr>"
    by simp
  then have "\<exists>nc sl. cm = cm\<lparr>cm_seq_lens := draft_seq_lens cfg ps cm 0,
      cm_seq_lens_cpu := map (\<lambda>s. s + int 0) (cm_seq_lens_cpu cm),
      cm_num_computed_tokens_cpu := nc, cm_slot_mapping := sl\<rparr>" by blast
  from loop[OF this] show ?thesis by simp
qed

text \<open>
  C34. The draft loop is autoregressive: when the block table covers the maximal length, the loop returns
  and its step \<open>j\<close> runs the draft model on the tokens of the step before, every request at the position
  \<open>j\<close> behind its last token and with the slot of that position in its block table; a request that would
  exceed the maximal length is parked at position 0 with sequence length 1 and writes to no slot.
\<close>
theorem draft_loop_autoregressive:
  assumes "table_covers cfg ps cm"
  shows "draft_loop n m cfg batch_size ps cm hidden drafts w
    = Inr (draft_steps n 0 m cfg batch_size ps cm hidden drafts w)"
  using assms by (rule draft_loop_steps)

section \<open>The first step\<close>

lemma put_index_fold:
  assumes "length ts = length is" "\<forall>i \<in> set is. i < length b" "distinct is"
  shows "\<exists>b'. fold_res (\<lambda>(i, t) b. put_index b i t) (zip (map int is) ts) b = Inr b' \<and> length b' = length b
    \<and> (\<forall>k < length is. b' ! (is ! k) = ts ! k) \<and> (\<forall>i. i \<notin> set is \<longrightarrow> b' ! i = b ! i)"
  using assms
proof (induction ts "is" arbitrary: b rule: list_induct2)
  case Nil
  then show ?case by simp
next
  case (Cons t ts i "is")
  then have "put_index b (int i) t = Inr (b[i := t])" by (simp add: put_index_def)
  moreover have "\<exists>b'. fold_res (\<lambda>(i, t) b. put_index b i t) (zip (map int is) ts) (b[i := t]) = Inr b' \<and> length b' = length b
      \<and> (\<forall>k < length is. b' ! (is ! k) = ts ! k) \<and> (\<forall>j. j \<notin> set is \<longrightarrow> b' ! j = b[i := t] ! j)"
    using Cons.IH[of "b[i := t]"] Cons.prems by simp
  ultimately show ?case using Cons.prems by (auto simp: nth_Cons')
qed

lemma start_of_Suc: "i < length q \<Longrightarrow> start_of q (Suc i) = start_of q i + q ! i"
  by (simp add: start_of_def sum_list_take_Suc)

lemma start_of_mono: "i \<le> j \<Longrightarrow> start_of q i \<le> start_of q j"
proof -
  assume "i \<le> j"
  then have "take i q = take i (take j q)" by (simp add: min_def)
  then show ?thesis unfolding start_of_def by (metis sum_list_take_le)
qed

text \<open>The indices of the last tokens of the requests, \<^verbatim>\<open>query_start_loc[1:] - 1\<close>.\<close>

definition last_indices :: "nat list \<Rightarrow> nat list" where
  "last_indices q = map (\<lambda>i. start_of q (Suc i) - 1) [0..<length q]"

text \<open>
  The first step drafts from shifted inputs: every token of a request is replaced by its successor
  in the same request, the last one by the token just sampled for the request, and nothing behind the
  batch changes.
\<close>
theorem shift_within_requests:
  assumes "length target = sum_list q" "q \<noteq> []" "\<forall>i < length q. 0 < q ! i"
    and "length next_tokens = length q" "sum_list q \<le> length buffer"
  shows "case shift_input_ids buffer target (map int (last_indices q)) next_tokens of
      Inl _ \<Rightarrow> False
    | Inr b \<Rightarrow> length b = length buffer
        \<and> (\<forall>i < length q. \<forall>j < q ! i. b ! (start_of q i + j)
            = (if j + 1 < q ! i then target ! (start_of q i + j + 1) else next_tokens ! i))
        \<and> drop (sum_list q) b = drop (sum_list q) buffer"
proof -
  let ?b = "tl target @ drop (length target - 1) buffer"
  have inc: "start_of q i < start_of q (Suc j)" if "i \<le> j" "j < length q" for i j
    using that start_of_mono[of i j q] start_of_Suc[of j q] assms(3) by fastforce
  have le: "start_of q (Suc i) \<le> sum_list q" for i by (simp add: start_of_def sum_list_take_le)
  have pos: "0 < sum_list q"
    using inc[of 0 0] le[of 0] assms(2) by (simp add: start_of_def)
  have len: "length ?b = length buffer" using assms(1,5) pos by simp
  have dist: "distinct (last_indices q)"
  proof -
    have "start_of q (Suc i) - 1 < start_of q (Suc j) - 1" if "i < j" "j < length q" for i j
      using that inc[of "Suc i" j] inc[of 0 i] by (simp add: start_of_def)
    then have less: "last_indices q ! i < last_indices q ! j" if "i < j" "j < length q" for i j
      using that by (simp add: last_indices_def)
    have "i \<noteq> j \<Longrightarrow> last_indices q ! i \<noteq> last_indices q ! j" if "i < length q" "j < length q" for i j
      using less[of i j] less[of j i] that by (cases "i < j") auto
    then show ?thesis unfolding distinct_conv_nth by (simp add: last_indices_def)
  qed
  have range: "i < length ?b" if mem: "i \<in> set (last_indices q)" for i
  proof -
    obtain k where "k < length q" "i = start_of q (Suc k) - 1" using mem by (auto simp: last_indices_def)
    then show ?thesis using le[of k] pos len assms(5) by linarith
  qed
  obtain b where b: "fold_res (\<lambda>(i, t) b. put_index b i t) (zip (map int (last_indices q)) next_tokens) ?b = Inr b"
    "length b = length ?b" "\<forall>k < length (last_indices q). b ! (last_indices q ! k) = next_tokens ! k"
    "\<forall>i. i \<notin> set (last_indices q) \<longrightarrow> b ! i = ?b ! i"
    using put_index_fold[of next_tokens "last_indices q" ?b] range dist assms(4) by (auto simp: last_indices_def)
  have inner: "start_of q i + j \<notin> set (last_indices q)" if ij: "i < length q" "j + 1 < q ! i" for i j
  proof
    assume "start_of q i + j \<in> set (last_indices q)"
    then obtain k where k: "k < length q" "start_of q i + j = start_of q (Suc k) - 1" by (auto simp: last_indices_def)
    have fin: "start_of q i + j + 1 < start_of q (Suc i)" using start_of_Suc[OF ij(1)] ij(2) by simp
    have eq: "start_of q (Suc k) = start_of q i + j + 1" using k inc[of 0 k] by (simp add: start_of_def)
    consider "k < i" | "i \<le> k" by linarith
    then show False
    proof cases
      case 1
      then show ?thesis using start_of_mono[of "Suc k" i q] eq by simp
    next
      case 2
      then show ?thesis using start_of_mono[of "Suc i" "Suc k" q] eq fin by simp
    qed
  qed
  have vals: "b ! (start_of q i + j) = (if j + 1 < q ! i then target ! (start_of q i + j + 1) else next_tokens ! i)"
    if ij: "i < length q" "j < q ! i" for i j
  proof (cases "j + 1 < q ! i")
    case True
    have "start_of q i + j + 1 < length target"
      using True le[of i] start_of_Suc[OF ij(1)] assms(1) by simp
    then have "?b ! (start_of q i + j) = target ! (start_of q i + j + 1)"
      by (simp add: nth_append nth_tl less_diff_conv)
    then show ?thesis using inner[OF ij(1) True] b(4) True by simp
  next
    case False
    then have "start_of q i + j = last_indices q ! i"
      using ij start_of_Suc[OF ij(1)] by (simp add: last_indices_def)
    then show ?thesis using b(3) ij False by (simp add: last_indices_def)
  qed
  have rest: "drop (sum_list q) b = drop (sum_list q) buffer"
  proof (rule nth_equalityI)
    show "length (drop (sum_list q) b) = length (drop (sum_list q) buffer)" using b(2) len by simp
    fix k assume k: "k < length (drop (sum_list q) b)"
    have "sum_list q + k \<notin> set (last_indices q)"
    proof
      assume "sum_list q + k \<in> set (last_indices q)"
      then obtain i where "i < length q" "sum_list q + k = start_of q (Suc i) - 1" by (auto simp: last_indices_def)
      then show False using le[of i] pos by simp
    qed
    then show "drop (sum_list q) b ! k = drop (sum_list q) buffer ! k"
      using b(4) k b(2) len assms(1,5) pos by (auto simp: nth_append)
  qed
  have "length target \<noteq> 0" unfolding assms(1) using pos by (rule less_not_refl2)
  then have "target \<noteq> []" by simp
  moreover have "length target \<le> length buffer" using assms(1,5) by simp
  moreover have "length (map int (last_indices q)) = length next_tokens" using assms(4) by (simp add: last_indices_def)
  ultimately have "shift_input_ids buffer target (map int (last_indices q)) next_tokens = Inr b"
    using b(1) by (simp add: shift_input_ids_def)
  then show ?thesis using b(2) len vals rest by simp
qed

section \<open>What is proposed\<close>

text \<open>A forward pass has a last hidden state for every input, and every hidden state a greedy token.\<close>

definition model_laws :: "('h, 'w) draft_model \<Rightarrow> bool" where
  "model_laws m \<longleftrightarrow> (\<forall>cm ids ps hs w. length (fst (fst (dm_forward m cm ids ps hs w))) = length ids)
     \<and> (\<forall>hs. length (dm_greedy m hs) = length hs)"

lemma draft_steps_shape:
  assumes "model_laws m" "length (last drafts) = batch_size" "drafts \<noteq> []" "\<forall>d \<in> set drafts. length d = batch_size"
  shows "length (fst (draft_steps n j m cfg batch_size ps cm hidden drafts w)) = length drafts + n
    \<and> (\<forall>d \<in> set (fst (draft_steps n j m cfg batch_size ps cm hidden drafts w)). length d = batch_size)"
  using assms(2-4)
proof (induction n arbitrary: j hidden drafts w)
  case (Suc n)
  obtain l h w' where f: "dm_forward m (draft_metadata cfg ps cm (Suc j)) (last drafts) (draft_positions cfg ps (Suc j)) hidden w
      = ((l, h), w')" by (metis prod.collapse)
  have l: "length l = batch_size"
    using assms(1) Suc.prems(1) f unfolding model_laws_def by (metis fst_conv)
  have "length (dm_greedy m (take batch_size l)) = batch_size"
    using assms(1) l by (simp add: model_laws_def)
  then show ?case
    using Suc.IH[of "drafts @ [dm_greedy m (take batch_size l)]" "Suc j"] Suc.prems f
    by simp
qed simp

lemma table_covers_decode:
  assumes "table_covers cfg ps cm" "length ps = b"
    and "decode_metadata cfg b cm = Inr cmk"
  shows "table_covers cfg ps cmk"
  using assms by (auto simp: decode_metadata_def build_common_metadata_def table_covers_def bind_res_eq_Inr
      Let_def split: if_splits)

text \<open>The steps keep the drafts they start with.\<close>

lemma draft_steps_extend: "\<exists>ds. fst (draft_steps n j m cfg batch_size ps cm hidden drafts w) = drafts @ ds"
proof (induction n arbitrary: j hidden drafts w)
  case (Suc n)
  obtain l h w' where f: "dm_forward m (draft_metadata cfg ps cm (Suc j)) (last drafts) (draft_positions cfg ps (Suc j)) hidden w
      = ((l, h), w')" by (metis prod.collapse)
  show ?case
    using Suc[of "Suc j" "take batch_size (if eg_method cfg = ''mtp'' then hidden else h)" "drafts @ [dm_greedy m (take batch_size l)]" w'] f
    by auto
qed simp

text \<open>The first drafts are the greedy tokens of the hidden states at the sampled indices, of a forward over the shifted tokens.\<close>

definition first_drafts_sampled ::
  "('h, 'w) draft_model \<Rightarrow> eagle_config \<Rightarrow> int list \<Rightarrow> int list \<Rightarrow> int list \<Rightarrow> 'h list \<Rightarrow> int list \<Rightarrow> int list \<Rightarrow> common_md \<Rightarrow> 'w
    \<Rightarrow> int list \<Rightarrow> bool" where
  "first_drafts_sampled m cfg buffer target target_positions hidden next_tokens is cm w drafts =
     (case shift_input_ids buffer target is next_tokens of Inl _ \<Rightarrow> False
      | Inr ids \<Rightarrow>
        let ((last_hidden_states, _), _) = dm_forward m cm (take (length target) ids) (take (length target) target_positions)
              (if eg_method cfg = ''eagle3'' then dm_combine_hidden_states m hidden else hidden) w
        in drafts = dm_greedy m (map (\<lambda>i. last_hidden_states ! nat i) is))"

lemma propose_total:
  assumes "model_laws m" "target \<noteq> []" "length target \<le> length buffer"
    and "length target_positions = length target" "length is = length next_tokens" "next_tokens \<noteq> []"
    and "list_all (\<lambda>i. 0 \<le> i \<and> i < int (length target)) is"
    and "table_covers cfg (map (\<lambda>i. target_positions ! nat i) is) cm"
    and "1 \<le> eg_num_speculative_tokens cfg"
  shows "case propose m cfg buffer target target_positions hidden next_tokens (Some is) cm w of
      Inl _ \<Rightarrow> False
    | Inr (rows, _, _) \<Rightarrow> length rows = length next_tokens
        \<and> list_all (\<lambda>row. length row = eg_num_speculative_tokens cfg) rows
        \<and> first_drafts_sampled m cfg buffer target target_positions hidden next_tokens is cm w (map hd rows)"
proof -
  let ?k = "eg_num_speculative_tokens cfg" and ?ps = "map (\<lambda>i. target_positions ! nat i) is"
  let ?hs = "if eg_method cfg = ''eagle3'' then dm_combine_hidden_states m hidden else hidden"
  have rng: "\<forall>i \<in> set is. 0 \<le> i \<and> i < int (length target)" using assms(7) by (simp add: list_all_iff)
  have "\<exists>b'. fold_res (\<lambda>(i, t) b. put_index b i t) (zip is ts) b = Inr b' \<and> length b' = length b"
    if "\<forall>i \<in> set is. 0 \<le> i \<and> i < int (length b)" for "is" ts and b :: "int list"
    using that
  proof (induction "is" ts arbitrary: b rule: list_induct2')
    case (4 i "is" t ts)
    then show ?case using "4.IH"[of "b[nat i := t]"] by (simp add: put_index_def put_res_def nat_less_iff)
  qed auto
  note writes = this[of "is" "tl target @ drop (length target - 1) buffer" next_tokens]
  have size: "length (tl target @ drop (length target - 1) buffer) = length buffer"
    using assms(2,3) by (cases target) auto
  have "\<forall>i \<in> set is. 0 \<le> i \<and> i < int (length buffer)" using rng assms(3) by fastforce
  then obtain b where b: "shift_input_ids buffer target is next_tokens = Inr b" "length b = length buffer"
    using writes assms(2,3,5) unfolding size by (auto simp: shift_input_ids_def)
  obtain l h w1 where f: "dm_forward m cm (take (length target) b) (take (length target) target_positions) ?hs w = ((l, h), w1)"
    by (metis prod.collapse)
  have l: "length l = length target"
    using assms(1,3) f b(2) unfolding model_laws_def by (metis (no_types, lifting) fst_conv length_take min.absorb2)
  have sel: "gather_at l is = Inr (map (\<lambda>i. l ! nat i) is)" "gather_at target_positions is = Inr ?ps"
    by (rule gather_at_nat, use rng l assms(4) in auto)+
  let ?d = "dm_greedy m (map (\<lambda>i. l ! nat i) is)"
  have d: "length ?d = length next_tokens" using assms(1,5) by (simp add: model_laws_def)
  show ?thesis
  proof (cases "?k = 1")
    case True
    then show ?thesis using b(1) f sel(1) d
      by (simp add: propose_def first_drafts_sampled_def Let_def list_all_iff comp_def)
  next
    case False
    obtain cmk where cmk: "decode_metadata cfg (length next_tokens) cm = Inr cmk"
      using assms(6) by (cases "cm_infer_mode cm = Some DECODE_ONLY")
        (simp_all add: decode_metadata_def build_common_metadata_def max_of_def Let_def)
    have "table_covers cfg ?ps cmk" by (rule table_covers_decode[OF assms(8) _ cmk]) (simp add: assms(5))
    note loop = draft_loop_steps[OF this, of "?k - 1" m "length next_tokens" "map (\<lambda>i. l ! nat i) is" "[?d]" w1]
    obtain ds w2 where ds: "draft_steps (?k - 1) 0 m cfg (length next_tokens) ?ps cmk (map (\<lambda>i. l ! nat i) is) [?d] w1 = (ds, w2)"
      by (metis prod.collapse)
    have "length ds = ?k"
      using draft_steps_shape[OF assms(1), of "[?d]" "length next_tokens" "?k - 1" 0 cfg ?ps cmk "map (\<lambda>i. l ! nat i) is" w1]
        ds d assms(9) by simp
    moreover obtain ds' where hd: "ds = ?d # ds'"
      using draft_steps_extend[of "?k - 1" 0 m cfg "length next_tokens" ?ps cmk "map (\<lambda>i. l ! nat i) is" "[?d]" w1] ds by auto
    have "map (hd \<circ> (\<lambda>i. map (\<lambda>d. d ! i) ds)) [0..<length next_tokens] = ?d"
      unfolding hd by (rule nth_equalityI) (use d in simp_all)
    ultimately show ?thesis using False b(1) f sel cmk loop ds
      by (simp add: propose_def first_drafts_sampled_def Let_def stack_rows_def list_all_iff)
  qed
qed

text \<open>
  The proposer returns for every request exactly as many draft tokens as configured: when the sampled
  indices are tokens of the batch and the block table covers the maximal length, no access is out of
  range, in the prefill and in the decode mode, and the result has a row of that length per request.
\<close>
theorem propose_returns:
  assumes "model_laws m" "target \<noteq> []" "length target \<le> length buffer"
    and "length target_positions = length target" "length is = length next_tokens" "next_tokens \<noteq> []"
    and "list_all (\<lambda>i. 0 \<le> i \<and> i < int (length target)) is"
    and "table_covers cfg (map (\<lambda>i. target_positions ! nat i) is) cm"
    and "1 \<le> eg_num_speculative_tokens cfg"
  shows "case propose m cfg buffer target target_positions hidden next_tokens (Some is) cm w of
      Inl _ \<Rightarrow> False
    | Inr (rows, _, _) \<Rightarrow> length rows = length next_tokens
        \<and> list_all (\<lambda>row. length row = eg_num_speculative_tokens cfg) rows"
  using propose_total[OF assms, of hidden w] by (auto split: sum.splits)

text \<open>
  Behind a prefill the remaining draft steps run without their context: the metadata of a batch that
  is not decode only is rebuilt with sequence length 1 for every request, so at step \<open>j\<close> the model
  attends to \<open>1 + j\<close> tokens although the request is at position \<open>p + j\<close>.
\<close>
theorem prefill_drafts_lose_context:
  assumes "cm_infer_mode cm \<noteq> Some DECODE_ONLY" "decode_metadata cfg (length ps) cm = Inr cmk"
    and "i < length ps" "ps ! i + int j < eg_max_model_len cfg"
  shows "cm_seq_lens (draft_metadata cfg ps cmk j) ! i = 1 + int j
    \<and> draft_positions cfg ps j ! i = ps ! i + int j"
  using assms by (auto simp: decode_metadata_def build_common_metadata_def bind_res_eq_Inr draft_metadata_def
      draft_seq_lens_def draft_positions_def Let_def)

section \<open>A concrete drafter\<close>

text \<open>Hidden states are numbers, a model adds the token to them, and the greedy token is the state modulo 100.\<close>

definition tiny_model :: "(int, unit) draft_model" where
  "tiny_model = \<lparr>dm_combine_hidden_states = (\<lambda>hs. hs),
     dm_forward = (\<lambda>cm ids ps hs w. ((map (\<lambda>i. i + 1) ids, map (\<lambda>i. i + 1) ids), w)),
     dm_greedy = map (\<lambda>h. h mod 100)\<rparr>"

definition tiny_cfg :: eagle_config where
  "tiny_cfg = \<lparr>eg_method = ''mtp'', eg_num_speculative_tokens = 3, eg_max_model_len = 8, eg_block_size = 2\<rparr>"

definition tiny_batch :: "infer_mode \<Rightarrow> common_md" where
  "tiny_batch md =
     \<lparr>cm_query_start_loc = [0, 3, 5], cm_query_start_loc_cpu = [0, 3, 5], cm_seq_lens = [4, 7],
      cm_seq_lens_cpu = [4, 7], cm_num_computed_tokens_cpu = [1, 5], cm_num_reqs = 2, cm_num_actual_tokens = 5,
      cm_max_query_len = 3, cm_max_seq_len = 7, cm_block_table_tensor = [[9, 8, 7, 6], [5, 4, 3, 2]],
      cm_slot_mapping = [19, 16, 17, 7, 4], cm_seq_start_loc = [0, 4, 11], cm_num_input_tokens = 5,
      cm_infer_mode = Some md, cm_num_prefill_query_tokens = 5, cm_num_prefill_kv_tokens = 5\<rparr>"

lemma tiny_locs: "cm_query_start_loc_cpu (tiny_batch md) = 0 # cumsum 0 (map int [3, 2])"
  by (simp add: tiny_batch_def)

lemma prepare_inputs_keeps_witness:
  "case eagle_prepare_inputs 8 (tiny_batch DECODE_ONLY) (map int [1, 0]) of
      Inl _ \<Rightarrow> False
    | Inr (cm', token_indices) \<Rightarrow> token_indices = concat (map (kept_of [3, 2] [1, 0]) [0..<length [3 :: nat, 2]])
        \<and> cm_query_start_loc cm' = 0 # cumsum 0 (map int (map2 (-) [3, 2] [1, 0]))
        \<and> cm_seq_lens cm' = map2 (-) (cm_seq_lens_cpu (tiny_batch DECODE_ONLY)) (map int [1, 0])
        \<and> cm_num_actual_tokens cm' = sum_list (map2 (-) [3, 2] [1, 0])
        \<and> cm_slot_mapping cm' = map (\<lambda>k. cm_slot_mapping (tiny_batch DECODE_ONLY) ! nat k) token_indices"
  by (rule prepare_inputs_keeps[OF tiny_locs]) (auto simp: tiny_batch_def less_Suc_eq)

lemma padded_inputs_agree_witness:
  "case (eagle_prepare_inputs 8 (tiny_batch DECODE_ONLY) (map int [1, 0]),
        prepare_inputs_padded 8 (tiny_batch DECODE_ONLY) [2, 3] [2, 2]) of
      (Inr (cm1, kept), Inr (cm2, padded, to_sample, rejected)) \<Rightarrow>
        padded = map int [0..<sum_list [3, 2]] \<and> set kept \<subseteq> set padded \<and> rejected = map int [1, 0]
        \<and> length to_sample = length [3 :: nat, 2]
        \<and> list_all (\<lambda>i. to_sample ! i = kept ! nat (cm_query_start_loc cm1 ! Suc i - 1)) [0..<length [3 :: nat, 2]]
    | _ \<Rightarrow> False"
  by (rule padded_inputs_agree[OF tiny_locs])
    (auto simp: tiny_batch_def less_Suc_eq num_rejected_padded_def zip_with_def)

lemma draft_loop_autoregressive_witness:
  "draft_loop 2 tiny_model tiny_cfg 2 [3, 6] (tiny_batch DECODE_ONLY) [1, 2] [[11, 12]] ()
    = Inr (draft_steps 2 0 tiny_model tiny_cfg 2 [3, 6] (tiny_batch DECODE_ONLY) [1, 2] [[11, 12]] ())"
  by (rule draft_loop_autoregressive) (simp add: table_covers_def tiny_batch_def tiny_cfg_def)

lemma shift_within_requests_witness:
  "case shift_input_ids [0, 0, 0, 0, 0, 0] [1, 2, 3, 4, 5] (map int (last_indices [3, 2])) [30, 50] of
      Inl _ \<Rightarrow> False
    | Inr b \<Rightarrow> length b = length [0 :: int, 0, 0, 0, 0, 0]
        \<and> (\<forall>i < length [3 :: nat, 2]. \<forall>j < [3, 2] ! i. b ! (start_of [3, 2] i + j)
            = (if j + 1 < [3, 2] ! i then [1, 2, 3, 4, 5] ! (start_of [3, 2] i + j + 1) else [30, 50] ! i))
        \<and> drop (sum_list [3, 2]) b = drop (sum_list [3, 2]) [0, 0, 0, 0, 0, 0]"
  by (rule shift_within_requests) (auto simp: less_Suc_eq)

lemma propose_returns_witness:
  "case propose tiny_model tiny_cfg [0, 0, 0, 0, 0, 0] [1, 2, 3, 4, 5] [1, 2, 3, 5, 6] [0, 0, 0, 0, 0] [30, 50]
        (Some [2, 4]) (tiny_batch CHUNKED) () of
      Inl _ \<Rightarrow> False
    | Inr (rows, _, _) \<Rightarrow> length rows = length [30 :: int, 50]
        \<and> list_all (\<lambda>row. length row = eg_num_speculative_tokens tiny_cfg) rows"
  by (rule propose_returns)
    (simp_all add: model_laws_def tiny_model_def table_covers_def tiny_batch_def tiny_cfg_def)

lemma tiny_decode:
  "decode_metadata tiny_cfg (length [3 :: int, 6]) (tiny_batch CHUNKED)
    = Inr ((tiny_batch CHUNKED)\<lparr>cm_query_start_loc := [0, 1, 2], cm_query_start_loc_cpu := [0, 1, 2],
        cm_seq_lens := [1, 1], cm_seq_lens_cpu := [1, 1], cm_num_actual_tokens := 2, cm_max_query_len := 1,
        cm_max_seq_len := 1, cm_seq_start_loc := [0, 1, 2], cm_num_input_tokens := 2,
        cm_num_prefill_query_tokens := 2, cm_num_prefill_kv_tokens := 2\<rparr>)"
  by (simp add: decode_metadata_def build_common_metadata_def build_infer_mode_def max_of_def tiny_batch_def
      tiny_cfg_def numeral_2_eq_2 Let_def)

lemma prefill_drafts_lose_context_witness:
  "cm_seq_lens (draft_metadata tiny_cfg [3, 6] ((tiny_batch CHUNKED)\<lparr>cm_query_start_loc := [0, 1, 2],
        cm_query_start_loc_cpu := [0, 1, 2],
        cm_seq_lens := [1, 1], cm_seq_lens_cpu := [1, 1], cm_num_actual_tokens := 2, cm_max_query_len := 1,
        cm_max_seq_len := 1, cm_seq_start_loc := [0, 1, 2], cm_num_input_tokens := 2,
        cm_num_prefill_query_tokens := 2, cm_num_prefill_kv_tokens := 2\<rparr>) 2) ! 0 = 1 + int 2
    \<and> draft_positions tiny_cfg [3, 6] 2 ! 0 = [3, 6] ! 0 + int 2"
  by (rule prefill_drafts_lose_context[OF _ tiny_decode]) (simp_all add: tiny_batch_def tiny_cfg_def)

end
