(* ===== verification/GdnMetadata.thy ===== *)
theory GdnMetadata
  imports LocalIds
begin

text \<open>
  The metadata of gated delta net layers (\<^verbatim>\<open>GDNAttentionMetadataBuilder\<close> in
  \<^verbatim>\<open>vllm_mlu/v1/attention/backends/gdn_attn.py\<close>): a batch is divided into the requests that verify
  draft tokens and the others, the tokens of both are indexed, the metadata is padded for full device
  graphs and the state ids of the other requests become local ids. Arguments are
  \<open>split_decodes_and_prefills\<close> and \<open>compute_causal_conv1d_metadata\<close> of vLLM, the padding of the batch
  size, \<open>torch.argsort\<close> and the contents of fresh buffers.
\<close>

section \<open>The code\<close>

record gdn_batch =
  gd_query_start_loc :: "nat list"
  gd_num_computed_tokens :: "nat list"
  gd_block_table :: "int list list"
  gd_num_actual_tokens :: nat

record gdn_builder =
  gb_num_spec :: nat
  gb_use_full_cuda_graph :: bool
  gb_decode_cudagraph_max_bs :: nat
  gb_spec_state_indices :: "int list list"
  gb_non_spec_state_indices :: "int list"
  gb_spec_sequence_masks :: "bool list"
  gb_spec_token_indx :: "nat list"
  gb_non_spec_token_indx :: "nat list"
  gb_spec_query_start_loc :: "nat list"
  gb_non_spec_query_start_loc :: "nat list"
  gb_num_accepted_tokens :: "nat list"
  gb_mapper :: id_mapper

text \<open>The constructor; the contents of \<open>torch.empty\<close> are \<open>junk\<close>.\<close>

definition new_gdn_builder :: "nat \<Rightarrow> bool \<Rightarrow> nat \<Rightarrow> nat \<Rightarrow> nat \<Rightarrow> int \<Rightarrow> nat \<Rightarrow> bool \<Rightarrow> gdn_builder res" where
  "new_gdn_builder num_speculative_tokens full_graph max_num_seqs max_capture_size junk junk_id mamba_max_batch junk_mask =
     (let num_spec = num_speculative_tokens;
          max_bs = min (max_num_seqs * (num_spec + 1)) max_capture_size
      in bind_res (new_mapper (int mamba_max_batch)) (\<lambda>mapper.
         Inr \<lparr>gb_num_spec = num_spec, gb_use_full_cuda_graph = full_graph, gb_decode_cudagraph_max_bs = max_bs,
              gb_spec_state_indices = replicate max_bs (replicate (num_spec + 1) junk_id),
              gb_non_spec_state_indices = replicate max_bs junk_id,
              gb_spec_sequence_masks = replicate max_bs junk_mask,
              gb_spec_token_indx = replicate (max_bs * (num_spec + 1)) junk,
              gb_non_spec_token_indx = replicate (max_bs * (num_spec + 1)) junk,
              gb_spec_query_start_loc = replicate (max_bs + 1) junk,
              gb_non_spec_query_start_loc = replicate (max_bs + 1) junk,
              gb_num_accepted_tokens = replicate max_bs junk,
              gb_mapper = mapper\<rparr>))"

definition PAD_SLOT_ID :: int where "PAD_SLOT_ID = -1"

text \<open>Selecting by a mask of booleans.\<close>

definition mask_select :: "bool list \<Rightarrow> 'a list \<Rightarrow> 'a list res" where
  "mask_select m xs = require (length m = length xs) IndexError (Inr (map snd (filter fst (zip m xs))))"

definition first_column :: "int list list \<Rightarrow> int list res" where
  "first_column rows = map_res (\<lambda>r. nth_res r 0) rows"

definition repeat_interleave :: "'a list \<Rightarrow> nat list \<Rightarrow> 'a list res" where
  "repeat_interleave xs lens = require (length xs = length lens) RuntimeError (Inr (concat (map2 (\<lambda>x n. replicate n x) xs lens)))"

text \<open>
  \<open>buf[:n].copy_(src)\<close>, then \<open>buf[:m]\<close> with everything from \<open>n\<close> on filled with \<open>v\<close>: the buffer
  and the slice.
\<close>

definition copy_prefix :: "'a list \<Rightarrow> nat \<Rightarrow> 'a list \<Rightarrow> 'a list res" where
  "copy_prefix buf n src =
     (let k = min n (length buf) in
      if length src = k then Inr (src @ drop k buf)
      else require (length src = 1) RuntimeError (Inr (replicate k (hd src) @ drop k buf)))"

definition copy_pad :: "'a list \<Rightarrow> nat \<Rightarrow> 'a list \<Rightarrow> nat \<Rightarrow> 'a \<Rightarrow> ('a list \<times> 'a list) res" where
  "copy_pad buf n src m v =
     bind_res (copy_prefix buf n src) (\<lambda>buf.
     let buf' = map (\<lambda>i. if n \<le> i \<and> i < m then v else buf ! i) [0..<length buf]
     in Inr (buf', take m buf'))"

text \<open>Rows are copied column by column; a row of one column is repeated.\<close>

definition fit_row :: "nat \<Rightarrow> int list \<Rightarrow> int list res" where
  "fit_row w r = (if length r = w then Inr r else require (length r = 1) RuntimeError (Inr (replicate w (hd r))))"

record 'c gdn_metadata =
  gm_num_prefills :: nat
  gm_num_prefill_tokens :: nat
  gm_num_decodes :: nat
  gm_num_decode_tokens :: nat
  gm_num_spec_decodes :: nat
  gm_num_spec_decode_tokens :: nat
  gm_num_actual_tokens :: nat
  gm_has_initial_state :: "bool list option"
  gm_spec_query_start_loc :: "nat list option"
  gm_non_spec_query_start_loc :: "nat list option"
  gm_spec_state_indices :: "int list list option"
  gm_non_spec_state_indices :: "int list option"
  gm_spec_sequence_masks :: "bool list option"
  gm_spec_token_indx :: "nat list option"
  gm_non_spec_token_indx :: "nat list option"
  gm_num_accepted_tokens :: "nat list option"
  gm_conv :: "'c option"

text \<open>Which requests verify drafts: none at all when no request has a draft token.\<close>

definition spec_masks :: "nat \<Rightarrow> int list option \<Rightarrow> bool list option" where
  "spec_masks num_spec draft_counts =
     (case draft_counts of
        None \<Rightarrow> None
      | Some ds \<Rightarrow>
          if num_spec = 0 \<or> sum_list (filter (\<lambda>d. 0 \<le> d) ds) = 0 then None
          else Some (map (\<lambda>d. 0 \<le> d) ds))"

definition query_lens_of :: "nat list \<Rightarrow> nat list" where
  "query_lens_of locs = map2 (\<lambda>b a. b - a) (tl locs) (butlast locs)"

text \<open>The division without drafts, with drafts only, and mixed. State ids are still global.\<close>

definition plain_division :: "(gdn_batch \<Rightarrow> nat \<times> nat \<times> nat \<times> nat) \<Rightarrow> gdn_batch \<Rightarrow> 'c gdn_metadata res" where
  "plain_division split b =
     (case split b of (num_decodes, num_prefills, num_decode_tokens, num_prefill_tokens) \<Rightarrow>
      bind_res (first_column (gd_block_table b)) (\<lambda>states.
      Inr \<lparr>gm_num_prefills = num_prefills, gm_num_prefill_tokens = num_prefill_tokens, gm_num_decodes = num_decodes,
           gm_num_decode_tokens = num_decode_tokens, gm_num_spec_decodes = 0, gm_num_spec_decode_tokens = 0,
           gm_num_actual_tokens = 0, gm_has_initial_state = None, gm_spec_query_start_loc = None,
           gm_non_spec_query_start_loc = Some (gd_query_start_loc b), gm_spec_state_indices = None,
           gm_non_spec_state_indices = Some states, gm_spec_sequence_masks = None, gm_spec_token_indx = None,
           gm_non_spec_token_indx = None, gm_num_accepted_tokens = None, gm_conv = None\<rparr>))"

definition only_spec :: "nat \<Rightarrow> gdn_batch \<Rightarrow> 'c gdn_metadata \<Rightarrow> 'c gdn_metadata res" where
  "only_spec num_spec b md =
     bind_res (case gd_query_start_loc b of [] \<Rightarrow> Inl IndexError | q # qs \<Rightarrow> Inr (last (q # qs))) (\<lambda>end_loc.
     Inr (md\<lparr>gm_spec_token_indx := Some [0..<min (gm_num_spec_decodes md * (num_spec + 1)) end_loc],
             gm_non_spec_token_indx := Some [],
             gm_spec_state_indices := Some (map (take (num_spec + 1)) (gd_block_table b)),
             gm_spec_query_start_loc := Some (gd_query_start_loc b)\<rparr>))"

definition mixed_division ::
  "(bool list \<Rightarrow> nat list) \<Rightarrow> nat \<Rightarrow> gdn_batch \<Rightarrow> bool list \<Rightarrow> 'c gdn_metadata \<Rightarrow> 'c gdn_metadata res" where
  "mixed_division argsort num_spec b m md =
     (let query_lens = query_lens_of (gd_query_start_loc b);
          other = map Not m
      in bind_res (repeat_interleave m query_lens) (\<lambda>token_masks.
         let index = argsort token_masks;
             num_non_spec_tokens = gm_num_prefill_tokens md + gm_num_decode_tokens md
         in bind_res (mask_select m (gd_block_table b)) (\<lambda>spec_rows.
            bind_res (mask_select other (gd_block_table b)) (\<lambda>other_rows.
            bind_res (first_column other_rows) (\<lambda>other_states.
            bind_res (mask_select m query_lens) (\<lambda>spec_lens.
            bind_res (mask_select other query_lens) (\<lambda>other_lens.
            Inr (md\<lparr>gm_spec_token_indx := Some (drop num_non_spec_tokens index),
                    gm_non_spec_token_indx := Some (take num_non_spec_tokens index),
                    gm_spec_state_indices := Some (map (take (num_spec + 1)) spec_rows),
                    gm_non_spec_state_indices := Some other_states,
                    gm_spec_query_start_loc := Some (0 # accumulate spec_lens),
                    gm_non_spec_query_start_loc := Some (0 # accumulate other_lens)\<rparr>))))))))"

definition spec_division ::
  "(bool list \<Rightarrow> nat list) \<Rightarrow> nat \<Rightarrow> gdn_batch \<Rightarrow> bool list \<Rightarrow> nat list option \<Rightarrow> 'c gdn_metadata res" where
  "spec_division argsort num_spec b m num_accepted_tokens =
     (let query_lens = query_lens_of (gd_query_start_loc b) in
      bind_res (mask_select (map Not m) query_lens) (\<lambda>other_lens.
      let num_decodes = length (filter (\<lambda>n. n = 1) other_lens);
          num_prefill_tokens = sum_list other_lens - num_decodes;
          md = \<lparr>gm_num_prefills = length other_lens - num_decodes, gm_num_prefill_tokens = num_prefill_tokens,
                gm_num_decodes = num_decodes, gm_num_decode_tokens = num_decodes,
                gm_num_spec_decodes = length (filter id m),
                gm_num_spec_decode_tokens = sum_list query_lens - num_prefill_tokens - num_decodes,
                gm_num_actual_tokens = 0, gm_has_initial_state = None, gm_spec_query_start_loc = None,
                gm_non_spec_query_start_loc = None, gm_spec_state_indices = None, gm_non_spec_state_indices = None,
                gm_spec_sequence_masks = Some m, gm_spec_token_indx = None, gm_non_spec_token_indx = None,
                gm_num_accepted_tokens = None, gm_conv = None\<rparr>
      in bind_res (if gm_num_prefills md = 0 \<and> gm_num_decodes md = 0 then only_spec num_spec b md
                   else mixed_division argsort num_spec b m md) (\<lambda>md.
         bind_res (case num_accepted_tokens of None \<Rightarrow> Inl AssertionError | Some n \<Rightarrow> mask_select m n) (\<lambda>accepted.
         Inr (md\<lparr>gm_num_accepted_tokens := Some accepted\<rparr>)))))"

text \<open>The first convolution state of a request that computed tokens before is taken from the cache.\<close>

definition with_prefills :: "(nat list \<Rightarrow> 'c) \<Rightarrow> gdn_batch \<Rightarrow> 'c gdn_metadata \<Rightarrow> 'c gdn_metadata res" where
  "with_prefills conv_metadata b md =
     (if 0 < gm_num_prefills md then
        let started = map (\<lambda>n. 0 < n) (gd_num_computed_tokens b)
        in bind_res (case gm_spec_sequence_masks md of
              None \<Rightarrow> Inr started
            | Some m \<Rightarrow> mask_select (map Not m) started) (\<lambda>started.
           bind_res (case gm_non_spec_query_start_loc md of None \<Rightarrow> Inl AttributeError | Some q \<Rightarrow> Inr q) (\<lambda>q.
           Inr (md\<lparr>gm_has_initial_state := Some started, gm_conv := Some (conv_metadata q)\<rparr>)))
      else Inr md)"

definition last_of :: "nat list \<Rightarrow> nat res" where
  "last_of xs = (if xs = [] then Inl IndexError else Inr (last xs))"

definition given :: "'a option \<Rightarrow> 'a res" where
  "given x = (case x of None \<Rightarrow> Inl TypeError | Some y \<Rightarrow> Inr y)"

text \<open>A batch of drafts only is copied into the buffers of the device graph and padded.\<close>

definition pad_spec :: "(nat \<Rightarrow> nat) \<Rightarrow> gdn_batch \<Rightarrow> gdn_builder \<times> 'c gdn_metadata \<Rightarrow> (gdn_builder \<times> 'c gdn_metadata) res" where
  "pad_spec pad_for_cudagraph b st = (case st of (g, md) \<Rightarrow>
     let n = gm_num_spec_decodes md;
         num_actual_tokens = pad_for_cudagraph (gd_num_actual_tokens b);
         batch_size = min (gb_decode_cudagraph_max_bs g) num_actual_tokens;
         w = gb_num_spec g + 1
     in bind_res (given (gm_spec_state_indices md)) (\<lambda>states.
        bind_res (map_res (fit_row w) states) (\<lambda>states.
        bind_res (copy_pad (gb_spec_state_indices g) n states batch_size (replicate w PAD_SLOT_ID)) (\<lambda>(b1, states).
        bind_res (given (gm_spec_sequence_masks md)) (\<lambda>masks.
        bind_res (copy_pad (gb_spec_sequence_masks g) n masks batch_size False) (\<lambda>(b2, masks).
        require (gm_non_spec_token_indx md \<noteq> None \<and> gm_spec_token_indx md \<noteq> None) AssertionError
        (let non_spec = the (gm_non_spec_token_indx md); spec = the (gm_spec_token_indx md) in
        bind_res (copy_pad (gb_non_spec_token_indx g) (length non_spec) non_spec (length non_spec) 0) (\<lambda>(b3, non_spec).
        bind_res (copy_pad (gb_spec_token_indx g) (length spec) spec (length spec) 0) (\<lambda>(b4, spec).
        bind_res (given (gm_spec_query_start_loc md)) (\<lambda>locs.
        bind_res (last_of locs) (\<lambda>tokens.
        bind_res (copy_pad (gb_spec_query_start_loc g) (n + 1) locs (batch_size + 1) tokens) (\<lambda>(b5, locs).
        bind_res (given (gm_num_accepted_tokens md)) (\<lambda>accepted.
        bind_res (copy_pad (gb_num_accepted_tokens g) n accepted batch_size 1) (\<lambda>(b6, accepted).
        Inr (g\<lparr>gb_spec_state_indices := b1, gb_spec_sequence_masks := b2, gb_non_spec_token_indx := b3,
               gb_spec_token_indx := b4, gb_spec_query_start_loc := b5, gb_num_accepted_tokens := b6\<rparr>,
             md\<lparr>gm_num_actual_tokens := num_actual_tokens, gm_spec_state_indices := Some states,
                gm_spec_sequence_masks := Some masks, gm_non_spec_token_indx := Some non_spec,
                gm_spec_token_indx := Some spec, gm_spec_query_start_loc := Some locs,
                gm_num_accepted_tokens := Some accepted\<rparr>)))))))))))))))"

text \<open>So is a batch of decodes only.\<close>

definition pad_decodes :: "(nat \<Rightarrow> nat) \<Rightarrow> gdn_batch \<Rightarrow> gdn_builder \<times> 'c gdn_metadata \<Rightarrow> (gdn_builder \<times> 'c gdn_metadata) res" where
  "pad_decodes pad_for_cudagraph b st = (case st of (g, md) \<Rightarrow>
     let n = gm_num_decodes md;
         batch_size = pad_for_cudagraph (gd_num_actual_tokens b)
     in bind_res (given (gm_non_spec_state_indices md)) (\<lambda>states.
        bind_res (copy_pad (gb_non_spec_state_indices g) n states batch_size PAD_SLOT_ID) (\<lambda>(b1, states).
        bind_res (given (gm_non_spec_query_start_loc md)) (\<lambda>locs.
        bind_res (last_of locs) (\<lambda>tokens.
        bind_res (copy_pad (gb_non_spec_query_start_loc g) (n + 1) locs (batch_size + 1) tokens) (\<lambda>(b2, locs).
        Inr (g\<lparr>gb_non_spec_state_indices := b1, gb_non_spec_query_start_loc := b2\<rparr>,
             md\<lparr>gm_num_actual_tokens := batch_size, gm_non_spec_state_indices := Some states,
                gm_non_spec_query_start_loc := Some locs\<rparr>)))))))"

definition gdn_divide ::
  "(gdn_batch \<Rightarrow> nat \<times> nat \<times> nat \<times> nat) \<Rightarrow> (bool list \<Rightarrow> nat list) \<Rightarrow> nat \<Rightarrow> gdn_batch \<Rightarrow> nat list option
     \<Rightarrow> int list option \<Rightarrow> 'c gdn_metadata res" where
  "gdn_divide split argsort num_spec b num_accepted_tokens draft_counts =
     (case spec_masks num_spec draft_counts of
        None \<Rightarrow> plain_division split b
      | Some m \<Rightarrow> spec_division argsort num_spec b m num_accepted_tokens)"

text \<open>
  The whole of \<open>build\<close>. The local ids replace the state ids of the requests without drafts; there are
  none in a batch of drafts only, where the lookup of \<open>None\<close> raises.
\<close>

definition gdn_build ::
  "(gdn_batch \<Rightarrow> nat \<times> nat \<times> nat \<times> nat) \<Rightarrow> (bool list \<Rightarrow> nat list) \<Rightarrow> (nat list \<Rightarrow> 'c) \<Rightarrow> (nat \<Rightarrow> nat) \<Rightarrow> (int list \<Rightarrow> int list)
     \<Rightarrow> gdn_builder \<Rightarrow> gdn_batch \<Rightarrow> nat list option \<Rightarrow> int list option \<Rightarrow> (gdn_builder \<times> 'c gdn_metadata) res" where
  "gdn_build split argsort conv_metadata pad_for_cudagraph set_order g b num_accepted_tokens draft_counts =
     bind_res (gdn_divide split argsort (gb_num_spec g) b num_accepted_tokens draft_counts) (\<lambda>md.
     bind_res (with_prefills conv_metadata b md) (\<lambda>md.
     let md = md\<lparr>gm_num_actual_tokens := gm_num_prefill_tokens md + gm_num_decode_tokens md + gm_num_spec_decode_tokens md\<rparr>
     in bind_res (if gb_use_full_cuda_graph g \<and> gm_num_prefills md = 0 \<and> gm_num_decodes md = 0
            \<and> gm_num_spec_decodes md \<le> gb_decode_cudagraph_max_bs g
            \<and> gm_num_spec_decode_tokens md \<le> gb_decode_cudagraph_max_bs g
          then pad_spec pad_for_cudagraph b (g, md) else Inr (g, md)) (\<lambda>(g, md).
        bind_res (if gb_use_full_cuda_graph g \<and> gm_num_prefills md = 0 \<and> gm_num_spec_decodes md = 0
            \<and> gm_num_decodes md \<le> gb_decode_cudagraph_max_bs g
          then pad_decodes pad_for_cudagraph b (g, md) else Inr (g, md)) (\<lambda>(g, md).
        bind_res (case gm_non_spec_state_indices md of None \<Rightarrow> Inl AttributeError | Some ids \<Rightarrow> Inr ids) (\<lambda>ids.
        bind_res (batch_get_local_ids set_order ids (gb_mapper g)) (\<lambda>(mapper, local_ids).
        Inr (g\<lparr>gb_mapper := mapper\<rparr>, md\<lparr>gm_non_spec_state_indices := Some local_ids\<rparr>)))))))"

section \<open>Dividing a batch\<close>

definition chosen :: "bool list \<Rightarrow> nat list" where
  "chosen m = filter (\<lambda>r. m ! r) [0..<length m]"

definition segment :: "nat list \<Rightarrow> nat \<Rightarrow> nat list" where
  "segment lens r = [sum_list (take r lens)..<sum_list (take (Suc r) lens)]"

lemma chosen_Cons: "chosen (b # m) = (if b then [0] else []) @ map Suc (chosen m)"
  unfolding chosen_def by (simp add: upt_conv_Cons map_Suc_upt[symmetric] filter_map comp_def del: upt_Suc)

lemma mask_select_chosen: "length m = length xs \<Longrightarrow> mask_select m xs = Inr (map ((!) xs) (chosen m))"
proof -
  have "length m = length xs \<Longrightarrow> map snd (filter fst (zip m xs)) = map ((!) xs) (chosen m)"
    by (induction m xs rule: list_induct2) (simp_all add: chosen_def[of "[]"] chosen_Cons comp_def)
  then show "length m = length xs \<Longrightarrow> ?thesis" by (simp add: mask_select_def)
qed

lemma query_lens_accumulate: "query_lens_of (0 # accumulate lens) = lens"
proof (rule nth_equalityI)
  have len: "length (query_lens_of (0 # accumulate lens)) = length lens"
    by (simp add: query_lens_of_def del: butlast.simps)
  then show "length (query_lens_of (0 # accumulate lens)) = length lens" .
  fix i assume "i < length (query_lens_of (0 # accumulate lens))"
  then have i: "i < length lens" using len by simp
  then have "query_lens_of (0 # accumulate lens) ! i = accumulate lens ! i - butlast (0 # accumulate lens) ! i"
    by (simp add: query_lens_of_def del: butlast.simps)
  also have "butlast (0 # accumulate lens) ! i = (0 # accumulate lens) ! i" using i by (intro nth_butlast) (simp del: butlast.simps)
  finally have "query_lens_of (0 # accumulate lens) ! i = accumulate lens ! i - (0 # accumulate lens) ! i" .
  moreover have "accumulate lens ! i - (0 # accumulate lens) ! i = sum_list (take (Suc i) lens) - sum_list (take i lens)"
    using i nth_zero_accumulate[of i lens] by (simp add: nth_accumulate)
  ultimately show "query_lens_of (0 # accumulate lens) ! i = lens ! i" using i by (simp add: sum_list_take_Suc)
qed

definition token_masks :: "bool list \<Rightarrow> nat list \<Rightarrow> bool list" where
  "token_masks m lens = concat (map2 (\<lambda>x n. replicate n x) m lens)"

lemma length_token_masks: "length m = length lens \<Longrightarrow> length (token_masks m lens) = sum_list lens"
  unfolding token_masks_def by (induction m lens rule: list_induct2) simp_all

text \<open>The tokens whose mask is set are those of the chosen requests.\<close>

lemma masked_tokens:
  "length m = length lens \<Longrightarrow>
   filter (\<lambda>i. token_masks m lens ! i = v) [0..<sum_list lens] = concat (map (segment lens) (chosen (map (\<lambda>b. b = v) m)))"
proof (induction lens arbitrary: m rule: rev_induct)
  case Nil
  then show ?case by (simp add: chosen_def)
next
  case (snoc n lens m')
  then obtain m b where m': "m' = m @ [b]" "length m = length lens" by (cases m' rule: rev_exhaust) auto
  let ?t = "token_masks m lens" and ?T = "sum_list lens"
  have t: "token_masks (m @ [b]) (lens @ [n]) = ?t @ replicate n b" "length ?t = ?T"
    using m'(2) length_token_masks[of m lens] by (simp_all add: token_masks_def)
  have "filter (\<lambda>i. (?t @ replicate n b) ! i = v) [0..<?T + n]
      = filter (\<lambda>i. (?t @ replicate n b) ! i = v) [0..<?T] @ filter (\<lambda>i. (?t @ replicate n b) ! i = v) [?T..<?T + n]"
    by (metis filter_append upt_add_eq_append zero_le)
  also have "filter (\<lambda>i. (?t @ replicate n b) ! i = v) [0..<?T] = filter (\<lambda>i. ?t ! i = v) [0..<?T]"
    using t(2) by (intro filter_cong) (auto simp: nth_append)
  also have "filter (\<lambda>i. (?t @ replicate n b) ! i = v) [?T..<?T + n] = filter (\<lambda>i. b = v) [?T..<?T + n]"
    using t(2) by (intro filter_cong) (auto simp: nth_append)
  also have "\<dots> = (if b = v then [?T..<?T + n] else [])" by simp
  finally have lhs: "filter (\<lambda>i. (?t @ replicate n b) ! i = v) [0..<?T + n]
      = concat (map (segment lens) (chosen (map (\<lambda>b. b = v) m))) @ (if b = v then [?T..<?T + n] else [])"
    using snoc.IH[OF m'(2)] by simp
  have "chosen (map (\<lambda>b. b = v) (m @ [b])) = chosen (map (\<lambda>b. b = v) m) @ (if b = v then [length m] else [])"
    by (auto simp: chosen_def nth_append intro: filter_cong)
  moreover have "map (segment (lens @ [n])) (chosen (map (\<lambda>b. b = v) m)) = map (segment lens) (chosen (map (\<lambda>b. b = v) m))"
    using m'(2) by (auto simp: chosen_def segment_def)
  moreover have "segment (lens @ [n]) (length m) = [?T..<?T + n]" using m'(2) by (simp add: segment_def)
  ultimately show ?case using lhs t(1) m'(1) by (simp del: map_eq_conv)
qed

text \<open>What the code relies on: \<open>torch.argsort\<close> sorts, without a promise about equal elements.\<close>

definition argsort_ok :: "(bool list \<Rightarrow> nat list) \<Rightarrow> bool" where
  "argsort_ok f \<longleftrightarrow> (\<forall>m. mset (f m) = mset [0..<length m] \<and> sorted (map ((!) m) (f m)))"

definition stable_argsort :: "bool list \<Rightarrow> nat list" where
  "stable_argsort m = filter (\<lambda>i. m ! i = False) [0..<length m] @ filter (\<lambda>i. m ! i = True) [0..<length m]"

lemma sorted_bools: "sorted bs \<Longrightarrow> bs = replicate (length (filter Not bs)) False @ replicate (length (filter id bs)) True"
proof (induction bs)
  case Nil
  then show ?case by simp
next
  case (Cons b bs)
  show ?case
  proof (cases b)
    case True
    then have "filter Not bs = []" using Cons.prems by (auto simp: filter_empty_conv)
    then show ?thesis using Cons True by simp
  next
    case False
    then show ?thesis using Cons by simp
  qed
qed

lemma argsort_parts:
  assumes "argsort_ok f" "k = length (filter (\<lambda>i. m ! i = False) [0..<length m])"
  shows "mset (take k (f m)) = mset (filter (\<lambda>i. m ! i = False) [0..<length m])
    \<and> mset (drop k (f m)) = mset (filter (\<lambda>i. m ! i = True) [0..<length m])"
proof -
  let ?x = "f m"
  have x: "mset ?x = mset [0..<length m]" "sorted (map ((!) m) ?x)" using assms(1) by (simp_all add: argsort_ok_def)
  have part: "mset (filter P ?x) = mset (filter P [0..<length m])" for P using x(1) by (metis mset_filter)
  have k: "length (filter Not (map ((!) m) ?x)) = k"
    using part[of "\<lambda>i. m ! i = False"] assms(2) by (metis (mono_tags, lifting) filter_cong filter_map comp_def length_map size_mset)
  have split: "map ((!) m) ?x = replicate k False @ replicate (length (filter id (map ((!) m) ?x))) True"
    using sorted_bools[OF x(2)] k by simp
  have "map ((!) m) (take k ?x) = replicate k False" "\<exists>n. map ((!) m) (drop k ?x) = replicate n True"
    using arg_cong[OF split, of "take k"] arg_cong[OF split, of "drop k"] by (auto simp: take_map drop_map)
  then have low: "\<forall>i \<in> set (take k ?x). m ! i = False" and high: "\<forall>i \<in> set (drop k ?x). m ! i = True"
    by (metis (mono_tags) image_eqI in_set_replicate list.set_map)+
  have "filter (\<lambda>i. m ! i = False) ?x = take k ?x" "filter (\<lambda>i. m ! i = True) ?x = drop k ?x"
    using low high filter_append[of _ "take k ?x" "drop k ?x"] by (simp_all add: filter_empty_conv)
  then show ?thesis using part by metis
qed

lemma first_column_run: "\<forall>r \<in> set rows. r \<noteq> [] \<Longrightarrow> first_column rows = Inr (map (\<lambda>r. r ! 0) rows)"
  unfolding first_column_def by (intro map_res_total) (simp add: nth_res_def)

lemma chosen_less: "r \<in> set (chosen m) \<Longrightarrow> r < length m"
  by (auto simp: chosen_def)

lemma count_ones_le: "length (filter (\<lambda>n. n = 1) ns) \<le> sum_list (ns :: nat list)"
  by (induction ns) auto

lemma filter_chosen: "length (filter id m) = length (chosen m)"
  by (induction m) (simp_all add: chosen_Cons chosen_def[of "[]"])

lemma sum_chosen: "length m = length xs \<Longrightarrow> sum_list (map ((!) xs) (chosen m)) + sum_list (map ((!) xs) (chosen (map Not m))) = (sum_list xs :: nat)"
  by (induction m xs rule: list_induct2) (auto simp: chosen_Cons chosen_def[of "[]"] comp_def)

lemma length_segments: "\<forall>r \<in> set rs. r < length lens \<Longrightarrow> length (concat (map (segment lens) rs)) = sum_list (map ((!) lens) rs)"
  by (induction rs) (simp_all add: segment_def sum_list_take_Suc)

text \<open>A batch with requests of both kinds, as the runner hands it over.\<close>

definition mixed_batch :: "gdn_batch \<Rightarrow> nat list \<Rightarrow> bool list \<Rightarrow> nat list \<Rightarrow> bool" where
  "mixed_batch b lens m accepted \<longleftrightarrow>
     gd_query_start_loc b = 0 # accumulate lens \<and> length m = length lens \<and> True \<in> set m \<and> False \<in> set m
     \<and> length (gd_block_table b) = length lens \<and> (\<forall>r \<in> set (gd_block_table b). r \<noteq> [])
     \<and> length (gd_num_computed_tokens b) = length lens \<and> length accepted = length lens"

lemma spec_division_mixed:
  assumes mix: "mixed_batch b lens m accepted"
  defines "spec \<equiv> chosen m" and "other \<equiv> chosen (map Not m)"
  shows "\<exists>md. spec_division argsort k b m (Some accepted) = Inr (md :: 'c gdn_metadata)
    \<and> (0 < gm_num_prefills md \<or> 0 < gm_num_decodes md) \<and> gm_num_spec_decodes md = length spec \<and> gm_spec_sequence_masks md = Some m
    \<and> gm_num_prefill_tokens md + gm_num_decode_tokens md = sum_list (map ((!) lens) other)
    \<and> gm_num_spec_decode_tokens md = sum_list (map ((!) lens) spec)
    \<and> gm_spec_token_indx md = Some (drop (sum_list (map ((!) lens) other)) (argsort (token_masks m lens)))
    \<and> gm_non_spec_token_indx md = Some (take (sum_list (map ((!) lens) other)) (argsort (token_masks m lens)))
    \<and> gm_spec_query_start_loc md = Some (0 # accumulate (map ((!) lens) spec))
    \<and> gm_non_spec_query_start_loc md = Some (0 # accumulate (map ((!) lens) other))
    \<and> gm_spec_state_indices md = Some (map (\<lambda>r. take (k + 1) (gd_block_table b ! r)) spec)
    \<and> gm_non_spec_state_indices md = Some (map (\<lambda>r. gd_block_table b ! r ! 0) other)
    \<and> gm_num_accepted_tokens md = Some (map ((!) accepted) spec)"
proof -
  have b: "gd_query_start_loc b = 0 # accumulate lens" "length m = length lens" "False \<in> set m"
      "length (gd_block_table b) = length lens" "\<forall>r \<in> set (gd_block_table b). r \<noteq> []" "length accepted = length lens"
    using mix by (simp_all add: mixed_batch_def)
  define ol where "ol = map ((!) lens) other"
  define ones where "ones = length (filter (\<lambda>n. n = 1) ol)"
  let ?bt = "gd_block_table b"
  have sel: "mask_select (map Not m) lens = Inr ol" "mask_select m lens = Inr (map ((!) lens) spec)"
      "mask_select m ?bt = Inr (map ((!) ?bt) spec)" "mask_select (map Not m) ?bt = Inr (map ((!) ?bt) other)"
      "mask_select m accepted = Inr (map ((!) accepted) spec)"
    using b mask_select_chosen unfolding spec_def other_def ol_def by (metis length_map)+
  have col: "first_column (map ((!) ?bt) other) = Inr (map (\<lambda>r. ?bt ! r ! 0) other)"
    using b chosen_less[of _ "map Not m"] unfolding other_def by (subst first_column_run) (auto simp: comp_def)
  obtain r where "r < length m" "\<not> m ! r" using b(3) by (metis in_set_conv_nth)
  then have "ol \<noteq> []" unfolding ol_def other_def chosen_def by (auto simp: filter_empty_conv)
  then have some: "\<not> (length ol - ones = 0 \<and> ones = 0)" by (metis diff_zero length_0_conv)
  have le: "ones \<le> sum_list ol" unfolding ones_def by (rule count_ones_le)
  have total: "sum_list lens - (sum_list ol - ones) - ones = sum_list (map ((!) lens) spec)"
    using sum_chosen[OF b(2)] le unfolding spec_def other_def ol_def by simp
  have rep: "repeat_interleave m lens = Inr (token_masks m lens)" using b(2) by (simp add: repeat_interleave_def token_masks_def)
  have n: "length (filter id m) = length spec" unfolding spec_def by (rule filter_chosen)
  have parts: "sum_list ol - ones + ones = sum_list ol" using le by simp
  let ?md = "\<lparr>gm_num_prefills = length ol - ones, gm_num_prefill_tokens = sum_list ol - ones, gm_num_decodes = ones,
      gm_num_decode_tokens = ones, gm_num_spec_decodes = length spec, gm_num_spec_decode_tokens = sum_list (map ((!) lens) spec),
      gm_num_actual_tokens = 0, gm_has_initial_state = None, gm_spec_query_start_loc = Some (0 # accumulate (map ((!) lens) spec)),
      gm_non_spec_query_start_loc = Some (0 # accumulate ol),
      gm_spec_state_indices = Some (map (\<lambda>r. take (k + 1) (?bt ! r)) spec),
      gm_non_spec_state_indices = Some (map (\<lambda>r. ?bt ! r ! 0) other), gm_spec_sequence_masks = Some m,
      gm_spec_token_indx = Some (drop (sum_list ol) (argsort (token_masks m lens))),
      gm_non_spec_token_indx = Some (take (sum_list ol) (argsort (token_masks m lens))),
      gm_num_accepted_tokens = Some (map ((!) accepted) spec), gm_conv = None\<rparr> :: 'c gdn_metadata"
  have "spec_division argsort k b m (Some accepted) = Inr ?md"
    unfolding spec_division_def Let_def b(1) query_lens_accumulate sel bind_res_simps mixed_division_def
      ones_def[symmetric] n total
    by (simp only: gdn_metadata.select_convs if_not_P[OF some]) (simp add: sel col rep comp_def parts)
  moreover have "0 < length ol - ones \<or> 0 < ones" using some by blast
  ultimately show ?thesis using parts by (intro exI[of _ ?md]) (simp add: ol_def)
qed

lemma with_prefills_run:
  assumes "gm_spec_sequence_masks md = Some m" "gm_non_spec_query_start_loc md = Some q" "length (gd_num_computed_tokens b) = length m"
  shows "\<exists>s c. with_prefills conv b md = Inr (md\<lparr>gm_has_initial_state := s, gm_conv := c\<rparr>)"
proof (cases "0 < gm_num_prefills md")
  case True
  then show ?thesis using assms by (simp add: with_prefills_def mask_select_def Let_def) blast
next
  case False
  then have "with_prefills conv b md = Inr (md\<lparr>gm_has_initial_state := gm_has_initial_state md, gm_conv := gm_conv md\<rparr>)"
    by (simp add: with_prefills_def)
  then show ?thesis by blast
qed

text \<open>
  A batch with and without drafts is divided correctly. Every token of a request that verifies drafts is
  indexed among the tokens with drafts exactly once, every other token among the others, the start
  locations and counts are those of the requests of each kind in their order, and with a
  sort that keeps equal elements in order the indexed tokens are grouped by request as the start
  locations say. The other requests get local state ids below the size of the mapper; the requests
  with drafts keep the global ids of their blocks.
\<close>
theorem gdn_mixed_batch:
  assumes m: "spec_masks (gb_num_spec g) (Some drafts) = Some m" and mix: "mixed_batch b lens m accepted"
    and sort: "argsort_ok argsort" and mapper: "mapper_ok (gb_mapper g)" and order: "enumerates_set set_order"
  defines "spec \<equiv> chosen m" and "other \<equiv> chosen (map Not m)"
  shows "\<exists>g' md sp ns h. gdn_build split argsort conv pad set_order g b (Some accepted) (Some drafts) = Inr (g', md)
    \<and> gm_spec_token_indx md = Some sp \<and> mset sp = mset (concat (map (segment lens) spec))
    \<and> gm_non_spec_token_indx md = Some ns \<and> mset ns = mset (concat (map (segment lens) other))
    \<and> (argsort (token_masks m lens) = stable_argsort (token_masks m lens) \<longrightarrow>
         sp = concat (map (segment lens) spec) \<and> ns = concat (map (segment lens) other))
    \<and> gm_spec_query_start_loc md = Some (0 # accumulate (map ((!) lens) spec))
    \<and> gm_non_spec_query_start_loc md = Some (0 # accumulate (map ((!) lens) other))
    \<and> gm_num_actual_tokens md = sum_list lens
    \<and> gm_spec_state_indices md = Some (map (\<lambda>r. take (gb_num_spec g + 1) (gd_block_table b ! r)) spec)
    \<and> gm_non_spec_state_indices md = Some (map (\<lambda>r. int (h (gd_block_table b ! r ! 0))) other)
    \<and> (\<forall>r \<in> set other. h (gd_block_table b ! r ! 0) < lm_batch_size (gb_mapper g)) \<and> mapper_ok (gb_mapper g')"
proof -
  let ?tm = "token_masks m lens"
  have len: "length m = length lens" "length (gd_num_computed_tokens b) = length m" "True \<in> set m"
    using mix by (simp_all add: mixed_batch_def)
  obtain md :: "'a gdn_metadata" where md: "spec_division argsort (gb_num_spec g) b m (Some accepted) = Inr md"
      "0 < gm_num_prefills md \<or> 0 < gm_num_decodes md" "gm_num_spec_decodes md = length spec" "gm_spec_sequence_masks md = Some m"
      "gm_num_prefill_tokens md + gm_num_decode_tokens md = sum_list (map ((!) lens) other)"
      "gm_num_spec_decode_tokens md = sum_list (map ((!) lens) spec)"
      "gm_spec_token_indx md = Some (drop (sum_list (map ((!) lens) other)) (argsort ?tm))"
      "gm_non_spec_token_indx md = Some (take (sum_list (map ((!) lens) other)) (argsort ?tm))"
      "gm_spec_query_start_loc md = Some (0 # accumulate (map ((!) lens) spec))"
      "gm_non_spec_query_start_loc md = Some (0 # accumulate (map ((!) lens) other))"
      "gm_spec_state_indices md = Some (map (\<lambda>r. take (gb_num_spec g + 1) (gd_block_table b ! r)) spec)"
      "gm_non_spec_state_indices md = Some (map (\<lambda>r. gd_block_table b ! r ! 0) other)"
    using spec_division_mixed[OF mix, of argsort "gb_num_spec g"] unfolding spec_def other_def by blast
  obtain s c where wp: "with_prefills conv b md = Inr (md\<lparr>gm_has_initial_state := s, gm_conv := c\<rparr>)"
    using with_prefills_run[OF md(4,10) len(2)] by blast
  obtain r where "r < length m" "m ! r" using len(3) by (metis in_set_conv_nth)
  then have "spec \<noteq> []" unfolding spec_def chosen_def by (auto simp: filter_empty_conv)
  then have no_graph: "\<not> (gm_num_prefills md = 0 \<and> gm_num_decodes md = 0)" "gm_num_spec_decodes md \<noteq> 0"
    using md(2,3) by auto
  let ?ids = "map (\<lambda>r. gd_block_table b ! r ! 0) other"
  obtain s' h where ids: "batch_get_local_ids set_order ?ids (gb_mapper g) = Inr (s', map (\<lambda>g. int (h g)) ?ids)" "mapper_ok s'"
      "\<forall>x \<in> set ?ids. h x < lm_batch_size (gb_mapper g)"
    using batch_get_local_ids_run[OF mapper order, of ?ids] by blast
  let ?md = "md\<lparr>gm_has_initial_state := s, gm_conv := c, gm_num_actual_tokens := gm_num_prefill_tokens md
      + gm_num_decode_tokens md + gm_num_spec_decode_tokens md, gm_non_spec_state_indices := Some (map (\<lambda>g. int (h g)) ?ids)\<rparr>"
  have run: "gdn_build split argsort conv pad set_order g b (Some accepted) (Some drafts) = Inr (g\<lparr>gb_mapper := s'\<rparr>, ?md)"
    using md(1,12) wp no_graph ids(1) m unfolding gdn_build_def gdn_divide_def by (auto simp: Let_def)
  have segs: "filter (\<lambda>i. ?tm ! i = False) [0..<length ?tm] = concat (map (segment lens) other)"
      "filter (\<lambda>i. ?tm ! i = True) [0..<length ?tm] = concat (map (segment lens) spec)"
    using masked_tokens[OF len(1), of False] masked_tokens[OF len(1), of True] length_token_masks[OF len(1)]
    unfolding spec_def other_def by simp_all
  have count: "sum_list (map ((!) lens) other) = length (filter (\<lambda>i. ?tm ! i = False) [0..<length ?tm])"
    unfolding segs other_def using len(1) chosen_less[of _ "map Not m"] by (subst length_segments) auto
  note parts = argsort_parts[OF sort count]
  have "sum_list (map ((!) lens) other) + sum_list (map ((!) lens) spec) = sum_list lens"
    using sum_chosen[OF len(1)] unfolding spec_def other_def by simp
  moreover have "argsort ?tm = stable_argsort ?tm \<Longrightarrow> drop (sum_list (map ((!) lens) other)) (argsort ?tm) = concat (map (segment lens) spec)
      \<and> take (sum_list (map ((!) lens) other)) (argsort ?tm) = concat (map (segment lens) other)"
    using count unfolding stable_argsort_def segs by simp
  ultimately show ?thesis using run md(5-11) parts ids(2,3) unfolding segs
    by (intro exI[of _ "g\<lparr>gb_mapper := s'\<rparr>"] exI[of _ ?md] exI[of _ "drop (sum_list (map ((!) lens) other)) (argsort ?tm)"]
        exI[of _ "take (sum_list (map ((!) lens) other)) (argsort ?tm)"] exI[of _ h]) simp
qed

section \<open>Batches of one kind\<close>

lemma pad_spec_keeps:
  "pad_spec pad b (g, md) = Inr (g', md') \<Longrightarrow> gm_non_spec_state_indices md' = gm_non_spec_state_indices md"
  by (auto simp: pad_spec_def Let_def bind_res_eq_Inr require_eq_Inr)

lemma pad_decodes_needs: "gm_non_spec_state_indices md = None \<Longrightarrow> pad_decodes pad b (g, md) = Inl TypeError"
  by (simp add: pad_decodes_def given_def Let_def)

lemma chosen_all: "list_all id m \<Longrightarrow> chosen m = [0..<length m] \<and> chosen (map Not m) = []"
  by (auto simp: chosen_def list_all_length filter_empty_conv intro: filter_True)

text \<open>
  A batch in which every request verifies drafts gets no metadata: there are no state ids without
  drafts then, and looking up their local ids raises (an \<open>AttributeError\<close> of \<open>None\<close> when no device graph
  is used); whatever the buffers hold and however the batch is padded, \<open>build\<close> does not return.
\<close>
theorem gdn_only_drafts_raises:
  assumes m: "spec_masks (gb_num_spec g) (Some drafts) = Some m" and all: "list_all id m"
    and lens: "length (gd_query_start_loc b) = Suc (length m)" and acc: "length accepted = length m"
  shows "(\<forall>r. gdn_build split argsort conv pad set_order g b (Some accepted) (Some drafts) \<noteq> Inr r)
    \<and> (\<not> gb_use_full_cuda_graph g \<longrightarrow>
         gdn_build split argsort conv pad set_order g b (Some accepted) (Some drafts) = Inl AttributeError)"
proof -
  let ?ql = "query_lens_of (gd_query_start_loc b)"
  have ql: "length ?ql = length m" using lens by (simp add: query_lens_of_def)
  have none: "mask_select (map Not m) ?ql = Inr []"
    using mask_select_chosen[of "map Not m" ?ql] ql chosen_all[OF all] by simp
  have acc': "\<exists>a. mask_select m accepted = Inr a" using acc by (simp add: mask_select_def)
  obtain q qs where q: "gd_query_start_loc b = q # qs" using lens by (cases "gd_query_start_loc b") auto
  obtain md :: "'a gdn_metadata" where md: "spec_division argsort (gb_num_spec g) b m (Some accepted) = Inr md"
      "gm_non_spec_state_indices md = None" "gm_num_prefills md = 0" "gm_num_spec_decodes md = length (filter id m)"
    using acc' none q unfolding spec_division_def only_spec_def by auto
  have wp: "with_prefills conv b md = Inr md" using md(3) by (simp add: with_prefills_def)
  have "\<forall>r. gdn_build split argsort conv pad set_order g b (Some accepted) (Some drafts) \<noteq> Inr r"
  proof (intro allI notI)
    fix r assume run: "gdn_build split argsort conv pad set_order g b (Some accepted) (Some drafts) = Inr r"
    then show False using m md(1,2) wp unfolding gdn_build_def gdn_divide_def
      by (auto simp: Let_def bind_res_eq_Inr pad_decodes_needs dest!: pad_spec_keeps split: if_splits option.splits)
  qed
  moreover have "\<not> gb_use_full_cuda_graph g \<Longrightarrow>
      gdn_build split argsort conv pad set_order g b (Some accepted) (Some drafts) = Inl AttributeError"
    using m md(1,2) wp unfolding gdn_build_def gdn_divide_def by (simp add: Let_def)
  ultimately show ?thesis by blast
qed

lemma copy_pad_run:
  assumes "length src = n" "n \<le> k" "k \<le> length buf"
  shows "\<exists>buf'. copy_pad buf n src k v = Inr (buf', src @ replicate (k - n) v)"
proof -
  have "copy_prefix buf n src = Inr (src @ drop n buf)" using assms by (simp add: copy_prefix_def)
  moreover have "take k (map (\<lambda>i. if n \<le> i \<and> i < k then v else (src @ drop n buf) ! i) [0..<length (src @ drop n buf)]) = src @ replicate (k - n) v"
    using assms by (intro nth_equalityI) (auto simp: nth_append)
  ultimately show ?thesis by (simp add: copy_pad_def Let_def)
qed

text \<open>
  Padding of a batch of decodes for a device graph takes a state slot from the requests: the
  padded entries do not keep \<open>PAD_SLOT_ID\<close> but are given a local id of their own; when the
  requests already fill the mapper, two of the ids in the batch share one slot.
\<close>
theorem padded_decodes_take_a_slot:
  assumes none: "spec_masks (gb_num_spec g) draft_counts = None" and split: "split b = (n, 0, n, 0)"
    and rows: "length (gd_block_table b) = n" "\<forall>r \<in> set (gd_block_table b). r \<noteq> []" "length (gd_query_start_loc b) = Suc n"
    and graph: "gb_use_full_cuda_graph g" "pad (gd_num_actual_tokens b) = k" "0 < n" "n < k" "k \<le> gb_decode_cudagraph_max_bs g"
      "length (gb_non_spec_state_indices g) = gb_decode_cudagraph_max_bs g"
      "length (gb_non_spec_query_start_loc g) = gb_decode_cudagraph_max_bs g + 1"
    and mapper: "mapper_ok (gb_mapper g)" and order: "enumerates_set set_order"
  defines "states \<equiv> map (\<lambda>r. r ! 0) (gd_block_table b)"
  shows "\<exists>g' md h. gdn_build split argsort conv pad set_order g b accepted draft_counts = Inr (g', md)
    \<and> gm_non_spec_state_indices md = Some (map (\<lambda>s. int (h s)) states @ replicate (k - n) (int (h PAD_SLOT_ID)))
    \<and> h PAD_SLOT_ID < lm_batch_size (gb_mapper g)
    \<and> (PAD_SLOT_ID \<notin> set states \<and> card (set states) = lm_batch_size (gb_mapper g) \<longrightarrow>
         (\<exists>x \<in> set (PAD_SLOT_ID # states). \<exists>y \<in> set (PAD_SLOT_ID # states). x \<noteq> y \<and> h x = h y))"
proof -
  let ?N = "lm_batch_size (gb_mapper g)"
  let ?ids = "states @ replicate (k - n) PAD_SLOT_ID"
  have ids: "set ?ids = insert PAD_SLOT_ID (set states)" using graph(4) by auto
  obtain s' h where look: "batch_get_local_ids set_order ?ids (gb_mapper g) = Inr (s', map (\<lambda>g. int (h g)) ?ids)"
      "\<forall>x \<in> set ?ids. h x < ?N"
    using batch_get_local_ids_run[OF mapper order, of ?ids] by blast
  obtain b1 where b1: "copy_pad (gb_non_spec_state_indices g) n states k PAD_SLOT_ID = Inr (b1, ?ids)"
    using copy_pad_run[of states n k "gb_non_spec_state_indices g" PAD_SLOT_ID] graph rows(1) unfolding states_def by auto
  obtain b2 locs where b2: "copy_pad (gb_non_spec_query_start_loc g) (n + 1) (gd_query_start_loc b) (k + 1) (last (gd_query_start_loc b)) = Inr (b2, locs)"
    using copy_pad_run[of "gd_query_start_loc b" "n + 1" "k + 1" "gb_non_spec_query_start_loc g"] graph rows(3) by fastforce
  have col: "first_column (gd_block_table b) = Inr states" using first_column_run[OF rows(2)] by (simp add: states_def)
  have ne: "gd_query_start_loc b \<noteq> []" using rows(3) by auto
  have "\<exists>g' md. gdn_build split argsort conv pad set_order g b accepted draft_counts = Inr (g', md)
      \<and> gm_non_spec_state_indices md = Some (map (\<lambda>g. int (h g)) ?ids)"
    using none split col graph(1-5) b1 b2 ne look(1)
    by (simp add: gdn_build_def gdn_divide_def plain_division_def with_prefills_def pad_decodes_def given_def last_of_def Let_def)
  moreover have "h PAD_SLOT_ID < ?N" using look(2) ids by blast
  moreover have "\<exists>x \<in> set (PAD_SLOT_ID # states). \<exists>y \<in> set (PAD_SLOT_ID # states). x \<noteq> y \<and> h x = h y"
    if "PAD_SLOT_ID \<notin> set states" "card (set states) = ?N"
  proof -
    have "h ` set (PAD_SLOT_ID # states) \<subseteq> {..<?N}" using look(2) ids by auto
    then have "card (h ` set (PAD_SLOT_ID # states)) < card (set (PAD_SLOT_ID # states))"
      using that card_mono[of "{..<?N}" "h ` set (PAD_SLOT_ID # states)"] by simp
    then show ?thesis using pigeonhole[of h "set (PAD_SLOT_ID # states)"] by (auto simp: inj_on_def)
  qed
  ultimately show ?thesis by force
qed

section \<open>Examples\<close>

lemma stable_argsort_ok: "argsort_ok stable_argsort"
  unfolding argsort_ok_def
proof (intro allI conjI)
  fix m :: "bool list"
  have "mset (filter (\<lambda>i. \<not> m ! i) [0..<length m]) + mset (filter (\<lambda>i. m ! i) [0..<length m]) = mset [0..<length m]"
    unfolding mset_filter by (metis (no_types) add.commute multiset_partition)
  then show "mset (stable_argsort m) = mset [0..<length m]" by (simp add: stable_argsort_def)
  have "map ((!) m) (filter (\<lambda>i. \<not> m ! i) [0..<length m]) = replicate (length (filter (\<lambda>i. \<not> m ! i) [0..<length m])) False"
    "map ((!) m) (filter (\<lambda>i. m ! i) [0..<length m]) = replicate (length (filter (\<lambda>i. m ! i) [0..<length m])) True"
    by (intro map_replicate_const[THEN trans[rotated]] map_cong refl, auto)+
  then show "sorted (map ((!) m) (stable_argsort m))"
    by (simp add: stable_argsort_def sorted_append)
qed

lemma remdups_enumerates: "enumerates_set remdups"
  by (simp add: enumerates_set_def)

definition demo_builder :: gdn_builder where
  "demo_builder = \<lparr>gb_num_spec = 1, gb_use_full_cuda_graph = True, gb_decode_cudagraph_max_bs = 4,
     gb_spec_state_indices = replicate 4 [0, 0], gb_non_spec_state_indices = replicate 4 0, gb_spec_sequence_masks = replicate 4 True,
     gb_spec_token_indx = replicate 8 0, gb_non_spec_token_indx = replicate 8 0, gb_spec_query_start_loc = replicate 5 0,
     gb_non_spec_query_start_loc = replicate 5 0, gb_num_accepted_tokens = replicate 4 0,
     gb_mapper = \<lparr>lm_batch_size = 2, lm_global_to_local = [], lm_local_to_global = [], lm_available = [0..<2]\<rparr>\<rparr>"

lemma demo_builder_ok: "mapper_ok (gb_mapper demo_builder)"
  using new_mapper_ok[of 2 "gb_mapper demo_builder"] by (simp add: new_mapper_def demo_builder_def)

definition demo_batch :: "nat list \<Rightarrow> gdn_batch" where
  "demo_batch lens = \<lparr>gd_query_start_loc = 0 # accumulate lens, gd_num_computed_tokens = [5, 3],
     gd_block_table = [[7, 8], [9, 10]], gd_num_actual_tokens = sum_list lens\<rparr>"

lemma demo_fields:
  "gb_num_spec demo_builder = 1" "lm_batch_size (gb_mapper demo_builder) = 2"
  "gd_block_table (demo_batch lens) = [[7, 8], [9, 10]]"
  by (simp_all add: demo_builder_def demo_batch_def)

lemma gdn_mixed_batch_witness:
  "\<exists>g' md. gdn_build (\<lambda>_. (0, 0, 0, 0)) stable_argsort id id remdups demo_builder (demo_batch [2, 1]) (Some [1, 1]) (Some [1, -1])
       = Inr (g', md) \<and> gm_spec_token_indx md = Some [0, 1] \<and> gm_non_spec_token_indx md = Some [2]
     \<and> gm_spec_query_start_loc md = Some [0, 2] \<and> gm_spec_state_indices md = Some [[7, 8]]"
proof -
  have m: "spec_masks (gb_num_spec demo_builder) (Some [1, -1]) = Some [True, False]"
    by (simp add: spec_masks_def demo_builder_def)
  have mix: "mixed_batch (demo_batch [2, 1]) [2, 1] [True, False] [1, 1]"
    by (simp add: mixed_batch_def demo_batch_def)
  have ch: "chosen [True, False] = [0]" "chosen [False, True] = [1]" by (simp_all add: chosen_def)
  show ?thesis
    using gdn_mixed_batch[OF m mix stable_argsort_ok demo_builder_ok remdups_enumerates]
      demo_fields
    by (fastforce simp: ch segment_def upt_rec accumulate_def)
qed

lemma gdn_only_drafts_raises_witness:
  "\<forall>r. gdn_build (\<lambda>_. (0, 0, 0, 0)) stable_argsort id id remdups demo_builder (demo_batch [2, 2]) (Some [1, 1]) (Some [1, 1]) \<noteq> Inr r"
proof -
  have m: "spec_masks (gb_num_spec demo_builder) (Some [1, 1]) = Some [True, True]"
    by (simp add: spec_masks_def demo_builder_def)
  show ?thesis
    by (rule gdn_only_drafts_raises[OF m, THEN conjunct1]) (simp_all add: demo_batch_def)
qed

lemma padded_decodes_take_a_slot_witness:
  "\<exists>g' md (h :: int \<Rightarrow> nat). gdn_build (\<lambda>_. (2, 0, 2, 0)) stable_argsort id (\<lambda>_. 3) remdups demo_builder (demo_batch [1, 1]) None None = Inr (g', md)
     \<and> gm_non_spec_state_indices md = Some [int (h 7), int (h 9), int (h (-1))]
     \<and> (\<exists>x \<in> {-1, 7, 9}. \<exists>y \<in> {-1, 7, 9}. x \<noteq> y \<and> h x = h y)"
proof -
  have "spec_masks (gb_num_spec demo_builder) None = None" by (simp add: spec_masks_def)
  from padded_decodes_take_a_slot[OF this, of "\<lambda>_. (2, 0, 2, 0)" "demo_batch [1, 1]" 2 "\<lambda>_. 3" 3 remdups stable_argsort id None]
  show ?thesis using demo_builder_ok remdups_enumerates
    by (auto simp: demo_batch_def demo_builder_def PAD_SLOT_ID_def numeral_eq_Suc)
qed

end
