(* ===== verification/MlaReorder.thy ===== *)
theory MlaReorder
  imports Reorder
begin

text \<open>
  How the metadata builder of latent attention moves the decodes of a batch to the front
  (\<^verbatim>\<open>FlashMLAMetadataBuilder.reorder_batch\<close> of \<^verbatim>\<open>vllm_mlu/v1/attention/backends/mla/flashmla.py\<close>).
  The batch and \<^verbatim>\<open>swap_states\<close> are treated as in Reorder.
\<close>

section \<open>The code\<close>

text \<open>
  The last decodes are swapped with the first prefills until a decode is met that is already among the
  first \<open>num_decodes\<close> rows. The indices are those of the batch before any swap.
\<close>

fun swap_decodes ::
  "(nat \<Rightarrow> nat \<Rightarrow> 'b \<Rightarrow> 'b) \<Rightarrow> nat list \<Rightarrow> nat list \<Rightarrow> nat list \<Rightarrow> bool \<times> 'b \<Rightarrow> bool \<times> 'b" where
  "swap_decodes swap decodes prefills [] st = st"
| "swap_decodes swap decodes prefills (i # is) (modified, b) =
     (let decode_idx = decodes ! (length decodes - i) in
      if decode_idx < length decodes then (modified, b)
      else swap_decodes swap decodes prefills is (True, swap (prefills ! (i - 1)) decode_idx b))"

definition mla_reorder_batch ::
  "(nat \<Rightarrow> nat \<Rightarrow> 'b \<Rightarrow> 'b) \<Rightarrow> ('b \<Rightarrow> batch_row list) \<Rightarrow> (nat, int) dict \<Rightarrow> nat \<Rightarrow> 'b \<Rightarrow> (bool \<times> 'b) res" where
  "mla_reorder_batch swap rows num_scheduled_tokens num_speculative_tokens b =
     bind_res (map_res (\<lambda>r. dict_at num_scheduled_tokens (br_req_id r)) (rows b)) (\<lambda>scheduled.
     let decoder_query_len = 1 + int num_speculative_tokens;
         dec = (\<lambda>i. is_decode decoder_query_len (scheduled ! i) (rows b ! i));
         decodes = filter dec [0..<length (rows b)];
         prefills = filter (\<lambda>i. \<not> dec i) [0..<length (rows b)]
     in Inr (swap_decodes swap decodes prefills [1..<Suc (min (length decodes) (length prefills))] (False, b)))"

section \<open>Decodes in front\<close>

text \<open>The rows after the first \<open>k\<close> swaps.\<close>

definition swapped :: "nat list \<Rightarrow> nat list \<Rightarrow> nat \<Rightarrow> 'r list \<Rightarrow> 'r list" where
  "swapped decodes prefills k xs =
     fold (\<lambda>j. swap_nth (prefills ! j) (decodes ! (length decodes - Suc j))) [0..<k] xs"

lemma swapped_Suc: "swapped D P (Suc k) xs = swap_nth (P ! k) (D ! (length D - Suc k)) (swapped D P k xs)"
  by (simp add: swapped_def)

lemma length_swapped [simp]: "length (swapped D P k xs) = length xs"
  by (induction k) (simp_all add: swapped_def)

lemma mset_swap_nth: "i < length xs \<Longrightarrow> j < length xs \<Longrightarrow> mset (swap_nth i j xs) = mset xs"
  unfolding swap_nth_def by (metis mset_swap)

text \<open>
  A flagged list: \<open>D\<close> holds the indices whose flag is set, \<open>P\<close> the others, and \<open>m\<close> counts the
  flagged indices that are not among the first \<open>length D\<close>.
\<close>

definition flagged :: "(nat \<Rightarrow> bool) \<Rightarrow> nat \<Rightarrow> nat list" where
  "flagged f n = filter f [0..<n]"

definition misplaced_count :: "(nat \<Rightarrow> bool) \<Rightarrow> nat \<Rightarrow> nat" where
  "misplaced_count f n = length (filter (\<lambda>i. length (flagged f n) \<le> i) (flagged f n))"

lemma flagged_length: "length (flagged f n) + length (flagged (\<lambda>i. \<not> f i) n) = n"
  unfolding flagged_def by (metis sum_length_filter_compl length_upt minus_nat.diff_0)

lemma sorted_flagged: "sorted (flagged f n)" "distinct (flagged f n)"
  by (simp_all add: flagged_def sorted_wrt_filter)

lemma flagged_split: "k \<le> n \<Longrightarrow> flagged f n = flagged f k @ filter f [k..<n]"
  unfolding flagged_def by (metis filter_append le_add_diff_inverse upt_add_eq_append zero_le)

lemma flagged_low: "k \<le> n \<Longrightarrow> filter (\<lambda>i. i < k) (flagged f n) = flagged f k"
  by (simp add: flagged_split) (auto simp: flagged_def filter_empty_conv intro!: filter_cong)

lemma misplaced_both:
  fixes f :: "nat \<Rightarrow> bool" and n :: nat
  defines "D \<equiv> flagged f n" and "P \<equiv> flagged (\<lambda>i. \<not> f i) n"
  shows "misplaced_count f n = length (filter (\<lambda>i. i < length D) P)"
    and "misplaced_count f n \<le> length D" "misplaced_count f n \<le> length P"
proof -
  have le: "length D \<le> n" using flagged_length[of f n] unfolding D_def by simp
  have low: "filter (\<lambda>i. i < length D) P = flagged (\<lambda>i. \<not> f i) (length D)" "filter (\<lambda>i. i < length D) D = flagged f (length D)"
    using flagged_low[OF le] unfolding D_def P_def by blast+
  have "length (filter (\<lambda>i. i < length D) D) + length (filter (\<lambda>i. \<not> i < length D) D) = length D"
    by (rule sum_length_filter_compl)
  then show eq: "misplaced_count f n = length (filter (\<lambda>i. i < length D) P)"
    using flagged_length[of f "length D"] low unfolding misplaced_count_def D_def[symmetric] by (simp add: not_less)
  show "misplaced_count f n \<le> length D" unfolding misplaced_count_def D_def by simp
  show "misplaced_count f n \<le> length P" unfolding eq by simp
qed

lemma sorted_prefix_length: "sorted (xs :: nat list) \<Longrightarrow> j < length xs \<Longrightarrow> xs ! j < k \<longleftrightarrow> j < length (filter (\<lambda>x. x < k) xs)"
proof (induction xs arbitrary: j)
  case Nil
  then show ?case by simp
next
  case (Cons x xs)
  show ?case
  proof (cases "x < k")
    case True
    then show ?thesis using Cons by (cases j) simp_all
  next
    case False
    then have none: "\<forall>y \<in> set (x # xs). \<not> y < k" using Cons.prems(1) by fastforce
    then have "filter (\<lambda>x. x < k) (x # xs) = []" by (simp add: filter_empty_conv)
    moreover have "\<not> (x # xs) ! j < k" using none Cons.prems(2) nth_mem by blast
    ultimately show ?thesis by simp
  qed
qed

text \<open>Which of the indices to swap are out of place.\<close>

lemma swap_indices:
  fixes f :: "nat \<Rightarrow> bool" and n :: nat
  defines "D \<equiv> flagged f n" and "P \<equiv> flagged (\<lambda>i. \<not> f i) n"
  shows "j < length P \<Longrightarrow> P ! j < length D \<longleftrightarrow> j < misplaced_count f n"
    and "j < length D \<Longrightarrow> D ! (length D - Suc j) < length D \<longleftrightarrow> misplaced_count f n \<le> j"
proof -
  show "j < length P \<Longrightarrow> P ! j < length D \<longleftrightarrow> j < misplaced_count f n"
    using sorted_prefix_length[of P j "length D"] misplaced_both(1)[of f n] sorted_flagged unfolding D_def P_def by metis
  have "length (filter (\<lambda>x. x < length D) D) = length D - misplaced_count f n"
    using sum_length_filter_compl[of "\<lambda>x. x < length D" D] unfolding misplaced_count_def D_def[symmetric] by (simp add: not_less)
  then show "j < length D \<Longrightarrow> D ! (length D - Suc j) < length D \<longleftrightarrow> misplaced_count f n \<le> j"
    using sorted_prefix_length[of D "length D - Suc j" "length D"] sorted_flagged(1)[of f n] misplaced_both(2)[of f n]
    unfolding D_def by auto
qed

lemma flagged_mem: "x \<in> set (flagged f n) \<longleftrightarrow> x < n \<and> f x"
  by (auto simp: flagged_def)

lemma swapped_flags:
  fixes f :: "nat \<Rightarrow> bool" and n :: nat and xs :: "'r list"
  defines "D \<equiv> flagged f n" and "P \<equiv> flagged (\<lambda>i. \<not> f i) n"
  assumes len: "length xs = n" and q: "\<forall>i < n. Q (xs ! i) = f i"
  shows "k \<le> misplaced_count f n \<Longrightarrow> x < n \<Longrightarrow> Q (swapped D P k xs ! x) =
    (x \<in> (!) P ` {..<k} \<or> (x \<notin> (\<lambda>j. D ! (length D - Suc j)) ` {..<k} \<and> f x))"
proof (induction k arbitrary: x)
  case 0
  then show ?case using q by (simp add: swapped_def)
next
  case (Suc k)
  let ?p = "P ! k" and ?d = "D ! (length D - Suc k)" and ?X = "swapped D P k xs"
  have k: "k < length P" "k < length D" using Suc.prems(1) misplaced_both(2,3)[of f n] unfolding D_def P_def by simp_all
  then have mem: "?p < n" "\<not> f ?p" "?d < n" "f ?d"
    using nth_mem[of k P] nth_mem[of "length D - Suc k" D] unfolding P_def D_def flagged_mem by auto
  have P_low: "\<forall>y \<in> (!) P ` {..<k}. \<not> f y" using k(1) nth_mem[of _ P] unfolding P_def by (auto simp: flagged_mem)
  have D_low: "\<forall>y \<in> (\<lambda>j. D ! (length D - Suc j)) ` {..<k}. f y"
    using k(2) nth_mem[of _ D] unfolding D_def by (auto simp: flagged_mem)
  have new: "?p \<notin> (!) P ` {..<k}" "?d \<notin> (\<lambda>j. D ! (length D - Suc j)) ` {..<k}"
    using k sorted_flagged(2)[of _ n] unfolding P_def D_def by (auto simp: nth_eq_iff_index_eq)
  have step: "swapped D P (Suc k) xs ! x = ?X ! (if x = ?p then ?d else if x = ?d then ?p else x)"
    using nth_swap_nth[of ?p ?X ?d x] mem Suc.prems(2) len unfolding swapped_Suc by simp
  consider "x = ?p" | "x = ?d" "x \<noteq> ?p" | "x \<noteq> ?p" "x \<noteq> ?d" by blast
  then show ?case
  proof cases
    case 1
    then show ?thesis using step Suc.IH[of ?d] Suc.prems(1) mem new(2) P_low by (auto simp: lessThan_Suc)
  next
    case 2
    then show ?thesis using step Suc.IH[of ?p] Suc.prems(1) mem new(1) P_low by (auto simp: lessThan_Suc)
  next
    case 3
    then show ?thesis using step Suc.IH[of x] Suc.prems by (auto simp: lessThan_Suc)
  qed
qed

lemma swap_decodes_run:
  fixes f :: "nat \<Rightarrow> bool" and n :: nat
  defines "D \<equiv> flagged f n" and "P \<equiv> flagged (\<lambda>i. \<not> f i) n"
  defines "N \<equiv> min (length D) (length P)" and "m \<equiv> misplaced_count f n"
  shows "j \<le> m \<Longrightarrow> swap_decodes swap D P [Suc j..<Suc N] (c, b) =
    (c \<or> j < m, fold (\<lambda>j. swap (P ! j) (D ! (length D - Suc j))) [j..<m] b)"
proof (induction "m - j" arbitrary: j c b)
  case 0
  then have j: "j = m" by simp
  show ?case
  proof (cases "j < N")
    case True
    then have "D ! (length D - Suc j) < length D" using swap_indices(2)[of j f n] j unfolding D_def N_def m_def by simp
    then show ?thesis using True j by (simp add: upt_conv_Cons del: upt_Suc)
  next
    case False
    then show ?thesis using j by simp
  qed
next
  case (Suc i)
  then have jm: "j < m" by simp
  then have jN: "j < N" using misplaced_both(2,3)[of f n] unfolding N_def m_def D_def P_def by simp
  then have "\<not> D ! (length D - Suc j) < length D" using swap_indices(2)[of j f n] jm unfolding D_def N_def m_def by simp
  then have "swap_decodes swap D P [Suc j..<Suc N] (c, b)
      = swap_decodes swap D P [Suc (Suc j)..<Suc N] (True, swap (P ! j) (D ! (length D - Suc j)) b)"
    using jN by (simp add: upt_conv_Cons del: upt_Suc)
  also have "\<dots> = (True, fold (\<lambda>j. swap (P ! j) (D ! (length D - Suc j))) [Suc j..<m] (swap (P ! j) (D ! (length D - Suc j)) b))"
    using Suc.hyps(1)[of "Suc j" True] Suc.hyps(2) jm by simp
  finally show ?case using jm by (simp add: upt_conv_Cons del: upt_Suc)
qed

lemma rows_swapped:
  fixes f :: "nat \<Rightarrow> bool" and n :: nat
  defines "D \<equiv> flagged f n" and "P \<equiv> flagged (\<lambda>i. \<not> f i) n"
  assumes sw: "swaps_rows swap rows" and len: "length (rows b) = n"
  shows "k \<le> misplaced_count f n \<Longrightarrow>
    rows (fold (\<lambda>j. swap (P ! j) (D ! (length D - Suc j))) [0..<k] b) = swapped D P k (rows b)
    \<and> mset (swapped D P k (rows b)) = mset (rows b)"
proof (induction k)
  case 0
  then show ?case by (simp add: swapped_def)
next
  case (Suc k)
  have k: "k < length P" "k < length D" using Suc.prems misplaced_both(2,3)[of f n] unfolding D_def P_def by simp_all
  then have mem: "P ! k < n" "D ! (length D - Suc k) < n"
    using nth_mem[of k P] nth_mem[of "length D - Suc k" D] unfolding P_def D_def flagged_mem by auto
  have "length (rows (fold (\<lambda>j. swap (P ! j) (D ! (length D - Suc j))) [0..<k] b)) = n" using Suc len by simp
  then show ?case using Suc mem sw len mset_swap_nth[of "P ! k" "swapped D P k (rows b)" "D ! (length D - Suc k)"]
    unfolding swaps_rows_def swapped_Suc by simp
qed

lemma swapped_all_flags:
  fixes f :: "nat \<Rightarrow> bool" and n :: nat
  defines "D \<equiv> flagged f n" and "P \<equiv> flagged (\<lambda>i. \<not> f i) n"
  assumes len: "length xs = n" and q: "\<forall>i < n. Q (xs ! i) = f i" and x: "x < n"
  shows "Q (swapped D P (misplaced_count f n) xs ! x) \<longleftrightarrow> x < length D"
proof -
  let ?m = "misplaced_count f n" and ?d = "\<lambda>j. D ! (length D - Suc j)"
  note le = misplaced_both(2,3)[of f n, folded D_def P_def]
  have low: "P ! j < length D \<and> \<not> ?d j < length D" if "j < ?m" for j
    using swap_indices[of j f n] that le unfolding D_def P_def by auto
  have flags: "Q (swapped D P ?m xs ! x) = (x \<in> (!) P ` {..<?m} \<or> (x \<notin> ?d ` {..<?m} \<and> f x))"
    using swapped_flags[OF len q, of ?m x] x unfolding D_def P_def by simp
  show ?thesis
  proof (cases "x < length D")
    case True
    have "x \<in> (!) P ` {..<?m}" if "\<not> f x"
    proof -
      have "x \<in> set P" using that x by (simp add: P_def flagged_mem)
      then obtain j where j: "j < length P" "x = P ! j" by (metis in_set_conv_nth)
      then have "j < ?m" using swap_indices(1)[of j f n] True unfolding D_def P_def by simp
      then show ?thesis using j(2) by blast
    qed
    then show ?thesis using flags True low by auto
  next
    case False
    have "x \<in> ?d ` {..<?m}" if "f x"
    proof -
      have "x \<in> set D" using that x by (simp add: D_def flagged_mem)
      then obtain i where i: "i < length D" "x = D ! i" by (metis in_set_conv_nth)
      have pos: "length D - Suc i < length D" "length D - Suc (length D - Suc i) = i" using i(1) by simp_all
      then have d: "x = ?d (length D - Suc i)" using i(2) by simp
      have "length D - Suc i < ?m" using swap_indices(2)[of "length D - Suc i" f n, folded D_def] pos i False by simp
      then show ?thesis using d by blast
    qed
    then show ?thesis using flags False low by auto
  qed
qed

text \<open>Is the row a decode, with the tokens scheduled for its request?\<close>

definition decodes_row :: "(nat, int) dict \<Rightarrow> nat \<Rightarrow> batch_row \<Rightarrow> bool" where
  "decodes_row sched k r = is_decode (1 + int k) (the (dict_get sched (br_req_id r))) r"

text \<open>
  Reordering a batch for latent attention keeps its rows and puts the decodes, requests with at most one
  token and the drafts scheduled and a computed prompt, in front of all others; it reports a change
  exactly when some row among the first ones was no decode, and leaves the batch alone otherwise.
\<close>
theorem mla_reorder_fronts:
  fixes k :: nat
  assumes sw: "swaps_rows swap rows" and sched: "\<forall>r \<in> set (rows b). br_req_id r \<in> set (dict_keys sched)"
  defines "nd \<equiv> length (filter (decodes_row sched k) (rows b))"
  shows "\<exists>modified b'. mla_reorder_batch swap rows sched k b = Inr (modified, b') \<and> mset (rows b') = mset (rows b)
    \<and> (\<forall>i < length (rows b). decodes_row sched k (rows b' ! i) \<longleftrightarrow> i < nd)
    \<and> modified = (\<exists>i < nd. \<not> decodes_row sched k (rows b ! i)) \<and> (modified \<or> b' = b)"
proof -
  let ?n = "length (rows b)" and ?sched = "map (\<lambda>r. the (dict_get sched (br_req_id r))) (rows b)"
  define f where "f = (\<lambda>i. decodes_row sched k (rows b ! i))"
  let ?D = "flagged f ?n" and ?P = "flagged (\<lambda>i. \<not> f i) ?n" and ?m = "misplaced_count f ?n"
  let ?b' = "fold (\<lambda>j. swap (?P ! j) (?D ! (length ?D - Suc j))) [0..<?m] b"
  have lookup: "map_res (\<lambda>r. dict_at sched (br_req_id r)) (rows b) = Inr ?sched"
    using sched by (intro map_res_total) (force simp: dict_at_def map_of_eq_None_iff split: option.split)
  have dec: "filter (\<lambda>i. is_decode (1 + int k) (?sched ! i) (rows b ! i)) [0..<?n] = ?D"
    "filter (\<lambda>i. \<not> is_decode (1 + int k) (?sched ! i) (rows b ! i)) [0..<?n] = ?P"
    unfolding flagged_def f_def decodes_row_def by (intro filter_cong refl, simp)+
  have run: "mla_reorder_batch swap rows sched k b = Inr (0 < ?m, ?b')"
    using swap_decodes_run[of 0 f ?n swap False b] unfolding mla_reorder_batch_def lookup bind_res_simps Let_def dec by simp
  have nd: "nd = length ?D"
    unfolding nd_def flagged_def f_def by (metis length_map map_nth filter_map comp_apply filter_cong)
  have rows': "rows ?b' = swapped ?D ?P ?m (rows b)" "mset (rows ?b') = mset (rows b)"
    using rows_swapped[OF sw refl, of ?m f] by simp_all
  have flags: "\<forall>i < ?n. decodes_row sched k (rows ?b' ! i) \<longleftrightarrow> i < nd"
    using swapped_all_flags[of "rows b" ?n "decodes_row sched k" f] unfolding rows'(1) nd by (simp add: f_def)
  have le: "nd \<le> ?n" unfolding nd_def by simp
  have "0 < ?m \<longleftrightarrow> (\<exists>i < nd. \<not> f i)"
  proof -
    have "0 < ?m \<longleftrightarrow> filter (\<lambda>i. i < nd) ?P \<noteq> []" using misplaced_both(1)[of f ?n] nd by simp
    also have "\<dots> \<longleftrightarrow> (\<exists>i < nd. \<not> f i)" using le by (force simp: filter_empty_conv flagged_mem)
    finally show ?thesis .
  qed
  moreover have "0 < ?m \<or> ?b' = b" by (cases "?m") simp_all
  ultimately show ?thesis using run rows'(2) flags by (auto simp: f_def)
qed

lemma list_swaps_rows: "swaps_rows swap_nth id"
  by (simp add: swaps_rows_def)

lemma mla_reorder_fronts_witness:
  "\<exists>b'. mla_reorder_batch swap_nth id [(1, 4), (2, 1), (3, 2)] 1
       [\<lparr>br_req_id = 1, br_num_computed_tokens = 0, br_num_prompt_tokens = 4\<rparr>,
        \<lparr>br_req_id = 2, br_num_computed_tokens = 7, br_num_prompt_tokens = 5\<rparr>,
        \<lparr>br_req_id = 3, br_num_computed_tokens = 6, br_num_prompt_tokens = 6\<rparr>] = Inr (True, b')
     \<and> (\<forall>i < 3. decodes_row [(1, 4), (2, 1), (3, 2)] 1 (b' ! i) \<longleftrightarrow> i < 2)"
proof -
  let ?b = "[\<lparr>br_req_id = 1, br_num_computed_tokens = 0, br_num_prompt_tokens = 4\<rparr>,
      \<lparr>br_req_id = 2, br_num_computed_tokens = 7, br_num_prompt_tokens = 5\<rparr>,
      \<lparr>br_req_id = 3, br_num_computed_tokens = 6, br_num_prompt_tokens = 6\<rparr>] :: batch_row list"
  have ids: "\<forall>r \<in> set (id ?b). br_req_id r \<in> set (dict_keys [(1, 4), (2, 1), (3, 2 :: int)])" by simp
  let ?sched = "[(1, 4), (2, 1), (3, 2 :: int)] :: (nat, int) dict"
  have nd: "length (filter (decodes_row ?sched 1) (id ?b)) = 2" by (simp add: decodes_row_def is_decode_def)
  have "\<not> decodes_row ?sched 1 (id ?b ! 0)" by (simp add: decodes_row_def is_decode_def)
  then have ex: "\<exists>i < 2. \<not> decodes_row ?sched 1 (id ?b ! i)" by (intro exI[of _ 0]) simp
  have len: "length (id ?b) = 3" by simp
  obtain modified b' where r: "mla_reorder_batch swap_nth id ?sched 1 ?b = Inr (modified, b')"
      "\<forall>i < 3. decodes_row ?sched 1 (id b' ! i) \<longleftrightarrow> i < 2" "modified = (\<exists>i < 2. \<not> decodes_row ?sched 1 (id ?b ! i))"
    using mla_reorder_fronts[OF list_swaps_rows ids, of 1, unfolded nd len] by blast
  have "modified" using r(3) ex by blast
  then show ?thesis using r(1,2) by (intro exI[of _ b']) simp
qed

end
