(* ===== verification/MlaMetadata.thy ===== *)
theory MlaMetadata
  imports Partition
begin

text \<open>
  The metadata of latent attention (\<^verbatim>\<open>FlashMLAMetadataBuilder\<close> in
  \<^verbatim>\<open>vllm_mlu/v1/attention/backends/mla/flashmla.py\<close>): the batch is divided into decodes and
  prefills, and the computed context of the prefills is cut into chunks that fit the workspace.
  \<open>split_decodes_and_prefills\<close>, the workspace size of the base class and the split of the input batch are
  arguments. A tensor and its copy on the host are one list.
\<close>

section \<open>The workspace\<close>

record mla_config =
  ml_decoder_query_len :: nat
  ml_chunked_prefill_enabled :: bool
  ml_enable_caching :: bool
  ml_use_unchunk_sched :: bool
  ml_is_deepseek_v32 :: bool
  ml_max_model_len :: nat
  ml_workspace_size :: nat
  ml_aot_page_size :: "nat option"

definition mla_workspace_size :: "nat \<Rightarrow> bool \<Rightarrow> bool \<Rightarrow> bool \<Rightarrow> bool \<Rightarrow> nat \<Rightarrow> nat \<Rightarrow> nat \<Rightarrow> nat res" where
  "mla_workspace_size inherited is_v32 chunked_prefill use_unchunk enable_caching max_model_len max_num_seqs block_size =
     (if \<not> is_v32 \<and> \<not> chunked_prefill \<and> use_unchunk \<and> enable_caching then
        let w = min (max (8 * max_model_len) (4 * max_num_seqs * block_size)) (128 * 1024)
        in require (max_num_seqs * block_size \<le> w) AssertionError (Inr w)
      else Inr inherited)"

section \<open>Chunks of the context\<close>

record chunked_context =
  cc_cu_seq_lens :: "nat list list"
  cc_starts :: "nat list list"
  cc_seq_tot :: "nat list"
  cc_max_seq_lens :: "nat list"
  cc_seq_lens :: "nat list list"

text \<open>The tokens of chunk \<open>c\<close> of a context: none when the context ends before it.\<close>

definition chunk_len :: "nat \<Rightarrow> int \<Rightarrow> nat \<Rightarrow> nat" where
  "chunk_len max_context_chunk context_len c =
     nat (min context_len (int (c * max_context_chunk + max_context_chunk)) - int (c * max_context_chunk))"

definition max_context_chunk_of :: "mla_config \<Rightarrow> int list \<Rightarrow> nat res" where
  "max_context_chunk_of cfg context_lens =
     bind_res (if ml_is_deepseek_v32 cfg then Inr (ml_max_model_len cfg)
       else let n = length (filter (\<lambda>x. 0 < x) context_lens) in
            require (n \<noteq> 0) ZeroDivisionError (Inr (ml_workspace_size cfg div n))) (\<lambda>chunk.
     case ml_aot_page_size cfg of
       None \<Rightarrow> Inr chunk
     | Some page \<Rightarrow> require (page \<noteq> 0) ZeroDivisionError (Inr (chunk div page * page)))"

definition context_chunks :: "mla_config \<Rightarrow> int list \<Rightarrow> int \<Rightarrow> chunked_context res" where
  "context_chunks cfg context_lens max_context_len =
     bind_res (max_context_chunk_of cfg context_lens) (\<lambda>chunk.
     require (0 < chunk) AssertionError
     (let num_chunks = (nat max_context_len + chunk - 1) div chunk;
          seq_lens = map (\<lambda>c. map (\<lambda>x. chunk_len chunk x c) context_lens) [0..<num_chunks];
          max_seq_lens = map (\<lambda>row. Max (set row)) seq_lens
      in require (ml_is_deepseek_v32 cfg \<or> Max (set max_seq_lens) \<le> ml_workspace_size cfg) AssertionError
         (Inr \<lparr>cc_cu_seq_lens = map (\<lambda>row. 0 # accumulate row) seq_lens,
               cc_starts = map (\<lambda>c. replicate (length context_lens) (c * chunk)) [0..<num_chunks],
               cc_seq_tot = map sum_list seq_lens, cc_max_seq_lens = max_seq_lens, cc_seq_lens = seq_lens\<rparr>)))"

section \<open>The metadata\<close>

record mla_prefill =
  mp_block_table :: "int list list"
  mp_query_start_loc :: "int list"
  mp_max_query_len :: int
  mp_chunked_context :: "chunked_context option"
  mp_num_prefills :: nat
  mp_max_seq_len :: int

record mla_decode =
  md_block_table :: "int list list"
  md_seq_lens :: "int list"
  md_query_start_loc :: "int list"
  md_max_query_len :: int
  md_max_seq_len :: int

record mla_metadata =
  mm_num_reqs :: nat
  mm_max_query_len :: int
  mm_max_seq_len :: int
  mm_num_actual_tokens :: nat
  mm_query_start_loc :: "int list"
  mm_slot_mapping :: "int list"
  mm_num_decodes :: nat
  mm_num_decode_tokens :: int
  mm_num_prefills :: nat
  mm_num_prefill_tokens :: int
  mm_prefill :: "mla_prefill option"
  mm_decode :: "mla_decode option"

definition loc_diffs :: "int list \<Rightarrow> int list" where
  "loc_diffs q = map2 (\<lambda>b a. b - a) (tl q) (butlast q)"

text \<open>\<open>tensor.max()\<close> raises on an empty tensor.\<close>

definition tensor_max :: "int list \<Rightarrow> int res" where
  "tensor_max xs = require (xs \<noteq> []) RuntimeError (Inr (Max (set xs)))"

definition mla_build_prefill :: "mla_config \<Rightarrow> common_md \<Rightarrow> int list \<Rightarrow> nat \<Rightarrow> nat \<Rightarrow> mla_prefill option res" where
  "mla_build_prefill cfg cm num_computed num_decodes num_prefills =
     (if num_prefills = 0 then Inr None
      else let context_lens = slice num_computed num_decodes (cm_num_reqs cm) in
        bind_res (tensor_max context_lens) (\<lambda>max_context_len.
        bind_res (if 0 < num_decodes
            then bind_res (nth_res (cm_query_start_loc cm) num_decodes) (\<lambda>q0.
                 Inr (map (\<lambda>q. q - q0) (drop num_decodes (cm_query_start_loc cm))))
            else Inr (cm_query_start_loc cm)) (\<lambda>query_start_loc.
        bind_res (if (ml_chunked_prefill_enabled cfg
                \<or> (ml_use_unchunk_sched cfg \<and> ml_enable_caching cfg \<and> cm_infer_mode cm = Some CHUNKED)) \<and> 0 < max_context_len
            then bind_res (context_chunks cfg context_lens max_context_len) (\<lambda>cc. Inr (Some cc))
            else Inr None) (\<lambda>chunked_context.
        bind_res (tensor_max (drop num_decodes (cm_seq_lens_cpu cm))) (\<lambda>max_seq_len.
        Inr (Some \<lparr>mp_block_table = drop num_decodes (cm_block_table_tensor cm), mp_query_start_loc = query_start_loc,
                   mp_max_query_len = cm_max_query_len cm, mp_chunked_context = chunked_context,
                   mp_num_prefills = num_prefills, mp_max_seq_len = max_seq_len\<rparr>))))))"

definition mla_build_decode :: "common_md \<Rightarrow> int list \<Rightarrow> nat \<Rightarrow> mla_decode option res" where
  "mla_build_decode cm query_lens num_decodes =
     (if num_decodes = 0 then Inr None
      else bind_res (tensor_max (take num_decodes query_lens)) (\<lambda>max_query_len.
           bind_res (tensor_max (take num_decodes (cm_seq_lens_cpu cm))) (\<lambda>max_seq_len.
           Inr (Some \<lparr>md_block_table = take num_decodes (cm_block_table_tensor cm), md_seq_lens = take num_decodes (cm_seq_lens cm),
                      md_query_start_loc = take (num_decodes + 1) (cm_query_start_loc cm),
                      md_max_query_len = max_query_len, md_max_seq_len = max_seq_len\<rparr>))))"

definition mla_build ::
  "(common_md \<Rightarrow> nat \<Rightarrow> nat \<times> nat \<times> nat \<times> nat) \<Rightarrow> mla_config \<Rightarrow> common_md \<Rightarrow> (nat \<times> nat) option \<Rightarrow> mla_metadata res" where
  "mla_build split cfg cm input_batch =
     (let query_lens = loc_diffs (cm_query_start_loc_cpu cm); num_tokens = cm_num_actual_tokens cm in
      require (length (cm_seq_lens_cpu cm) = length query_lens) RuntimeError
      (let num_computed = map2 (-) (cm_seq_lens_cpu cm) query_lens in
       bind_res (case input_batch of
           None \<Rightarrow> (case split cm (ml_decoder_query_len cfg) of (nd, np, dt, pt) \<Rightarrow> Inr (nd, np, int dt, int pt))
         | Some (nd, np) \<Rightarrow> bind_res (nth_res (cm_query_start_loc_cpu cm) nd) (\<lambda>dt. Inr (nd, np, dt, int num_tokens - dt)))
         (\<lambda>(num_decodes, num_prefills, num_decode_tokens, num_prefill_tokens).
       require (num_decodes + num_prefills = cm_num_reqs cm) AssertionError
       (require (num_decode_tokens + num_prefill_tokens = int num_tokens) AssertionError
       (bind_res (mla_build_prefill cfg cm num_computed num_decodes num_prefills) (\<lambda>prefill.
        bind_res (mla_build_decode cm query_lens num_decodes) (\<lambda>decode.
        Inr \<lparr>mm_num_reqs = cm_num_reqs cm, mm_max_query_len = cm_max_query_len cm, mm_max_seq_len = cm_max_seq_len cm,
             mm_num_actual_tokens = num_tokens, mm_query_start_loc = cm_query_start_loc cm, mm_slot_mapping = cm_slot_mapping cm,
             mm_num_decodes = num_decodes, mm_num_decode_tokens = num_decode_tokens, mm_num_prefills = num_prefills,
             mm_num_prefill_tokens = num_prefill_tokens, mm_prefill = prefill, mm_decode = decode\<rparr>)))))))"

definition mla_build_for_cudagraph_capture ::
  "(common_md \<Rightarrow> nat \<Rightarrow> nat \<times> nat \<times> nat \<times> nat) \<Rightarrow> mla_config \<Rightarrow> common_md \<Rightarrow> mla_metadata res" where
  "mla_build_for_cudagraph_capture split cfg cm =
     require (cm_infer_mode cm = Some DECODE_ONLY \<longrightarrow> int (cm_num_reqs cm) * cm_max_query_len cm = int (cm_num_actual_tokens cm))
       AssertionError (mla_build split cfg cm None)"

section \<open>The chunks fit the workspace\<close>

text \<open>The tokens of a context that chunk \<open>c\<close> holds.\<close>

definition chunk_tokens :: "chunked_context \<Rightarrow> nat \<Rightarrow> nat \<Rightarrow> nat list" where
  "chunk_tokens cc r c = [cc_starts cc ! c ! r..<cc_starts cc ! c ! r + cc_seq_lens cc ! c ! r]"

lemma chunk_len_tokens:
  assumes "0 < chunk"
  shows "concat (map (\<lambda>c. [c * chunk..<c * chunk + chunk_len chunk (int x) c]) [0..<n]) = [0..<min x (n * chunk)]"
proof (induction n)
  case 0
  then show ?case by simp
next
  case (Suc n)
  have "[n * chunk..<n * chunk + chunk_len chunk (int x) n] = [min x (n * chunk)..<min x (Suc n * chunk)]"
  proof (cases "n * chunk \<le> x")
    case True
    then have "chunk_len chunk (int x) n = min x (n * chunk + chunk) - n * chunk"
      unfolding chunk_len_def by (simp add: min_def nat_diff_distrib flip: of_nat_add of_nat_mult)
    then show ?thesis using True by (simp add: min_def ac_simps)
  next
    case False
    then have "int x \<le> int (n * chunk)" by linarith
    then have "chunk_len chunk (int x) n = 0"
      unfolding chunk_len_def using min.cobounded1[of "int x" "int (n * chunk + chunk)"] by linarith
    then show ?thesis using False by (simp add: min_def)
  qed
  moreover have "min x (n * chunk) \<le> min x (Suc n * chunk)" by (simp add: min_le_iff_disj)
  then have "[0..<min x (Suc n * chunk)] = [0..<min x (n * chunk)] @ [min x (n * chunk)..<min x (Suc n * chunk)]"
    using upt_add_eq_append[of 0 "min x (n * chunk)" "min x (Suc n * chunk) - min x (n * chunk)"] by simp
  ultimately show ?case using Suc.IH by simp
qed

lemma chunk_len_le: "chunk_len chunk x c \<le> chunk"
  unfolding chunk_len_def using min.cobounded2[of x "int (c * chunk + chunk)"] by linarith

lemma chunk_len_zero: "x \<le> 0 \<Longrightarrow> chunk_len chunk x c = 0"
  unfolding chunk_len_def using min.cobounded1[of x "int (c * chunk + chunk)"] by linarith

lemma row_total: "sum_list (map (\<lambda>x. chunk_len chunk x c) xs) \<le> length (filter (\<lambda>x. 0 < x) xs) * chunk"
proof (induction xs)
  case Nil
  then show ?case by simp
next
  case (Cons x xs)
  show ?case
  proof (cases "0 < x")
    case True
    then show ?thesis using Cons chunk_len_le[of chunk x c] by simp
  next
    case False
    then show ?thesis using Cons chunk_len_zero[of x chunk c] by simp
  qed
qed

lemma Max_row: "row \<noteq> [] \<Longrightarrow> Max (set row) \<le> sum_list (row :: nat list)"
  using member_le_sum_list[of _ row] by simp

text \<open>
  With the workspace of the constructor and at most as many prefills as requests of a step, every chunk
  of all requests together fits the workspace, and the chunks of a request make up its context.
\<close>

lemma context_chunks_fit:
  assumes ws: "mla_workspace_size inherited False chunked True True max_model_len max_num_seqs block_size = Inr (ml_workspace_size cfg)"
    and cfg: "\<not> chunked" "\<not> ml_is_deepseek_v32 cfg" "0 < block_size" "\<forall>p. ml_aot_page_size cfg = Some p \<longrightarrow> p = block_size"
    and lens: "length ctx \<le> max_num_seqs" "max_context_len = Max (set (map int ctx))" "0 < max_context_len" "ctx \<noteq> []"
  shows "\<exists>cc. context_chunks cfg (map int ctx) max_context_len = Inr cc
    \<and> (\<forall>c < length (cc_seq_lens cc). sum_list (cc_seq_lens cc ! c) \<le> ml_workspace_size cfg)
    \<and> (\<forall>r < length ctx. concat (map (chunk_tokens cc r) [0..<length (cc_seq_lens cc)]) = [0..<ctx ! r])"
proof -
  let ?ws = "ml_workspace_size cfg" and ?n = "length (filter (\<lambda>x. 0 < x) (map int ctx))"
  have room: "max_num_seqs * block_size \<le> ?ws" using ws cfg(1) by (auto simp: mla_workspace_size_def Let_def require_eq_Inr)
  have "max_context_len \<in> set (map int ctx)" unfolding lens(2) using lens(4) by (intro Max_in) auto
  then have n: "0 < ?n" using lens(3) by (auto simp: filter_empty_conv)
  have "?n \<le> max_num_seqs" by (rule le_trans[OF length_filter_le]) (simp add: lens(1))
  then have "?n * block_size \<le> max_num_seqs * block_size" by (rule mult_le_mono1)
  then have "block_size * ?n \<le> ?ws" unfolding mult.commute[of block_size ?n] using room by (rule le_trans)
  then have block: "block_size \<le> ?ws div ?n" unfolding less_eq_div_iff_mult_less_eq[OF n] .
  obtain chunk where chunk: "max_context_chunk_of cfg (map int ctx) = Inr chunk" "0 < chunk" "chunk \<le> ?ws div ?n"
  proof (cases "ml_aot_page_size cfg")
    case None
    then show ?thesis using that[of "?ws div ?n"] n block cfg(2,3) by (simp add: max_context_chunk_of_def)
  next
    case (Some p)
    have "0 < ?ws div ?n div block_size" using block cfg(3) by (simp add: div_greater_zero_iff)
    then show ?thesis using that[of "?ws div ?n div block_size * block_size"] Some n cfg(2-4)
      by (simp add: max_context_chunk_of_def)
  qed
  let ?N = "(nat max_context_len + chunk - 1) div chunk"
  let ?lens = "map (\<lambda>c. map (\<lambda>x. chunk_len chunk x c) (map int ctx)) [0..<?N]"
  have tot: "sum_list (map (\<lambda>x. chunk_len chunk x c) (map int ctx)) \<le> ?ws" for c
  proof -
    have "?n * chunk \<le> ?n * (?ws div ?n)" using chunk(3) by (rule mult_le_mono2)
    also have "\<dots> \<le> ?ws" by simp
    finally show ?thesis using row_total[of chunk c "map int ctx"] by linarith
  qed
  have N: "0 < ?N" using lens(3) chunk(2) by (simp add: div_greater_zero_iff)
  have "\<forall>x \<in> set (map (\<lambda>row. Max (set row)) ?lens). x \<le> ?ws"
    using le_trans[OF Max_row tot] lens(4) by auto
  then have mx: "Max (set (map (\<lambda>row. Max (set row)) ?lens)) \<le> ?ws" using N by (intro Max.boundedI) auto
  let ?cc = "\<lparr>cc_cu_seq_lens = map (\<lambda>row. 0 # accumulate row) ?lens,
      cc_starts = map (\<lambda>c. replicate (length (map int ctx)) (c * chunk)) [0..<?N],
      cc_seq_tot = map sum_list ?lens, cc_max_seq_lens = map (\<lambda>row. Max (set row)) ?lens, cc_seq_lens = ?lens\<rparr>"
  have run: "context_chunks cfg (map int ctx) max_context_len = Inr ?cc"
    unfolding context_chunks_def chunk(1) bind_res_simps Let_def using chunk(2) mx by simp
  have "concat (map (chunk_tokens ?cc r) [0..<?N]) = [0..<ctx ! r]" if r: "r < length ctx" for r
  proof -
    have "map (chunk_tokens ?cc r) [0..<?N] = map (\<lambda>c. [c * chunk..<c * chunk + chunk_len chunk (int (ctx ! r)) c]) [0..<?N]"
      using r by (intro map_cong) (simp_all add: chunk_tokens_def)
    then have "concat (map (chunk_tokens ?cc r) [0..<?N])
        = concat (map (\<lambda>c. [c * chunk..<c * chunk + chunk_len chunk (int (ctx ! r)) c]) [0..<?N])" by (rule arg_cong)
    also have "\<dots> = [0..<min (ctx ! r) (?N * chunk)]" by (rule chunk_len_tokens[OF chunk(2)])
    finally have "concat (map (chunk_tokens ?cc r) [0..<?N]) = [0..<min (ctx ! r) (?N * chunk)]" .
    moreover have "int (ctx ! r) \<le> max_context_len" unfolding lens(2) using r by (intro Max_ge) auto
    then have "ctx ! r \<le> ?N * chunk" using cdiv_mult_ge[OF chunk(2), of "nat max_context_len"] by linarith
    ultimately show ?thesis by (metis min.absorb1)
  qed
  moreover have "length (cc_seq_lens ?cc) = ?N" by simp
  moreover have "\<forall>c < ?N. sum_list (cc_seq_lens ?cc ! c) \<le> ?ws" using tot by simp
  ultimately show ?thesis using run by metis
qed

section \<open>The metadata of a batch\<close>

lemma length_locs_diffs: "length (loc_diffs (map int (0 # accumulate lens))) = length lens"
  by (simp add: loc_diffs_def del: butlast.simps)

lemma nth_locs_of: "i \<le> length lens \<Longrightarrow> map int (0 # accumulate lens) ! i = int (sum_list (take i lens))"
  using nth_zero_accumulate[of i lens] nth_map[of i "0 # accumulate lens" int] by simp

lemma loc_diffs_locs: "loc_diffs (map int (0 # accumulate lens)) = map int lens"
proof (rule nth_equalityI)
  show "length (loc_diffs (map int (0 # accumulate lens))) = length (map int lens)"
    using length_locs_diffs by simp
  fix i assume "i < length (loc_diffs (map int (0 # accumulate lens)))"
  then have i: "i < length lens" using length_locs_diffs by simp
  have "loc_diffs (map int (0 # accumulate lens)) ! i
      = map int (0 # accumulate lens) ! Suc i - butlast (map int (0 # accumulate lens)) ! i"
    using i by (simp add: loc_diffs_def nth_tl del: butlast.simps)
  also have "butlast (map int (0 # accumulate lens)) ! i = map int (0 # accumulate lens) ! i"
    using i by (intro nth_butlast) (simp del: butlast.simps)
  finally show "loc_diffs (map int (0 # accumulate lens)) ! i = map int lens ! i"
    using i nth_locs_of[of i lens] nth_locs_of[of "Suc i" lens] by (simp add: sum_list_take_Suc)
qed

lemma drop_locs:
  assumes "n \<le> length lens"
  shows "map (\<lambda>q. q - map int (0 # accumulate lens) ! n) (drop n (map int (0 # accumulate lens))) = map int (0 # accumulate (drop n lens))"
proof (rule nth_equalityI)
  let ?q = "map int (0 # accumulate lens)"
  show "length (map (\<lambda>q. q - ?q ! n) (drop n ?q)) = length (map int (0 # accumulate (drop n lens)))" using assms by simp
  fix i assume "i < length (map (\<lambda>q. q - ?q ! n) (drop n ?q))"
  then have i: "n + i \<le> length lens" by simp
  have "map (\<lambda>q. q - ?q ! n) (drop n ?q) ! i = ?q ! (n + i) - ?q ! n"
    using i assms by (subst nth_map) (simp_all del: list.map add: nth_drop)
  also have "\<dots> = int (sum_list (take (n + i) lens)) - int (sum_list (take n lens))" using i nth_locs_of by simp
  also have "\<dots> = int (sum_list (take i (drop n lens)))" by (simp add: take_add)
  finally show "map (\<lambda>q. q - ?q ! n) (drop n ?q) ! i = map int (0 # accumulate (drop n lens)) ! i"
    using i assms nth_locs_of[of i "drop n lens"] by (metis le_diff_conv2 add.commute length_drop)
qed

lemma take_locs: "n \<le> length lens \<Longrightarrow> take (n + 1) (map int (0 # accumulate lens)) = map int (0 # accumulate (take n lens))"
proof (rule nth_equalityI)
  assume n: "n \<le> length lens"
  then show "length (take (n + 1) (map int (0 # accumulate lens))) = length (map int (0 # accumulate (take n lens)))" by simp
  fix i assume "i < length (take (n + 1) (map int (0 # accumulate lens)))"
  then have i: "i \<le> n" using n by simp
  then show "take (n + 1) (map int (0 # accumulate lens)) ! i = map int (0 # accumulate (take n lens)) ! i"
    using n nth_locs_of[of i lens] nth_locs_of[of i "take n lens"] by (simp add: min_def del: list.map)
qed

text \<open>A batch as the runner describes it: the tokens scheduled for its requests and their lengths.\<close>

definition describes :: "common_md \<Rightarrow> nat list \<Rightarrow> nat list \<Rightarrow> bool" where
  "describes cm lens seqs \<longleftrightarrow> cm_query_start_loc cm = map int (0 # accumulate lens)
     \<and> cm_query_start_loc_cpu cm = map int (0 # accumulate lens)
     \<and> cm_seq_lens cm = map int seqs \<and> cm_seq_lens_cpu cm = map int seqs \<and> length seqs = length lens
     \<and> cm_num_reqs cm = length lens \<and> length (cm_block_table_tensor cm) = length lens
     \<and> cm_num_actual_tokens cm = sum_list lens \<and> list_all2 (\<le>) lens seqs"

lemma computed_of_batch:
  "list_all2 (\<le>) lens seqs \<Longrightarrow> map2 (-) (map int seqs) (map int lens) = map int (map2 (-) seqs lens)"
  by (induction lens seqs rule: list_all2_induct) auto

lemma prefill_part:
  assumes d: "describes cm lens seqs" and nd: "nd < length lens"
    and ws: "mla_workspace_size inherited False (ml_chunked_prefill_enabled cfg) (ml_use_unchunk_sched cfg) (ml_enable_caching cfg)
        (ml_max_model_len cfg) max_num_seqs block_size = Inr (ml_workspace_size cfg)"
    and cfg: "\<not> ml_chunked_prefill_enabled cfg" "ml_use_unchunk_sched cfg" "ml_enable_caching cfg" "\<not> ml_is_deepseek_v32 cfg"
      "0 < block_size" "\<forall>p. ml_aot_page_size cfg = Some p \<longrightarrow> p = block_size" "length lens \<le> max_num_seqs"
  defines "ctx \<equiv> drop nd (map2 (-) seqs lens)"
  shows "\<exists>p. mla_build_prefill cfg cm (map int (map2 (-) seqs lens)) nd (length lens - nd) = Inr (Some p)
    \<and> mp_query_start_loc p = map int (0 # accumulate (drop nd lens)) \<and> mp_block_table p = drop nd (cm_block_table_tensor cm)
    \<and> (cm_infer_mode cm = Some CHUNKED \<and> (\<exists>x \<in> set ctx. 0 < x) \<longrightarrow> mp_chunked_context p \<noteq> None)
    \<and> (\<forall>cc. mp_chunked_context p = Some cc \<longrightarrow>
         (\<forall>c < length (cc_seq_lens cc). sum_list (cc_seq_lens cc ! c) \<le> ml_workspace_size cfg)
         \<and> (\<forall>r < length ctx. concat (map (chunk_tokens cc r) [0..<length (cc_seq_lens cc)]) = [0..<ctx ! r]))"
proof -
  have len: "length seqs = length lens" "cm_num_reqs cm = length lens" using d by (simp_all add: describes_def)
  have ctx: "slice (map int (map2 (-) seqs lens)) nd (cm_num_reqs cm) = map int ctx"
    using len by (simp add: ctx_def slice_def drop_map)
  have ne: "ctx \<noteq> []" "length ctx = length lens - nd" using nd len by (simp_all add: ctx_def)
  let ?m = "Max (set (map int ctx))"
  have m: "tensor_max (map int ctx) = Inr ?m" using ne(1) by (simp add: tensor_max_def)
  define cond where "cond \<longleftrightarrow> cm_infer_mode cm = Some CHUNKED \<and> 0 < ?m"
  have "\<exists>cc. (if cond then bind_res (context_chunks cfg (map int ctx) ?m) (\<lambda>cc. Inr (Some cc)) else Inr None) = Inr cc
      \<and> (cond \<longrightarrow> cc \<noteq> None) \<and> (\<forall>c'. cc = Some c' \<longrightarrow>
         (\<forall>c < length (cc_seq_lens c'). sum_list (cc_seq_lens c' ! c) \<le> ml_workspace_size cfg)
         \<and> (\<forall>r < length ctx. concat (map (chunk_tokens c' r) [0..<length (cc_seq_lens c')]) = [0..<ctx ! r]))"
  proof (cases cond)
    case True
    have ws': "mla_workspace_size inherited False False True True (ml_max_model_len cfg) max_num_seqs block_size = Inr (ml_workspace_size cfg)"
      using ws cfg(1-3) by simp
    have small: "length ctx \<le> max_num_seqs" using ne(2) cfg(7) by linarith
    obtain c' where "context_chunks cfg (map int ctx) ?m = Inr c'"
        "\<forall>c < length (cc_seq_lens c'). sum_list (cc_seq_lens c' ! c) \<le> ml_workspace_size cfg"
        "\<forall>r < length ctx. concat (map (chunk_tokens c' r) [0..<length (cc_seq_lens c')]) = [0..<ctx ! r]"
      using context_chunks_fit[OF ws' _ cfg(4-6) small refl _ ne(1)] True unfolding cond_def by blast
    then show ?thesis using True by simp
  next
    case False
    then show ?thesis by simp
  qed
  then obtain cc where cc: "(if cond then bind_res (context_chunks cfg (map int ctx) ?m) (\<lambda>cc. Inr (Some cc)) else Inr None) = Inr cc"
      "cond \<longrightarrow> cc \<noteq> None" "\<forall>c'. cc = Some c' \<longrightarrow>
         (\<forall>c < length (cc_seq_lens c'). sum_list (cc_seq_lens c' ! c) \<le> ml_workspace_size cfg)
         \<and> (\<forall>r < length ctx. concat (map (chunk_tokens c' r) [0..<length (cc_seq_lens c')]) = [0..<ctx ! r])" by blast
  have q: "(if 0 < nd then bind_res (nth_res (cm_query_start_loc cm) nd) (\<lambda>q0. Inr (map (\<lambda>q. q - q0) (drop nd (cm_query_start_loc cm))))
      else Inr (cm_query_start_loc cm)) = Inr (map int (0 # accumulate (drop nd lens)))"
    using drop_locs[of nd lens] nd d by (auto simp: describes_def nth_res_def simp del: list.map)
  obtain ms where ms: "tensor_max (drop nd (cm_seq_lens_cpu cm)) = Inr ms"
    using nd d by (auto simp: describes_def tensor_max_def)
  have c: "(ml_chunked_prefill_enabled cfg \<or> (ml_use_unchunk_sched cfg \<and> ml_enable_caching cfg \<and> cm_infer_mode cm = Some CHUNKED)) \<and> 0 < ?m
      \<longleftrightarrow> cond" using cfg(1-3) by (simp add: cond_def)
  have run: "mla_build_prefill cfg cm (map int (map2 (-) seqs lens)) nd (length lens - nd)
      = Inr (Some \<lparr>mp_block_table = drop nd (cm_block_table_tensor cm), mp_query_start_loc = map int (0 # accumulate (drop nd lens)),
          mp_max_query_len = cm_max_query_len cm, mp_chunked_context = cc, mp_num_prefills = length lens - nd, mp_max_seq_len = ms\<rparr>)"
    unfolding mla_build_prefill_def Let_def ctx m bind_res_simps q c cc(1) ms using nd by simp
  have "cond" if "cm_infer_mode cm = Some CHUNKED" "x \<in> set ctx" "0 < x" for x
  proof -
    have "int x \<le> ?m" using that(2) by (intro Max_ge) auto
    then have "0 < ?m" using that(3) by linarith
    then show ?thesis using that(1) unfolding cond_def by blast
  qed
  then show ?thesis using run cc(2,3) by (intro exI conjI) (rule run, auto)
qed

text \<open>
  The metadata of a batch divides it at the first prefill: the decodes and the prefills get the
  start locations, lengths and block tables of their own requests, and when computed context has to be
  attended to, its chunks fit the workspace set up by the constructor and are, for every prefill, exactly its
  computed tokens in order.
\<close>
theorem mla_build_divides:
  assumes d: "describes cm lens seqs" and nd: "nd \<le> length lens"
    and ws: "mla_workspace_size inherited False (ml_chunked_prefill_enabled cfg) (ml_use_unchunk_sched cfg) (ml_enable_caching cfg)
        (ml_max_model_len cfg) max_num_seqs block_size = Inr (ml_workspace_size cfg)"
    and cfg: "\<not> ml_chunked_prefill_enabled cfg" "ml_use_unchunk_sched cfg" "ml_enable_caching cfg" "\<not> ml_is_deepseek_v32 cfg"
      "0 < block_size" "\<forall>p. ml_aot_page_size cfg = Some p \<longrightarrow> p = block_size" "length lens \<le> max_num_seqs"
  defines "ctx \<equiv> drop nd (map2 (-) seqs lens)"
  shows "\<exists>md. mla_build split cfg cm (Some (nd, length lens - nd)) = Inr md
    \<and> mm_num_decode_tokens md = int (sum_list (take nd lens)) \<and> mm_num_prefill_tokens md = int (sum_list (drop nd lens))
    \<and> (0 < nd \<longrightarrow> (\<exists>dec. mm_decode md = Some dec \<and> md_query_start_loc dec = map int (0 # accumulate (take nd lens))
         \<and> md_seq_lens dec = map int (take nd seqs) \<and> md_block_table dec = take nd (cm_block_table_tensor cm)))
    \<and> (nd < length lens \<longrightarrow> (\<exists>p. mm_prefill md = Some p \<and> mp_query_start_loc p = map int (0 # accumulate (drop nd lens))
         \<and> mp_block_table p = drop nd (cm_block_table_tensor cm)
         \<and> (cm_infer_mode cm = Some CHUNKED \<and> (\<exists>x \<in> set ctx. 0 < x) \<longrightarrow> mp_chunked_context p \<noteq> None)
         \<and> (\<forall>cc. mp_chunked_context p = Some cc \<longrightarrow>
              (\<forall>c < length (cc_seq_lens cc). sum_list (cc_seq_lens cc ! c) \<le> ml_workspace_size cfg)
              \<and> (\<forall>r < length ctx. concat (map (chunk_tokens cc r) [0..<length (cc_seq_lens cc)]) = [0..<ctx ! r]))))"
proof -
  have b: "cm_query_start_loc cm = map int (0 # accumulate lens)" "cm_query_start_loc_cpu cm = map int (0 # accumulate lens)"
      "cm_seq_lens cm = map int seqs" "cm_seq_lens_cpu cm = map int seqs" "length seqs = length lens" "cm_num_reqs cm = length lens"
      "cm_num_actual_tokens cm = sum_list lens"
    using d by (simp_all add: describes_def)
  have comp: "map2 (-) (cm_seq_lens_cpu cm) (map int lens) = map int (map2 (-) seqs lens)"
    using d computed_of_batch[of lens seqs] b(4) by (simp add: describes_def)
  have total: "int (sum_list lens) = int (sum_list (take nd lens)) + int (sum_list (drop nd lens))"
    by (metis append_take_drop_id of_nat_add sum_list_append)
  have dt: "nth_res (cm_query_start_loc_cpu cm) nd = Inr (int (sum_list (take nd lens)))"
    using nth_locs_of[OF nd] nd unfolding b(2) by (simp add: nth_res_def del: list.map)
  have "\<exists>dec. mla_build_decode cm (map int lens) nd = Inr dec \<and> (0 < nd \<longrightarrow> (\<exists>d'. dec = Some d'
      \<and> md_query_start_loc d' = map int (0 # accumulate (take nd lens)) \<and> md_seq_lens d' = map int (take nd seqs)
      \<and> md_block_table d' = take nd (cm_block_table_tensor cm)))"
  proof (cases "nd = 0")
    case True
    then show ?thesis by (simp add: mla_build_decode_def)
  next
    case False
    then have "take nd (map int lens) \<noteq> []" "take nd (map int seqs) \<noteq> []" using nd b(5) by auto
    then obtain x y where "tensor_max (take nd (map int lens)) = Inr x" "tensor_max (take nd (map int seqs)) = Inr y" by (simp add: tensor_max_def)
    then show ?thesis using False b(3,4) take_locs[OF nd] unfolding mla_build_decode_def b(1) by (simp add: take_map del: list.map)
  qed
  then obtain dec where dec: "mla_build_decode cm (map int lens) nd = Inr dec" "0 < nd \<longrightarrow> (\<exists>d'. dec = Some d'
      \<and> md_query_start_loc d' = map int (0 # accumulate (take nd lens)) \<and> md_seq_lens d' = map int (take nd seqs)
      \<and> md_block_table d' = take nd (cm_block_table_tensor cm))" by blast
  have "\<exists>pre. mla_build_prefill cfg cm (map int (map2 (-) seqs lens)) nd (length lens - nd) = Inr pre
      \<and> (nd < length lens \<longrightarrow> (\<exists>p. pre = Some p \<and> mp_query_start_loc p = map int (0 # accumulate (drop nd lens))
         \<and> mp_block_table p = drop nd (cm_block_table_tensor cm)
         \<and> (cm_infer_mode cm = Some CHUNKED \<and> (\<exists>x \<in> set ctx. 0 < x) \<longrightarrow> mp_chunked_context p \<noteq> None)
         \<and> (\<forall>cc. mp_chunked_context p = Some cc \<longrightarrow>
              (\<forall>c < length (cc_seq_lens cc). sum_list (cc_seq_lens cc ! c) \<le> ml_workspace_size cfg)
              \<and> (\<forall>r < length ctx. concat (map (chunk_tokens cc r) [0..<length (cc_seq_lens cc)]) = [0..<ctx ! r]))))"
  proof (cases "nd < length lens")
    case True
    then show ?thesis using prefill_part[OF d True ws cfg] unfolding ctx_def by blast
  next
    case False
    then show ?thesis by (simp add: mla_build_prefill_def)
  qed
  then obtain pre where pre: "mla_build_prefill cfg cm (map int (map2 (-) seqs lens)) nd (length lens - nd) = Inr pre"
      "nd < length lens \<longrightarrow> (\<exists>p. pre = Some p \<and> mp_query_start_loc p = map int (0 # accumulate (drop nd lens))
         \<and> mp_block_table p = drop nd (cm_block_table_tensor cm)
         \<and> (cm_infer_mode cm = Some CHUNKED \<and> (\<exists>x \<in> set ctx. 0 < x) \<longrightarrow> mp_chunked_context p \<noteq> None)
         \<and> (\<forall>cc. mp_chunked_context p = Some cc \<longrightarrow>
              (\<forall>c < length (cc_seq_lens cc). sum_list (cc_seq_lens cc ! c) \<le> ml_workspace_size cfg)
              \<and> (\<forall>r < length ctx. concat (map (chunk_tokens cc r) [0..<length (cc_seq_lens cc)]) = [0..<ctx ! r])))" by blast
  have dl: "loc_diffs (cm_query_start_loc_cpu cm) = map int lens" unfolding b(2) by (rule loc_diffs_locs)
  have "\<exists>md. mla_build split cfg cm (Some (nd, length lens - nd)) = Inr md \<and> mm_prefill md = pre \<and> mm_decode md = dec
      \<and> mm_num_decode_tokens md = int (sum_list (take nd lens)) \<and> mm_num_prefill_tokens md = int (sum_list (drop nd lens))"
    unfolding mla_build_def Let_def dl comp option.case dt bind_res_simps prod.case pre(1) dec(1)
    using b(4-7) nd total by simp
  then show ?thesis using pre(2) dec(2) by metis
qed

definition demo_mla_config :: mla_config where
  "demo_mla_config = \<lparr>ml_decoder_query_len = 1, ml_chunked_prefill_enabled = False, ml_enable_caching = True,
     ml_use_unchunk_sched = True, ml_is_deepseek_v32 = False, ml_max_model_len = 8, ml_workspace_size = 64, ml_aot_page_size = None\<rparr>"

definition demo_mla_batch :: common_md where
  "demo_mla_batch = \<lparr>cm_query_start_loc = [0, 1, 4], cm_query_start_loc_cpu = [0, 1, 4], cm_seq_lens = [5, 7], cm_seq_lens_cpu = [5, 7],
     cm_num_computed_tokens_cpu = [4, 4], cm_num_reqs = 2, cm_num_actual_tokens = 4, cm_max_query_len = 3, cm_max_seq_len = 7,
     cm_block_table_tensor = [[1, 2], [3, 4]], cm_slot_mapping = [8, 16, 17, 18], cm_seq_start_loc = [0, 5, 12],
     cm_num_input_tokens = 4, cm_infer_mode = Some CHUNKED, cm_num_prefill_query_tokens = 4, cm_num_prefill_kv_tokens = 4\<rparr>"

lemma mla_build_divides_witness:
  "\<exists>md p cc. mla_build (\<lambda>_ _. (0, 0, 0, 0)) demo_mla_config demo_mla_batch (Some (1, 1)) = Inr md \<and> mm_prefill md = Some p
     \<and> mp_query_start_loc p = [0, 3] \<and> mp_block_table p = [[3, 4]] \<and> mp_chunked_context p = Some cc
     \<and> concat (map (chunk_tokens cc 0) [0..<length (cc_seq_lens cc)]) = [0..<4]"
proof -
  have d: "describes demo_mla_batch [1, 3] [5, 7]" by (simp add: describes_def demo_mla_batch_def accumulate_def)
  have ws: "mla_workspace_size 0 False (ml_chunked_prefill_enabled demo_mla_config) (ml_use_unchunk_sched demo_mla_config)
      (ml_enable_caching demo_mla_config) (ml_max_model_len demo_mla_config) 2 4 = Inr (ml_workspace_size demo_mla_config)"
    by (simp add: mla_workspace_size_def demo_mla_config_def)
  show ?thesis
    using mla_build_divides[OF d _ ws, of 1 "\<lambda>_ _. (0, 0, 0, 0)"]
    by (fastforce simp: demo_mla_config_def demo_mla_batch_def accumulate_def)
qed

end
