(* ===== verification/FlashMetadata.thy ===== *)
theory FlashMetadata
  imports MlaMetadata Eagle
begin

text \<open>
  The metadata of flash attention (\<^verbatim>\<open>vllm_mlu/v1/attention/backends/flash_attn.py\<close>): the division
  of a chunked batch into prefills and decodes, and the padding of a batch of decodes for a captured graph,
  with its inverse \<open>unpad_common_attn_metadata\<close> and \<open>MLUInferMode\<close> of
  \<^verbatim>\<open>vllm_mlu/v1/attention/backends/utils.py\<close>. The buffers of the runner are lists of which the
  metadata holds slices; a tensor and its copy on the host are one list. \<open>split_decodes_and_prefills\<close> and
  \<open>pad_for_cudagraph\<close> of vLLM are arguments.
\<close>

section \<open>Modes of a step\<close>

definition infer_mode_build :: "int \<Rightarrow> int \<Rightarrow> nat \<Rightarrow> infer_mode" where
  "infer_mode_build max_query_len max_computed_tokens uniform_decode_query_len =
     (if max_query_len \<le> int uniform_decode_query_len then DECODE_ONLY
      else if max_computed_tokens = 0 then PREFILL_ONLY else CHUNKED)"

section \<open>Chunked batches\<close>

record chunk_ctx =
  xc_batch_size :: nat
  xc_num_actual_tokens :: nat
  xc_cu_seqlens_q :: "int list"
  xc_cu_seqlens_kv :: "int list"
  xc_max_query_len :: int
  xc_max_seq_len :: int
  xc_total_seqlens :: int

definition build_chunk_metadata ::
  "(common_md \<Rightarrow> nat \<Rightarrow> nat \<times> nat \<times> nat \<times> nat) \<Rightarrow> nat \<Rightarrow> common_md \<Rightarrow> (chunk_ctx \<times> chunk_ctx) res" where
  "build_chunk_metadata split uniform_decode_query_len cm =
     (case cm_infer_mode cm of None \<Rightarrow> Inl AttributeError | Some mode \<Rightarrow>
      require (mode = CHUNKED) AssertionError
      (case split cm uniform_decode_query_len of (num_decodes, num_prefills, num_decode_tokens, num_prefill_tokens) \<Rightarrow>
       let q = cm_query_start_loc cm; s = cm_seq_start_loc cm;
           query_len = diff (cm_query_start_loc_cpu cm); seq_len = cm_seq_lens_cpu cm
       in bind_res (nth_res q num_decodes) (\<lambda>q0.
          bind_res (nth_res s num_decodes) (\<lambda>s0.
          bind_res (if 0 < num_decodes then tensor_max (take num_decodes query_len) else Inr 0) (\<lambda>d_max_query_len.
          bind_res (if 0 < num_decodes then tensor_max (take num_decodes seq_len) else Inr 0) (\<lambda>d_max_seq_len.
          bind_res (if 0 < num_prefills then tensor_max (drop num_decodes query_len) else Inr 0) (\<lambda>p_max_query_len.
          bind_res (if 0 < num_prefills then tensor_max (drop num_decodes seq_len) else Inr 0) (\<lambda>p_max_seq_len.
          Inr (\<lparr>xc_batch_size = num_prefills, xc_num_actual_tokens = num_prefill_tokens,
                xc_cu_seqlens_q = map (\<lambda>x. x - q0) (drop num_decodes q), xc_cu_seqlens_kv = map (\<lambda>x. x - s0) (drop num_decodes s),
                xc_max_query_len = p_max_query_len, xc_max_seq_len = p_max_seq_len,
                xc_total_seqlens = (if 0 < num_prefills then sum_list (drop num_decodes seq_len) else 0)\<rparr>,
               \<lparr>xc_batch_size = num_decodes, xc_num_actual_tokens = num_decode_tokens,
                xc_cu_seqlens_q = take (num_decodes + 1) q, xc_cu_seqlens_kv = take (num_decodes + 1) s,
                xc_max_query_len = d_max_query_len, xc_max_seq_len = d_max_seq_len, xc_total_seqlens = 0\<rparr>)))))))))"

definition flash_num_decode_tokens :: "infer_mode option \<Rightarrow> nat \<Rightarrow> chunk_ctx option \<Rightarrow> nat res" where
  "flash_num_decode_tokens mode num_actual_tokens decode_ctx =
     (case mode of
        None \<Rightarrow> Inl AssertionError
      | Some PREFILL_ONLY \<Rightarrow> Inr 0
      | Some DECODE_ONLY \<Rightarrow> Inr num_actual_tokens
      | Some CHUNKED \<Rightarrow> (case decode_ctx of None \<Rightarrow> Inl AssertionError | Some c \<Rightarrow> Inr (xc_num_actual_tokens c)))"

section \<open>Padding for a captured graph\<close>

record pad_runner =
  pr_query_start_loc :: "int list"
  pr_seq_lens :: "int list"
  pr_seq_start_loc :: "int list"

record pad_table =
  pt_slot_mapping :: "int list"
  pt_block_table :: "int list list"

text \<open>The fields of the layer's metadata that padding touches; those of latent attention sit in its decode part.\<close>

record padded_md =
  pm_is_mla :: bool
  pm_has_prefill :: bool
  pm_has_decode :: bool
  pm_slot_mapping :: "int list"
  pm_query_start_loc :: "int list"
  pm_seq_lens :: "int list"
  pm_seq_start_loc :: "int list"
  pm_block_table :: "int list list"

definition PAD_SLOT :: int where "PAD_SLOT = -1"

text \<open>\<open>torch.cumsum(xs, out=t[1:])\<close>: the slice must have the size of the sums.\<close>

definition cumsum_into :: "int list \<Rightarrow> int list \<Rightarrow> int list res" where
  "cumsum_into t xs =
     (case t of [] \<Rightarrow> Inl RuntimeError | t0 # ts \<Rightarrow> require (length ts = length xs) RuntimeError (Inr (t0 # cumsum 0 xs)))"

definition pad_attn_metadata ::
  "nat \<Rightarrow> nat \<Rightarrow> nat \<Rightarrow> nat \<Rightarrow> pad_table \<Rightarrow> pad_runner \<times> padded_md \<times> common_md
     \<Rightarrow> (pad_runner \<times> pad_table \<times> padded_md \<times> common_md) res" where
  "pad_attn_metadata num_scheduled_tokens num_input_tokens num_reqs num_padded_reqs t st = (case st of (r, md, cm) \<Rightarrow>
     require (pm_is_mla md \<longrightarrow> \<not> pm_has_prefill md \<and> pm_has_decode md) AssertionError
     (let pad_token_num = int num_input_tokens - int num_scheduled_tokens;
          pad_req_num = int num_padded_reqs - int num_reqs
      in if pad_token_num = 0 then Inr (r, t, md, cm)
         else let locs = take (num_padded_reqs + 1) (pr_query_start_loc r); lens = take num_padded_reqs (pr_seq_lens r) in
           bind_res (if 0 < pad_req_num then
               bind_res (cumsum_into locs (diff (take (num_reqs + 1) locs) @ replicate (nat pad_req_num) (pad_token_num div pad_req_num)))
                 (\<lambda>locs. Inr (locs, take num_reqs lens @ replicate (length lens - num_reqs) (cm_max_query_len cm)))
             else Inr (locs, lens)) (\<lambda>(locs, lens).
           bind_res (cumsum_into (take (num_padded_reqs + 1) (pr_seq_start_loc r)) lens) (\<lambda>starts.
           let org = length (pm_slot_mapping md);
               slots = take (nat (int org + pad_token_num)) (pt_slot_mapping t);
               slots' = take org slots @ replicate (length slots - org) PAD_SLOT;
               rows = take num_padded_reqs (pt_block_table t)
           in Inr (r\<lparr>pr_query_start_loc := locs @ drop (num_padded_reqs + 1) (pr_query_start_loc r),
                     pr_seq_lens := lens @ drop num_padded_reqs (pr_seq_lens r),
                     pr_seq_start_loc := starts @ drop (num_padded_reqs + 1) (pr_seq_start_loc r)\<rparr>,
                   t\<lparr>pt_slot_mapping := slots' @ drop (length slots) (pt_slot_mapping t)\<rparr>,
                   (if pm_is_mla md
                    then md\<lparr>pm_slot_mapping := slots', pm_query_start_loc := locs, pm_seq_lens := lens, pm_block_table := rows\<rparr>
                    else md\<lparr>pm_slot_mapping := slots', pm_query_start_loc := locs, pm_seq_lens := lens,
                            pm_seq_start_loc := starts, pm_block_table := rows\<rparr>),
                   cm\<lparr>cm_num_input_tokens := num_input_tokens, cm_seq_start_loc := starts, cm_query_start_loc := locs,
                      cm_query_start_loc_cpu := locs, cm_seq_lens := lens, cm_seq_lens_cpu := lens,
                      cm_num_reqs := num_padded_reqs, cm_block_table_tensor := rows, cm_slot_mapping := slots'\<rparr>)))))"

definition unpad_common_attn_metadata :: "common_md \<Rightarrow> nat \<Rightarrow> nat \<Rightarrow> common_md" where
  "unpad_common_attn_metadata cm num_reqs num_scheduled_tokens =
     cm\<lparr>cm_num_reqs := num_reqs, cm_num_input_tokens := num_scheduled_tokens,
        cm_query_start_loc := take (num_reqs + 1) (cm_query_start_loc cm),
        cm_query_start_loc_cpu := take (num_reqs + 1) (cm_query_start_loc_cpu cm),
        cm_seq_start_loc := take (num_reqs + 1) (cm_seq_start_loc cm),
        cm_seq_lens := take num_reqs (cm_seq_lens cm), cm_seq_lens_cpu := take num_reqs (cm_seq_lens_cpu cm),
        cm_block_table_tensor := take num_reqs (cm_block_table_tensor cm)\<rparr>"

text \<open>
  \<open>_padding_attn_metadata\<close> of the runner pads the metadata of the first layer of every group of a
  captured decode; the groups share the runner's buffers and the common metadata.
\<close>

record pad_group =
  pg_first_layer :: "string option"
  pg_table :: pad_table

definition padding_group ::
  "nat \<Rightarrow> nat \<Rightarrow> nat \<Rightarrow> nat \<Rightarrow> pad_group \<Rightarrow> pad_runner \<times> pad_group list \<times> (string, padded_md) dict \<times> common_md
     \<Rightarrow> (pad_runner \<times> pad_group list \<times> (string, padded_md) dict \<times> common_md) res" where
  "padding_group num_scheduled_tokens num_input_tokens num_reqs num_padded_reqs g st = (case st of (r, done_groups, mds, cm) \<Rightarrow>
     (case pg_first_layer g of None \<Rightarrow> Inl IndexError | Some name \<Rightarrow>
      bind_res (dict_at mds name) (\<lambda>md.
      bind_res (pad_attn_metadata num_scheduled_tokens num_input_tokens num_reqs num_padded_reqs (pg_table g) (r, md, cm))
        (\<lambda>(r, t, md, cm).
      Inr (r, done_groups @ [g\<lparr>pg_table := t\<rparr>], dict_set name md mds, cm)))))"

definition padding_attn_metadata ::
  "(nat \<Rightarrow> nat) \<Rightarrow> nat option \<Rightarrow> bool \<Rightarrow> nat \<Rightarrow> nat \<Rightarrow> nat \<Rightarrow> pad_group list \<Rightarrow> pad_runner \<Rightarrow> (string, padded_md) dict \<Rightarrow> common_md
     \<Rightarrow> (pad_runner \<times> pad_group list \<times> (string, padded_md) dict \<times> common_md) res" where
  "padding_attn_metadata pad_for_cudagraph num_speculative_tokens captured_already num_input_tokens num_scheduled_tokens
     num_reqs groups r mds cm =
     (let K = (case num_speculative_tokens of None \<Rightarrow> 0 | Some k \<Rightarrow> k) in
      if cm_infer_mode cm = Some DECODE_ONLY \<and> captured_already \<and> num_input_tokens \<noteq> num_scheduled_tokens then
        fold_res (padding_group num_scheduled_tokens num_input_tokens num_reqs (pad_for_cudagraph (num_reqs * (1 + K)) div (1 + K)))
          groups (r, [], mds, cm)
      else Inr (r, groups, mds, cm))"

section \<open>Padding keeps the batch\<close>

abbreviation locs_of :: "nat list \<Rightarrow> int list" where
  "locs_of lens \<equiv> map int (0 # accumulate lens)"

lemma cumsum_accumulate: "cumsum (int a) (map int xs) = map int (accumulate_from a xs)"
  by (induction xs arbitrary: a) (simp_all flip: of_nat_add)

lemma cumsum_into_locs: "t \<noteq> [] \<Longrightarrow> hd t = 0 \<Longrightarrow> length t = length xs + 1 \<Longrightarrow> cumsum_into t (map int xs) = Inr (locs_of xs)"
  using cumsum_accumulate[of 0 xs] by (cases t) (simp_all add: cumsum_into_def accumulate_def)

lemma diff_accumulate: "diff (map int (a # accumulate_from a lens)) = map int lens"
proof (induction lens arbitrary: a)
  case (Cons x lens)
  then show ?case using Cons.IH[of "a + x"] by simp
qed simp

lemma diff_locs_of: "diff (locs_of lens) = map int lens"
  using diff_accumulate[of 0 lens] by (simp add: accumulate_def)

lemma nat_int_list: "map nat (map int xs) = xs"
  by (simp add: map_idI)

text \<open>The buffers of the runner hold the batch and have room for the requests of the graph; so does the table of a group.\<close>

definition runner_holds :: "pad_runner \<Rightarrow> nat list \<Rightarrow> nat list \<Rightarrow> nat \<Rightarrow> bool" where
  "runner_holds r lens seqs N \<longleftrightarrow> length seqs = length lens \<and> length lens \<le> N
     \<and> N + 1 \<le> length (pr_query_start_loc r) \<and> N \<le> length (pr_seq_lens r)
     \<and> N + 1 \<le> length (pr_seq_start_loc r) \<and> hd (pr_seq_start_loc r) = 0
     \<and> take (length lens + 1) (pr_query_start_loc r) = locs_of lens \<and> take (length lens) (pr_seq_lens r) = map int seqs"

definition table_holds :: "pad_table \<Rightarrow> padded_md \<Rightarrow> nat \<Rightarrow> nat \<Rightarrow> bool" where
  "table_holds t md N num_pad_tokens \<longleftrightarrow> N \<le> length (pt_block_table t)
     \<and> length (pm_slot_mapping md) + num_pad_tokens \<le> length (pt_slot_mapping t)
     \<and> take (length (pm_slot_mapping md)) (pt_slot_mapping t) = pm_slot_mapping md
     \<and> (pm_is_mla md \<longrightarrow> \<not> pm_has_prefill md \<and> pm_has_decode md)"

text \<open>The buffers, the metadata of a layer and the common metadata of the padded batch.\<close>

definition runner_padded :: "pad_runner \<Rightarrow> nat list \<Rightarrow> nat list \<Rightarrow> pad_runner" where
  "runner_padded r lens seqs =
     \<lparr>pr_query_start_loc = locs_of lens @ drop (length lens + 1) (pr_query_start_loc r),
      pr_seq_lens = map int seqs @ drop (length lens) (pr_seq_lens r),
      pr_seq_start_loc = locs_of seqs @ drop (length lens + 1) (pr_seq_start_loc r)\<rparr>"

definition layer_padded :: "pad_table \<Rightarrow> padded_md \<Rightarrow> nat list \<Rightarrow> nat list \<Rightarrow> nat \<Rightarrow> padded_md" where
  "layer_padded t md lens seqs num_pad_tokens =
     md\<lparr>pm_slot_mapping := pm_slot_mapping md @ replicate num_pad_tokens PAD_SLOT, pm_query_start_loc := locs_of lens,
        pm_seq_lens := map int seqs, pm_seq_start_loc := (if pm_is_mla md then pm_seq_start_loc md else locs_of seqs),
        pm_block_table := take (length lens) (pt_block_table t)\<rparr>"

definition table_padded :: "pad_table \<Rightarrow> padded_md \<Rightarrow> nat \<Rightarrow> pad_table" where
  "table_padded t md num_pad_tokens = t\<lparr>pt_slot_mapping := pm_slot_mapping md @ replicate num_pad_tokens PAD_SLOT
     @ drop (length (pm_slot_mapping md) + num_pad_tokens) (pt_slot_mapping t)\<rparr>"

definition common_padded :: "pad_table \<Rightarrow> padded_md \<Rightarrow> common_md \<Rightarrow> nat list \<Rightarrow> nat list \<Rightarrow> nat \<Rightarrow> common_md" where
  "common_padded t md cm lens seqs num_pad_tokens =
     cm\<lparr>cm_num_input_tokens := sum_list lens, cm_seq_start_loc := locs_of seqs, cm_query_start_loc := locs_of lens,
        cm_query_start_loc_cpu := locs_of lens, cm_seq_lens := map int seqs, cm_seq_lens_cpu := map int seqs,
        cm_num_reqs := length lens, cm_block_table_tensor := take (length lens) (pt_block_table t),
        cm_slot_mapping := pm_slot_mapping md @ replicate num_pad_tokens PAD_SLOT\<rparr>"

lemma padding_run:
  assumes r: "runner_holds r lens seqs (length lens + k)" and t: "table_holds t md (length lens + k) (k * q)"
    and k: "0 < k" "0 < q" and mq: "cm_max_query_len cm = int m"
    and lens': "lens' = lens @ replicate k q" and seqs': "seqs' = seqs @ replicate k m"
  shows "pad_attn_metadata (sum_list lens) (sum_list lens') (length lens) (length lens') t (r, md, cm)
    = Inr (runner_padded r lens' seqs', table_padded t md (k * q), layer_padded t md lens' seqs' (k * q),
           common_padded t md cm lens' seqs' (k * q))"
proof -
  let ?n = "length lens" let ?N = "?n + k" let ?o = "length (pm_slot_mapping md)"
  let ?locs = "take (?N + 1) (pr_query_start_loc r)"
  note rr = r[unfolded runner_holds_def] note tt = t[unfolded table_holds_def]
  have sums: "sum_list lens' = sum_list lens + k * q" "length lens' = ?N" using lens' by (simp_all add: sum_list_replicate)
  have q: "take (?n + 1) ?locs = locs_of lens" using rr by (simp add: min_def del: list.map)
  have len: "length ?locs = ?N + 1" using rr by simp
  have hd0: "hd ?locs = 0" using q len by (cases "pr_query_start_loc r") auto
  have ql: "diff (take (?n + 1) ?locs) @ replicate (nat (int ?N - int ?n)) ((int (sum_list lens + k * q) - int (sum_list lens)) div (int ?N - int ?n))
      = map int lens'"
    unfolding q diff_locs_of lens' using k by simp
  have c1: "cumsum_into ?locs (diff (take (?n + 1) ?locs) @ replicate (nat (int ?N - int ?n)) ((int (sum_list lens + k * q) - int (sum_list lens)) div (int ?N - int ?n)))
      = Inr (locs_of lens')"
    unfolding ql using len hd0 sums by (intro cumsum_into_locs) auto
  have sl: "take ?n (take ?N (pr_seq_lens r)) @ replicate (length (take ?N (pr_seq_lens r)) - ?n) (cm_max_query_len cm) = map int seqs'"
    using rr mq seqs' by (auto simp: min_def)
  have c2: "cumsum_into (take (?N + 1) (pr_seq_start_loc r)) (map int seqs') = Inr (locs_of seqs')"
    using rr seqs' by (intro cumsum_into_locs) (auto simp: hd_conv_nth)
  have slots: "take (nat (int ?o + (int (sum_list lens + k * q) - int (sum_list lens)))) (pt_slot_mapping t)
      = take (?o + k * q) (pt_slot_mapping t)"
  proof -
    have "int ?o + (int (sum_list lens + k * q) - int (sum_list lens)) = int (?o + k * q)" by simp
    then show ?thesis by (simp only: nat_int)
  qed
  have so: "length (take (?o + k * q) (pt_slot_mapping t)) = ?o + k * q" using tt by simp
  have st: "take ?o (take (?o + k * q) (pt_slot_mapping t)) = pm_slot_mapping md" using tt by (simp add: min_def)
  have pos: "(int (sum_list lens + k * q) - int (sum_list lens) = 0) = False" "(0 < int ?N - int ?n) = True" using k by simp_all
  have req: "require (pm_is_mla md \<longrightarrow> \<not> pm_has_prefill md \<and> pm_has_decode md) AssertionError x = x" for x :: "'z res"
    using tt by (simp add: require_def)
  have pads: "?o + k * q - ?o = k * q" by simp
  have "pad_attn_metadata (sum_list lens) (sum_list lens + k * q) ?n ?N t (r, md, cm)
    = Inr (r\<lparr>pr_query_start_loc := locs_of lens' @ drop (?N + 1) (pr_query_start_loc r),
             pr_seq_lens := map int seqs' @ drop ?N (pr_seq_lens r),
             pr_seq_start_loc := locs_of seqs' @ drop (?N + 1) (pr_seq_start_loc r)\<rparr>,
           table_padded t md (k * q), layer_padded t md lens' seqs' (k * q), common_padded t md cm lens' seqs' (k * q))"
    unfolding pad_attn_metadata_def Let_def prod.case req pos if_True if_False c1 sl bind_res_simps c2 slots so st pads
    by (simp add: table_padded_def layer_padded_def common_padded_def sums del: list.map)
  then show ?thesis unfolding sums runner_padded_def by (cases r) (simp add: pad_runner.defs del: list.map)
qed

lemma padded_runner_holds:
  assumes "runner_holds r lens seqs (length lens + k)"
  shows "runner_holds (runner_padded r (lens @ replicate k q) (seqs @ replicate k m)) lens seqs (length lens + k)"
proof -
  have "take (length lens + 1) (locs_of (lens @ replicate k q)) = locs_of lens" by (subst take_locs) simp_all
  then show ?thesis using assms by (auto simp: runner_holds_def runner_padded_def)
qed

lemma common_padded_twice:
  "common_padded t md (common_padded t' md' cm lens seqs p) lens seqs p = common_padded t md cm lens seqs p"
  by (simp add: common_padded_def)

lemma padding_groups:
  assumes "runner_holds r lens seqs (length lens + k)" "0 < k" "0 < q" "cm_max_query_len cm = int m"
    and "lens' = lens @ replicate k q" "seqs' = seqs @ replicate k m"
    and "distinct (map pg_first_layer gs)"
    and "\<forall>g\<in>set gs. \<exists>name md. pg_first_layer g = Some name \<and> dict_get mds name = Some md
           \<and> table_holds (pg_table g) md (length lens + k) (k * q)"
  shows "\<exists>r' gs' mds' cm'. fold_res (padding_group (sum_list lens) (sum_list lens') (length lens) (length lens')) gs (r, dgs, mds, cm)
            = Inr (r', dgs @ gs', mds', cm')
     \<and> runner_holds r' lens seqs (length lens + k) \<and> map pg_first_layer gs' = map pg_first_layer gs
     \<and> (\<forall>name. Some name \<notin> pg_first_layer ` set gs \<longrightarrow> dict_get mds' name = dict_get mds name)
     \<and> (\<forall>g\<in>set gs. \<exists>name md. pg_first_layer g = Some name \<and> dict_get mds name = Some md
           \<and> dict_get mds' name = Some (layer_padded (pg_table g) md lens' seqs' (k * q)))
     \<and> (gs \<noteq> [] \<longrightarrow> (\<exists>md. dict_get mds (the (pg_first_layer (last gs))) = Some md
           \<and> cm' = common_padded (pg_table (last gs)) md cm lens' seqs' (k * q)))"
  using assms(1,4,7,8)
proof (induction gs arbitrary: r dgs mds cm)
  case Nil
  then show ?case by simp
next
  case (Cons g gs)
  from Cons.prems(4) obtain name md where g: "pg_first_layer g = Some name" "dict_get mds name = Some md"
    "table_holds (pg_table g) md (length lens + k) (k * q)" by auto
  let ?md = "layer_padded (pg_table g) md lens' seqs' (k * q)" let ?r = "runner_padded r lens' seqs'"
  let ?cm = "common_padded (pg_table g) md cm lens' seqs' (k * q)" let ?mds = "dict_set name ?md mds"
  let ?g = "g\<lparr>pg_table := table_padded (pg_table g) md (k * q)\<rparr>"
  have step: "padding_group (sum_list lens) (sum_list lens') (length lens) (length lens') g (r, dgs, mds, cm)
    = Inr (?r, dgs @ [?g], ?mds, ?cm)"
    using g padding_run[OF Cons.prems(1) g(3) assms(2,3) Cons.prems(2) assms(5,6), of ] by (simp add: padding_group_def dict_at_def)
  have holds: "runner_holds ?r lens seqs (length lens + k)"
    unfolding assms(5,6) by (rule padded_runner_holds[OF Cons.prems(1)])
  have m: "cm_max_query_len ?cm = int m" using Cons.prems(2) by (simp add: common_padded_def)
  have d: "distinct (map pg_first_layer gs)" "pg_first_layer g \<notin> pg_first_layer ` set gs" using Cons.prems(3) by auto
  have rest: "\<forall>g\<in>set gs. \<exists>name md. pg_first_layer g = Some name \<and> dict_get ?mds name = Some md
      \<and> table_holds (pg_table g) md (length lens + k) (k * q)"
  proof
    fix h assume h: "h \<in> set gs"
    with Cons.prems(4) obtain name' md' where "pg_first_layer h = Some name'" "dict_get mds name' = Some md'"
      "table_holds (pg_table h) md' (length lens + k) (k * q)" by fastforce
    moreover from this h d(2) g(1) have "name' \<noteq> name" by force
    ultimately show "\<exists>name md. pg_first_layer h = Some name \<and> dict_get ?mds name = Some md
      \<and> table_holds (pg_table h) md (length lens + k) (k * q)" by simp
  qed
  obtain r' gs' mds' cm' where ih: "fold_res (padding_group (sum_list lens) (sum_list lens') (length lens) (length lens')) gs
        (?r, dgs @ [?g], ?mds, ?cm) = Inr (r', (dgs @ [?g]) @ gs', mds', cm')"
    "runner_holds r' lens seqs (length lens + k)" "map pg_first_layer gs' = map pg_first_layer gs"
    "\<forall>name. Some name \<notin> pg_first_layer ` set gs \<longrightarrow> dict_get mds' name = dict_get ?mds name"
    "\<forall>g\<in>set gs. \<exists>name md. pg_first_layer g = Some name \<and> dict_get ?mds name = Some md
         \<and> dict_get mds' name = Some (layer_padded (pg_table g) md lens' seqs' (k * q))"
    "gs \<noteq> [] \<longrightarrow> (\<exists>md. dict_get ?mds (the (pg_first_layer (last gs))) = Some md
         \<and> cm' = common_padded (pg_table (last gs)) md ?cm lens' seqs' (k * q))"
    using Cons.IH[OF holds m d(1) rest, of "dgs @ [?g]"] by blast
  have fresh: "pg_first_layer h \<noteq> Some name" if "h \<in> set gs" for h using that d(2) g(1) by force
  have c5: "\<forall>h\<in>set (g # gs). \<exists>name md. pg_first_layer h = Some name \<and> dict_get mds name = Some md
         \<and> dict_get mds' name = Some (layer_padded (pg_table h) md lens' seqs' (k * q))"
  proof
    fix h assume h: "h \<in> set (g # gs)"
    show "\<exists>name md. pg_first_layer h = Some name \<and> dict_get mds name = Some md
         \<and> dict_get mds' name = Some (layer_padded (pg_table h) md lens' seqs' (k * q))"
    proof (cases "h \<in> set gs")
      case True
      then show ?thesis using ih(5) fresh[OF True] by (metis dict_get_set fun_upd_other)
    next
      case False
      then have "h = g" using h by simp
      moreover have "dict_get mds' name = Some ?md" using ih(4) d(2) g(1) by simp
      ultimately show ?thesis using g by blast
    qed
  qed
  have c6: "\<exists>md. dict_get mds (the (pg_first_layer (last (g # gs)))) = Some md
         \<and> cm' = common_padded (pg_table (last (g # gs))) md cm lens' seqs' (k * q)"
  proof (cases "gs = []")
    case True
    then have "cm' = ?cm" using ih(1) by simp
    then show ?thesis using True g by simp
  next
    case False
    then have "last gs \<in> set gs" by simp
    then have "the (pg_first_layer (last gs)) \<noteq> name" using fresh rest by (metis option.sel)
    then show ?thesis using ih(6) False by (simp add: common_padded_twice)
  qed
  show ?case
  proof (intro exI conjI)
    show "fold_res (padding_group (sum_list lens) (sum_list lens') (length lens) (length lens')) (g # gs) (r, dgs, mds, cm)
        = Inr (r', dgs @ (?g # gs'), mds', cm')" using step ih(1) by simp
  qed (use ih(2-4) c5 c6 g(1) in auto)
qed

text \<open>
  A captured decode is padded as a batch: when the graph of a decode has room for more requests, the
  metadata of the first layer of every group describes the batch followed by requests of the padding, whose
  tokens have no slot of the cache; the common metadata describes the same batch with the tables of the last
  group, and its number of input tokens is the size of the graph.
\<close>

theorem captured_decode_is_padded:
  assumes "runner_holds r lens seqs (length lens + k)" "0 < k" "0 < q" "q \<le> m" "cm_max_query_len cm = int m"
    and "list_all2 (\<le>) lens seqs" "cm_infer_mode cm = Some DECODE_ONLY" "groups \<noteq> []" "distinct (map pg_first_layer groups)"
    and "\<forall>g\<in>set groups. \<exists>name md. pg_first_layer g = Some name \<and> dict_get mds name = Some md
           \<and> table_holds (pg_table g) md (length lens + k) (k * q)"
    and "pad_for_cudagraph (length lens * (1 + K)) div (1 + K) = length lens + k"
  shows "\<exists>r' gs' mds' cm'. padding_attn_metadata pad_for_cudagraph (Some K) True (sum_list lens + k * q) (sum_list lens)
            (length lens) groups r mds cm = Inr (r', gs', mds', cm')
     \<and> runner_holds r' lens seqs (length lens + k)
     \<and> (\<forall>g\<in>set groups. \<exists>name md. pg_first_layer g = Some name \<and> dict_get mds name = Some md
           \<and> dict_get mds' name = Some (layer_padded (pg_table g) md (lens @ replicate k q) (seqs @ replicate k m) (k * q)))
     \<and> describes (cm'\<lparr>cm_num_actual_tokens := cm_num_input_tokens cm'\<rparr>) (lens @ replicate k q) (seqs @ replicate k m)
     \<and> cm_num_input_tokens cm' = sum_list lens + k * q"
proof -
  let ?lens = "lens @ replicate k q" let ?seqs = "seqs @ replicate k m"
  have sums: "sum_list lens + k * q = sum_list ?lens" "length lens + k = length ?lens" by (simp_all add: sum_list_replicate)
  obtain r' gs' mds' cm' md where f:
    "fold_res (padding_group (sum_list lens) (sum_list ?lens) (length lens) (length ?lens)) groups (r, [], mds, cm) = Inr (r', gs', mds', cm')"
    "runner_holds r' lens seqs (length lens + k)"
    "\<forall>g\<in>set groups. \<exists>name md. pg_first_layer g = Some name \<and> dict_get mds name = Some md
           \<and> dict_get mds' name = Some (layer_padded (pg_table g) md ?lens ?seqs (k * q))"
    "dict_get mds (the (pg_first_layer (last groups))) = Some md"
    "cm' = common_padded (pg_table (last groups)) md cm ?lens ?seqs (k * q)"
    using padding_groups[OF assms(1-3,5) refl refl assms(9,10), of "[]"] assms(8) by auto
  have "table_holds (pg_table (last groups)) md (length lens + k) (k * q)"
    using assms(8,10) f(4) by (metis last_in_set option.sel)
  then have rows: "length (take (length ?lens) (pt_block_table (pg_table (last groups)))) = length ?lens"
    by (simp add: table_holds_def)
  have le: "list_all2 (\<le>) ?lens ?seqs"
    using assms(4,6) by (intro list_all2_appendI) (simp_all add: list_all2_conv_all_nth)
  have "describes (cm'\<lparr>cm_num_actual_tokens := cm_num_input_tokens cm'\<rparr>) ?lens ?seqs"
    using rows le list_all2_lengthD[OF le] by (simp add: describes_def f(5) common_padded_def del: list.map)
  moreover have "padding_attn_metadata pad_for_cudagraph (Some K) True (sum_list lens + k * q) (sum_list lens)
      (length lens) groups r mds cm = Inr (r', gs', mds', cm')"
    using f(1) assms(2,3,7,11) by (simp add: padding_attn_metadata_def sum_list_replicate)
  moreover have "cm_num_input_tokens cm' = sum_list lens + k * q" by (simp add: f(5) common_padded_def sum_list_replicate)
  ultimately show ?thesis using f(2,3) by blast
qed

text \<open>
  Removing the padding restores the metadata: the padded common metadata, cut back to the requests and
  tokens of the batch, is the metadata before the padding, apart from the slots, which keep the padding.
\<close>

theorem padding_is_undone:
  assumes "describes cm lens seqs" "runner_holds r lens seqs (length lens + k)" "table_holds t md (length lens + k) (k * q)"
    and "0 < k" "0 < q" "cm_max_query_len cm = int m"
    and "cm_seq_start_loc cm = map int (0 # accumulate seqs)" "take (length lens) (pt_block_table t) = cm_block_table_tensor cm"
    and "pm_slot_mapping md = cm_slot_mapping cm"
  shows "\<exists>r' t' md' cm'. pad_attn_metadata (sum_list lens) (sum_list lens + k * q) (length lens) (length lens + k) t (r, md, cm)
            = Inr (r', t', md', cm')
     \<and> cm_num_reqs cm' = length lens + k \<and> cm_num_input_tokens cm' = sum_list lens + k * q
     \<and> unpad_common_attn_metadata cm' (length lens) (sum_list lens)
        = cm\<lparr>cm_num_input_tokens := sum_list lens, cm_slot_mapping := cm_slot_mapping cm @ replicate (k * q) PAD_SLOT\<rparr>"
proof -
  let ?lens = "lens @ replicate k q" let ?seqs = "seqs @ replicate k m"
  let ?cm = "common_padded t md cm ?lens ?seqs (k * q)"
  note d = assms(1)[unfolded describes_def]
  have eq: "length seqs = length lens" using d by simp
  have cuts: "take (length lens + 1) (locs_of ?lens) = locs_of lens" "take (length lens + 1) (locs_of ?seqs) = locs_of seqs"
    using take_locs[of "length lens" ?lens] take_locs[of "length lens" ?seqs] eq by simp_all
  have "unpad_common_attn_metadata ?cm (length lens) (sum_list lens)
      = cm\<lparr>cm_num_input_tokens := sum_list lens, cm_slot_mapping := cm_slot_mapping cm @ replicate (k * q) PAD_SLOT\<rparr>"
    using d assms(7-9) cuts eq
    by (cases cm) (simp add: unpad_common_attn_metadata_def common_padded_def min_def del: list.map)
  moreover have "pad_attn_metadata (sum_list lens) (sum_list lens + k * q) (length lens) (length lens + k) t (r, md, cm)
      = Inr (runner_padded r ?lens ?seqs, table_padded t md (k * q), layer_padded t md ?lens ?seqs (k * q), ?cm)"
    using padding_run[OF assms(2-6) refl refl] by (simp add: sum_list_replicate)
  ultimately show ?thesis by (simp add: common_padded_def sum_list_replicate)
qed

section \<open>Chunked batches are divided\<close>

text \<open>
  A chunked batch is divided into its decodes and its prefills: each part has the start locations of its
  own requests, counted from zero, its largest query and sequence, and the number of decode tokens that the
  layer reads is that of the decodes.
\<close>

theorem chunked_batch_divided:
  assumes d: "describes cm lens seqs" and s: "cm_seq_start_loc cm = map int (0 # accumulate seqs)"
    and m: "cm_infer_mode cm = Some CHUNKED"
    and sp: "split cm u = (nd, length lens - nd, sum_list (take nd lens), sum_list (drop nd lens))" "nd < length lens"
  shows "\<exists>p x. build_chunk_metadata split u cm = Inr (p, x)
     \<and> xc_cu_seqlens_q p = map int (0 # accumulate (drop nd lens)) \<and> xc_cu_seqlens_kv p = map int (0 # accumulate (drop nd seqs))
     \<and> xc_cu_seqlens_q x = map int (0 # accumulate (take nd lens)) \<and> xc_cu_seqlens_kv x = map int (0 # accumulate (take nd seqs))
     \<and> xc_max_query_len p = int (Max (set (drop nd lens))) \<and> xc_max_seq_len p = int (Max (set (drop nd seqs)))
     \<and> xc_total_seqlens p = int (sum_list (drop nd seqs)) \<and> xc_batch_size p + xc_batch_size x = length lens
     \<and> xc_num_actual_tokens p + xc_num_actual_tokens x = cm_num_actual_tokens cm
     \<and> flash_num_decode_tokens (cm_infer_mode cm) (cm_num_actual_tokens cm) (Some x) = Inr (sum_list (take nd lens))"
proof -
  note dd = d[unfolded describes_def]
  have eq: "length seqs = length lens" using dd by simp
  have mx: "tensor_max (map int xs) = Inr (int (Max (set xs)))" if "xs \<noteq> []" for xs
    using that by (simp add: tensor_max_def mono_Max_commute[symmetric] mono_def)
  have q0: "nth_res (locs_of lens) nd = Inr (locs_of lens ! nd)" "nth_res (locs_of seqs) nd = Inr (locs_of seqs ! nd)"
    using sp(2) eq by (simp_all add: nth_res_def del: list.map)
  have ne: "drop nd lens \<noteq> []" "drop nd seqs \<noteq> []" using sp(2) eq by simp_all
  have t: "take (nd + 1) (locs_of lens) = locs_of (take nd lens)" "take (nd + 1) (locs_of seqs) = locs_of (take nd seqs)"
    using take_locs[of nd lens] take_locs[of nd seqs] sp(2) eq by simp_all
  have dr: "map (\<lambda>x. x - locs_of lens ! nd) (drop nd (locs_of lens)) = locs_of (drop nd lens)"
    "map (\<lambda>x. x - locs_of seqs ! nd) (drop nd (locs_of seqs)) = locs_of (drop nd seqs)"
    using drop_locs[of nd lens] drop_locs[of nd seqs] sp(2) eq by simp_all
  have p: "0 < length lens - nd" using sp(2) by simp
  have dm: "\<exists>v. (if 0 < nd then tensor_max (take nd (map int xs)) else Inr 0) = Inr v" if "length xs = length lens" for xs
    using mx[of "take nd xs"] that sp(2) by (cases "take nd xs = []") (auto simp: take_map)
  from dm[OF refl] dm[OF eq] obtain v w where vw: "(if 0 < nd then tensor_max (take nd (map int lens)) else Inr 0) = Inr v"
    "(if 0 < nd then tensor_max (take nd (map int seqs)) else Inr 0) = Inr w" by blast
  have pm: "(if 0 < length lens - nd then tensor_max (drop nd (map int lens)) else Inr 0) = Inr (int (Max (set (drop nd lens))))"
    "(if 0 < length lens - nd then tensor_max (drop nd (map int seqs)) else Inr 0) = Inr (int (Max (set (drop nd seqs))))"
    using p mx[OF ne(1)] mx[OF ne(2)] by (simp_all add: drop_map)
  have tot: "(if 0 < length lens - nd then sum_list (drop nd (map int seqs)) else 0) = int (sum_list (drop nd seqs))"
    using p by (simp add: drop_map sum_list_int)
  have sums: "sum_list (take nd lens) + sum_list (drop nd lens) = sum_list lens"
    by (metis append_take_drop_id sum_list_append)
  have cm: "cm_query_start_loc cm = locs_of lens" "cm_query_start_loc_cpu cm = locs_of lens" "cm_seq_start_loc cm = locs_of seqs"
    "cm_seq_lens_cpu cm = map int seqs" using dd s by simp_all
  show ?thesis
    unfolding build_chunk_metadata_def m option.case sp prod.case Let_def cm q0 bind_res_simps diff_locs_of vw pm tot t dr
    using sums dd sp(2) m by (simp add: require_def flash_num_decode_tokens_def)
qed

section \<open>Examples\<close>

definition demo_buffers :: pad_runner where
  "demo_buffers = \<lparr>pr_query_start_loc = [0, 2, 4, 0, 0, 9], pr_seq_lens = [5, 7, 1, 1, 1], pr_seq_start_loc = [0, 5, 12, 0, 0, 9]\<rparr>"

definition demo_table :: "int \<Rightarrow> pad_table" where
  "demo_table b = \<lparr>pt_slot_mapping = [b, b + 1, b + 2, b + 3, 5, 5, 5, 5, 5], pt_block_table = [[b], [b + 1], [0], [0], [0]]\<rparr>"

definition demo_layer :: "bool \<Rightarrow> int \<Rightarrow> padded_md" where
  "demo_layer mla b = \<lparr>pm_is_mla = mla, pm_has_prefill = False, pm_has_decode = True, pm_slot_mapping = [b, b + 1, b + 2, b + 3],
     pm_query_start_loc = [0, 2, 4], pm_seq_lens = [5, 7], pm_seq_start_loc = [0, 5, 12], pm_block_table = [[b], [b + 1]]\<rparr>"

definition demo_decode_batch :: common_md where
  "demo_decode_batch = \<lparr>cm_query_start_loc = [0, 2, 4], cm_query_start_loc_cpu = [0, 2, 4], cm_seq_lens = [5, 7], cm_seq_lens_cpu = [5, 7],
     cm_num_computed_tokens_cpu = [3, 5], cm_num_reqs = 2, cm_num_actual_tokens = 4, cm_max_query_len = 2, cm_max_seq_len = 7,
     cm_block_table_tensor = [[1], [2]], cm_slot_mapping = [1, 2, 3, 4], cm_seq_start_loc = [0, 5, 12],
     cm_num_input_tokens = 0, cm_infer_mode = Some DECODE_ONLY, cm_num_prefill_query_tokens = 4, cm_num_prefill_kv_tokens = 4\<rparr>"

lemma demo_buffers_hold: "runner_holds demo_buffers [2, 2] [5, 7] (length [2, 2 :: nat] + 2)"
  by (simp add: runner_holds_def demo_buffers_def accumulate_def)

lemma demo_table_holds: "table_holds (demo_table b) (demo_layer mla b) (length [2, 2 :: nat] + 2) (2 * 2)"
  by (simp add: table_holds_def demo_table_def demo_layer_def)

lemma captured_decode_is_padded_witness:
  "\<exists>r' gs' mds' cm'. padding_attn_metadata (\<lambda>_. 8) (Some 1) True 8 4 2
       [\<lparr>pg_first_layer = Some ''a'', pg_table = demo_table 1\<rparr>, \<lparr>pg_first_layer = Some ''b'', pg_table = demo_table 11\<rparr>]
       demo_buffers [(''a'', demo_layer False 1), (''b'', demo_layer True 11)] demo_decode_batch = Inr (r', gs', mds', cm')
     \<and> map_option pm_slot_mapping (dict_get mds' ''b'') = Some [11, 12, 13, 14, -1, -1, -1, -1]
     \<and> cm_query_start_loc cm' = [0, 2, 4, 6, 8]"
proof -
  let ?gs = "[\<lparr>pg_first_layer = Some ''a'', pg_table = demo_table 1\<rparr>, \<lparr>pg_first_layer = Some ''b'', pg_table = demo_table 11\<rparr>]"
  let ?mds = "[(''a'', demo_layer False 1), (''b'', demo_layer True 11)]"
  have tables: "\<forall>g\<in>set ?gs. \<exists>name md. pg_first_layer g = Some name \<and> dict_get ?mds name = Some md
      \<and> table_holds (pg_table g) md (length [2, 2 :: nat] + 2) (2 * 2)"
    using demo_table_holds by simp
  have eight: "(8 :: nat) div Suc (Suc 0) = Suc (Suc (Suc (Suc 0)))" using div_mult_self1_is_m[of 2 4] by (simp add: numeral_2_eq_2 numeral_eq_Suc)
  note captured_decode_is_padded[OF demo_buffers_hold _ _ _ _ _ _ _ _ tables, of 2 demo_decode_batch "\<lambda>_. 8" 1]
  then obtain r' gs' mds' cm' where run: "padding_attn_metadata (\<lambda>_. 8) (Some 1) True (sum_list [2, 2] + 2 * 2) (sum_list [2, 2]) (length [2, 2 :: nat])
      ?gs demo_buffers ?mds demo_decode_batch = Inr (r', gs', mds', cm')"
    and b: "dict_get mds' ''b'' = Some (layer_padded (demo_table 11) (demo_layer True 11) ([2, 2] @ replicate 2 2) ([5, 7] @ replicate 2 2) (2 * 2))"
    and cm: "describes (cm'\<lparr>cm_num_actual_tokens := cm_num_input_tokens cm'\<rparr>) ([2, 2] @ replicate 2 2) ([5, 7] @ replicate 2 2)"
    by (auto simp: demo_decode_batch_def eight)
  have "map_option pm_slot_mapping (dict_get mds' ''b'') = Some [11, 12, 13, 14, -1, -1, -1, -1]"
    unfolding b by (simp add: layer_padded_def demo_layer_def PAD_SLOT_def eval_nat_numeral)
  moreover have "cm_query_start_loc cm' = [0, 2, 4, 6, 8]"
    using cm by (simp add: describes_def accumulate_def eval_nat_numeral)
  ultimately show ?thesis using run by (simp flip: numeral_2_eq_2)
qed

lemma padding_is_undone_witness:
  "\<exists>r' t' md' cm'. pad_attn_metadata 4 8 2 4 (demo_table 1) (demo_buffers, demo_layer False 1, demo_decode_batch) = Inr (r', t', md', cm')
     \<and> cm_query_start_loc (unpad_common_attn_metadata cm' 2 4) = [0, 2, 4]"
proof -
  have d: "describes demo_decode_batch [2, 2] [5, 7]" by (simp add: describes_def demo_decode_batch_def accumulate_def)
  have "unpad_common_attn_metadata cm' 2 4 = demo_decode_batch\<lparr>cm_num_input_tokens := n, cm_slot_mapping := xs\<rparr>
    \<Longrightarrow> cm_query_start_loc (unpad_common_attn_metadata cm' 2 4) = [0, 2, 4]" for cm' n xs
    by (simp add: demo_decode_batch_def)
  then show ?thesis
    using padding_is_undone[OF d demo_buffers_hold demo_table_holds[of 1 False], of 2]
    by (auto simp: demo_decode_batch_def demo_layer_def demo_table_def accumulate_def eval_nat_numeral)
qed

lemma chunked_batch_divided_witness:
  "\<exists>p x. build_chunk_metadata (\<lambda>_ _. (1, 1, 1, 3)) 1 demo_mla_batch = Inr (p, x)
     \<and> xc_cu_seqlens_q p = [0, 3] \<and> xc_cu_seqlens_kv p = [0, 7] \<and> xc_cu_seqlens_q x = [0, 1] \<and> xc_max_query_len p = 3"
proof -
  have d: "describes demo_mla_batch [1, 3] [5, 7]" by (simp add: describes_def demo_mla_batch_def accumulate_def)
  show ?thesis
    using chunked_batch_divided[OF d, where split = "\<lambda>_ _. (1, 1, 1, 3)" and u = 1 and nd = 1]
    by (auto simp: demo_mla_batch_def accumulate_def)
qed

end
