(* ===== verification/ExecuteModel.thy ===== *)
theory ExecuteModel
  imports FlashMetadata RunnerInputs
begin

text \<open>
  One step of the model runner (\<open>MLUModelRunner.execute_model\<close> and \<open>sample_tokens\<close> in
  \<^verbatim>\<open>vllm_mlu/v1/worker/gpu_model_runner.py\<close>): the choice between a captured graph and eager mode with
  its number of input tokens, and the two halves of a step with the state that is kept between them. The
  parts of a step that have their own theories or compute on tensors (updating the batch, preparing the
  inputs, building and padding the metadata, the forward, sampling, drafting, bookkeeping) are fields of a
  record of operations; the definitions here fix their order, what each of them receives, and the early
  returns and errors between them. A raised error ends the run of the engine.
\<close>

section \<open>The number of input tokens\<close>

record exec_graph_config =
  gc_graphs_enabled :: bool
  gc_cudagraph_batch_sizes :: "nat list option"
  gc_num_speculative_tokens :: "nat option"
  gc_max_num_seqs :: nat
  gc_uniform_decode_query_len :: nat
  gc_tensor_parallel_size :: nat
  gc_enable_sequence_parallelism :: bool

text \<open>The constructor of the runner sorts the captured sizes and keeps them when graphs are enabled.\<close>

definition sorted_batch_sizes :: "nat list option \<Rightarrow> bool \<Rightarrow> nat list option" where
  "sorted_batch_sizes capture_sizes graphs_enabled =
     (case capture_sizes of None \<Rightarrow> None
      | Some xs \<Rightarrow> if xs \<noteq> [] \<and> graphs_enabled then Some (sort xs) else None)"

definition pad_config_of :: "exec_graph_config \<Rightarrow> infer_mode \<Rightarrow> pad_config" where
  "pad_config_of cfg mode = \<lparr>pc_decode_only = (mode = DECODE_ONLY), pc_cudagraph_off = (\<not> gc_graphs_enabled cfg),
     pc_batch_sizes = gc_cudagraph_batch_sizes cfg, pc_sequence_parallelism = gc_enable_sequence_parallelism cfg,
     pc_tp_size = gc_tensor_parallel_size cfg\<rparr>"

definition num_spec_of :: "exec_graph_config \<Rightarrow> nat" where
  "num_spec_of cfg = (case gc_num_speculative_tokens cfg of None \<Rightarrow> 0 | Some k \<Rightarrow> k)"

definition decode_batch_sizes :: "exec_graph_config \<Rightarrow> nat list \<Rightarrow> nat list" where
  "decode_batch_sizes cfg sizes =
     (let max_num_tokens = gc_max_num_seqs cfg * gc_uniform_decode_query_len cfg
      in filter (\<lambda>x. x \<le> max_num_tokens \<and> gc_uniform_decode_query_len cfg \<le> x) sizes)"

text \<open>
  The first component is the variable \<open>capture_already\<close>, \<open>None\<close> where the branch leaves it unbound.
\<close>

definition padding_decision ::
  "(nat \<Rightarrow> nat) \<Rightarrow> exec_graph_config \<Rightarrow> infer_mode \<Rightarrow> nat \<Rightarrow> nat list \<Rightarrow> nat \<Rightarrow> bool \<Rightarrow> nat list option \<Rightarrow> nat
    \<Rightarrow> (bool option \<times> nat) res" where
  "padding_decision pad_for_cudagraph cfg mode num_reqs num_scheduled_tokens total_tokens ubatch_slices num_tokens_across_dp dp_rank =
     (case num_tokens_across_dp of
        Some ts \<Rightarrow> bind_res (nth_res ts dp_rank) (\<lambda>n. Inr (None, n))
      | None \<Rightarrow>
         if ubatch_slices then Inl AssertionError
         else let K = num_spec_of cfg;
                capture = (case gc_cudagraph_batch_sizes cfg of None \<Rightarrow> False
                  | Some sizes \<Rightarrow> (let ds = decode_batch_sizes cfg sizes
                                 in ds \<noteq> [] \<and> num_reqs * (1 + K) \<le> Max (set ds)));
                capture_already = (if mode = DECODE_ONLY \<and> \<not> list_all (\<lambda>x. x = K + 1) num_scheduled_tokens then False
                                   else capture)
              in Inr (Some capture_already,
                      if capture_already then get_num_input_tokens pad_for_cudagraph (pad_config_of cfg mode) total_tokens else total_tokens))"

datatype graph_mode = Graph_none | Graph_piecewise | Graph_full

definition graph_mode_of :: "bool \<Rightarrow> infer_mode option \<Rightarrow> bool \<Rightarrow> bool \<Rightarrow> graph_mode \<Rightarrow> graph_mode" where
  "graph_mode_of prefill_enable_mlugraph mode capture_already calculate_kv_scales dispatched =
     (let m = (if prefill_enable_mlugraph \<and> mode = Some PREFILL_ONLY then Graph_full else dispatched);
          m = (if \<not> capture_already then Graph_none else m)
      in if calculate_kv_scales then Graph_none else m)"

section \<open>Operations of a step\<close>

record step_input =
  si_num_scheduled_tokens :: "(string, nat) dict"
  si_total_num_scheduled_tokens :: nat

record exec_config =
  rc_graph :: exec_graph_config
  rc_is_ec_producer :: bool
  rc_has_kv_transfer_group :: bool
  rc_kv_sharing_fast_prefill :: bool
  rc_prefill_enable_mlugraph :: bool
  rc_broadcast_pp_output :: bool
  rc_is_last_rank :: bool
  rc_is_pooling_model :: bool
  rc_supports_mm_inputs :: bool
  rc_use_async_scheduling :: bool
  rc_speculative :: bool
  rc_padded_eagle :: bool
  rc_dp_rank :: nat

text \<open>
  The type variables are the batch with the buffers of the runner, tensors and tokens, metadata, and the
  output of a connector.
\<close>

record ('b, 'h, 'm, 'kv) runner_ops =
  op_update_states :: "step_input \<Rightarrow> 'b \<Rightarrow> 'b res"
  op_execute_mm_encoder :: "'b \<Rightarrow> 'b res"
  op_req_ids :: "'b \<Rightarrow> string list"
  op_num_computed_tokens :: "'b \<Rightarrow> int list"
  op_has_prompt_logprobs :: "'b \<Rightarrow> bool"
  op_no_forward :: "step_input \<Rightarrow> 'b \<Rightarrow> 'kv option"
  op_prepare_inputs :: "step_input \<Rightarrow> nat list \<Rightarrow> infer_mode \<Rightarrow> 'b \<Rightarrow> ('b \<times> 'h \<times> 'm option \<times> bool \<times> nat list option) res"
  op_build_metadata :: "nat \<Rightarrow> nat \<Rightarrow> nat \<Rightarrow> bool \<Rightarrow> infer_mode \<Rightarrow> 'b \<Rightarrow> ('b \<times> 'm \<times> 'm option) res"
  op_pad_for_cudagraph :: "nat \<Rightarrow> nat"
  op_preprocess :: "nat \<Rightarrow> 'b \<Rightarrow> 'b res"
  op_padding :: "bool \<Rightarrow> nat \<Rightarrow> nat \<Rightarrow> 'm \<Rightarrow> 'b \<Rightarrow> ('b \<times> 'm) res"
  op_metadata_mode :: "'m \<Rightarrow> infer_mode option"
  op_dispatch :: "nat \<Rightarrow> bool \<Rightarrow> graph_mode"
  op_forward :: "graph_mode \<Rightarrow> 'm \<Rightarrow> nat \<Rightarrow> 'b \<Rightarrow> ('b \<times> 'h) res"
  op_kv_connector_output :: "step_input \<Rightarrow> 'b \<Rightarrow> 'kv option"
  op_pool :: "'h \<Rightarrow> nat list \<Rightarrow> 'b \<Rightarrow> 'h res"
  op_select :: "'h \<Rightarrow> 'h \<Rightarrow> 'h"
  op_compute_logits :: "'h \<Rightarrow> 'h"
  op_broadcast_logits :: "'h option \<Rightarrow> 'h res"
  op_apply_grammar :: "'h \<Rightarrow> 'b \<Rightarrow> 'h res"
  op_sample :: "'h \<Rightarrow> 'm option \<Rightarrow> 'b \<Rightarrow> ('b \<times> 'h) res"
  op_reset_prev_sampled :: "'b \<Rightarrow> 'b"
  op_propose :: "'h \<Rightarrow> 'h \<Rightarrow> 'h \<Rightarrow> 'm option \<Rightarrow> 'm \<Rightarrow> 'b \<Rightarrow> 'b res"
  op_bookkeeping :: "step_input \<Rightarrow> 'h \<Rightarrow> 'h \<Rightarrow> 'h \<Rightarrow> 'm option \<Rightarrow> 'b \<Rightarrow> ('b \<times> 'h) res"
  op_eplb_step :: "'b \<Rightarrow> 'b"
  op_wait_for_save :: "'b \<Rightarrow> 'b"
  op_set_async_tokens :: "'h \<Rightarrow> 'b \<Rightarrow> 'b"
  op_kv_is_empty :: "'kv \<Rightarrow> bool"

text \<open>The fields of \<open>ExecuteModelState\<close>, the last under the name by which \<open>sample_tokens\<close> unpacks it.\<close>

record ('h, 'm, 'kv) execute_model_state =
  xm_input :: step_input
  xm_logits :: 'h
  xm_spec_decode_metadata :: "'m option"
  xm_spec_common_metadata :: "'m option"
  xm_hidden_states :: 'h
  xm_sample_hidden_states :: 'h
  xm_ec_connector_output :: "'kv option"

record ('b, 'h, 'm, 'kv) exec_state =
  rn_batch :: 'b
  rn_infer_mode :: infer_mode
  rn_calculate_kv_scales :: bool
  rn_execute_model_state :: "('h, 'm, 'kv) execute_model_state option"
  rn_kv_connector_output :: "'kv option"

datatype ('h, 'kv) runner_result =
    Encoder_output
  | Empty_output
  | No_forward "'kv option"
  | Intermediate 'h "'kv option"
  | Pooled 'h "'kv option"
  | No_output
  | Runner_output bool 'h "'kv option" "'kv option"

section \<open>The first half of a step\<close>

definition step_tokens ::
  "exec_config \<Rightarrow> ('b, 'h, 'm, 'kv) runner_ops \<Rightarrow> step_input \<Rightarrow> 'b \<Rightarrow> (nat list \<times> infer_mode) res" where
  "step_tokens cfg ops inp b =
     bind_res (map_res (dict_at (si_num_scheduled_tokens inp)) (op_req_ids ops b)) (\<lambda>tokens.
     let computed = take (length (op_req_ids ops b)) (op_num_computed_tokens ops b)
     in require (tokens \<noteq> [] \<and> computed \<noteq> []) ValueError
          (Inr (tokens, infer_mode_build (int (Max (set tokens))) (Max (set computed))
             (gc_uniform_decode_query_len (rc_graph cfg)))))"

text \<open>The forward and what follows it: early returns, or the state for \<open>sample_tokens\<close>.\<close>

definition execute_forward ::
  "exec_config \<Rightarrow> ('b, 'h, 'm, 'kv) runner_ops \<Rightarrow> step_input \<Rightarrow> nat list \<Rightarrow> graph_mode \<Rightarrow> 'm \<Rightarrow> nat \<Rightarrow> 'h
    \<Rightarrow> 'm option \<Rightarrow> 'm option \<Rightarrow> ('b, 'h, 'm, 'kv) exec_state \<Rightarrow> (('h, 'kv) runner_result \<times> ('b, 'h, 'm, 'kv) exec_state) res" where
  "execute_forward cfg ops inp tokens mode md num_input_tokens logits_indices spec_md spec_common st =
     bind_res (op_forward ops mode md num_input_tokens (rn_batch st)) (\<lambda>(b, hidden).
     let kv = op_kv_connector_output ops inp b; st = st\<lparr>rn_batch := b\<rparr>; sampled = op_select ops hidden logits_indices;
         deferred = (\<lambda>logits. Inr (No_output, st\<lparr>rn_execute_model_state :=
           Some \<lparr>xm_input = inp, xm_logits = logits, xm_spec_decode_metadata = spec_md, xm_spec_common_metadata = spec_common,
                 xm_hidden_states = hidden, xm_sample_hidden_states = sampled, xm_ec_connector_output = kv\<rparr>\<rparr>))
     in if \<not> rc_broadcast_pp_output cfg
        then if \<not> rc_is_last_rank cfg then Inr (Intermediate hidden kv, st)
             else if rc_is_pooling_model cfg then bind_res (op_pool ops hidden tokens b) (\<lambda>out. Inr (Pooled out kv, st))
             else deferred (op_compute_logits ops sampled)
        else require (\<not> rc_is_pooling_model cfg) AssertionError
          (bind_res (op_broadcast_logits ops (if rc_is_last_rank cfg then Some (op_compute_logits ops sampled) else None)) deferred))"

definition execute_scheduled ::
  "exec_config \<Rightarrow> ('b, 'h, 'm, 'kv) runner_ops \<Rightarrow> step_input \<Rightarrow> nat list \<Rightarrow> ('b, 'h, 'm, 'kv) exec_state
    \<Rightarrow> (('h, 'kv) runner_result \<times> ('b, 'h, 'm, 'kv) exec_state) res" where
  "execute_scheduled cfg ops inp tokens st =
     (let total_tokens = si_total_num_scheduled_tokens inp; num_reqs = length tokens; max_tokens = Max (set tokens);
          g = rc_graph cfg; mode = rn_infer_mode st
      in bind_res (op_prepare_inputs ops inp tokens mode (rn_batch st))
           (\<lambda>(b, logits_indices, spec_md, ubatch_slices, num_tokens_across_dp).
         bind_res (op_build_metadata ops total_tokens max_tokens num_reqs ubatch_slices mode b) (\<lambda>(b, md, spec_common).
         bind_res (padding_decision (op_pad_for_cudagraph ops) g mode num_reqs (map snd (si_num_scheduled_tokens inp)) total_tokens
                     ubatch_slices num_tokens_across_dp (rc_dp_rank cfg)) (\<lambda>(capture, num_input_tokens).
         bind_res (op_preprocess ops num_input_tokens b) (\<lambda>b.
         case capture of None \<Rightarrow> Inl UnboundLocalError | Some capture_already \<Rightarrow>
         bind_res (op_padding ops capture_already num_input_tokens total_tokens md b) (\<lambda>(b, md).
         let uniform_decode = (max_tokens = gc_uniform_decode_query_len g \<and> total_tokens = num_reqs * max_tokens);
             graph = graph_mode_of (rc_prefill_enable_mlugraph cfg) (op_metadata_mode ops md) capture_already
                       (rn_calculate_kv_scales st) (op_dispatch ops num_input_tokens uniform_decode)
         in execute_forward cfg ops inp tokens graph md num_input_tokens logits_indices spec_md spec_common
              (st\<lparr>rn_batch := b, rn_calculate_kv_scales := False\<rparr>)))))))"

definition execute_model ::
  "exec_config \<Rightarrow> ('b, 'h, 'm, 'kv) runner_ops \<Rightarrow> step_input \<Rightarrow> ('b, 'h, 'm, 'kv) exec_state
    \<Rightarrow> (('h, 'kv) runner_result \<times> ('b, 'h, 'm, 'kv) exec_state) res" where
  "execute_model cfg ops inp st =
     require (rn_execute_model_state st = None) RuntimeError
     (bind_res (op_update_states ops inp (rn_batch st)) (\<lambda>b.
      if rc_is_ec_producer cfg
      then bind_res (op_execute_mm_encoder ops b) (\<lambda>b. Inr (Encoder_output, st\<lparr>rn_batch := b\<rparr>))
      else if si_total_num_scheduled_tokens inp = 0
      then Inr (if \<not> rc_has_kv_transfer_group cfg then Empty_output else No_forward (op_no_forward ops inp b), st\<lparr>rn_batch := b\<rparr>)
      else require (rc_kv_sharing_fast_prefill cfg \<longrightarrow> \<not> op_has_prompt_logprobs ops b) AssertionError
        (bind_res (step_tokens cfg ops inp b) (\<lambda>(tokens, mode).
         execute_scheduled cfg ops inp tokens (st\<lparr>rn_batch := b, rn_infer_mode := mode\<rparr>)))))"

section \<open>The second half of a step\<close>

text \<open>Without a state only the output of a connector is passed on.\<close>

definition sample_without_state :: "('b, 'h, 'm, 'kv) runner_ops \<Rightarrow> 'kv option \<Rightarrow> ('h, 'kv) runner_result" where
  "sample_without_state ops kv =
     (case kv of None \<Rightarrow> No_output | Some o' \<Rightarrow> if op_kv_is_empty ops o' then Empty_output else No_forward (Some o'))"

definition propose_drafts ::
  "('b, 'h, 'm, 'kv) runner_ops \<Rightarrow> ('h, 'm, 'kv) execute_model_state \<Rightarrow> 'h \<Rightarrow> 'b \<Rightarrow> 'b res" where
  "propose_drafts ops xm tokens b =
     (case xm_spec_common_metadata xm of None \<Rightarrow> Inl AssertionError
      | Some cm \<Rightarrow> op_propose ops tokens (xm_hidden_states xm) (xm_sample_hidden_states xm) (xm_spec_decode_metadata xm) cm b)"

text \<open>
  A padded Eagle drafter works on the sampled tokens of the device before the bookkeeping, every other
  drafter on the valid tokens after it.
\<close>

definition sample_and_draft ::
  "exec_config \<Rightarrow> ('b, 'h, 'm, 'kv) runner_ops \<Rightarrow> ('h, 'm, 'kv) execute_model_state \<Rightarrow> bool \<Rightarrow> 'b \<Rightarrow> ('b \<times> 'h \<times> 'h) res" where
  "sample_and_draft cfg ops xm has_grammar b =
     bind_res (if has_grammar then op_apply_grammar ops (xm_logits xm) b else Inr (xm_logits xm)) (\<lambda>logits.
     bind_res (op_sample ops logits (xm_spec_decode_metadata xm) b) (\<lambda>(b, sampled).
     let b = op_reset_prev_sampled ops b; padded = (rc_speculative cfg \<and> rc_padded_eagle cfg) in
     bind_res (if padded then propose_drafts ops xm sampled b else Inr b) (\<lambda>b.
     bind_res (op_bookkeeping ops (xm_input xm) sampled logits (xm_hidden_states xm) (xm_spec_decode_metadata xm) b)
       (\<lambda>(b, valid_tokens).
     bind_res (if rc_speculative cfg \<and> \<not> padded then propose_drafts ops xm valid_tokens b else Inr b) (\<lambda>b.
     Inr (b, sampled, valid_tokens))))))"

definition sample_tokens ::
  "exec_config \<Rightarrow> ('b, 'h, 'm, 'kv) runner_ops \<Rightarrow> bool \<Rightarrow> ('b, 'h, 'm, 'kv) exec_state
    \<Rightarrow> (('h, 'kv) runner_result \<times> ('b, 'h, 'm, 'kv) exec_state) res" where
  "sample_tokens cfg ops has_grammar st =
     (let kv = rn_kv_connector_output st; st = st\<lparr>rn_kv_connector_output := None\<rparr>
      in case rn_execute_model_state st of
           None \<Rightarrow> Inr (sample_without_state ops kv, st)
         | Some xm \<Rightarrow>
             bind_res (sample_and_draft cfg ops xm has_grammar (rn_batch st)) (\<lambda>(b, sampled, valid_tokens).
             let b = op_eplb_step ops b;
                 ec = (if rc_supports_mm_inputs cfg then xm_ec_connector_output xm else None);
                 b = (if rc_has_kv_transfer_group cfg then op_wait_for_save ops b else b);
                 b = (if rc_use_async_scheduling cfg then op_set_async_tokens ops sampled b else b)
             in Inr (Runner_output (rc_use_async_scheduling cfg) valid_tokens kv ec,
                     st\<lparr>rn_batch := b, rn_execute_model_state := None\<rparr>)))"

section \<open>Runs of the runner\<close>

datatype ('h, 'kv) runner_event =
    Executed step_input "('h, 'kv) runner_result"
  | Sampled_tokens "('h, 'kv) runner_result"

definition new_runner :: "'b \<Rightarrow> bool \<Rightarrow> ('b, 'h, 'm, 'kv) exec_state" where
  "new_runner b calculate_kv_scales = \<lparr>rn_batch = b, rn_infer_mode = PREFILL_ONLY, rn_calculate_kv_scales = calculate_kv_scales,
     rn_execute_model_state = None, rn_kv_connector_output = None\<rparr>"

inductive runner_run ::
  "exec_config \<Rightarrow> ('b, 'h, 'm, 'kv) runner_ops \<Rightarrow> ('b, 'h, 'm, 'kv) exec_state \<Rightarrow> ('h, 'kv) runner_event list
    \<Rightarrow> ('b, 'h, 'm, 'kv) exec_state \<Rightarrow> bool" for cfg ops st0 where
  start: "runner_run cfg ops st0 [] st0"
| execute: "runner_run cfg ops st0 evs st \<Longrightarrow> execute_model cfg ops inp st = Inr (out, st')
    \<Longrightarrow> runner_run cfg ops st0 (evs @ [Executed inp out]) st'"
| sample: "runner_run cfg ops st0 evs st \<Longrightarrow> sample_tokens cfg ops has_grammar st = Inr (out, st')
    \<Longrightarrow> runner_run cfg ops st0 (evs @ [Sampled_tokens out]) st'"

lemma execute_forward_effect:
  assumes "execute_forward cfg ops inp tokens mode md n li spec_md spec_common st = Inr (out, st')" "rn_execute_model_state st = None"
  shows "rn_kv_connector_output st' = rn_kv_connector_output st \<and> (out = No_output \<longleftrightarrow> rn_execute_model_state st' \<noteq> None)
    \<and> (\<forall>xm. rn_execute_model_state st' = Some xm \<longrightarrow> xm_ec_connector_output xm \<in> range (op_kv_connector_output ops inp))"
  using assms unfolding execute_forward_def Let_def bind_res_eq_Inr require_eq_Inr
  by (auto simp: bind_res_eq_Inr require_eq_Inr split: if_splits)

lemma execute_scheduled_effect:
  assumes "execute_scheduled cfg ops inp tokens st = Inr (out, st')" "rn_execute_model_state st = None"
  shows "rn_kv_connector_output st' = rn_kv_connector_output st \<and> (out = No_output \<longleftrightarrow> rn_execute_model_state st' \<noteq> None)
    \<and> (\<forall>xm. rn_execute_model_state st' = Some xm \<longrightarrow> xm_ec_connector_output xm \<in> range (op_kv_connector_output ops inp))"
proof -
  obtain graph md n li spec_md spec_common b where
    "execute_forward cfg ops inp tokens graph md n li spec_md spec_common (st\<lparr>rn_batch := b, rn_calculate_kv_scales := False\<rparr>) = Inr (out, st')"
    using assms(1) unfolding execute_scheduled_def Let_def
    by (auto simp: bind_res_eq_Inr split: prod.splits option.splits)
  from execute_forward_effect[OF this] assms(2) show ?thesis by simp
qed

lemma execute_model_effect:
  assumes "execute_model cfg ops inp st = Inr (out, st')"
  shows "rn_execute_model_state st = None \<and> rn_kv_connector_output st' = rn_kv_connector_output st
    \<and> (out = No_output \<longleftrightarrow> rn_execute_model_state st' \<noteq> None)
    \<and> (\<forall>xm. rn_execute_model_state st' = Some xm \<longrightarrow> xm_ec_connector_output xm \<in> range (op_kv_connector_output ops inp))"
proof -
  have idle: "rn_execute_model_state st = None" using assms by (simp add: execute_model_def require_eq_Inr)
  consider (forward) tokens mode b where
      "execute_scheduled cfg ops inp tokens (st\<lparr>rn_batch := b, rn_infer_mode := mode\<rparr>) = Inr (out, st')"
    | (none) b where "st' = st\<lparr>rn_batch := b\<rparr>" "out \<noteq> No_output"
    using assms unfolding execute_model_def
    by (auto simp: bind_res_eq_Inr require_eq_Inr split: if_splits prod.splits)
  then show ?thesis
  proof cases
    case forward
    from execute_scheduled_effect[OF this] idle show ?thesis by simp
  next
    case none
    with idle show ?thesis by simp
  qed
qed

lemma sample_tokens_effect:
  assumes "sample_tokens cfg ops g st = Inr (out, st')"
  shows "rn_kv_connector_output st' = None \<and> rn_execute_model_state st' = None
    \<and> (case rn_execute_model_state st of
         None \<Rightarrow> out = sample_without_state ops (rn_kv_connector_output st)
       | Some xm \<Rightarrow> \<exists>tokens. out = Runner_output (rc_use_async_scheduling cfg) tokens (rn_kv_connector_output st)
                       (if rc_supports_mm_inputs cfg then xm_ec_connector_output xm else None))"
  using assms unfolding sample_tokens_def Let_def
  by (auto simp: bind_res_eq_Inr split: option.splits prod.splits)

definition pending :: "('h, 'kv) runner_event list \<Rightarrow> bool" where
  "pending evs \<longleftrightarrow> (\<exists>inp. evs \<noteq> [] \<and> last evs = Executed inp No_output)"

lemma run_pending:
  "runner_run cfg ops (new_runner b c) evs st \<Longrightarrow> rn_kv_connector_output st = None
    \<and> (pending evs \<longleftrightarrow> rn_execute_model_state st \<noteq> None)"
proof (induction rule: runner_run.induct)
  case start
  then show ?case by (simp add: new_runner_def pending_def)
next
  case (execute evs st inp out st')
  with execute_model_effect[OF execute(2)] show ?case by (simp add: pending_def)
next
  case (sample evs st g out st')
  with sample_tokens_effect[OF sample(2)] show ?case by (simp add: pending_def)
qed

text \<open>
  C16. The two halves of a step alternate: in every run, the call after an \<open>execute_model\<close> that deferred its
  output is \<open>sample_tokens\<close> (another \<open>execute_model\<close> raises \<open>RuntimeError\<close>), and every output of
  \<open>sample_tokens\<close> with tokens belongs to the call before it, an \<open>execute_model\<close> that deferred its output.
\<close>

theorem halves_of_a_step_alternate:
  assumes "runner_run cfg ops (new_runner b c) evs st"
  shows "(\<forall>i. Suc i < length evs \<longrightarrow> (\<exists>inp. evs ! i = Executed inp No_output) \<longrightarrow> (\<exists>out. evs ! Suc i = Sampled_tokens out))
    \<and> (\<forall>i a tokens kv ec. i < length evs \<longrightarrow> evs ! i = Sampled_tokens (Runner_output a tokens kv ec)
          \<longrightarrow> 0 < i \<and> (\<exists>inp. evs ! (i - 1) = Executed inp No_output))
    \<and> (pending evs \<longrightarrow> execute_model cfg ops inp st = Inl RuntimeError)"
proof -
  have "(\<forall>i. Suc i < length evs \<longrightarrow> (\<exists>inp. evs ! i = Executed inp No_output) \<longrightarrow> (\<exists>out. evs ! Suc i = Sampled_tokens out))
    \<and> (\<forall>i a tokens kv ec. i < length evs \<longrightarrow> evs ! i = Sampled_tokens (Runner_output a tokens kv ec)
          \<longrightarrow> 0 < i \<and> (\<exists>inp. evs ! (i - 1) = Executed inp No_output))"
    using assms
  proof (induction rule: runner_run.induct)
    case start
    then show ?case by simp
  next
    case (execute evs st inp out st')
    have "\<not> pending evs" using run_pending[OF execute(1)] execute_model_effect[OF execute(2)] by simp
    then have "Suc i = length evs \<Longrightarrow> evs ! i \<noteq> Executed inp' No_output" for i inp'
      by (metis Zero_not_Suc diff_Suc_1 last_conv_nth length_0_conv pending_def)
    then show ?case using execute.IH by (auto simp: nth_append less_Suc_eq)
  next
    case (sample evs st g out st')
    have kv: "rn_kv_connector_output st = None" using run_pending[OF sample(1)] by simp
    have "pending evs" if "out = Runner_output a tokens kv' ec" for a tokens kv' ec
    proof (rule ccontr)
      assume "\<not> pending evs"
      then have "rn_execute_model_state st = None" using run_pending[OF sample(1)] by simp
      then show False using sample_tokens_effect[OF sample(2)] kv that by (simp add: sample_without_state_def)
    qed
    then have "out = Runner_output a tokens kv' ec \<Longrightarrow> 0 < length evs \<and> (\<exists>inp. evs ! (length evs - 1) = Executed inp No_output)"
      for a tokens kv' ec
      by (metis last_conv_nth length_greater_0_conv pending_def)
    then show ?case using sample.IH by (auto simp: nth_append less_Suc_eq)
  qed
  moreover have "pending evs \<longrightarrow> execute_model cfg ops inp st = Inl RuntimeError"
    using run_pending[OF assms] by (auto simp: execute_model_def require_def)
  ultimately show ?thesis by blast
qed

text \<open>
  C9. The runner never reports the output of the KV connector: in every run, each output of
  \<open>sample_tokens\<close> with tokens has an empty field for the KV connector, and what the connector reported
  during the forward of the step before it (the transfers that finished, the blocks that failed to load) is in
  the field of the encoder cache connector, or dropped when the model takes no multimodal inputs.
\<close>

theorem kv_connector_output_misplaced:
  assumes "runner_run cfg ops (new_runner b c) evs st" "i < length evs" "evs ! i = Sampled_tokens (Runner_output a tokens kv ec)"
  shows "kv = None \<and> (\<exists>inp. evs ! (i - 1) = Executed inp No_output
     \<and> (rc_supports_mm_inputs cfg \<longrightarrow> ec \<in> range (op_kv_connector_output ops inp)) \<and> (\<not> rc_supports_mm_inputs cfg \<longrightarrow> ec = None))"
proof -
  have "(\<forall>i. i < length evs \<longrightarrow> evs ! i = Sampled_tokens (Runner_output a tokens kv ec) \<longrightarrow>
      kv = None \<and> (\<exists>inp. evs ! (i - 1) = Executed inp No_output
     \<and> (rc_supports_mm_inputs cfg \<longrightarrow> ec \<in> range (op_kv_connector_output ops inp)) \<and> (\<not> rc_supports_mm_inputs cfg \<longrightarrow> ec = None)) \<and> 0 < i)
   \<and> (\<forall>xm inp. rn_execute_model_state st = Some xm \<longrightarrow> evs \<noteq> [] \<longrightarrow> last evs = Executed inp No_output
        \<longrightarrow> xm_ec_connector_output xm \<in> range (op_kv_connector_output ops inp))"
    using assms(1)
  proof (induction rule: runner_run.induct)
    case start
    then show ?case by simp
  next
    case (execute evs st inp out st')
    from execute_model_effect[OF execute(2)] execute.IH show ?case
      by (auto simp: nth_append less_Suc_eq)
  next
    case (sample evs st g out st')
    note eff = sample_tokens_effect[OF sample(2)] and p = run_pending[OF sample(1)]
    have "kv = None \<and> (\<exists>inp. evs ! (length evs - 1) = Executed inp No_output
       \<and> (rc_supports_mm_inputs cfg \<longrightarrow> ec \<in> range (op_kv_connector_output ops inp)) \<and> (\<not> rc_supports_mm_inputs cfg \<longrightarrow> ec = None)) \<and> evs \<noteq> []"
      if out: "out = Runner_output a tokens kv ec"
    proof -
      have "rn_execute_model_state st \<noteq> None" using eff p out by (auto simp: sample_without_state_def)
      then obtain xm where xm: "rn_execute_model_state st = Some xm" by auto
      then have o: "kv = None" "ec = (if rc_supports_mm_inputs cfg then xm_ec_connector_output xm else None)"
        using eff p out by auto
      from xm p obtain inp where i: "evs \<noteq> []" "last evs = Executed inp No_output" by (auto simp: pending_def)
      then have "xm_ec_connector_output xm \<in> range (op_kv_connector_output ops inp)" using sample.IH xm by blast
      then show ?thesis using o i by (auto simp: last_conv_nth)
    qed
    then show ?case using sample.IH eff by (auto simp: nth_append less_Suc_eq)
  qed
  then show ?thesis using assms(2,3) by blast
qed

section \<open>Padding and parallel steps\<close>

lemma padded_decode_size:
  assumes cfg: "gc_cudagraph_batch_sizes cfg = sorted_batch_sizes (Some capture_sizes) (gc_graphs_enabled cfg)" "gc_graphs_enabled cfg"
      "gc_uniform_decode_query_len cfg = 1 + num_spec_of cfg"
    and pad: "\<And>n s. s \<in> set capture_sizes \<Longrightarrow> n \<le> s \<Longrightarrow>
        pad_for_cudagraph n \<in> set capture_sizes \<and> n \<le> pad_for_cudagraph n \<and> pad_for_cudagraph n \<le> s"
    and step: "length tokens = num_reqs" "0 < num_reqs" "total_tokens = sum_list tokens"
    and run: "padding_decision pad_for_cudagraph cfg DECODE_ONLY num_reqs tokens total_tokens ubatch_slices dp dp_rank
        = Inr (Some True, num_input_tokens)"
  shows "num_input_tokens \<in> set (decode_batch_sizes cfg capture_sizes)" "total_tokens \<le> num_input_tokens"
    "tokens = replicate num_reqs (1 + num_spec_of cfg)" "num_input_tokens = pad_for_cudagraph total_tokens"
proof -
  let ?K = "num_spec_of cfg"
  have dp: "dp = None" "\<not> ubatch_slices" using run by (auto simp: padding_decision_def bind_res_eq_Inr split: option.splits if_splits)
  have ne: "capture_sizes \<noteq> []" and sizes: "gc_cudagraph_batch_sizes cfg = Some (sort capture_sizes)"
    using run dp cfg(1,2) by (auto simp: padding_decision_def sorted_batch_sizes_def Let_def split: if_splits option.splits)
  have uniform: "list_all (\<lambda>x. x = ?K + 1) tokens"
    and fit: "decode_batch_sizes cfg (sort capture_sizes) \<noteq> []" "num_reqs * (1 + ?K) \<le> Max (set (decode_batch_sizes cfg (sort capture_sizes)))"
    and n: "num_input_tokens = get_num_input_tokens pad_for_cudagraph (pad_config_of cfg DECODE_ONLY) total_tokens"
    using run dp sizes by (auto simp: padding_decision_def Let_def split: if_splits)
  have tokens: "tokens = replicate num_reqs (1 + ?K)"
    using uniform step(1) replicate_length_same[of tokens "1 + ?K"] by (auto simp: list_all_iff)
  then have sum: "total_tokens = num_reqs * (1 + ?K)" using step(3) by (simp add: sum_list_replicate)
  have "Max (set (decode_batch_sizes cfg (sort capture_sizes))) \<in> set (decode_batch_sizes cfg (sort capture_sizes))"
    using fit(1) by (intro Max_in) auto
  then obtain s where s: "s \<in> set capture_sizes" "s \<le> gc_max_num_seqs cfg * gc_uniform_decode_query_len cfg" "total_tokens \<le> s"
    using fit(2) sum by (auto simp: decode_batch_sizes_def Let_def)
  have "s \<le> last (sort capture_sizes)"
  proof -
    obtain i where i: "i < length (sort capture_sizes)" "sort capture_sizes ! i = s" using s(1) by (metis in_set_conv_nth set_sort)
    then have "sort capture_sizes ! i \<le> sort capture_sizes ! (length (sort capture_sizes) - 1)" by (intro sorted_nth_mono) auto
    then show ?thesis using i ne by (metis last_conv_nth length_greater_0_conv length_sort)
  qed
  moreover have "sort capture_sizes \<noteq> []" using ne by (metis length_0_conv length_sort)
  ultimately have "num_input_tokens = pad_for_cudagraph total_tokens"
    using n s(3) sizes cfg(2) by (simp add: get_num_input_tokens_def pad_config_of_def Let_def)
  moreover note pad[OF s(1,3)]
  moreover have "1 + ?K \<le> total_tokens" unfolding sum using step(2) by (cases num_reqs) simp_all
  ultimately have mem: "num_input_tokens \<in> set (decode_batch_sizes cfg capture_sizes)" "total_tokens \<le> num_input_tokens"
    and eq: "num_input_tokens = pad_for_cudagraph total_tokens"
    using s(2) cfg(3) by (auto simp: decode_batch_sizes_def Let_def)
  then show "num_input_tokens \<in> set (decode_batch_sizes cfg capture_sizes)" "total_tokens \<le> num_input_tokens"
    "tokens = replicate num_reqs (1 + ?K)" "num_input_tokens = pad_for_cudagraph total_tokens"
    using tokens by simp_all
qed

text \<open>
  C27. A decode that is padded runs on a captured graph: when the runner decides for a graph in a step of
  decodes, every request has its token and all its drafts, and the number of input tokens is one of the sizes
  for which a graph of decodes was captured, at least the tokens of the step; when that size is a multiple of
  the tokens of a request, it is the size of the batch with some more requests.
\<close>

theorem padded_decodes_were_captured:
  assumes cfg: "gc_cudagraph_batch_sizes cfg = sorted_batch_sizes (Some capture_sizes) (gc_graphs_enabled cfg)" "gc_graphs_enabled cfg"
      "gc_uniform_decode_query_len cfg = 1 + num_spec_of cfg"
    and pad: "\<And>n s. s \<in> set capture_sizes \<Longrightarrow> n \<le> s \<Longrightarrow>
        pad_for_cudagraph n \<in> set capture_sizes \<and> n \<le> pad_for_cudagraph n \<and> pad_for_cudagraph n \<le> s"
    and step: "length tokens = num_reqs" "0 < num_reqs" "total_tokens = sum_list tokens"
    and run: "padding_decision pad_for_cudagraph cfg DECODE_ONLY num_reqs tokens total_tokens ubatch_slices dp dp_rank
        = Inr (Some True, num_input_tokens)"
  shows "num_input_tokens \<in> set (decode_batch_sizes cfg capture_sizes) \<and> total_tokens \<le> num_input_tokens
    \<and> tokens = replicate num_reqs (1 + num_spec_of cfg)
    \<and> ((1 + num_spec_of cfg) dvd num_input_tokens \<longrightarrow>
        (\<exists>k. num_input_tokens = total_tokens + k * (1 + num_spec_of cfg)
           \<and> pad_for_cudagraph (num_reqs * (1 + num_spec_of cfg)) div (1 + num_spec_of cfg) = num_reqs + k))"
proof -
  let ?K = "num_spec_of cfg"
  note size = padded_decode_size[OF assms]
  have sum: "total_tokens = num_reqs * (1 + ?K)" using step(3) size(3) by (simp add: sum_list_replicate)
  have "\<exists>k. num_input_tokens = total_tokens + k * (1 + ?K) \<and> pad_for_cudagraph (num_reqs * (1 + ?K)) div (1 + ?K) = num_reqs + k"
    if "(1 + ?K) dvd num_input_tokens"
  proof -
    from that obtain j where j: "num_input_tokens = j * (1 + ?K)" by (metis dvd_def mult.commute)
    then have "num_reqs \<le> j" using size(2) sum by (metis mult_le_cancel2 zero_less_Suc plus_1_eq_Suc)
    then have "num_input_tokens = total_tokens + (j - num_reqs) * (1 + ?K)" using j sum by (simp only: flip: add_mult_distrib) simp
    moreover have "pad_for_cudagraph (num_reqs * (1 + ?K)) div (1 + ?K) = num_reqs + (j - num_reqs)"
      using size(4) j sum \<open>num_reqs \<le> j\<close> by (metis le_add_diff_inverse nonzero_mult_div_cancel_right plus_1_eq_Suc nat.simps(3))
    ultimately show ?thesis by blast
  qed
  then show ?thesis using size(1-3) by blast
qed

text \<open>
  A step with data parallel padding raises: when the inputs of a step are prepared with the numbers of
  tokens of the ranks, the variable that says whether a graph was captured is never assigned, and the step
  raises \<open>UnboundLocalError\<close> after the batch was updated and the inputs were prepared.
\<close>

theorem data_parallel_step_raises:
  assumes "rn_execute_model_state st = None" "op_update_states ops inp (rn_batch st) = Inr b" "\<not> rc_is_ec_producer cfg"
    and "si_total_num_scheduled_tokens inp \<noteq> 0" "\<not> rc_kv_sharing_fast_prefill cfg" "step_tokens cfg ops inp b = Inr (tokens, mode)"
    and "op_prepare_inputs ops inp tokens mode b = Inr (b1, li, spec_md, ubatch_slices, Some num_tokens_across_dp)"
    and "op_build_metadata ops (si_total_num_scheduled_tokens inp) (Max (set tokens)) (length tokens) ubatch_slices mode b1 = Inr (b2, md, cm)"
    and "rc_dp_rank cfg < length num_tokens_across_dp" "op_preprocess ops (num_tokens_across_dp ! rc_dp_rank cfg) b2 = Inr b3"
  shows "execute_model cfg ops inp st = Inl UnboundLocalError"
  using assms by (simp add: execute_model_def execute_scheduled_def padding_decision_def nth_res_def Let_def)

section \<open>Examples\<close>

definition demo_graph :: exec_graph_config where
  "demo_graph = \<lparr>gc_graphs_enabled = True, gc_cudagraph_batch_sizes = Some [2, 4, 8], gc_num_speculative_tokens = Some 1,
     gc_max_num_seqs = 4, gc_uniform_decode_query_len = 2, gc_tensor_parallel_size = 1, gc_enable_sequence_parallelism = False\<rparr>"

definition demo_runner :: "bool \<Rightarrow> exec_config" where
  "demo_runner mm = \<lparr>rc_graph = demo_graph, rc_is_ec_producer = False, rc_has_kv_transfer_group = True, rc_kv_sharing_fast_prefill = False,
     rc_prefill_enable_mlugraph = False, rc_broadcast_pp_output = False, rc_is_last_rank = True, rc_is_pooling_model = False,
     rc_supports_mm_inputs = mm, rc_use_async_scheduling = False, rc_speculative = True, rc_padded_eagle = True, rc_dp_rank = 0\<rparr>"

definition smallest_size :: "nat \<Rightarrow> nat" where
  "smallest_size n = (if n \<le> 2 then 2 else if n \<le> 4 then 4 else if n \<le> 8 then 8 else n)"

definition demo_ops :: "nat list option \<Rightarrow> (unit, nat list, unit, string) runner_ops" where
  "demo_ops dp = \<lparr>op_update_states = \<lambda>_ b. Inr b, op_execute_mm_encoder = Inr, op_req_ids = \<lambda>_. [''r'', ''s'', ''t''],
     op_num_computed_tokens = \<lambda>_. [3, 4, 5], op_has_prompt_logprobs = \<lambda>_. False, op_no_forward = \<lambda>_ _. None,
     op_prepare_inputs = \<lambda>_ _ _ b. Inr (b, [1, 3, 5], None, False, dp), op_build_metadata = \<lambda>_ _ _ _ _ b. Inr (b, (), Some ()),
     op_pad_for_cudagraph = smallest_size, op_preprocess = \<lambda>_ b. Inr b, op_padding = \<lambda>_ _ _ m b. Inr (b, m),
     op_metadata_mode = \<lambda>_. Some DECODE_ONLY, op_dispatch = \<lambda>_ _. Graph_full, op_forward = \<lambda>_ _ n b. Inr (b, [10, 11, 12, 13, 14, 15, 16, 17]),
     op_kv_connector_output = \<lambda>_ _. Some ''r is received'', op_pool = \<lambda>h _ _. Inr h, op_select = \<lambda>h is'. map ((!) h) is',
     op_compute_logits = id, op_broadcast_logits = \<lambda>h. Inr (case h of None \<Rightarrow> [] | Some x \<Rightarrow> x), op_apply_grammar = \<lambda>h _. Inr h,
     op_sample = \<lambda>h _ b. Inr (b, map Suc h), op_reset_prev_sampled = id, op_propose = \<lambda>_ _ _ _ _ b. Inr b,
     op_bookkeeping = \<lambda>_ h _ _ _ b. Inr (b, h), op_eplb_step = id, op_wait_for_save = id, op_set_async_tokens = \<lambda>_ b. b,
     op_kv_is_empty = \<lambda>kv. kv = []\<rparr>"

definition demo_step :: step_input where
  "demo_step = \<lparr>si_num_scheduled_tokens = [(''r'', 2), (''s'', 2), (''t'', 2)], si_total_num_scheduled_tokens = 6\<rparr>"

lemma smallest_size_law:
  "s \<in> set [8, 2, 4] \<Longrightarrow> n \<le> s \<Longrightarrow> smallest_size n \<in> set [8, 2, 4] \<and> n \<le> smallest_size n \<and> smallest_size n \<le> s"
  by (auto simp: smallest_size_def)

lemma padded_decodes_were_captured_witness:
  "padding_decision smallest_size demo_graph DECODE_ONLY 3 [2, 2, 2] 6 False None 0 = Inr (Some True, 8)
   \<and> (8 :: nat) \<in> set (decode_batch_sizes demo_graph [8, 2, 4])"
proof -
  have run: "padding_decision smallest_size demo_graph DECODE_ONLY 3 [2, 2, 2] 6 False None 0 = Inr (Some True, 8)"
    by (simp add: padding_decision_def demo_graph_def decode_batch_sizes_def num_spec_of_def get_num_input_tokens_def pad_config_of_def smallest_size_def)
  have cfg: "gc_cudagraph_batch_sizes demo_graph = sorted_batch_sizes (Some [8, 2, 4]) (gc_graphs_enabled demo_graph)"
    "gc_graphs_enabled demo_graph" "gc_uniform_decode_query_len demo_graph = 1 + num_spec_of demo_graph"
    by (simp_all add: demo_graph_def sorted_batch_sizes_def num_spec_of_def)
  show ?thesis using padded_decodes_were_captured[OF cfg smallest_size_law _ _ _ run] run by simp
qed

definition demo_pending :: "(unit, nat list, unit, string) exec_state" where
  "demo_pending = \<lparr>rn_batch = (), rn_infer_mode = DECODE_ONLY, rn_calculate_kv_scales = False,
     rn_execute_model_state = Some \<lparr>xm_input = demo_step, xm_logits = [11, 13, 15], xm_spec_decode_metadata = None,
       xm_spec_common_metadata = Some (), xm_hidden_states = [10, 11, 12, 13, 14, 15, 16, 17],
       xm_sample_hidden_states = [11, 13, 15], xm_ec_connector_output = Some ''r is received''\<rparr>,
     rn_kv_connector_output = None\<rparr>"

lemma demo_execute: "execute_model (demo_runner mm) (demo_ops None) demo_step (new_runner () False) = Inr (No_output, demo_pending)"
  by (simp add: execute_model_def execute_scheduled_def execute_forward_def step_tokens_def new_runner_def demo_runner_def demo_ops_def
      demo_step_def demo_pending_def demo_graph_def padding_decision_def decode_batch_sizes_def num_spec_of_def get_num_input_tokens_def pad_config_of_def
      smallest_size_def dict_at_def infer_mode_build_def Let_def)

lemma demo_sample:
  "sample_tokens (demo_runner mm) (demo_ops None) False demo_pending
    = Inr (Runner_output False [12, 14, 16] None (if mm then Some ''r is received'' else None), demo_pending\<lparr>rn_execute_model_state := None\<rparr>)"
  by (simp add: sample_tokens_def sample_and_draft_def propose_drafts_def demo_runner_def demo_ops_def demo_pending_def Let_def)

lemma demo_run:
  "runner_run (demo_runner True) (demo_ops None) (new_runner () False)
     [Executed demo_step No_output, Sampled_tokens (Runner_output False [12, 14, 16] None (Some ''r is received''))]
     (demo_pending\<lparr>rn_execute_model_state := None\<rparr>)"
  using runner_run.sample[OF runner_run.execute[OF runner_run.start demo_execute] demo_sample[of True]] by simp

lemma halves_of_a_step_alternate_witness:
  "execute_model (demo_runner True) (demo_ops None) demo_step demo_pending = Inl RuntimeError"
  using halves_of_a_step_alternate[OF runner_run.execute[OF runner_run.start demo_execute]] by (simp add: pending_def)

lemma kv_connector_output_misplaced_witness:
  "\<exists>kv ec. [Executed demo_step No_output, Sampled_tokens (Runner_output False [12, 14, 16 :: nat] kv ec)] ! 1
      = Sampled_tokens (Runner_output False [12, 14, 16] None (Some ''r is received''))
    \<and> kv = None \<and> ec \<in> range (op_kv_connector_output (demo_ops None) demo_step)"
  using kv_connector_output_misplaced[OF demo_run, of 1 False "[12, 14, 16]" None "Some ''r is received''"]
  by (auto simp: demo_runner_def)

lemma data_parallel_step_raises_witness:
  "execute_model (demo_runner True) (demo_ops (Some [8])) demo_step (new_runner () False) = Inl UnboundLocalError"
  by (rule data_parallel_step_raises[where b = "()" and ?b1.0 = "()" and ?b2.0 = "()" and ?b3.0 = "()" and mode = DECODE_ONLY
        and tokens = "[2, 2, 2]" and li = "[1, 3, 5]" and spec_md = None and ubatch_slices = False and num_tokens_across_dp = "[8]"])
    (simp_all add: step_tokens_def demo_runner_def demo_ops_def demo_step_def demo_graph_def new_runner_def dict_at_def infer_mode_build_def)

end
