(* ===== verification/PromptLogprobs.thy ===== *)
theory PromptLogprobs
  imports Prelude
begin

text \<open>
  The log probabilities of prompts (\<open>MLUModelRunner._get_prompt_logprobs_dict\<close> in
  \<^verbatim>\<open>vllm_mlu/v1/worker/gpu_model_runner.py\<close>). The three tensors of a request are one list of rows,
  \<open>None\<close> where nothing was written; the logits and the gathering of the target's row are a function of
  one hidden state and one token, since both work row by row. A returned tensor is the one in progress, so that
  rows written after it was put into the result are part of it.
\<close>

section \<open>One step\<close>

record lp_request_state =
  lq_prompt_token_ids :: "nat list option"
  lq_num_computed_tokens :: nat

record 'r lp_batch =
  lb_num_prompt_logprobs :: "(string, nat) dict"
  lb_in_progress :: "(string, 'r option list) dict"

record 'h lp_step =
  ls_requests :: "(string, lp_request_state) dict"
  ls_num_scheduled_tokens :: "(string, nat) dict"
  ls_req_id_to_index :: "(string, nat) dict"
  ls_query_start_loc :: "nat list"
  ls_hidden_states :: "'h list"

type_synonym 'r lp_acc = "'r lp_batch \<times> (string, 'r option list) dict \<times> string list"

definition lp_tensors :: "string \<Rightarrow> nat \<Rightarrow> 'r lp_batch \<Rightarrow> ('r lp_batch \<times> 'r option list) res" where
  "lp_tensors r num_prompt_tokens b =
     (case dict_get (lb_in_progress b) r of
        Some t \<Rightarrow> Inr (b, t)
      | None \<Rightarrow> require (0 < num_prompt_tokens) RuntimeError
          (let t = replicate (num_prompt_tokens - 1) None in Inr (b\<lparr>lb_in_progress := dict_set r t (lb_in_progress b)\<rparr>, t)))"

definition lp_rows :: "(nat \<Rightarrow> 'h \<Rightarrow> nat \<Rightarrow> 'r) \<Rightarrow> nat \<Rightarrow> 'h lp_step \<Rightarrow> string \<Rightarrow> nat list \<Rightarrow> nat \<Rightarrow> nat \<Rightarrow> 'r list res" where
  "lp_rows score k s r prompt start_tok num_logits =
     bind_res (dict_at (ls_req_id_to_index s) r) (\<lambda>idx.
     bind_res (nth_res (ls_query_start_loc s) idx) (\<lambda>offset.
     let hs = take num_logits (drop offset (ls_hidden_states s)); targets = take num_logits (drop start_tok prompt)
     in require (length hs = length targets) RuntimeError (Inr (map2 (score k) hs targets))))"

definition lp_request ::
  "(nat \<Rightarrow> 'h \<Rightarrow> nat \<Rightarrow> 'r) \<Rightarrow> 'h lp_step \<Rightarrow> string \<times> nat \<Rightarrow> 'r lp_acc \<Rightarrow> 'r lp_acc res" where
  "lp_request score s rk acc = (case rk of (r, k) \<Rightarrow> case acc of (b, out, completed) \<Rightarrow>
     bind_res (dict_at (ls_num_scheduled_tokens s) r) (\<lambda>num_tokens.
     bind_res (dict_at (ls_requests s) r) (\<lambda>req.
     case lq_prompt_token_ids req of None \<Rightarrow> Inr (b, out, completed) | Some prompt \<Rightarrow>
     bind_res (lp_tensors r (length prompt) b) (\<lambda>(b, t).
     let start_idx = lq_num_computed_tokens req;
         num_remaining = int (length prompt) - int (start_idx + 1);
         last_chunk = (num_remaining < int num_tokens);
         num_logits = (if last_chunk then num_remaining else int num_tokens);
         completed = (if last_chunk then completed @ [r] else completed);
         out = (if last_chunk then dict_set r t out else out)
     in if num_logits \<le> 0
        then require (r \<in> set (dict_keys out)) KeyError (Inr (b, dict_pop r out, completed))
        else bind_res (lp_rows score k s r prompt (start_idx + 1) (nat num_logits)) (\<lambda>rows.
          require (length (take (nat num_logits) (drop start_idx t)) = length rows) RuntimeError
          (let t = take start_idx t @ map Some rows @ drop (start_idx + nat num_logits) t
           in Inr (b\<lparr>lb_in_progress := dict_set r t (lb_in_progress b)\<rparr>, (if last_chunk then dict_set r t out else out), completed)))))))"

definition lp_complete :: "string \<Rightarrow> 'r lp_batch \<Rightarrow> 'r lp_batch res" where
  "lp_complete r b =
     bind_res (dict_at (lb_num_prompt_logprobs b) r) (\<lambda>_.
     bind_res (dict_at (lb_in_progress b) r) (\<lambda>_.
     Inr (b\<lparr>lb_num_prompt_logprobs := dict_pop r (lb_num_prompt_logprobs b), lb_in_progress := dict_pop r (lb_in_progress b)\<rparr>)))"

definition get_prompt_logprobs_dict ::
  "(nat \<Rightarrow> 'h \<Rightarrow> nat \<Rightarrow> 'r) \<Rightarrow> 'h lp_step \<Rightarrow> 'r lp_batch \<Rightarrow> ('r lp_batch \<times> (string, 'r option list) dict) res" where
  "get_prompt_logprobs_dict score s b =
     (if lb_num_prompt_logprobs b = [] then Inr (b, [])
      else bind_res (fold_res (lp_request score s) (lb_num_prompt_logprobs b) (b, [], [])) (\<lambda>(b, out, completed).
           bind_res (fold_res lp_complete completed b) (\<lambda>b. Inr (b, out))))"

section \<open>The rows of a request\<close>

text \<open>
  \<open>h r i\<close> is the hidden state of position \<open>i\<close> of request \<open>r\<close>; the row of position \<open>i\<close> is that of the next
  token of the prompt.
\<close>

definition prompt_row :: "(nat \<Rightarrow> 'h \<Rightarrow> nat \<Rightarrow> 'r) \<Rightarrow> nat \<Rightarrow> (nat \<Rightarrow> 'h) \<Rightarrow> nat list \<Rightarrow> nat \<Rightarrow> 'r" where
  "prompt_row score k h prompt i = score k (h i) (prompt ! Suc i)"

definition filled :: "(nat \<Rightarrow> 'r) \<Rightarrow> nat \<Rightarrow> nat \<Rightarrow> 'r option list \<Rightarrow> bool" where
  "filled row n c t \<longleftrightarrow> length t = n \<and> (\<forall>i<c. t ! i = Some (row i))"

lemma filled_all: "filled row n n t \<Longrightarrow> t = map (\<lambda>i. Some (row i)) [0..<n]"
  by (auto simp: filled_def intro: nth_equalityI)

lemma filled_write:
  assumes "filled row n c t" "length rows = m" "c + m \<le> n" "\<And>j. j < m \<Longrightarrow> rows ! j = row (c + j)"
  shows "filled row n (c + m) (take c t @ map Some rows @ drop (c + m) t)"
  using assms by (auto simp: filled_def nth_append)

text \<open>A request with a prompt that runs in the step: the tokens before it are filled, its hidden states are in place.\<close>

definition runs_prompt ::
  "(nat \<Rightarrow> 'h \<Rightarrow> nat \<Rightarrow> 'r) \<Rightarrow> 'h lp_step \<Rightarrow> 'r lp_batch \<Rightarrow> (string \<Rightarrow> nat \<Rightarrow> 'h) \<Rightarrow> (string \<Rightarrow> nat list) \<Rightarrow> string \<times> nat \<Rightarrow> bool" where
  "runs_prompt score s b h prompt rk = (case rk of (r, k) \<Rightarrow>
     \<exists>req num_tokens idx offset. dict_get (ls_requests s) r = Some req \<and> lq_prompt_token_ids req = Some (prompt r)
       \<and> dict_get (ls_num_scheduled_tokens s) r = Some num_tokens \<and> 0 < num_tokens
       \<and> lq_num_computed_tokens req < length (prompt r)
       \<and> dict_get (ls_req_id_to_index s) r = Some idx \<and> idx < length (ls_query_start_loc s) \<and> ls_query_start_loc s ! idx = offset
       \<and> offset + num_tokens \<le> length (ls_hidden_states s)
       \<and> (\<forall>j<num_tokens. ls_hidden_states s ! (offset + j) = h r (lq_num_computed_tokens req + j))
       \<and> (case dict_get (lb_in_progress b) r of None \<Rightarrow> lq_num_computed_tokens req = 0
          | Some t \<Rightarrow> filled (prompt_row score k (h r) (prompt r)) (length (prompt r) - 1) (lq_num_computed_tokens req) t))"

definition start_of_request :: "'h lp_step \<Rightarrow> string \<Rightarrow> nat" where
  "start_of_request s r = (case dict_get (ls_requests s) r of None \<Rightarrow> 0 | Some req \<Rightarrow> lq_num_computed_tokens req)"

definition tokens_of_request :: "'h lp_step \<Rightarrow> string \<Rightarrow> nat" where
  "tokens_of_request s r = (case dict_get (ls_num_scheduled_tokens s) r of None \<Rightarrow> 0 | Some n \<Rightarrow> n)"

definition completes :: "'h lp_step \<Rightarrow> (string \<Rightarrow> nat list) \<Rightarrow> string \<Rightarrow> bool" where
  "completes s prompt r \<longleftrightarrow> length (prompt r) \<le> start_of_request s r + tokens_of_request s r"

definition ready_rows :: "'h lp_step \<Rightarrow> (string \<Rightarrow> nat list) \<Rightarrow> string \<Rightarrow> nat" where
  "ready_rows s prompt r = min (start_of_request s r + tokens_of_request s r) (length (prompt r) - 1)"

definition returns_rows :: "'h lp_step \<Rightarrow> (string \<Rightarrow> nat list) \<Rightarrow> string \<Rightarrow> bool" where
  "returns_rows s prompt r \<longleftrightarrow> completes s prompt r \<and> start_of_request s r + 1 < length (prompt r)"

lemma request_step:
  assumes "runs_prompt score s b0 h prompt (r, k)" "dict_get (lb_in_progress b) r = dict_get (lb_in_progress b0) r" "dict_get out r = None"
  shows "\<exists>b' t out'. lp_request score s (r, k) (b, out, completed) = Inr (b', out', if completes s prompt r then completed @ [r] else completed)
    \<and> lb_num_prompt_logprobs b' = lb_num_prompt_logprobs b \<and> dict_get (lb_in_progress b') = (dict_get (lb_in_progress b))(r \<mapsto> t)
    \<and> filled (prompt_row score k (h r) (prompt r)) (length (prompt r) - 1) (ready_rows s prompt r) t
    \<and> dict_get out' = (if returns_rows s prompt r then (dict_get out)(r \<mapsto> t) else dict_get out)"
proof -
  let ?P = "length (prompt r)" let ?row = "prompt_row score k (h r) (prompt r)"
  obtain req n idx where q: "dict_get (ls_requests s) r = Some req" "lq_prompt_token_ids req = Some (prompt r)"
    "dict_get (ls_num_scheduled_tokens s) r = Some n" "0 < n" "lq_num_computed_tokens req < ?P"
    "dict_get (ls_req_id_to_index s) r = Some idx" "idx < length (ls_query_start_loc s)"
    "ls_query_start_loc s ! idx + n \<le> length (ls_hidden_states s)"
    "\<forall>j<n. ls_hidden_states s ! (ls_query_start_loc s ! idx + j) = h r (lq_num_computed_tokens req + j)"
    "case dict_get (lb_in_progress b0) r of None \<Rightarrow> lq_num_computed_tokens req = 0
       | Some t \<Rightarrow> filled ?row (?P - 1) (lq_num_computed_tokens req) t"
    using assms(1) unfolding runs_prompt_def by auto
  let ?st = "lq_num_computed_tokens req" let ?off = "ls_query_start_loc s ! idx"
  have sr: "start_of_request s r = ?st" "tokens_of_request s r = n" using q by (simp_all add: start_of_request_def tokens_of_request_def)
  obtain b1 t where t: "lp_tensors r ?P b = Inr (b1, t)" "lb_num_prompt_logprobs b1 = lb_num_prompt_logprobs b"
      "dict_get (lb_in_progress b1) = (dict_get (lb_in_progress b))(r \<mapsto> t)" "filled ?row (?P - 1) ?st t"
  proof (cases "dict_get (lb_in_progress b) r")
    case None
    then have "?st = 0" using q(10) assms(2) by simp
    then show ?thesis using None q(5) that by (simp add: lp_tensors_def filled_def Let_def)
  next
    case (Some t)
    then have "filled ?row (?P - 1) ?st t" using q(10) assms(2) by simp
    then show ?thesis using Some that by (simp add: lp_tensors_def fun_upd_idem)
  qed
  define m where "m = (if completes s prompt r then ?P - 1 - ?st else n)"
  have last: "(int ?P - int (?st + 1) < int n) = completes s prompt r" by (simp add: completes_def sr) linarith
  have logits: "(if completes s prompt r then int ?P - int (?st + 1) else int n) = int m" using q(5) by (simp add: m_def)
  have ready: "?st + m = ready_rows s prompt r" "?st + m \<le> ?P - 1" "m \<le> n"
    using q(5) by (auto simp: m_def ready_rows_def sr completes_def)
  have ret: "returns_rows s prompt r \<longleftrightarrow> completes s prompt r \<and> m \<noteq> 0" using q(5) by (auto simp: returns_rows_def sr m_def)
  define out1 where "out1 = (if completes s prompt r then dict_set r t out else out)"
  define comp1 where "comp1 = (if completes s prompt r then completed @ [r] else completed)"
  have run: "lp_request score s (r, k) (b, out, completed) =
     (if int m \<le> 0 then require (r \<in> set (dict_keys out1)) KeyError (Inr (b1, dict_pop r out1, comp1))
      else bind_res (lp_rows score k s r (prompt r) (?st + 1) (nat (int m))) (\<lambda>rows.
        require (length (take (nat (int m)) (drop ?st t)) = length rows) RuntimeError
        (let t = take ?st t @ map Some rows @ drop (?st + nat (int m)) t
         in Inr (b1\<lparr>lb_in_progress := dict_set r t (lb_in_progress b1)\<rparr>, (if completes s prompt r then dict_set r t out1 else out1), comp1))))"
    unfolding lp_request_def prod.case dict_at_def q(1,3) option.case bind_res_simps q(2) t(1) Let_def last logits out1_def comp1_def ..
  show ?thesis
  proof (cases "m = 0")
    case True
    then have c: "completes s prompt r" using q(4) by (auto simp: m_def split: if_splits)
    then have "r \<in> set (dict_keys out1)" by (simp add: out1_def)
    moreover have "dict_get (dict_pop r out1) = dict_get out" using c assms(3) by (simp add: out1_def fun_upd_idem)
    ultimately show ?thesis using run True c t(2-4) ready ret by (auto simp: comp1_def)
  next
    case False
    let ?hs = "take m (drop ?off (ls_hidden_states s))" let ?ts = "take m (drop (?st + 1) (prompt r))"
    let ?rows = "map2 (score k) ?hs ?ts"
    have lens: "length ?hs = m" "length ?ts = m" using q(8) ready(2,3) False by auto
    have rows: "lp_rows score k s r (prompt r) (?st + 1) (nat (int m)) = Inr ?rows"
      using q(6,7) lens by (simp add: lp_rows_def dict_at_def Let_def)
    have "?rows ! j = ?row (?st + j)" if "j < m" for j
      using that lens q(9) ready by (simp add: prompt_row_def)
    then have f: "filled ?row (?P - 1) (?st + m) (take ?st t @ map Some ?rows @ drop (?st + m) t)"
      using filled_write[OF t(4), of ?rows m] lens ready(2) by simp
    have len: "length (take (nat (int m)) (drop ?st t)) = length ?rows" using t(4) lens ready(2) by (simp add: filled_def)
    let ?t = "take ?st t @ map Some ?rows @ drop (?st + m) t"
    have "lp_request score s (r, k) (b, out, completed) =
       Inr (b1\<lparr>lb_in_progress := dict_set r ?t (lb_in_progress b1)\<rparr>, (if completes s prompt r then dict_set r ?t out1 else out1), comp1)"
      unfolding run rows bind_res_simps len using False by (simp add: Let_def)
    then show ?thesis using f t(2,3) ready(1) ret False
      by (intro exI[of _ "b1\<lparr>lb_in_progress := dict_set r ?t (lb_in_progress b1)\<rparr>"] exI[of _ ?t]
          exI[of _ "if completes s prompt r then dict_set r ?t out1 else out1"]) (auto simp: out1_def comp1_def fun_eq_iff)
  qed
qed

lemma requests_fold:
  assumes "\<forall>rk\<in>set rks. runs_prompt score s b0 h prompt rk" "distinct (map fst rks)"
    and "\<forall>rk\<in>set rks. dict_get (lb_in_progress b) (fst rk) = dict_get (lb_in_progress b0) (fst rk) \<and> dict_get out (fst rk) = None"
  shows "\<exists>b' out' ts. fold_res (lp_request score s) rks (b, out, completed)
        = Inr (b', out', completed @ filter (completes s prompt) (map fst rks))
    \<and> lb_num_prompt_logprobs b' = lb_num_prompt_logprobs b
    \<and> (\<forall>r. r \<notin> fst ` set rks \<longrightarrow> dict_get (lb_in_progress b') r = dict_get (lb_in_progress b) r \<and> dict_get out' r = dict_get out r)
    \<and> (\<forall>(r, k)\<in>set rks. dict_get (lb_in_progress b') r = Some (ts r)
          \<and> filled (prompt_row score k (h r) (prompt r)) (length (prompt r) - 1) (ready_rows s prompt r) (ts r)
          \<and> dict_get out' r = (if returns_rows s prompt r then Some (ts r) else None))"
  using assms
proof (induction rks arbitrary: b out completed)
  case Nil
  then show ?case by auto
next
  case (Cons rk rks)
  obtain r k where rk: "rk = (r, k)" by force
  have "runs_prompt score s b0 h prompt (r, k)" "dict_get (lb_in_progress b) r = dict_get (lb_in_progress b0) r" "dict_get out r = None"
    using Cons.prems rk by auto
  from request_step[OF this, of completed] obtain b1 t out1 where step:
    "lp_request score s (r, k) (b, out, completed) = Inr (b1, out1, if completes s prompt r then completed @ [r] else completed)"
    "lb_num_prompt_logprobs b1 = lb_num_prompt_logprobs b" "dict_get (lb_in_progress b1) = (dict_get (lb_in_progress b))(r \<mapsto> t)"
    "filled (prompt_row score k (h r) (prompt r)) (length (prompt r) - 1) (ready_rows s prompt r) t"
    "dict_get out1 = (if returns_rows s prompt r then (dict_get out)(r \<mapsto> t) else dict_get out)" by blast
  have fresh: "r \<notin> fst ` set rks" using Cons.prems(2) rk by auto
  have "\<forall>rk\<in>set rks. dict_get (lb_in_progress b1) (fst rk) = dict_get (lb_in_progress b0) (fst rk) \<and> dict_get out1 (fst rk) = None"
    using Cons.prems(3) fresh step(3,5) by auto
  from Cons.IH[OF _ _ this, of "if completes s prompt r then completed @ [r] else completed"] Cons.prems(1,2) obtain b' out' ts where ih:
    "fold_res (lp_request score s) rks (b1, out1, if completes s prompt r then completed @ [r] else completed)
        = Inr (b', out', (if completes s prompt r then completed @ [r] else completed) @ filter (completes s prompt) (map fst rks))"
    "lb_num_prompt_logprobs b' = lb_num_prompt_logprobs b1"
    "\<forall>r. r \<notin> fst ` set rks \<longrightarrow> dict_get (lb_in_progress b') r = dict_get (lb_in_progress b1) r \<and> dict_get out' r = dict_get out1 r"
    "\<forall>(r, k)\<in>set rks. dict_get (lb_in_progress b') r = Some (ts r)
          \<and> filled (prompt_row score k (h r) (prompt r)) (length (prompt r) - 1) (ready_rows s prompt r) (ts r)
          \<and> dict_get out' r = (if returns_rows s prompt r then Some (ts r) else None)" by auto
  have none: "dict_get out r = None" using Cons.prems(3) rk by simp
  have here: "dict_get (lb_in_progress b') r = Some t" "dict_get out' r = (if returns_rows s prompt r then Some t else None)"
    using ih(3) fresh step(3,5) none by auto
  have all: "\<forall>(r', k')\<in>set (rk # rks). dict_get (lb_in_progress b') r' = Some ((ts(r := t)) r')
          \<and> filled (prompt_row score k' (h r') (prompt r')) (length (prompt r') - 1) (ready_rows s prompt r') ((ts(r := t)) r')
          \<and> dict_get out' r' = (if returns_rows s prompt r' then Some ((ts(r := t)) r') else None)"
    using ih(4) here step(4) fresh rk by (auto 0 3 simp: image_iff)
  have frame: "\<forall>r'. r' \<notin> fst ` set (rk # rks) \<longrightarrow> dict_get (lb_in_progress b') r' = dict_get (lb_in_progress b) r' \<and> dict_get out' r' = dict_get out r'"
    using ih(3) step(3,5) rk by auto
  have run: "fold_res (lp_request score s) (rk # rks) (b, out, completed)
        = Inr (b', out', completed @ filter (completes s prompt) (map fst (rk # rks)))"
    using step(1) ih(1) rk by simp
  show ?case
    by (intro exI[of _ b'] exI[of _ out'] exI[of _ "ts(r := t)"] conjI run frame all) (simp add: step(2) ih(2))
qed

lemma complete_fold:
  assumes "distinct rs" "\<forall>r\<in>set rs. dict_get (lb_num_prompt_logprobs b) r \<noteq> None \<and> dict_get (lb_in_progress b) r \<noteq> None"
  shows "\<exists>b'. fold_res lp_complete rs b = Inr b'
    \<and> dict_get (lb_num_prompt_logprobs b') = (\<lambda>r. if r \<in> set rs then None else dict_get (lb_num_prompt_logprobs b) r)
    \<and> dict_get (lb_in_progress b') = (\<lambda>r. if r \<in> set rs then None else dict_get (lb_in_progress b) r)"
  using assms
proof (induction rs arbitrary: b)
  case Nil
  then show ?case by simp
next
  case (Cons r rs)
  let ?b = "b\<lparr>lb_num_prompt_logprobs := dict_pop r (lb_num_prompt_logprobs b), lb_in_progress := dict_pop r (lb_in_progress b)\<rparr>"
  have "lp_complete r b = Inr ?b" using Cons.prems(2) by (auto simp: lp_complete_def dict_at_def)
  moreover have "\<forall>r'\<in>set rs. dict_get (lb_num_prompt_logprobs ?b) r' \<noteq> None \<and> dict_get (lb_in_progress ?b) r' \<noteq> None"
    using Cons.prems by auto
  moreover have "distinct rs" using Cons.prems(1) by simp
  moreover note Cons.IH[of ?b]
  ultimately show ?case by (auto simp: fun_eq_iff)
qed

lemma rows_of_step:
  assumes "\<forall>rk\<in>set (lb_num_prompt_logprobs b). runs_prompt score s b h prompt rk" "distinct (dict_keys (lb_num_prompt_logprobs b))"
  shows "\<exists>b' out. get_prompt_logprobs_dict score s b = Inr (b', out)
    \<and> (\<forall>(r, k)\<in>set (lb_num_prompt_logprobs b).
         dict_get (lb_num_prompt_logprobs b') r = (if completes s prompt r then None else Some k)
       \<and> (case dict_get (lb_in_progress b') r of
            None \<Rightarrow> completes s prompt r
          | Some t \<Rightarrow> \<not> completes s prompt r
              \<and> filled (prompt_row score k (h r) (prompt r)) (length (prompt r) - 1) (start_of_request s r + tokens_of_request s r) t)
       \<and> dict_get out r = (if completes s prompt r \<and> start_of_request s r + 1 < length (prompt r)
            then Some (map (\<lambda>i. Some (prompt_row score k (h r) (prompt r) i)) [0..<length (prompt r) - 1]) else None))"
proof (cases "lb_num_prompt_logprobs b = []")
  case True
  then show ?thesis by (simp add: get_prompt_logprobs_dict_def)
next
  case False
  let ?rks = "lb_num_prompt_logprobs b" let ?done = "filter (completes s prompt) (map fst ?rks)"
  have keys: "dict_get ?rks r = Some k" if "(r, k) \<in> set ?rks" for r k using that assms(2) by simp
  obtain b1 out ts where f: "fold_res (lp_request score s) ?rks (b, [], []) = Inr (b1, out, ?done)"
    "lb_num_prompt_logprobs b1 = ?rks"
    "\<forall>(r, k)\<in>set ?rks. dict_get (lb_in_progress b1) r = Some (ts r)
          \<and> filled (prompt_row score k (h r) (prompt r)) (length (prompt r) - 1) (ready_rows s prompt r) (ts r)
          \<and> dict_get out r = (if returns_rows s prompt r then Some (ts r) else None)"
    using requests_fold[OF assms(1), of b "[]" "[]"] assms(2) by auto
  have "\<forall>r\<in>set ?done. dict_get (lb_num_prompt_logprobs b1) r \<noteq> None \<and> dict_get (lb_in_progress b1) r \<noteq> None"
    using f(2,3) keys by fastforce
  moreover have "distinct ?done" using assms(2) by simp
  ultimately obtain b' where c: "fold_res lp_complete ?done b1 = Inr b'"
    "dict_get (lb_num_prompt_logprobs b') = (\<lambda>r. if r \<in> set ?done then None else dict_get ?rks r)"
    "dict_get (lb_in_progress b') = (\<lambda>r. if r \<in> set ?done then None else dict_get (lb_in_progress b1) r)"
    using complete_fold[of ?done b1] unfolding f(2) by blast
  have run: "get_prompt_logprobs_dict score s b = Inr (b', out)" using False f(1) c(1) by (simp add: get_prompt_logprobs_dict_def)
  have "dict_get (lb_num_prompt_logprobs b') r = (if completes s prompt r then None else Some k)
       \<and> (case dict_get (lb_in_progress b') r of
            None \<Rightarrow> completes s prompt r
          | Some t \<Rightarrow> \<not> completes s prompt r
              \<and> filled (prompt_row score k (h r) (prompt r)) (length (prompt r) - 1) (start_of_request s r + tokens_of_request s r) t)
       \<and> dict_get out r = (if completes s prompt r \<and> start_of_request s r + 1 < length (prompt r)
            then Some (map (\<lambda>i. Some (prompt_row score k (h r) (prompt r) i)) [0..<length (prompt r) - 1]) else None)"
    if rk: "(r, k) \<in> set ?rks" for r k
  proof -
    have t: "dict_get (lb_in_progress b1) r = Some (ts r)"
      "filled (prompt_row score k (h r) (prompt r)) (length (prompt r) - 1) (ready_rows s prompt r) (ts r)"
      "dict_get out r = (if returns_rows s prompt r then Some (ts r) else None)" using f(3) rk by auto
    have m: "r \<in> set ?done \<longleftrightarrow> completes s prompt r" using rk by force
    show ?thesis
    proof (cases "completes s prompt r")
      case True
      then have "ready_rows s prompt r = length (prompt r) - 1" by (auto simp: ready_rows_def completes_def)
      then show ?thesis using True m t c(2,3) filled_all[of "prompt_row score k (h r) (prompt r)" "length (prompt r) - 1" "ts r"]
        by (auto simp: returns_rows_def)
    next
      case False
      then have "ready_rows s prompt r = start_of_request s r + tokens_of_request s r" by (auto simp: ready_rows_def completes_def)
      then show ?thesis using False m t c(2,3) keys[OF rk] by (auto simp: returns_rows_def)
    qed
  qed
  then show ?thesis using run by blast
qed

text \<open>
  The log probabilities of prompts in a step: every request whose prompt goes on stays in progress with the
  rows of all tokens up to the step; a request whose prompt is complete is removed, and its rows are returned,
  all of them, exactly when the step computed at least one of them.
\<close>

theorem prompt_logprobs_step:
  assumes "\<forall>rk\<in>set (lb_num_prompt_logprobs b). runs_prompt score s b h prompt rk" "distinct (dict_keys (lb_num_prompt_logprobs b))"
  shows "\<exists>b' out. get_prompt_logprobs_dict score s b = Inr (b', out)
    \<and> (\<forall>(r, k)\<in>set (lb_num_prompt_logprobs b).
         dict_get (lb_num_prompt_logprobs b') r = (if completes s prompt r then None else Some k)
       \<and> (case dict_get (lb_in_progress b') r of
            None \<Rightarrow> completes s prompt r
          | Some t \<Rightarrow> \<not> completes s prompt r
              \<and> filled (prompt_row score k (h r) (prompt r)) (length (prompt r) - 1) (start_of_request s r + tokens_of_request s r) t)
       \<and> dict_get out r = (if completes s prompt r \<and> start_of_request s r + 1 < length (prompt r)
            then Some (map (\<lambda>i. Some (prompt_row score k (h r) (prompt r) i)) [0..<length (prompt r) - 1]) else None))"
  by (rule rows_of_step[OF assms])

section \<open>A prompt in chunks\<close>

text \<open>
  The steps of one request whose prompt runs in chunks of the given sizes, alone in the batch; the results are
  the returned dictionaries.
\<close>

definition chunk_step :: "(nat \<Rightarrow> 'h) \<Rightarrow> string \<Rightarrow> nat list \<Rightarrow> nat \<Rightarrow> nat \<Rightarrow> 'h lp_step" where
  "chunk_step h r prompt st n = \<lparr>ls_requests = [(r, \<lparr>lq_prompt_token_ids = Some prompt, lq_num_computed_tokens = st\<rparr>)],
     ls_num_scheduled_tokens = [(r, n)], ls_req_id_to_index = [(r, 0)], ls_query_start_loc = [0, n],
     ls_hidden_states = map h [st..<st + n]\<rparr>"

fun run_chunks ::
  "(nat \<Rightarrow> 'h \<Rightarrow> nat \<Rightarrow> 'r) \<Rightarrow> (nat \<Rightarrow> 'h) \<Rightarrow> string \<Rightarrow> nat list \<Rightarrow> nat \<Rightarrow> nat list \<Rightarrow> 'r lp_batch \<Rightarrow> (string, 'r option list) dict list res" where
  "run_chunks score h r prompt st [] b = Inr []"
| "run_chunks score h r prompt st (n # ns) b =
     bind_res (get_prompt_logprobs_dict score (chunk_step h r prompt st n) b) (\<lambda>(b, out).
     bind_res (run_chunks score h r prompt (st + n) ns b) (\<lambda>outs. Inr (out # outs)))"

lemma chunk_runs:
  assumes "0 < n" "st < length prompt"
    and "case dict_get (lb_in_progress b) r of None \<Rightarrow> st = 0 | Some t \<Rightarrow> filled (prompt_row score k h prompt) (length prompt - 1) st t"
  shows "runs_prompt score (chunk_step h r prompt st n) b (\<lambda>_. h) (\<lambda>_. prompt) (r, k)"
  using assms by (auto simp: runs_prompt_def chunk_step_def split: option.splits)

lemma chunk_once:
  fixes score :: "nat \<Rightarrow> 'h \<Rightarrow> nat \<Rightarrow> 'r"
  assumes "0 < n" "st < length prompt" "lb_num_prompt_logprobs b = [(r, k)]"
    and "case dict_get (lb_in_progress b) r of None \<Rightarrow> st = 0 | Some t \<Rightarrow> filled (prompt_row score k h prompt) (length prompt - 1) st t"
  shows "\<exists>b' out. get_prompt_logprobs_dict score (chunk_step h r prompt st n) b = Inr (b', out)
    \<and> (st + n < length prompt \<longrightarrow> lb_num_prompt_logprobs b' = [(r, k)] \<and> (\<exists>t. dict_get (lb_in_progress b') r = Some t
          \<and> filled (prompt_row score k h prompt) (length prompt - 1) (st + n) t))
    \<and> dict_get out r = (if length prompt \<le> st + n \<and> st + 1 < length prompt
            then Some (map (\<lambda>i. Some (prompt_row score k h prompt i)) [0..<length prompt - 1]) else None)"
proof -
  let ?s = "chunk_step h r prompt st n"
  note runs = chunk_runs[OF assms(1,2,4)]
  have all: "\<forall>rk\<in>set (lb_num_prompt_logprobs b). runs_prompt score ?s b (\<lambda>_. h) (\<lambda>_. prompt) rk" using runs assms(3) by simp
  have sr: "start_of_request ?s r = st" "tokens_of_request ?s r = n" by (simp_all add: chunk_step_def start_of_request_def tokens_of_request_def)
  have c: "completes ?s (\<lambda>_. prompt) r \<longleftrightarrow> length prompt \<le> st + n" by (simp add: completes_def sr)
  obtain b' out where step: "get_prompt_logprobs_dict score ?s b = Inr (b', out)"
    "case dict_get (lb_in_progress b') r of None \<Rightarrow> completes ?s (\<lambda>_. prompt) r
      | Some t \<Rightarrow> \<not> completes ?s (\<lambda>_. prompt) r \<and> filled (prompt_row score k h prompt) (length prompt - 1) (st + n) t"
    "dict_get out r = (if completes ?s (\<lambda>_. prompt) r \<and> st + 1 < length prompt
            then Some (map (\<lambda>i. Some (prompt_row score k h prompt i)) [0..<length prompt - 1]) else None)"
  proof -
    obtain b' out where a: "get_prompt_logprobs_dict score ?s b = Inr (b', out)"
      "\<forall>(r, k)\<in>set (lb_num_prompt_logprobs b).
         dict_get (lb_num_prompt_logprobs b') r = (if completes ?s (\<lambda>_. prompt) r then None else Some k)
       \<and> (case dict_get (lb_in_progress b') r of
            None \<Rightarrow> completes ?s (\<lambda>_. prompt) r
          | Some t \<Rightarrow> \<not> completes ?s (\<lambda>_. prompt) r
              \<and> filled (prompt_row score k h prompt) (length prompt - 1) (start_of_request ?s r + tokens_of_request ?s r) t)
       \<and> dict_get out r = (if completes ?s (\<lambda>_. prompt) r \<and> start_of_request ?s r + 1 < length prompt
            then Some (map (\<lambda>i. Some (prompt_row score k h prompt i)) [0..<length prompt - 1]) else None)"
      using rows_of_step[OF all] assms(3) by auto
    have "(r, k) \<in> set (lb_num_prompt_logprobs b)" using assms(3) by simp
    note bspec[OF a(2) this, unfolded prod.case sr]
    then show ?thesis using that a(1) by blast
  qed
  have "lb_num_prompt_logprobs b' = [(r, k)]" if lt: "st + n < length prompt"
  proof -
    obtain b1 out1 where "fold_res (lp_request score ?s) [(r, k)] (b, [], []) = Inr (b1, out1, [])" "lb_num_prompt_logprobs b1 = [(r, k)]"
      using requests_fold[of "[(r, k)]" score ?s b "\<lambda>_. h" "\<lambda>_. prompt" b "[]" "[]"] runs lt c assms(3) by auto
    then show ?thesis using step(1) assms(3) by (simp add: get_prompt_logprobs_dict_def)
  qed
  then show ?thesis using step c by (auto split: option.splits)
qed

text \<open>
  C31. The log probabilities of a prompt that runs in chunks are returned with the last chunk, and only when
  it computes one of them: when the chunks before it end one token before the end of the prompt, no step
  returns them, although all of them were computed.
\<close>

theorem chunked_prompt_logprobs:
  assumes "\<forall>m\<in>set ms. 0 < m" "0 < n" "sum_list ms < length prompt" "length prompt \<le> sum_list ms + n"
  shows "\<exists>outs. run_chunks score h r prompt 0 (ms @ [n]) \<lparr>lb_num_prompt_logprobs = [(r, k)], lb_in_progress = []\<rparr> = Inr outs
    \<and> map (\<lambda>out. dict_get out r) outs = replicate (length ms) None @
        [if sum_list ms = length prompt - 1 then None else Some (map (\<lambda>i. Some (score k (h i) (prompt ! Suc i))) [0..<length prompt - 1])]"
proof -
  have "\<exists>outs. run_chunks score h r prompt st (ms @ [n]) b = Inr outs
    \<and> map (\<lambda>out. dict_get out r) outs = replicate (length ms) None @
        [if st + sum_list ms = length prompt - 1 then None else Some (map (\<lambda>i. Some (prompt_row score k h prompt i)) [0..<length prompt - 1])]"
    if "lb_num_prompt_logprobs b = [(r, k)]" "st + sum_list ms < length prompt" "length prompt \<le> st + sum_list ms + n" "\<forall>m\<in>set ms. 0 < m"
      "case dict_get (lb_in_progress b) r of None \<Rightarrow> st = 0 | Some t \<Rightarrow> filled (prompt_row score k h prompt) (length prompt - 1) st t"
    for b st
    using that
  proof (induction ms arbitrary: b st)
    case Nil
    then obtain b' out where "get_prompt_logprobs_dict score (chunk_step h r prompt st n) b = Inr (b', out)"
      "dict_get out r = (if length prompt \<le> st + n \<and> st + 1 < length prompt
            then Some (map (\<lambda>i. Some (prompt_row score k h prompt i)) [0..<length prompt - 1]) else None)"
      using chunk_once[OF assms(2) _ Nil(1,5)] by auto
    then show ?case using Nil by auto
  next
    case (Cons m ms)
    have st: "st < length prompt" "0 < m" "st + m < length prompt" using Cons.prems by auto
    obtain b' out t where step: "get_prompt_logprobs_dict score (chunk_step h r prompt st m) b = Inr (b', out)"
      "lb_num_prompt_logprobs b' = [(r, k)]" "dict_get (lb_in_progress b') r = Some t"
      "filled (prompt_row score k h prompt) (length prompt - 1) (st + m) t" "dict_get out r = None"
      using chunk_once[OF st(2,1) Cons.prems(1,5)] st(3) by auto
    from Cons.IH[OF step(2), of "st + m"] Cons.prems step(3,4) obtain outs where
      "run_chunks score h r prompt (st + m) (ms @ [n]) b' = Inr outs"
      "map (\<lambda>out. dict_get out r) outs = replicate (length ms) None @
        [if st + m + sum_list ms = length prompt - 1 then None else Some (map (\<lambda>i. Some (prompt_row score k h prompt i)) [0..<length prompt - 1])]"
      by (auto simp: add.assoc)
    then show ?case using step(1,5) by (auto simp: add.assoc)
  qed
  from this[of "\<lparr>lb_num_prompt_logprobs = [(r, k)], lb_in_progress = []\<rparr>" 0] assms show ?thesis
    unfolding prompt_row_def by simp
qed

section \<open>Examples\<close>

lemma prompt_logprobs_step_witness:
  "\<exists>b' out. get_prompt_logprobs_dict (\<lambda>k x t. (k, x, t)) (chunk_step (\<lambda>i. 10 * i) ''r'' [5, 6, 7] 0 (4 :: nat))
       \<lparr>lb_num_prompt_logprobs = [(''r'', 2)], lb_in_progress = []\<rparr> = Inr (b', out)
     \<and> dict_get out ''r'' = Some [Some (2, 0 :: nat, 6), Some (2, 10, 7)]"
proof -
  let ?b = "\<lparr>lb_num_prompt_logprobs = [(''r'', 2)], lb_in_progress = []\<rparr> :: (nat \<times> nat \<times> nat) lp_batch"
  have runs: "\<forall>rk\<in>set (lb_num_prompt_logprobs ?b). runs_prompt (\<lambda>k x t. (k, x, t)) (chunk_step (\<lambda>i. 10 * i) ''r'' [5, 6, 7] 0 4) ?b
      (\<lambda>_ i. 10 * i) (\<lambda>_. [5, 6, 7]) rk"
    using chunk_runs[where n = 4 and st = 0 and prompt = "[5, 6, 7]" and b = ?b and r = "''r''" and score = "\<lambda>k x t. (k, x, t)"
      and h = "\<lambda>i. 10 * i" and k = 2] by simp
  show ?thesis
    using prompt_logprobs_step[OF runs]
    by (auto simp: completes_def start_of_request_def tokens_of_request_def chunk_step_def prompt_row_def eval_nat_numeral)
qed

lemma chunked_prompt_logprobs_witness:
  "\<exists>outs. run_chunks (\<lambda>k x t. (k, x, t)) (\<lambda>i. 10 * i) ''r'' [5, 6, 7 :: nat] 0 ([2] @ [1 :: nat])
       \<lparr>lb_num_prompt_logprobs = [(''r'', 2)], lb_in_progress = []\<rparr> = Inr outs
     \<and> map (\<lambda>out. dict_get out ''r'') outs = [None, None :: (nat \<times> nat \<times> nat) option list option]"
  using chunked_prompt_logprobs[where ms = "[2]" and n = 1 and prompt = "[5, 6, 7]" and score = "\<lambda>k x t. (k, x, t)"
      and h = "\<lambda>i. 10 * i" and r = "''r''" and k = 2] by simp

end
