(* ===== verification/RayWorkers.thy ===== *)
theory RayWorkers
  imports Prelude "HOL-Library.Product_Lexorder" "HOL-Library.List_Lexorder" "HOL-Library.Char_ord"
begin

text \<open>
  The workers of the Ray executor (\<open>_init_workers_ray\<close> in
  \<^verbatim>\<open>vllm_mlu/v1/executor/ray_executor.py\<close>): the bundles they are placed on, the order of their
  ranks, the devices and local ranks on every node, and the grid of pipeline and tensor ranks. What Ray
  reports of a placed worker (its address, its node and its devices) is data of the worker; the remote calls,
  the copied environment variables and the options of the profiler are left out.
\<close>

section \<open>Placing the workers\<close>

definition bundles_of :: "int list option \<Rightarrow> int list \<Rightarrow> nat \<Rightarrow> int list res" where
  "bundles_of user_indices device_counts world_size =
     (case user_indices of
        Some xs \<Rightarrow> require (length xs = world_size) AssertionError (require (distinct xs) AssertionError (Inr xs))
      | None \<Rightarrow> Inr (take world_size (map (\<lambda>(i, n). int i) (filter (\<lambda>(i, n). n \<noteq> 0) (zip [0..<length device_counts] device_counts)))))"

record ray_worker =
  rw_created_rank :: nat
  rw_ip :: string
  rw_node_id :: string
  rw_device_ids :: "int list"

section \<open>Order of the ranks\<close>

definition ip_counts :: "string list \<Rightarrow> (string, nat) dict" where
  "ip_counts ips = fold (\<lambda>ip d. dict_set ip ((case dict_get d ip of None \<Rightarrow> 0 | Some n \<Rightarrow> n) + 1) d) ips []"

definition rank_key :: "string \<Rightarrow> (string, nat) dict \<Rightarrow> ray_worker \<Rightarrow> nat \<times> nat \<times> string" where
  "rank_key driver_ip counts w =
     (if rw_ip w = driver_ip then 0 else 1, case dict_get counts (rw_ip w) of None \<Rightarrow> 0 | Some n \<Rightarrow> n, rw_ip w)"

definition sorted_workers :: "string \<Rightarrow> ray_worker list \<Rightarrow> ray_worker list" where
  "sorted_workers driver_ip ws = sort_key (rank_key driver_ip (ip_counts (map rw_ip ws))) ws"

definition rerank_mapping :: "ray_worker list \<Rightarrow> (nat, nat) dict" where
  "rerank_mapping ws = fold (\<lambda>(i, w). dict_set (rw_created_rank w) i) (zip [0..<length ws] ws) []"

section \<open>Nodes\<close>

text \<open>\<open>d[k].extend(xs)\<close> on a \<open>defaultdict(list)\<close>.\<close>

definition dict_extend :: "'k \<Rightarrow> 'a list \<Rightarrow> ('k, 'a list) dict \<Rightarrow> ('k, 'a list) dict" where
  "dict_extend k xs d = dict_set k ((case dict_get d k of None \<Rightarrow> [] | Some ys \<Rightarrow> ys) @ xs) d"

definition node_workers :: "ray_worker list \<Rightarrow> (string, nat list) dict" where
  "node_workers ws = fold (\<lambda>(i, w). dict_extend (rw_node_id w) [i]) (zip [0..<length ws] ws) []"

definition node_devices :: "ray_worker list \<Rightarrow> (string, int list) dict" where
  "node_devices ws = map (\<lambda>(n, ids). (n, sort ids)) (fold (\<lambda>w. dict_extend (rw_node_id w) (rw_device_ids w)) ws [])"

record worker_args =
  wa_visible_devices :: "int list"
  wa_local_rank :: nat
  wa_rank :: nat
  wa_is_driver_worker :: bool

record ray_layout =
  rl_workers :: "ray_worker list"
  rl_rerank_mapping :: "(nat, nat) dict"
  rl_args :: "worker_args list"
  rl_driver_ip :: string
  rl_pp_tp_workers :: "ray_worker list list"

text \<open>\<open>xs.index(x)\<close>\<close>

definition index_of :: "'a \<Rightarrow> 'a list \<Rightarrow> nat res" where
  "index_of x xs = (if x \<in> set xs then Inr (length (takeWhile (\<lambda>y. y \<noteq> x) xs)) else Inl ValueError)"

definition args_of :: "ray_worker list \<Rightarrow> nat \<Rightarrow> nat \<Rightarrow> worker_args res" where
  "args_of ws tp_size rank =
     bind_res (nth_res ws rank) (\<lambda>w.
     bind_res (dict_at (node_devices ws) (rw_node_id w)) (\<lambda>devices.
     bind_res (dict_at (node_workers ws) (rw_node_id w)) (\<lambda>ranks.
     bind_res (index_of rank ranks) (\<lambda>local_rank.
     require (tp_size \<noteq> 0) ZeroDivisionError
       (Inr \<lparr>wa_visible_devices = devices, wa_local_rank = local_rank, wa_rank = rank,
             wa_is_driver_worker = (rank mod tp_size = 0)\<rparr>)))))"

definition init_workers_ray :: "string \<Rightarrow> nat \<Rightarrow> nat \<Rightarrow> ray_worker list \<Rightarrow> ray_layout res" where
  "init_workers_ray driver_ip pp_size tp_size created =
     (let ws = sorted_workers driver_ip created
      in require (length (node_workers ws) = card (set (map rw_ip created @ [driver_ip]))) RuntimeError
        (bind_res (map_res (args_of ws tp_size) [0..<length ws]) (\<lambda>args.
         bind_res (map_res (\<lambda>pp. map_res (\<lambda>tp. nth_res ws (pp * tp_size + tp)) [0..<tp_size]) [0..<pp_size]) (\<lambda>grid.
         Inr \<lparr>rl_workers = ws, rl_rerank_mapping = rerank_mapping ws, rl_args = args,
              rl_driver_ip = (if length (node_devices ws) = 1 then ''127.0.0.1'' else driver_ip),
              rl_pp_tp_workers = grid\<rparr>))))"

section \<open>Counting and grouping\<close>

lemma ip_counts_get:
  "dict_get (fold (\<lambda>ip d. dict_set ip ((case dict_get d ip of None \<Rightarrow> 0 | Some n \<Rightarrow> n) + 1) d) ips d) ip
    = (if ip \<in> set ips then Some ((case dict_get d ip of None \<Rightarrow> 0 | Some n \<Rightarrow> n) + count_list ips ip) else dict_get d ip)"
  by (induction ips arbitrary: d) (auto split: option.splits)

lemma grouped_get:
  "dict_get (fold (\<lambda>x. dict_extend (f x) (g x)) xs d) n
    = (if \<exists>x\<in>set xs. f x = n then Some ((case dict_get d n of None \<Rightarrow> [] | Some ys \<Rightarrow> ys) @ concat (map g (filter (\<lambda>x. f x = n) xs)))
       else dict_get d n)"
  by (induction xs arbitrary: d) (auto simp: dict_extend_def split: option.splits)

lemma grouped_keys:
  "set (dict_keys (fold (\<lambda>x. dict_extend (f x) (g x)) xs d)) = f ` set xs \<union> set (dict_keys d)"
  "distinct (dict_keys d) \<Longrightarrow> distinct (dict_keys (fold (\<lambda>x. dict_extend (f x) (g x)) xs d))"
  by (induction xs arbitrary: d) (auto simp: dict_extend_def simp del: set_map)

lemma zip_positions: "zip [0..<length xs] xs = map (\<lambda>i. (i, xs ! i)) [0..<length xs]"
  by (rule nth_equalityI) simp_all

lemma node_workers_get:
  assumes "i < length ws"
  shows "dict_get (node_workers ws) (rw_node_id (ws ! i))
    = Some (filter (\<lambda>j. rw_node_id (ws ! j) = rw_node_id (ws ! i)) [0..<length ws])"
proof -
  have "dict_get (node_workers ws) n = (if \<exists>j<length ws. rw_node_id (ws ! j) = n
      then Some (filter (\<lambda>j. rw_node_id (ws ! j) = n) [0..<length ws]) else None)" for n
    unfolding node_workers_def case_prod_unfold zip_positions grouped_get
    by (auto simp: filter_map comp_def)
  then show ?thesis using assms by auto
qed

lemma node_workers_length: "length (node_workers ws) = card (rw_node_id ` set ws)"
proof -
  have "(\<lambda>x. rw_node_id (snd x)) ` set (map (\<lambda>i. (i, ws ! i)) [0..<length ws]) = rw_node_id ` set ws"
    by (force simp: image_image set_conv_nth)
  then have "set (dict_keys (node_workers ws)) = rw_node_id ` set ws" "distinct (dict_keys (node_workers ws))"
    unfolding node_workers_def case_prod_unfold zip_positions by (simp_all add: grouped_keys del: set_map)
  then show ?thesis by (metis distinct_card length_map)
qed

lemma node_devices_get:
  assumes "w \<in> set ws"
  shows "dict_get (node_devices ws) (rw_node_id w)
    = Some (sort (concat (map rw_device_ids (filter (\<lambda>v. rw_node_id v = rw_node_id w) ws))))"
  using assms unfolding node_devices_def by (auto simp: map_of_map grouped_get)

lemma index_of_filter:
  assumes "i < n" "P i"
  shows "index_of i (filter P [0..<n]) = Inr (length (filter P [0..<i]))"
proof -
  have "[0..<n] = [0..<i] @ i # [Suc i..<n]" using assms(1) by (metis less_imp_add_positive upt_add_eq_append upt_conv_Cons le0 add.commute less_imp_le_nat le_add_diff_inverse)
  moreover have "takeWhile (\<lambda>j. j \<noteq> i) (filter P [0..<i] @ ys) = filter P [0..<i] @ takeWhile (\<lambda>j. j \<noteq> i) ys" for ys
    by (rule takeWhile_append2) auto
  ultimately have "takeWhile (\<lambda>j. j \<noteq> i) (filter P [0..<n]) = filter P [0..<i]" using assms(2) by simp
  then show ?thesis using assms by (simp add: index_of_def)
qed

lemma card_image_agree:
  assumes "\<forall>x\<in>S. \<forall>y\<in>S. f x = f y \<longleftrightarrow> g x = g y"
  shows "card (f ` S) = card (g ` S)"
proof -
  let ?h = "\<lambda>x. (f x, g x)"
  have "inj_on fst (?h ` S)" "inj_on snd (?h ` S)" using assms by (auto simp: inj_on_def)
  then have "card (fst ` ?h ` S) = card (snd ` ?h ` S)" by (simp only: card_image)
  then show ?thesis by (simp add: image_image)
qed

lemma rerank_get:
  assumes "distinct (map rw_created_rank ws)" "i < length ws"
  shows "dict_get (rerank_mapping ws) (rw_created_rank (ws ! i)) = Some i"
proof -
  have "dict_get (fold (\<lambda>x. dict_set (f x) (fst x)) xs d) k = (case find (\<lambda>x. f x = k) (rev xs) of None \<Rightarrow> dict_get d k | Some x \<Rightarrow> Some (fst x))"
    for f :: "nat \<times> ray_worker \<Rightarrow> nat" and xs d k
    by (induction xs rule: rev_induct) auto
  note get = this
  have "find (\<lambda>x. rw_created_rank (snd x) = rw_created_rank (ws ! i)) (rev (zip [0..<length ws] ws)) = Some (i, ws ! i)"
  proof -
    have mem: "(i, ws ! i) \<in> set (zip [0..<length ws] ws)" using assms(2) by (force simp: set_zip)
    then obtain x where x: "find (\<lambda>x. rw_created_rank (snd x) = rw_created_rank (ws ! i)) (rev (zip [0..<length ws] ws)) = Some x"
      by (cases "find (\<lambda>x. rw_created_rank (snd x) = rw_created_rank (ws ! i)) (rev (zip [0..<length ws] ws))")
        (auto simp: find_None_iff)
    then obtain j where "j < length ws" "x = (j, ws ! j)" "rw_created_rank (ws ! j) = rw_created_rank (ws ! i)"
      by (auto simp: find_Some_iff rev_nth)
    then show ?thesis using x assms nth_eq_iff_index_eq[OF assms(1), of j i] by simp
  qed
  then show ?thesis by (simp add: rerank_mapping_def case_prod_unfold get)
qed

section \<open>Ranks follow the nodes\<close>

lemma mset_sorted_workers: "mset (sorted_workers ip ws) = mset ws"
  by (simp add: sorted_workers_def)

lemma set_sorted_workers [simp]: "set (sorted_workers ip ws) = set ws"
  by (simp add: sorted_workers_def)

lemma length_sorted_workers [simp]: "length (sorted_workers ip ws) = length ws"
  by (simp add: sorted_workers_def)

text \<open>Nodes and addresses correspond.\<close>

definition one_ip_per_node :: "ray_worker list \<Rightarrow> bool" where
  "one_ip_per_node ws \<longleftrightarrow> (\<forall>v\<in>set ws. \<forall>w\<in>set ws. rw_node_id v = rw_node_id w \<longleftrightarrow> rw_ip v = rw_ip w)"

lemma keys_sorted:
  assumes "i \<le> j" "j < length ws"
  shows "rank_key ip (ip_counts (map rw_ip ws)) (sorted_workers ip ws ! i) \<le> rank_key ip (ip_counts (map rw_ip ws)) (sorted_workers ip ws ! j)"
proof -
  let ?f = "rank_key ip (ip_counts (map rw_ip ws))"
  have "sorted (map ?f (sorted_workers ip ws))" by (simp add: sorted_workers_def)
  from sorted_nth_mono[OF this assms(1)] assms show ?thesis by simp
qed

text \<open>
  C32. The ranks follow the nodes: with one address per node, a worker on the node of the driver and enough
  workers for the grid, the setup returns; the workers are the created ones, each at the rank that the mapping
  gives to its created rank; the workers of a node have consecutive ranks those of the driver's node the
  first ones, then nodes with fewer workers before nodes with more; the local rank of a worker is the number of workers of its node before it, its visible devices are
  the sorted devices of all workers of its node, and the grid holds the workers in the order of their ranks.
\<close>

theorem ranks_follow_nodes:
  assumes nodes: "one_ip_per_node created" and driver: "driver_ip \<in> rw_ip ` set created" and tp: "0 < tp_size"
    and enough: "pp_size * tp_size \<le> length created" and created: "distinct (map rw_created_rank created)"
  shows "\<exists>l. init_workers_ray driver_ip pp_size tp_size created = Inr l
    \<and> mset (rl_workers l) = mset created
    \<and> (\<forall>i<length created. dict_get (rl_rerank_mapping l) (rw_created_rank (rl_workers l ! i)) = Some i)
    \<and> (\<forall>i j k. i \<le> j \<and> j \<le> k \<and> k < length created \<and> rw_ip (rl_workers l ! i) = rw_ip (rl_workers l ! k)
          \<longrightarrow> rw_ip (rl_workers l ! j) = rw_ip (rl_workers l ! i))
    \<and> (\<forall>i j. i \<le> j \<and> j < length created \<and> rw_ip (rl_workers l ! j) = driver_ip \<longrightarrow> rw_ip (rl_workers l ! i) = driver_ip)
    \<and> (\<forall>i j. i \<le> j \<and> j < length created \<and> rw_ip (rl_workers l ! i) \<noteq> driver_ip
          \<longrightarrow> count_list (map rw_ip created) (rw_ip (rl_workers l ! i)) \<le> count_list (map rw_ip created) (rw_ip (rl_workers l ! j)))
    \<and> (\<forall>i<length created. wa_rank (rl_args l ! i) = i
        \<and> wa_local_rank (rl_args l ! i) = length (filter (\<lambda>j. rw_node_id (rl_workers l ! j) = rw_node_id (rl_workers l ! i)) [0..<i])
        \<and> wa_visible_devices (rl_args l ! i)
            = sort (concat (map rw_device_ids (filter (\<lambda>v. rw_node_id v = rw_node_id (rl_workers l ! i)) (rl_workers l)))))
    \<and> rl_pp_tp_workers l = map (\<lambda>pp. map (\<lambda>tp. rl_workers l ! (pp * tp_size + tp)) [0..<tp_size]) [0..<pp_size]"
proof -
  let ?ws = "sorted_workers driver_ip created" let ?n = "length created"
  let ?args = "\<lambda>i. \<lparr>wa_visible_devices = sort (concat (map rw_device_ids (filter (\<lambda>v. rw_node_id v = rw_node_id (?ws ! i)) ?ws))),
      wa_local_rank = length (filter (\<lambda>j. rw_node_id (?ws ! j) = rw_node_id (?ws ! i)) [0..<i]), wa_rank = i,
      wa_is_driver_worker = (i mod tp_size = 0)\<rparr>"
  let ?grid = "map (\<lambda>pp. map (\<lambda>tp. ?ws ! (pp * tp_size + tp)) [0..<tp_size]) [0..<pp_size]"
  have args: "map_res (args_of ?ws tp_size) [0..<length ?ws] = Inr (map ?args [0..<length ?ws])"
  proof (rule map_res_total)
    fix i assume "i \<in> set [0..<length ?ws]"
    then have i: "i < length ?ws" by simp
    then have w: "dict_get (node_devices ?ws) (rw_node_id (?ws ! i))
        = Some (sort (concat (map rw_device_ids (filter (\<lambda>v. rw_node_id v = rw_node_id (?ws ! i)) ?ws))))"
      by (intro node_devices_get nth_mem)
    show "args_of ?ws tp_size i = Inr (?args i)"
      using i tp w node_workers_get[OF i]
        index_of_filter[of i "length ?ws" "\<lambda>j. rw_node_id (?ws ! j) = rw_node_id (?ws ! i)"]
      by (simp add: args_of_def dict_at_def)
  qed
  have grid: "map_res (\<lambda>pp. map_res (\<lambda>tp. nth_res ?ws (pp * tp_size + tp)) [0..<tp_size]) [0..<pp_size] = Inr ?grid"
  proof (intro map_res_total)
    fix pp tp assume "pp \<in> set [0..<pp_size]" "tp \<in> set [0..<tp_size]"
    then have "pp * tp_size + tp < pp_size * tp_size"
      by (metis atLeastLessThan_iff set_upt mult_Suc add.commute less_le_trans nat_add_left_cancel_less mult_le_mono1 Suc_leI)
    then show "nth_res ?ws (pp * tp_size + tp) = Inr (?ws ! (pp * tp_size + tp))" using enough by simp
  qed
  have count: "length (node_workers ?ws) = card (set (map rw_ip created @ [driver_ip]))"
    using card_image_agree[of "set created" rw_node_id rw_ip] nodes driver
    by (simp add: node_workers_length one_ip_per_node_def insert_absorb)
  let ?l = "\<lparr>rl_workers = ?ws, rl_rerank_mapping = rerank_mapping ?ws, rl_args = map ?args [0..<length ?ws],
     rl_driver_ip = (if length (node_devices ?ws) = 1 then ''127.0.0.1'' else driver_ip), rl_pp_tp_workers = ?grid\<rparr>"
  have run: "init_workers_ray driver_ip pp_size tp_size created = Inr ?l"
    unfolding init_workers_ray_def Let_def count args grid by simp
  have "mset (map rw_created_rank ?ws) = mset (map rw_created_rank created)" using mset_sorted_workers by (metis mset_map)
  then have dist: "distinct (map rw_created_rank ?ws)" using created by (metis mset_eq_imp_distinct_iff)
  have contig: "rw_ip (?ws ! j) = rw_ip (?ws ! i)" if "i \<le> j" "j \<le> k" "k < ?n" "rw_ip (?ws ! i) = rw_ip (?ws ! k)" for i j k
  proof -
    have "rank_key driver_ip (ip_counts (map rw_ip created)) (?ws ! i) = rank_key driver_ip (ip_counts (map rw_ip created)) (?ws ! k)"
      using that(4) by (simp add: rank_key_def)
    then have "rank_key driver_ip (ip_counts (map rw_ip created)) (?ws ! i) = rank_key driver_ip (ip_counts (map rw_ip created)) (?ws ! j)"
      using keys_sorted[of i j created driver_ip] keys_sorted[of j k created driver_ip] that by simp
    then show ?thesis by (simp add: rank_key_def)
  qed
  have first: "rw_ip (?ws ! i) = driver_ip" if "i \<le> j" "j < ?n" "rw_ip (?ws ! j) = driver_ip" for i j
    using keys_sorted[of i j created driver_ip] that by (auto simp: rank_key_def less_eq_prod_def split: if_splits)
  have fewer: "count_list (map rw_ip created) (rw_ip (?ws ! i)) \<le> count_list (map rw_ip created) (rw_ip (?ws ! j))"
    if "i \<le> j" "j < ?n" "rw_ip (?ws ! i) \<noteq> driver_ip" for i j
  proof -
    have "rw_ip (?ws ! m) \<in> rw_ip ` set created" if "m < ?n" for m using that by (metis imageI length_sorted_workers nth_mem set_sorted_workers)
    then have "dict_get (ip_counts (map rw_ip created)) (rw_ip (?ws ! m)) = Some (count_list (map rw_ip created) (rw_ip (?ws ! m)))" if "m < ?n" for m
      unfolding ip_counts_def ip_counts_get using that by simp
    then show ?thesis
      using keys_sorted[of i j created driver_ip] that by (auto simp: rank_key_def less_eq_prod_def split: if_splits)
  qed
  show ?thesis
    using run mset_sorted_workers[of driver_ip created] rerank_get[OF dist] contig first fewer by auto
qed

text \<open>
  A driver without a worker is refused: when nodes and addresses correspond but no worker runs on the node of
  the driver, the setup raises \<open>RuntimeError\<close>, although every node has its own address.
\<close>

theorem driver_without_worker_raises:
  assumes "one_ip_per_node created" "driver_ip \<notin> rw_ip ` set created"
  shows "init_workers_ray driver_ip pp_size tp_size created = Inl RuntimeError"
  using assms card_image_agree[of "set created" rw_node_id rw_ip]
  by (simp add: init_workers_ray_def Let_def node_workers_length one_ip_per_node_def)

section \<open>Examples\<close>

definition demo_workers :: "ray_worker list" where
  "demo_workers = [\<lparr>rw_created_rank = 0, rw_ip = ''10.0.0.9'', rw_node_id = ''c'', rw_device_ids = [0]\<rparr>,
     \<lparr>rw_created_rank = 1, rw_ip = ''10.0.0.1'', rw_node_id = ''a'', rw_device_ids = [1]\<rparr>,
     \<lparr>rw_created_rank = 2, rw_ip = ''10.0.0.2'', rw_node_id = ''b'', rw_device_ids = [0]\<rparr>,
     \<lparr>rw_created_rank = 3, rw_ip = ''10.0.0.1'', rw_node_id = ''a'', rw_device_ids = [0]\<rparr>]"

lemma ranks_follow_nodes_witness:
  "\<exists>l. init_workers_ray ''10.0.0.1'' 2 2 demo_workers = Inr l
     \<and> dict_get (rl_rerank_mapping l) (rw_created_rank (rl_workers l ! 2)) = Some 2
     \<and> length (rl_pp_tp_workers l) = 2 \<and> mset (rl_workers l) = mset demo_workers"
proof -
  have d: "one_ip_per_node demo_workers" "''10.0.0.1'' \<in> rw_ip ` set demo_workers" "2 * 2 \<le> length demo_workers"
    "distinct (map rw_created_rank demo_workers)" and four: "length demo_workers = 4"
    by (simp_all add: demo_workers_def one_ip_per_node_def)
  from ranks_follow_nodes[OF d(1,2) zero_less_numeral d(3,4)] obtain l where l: "init_workers_ray ''10.0.0.1'' 2 2 demo_workers = Inr l"
    "mset (rl_workers l) = mset demo_workers"
    "\<forall>i<length demo_workers. dict_get (rl_rerank_mapping l) (rw_created_rank (rl_workers l ! i)) = Some i"
    "rl_pp_tp_workers l = map (\<lambda>pp. map (\<lambda>tp. rl_workers l ! (pp * 2 + tp)) [0..<2]) [0..<2]" by (elim exE conjE) (rule that)
  show ?thesis using l(1,2,4) l(3)[rule_format, of 2] four by (intro exI[of _ l]) simp
qed

lemma driver_without_worker_raises_witness: "init_workers_ray ''10.0.0.7'' 2 2 demo_workers = Inl RuntimeError"
  using driver_without_worker_raises[of demo_workers "''10.0.0.7''" 2 2] by (simp add: demo_workers_def one_ip_per_node_def)

end
