(* ===== verification/Hijack.thy ===== *)
theory Hijack
  imports Prelude
begin

text \<open>
  Replacing functions of vLLM by those of the plugin (\<open>MluHijackObject\<close> in
  \<^verbatim>\<open>vllm_mlu/mlu_hijack_utils.py\<close>). Objects carry attributes of their own; what they inherit is not
  part of the state. The function to replace is given by its name, as a function with its \<open>__name__\<close>, or as a
  property, whose getter has a name while the property itself has none.
\<close>

section \<open>Names\<close>

text \<open>\<open>s.split('__')\<close>\<close>

fun split_dunder :: "string \<Rightarrow> string list" where
  "split_dunder [] = [[]]"
| "split_dunder [c] = [[c]]"
| "split_dunder (c # d # cs) =
     (if c = CHR ''_'' \<and> d = CHR ''_'' then [] # split_dunder cs
      else case split_dunder (d # cs) of [] \<Rightarrow> [[c]] | x # xs \<Rightarrow> (c # x) # xs)"

definition attribute_name :: "string \<Rightarrow> string res" where
  "attribute_name fname =
     (let parts = split_dunder fname; n = length parts
      in if last parts \<noteq> [] then Inr (last parts)
         else require (2 \<le> n) IndexError (require (parts ! (n - 2) \<noteq> []) AssertionError
           (Inr ((if 3 \<le> n \<and> parts ! (n - 3) = [] then ''__'' else '''') @ parts ! (n - 2) @ ''__''))))"

section \<open>Applying and undoing\<close>

datatype 'f original = By_name string | Function string 'f | Property string 'f

record ('o, 'f) hijack_state =
  hj_objs :: "('o \<times> 'f original \<times> 'f) list"
  hj_attrs :: "'o \<Rightarrow> string \<Rightarrow> 'f option"

definition set_attr :: "'o \<Rightarrow> string \<Rightarrow> 'f \<Rightarrow> ('o, 'f) hijack_state \<Rightarrow> ('o, 'f) hijack_state" where
  "set_attr ob n f s = s\<lparr>hj_attrs := (hj_attrs s)(ob := (hj_attrs s ob)(n \<mapsto> f))\<rparr>"

definition del_attr :: "'o \<Rightarrow> string \<Rightarrow> ('o, 'f) hijack_state \<Rightarrow> ('o, 'f) hijack_state" where
  "del_attr ob n s = s\<lparr>hj_attrs := (hj_attrs s)(ob := (hj_attrs s ob)(n := None))\<rparr>"

text \<open>The call is recorded first; a failing call leaves it in the record.\<close>

definition apply_hijack ::
  "bool \<Rightarrow> 'o \<times> 'f original \<times> 'f \<Rightarrow> ('o, 'f) hijack_state \<Rightarrow> ('o, 'f) hijack_state \<times> unit res" where
  "apply_hijack verify_orig_func_exists h s = (case h of (ob, org_func, hijack_func) \<Rightarrow>
     let s = s\<lparr>hj_objs := hj_objs s @ [h]\<rparr>;
         fname = (case org_func of By_name n \<Rightarrow> Inr n | Function n _ \<Rightarrow> attribute_name n | Property n _ \<Rightarrow> attribute_name n)
     in case fname of Inl e \<Rightarrow> (s, Inl e)
        | Inr n \<Rightarrow>
            if verify_orig_func_exists \<and> hj_attrs s ob n = None then (s, Inl AttributeError)
            else let s = set_attr ob n hijack_func s
                 in (s, if verify_orig_func_exists \<and> hj_attrs s ob n \<noteq> Some hijack_func then Inl AttributeError else Inr ()))"

definition undo_one :: "'o \<times> 'f original \<times> 'f \<Rightarrow> ('o, 'f) hijack_state \<Rightarrow> ('o, 'f) hijack_state res" where
  "undo_one h s = (case h of (ob, org_func, _) \<Rightarrow>
     (case org_func of
        By_name n \<Rightarrow> Inr (if hj_attrs s ob n \<noteq> None then del_attr ob n s else s)
      | Function n f \<Rightarrow> Inr (set_attr ob n f s)
      | Property _ _ \<Rightarrow> Inl AttributeError))"

definition undo_hijack :: "('o \<times> 'f) option \<Rightarrow> ('o, 'f) hijack_state \<Rightarrow> ('o, 'f) hijack_state res" where
  "undo_hijack which s =
     (case which of
        Some (ob, f) \<Rightarrow> fold_res undo_one (filter (\<lambda>(o', _, f'). o' = ob \<and> f' = f) (hj_objs s)) s
      | None \<Rightarrow> fold_res undo_one (hj_objs s) s)"

fun apply_all :: "('o \<times> 'f original \<times> 'f) list \<Rightarrow> ('o, 'f) hijack_state \<Rightarrow> ('o, 'f) hijack_state res" where
  "apply_all [] s = Inr s"
| "apply_all (h # hs) s = (case apply_hijack False h s of (s, Inl e) \<Rightarrow> Inl e | (s, Inr _) \<Rightarrow> apply_all hs s)"

section \<open>Names of attributes\<close>

lemma split_dunder_nonempty: "split_dunder s \<noteq> []"
  by (induction s rule: split_dunder.induct) (auto split: list.splits)

definition plain_name :: "string \<Rightarrow> bool" where
  "plain_name n \<longleftrightarrow> n \<noteq> [] \<and> (\<forall>i. Suc i < length n \<longrightarrow> \<not> (n ! i = CHR ''_'' \<and> n ! Suc i = CHR ''_''))"

lemma plain_name_Cons: "plain_name (c # d # cs) \<longleftrightarrow> \<not> (c = CHR ''_'' \<and> d = CHR ''_'') \<and> plain_name (d # cs)"
proof -
  have "(\<forall>i. Suc i < Suc (Suc (length cs)) \<longrightarrow> P i) \<longleftrightarrow> P 0 \<and> (\<forall>i. Suc i < Suc (length cs) \<longrightarrow> P (Suc i))" for P
    by (metis Suc_less_eq less_Suc_eq_0_disj zero_less_Suc)
  from this[of "\<lambda>i. \<not> ((c # d # cs) ! i = CHR ''_'' \<and> (c # d # cs) ! Suc i = CHR ''_'')"]
  show ?thesis by (simp add: plain_name_def)
qed

lemma split_plain: "plain_name n \<Longrightarrow> split_dunder n = [n]"
  by (induction n rule: split_dunder.induct) (auto simp: plain_name_Cons plain_name_def[of "[]"])

lemma split_append:
  "p = [] \<or> last p \<noteq> CHR ''_'' \<Longrightarrow> split_dunder (p @ ''__'' @ n) = split_dunder p @ split_dunder n"
proof (induction p rule: split_dunder.induct)
  case (3 c d cs)
  show ?case
  proof (cases "c = CHR ''_'' \<and> d = CHR ''_''")
    case True
    then have "cs \<noteq> []" using 3(3) by auto
    then show ?thesis using True 3(1,3) by simp
  next
    case False
    then have "split_dunder (d # cs @ ''__'' @ n) = split_dunder (d # cs) @ split_dunder n" using 3(2,3) by simp
    then show ?thesis using False split_dunder_nonempty[of "d # cs"] by (auto split: list.splits)
  qed
qed simp_all

text \<open>The names that the plugin gives to its functions lead to the attribute after the last double underscore.\<close>

lemma attribute_of_qualified_name:
  assumes "plain_name n" "p = [] \<or> last p \<noteq> CHR ''_''"
  shows "attribute_name (p @ ''__'' @ n) = Inr n"
proof -
  have "n \<noteq> []" using assms(1) by (simp add: plain_name_def)
  then show ?thesis unfolding attribute_name_def Let_def split_append[OF assms(2)] split_plain[OF assms(1)] by simp
qed

lemma attribute_of_plain_name: "plain_name n \<Longrightarrow> attribute_name n = Inr n"
  using split_plain[of n] by (auto simp: attribute_name_def plain_name_def)

section \<open>Undoing restores the originals\<close>

definition target :: "'o \<times> 'f original \<times> 'f \<Rightarrow> 'o \<times> string" where
  "target h = (fst h, case fst (snd h) of By_name n \<Rightarrow> n | Function n _ \<Rightarrow> n | Property n _ \<Rightarrow> n)"

definition names_original :: "('o \<Rightarrow> string \<Rightarrow> 'f option) \<Rightarrow> 'o \<times> 'f original \<times> 'f \<Rightarrow> bool" where
  "names_original attrs h \<longleftrightarrow> (\<exists>ob n f g. h = (ob, Function n f, g) \<and> plain_name n \<and> attrs ob n = Some f)"

lemma apply_all_effect:
  assumes "\<forall>h\<in>set hs. names_original attrs h"
  shows "\<exists>s'. apply_all hs s = Inr s' \<and> hj_objs s' = hj_objs s @ hs
    \<and> (\<forall>ob n. (ob, n) \<notin> target ` set hs \<longrightarrow> hj_attrs s' ob n = hj_attrs s ob n)
    \<and> (\<forall>ob n. (ob, n) \<in> target ` set hs \<longrightarrow> hj_attrs s' ob n \<in> Some ` {g. \<exists>h\<in>set hs. target h = (ob, n) \<and> g = snd (snd h)})"
  using assms
proof (induction hs arbitrary: s)
  case Nil
  then show ?case by simp
next
  case (Cons h hs)
  from Cons.prems obtain ob n f g where h: "h = (ob, Function n f, g)" "plain_name n" by (auto simp: names_original_def)
  let ?s = "set_attr ob n g (s\<lparr>hj_objs := hj_objs s @ [h]\<rparr>)"
  have step: "apply_hijack False h s = (?s, Inr ())"
    using attribute_of_plain_name[OF h(2)] by (simp add: apply_hijack_def h(1) Let_def)
  have t: "target h = (ob, n)" by (simp add: target_def h)
  obtain s' where ih: "apply_all hs ?s = Inr s'" "hj_objs s' = hj_objs ?s @ hs"
    "\<forall>ob n. (ob, n) \<notin> target ` set hs \<longrightarrow> hj_attrs s' ob n = hj_attrs ?s ob n"
    "\<forall>ob n. (ob, n) \<in> target ` set hs \<longrightarrow> hj_attrs s' ob n \<in> Some ` {g. \<exists>h\<in>set hs. target h = (ob, n) \<and> g = snd (snd h)}"
    using Cons.IH[of ?s] Cons.prems by auto
  have here: "hj_attrs s' ob' n' \<in> Some ` {g. \<exists>h\<in>set (h # hs). target h = (ob', n') \<and> g = snd (snd h)}"
    if "(ob', n') \<in> target ` set (h # hs)" for ob' n'
  proof (cases "(ob', n') \<in> target ` set hs")
    case True
    then show ?thesis using ih(4) by fastforce
  next
    case False
    then have "(ob', n') = (ob, n)" "hj_attrs s' ob' n' = Some g" using that ih(3) t by (auto simp: set_attr_def)
    then show ?thesis using t h(1) by auto
  qed
  show ?case
  proof (intro exI conjI allI impI)
    show "apply_all (h # hs) s = Inr s'" using step ih(1) by simp
    show "hj_objs s' = hj_objs s @ h # hs" using ih(2) by (simp add: set_attr_def)
    show "hj_attrs s' ob' n' = hj_attrs s ob' n'" if "(ob', n') \<notin> target ` set (h # hs)" for ob' n'
      using that ih(3) t by (auto simp: set_attr_def)
  qed (rule here)
qed

lemma undo_all_effect:
  assumes "\<forall>h\<in>set hs. names_original attrs h"
  shows "\<exists>s'. fold_res undo_one hs s = Inr s' \<and> (\<forall>ob n. (ob, n) \<in> target ` set hs \<longrightarrow> hj_attrs s' ob n = attrs ob n)
    \<and> (\<forall>ob n. (ob, n) \<notin> target ` set hs \<longrightarrow> hj_attrs s' ob n = hj_attrs s ob n)"
  using assms
proof (induction hs arbitrary: s)
  case Nil
  then show ?case by simp
next
  case (Cons h hs)
  from Cons.prems obtain ob n f g where h: "h = (ob, Function n f, g)" "attrs ob n = Some f" by (auto simp: names_original_def)
  have t: "target h = (ob, n)" by (simp add: target_def h)
  have step: "undo_one h s = Inr (set_attr ob n f s)" by (simp add: undo_one_def h)
  obtain s' where ih: "fold_res undo_one hs (set_attr ob n f s) = Inr s'"
    "\<forall>ob n. (ob, n) \<in> target ` set hs \<longrightarrow> hj_attrs s' ob n = attrs ob n"
    "\<forall>ob' n'. (ob', n') \<notin> target ` set hs \<longrightarrow> hj_attrs s' ob' n' = hj_attrs (set_attr ob n f s) ob' n'"
    using Cons.IH[of "set_attr ob n f s"] Cons.prems by auto
  have "hj_attrs s' ob n = attrs ob n" using ih(2,3) h(2) by (cases "(ob, n) \<in> target ` set hs") (auto simp: set_attr_def)
  then show ?case using step ih t by (auto simp: set_attr_def)
qed

text \<open>
  Applying and undoing the replacements restores every attribute: when each replaced function is given as
  the attribute of the object under its plain name, all replacements succeed, each replaced attribute is one of
  the given functions, and undoing them gives every object its own attributes back.
\<close>

theorem undo_restores_originals:
  assumes "\<forall>h\<in>set hs. names_original (hj_attrs s) h" "hj_objs s = []"
  shows "\<exists>s1 s2. apply_all hs s = Inr s1
    \<and> (\<forall>h\<in>set hs. \<exists>g\<in>set hs. target g = target h \<and> hj_attrs s1 (fst (target h)) (snd (target h)) = Some (snd (snd g)))
    \<and> undo_hijack None s1 = Inr s2 \<and> hj_attrs s2 = hj_attrs s"
proof -
  obtain s1 where a: "apply_all hs s = Inr s1" "hj_objs s1 = hs"
    "\<forall>ob n. (ob, n) \<notin> target ` set hs \<longrightarrow> hj_attrs s1 ob n = hj_attrs s ob n"
    "\<forall>ob n. (ob, n) \<in> target ` set hs \<longrightarrow> hj_attrs s1 ob n \<in> Some ` {g. \<exists>h\<in>set hs. target h = (ob, n) \<and> g = snd (snd h)}"
    using apply_all_effect[OF assms(1), of s] assms(2) by auto
  obtain s2 where u: "fold_res undo_one hs s1 = Inr s2" "\<forall>ob n. (ob, n) \<in> target ` set hs \<longrightarrow> hj_attrs s2 ob n = hj_attrs s ob n"
    "\<forall>ob n. (ob, n) \<notin> target ` set hs \<longrightarrow> hj_attrs s2 ob n = hj_attrs s1 ob n"
    using undo_all_effect[OF assms(1), of s1] by auto
  have "hj_attrs s2 ob n = hj_attrs s ob n" for ob n
    using u(2,3) a(3) by (cases "(ob, n) \<in> target ` set hs") auto
  then have "hj_attrs s2 = hj_attrs s" by (simp add: fun_eq_iff)
  moreover have "\<exists>g\<in>set hs. target g = target h \<and> hj_attrs s1 (fst (target h)) (snd (target h)) = Some (snd (snd g))" if "h \<in> set hs" for h
    using a(4)[rule_format, of "fst (target h)" "snd (target h)"] that by (auto simp: image_iff)
  ultimately show ?thesis using a(1,2) u(1) by (auto simp: undo_hijack_def)
qed

text \<open>Where undoing does not restore: replaced twice, given by name, and properties.\<close>

lemma second_replacement_survives:
  assumes "plain_name n" "hj_objs s = []" "hj_attrs s ob n = Some f"
  shows "\<exists>s1 s2. apply_all [(ob, Function n f, g), (ob, Function n g, h)] s = Inr s1 \<and> undo_hijack None s1 = Inr s2
    \<and> hj_attrs s2 ob n = Some g"
  using assms attribute_of_plain_name[OF assms(1)]
  by (simp add: apply_hijack_def undo_hijack_def undo_one_def set_attr_def Let_def)

lemma replaced_by_name_is_lost:
  "hj_objs s = [] \<Longrightarrow> \<exists>s1 s2. apply_all [(ob, By_name n, g)] s = Inr s1 \<and> undo_hijack None s1 = Inr s2 \<and> hj_attrs s2 ob n = None"
  by (simp add: apply_hijack_def undo_hijack_def undo_one_def set_attr_def Let_def del_attr_def)

lemma undoing_a_property_raises:
  "hj_objs s = [] \<Longrightarrow> plain_name n \<Longrightarrow> \<exists>s1. apply_all [(ob, Property n f, g)] s = Inr s1 \<and> undo_hijack None s1 = Inl AttributeError"
  using attribute_of_plain_name[of n] by (simp add: apply_hijack_def undo_hijack_def undo_one_def set_attr_def Let_def)

lemma undo_restores_originals_witness:
  "\<exists>s1 s2. apply_all [(1 :: nat, Function ''forward'' (10 :: nat), 20), (2, Function ''_step'' 11, 21)]
       \<lparr>hj_objs = [], hj_attrs = (\<lambda>_ _. None)(1 := [''forward'' \<mapsto> 10], 2 := [''_step'' \<mapsto> 11])\<rparr> = Inr s1
     \<and> undo_hijack None s1 = Inr s2 \<and> hj_attrs s2 1 ''forward'' = Some 10"
proof -
  have p: "plain_name ''forward''" "plain_name ''_step''" by (simp_all add: plain_name_Cons) (simp_all add: plain_name_def)
  show ?thesis
    using undo_restores_originals[of "[(1 :: nat, Function ''forward'' (10 :: nat), 20), (2, Function ''_step'' 11, 21)]"
      "\<lparr>hj_objs = [], hj_attrs = (\<lambda>_ _. None)(1 := [''forward'' \<mapsto> 10], 2 := [''_step'' \<mapsto> 11])\<rparr>"] p
    by (auto simp: names_original_def)
qed

end
