(* ===== verification/AttentionGroups.thy ===== *)
theory AttentionGroups
  imports FlashMetadata KvLayers
begin

text \<open>
  The attention metadata of a step (\<open>MLUModelRunner._build_attention_metadata\<close> in
  \<^verbatim>\<open>vllm_mlu/v1/worker/gpu_model_runner.py\<close>): every group of the cache gets its common metadata,
  every attention group in it a metadata object from its builder, and the layers are bound to these objects.
  The builders, the split of the metadata into micro batches and the buffers are arguments. Decode context
  parallelism, the sharing of caches in fast prefill and the lengths of encoder inputs, none of which the
  metadata kept here depends on, are left out.
\<close>

section \<open>Names of layers\<close>

definition prefill_names :: "bool \<Rightarrow> bool \<Rightarrow> string \<Rightarrow> (string \<times> bool) list" where
  "prefill_names is_deepseek_mla is_longcat_flash layer =
     (if is_deepseek_mla \<and> suffix ''self_attn.mla_attn'' layer
      then [(str_replace ''self_attn.mla_attn'' ''self_attn.attn'' 0 layer, True)] else [])
   @ (if is_longcat_flash \<and> suffix ''self_attn.0.mla_attn'' layer
      then [(str_replace ''self_attn.0.mla_attn'' ''self_attn.0.attn'' 0 layer, False)]
      else if is_longcat_flash \<and> suffix ''self_attn.1.mla_attn'' layer
      then [(str_replace ''self_attn.1.mla_attn'' ''self_attn.1.attn'' 0 layer, False)] else [])"

section \<open>Metadata of the layers\<close>

datatype 'm layer_entry = Layer_metadata 'm | Common_metadata common_md

datatype 'm step_metadata = Per_layer "(string, 'm layer_entry) dict" | Per_ubatch "(string, 'm layer_entry) dict list"

definition COMMON_METADATA :: string where "COMMON_METADATA = ''common_metadata''"

text \<open>A list is not indexed by a name.\<close>

definition md_set :: "string \<Rightarrow> 'm layer_entry \<Rightarrow> 'm step_metadata \<Rightarrow> 'm step_metadata res" where
  "md_set name e md = (case md of Per_layer d \<Rightarrow> Inr (Per_layer (dict_set name e d)) | Per_ubatch _ \<Rightarrow> Inl TypeError)"

definition md_get :: "string \<Rightarrow> 'm step_metadata \<Rightarrow> 'm layer_entry res" where
  "md_get name md = (case md of Per_layer d \<Rightarrow> dict_at d name | Per_ubatch _ \<Rightarrow> Inl TypeError)"

definition md_set_ubatch :: "nat \<Rightarrow> string \<Rightarrow> 'm layer_entry \<Rightarrow> 'm step_metadata \<Rightarrow> 'm step_metadata res" where
  "md_set_ubatch u name e md =
     (case md of Per_layer _ \<Rightarrow> Inl AssertionError
      | Per_ubatch ds \<Rightarrow> require (u < length ds) IndexError (Inr (Per_ubatch (ds[u := dict_set name e (ds ! u)]))))"

record layer_group =
  gr_layer_names :: "string list"
  gr_is_gdn :: bool

record cache_group =
  cg_layer_names :: "string list"
  cg_encoder_only :: bool
  cg_attn_groups :: "layer_group list"

record slot_table =
  st_rows :: "int list list"
  st_slots :: "int list"

record md_config =
  md_deepseek_mla :: bool
  md_longcat_flash :: bool
  md_max_model_len :: int
  md_speculative :: bool
  md_drafter_layer :: "string option"

record md_buffers =
  mb_query_start_loc :: "int list"
  mb_seq_lens :: "int list"
  mb_seq_start_loc :: "int list"
  mb_num_computed_tokens :: "int list"

record md_step =
  ms_total_num_scheduled_tokens :: nat
  ms_max_num_scheduled_tokens :: nat
  ms_num_reqs :: nat
  ms_num_ubatches :: "nat option"
  ms_use_spec_decode :: bool
  ms_for_cudagraph_capture :: bool
  ms_cascade_prefix_lens :: "nat list list option"
  ms_infer_mode :: "infer_mode option"

text \<open>The arguments of a builder: the group, the attention group, the micro batch, the prefix and the metadata.\<close>

type_synonym 'm builder = "nat \<Rightarrow> nat \<Rightarrow> nat option \<Rightarrow> nat \<Rightarrow> bool \<Rightarrow> common_md \<Rightarrow> 'm res"

definition group_table :: "md_step \<Rightarrow> cache_group \<Rightarrow> slot_table \<Rightarrow> slot_table \<times> int list list \<times> int list" where
  "group_table s g t =
     (if cg_encoder_only g
      then (t, replicate (ms_num_reqs s) [0], replicate (ms_total_num_scheduled_tokens s) 0)
      else let n = ms_total_num_scheduled_tokens s; slots = take n (st_slots t)
           in (t\<lparr>st_slots := slots @ replicate (length (st_slots t) - n) (-1)\<rparr>, take (ms_num_reqs s) (st_rows t), slots))"

definition group_common_md :: "md_buffers \<Rightarrow> md_step \<Rightarrow> int \<Rightarrow> int list list \<Rightarrow> int list \<Rightarrow> common_md" where
  "group_common_md b s max_seq_len rows slots =
     (let n = ms_num_reqs s in
      \<lparr>cm_query_start_loc = take (n + 1) (mb_query_start_loc b), cm_query_start_loc_cpu = take (n + 1) (mb_query_start_loc b),
       cm_seq_lens = take n (mb_seq_lens b), cm_seq_lens_cpu = take n (mb_seq_lens b),
       cm_num_computed_tokens_cpu = take n (mb_num_computed_tokens b), cm_num_reqs = n,
       cm_num_actual_tokens = ms_total_num_scheduled_tokens s, cm_max_query_len = int (ms_max_num_scheduled_tokens s),
       cm_max_seq_len = max_seq_len, cm_block_table_tensor = rows, cm_slot_mapping = slots,
       cm_seq_start_loc = take (n + 1) (mb_seq_start_loc b), cm_num_input_tokens = 0, cm_infer_mode = ms_infer_mode s,
       cm_num_prefill_query_tokens = ms_total_num_scheduled_tokens s, cm_num_prefill_kv_tokens = ms_total_num_scheduled_tokens s\<rparr>)"

definition drafter_metadata :: "md_config \<Rightarrow> cache_group \<Rightarrow> common_md \<Rightarrow> common_md option \<Rightarrow> common_md option" where
  "drafter_metadata cfg g cm drafter =
     (if \<not> md_speculative cfg \<or> drafter \<noteq> None then drafter
      else case md_drafter_layer cfg of
             None \<Rightarrow> Some cm
           | Some layer \<Rightarrow>
               let layer = (if md_deepseek_mla cfg \<and> suffix ''self_attn.attn'' layer
                            then str_replace ''self_attn.attn'' ''self_attn.mla_attn'' 0 layer else layer)
               in if layer \<in> set (cg_layer_names g) then Some cm else None)"

section \<open>Binding the layers\<close>

definition cascade_prefix :: "md_step \<Rightarrow> nat \<Rightarrow> nat \<Rightarrow> nat res" where
  "cascade_prefix s gid aid =
     (case ms_cascade_prefix_lens s of None \<Rightarrow> Inr 0
      | Some ls \<Rightarrow> if ls = [] then Inr 0 else bind_res (nth_res ls gid) (\<lambda>l. nth_res l aid))"

definition ubatch_step ::
  "'m builder \<Rightarrow> nat \<Rightarrow> nat \<Rightarrow> nat \<Rightarrow> cache_group \<Rightarrow> nat \<times> common_md \<Rightarrow> 'm step_metadata \<times> common_md \<times> 'm option
    \<Rightarrow> ('m step_metadata \<times> common_md \<times> 'm option) res" where
  "ubatch_step builder gid aid prefix_len g u st = (case u of (ubid, cm) \<Rightarrow> case st of (md, _, _) \<Rightarrow>
     bind_res (builder gid aid (Some ubid) prefix_len False cm) (\<lambda>m.
     bind_res (fold_res (\<lambda>name. md_set_ubatch ubid name (Layer_metadata m)) (cg_layer_names g) md) (\<lambda>md.
     Inr (md, cm, Some m))))"

definition bind_prefill ::
  "md_config \<Rightarrow> 'm option \<Rightarrow> string \<Rightarrow> 'm step_metadata \<Rightarrow> 'm step_metadata res" where
  "bind_prefill cfg m layer md =
     fold_res (\<lambda>(name, lookup) md.
       if lookup then bind_res (md_get layer md) (\<lambda>e. md_set name e md)
       else case m of None \<Rightarrow> Inl UnboundLocalError | Some m \<Rightarrow> md_set name (Layer_metadata m) md)
     (prefill_names (md_deepseek_mla cfg) (md_longcat_flash cfg) layer) md"

definition attn_group_step ::
  "'m builder \<Rightarrow> (nat \<Rightarrow> common_md \<Rightarrow> common_md list) \<Rightarrow> md_config \<Rightarrow> md_step \<Rightarrow> nat \<Rightarrow> cache_group \<Rightarrow> nat \<times> layer_group
    \<Rightarrow> 'm step_metadata \<times> common_md \<Rightarrow> ('m step_metadata \<times> common_md) res" where
  "attn_group_step builder split_ubatches cfg s gid g a st = (case a of (aid, ag) \<Rightarrow> case st of (md, cm) \<Rightarrow>
     bind_res (cascade_prefix s gid aid) (\<lambda>prefix_len.
     bind_res (case ms_num_ubatches s of
          Some n \<Rightarrow> (let cms = split_ubatches n cm
                    in fold_res (ubatch_step builder gid aid prefix_len g) (zip [0..<length cms] cms) (md, cm, None))
        | None \<Rightarrow> bind_res (builder gid aid None prefix_len (ms_use_spec_decode s \<and> gr_is_gdn ag) cm) (\<lambda>m.
                  bind_res (fold_res (\<lambda>name. md_set name (Layer_metadata m)) (gr_layer_names ag) md) (\<lambda>md.
                  Inr (md, cm, Some m)))) (\<lambda>(md, cm, m).
     bind_res (fold_res (bind_prefill cfg m) (gr_layer_names ag) md) (\<lambda>md. Inr (md, cm)))))"

definition cache_group_step ::
  "'m builder \<Rightarrow> (nat \<Rightarrow> common_md \<Rightarrow> common_md list) \<Rightarrow> md_config \<Rightarrow> md_buffers \<Rightarrow> md_step \<Rightarrow> int
    \<Rightarrow> nat \<times> cache_group \<times> slot_table \<Rightarrow> 'm step_metadata \<times> common_md option \<times> slot_table list
    \<Rightarrow> ('m step_metadata \<times> common_md option \<times> slot_table list) res" where
  "cache_group_step builder split_ubatches cfg b s max_seq_len gt st = (case gt of (gid, g, t) \<Rightarrow> case st of (md, drafter, ts) \<Rightarrow>
     case group_table s g t of (t, rows, slots) \<Rightarrow>
     let cm = group_common_md b s max_seq_len rows slots; drafter = drafter_metadata cfg g cm drafter
     in bind_res (fold_res (attn_group_step builder split_ubatches cfg s gid g) (zip [0..<length (cg_attn_groups g)] (cg_attn_groups g)) (md, cm))
          (\<lambda>(md, cm). bind_res (md_set COMMON_METADATA (Common_metadata cm) md) (\<lambda>md. Inr (md, drafter, ts @ [t]))))"

definition build_attention_metadata ::
  "'m builder \<Rightarrow> (nat \<Rightarrow> common_md \<Rightarrow> common_md list) \<Rightarrow> md_config \<Rightarrow> md_buffers \<Rightarrow> md_step
    \<Rightarrow> (cache_group \<times> slot_table) list \<Rightarrow> ('m step_metadata \<times> common_md option \<times> slot_table list) res" where
  "build_attention_metadata builder split_ubatches cfg b s groups =
     (let lens = take (ms_num_reqs s) (mb_seq_lens b) in
      bind_res (if ms_for_cudagraph_capture s then Inr (md_max_model_len cfg)
                else require (lens \<noteq> []) ValueError (Inr (Max (set lens)))) (\<lambda>max_seq_len.
      fold_res (cache_group_step builder split_ubatches cfg b s max_seq_len) (zip [0..<length groups] groups)
        ((case ms_num_ubatches s of None \<Rightarrow> Per_layer [] | Some n \<Rightarrow> Per_ubatch (replicate n [])), None, [])))"

section \<open>Every layer gets the metadata of its group\<close>

text \<open>The names bound for an attention group: its layers and the names of their prefill parts.\<close>

definition bound_names :: "md_config \<Rightarrow> layer_group \<Rightarrow> string list" where
  "bound_names cfg ag = gr_layer_names ag
     @ concat (map (\<lambda>l. map fst (prefill_names (md_deepseek_mla cfg) (md_longcat_flash cfg) l)) (gr_layer_names ag))"

text \<open>Writes of a value under each of some names, the last one for a name winning.\<close>

definition overlay :: "(string list \<times> 'v) list \<Rightarrow> (string \<Rightarrow> 'v option) \<Rightarrow> string \<Rightarrow> 'v option" where
  "overlay ws f = fold (\<lambda>(ns, v) f k. if k \<in> set ns then Some v else f k) ws f"

lemma overlay_simps: "overlay [] f = f" "overlay ((ns, v) # ws) f = overlay ws (\<lambda>k. if k \<in> set ns then Some v else f k)"
  "overlay (ws @ ws') f = overlay ws' (overlay ws f)"
  by (simp_all add: overlay_def)

lemma overlay_other: "(\<forall>(ns, v)\<in>set ws. k \<notin> set ns) \<Longrightarrow> overlay ws f k = f k"
  by (induction ws arbitrary: f) (auto simp: overlay_simps)

lemma overlay_only:
  assumes "i < length ws" "k \<in> set (fst (ws ! i))" "\<And>j. j < length ws \<Longrightarrow> j \<noteq> i \<Longrightarrow> k \<notin> set (fst (ws ! j))"
  shows "overlay ws f k = Some (snd (ws ! i))"
proof -
  have ws: "ws = take i ws @ (fst (ws ! i), snd (ws ! i)) # drop (Suc i) ws" using assms(1) by (simp add: id_take_nth_drop)
  have "\<forall>(ns, v)\<in>set (drop (Suc i) ws). k \<notin> set ns"
  proof
    fix w assume "w \<in> set (drop (Suc i) ws)"
    then obtain j where "j < length ws - Suc i" "w = ws ! (Suc i + j)" by (auto simp: in_set_conv_nth)
    then show "case w of (ns, v) \<Rightarrow> k \<notin> set ns" using assms(3)[of "Suc i + j"] by (auto simp: case_prod_unfold)
  qed
  from overlay_other[OF this]
  have "overlay (take i ws @ (fst (ws ! i), snd (ws ! i)) # drop (Suc i) ws) f k = Some (snd (ws ! i))"
    unfolding overlay_simps using assms(2) by simp
  then show ?thesis by (subst ws)
qed

lemma md_set_fold:
  "\<exists>d'. fold_res (\<lambda>name. md_set name e) names (Per_layer d) = Inr (Per_layer d')
     \<and> dict_get d' = (\<lambda>k. if k \<in> set names then Some e else dict_get d k)"
proof (induction names arbitrary: d)
  case (Cons n names)
  from Cons.IH[of "dict_set n e d"] show ?case by (auto simp: md_set_def fun_eq_iff)
qed simp

lemma bind_prefill_run:
  assumes "dict_get d layer = Some (Layer_metadata m)"
  shows "\<exists>d'. bind_prefill cfg (Some m) layer (Per_layer d) = Inr (Per_layer d')
    \<and> dict_get d' = (\<lambda>k. if k \<in> set (map fst (prefill_names (md_deepseek_mla cfg) (md_longcat_flash cfg) layer))
        then Some (Layer_metadata m) else dict_get d k)"
proof -
  have "\<exists>d'. fold_res (\<lambda>(name, lookup) md. if lookup then bind_res (md_get layer md) (\<lambda>e. md_set name e md) else md_set name (Layer_metadata m) md)
        ps (Per_layer d) = Inr (Per_layer d')
    \<and> dict_get d' = (\<lambda>k. if k \<in> set (map fst ps) then Some (Layer_metadata m) else dict_get d k)"
    if "dict_get d layer = Some (Layer_metadata m)" for d and ps :: "(string \<times> bool) list"
    using that
  proof (induction ps arbitrary: d)
    case (Cons p ps)
    obtain name lookup where p: "p = (name, lookup)" by force
    have "dict_get (dict_set name (Layer_metadata m) d) layer = Some (Layer_metadata m)" using Cons.prems by simp
    from Cons.IH[OF this] show ?case using Cons.prems by (auto simp: p md_set_def md_get_def dict_at_def fun_eq_iff)
  qed simp
  from this[OF assms] show ?thesis unfolding bind_prefill_def option.case by blast
qed

lemma bind_prefill_fold:
  assumes "\<forall>l\<in>set layers. dict_get d l = Some (Layer_metadata m)"
  shows "\<exists>d'. fold_res (bind_prefill cfg (Some m)) layers (Per_layer d) = Inr (Per_layer d')
    \<and> dict_get d' = (\<lambda>k. if k \<in> set (concat (map (\<lambda>l. map fst (prefill_names (md_deepseek_mla cfg) (md_longcat_flash cfg) l)) layers))
        then Some (Layer_metadata m) else dict_get d k)"
  using assms
proof (induction layers arbitrary: d)
  case (Cons l layers)
  then have "dict_get d l = Some (Layer_metadata m)" by simp
  from bind_prefill_run[OF this] obtain d1 where d1: "bind_prefill cfg (Some m) l (Per_layer d) = Inr (Per_layer d1)"
    "dict_get d1 = (\<lambda>k. if k \<in> set (map fst (prefill_names (md_deepseek_mla cfg) (md_longcat_flash cfg) l))
        then Some (Layer_metadata m) else dict_get d k)" by blast
  have "\<forall>l\<in>set layers. dict_get d1 l = Some (Layer_metadata m)" unfolding d1(2) using Cons.prems by simp
  from Cons.IH[OF this] obtain d2 where d2: "fold_res (bind_prefill cfg (Some m)) layers (Per_layer d1) = Inr (Per_layer d2)"
    "dict_get d2 = (\<lambda>k. if k \<in> set (concat (map (\<lambda>l. map fst (prefill_names (md_deepseek_mla cfg) (md_longcat_flash cfg) l)) layers))
        then Some (Layer_metadata m) else dict_get d1 k)" by blast
  have "fold_res (bind_prefill cfg (Some m)) (l # layers) (Per_layer d) = Inr (Per_layer d2)" using d1(1) d2(1) by simp
  moreover have "dict_get d2 = (\<lambda>k. if k \<in> set (concat (map (\<lambda>l. map fst (prefill_names (md_deepseek_mla cfg) (md_longcat_flash cfg) l)) (l # layers)))
        then Some (Layer_metadata m) else dict_get d k)"
    unfolding d2(2) d1(2) by (rule ext) simp
  ultimately show ?case by blast
qed simp

lemma attn_group_run:
  assumes "ms_num_ubatches s = None" "ms_cascade_prefix_lens s = None"
    and "builder gid aid None 0 (ms_use_spec_decode s \<and> gr_is_gdn ag) cm = Inr m"
  shows "\<exists>d'. attn_group_step builder split cfg s gid g (aid, ag) (Per_layer d, cm) = Inr (Per_layer d', cm)
    \<and> dict_get d' = overlay [(bound_names cfg ag, Layer_metadata m)] (dict_get d)"
proof -
  obtain d1 where d1: "fold_res (\<lambda>name. md_set name (Layer_metadata m)) (gr_layer_names ag) (Per_layer d) = Inr (Per_layer d1)"
    "dict_get d1 = (\<lambda>k. if k \<in> set (gr_layer_names ag) then Some (Layer_metadata m) else dict_get d k)"
    using md_set_fold by blast
  then obtain d2 where d2: "fold_res (bind_prefill cfg (Some m)) (gr_layer_names ag) (Per_layer d1) = Inr (Per_layer d2)"
    "dict_get d2 = (\<lambda>k. if k \<in> set (concat (map (\<lambda>l. map fst (prefill_names (md_deepseek_mla cfg) (md_longcat_flash cfg) l)) (gr_layer_names ag)))
        then Some (Layer_metadata m) else dict_get d1 k)"
    using bind_prefill_fold[of "gr_layer_names ag" d1 m cfg] by auto
  then show ?thesis
    using d1 assms by (auto simp: attn_group_step_def cascade_prefix_def bound_names_def overlay_simps fun_eq_iff)
qed

lemma overlay_agreeing:
  "\<exists>w\<in>set ws. k \<in> set (fst w) \<Longrightarrow> \<forall>w\<in>set ws. k \<in> set (fst w) \<longrightarrow> snd w = x \<Longrightarrow> overlay ws f k = Some x"
proof (induction ws rule: rev_induct)
  case (snoc w ws)
  then show ?case by (cases w) (auto simp: overlay_simps)
qed simp

text \<open>The values a builder returns, and the writes of a group.\<close>

definition builds :: "'m builder \<Rightarrow> (nat \<Rightarrow> nat \<Rightarrow> bool \<Rightarrow> common_md \<Rightarrow> 'm) \<Rightarrow> bool" where
  "builds builder mk \<longleftrightarrow> (\<forall>gid aid extra cm. builder gid aid None 0 extra cm = Inr (mk gid aid extra cm))"

definition common_of :: "md_buffers \<Rightarrow> md_step \<Rightarrow> int \<Rightarrow> cache_group \<times> slot_table \<Rightarrow> common_md" where
  "common_of b s max_seq_len gt = (case group_table s (fst gt) (snd gt) of (_, rows, slots) \<Rightarrow> group_common_md b s max_seq_len rows slots)"

definition group_writes ::
  "(nat \<Rightarrow> nat \<Rightarrow> bool \<Rightarrow> common_md \<Rightarrow> 'm) \<Rightarrow> md_config \<Rightarrow> md_step \<Rightarrow> nat \<Rightarrow> common_md \<Rightarrow> (nat \<times> layer_group) list
    \<Rightarrow> (string list \<times> 'm layer_entry) list" where
  "group_writes mk cfg s gid cm as =
     map (\<lambda>(aid, ag). (bound_names cfg ag, Layer_metadata (mk gid aid (ms_use_spec_decode s \<and> gr_is_gdn ag) cm))) as"

lemma attn_groups_run:
  assumes "ms_num_ubatches s = None" "ms_cascade_prefix_lens s = None" "builds builder mk"
  shows "\<exists>d'. fold_res (attn_group_step builder split cfg s gid g) as (Per_layer d, cm) = Inr (Per_layer d', cm)
    \<and> dict_get d' = overlay (group_writes mk cfg s gid cm as) (dict_get d)"
proof (induction as arbitrary: d)
  case Nil
  then show ?case by (simp add: group_writes_def overlay_simps)
next
  case (Cons a as)
  obtain aid ag where a: "a = (aid, ag)" by force
  have "builder gid aid None 0 (ms_use_spec_decode s \<and> gr_is_gdn ag) cm = Inr (mk gid aid (ms_use_spec_decode s \<and> gr_is_gdn ag) cm)"
    using assms(3) by (simp add: builds_def)
  from attn_group_run[OF assms(1,2), of builder gid aid ag cm "mk gid aid (ms_use_spec_decode s \<and> gr_is_gdn ag) cm", OF this] obtain d1 where d1:
    "attn_group_step builder split cfg s gid g (aid, ag) (Per_layer d, cm) = Inr (Per_layer d1, cm)"
    "dict_get d1 = overlay [(bound_names cfg ag, Layer_metadata (mk gid aid (ms_use_spec_decode s \<and> gr_is_gdn ag) cm))] (dict_get d)" by blast
  from Cons.IH[of d1] obtain d2 where d2: "fold_res (attn_group_step builder split cfg s gid g) as (Per_layer d1, cm) = Inr (Per_layer d2, cm)"
    "dict_get d2 = overlay (group_writes mk cfg s gid cm as) (dict_get d1)" by blast
  have "dict_get d2 = overlay (group_writes mk cfg s gid cm (a # as)) (dict_get d)"
    unfolding d2(2) d1(2) by (simp add: a group_writes_def overlay_simps)
  then show ?case using d1(1) d2(1) a by (intro exI[of _ d2]) simp
qed

definition cache_group_writes ::
  "(nat \<Rightarrow> nat \<Rightarrow> bool \<Rightarrow> common_md \<Rightarrow> 'm) \<Rightarrow> md_config \<Rightarrow> md_buffers \<Rightarrow> md_step \<Rightarrow> int \<Rightarrow> nat \<times> cache_group \<times> slot_table
    \<Rightarrow> (string list \<times> 'm layer_entry) list" where
  "cache_group_writes mk cfg b s max_seq_len gt = (case gt of (gid, g, t) \<Rightarrow>
     let cm = common_of b s max_seq_len (g, t)
     in group_writes mk cfg s gid cm (zip [0..<length (cg_attn_groups g)] (cg_attn_groups g)) @ [([COMMON_METADATA], Common_metadata cm)])"

lemma cache_group_run:
  assumes "ms_num_ubatches s = None" "ms_cascade_prefix_lens s = None" "builds builder mk"
  shows "\<exists>d' drafter'. cache_group_step builder split cfg b s max_seq_len gt (Per_layer d, drafter, ts)
      = Inr (Per_layer d', drafter', ts @ [fst (group_table s (fst (snd gt)) (snd (snd gt)))])
    \<and> dict_get d' = overlay (cache_group_writes mk cfg b s max_seq_len gt) (dict_get d)"
proof -
  obtain gid g t where gt: "gt = (gid, g, t)" by (cases gt) auto
  obtain t' rows slots where tab: "group_table s g t = (t', rows, slots)" by (cases "group_table s g t") auto
  let ?cm = "group_common_md b s max_seq_len rows slots"
  obtain d1 where d1: "fold_res (attn_group_step builder split cfg s gid g) (zip [0..<length (cg_attn_groups g)] (cg_attn_groups g))
      (Per_layer d, ?cm) = Inr (Per_layer d1, ?cm)"
    "dict_get d1 = overlay (group_writes mk cfg s gid ?cm (zip [0..<length (cg_attn_groups g)] (cg_attn_groups g))) (dict_get d)"
    using attn_groups_run[OF assms] by blast
  have "dict_get (dict_set COMMON_METADATA (Common_metadata ?cm) d1) = overlay (cache_group_writes mk cfg b s max_seq_len gt) (dict_get d)"
    unfolding dict_get_set d1(2) by (simp add: gt cache_group_writes_def common_of_def tab overlay_simps fun_eq_iff Let_def)
  then show ?thesis using d1(1)
    by (intro exI[of _ "dict_set COMMON_METADATA (Common_metadata ?cm) d1"]) (simp add: cache_group_step_def gt tab Let_def md_set_def)
qed

lemma cache_groups_run:
  assumes "ms_num_ubatches s = None" "ms_cascade_prefix_lens s = None" "builds builder mk"
  shows "\<exists>d' drafter'. fold_res (cache_group_step builder split cfg b s max_seq_len) gts (Per_layer d, drafter, ts)
      = Inr (Per_layer d', drafter', ts @ map (\<lambda>gt. fst (group_table s (fst (snd gt)) (snd (snd gt)))) gts)
    \<and> dict_get d' = overlay (concat (map (cache_group_writes mk cfg b s max_seq_len) gts)) (dict_get d)"
proof (induction gts arbitrary: d drafter ts)
  case Nil
  then show ?case by (simp add: overlay_simps)
next
  case (Cons gt gts)
  obtain d1 dr1 where d1: "cache_group_step builder split cfg b s max_seq_len gt (Per_layer d, drafter, ts)
      = Inr (Per_layer d1, dr1, ts @ [fst (group_table s (fst (snd gt)) (snd (snd gt)))])"
    "dict_get d1 = overlay (cache_group_writes mk cfg b s max_seq_len gt) (dict_get d)" using cache_group_run[OF assms] by blast
  from Cons.IH[of d1 dr1 "ts @ [fst (group_table s (fst (snd gt)) (snd (snd gt)))]"] obtain d2 dr2 where d2:
    "fold_res (cache_group_step builder split cfg b s max_seq_len) gts (Per_layer d1, dr1, ts @ [fst (group_table s (fst (snd gt)) (snd (snd gt)))])
      = Inr (Per_layer d2, dr2, (ts @ [fst (group_table s (fst (snd gt)) (snd (snd gt)))]) @ map (\<lambda>gt. fst (group_table s (fst (snd gt)) (snd (snd gt)))) gts)"
    "dict_get d2 = overlay (concat (map (cache_group_writes mk cfg b s max_seq_len) gts)) (dict_get d1)" by blast
  have "dict_get d2 = overlay (concat (map (cache_group_writes mk cfg b s max_seq_len) (gt # gts))) (dict_get d)"
    unfolding d2(2) d1(2) by (simp add: overlay_simps)
  then show ?case using d1(1) d2(1) by (intro exI[of _ d2] exI[of _ dr2]) simp
qed

text \<open>The names of different attention groups are different, and none is that of the common metadata.\<close>

definition names_separate :: "md_config \<Rightarrow> (cache_group \<times> slot_table) list \<Rightarrow> bool" where
  "names_separate cfg groups \<longleftrightarrow> (\<forall>gid<length groups. \<forall>aid<length (cg_attn_groups (fst (groups ! gid))).
     COMMON_METADATA \<notin> set (bound_names cfg (cg_attn_groups (fst (groups ! gid)) ! aid))
   \<and> (\<forall>gid'<length groups. \<forall>aid'<length (cg_attn_groups (fst (groups ! gid'))).
        set (bound_names cfg (cg_attn_groups (fst (groups ! gid)) ! aid))
          \<inter> set (bound_names cfg (cg_attn_groups (fst (groups ! gid')) ! aid')) \<noteq> {} \<longrightarrow> gid = gid' \<and> aid = aid'))"

definition step_max_seq_len :: "md_config \<Rightarrow> md_buffers \<Rightarrow> md_step \<Rightarrow> int" where
  "step_max_seq_len cfg b s = (if ms_for_cudagraph_capture s then md_max_model_len cfg else Max (set (take (ms_num_reqs s) (mb_seq_lens b))))"

lemma cache_group_writes_of:
  "cache_group_writes mk cfg b s m (gid, g, t) = map (\<lambda>aid. (bound_names cfg (cg_attn_groups g ! aid),
      Layer_metadata (mk gid aid (ms_use_spec_decode s \<and> gr_is_gdn (cg_attn_groups g ! aid)) (common_of b s m (g, t))))) [0..<length (cg_attn_groups g)]
    @ [([COMMON_METADATA], Common_metadata (common_of b s m (g, t)))]"
  by (rule nth_equalityI) (auto simp: cache_group_writes_def group_writes_def Let_def nth_append)

text \<open>
  Every layer gets the metadata of its group: without micro batches, each layer of an attention group, and
  the name of its prefill part, is bound to the object that the builder of the group made from the common
  metadata of its cache group, the common entry is the metadata of the last group, and the slots of tokens that
  are not scheduled are cleared in the tables.
\<close>

theorem layers_get_group_metadata:
  assumes s: "ms_num_ubatches s = None" "ms_cascade_prefix_lens s = None" and mk: "builds builder mk"
    and lens: "ms_for_cudagraph_capture s \<or> take (ms_num_reqs s) (mb_seq_lens b) \<noteq> []" and names: "names_separate cfg groups"
  shows "\<exists>d drafter tables. build_attention_metadata builder split cfg b s groups = Inr (Per_layer d, drafter, tables)
    \<and> (\<forall>gid<length groups. \<forall>aid<length (cg_attn_groups (fst (groups ! gid))).
        \<forall>name\<in>set (bound_names cfg (cg_attn_groups (fst (groups ! gid)) ! aid)).
          dict_get d name = Some (Layer_metadata (mk gid aid (ms_use_spec_decode s \<and> gr_is_gdn (cg_attn_groups (fst (groups ! gid)) ! aid))
            (common_of b s (step_max_seq_len cfg b s) (groups ! gid)))))
    \<and> (groups \<noteq> [] \<longrightarrow> dict_get d COMMON_METADATA = Some (Common_metadata (common_of b s (step_max_seq_len cfg b s) (last groups))))
    \<and> length tables = length groups
    \<and> (\<forall>gid<length groups. \<not> cg_encoder_only (fst (groups ! gid)) \<longrightarrow>
        st_slots (tables ! gid) = take (ms_total_num_scheduled_tokens s) (st_slots (snd (groups ! gid)))
          @ replicate (length (st_slots (snd (groups ! gid))) - ms_total_num_scheduled_tokens s) (-1))"
proof -
  let ?m = "step_max_seq_len cfg b s" let ?gts = "zip [0..<length groups] groups"
  let ?w = "\<lambda>gid. cache_group_writes mk cfg b s ?m (gid, fst (groups ! gid), snd (groups ! gid))"
  have gts: "?gts = map (\<lambda>gid. (gid, fst (groups ! gid), snd (groups ! gid))) [0..<length groups]" by (rule nth_equalityI) simp_all
  obtain d drafter where run: "fold_res (cache_group_step builder split cfg b s ?m) ?gts (Per_layer [], None, [])
      = Inr (Per_layer d, drafter, [] @ map (\<lambda>gt. fst (group_table s (fst (snd gt)) (snd (snd gt)))) ?gts)"
    "dict_get d = overlay (concat (map (cache_group_writes mk cfg b s ?m) ?gts)) (dict_get [])"
    using cache_groups_run[OF s mk] by blast
  have d: "dict_get d = overlay (concat (map ?w [0..<length groups])) (dict_get [])"
    unfolding run(2) gts by (simp add: comp_def)
  have "build_attention_metadata builder split cfg b s groups
      = Inr (Per_layer d, drafter, map (\<lambda>gt. fst (group_table s (fst (snd gt)) (snd (snd gt)))) ?gts)"
    using run(1) lens s(1) by (auto simp: build_attention_metadata_def step_max_seq_len_def Let_def)
  moreover have "dict_get d name = Some (Layer_metadata (mk gid aid (ms_use_spec_decode s \<and> gr_is_gdn (cg_attn_groups (fst (groups ! gid)) ! aid))
            (common_of b s ?m (groups ! gid))))"
    if g: "gid < length groups" "aid < length (cg_attn_groups (fst (groups ! gid)))"
      "name \<in> set (bound_names cfg (cg_attn_groups (fst (groups ! gid)) ! aid))" for gid aid name
    unfolding d
  proof (rule overlay_agreeing)
    let ?x = "Layer_metadata (mk gid aid (ms_use_spec_decode s \<and> gr_is_gdn (cg_attn_groups (fst (groups ! gid)) ! aid))
      (common_of b s ?m (groups ! gid)))"
    let ?v = "(bound_names cfg (cg_attn_groups (fst (groups ! gid)) ! aid), ?x)"
    have "?v \<in> set (?w gid)" unfolding cache_group_writes_of using g by simp
    then have "?v \<in> set (concat (map ?w [0..<length groups]))" using g(1) by auto
    then show "\<exists>w\<in>set (concat (map ?w [0..<length groups])). name \<in> set (fst w)" by (rule rev_bexI) (use g(3) in simp)
    show "\<forall>w\<in>set (concat (map ?w [0..<length groups])). name \<in> set (fst w) \<longrightarrow> snd w = ?x"
    proof (intro ballI impI)
      fix w assume "w \<in> set (concat (map ?w [0..<length groups]))" and in_w: "name \<in> set (fst w)"
      then obtain gid' where g': "gid' < length groups" "w \<in> set (?w gid')" by auto
      have "name \<noteq> COMMON_METADATA" using names g by (auto simp: names_separate_def)
      then obtain aid' where a': "aid' < length (cg_attn_groups (fst (groups ! gid')))"
        "w = (bound_names cfg (cg_attn_groups (fst (groups ! gid')) ! aid'), Layer_metadata (mk gid' aid'
          (ms_use_spec_decode s \<and> gr_is_gdn (cg_attn_groups (fst (groups ! gid')) ! aid')) (common_of b s ?m (groups ! gid'))))"
        using g'(2) in_w unfolding cache_group_writes_of by auto
      then have "name \<in> set (bound_names cfg (cg_attn_groups (fst (groups ! gid)) ! aid))
          \<inter> set (bound_names cfg (cg_attn_groups (fst (groups ! gid')) ! aid'))" using g(3) in_w by simp
      then have "gid = gid' \<and> aid = aid'" using names[unfolded names_separate_def, rule_format, OF g(1,2)] g'(1) a'(1) by blast
      then show "snd w = ?x" using a'(2) by simp
    qed
  qed
  moreover have "dict_get d COMMON_METADATA = Some (Common_metadata (common_of b s ?m (last groups)))" if "groups \<noteq> []"
  proof -
    let ?n = "length groups - 1"
    have "[0..<length groups] = [0..<?n] @ [?n]" using that by (cases groups rule: rev_cases) simp_all
    then have "concat (map ?w [0..<length groups]) = concat (map ?w [0..<?n]) @ ?w ?n" by simp
    then show ?thesis unfolding d using that by (simp only: overlay_simps cache_group_writes_of) (simp add: last_conv_nth)
  qed
  moreover have "st_slots (map (\<lambda>gt. fst (group_table s (fst (snd gt)) (snd (snd gt)))) ?gts ! gid)
      = take (ms_total_num_scheduled_tokens s) (st_slots (snd (groups ! gid)))
        @ replicate (length (st_slots (snd (groups ! gid))) - ms_total_num_scheduled_tokens s) (-1)"
    if "gid < length groups" "\<not> cg_encoder_only (fst (groups ! gid))" for gid
    using that by (simp add: group_table_def Let_def)
  ultimately show ?thesis by (intro exI[of _ d] exI[of _ drafter]
      exI[of _ "map (\<lambda>gt. fst (group_table s (fst (snd gt)) (snd (snd gt)))) ?gts"]) simp
qed

section \<open>Micro batches\<close>

lemma md_set_ubatch_kept:
  "u < length ds \<Longrightarrow> \<exists>ds'. fold_res (\<lambda>name. md_set_ubatch u name e) names (Per_ubatch ds) = Inr (Per_ubatch ds') \<and> length ds' = length ds"
proof (induction names arbitrary: ds)
  case (Cons n names)
  from Cons.IH[of "ds[u := dict_set n e (ds ! u)]"] Cons.prems show ?case by (simp add: md_set_ubatch_def)
qed simp

lemma ubatches_run:
  assumes "\<forall>u\<in>set us. fst u < length ds" "\<And>g a u p cm. \<exists>m. builder g a (Some u) p False cm = Inr m"
  shows "\<exists>ds' cm' m'. fold_res (ubatch_step builder gid aid prefix_len g) us (Per_ubatch ds, cm, m) = Inr (Per_ubatch ds', cm', m')
    \<and> length ds' = length ds \<and> (us \<noteq> [] \<longrightarrow> m' \<noteq> None) \<and> (us = [] \<longrightarrow> m' = m)"
  using assms(1)
proof (induction us arbitrary: ds cm m)
  case Nil
  then show ?case by simp
next
  case (Cons u us)
  obtain ubid c where u: "u = (ubid, c)" by force
  obtain v where v: "builder gid aid (Some ubid) prefix_len False c = Inr v" using assms(2) by blast
  obtain ds1 where d1: "fold_res (\<lambda>name. md_set_ubatch ubid name (Layer_metadata v)) (cg_layer_names g) (Per_ubatch ds) = Inr (Per_ubatch ds1)"
    "length ds1 = length ds" using md_set_ubatch_kept Cons.prems u by (metis fst_conv list.set_intros(1))
  have "\<forall>u\<in>set us. fst u < length ds1" using Cons.prems d1(2) by simp
  from Cons.IH[OF this, of c "Some v"] obtain ds' cm' m' where "fold_res (ubatch_step builder gid aid prefix_len g) us (Per_ubatch ds1, c, Some v)
      = Inr (Per_ubatch ds', cm', m')" "length ds' = length ds1" "us \<noteq> [] \<longrightarrow> m' \<noteq> None" "us = [] \<longrightarrow> m' = Some v" by blast
  moreover from this have "m' \<noteq> None" by (cases "us = []") auto
  moreover have "ubatch_step builder gid aid prefix_len g u (Per_ubatch ds, cm, m) = Inr (Per_ubatch ds1, c, Some v)"
    using u v d1(1) by (simp add: ubatch_step_def)
  ultimately show ?case using d1(2) by simp
qed

lemma bind_prefill_list:
  "fold_res (bind_prefill cfg (Some m)) layers (Per_ubatch ds) \<in> {Inr (Per_ubatch ds), Inl TypeError}"
proof (induction layers)
  case (Cons l layers)
  have "fold_res (\<lambda>(name, lookup) md. if lookup then bind_res (md_get l md) (\<lambda>e. md_set name e md) else md_set name (Layer_metadata m) md)
      ps (Per_ubatch ds) \<in> {Inr (Per_ubatch ds), Inl TypeError}" for ps :: "(string \<times> bool) list"
  proof (cases ps)
    case (Cons q qs)
    then show ?thesis by (cases q; cases "snd q") (simp_all add: md_set_def md_get_def)
  qed simp
  from this[of "prefill_names (md_deepseek_mla cfg) (md_longcat_flash cfg) l"]
  have "bind_prefill cfg (Some m) l (Per_ubatch ds) \<in> {Inr (Per_ubatch ds), Inl TypeError}"
    unfolding bind_prefill_def option.case .
  then show ?case using Cons.IH by auto
qed simp

lemma attn_groups_list:
  assumes n: "ms_num_ubatches s = Some n" "0 < n" "\<And>cm. length (split n cm) = n"
    and b: "\<And>g a u p cm. \<exists>m. builder g a (Some u) p False cm = Inr m" and p: "ms_cascade_prefix_lens s = None"
  shows "length ds = n \<Longrightarrow> \<exists>r. fold_res (attn_group_step builder split cfg s gid g) as (Per_ubatch ds, cm) = r
    \<and> (r = Inl TypeError \<or> (\<exists>ds' cm'. r = Inr (Per_ubatch ds', cm') \<and> length ds' = n))"
proof (induction as arbitrary: ds cm)
  case Nil
  then show ?case by simp
next
  case (Cons a as)
  obtain aid ag where a: "a = (aid, ag)" by force
  let ?us = "zip [0..<n] (split n cm)"
  have "\<forall>u\<in>set ?us. fst u < length ds" using Cons.prems by (auto dest: set_zip_leftD)
  from ubatches_run[where builder = builder and us = ?us and ds = ds and gid = gid and aid = aid and prefix_len = 0 and g = g and cm = cm
      and m = None, OF this b] obtain ds' cm' m' where u:
    "fold_res (ubatch_step builder gid aid 0 g) ?us (Per_ubatch ds, cm, None) = Inr (Per_ubatch ds', cm', m')"
    "length ds' = length ds" "?us \<noteq> [] \<longrightarrow> m' \<noteq> None" by blast
  have "length ?us = n" using n(3) by simp
  then have "?us \<noteq> []" using n(2) by (metis length_greater_0_conv)
  with u(3) obtain m where m: "m' = Some m" by auto
  have step: "attn_group_step builder split cfg s gid g a (Per_ubatch ds, cm)
      = bind_res (fold_res (bind_prefill cfg (Some m)) (gr_layer_names ag) (Per_ubatch ds')) (\<lambda>md. Inr (md, cm'))"
    using u(1) by (simp add: attn_group_step_def a cascade_prefix_def p n(1,3) Let_def m)
  show ?case
    using bind_prefill_list[of cfg m "gr_layer_names ag" ds'] step Cons.IH[of ds' cm'] Cons.prems u(2) by auto
qed

text \<open>
  C35. A step in micro batches gets no attention metadata: when the builders succeed for every micro batch, the
  common metadata is written under its name into the list of the micro batches, which raises \<open>TypeError\<close>.
\<close>

theorem micro_batches_raise:
  assumes "ms_num_ubatches s = Some n" "0 < n" "\<And>cm. length (split n cm) = n" "ms_cascade_prefix_lens s = None"
    and "\<And>g a u p cm. \<exists>m. builder g a (Some u) p False cm = Inr m"
    and "ms_for_cudagraph_capture s \<or> take (ms_num_reqs s) (mb_seq_lens b) \<noteq> []" "groups \<noteq> []"
  shows "build_attention_metadata builder split cfg b s groups = Inl TypeError"
proof -
  obtain g t gs where groups: "groups = (g, t) # gs" using assms(7) by (cases groups) auto
  have first: "zip [0..<length groups] groups = (0, g, t) # zip [1..<length groups] gs"
    unfolding groups by (simp add: upt_conv_Cons del: upt_Suc)
  have "cache_group_step builder split cfg b s m (0, g, t) (Per_ubatch (replicate n []), None, []) = Inl TypeError" for m
  proof -
    obtain t' rows slots where tab: "group_table s g t = (t', rows, slots)" by (cases "group_table s g t") auto
    show ?thesis
      using attn_groups_list[where split = split and builder = builder and ds = "replicate n []" and cfg = cfg and gid = 0 and g = g
          and as = "zip [0..<length (cg_attn_groups g)] (cg_attn_groups g)" and cm = "group_common_md b s m rows slots", OF assms(1,2,3,5,4)]
      by (auto simp: cache_group_step_def tab Let_def md_set_def)
  qed
  then show ?thesis using assms(1,6) first by (auto simp: build_attention_metadata_def Let_def)
qed

section \<open>Examples\<close>

definition demo_md_config :: md_config where
  "demo_md_config = \<lparr>md_deepseek_mla = True, md_longcat_flash = False, md_max_model_len = 64, md_speculative = True,
     md_drafter_layer = Some ''m.8.self_attn.attn''\<rparr>"

definition demo_md_buffers :: md_buffers where
  "demo_md_buffers = \<lparr>mb_query_start_loc = [0, 2, 3, 0], mb_seq_lens = [6, 9, 0], mb_seq_start_loc = [0, 6, 15, 0], mb_num_computed_tokens = [4, 8, 0]\<rparr>"

definition demo_md_step :: "nat option \<Rightarrow> md_step" where
  "demo_md_step ub = \<lparr>ms_total_num_scheduled_tokens = 3, ms_max_num_scheduled_tokens = 2, ms_num_reqs = 2, ms_num_ubatches = ub,
     ms_use_spec_decode = False, ms_for_cudagraph_capture = False, ms_cascade_prefix_lens = None, ms_infer_mode = Some DECODE_ONLY\<rparr>"

definition demo_cache_groups :: "(cache_group \<times> slot_table) list" where
  "demo_cache_groups = [(\<lparr>cg_layer_names = [''m.0.self_attn.mla_attn'', ''m.8.self_attn.mla_attn''], cg_encoder_only = False,
      cg_attn_groups = [\<lparr>gr_layer_names = [''m.0.self_attn.mla_attn'', ''m.8.self_attn.mla_attn''], gr_is_gdn = False\<rparr>]\<rparr>,
      \<lparr>st_rows = [[1], [2], [0]], st_slots = [4, 5, 9, 7, 7]\<rparr>),
     (\<lparr>cg_layer_names = [''m.1.linear_attn''], cg_encoder_only = False,
      cg_attn_groups = [\<lparr>gr_layer_names = [''m.1.linear_attn''], gr_is_gdn = True\<rparr>]\<rparr>,
      \<lparr>st_rows = [[3], [4], [0]], st_slots = [12, 13, 17, 7, 7]\<rparr>)]"

lemma demo_bound_names:
  "bound_names demo_md_config \<lparr>gr_layer_names = [''m.0.self_attn.mla_attn'', ''m.8.self_attn.mla_attn''], gr_is_gdn = False\<rparr>
    = [''m.0.self_attn.mla_attn'', ''m.8.self_attn.mla_attn'', ''m.0.self_attn.attn'', ''m.8.self_attn.attn'']"
  "bound_names demo_md_config \<lparr>gr_layer_names = [''m.1.linear_attn''], gr_is_gdn = True\<rparr> = [''m.1.linear_attn'']"
  by (simp_all add: bound_names_def prefill_names_def demo_md_config_def suffix_def)

lemma layers_get_group_metadata_witness:
  "\<exists>d drafter tables. build_attention_metadata (\<lambda>gid aid _ _ _ cm. Inr (gid, cm_block_table_tensor cm)) (\<lambda>_ _. []) demo_md_config demo_md_buffers
      (demo_md_step None) demo_cache_groups = Inr (Per_layer d, drafter, tables)
    \<and> dict_get d ''m.8.self_attn.attn'' = Some (Layer_metadata (0, [[1], [2]]))"
proof -
  let ?mk = "\<lambda>gid (aid :: nat) (extra :: bool) cm. (gid :: nat, cm_block_table_tensor cm)"
  have b: "builds (\<lambda>gid aid _ _ _ cm. Inr (gid, cm_block_table_tensor cm)) ?mk" by (simp add: builds_def)
  have s: "ms_num_ubatches (demo_md_step None) = None" "ms_cascade_prefix_lens (demo_md_step None) = None"
    "ms_for_cudagraph_capture (demo_md_step None) \<or> take (ms_num_reqs (demo_md_step None)) (mb_seq_lens demo_md_buffers) \<noteq> []"
    by (simp_all add: demo_md_step_def demo_md_buffers_def)
  have names: "names_separate demo_md_config demo_cache_groups"
    by (auto simp: names_separate_def demo_cache_groups_def demo_bound_names less_Suc_eq COMMON_METADATA_def)
  obtain d drafter tables where l: "build_attention_metadata (\<lambda>gid aid _ _ _ cm. Inr (gid, cm_block_table_tensor cm)) (\<lambda>_ _. []) demo_md_config
      demo_md_buffers (demo_md_step None) demo_cache_groups = Inr (Per_layer d, drafter, tables)"
    "\<forall>gid<length demo_cache_groups. \<forall>aid<length (cg_attn_groups (fst (demo_cache_groups ! gid))).
        \<forall>name\<in>set (bound_names demo_md_config (cg_attn_groups (fst (demo_cache_groups ! gid)) ! aid)).
          dict_get d name = Some (Layer_metadata (gid, cm_block_table_tensor
            (common_of demo_md_buffers (demo_md_step None) (step_max_seq_len demo_md_config demo_md_buffers (demo_md_step None)) (demo_cache_groups ! gid))))"
    using layers_get_group_metadata[OF s(1,2) b s(3) names, of "\<lambda>_ _. []"] by blast
  have "dict_get d ''m.8.self_attn.attn'' = Some (Layer_metadata (0, cm_block_table_tensor
      (common_of demo_md_buffers (demo_md_step None) (step_max_seq_len demo_md_config demo_md_buffers (demo_md_step None)) (demo_cache_groups ! 0))))"
    by (rule l(2)[rule_format, of 0 0]) (simp_all add: demo_cache_groups_def demo_bound_names)
  then show ?thesis
    using l(1) by (simp add: common_of_def demo_cache_groups_def group_table_def group_common_md_def demo_md_step_def Let_def)
qed

lemma micro_batches_raise_witness:
  "build_attention_metadata (\<lambda>gid aid _ _ _ cm. Inr (gid, cm_block_table_tensor cm)) (\<lambda>n cm. replicate n cm) demo_md_config demo_md_buffers
      (demo_md_step (Some 2)) demo_cache_groups = Inl TypeError"
  by (rule micro_batches_raise[where n = 2])
    (simp_all add: demo_md_step_def demo_md_buffers_def demo_cache_groups_def)

end
