(* ===== verification/GraphWrapper.thy ===== *)
theory GraphWrapper
  imports ExecuteModel
begin

text \<open>
  The wrapper that captures and replays device graphs (\<open>MLUGraphWrapper\<close> in
  \<^verbatim>\<open>vllm_mlu/compilation/mlu_graph.py\<close>). A captured graph is what was recorded when it was captured;
  the result of a call says whether the model ran eagerly, was captured, or which graph was replayed. The addresses of
  the inputs, the memory pool and the counters are left out; whether capturing is enabled is an argument.
\<close>

section \<open>The wrapper\<close>

record 'd graph =
  cp_is_prefill :: bool
  cp_descriptor :: 'd
  cp_batch_size :: nat
  cp_seq_len :: int

record 'd prefill_graph_entry =
  pe_batch_size :: nat
  pe_seq_len :: int
  pe_graph :: "'d graph option"

record 'd wrapper =
  gw_prefill_entry :: "'d prefill_graph_entry option"
  gw_entries :: "('d, 'd graph option) dict"

record 'd forward_ctx =
  gx_descriptor :: 'd
  gx_runtime_mode :: graph_mode
  gx_common_metadata :: "(infer_mode option \<times> int list) option"

record graph_args =
  ga_is_capturing_prefill :: bool
  ga_prefill_enable_mlugraph :: bool
  ga_prefill_batch_size :: nat
  ga_prefill_seq_len :: int
  ga_is_running_drafter :: bool

datatype 'd graph_event = Ran_eagerly | Captured "'d graph" | Replayed "'d graph"

definition is_running_in_prefill :: "'d forward_ctx \<Rightarrow> 'd prefill_graph_entry option \<Rightarrow> bool" where
  "is_running_in_prefill ctx entry =
     (case gx_common_metadata ctx of None \<Rightarrow> False
      | Some (mode, lens) \<Rightarrow>
          (case entry of None \<Rightarrow> False
           | Some e \<Rightarrow> mode = Some PREFILL_ONLY \<and> length lens = pe_batch_size e \<and> list_all (\<lambda>n. n = pe_seq_len e) lens))"

definition new_entry :: "'d forward_ctx \<Rightarrow> graph_args \<Rightarrow> 'd wrapper \<Rightarrow> 'd wrapper" where
  "new_entry ctx a w =
     (if ga_is_capturing_prefill a
      then w\<lparr>gw_prefill_entry := Some \<lparr>pe_batch_size = ga_prefill_batch_size a, pe_seq_len = ga_prefill_seq_len a, pe_graph = None\<rparr>\<rparr>
      else if gx_descriptor ctx \<notin> set (dict_keys (gw_entries w))
      then w\<lparr>gw_entries := dict_set (gx_descriptor ctx) None (gw_entries w)\<rparr> else w)"

definition graph_call ::
  "graph_mode \<Rightarrow> bool \<Rightarrow> 'd forward_ctx \<Rightarrow> graph_args \<Rightarrow> 'd wrapper \<Rightarrow> ('d graph_event \<times> 'd wrapper) res" where
  "graph_call runtime_mode capturing_enabled ctx a w =
     (if gx_runtime_mode ctx = Graph_none \<or> gx_runtime_mode ctx \<noteq> runtime_mode then Inr (Ran_eagerly, w)
      else let w = new_entry ctx a w;
               checked = (\<lambda>r. require (ga_is_capturing_prefill a \<or> ga_is_running_drafter a \<or> capturing_enabled) RuntimeError r)
           in if (is_running_in_prefill ctx (gw_prefill_entry w) \<and> ga_prefill_enable_mlugraph a) \<or> ga_is_capturing_prefill a
              then (case gw_prefill_entry w of None \<Rightarrow> Inl AttributeError
                    | Some e \<Rightarrow>
                        (case pe_graph e of
                           Some g \<Rightarrow> Inr (Replayed g, w)
                         | None \<Rightarrow> checked
                             (let g = \<lparr>cp_is_prefill = True, cp_descriptor = gx_descriptor ctx, cp_batch_size = pe_batch_size e, cp_seq_len = pe_seq_len e\<rparr>
                              in Inr (Captured g, w\<lparr>gw_prefill_entry := Some (e\<lparr>pe_graph := Some g\<rparr>)\<rparr>))))
              else bind_res (dict_at (gw_entries w) (gx_descriptor ctx)) (\<lambda>entry.
                   case entry of
                     Some g \<Rightarrow> Inr (Replayed g, w)
                   | None \<Rightarrow> checked
                       (let g = \<lparr>cp_is_prefill = False, cp_descriptor = gx_descriptor ctx, cp_batch_size = 0, cp_seq_len = 0\<rparr>
                        in Inr (Captured g, w\<lparr>gw_entries := dict_set (gx_descriptor ctx) (Some g) (gw_entries w)\<rparr>))))"

section \<open>Runs\<close>

inductive graph_run :: "graph_mode \<Rightarrow> ('d forward_ctx \<times> graph_args \<times> 'd graph_event) list \<Rightarrow> 'd wrapper \<Rightarrow> bool" for mode where
  no_call: "graph_run mode [] \<lparr>gw_prefill_entry = None, gw_entries = []\<rparr>"
| call: "graph_run mode evs w \<Longrightarrow> graph_call mode enabled ctx a w = Inr (e, w') \<Longrightarrow> graph_run mode (evs @ [(ctx, a, e)]) w'"

text \<open>The entries hold graphs that were captured, under the key they were captured with.\<close>

definition captured_in :: "('d forward_ctx \<times> graph_args \<times> 'd graph_event) list \<Rightarrow> 'd graph \<Rightarrow> bool" where
  "captured_in evs g \<longleftrightarrow> (\<exists>ctx a. (ctx, a, Captured g) \<in> set evs)"

definition wrapper_ok :: "('d forward_ctx \<times> graph_args \<times> 'd graph_event) list \<Rightarrow> 'd wrapper \<Rightarrow> bool" where
  "wrapper_ok evs w \<longleftrightarrow>
     (\<forall>d g. dict_get (gw_entries w) d = Some (Some g) \<longrightarrow> captured_in evs g \<and> \<not> cp_is_prefill g \<and> cp_descriptor g = d)
   \<and> (\<forall>e g. gw_prefill_entry w = Some e \<longrightarrow> pe_graph e = Some g \<longrightarrow>
        captured_in evs g \<and> cp_is_prefill g \<and> cp_batch_size g = pe_batch_size e \<and> cp_seq_len g = pe_seq_len e)
   \<and> (\<forall>g. captured_in evs g \<longrightarrow> \<not> cp_is_prefill g \<longrightarrow> dict_get (gw_entries w) (cp_descriptor g) = Some (Some g))"

text \<open>The graph fits the call: the lengths of its prefill, or its descriptor.\<close>

definition fits :: "'d forward_ctx \<Rightarrow> 'd graph \<Rightarrow> bool" where
  "fits ctx g \<longleftrightarrow> (if cp_is_prefill g
      then gx_common_metadata ctx = Some (Some PREFILL_ONLY, replicate (cp_batch_size g) (cp_seq_len g))
      else cp_descriptor g = gx_descriptor ctx)"

lemma captured_in_snoc: "captured_in (evs @ [(ctx, a, e)]) g \<longleftrightarrow> captured_in evs g \<or> e = Captured g"
  by (auto simp: captured_in_def)

lemma running_in_prefill_shape:
  assumes "is_running_in_prefill ctx (Some e)"
  shows "gx_common_metadata ctx = Some (Some PREFILL_ONLY, replicate (pe_batch_size e) (pe_seq_len e))"
proof -
  obtain ns where "gx_common_metadata ctx = Some (Some PREFILL_ONLY, ns)" "length ns = pe_batch_size e" "\<forall>n\<in>set ns. n = pe_seq_len e"
    using assms by (auto simp: is_running_in_prefill_def list_all_iff split: option.splits prod.splits)
  then show ?thesis using replicate_length_same[of ns "pe_seq_len e"] by simp
qed

lemma new_entry_entries: "dict_get (gw_entries (new_entry ctx a w)) d = Some (Some g) \<longleftrightarrow> dict_get (gw_entries w) d = Some (Some g)"
proof (cases "gx_descriptor ctx \<in> set (dict_keys (gw_entries w))")
  case False
  then have "dict_get (gw_entries w) (gx_descriptor ctx) = None" by (simp add: map_of_eq_None_iff)
  then show ?thesis using False by (simp add: new_entry_def)
qed (simp add: new_entry_def)

lemma new_entry_ok: "wrapper_ok evs w \<Longrightarrow> wrapper_ok evs (new_entry ctx a w)"
  unfolding wrapper_ok_def new_entry_entries by (simp add: new_entry_def)

lemma wrapper_okD:
  assumes "wrapper_ok evs w"
  shows "dict_get (gw_entries w) d = Some (Some g) \<Longrightarrow> captured_in evs g \<and> \<not> cp_is_prefill g \<and> cp_descriptor g = d"
    and "gw_prefill_entry w = Some e \<Longrightarrow> pe_graph e = Some g \<Longrightarrow>
      captured_in evs g \<and> cp_is_prefill g \<and> cp_batch_size g = pe_batch_size e \<and> cp_seq_len g = pe_seq_len e"
    and "captured_in evs g \<Longrightarrow> \<not> cp_is_prefill g \<Longrightarrow> dict_get (gw_entries w) (cp_descriptor g) = Some (Some g)"
  using assms unfolding wrapper_ok_def by blast+

lemma replay_ok:
  "wrapper_ok evs w \<Longrightarrow> wrapper_ok (evs @ [(ctx, a, Replayed g)]) w" "wrapper_ok evs w \<Longrightarrow> wrapper_ok (evs @ [(ctx, a, Ran_eagerly)]) w"
  by (simp_all add: wrapper_ok_def captured_in_snoc)

lemma capture_prefill_ok:
  assumes "wrapper_ok evs w" "gw_prefill_entry w = Some e" "cp_is_prefill g" "cp_batch_size g = pe_batch_size e" "cp_seq_len g = pe_seq_len e"
  shows "wrapper_ok (evs @ [(ctx, a, Captured g)]) (w\<lparr>gw_prefill_entry := Some (e\<lparr>pe_graph := Some g\<rparr>)\<rparr>)"
  using assms by (simp add: wrapper_ok_def captured_in_snoc)

lemma capture_descriptor_ok:
  assumes "wrapper_ok evs w" "\<not> cp_is_prefill g" "dict_get (gw_entries w) (cp_descriptor g) = Some None"
  shows "wrapper_ok (evs @ [(ctx, a, Captured g)]) (w\<lparr>gw_entries := dict_set (cp_descriptor g) (Some g) (gw_entries w)\<rparr>)"
proof -
  have "cp_descriptor g' \<noteq> cp_descriptor g" if "captured_in evs g'" "\<not> cp_is_prefill g'" for g'
    using wrapper_okD(3)[OF assms(1) that] assms(3) by auto
  moreover have "captured_in evs g' \<and> \<not> cp_is_prefill g' \<and> cp_descriptor g' = d" if "dict_get (gw_entries w) d = Some (Some g')" for d g'
    using wrapper_okD(1)[OF assms(1) that] .
  ultimately show ?thesis
    using assms(2) wrapper_okD(2,3)[OF assms(1)] unfolding wrapper_ok_def captured_in_snoc
    by (simp del: not_None_eq)
qed

lemma graph_call_ok:
  assumes "graph_call mode enabled ctx a w = Inr (e, w')" "wrapper_ok evs w"
  shows "wrapper_ok (evs @ [(ctx, a, e)]) w' \<and> (\<forall>g. e = Replayed g \<longrightarrow> captured_in evs g \<and> fits ctx g)
    \<and> (\<forall>g. e = Captured g \<longrightarrow> \<not> cp_is_prefill g \<longrightarrow> cp_descriptor g = gx_descriptor ctx
          \<and> \<not> (\<exists>g'. captured_in evs g' \<and> \<not> cp_is_prefill g' \<and> cp_descriptor g' = gx_descriptor ctx))"
proof (cases "gx_runtime_mode ctx = Graph_none \<or> gx_runtime_mode ctx \<noteq> mode")
  case True
  then have "e = Ran_eagerly" "w' = w" using assms(1) by (auto simp: graph_call_def)
  then show ?thesis using replay_ok(2)[OF assms(2)] by simp
next
  case False
  let ?w = "new_entry ctx a w"
  note ok = new_entry_ok[OF assms(2), of ctx a]
  show ?thesis
  proof (cases "(is_running_in_prefill ctx (gw_prefill_entry ?w) \<and> ga_prefill_enable_mlugraph a) \<or> ga_is_capturing_prefill a")
    case True
    then obtain p where p: "gw_prefill_entry ?w = Some p" using assms(1) False by (auto simp: graph_call_def Let_def split: option.splits)
    show ?thesis
    proof (cases "pe_graph p")
      case None
      let ?g = "\<lparr>cp_is_prefill = True, cp_descriptor = gx_descriptor ctx, cp_batch_size = pe_batch_size p, cp_seq_len = pe_seq_len p\<rparr>"
      have "e = Captured ?g" "w' = ?w\<lparr>gw_prefill_entry := Some (p\<lparr>pe_graph := Some ?g\<rparr>)\<rparr>"
        using assms(1) False True p None by (auto simp: graph_call_def Let_def require_eq_Inr)
      then show ?thesis using capture_prefill_ok[OF ok p, of ?g] by simp
    next
      case (Some g)
      then have e: "e = Replayed g" "w' = ?w" using assms(1) False True p by (auto simp: graph_call_def Let_def)
      have "\<not> ga_is_capturing_prefill a" using p Some by (auto simp: new_entry_def)
      then have "is_running_in_prefill ctx (Some p)" using True p by simp
      from running_in_prefill_shape[OF this] have "fits ctx g" "captured_in evs g" using wrapper_okD(2)[OF ok p Some] by (auto simp: fits_def)
      then show ?thesis using e replay_ok(1)[OF ok] by simp
    qed
  next
    case noprefill: False
    then obtain entry where entry: "dict_get (gw_entries ?w) (gx_descriptor ctx) = Some entry"
      using assms(1) False by (auto simp: graph_call_def Let_def bind_res_eq_Inr dict_at_def split: option.splits)
    show ?thesis
    proof (cases entry)
      case None
      let ?g = "\<lparr>cp_is_prefill = False, cp_descriptor = gx_descriptor ctx, cp_batch_size = 0, cp_seq_len = 0\<rparr>"
      have "e = Captured ?g \<and> w' = ?w\<lparr>gw_entries := dict_set (gx_descriptor ctx) (Some ?g) (gw_entries ?w)\<rparr>"
        using assms(1) entry None unfolding graph_call_def Let_def if_not_P[OF False] if_not_P[OF noprefill]
        by (simp add: dict_at_def require_eq_Inr)
      then have e: "e = Captured ?g" "w' = ?w\<lparr>gw_entries := dict_set (gx_descriptor ctx) (Some ?g) (gw_entries ?w)\<rparr>" by auto
      have "\<not> (\<exists>g'. captured_in evs g' \<and> \<not> cp_is_prefill g' \<and> cp_descriptor g' = gx_descriptor ctx)"
        using wrapper_okD(3)[OF ok] entry None by fastforce
      then show ?thesis using e capture_descriptor_ok[OF ok, of ?g] entry None by simp
    next
      case (Some g)
      then have e: "e = Replayed g" "w' = ?w" using assms(1) False noprefill entry by (auto simp: graph_call_def Let_def dict_at_def)
      have "fits ctx g" "captured_in evs g" using wrapper_okD(1)[OF ok, of "gx_descriptor ctx" g] entry Some by (auto simp: fits_def)
      then show ?thesis using e replay_ok(1)[OF ok] by simp
    qed
  qed
qed


lemma graph_run_ok:
  assumes "graph_run mode evs w"
  shows "wrapper_ok evs w
    \<and> (\<forall>i<length evs. \<forall>ctx a g. evs ! i = (ctx, a, Replayed g) \<longrightarrow> captured_in (take i evs) g \<and> fits ctx g)
    \<and> (\<forall>i<length evs. \<forall>ctx a g. evs ! i = (ctx, a, Captured g) \<longrightarrow> \<not> cp_is_prefill g \<longrightarrow> cp_descriptor g = gx_descriptor ctx
          \<and> \<not> (\<exists>g'. captured_in (take i evs) g' \<and> \<not> cp_is_prefill g' \<and> cp_descriptor g' = gx_descriptor ctx))"
  using assms
proof (induction rule: graph_run.induct)
  case no_call
  show ?case by (simp add: wrapper_ok_def captured_in_def)
next
  case (call evs w enabled ctx a e w')
  note step = graph_call_ok[OF call.hyps(2) call.IH[THEN conjunct1]]
  from step call.IH show ?case by (auto simp: less_Suc_eq nth_append)
qed

section \<open>Properties\<close>

text \<open>
  in every run of the wrapper, a graph that is replayed was captured earlier and fits the call (a prefill of the
  captured shape, or the descriptor the graph was captured for), and no descriptor is captured twice.
\<close>

theorem replayed_graphs_fit:
  assumes "graph_run mode evs w" "i < length evs" "evs ! i = (ctx, a, e)"
  shows "(\<forall>g. e = Replayed g \<longrightarrow> (\<exists>ctx' a'. (ctx', a', Captured g) \<in> set (take i evs))
        \<and> (if cp_is_prefill g then gx_common_metadata ctx = Some (Some PREFILL_ONLY, replicate (cp_batch_size g) (cp_seq_len g))
           else cp_descriptor g = gx_descriptor ctx))
    \<and> (\<forall>j<i. \<forall>ctx' a' g g'. e = Captured g \<and> evs ! j = (ctx', a', Captured g') \<and> \<not> cp_is_prefill g \<and> \<not> cp_is_prefill g'
        \<longrightarrow> gx_descriptor ctx' \<noteq> gx_descriptor ctx)"
proof (rule conjI, goal_cases)
  note ok = graph_run_ok[OF assms(1)]
  case 1
  show ?case using ok assms(2,3) unfolding captured_in_def fits_def by blast
next
  note ok = graph_run_ok[OF assms(1)]
  case 2
  have "gx_descriptor ctx' \<noteq> gx_descriptor ctx"
    if j: "j < i" "e = Captured g" "evs ! j = (ctx', a', Captured g')" "\<not> cp_is_prefill g" "\<not> cp_is_prefill g'" for j ctx' a' g g'
  proof -
    have "(ctx', a', Captured g') \<in> set (take i evs)" using j(1,3) assms(2) by (metis in_set_conv_nth length_take min.absorb4 nth_take)
    then have "captured_in (take i evs) g'" unfolding captured_in_def by blast
    moreover have "cp_descriptor g' = gx_descriptor ctx'" using ok j(1,3,5) assms(2) by (meson less_trans)
    ultimately show ?thesis using ok assms(2,3) j(2,4,5) by metis
  qed
  then show ?case by blast
qed

definition prefill_ctx :: "nat \<Rightarrow> int list \<Rightarrow> nat forward_ctx" where
  "prefill_ctx d lens = \<lparr>gx_descriptor = d, gx_runtime_mode = Graph_full, gx_common_metadata = Some (Some PREFILL_ONLY, lens)\<rparr>"

definition prefill_args :: "bool \<Rightarrow> graph_args" where
  "prefill_args capturing = \<lparr>ga_is_capturing_prefill = capturing, ga_prefill_enable_mlugraph = True, ga_prefill_batch_size = 2,
     ga_prefill_seq_len = 4, ga_is_running_drafter = False\<rparr>"

definition ex_graph :: "nat graph" where
  "ex_graph = \<lparr>cp_is_prefill = True, cp_descriptor = 8, cp_batch_size = 2, cp_seq_len = 4\<rparr>"

lemma ex_graph_run:
  "\<exists>w. graph_run Graph_full [(prefill_ctx 8 [4, 4], prefill_args True, Captured ex_graph), (prefill_ctx 8 [4, 4], prefill_args False, Replayed ex_graph)] w"
proof -
  define w1 where "w1 = \<lparr>gw_prefill_entry = Some \<lparr>pe_batch_size = 2, pe_seq_len = 4, pe_graph = Some ex_graph\<rparr>, gw_entries = []\<rparr>"
  have "graph_call Graph_full False (prefill_ctx 8 [4, 4]) (prefill_args True) \<lparr>gw_prefill_entry = None, gw_entries = []\<rparr> = Inr (Captured ex_graph, w1)"
    by (simp add: w1_def graph_call_def new_entry_def prefill_ctx_def prefill_args_def ex_graph_def Let_def)
  from graph_run.call[OF graph_run.no_call this]
  have run: "graph_run Graph_full [(prefill_ctx 8 [4, 4], prefill_args True, Captured ex_graph)] w1" by simp
  have "graph_call Graph_full False (prefill_ctx 8 [4, 4]) (prefill_args False) w1
    = Inr (Replayed ex_graph, w1\<lparr>gw_entries := [(8, None)]\<rparr>)"
    by (simp add: w1_def graph_call_def new_entry_def is_running_in_prefill_def prefill_ctx_def prefill_args_def)
  from graph_run.call[OF run this] show ?thesis by auto
qed

theorem replayed_graphs_fit_witness:
  "gx_common_metadata (prefill_ctx 8 [4, 4]) = Some (Some PREFILL_ONLY, replicate 2 4)"
proof -
  obtain w where "graph_run Graph_full [(prefill_ctx 8 [4, 4], prefill_args True, Captured ex_graph), (prefill_ctx 8 [4, 4], prefill_args False, Replayed ex_graph)] w"
    using ex_graph_run by blast
  from replayed_graphs_fit[OF this, of 1 "prefill_ctx 8 [4, 4]" "prefill_args False" "Replayed ex_graph"]
  show ?thesis by (simp add: ex_graph_def)
qed

text \<open>
  a step that holds only prefills runs with a full graph as soon as prefill graphs are enabled, whatever the
  dispatcher answered; unless its lengths are those of the captured prefill or its descriptor was captured, the wrapper
  tries to capture it, which raises once capturing is over.
\<close>

theorem other_prefill_shape_raises:
  assumes "gx_runtime_mode ctx = graph_mode_of True (Some PREFILL_ONLY) True False dispatched"
    and "gx_common_metadata ctx = Some (Some PREFILL_ONLY, lens)"
    and "\<not> ga_is_capturing_prefill a" "\<not> ga_is_running_drafter a"
    and "\<forall>e. gw_prefill_entry w = Some e \<longrightarrow> lens \<noteq> replicate (pe_batch_size e) (pe_seq_len e)"
    and "\<forall>g. dict_get (gw_entries w) (gx_descriptor ctx) \<noteq> Some (Some g)"
  shows "graph_call Graph_full False ctx a w = Inl RuntimeError"
proof -
  have mode: "gx_runtime_mode ctx = Graph_full" using assms(1) by (simp add: graph_mode_of_def)
  have no_prefill: "\<not> is_running_in_prefill ctx (gw_prefill_entry (new_entry ctx a w))"
  proof
    assume prefill: "is_running_in_prefill ctx (gw_prefill_entry (new_entry ctx a w))"
    then obtain e where e: "gw_prefill_entry (new_entry ctx a w) = Some e" by (auto simp: is_running_in_prefill_def split: option.splits)
    have "gx_common_metadata ctx = Some (Some PREFILL_ONLY, replicate (pe_batch_size e) (pe_seq_len e))"
      using running_in_prefill_shape[OF prefill[unfolded e]] .
    moreover have "gw_prefill_entry w = Some e" using e assms(3) by (simp add: new_entry_def split: if_splits)
    ultimately show False using assms(2,5) by simp
  qed
  have "dict_get (gw_entries (new_entry ctx a w)) (gx_descriptor ctx) = Some None"
  proof (cases "dict_get (gw_entries w) (gx_descriptor ctx)")
    case None
    then show ?thesis using assms(3) by (simp add: new_entry_def map_of_eq_None_iff)
  next
    case (Some entry)
    then have "entry = None" using assms(6) by (cases entry) auto
    moreover have "gx_descriptor ctx \<in> set (dict_keys (gw_entries w))" using map_of_eq_None_iff[of "gw_entries w" "gx_descriptor ctx"] Some by simp
    ultimately show ?thesis using assms(3) Some by (simp add: new_entry_def)
  qed
  then show ?thesis using no_prefill mode assms(3,4) by (simp add: graph_call_def Let_def dict_at_def)
qed

theorem other_prefill_shape_raises_witness:
  "graph_call Graph_full False (prefill_ctx 7 [4, 3]) (prefill_args False)
     \<lparr>gw_prefill_entry = Some \<lparr>pe_batch_size = 2, pe_seq_len = 4, pe_graph = Some ex_graph\<rparr>, gw_entries = []\<rparr> = Inl RuntimeError"
  by (rule other_prefill_shape_raises[where dispatched = Graph_none and lens = "[4, 3]"])
     (simp_all add: prefill_ctx_def prefill_args_def graph_mode_of_def numeral_2_eq_2)

end
