(* ===== verification/NixlConnector.thy ===== *)
theory NixlConnector
  imports Prelude
begin

text \<open>
  The NIXL connector of the KV cache
  (\<^verbatim>\<open>vllm_mlu/distributed/kv_transfer/kv_connector/v1/nixl_connector.py\<close>): the scheduler side, which notes
  the requests to send, save and receive when their blocks are allocated, and the worker side, which registers the memory of
  the caches and one transfer descriptor per block. A tensor is its address, shape, strides in bytes, element size and
  device; what is handed to the NIXL agent (regions and descriptors) is kept in the state. Logging and the thread that
  listens for handshakes are left out; the metadata it serves is the rest of the state.
\<close>

section \<open>Scheduler side\<close>

datatype kv_param = Flag bool | Block_ids "nat list" | Text string | Number int

type_synonym transfer_params = "(string, kv_param) dict"

fun truthy :: "kv_param option \<Rightarrow> bool" where
  "truthy None = False"
| "truthy (Some (Flag b)) = b"
| "truthy (Some (Block_ids ids)) = (ids \<noteq> [])"
| "truthy (Some (Text s)) = (s \<noteq> [])"
| "truthy (Some (Number n)) = (n \<noteq> 0)"

record allocated =
  al_block_ids :: "nat list list"
  al_unhashed_block_ids :: "nat list"

record nixl_scheduler =
  ns_use_host_buffer :: bool
  ns_reqs_in_batch :: "string set"
  ns_reqs_need_save :: "(string, nat list) dict"
  ns_reqs_need_recv :: "(string, nat list) dict"

definition note_recv :: "string \<Rightarrow> transfer_params \<Rightarrow> allocated \<Rightarrow> int \<Rightarrow> nixl_scheduler \<Rightarrow> nixl_scheduler res" where
  "note_recv rid p blocks num_external_tokens st =
     (if truthy (dict_get p ''remote_block_ids'')
      then if list_all (\<lambda>k. k \<in> set (dict_keys p)) [''remote_engine_id'', ''remote_host'', ''remote_port'']
           then Inr (st\<lparr>ns_reqs_need_recv := dict_set rid (if num_external_tokens > 0 then al_unhashed_block_ids blocks else []) (ns_reqs_need_recv st)\<rparr>)
           else Inr st
      else require (num_external_tokens = 0) AssertionError (Inr st))"

definition nixl_update_state_after_alloc ::
  "string \<Rightarrow> transfer_params option \<Rightarrow> allocated \<Rightarrow> int \<Rightarrow> nixl_scheduler \<Rightarrow> (transfer_params \<times> nixl_scheduler) res" where
  "nixl_update_state_after_alloc rid params blocks num_external_tokens st =
     (case params of None \<Rightarrow> Inl AttributeError
      | Some p \<Rightarrow>
          if p = [] then Inr (p, st)
          else let decode = truthy (dict_get p ''do_remote_decode'');
                   st = (if decode then st\<lparr>ns_reqs_in_batch := insert rid (ns_reqs_in_batch st)\<rparr> else st)
               in if ns_use_host_buffer st \<and> decode
                  then bind_res (nth_res (al_block_ids blocks) 0) (\<lambda>ids.
                       Inr (p, if ids \<noteq> [] then st\<lparr>ns_reqs_need_save := dict_set rid ids (ns_reqs_need_save st)\<rparr> else st))
                  else if truthy (dict_get p ''do_remote_prefill'')
                  then bind_res (note_recv rid p blocks num_external_tokens st) (\<lambda>st.
                       Inr (dict_set ''do_remote_prefill'' (Flag False) p, st))
                  else Inr (p, st))"

text \<open>
  A sequence of allocations; the parameters of a request are an object that the calls modify. Between two allocations the
  scheduler may hand the noted requests over, which empties them; the result lists the requests noted to receive.
\<close>

fun alloc_run ::
  "(string \<times> allocated \<times> int) list \<Rightarrow> (string \<Rightarrow> transfer_params option) \<Rightarrow> nixl_scheduler \<Rightarrow> string list res" where
  "alloc_run [] ps st = Inr []"
| "alloc_run ((rid, blocks, n) # as) ps st =
     bind_res (nixl_update_state_after_alloc rid (ps rid) blocks n (st\<lparr>ns_reqs_need_recv := []\<rparr>)) (\<lambda>(p, st').
     bind_res (alloc_run as (ps(rid \<mapsto> p)) st') (\<lambda>rids. Inr (dict_keys (ns_reqs_need_recv st') @ rids)))"

section \<open>Worker side\<close>

record kv_tensor =
  kt_addr :: nat
  kt_shape :: "nat list"
  kt_strides :: "nat list"
  kt_elem_size :: nat
  kt_device :: nat

datatype kv_cache = One kv_tensor | Several "kv_tensor list"

record nixl_worker =
  nw_engine_id :: string
  nw_use_mla :: bool
  nw_use_flashinfer :: bool
  nw_block_size :: nat
  nw_tp_rank :: nat
  nw_llama4 :: "(int list \<times> nat) option"
  nw_num_blocks :: nat
  nw_slot_size_bytes :: nat
  nw_block_len :: nat
  nw_kv_caches :: "(string, kv_cache) dict"
  nw_dst_num_blocks :: "(string, nat) dict"
  nw_base_addrs :: "(string, nat list) dict"
  nw_num_regions :: nat
  nw_num_layers :: nat
  nw_block_windows :: "nat option list"
  nw_regions :: "(nat \<times> nat \<times> nat) list"
  nw_descriptors :: "(nat \<times> nat \<times> nat) list"

definition rows :: "kv_tensor \<Rightarrow> kv_tensor list res" where
  "rows t = (case kt_shape t of [] \<Rightarrow> Inl TypeError
     | n # shape \<Rightarrow> Inr (map (\<lambda>i. t\<lparr>kt_addr := kt_addr t + i * hd (kt_strides t), kt_shape := shape, kt_strides := tl (kt_strides t)\<rparr>) [0..<n]))"

definition first_part :: "kv_cache \<Rightarrow> kv_cache res" where
  "first_part c = (case c of Several ts \<Rightarrow> bind_res (nth_res ts 0) (\<lambda>t. Inr (One t))
     | One t \<Rightarrow> (if kt_shape t = [] then Inl IndexError else bind_res (rows t) (\<lambda>ts. bind_res (nth_res ts 0) (\<lambda>t. Inr (One t)))))"

definition last_dims :: "nat \<Rightarrow> nat list \<Rightarrow> nat list" where
  "last_dims n shape = drop (length shape - n) shape"

definition cache_geometry :: "nixl_worker \<Rightarrow> kv_tensor \<Rightarrow> (nat \<times> nat list \<times> nat \<times> nat) res" where
  "cache_geometry w t =
     (let shape = kt_shape t; e = kt_elem_size t
      in bind_res (nth_res shape 0) (\<lambda>n.
         require ((n = 1) = nw_use_mla w) AssertionError
         (if nw_use_mla w
          then bind_res (nth_res shape 1) (\<lambda>num_blocks.
               case last_dims 2 shape of [block_size, latent_dim] \<Rightarrow> Inr (num_blocks, last_dims 2 shape, e * latent_dim, block_size)
               | _ \<Rightarrow> Inl ValueError)
          else bind_res (nth_res shape (if nw_use_flashinfer w then 0 else 1)) (\<lambda>num_blocks.
               let block_shape = last_dims (if nw_use_flashinfer w then 4 else 3) shape
               in case last_dims 3 block_shape of
                    [n_kv_heads, block_size, head_dim] \<Rightarrow> Inr (num_blocks, block_shape, e * n_kv_heads * head_dim, block_size)
                  | _ \<Rightarrow> Inl ValueError))))"

definition cache_list :: "bool \<Rightarrow> kv_cache \<Rightarrow> kv_tensor list res" where
  "cache_list whole c = (case c of One t \<Rightarrow> if whole then Inr [t] else rows t
     | Several ts \<Rightarrow> if whole then Inl AttributeError else Inr ts)"

definition block_windows :: "nixl_worker \<Rightarrow> nat \<Rightarrow> nat option list res" where
  "block_windows w num_layers =
     (case nw_llama4 w of None \<Rightarrow> Inr (nw_block_windows w)
      | Some (no_rope_layers, chunk_size) \<Rightarrow>
          require (nw_block_size w \<noteq> 0) ZeroDivisionError
          (bind_res (map_res (\<lambda>i. bind_res (nth_res no_rope_layers i) (\<lambda>r.
              Inr (if r \<noteq> 0 then Some ((chunk_size + nw_block_size w - 1) div nw_block_size w) else None))) [0..<num_layers]) (\<lambda>ws.
           require (length (nw_block_windows w @ ws) = num_layers) AssertionError (Inr (nw_block_windows w @ ws)))))"

definition block_descriptors :: "nat \<Rightarrow> nat \<Rightarrow> nat \<Rightarrow> nat list \<Rightarrow> (nat \<times> nat \<times> nat) list" where
  "block_descriptors num_blocks block_len rank base_addrs =
     concat (map (\<lambda>base_addr. map (\<lambda>block_id. (base_addr + block_id * block_len, block_len, rank)) [0..<num_blocks]) base_addrs)"

definition nixl_register_kv_caches :: "(string, kv_cache) dict \<Rightarrow> nixl_worker \<Rightarrow> nixl_worker res" where
  "nixl_register_kv_caches caches w =
     require (caches \<noteq> []) StopIteration
     (bind_res (case snd (hd caches) of One _ \<Rightarrow> Inr caches
        | Several _ \<Rightarrow> map_res (\<lambda>(name, c). bind_res (first_part c) (\<lambda>c. Inr (name, c))) caches) (\<lambda>caches.
      bind_res (case snd (hd caches) of One t \<Rightarrow> Inr t | Several _ \<Rightarrow> Inl AttributeError) (\<lambda>first.
      bind_res (cache_geometry w first) (\<lambda>(num_blocks, block_shape, slot_size, block_size).
      require (block_size = nw_block_size w) AssertionError
      (let block_len = kt_elem_size first * prod_list block_shape
       in bind_res (map_res (\<lambda>(name, c). cache_list (nw_use_mla w \<or> nw_use_flashinfer w) c) caches) (\<lambda>lists.
          let tensors = concat lists; base_addrs = map kt_addr tensors
          in bind_res (block_windows w (length caches)) (\<lambda>windows.
             Inr (w\<lparr>nw_num_blocks := num_blocks, nw_slot_size_bytes := slot_size, nw_block_len := block_len,
               nw_kv_caches := caches, nw_dst_num_blocks := dict_set (nw_engine_id w) num_blocks (nw_dst_num_blocks w),
               nw_base_addrs := dict_set (nw_engine_id w) base_addrs (nw_base_addrs w),
               nw_num_regions := length tensors, nw_num_layers := length caches, nw_block_windows := windows,
               nw_regions := map (\<lambda>t. (kt_addr t, num_blocks * block_len, kt_device t)) tensors,
               nw_descriptors := block_descriptors num_blocks block_len (nw_tp_rank w) base_addrs\<rparr>))))))))"


section \<open>One transfer per request\<close>

lemma note_recv_keys:
  "note_recv rid p blocks n st = Inr st' \<Longrightarrow> ns_reqs_need_recv st = [] \<Longrightarrow> dict_keys (ns_reqs_need_recv st') \<in> {[], [rid]}"
  by (auto simp: note_recv_def require_eq_Inr split: if_splits)

lemma update_recv:
  assumes "nixl_update_state_after_alloc rid params blocks n (st\<lparr>ns_reqs_need_recv := []\<rparr>) = Inr (p, st')"
  shows "dict_keys (ns_reqs_need_recv st') = []
    \<or> dict_keys (ns_reqs_need_recv st') = [rid] \<and> \<not> truthy (dict_get p ''do_remote_prefill'')"
proof (cases params)
  case None
  then show ?thesis using assms by (simp add: nixl_update_state_after_alloc_def)
next
  case (Some q)
  then show ?thesis
    using assms note_recv_keys[of rid q blocks n]
    by (fastforce simp: nixl_update_state_after_alloc_def Let_def bind_res_eq_Inr split: if_splits)
qed

lemma update_keeps_done:
  assumes "nixl_update_state_after_alloc rid (Some q) blocks n (st\<lparr>ns_reqs_need_recv := []\<rparr>) = Inr (p, st')"
    and "\<not> truthy (dict_get q ''do_remote_prefill'')"
  shows "p = q \<and> ns_reqs_need_recv st' = []"
  using assms by (auto simp: nixl_update_state_after_alloc_def Let_def bind_res_eq_Inr split: if_splits)

definition prefill_done :: "(string \<Rightarrow> transfer_params option) \<Rightarrow> string \<Rightarrow> bool" where
  "prefill_done ps rid \<longleftrightarrow> (\<exists>p. ps rid = Some p \<and> \<not> truthy (dict_get p ''do_remote_prefill''))"

lemma alloc_run_distinct:
  "alloc_run as ps st = Inr rids \<Longrightarrow> distinct rids \<and> (\<forall>rid. prefill_done ps rid \<longrightarrow> rid \<notin> set rids)"
proof (induction as ps st arbitrary: rids rule: alloc_run.induct)
  case (2 rid blocks n as ps st)
  then obtain p st' rids' where
    step: "nixl_update_state_after_alloc rid (ps rid) blocks n (st\<lparr>ns_reqs_need_recv := []\<rparr>) = Inr (p, st')"
    and rest: "alloc_run as (ps(rid \<mapsto> p)) st' = Inr rids'" and rids: "rids = dict_keys (ns_reqs_need_recv st') @ rids'"
    by (auto simp: bind_res_eq_Inr)
  note ih = "2.IH"[OF step refl rest]
  have keep: "prefill_done (ps(rid \<mapsto> p)) r \<and> r \<notin> set (dict_keys (ns_reqs_need_recv st'))" if fin: "prefill_done ps r" for r
  proof (cases "r = rid")
    case True
    then obtain q where "ps rid = Some q" "\<not> truthy (dict_get q ''do_remote_prefill'')" using fin by (auto simp: prefill_done_def)
    then show ?thesis using update_keeps_done[of rid q blocks n st p st'] step True by (auto simp: prefill_done_def)
  next
    case False
    then show ?thesis using fin update_recv[OF step] by (auto simp: prefill_done_def)
  qed
  show ?case using update_recv[OF step]
  proof
    assume "dict_keys (ns_reqs_need_recv st') = []"
    then have "rids = rids'" using rids by simp
    then show ?thesis using ih keep by blast
  next
    assume noted: "dict_keys (ns_reqs_need_recv st') = [rid] \<and> \<not> truthy (dict_get p ''do_remote_prefill'')"
    then have "prefill_done (ps(rid \<mapsto> p)) rid" by (simp add: prefill_done_def)
    then have "rid \<notin> set rids'" using ih by blast
    moreover have "rids = rid # rids'" using rids noted by simp
    ultimately show ?thesis using ih keep noted by (metis distinct.simps(2) list.set_intros(1) set_ConsD)
  qed
qed simp

text \<open>A request without transfer parameters makes the call fail: its parameters are read before they are tested.\<close>

lemma request_without_params_fails:
  "ps rid = None \<Longrightarrow> rid \<notin> fst ` set before \<Longrightarrow> \<exists>e. alloc_run (before @ (rid, blocks, n) # after) ps st = Inl e"
proof (induction before ps st rule: alloc_run.induct)
  case (1 ps st)
  then show ?case by (simp add: nixl_update_state_after_alloc_def)
next
  case (2 rid' blocks' n' as ps st)
  show ?case
  proof (cases "nixl_update_state_after_alloc rid' (ps rid') blocks' n' (st\<lparr>ns_reqs_need_recv := []\<rparr>)")
    case (Inr y)
    obtain p st' where y: "y = (p, st')" by (cases y)
    have "(ps(rid' \<mapsto> p)) rid = None" "rid \<notin> fst ` set as" using "2.prems" by auto
    from "2.IH"[OF Inr y[symmetric] this]
    have "\<exists>e. alloc_run (as @ (rid, blocks, n) # after) (ps(rid' \<mapsto> p)) st' = Inl e" .
    then show ?thesis using Inr y by auto
  qed simp
qed

section \<open>The descriptors of the blocks\<close>

definition contiguous :: "kv_tensor \<Rightarrow> bool" where
  "contiguous t \<longleftrightarrow> kt_strides t = map (\<lambda>i. kt_elem_size t * prod_list (drop (Suc i) (kt_shape t))) [0..<length (kt_shape t)]"

definition mem_size :: "kv_tensor \<Rightarrow> nat" where
  "mem_size t = kt_elem_size t * prod_list (kt_shape t)"

text \<open>The blocks of one tensor lie one after the other.\<close>

definition tile :: "nat \<Rightarrow> nat \<Rightarrow> nat \<Rightarrow> nat \<Rightarrow> (nat \<times> nat \<times> nat) list" where
  "tile rank L n a = map (\<lambda>m. (a + m * L, L, rank)) [0..<n]"

definition covers :: "nat \<Rightarrow> nat \<times> nat \<times> nat \<Rightarrow> bool" where
  "covers x d \<longleftrightarrow> fst d \<le> x \<and> x < fst d + fst (snd d)"

lemma tile_append: "tile rank L (n + k) a = tile rank L n a @ tile rank L k (a + n * L)"
proof (induction k)
  case (Suc k)
  have "tile rank L (Suc m) b = tile rank L m b @ [(b + m * L, L, rank)]" for m b by (simp add: tile_def)
  then show ?case using Suc by (simp add: algebra_simps)
qed (simp add: tile_def)

lemma concat_tiles: "block_descriptors nb L rank (map (\<lambda>i. a + i * (nb * L)) [0..<k]) = tile rank L (k * nb) a"
proof (induction k)
  case 0
  show ?case by (simp add: block_descriptors_def tile_def)
next
  case (Suc k)
  have "tile rank L (k * nb + nb) a = tile rank L (k * nb) a @ tile rank L nb (a + k * (nb * L))"
    by (simp only: tile_append mult.assoc)
  moreover have "tile rank L nb (a + k * (nb * L)) = map (\<lambda>b. (a + k * (nb * L) + b * L, L, rank)) [0..<nb]" by (simp add: tile_def)
  ultimately have "tile rank L (Suc k * nb) a
    = tile rank L (k * nb) a @ map (\<lambda>b. (a + k * (nb * L) + b * L, L, rank)) [0..<nb]" by (simp only: mult_Suc add.commute[of nb])
  then show ?case using Suc by (simp add: block_descriptors_def)
qed

lemma tile_covers:
  "length (filter (covers x) (tile rank L n a)) = (if a \<le> x \<and> x < a + n * L then 1 else 0)"
proof (induction n)
  case 0
  show ?case by (simp add: tile_def)
next
  case (Suc n)
  then show ?case using tile_append[of rank L n 1 a] by (auto simp: tile_def covers_def)
qed

lemma block_descriptors_append: "block_descriptors nb L rank (xs @ ys) = block_descriptors nb L rank xs @ block_descriptors nb L rank ys"
  by (simp add: block_descriptors_def)

lemma block_descriptors_nth:
  "r < length bases \<Longrightarrow> b < nb \<Longrightarrow> block_descriptors nb L rank bases ! (r * nb + b) = (bases ! r + b * L, L, rank)"
proof (induction bases arbitrary: r)
  case (Cons a bases)
  then show ?case by (cases r) (auto simp: block_descriptors_def nth_append)
qed simp

lemma length_block_descriptors: "length (block_descriptors nb L rank bases) = length bases * nb"
  by (induction bases) (simp_all add: block_descriptors_def)

lemma cache_bases:
  assumes "contiguous t" "kt_shape t = [if mla then 1 else 2, nb, h, bs, d]"
  shows "\<exists>ts. cache_list mla (One t) = Inr ts
    \<and> map kt_addr ts = map (\<lambda>i. kt_addr t + i * (nb * (kt_elem_size t * (h * bs * d)))) [0..<(if mla then 1 else 2)]"
proof (cases mla)
  case False
  then have "hd (kt_strides t) = nb * (kt_elem_size t * (h * bs * d))"
    using assms by (simp add: contiguous_def upt_rec[of 0] algebra_simps)
  then show ?thesis using False assms(2) by (simp add: cache_list_def rows_def)
qed (simp add: cache_list_def)

lemma bases_of_caches:
  assumes "\<forall>t\<in>set ts. contiguous t \<and> kt_shape t = [if mla then 1 else 2, nb, h, bs, d] \<and> kt_elem_size t = e"
    and L: "L = e * (h * bs * d)" and "length names = length ts"
  shows "\<exists>tss. map_res (\<lambda>(name, c). cache_list mla c) (zip names (map One ts)) = Inr tss
    \<and> block_descriptors nb L rank (map kt_addr (concat tss)) = concat (map (\<lambda>t. tile rank L ((if mla then 1 else 2) * nb) (kt_addr t)) ts)
    \<and> length (concat tss) = length ts * (if mla then 1 else 2)"
  using assms(1,3)
proof (induction ts arbitrary: names)
  case Nil
  then show ?case by (simp add: block_descriptors_def)
next
  case (Cons t ts)
  obtain name names' where names: "names = name # names'" "length names' = length ts" using Cons.prems(2) by (cases names) auto
  obtain us where us: "cache_list mla (One t) = Inr us"
      "map kt_addr us = map (\<lambda>i. kt_addr t + i * (nb * (kt_elem_size t * (h * bs * d)))) [0..<(if mla then 1 else 2)]"
    using cache_bases[of t mla nb h bs d] Cons.prems(1) by (meson list.set_intros(1))
  have e: "kt_elem_size t = e" using Cons.prems(1) by simp
  have n: "length us = (if mla then 1 else 2)" using arg_cong[OF us(2), of length] by simp
  obtain tss where tss: "map_res (\<lambda>(name, c). cache_list mla c) (zip names' (map One ts)) = Inr tss"
      "block_descriptors nb L rank (map kt_addr (concat tss)) = concat (map (\<lambda>t. tile rank L ((if mla then 1 else 2) * nb) (kt_addr t)) ts)"
      "length (concat tss) = length ts * (if mla then 1 else 2)"
    using Cons.IH[OF _ names(2)] Cons.prems(1) by auto
  have "block_descriptors nb L rank (map kt_addr us) = tile rank L ((if mla then 1 else 2) * nb) (kt_addr t)"
    unfolding us(2) e L[symmetric] by (rule concat_tiles)
  then show ?case using names us(1) tss n by (simp add: block_descriptors_append)
qed

lemma geometry:
  assumes "kt_shape t = [if nw_use_mla w then 1 else 2, nb, h, bs, d]" "nw_use_mla w \<longrightarrow> h = 1" "\<not> nw_use_flashinfer w"
  shows "\<exists>shape slot. cache_geometry w t = Inr (nb, shape, slot, bs) \<and> prod_list shape = h * bs * d"
  using assms by (auto simp: cache_geometry_def last_dims_def Let_def)

section \<open>Properties\<close>

text \<open>
  registering caches that are contiguous tensors of one shape returns, and every byte of memory is covered by exactly
  as many block descriptors as there are caches that hold it (one, when the caches do not overlap); descriptor
  \<open>r * num_blocks + b\<close> is block \<open>b\<close> of region \<open>r\<close>.
\<close>

theorem block_descriptors_tile_caches:
  assumes "ts \<noteq> []" "length names = length ts" "\<not> nw_use_flashinfer w" "nw_llama4 w = None" "nw_block_size w = bs"
    and "\<forall>t\<in>set ts. contiguous t \<and> kt_shape t = [if nw_use_mla w then 1 else 2, nb, h, bs, d] \<and> kt_elem_size t = e"
    and "nw_use_mla w \<longrightarrow> h = 1"
  shows "\<exists>w'. nixl_register_kv_caches (zip names (map One ts)) w = Inr w'
    \<and> (\<forall>x. length (filter (covers x) (nw_descriptors w'))
          = length (filter (\<lambda>t. kt_addr t \<le> x \<and> x < kt_addr t + mem_size t) ts))
    \<and> length (nw_descriptors w') = nw_num_regions w' * nw_num_blocks w'
    \<and> (\<forall>r<nw_num_regions w'. \<forall>b<nw_num_blocks w'. \<exists>bases. dict_get (nw_base_addrs w') (nw_engine_id w) = Some bases
          \<and> nw_descriptors w' ! (r * nw_num_blocks w' + b) = (bases ! r + b * nw_block_len w', nw_block_len w', nw_tp_rank w))"
proof -
  define L where "L = e * (h * bs * d)"
  define k where "k = (if nw_use_mla w then 1 else 2 :: nat)"
  obtain t0 ts' where ts: "ts = t0 # ts'" using assms(1) by (cases ts) auto
  obtain n0 names' where names: "names = n0 # names'" using assms(2) ts by (cases names) auto
  have t0: "kt_shape t0 = [if nw_use_mla w then 1 else 2, nb, h, bs, d]" "kt_elem_size t0 = e" using assms(6) ts by auto
  obtain shape slot where geo: "cache_geometry w t0 = Inr (nb, shape, slot, bs)" "prod_list shape = h * bs * d"
    using geometry[OF t0(1) assms(7,3)] by blast
  obtain tss where tss: "map_res (\<lambda>(name, c). cache_list (nw_use_mla w) c) (zip names (map One ts)) = Inr tss"
      "block_descriptors nb L (nw_tp_rank w) (map kt_addr (concat tss)) = concat (map (\<lambda>t. tile (nw_tp_rank w) L (k * nb) (kt_addr t)) ts)"
    using bases_of_caches[OF assms(6) L_def assms(2)] unfolding k_def by blast
  define caches where "caches = zip names (map One ts)"
  have caches: "caches \<noteq> []" "snd (hd caches) = One t0" using ts names by (simp_all add: caches_def)
  obtain w' where w': "nixl_register_kv_caches caches w = Inr w'" "nw_num_blocks w' = nb" "nw_block_len w' = L"
      "nw_descriptors w' = block_descriptors nb L (nw_tp_rank w) (map kt_addr (concat tss))" "nw_num_regions w' = length (concat tss)"
      "nw_base_addrs w' = dict_set (nw_engine_id w) (map kt_addr (concat tss)) (nw_base_addrs w)"
    using caches geo t0(2) tss(1)[folded caches_def] assms(3,4,5)
    by (simp add: nixl_register_kv_caches_def block_windows_def Let_def L_def)
  have size: "mem_size t = k * nb * L" if "t \<in> set ts" for t using assms(6) that by (auto simp: mem_size_def L_def k_def algebra_simps)
  have cover: "length (filter (covers x) (concat (map (\<lambda>t. tile (nw_tp_rank w) L (k * nb) (kt_addr t)) us)))
      = length (filter (\<lambda>t. kt_addr t \<le> x \<and> x < kt_addr t + mem_size t) us)" if "set us \<subseteq> set ts" for x us
    using that by (induction us) (simp_all add: tile_covers size)
  have descs: "nw_descriptors w' = block_descriptors (nw_num_blocks w') (nw_block_len w') (nw_tp_rank w) (map kt_addr (concat tss))"
    using w'(2,3,4) by simp
  have "length (nw_descriptors w') = nw_num_regions w' * nw_num_blocks w'"
    unfolding descs length_block_descriptors w'(5) by simp
  moreover have "nw_descriptors w' ! (r * nw_num_blocks w' + b) = (map kt_addr (concat tss) ! r + b * nw_block_len w', nw_block_len w', nw_tp_rank w)"
    if "r < nw_num_regions w'" "b < nw_num_blocks w'" for r b
    unfolding descs using that w'(5) by (simp add: block_descriptors_nth del: nth_map)
  moreover have "dict_get (nw_base_addrs w') (nw_engine_id w) = Some (map kt_addr (concat tss))" using w'(6) by simp
  moreover have "length (filter (covers x) (nw_descriptors w')) = length (filter (\<lambda>t. kt_addr t \<le> x \<and> x < kt_addr t + mem_size t) ts)" for x
    unfolding w'(4) tss(2) by (rule cover[OF subset_refl])
  ultimately show ?thesis using w'(1) unfolding caches_def by blast
qed

definition ex_cache :: "nat \<Rightarrow> kv_tensor" where
  "ex_cache a = \<lparr>kt_addr = a, kt_shape = [2, 3, 1, 4, 2], kt_strides = [48, 16, 16, 4, 2], kt_elem_size = 2, kt_device = 0\<rparr>"

lemma ex_cache_simps:
  "kt_shape (ex_cache a) = [2, 3, 1, 4, 2]" "kt_strides (ex_cache a) = [48, 16, 16, 4, 2]" "kt_elem_size (ex_cache a) = 2"
  by (simp_all add: ex_cache_def)

definition ex_worker :: nixl_worker where
  "ex_worker = \<lparr>nw_engine_id = ''e'', nw_use_mla = False, nw_use_flashinfer = False, nw_block_size = 4, nw_tp_rank = 0, nw_llama4 = None,
     nw_num_blocks = 0, nw_slot_size_bytes = 0, nw_block_len = 0, nw_kv_caches = [], nw_dst_num_blocks = [], nw_base_addrs = [],
     nw_num_regions = 0, nw_num_layers = 0, nw_block_windows = [], nw_regions = [], nw_descriptors = []\<rparr>"

theorem block_descriptors_tile_caches_witness:
  "\<exists>w'. nixl_register_kv_caches [(''l0'', One (ex_cache 1000)), (''l1'', One (ex_cache 2000))] ex_worker = Inr w'
     \<and> length (nw_descriptors w') = nw_num_regions w' * nw_num_blocks w'"
  using block_descriptors_tile_caches[of "[ex_cache 1000, ex_cache 2000]" "[''l0'', ''l1'']" ex_worker 4 3 1 2 2]
  unfolding ex_worker_def by (simp add: contiguous_def upt_rec[of 0] ex_cache_simps) blast

text \<open>
  in every sequence of allocations that does not fail, a request is noted to receive its blocks from the other engine at
  most once, whatever its parameters and however often its blocks are allocated.
\<close>

theorem one_transfer_per_request:
  assumes "alloc_run allocations params st = Inr rids"
  shows "distinct rids"
  using alloc_run_distinct[OF assms] by blast

theorem one_transfer_per_request_witness:
  "distinct [''r'']"
proof -
  let ?p = "[(''do_remote_prefill'', Flag True), (''remote_block_ids'', Block_ids [5, 6]), (''remote_engine_id'', Text ''p''),
    (''remote_host'', Text ''h''), (''remote_port'', Number 1)]"
  let ?b = "\<lparr>al_block_ids = [[1, 2]], al_unhashed_block_ids = [2]\<rparr>"
  have "alloc_run [(''r'', ?b, 1), (''r'', ?b, 1)] [''r'' \<mapsto> ?p]
      \<lparr>ns_use_host_buffer = False, ns_reqs_in_batch = {}, ns_reqs_need_save = [], ns_reqs_need_recv = []\<rparr> = Inr [''r'']"
    by (simp add: nixl_update_state_after_alloc_def note_recv_def Let_def)
  from one_transfer_per_request[OF this] show ?thesis .
qed

end
