(* ===== verification/FusedMoeKernel.thy ===== *)
theory FusedMoeKernel
  imports MoeAlign
begin

text \<open>
  The kernel that multiplies the tokens of a mixture of experts with the matrices of their experts, and its launch
  (\<^verbatim>\<open>vllm_mlu/model_executor/layers/fused_moe/fused_moe.py\<close>). Tensors of numbers are buffers, functions
  from offsets to elements of a ring, addressed by the strides the kernel gets; the sorted tokens and the experts of the
  blocks are lists, and reading them out of range is an error. The programs of the grid run one after another in an
  arbitrary order, which is an argument. Numbers are exact: conversions between floating point types are left out.
\<close>

section \<open>The kernel\<close>

record kernel_args =
  ka_N :: nat
  ka_K :: nat
  ka_EM :: nat
  ka_num_valid_tokens :: nat
  ka_stride_am :: nat
  ka_stride_ak :: nat
  ka_stride_be :: nat
  ka_stride_bk :: nat
  ka_stride_bn :: nat
  ka_stride_cm :: nat
  ka_stride_cn :: nat
  ka_stride_asm :: nat
  ka_stride_ask :: nat
  ka_stride_bse :: nat
  ka_stride_bsk :: nat
  ka_stride_bsn :: nat
  ka_stride_bbe :: nat
  ka_stride_bbn :: nat
  ka_group_n :: nat
  ka_group_k :: nat
  ka_BLOCK_SIZE_M :: nat
  ka_BLOCK_SIZE_N :: nat
  ka_BLOCK_SIZE_K :: nat
  ka_GROUP_SIZE_M :: nat
  ka_MUL_ROUTED_WEIGHT :: bool
  ka_top_k :: nat
  ka_use_fp8_w8a8 :: bool
  ka_use_int8_w8a8 :: bool
  ka_use_int8_w8a16 :: bool
  ka_per_channel_quant :: bool
  ka_HAS_BIAS :: bool

record 'a kernel_data =
  kd_a :: "nat \<Rightarrow> 'a"
  kd_b :: "nat \<Rightarrow> 'a"
  kd_b_bias :: "nat \<Rightarrow> 'a"
  kd_a_scale :: "nat \<Rightarrow> 'a"
  kd_b_scale :: "nat \<Rightarrow> 'a"
  kd_topk_weights :: "nat \<Rightarrow> 'a"

text \<open>The block of the output a program computes.\<close>

definition block_of_pid :: "nat \<Rightarrow> nat \<Rightarrow> nat \<Rightarrow> nat \<Rightarrow> nat \<times> nat" where
  "block_of_pid GROUP_SIZE_M num_pid_m num_pid_n pid =
     (let num_pid_in_group = GROUP_SIZE_M * num_pid_n;
          group_id = pid div num_pid_in_group;
          first_pid_m = group_id * GROUP_SIZE_M;
          group_size_m = min (num_pid_m - first_pid_m) GROUP_SIZE_M
      in (first_pid_m + (pid mod num_pid_in_group) mod group_size_m, (pid mod num_pid_in_group) div group_size_m))"

definition block_wise :: "kernel_args \<Rightarrow> bool" where
  "block_wise ka \<longleftrightarrow> \<not> ka_use_int8_w8a16 ka \<and> (ka_use_fp8_w8a8 ka \<or> ka_use_int8_w8a8 ka) \<and> 0 < ka_group_k ka \<and> 0 < ka_group_n ka"

text \<open>One element of a block: the token of its row, the expert of the block and the column of the expert's matrix.\<close>

definition dot_k :: "kernel_args \<Rightarrow> 'a::comm_ring_1 kernel_data \<Rightarrow> nat \<Rightarrow> nat \<Rightarrow> nat \<Rightarrow> nat \<Rightarrow> 'a" where
  "dot_k ka d token e n k =
     sum_list (map (\<lambda>offs_k.
        (if token < ka_num_valid_tokens ka \<and> offs_k < ka_K ka - k * ka_BLOCK_SIZE_K ka
         then kd_a d (token div ka_top_k ka * ka_stride_am ka + offs_k * ka_stride_ak ka + k * (ka_BLOCK_SIZE_K ka * ka_stride_ak ka)) else 0)
      * (if offs_k < ka_K ka - k * ka_BLOCK_SIZE_K ka
         then kd_b d (e * ka_stride_be ka + (offs_k * ka_stride_bk ka + n * ka_stride_bn ka) + k * (ka_BLOCK_SIZE_K ka * ka_stride_bk ka)) else 0))
       [0..<ka_BLOCK_SIZE_K ka])"

definition accumulate_k :: "kernel_args \<Rightarrow> 'a::comm_ring_1 kernel_data \<Rightarrow> nat \<Rightarrow> nat \<Rightarrow> nat \<Rightarrow> 'a" where
  "accumulate_k ka d token e n =
     fold (\<lambda>k acc.
        if block_wise ka
        then let offs_ks = k * ka_BLOCK_SIZE_K ka div ka_group_k ka;
                 a_scale = (if token < ka_num_valid_tokens ka
                   then kd_a_scale d (token div ka_top_k ka * ka_stride_asm ka + offs_ks * ka_stride_ask ka) else 0);
                 b_scale = kd_b_scale d (e * ka_stride_bse ka + n div ka_group_n ka * ka_stride_bsn ka + offs_ks * ka_stride_bsk ka)
             in acc + dot_k ka d token e n k * a_scale * b_scale
        else acc + dot_k ka d token e n k) [0..<ceil_div (ka_K ka) (ka_BLOCK_SIZE_K ka)] 0"

definition finish_element :: "kernel_args \<Rightarrow> 'a::comm_ring_1 kernel_data \<Rightarrow> nat \<Rightarrow> nat \<Rightarrow> nat \<Rightarrow> 'a \<Rightarrow> 'a" where
  "finish_element ka d token e n acc =
     (let valid = token < ka_num_valid_tokens ka;
          acc = (if ka_HAS_BIAS ka then acc + (if n < ka_N ka then kd_b_bias d (e * ka_stride_bbe ka + n * ka_stride_bbn ka) else 0) else acc);
          acc = (if ka_MUL_ROUTED_WEIGHT ka then acc * (if valid then kd_topk_weights d token else 0) else acc);
          channel_scale = kd_b_scale d (e * ka_stride_bse ka + n * ka_stride_bsn ka)
      in if ka_use_int8_w8a16 ka then acc * channel_scale
         else if ka_use_fp8_w8a8 ka \<or> ka_use_int8_w8a8 ka
         then if block_wise ka then acc
              else if ka_per_channel_quant ka
              then acc * (if valid then kd_a_scale d (token div ka_top_k ka * ka_stride_asm ka) else 0) * channel_scale
              else acc * kd_a_scale d 0 * kd_b_scale d e
         else acc)"

definition kernel_element :: "kernel_args \<Rightarrow> 'a::comm_ring_1 kernel_data \<Rightarrow> nat \<Rightarrow> nat \<Rightarrow> nat \<Rightarrow> 'a" where
  "kernel_element ka d token e n = finish_element ka d token e n (accumulate_k ka d token e n)"

text \<open>Storing a block: only the rows of valid tokens and the columns within the matrix.\<close>

definition store_block :: "kernel_args \<Rightarrow> nat list \<Rightarrow> nat \<Rightarrow> (nat \<Rightarrow> nat \<Rightarrow> 'a) \<Rightarrow> (nat \<Rightarrow> 'a) \<Rightarrow> nat \<Rightarrow> 'a" where
  "store_block ka tokens pid_n val c =
     fold (\<lambda>(token, j) c.
        let offs_cn = pid_n * ka_BLOCK_SIZE_N ka + j
        in if token < ka_num_valid_tokens ka \<and> offs_cn < ka_N ka
           then c(ka_stride_cm ka * token + ka_stride_cn ka * offs_cn := val token (offs_cn mod ka_N ka)) else c)
       (List.product tokens [0..<ka_BLOCK_SIZE_N ka]) c"

text \<open>
  \<open>write_zeros\<close> stands for the function of vLLM that stores zeros at the block of an expert of another rank.
\<close>

type_synonym 'a zero_writer = "kernel_args \<Rightarrow> nat list \<Rightarrow> nat \<Rightarrow> (nat \<Rightarrow> 'a) \<Rightarrow> nat \<Rightarrow> 'a"

definition fused_moe_kernel ::
  "'a zero_writer \<Rightarrow> kernel_args \<Rightarrow> 'a::comm_ring_1 kernel_data \<Rightarrow> nat list \<Rightarrow> int list \<Rightarrow> nat \<Rightarrow> nat \<Rightarrow> nat \<times> nat
    \<Rightarrow> (nat \<Rightarrow> 'a) \<Rightarrow> (nat \<Rightarrow> 'a) res" where
  "fused_moe_kernel write_zeros ka d sorted_token_ids expert_ids num_tokens_post_padded num_programs_0 pids c =
     (let (pid_0, pid_1) = pids;
          pid = pid_1 * num_programs_0 + pid_0;
          (pid_m, pid_n) = block_of_pid (ka_GROUP_SIZE_M ka) (ceil_div (ka_EM ka) (ka_BLOCK_SIZE_M ka))
             (ceil_div (ka_N ka) (ka_BLOCK_SIZE_N ka)) pid
      in if pid_m * ka_BLOCK_SIZE_M ka \<ge> num_tokens_post_padded then Inr c
         else bind_res (map_res (nth_res sorted_token_ids) [pid_m * ka_BLOCK_SIZE_M ka..<pid_m * ka_BLOCK_SIZE_M ka + ka_BLOCK_SIZE_M ka]) (\<lambda>tokens.
              bind_res (nth_res expert_ids pid_m) (\<lambda>e.
              if e = -1 then Inr (write_zeros ka tokens pid_n c)
              else if e < 0 then Inl IndexError
              else Inr (store_block ka tokens pid_n (\<lambda>token n. kernel_element ka d token (nat e) n) c))))"

section \<open>The launch\<close>

text \<open>
  The checks that the tensors are contiguous are left out. A kernel that is compiled for scaled activations does not
  compile without their scales, which is a runtime error here.
\<close>

record moe_config =
  mc_BLOCK_SIZE_M :: nat
  mc_BLOCK_SIZE_N :: nat
  mc_BLOCK_SIZE_K :: nat
  mc_GROUP_SIZE_M :: nat

text \<open>A tensor is a buffer with sizes and strides.\<close>

record 'a strided_tensor =
  tn_buf :: "nat \<Rightarrow> 'a"
  tn_sizes :: "nat list"
  tn_strides :: "nat list"

record moe_flags =
  mf_use_fp8_w8a8 :: bool
  mf_use_int8_w8a8 :: bool
  mf_use_int8_w8a16 :: bool
  mf_use_int4_w4a16 :: bool
  mf_per_channel_quant :: bool

definition scale_checks :: "moe_flags \<Rightarrow> 'a strided_tensor option \<Rightarrow> 'a strided_tensor option \<Rightarrow> (nat \<times> nat) option \<Rightarrow> 'a strided_tensor \<Rightarrow> bool" where
  "scale_checks fl A_scale B_scale block_shape B =
     (if mf_use_fp8_w8a8 fl \<or> mf_use_int8_w8a8 fl
      then (case B_scale of None \<Rightarrow> False
        | Some s \<Rightarrow> (case block_shape of None \<Rightarrow> True
            | Some (n, k) \<Rightarrow> ceil_div (tn_sizes B ! 1) n = tn_sizes s ! (length (tn_sizes s) - 2)
                \<and> ceil_div (tn_sizes B ! 2) k = tn_sizes s ! (length (tn_sizes s) - 1)))
      else if mf_use_int8_w8a16 fl \<or> mf_use_int4_w4a16 fl
      then B_scale \<noteq> None \<and> (case block_shape of None \<Rightarrow> True | Some (n, k) \<Rightarrow> n = 0)
      else A_scale = None \<and> B_scale = None)"

definition stride_if :: "bool \<Rightarrow> nat \<Rightarrow> 'a strided_tensor option \<Rightarrow> nat" where
  "stride_if b i t = (case t of None \<Rightarrow> 0 | Some t \<Rightarrow> if b then tn_strides t ! i else 0)"

definition dims_of :: "'a strided_tensor option \<Rightarrow> nat" where
  "dims_of t = (case t of None \<Rightarrow> 0 | Some t \<Rightarrow> length (tn_sizes t))"

definition buf_of :: "'a::comm_ring_1 strided_tensor option \<Rightarrow> nat \<Rightarrow> 'a" where
  "buf_of t = (case t of None \<Rightarrow> (\<lambda>_. 0) | Some t \<Rightarrow> tn_buf t)"

text \<open>The rows the grid covers: a batch smaller than a block has at most one block per token and expert.\<close>

definition launch_EM :: "nat \<Rightarrow> nat \<Rightarrow> nat \<Rightarrow> nat \<Rightarrow> nat" where
  "launch_EM num_sorted M top_k BM = (if M < BM then min num_sorted (M * top_k * BM) else num_sorted)"

definition launch_args ::
  "'a strided_tensor \<Rightarrow> 'a strided_tensor \<Rightarrow> nat \<times> nat \<Rightarrow> 'a strided_tensor option \<Rightarrow> 'a strided_tensor option \<Rightarrow> 'a strided_tensor option \<Rightarrow> nat \<Rightarrow> bool \<Rightarrow> nat
    \<Rightarrow> moe_config \<Rightarrow> moe_flags \<Rightarrow> (nat \<times> nat) option \<Rightarrow> kernel_args" where
  "launch_args A B c_strides A_scale B_scale B_bias num_sorted mul_routed_weight top_k config fl block_shape =
     (let M = tn_sizes A ! 0; BM = mc_BLOCK_SIZE_M config in
      \<lparr>ka_N = tn_sizes B ! 1, ka_K = tn_sizes B ! 2,
       ka_EM = launch_EM num_sorted M top_k BM,
       ka_num_valid_tokens = M * top_k,
       ka_stride_am = tn_strides A ! 0, ka_stride_ak = tn_strides A ! 1,
       ka_stride_be = tn_strides B ! 0, ka_stride_bk = tn_strides B ! 2, ka_stride_bn = tn_strides B ! 1,
       ka_stride_cm = fst c_strides, ka_stride_cn = snd c_strides,
       ka_stride_asm = stride_if (dims_of A_scale = 2) 0 A_scale, ka_stride_ask = stride_if (dims_of A_scale = 2) 1 A_scale,
       ka_stride_bse = stride_if (2 \<le> dims_of B_scale) 0 B_scale, ka_stride_bsk = stride_if (dims_of B_scale = 3) 2 B_scale,
       ka_stride_bsn = stride_if (2 \<le> dims_of B_scale) 1 B_scale,
       ka_stride_bbe = stride_if True 0 B_bias, ka_stride_bbn = stride_if True 1 B_bias,
       ka_group_n = (case block_shape of None \<Rightarrow> 0 | Some (n, k) \<Rightarrow> n), ka_group_k = (case block_shape of None \<Rightarrow> 0 | Some (n, k) \<Rightarrow> k),
       ka_BLOCK_SIZE_M = BM, ka_BLOCK_SIZE_N = mc_BLOCK_SIZE_N config,
       ka_BLOCK_SIZE_K = (case block_shape of None \<Rightarrow> mc_BLOCK_SIZE_K config | Some (n, k) \<Rightarrow> min (mc_BLOCK_SIZE_K config) (min n k)),
       ka_GROUP_SIZE_M = mc_GROUP_SIZE_M config, ka_MUL_ROUTED_WEIGHT = mul_routed_weight, ka_top_k = top_k,
       ka_use_fp8_w8a8 = mf_use_fp8_w8a8 fl, ka_use_int8_w8a8 = mf_use_int8_w8a8 fl, ka_use_int8_w8a16 = mf_use_int8_w8a16 fl,
       ka_per_channel_quant = mf_per_channel_quant fl, ka_HAS_BIAS = (B_bias \<noteq> None)\<rparr>)"

definition launch_data ::
  "'a::comm_ring_1 strided_tensor \<Rightarrow> 'a strided_tensor \<Rightarrow> 'a strided_tensor option \<Rightarrow> 'a strided_tensor option \<Rightarrow> 'a strided_tensor option \<Rightarrow> (nat \<Rightarrow> 'a) option \<Rightarrow> 'a kernel_data" where
  "launch_data A B A_scale B_scale B_bias topk_weights =
     \<lparr>kd_a = tn_buf A, kd_b = tn_buf B, kd_b_bias = buf_of B_bias, kd_a_scale = buf_of A_scale, kd_b_scale = buf_of B_scale,
      kd_topk_weights = (case topk_weights of None \<Rightarrow> (\<lambda>_. 0) | Some w \<Rightarrow> w)\<rparr>"

definition invoke_fused_moe_kernel ::
  "'a zero_writer \<Rightarrow> (nat \<times> nat) list \<Rightarrow> 'a::comm_ring_1 strided_tensor \<Rightarrow> 'a strided_tensor \<Rightarrow> nat \<times> nat \<Rightarrow> 'a strided_tensor option \<Rightarrow> 'a strided_tensor option
    \<Rightarrow> (nat \<Rightarrow> 'a) option \<Rightarrow> nat list \<Rightarrow> int list \<Rightarrow> nat \<Rightarrow> bool \<Rightarrow> nat \<Rightarrow> moe_config \<Rightarrow> moe_flags \<Rightarrow> (nat \<times> nat) option
    \<Rightarrow> 'a strided_tensor option \<Rightarrow> (nat \<Rightarrow> 'a) \<Rightarrow> (nat \<Rightarrow> 'a) res" where
  "invoke_fused_moe_kernel write_zeros order A B c_strides A_scale B_scale topk_weights sorted_token_ids expert_ids
       num_tokens_post_padded mul_routed_weight top_k config fl block_shape B_bias c =
     require (topk_weights \<noteq> None \<or> \<not> mul_routed_weight) AssertionError
     (require (scale_checks fl A_scale B_scale block_shape B) AssertionError
     (require (\<not> (mf_use_int8_w8a16 fl \<or> mf_use_int4_w4a16 fl)) AssertionError
     (require (\<not> (mf_use_fp8_w8a8 fl \<or> mf_use_int8_w8a8 fl) \<or> A_scale \<noteq> None) RuntimeError
     (let ka = launch_args A B c_strides A_scale B_scale B_bias (length sorted_token_ids) mul_routed_weight top_k config fl block_shape;
          d = launch_data A B A_scale B_scale B_bias topk_weights
      in fold_res (fused_moe_kernel write_zeros ka d sorted_token_ids expert_ids num_tokens_post_padded
           (ceil_div (ka_EM ka) (ka_BLOCK_SIZE_M ka))) order c))))"


section \<open>The blocks of the programs\<close>

lemma block_of_pid_surj:
  assumes "0 < G" "m < M" "n < N"
  shows "\<exists>pid < M * N. block_of_pid G M N pid = (m, n)"
proof -
  define g where "g = m div G"
  define sz where "sz = min (M - g * G) G"
  define inner where "inner = n * sz + (m - g * G)"
  have m: "g * G \<le> m" "m < g * G + G" using assms(1) dividend_less_div_times[of G m] by (simp_all add: g_def add.commute)
  then have sz: "0 < sz" "m - g * G < sz" "g * G + sz \<le> M" using assms(2) by (auto simp: sz_def)
  have "inner < n * sz + sz" using sz(2) by (simp add: inner_def)
  also have "\<dots> = Suc n * sz" by simp
  also have "\<dots> \<le> N * sz" using assms(3) by (intro mult_right_mono) simp_all
  finally have w: "inner < N * sz" .
  have "N * sz \<le> G * N" by (simp add: sz_def mult.commute[of G])
  with w have w': "inner < G * N" by (rule less_le_trans)
  have "(g * G + sz) * N \<le> M * N" using sz(3) by (rule mult_right_mono) simp
  then have "g * (G * N) + inner < M * N" using w by (simp add: algebra_simps)
  moreover have "(g * Z + inner) div Z = g \<and> (g * Z + inner) mod Z = inner" if "inner < Z" for Z
    using that by simp
  then have "(g * (G * N) + inner) div (G * N) = g" "(g * (G * N) + inner) mod (G * N) = inner"
    using w' by blast+
  moreover have "inner mod sz = m - g * G" "inner div sz = n" using sz(1,2) by (simp_all add: inner_def)
  ultimately show ?thesis
    using m(1) by (intro exI[of _ "g * (G * N) + inner"]) (simp add: block_of_pid_def Let_def sz_def[symmetric])
qed

section \<open>Stores\<close>

lemma fold_updates:
  assumes "\<forall>x\<in>set xs. P x \<longrightarrow> g x = W (f x)"
  shows "fold (\<lambda>x c. if P x then c(f x := g x) else c) xs c = (\<lambda>a. if \<exists>x\<in>set xs. P x \<and> f x = a then W a else c a)"
  using assms
proof (induction xs arbitrary: c)
  case (Cons x xs)
  then show ?case by (cases "P x") (auto intro!: ext)
qed simp

lemma fold_res_updates:
  assumes "\<And>x c. x \<in> set xs \<Longrightarrow> F x c = Inr (\<lambda>a. if Q x a then W a else c a)"
  shows "fold_res F xs c = Inr (\<lambda>a. if \<exists>x\<in>set xs. Q x a then W a else c a)"
  using assms by (induction xs arbitrary: c) auto

definition block_cells :: "kernel_args \<Rightarrow> nat list \<Rightarrow> nat \<Rightarrow> nat \<Rightarrow> bool" where
  "block_cells ka tokens pid_n a \<longleftrightarrow> (\<exists>t\<in>set tokens. \<exists>j<ka_BLOCK_SIZE_N ka. t < ka_num_valid_tokens ka
     \<and> pid_n * ka_BLOCK_SIZE_N ka + j < ka_N ka \<and> a = ka_stride_cm ka * t + ka_stride_cn ka * (pid_n * ka_BLOCK_SIZE_N ka + j))"

lemma store_block_cells:
  assumes "\<And>t n. t \<in> set tokens \<Longrightarrow> t < ka_num_valid_tokens ka \<Longrightarrow> n < ka_N ka \<Longrightarrow> val t n = W (ka_stride_cm ka * t + ka_stride_cn ka * n)"
  shows "store_block ka tokens pid_n val c = (\<lambda>a. if block_cells ka tokens pid_n a then W a else c a)"
proof -
  let ?P = "\<lambda>(t, j). t < ka_num_valid_tokens ka \<and> pid_n * ka_BLOCK_SIZE_N ka + j < ka_N ka"
  let ?f = "\<lambda>(t, j). ka_stride_cm ka * t + ka_stride_cn ka * (pid_n * ka_BLOCK_SIZE_N ka + j)"
  let ?g = "\<lambda>(t, j). val t ((pid_n * ka_BLOCK_SIZE_N ka + j) mod ka_N ka)"
  let ?xs = "List.product tokens [0..<ka_BLOCK_SIZE_N ka]"
  have "store_block ka tokens pid_n val c = fold (\<lambda>x c. if ?P x then c(?f x := ?g x) else c) ?xs c"
    unfolding store_block_def Let_def by (rule fold_cong) auto
  also have "\<dots> = (\<lambda>a. if \<exists>x\<in>set ?xs. ?P x \<and> ?f x = a then W a else c a)"
    by (rule fold_updates) (use assms in auto)
  also have "\<dots> = (\<lambda>a. if block_cells ka tokens pid_n a then W a else c a)"
    unfolding block_cells_def by (intro ext if_cong refl) fastforce
  finally show ?thesis .
qed

section \<open>Blocks of tokens of one expert\<close>

lemma reference_block:
  assumes "0 < B" "m < off (blocks_of ids B) E"
  shows "\<exists>e<E. reference_experts ids E B ! m = e
    \<and> (\<forall>i<B. reference_sorted ids E B ! (m * B + i) < length ids \<longrightarrow> ids ! (reference_sorted ids E B ! (m * B + i)) = e)"
proof -
  let ?bl = "blocks_of ids B"
  obtain e r where e: "e < E" "r < ?bl e" "m = off ?bl e + r" using off_find[OF assms(2)] by blast
  have "reference_experts ids E B ! m = e"
    using nth_concat_off[of e E r "\<lambda>e. replicate (?bl e) e"] e by (simp add: reference_experts_def)
  moreover have "ids ! (reference_sorted ids E B ! (m * B + i)) = e" if i: "i < B" "reference_sorted ids E B ! (m * B + i) < length ids" for i
  proof -
    have "r * B + i < Suc r * B" using i(1) by simp
    also have "\<dots> \<le> ?bl e * B" using e(2) by (intro mult_right_mono) simp_all
    finally have r: "r * B + i < ?bl e * B" .
    have "off (\<lambda>e. ?bl e * B) e + (r * B + i) = m * B + i"
      using e(3) by (simp add: off_scale add_mult_distrib)
    then have val: "reference_sorted ids E B ! (m * B + i) = padded_bucket ids B e ! (r * B + i)"
      using nth_concat_off[OF e(1), of "r * B + i" "padded_bucket ids B"] r
      unfolding reference_sorted_def length_padded_bucket[OF assms(1)] by metis
    then have "padded_bucket ids B e ! (r * B + i) \<in> set (bucket ids e)"
      using i(2) r by (auto simp: padded_bucket_def nth_append split: if_splits)
    then show ?thesis unfolding val by (simp add: bucket_def)
  qed
  ultimately show ?thesis using e(1) by blast
qed

lemma reference_has_token:
  assumes "0 < B" "t < length ids" "ids ! t < E"
  shows "\<exists>m i. m < off (blocks_of ids B) E \<and> i < B \<and> reference_sorted ids E B ! (m * B + i) = t"
proof -
  let ?bl = "blocks_of ids B"
  define e where "e = ids ! t"
  have "t \<in> set (bucket ids e)" using assms(2) by (simp add: bucket_def e_def)
  then obtain r where r: "r < length (bucket ids e)" "bucket ids e ! r = t" by (auto simp: in_set_conv_nth)
  have fits: "r < ?bl e * B" using r(1) bucket_fits[OF assms(1), of ids e] by simp
  define m where "m = off ?bl e + r div B"
  have "r div B < ?bl e" using fits by (simp add: less_mult_imp_div_less)
  then have "m < off ?bl (Suc e)" by (simp add: m_def)
  also have "\<dots> \<le> off ?bl E" using assms(3) by (intro off_mono) (simp add: e_def)
  finally have "m < off ?bl E" .
  moreover have "m * B + r mod B = off (\<lambda>e. length (padded_bucket ids B e)) e + r"
    using assms(1) by (simp add: m_def length_padded_bucket off_scale add_mult_distrib)
  then have "reference_sorted ids E B ! (m * B + r mod B) = t"
    using nth_concat_off[of e E r "padded_bucket ids B"] fits assms(1,3) r
    by (simp add: reference_sorted_def length_padded_bucket padded_bucket_def nth_append e_def[symmetric])
  ultimately show ?thesis using assms(1) by (metis mod_less_divisor)
qed

lemma ceil_div_self_le: "0 < B \<Longrightarrow> ceil_div n B \<le> n"
  by (cases n) (simp_all add: ceil_div_def div_le_mono2[of 1, simplified] div_add1_eq[symmetric])

text \<open>There are at most as many blocks as tokens, so that a short grid for small batches covers all of them.\<close>

lemma blocks_le_tokens:
  assumes "0 < B" "in_range ids E"
  shows "off (blocks_of ids B) E \<le> length ids"
proof -
  have "off (blocks_of ids B) E \<le> (\<Sum>e<E. count_upto ids (length ids) e)"
    unfolding off_def blocks_of_def length_bucket using ceil_div_self_le[OF assms(1)] by (intro sum_mono) simp
  then show ?thesis using count_all[of "length ids" ids E] assms(2) by simp
qed


section \<open>Elements\<close>

text \<open>The product of a token's row with a column of its expert's matrix, dequantized group by group where there are groups.\<close>

definition expert_product :: "kernel_args \<Rightarrow> 'a::comm_ring_1 kernel_data \<Rightarrow> nat \<Rightarrow> nat \<Rightarrow> nat \<Rightarrow> 'a" where
  "expert_product ka d t e n =
     (\<Sum>k<ka_K ka. kd_a d (t div ka_top_k ka * ka_stride_am ka + k * ka_stride_ak ka)
        * kd_b d (e * ka_stride_be ka + k * ka_stride_bk ka + n * ka_stride_bn ka)
        * (if block_wise ka
           then kd_a_scale d (t div ka_top_k ka * ka_stride_asm ka + k div ka_group_k ka * ka_stride_ask ka)
              * kd_b_scale d (e * ka_stride_bse ka + n div ka_group_n ka * ka_stride_bsn ka + k div ka_group_k ka * ka_stride_bsk ka)
           else 1))"

lemma fold_plus: "fold (\<lambda>k acc. acc + f k) ks (z :: 'a::comm_monoid_add) = z + sum_list (map f ks)"
  by (induction ks arbitrary: z) (simp_all add: add.assoc)

lemma sum_blocks:
  fixes f :: "nat \<Rightarrow> 'a::comm_monoid_add"
  assumes "0 < B"
  shows "(\<Sum>k<ceil_div K B. \<Sum>j<B. if j < K - k * B then f (k * B + j) else 0) = (\<Sum>k<K. f k)"
proof -
  let ?F = "\<lambda>i. if i < K then f i else 0"
  have inner: "(\<Sum>j<B. if j < K - k * B then f (k * B + j) else 0) = (\<Sum>i\<in>{k * B..<k * B + B}. ?F i)" for k
  proof -
    have "(\<Sum>i\<in>{k * B..<k * B + B}. ?F i) = (\<Sum>j\<in>{0..<B}. ?F (j + k * B))"
      using sum.shift_bounds_nat_ivl[of ?F 0 "k * B" B] by (simp add: add.commute)
    also have "\<dots> = (\<Sum>j<B. if j < K - k * B then f (k * B + j) else 0)"
      by (rule sum.cong) (auto simp: add.commute lessThan_atLeast0)
    finally show ?thesis by simp
  qed
  have blocks: "(\<Sum>k<n. \<Sum>i\<in>{k * B..<k * B + B}. ?F i) = (\<Sum>i<n * B. ?F i)" for n
    by (rule sum.nat_group)
  have "(\<Sum>k<ceil_div K B. \<Sum>j<B. if j < K - k * B then f (k * B + j) else 0) = (\<Sum>i<ceil_div K B * B. ?F i)"
    unfolding inner blocks ..
  also have "\<dots> = (\<Sum>i<K. ?F i)"
    using le_ceil_div[OF assms, of K] by (intro sum.mono_neutral_right) auto
  finally show ?thesis by simp
qed

lemma accumulate_product:
  assumes "0 < ka_BLOCK_SIZE_K ka" "t < ka_num_valid_tokens ka" "block_wise ka \<longrightarrow> ka_BLOCK_SIZE_K ka dvd ka_group_k ka"
  shows "accumulate_k ka d t e n = expert_product ka d t e n"
proof -
  let ?B = "ka_BLOCK_SIZE_K ka" and ?K = "ka_K ka"
  let ?a = "\<lambda>k. kd_a d (t div ka_top_k ka * ka_stride_am ka + k * ka_stride_ak ka)"
  let ?b = "\<lambda>k. kd_b d (e * ka_stride_be ka + k * ka_stride_bk ka + n * ka_stride_bn ka)"
  let ?s = "\<lambda>g. if block_wise ka then kd_a_scale d (t div ka_top_k ka * ka_stride_asm ka + g * ka_stride_ask ka)
      * kd_b_scale d (e * ka_stride_bse ka + n div ka_group_n ka * ka_stride_bsn ka + g * ka_stride_bsk ka) else 1"
  have dot: "dot_k ka d t e n k = (\<Sum>j<?B. if j < ?K - k * ?B then ?a (k * ?B + j) * ?b (k * ?B + j) else 0)" for k
    unfolding dot_k_def using assms(2)
    by (simp add: sum_list_distinct_conv_sum_set lessThan_atLeast0[symmetric] if_distrib algebra_simps cong: if_cong sum.cong)
  have grp: "k * ?B div ka_group_k ka = (k * ?B + j) div ka_group_k ka" if "block_wise ka" "j < ?B" for k j
  proof -
    have "?B dvd ka_group_k ka" using assms(3) that(1) by blast
    then obtain q where q: "ka_group_k ka = ?B * q" by (elim dvdE)
    have "(k * ?B + j) div ?B = k" "k * ?B div ?B = k" using that(2) assms(1) by simp_all
    then show ?thesis unfolding q by (simp only: div_mult2_eq)
  qed
  have "accumulate_k ka d t e n = (\<Sum>k<ceil_div ?K ?B. dot_k ka d t e n k * ?s (k * ?B div ka_group_k ka))"
  proof -
    have "accumulate_k ka d t e n = fold (\<lambda>k acc. acc + dot_k ka d t e n k * ?s (k * ?B div ka_group_k ka)) [0..<ceil_div ?K ?B] 0"
      unfolding accumulate_k_def by (rule fold_cong) (use assms(2) in \<open>simp_all add: Let_def fun_eq_iff mult.assoc\<close>)
    then show ?thesis by (simp add: fold_plus sum_list_distinct_conv_sum_set lessThan_atLeast0[symmetric])
  qed
  also have "\<dots> = (\<Sum>k<ceil_div ?K ?B. \<Sum>j<?B. if j < ?K - k * ?B
      then ?a (k * ?B + j) * ?b (k * ?B + j) * ?s ((k * ?B + j) div ka_group_k ka) else 0)"
    unfolding dot sum_distrib_right by (intro sum.cong refl) (use grp in auto)
  also have "\<dots> = expert_product ka d t e n" unfolding sum_blocks[OF assms(1), of ?K "\<lambda>k. ?a k * ?b k * ?s (k div ka_group_k ka)"]
    by (simp add: expert_product_def)
  finally show ?thesis .
qed


section \<open>Launching the kernel on aligned tokens\<close>

text \<open>The function of vLLM stores zeros where the kernel would store its block.\<close>

definition stores_zeros :: "'a::comm_ring_1 zero_writer \<Rightarrow> bool" where
  "stores_zeros wz \<longleftrightarrow> (\<forall>ka tokens pid_n c. wz ka tokens pid_n c = store_block ka tokens pid_n (\<lambda>_ _. 0) c)"

text \<open>
  The factors that undo the quantization of an element of a token and of an element of an expert's matrix: none, or
  a scale for every group of columns, for every token and every row of the matrix, or for the whole tensor.
\<close>

definition token_scale :: "kernel_args \<Rightarrow> 'a::comm_ring_1 kernel_data \<Rightarrow> nat \<Rightarrow> nat \<Rightarrow> 'a" where
  "token_scale ka d t k =
     (let row = t div ka_top_k ka * ka_stride_asm ka
      in if ka_use_int8_w8a16 ka \<or> \<not> ka_use_fp8_w8a8 ka \<and> \<not> ka_use_int8_w8a8 ka then 1
         else if 0 < ka_group_k ka \<and> 0 < ka_group_n ka then kd_a_scale d (row + k div ka_group_k ka * ka_stride_ask ka)
         else if ka_per_channel_quant ka then kd_a_scale d row else kd_a_scale d 0)"

definition matrix_scale :: "kernel_args \<Rightarrow> 'a::comm_ring_1 kernel_data \<Rightarrow> nat \<Rightarrow> nat \<Rightarrow> nat \<Rightarrow> 'a" where
  "matrix_scale ka d e n k =
     (let row = e * ka_stride_bse ka + n * ka_stride_bsn ka
      in if ka_use_int8_w8a16 ka then kd_b_scale d row
         else if \<not> ka_use_fp8_w8a8 ka \<and> \<not> ka_use_int8_w8a8 ka then 1
         else if 0 < ka_group_k ka \<and> 0 < ka_group_n ka
         then kd_b_scale d (e * ka_stride_bse ka + n div ka_group_n ka * ka_stride_bsn ka + k div ka_group_k ka * ka_stride_bsk ka)
         else if ka_per_channel_quant ka then kd_b_scale d row else kd_b_scale d e)"

text \<open>
  What a mixture of experts asks for: the product of the dequantized token with the dequantized column of the
  matrix of its expert \<open>e\<close>, plus the bias of the expert, times the weight of the expert for the token.
\<close>

definition moe_value :: "kernel_args \<Rightarrow> 'a::comm_ring_1 kernel_data \<Rightarrow> int \<Rightarrow> nat \<Rightarrow> nat \<Rightarrow> 'a" where
  "moe_value ka d e t n =
     (if e = -1 then 0
      else ((\<Sum>k<ka_K ka. (kd_a d (t div ka_top_k ka * ka_stride_am ka + k * ka_stride_ak ka) * token_scale ka d t k)
              * (kd_b d (nat e * ka_stride_be ka + k * ka_stride_bk ka + n * ka_stride_bn ka) * matrix_scale ka d (nat e) n k))
            + (if ka_HAS_BIAS ka then kd_b_bias d (nat e * ka_stride_bbe ka + n * ka_stride_bbn ka) else 0))
        * (if ka_MUL_ROUTED_WEIGHT ka then kd_topk_weights d t else 1))"

text \<open>The modes whose scales the kernel multiplies after the loop, and after it added the bias.\<close>

definition scaled_at_end :: "kernel_args \<Rightarrow> bool" where
  "scaled_at_end ka \<longleftrightarrow> ka_use_int8_w8a16 ka \<or> (ka_use_fp8_w8a8 ka \<or> ka_use_int8_w8a8 ka) \<and> \<not> block_wise ka"

lemma element_scaled:
  assumes "scaled_at_end ka"
  shows "(\<Sum>k<K. f k * token_scale ka d t k * (g k * matrix_scale ka d e n k))
    = (\<Sum>k<K. f k * g k) * token_scale ka d t 0 * matrix_scale ka d e n 0"
proof -
  have "token_scale ka d t k = token_scale ka d t 0" "matrix_scale ka d e n k = matrix_scale ka d e n 0" for k
    using assms by (auto simp: scaled_at_end_def block_wise_def token_scale_def matrix_scale_def Let_def)
  then have "(\<Sum>k<K. f k * token_scale ka d t k * (g k * matrix_scale ka d e n k))
    = (\<Sum>k<K. f k * g k * (token_scale ka d t 0 * matrix_scale ka d e n 0))"
    by (intro sum.cong refl) (metis (no_types, lifting) mult.assoc mult.left_commute)
  then show ?thesis by (simp add: sum_distrib_right mult.assoc)
qed

text \<open>The kernel stores that value unless it adds a bias before it multiplies the scales.\<close>

lemma kernel_element_value:
  assumes "0 < ka_BLOCK_SIZE_K ka" "block_wise ka \<longrightarrow> ka_BLOCK_SIZE_K ka dvd ka_group_k ka"
    and "t < ka_num_valid_tokens ka" "n < ka_N ka" "ka_HAS_BIAS ka \<longrightarrow> \<not> scaled_at_end ka"
  shows "kernel_element ka d t e n = moe_value ka d (int e) t n"
proof -
  let ?a = "\<lambda>k. kd_a d (t div ka_top_k ka * ka_stride_am ka + k * ka_stride_ak ka)"
  let ?b = "\<lambda>k. kd_b d (e * ka_stride_be ka + k * ka_stride_bk ka + n * ka_stride_bn ka)"
  let ?w = "if ka_MUL_ROUTED_WEIGHT ka then kd_topk_weights d t else 1"
  have acc: "kernel_element ka d t e n = finish_element ka d t e n (expert_product ka d t e n)"
    unfolding kernel_element_def accumulate_product[OF assms(1,3,2)] ..
  show ?thesis
  proof (cases "scaled_at_end ka")
    case True
    then have nb: "\<not> ka_HAS_BIAS ka" "\<not> block_wise ka" using assms(5) by (auto simp: scaled_at_end_def block_wise_def)
    then have prod: "expert_product ka d t e n = (\<Sum>k<ka_K ka. ?a k * ?b k)" by (simp add: expert_product_def)
    have "moe_value ka d (int e) t n = (\<Sum>k<ka_K ka. ?a k * ?b k) * token_scale ka d t 0 * matrix_scale ka d e n 0 * ?w"
      using nb(1) by (simp add: moe_value_def element_scaled[OF True])
    moreover have "finish_element ka d t e n x = x * ?w * token_scale ka d t 0 * matrix_scale ka d e n 0" for x
      using True nb assms(3) by (auto simp: finish_element_def token_scale_def matrix_scale_def scaled_at_end_def block_wise_def Let_def)
    ultimately show ?thesis using acc prod by (simp add: mult_ac)
  next
    case False
    then have "expert_product ka d t e n
        = (\<Sum>k<ka_K ka. ?a k * token_scale ka d t k * (?b k * matrix_scale ka d e n k))"
      unfolding expert_product_def
      by (intro sum.cong refl) (auto simp: scaled_at_end_def block_wise_def token_scale_def matrix_scale_def Let_def algebra_simps)
    moreover have "finish_element ka d t e n x
        = (x + (if ka_HAS_BIAS ka then kd_b_bias d (e * ka_stride_bbe ka + n * ka_stride_bbn ka) else 0)) * ?w" for x
      using False assms(3,4) by (auto simp: finish_element_def scaled_at_end_def block_wise_def Let_def)
    ultimately show ?thesis using acc by (simp add: moe_value_def)
  qed
qed

definition sizes_ok :: "kernel_args \<Rightarrow> bool" where
  "sizes_ok ka \<longleftrightarrow> 0 < ka_BLOCK_SIZE_M ka \<and> 0 < ka_BLOCK_SIZE_N ka \<and> 0 < ka_BLOCK_SIZE_K ka \<and> 0 < ka_GROUP_SIZE_M ka
     \<and> (block_wise ka \<longrightarrow> ka_BLOCK_SIZE_K ka dvd ka_group_k ka)
     \<and> inj_on (\<lambda>(t, n). ka_stride_cm ka * t + ka_stride_cn ka * n) ({..<ka_num_valid_tokens ka} \<times> {..<ka_N ka})"

lemma kernel_grid:
  fixes d :: "'a::comm_ring_1 kernel_data"
  assumes ok: "sizes_ok ka" and bias: "ka_HAS_BIAS ka \<longrightarrow> \<not> scaled_at_end ka" and wz: "stores_zeros wz" and ids: "in_range ids E" "ka_num_valid_tokens ka = length ids"
    and experts: "\<forall>e<E. -1 \<le> emap e"
    and bufs: "sorted_ids = reference_sorted ids E (ka_BLOCK_SIZE_M ka) @ rest"
      "expert_ids = map emap (reference_experts ids E (ka_BLOCK_SIZE_M ka)) @ rest'"
      "num = length (reference_sorted ids E (ka_BLOCK_SIZE_M ka))"
    and EM: "num \<le> ka_EM ka"
    and order: "set order = {..<ceil_div (ka_EM ka) (ka_BLOCK_SIZE_M ka)} \<times> {..<ceil_div (ka_N ka) (ka_BLOCK_SIZE_N ka)}"
  shows "\<exists>c'. fold_res (fused_moe_kernel wz ka d sorted_ids expert_ids num (ceil_div (ka_EM ka) (ka_BLOCK_SIZE_M ka))) order c = Inr c'
    \<and> (\<forall>t<length ids. \<forall>n<ka_N ka. c' (ka_stride_cm ka * t + ka_stride_cn ka * n) = moe_value ka d (emap (ids ! t)) t n)
    \<and> (\<forall>a. (\<forall>t<length ids. \<forall>n<ka_N ka. a \<noteq> ka_stride_cm ka * t + ka_stride_cn ka * n) \<longrightarrow> c' a = c a)"
proof -
  let ?B = "ka_BLOCK_SIZE_M ka" and ?BN = "ka_BLOCK_SIZE_N ka" and ?N = "ka_N ka" and ?bl = "off (blocks_of ids (ka_BLOCK_SIZE_M ka)) E"
  let ?P = "ceil_div (ka_EM ka) ?B" and ?Q = "ceil_div ?N ?BN"
  let ?addr = "\<lambda>(t, n). ka_stride_cm ka * t + ka_stride_cn ka * n"
  let ?blk = "\<lambda>(p0, p1). block_of_pid (ka_GROUP_SIZE_M ka) ?P ?Q (p1 * ?P + p0)"
  let ?toks = "\<lambda>m. map ((!) sorted_ids) [m * ?B..<m * ?B + ?B]"
  have pos: "0 < ?B" "0 < ?BN" "0 < ka_BLOCK_SIZE_K ka" "0 < ka_GROUP_SIZE_M ka" using ok by (simp_all add: sizes_ok_def)
  have num: "num = ?bl * ?B" using bufs(3) pos(1) by (simp add: length_reference_sorted)
  define W where "W a = (let (t, n) = the_inv_into ({..<length ids} \<times> {..<?N}) ?addr a in moe_value ka d (emap (ids ! t)) t n)" for a
  have W: "W (?addr (t, n)) = moe_value ka d (emap (ids ! t)) t n" if "t < length ids" "n < ?N" for t n
    using ok ids(2) that the_inv_into_f_f[of ?addr "{..<length ids} \<times> {..<?N}" "(t, n)"] by (simp add: W_def sizes_ok_def)
  define Q where "Q x a \<longleftrightarrow> fst (?blk x) < ?bl \<and> block_cells ka (?toks (fst (?blk x))) (snd (?blk x)) a" for x a
  have program: "fused_moe_kernel wz ka d sorted_ids expert_ids num ?P x c = Inr (\<lambda>a. if Q x a then W a else c a)" for x c
  proof -
    obtain p0 p1 where x: "x = (p0, p1)" by (cases x)
    obtain m n where blk: "block_of_pid (ka_GROUP_SIZE_M ka) ?P ?Q (p1 * ?P + p0) = (m, n)" by fastforce
    show ?thesis
    proof (cases "m < ?bl")
      case False
      then have "num \<le> m * ?B" by (simp add: num)
      then show ?thesis using x blk False by (simp add: fused_moe_kernel_def Let_def Q_def)
    next
      case True
      then have "Suc m * ?B \<le> ?bl * ?B" by (intro mult_right_mono) simp_all
      then have in_num: "m * ?B + ?B \<le> num" by (simp add: num)
      then have before: "\<not> num \<le> m * ?B" using pos(1) by simp
      obtain e where e: "e < E" "reference_experts ids E ?B ! m = e"
          "\<forall>i<?B. reference_sorted ids E ?B ! (m * ?B + i) < length ids \<longrightarrow> ids ! (reference_sorted ids E ?B ! (m * ?B + i)) = e"
        using reference_block[OF pos(1) True] by blast
      have loads: "map_res (nth_res sorted_ids) [m * ?B..<m * ?B + ?B] = Inr (?toks m)"
        by (rule map_res_total) (use in_num bufs(1,3) in simp)
      have expert: "nth_res expert_ids m = Inr (emap e)"
        using True e(2) bufs(2) by (simp add: nth_res_def nth_append length_reference_experts)
      have of_e: "ids ! t = e" if mem: "t \<in> set (?toks m)" "t < length ids" for t
      proof -
        obtain p where p: "m * ?B \<le> p" "p < m * ?B + ?B" "t = sorted_ids ! p" using mem(1) by auto
        define i where "i = p - m * ?B"
        have i: "i < ?B" "t = sorted_ids ! (m * ?B + i)" using p by (auto simp: i_def)
        then have "t = reference_sorted ids E ?B ! (m * ?B + i)" using in_num bufs(1,3) by (simp add: nth_append)
        then show ?thesis using e(3) i(1) mem(2) by blast
      qed
      have step: "store_block ka (?toks m) n val c = (\<lambda>a. if Q x a then W a else c a)"
        if "\<And>t n. t < length ids \<Longrightarrow> n < ?N \<Longrightarrow> val t n = moe_value ka d (emap e) t n" for val
        using store_block_cells[of "?toks m" ka val W n c] that of_e ids(2) W x blk True by (simp add: Q_def)
      show ?thesis
      proof (cases "emap e = -1")
        case minus: True
        have "wz ka (?toks m) n c = (\<lambda>a. if Q x a then W a else c a)"
          using wz step[of "\<lambda>_ _. 0"] minus by (simp add: stores_zeros_def moe_value_def)
        then show ?thesis using x blk before loads expert minus by (simp add: fused_moe_kernel_def Let_def)
      next
        case False
        then have "0 \<le> emap e" using experts e(1) by force
        moreover have "store_block ka (?toks m) n (\<lambda>t n. kernel_element ka d t (nat (emap e)) n) c = (\<lambda>a. if Q x a then W a else c a)"
          using kernel_element_value[of ka _ _ d "nat (emap e)"] ok bias ids(2) \<open>0 \<le> emap e\<close>
          by (intro step) (simp add: sizes_ok_def)
        ultimately show ?thesis using x blk before loads expert False by (simp add: fused_moe_kernel_def Let_def)
      qed
    qed
  qed
  have cells: "(\<exists>x\<in>set order. Q x a) \<longleftrightarrow> (\<exists>t<length ids. \<exists>n<?N. a = ?addr (t, n))" for a
  proof
    assume "\<exists>x\<in>set order. Q x a"
    then show "\<exists>t<length ids. \<exists>n<?N. a = ?addr (t, n)" using ids(2) by (auto simp: Q_def block_cells_def)
  next
    assume "\<exists>t<length ids. \<exists>n<?N. a = ?addr (t, n)"
    then obtain t n where tn: "t < length ids" "n < ?N" "a = ?addr (t, n)" by blast
    obtain m i where mi: "m < ?bl" "i < ?B" "reference_sorted ids E ?B ! (m * ?B + i) = t"
      using reference_has_token[OF pos(1) tn(1)] ids(1) tn(1) by blast
    have "?bl * ?B \<le> ?P * ?B" using EM le_ceil_div[OF pos(1), of "ka_EM ka"] num by linarith
    then have m: "m < ?P" using mi(1) pos(1) by simp
    have "n < ?Q * ?BN" using tn(2) le_ceil_div[OF pos(2), of ?N] by simp
    then have n: "n div ?BN < ?Q" by (simp add: less_mult_imp_div_less)
    obtain pid where pid: "pid < ?P * ?Q" "block_of_pid (ka_GROUP_SIZE_M ka) ?P ?Q pid = (m, n div ?BN)"
      using block_of_pid_surj[OF pos(4) m n] by blast
    define x where "x = (pid mod ?P, pid div ?P)"
    have "x \<in> set order" unfolding order x_def using pid(1) m by (auto simp: less_mult_imp_div_less mult.commute)
    have "Suc m * ?B \<le> ?bl * ?B" using mi(1) by (intro mult_right_mono) simp_all
    then have in_num: "m * ?B + i < num" using mi(2) by (simp add: num)
    have "t = sorted_ids ! (m * ?B + i)" using mi(3) in_num bufs(1,3) by (simp add: nth_append)
    then have "t \<in> set (?toks m)" using mi(2) by simp
    then have "block_cells ka (?toks m) (n div ?BN) a"
      unfolding block_cells_def using tn ids(2) pos(2) by (intro bexI[of _ t] exI[of _ "n mod ?BN"]) simp_all
    moreover have "?blk x = (m, n div ?BN)" using pid(2) by (simp only: x_def prod.case div_mult_mod_eq)
    ultimately have "Q x a" using mi(1) by (simp add: Q_def)
    with \<open>x \<in> set order\<close> show "\<exists>x\<in>set order. Q x a" by blast
  qed
  have "fold_res (fused_moe_kernel wz ka d sorted_ids expert_ids num ?P) order c
      = Inr (\<lambda>a. if \<exists>t<length ids. \<exists>n<?N. a = ?addr (t, n) then W a else c a)"
    using fold_res_updates[of order "fused_moe_kernel wz ka d sorted_ids expert_ids num ?P" Q W c] program unfolding cells by blast
  then show ?thesis using W by (auto simp del: W_def)
qed


definition local_expert :: "int list option \<Rightarrow> nat \<Rightarrow> int" where
  "local_expert emap e = (case emap of None \<Rightarrow> int e | Some em \<Rightarrow> em ! e)"

lemma invoke_computes:
  fixes A B :: "'a::comm_ring_1 strided_tensor"
  assumes align: "moe_align_block_size order1 order2 order4 ids (mc_BLOCK_SIZE_M config) E emap pad = Inr (sorted_ids, expert_ids, num)"
    and orders: "mset order1 = mset [0..<E]" "mset order2 = mset [0..<E]" "mset order4 = mset [0..<E]"
    and ids: "0 < E" "\<forall>j<length ids. ids ! j < E" "tn_sizes A ! 0 * top_k = length ids"
    and em: "\<And>em. emap = Some em \<Longrightarrow> E \<le> length em \<and> (\<forall>x\<in>set em. -1 \<le> x)"
    and ka: "ka = launch_args A B cs A_scale B_scale B_bias (length sorted_ids) mul top_k config fl shape" "sizes_ok ka"
      "B_bias \<noteq> None \<longrightarrow> \<not> scaled_at_end ka"
    and wz: "stores_zeros wz"
    and grid: "set order = {..<ceil_div (ka_EM ka) (ka_BLOCK_SIZE_M ka)} \<times> {..<ceil_div (ka_N ka) (ka_BLOCK_SIZE_N ka)}"
    and checks: "mul \<longrightarrow> ws \<noteq> None" "scale_checks fl A_scale B_scale shape B" "\<not> mf_use_int8_w8a16 fl" "\<not> mf_use_int4_w4a16 fl"
      "mf_use_fp8_w8a8 fl \<or> mf_use_int8_w8a8 fl \<longrightarrow> A_scale \<noteq> None"
  shows "\<exists>c'. invoke_fused_moe_kernel wz order A B cs A_scale B_scale ws sorted_ids expert_ids num mul top_k config fl shape B_bias c = Inr c'
    \<and> (\<forall>t<length ids. \<forall>n<tn_sizes B ! 1. c' (fst cs * t + snd cs * n)
          = moe_value ka (launch_data A B A_scale B_scale B_bias ws) (local_expert emap (ids ! t)) t n)
    \<and> (\<forall>a. (\<forall>t<length ids. \<forall>n<tn_sizes B ! 1. a \<noteq> fst cs * t + snd cs * n) \<longrightarrow> c' a = c a)"
proof -
  let ?BM = "mc_BLOCK_SIZE_M config" and ?d = "launch_data A B A_scale B_scale B_bias ws"
  have fields: "ka_BLOCK_SIZE_M ka = ?BM" "ka_N ka = tn_sizes B ! 1" "ka_num_valid_tokens ka = length ids"
      "ka_stride_cm ka = fst cs" "ka_stride_cn ka = snd cs"
    using ka(1) ids(3) by (simp_all add: launch_args_def Let_def)
  have bias: "ka_HAS_BIAS ka \<longrightarrow> \<not> scaled_at_end ka" using ka(1,3) by (simp add: launch_args_def Let_def)
  have BM: "0 < ?BM" using ka(2) fields(1) by (simp add: sizes_ok_def)
  obtain k l where ref: "sorted_ids = reference_sorted ids E ?BM @ replicate k (length ids)"
      "expert_ids = map (local_expert emap) (reference_experts ids E ?BM @ replicate l 0)" "num = length (reference_sorted ids E ?BM)"
    using moe_align_reference[OF orders ids(1) BM ids(2), of emap pad] align em unfolding local_expert_def by force
  have "num \<le> ?BM * length ids"
    using blocks_le_tokens[OF BM, of ids E] ids(2) ref(3) by (simp add: length_reference_sorted[OF BM] mult.commute[of _ ?BM])
  then have EM: "num \<le> ka_EM ka"
    using ref(1,3) ids(3) ka(1) by (simp add: launch_args_def launch_EM_def Let_def mult.commute)
  have experts: "\<forall>e<E. -1 \<le> local_expert emap e"
    using em by (cases emap) (auto simp: local_expert_def)
  have "expert_ids = map (local_expert emap) (reference_experts ids E (ka_BLOCK_SIZE_M ka)) @ replicate l (local_expert emap 0)"
    using ref(2) fields(1) by simp
  note run = kernel_grid[OF ka(2) bias wz ids(2) fields(3) experts _ this _ EM grid, of sorted_ids "replicate k (length ids)" ?d c,
    unfolded fields, OF ref(1,3)]
  have "invoke_fused_moe_kernel wz order A B cs A_scale B_scale ws sorted_ids expert_ids num mul top_k config fl shape B_bias c
      = fold_res (fused_moe_kernel wz ka ?d sorted_ids expert_ids num (ceil_div (ka_EM ka) ?BM)) order c"
    using checks ka(1) fields(1) by (auto simp: invoke_fused_moe_kernel_def Let_def)
  then show ?thesis using run by simp
qed


section \<open>Properties\<close>

text \<open>
  the grouped order of the programs assigns every block of the output to exactly one program.
\<close>

theorem grouped_order_is_bijection:
  assumes "0 < G"
  shows "bij_betw (block_of_pid G M N) {..<M * N} ({..<M} \<times> {..<N})"
proof -
  let ?f = "block_of_pid G M N" and ?T = "{..<M} \<times> {..<N}"
  have sub: "?T \<subseteq> ?f ` {..<M * N}"
  proof
    fix x assume "x \<in> ?T"
    then obtain m n where x: "x = (m, n)" "m < M" "n < N" by blast
    show "x \<in> ?f ` {..<M * N}" using block_of_pid_surj[OF assms x(2,3)] x(1) by (metis imageI lessThan_iff)
  qed
  have card: "card ?T = card {..<M * N}" by simp
  have "card (?f ` {..<M * N}) \<le> card ?T" unfolding card by (rule card_image_le) simp
  then have eq: "?f ` {..<M * N} = ?T" using card_seteq[OF _ sub] by simp
  then have "inj_on ?f {..<M * N}" by (intro eq_card_imp_inj_on) (simp_all add: card[symmetric])
  then show ?thesis using eq by (simp add: bij_betw_def)
qed

theorem grouped_order_is_bijection_witness: "bij_betw (block_of_pid 2 3 2) {..<3 * 2} ({..<3} \<times> {..<2})"
  by (rule grouped_order_is_bijection) simp

text \<open>
  C21. launched on the tokens that were aligned to its blocks, the kernel returns and stores, for every token and each of
  its experts, the product of the dequantized token with the dequantized matrix of the expert, plus the bias of the
  expert where there is one, times the weight of the expert for the token where it is asked for; zeros where the expert belongs
  to another rank; and nothing else, whatever the block sizes and the order of the programs. Numbers are exact, and
  quantization of the matrices alone (w8a16, w4a16) is left out. A bias must not come with
  scales per channel or per tensor: the kernel multiplies them after it added the bias (\<open>channel_scales_multiply_bias\<close>).
\<close>

theorem moe_kernel_applies_experts:
  fixes A B :: "'a::comm_ring_1 strided_tensor"
  assumes align: "moe_align_block_size order1 order2 order4 ids (mc_BLOCK_SIZE_M config) E emap pad = Inr (sorted_ids, expert_ids, num)"
    and orders: "mset order1 = mset [0..<E]" "mset order2 = mset [0..<E]" "mset order4 = mset [0..<E]"
    and ids: "0 < E" "\<forall>j<length ids. ids ! j < E" "tn_sizes A ! 0 * top_k = length ids"
    and em: "\<And>em. emap = Some em \<Longrightarrow> E \<le> length em \<and> (\<forall>x\<in>set em. -1 \<le> x)"
    and ka: "ka = launch_args A B cs A_scale B_scale B_bias (length sorted_ids) mul top_k config fl shape" "sizes_ok ka"
      "B_bias \<noteq> None \<longrightarrow> \<not> scaled_at_end ka"
    and wz: "stores_zeros wz"
    and grid: "set order = {..<ceil_div (ka_EM ka) (ka_BLOCK_SIZE_M ka)} \<times> {..<ceil_div (ka_N ka) (ka_BLOCK_SIZE_N ka)}"
    and checks: "mul \<longrightarrow> ws \<noteq> None" "scale_checks fl A_scale B_scale shape B" "\<not> mf_use_int8_w8a16 fl" "\<not> mf_use_int4_w4a16 fl"
      "mf_use_fp8_w8a8 fl \<or> mf_use_int8_w8a8 fl \<longrightarrow> A_scale \<noteq> None"
  shows "\<exists>c'. invoke_fused_moe_kernel wz order A B cs A_scale B_scale ws sorted_ids expert_ids num mul top_k config fl shape B_bias c = Inr c'
    \<and> (\<forall>t<length ids. \<forall>n<tn_sizes B ! 1. c' (fst cs * t + snd cs * n)
          = moe_value ka (launch_data A B A_scale B_scale B_bias ws) (local_expert emap (ids ! t)) t n)
    \<and> (\<forall>a. (\<forall>t<length ids. \<forall>n<tn_sizes B ! 1. a \<noteq> fst cs * t + snd cs * n) \<longrightarrow> c' a = c a)"
  using assms by (rule invoke_computes)

definition ex_tensor :: "nat list \<Rightarrow> nat list \<Rightarrow> int strided_tensor" where
  "ex_tensor sizes strides = \<lparr>tn_buf = int, tn_sizes = sizes, tn_strides = strides\<rparr>"

definition ex_config :: moe_config where
  "ex_config = \<lparr>mc_BLOCK_SIZE_M = 2, mc_BLOCK_SIZE_N = 2, mc_BLOCK_SIZE_K = 2, mc_GROUP_SIZE_M = 1\<rparr>"

definition ex_flags :: moe_flags where
  "ex_flags = \<lparr>mf_use_fp8_w8a8 = False, mf_use_int8_w8a8 = False, mf_use_int8_w8a16 = False, mf_use_int4_w4a16 = False, mf_per_channel_quant = False\<rparr>"

definition ex_zeros :: "int zero_writer" where
  "ex_zeros = (\<lambda>ka tokens pid_n c. store_block ka tokens pid_n (\<lambda>_ _. 0) c)"

theorem moe_kernel_applies_experts_witness:
  "\<exists>sorted_ids expert_ids num order c'.
     moe_align_block_size [0, 1] [0, 1] [0, 1] [1, 0] 2 2 (Some [0, -1]) False = Inr (sorted_ids, expert_ids, num)
   \<and> invoke_fused_moe_kernel ex_zeros order (ex_tensor [2, 3] [3, 1]) (ex_tensor [1, 2, 3] [6, 3, 1]) (2, 1) None None None
       sorted_ids expert_ids num False 1 ex_config ex_flags None None (\<lambda>_. 9) = Inr c'
   \<and> c' 0 = 0 \<and> c' 2 = 3 * 0 + 4 * 1 + 5 * 2"
proof -
  obtain sorted_ids expert_ids num where align: "moe_align_block_size [0, 1] [0, 1] [0, 1] [1, 0] 2 2 (Some [0, -1]) False = Inr (sorted_ids, expert_ids, num)"
    using moe_align_reference[of "[0, 1]" 2 "[0, 1]" "[0, 1]" 2 "[1, 0]" "Some [0, -1]" False] by (auto simp: numeral_2_eq_2 less_Suc_eq)
  define ka where "ka = launch_args (ex_tensor [2, 3] [3, 1]) (ex_tensor [1, 2, 3] [6, 3, 1]) (2, 1) None None None (length sorted_ids) False 1 ex_config ex_flags None"
  define order where "order = List.product [0..<ceil_div (ka_EM ka) (ka_BLOCK_SIZE_M ka)] [0..<ceil_div (ka_N ka) (ka_BLOCK_SIZE_N ka)]"
  have inj: "inj_on (\<lambda>(t, n). 2 * t + n) ({..<2} \<times> {..<2 :: nat})" by (auto simp: inj_on_def; presburger)
  have ok: "sizes_ok ka"
    using inj by (simp add: sizes_ok_def ka_def launch_args_def block_wise_def ex_tensor_def ex_config_def ex_flags_def Let_def)
  have grid: "set order = {..<ceil_div (ka_EM ka) (ka_BLOCK_SIZE_M ka)} \<times> {..<ceil_div (ka_N ka) (ka_BLOCK_SIZE_N ka)}"
    by (auto simp: order_def)
  obtain c' where c': "invoke_fused_moe_kernel ex_zeros order (ex_tensor [2, 3] [3, 1]) (ex_tensor [1, 2, 3] [6, 3, 1]) (2, 1) None None None
       sorted_ids expert_ids num False 1 ex_config ex_flags None None (\<lambda>_. 9) = Inr c'"
    and vals: "\<forall>t<length [1, 0 :: nat]. \<forall>n<tn_sizes (ex_tensor [1, 2, 3] [6, 3, 1]) ! 1. c' (fst (2, 1) * t + snd (2, 1) * n)
          = moe_value ka (launch_data (ex_tensor [2, 3] [3, 1]) (ex_tensor [1, 2, 3] [6, 3, 1]) None None None None)
              (local_expert (Some [0, -1]) ([1, 0] ! t)) t n"
    using moe_kernel_applies_experts[where config = ex_config and A = "ex_tensor [2, 3] [3, 1]" and B = "ex_tensor [1, 2, 3] [6, 3, 1]" and cs = "(2, 1)"
        and A_scale = None and B_scale = None and B_bias = None and mul = False and top_k = 1 and fl = ex_flags and shape = None and ws = None
        and c = "\<lambda>_. 9" and wz = ex_zeros and order = order and ids = "[1, 0]" and E = 2 and emap = "Some [0, -1]" and pad = False
        and sorted_ids = sorted_ids and expert_ids = expert_ids and num = num and ?order1.0 = "[0, 1]" and ?order2.0 = "[0, 1]" and ?order4.0 = "[0, 1]"]
      align ka_def ok grid
    by (auto simp: ex_config_def ex_tensor_def ex_flags_def ex_zeros_def stores_zeros_def scale_checks_def numeral_2_eq_2 less_Suc_eq)
  have "c' 0 = 0" using vals[rule_format, of 0 0] by (simp add: ex_tensor_def moe_value_def local_expert_def)
  moreover have "c' 2 = 3 * 0 + 4 * 1 + 5 * 2"
    using vals[rule_format, of 1 0]
    by (simp add: ex_tensor_def moe_value_def local_expert_def token_scale_def matrix_scale_def ka_def launch_args_def launch_data_def
        block_wise_def ex_flags_def Let_def numeral_3_eq_3)
  ultimately show ?thesis using align c' by blast
qed

text \<open>With a bias and scales per channel the scales also multiply the bias.\<close>

lemma channel_scales_multiply_bias:
  assumes "ka_HAS_BIAS ka" "ka_use_fp8_w8a8 ka" "\<not> ka_use_int8_w8a16 ka" "\<not> block_wise ka" "ka_per_channel_quant ka" "\<not> ka_MUL_ROUTED_WEIGHT ka"
    and "t < ka_num_valid_tokens ka" "n < ka_N ka" "0 < ka_BLOCK_SIZE_K ka"
  shows "kernel_element ka d t e n =
    (expert_product ka d t e n + kd_b_bias d (e * ka_stride_bbe ka + n * ka_stride_bbn ka))
      * kd_a_scale d (t div ka_top_k ka * ka_stride_asm ka) * kd_b_scale d (e * ka_stride_bse ka + n * ka_stride_bsn ka)"
  using assms by (simp add: kernel_element_def accumulate_product finish_element_def Let_def)

end
