(* ===== verification/FusedExperts.thy ===== *)
theory FusedExperts
  imports FusedMoeKernel
begin

text \<open>
  A mixture of experts on the device (\<open>fused_experts_impl\<close> and its entry points in
  \<^verbatim>\<open>vllm_mlu/model_executor/layers/fused_moe/fused_moe.py\<close>): aligning the tokens of a chunk, the first
  product, the activation, the second product and the sum over the experts of a token. The buffers that the code allocates
  have arbitrary contents, which are arguments; so are the orders of the grids, the activation of a row, the
  quantization, the dequantization of packed weights and the choice of the block sizes, which are the device's or vLLM's.
\<close>

section \<open>The operation\<close>

record 'a experts_env =
  ev_chunk_size :: nat
  ev_config :: "nat \<Rightarrow> nat \<Rightarrow> nat \<Rightarrow> nat \<Rightarrow> nat \<Rightarrow> moe_config"
  ev_align_orders :: "nat \<Rightarrow> nat list \<times> nat list \<times> nat list"
  ev_grid_order :: "nat \<Rightarrow> bool \<Rightarrow> nat \<Rightarrow> nat \<Rightarrow> (nat \<times> nat) list"
  ev_write_zeros :: "'a zero_writer"
  ev_active :: "string \<Rightarrow> 'a list \<Rightarrow> 'a list"
  ev_group_quant :: "nat \<Rightarrow> 'a strided_tensor \<Rightarrow> 'a strided_tensor \<times> 'a strided_tensor"
  ev_dequant :: "string \<Rightarrow> 'a strided_tensor \<Rightarrow> 'a strided_tensor option \<Rightarrow> 'a strided_tensor"

record 'a experts_args =
  ea_hidden_states :: "'a strided_tensor"
  ea_w1 :: "'a strided_tensor"
  ea_w2 :: "'a strided_tensor"
  ea_topk_weights :: "'a list list"
  ea_topk_ids :: "nat list list"
  ea_top_k :: nat
  ea_activation :: string
  ea_apply_router_weight_on_input :: bool
  ea_flags :: moe_flags
  ea_ocp_mx_scheme :: "string option"
  ea_global_num_experts :: "nat option"
  ea_expert_map :: "int list option"
  ea_w1_scale :: "'a strided_tensor option"
  ea_w2_scale :: "'a strided_tensor option"
  ea_block_shape :: "(nat \<times> nat) option"
  ea_w1_bias :: "'a strided_tensor option"
  ea_w2_bias :: "'a strided_tensor option"

definition mxfp4_schemes :: "string list" where
  "mxfp4_schemes = [''w_mxfp4_a_mxfp4'', ''w_mxfp4_a_mxfp6_e3m2'', ''w_mxfp4_a_mxfp6_e2m3'']"

definition mxfp6_schemes :: "string list" where
  "mxfp6_schemes = [''w_mxfp6_e3m2_a_mxfp6_e3m2'', ''w_mxfp6_e2m3_a_mxfp6_e2m3'']"

definition check_hidden_size :: "'a experts_args \<Rightarrow> 'b res \<Rightarrow> 'b res" where
  "check_hidden_size a k =
     (let h = tn_sizes (ea_hidden_states a) ! 1; w = tn_sizes (ea_w1 a) ! 2
      in if mf_use_int4_w4a16 (ea_flags a) then require (h div 2 = w) AssertionError k
         else case ea_ocp_mx_scheme a of
           Some s \<Rightarrow> if s \<in> set mxfp4_schemes then require (h = w * 2) AssertionError k
             else if s \<in> set mxfp6_schemes then require (h = w * 4 div 3) AssertionError k
             else Inl NotImplementedError
         | None \<Rightarrow> require (h = w) AssertionError k)"

definition batch_rows :: "nat \<Rightarrow> nat \<Rightarrow> nat \<Rightarrow> (nat \<Rightarrow> 'a) \<Rightarrow> 'a strided_tensor" where
  "batch_rows first rows width buf = \<lparr>tn_buf = (\<lambda>x. buf (first * width + x)), tn_sizes = [rows, width], tn_strides = [width, 1]\<rparr>"

definition fp8_quantize :: "'a experts_env \<Rightarrow> 'a strided_tensor \<Rightarrow> (nat \<times> nat) option \<Rightarrow> ('a strided_tensor \<times> 'a strided_tensor) res" where
  "fp8_quantize ev A block_shape =
     (case block_shape of None \<Rightarrow> Inl AssertionError
      | Some (n, block_k) \<Rightarrow> let (A, A_scale) = ev_group_quant ev block_k A
          in require (ceil_div (last (tn_sizes A)) block_k = last (tn_sizes A_scale)) AssertionError (Inr (A, A_scale)))"

definition quantize_if :: "bool \<Rightarrow> 'a experts_env \<Rightarrow> 'a strided_tensor \<Rightarrow> (nat \<times> nat) option \<Rightarrow> ('a strided_tensor \<times> 'a strided_tensor option) res" where
  "quantize_if fp8 ev A block_shape =
     (if fp8 then bind_res (fp8_quantize ev A block_shape) (\<lambda>(A, s). Inr (A, Some s)) else Inr (A, None))"

text \<open>The activation of every row of a buffer.\<close>

definition active_rows :: "('a list \<Rightarrow> 'a list) \<Rightarrow> nat \<Rightarrow> nat \<Rightarrow> (nat \<Rightarrow> 'a) \<Rightarrow> 'a strided_tensor" where
  "active_rows f rows N buf =
     \<lparr>tn_buf = (\<lambda>x. f (map (\<lambda>i. buf (x div (N div 2) * N + i)) [0..<N]) ! (x mod (N div 2))),
      tn_sizes = [rows, N div 2], tn_strides = [N div 2, 1]\<rparr>"

definition sum_experts :: "nat \<Rightarrow> nat \<Rightarrow> nat \<Rightarrow> nat \<Rightarrow> (nat \<Rightarrow> 'a::comm_ring_1) \<Rightarrow> (nat \<Rightarrow> 'a) \<Rightarrow> nat \<Rightarrow> 'a" where
  "sum_experts begin tokens K top_k cache out =
     (if top_k = 2
      then (\<lambda>x. if begin * K \<le> x \<and> x < (begin + tokens) * K
                then cache ((x div K - begin) * (top_k * K) + x mod K) + cache ((x div K - begin) * (top_k * K) + K + x mod K) else out x)
      else if 2 < top_k
      then (\<lambda>x. if begin * K \<le> x \<and> x < (begin + tokens) * K
                then sum_list (map (\<lambda>j. cache ((x div K - begin) * (top_k * K) + j * K + x mod K)) [0..<top_k]) else out x)
      else out)"

definition experts_chunk ::
  "'a experts_env \<Rightarrow> 'a::comm_ring_1 experts_args \<Rightarrow> nat \<Rightarrow> moe_config \<Rightarrow> nat \<Rightarrow> nat \<Rightarrow> nat \<Rightarrow> (nat \<Rightarrow> 'a) \<times> (nat \<Rightarrow> 'a)
    \<Rightarrow> ((nat \<Rightarrow> 'a) \<times> (nat \<Rightarrow> 'a)) res" where
  "experts_chunk ev a E config ci begin_idx end_idx st =
     (let (cache13, out) = st; fl = ea_flags a; top_k = ea_top_k a;
          N = tn_sizes (ea_w1 a) ! 1; K = tn_sizes (ea_w2 a) ! 1; H = tn_sizes (ea_hidden_states a) ! 1;
          tokens = end_idx - begin_idx;
          curr_hidden_states = batch_rows begin_idx tokens H (tn_buf (ea_hidden_states a));
          curr_topk_ids = slice (ea_topk_ids a) begin_idx end_idx;
          curr_topk_weights = (\<lambda>x. concat (slice (ea_topk_weights a) begin_idx end_idx) ! x)
      in bind_res (quantize_if (mf_use_fp8_w8a8 fl) ev curr_hidden_states (ea_block_shape a)) (\<lambda>(qcurr, a1q_scale).
         case ev_align_orders ev ci of (o1, o2, o4) \<Rightarrow>
         bind_res (moe_align_block_size o1 o2 o4 (concat curr_topk_ids) (mc_BLOCK_SIZE_M config) E (ea_expert_map a) False)
           (\<lambda>(sorted_token_ids, expert_ids, num_post_padded).
         let order = (\<lambda>second A B. let BM = mc_BLOCK_SIZE_M config;
               EM = launch_EM (length sorted_token_ids) (tn_sizes A ! 0) (if second then 1 else top_k) BM
             in ev_grid_order ev ci second (ceil_div EM BM) (ceil_div (tn_sizes B ! 1) (mc_BLOCK_SIZE_N config)))
         in bind_res (invoke_fused_moe_kernel (ev_write_zeros ev) (order False qcurr (ea_w1 a)) qcurr (ea_w1 a) (N, 1) a1q_scale
              (ea_w1_scale a) (Some curr_topk_weights) sorted_token_ids expert_ids num_post_padded
              (ea_apply_router_weight_on_input a) top_k config fl (ea_block_shape a) (ea_w1_bias a) cache13) (\<lambda>cache13.
            let cache2 = active_rows (ev_active ev (ea_activation a)) (tokens * top_k) N cache13
            in bind_res (quantize_if (mf_use_fp8_w8a8 fl) ev cache2 (ea_block_shape a)) (\<lambda>(qcache2, a2q_scale).
               bind_res (invoke_fused_moe_kernel (ev_write_zeros ev) (order True qcache2 (ea_w2 a)) qcache2 (ea_w2 a) (K, 1) a2q_scale
                 (ea_w2_scale a) (Some curr_topk_weights) sorted_token_ids expert_ids num_post_padded
                 (\<not> ea_apply_router_weight_on_input a) 1 config fl (ea_block_shape a) (ea_w2_bias a) cache13) (\<lambda>cache13.
               Inr (cache13, sum_experts begin_idx tokens K top_k cache13 out)))))))"

fun chunk_loop ::
  "'a experts_env \<Rightarrow> 'a::comm_ring_1 experts_args \<Rightarrow> nat \<Rightarrow> moe_config \<Rightarrow> nat list \<Rightarrow> (nat \<Rightarrow> 'a) \<times> (nat \<Rightarrow> 'a)
    \<Rightarrow> ((nat \<Rightarrow> 'a) \<times> (nat \<Rightarrow> 'a)) res" where
  "chunk_loop ev a E config [] st = Inr st"
| "chunk_loop ev a E config (ci # chunks) st =
     (let num_tokens = tn_sizes (ea_hidden_states a) ! 0;
          begin_idx = ci * ev_chunk_size ev; end_idx = min ((ci + 1) * ev_chunk_size ev) num_tokens
      in if end_idx - begin_idx = 0 then Inr st
         else bind_res (experts_chunk ev a E config ci begin_idx end_idx st) (chunk_loop ev a E config chunks))"

definition dequantized :: "'a experts_env \<Rightarrow> 'a experts_args \<Rightarrow> 'a experts_args" where
  "dequantized ev a =
     (case ea_ocp_mx_scheme a of None \<Rightarrow> a
      | Some s \<Rightarrow> a\<lparr>ea_w1 := ev_dequant ev s (ea_w1 a) (ea_w1_scale a), ea_w1_scale := None,
                   ea_w2 := ev_dequant ev s (ea_w2 a) (ea_w2_scale a), ea_w2_scale := None\<rparr>)"

definition fused_experts_impl ::
  "'a experts_env \<Rightarrow> 'a::comm_ring_1 experts_args \<Rightarrow> (nat \<Rightarrow> 'a) \<Rightarrow> (nat \<Rightarrow> 'a) \<Rightarrow> (nat \<Rightarrow> 'a) res" where
  "fused_experts_impl ev a cache13 out =
     check_hidden_size a
     (require (map length (ea_topk_weights a) = map length (ea_topk_ids a)) AssertionError
     (require (tn_strides (ea_hidden_states a) = [tn_sizes (ea_hidden_states a) ! 1, 1]) AssertionError
     (require (last (tn_strides (ea_w1 a)) = 1) AssertionError
     (require (last (tn_strides (ea_w2 a)) = 1) AssertionError
     (let num_tokens = tn_sizes (ea_hidden_states a) ! 0; E0 = tn_sizes (ea_w1 a) ! 0; N = tn_sizes (ea_w1 a) ! 1;
          E = (case ea_global_num_experts a of None \<Rightarrow> E0 | Some E \<Rightarrow> E);
          M = min num_tokens (ev_chunk_size ev);
          config = ev_config ev M E0 N (tn_sizes (ea_w1 a) ! 2) (ea_top_k a);
          a = dequantized ev a
      in require (ev_chunk_size ev \<noteq> 0) ZeroDivisionError
         (bind_res (chunk_loop ev a E config [0..<num_tokens div ev_chunk_size ev + 1] (cache13, out)) (\<lambda>(_, out). Inr out)))))))"

text \<open>The entry point passes on neither biases nor the flags of eight bit activations and scales per channel.\<close>

definition fused_experts ::
  "'a experts_env \<Rightarrow> 'a::comm_ring_1 experts_args \<Rightarrow> (nat \<Rightarrow> 'a) \<Rightarrow> (nat \<Rightarrow> 'a) \<Rightarrow> (nat \<Rightarrow> 'a) res" where
  "fused_experts ev a cache13 out =
     fused_experts_impl ev (a\<lparr>ea_flags := (ea_flags a)\<lparr>mf_use_int8_w8a8 := False, mf_per_channel_quant := False\<rparr>, ea_ocp_mx_scheme := None,
       ea_w1_bias := None, ea_w2_bias := None\<rparr>) cache13 out"


section \<open>Reference\<close>

definition experts_of :: "'a experts_args \<Rightarrow> nat" where
  "experts_of a = (case ea_global_num_experts a of None \<Rightarrow> tn_sizes (ea_w1 a) ! 0 | Some E \<Rightarrow> E)"

definition tensor_at :: "'a strided_tensor \<Rightarrow> nat \<Rightarrow> nat \<Rightarrow> nat \<Rightarrow> 'a" where
  "tensor_at w e i k = tn_buf w (e * tn_strides w ! 0 + i * tn_strides w ! 1 + k * tn_strides w ! 2)"

definition hidden_at :: "'a experts_args \<Rightarrow> nat \<Rightarrow> nat \<Rightarrow> 'a" where
  "hidden_at a t h = tn_buf (ea_hidden_states a) (t * tn_sizes (ea_hidden_states a) ! 1 + h)"

text \<open>What expert \<open>e\<close> computes of token \<open>t\<close>, its \<open>j\<close>-th expert: two products with an activation between them.\<close>

definition up_row :: "'a::comm_ring_1 experts_args \<Rightarrow> nat \<Rightarrow> nat \<Rightarrow> nat \<Rightarrow> 'a list" where
  "up_row a e t j = map (\<lambda>i. (\<Sum>h<tn_sizes (ea_w1 a) ! 2. hidden_at a t h * tensor_at (ea_w1 a) e i h)
     * (if ea_apply_router_weight_on_input a then ea_topk_weights a ! t ! j else 1)) [0..<tn_sizes (ea_w1 a) ! 1]"

definition expert_output :: "'a experts_env \<Rightarrow> 'a::comm_ring_1 experts_args \<Rightarrow> nat \<Rightarrow> nat \<Rightarrow> nat \<Rightarrow> nat \<Rightarrow> 'a" where
  "expert_output ev a e t j n =
     (\<Sum>k<tn_sizes (ea_w2 a) ! 2. ev_active ev (ea_activation a) (up_row a e t j) ! k * tensor_at (ea_w2 a) e n k)
     * (if ea_apply_router_weight_on_input a then 1 else ea_topk_weights a ! t ! j)"

definition mixture :: "'a experts_env \<Rightarrow> 'a::comm_ring_1 experts_args \<Rightarrow> nat \<Rightarrow> nat \<Rightarrow> 'a" where
  "mixture ev a t n = (\<Sum>j<ea_top_k a.
     let e = local_expert (ea_expert_map a) (ea_topk_ids a ! t ! j) in if e = -1 then 0 else expert_output ev a (nat e) t j n)"

definition plain_flags :: moe_flags where
  "plain_flags = \<lparr>mf_use_fp8_w8a8 = False, mf_use_int8_w8a8 = False, mf_use_int8_w8a16 = False, mf_use_int4_w4a16 = False, mf_per_channel_quant = False\<rparr>"

lemma plain_no_fp8 [simp]: "\<not> mf_use_fp8_w8a8 plain_flags"
  by (simp add: plain_flags_def)

definition config_ok :: "moe_config \<Rightarrow> bool" where
  "config_ok c \<longleftrightarrow> 0 < mc_BLOCK_SIZE_M c \<and> 0 < mc_BLOCK_SIZE_N c \<and> 0 < mc_BLOCK_SIZE_K c \<and> 0 < mc_GROUP_SIZE_M c"

text \<open>The device runs every program of a grid; vLLM's block sizes are positive and its function stores zeros.\<close>

definition device_ok :: "nat \<Rightarrow> 'a::comm_ring_1 experts_env \<Rightarrow> bool" where
  "device_ok E ev \<longleftrightarrow> 0 < ev_chunk_size ev \<and> stores_zeros (ev_write_zeros ev)
     \<and> (\<forall>M E N K t. config_ok (ev_config ev M E N K t))
     \<and> (\<forall>ci. case ev_align_orders ev ci of (o1, o2, o4) \<Rightarrow> mset o1 = mset [0..<E] \<and> mset o2 = mset [0..<E] \<and> mset o4 = mset [0..<E])
     \<and> (\<forall>ci s P Q. set (ev_grid_order ev ci s P Q) = {..<P} \<times> {..<Q})"

definition plain_experts :: "'a experts_args \<Rightarrow> bool" where
  "plain_experts a \<longleftrightarrow> ea_flags a = plain_flags \<and> ea_ocp_mx_scheme a = None \<and> ea_w1_scale a = None \<and> ea_w2_scale a = None
     \<and> ea_block_shape a = None \<and> ea_w1_bias a = None \<and> ea_w2_bias a = None"

definition shapes_ok :: "'a experts_args \<Rightarrow> bool" where
  "shapes_ok a \<longleftrightarrow> (\<exists>T H E N K s0 s1 r0 r1. tn_sizes (ea_hidden_states a) = [T, H] \<and> tn_strides (ea_hidden_states a) = [H, 1]
     \<and> tn_sizes (ea_w1 a) = [E, N, H] \<and> tn_strides (ea_w1 a) = [s0, s1, 1]
     \<and> tn_sizes (ea_w2 a) = [E, K, N div 2] \<and> tn_strides (ea_w2 a) = [r0, r1, 1] \<and> length (ea_topk_ids a) = T \<and> length (ea_topk_weights a) = T
     \<and> (\<forall>row\<in>set (ea_topk_ids a). length row = ea_top_k a) \<and> (\<forall>row\<in>set (ea_topk_weights a). length row = ea_top_k a))"

definition ids_ok :: "'a experts_args \<Rightarrow> bool" where
  "ids_ok a \<longleftrightarrow> 0 < experts_of a \<and> (\<forall>row\<in>set (ea_topk_ids a). \<forall>e\<in>set row. e < experts_of a)
     \<and> (\<forall>em. ea_expert_map a = Some em \<longrightarrow> experts_of a \<le> length em \<and> (\<forall>x\<in>set em. -1 \<le> x))"

section \<open>Flattened rows\<close>

lemma nth_concat_rows:
  assumes "\<forall>r\<in>set rs. length r = k" "i < length rs" "j < k"
  shows "concat rs ! (i * k + j) = rs ! i ! j"
  using assms
proof (induction rs arbitrary: i)
  case (Cons r rs)
  then show ?case by (cases i) (auto simp: nth_append)
qed simp

lemma length_concat_rows: "\<forall>r\<in>set rs. length r = k \<Longrightarrow> length (concat rs) = length rs * k"
  by (induction rs) auto

lemma slice_rows:
  assumes "\<forall>r\<in>set rs. length r = k" "b \<le> e" "e \<le> length rs"
  shows "length (concat (slice rs b e)) = (e - b) * k"
    and "i < e - b \<Longrightarrow> j < k \<Longrightarrow> concat (slice rs b e) ! (i * k + j) = rs ! (b + i) ! j"
proof -
  have sub: "\<forall>r\<in>set (slice rs b e). length r = k" using assms(1) by (auto simp: slice_def dest: in_set_dropD in_set_takeD)
  have len: "length (slice rs b e) = e - b" using assms(3) by (simp add: slice_def)
  show "length (concat (slice rs b e)) = (e - b) * k" using length_concat_rows[OF sub] len by simp
  assume "i < e - b" "j < k"
  then show "concat (slice rs b e) ! (i * k + j) = rs ! (b + i) ! j"
    using nth_concat_rows[OF sub, of i j] len assms(3) by (simp add: slice_def)
qed

lemma inj_rows: "inj_on (\<lambda>(t, n). W * t + 1 * n) ({..<T} \<times> {..<(W :: nat)})"
proof (rule inj_onI, clarsimp)
  fix t n t' n' assume h: "n < W" "n' < W" "W * t + n = W * t' + n'"
  then have "(W * t + n) div W = (W * t' + n') div W" "(W * t + n) mod W = (W * t' + n') mod W" by simp_all
  then show "t = t' \<and> n = n'" using h(1,2) by simp
qed

lemma list_at: "(x # xs) ! 0 = x" "(x # y # xs) ! 1 = y" "(x # y # z # xs) ! 2 = z"
  by simp_all

section \<open>One launch\<close>

lemma plain_launch:
  fixes A B :: "'a::comm_ring_1 strided_tensor"
  assumes env: "device_ok E ev" "config_ok config"
    and align: "moe_align_block_size order1 order2 order4 ids (mc_BLOCK_SIZE_M config) E emap False = Inr (sorted_ids, expert_ids, num)"
    and orders: "mset order1 = mset [0..<E]" "mset order2 = mset [0..<E]" "mset order4 = mset [0..<E]"
    and ids: "0 < E" "\<forall>j<length ids. ids ! j < E" "tn_sizes A ! 0 * top_k = length ids"
    and em: "\<And>em. emap = Some em \<Longrightarrow> E \<le> length em \<and> (\<forall>x\<in>set em. -1 \<le> x)"
    and EM: "EM = launch_EM (length sorted_ids) (tn_sizes A ! 0) top_k (mc_BLOCK_SIZE_M config)"
  shows "\<exists>c'. invoke_fused_moe_kernel (ev_write_zeros ev)
        (ev_grid_order ev ci s (ceil_div EM (mc_BLOCK_SIZE_M config)) (ceil_div (tn_sizes B ! 1) (mc_BLOCK_SIZE_N config)))
        A B (tn_sizes B ! 1, 1) None None (Some ws) sorted_ids expert_ids num mul top_k config plain_flags None None c = Inr c'
    \<and> (\<forall>t<length ids. \<forall>n<tn_sizes B ! 1. c' (tn_sizes B ! 1 * t + n)
        = (if local_expert emap (ids ! t) = -1 then 0
           else (\<Sum>k<tn_sizes B ! 2. tn_buf A (t div top_k * tn_strides A ! 0 + k * tn_strides A ! 1)
                  * tensor_at B (nat (local_expert emap (ids ! t))) n k) * (if mul then ws t else 1)))"
proof -
  define ka where "ka = launch_args A B (tn_sizes B ! 1, 1) None None None (length sorted_ids) mul top_k config plain_flags None"
  have ok: "sizes_ok ka"
    using env(2) inj_rows[of "tn_sizes B ! 1"] by (simp add: sizes_ok_def ka_def launch_args_def config_ok_def block_wise_def plain_flags_def Let_def)
  have fields: "ka_EM ka = EM" "ka_BLOCK_SIZE_M ka = mc_BLOCK_SIZE_M config" "ka_N ka = tn_sizes B ! 1" "ka_BLOCK_SIZE_N ka = mc_BLOCK_SIZE_N config"
    by (simp_all add: ka_def launch_args_def Let_def EM)
  have grid: "set (ev_grid_order ev ci s (ceil_div EM (mc_BLOCK_SIZE_M config)) (ceil_div (tn_sizes B ! 1) (mc_BLOCK_SIZE_N config)))
      = {..<ceil_div (ka_EM ka) (ka_BLOCK_SIZE_M ka)} \<times> {..<ceil_div (ka_N ka) (ka_BLOCK_SIZE_N ka)}"
    using env(1) unfolding fields by (simp add: device_ok_def)
  have wz: "stores_zeros (ev_write_zeros ev)" using env(1) by (simp add: device_ok_def)
  have val: "moe_value ka (launch_data A B None None None (Some ws)) e t n
      = (if e = -1 then 0 else (\<Sum>k<tn_sizes B ! 2. tn_buf A (t div top_k * tn_strides A ! 0 + k * tn_strides A ! 1)
                  * tensor_at B (nat e) n k) * (if mul then ws t else 1))" if "t < length ids" for e t n
    using that ids(3)
    by (simp add: moe_value_def token_scale_def matrix_scale_def ka_def launch_args_def launch_data_def plain_flags_def
        tensor_at_def Let_def algebra_simps)
  show ?thesis
    using invoke_computes[OF align orders ids em ka_def ok _ wz grid, where ws = "Some ws" and c = c]
    by (simp add: scale_checks_def plain_flags_def[symmetric] val) (auto simp: plain_flags_def)
qed


section \<open>One chunk\<close>

definition mixture_term :: "'a experts_env \<Rightarrow> 'a::comm_ring_1 experts_args \<Rightarrow> nat \<Rightarrow> nat \<Rightarrow> nat \<Rightarrow> 'a" where
  "mixture_term ev a t n j =
     (let e = local_expert (ea_expert_map a) (ea_topk_ids a ! t ! j) in if e = -1 then 0 else expert_output ev a (nat e) t j n)"

lemma mixture_terms: "mixture ev a t n = (\<Sum>j<ea_top_k a. mixture_term ev a t n j)"
  by (simp add: mixture_def mixture_term_def)

lemma sum_experts_mixture:
  assumes "2 \<le> top_k" "\<forall>i<tokens. \<forall>j<top_k. \<forall>n<K. cache (i * (top_k * K) + j * K + n) = f (b + i) n j"
  shows "sum_experts b tokens K top_k cache out
    = (\<lambda>x. if b * K \<le> x \<and> x < (b + tokens) * K then \<Sum>j<top_k. f (x div K) (x mod K) j else out x)"
proof (rule ext)
  fix x
  show "sum_experts b tokens K top_k cache out x = (if b * K \<le> x \<and> x < (b + tokens) * K then \<Sum>j<top_k. f (x div K) (x mod K) j else out x)"
  proof (cases "b * K \<le> x \<and> x < (b + tokens) * K")
    case True
    then have K: "0 < K" by (cases K) auto
    have "b \<le> x div K" using True K by (simp add: less_eq_div_iff_mult_less_eq)
    moreover have "x div K < b + tokens" using True by (simp add: less_mult_imp_div_less)
    ultimately have i: "x div K - b < tokens" "b + (x div K - b) = x div K" by auto
    have cells: "cache ((x div K - b) * (top_k * K) + j * K + x mod K) = f (x div K) (x mod K) j" if "j < top_k" for j
      using assms(2) i K that by simp
    show ?thesis
    proof (cases "top_k = 2")
      case two: True
      then show ?thesis using True cells[of 0] cells[of 1] by (simp add: sum_experts_def numeral_2_eq_2)
    next
      case False
      have "sum_list (map (\<lambda>j. cache ((x div K - b) * (top_k * K) + j * K + x mod K)) [0..<top_k]) = (\<Sum>j<top_k. f (x div K) (x mod K) j)"
        using cells by (simp add: interv_sum_list_conv_sum_set_nat lessThan_atLeast0)
      then show ?thesis using True False assms(1) by (simp add: sum_experts_def)
    qed
  next
    case False
    then show ?thesis using assms(1) by (auto simp: sum_experts_def)
  qed
qed

lemma experts_chunk_runs:
  fixes a :: "'a::comm_ring_1 experts_args"
  assumes env: "device_ok (experts_of a) ev" "config_ok config" and args: "plain_experts a" "shapes_ok a" "ids_ok a"
    and chunk: "b < e" "e \<le> tn_sizes (ea_hidden_states a) ! 0"
  defines "K \<equiv> tn_sizes (ea_w2 a) ! 1"
  shows "\<exists>c2. experts_chunk ev a (experts_of a) config ci b e (cache, out) = Inr (c2, sum_experts b (e - b) K (ea_top_k a) c2 out)
    \<and> (\<forall>i<e - b. \<forall>j<ea_top_k a. \<forall>n<K. c2 (i * (ea_top_k a * K) + j * K + n) = mixture_term ev a (b + i) n j)"
proof -
  let ?E = "experts_of a" and ?k = "ea_top_k a" and ?BM = "mc_BLOCK_SIZE_M config"
  obtain T H E0 N K' s0 s1 r0 r1 where sh0: "tn_sizes (ea_hidden_states a) = [T, H]" "tn_strides (ea_hidden_states a) = [H, 1]"
      "tn_sizes (ea_w1 a) = [E0, N, H]" "tn_strides (ea_w1 a) = [s0, s1, 1]"
      "tn_sizes (ea_w2 a) = [E0, K', N div 2]" "tn_strides (ea_w2 a) = [r0, r1, 1]" "length (ea_topk_ids a) = T" "length (ea_topk_weights a) = T"
      "\<forall>row\<in>set (ea_topk_ids a). length row = ?k" "\<forall>row\<in>set (ea_topk_weights a). length row = ?k"
    using args(2) unfolding shapes_ok_def by blast
  have "K' = K" using sh0(5) by (simp add: K_def)
  note sh = sh0[unfolded this]
  note plain = args(1)[unfolded plain_experts_def]
  define tokens where "tokens = e - b"
  have e: "e = b + tokens" "e \<le> T" using chunk sh(1) by (simp_all add: tokens_def)
  define ids where "ids = concat (slice (ea_topk_ids a) b e)"
  define ws where "ws = (\<lambda>x. concat (slice (ea_topk_weights a) b e) ! x)"
  have ids: "length ids = tokens * ?k" "\<And>i j. i < tokens \<Longrightarrow> j < ?k \<Longrightarrow> ids ! (i * ?k + j) = ea_topk_ids a ! (b + i) ! j"
    using slice_rows[OF sh(9), of b e] e sh(7) unfolding ids_def by simp_all
  have ws: "\<And>i j. i < tokens \<Longrightarrow> j < ?k \<Longrightarrow> ws (i * ?k + j) = ea_topk_weights a ! (b + i) ! j"
    using slice_rows(2)[OF sh(10), of b e] e sh(8) unfolding ws_def by simp
  have in_range: "\<forall>j<length ids. ids ! j < ?E"
  proof (intro allI impI)
    fix j assume "j < length ids"
    then have "ids ! j \<in> set ids" by simp
    then show "ids ! j < ?E" using args(3) unfolding ids_def slice_def ids_ok_def by (auto dest: in_set_dropD in_set_takeD)
  qed
  have E: "0 < ?E" and em: "\<And>em. ea_expert_map a = Some em \<Longrightarrow> ?E \<le> length em \<and> (\<forall>x\<in>set em. -1 \<le> x)"
    using args(3) by (auto simp: ids_ok_def)
  obtain o1 o2 o4 where o: "ev_align_orders ev ci = (o1, o2, o4)" by (cases "ev_align_orders ev ci")
  have orders: "mset o1 = mset [0..<?E]" "mset o2 = mset [0..<?E]" "mset o4 = mset [0..<?E]"
    using env(1) o unfolding device_ok_def by (metis (mono_tags, lifting) case_prod_conv)+
  obtain sorted_ids expert_ids num where
    align: "moe_align_block_size o1 o2 o4 ids ?BM ?E (ea_expert_map a) False = Inr (sorted_ids, expert_ids, num)"
    using moe_align_reference[OF orders E _ in_range, of ?BM "ea_expert_map a" False] env(2) em by (force simp: config_ok_def)
  note launch = plain_launch[OF env align orders E in_range _ em]
  define A1 where "A1 = batch_rows b tokens H (tn_buf (ea_hidden_states a))"
  define EM where "EM s = launch_EM (length sorted_ids) (if s then tokens * ?k else tokens) (if s then 1 else ?k) ?BM" for s
  let ?order = "\<lambda>s m. ev_grid_order ev ci s (ceil_div (EM s) ?BM) (ceil_div m (mc_BLOCK_SIZE_N config))"
  have A1: "tn_sizes A1 = [tokens, H]" "tn_strides A1 = [H, 1]" by (simp_all add: A1_def batch_rows_def)
  obtain c1 where run1: "invoke_fused_moe_kernel (ev_write_zeros ev) (?order False N) A1 (ea_w1 a) (N, 1) None None (Some ws) sorted_ids expert_ids num
        (ea_apply_router_weight_on_input a) ?k config plain_flags None None cache = Inr c1"
    and c1: "\<forall>x<length ids. \<forall>n<N. c1 (N * x + n) = (if local_expert (ea_expert_map a) (ids ! x) = -1 then 0
        else (\<Sum>h<H. tn_buf A1 (x div ?k * H + h * 1) * tensor_at (ea_w1 a) (nat (local_expert (ea_expert_map a) (ids ! x))) n h)
             * (if ea_apply_router_weight_on_input a then ws x else 1))"
    using launch[where A = A1 and B = "ea_w1 a" and top_k = ?k and s = False and EM = "EM False" and ci = ci and ws = ws
        and mul = "ea_apply_router_weight_on_input a" and c = cache, unfolded A1 sh(3) list_at, OF ids(1)[symmetric]]
    unfolding EM_def if_False by blast
  define A2 where "A2 = active_rows (ev_active ev (ea_activation a)) (tokens * ?k) N c1"
  have A2: "tn_sizes A2 = [tokens * ?k, N div 2]" "tn_strides A2 = [N div 2, 1]" by (simp_all add: A2_def active_rows_def)
  obtain c2 where run2: "invoke_fused_moe_kernel (ev_write_zeros ev) (?order True K) A2 (ea_w2 a) (K, 1) None None (Some ws) sorted_ids expert_ids num
        (\<not> ea_apply_router_weight_on_input a) 1 config plain_flags None None c1 = Inr c2"
    and c2: "\<forall>x<length ids. \<forall>n<K. c2 (K * x + n) = (if local_expert (ea_expert_map a) (ids ! x) = -1 then 0
        else (\<Sum>k<N div 2. tn_buf A2 (x div 1 * (N div 2) + k * 1) * tensor_at (ea_w2 a) (nat (local_expert (ea_expert_map a) (ids ! x))) n k)
             * (if \<not> ea_apply_router_weight_on_input a then ws x else 1))"
    using launch[where A = A2 and B = "ea_w2 a" and top_k = 1 and s = True and EM = "EM True" and ci = ci and ws = ws
        and mul = "\<not> ea_apply_router_weight_on_input a" and c = c1, unfolded A2 sh(5) list_at mult_1_right, OF ids(1)[symmetric]]
    unfolding EM_def if_True mult_1_right by blast
  have cell: "c2 (i * (?k * K) + j * K + n) = mixture_term ev a (b + i) n j" if h: "i < tokens" "j < ?k" "n < K" for i j n
  proof -
    define x where "x = i * ?k + j"
    let ?e = "local_expert (ea_expert_map a) (ids ! x)"
    have "Suc i * ?k \<le> tokens * ?k" using h(1) by (intro mult_right_mono) simp_all
    then have x: "x < length ids" "x div ?k = i" "ids ! x = ea_topk_ids a ! (b + i) ! j" "ws x = ea_topk_weights a ! (b + i) ! j"
      using h ids ws by (simp_all add: x_def)
    have addr: "i * (?k * K) + j * K + n = K * x + n" by (simp add: x_def algebra_simps)
    show ?thesis
    proof (cases "?e = -1")
      case True
      then show ?thesis using c2 x(1,3) h(3) unfolding addr by (simp add: mixture_term_def Let_def)
    next
      case False
      have "map (\<lambda>i. c1 (x * N + i)) [0..<N] = up_row a (nat ?e) (b + i) j"
        unfolding up_row_def sh(3) using c1 x False
        by (auto simp: mult.commute[of x] A1_def batch_rows_def hidden_at_def sh(1) algebra_simps)
      then have "tn_buf A2 (x * (N div 2) + k) = ev_active ev (ea_activation a) (up_row a (nat ?e) (b + i) j) ! k" if "k < N div 2" for k
        using that by (simp add: A2_def active_rows_def)
      then have "(\<Sum>k<N div 2. tn_buf A2 (x div 1 * (N div 2) + k * 1) * tensor_at (ea_w2 a) (nat ?e) n k)
          = (\<Sum>k<N div 2. ev_active ev (ea_activation a) (up_row a (nat ?e) (b + i) j) ! k * tensor_at (ea_w2 a) (nat ?e) n k)"
        by (intro sum.cong) simp_all
      then show ?thesis using c2 x(1,3,4) h(3) False unfolding addr
        by (simp add: mixture_term_def Let_def expert_output_def sh(5))
    qed
  qed
  have "experts_chunk ev a ?E config ci b e (cache, out) = Inr (c2, sum_experts b tokens K ?k c2 out)"
    using align run1 run2 plain o sh(1,3,5) A1 A2
    by (simp add: experts_chunk_def quantize_if_def Let_def tokens_def[symmetric] ids_def[symmetric] ws_def[symmetric] A1_def[symmetric]
        A2_def[symmetric] EM_def)
  then show ?thesis using cell unfolding tokens_def by blast
qed


lemma experts_chunk_mixture:
  fixes a :: "'a::comm_ring_1 experts_args"
  assumes env: "device_ok (experts_of a) ev" "config_ok config" and args: "plain_experts a" "shapes_ok a" "ids_ok a" "2 \<le> ea_top_k a"
    and chunk: "b < e" "e \<le> tn_sizes (ea_hidden_states a) ! 0"
  defines "K \<equiv> tn_sizes (ea_w2 a) ! 1"
  shows "\<exists>cache'. experts_chunk ev a (experts_of a) config ci b e (cache, out) = Inr (cache',
     \<lambda>x. if b * K \<le> x \<and> x < e * K then mixture ev a (x div K) (x mod K) else out x)"
proof -
  obtain c2 where c2: "experts_chunk ev a (experts_of a) config ci b e (cache, out) = Inr (c2, sum_experts b (e - b) K (ea_top_k a) c2 out)"
      "\<forall>i<e - b. \<forall>j<ea_top_k a. \<forall>n<K. c2 (i * (ea_top_k a * K) + j * K + n) = mixture_term ev a (b + i) n j"
    using experts_chunk_runs[OF env args(1-3) chunk] unfolding K_def by blast
  have "b + (e - b) = e" using chunk(1) by simp
  then show ?thesis
    using c2(1) sum_experts_mixture[OF args(4) c2(2), of out] unfolding mixture_terms by simp
qed

section \<open>All chunks\<close>

lemma join_ranges:
  "lo \<le> mid \<Longrightarrow> mid \<le> hi \<Longrightarrow> (if mid \<le> x \<and> x < hi then p else if lo \<le> x \<and> x < mid then p else q)
    = (if lo \<le> x \<and> x < hi then p else q)" for x :: nat
  by auto

lemma chunk_loop_mixture:
  fixes a :: "'a::comm_ring_1 experts_args"
  assumes env: "device_ok (experts_of a) ev" "config_ok config" and args: "plain_experts a" "shapes_ok a" "ids_ok a" "2 \<le> ea_top_k a"
  defines "C \<equiv> ev_chunk_size ev" and "T \<equiv> tn_sizes (ea_hidden_states a) ! 0" and "K \<equiv> tn_sizes (ea_w2 a) ! 1"
  shows "m * C \<le> T \<longrightarrow> T < (m + n) * C \<longrightarrow> (\<exists>cache'. chunk_loop ev a (experts_of a) config [m..<m + n] (cache, out) = Inr (cache',
     \<lambda>x. if m * C * K \<le> x \<and> x < T * K then mixture ev a (x div K) (x mod K) else out x))"
proof (induction n arbitrary: m cache out)
  case (Suc n)
  have up: "[m..<m + Suc n] = m # [Suc m..<Suc m + n]" by (simp add: upt_rec)
  show ?case
  proof (intro impI)
    assume m: "m * C \<le> T" and n: "T < (m + Suc n) * C"
    let ?e = "min ((m + 1) * C) T"
    show "\<exists>cache'. chunk_loop ev a (experts_of a) config [m..<m + Suc n] (cache, out) = Inr (cache',
        \<lambda>x. if m * C * K \<le> x \<and> x < T * K then mixture ev a (x div K) (x mod K) else out x)"
    proof (cases "m * C = T")
      case True
      then show ?thesis unfolding up by (intro exI[of _ cache]) (auto simp: C_def T_def Let_def not_less fun_eq_iff)
    next
      case False
      have C: "0 < C" using env(1) by (simp add: C_def device_ok_def)
      have e: "m * C < ?e" "?e \<le> T" using False m C by auto
      obtain cache1 where step: "experts_chunk ev a (experts_of a) config m (m * C) ?e (cache, out) = Inr (cache1,
          \<lambda>x. if m * C * K \<le> x \<and> x < ?e * K then mixture ev a (x div K) (x mod K) else out x)"
        using experts_chunk_mixture[OF env args e(1)[unfolded T_def] e(2)[unfolded T_def]] unfolding K_def T_def by blast
      have nz: "?e - m * C \<noteq> 0" using e(1) by linarith
      have head: "chunk_loop ev a (experts_of a) config [m..<m + Suc n] (cache, out)
        = chunk_loop ev a (experts_of a) config [Suc m..<Suc m + n] (cache1,
            \<lambda>x. if m * C * K \<le> x \<and> x < ?e * K then mixture ev a (x div K) (x mod K) else out x)"
        unfolding up chunk_loop.simps Let_def C_def[symmetric] T_def[symmetric] if_not_P[OF nz] step bind_res_simps ..
      show ?thesis
      proof (cases "(m + 1) * C \<le> T")
        case True
        then have eq: "?e = (m + 1) * C" by simp
        let ?o = "\<lambda>x. if m * C * K \<le> x \<and> x < (m + 1) * C * K then mixture ev a (x div K) (x mod K) else out x"
        have "Suc m * C \<le> T" "T < (Suc m + n) * C" using True n by simp_all
        then obtain cache' where rest: "chunk_loop ev a (experts_of a) config [Suc m..<Suc m + n] (cache1, ?o)
            = Inr (cache', \<lambda>x. if Suc m * C * K \<le> x \<and> x < T * K then mixture ev a (x div K) (x mod K) else ?o x)"
          using Suc.IH[of "Suc m" cache1 ?o] by blast
        have le: "m * C * K \<le> (m + 1) * C * K" "(m + 1) * C * K \<le> T * K" using True by (intro mult_right_mono; simp)+
        have join: "(\<lambda>x. if Suc m * C * K \<le> x \<and> x < T * K then mixture ev a (x div K) (x mod K) else ?o x)
            = (\<lambda>x. if m * C * K \<le> x \<and> x < T * K then mixture ev a (x div K) (x mod K) else out x)"
          unfolding Suc_eq_plus1 by (rule ext) (rule join_ranges[OF le])
        show ?thesis unfolding head eq rest join by blast
      next
        case False
        then have eq: "?e = T" by simp
        have "chunk_loop ev a (experts_of a) config [Suc m..<Suc m + n] st = Inr st" for st
          using False by (cases n) (simp_all add: upt_rec C_def T_def Let_def)
        then show ?thesis unfolding head eq by simp
      qed
    qed
  qed
qed simp

lemma impl_is_loop:
  assumes "plain_experts a" "shapes_ok a" "ev_chunk_size ev \<noteq> 0"
  shows "\<exists>M E0 N K t. fused_experts_impl ev a cache out
     = bind_res (chunk_loop ev a (experts_of a) (ev_config ev M E0 N K t) [0..<tn_sizes (ea_hidden_states a) ! 0 div ev_chunk_size ev + 1] (cache, out))
         (\<lambda>(_, out). Inr out)"
proof -
  obtain T H E0 N K s0 s1 r0 r1 where sh: "tn_sizes (ea_hidden_states a) = [T, H]" "tn_strides (ea_hidden_states a) = [H, 1]"
      "tn_sizes (ea_w1 a) = [E0, N, H]" "tn_strides (ea_w1 a) = [s0, s1, 1]" "tn_strides (ea_w2 a) = [r0, r1, 1]"
      "length (ea_topk_ids a) = T" "length (ea_topk_weights a) = T"
      "\<forall>row\<in>set (ea_topk_ids a). length row = ea_top_k a" "\<forall>row\<in>set (ea_topk_weights a). length row = ea_top_k a"
    using assms(2) unfolding shapes_ok_def by blast
  have "map length (ea_topk_weights a) = map length (ea_topk_ids a)"
    using sh(6-9) by (intro nth_equalityI) simp_all
  then have "fused_experts_impl ev a cache out
     = bind_res (chunk_loop ev a (experts_of a) (ev_config ev (min T (ev_chunk_size ev)) E0 N H (ea_top_k a)) [0..<T div ev_chunk_size ev + 1] (cache, out))
         (\<lambda>(_, out). Inr out)"
    using sh assms(1,3)
    by (cases "ea_global_num_experts a") (simp_all add: fused_experts_impl_def check_hidden_size_def plain_experts_def plain_flags_def dequantized_def
        experts_of_def Let_def del: upt_Suc)
  then show ?thesis using sh(1) by (simp del: upt_Suc) blast
qed

lemma impl_mixture:
  fixes a :: "'a::comm_ring_1 experts_args"
  assumes "device_ok (experts_of a) ev" "plain_experts a" "shapes_ok a" "ids_ok a" "2 \<le> ea_top_k a"
  shows "fused_experts_impl ev a cache out = Inr (\<lambda>x. let K = tn_sizes (ea_w2 a) ! 1 in
     if x < tn_sizes (ea_hidden_states a) ! 0 * K then mixture ev a (x div K) (x mod K) else out x)"
proof -
  let ?C = "ev_chunk_size ev" and ?T = "tn_sizes (ea_hidden_states a) ! 0" and ?K = "tn_sizes (ea_w2 a) ! 1"
  have C: "0 < ?C" using assms(1) by (simp add: device_ok_def)
  obtain M E0 N K t where impl: "fused_experts_impl ev a cache out
     = bind_res (chunk_loop ev a (experts_of a) (ev_config ev M E0 N K t) [0..<0 + (?T div ?C + 1)] (cache, out)) (\<lambda>(_, out). Inr out)"
    using impl_is_loop[OF assms(2,3), of ev cache out] C by auto
  have cfg: "config_ok (ev_config ev M E0 N K t)" using assms(1) by (simp add: device_ok_def)
  have "?T < (0 + (?T div ?C + 1)) * ?C" using C dividend_less_div_times[of ?C ?T] by simp
  then obtain cache' where "chunk_loop ev a (experts_of a) (ev_config ev M E0 N K t) [0..<0 + (?T div ?C + 1)] (cache, out)
      = Inr (cache', \<lambda>x. if 0 * ?C * ?K \<le> x \<and> x < ?T * ?K then mixture ev a (x div ?K) (x mod ?K) else out x)"
    using chunk_loop_mixture[OF assms(1) cfg assms(2-5), of 0 "?T div ?C + 1" cache out] by auto
  then show ?thesis unfolding impl by (simp add: Let_def fun_eq_iff)
qed


lemma plain_args:
  "plain_experts a \<Longrightarrow> a\<lparr>ea_flags := (ea_flags a)\<lparr>mf_use_int8_w8a8 := False, mf_per_channel_quant := False\<rparr>, ea_ocp_mx_scheme := None,
     ea_w1_bias := None, ea_w2_bias := None\<rparr> = a"
  by (cases a) (simp add: plain_experts_def plain_flags_def)

section \<open>Properties\<close>

text \<open>
  C6. without quantization and with at least two experts per token, the operation returns, whatever the size of the
  chunks, the block sizes, the order of the programs and the contents of the buffers it allocates, and the output of
  every token is the weighted sum of what its experts on this rank compute of it.
\<close>

theorem fused_experts_is_mixture:
  fixes a :: "'a::comm_ring_1 experts_args"
  assumes "device_ok (experts_of a) ev" "plain_experts a" "shapes_ok a" "ids_ok a" "2 \<le> ea_top_k a"
  shows "\<exists>out'. fused_experts ev a cache out = Inr out'
    \<and> (\<forall>t<tn_sizes (ea_hidden_states a) ! 0. \<forall>n<tn_sizes (ea_w2 a) ! 1. out' (t * tn_sizes (ea_w2 a) ! 1 + n)
        = (\<Sum>j<ea_top_k a. let e = local_expert (ea_expert_map a) (ea_topk_ids a ! t ! j)
             in if e = -1 then 0 else expert_output ev a (nat e) t j n))"
proof -
  let ?K = "tn_sizes (ea_w2 a) ! 1" and ?T = "tn_sizes (ea_hidden_states a) ! 0"
  have run: "fused_experts ev a cache out = Inr (\<lambda>x. let K = ?K in if x < ?T * K then mixture ev a (x div K) (x mod K) else out x)"
    using impl_mixture[OF assms, of cache out] unfolding fused_experts_def plain_args[OF assms(2)] .
  have "t * ?K + n < ?T * ?K" if "t < ?T" "n < ?K" for t n
  proof -
    have "Suc t * ?K \<le> ?T * ?K" using that(1) by (intro mult_right_mono) simp_all
    then show ?thesis using that(2) by simp
  qed
  then show ?thesis unfolding run by (simp add: mixture_def Let_def)
qed

definition ex_env :: "int experts_env" where
  "ex_env = \<lparr>ev_chunk_size = 1, ev_config = (\<lambda>_ _ _ _ _. ex_config), ev_align_orders = (\<lambda>_. ([1, 0], [0, 1], [1, 0])),
     ev_grid_order = (\<lambda>_ _ P Q. List.product [0..<P] [0..<Q]), ev_write_zeros = ex_zeros,
     ev_active = (\<lambda>_ row. map (\<lambda>i. row ! i * row ! (i + 1)) [0..<length row div 2]),
     ev_group_quant = (\<lambda>_ A. (A, A)), ev_dequant = (\<lambda>_ A _. A)\<rparr>"

definition ex_args :: "nat \<Rightarrow> int experts_args" where
  "ex_args k = \<lparr>ea_hidden_states = ex_tensor [2, 1] [1, 1], ea_w1 = ex_tensor [1, 2, 1] [2, 1, 1], ea_w2 = ex_tensor [1, 1, 1] [1, 1, 1],
     ea_topk_weights = [replicate k 2, replicate k 3], ea_topk_ids = [replicate k 0, 1 # replicate (k - 1) 0], ea_top_k = k, ea_activation = ''silu'',
     ea_apply_router_weight_on_input = False, ea_flags = plain_flags, ea_ocp_mx_scheme = None, ea_global_num_experts = Some 2,
     ea_expert_map = Some [0, -1], ea_w1_scale = None, ea_w2_scale = None, ea_block_shape = None, ea_w1_bias = None, ea_w2_bias = None\<rparr>"

lemma ex_env_ok: "device_ok 2 ex_env"
  by (auto simp: device_ok_def ex_env_def config_ok_def ex_config_def stores_zeros_def ex_zeros_def numeral_2_eq_2)

lemma ex_args_ok:
  assumes "0 < k"
  shows "plain_experts (ex_args k)" "shapes_ok (ex_args k)" "ids_ok (ex_args k)" "experts_of (ex_args k) = 2"
  using assms by (auto simp: plain_experts_def shapes_ok_def ids_ok_def experts_of_def ex_args_def ex_tensor_def)

lemma ex_top_k [simp]: "ea_top_k (ex_args k) = k"
  by (simp add: ex_args_def)

theorem fused_experts_is_mixture_witness:
  "\<exists>out'. fused_experts ex_env (ex_args 2) (\<lambda>_. 7) (\<lambda>_. 8) = Inr out' \<and> out' 1 = 0"
proof -
  obtain out' where run: "fused_experts ex_env (ex_args 2) (\<lambda>_. 7) (\<lambda>_. 8) = Inr out'"
    and val: "\<forall>t<tn_sizes (ea_hidden_states (ex_args 2)) ! 0. \<forall>n<tn_sizes (ea_w2 (ex_args 2)) ! 1. out' (t * tn_sizes (ea_w2 (ex_args 2)) ! 1 + n)
        = (\<Sum>j<ea_top_k (ex_args 2). let e = local_expert (ea_expert_map (ex_args 2)) (ea_topk_ids (ex_args 2) ! t ! j)
             in if e = -1 then 0 else expert_output ex_env (ex_args 2) (nat e) t j n)"
    using fused_experts_is_mixture[of "ex_args 2" ex_env "\<lambda>_. 7" "\<lambda>_. 8"] ex_env_ok ex_args_ok[of 2] by (auto simp: ex_args_def)
  have "out' 1 = 0"
    using val[rule_format, of 1 0]
    by (simp add: ex_args_def ex_tensor_def local_expert_def expert_output_def tensor_at_def up_row_def hidden_at_def ex_env_def numeral_2_eq_2)
  then show ?thesis using run by blast
qed

lemma chunk_loop_single:
  fixes a :: "'a::comm_ring_1 experts_args"
  assumes env: "device_ok (experts_of a) ev" "config_ok config" and args: "plain_experts a" "shapes_ok a" "ids_ok a" "ea_top_k a < 2"
  shows "\<exists>cache'. chunk_loop ev a (experts_of a) config cs (cache, out) = Inr (cache', out)"
proof (induction cs arbitrary: cache)
  case (Cons ci cs)
  let ?b = "ci * ev_chunk_size ev" and ?e = "min ((ci + 1) * ev_chunk_size ev) (tn_sizes (ea_hidden_states a) ! 0)"
  show ?case
  proof (cases "?e - ?b = 0")
    case True
    then show ?thesis unfolding chunk_loop.simps Let_def if_P[OF True] by blast
  next
    case False
    then have be: "?b < ?e" "?e \<le> tn_sizes (ea_hidden_states a) ! 0" by linarith+
    obtain c2 where "experts_chunk ev a (experts_of a) config ci ?b ?e (cache, out)
        = Inr (c2, sum_experts ?b (?e - ?b) (tn_sizes (ea_w2 a) ! 1) (ea_top_k a) c2 out)"
      using experts_chunk_runs[OF env args(1-3) be] by blast
    also have "sum_experts ?b (?e - ?b) (tn_sizes (ea_w2 a) ! 1) (ea_top_k a) c2 out = out"
      using args(4) by (simp add: sum_experts_def)
    finally show ?thesis unfolding chunk_loop.simps Let_def if_not_P[OF False] using Cons.IH by simp
  qed
qed simp

text \<open>
  C38. with one expert per token the operation returns without having written its output: what it returns are the
  contents of the memory it allocated.
\<close>

theorem single_expert_output_unwritten:
  fixes a :: "'a::comm_ring_1 experts_args"
  assumes "device_ok (experts_of a) ev" "plain_experts a" "shapes_ok a" "ids_ok a" "ea_top_k a = 1"
  shows "fused_experts ev a cache out = Inr out"
proof -
  have C: "ev_chunk_size ev \<noteq> 0" and cfg: "\<And>M E N K t. config_ok (ev_config ev M E N K t)" using assms(1) by (simp_all add: device_ok_def)
  have k: "ea_top_k a < 2" using assms(5) by simp
  obtain M E0 N K t where "fused_experts_impl ev a cache out
     = bind_res (chunk_loop ev a (experts_of a) (ev_config ev M E0 N K t)
         [0..<tn_sizes (ea_hidden_states a) ! 0 div ev_chunk_size ev + 1] (cache, out)) (\<lambda>(_, out). Inr out)"
    using impl_is_loop[OF assms(2,3) C] by blast
  moreover obtain cache' where "chunk_loop ev a (experts_of a) (ev_config ev M E0 N K t)
         [0..<tn_sizes (ea_hidden_states a) ! 0 div ev_chunk_size ev + 1] (cache, out) = Inr (cache', out)"
    using chunk_loop_single[OF assms(1) cfg assms(2-4) k] by blast
  ultimately have "fused_experts_impl ev a cache out = Inr out" by simp
  then show ?thesis unfolding fused_experts_def plain_args[OF assms(2)] .
qed

theorem single_expert_output_unwritten_witness: "fused_experts ex_env (ex_args 1) (\<lambda>_. 7) (\<lambda>_. 8) = Inr (\<lambda>_. 8)"
  by (rule single_expert_output_unwritten) (use ex_env_ok ex_args_ok[of 1] in simp_all)

end
