(* ===== verification/DraftDispatch.thy ===== *)
theory DraftDispatch
  imports FlashMetadata Eagle
begin

text \<open>
  Proposing draft tokens behind a step (\<open>propose_draft_token_ids\<close> in
  \<^verbatim>\<open>vllm_mlu/v1/worker/gpu_model_runner.py\<close>): undoing the padding of the metadata, choosing the drafter,
  preparing its inputs and calling it. The proposers of vLLM (n-gram, suffix, Medusa) and the choice of the next tokens are
  arguments; the EAGLE drafter is the one of theory \<^verbatim>\<open>Eagle\<close>. The batch of the runner is opaque; M-RoPE
  positions and the embeddings of multimodal inputs (which the code gathers but does not pass on) are left out.
\<close>

section \<open>The operation\<close>

datatype sampled_tokens = Sampled_lists "int list list" | Sampled_tensor "int list list"

record spec_decode_md =
  sd_num_draft_tokens :: "nat list"
  sd_cu_num_draft_tokens :: "int list"

record ('b, 'h) proposers =
  dr_ngram :: "int list list \<Rightarrow> 'b \<Rightarrow> int list list"
  dr_suffix :: "'b \<Rightarrow> int list list \<Rightarrow> int list list"
  dr_medusa :: "'h list \<Rightarrow> int list list"
  dr_next_token_ids_cpu :: "int list list \<Rightarrow> 'b \<Rightarrow> int list"
  dr_next_token_ids_padded :: "common_md \<Rightarrow> int list list \<Rightarrow> 'b \<Rightarrow> int list \<times> int list"
  dr_cat :: "'h list list \<Rightarrow> 'h list"

record draft_config =
  dc_method :: string
  dc_use_eagle :: bool
  dc_disable_padded_drafter_batch :: bool
  dc_use_aux_hidden_state_outputs :: bool
  dc_mtp_debug :: bool
  dc_max_num_tokens :: nat
  dc_num_arange :: nat
  dc_eagle :: eagle_config

record ('b, 'w) draft_state =
  ds_batch :: 'b
  ds_num_reqs :: nat
  ds_input_ids :: "int list"
  ds_positions :: "int list"
  ds_prev_sampled_token_ids :: "int list list option"
  ds_copies_counts :: bool
  ds_valid_sampled_token_count_cpu :: "int list"
  ds_total_draft_tokens :: int
  ds_total_accepted_tokens :: int
  ds_drafter_input_ids :: "int list"
  ds_world :: 'w

fun medusa_indices :: "int \<Rightarrow> (nat \<times> int list) list \<Rightarrow> int list" where
  "medusa_indices offset [] = []"
| "medusa_indices offset ((num_draft, tokens) # rest) =
     (offset + int (length tokens) - 1) # medusa_indices (offset + int num_draft + 1) rest"

definition medusa_hidden_states :: "'h list \<Rightarrow> int list list \<Rightarrow> spec_decode_md option \<Rightarrow> 'h list res" where
  "medusa_hidden_states sample_hidden_states sampled md =
     (if length sample_hidden_states = length sampled then Inr sample_hidden_states
      else case md of None \<Rightarrow> Inl AssertionError
        | Some md \<Rightarrow> gather_at sample_hidden_states (medusa_indices 0 (zip (sd_num_draft_tokens md) sampled)))"

definition copy_valid_sampled_token_count :: "int list \<Rightarrow> int list \<Rightarrow> ('b, 'w) draft_state \<Rightarrow> ('b, 'w) draft_state res" where
  "copy_valid_sampled_token_count next_token_ids counts st =
     (if \<not> ds_copies_counts st then Inr st
      else require (length counts \<le> length (ds_valid_sampled_token_count_cpu st)) RuntimeError
        (Inr (st\<lparr>ds_valid_sampled_token_count_cpu := counts @ drop (length counts) (ds_valid_sampled_token_count_cpu st),
               ds_prev_sampled_token_ids := Some (map (\<lambda>t. [t]) next_token_ids)\<rparr>)))"

text \<open>The drafter's \<open>prepare_inputs\<close> has one parameter besides the metadata; the runner calls it with two.\<close>

definition call_prepare_inputs :: "nat \<Rightarrow> common_md \<Rightarrow> int list list \<Rightarrow> (common_md \<times> int list) res" where
  "call_prepare_inputs max_num_tokens cm args =
     (case args of [num_rejected_tokens] \<Rightarrow> eagle_prepare_inputs max_num_tokens cm num_rejected_tokens | _ \<Rightarrow> Inl TypeError)"

text \<open>Hidden states at given tokens: of the model, or of the auxiliary layers side by side.\<close>

definition select_hidden ::
  "('b, 'h) proposers \<Rightarrow> bool \<Rightarrow> ('h list \<Rightarrow> 'h list res) \<Rightarrow> 'h list \<Rightarrow> 'h list list option \<Rightarrow> 'h list res" where
  "select_hidden ops use_aux sel hidden_states aux =
     (if use_aux then (case aux of None \<Rightarrow> Inl AssertionError | Some hs \<Rightarrow> bind_res (map_res sel hs) (\<lambda>hs. Inr (dr_cat ops hs)))
      else sel hidden_states)"

definition count_accepted :: "bool \<Rightarrow> spec_decode_md \<Rightarrow> int list option \<Rightarrow> ('b, 'w) draft_state \<Rightarrow> ('b, 'w) draft_state res" where
  "count_accepted mtp_debug md num_rejected st =
     (if \<not> mtp_debug then Inr st
      else case num_rejected of None \<Rightarrow> Inl UnboundLocalError
        | Some rej \<Rightarrow> let drafted = int (sum_list (sd_num_draft_tokens md)); rejected = sum_list rej
            in Inr (st\<lparr>ds_total_draft_tokens := ds_total_draft_tokens st + drafted,
                     ds_total_accepted_tokens := ds_total_accepted_tokens st + (drafted - rejected)\<rparr>))"

definition eagle_next_tokens ::
  "draft_config \<Rightarrow> ('b, 'h) proposers \<Rightarrow> sampled_tokens \<Rightarrow> common_md \<Rightarrow> ('b, 'w) draft_state
    \<Rightarrow> (int list \<times> int list option \<times> ('b, 'w) draft_state) res" where
  "eagle_next_tokens cfg ops sampled cm st =
     (if dc_disable_padded_drafter_batch cfg
      then case sampled of Sampled_tensor _ \<Rightarrow> Inl AssertionError
        | Sampled_lists toks \<Rightarrow> Inr (dr_next_token_ids_cpu ops toks (ds_batch st), None, st)
      else case sampled of Sampled_lists _ \<Rightarrow> Inl AssertionError
        | Sampled_tensor toks \<Rightarrow>
            let (next_token_ids, counts) = dr_next_token_ids_padded ops cm toks (ds_batch st)
            in bind_res (copy_valid_sampled_token_count next_token_ids counts st) (\<lambda>st. Inr (next_token_ids, Some counts, st)))"

definition eagle_spec_inputs ::
  "draft_config \<Rightarrow> sampled_tokens \<Rightarrow> common_md \<Rightarrow> spec_decode_md \<Rightarrow> int list option
    \<Rightarrow> (common_md \<times> int list \<times> int list option \<times> int list option) res" where
  "eagle_spec_inputs cfg sampled cm md counts =
     (if dc_disable_padded_drafter_batch cfg
      then bind_res (call_prepare_inputs (dc_max_num_tokens cfg) cm
             [concat (case sampled of Sampled_lists toks \<Rightarrow> toks | Sampled_tensor toks \<Rightarrow> toks), map int (sd_num_draft_tokens md)])
             (\<lambda>(cm, token_indices). Inr (cm, token_indices, None, None))
      else case counts of None \<Rightarrow> Inl UnboundLocalError
        | Some counts \<Rightarrow>
            bind_res (prepare_inputs_padded (dc_num_arange cfg) cm (sd_cu_num_draft_tokens md) counts)
              (\<lambda>(cm, token_indices, token_indices_to_sample, num_rejected).
                Inr (cm, token_indices, Some token_indices_to_sample, Some num_rejected)))"

definition eagle_propose_step ::
  "draft_config \<Rightarrow> ('b, 'h) proposers \<Rightarrow> ('h, 'w) draft_model \<Rightarrow> nat \<Rightarrow> sampled_tokens \<Rightarrow> 'h list \<Rightarrow> 'h list list option
    \<Rightarrow> spec_decode_md option \<Rightarrow> common_md \<Rightarrow> ('b, 'w) draft_state \<Rightarrow> (int list list \<times> ('b, 'w) draft_state) res" where
  "eagle_propose_step cfg ops m num_scheduled_tokens sampled hidden_states aux md cm st =
     bind_res (eagle_next_tokens cfg ops sampled cm st) (\<lambda>(next_token_ids, counts, st).
     bind_res (case md of
         None \<Rightarrow> bind_res (select_hidden ops (dc_use_aux_hidden_state_outputs cfg) (\<lambda>h. Inr (take num_scheduled_tokens h)) hidden_states aux)
           (\<lambda>hidden. Inr (cm, take num_scheduled_tokens (ds_input_ids st), take num_scheduled_tokens (ds_positions st), hidden, None, st))
       | Some md \<Rightarrow>
           bind_res (eagle_spec_inputs cfg sampled cm md counts) (\<lambda>(cm, token_indices, to_sample, num_rejected).
           bind_res (gather_at (ds_input_ids st) token_indices) (\<lambda>target_token_ids.
           bind_res (gather_at (ds_positions st) token_indices) (\<lambda>target_positions.
           bind_res (select_hidden ops (dc_use_aux_hidden_state_outputs cfg) (\<lambda>h. gather_at h token_indices) hidden_states aux) (\<lambda>hidden.
           bind_res (count_accepted (dc_mtp_debug cfg) md num_rejected st) (\<lambda>st.
           if dc_disable_padded_drafter_batch cfg then Inl UnboundLocalError
           else Inr (cm, target_token_ids, target_positions, hidden, to_sample, st)))))))
       (\<lambda>(cm, target_token_ids, target_positions, hidden, to_sample, st).
     bind_res (propose m (dc_eagle cfg) (ds_drafter_input_ids st) (take num_scheduled_tokens target_token_ids)
         (take num_scheduled_tokens target_positions) (take num_scheduled_tokens hidden) next_token_ids to_sample cm (ds_world st))
       (\<lambda>(drafts, buffer, w). Inr (drafts, st\<lparr>ds_drafter_input_ids := buffer, ds_world := w\<rparr>))))"

definition propose_draft_token_ids ::
  "draft_config \<Rightarrow> ('b, 'h) proposers \<Rightarrow> ('h, 'w) draft_model \<Rightarrow> nat \<Rightarrow> sampled_tokens \<Rightarrow> 'h list \<Rightarrow> 'h list \<Rightarrow> 'h list list option
    \<Rightarrow> spec_decode_md option \<Rightarrow> common_md \<Rightarrow> ('b, 'w) draft_state \<Rightarrow> (int list list \<times> ('b, 'w) draft_state) res" where
  "propose_draft_token_ids cfg ops m num_scheduled_tokens sampled hidden_states sample_hidden_states aux md cm st =
     (let cm = unpad_common_attn_metadata cm (ds_num_reqs st) num_scheduled_tokens;
          lists = (\<lambda>k. case sampled of Sampled_lists toks \<Rightarrow> k toks | Sampled_tensor _ \<Rightarrow> Inl AssertionError)
      in if dc_method cfg = ''ngram'' then lists (\<lambda>toks. Inr (dr_ngram ops toks (ds_batch st), st))
         else if dc_method cfg = ''suffix'' then lists (\<lambda>toks. Inr (dr_suffix ops (ds_batch st) toks, st))
         else if dc_method cfg = ''medusa'' then lists (\<lambda>toks.
           bind_res (medusa_hidden_states sample_hidden_states toks md) (\<lambda>h. Inr (dr_medusa ops h, st)))
         else if dc_use_eagle cfg then eagle_propose_step cfg ops m num_scheduled_tokens sampled hidden_states aux md cm st
         else Inl UnboundLocalError)"


section \<open>Sampled tokens within the batch\<close>

abbreviation sample_indices :: "nat list \<Rightarrow> nat list \<Rightarrow> int list" where
  "sample_indices q n \<equiv> map2 (\<lambda>a r. a - 1 - r) (cumsum 0 (map int q)) (map int n)"

lemma sample_indices_range:
  assumes "length n = length q" "\<forall>i<length q. n ! i < q ! i"
  shows "list_all (\<lambda>i. 0 \<le> i \<and> i < int (sum_list q)) (sample_indices q n)"
proof -
  have "0 \<le> sample_indices q n ! i \<and> sample_indices q n ! i < int (sum_list q)" if i: "i < length q" for i
  proof -
    have "sample_indices q n ! i = int (start_of q (Suc i)) - 1 - int (n ! i)"
      using i assms(1) by (simp add: nth_cumsum take_map sum_list_int start_of_def del: take_Suc_Cons)
    moreover have "n ! i < q ! i" using assms(2) i by blast
    moreover have "start_of q (Suc i) \<le> sum_list q" by (simp add: start_of_def sum_list_take_le)
    ultimately show ?thesis using start_of_Suc[OF i] by linarith
  qed
  then show ?thesis using assms(1) by (simp add: list_all_length)
qed

text \<open>The index of the last token every request keeps when some of its tokens are rejected.\<close>

definition last_kept :: "nat list \<Rightarrow> nat list \<Rightarrow> int list" where
  "last_kept q n = map (\<lambda>i. int (start_of q i + (q ! i - n ! i) - 1)) [0..<length q]"

lemma sample_indices_last_kept:
  assumes "length n = length q" "\<forall>i<length q. n ! i < q ! i"
  shows "sample_indices q n = last_kept q n"
proof (rule nth_equalityI)
  fix i assume "i < length (sample_indices q n)"
  then have i: "i < length q" using assms(1) by simp
  then have "sample_indices q n ! i = int (start_of q (Suc i)) - 1 - int (n ! i)"
    using assms(1) by (simp add: nth_cumsum take_map sum_list_int start_of_def del: take_Suc_Cons)
  moreover have "n ! i < q ! i" using assms(2) i by blast
  ultimately show "sample_indices q n ! i = last_kept q n ! i"
    using i start_of_Suc[OF i] by (simp add: last_kept_def of_nat_diff)
qed (use assms(1) in \<open>simp add: last_kept_def\<close>)

lemma gather_prefix:
  assumes "n \<le> length xs"
  shows "gather_at xs (map int [0..<n]) = Inr (take n xs)"
proof -
  have "gather_at xs (map int [0..<n]) = Inr (map (\<lambda>i. xs ! nat i) (map int [0..<n]))"
    by (rule gather_at_nat) (use assms in auto)
  also have "map (\<lambda>i. xs ! nat i) (map int [0..<n]) = take n xs"
    by (rule nth_equalityI) (use assms in simp_all)
  finally show ?thesis .
qed

section \<open>The padded batch of EAGLE\<close>

lemma padded_step_returns:
  assumes cm: "cm_query_start_loc_cpu cm = 0 # cumsum 0 (map int q)" "cm_query_start_loc cm = cm_query_start_loc_cpu cm"
      "q \<noteq> []" "length n = length q" "\<forall>i<length q. n ! i < q ! i" "length (cm_seq_lens_cpu cm) = length q" "length (cm_seq_lens cm) = length q"
      "sum_list q \<le> dc_num_arange cfg" "sum_list q \<le> length (cm_slot_mapping cm)"
    and cfg: "\<not> dc_disable_padded_drafter_batch cfg" "\<not> dc_use_aux_hidden_state_outputs cfg" "1 \<le> eg_num_speculative_tokens (dc_eagle cfg)"
    and nxt: "dr_next_token_ids_padded ops cm toks (ds_batch st) = (next_tokens, counts)" "length next_tokens = length q"
      "num_rejected_padded (sd_cu_num_draft_tokens md) counts = Inr (map int n)"
      "ds_copies_counts st \<longrightarrow> length counts \<le> length (ds_valid_sampled_token_count_cpu st)"
    and bufs: "sum_list q \<le> length (ds_input_ids st)" "sum_list q \<le> length (ds_positions st)" "sum_list q \<le> length hidden"
      "sum_list q \<le> length (ds_drafter_input_ids st)" "0 < sum_list q"
    and laws: "model_laws m" "table_covers (dc_eagle cfg) (map (\<lambda>i. ds_positions st ! nat i) (sample_indices q n)) cm"
  shows "\<exists>rows st'. eagle_propose_step cfg ops m (sum_list q) (Sampled_tensor toks) hidden aux (Some md) cm st = Inr (rows, st')
    \<and> length rows = length q \<and> list_all (\<lambda>row. length row = eg_num_speculative_tokens (dc_eagle cfg)) rows
    \<and> (\<exists>cm'. first_drafts_sampled m (dc_eagle cfg) (ds_drafter_input_ids st) (take (sum_list q) (ds_input_ids st))
        (take (sum_list q) (ds_positions st)) (take (sum_list q) hidden) next_tokens (last_kept q n) cm' (ds_world st) (map hd rows))
    \<and> ds_total_draft_tokens st' = ds_total_draft_tokens st + (if dc_mtp_debug cfg then int (sum_list (sd_num_draft_tokens md)) else 0)
    \<and> ds_total_accepted_tokens st' = ds_total_accepted_tokens st
        + (if dc_mtp_debug cfg then int (sum_list (sd_num_draft_tokens md)) - int (sum_list n) else 0)"
proof -
  let ?N = "sum_list q" and ?is = "sample_indices q n"
  obtain cm2 where prep: "prepare_inputs_padded (dc_num_arange cfg) cm (sd_cu_num_draft_tokens md) counts = Inr (cm2, map int [0..<?N], ?is, map int n)"
      "cm_seq_lens cm2 = cm_seq_lens cm" "cm_block_table_tensor cm2 = cm_block_table_tensor cm"
    using padded_inputs_total[OF cm(1-4,6-9) nxt(3)] by blast
  define st1 where "st1 = (if ds_copies_counts st then st\<lparr>ds_valid_sampled_token_count_cpu := counts @ drop (length counts) (ds_valid_sampled_token_count_cpu st),
      ds_prev_sampled_token_ids := Some (map (\<lambda>t. [t]) next_tokens)\<rparr> else st)"
  have st1: "copy_valid_sampled_token_count next_tokens counts st = Inr st1"
      "ds_input_ids st1 = ds_input_ids st" "ds_positions st1 = ds_positions st" "ds_drafter_input_ids st1 = ds_drafter_input_ids st"
      "ds_total_draft_tokens st1 = ds_total_draft_tokens st" "ds_total_accepted_tokens st1 = ds_total_accepted_tokens st"
    using nxt(4) by (auto simp: copy_valid_sampled_token_count_def st1_def)
  define st2 where "st2 = (if dc_mtp_debug cfg then st1\<lparr>ds_total_draft_tokens := ds_total_draft_tokens st1 + int (sum_list (sd_num_draft_tokens md)),
      ds_total_accepted_tokens := ds_total_accepted_tokens st1 + (int (sum_list (sd_num_draft_tokens md)) - int (sum_list n))\<rparr> else st1)"
  have st2: "count_accepted (dc_mtp_debug cfg) md (Some (map int n)) st1 = Inr st2"
    by (simp add: count_accepted_def st2_def Let_def sum_list_int)
  have rng: "list_all (\<lambda>i. 0 \<le> i \<and> i < int ?N) ?is" using sample_indices_range[OF cm(4,5)] .
  have pos: "map (\<lambda>i. take ?N (ds_positions st) ! nat i) ?is = map (\<lambda>i. ds_positions st ! nat i) ?is"
    using rng by (auto simp: list_all_iff)
  have cov: "table_covers (dc_eagle cfg) (map (\<lambda>i. take ?N (ds_positions st) ! nat i) ?is) cm2"
    using laws(2) prep(2,3) unfolding pos table_covers_def by simp
  have "length (take ?N (ds_input_ids st)) = ?N" using bufs(1) by simp
  then have ne: "take ?N (ds_input_ids st) \<noteq> []" "next_tokens \<noteq> []"
    using bufs(5) nxt(2) cm(3) by (metis length_0_conv less_numeral_extra(3))+
  have "case propose m (dc_eagle cfg) (ds_drafter_input_ids st) (take ?N (ds_input_ids st)) (take ?N (ds_positions st)) (take ?N hidden)
      next_tokens (Some ?is) cm2 (ds_world st2) of Inl _ \<Rightarrow> False
    | Inr (rows, _, _) \<Rightarrow> length rows = length next_tokens \<and> list_all (\<lambda>row. length row = eg_num_speculative_tokens (dc_eagle cfg)) rows
      \<and> first_drafts_sampled m (dc_eagle cfg) (ds_drafter_input_ids st) (take ?N (ds_input_ids st)) (take ?N (ds_positions st)) (take ?N hidden)
          next_tokens ?is cm2 (ds_world st2) (map hd rows)"
    by (rule propose_total[OF laws(1) ne(1) _ _ _ ne(2) _ cov cfg(3)]) (use bufs cm(4) nxt(2) rng in auto)
  then obtain rows buffer w where run: "propose m (dc_eagle cfg) (ds_drafter_input_ids st) (take ?N (ds_input_ids st)) (take ?N (ds_positions st))
      (take ?N hidden) next_tokens (Some ?is) cm2 (ds_world st2) = Inr (rows, buffer, w)"
    "length rows = length q" "list_all (\<lambda>row. length row = eg_num_speculative_tokens (dc_eagle cfg)) rows"
    "first_drafts_sampled m (dc_eagle cfg) (ds_drafter_input_ids st) (take ?N (ds_input_ids st)) (take ?N (ds_positions st))
      (take ?N hidden) next_tokens ?is cm2 (ds_world st2) (map hd rows)"
    using nxt(2) by (auto split: sum.splits)
  have "ds_world st1 = ds_world st" by (simp add: st1_def)
  then have st2_fields: "ds_drafter_input_ids st2 = ds_drafter_input_ids st" "ds_world st2 = ds_world st"
    using st1(4) by (simp_all add: st2_def)
  have "eagle_propose_step cfg ops m ?N (Sampled_tensor toks) hidden aux (Some md) cm st
      = Inr (rows, st2\<lparr>ds_drafter_input_ids := buffer, ds_world := w\<rparr>)"
    using cfg(1,2) nxt(1) st1(1-3) prep(1) bufs(1-3) st2 run(1) st2_fields
    by (simp add: eagle_propose_step_def eagle_next_tokens_def eagle_spec_inputs_def select_hidden_def gather_prefix)
  moreover have "?is = last_kept q n" by (rule sample_indices_last_kept[OF cm(4,5)])
  ultimately show ?thesis using run(2-4) st1(5,6) st2_fields(2) by (auto simp: st2_def)
qed

section \<open>Medusa\<close>

lemma medusa_indices_nth:
  "length ds = length toks \<Longrightarrow> i < length toks \<Longrightarrow>
    medusa_indices off (zip ds toks) ! i = off + int (sum_list (take i (map Suc ds))) + int (length (toks ! i)) - 1"
proof (induction ds toks arbitrary: off i rule: list_induct2)
  case (Cons d ds t toks)
  show ?case
  proof (cases i)
    case (Suc j)
    then show ?thesis using Cons.IH[of j "off + int d + 1"] Cons.prems by simp
  qed simp
qed simp

lemma length_medusa_indices: "length (medusa_indices off xs) = length xs"
  by (induction xs arbitrary: off) auto


section \<open>Properties\<close>

text \<open>
  C22. With the padded batch of EAGLE, behind a step whose drafts were checked, proposing returns and no access is out of
  range: the padding of the metadata is undone, every request gets exactly as many drafts as configured, and its first draft
  is the greedy token of the hidden state at the last token the request keeps, in a forward over its tokens shifted by one.
  This is for at least one draft and for drafters that take the last hidden state, not the auxiliary ones.
  The counts of drafted and accepted tokens advance by what was drafted and accepted when they are asked for
  (\<^verbatim>\<open>VLLM_MTP_DEBUG\<close>), and stay as they are otherwise.
\<close>

theorem padded_drafting_returns:
  assumes unpad: "cm = unpad_common_attn_metadata cm0 (ds_num_reqs st) (sum_list q)"
    and cm: "cm_query_start_loc_cpu cm = 0 # cumsum 0 (map int q)" "cm_query_start_loc cm = cm_query_start_loc_cpu cm"
      "q \<noteq> []" "length n = length q" "\<forall>i<length q. n ! i < q ! i" "length (cm_seq_lens_cpu cm) = length q" "length (cm_seq_lens cm) = length q"
      "sum_list q \<le> dc_num_arange cfg" "sum_list q \<le> length (cm_slot_mapping cm)"
    and cfg: "dc_use_eagle cfg" "dc_method cfg \<notin> {''ngram'', ''suffix'', ''medusa''}" "\<not> dc_disable_padded_drafter_batch cfg"
      "\<not> dc_use_aux_hidden_state_outputs cfg" "1 \<le> eg_num_speculative_tokens (dc_eagle cfg)"
    and nxt: "dr_next_token_ids_padded ops cm toks (ds_batch st) = (next_tokens, counts)" "length next_tokens = length q"
      "num_rejected_padded (sd_cu_num_draft_tokens md) counts = Inr (map int n)"
      "ds_copies_counts st \<longrightarrow> length counts \<le> length (ds_valid_sampled_token_count_cpu st)"
    and bufs: "sum_list q \<le> length (ds_input_ids st)" "sum_list q \<le> length (ds_positions st)" "sum_list q \<le> length hidden"
      "sum_list q \<le> length (ds_drafter_input_ids st)" "0 < sum_list q"
    and laws: "model_laws m" "table_covers (dc_eagle cfg) (map (\<lambda>i. ds_positions st ! nat i) (sample_indices q n)) cm"
  shows "\<exists>rows st'. propose_draft_token_ids cfg ops m (sum_list q) (Sampled_tensor toks) hidden sample_hidden aux (Some md) cm0 st = Inr (rows, st')
    \<and> length rows = length q \<and> list_all (\<lambda>row. length row = eg_num_speculative_tokens (dc_eagle cfg)) rows
    \<and> (\<exists>cm'. first_drafts_sampled m (dc_eagle cfg) (ds_drafter_input_ids st) (take (sum_list q) (ds_input_ids st))
        (take (sum_list q) (ds_positions st)) (take (sum_list q) hidden) next_tokens (last_kept q n) cm' (ds_world st) (map hd rows))
    \<and> ds_total_draft_tokens st' = ds_total_draft_tokens st + (if dc_mtp_debug cfg then int (sum_list (sd_num_draft_tokens md)) else 0)
    \<and> ds_total_accepted_tokens st' = ds_total_accepted_tokens st
        + (if dc_mtp_debug cfg then int (sum_list (sd_num_draft_tokens md)) - int (sum_list n) else 0)"
  using padded_step_returns[OF cm cfg(3-5) nxt bufs laws, of aux] cfg(1,2) unfolding unpad propose_draft_token_ids_def Let_def by simp

text \<open>
  Without the padded batch, proposing behind a step whose drafts were checked always raises: the drafter's
  \<open>prepare_inputs\<close> takes the rejected tokens only, and is called with the sampled tokens and the numbers of drafts.
\<close>

theorem unpadded_drafting_raises:
  assumes "dc_use_eagle cfg" "dc_method cfg \<notin> {''ngram'', ''suffix'', ''medusa''}" "dc_disable_padded_drafter_batch cfg"
  shows "propose_draft_token_ids cfg ops m num_scheduled_tokens (Sampled_lists toks) hidden sample_hidden aux (Some md) cm st = Inl TypeError"
  using assms by (simp add: propose_draft_token_ids_def eagle_propose_step_def eagle_next_tokens_def eagle_spec_inputs_def call_prepare_inputs_def Let_def)

text \<open>
  Behind a step whose drafts were checked, the Medusa heads get, for every request, the hidden state of the last token that
  was accepted or sampled, at its place among the request's own rows.
\<close>

theorem medusa_gets_last_accepted:
  assumes "dc_method cfg = ''medusa''" "length (sd_num_draft_tokens md) = length toks" "length sample_hidden \<noteq> length toks"
    and "sum_list (map Suc (sd_num_draft_tokens md)) \<le> length sample_hidden"
    and "\<forall>i<length toks. toks ! i \<noteq> [] \<and> length (toks ! i) \<le> Suc (sd_num_draft_tokens md ! i)"
  shows "propose_draft_token_ids cfg ops m num_scheduled_tokens (Sampled_lists toks) hidden sample_hidden aux (Some md) cm st
    = Inr (dr_medusa ops (map (\<lambda>i. sample_hidden ! (sum_list (take i (map Suc (sd_num_draft_tokens md))) + (length (toks ! i) - 1)))
        [0..<length toks]), st)"
proof -
  let ?ds = "sd_num_draft_tokens md" and ?start = "\<lambda>i. sum_list (take i (map Suc (sd_num_draft_tokens md)))"
  have nth: "medusa_indices 0 (zip ?ds toks) = map (\<lambda>i. int (?start i + (length (toks ! i) - 1))) [0..<length toks]"
  proof (rule nth_equalityI)
    fix i assume "i < length (medusa_indices 0 (zip ?ds toks))"
    then have i: "i < length toks" using assms(2) by (simp add: length_medusa_indices)
    then have "1 \<le> length (toks ! i)" using assms(5) by (cases "toks ! i") auto
    then show "medusa_indices 0 (zip ?ds toks) ! i = map (\<lambda>i. int (?start i + (length (toks ! i) - 1))) [0..<length toks] ! i"
      using i medusa_indices_nth[OF assms(2) i, of 0] by (simp add: of_nat_diff)
  qed (use assms(2) in \<open>simp add: length_medusa_indices\<close>)
  have bound: "?start i + (length (toks ! i) - 1) < length sample_hidden" if i: "i < length toks" for i
  proof -
    have "?start (Suc i) \<le> length sample_hidden" using sum_list_take_le[of "Suc i" "map Suc ?ds"] assms(4) by linarith
    moreover have "?start (Suc i) = ?start i + Suc (?ds ! i)" using i assms(2) sum_list_take_Suc[of i "map Suc ?ds"] by simp
    moreover have "0 < length (toks ! i)" "length (toks ! i) \<le> Suc (?ds ! i)" using assms(5) i by auto
    ultimately show ?thesis by linarith
  qed
  have "gather_at sample_hidden (medusa_indices 0 (zip ?ds toks)) = Inr (map (\<lambda>i. sample_hidden ! (?start i + (length (toks ! i) - 1))) [0..<length toks])"
    unfolding nth using gather_at_nat[of "map (\<lambda>i. int (?start i + (length (toks ! i) - 1))) [0..<length toks]" sample_hidden] bound
    by (auto simp: comp_def simp del: of_nat_add)
  then show ?thesis using assms(1,3) by (simp add: propose_draft_token_ids_def medusa_hidden_states_def)
qed


section \<open>Witnesses\<close>

definition tiny_dispatch :: "string \<Rightarrow> bool \<Rightarrow> draft_config" where
  "tiny_dispatch method disable_padded = \<lparr>dc_method = method, dc_use_eagle = True, dc_disable_padded_drafter_batch = disable_padded,
     dc_use_aux_hidden_state_outputs = False, dc_mtp_debug = True, dc_max_num_tokens = 8, dc_num_arange = 8, dc_eagle = tiny_cfg\<rparr>"

definition tiny_proposers :: "(unit, int) proposers" where
  "tiny_proposers = \<lparr>dr_ngram = (\<lambda>toks _. toks), dr_suffix = (\<lambda>_ toks. toks), dr_medusa = map (\<lambda>h. [h]), dr_next_token_ids_cpu = (\<lambda>toks _. map last toks),
     dr_next_token_ids_padded = (\<lambda>_ toks _. (map hd toks, [2, 2])), dr_cat = concat\<rparr>"

definition tiny_state :: "(unit, unit) draft_state" where
  "tiny_state = \<lparr>ds_batch = (), ds_num_reqs = 2, ds_input_ids = [1, 2, 3, 4, 5], ds_positions = [1, 2, 3, 5, 6], ds_prev_sampled_token_ids = None,
     ds_copies_counts = True, ds_valid_sampled_token_count_cpu = [0, 0, 0], ds_total_draft_tokens = 10, ds_total_accepted_tokens = 4,
     ds_drafter_input_ids = [0, 0, 0, 0, 0, 0], ds_world = ()\<rparr>"

lemma tiny_unpadded: "unpad_common_attn_metadata (tiny_batch DECODE_ONLY) (ds_num_reqs tiny_state) (sum_list [3, 2]) = tiny_batch DECODE_ONLY"
  by (simp add: unpad_common_attn_metadata_def tiny_batch_def tiny_state_def numeral_2_eq_2)

theorem padded_drafting_returns_witness:
  "\<exists>rows st'. propose_draft_token_ids (tiny_dispatch ''mtp'' False) tiny_proposers tiny_model (sum_list [3, 2]) (Sampled_tensor [[30], [50]])
       [0, 0, 0, 0, 0] [] None (Some \<lparr>sd_num_draft_tokens = [2, 1], sd_cu_num_draft_tokens = [2, 3]\<rparr>) (tiny_batch DECODE_ONLY) tiny_state = Inr (rows, st')
     \<and> length rows = 2 \<and> ds_total_accepted_tokens st' = 6 \<and> ds_total_draft_tokens st' = 13"
proof -
  have "\<exists>rows st'. propose_draft_token_ids (tiny_dispatch ''mtp'' False) tiny_proposers tiny_model (sum_list [3, 2]) (Sampled_tensor [[30], [50]])
       [0, 0, 0, 0, 0] [] None (Some \<lparr>sd_num_draft_tokens = [2, 1], sd_cu_num_draft_tokens = [2, 3]\<rparr>) (tiny_batch DECODE_ONLY) tiny_state = Inr (rows, st')
    \<and> length rows = length [3 :: nat, 2] \<and> list_all (\<lambda>row. length row = eg_num_speculative_tokens (dc_eagle (tiny_dispatch ''mtp'' False))) rows
    \<and> (\<exists>cm'. first_drafts_sampled tiny_model (dc_eagle (tiny_dispatch ''mtp'' False)) (ds_drafter_input_ids tiny_state)
        (take (sum_list [3, 2]) (ds_input_ids tiny_state)) (take (sum_list [3, 2]) (ds_positions tiny_state))
        (take (sum_list [3, 2]) [0, 0, 0, 0, 0]) [30, 50] (last_kept [3, 2] [1, 0]) cm' (ds_world tiny_state) (map hd rows))
    \<and> ds_total_draft_tokens st' = ds_total_draft_tokens tiny_state + (if dc_mtp_debug (tiny_dispatch ''mtp'' False)
        then int (sum_list (sd_num_draft_tokens \<lparr>sd_num_draft_tokens = [2, 1], sd_cu_num_draft_tokens = [2, 3]\<rparr>)) else 0)
    \<and> ds_total_accepted_tokens st' = ds_total_accepted_tokens tiny_state + (if dc_mtp_debug (tiny_dispatch ''mtp'' False)
        then int (sum_list (sd_num_draft_tokens \<lparr>sd_num_draft_tokens = [2, 1], sd_cu_num_draft_tokens = [2, 3]\<rparr>)) - int (sum_list [1, 0]) else 0)"
    by (rule padded_drafting_returns[OF tiny_unpadded[symmetric] tiny_locs, where toks = "[[30], [50]]" and next_tokens = "[30, 50]" and counts = "[2, 2]"])
       (auto simp: tiny_batch_def tiny_dispatch_def tiny_proposers_def tiny_state_def num_rejected_padded_def zip_with_def less_Suc_eq
          model_laws_def tiny_model_def table_covers_def tiny_cfg_def)
  then show ?thesis by (auto simp: tiny_dispatch_def tiny_state_def)
qed

theorem unpadded_drafting_raises_witness:
  "propose_draft_token_ids (tiny_dispatch ''mtp'' True) tiny_proposers tiny_model 5 (Sampled_lists [[30, 31], [50]])
     [0, 0, 0, 0, 0] [] None (Some \<lparr>sd_num_draft_tokens = [2, 1], sd_cu_num_draft_tokens = [2, 3]\<rparr>) (tiny_batch DECODE_ONLY) tiny_state = Inl TypeError"
  by (rule unpadded_drafting_raises) (simp_all add: tiny_dispatch_def)

theorem medusa_gets_last_accepted_witness:
  "propose_draft_token_ids (tiny_dispatch ''medusa'' True) tiny_proposers tiny_model 5 (Sampled_lists [[30, 31], [50]])
     [] [7, 8, 9, 10, 11] None (Some \<lparr>sd_num_draft_tokens = [2, 1], sd_cu_num_draft_tokens = [2, 3]\<rparr>) (tiny_batch DECODE_ONLY) tiny_state
   = Inr ([[8], [10]], tiny_state)"
  using medusa_gets_last_accepted[of "tiny_dispatch ''medusa'' True" "\<lparr>sd_num_draft_tokens = [2, 1], sd_cu_num_draft_tokens = [2, 3]\<rparr>"
      "[[30, 31], [50]]" "[7, 8, 9, 10, 11]" tiny_proposers tiny_model 5 "[]" None "tiny_batch DECODE_ONLY" tiny_state]
  by (simp add: tiny_dispatch_def tiny_proposers_def less_Suc_eq numeral_2_eq_2)

end
