(* ===== verification/LoraKernels.thy ===== *)
theory LoraKernels
  imports FusedMoeKernel
begin

text \<open>
  The kernels that multiply the tokens of every sequence of a batch with the low rank matrices of the sequence's
  adapter, their launches, the choice of their block sizes, and the methods of the wrapper that calls them
  (\<^verbatim>\<open>vllm_mlu/lora/ops/triton_ops/{utils,sgmv_shrink,sgmv_expand,sgmv_expand_slice}.py\<close>,
  \<^verbatim>\<open>vllm_mlu/lora/punica_wrapper/punica_mlu.py\<close>). As for the mixture of experts, tensors of numbers are buffers with
  sizes and strides, numbers are exact elements of a ring, so that casts between floating point types change nothing, and
  the programs of a grid run one after another in an arbitrary order, which is an argument. A masked load without a
  default gives an arbitrary value, the argument \<open>junk\<close>.
\<close>

section \<open>Block sizes\<close>

definition MLU_MAX_GRID_SIZE :: nat where
  "MLU_MAX_GRID_SIZE = 65536"

definition candidates_list :: "nat list" where
  "candidates_list = [16, 32, 64, 96, 128, 192, 256]"

function adjust_loop :: "nat \<Rightarrow> nat \<Rightarrow> nat \<Rightarrow> nat \<Rightarrow> nat \<times> nat \<Rightarrow> nat \<times> nat" where
  "adjust_loop m n m_idx n_idx blocks =
     (if m_idx < length candidates_list \<and> n_idx < length candidates_list
      then let block_m = candidates_list ! m_idx; block_n = candidates_list ! n_idx
           in if ceil_div m block_m * ceil_div n block_n < MLU_MAX_GRID_SIZE then (block_m, block_n)
              else adjust_loop m n (if m_idx < length candidates_list then m_idx + 1 else m_idx)
                     (if n_idx < length candidates_list then n_idx + 1 else n_idx) (block_m, block_n)
      else blocks)"
  by pat_completeness auto
termination by (relation "measure (\<lambda>(m, n, m_idx, n_idx, blocks). length candidates_list - m_idx)") auto

declare adjust_loop.simps [simp del]

definition adjust_kernel_block_size :: "nat \<Rightarrow> nat \<Rightarrow> nat \<Rightarrow> nat \<Rightarrow> (nat \<times> nat) res" where
  "adjust_kernel_block_size m block_m n block_n =
     (let (bm, bn) = adjust_loop m n 1 (if block_n = 16 then 0 else 1) (block_m, block_n)
      in if MLU_MAX_GRID_SIZE \<le> ceil_div m bm * ceil_div n bn then Inl ValueError else Inr (bm, bn))"

section \<open>Tiles\<close>

text \<open>Storing a tile, adding one atomically, and one element of the product of two tiles.\<close>

definition store_tile :: "nat \<Rightarrow> nat \<Rightarrow> (nat \<Rightarrow> nat \<Rightarrow> nat) \<Rightarrow> (nat \<Rightarrow> nat \<Rightarrow> bool) \<Rightarrow> (nat \<Rightarrow> nat \<Rightarrow> 'a) \<Rightarrow> (nat \<Rightarrow> 'a) \<Rightarrow> nat \<Rightarrow> 'a" where
  "store_tile BM BN ptr keep val c =
     fold (\<lambda>(i, j) c. if keep i j then c(ptr i j := val i j) else c) (List.product [0..<BM] [0..<BN]) c"

definition atomic_add_tile ::
  "nat \<Rightarrow> nat \<Rightarrow> (nat \<Rightarrow> nat \<Rightarrow> nat) \<Rightarrow> (nat \<Rightarrow> nat \<Rightarrow> bool) \<Rightarrow> (nat \<Rightarrow> nat \<Rightarrow> 'a::comm_ring_1) \<Rightarrow> (nat \<Rightarrow> 'a) \<Rightarrow> nat \<Rightarrow> 'a" where
  "atomic_add_tile BM BN ptr keep val c =
     fold (\<lambda>(i, j) c. if keep i j then c(ptr i j := c (ptr i j) + val i j) else c) (List.product [0..<BM] [0..<BN]) c"

definition tile_dot :: "nat \<Rightarrow> (nat \<Rightarrow> 'a::comm_ring_1) \<Rightarrow> (nat \<Rightarrow> 'a) \<Rightarrow> 'a" where
  "tile_dot BK a b = sum_list (map (\<lambda>k. a k * b k) [0..<BK])"

section \<open>The kernels\<close>

record sgmv_args =
  sa_N :: nat
  sa_K :: nat
  sa_xm_stride :: nat
  sa_xk_stride :: nat
  sa_l0_stride :: nat
  sa_lora_k_stride :: nat
  sa_lora_n_stride :: nat
  sa_cm_stride :: nat
  sa_cn_stride :: nat
  sa_BLOCK_M :: nat
  sa_BLOCK_N :: nat
  sa_BLOCK_K :: nat
  sa_EVEN_K :: bool

record 'a sgmv_data =
  sd_input :: "nat \<Rightarrow> 'a"
  sd_lora :: "nat \<Rightarrow> 'a"
  sd_b_seq_start_loc :: "nat list"
  sd_seq_lens :: "nat list"
  sd_lora_indices :: "int list"

text \<open>The loop over the inner dimension, for one row and one column of the tile of a program.\<close>

definition sgmv_accumulate ::
  "sgmv_args \<Rightarrow> 'a::comm_ring_1 sgmv_data \<Rightarrow> 'a \<Rightarrow> nat \<Rightarrow> nat \<Rightarrow> nat \<Rightarrow> nat \<Rightarrow> bool \<Rightarrow> bool \<Rightarrow> 'a" where
  "sgmv_accumulate sa d junk SPLIT_K pid_sk a_row b_col row_ok col_ok =
     (let offset_k = (\<lambda>j. pid_sk * sa_BLOCK_K sa + j) in
      fold (\<lambda>k acc.
        let a = (\<lambda>j. sd_input d (a_row + offset_k j * sa_xk_stride sa + k * (sa_BLOCK_K sa * SPLIT_K * sa_xk_stride sa)));
            b = (\<lambda>j. sd_lora d (b_col + offset_k j * sa_lora_n_stride sa + k * (sa_BLOCK_K sa * SPLIT_K * sa_lora_n_stride sa)));
            k_remaining = sa_K sa - k * (sa_BLOCK_K sa * SPLIT_K)
        in acc + (if sa_EVEN_K sa
            then tile_dot (sa_BLOCK_K sa) (\<lambda>j. if row_ok then a j else junk) (\<lambda>j. if col_ok then b j else junk)
            else tile_dot (sa_BLOCK_K sa) (\<lambda>j. if offset_k j < k_remaining \<and> row_ok then a j else 0)
                                          (\<lambda>j. if offset_k j < k_remaining \<and> col_ok then b j else 0)))
       [0..<ceil_div (sa_K sa) (sa_BLOCK_K sa * SPLIT_K)] 0)"

definition sgmv_expand_slice_kernel ::
  "sgmv_args \<Rightarrow> bool \<Rightarrow> nat \<Rightarrow> 'a::comm_ring_1 sgmv_data \<Rightarrow> 'a \<Rightarrow> nat \<times> nat \<Rightarrow> (nat \<Rightarrow> 'a) \<Rightarrow> (nat \<Rightarrow> 'a) res" where
  "sgmv_expand_slice_kernel sa ADD_INPUTS slice_offset d junk pids out =
     (let (pid, cur_batch) = pids;
          cta_n_num = ceil_div (sa_N sa) (sa_BLOCK_N sa);
          pid_m = pid div cta_n_num;
          pid_n = pid mod cta_n_num
      in bind_res (nth_res (sd_seq_lens d) cur_batch) (\<lambda>M.
         if M < pid_m * sa_BLOCK_M sa then Inr out
         else bind_res (nth_res (sd_lora_indices d) cur_batch) (\<lambda>lora_index.
         if lora_index = -1 then Inr out
         else if lora_index < 0 then Inl IndexError
         else bind_res (nth_res (sd_b_seq_start_loc d) cur_batch) (\<lambda>cur_seq_start.
         let offset_m = (\<lambda>i. i + pid_m * sa_BLOCK_M sa);
             offset_n = (\<lambda>j. j + pid_n * sa_BLOCK_N sa);
             accumulator = (\<lambda>i j. sgmv_accumulate sa d junk 1 0
               (cur_seq_start * sa_xm_stride sa + offset_m i * sa_xm_stride sa)
               (sa_l0_stride sa * nat lora_index + offset_n j * sa_lora_k_stride sa)
               (offset_m i < M) (offset_n j < sa_N sa));
             offset_cm = (\<lambda>i. cur_seq_start + i + pid_m * sa_BLOCK_M sa);
             offset_cn = (\<lambda>j. j + pid_n * sa_BLOCK_N sa + slice_offset);
             c_ptr = (\<lambda>i j. offset_cm i * sa_cm_stride sa + offset_cn j * sa_cn_stride sa);
             c_mask = (\<lambda>i j. offset_cm i < cur_seq_start + M \<and> offset_cn j < slice_offset + sa_N sa);
             tiled_c = (if ADD_INPUTS then (\<lambda>i j. accumulator i j + (if c_mask i j then out (c_ptr i j) else junk)) else accumulator)
         in Inr (store_tile (sa_BLOCK_M sa) (sa_BLOCK_N sa) c_ptr c_mask tiled_c out)))))"

definition sgmv_expand_kernel ::
  "sgmv_args \<Rightarrow> bool \<Rightarrow> 'a::comm_ring_1 sgmv_data \<Rightarrow> 'a \<Rightarrow> nat \<times> nat \<Rightarrow> (nat \<Rightarrow> 'a) \<Rightarrow> (nat \<Rightarrow> 'a) res" where
  "sgmv_expand_kernel sa ADD_INPUTS d junk pids out =
     (let (pid, cur_batch) = pids;
          cta_n_num = ceil_div (sa_N sa) (sa_BLOCK_N sa);
          pid_m = pid div cta_n_num;
          pid_n = pid mod cta_n_num
      in bind_res (nth_res (sd_seq_lens d) cur_batch) (\<lambda>M.
         if M < pid_m * sa_BLOCK_M sa then Inr out
         else bind_res (nth_res (sd_lora_indices d) cur_batch) (\<lambda>lora_index.
         if lora_index = -1 then Inr out
         else if lora_index < 0 then Inl IndexError
         else bind_res (nth_res (sd_b_seq_start_loc d) cur_batch) (\<lambda>cur_seq_start.
         let offset_m = (\<lambda>i. i + pid_m * sa_BLOCK_M sa);
             offset_n = (\<lambda>j. j + pid_n * sa_BLOCK_N sa);
             accumulator = (\<lambda>i j. sgmv_accumulate sa d junk 1 0
               (cur_seq_start * sa_xm_stride sa + offset_m i * sa_xm_stride sa)
               (sa_l0_stride sa * nat lora_index + offset_n j * sa_lora_k_stride sa)
               (offset_m i < M) (offset_n j < sa_N sa));
             offset_cm = (\<lambda>i. cur_seq_start + i + pid_m * sa_BLOCK_M sa);
             offset_cn = (\<lambda>j. j + pid_n * sa_BLOCK_N sa);
             c_ptr = (\<lambda>i j. offset_cm i * sa_cm_stride sa + offset_cn j * sa_cn_stride sa);
             c_mask = (\<lambda>i j. offset_cm i < cur_seq_start + M \<and> offset_cn j < sa_N sa);
             tiled_c = (if ADD_INPUTS then (\<lambda>i j. accumulator i j + (if c_mask i j then out (c_ptr i j) else junk)) else accumulator)
         in Inr (store_tile (sa_BLOCK_M sa) (sa_BLOCK_N sa) c_ptr c_mask tiled_c out)))))"

definition sgmv_shrink_kernel ::
  "sgmv_args \<Rightarrow> nat \<Rightarrow> 'a \<Rightarrow> 'a::comm_ring_1 sgmv_data \<Rightarrow> 'a \<Rightarrow> nat \<times> nat \<times> nat \<Rightarrow> (nat \<Rightarrow> 'a) \<Rightarrow> (nat \<Rightarrow> 'a) res" where
  "sgmv_shrink_kernel sa SPLIT_K scaling d junk pids out =
     (let (pid, pid_sk, cur_batch) = pids;
          cta_n_num = ceil_div (sa_N sa) (sa_BLOCK_N sa);
          pid_m = pid div cta_n_num;
          pid_n = pid mod cta_n_num
      in bind_res (nth_res (sd_seq_lens d) cur_batch) (\<lambda>M.
         if M < pid_m * sa_BLOCK_M sa then Inr out
         else bind_res (nth_res (sd_lora_indices d) cur_batch) (\<lambda>lora_index.
         if lora_index = -1 then Inr out
         else if lora_index < 0 then Inl IndexError
         else bind_res (nth_res (sd_b_seq_start_loc d) cur_batch) (\<lambda>cur_seq_start.
         let offset_m = (\<lambda>i. i + pid_m * sa_BLOCK_M sa);
             offset_n = (\<lambda>j. j + pid_n * sa_BLOCK_N sa);
             accumulator = (\<lambda>i j. sgmv_accumulate sa d junk SPLIT_K pid_sk
               (cur_seq_start * sa_xm_stride sa + offset_m i * sa_xm_stride sa)
               (sa_l0_stride sa * nat lora_index + offset_n j * sa_lora_k_stride sa)
               (offset_m i < M) (offset_n j < sa_N sa) * scaling);
             offset_cm = (\<lambda>i. cur_seq_start + i + pid_m * sa_BLOCK_M sa);
             offset_cn = (\<lambda>j. j + pid_n * sa_BLOCK_N sa);
             c_ptr = (\<lambda>i j. offset_cm i * sa_cm_stride sa + offset_cn j * sa_cn_stride sa);
             c_mask = (\<lambda>i j. offset_cm i < cur_seq_start + M \<and> offset_cn j < sa_N sa)
         in Inr (if SPLIT_K = 1 then store_tile (sa_BLOCK_M sa) (sa_BLOCK_N sa) c_ptr c_mask accumulator out
                 else atomic_add_tile (sa_BLOCK_M sa) (sa_BLOCK_N sa) c_ptr c_mask accumulator out)))))"

section \<open>The launches\<close>

datatype lora_dtype = Float16 | Bfloat16 | Float32 | OtherDtype

definition half_types :: "lora_dtype set" where
  "half_types = {Float16, Bfloat16}"

text \<open>Whether the strides of a tensor are those of consecutive elements, dimensions of size one apart.\<close>

fun contiguous_from :: "(nat \<times> nat) list \<Rightarrow> nat \<Rightarrow> bool" where
  "contiguous_from [] expected \<longleftrightarrow> True"
| "contiguous_from ((sz, st) # dims) expected \<longleftrightarrow> (sz = 1 \<or> st = expected) \<and> contiguous_from dims (expected * sz)"

definition is_contiguous :: "'a strided_tensor \<Rightarrow> bool" where
  "is_contiguous t \<longleftrightarrow> 0 \<in> set (tn_sizes t) \<or> contiguous_from (rev (zip (tn_sizes t) (tn_strides t))) 1"

text \<open>The weights of an adapter, with their second dimension of size one removed when they have four.\<close>

definition squeezed_weights :: "'a strided_tensor \<Rightarrow> 'a strided_tensor res" where
  "squeezed_weights w =
     (if length (tn_sizes w) = 4
      then require (tn_sizes w ! 1 = 1) AssertionError
        (Inr (w\<lparr>tn_sizes := [tn_sizes w ! 0, tn_sizes w ! 2, tn_sizes w ! 3],
                tn_strides := [tn_strides w ! 0, tn_strides w ! 2, tn_strides w ! 3]\<rparr>))
      else require (length (tn_sizes w) = 3) AssertionError (Inr w))"

text \<open>What the wrapper of vLLM keeps of the sequences of the batch.\<close>

record prefill_metadata =
  pm_b_seq_start_loc :: "nat list"
  pm_seq_len_tensor :: "nat list"
  pm_lora_indices :: "int list"
  pm_batches :: nat
  pm_max_seq_length :: nat
  pm_token_nums :: nat

definition metadata_checks :: "'a strided_tensor \<Rightarrow> 'a strided_tensor \<Rightarrow> prefill_metadata \<Rightarrow> bool" where
  "metadata_checks inputs w pm \<longleftrightarrow> tn_sizes inputs ! 0 = pm_token_nums pm
     \<and> tn_sizes inputs ! 1 = last (tn_sizes w)
     \<and> length (pm_b_seq_start_loc pm) = pm_batches pm
     \<and> length (pm_lora_indices pm) = pm_batches pm"

definition sgmv_args_of :: "'a strided_tensor \<Rightarrow> 'a strided_tensor \<Rightarrow> 'a strided_tensor \<Rightarrow> nat \<Rightarrow> nat \<Rightarrow> nat \<Rightarrow> nat \<Rightarrow> sgmv_args" where
  "sgmv_args_of inputs w out BLOCK_M BLOCK_N BLOCK_K SPLIT_K =
     \<lparr>sa_N = tn_sizes w ! 1, sa_K = tn_sizes w ! 2,
      sa_xm_stride = tn_strides inputs ! 0, sa_xk_stride = tn_strides inputs ! 1,
      sa_l0_stride = tn_strides w ! 0, sa_lora_k_stride = tn_strides w ! 1, sa_lora_n_stride = tn_strides w ! 2,
      sa_cm_stride = tn_strides out ! 0, sa_cn_stride = tn_strides out ! 1,
      sa_BLOCK_M = BLOCK_M, sa_BLOCK_N = BLOCK_N, sa_BLOCK_K = BLOCK_K,
      sa_EVEN_K = (tn_sizes w ! 2 mod (BLOCK_K * SPLIT_K) = 0)\<rparr>"

definition sgmv_data_of :: "'a strided_tensor \<Rightarrow> 'a strided_tensor \<Rightarrow> prefill_metadata \<Rightarrow> 'a sgmv_data" where
  "sgmv_data_of inputs w pm = \<lparr>sd_input = tn_buf inputs, sd_lora = tn_buf w, sd_b_seq_start_loc = pm_b_seq_start_loc pm,
     sd_seq_lens = pm_seq_len_tensor pm, sd_lora_indices = pm_lora_indices pm\<rparr>"

type_synonym grid_order = "nat \<times> nat \<Rightarrow> (nat \<times> nat) list"

definition sgmv_expand_mlu ::
  "grid_order \<Rightarrow> 'a::comm_ring_1 \<Rightarrow> lora_dtype \<Rightarrow> lora_dtype \<Rightarrow> 'a strided_tensor \<Rightarrow> 'a strided_tensor \<Rightarrow> 'a strided_tensor
    \<Rightarrow> prefill_metadata \<Rightarrow> bool \<Rightarrow> 'a strided_tensor res" where
  "sgmv_expand_mlu order junk in_type w_type inputs lora_b_weights output_tensor pm add_inputs =
     require (in_type \<in> insert Float32 half_types \<and> w_type \<in> half_types) AssertionError
     (require (metadata_checks inputs lora_b_weights pm \<and> is_contiguous inputs \<and> is_contiguous output_tensor) AssertionError
     (bind_res (squeezed_weights lora_b_weights) (\<lambda>w.
      require (is_contiguous w) AssertionError
     (bind_res (adjust_kernel_block_size (pm_max_seq_length pm) 32 (tn_sizes w ! 1) 32) (\<lambda>(BLOCK_M, BLOCK_N).
      let sa = sgmv_args_of inputs w output_tensor BLOCK_M BLOCK_N 16 1;
          grid = (ceil_div (pm_max_seq_length pm) BLOCK_M * ceil_div (tn_sizes w ! 1) BLOCK_N, pm_batches pm)
      in bind_res (fold_res (sgmv_expand_kernel sa add_inputs (sgmv_data_of inputs w pm) junk) (order grid) (tn_buf output_tensor)) (\<lambda>out.
         Inr (output_tensor\<lparr>tn_buf := out\<rparr>)))))))"

definition sgmv_expand_slice_mlu ::
  "grid_order \<Rightarrow> 'a::comm_ring_1 \<Rightarrow> lora_dtype \<Rightarrow> lora_dtype \<Rightarrow> 'a strided_tensor \<Rightarrow> 'a strided_tensor \<Rightarrow> 'a strided_tensor
    \<Rightarrow> prefill_metadata \<Rightarrow> nat \<Rightarrow> nat \<Rightarrow> bool \<Rightarrow> 'a strided_tensor res" where
  "sgmv_expand_slice_mlu order junk in_type w_type inputs lora_b_weights output_tensor pm slice_offset slice_size add_inputs =
     require (in_type \<in> insert Float32 half_types \<and> w_type \<in> half_types) AssertionError
     (require (metadata_checks inputs lora_b_weights pm
        \<and> slice_size = tn_sizes lora_b_weights ! (length (tn_sizes lora_b_weights) - 2)
        \<and> is_contiguous inputs \<and> is_contiguous output_tensor) AssertionError
     (bind_res (squeezed_weights lora_b_weights) (\<lambda>w.
      require (is_contiguous w) AssertionError
     (bind_res (adjust_kernel_block_size (pm_max_seq_length pm) 32 (tn_sizes w ! 1) 32) (\<lambda>(BLOCK_M, BLOCK_N).
      let sa = sgmv_args_of inputs w output_tensor BLOCK_M BLOCK_N 16 1;
          grid = (ceil_div (pm_max_seq_length pm) BLOCK_M * ceil_div (tn_sizes w ! 1) BLOCK_N, pm_batches pm)
      in bind_res (fold_res (sgmv_expand_slice_kernel sa add_inputs slice_offset (sgmv_data_of inputs w pm) junk) (order grid) (tn_buf output_tensor)) (\<lambda>out.
         Inr (output_tensor\<lparr>tn_buf := out\<rparr>)))))))"

type_synonym grid_order3 = "nat \<times> nat \<times> nat \<Rightarrow> (nat \<times> nat \<times> nat) list"

definition sgmv_shrink_mlu ::
  "grid_order3 \<Rightarrow> 'a::comm_ring_1 \<Rightarrow> lora_dtype \<Rightarrow> lora_dtype \<Rightarrow> 'a strided_tensor \<Rightarrow> 'a strided_tensor \<Rightarrow> 'a strided_tensor
    \<Rightarrow> prefill_metadata \<Rightarrow> 'a \<Rightarrow> 'a strided_tensor res" where
  "sgmv_shrink_mlu order junk in_type w_type inputs lora_a_weights output_tensor pm scaling =
     require (in_type = w_type \<and> in_type \<in> half_types \<and> w_type \<in> half_types) AssertionError
     (require (metadata_checks inputs lora_a_weights pm \<and> is_contiguous inputs) AssertionError
     (bind_res (squeezed_weights lora_a_weights) (\<lambda>w.
      require (is_contiguous w \<and> is_contiguous output_tensor) AssertionError
     (bind_res (adjust_kernel_block_size (pm_max_seq_length pm) 32 (tn_sizes w ! 1) 16) (\<lambda>(BLOCK_M, BLOCK_N).
      let SPLIT_K = 8;
          sa = sgmv_args_of inputs w output_tensor BLOCK_M BLOCK_N 32 SPLIT_K;
          grid = (ceil_div (pm_max_seq_length pm) BLOCK_M * ceil_div (tn_sizes w ! 1) BLOCK_N, SPLIT_K, pm_batches pm)
      in bind_res (fold_res (sgmv_shrink_kernel sa SPLIT_K scaling (sgmv_data_of inputs w pm) junk) (order grid) (tn_buf output_tensor)) (\<lambda>out.
         Inr (output_tensor\<lparr>tn_buf := out\<rparr>)))))))"

section \<open>The wrapper\<close>

text \<open>The state the wrapper inherits from vLLM.\<close>

record punica =
  pw_no_lora :: bool
  pw_prefill_metadata :: prefill_metadata

definition shrink_prefill where
  "shrink_prefill order junk pw in_type w_type y x w_t_all scale =
     (if pw_no_lora pw then Inr y
      else sgmv_shrink_mlu order junk in_type w_type x w_t_all y (pw_prefill_metadata pw) scale)"

definition expand_prefill where
  "expand_prefill order junk pw in_type w_type y x w_t_all add_inputs =
     (if pw_no_lora pw then Inr y
      else sgmv_expand_mlu order junk in_type w_type x w_t_all y (pw_prefill_metadata pw) add_inputs)"

definition expand_slice_prefill where
  "expand_slice_prefill order junk pw in_type w_type y x w_t_all y_offset y_slice_size add_inputs =
     (if pw_no_lora pw then Inr y
      else sgmv_expand_slice_mlu order junk in_type w_type x w_t_all y (pw_prefill_metadata pw) y_offset y_slice_size add_inputs)"


section \<open>Tiles and programs\<close>

definition tile_cells :: "nat \<Rightarrow> nat \<Rightarrow> (nat \<Rightarrow> nat \<Rightarrow> nat) \<Rightarrow> (nat \<Rightarrow> nat \<Rightarrow> bool) \<Rightarrow> nat \<Rightarrow> bool" where
  "tile_cells BM BN ptr keep a \<longleftrightarrow> (\<exists>i<BM. \<exists>j<BN. keep i j \<and> ptr i j = a)"

lemma store_tile_cells:
  assumes "\<And>i j. i < BM \<Longrightarrow> j < BN \<Longrightarrow> keep i j \<Longrightarrow> val i j = W (ptr i j)"
  shows "store_tile BM BN ptr keep val c = (\<lambda>a. if tile_cells BM BN ptr keep a then W a else c a)"
proof -
  let ?xs = "List.product [0..<BM] [0..<BN]"
  have "store_tile BM BN ptr keep val c
      = fold (\<lambda>x c. if case_prod keep x then c(case_prod ptr x := case_prod val x) else c) ?xs c"
    unfolding store_tile_def by (rule fold_cong) auto
  also have "\<dots> = (\<lambda>a. if \<exists>x\<in>set ?xs. case_prod keep x \<and> case_prod ptr x = a then W a else c a)"
    by (rule fold_updates) (use assms in auto)
  finally show ?thesis unfolding tile_cells_def by (simp add: fun_eq_iff Bex_def)
qed

lemma fold_atomic_adds:
  fixes c :: "'b \<Rightarrow> 'a::comm_ring_1"
  assumes "distinct xs" "inj_on f {x \<in> set xs. P x}" "\<forall>x\<in>set xs. P x \<longrightarrow> g x = W (f x)"
  shows "fold (\<lambda>x c. if P x then c(f x := c (f x) + g x) else c) xs c
    = (\<lambda>a. c a + (if \<exists>x\<in>set xs. P x \<and> f x = a then W a else 0))"
  using assms
proof (induction xs arbitrary: c)
  case (Cons x xs)
  have "inj_on f {y \<in> set xs. P y}" using Cons.prems(2) by (rule inj_on_subset) auto
  moreover have "\<not> (\<exists>y\<in>set xs. P y \<and> f y = f x)" if "P x"
    using Cons.prems(1,2) that by (auto simp: inj_on_def)
  ultimately show ?case using Cons.IH Cons.prems(1,3) by (cases "P x") (auto simp: fun_eq_iff)
qed simp

lemma atomic_add_tile_cells:
  assumes "\<And>i j. i < BM \<Longrightarrow> j < BN \<Longrightarrow> keep i j \<Longrightarrow> val i j = W (ptr i j)"
    and "\<And>i j i' j'. i < BM \<Longrightarrow> j < BN \<Longrightarrow> keep i j \<Longrightarrow> i' < BM \<Longrightarrow> j' < BN \<Longrightarrow> keep i' j' \<Longrightarrow> ptr i j = ptr i' j' \<Longrightarrow> i = i' \<and> j = j'"
  shows "atomic_add_tile BM BN ptr keep val c = (\<lambda>a. c a + (if tile_cells BM BN ptr keep a then W a else 0))"
proof -
  let ?xs = "List.product [0..<BM] [0..<BN]"
  have "atomic_add_tile BM BN ptr keep val c
      = fold (\<lambda>x c. if case_prod keep x then c(case_prod ptr x := c (case_prod ptr x) + case_prod val x) else c) ?xs c"
    unfolding atomic_add_tile_def by (rule fold_cong) auto
  also have "\<dots> = (\<lambda>a. c a + (if \<exists>x\<in>set ?xs. case_prod keep x \<and> case_prod ptr x = a then W a else 0))"
  proof (rule fold_atomic_adds)
    show "distinct ?xs" by (simp add: distinct_product)
    show "inj_on (case_prod ptr) {x \<in> set ?xs. case_prod keep x}" using assms(2) by (force simp: inj_on_def)
  qed (use assms(1) in auto)
  finally show ?thesis unfolding tile_cells_def by (simp add: fun_eq_iff Bex_def)
qed

lemma fold_res_adds:
  fixes c :: "'b \<Rightarrow> 'a::comm_ring_1"
  assumes "\<And>x c. x \<in> set xs \<Longrightarrow> F x c = Inr (\<lambda>a. c a + D x a)"
  shows "fold_res F xs c = Inr (\<lambda>a. c a + sum_list (map (\<lambda>x. D x a) xs))"
  using assms by (induction xs arbitrary: c) (auto simp: add.assoc)

text \<open>Programs that store or add, at cells no two of them share.\<close>

lemma fold_res_disjoint:
  fixes c :: "'b \<Rightarrow> 'a::comm_ring_1"
  assumes "\<And>x c. x \<in> set xs \<Longrightarrow> F x c = Inr (\<lambda>a. if Q x a then W a + (if ADD then c a else 0) else c a)"
    and "distinct xs" "\<And>x y a. x \<in> set xs \<Longrightarrow> y \<in> set xs \<Longrightarrow> Q x a \<Longrightarrow> Q y a \<Longrightarrow> x = y"
  shows "fold_res F xs c = Inr (\<lambda>a. if \<exists>x\<in>set xs. Q x a then W a + (if ADD then c a else 0) else c a)"
  using assms
proof (induction xs arbitrary: c)
  case (Cons x xs)
  let ?c = "\<lambda>a. if Q x a then W a + (if ADD then c a else 0) else c a"
  have "fold_res F xs ?c = Inr (\<lambda>a. if \<exists>x\<in>set xs. Q x a then W a + (if ADD then ?c a else 0) else ?c a)"
    using Cons.prems by (intro Cons.IH) auto
  moreover have "\<not> Q x a" if "y \<in> set xs" "Q y a" for y a
    using Cons.prems(2) Cons.prems(3)[of x y a] that by auto
  then have "(\<lambda>a. if \<exists>x\<in>set xs. Q x a then W a + (if ADD then ?c a else 0) else ?c a)
      = (\<lambda>a. if \<exists>y\<in>set (x # xs). Q y a then W a + (if ADD then c a else 0) else c a)"
    by (intro ext) auto
  ultimately show ?case using Cons.prems(1)[of x c] by simp
qed simp

section \<open>The sum over the inner dimension\<close>

lemma sgmv_accumulate_sum:
  fixes d :: "'a::comm_ring_1 sgmv_data"
  assumes pos: "0 < sa_BLOCK_K sa" "0 < S" and even: "sa_EVEN_K sa \<Longrightarrow> sa_K sa mod (sa_BLOCK_K sa * S) = 0"
  shows "(\<Sum>sk<S. sgmv_accumulate sa d junk S sk ar bc True True)
    = (\<Sum>k<sa_K sa. sd_input d (ar + k * sa_xk_stride sa) * sd_lora d (bc + k * sa_lora_n_stride sa))"
proof -
  let ?B = "sa_BLOCK_K sa" and ?K = "sa_K sa"
  let ?f = "\<lambda>k. sd_input d (ar + k * sa_xk_stride sa) * sd_lora d (bc + k * sa_lora_n_stride sa)"
  let ?h = "\<lambda>k i. if i < ?K - k * (?B * S) then ?f (k * (?B * S) + i) else 0"
  have full: "sk * ?B + j < ?K - k * (?B * S)"
    if h: "sa_EVEN_K sa" "sk < S" "j < ?B" "k < ceil_div ?K (?B * S)" for sk j k
  proof -
    have "?B * S dvd ?K" using even[OF h(1)] by (simp add: mod_eq_0_iff_dvd)
    then obtain q where q: "?K = ?B * S * q" by (elim dvdE)
    have "sk * ?B + j < Suc sk * ?B" using h(3) by simp
    also have "\<dots> \<le> S * ?B" using h(2) by (intro mult_right_mono) simp_all
    finally have "sk * ?B + j < ?B * S" by (simp add: mult.commute)
    moreover have "k < q" using h(4) pos ceil_div_mult[of "?B * S" q] q by (simp add: mult.commute)
    then have "Suc k * (?B * S) \<le> ?K" unfolding q by (metis Suc_leI mult.commute mult_le_mono1)
    ultimately show ?thesis by simp
  qed
  have addr: "x + i * z + k * (?B * S * z) = x + (k * (?B * S) + i) * z" for x i k z :: nat
    by (simp add: algebra_simps)
  have one: "sgmv_accumulate sa d junk S sk ar bc True True = (\<Sum>k<ceil_div ?K (?B * S). \<Sum>j<?B. ?h k (sk * ?B + j))" if "sk < S" for sk
  proof -
    have dot: "tile_dot ?B a b = (\<Sum>j<?B. a j * b j)" for a b :: "nat \<Rightarrow> 'a"
      by (simp add: tile_dot_def sum_list_distinct_conv_sum_set lessThan_atLeast0)
    have "sgmv_accumulate sa d junk S sk ar bc True True
        = fold (\<lambda>k acc. acc + (\<Sum>j<?B. ?h k (sk * ?B + j))) [0..<ceil_div ?K (?B * S)] 0"
      unfolding sgmv_accumulate_def Let_def
    proof (rule fold_cong)
      fix k assume k: "k \<in> set [0..<ceil_div ?K (?B * S)]"
      show "(\<lambda>acc. acc + (if sa_EVEN_K sa
            then tile_dot ?B (\<lambda>j. if True then sd_input d (ar + (sk * ?B + j) * sa_xk_stride sa + k * (?B * S * sa_xk_stride sa)) else junk)
               (\<lambda>j. if True then sd_lora d (bc + (sk * ?B + j) * sa_lora_n_stride sa + k * (?B * S * sa_lora_n_stride sa)) else junk)
            else tile_dot ?B (\<lambda>j. if sk * ?B + j < ?K - k * (?B * S) \<and> True then sd_input d (ar + (sk * ?B + j) * sa_xk_stride sa + k * (?B * S * sa_xk_stride sa)) else 0)
               (\<lambda>j. if sk * ?B + j < ?K - k * (?B * S) \<and> True then sd_lora d (bc + (sk * ?B + j) * sa_lora_n_stride sa + k * (?B * S * sa_lora_n_stride sa)) else 0)))
          = (\<lambda>acc. acc + (\<Sum>j<?B. ?h k (sk * ?B + j)))"
        unfolding dot addr
        by (intro ext arg_cong2[where f = "(+)"] refl, cases "sa_EVEN_K sa")
          (use full that k in \<open>auto intro!: sum.cong\<close>)
    qed simp_all
    then show ?thesis by (simp add: fold_plus sum_list_distinct_conv_sum_set lessThan_atLeast0)
  qed
  have grp: "(\<Sum>sk<S. \<Sum>j<?B. g (sk * ?B + j)) = (\<Sum>i<?B * S. g i)" for g :: "nat \<Rightarrow> 'a"
  proof -
    have "(\<Sum>j<?B. g (sk * ?B + j)) = sum g {sk * ?B..<sk * ?B + ?B}" for sk
      using sum.shift_bounds_nat_ivl[of g 0 "sk * ?B" ?B] by (simp add: add.commute lessThan_atLeast0)
    then show ?thesis by (simp add: sum.nat_group mult.commute)
  qed
  have "(\<Sum>sk<S. sgmv_accumulate sa d junk S sk ar bc True True)
      = (\<Sum>sk<S. \<Sum>k<ceil_div ?K (?B * S). \<Sum>j<?B. ?h k (sk * ?B + j))"
    by (rule sum.cong) (simp_all add: one)
  also have "\<dots> = (\<Sum>k<ceil_div ?K (?B * S). \<Sum>sk<S. \<Sum>j<?B. ?h k (sk * ?B + j))" by (rule sum.swap)
  also have "\<dots> = (\<Sum>k<ceil_div ?K (?B * S). \<Sum>i<?B * S. ?h k i)"
    by (intro sum.cong refl grp)
  also have "\<dots> = (\<Sum>k<?K. ?f k)" using sum_blocks[of "?B * S" ?K ?f] pos by simp
  finally show ?thesis .
qed

section \<open>The grid of sequences\<close>

text \<open>The cells of the output that belong to a token of a sequence and a column, where they are and what they get.\<close>

definition sgmv_cells :: "sgmv_args \<Rightarrow> 'a sgmv_data \<Rightarrow> (nat \<times> nat \<times> nat) set" where
  "sgmv_cells sa d = {(b, m, n). b < length (sd_seq_lens d) \<and> m < sd_seq_lens d ! b \<and> n < sa_N sa}"

definition sgmv_addr :: "sgmv_args \<Rightarrow> 'a sgmv_data \<Rightarrow> nat \<Rightarrow> nat \<times> nat \<times> nat \<Rightarrow> nat" where
  "sgmv_addr sa d ofs = (\<lambda>(b, m, n). (sd_b_seq_start_loc d ! b + m) * sa_cm_stride sa + (n + ofs) * sa_cn_stride sa)"

definition sgmv_value :: "sgmv_args \<Rightarrow> 'a::comm_ring_1 sgmv_data \<Rightarrow> nat \<times> nat \<times> nat \<Rightarrow> 'a" where
  "sgmv_value sa d = (\<lambda>(b, m, n). \<Sum>k<sa_K sa. sd_input d ((sd_b_seq_start_loc d ! b + m) * sa_xm_stride sa + k * sa_xk_stride sa)
     * sd_lora d (sa_l0_stride sa * nat (sd_lora_indices d ! b) + n * sa_lora_k_stride sa + k * sa_lora_n_stride sa))"

definition sgmv_ok :: "sgmv_args \<Rightarrow> 'a sgmv_data \<Rightarrow> nat \<Rightarrow> nat \<Rightarrow> bool" where
  "sgmv_ok sa d S ofs \<longleftrightarrow> 0 < sa_BLOCK_M sa \<and> 0 < sa_BLOCK_N sa \<and> 0 < sa_BLOCK_K sa \<and> 0 < S
     \<and> (sa_EVEN_K sa \<longrightarrow> sa_K sa mod (sa_BLOCK_K sa * S) = 0)
     \<and> length (sd_b_seq_start_loc d) = length (sd_seq_lens d) \<and> length (sd_lora_indices d) = length (sd_seq_lens d)
     \<and> (\<forall>l\<in>set (sd_lora_indices d). -1 \<le> l) \<and> inj_on (sgmv_addr sa d ofs) (sgmv_cells sa d)"

text \<open>The cells of the program \<open>pid\<close> of sequence \<open>b\<close>.\<close>

definition sgmv_cell :: "sgmv_args \<Rightarrow> 'a sgmv_data \<Rightarrow> nat \<Rightarrow> nat \<Rightarrow> nat \<Rightarrow> nat \<Rightarrow> bool" where
  "sgmv_cell sa d ofs pid b a \<longleftrightarrow> sd_lora_indices d ! b \<noteq> -1
     \<and> (\<exists>m n. (b, m, n) \<in> sgmv_cells sa d \<and> pid = m div sa_BLOCK_M sa * ceil_div (sa_N sa) (sa_BLOCK_N sa) + n div sa_BLOCK_N sa
          \<and> a = sgmv_addr sa d ofs (b, m, n))"

lemma div_less_ceil_div: "0 < B \<Longrightarrow> n < N \<Longrightarrow> n div B < ceil_div N B"
  using le_ceil_div[of B N] by (simp add: less_mult_imp_div_less)

lemma sgmv_tile:
  assumes "0 < sa_BLOCK_M sa" "0 < sa_BLOCK_N sa" "b < length (sd_seq_lens d)"
  defines "Q \<equiv> ceil_div (sa_N sa) (sa_BLOCK_N sa)"
  shows "tile_cells (sa_BLOCK_M sa) (sa_BLOCK_N sa)
      (\<lambda>i j. (sd_b_seq_start_loc d ! b + i + pid div Q * sa_BLOCK_M sa) * sa_cm_stride sa + (j + pid mod Q * sa_BLOCK_N sa + ofs) * sa_cn_stride sa)
      (\<lambda>i j. sd_b_seq_start_loc d ! b + i + pid div Q * sa_BLOCK_M sa < sd_b_seq_start_loc d ! b + sd_seq_lens d ! b
         \<and> j + pid mod Q * sa_BLOCK_N sa + ofs < ofs + sa_N sa) a
    \<longleftrightarrow> (\<exists>m n. (b, m, n) \<in> sgmv_cells sa d \<and> pid = m div sa_BLOCK_M sa * Q + n div sa_BLOCK_N sa \<and> a = sgmv_addr sa d ofs (b, m, n))"
    (is "?L \<longleftrightarrow> ?R")
proof
  assume ?L
  then obtain i j where ij: "i < sa_BLOCK_M sa" "j < sa_BLOCK_N sa" "i + pid div Q * sa_BLOCK_M sa < sd_seq_lens d ! b"
      "j + pid mod Q * sa_BLOCK_N sa < sa_N sa"
      "a = (sd_b_seq_start_loc d ! b + i + pid div Q * sa_BLOCK_M sa) * sa_cm_stride sa + (j + pid mod Q * sa_BLOCK_N sa + ofs) * sa_cn_stride sa"
    by (auto simp: tile_cells_def)
  then show ?R
    using assms(3) by (intro exI[of _ "i + pid div Q * sa_BLOCK_M sa"] exI[of _ "j + pid mod Q * sa_BLOCK_N sa"])
      (simp add: sgmv_cells_def sgmv_addr_def add.assoc)
next
  assume ?R
  then obtain m n where mn: "m < sd_seq_lens d ! b" "n < sa_N sa" "pid = m div sa_BLOCK_M sa * Q + n div sa_BLOCK_N sa"
      "a = sgmv_addr sa d ofs (b, m, n)" by (auto simp: sgmv_cells_def)
  have "n div sa_BLOCK_N sa < Q" unfolding Q_def using assms(2) mn(2) by (rule div_less_ceil_div)
  then have "pid div Q = m div sa_BLOCK_M sa" "pid mod Q = n div sa_BLOCK_N sa" using mn(3) by simp_all
  then show ?L unfolding tile_cells_def using assms(1,2) mn
    by (intro exI[of _ "m mod sa_BLOCK_M sa"] exI[of _ "n mod sa_BLOCK_N sa"] conjI) (simp_all add: sgmv_addr_def add.assoc)
qed

lemma no_tile_after_sequence:
  assumes "0 < sa_BLOCK_N sa" "sd_seq_lens d ! b < pid div ceil_div (sa_N sa) (sa_BLOCK_N sa) * sa_BLOCK_M sa"
  shows "\<not> sgmv_cell sa d ofs pid b a"
proof
  let ?Q = "ceil_div (sa_N sa) (sa_BLOCK_N sa)"
  assume "sgmv_cell sa d ofs pid b a"
  then obtain m n where mn: "m < sd_seq_lens d ! b" "n < sa_N sa" "pid = m div sa_BLOCK_M sa * ?Q + n div sa_BLOCK_N sa"
    by (auto simp: sgmv_cell_def sgmv_cells_def)
  have "pid div ?Q = m div sa_BLOCK_M sa" using mn(3) div_less_ceil_div[OF assms(1) mn(2)] by simp
  then have "sd_seq_lens d ! b < m div sa_BLOCK_M sa * sa_BLOCK_M sa" using assms(2) by simp
  moreover have "m div sa_BLOCK_M sa * sa_BLOCK_M sa \<le> m" by (rule div_times_less_eq_dividend)
  ultimately show False using mn(1) by linarith
qed

lemma slice_program:
  fixes d :: "'a::comm_ring_1 sgmv_data"
  assumes ok: "sgmv_ok sa d 1 ofs" and b: "b < length (sd_seq_lens d)"
    and W: "\<And>x. x \<in> sgmv_cells sa d \<Longrightarrow> W (sgmv_addr sa d ofs x) = sgmv_value sa d x"
  shows "sgmv_expand_slice_kernel sa ADD ofs d junk (pid, b) c
    = Inr (\<lambda>a. if sgmv_cell sa d ofs pid b a then W a + (if ADD then c a else 0) else c a)"
proof -
  let ?Q = "ceil_div (sa_N sa) (sa_BLOCK_N sa)" and ?s = "sd_b_seq_start_loc d ! b" and ?M = "sd_seq_lens d ! b" and ?l = "sd_lora_indices d ! b"
  let ?ptr = "\<lambda>i j. (?s + i + pid div ?Q * sa_BLOCK_M sa) * sa_cm_stride sa + (j + pid mod ?Q * sa_BLOCK_N sa + ofs) * sa_cn_stride sa"
  let ?keep = "\<lambda>i j. ?s + i + pid div ?Q * sa_BLOCK_M sa < ?s + ?M \<and> j + pid mod ?Q * sa_BLOCK_N sa + ofs < ofs + sa_N sa"
  let ?acc = "\<lambda>i j. sgmv_accumulate sa d junk 1 0 (?s * sa_xm_stride sa + (i + pid div ?Q * sa_BLOCK_M sa) * sa_xm_stride sa)
     (sa_l0_stride sa * nat ?l + (j + pid mod ?Q * sa_BLOCK_N sa) * sa_lora_k_stride sa)
     (i + pid div ?Q * sa_BLOCK_M sa < ?M) (j + pid mod ?Q * sa_BLOCK_N sa < sa_N sa)"
  let ?val = "if ADD then (\<lambda>i j. ?acc i j + (if ?keep i j then c (?ptr i j) else junk)) else ?acc"
  have pos: "0 < sa_BLOCK_M sa" "0 < sa_BLOCK_N sa" "0 < sa_BLOCK_K sa" and even: "sa_EVEN_K sa \<Longrightarrow> sa_K sa mod sa_BLOCK_K sa = 0"
    and len: "b < length (sd_lora_indices d)" "b < length (sd_b_seq_start_loc d)" and neg: "-1 \<le> ?l"
    using ok b by (auto simp: sgmv_ok_def)
  have val: "?val i j = W (?ptr i j) + (if ADD then c (?ptr i j) else 0)" if k: "?keep i j" for i j
  proof -
    have cell: "(b, i + pid div ?Q * sa_BLOCK_M sa, j + pid mod ?Q * sa_BLOCK_N sa) \<in> sgmv_cells sa d"
      using k b by (simp add: sgmv_cells_def)
    have "?acc i j = sgmv_value sa d (b, i + pid div ?Q * sa_BLOCK_M sa, j + pid mod ?Q * sa_BLOCK_N sa)"
      using sgmv_accumulate_sum[OF pos(3), of 1 d] even k by (simp add: sgmv_value_def add_mult_distrib add.assoc)
    also have "\<dots> = W (?ptr i j)" using W[OF cell] by (simp add: sgmv_addr_def add.assoc)
    finally show ?thesis using k by simp
  qed
  show ?thesis
  proof (cases "?M < pid div ?Q * sa_BLOCK_M sa \<or> ?l = -1")
    case True
    then have "\<not> sgmv_cell sa d ofs pid b a" for a
      using no_tile_after_sequence[OF pos(2), of d b pid] by (auto simp: sgmv_cell_def)
    then show ?thesis using True b len by (auto simp: sgmv_expand_slice_kernel_def Let_def)
  next
    case False
    have "sgmv_expand_slice_kernel sa ADD ofs d junk (pid, b) c = Inr (store_tile (sa_BLOCK_M sa) (sa_BLOCK_N sa) ?ptr ?keep ?val c)"
      using False neg b len by (simp add: sgmv_expand_slice_kernel_def Let_def)
    also have "\<dots> = Inr (\<lambda>a. if sgmv_cell sa d ofs pid b a then W a + (if ADD then c a else 0) else c a)"
      using store_tile_cells[of _ _ ?keep ?val "\<lambda>a. W a + (if ADD then c a else 0)" ?ptr c, OF val] False
        sgmv_tile[OF pos(1,2) b, of pid ofs] by (simp add: sgmv_cell_def)
    finally show ?thesis .
  qed
qed

lemma expand_is_slice: "sgmv_expand_kernel sa ADD d junk = sgmv_expand_slice_kernel sa ADD 0 d junk"
  unfolding fun_eq_iff sgmv_expand_kernel_def sgmv_expand_slice_kernel_def add_0_right add_0_left by blast

text \<open>The part of the sum that one of the programs of a split inner dimension adds.\<close>

definition sgmv_part :: "sgmv_args \<Rightarrow> 'a::comm_ring_1 sgmv_data \<Rightarrow> 'a \<Rightarrow> nat \<Rightarrow> nat \<Rightarrow> nat \<times> nat \<times> nat \<Rightarrow> 'a" where
  "sgmv_part sa d junk S sk = (\<lambda>(b, m, n). sgmv_accumulate sa d junk S sk
     (sd_b_seq_start_loc d ! b * sa_xm_stride sa + m * sa_xm_stride sa)
     (sa_l0_stride sa * nat (sd_lora_indices d ! b) + n * sa_lora_k_stride sa) True True)"

lemma sum_parts:
  assumes "sgmv_ok sa d S ofs"
  shows "(\<Sum>sk<S. sgmv_part sa d junk S sk x) = sgmv_value sa d x"
  using assms sgmv_accumulate_sum[of sa S d] by (cases x) (simp add: sgmv_ok_def sgmv_part_def sgmv_value_def add_mult_distrib add.assoc)

lemma shrink_program:
  fixes d :: "'a::comm_ring_1 sgmv_data"
  assumes ok: "sgmv_ok sa d S 0" "S \<noteq> 1" and b: "b < length (sd_seq_lens d)"
    and W: "\<And>x. x \<in> sgmv_cells sa d \<Longrightarrow> W (sgmv_addr sa d 0 x) = sgmv_part sa d junk S sk x * scaling"
  shows "sgmv_shrink_kernel sa S scaling d junk (pid, sk, b) c
    = Inr (\<lambda>a. c a + (if sgmv_cell sa d 0 pid b a then W a else 0))"
proof -
  let ?Q = "ceil_div (sa_N sa) (sa_BLOCK_N sa)" and ?s = "sd_b_seq_start_loc d ! b" and ?M = "sd_seq_lens d ! b" and ?l = "sd_lora_indices d ! b"
  let ?ptr = "\<lambda>i j. (?s + i + pid div ?Q * sa_BLOCK_M sa) * sa_cm_stride sa + (j + pid mod ?Q * sa_BLOCK_N sa) * sa_cn_stride sa"
  let ?keep = "\<lambda>i j. ?s + i + pid div ?Q * sa_BLOCK_M sa < ?s + ?M \<and> j + pid mod ?Q * sa_BLOCK_N sa < sa_N sa"
  let ?acc = "\<lambda>i j. sgmv_accumulate sa d junk S sk (?s * sa_xm_stride sa + (i + pid div ?Q * sa_BLOCK_M sa) * sa_xm_stride sa)
     (sa_l0_stride sa * nat ?l + (j + pid mod ?Q * sa_BLOCK_N sa) * sa_lora_k_stride sa)
     (i + pid div ?Q * sa_BLOCK_M sa < ?M) (j + pid mod ?Q * sa_BLOCK_N sa < sa_N sa) * scaling"
  let ?x = "\<lambda>i j. (b, i + pid div ?Q * sa_BLOCK_M sa, j + pid mod ?Q * sa_BLOCK_N sa)"
  have pos: "0 < sa_BLOCK_M sa" "0 < sa_BLOCK_N sa" and inj: "inj_on (sgmv_addr sa d 0) (sgmv_cells sa d)"
    and len: "b < length (sd_lora_indices d)" "b < length (sd_b_seq_start_loc d)" and neg: "-1 \<le> ?l"
    using ok b by (auto simp: sgmv_ok_def)
  have cell: "?x i j \<in> sgmv_cells sa d" "sgmv_addr sa d 0 (?x i j) = ?ptr i j" if "?keep i j" for i j
    using that b by (simp_all add: sgmv_cells_def sgmv_addr_def add.assoc)
  have val: "?acc i j = W (?ptr i j)" if "?keep i j" for i j
    using W[OF cell(1)[OF that]] that unfolding cell(2)[OF that] by (simp add: sgmv_part_def)
  have tile_inj: "i = i' \<and> j = j'" if h: "?keep i j" "?keep i' j'" "?ptr i j = ?ptr i' j'" for i j i' j'
    using inj_onD[OF inj _ cell(1)[OF h(1)] cell(1)[OF h(2)]] h(3) cell(2)[OF h(1)] cell(2)[OF h(2)] by simp
  show ?thesis
  proof (cases "?M < pid div ?Q * sa_BLOCK_M sa \<or> ?l = -1")
    case True
    then have "\<not> sgmv_cell sa d 0 pid b a" for a
      using no_tile_after_sequence[OF pos(2), of d b pid] by (auto simp: sgmv_cell_def)
    then show ?thesis using True b len by (auto simp: sgmv_shrink_kernel_def Let_def)
  next
    case False
    have "sgmv_shrink_kernel sa S scaling d junk (pid, sk, b) c = Inr (atomic_add_tile (sa_BLOCK_M sa) (sa_BLOCK_N sa) ?ptr ?keep ?acc c)"
      using False neg b len ok(2) by (simp add: sgmv_shrink_kernel_def Let_def)
    moreover have "atomic_add_tile (sa_BLOCK_M sa) (sa_BLOCK_N sa) ?ptr ?keep ?acc c
        = (\<lambda>a. c a + (if tile_cells (sa_BLOCK_M sa) (sa_BLOCK_N sa) ?ptr ?keep a then W a else 0))"
      by (rule atomic_add_tile_cells) (erule val, erule (2) tile_inj)
    moreover have "tile_cells (sa_BLOCK_M sa) (sa_BLOCK_N sa) ?ptr ?keep a \<longleftrightarrow> sgmv_cell sa d 0 pid b a" for a
      using sgmv_tile[OF pos b, of pid 0 a] False by (simp only: sgmv_cell_def add_0_right add_0_left) simp
    ultimately show ?thesis by (simp only:)
  qed
qed

lemma cell_program:
  assumes "inj_on (sgmv_addr sa d ofs) (sgmv_cells sa d)" "(b, m, n) \<in> sgmv_cells sa d"
  shows "sgmv_cell sa d ofs pid b' (sgmv_addr sa d ofs (b, m, n))
    \<longleftrightarrow> b' = b \<and> sd_lora_indices d ! b \<noteq> -1 \<and> pid = m div sa_BLOCK_M sa * ceil_div (sa_N sa) (sa_BLOCK_N sa) + n div sa_BLOCK_N sa"
  using inj_onD[OF assms(1) _ assms(2)] assms(2) by (force simp: sgmv_cell_def)

lemma pid_in_grid:
  assumes "0 < BM" "0 < BN" "m < L" "n < N"
  shows "m div BM * ceil_div N BN + n div BN < ceil_div L BM * ceil_div N BN"
proof -
  have "m div BM * ceil_div N BN + n div BN < Suc (m div BM) * ceil_div N BN"
    using div_less_ceil_div[OF assms(2,4)] by simp
  also have "\<dots> \<le> ceil_div L BM * ceil_div N BN"
    using div_less_ceil_div[OF assms(1,3)] by (intro mult_right_mono) simp_all
  finally show ?thesis .
qed

lemma expand_grid:
  fixes d :: "'a::comm_ring_1 sgmv_data"
  assumes ok: "sgmv_ok sa d 1 ofs"
    and order: "distinct order" "set order = {..<ceil_div L (sa_BLOCK_M sa) * ceil_div (sa_N sa) (sa_BLOCK_N sa)} \<times> {..<length (sd_seq_lens d)}"
    and L: "\<forall>M\<in>set (sd_seq_lens d). M \<le> L"
  shows "\<exists>out. fold_res (sgmv_expand_slice_kernel sa ADD ofs d junk) order c = Inr out
    \<and> (\<forall>x\<in>sgmv_cells sa d. out (sgmv_addr sa d ofs x) = (if sd_lora_indices d ! fst x = -1 then c (sgmv_addr sa d ofs x)
          else sgmv_value sa d x + (if ADD then c (sgmv_addr sa d ofs x) else 0)))
    \<and> (\<forall>a. a \<notin> sgmv_addr sa d ofs ` sgmv_cells sa d \<longrightarrow> out a = c a)"
proof -
  define W where "W a = sgmv_value sa d (the_inv_into (sgmv_cells sa d) (sgmv_addr sa d ofs) a)" for a
  let ?F = "sgmv_expand_slice_kernel sa ADD ofs d junk" and ?Q = "\<lambda>(pid, b) a. sgmv_cell sa d ofs pid b a"
  have inj: "inj_on (sgmv_addr sa d ofs) (sgmv_cells sa d)" and pos: "0 < sa_BLOCK_M sa" "0 < sa_BLOCK_N sa"
    using ok by (simp_all add: sgmv_ok_def)
  have W: "W (sgmv_addr sa d ofs x) = sgmv_value sa d x" if "x \<in> sgmv_cells sa d" for x
    using that inj by (simp add: W_def the_inv_into_f_f)
  have step: "?F x c = Inr (\<lambda>a. if ?Q x a then W a + (if ADD then c a else 0) else c a)" if "x \<in> set order" for x c
    using slice_program[OF ok _ W] that order(2) by (cases x) auto
  have disj: "x = y" if h: "?Q x a" "?Q y a" for x y a
  proof -
    obtain b m n where x: "(b, m, n) \<in> sgmv_cells sa d" "a = sgmv_addr sa d ofs (b, m, n)"
      using h(1) by (auto simp: sgmv_cell_def)
    show ?thesis using h cell_program[OF inj x(1)] unfolding x(2) by (cases x, cases y) simp
  qed
  have run: "fold_res ?F order c = Inr (\<lambda>a. if \<exists>x\<in>set order. ?Q x a then W a + (if ADD then c a else 0) else c a)"
    by (rule fold_res_disjoint[OF step order(1) disj])
  have hit: "(\<exists>x\<in>set order. ?Q x (sgmv_addr sa d ofs x')) \<longleftrightarrow> sd_lora_indices d ! fst x' \<noteq> -1" if cell: "x' \<in> sgmv_cells sa d" for x'
  proof -
    obtain b m n where x: "x' = (b, m, n)" by (cases x')
    have "b < length (sd_seq_lens d)" "m < L" "n < sa_N sa"
      using cell x L by (auto simp: sgmv_cells_def dest: nth_mem order_less_le_trans)
    then show ?thesis
      using cell_program[OF inj cell[unfolded x]] pid_in_grid[OF pos, of m L n "sa_N sa"] order(2) x by auto
  qed
  have miss: "\<not> (\<exists>x\<in>set order. ?Q x a)" if "a \<notin> sgmv_addr sa d ofs ` sgmv_cells sa d" for a
    using that by (auto simp: sgmv_cell_def)
  define out where "out a = (if \<exists>x\<in>set order. ?Q x a then W a + (if ADD then c a else 0) else c a)" for a
  have "out (sgmv_addr sa d ofs x) = (if sd_lora_indices d ! fst x = -1 then c (sgmv_addr sa d ofs x)
      else sgmv_value sa d x + (if ADD then c (sgmv_addr sa d ofs x) else 0))" if "x \<in> sgmv_cells sa d" for x
    unfolding out_def hit[OF that] W[OF that] by simp
  moreover have "out a = c a" if "a \<notin> sgmv_addr sa d ofs ` sgmv_cells sa d" for a
    using miss[OF that] unfolding out_def by (rule if_not_P)
  moreover have "fold_res ?F order c = Inr out" unfolding run out_def ..
  ultimately show ?thesis by blast
qed

lemma shrink_grid:
  fixes d :: "'a::comm_ring_1 sgmv_data"
  assumes ok: "sgmv_ok sa d S 0" "S \<noteq> 1"
    and order: "distinct order" "set order = {..<ceil_div L (sa_BLOCK_M sa) * ceil_div (sa_N sa) (sa_BLOCK_N sa)} \<times> {..<S} \<times> {..<length (sd_seq_lens d)}"
    and L: "\<forall>M\<in>set (sd_seq_lens d). M \<le> L"
  shows "\<exists>out. fold_res (sgmv_shrink_kernel sa S scaling d junk) order c = Inr out
    \<and> (\<forall>x\<in>sgmv_cells sa d. out (sgmv_addr sa d 0 x) = c (sgmv_addr sa d 0 x)
          + (if sd_lora_indices d ! fst x = -1 then 0 else sgmv_value sa d x * scaling))
    \<and> (\<forall>a. a \<notin> sgmv_addr sa d 0 ` sgmv_cells sa d \<longrightarrow> out a = c a)"
proof -
  let ?X = "\<lambda>a. the_inv_into (sgmv_cells sa d) (sgmv_addr sa d 0) a"
  define W where "W sk a = sgmv_part sa d junk S sk (?X a) * scaling" for sk a
  let ?F = "sgmv_shrink_kernel sa S scaling d junk"
  define D where "D = (\<lambda>(pid, sk, b) a. if sgmv_cell sa d 0 pid b a then W sk a else 0)"
  have inj: "inj_on (sgmv_addr sa d 0) (sgmv_cells sa d)" and pos: "0 < sa_BLOCK_M sa" "0 < sa_BLOCK_N sa"
    using ok by (simp_all add: sgmv_ok_def)
  have W: "W sk (sgmv_addr sa d 0 x) = sgmv_part sa d junk S sk x * scaling" if "x \<in> sgmv_cells sa d" for x sk
    using that inj by (simp add: W_def the_inv_into_f_f)
  have step: "?F x c = Inr (\<lambda>a. c a + D x a)" if "x \<in> set order" for x c
    using shrink_program[OF ok _ W] that order(2) by (cases x) (auto simp: D_def)
  have "fold_res ?F order c = Inr (\<lambda>a. c a + sum_list (map (\<lambda>x. D x a) order))"
    by (rule fold_res_adds[OF step])
  then have run: "fold_res ?F order c = Inr (\<lambda>a. c a + (\<Sum>x\<in>set order. D x a))"
    using order(1) by (simp add: sum_list_distinct_conv_sum_set)
  have hit: "(\<Sum>x\<in>set order. D x (sgmv_addr sa d 0 x')) = (if sd_lora_indices d ! fst x' = -1 then 0 else sgmv_value sa d x' * scaling)"
    if cell: "x' \<in> sgmv_cells sa d" for x'
  proof -
    obtain b m n where x: "x' = (b, m, n)" by (cases x')
    define pid where "pid = m div sa_BLOCK_M sa * ceil_div (sa_N sa) (sa_BLOCK_N sa) + n div sa_BLOCK_N sa"
    have b: "b < length (sd_seq_lens d)" "m < L" "n < sa_N sa"
      using cell x L by (auto simp: sgmv_cells_def dest: nth_mem order_less_le_trans)
    have D: "D (p, sk, b') (sgmv_addr sa d 0 x') = (if sd_lora_indices d ! b \<noteq> -1 \<and> p = pid \<and> b' = b then sgmv_part sa d junk S sk x' * scaling else 0)" for p sk b'
      using cell_program[OF inj cell[unfolded x]] W[OF cell] x by (auto simp: D_def pid_def)
    have sub: "(\<lambda>sk. (pid, sk, b)) ` {..<S} \<subseteq> set order"
      using pid_in_grid[OF pos b(2,3)] order(2) b(1) by (auto simp: pid_def)
    have "(\<Sum>x\<in>set order. D x (sgmv_addr sa d 0 x')) = (\<Sum>x\<in>(\<lambda>sk. (pid, sk, b)) ` {..<S}. D x (sgmv_addr sa d 0 x'))"
      using D order(2) by (intro sum.mono_neutral_right sub) auto
    also have "\<dots> = (\<Sum>sk<S. D (pid, sk, b) (sgmv_addr sa d 0 x'))" by (subst sum.reindex) (auto simp: inj_on_def)
    also have "\<dots> = (if sd_lora_indices d ! b = -1 then 0 else (\<Sum>sk<S. sgmv_part sa d junk S sk x') * scaling)"
      by (simp add: D sum_distrib_right)
    finally show ?thesis using sum_parts[OF ok(1)] x by simp
  qed
  have miss: "(\<Sum>x\<in>set order. D x a) = 0" if "a \<notin> sgmv_addr sa d 0 ` sgmv_cells sa d" for a
    using that by (intro sum.neutral) (auto simp: D_def sgmv_cell_def)
  show ?thesis unfolding run using hit miss by (intro exI conjI refl) auto
qed

section \<open>The choice of the block sizes\<close>

definition grid_fits :: "nat \<Rightarrow> nat \<Rightarrow> nat \<times> nat \<Rightarrow> bool" where
  "grid_fits m n = (\<lambda>(bm, bn). ceil_div m bm * ceil_div n bn < MLU_MAX_GRID_SIZE)"

definition block_pairs :: "nat \<Rightarrow> (nat \<times> nat) list" where
  "block_pairs block_n = zip (drop 1 candidates_list) (drop (if block_n = 16 then 0 else 1) candidates_list)"

lemma adjust_loop_finds:
  "adjust_loop m n mi ni blocks = (let pairs = zip (drop mi candidates_list) (drop ni candidates_list)
     in case find (grid_fits m n) pairs of Some p \<Rightarrow> p | None \<Rightarrow> last (blocks # pairs))"
proof (induction m n mi ni blocks rule: adjust_loop.induct)
  case (1 m n mi ni blocks)
  show ?case
  proof (cases "mi < length candidates_list \<and> ni < length candidates_list")
    case True
    then have "zip (drop mi candidates_list) (drop ni candidates_list)
        = (candidates_list ! mi, candidates_list ! ni) # zip (drop (Suc mi) candidates_list) (drop (Suc ni) candidates_list)"
      by (metis Cons_nth_drop_Suc zip_Cons_Cons)
    then show ?thesis using 1 True
      by (subst adjust_loop.simps) (simp add: Let_def grid_fits_def split: option.splits if_splits)
  next
    case False
    then have "zip (drop mi candidates_list) (drop ni candidates_list) = []" by auto
    then show ?thesis using False by (subst adjust_loop.simps) auto
  qed
qed

lemma block_pairs_cases: "block_pairs 32 = [(32, 32), (64, 64), (96, 96), (128, 128), (192, 192), (256, 256)]"
  "block_pairs 16 = [(32, 16), (64, 32), (96, 64), (128, 96), (192, 128), (256, 192)]"
  by (simp_all add: block_pairs_def candidates_list_def)

lemma adjust_finds_first:
  "adjust_kernel_block_size m bm n bn =
     (case find (grid_fits m n) (block_pairs bn) of None \<Rightarrow> Inl ValueError | Some p \<Rightarrow> Inr p)"
proof -
  have ne: "block_pairs bn \<noteq> []" by (simp add: block_pairs_def candidates_list_def)
  have loop: "adjust_loop m n 1 (if bn = 16 then 0 else 1) (bm, bn)
      = (case find (grid_fits m n) (block_pairs bn) of Some p \<Rightarrow> p | None \<Rightarrow> last (block_pairs bn))"
    using ne by (simp add: adjust_loop_finds block_pairs_def Let_def cong: option.case_cong)
  show ?thesis
  proof (cases "find (grid_fits m n) (block_pairs bn)")
    case None
    then have "\<not> grid_fits m n (last (block_pairs bn))" using ne last_in_set[OF ne] by (simp only: find_None_iff) blast
    then show ?thesis unfolding adjust_kernel_block_size_def loop None
      by (simp add: grid_fits_def Let_def case_prod_beta)
  next
    case (Some p)
    then have "grid_fits m n p" by (auto simp: find_Some_iff)
    then show ?thesis unfolding adjust_kernel_block_size_def loop Some
      by (simp add: grid_fits_def Let_def case_prod_beta)
  qed
qed

lemma ceil_div_antimono: "0 < b \<Longrightarrow> b \<le> b' \<Longrightarrow> ceil_div a b' \<le> ceil_div a b"
proof -
  assume b: "0 < b" "b \<le> b'"
  have eq: "ceil_div a c = (if a = 0 then 0 else Suc ((a - 1) div c))" if "0 < c" for c
  proof (cases a)
    case (Suc a')
    then show ?thesis using that by (simp add: ceil_div_def div_add_self2)
  qed (use that in \<open>simp add: ceil_div_def\<close>)
  show ?thesis using b by (simp add: eq div_le_mono2)
qed

lemma adjust_raises_iff:
  "bn \<in> {16, 32} \<Longrightarrow> adjust_kernel_block_size m bm n bn = Inl e \<longleftrightarrow> e = ValueError \<and> \<not> grid_fits m n (last (block_pairs bn))"
proof -
  assume bn: "bn \<in> {16, 32}"
  have "grid_fits m n (last (block_pairs bn))" if "p \<in> set (block_pairs bn)" "grid_fits m n p" for p
  proof -
    obtain x y where p: "p = (x, y)" by (cases p)
    obtain x' y' where l: "last (block_pairs bn) = (x', y')" by (cases "last (block_pairs bn)")
    have "0 < x \<and> x \<le> x' \<and> 0 < y \<and> y \<le> y'" using bn that(1) l p by (auto simp: block_pairs_cases)
    then have "ceil_div m x' * ceil_div n y' \<le> ceil_div m x * ceil_div n y"
      by (intro mult_le_mono ceil_div_antimono) simp_all
    then show ?thesis using that(2) p l by (simp add: grid_fits_def)
  qed
  moreover have "last (block_pairs bn) \<in> set (block_pairs bn)" using bn by (auto simp: block_pairs_cases)
  ultimately have "find (grid_fits m n) (block_pairs bn) = None \<longleftrightarrow> \<not> grid_fits m n (last (block_pairs bn))"
    unfolding find_None_iff by blast
  then show ?thesis by (auto simp: adjust_finds_first split: option.splits)
qed

lemma adjust_result:
  assumes "adjust_kernel_block_size m bm n bn = Inr (x, y)"
  shows "0 < x" "0 < y" "ceil_div m x * ceil_div n y < MLU_MAX_GRID_SIZE"
proof -
  have p: "(x, y) \<in> set (block_pairs bn)" "grid_fits m n (x, y)"
    using assms by (auto simp: adjust_finds_first find_Some_iff split: option.splits)
  then show "0 < x" "0 < y"
    by (auto simp: block_pairs_def candidates_list_def dest!: set_zip_leftD set_zip_rightD split: if_splits)
  show "ceil_div m x * ceil_div n y < MLU_MAX_GRID_SIZE" using p(2) by (simp add: grid_fits_def)
qed

section \<open>The launches\<close>

definition runs_grid :: "grid_order \<Rightarrow> bool" where
  "runs_grid order \<longleftrightarrow> (\<forall>p b. distinct (order (p, b)) \<and> set (order (p, b)) = {..<p} \<times> {..<b})"

definition runs_grid3 :: "grid_order3 \<Rightarrow> bool" where
  "runs_grid3 order \<longleftrightarrow> (\<forall>p s b. distinct (order (p, s, b)) \<and> set (order (p, s, b)) = {..<p} \<times> {..<s} \<times> {..<b})"

text \<open>The sequences follow one another in the tokens of the batch; the adapter of a token is the one of its sequence.\<close>

definition batch_layout :: "prefill_metadata \<Rightarrow> bool" where
  "batch_layout pm \<longleftrightarrow> length (pm_seq_len_tensor pm) = pm_batches pm
     \<and> length (pm_b_seq_start_loc pm) = pm_batches pm \<and> length (pm_lora_indices pm) = pm_batches pm
     \<and> (\<forall>b<pm_batches pm. pm_seq_len_tensor pm ! b \<le> pm_max_seq_length pm
          \<and> pm_b_seq_start_loc pm ! b + pm_seq_len_tensor pm ! b \<le> pm_token_nums pm
          \<and> (\<forall>b'<b. pm_b_seq_start_loc pm ! b' + pm_seq_len_tensor pm ! b' \<le> pm_b_seq_start_loc pm ! b))
     \<and> (\<forall>l\<in>set (pm_lora_indices pm). -1 \<le> l)"

definition in_sequence :: "prefill_metadata \<Rightarrow> nat \<Rightarrow> nat \<Rightarrow> bool" where
  "in_sequence pm t b \<longleftrightarrow> pm_b_seq_start_loc pm ! b \<le> t \<and> t < pm_b_seq_start_loc pm ! b + pm_seq_len_tensor pm ! b"

definition lora_of :: "prefill_metadata \<Rightarrow> nat \<Rightarrow> int" where
  "lora_of pm t = (case find (in_sequence pm t) [0..<pm_batches pm] of None \<Rightarrow> -1 | Some b \<Rightarrow> pm_lora_indices pm ! b)"

definition get2 :: "'a strided_tensor \<Rightarrow> nat \<Rightarrow> nat \<Rightarrow> 'a" where
  "get2 t i j = tn_buf t (i * tn_strides t ! 0 + j * tn_strides t ! 1)"

definition get3 :: "'a strided_tensor \<Rightarrow> nat \<Rightarrow> nat \<Rightarrow> nat \<Rightarrow> 'a" where
  "get3 t l i j = tn_buf t (tn_strides t ! 0 * l + i * tn_strides t ! 1 + j * tn_strides t ! 2)"

text \<open>The product of a token with a row of an adapter's matrix.\<close>

definition lora_product :: "'a::comm_ring_1 strided_tensor \<Rightarrow> 'a strided_tensor \<Rightarrow> int \<Rightarrow> nat \<Rightarrow> nat \<Rightarrow> 'a" where
  "lora_product x w l t n = (\<Sum>k<tn_sizes w ! 2. get2 x t k * get3 w (nat l) n k)"

text \<open>Contiguous matrices.\<close>

definition matrix :: "'a strided_tensor \<Rightarrow> nat \<Rightarrow> nat \<Rightarrow> bool" where
  "matrix t A B \<longleftrightarrow> tn_sizes t = [A, B] \<and> length (tn_strides t) = 2 \<and> is_contiguous t"

lemma matrix_addr:
  assumes "matrix t A B" "i < A" "j < B"
  shows "i * tn_strides t ! 0 + j * tn_strides t ! 1 = i * B + j"
proof -
  obtain s0 s1 where s: "tn_strides t = [s0, s1]" using assms(1) unfolding matrix_def by (auto simp: length_Suc_conv numeral_2_eq_2)
  show ?thesis using assms s by (auto simp: matrix_def is_contiguous_def)
qed

lemma matrix_addr_eq:
  assumes "matrix t A B" "i < A" "j < B" "i' < A" "j' < B"
  shows "i * tn_strides t ! 0 + j * tn_strides t ! 1 = i' * tn_strides t ! 0 + j' * tn_strides t ! 1 \<longleftrightarrow> i = i' \<and> j = j'"
proof
  assume "i * tn_strides t ! 0 + j * tn_strides t ! 1 = i' * tn_strides t ! 0 + j' * tn_strides t ! 1"
  then have eq: "i * B + j = i' * B + j'" using matrix_addr[OF assms(1)] assms(2-) by simp
  have "i = (i * B + j) div B" "j = (i * B + j) mod B" "i' = (i' * B + j') div B" "j' = (i' * B + j') mod B"
    using assms(3,5) by simp_all
  then show "i = i' \<and> j = j'" using eq by metis
qed simp

lemma layout_disjoint:
  assumes "batch_layout pm" "b < pm_batches pm" "b' < pm_batches pm" "b \<noteq> b'"
  shows "pm_b_seq_start_loc pm ! b + pm_seq_len_tensor pm ! b \<le> pm_b_seq_start_loc pm ! b'
    \<or> pm_b_seq_start_loc pm ! b' + pm_seq_len_tensor pm ! b' \<le> pm_b_seq_start_loc pm ! b"
proof -
  have "\<forall>b<pm_batches pm. \<forall>b'<b. pm_b_seq_start_loc pm ! b' + pm_seq_len_tensor pm ! b' \<le> pm_b_seq_start_loc pm ! b"
    using assms(1) by (simp add: batch_layout_def)
  then show ?thesis using assms(2-) by (cases b b' rule: linorder_cases) blast+
qed

lemma layout_token:
  assumes "batch_layout pm" "b < pm_batches pm" "m < pm_seq_len_tensor pm ! b"
  shows "pm_b_seq_start_loc pm ! b + m < pm_token_nums pm"
  using assms unfolding batch_layout_def by (meson add_strict_left_mono order_less_le_trans)

lemma lora_of_in:
  assumes "batch_layout pm" "b < pm_batches pm" "in_sequence pm t b"
  shows "lora_of pm t = pm_lora_indices pm ! b"
proof -
  have "b' = b" if h: "b' < pm_batches pm" "in_sequence pm t b'" for b'
    using layout_disjoint[OF assms(1,2) h(1)] assms(3) h(2) unfolding in_sequence_def by linarith
  moreover have "find (in_sequence pm t) [0..<pm_batches pm] \<noteq> None"
    unfolding find_None_iff using assms(2,3) by auto
  then obtain b' where b': "find (in_sequence pm t) [0..<pm_batches pm] = Some b'" by blast
  then have "b' < pm_batches pm" "in_sequence pm t b'" unfolding find_Some_iff by auto
  ultimately show ?thesis using b' by (simp add: lora_of_def)
qed

lemma lora_of_out: "\<forall>b<pm_batches pm. \<not> in_sequence pm t b \<Longrightarrow> lora_of pm t = -1"
proof -
  assume "\<forall>b<pm_batches pm. \<not> in_sequence pm t b"
  then have "find (in_sequence pm t) [0..<pm_batches pm] = None" by (auto simp: find_None_iff)
  then show ?thesis by (simp add: lora_of_def)
qed

text \<open>The cells of a batch in a contiguous output.\<close>

definition args_ok :: "sgmv_args \<Rightarrow> 'a strided_tensor \<Rightarrow> 'a strided_tensor \<Rightarrow> 'a strided_tensor \<Rightarrow> nat \<Rightarrow> nat \<Rightarrow> nat \<Rightarrow> bool" where
  "args_ok sa x w y BM BN S \<longleftrightarrow> (\<exists>BK. sa = sgmv_args_of x w y BM BN BK S \<and> 0 < BK) \<and> 0 < BM \<and> 0 < BN \<and> 0 < S"

lemma launch_ok:
  assumes pm: "batch_layout pm" and y: "matrix y (pm_token_nums pm) Ny" and fit: "ofs + tn_sizes w ! 1 \<le> Ny"
    and sa: "args_ok sa x w y BM BN S" and d: "d = sgmv_data_of x w pm"
  shows "sgmv_ok sa d S ofs"
proof -
  have st: "sd_b_seq_start_loc d = pm_b_seq_start_loc pm" "sd_seq_lens d = pm_seq_len_tensor pm" "sd_lora_indices d = pm_lora_indices pm"
    "sa_N sa = tn_sizes w ! 1" "sa_cm_stride sa = tn_strides y ! 0" "sa_cn_stride sa = tn_strides y ! 1"
    using d sa by (auto simp: sgmv_data_of_def args_ok_def sgmv_args_of_def)
  have "inj_on (sgmv_addr sa d ofs) (sgmv_cells sa d)"
  proof (rule inj_onI)
    fix u v assume uv: "u \<in> sgmv_cells sa d" "v \<in> sgmv_cells sa d" "sgmv_addr sa d ofs u = sgmv_addr sa d ofs v"
    obtain b m n b' m' n' where u: "u = (b, m, n)" "v = (b', m', n')" by (cases u, cases v)
    let ?t = "pm_b_seq_start_loc pm ! b + m" and ?t' = "pm_b_seq_start_loc pm ! b' + m'"
    have bm: "b < pm_batches pm" "m < pm_seq_len_tensor pm ! b" "n < tn_sizes w ! 1"
        "b' < pm_batches pm" "m' < pm_seq_len_tensor pm ! b'" "n' < tn_sizes w ! 1"
      using uv(1,2) u st pm by (auto simp: sgmv_cells_def batch_layout_def)
    have t: "?t < pm_token_nums pm" "?t' < pm_token_nums pm"
      using layout_token[OF pm] bm by simp_all
    have "?t = ?t'" "n + ofs = n' + ofs"
      using uv(3) matrix_addr_eq[OF y t(1) _ t(2), of "n + ofs" "n' + ofs"] bm fit u st by (simp_all add: sgmv_addr_def)
    moreover from this(1) have "b = b'"
    proof (rule contrapos_pp)
      assume "b \<noteq> b'"
      then show "?t \<noteq> ?t'" using layout_disjoint[OF pm bm(1,4)] bm(2,5) by linarith
    qed
    ultimately show "u = v" using u by simp
  qed
  then show ?thesis using sa pm st by (auto simp: sgmv_ok_def args_ok_def sgmv_args_of_def batch_layout_def)
qed

lemma launch_cells:
  assumes pm: "batch_layout pm" and y: "matrix y (pm_token_nums pm) Ny" and fit: "ofs + tn_sizes w ! 1 \<le> Ny"
    and sa: "args_ok sa x w y BM BN S" and d: "d = sgmv_data_of x w pm" and t: "t < pm_token_nums pm" and j: "j < Ny"
  obtains b m n where "(b, m, n) \<in> sgmv_cells sa d" "t * tn_strides y ! 0 + j * tn_strides y ! 1 = sgmv_addr sa d ofs (b, m, n)"
      "ofs \<le> j" "j < ofs + tn_sizes w ! 1" "sd_lora_indices d ! b = lora_of pm t" "sgmv_value sa d (b, m, n) = lora_product x w (lora_of pm t) t (j - ofs)"
    | "t * tn_strides y ! 0 + j * tn_strides y ! 1 \<notin> sgmv_addr sa d ofs ` sgmv_cells sa d" "lora_of pm t = -1 \<or> j < ofs \<or> ofs + tn_sizes w ! 1 \<le> j"
proof -
  have st: "sd_b_seq_start_loc d = pm_b_seq_start_loc pm" "sd_seq_lens d = pm_seq_len_tensor pm" "sd_lora_indices d = pm_lora_indices pm"
    "sa_N sa = tn_sizes w ! 1" "sa_cm_stride sa = tn_strides y ! 0" "sa_cn_stride sa = tn_strides y ! 1"
    using d sa by (auto simp: sgmv_data_of_def args_ok_def sgmv_args_of_def)
  have in_cells: "\<exists>b<pm_batches pm. in_sequence pm t b \<and> ofs \<le> j \<and> j < ofs + tn_sizes w ! 1"
    if img: "t * tn_strides y ! 0 + j * tn_strides y ! 1 \<in> sgmv_addr sa d ofs ` sgmv_cells sa d"
  proof -
    obtain b m n where c: "b < pm_batches pm" "m < pm_seq_len_tensor pm ! b" "n < tn_sizes w ! 1"
      "t * tn_strides y ! 0 + j * tn_strides y ! 1 = (pm_b_seq_start_loc pm ! b + m) * tn_strides y ! 0 + (n + ofs) * tn_strides y ! 1"
      using img st pm by (auto simp: sgmv_cells_def sgmv_addr_def batch_layout_def)
    have "t = pm_b_seq_start_loc pm ! b + m \<and> j = n + ofs"
      using c(3,4) fit layout_token[OF pm c(1,2)] matrix_addr_eq[OF y t j, of "pm_b_seq_start_loc pm ! b + m" "n + ofs"] by simp
    then show ?thesis using c by (auto simp: in_sequence_def)
  qed
  show thesis
  proof (cases "\<exists>b<pm_batches pm. in_sequence pm t b \<and> ofs \<le> j \<and> j < ofs + tn_sizes w ! 1")
    case False
    then have "t * tn_strides y ! 0 + j * tn_strides y ! 1 \<notin> sgmv_addr sa d ofs ` sgmv_cells sa d" using in_cells by blast
    moreover have "lora_of pm t = -1 \<or> j < ofs \<or> ofs + tn_sizes w ! 1 \<le> j"
      using lora_of_out[of pm t] False by force
    ultimately show thesis by (rule that(2))
  next
    case True
    then obtain b where b: "b < pm_batches pm" "in_sequence pm t b" "ofs \<le> j" "j < ofs + tn_sizes w ! 1" by blast
    have l: "lora_of pm t = pm_lora_indices pm ! b" by (rule lora_of_in[OF pm b(1,2)])
    have m: "pm_b_seq_start_loc pm ! b + (t - pm_b_seq_start_loc pm ! b) = t" using b(2) by (simp add: in_sequence_def)
    have v: "sgmv_value sa d (b, t - pm_b_seq_start_loc pm ! b, j - ofs) = lora_product x w (lora_of pm t) t (j - ofs)"
      using sa d unfolding args_ok_def
      by (auto simp: sgmv_value_def sgmv_args_of_def sgmv_data_of_def lora_product_def get2_def get3_def l m)
    show thesis
      by (rule that(1)[of b "t - pm_b_seq_start_loc pm ! b" "j - ofs"])
        (use b l m v st pm in \<open>auto simp: sgmv_cells_def sgmv_addr_def batch_layout_def in_sequence_def\<close>)
  qed
qed

text \<open>An adapter's matrices, of three or four dimensions.\<close>

definition adapter :: "'a strided_tensor \<Rightarrow> 'a strided_tensor \<Rightarrow> nat \<Rightarrow> nat \<Rightarrow> bool" where
  "adapter w0 w N K \<longleftrightarrow> squeezed_weights w0 = Inr w \<and> (\<exists>L. tn_sizes w = [L, N, K]) \<and> is_contiguous w"

lemma adapter_sizes:
  assumes "adapter w0 w N K"
  shows "last (tn_sizes w0) = K" "tn_sizes w0 ! (length (tn_sizes w0) - 2) = N" "tn_sizes w ! 1 = N" "tn_sizes w ! 2 = K"
  using assms by (auto simp: adapter_def squeezed_weights_def require_eq_Inr length_Suc_conv eval_nat_numeral split: if_splits)

lemma adjust_total:
  assumes "bn \<in> {16, 32}" "grid_fits m n (last (block_pairs bn))"
  shows "\<exists>x y. adjust_kernel_block_size m bm n bn = Inr (x, y) \<and> 0 < x \<and> 0 < y"
proof (cases "adjust_kernel_block_size m bm n bn")
  case (Inl e)
  then show ?thesis using adjust_raises_iff[OF assms(1), of m bm n e] assms(2) by simp
next
  case (Inr p)
  then show ?thesis using adjust_result[of m bm n bn "fst p" "snd p"] by (cases p) simp
qed

lemma expand_slice_result:
  fixes x w0 w y :: "'a::comm_ring_1 strided_tensor"
  assumes order: "runs_grid order" and pm: "batch_layout pm" and types: "in_type \<in> insert Float32 half_types" "w_type \<in> half_types"
    and x: "matrix x (pm_token_nums pm) K" and w: "adapter w0 w N K" and y: "matrix y (pm_token_nums pm) Ny" "ofs + N \<le> Ny"
    and grid: "grid_fits (pm_max_seq_length pm) N (256, 256)"
  shows "\<exists>y'. sgmv_expand_slice_mlu order junk in_type w_type x w0 y pm ofs N add = Inr y' \<and> matrix y' (pm_token_nums pm) Ny
    \<and> (\<forall>t<pm_token_nums pm. \<forall>j<Ny. get2 y' t j = (if lora_of pm t = -1 \<or> j < ofs \<or> ofs + N \<le> j then get2 y t j
          else lora_product x w (lora_of pm t) t (j - ofs) + (if add then get2 y t j else 0)))"
proof -
  obtain BM BN where blocks: "adjust_kernel_block_size (pm_max_seq_length pm) 32 N 32 = Inr (BM, BN)" "0 < BM" "0 < BN"
    using adjust_total[of 32 "pm_max_seq_length pm" N 32] grid by (auto simp: block_pairs_cases)
  define sa where "sa = sgmv_args_of x w y BM BN 16 1"
  define d where "d = sgmv_data_of x w pm"
  note sizes = adapter_sizes[OF w]
  have sa_ok: "args_ok sa x w y BM BN 1" unfolding args_ok_def sa_def using blocks by (auto intro: exI[of _ 16])
  have fit: "ofs + tn_sizes w ! 1 \<le> Ny" using y(2) sizes(3) by simp
  note ok = launch_ok[OF pm y(1) fit sa_ok d_def]
  let ?grid = "(ceil_div (pm_max_seq_length pm) BM * ceil_div N BN, pm_batches pm)"
  have st: "sd_seq_lens d = pm_seq_len_tensor pm" "sa_N sa = N" "sa_BLOCK_M sa = BM" "sa_BLOCK_N sa = BN"
    using sizes by (simp_all add: d_def sa_def sgmv_data_of_def sgmv_args_of_def)
  have lens: "length (pm_seq_len_tensor pm) = pm_batches pm" "\<forall>M\<in>set (pm_seq_len_tensor pm). M \<le> pm_max_seq_length pm"
    using pm by (auto simp: batch_layout_def in_set_conv_nth)
  obtain out where run: "fold_res (sgmv_expand_slice_kernel sa add ofs d junk) (order ?grid) (tn_buf y) = Inr out"
    and cells: "\<And>c. c \<in> sgmv_cells sa d \<Longrightarrow> out (sgmv_addr sa d ofs c) = (if sd_lora_indices d ! fst c = -1 then tn_buf y (sgmv_addr sa d ofs c)
          else sgmv_value sa d c + (if add then tn_buf y (sgmv_addr sa d ofs c) else 0))"
    and rest: "\<And>a. a \<notin> sgmv_addr sa d ofs ` sgmv_cells sa d \<Longrightarrow> out a = tn_buf y a"
    using expand_grid[OF ok, of "order ?grid" "pm_max_seq_length pm" add junk "tn_buf y"] order st lens unfolding runs_grid_def by auto
  have "sgmv_expand_slice_mlu order junk in_type w_type x w0 y pm ofs N add = Inr (y\<lparr>tn_buf := out\<rparr>)"
    using types x y(1) w sizes blocks(1) pm run
    by (simp add: sgmv_expand_slice_mlu_def metadata_checks_def matrix_def adapter_def batch_layout_def Let_def sa_def d_def)
  moreover have "matrix (y\<lparr>tn_buf := out\<rparr>) (pm_token_nums pm) Ny" using y(1) by (auto simp: matrix_def is_contiguous_def)
  moreover have "get2 (y\<lparr>tn_buf := out\<rparr>) t j = (if lora_of pm t = -1 \<or> j < ofs \<or> ofs + N \<le> j then get2 y t j
          else lora_product x w (lora_of pm t) t (j - ofs) + (if add then get2 y t j else 0))" if t: "t < pm_token_nums pm" "j < Ny" for t j
    by (rule launch_cells[OF pm y(1) fit sa_ok d_def t]) (use cells rest sizes in \<open>auto simp: get2_def\<close>)
  ultimately show ?thesis by blast
qed

lemma shrink_result:
  fixes x w0 w y :: "'a::comm_ring_1 strided_tensor"
  assumes order: "runs_grid3 order" and pm: "batch_layout pm" and types: "in_type = w_type" "w_type \<in> half_types"
    and x: "matrix x (pm_token_nums pm) K" and w: "adapter w0 w N K" and y: "matrix y (pm_token_nums pm) N"
    and grid: "grid_fits (pm_max_seq_length pm) N (256, 192)"
  shows "\<exists>y'. sgmv_shrink_mlu order junk in_type w_type x w0 y pm scaling = Inr y' \<and> matrix y' (pm_token_nums pm) N
    \<and> (\<forall>t<pm_token_nums pm. \<forall>j<N. get2 y' t j = get2 y t j
          + (if lora_of pm t = -1 then 0 else lora_product x w (lora_of pm t) t j * scaling))"
proof -
  obtain BM BN where blocks: "adjust_kernel_block_size (pm_max_seq_length pm) 32 N 16 = Inr (BM, BN)" "0 < BM" "0 < BN"
    using adjust_total[of 16 "pm_max_seq_length pm" N 32] grid by (auto simp: block_pairs_cases)
  define sa where "sa = sgmv_args_of x w y BM BN 32 8"
  define d where "d = sgmv_data_of x w pm"
  note sizes = adapter_sizes[OF w]
  have sa_ok: "args_ok sa x w y BM BN 8" unfolding args_ok_def sa_def using blocks by (auto intro: exI[of _ 32])
  have fit: "0 + tn_sizes w ! 1 \<le> N" using sizes(3) by simp
  note ok = launch_ok[OF pm y(1) fit sa_ok d_def]
  let ?grid = "(ceil_div (pm_max_seq_length pm) BM * ceil_div N BN, 8, pm_batches pm)"
  have st: "sd_seq_lens d = pm_seq_len_tensor pm" "sa_N sa = N" "sa_BLOCK_M sa = BM" "sa_BLOCK_N sa = BN"
    using sizes by (simp_all add: d_def sa_def sgmv_data_of_def sgmv_args_of_def)
  have lens: "length (pm_seq_len_tensor pm) = pm_batches pm" "\<forall>M\<in>set (pm_seq_len_tensor pm). M \<le> pm_max_seq_length pm"
    using pm by (auto simp: batch_layout_def in_set_conv_nth)
  obtain out where run: "fold_res (sgmv_shrink_kernel sa 8 scaling d junk) (order ?grid) (tn_buf y) = Inr out"
    and cells: "\<And>c. c \<in> sgmv_cells sa d \<Longrightarrow> out (sgmv_addr sa d 0 c) = tn_buf y (sgmv_addr sa d 0 c)
          + (if sd_lora_indices d ! fst c = -1 then 0 else sgmv_value sa d c * scaling)"
    and rest: "\<And>a. a \<notin> sgmv_addr sa d 0 ` sgmv_cells sa d \<Longrightarrow> out a = tn_buf y a"
    using shrink_grid[OF ok _, of "order ?grid" "pm_max_seq_length pm" scaling junk "tn_buf y"] order st lens unfolding runs_grid3_def by auto
  have "sgmv_shrink_mlu order junk in_type w_type x w0 y pm scaling = Inr (y\<lparr>tn_buf := out\<rparr>)"
    using types x y(1) w sizes blocks(1) pm run
    by (simp add: sgmv_shrink_mlu_def metadata_checks_def matrix_def adapter_def batch_layout_def Let_def sa_def d_def)
  moreover have "matrix (y\<lparr>tn_buf := out\<rparr>) (pm_token_nums pm) N" using y(1) by (auto simp: matrix_def is_contiguous_def)
  moreover have "get2 (y\<lparr>tn_buf := out\<rparr>) t j = get2 y t j + (if lora_of pm t = -1 then 0 else lora_product x w (lora_of pm t) t j * scaling)"
    if t: "t < pm_token_nums pm" "j < N" for t j
    by (rule launch_cells[OF pm y(1) fit sa_ok d_def t]) (use cells rest sizes t in \<open>auto simp: get2_def\<close>)
  ultimately show ?thesis by blast
qed

text \<open>The launch of the plain kernel is the launch of the kernel for slices at offset zero.\<close>

lemma expand_mlu_is_slice:
  assumes "adapter w0 w N K"
  shows "sgmv_expand_mlu order junk in_type w_type x w0 y pm add = sgmv_expand_slice_mlu order junk in_type w_type x w0 y pm 0 N add"
  unfolding sgmv_expand_mlu_def sgmv_expand_slice_mlu_def expand_is_slice adapter_sizes(2)[OF assms] by simp


section \<open>Properties\<close>

text \<open>
  C25. shrinking the tokens into a zeroed buffer and expanding the result into a slice of the output adds, to the slice of
  every token of a sequence with an adapter, the product of the token with the adapter's two matrices, scaled, and changes
  nothing else, whatever the order of the programs and the contents of masked lanes.
\<close>

theorem lora_prefill_is_low_rank_update:
  fixes x a0 a b0 b y z :: "'a::comm_ring_1 strided_tensor"
  assumes orders: "runs_grid3 order3" "runs_grid order" and pm: "pm = pw_prefill_metadata pw" "batch_layout pm" and type: "dtype \<in> half_types"
    and x: "matrix x (pm_token_nums pm) H" and a: "adapter a0 a R H" and b: "adapter b0 b N R"
    and z: "matrix z (pm_token_nums pm) R" "\<forall>t<pm_token_nums pm. \<forall>r<R. get2 z t r = 0"
    and y: "matrix y (pm_token_nums pm) Ny" "ofs + N \<le> Ny"
    and grids: "ceil_div (pm_max_seq_length pm) 256 * ceil_div R 192 < 65536" "ceil_div (pm_max_seq_length pm) 256 * ceil_div N 256 < 65536"
  shows "\<exists>y'. bind_res (shrink_prefill order3 junk pw dtype dtype z x a0 scale) (\<lambda>z'.
      expand_slice_prefill order junk' pw Float32 dtype y z' b0 ofs N True) = Inr y'
    \<and> (\<forall>t<pm_token_nums pm. \<forall>j<Ny. get2 y' t j = get2 y t j
        + (if \<not> pw_no_lora pw \<and> lora_of pm t \<noteq> -1 \<and> ofs \<le> j \<and> j < ofs + N
           then \<Sum>r<R. (\<Sum>h<H. get2 x t h * get3 a (nat (lora_of pm t)) r h) * scale * get3 b (nat (lora_of pm t)) (j - ofs) r else 0))"
proof (cases "pw_no_lora pw")
  case True
  then show ?thesis by (simp add: shrink_prefill_def expand_slice_prefill_def)
next
  case False
  have fits: "grid_fits (pm_max_seq_length pm) R (256, 192)" "grid_fits (pm_max_seq_length pm) N (256, 256)"
    using grids by (simp_all add: grid_fits_def MLU_MAX_GRID_SIZE_def)
  obtain z' where z': "sgmv_shrink_mlu order3 junk dtype dtype x a0 z pm scale = Inr z'" "matrix z' (pm_token_nums pm) R"
      "\<forall>t<pm_token_nums pm. \<forall>j<R. get2 z' t j = get2 z t j + (if lora_of pm t = -1 then 0 else lora_product x a (lora_of pm t) t j * scale)"
    using shrink_result[OF orders(1) pm(2) refl type x a z(1) fits(1)] by blast
  obtain y' where y': "sgmv_expand_slice_mlu order junk' Float32 dtype z' b0 y pm ofs N True = Inr y'"
      "\<forall>t<pm_token_nums pm. \<forall>j<Ny. get2 y' t j = (if lora_of pm t = -1 \<or> j < ofs \<or> ofs + N \<le> j then get2 y t j
          else lora_product z' b (lora_of pm t) t (j - ofs) + get2 y t j)"
    using expand_slice_result[OF orders(2) pm(2) _ type z'(2) b y fits(2), of Float32 junk' True] by auto
  have "lora_product z' b (lora_of pm t) t n
      = (\<Sum>r<R. (\<Sum>h<H. get2 x t h * get3 a (nat (lora_of pm t)) r h) * scale * get3 b (nat (lora_of pm t)) n r)"
    if "t < pm_token_nums pm" "lora_of pm t \<noteq> -1" for t n
    using that z'(3) z(2) adapter_sizes(4)[OF a] adapter_sizes(4)[OF b] by (simp add: lora_product_def)
  then show ?thesis using False z'(1) y' pm(1) by (simp add: shrink_prefill_def expand_slice_prefill_def add.commute)
qed

definition ex_pm :: prefill_metadata where
  "ex_pm = \<lparr>pm_b_seq_start_loc = [0, 1], pm_seq_len_tensor = [1, 2], pm_lora_indices = [-1, 0], pm_batches = 2, pm_max_seq_length = 2, pm_token_nums = 3\<rparr>"

definition ex_pw :: punica where
  "ex_pw = \<lparr>pw_no_lora = False, pw_prefill_metadata = ex_pm\<rparr>"

theorem lora_prefill_is_low_rank_update_witness:
  "\<exists>order3 order y'. bind_res (shrink_prefill order3 7 ex_pw Float16 Float16 \<lparr>tn_buf = \<lambda>_. 0, tn_sizes = [3, 1], tn_strides = [1, 1]\<rparr>
        (ex_tensor [3, 2] [2, 1]) (ex_tensor [1, 1, 1, 2] [2, 2, 2, 1]) 10) (\<lambda>z'.
      expand_slice_prefill order 8 ex_pw Float32 Float16 (ex_tensor [3, 2] [2, 1]) z' (ex_tensor [1, 1, 1] [1, 1, 1]) 1 1 True) = Inr (y' :: int strided_tensor)
    \<and> get2 y' 1 1 = 3"
proof -
  let ?z = "\<lparr>tn_buf = \<lambda>_. 0 :: int, tn_sizes = [3, 1], tn_strides = [1, 1]\<rparr>"
  let ?wa = "ex_tensor [1, 1, 1, 2] [2, 2, 2, 1]" and ?va = "ex_tensor [1, 1, 2] [2, 2, 1]" and ?b = "ex_tensor [1, 1, 1] [1, 1, 1]"
  define order3 :: grid_order3 where "order3 = (\<lambda>(p, s, b). List.product [0..<p] (List.product [0..<s] [0..<b]))"
  define order :: grid_order where "order = (\<lambda>(p, b). List.product [0..<p] [0..<b])"
  have orders: "runs_grid3 order3" "runs_grid order"
    by (auto simp: runs_grid3_def runs_grid_def order3_def order_def distinct_product)
  have pm: "ex_pm = pw_prefill_metadata ex_pw" "batch_layout ex_pm"
    by (auto simp: ex_pw_def ex_pm_def batch_layout_def less_2_cases_iff)
  have tensors: "matrix (ex_tensor [3, 2] [2, 1]) (pm_token_nums ex_pm) 2" "adapter ?wa ?va 1 2" "adapter ?b ?b 1 1" "matrix ?z (pm_token_nums ex_pm) 1"
    by (simp_all add: matrix_def adapter_def squeezed_weights_def is_contiguous_def ex_tensor_def ex_pm_def)
  obtain y' where y': "bind_res (shrink_prefill order3 7 ex_pw Float16 Float16 ?z (ex_tensor [3, 2] [2, 1]) ?wa 10) (\<lambda>z'.
      expand_slice_prefill order 8 ex_pw Float32 Float16 (ex_tensor [3, 2] [2, 1]) z' ?b 1 1 True) = Inr y'"
    "\<forall>t<pm_token_nums ex_pm. \<forall>j<2. get2 y' t j = get2 (ex_tensor [3, 2] [2, 1]) t j
        + (if \<not> pw_no_lora ex_pw \<and> lora_of ex_pm t \<noteq> -1 \<and> 1 \<le> j \<and> j < 1 + 1
           then \<Sum>r<1. (\<Sum>h<2. get2 (ex_tensor [3, 2] [2, 1]) t h * get3 ?va (nat (lora_of ex_pm t)) r h) * 10 * get3 ?b (nat (lora_of ex_pm t)) (j - 1) r else 0)"
    using lora_prefill_is_low_rank_update[OF orders pm _ tensors(1,2,3,4) _ tensors(1), of Float16 1 7 10 8]
    by (auto simp: half_types_def get2_def ex_pm_def ceil_div_def)
  have "get2 y' 1 1 = 3" using y'(2)[rule_format, of 1 1] by (simp add: ex_pm_def ex_pw_def lora_of_def in_sequence_def get2_def get3_def ex_tensor_def numeral_2_eq_2)
  then show ?thesis using y'(1) by blast
qed

text \<open>
  the block sizes found for a launch are the first of the candidates, in increasing order, whose grid stays below the limit
  of the device, and no block sizes are found exactly when the grid of the largest is too large.
\<close>

theorem adjust_finds_smallest_blocks:
  assumes "block_n \<in> {16, 32}"
  shows "case adjust_kernel_block_size m block_m n block_n of
      Inr p \<Rightarrow> (\<exists>i<6. block_pairs block_n ! i = p \<and> grid_fits m n p \<and> (\<forall>j<i. \<not> grid_fits m n (block_pairs block_n ! j)))
    | Inl e \<Rightarrow> e = ValueError \<and> 65536 \<le> ceil_div m 256 * ceil_div n (if block_n = 16 then 192 else 256)"
proof (cases "adjust_kernel_block_size m block_m n block_n")
  case (Inl e)
  then show ?thesis using adjust_raises_iff[OF assms, of m block_m n e] assms
    by (auto simp: block_pairs_cases grid_fits_def MLU_MAX_GRID_SIZE_def)
next
  case (Inr p)
  then have "find (grid_fits m n) (block_pairs block_n) = Some p" by (simp add: adjust_finds_first split: option.splits)
  moreover have "length (block_pairs block_n) = 6" using assms by (auto simp: block_pairs_cases)
  ultimately show ?thesis using Inr unfolding find_Some_iff by auto
qed

theorem adjust_finds_smallest_blocks_witness: "adjust_kernel_block_size 1000000 32 14336 32 = Inl ValueError"
proof (cases "adjust_kernel_block_size 1000000 32 14336 32")
  case (Inl e)
  then show ?thesis using adjust_finds_smallest_blocks[where block_n = 32 and m = 1000000 and block_m = 32 and n = 14336] by simp
next
  case (Inr p)
  then obtain i where "i < 6" "grid_fits 1000000 14336 (block_pairs 32 ! i)"
    using adjust_finds_smallest_blocks[where block_n = 32 and m = 1000000 and block_m = 32 and n = 14336] by auto
  moreover have "\<forall>p\<in>set (block_pairs 32). \<not> grid_fits 1000000 14336 p"
    by (simp add: block_pairs_cases grid_fits_def MLU_MAX_GRID_SIZE_def ceil_div_def)
  moreover have "length (block_pairs 32) = 6" by (simp add: block_pairs_cases)
  ultimately show ?thesis by simp
qed

end
