(* ===== verification/GraphConfig.thy ===== *)
theory GraphConfig
  imports Prelude
begin

text \<open>
  The sizes for which graphs are captured (\<open>_set_cudagraph_sizes\<close> in \<^verbatim>\<open>vllm_mlu/config/vllm.py\<close>): from the user's
  settings, from the defaults or from the environment variable, multiplied by the tokens of a request when tokens are
  drafted. Sizes are integers as the user gives them.
\<close>

section \<open>Ranges and strings\<close>

text \<open>\<open>range(a, b, step)\<close>, which raises for a step of zero.\<close>

definition py_range :: "int \<Rightarrow> int \<Rightarrow> int \<Rightarrow> int list" where
  "py_range a b step = map (\<lambda>k. a + int k * step) [0..<nat (if 0 < step then (b - a + step - 1) div step else (a - b - step - 1) div (- step))]"

definition py_range_res :: "int \<Rightarrow> int \<Rightarrow> int \<Rightarrow> int list res" where
  "py_range_res a b step = require (step \<noteq> 0) ValueError (Inr (py_range a b step))"

text \<open>Splitting a string at a character.\<close>

fun py_split :: "char \<Rightarrow> string \<Rightarrow> string list" where
  "py_split sep [] = [[]]"
| "py_split sep (c # cs) =
     (if c = sep then [] # py_split sep cs
      else (case py_split sep cs of [] \<Rightarrow> [[c]] | w # ws \<Rightarrow> (c # w) # ws))"

text \<open>The integer of a string of digits, with blanks around it and a plus before it; underscores are left out.\<close>

definition digit_of :: "char \<Rightarrow> nat option" where
  "digit_of c = (if of_char c \<in> {48..57 :: nat} then Some (of_char c - 48) else None)"

definition strip :: "string \<Rightarrow> string" where
  "strip s = rev (dropWhile (\<lambda>c. c = CHR '' '') (rev (dropWhile (\<lambda>c. c = CHR '' '') s)))"

definition py_int :: "string \<Rightarrow> int res" where
  "py_int s =
     (let s = strip s;
          ds = map digit_of (if s \<noteq> [] \<and> hd s = CHR ''+'' then tl s else s)
      in require (ds \<noteq> [] \<and> None \<notin> set ds) ValueError (Inr (foldl (\<lambda>n d. 10 * n + int (the d)) 0 ds)))"

section \<open>The sizes\<close>

record graph_sizes =
  gs_max_cudagraph_capture_size :: "int option"
  gs_cudagraph_capture_sizes :: "int list option"
  gs_has_set_capture_list :: bool

record sizes_config =
  sz_use_graphs :: bool
  sz_max_num_seqs :: int
  sz_max_num_batched_tokens :: int
  sz_num_speculative_tokens :: "int option"
  sz_sequence_parallel :: bool
  sz_MLU_GRAPH_CAPTURE_LIST :: "string option"

definition default_sizes :: "int \<Rightarrow> int list" where
  "default_sizes max_size = filter (\<lambda>i. i \<le> max_size) [1, 2, 4]
     @ (if 8 \<le> max_size then py_range 8 (min (max_size + 1) 256) 8 else [])
     @ (if 256 \<le> max_size then py_range 256 (max_size + 1) 16 else [])"

definition initial_sizes :: "sizes_config \<Rightarrow> graph_sizes \<Rightarrow> int list res" where
  "initial_sizes cfg gs =
     (let max_size = (case gs_max_cudagraph_capture_size gs of None \<Rightarrow> min (sz_max_num_seqs cfg * 2) 512 | Some m \<Rightarrow> m);
          max_num_tokens = sz_max_num_batched_tokens cfg;
          max_size = min max_num_tokens max_size
      in require (1 \<le> max_size) AssertionError
         (case gs_cudagraph_capture_sizes gs of
            Some sizes \<Rightarrow> require (sizes \<noteq> []) AssertionError (Inr (sort (filter (\<lambda>i. i \<le> max_num_tokens) (remdups sizes))))
          | None \<Rightarrow> Inr (default_sizes max_size)))"

definition capture_list :: "string \<Rightarrow> int list res" where
  "capture_list s =
     (if CHR ''-'' \<in> set s
      then (case py_split CHR ''-'' s of
          [start, end', step] \<Rightarrow> bind_res (py_int start) (\<lambda>a. bind_res (py_int end') (\<lambda>b. bind_res (py_int step) (\<lambda>c.
            bind_res (py_range_res a b c) (\<lambda>r. Inr (sort (remdups ([1, 2, 4] @ r)))))))
        | _ \<Rightarrow> Inl AssertionError)
      else map_res py_int (py_split CHR '','' s))"

definition override_sizes :: "sizes_config \<Rightarrow> int list \<Rightarrow> int list res" where
  "override_sizes cfg sizes =
     (case sz_MLU_GRAPH_CAPTURE_LIST cfg of None \<Rightarrow> Inr sizes | Some s \<Rightarrow> if s = [] then Inr sizes else capture_list s)"

definition draft_sizes :: "sizes_config \<Rightarrow> int list \<Rightarrow> int list" where
  "draft_sizes cfg sizes =
     filter (\<lambda>size. size \<le> sz_max_num_batched_tokens cfg)
       (case sz_num_speculative_tokens cfg of None \<Rightarrow> sizes | Some K \<Rightarrow> if 0 < K then map (\<lambda>x. x * (1 + K)) sizes else sizes)"

text \<open>
  \<open>update_sizes\<close> stands for the method of vLLM that keeps the sizes sequence parallelism can divide. What vLLM
  computes from the final sizes is left out.
\<close>

definition set_cudagraph_sizes :: "(int list \<Rightarrow> int list) \<Rightarrow> sizes_config \<Rightarrow> graph_sizes \<Rightarrow> graph_sizes res" where
  "set_cudagraph_sizes update_sizes cfg gs =
     (if gs_has_set_capture_list gs then Inr gs
      else bind_res
        (if sz_use_graphs cfg
         then bind_res (initial_sizes cfg gs) (\<lambda>sizes.
              bind_res (override_sizes cfg sizes) (\<lambda>sizes.
              let sizes = draft_sizes cfg sizes;
                  sizes = (if sz_sequence_parallel cfg then update_sizes sizes else sizes);
                  valid_max_size = (if sizes = [] then 0 else last sizes)
              in require (\<not> (gs_max_cudagraph_capture_size gs \<noteq> None \<and> gs_max_cudagraph_capture_size gs \<noteq> Some valid_max_size
                            \<and> gs_cudagraph_capture_sizes gs \<noteq> None)) ValueError
                 (Inr (gs\<lparr>gs_max_cudagraph_capture_size := Some valid_max_size, gs_cudagraph_capture_sizes := Some sizes\<rparr>))))
         else Inr (gs\<lparr>gs_max_cudagraph_capture_size := Some 0, gs_cudagraph_capture_sizes := Some []\<rparr>))
        (\<lambda>gs. Inr (gs\<lparr>gs_has_set_capture_list := True\<rparr>)))"

section \<open>The default sizes\<close>

lemma le_div_int_iff: "0 < s \<Longrightarrow> q \<le> x div s \<longleftrightarrow> q * s \<le> (x :: int)"
proof
  assume s: "0 < s"
  have x: "x = x div s * s + x mod s" "0 \<le> x mod s" "x mod s < s" using s by simp_all
  show "q * s \<le> x" if "q \<le> x div s"
    using mult_right_mono[OF that, of s] s x by linarith
  show "q \<le> x div s" if "q * s \<le> x"
  proof (rule ccontr)
    assume "\<not> q \<le> x div s"
    then have "(x div s + 1) * s \<le> q * s" using s by (intro mult_right_mono) simp_all
    then show False using that x by (simp add: distrib_right)
  qed
qed

lemma set_py_range:
  assumes "0 < step"
  shows "set (py_range a b step) = {x. a \<le> x \<and> x < b \<and> step dvd (x - a)}"
proof -
  have bound: "int k < (b - a + step - 1) div step \<longleftrightarrow> a + int k * step < b" for k
  proof -
    have "int k < (b - a + step - 1) div step \<longleftrightarrow> int k + 1 \<le> (b - a + step - 1) div step" by linarith
    also have "\<dots> \<longleftrightarrow> (int k + 1) * step \<le> b - a + step - 1"
      using le_div_int_iff[OF assms] by simp
    also have "\<dots> \<longleftrightarrow> a + int k * step < b" by (auto simp: algebra_simps)
    finally show ?thesis .
  qed
  show ?thesis
  proof (intro set_eqI iffI)
    fix x assume "x \<in> set (py_range a b step)"
    then obtain k where "x = a + int k * step" "int k < (b - a + step - 1) div step"
      using assms by (auto simp: py_range_def zless_nat_conj)
    then show "x \<in> {x. a \<le> x \<and> x < b \<and> step dvd (x - a)}" using bound[of k] assms by simp
  next
    fix x assume "x \<in> {x. a \<le> x \<and> x < b \<and> step dvd (x - a)}"
    then obtain j where j: "x - a = step * j" "a \<le> x" "x < b" by (auto elim: dvdE)
    then have "0 \<le> j" using assms by (metis diff_ge_0_iff_ge zero_le_mult_iff not_less)
    then obtain k where "j = int k" by (metis nonneg_int_cases)
    then have "x = a + int k * step" using j(1) by (simp add: mult.commute)
    then show "x \<in> set (py_range a b step)" using bound[of k] j(3) assms by (auto simp: py_range_def zless_nat_conj)
  qed
qed

lemma sorted_py_range: "0 < step \<Longrightarrow> sorted_wrt (<) (py_range a b step)"
  unfolding py_range_def by (auto simp: sorted_wrt_map intro!: sorted_wrt_mono_rel[OF _ sorted_wrt_upt])

lemma set_default_sizes:
  "set (default_sizes m) = {s. s \<le> m \<and> (s \<in> {1, 2, 4} \<or> (8 \<le> s \<and> s < 256 \<and> 8 dvd s) \<or> (256 \<le> s \<and> 16 dvd s))}"
proof -
  have 8: "s \<in> set (py_range 8 (min (m + 1) 256) 8) \<longleftrightarrow> 8 \<le> s \<and> s \<le> m \<and> s < 256 \<and> 8 dvd s" for s
    using dvd_diff_commute[of 8 s 8] by (auto simp: set_py_range dvd_minus_self) presburger+
  have 16: "s \<in> set (py_range 256 (m + 1) 16) \<longleftrightarrow> 256 \<le> s \<and> s \<le> m \<and> 16 dvd s" for s
    by (auto simp: set_py_range) presburger+
  show ?thesis
    unfolding default_sizes_def set_append by (auto simp: 8 16)
qed

lemma sorted_three_parts:
  assumes "sorted_wrt (<) A" "sorted_wrt (<) B" "sorted_wrt (<) C"
    and "\<And>x. x \<in> set A \<Longrightarrow> x \<le> 4" "\<And>x. x \<in> set B \<Longrightarrow> 8 \<le> x \<and> x < 256" "\<And>x. x \<in> set C \<Longrightarrow> 256 \<le> (x :: int)"
  shows "sorted_wrt (<) (A @ B @ C)"
proof -
  have "x < y" if "x \<in> set A" "y \<in> set B \<union> set C" for x y using assms(4)[OF that(1)] assms(5,6)[of y] that(2) by auto
  moreover have "x < y" if "x \<in> set B" "y \<in> set C" for x y using assms(5)[OF that(1)] assms(6)[OF that(2)] by simp
  ultimately show ?thesis using assms(1-3) unfolding sorted_wrt_append by simp
qed

lemma sorted_default_sizes: "sorted_wrt (<) (default_sizes m)"
  unfolding default_sizes_def by (rule sorted_three_parts) (auto simp: sorted_py_range set_py_range split: if_splits)

text \<open>Between a number and a size above it there is a size less than sixteen above the number.\<close>

lemma default_sizes_gap:
  assumes "l \<in> set (default_sizes m)" "0 < n" "n \<le> l"
  shows "\<exists>s\<in>set (default_sizes m). n \<le> s \<and> s \<le> l \<and> s < n + 16"
proof -
  have l: "l \<le> m" "l \<in> {1, 2, 4} \<or> (8 \<le> l \<and> l < 256 \<and> 8 dvd l) \<or> (256 \<le> l \<and> 16 dvd l)"
    using assms(1) by (auto simp: set_default_sizes)
  consider "n \<le> 2" | "2 < n" "n \<le> 4" | "4 < n" "n \<le> 256" | "256 < n" by linarith
  then show ?thesis
  proof cases
    case 1
    then show ?thesis using assms l unfolding set_default_sizes by (intro bexI[of _ n]) auto
  next
    case 2
    have "4 \<le> l" using l(2) 2 assms(3) by auto
    then show ?thesis using 2 l(1) unfolding set_default_sizes by (intro bexI[of _ 4]) auto
  next
    case 3
    let ?s = "(n + 7) div 8 * 8"
    have s: "n \<le> ?s" "?s < n + 8" "8 \<le> ?s" "8 dvd ?s" "?s \<le> 256" using 3 by presburger+
    have "?s \<le> l"
    proof (cases "l < 256")
      case True
      then have "8 dvd l" using l(2) 3(1) assms(3) by auto
      then show ?thesis using assms(3) by presburger
    qed (use s in linarith)
    moreover have "?s < 256 \<or> 256 \<le> ?s \<and> 16 dvd ?s" using s(5) by (cases "?s = 256") auto
    ultimately show ?thesis using s l(1) unfolding set_default_sizes by (intro bexI[of _ ?s]) auto
  next
    case 4
    let ?s = "(n + 15) div 16 * 16"
    have "16 dvd l" using l(2) 4 assms(3) by auto
    then have "?s \<le> l" using assms(3) by presburger
    moreover have "n \<le> ?s" "?s < n + 16" "16 dvd ?s" by presburger+
    ultimately show ?thesis using 4 l(1) unfolding set_default_sizes by (intro bexI[of _ ?s]) auto
  qed
qed

lemma last_is_max:
  assumes "sorted_wrt (<) xs" "(x :: int) \<in> set xs"
  shows "x \<le> last xs"
proof -
  obtain i where i: "i < length xs" "xs ! i = x" using assms(2) by (auto simp: in_set_conv_nth)
  have "i \<noteq> length xs - 1 \<Longrightarrow> xs ! i < xs ! (length xs - 1)" using sorted_wrt_nth_less[OF assms(1), of i "length xs - 1"] i(1) by auto
  moreover have "last xs = xs ! (length xs - 1)" using i(1) by (intro last_conv_nth) auto
  ultimately show ?thesis using i by force
qed

section \<open>Properties\<close>

text \<open>The tokens of a request of the captured decodes.\<close>

definition query_len_of :: "sizes_config \<Rightarrow> int" where
  "query_len_of cfg = (case sz_num_speculative_tokens cfg of None \<Rightarrow> 1 | Some K \<Rightarrow> 1 + max 0 K)"

lemma draft_sizes_scale: "draft_sizes cfg sizes = filter (\<lambda>s. s \<le> sz_max_num_batched_tokens cfg) (map (\<lambda>x. x * query_len_of cfg) sizes)"
  by (auto simp: draft_sizes_def query_len_of_def split: option.splits)

text \<open>
  C37. without settings of the user the sizes are increasing, whole numbers of requests with their drafts, within the tokens of
  a batch, the largest is recorded, and every number of tokens up to it is padded by less than sixteen requests.
\<close>

theorem default_sizes_cover:
  assumes "set_cudagraph_sizes update_sizes cfg gs = Inr gs'" "sz_use_graphs cfg" "\<not> gs_has_set_capture_list gs" "gs_cudagraph_capture_sizes gs = None"
    and "sz_MLU_GRAPH_CAPTURE_LIST cfg = None" "\<not> sz_sequence_parallel cfg"
  shows "\<exists>xs. gs_cudagraph_capture_sizes gs' = Some xs \<and> sorted_wrt (<) xs
    \<and> (\<forall>s\<in>set xs. 0 < s \<and> query_len_of cfg dvd s \<and> s \<le> sz_max_num_batched_tokens cfg)
    \<and> gs_max_cudagraph_capture_size gs' = Some (if xs = [] then 0 else last xs)
    \<and> (\<forall>n. 0 < n \<and> xs \<noteq> [] \<and> n \<le> last xs \<longrightarrow> (\<exists>s\<in>set xs. n \<le> s \<and> s < n + 16 * query_len_of cfg))"
proof -
  define m where "m = min (sz_max_num_batched_tokens cfg) (case gs_max_cudagraph_capture_size gs of None \<Rightarrow> min (sz_max_num_seqs cfg * 2) 512 | Some m \<Rightarrow> m)"
  let ?q = "query_len_of cfg" and ?T = "sz_max_num_batched_tokens cfg"
  define xs where "xs = filter (\<lambda>s. s \<le> ?T) (map (\<lambda>x. x * ?q) (default_sizes m))"
  have q: "0 < ?q" by (auto simp: query_len_of_def max_def split: option.splits)
  have gs': "gs_cudagraph_capture_sizes gs' = Some xs" "gs_max_cudagraph_capture_size gs' = Some (if xs = [] then 0 else last xs)"
    using assms by (auto simp: set_cudagraph_sizes_def initial_sizes_def override_sizes_def draft_sizes_scale Let_def xs_def m_def
        bind_res_eq_Inr require_eq_Inr split: if_splits)
  have sorted: "sorted_wrt (<) xs"
    unfolding xs_def using q by (auto simp: sorted_wrt_map intro!: sorted_wrt_filter sorted_wrt_mono_rel[OF _ sorted_default_sizes])
  have elems: "\<forall>s\<in>set xs. 0 < s \<and> ?q dvd s \<and> s \<le> ?T" using q by (auto simp: xs_def set_default_sizes)
  have "\<exists>s\<in>set xs. n \<le> s \<and> s < n + 16 * ?q" if n: "0 < n" "xs \<noteq> []" "n \<le> last xs" for n
  proof -
    obtain l where l: "l \<in> set (default_sizes m)" "last xs = l * ?q" "l * ?q \<le> ?T" using last_in_set[OF n(2)] by (auto simp: xs_def)
    define k where "k = (n + ?q - 1) div ?q"
    have "k * ?q \<le> n + ?q - 1" using le_div_int_iff[OF q, of k "n + ?q - 1"] by (simp add: k_def)
    moreover have "\<not> (k + 1) * ?q \<le> n + ?q - 1" using le_div_int_iff[OF q, of "k + 1" "n + ?q - 1"] by (simp add: k_def)
    ultimately have k: "n \<le> k * ?q" "k * ?q < n + ?q" by (simp_all add: distrib_right)
    have "0 < k * ?q" using n(1) k(1) by linarith
    then have "0 < k" using q by (simp add: zero_less_mult_iff)
    moreover have "k * ?q < (l + 1) * ?q" using k(2) n(3) l(2) by (simp add: distrib_right)
    then have "k \<le> l" using q by simp
    ultimately obtain s where s: "s \<in> set (default_sizes m)" "k \<le> s" "s \<le> l" "s < k + 16" using default_sizes_gap[OF l(1)] by blast
    have le: "s * ?q \<le> l * ?q" "k * ?q \<le> s * ?q" "s * ?q \<le> (k + 15) * ?q" using s q by (intro mult_right_mono; simp)+
    then have "s * ?q \<le> ?T" "n \<le> s * ?q" "s * ?q < n + 16 * ?q" using l(3) k by (linarith, linarith, simp add: distrib_right)
    then show ?thesis using s(1) by (intro bexI[of _ "s * ?q"]) (auto simp: xs_def)
  qed
  then show ?thesis using gs' sorted elems by blast
qed

theorem default_sizes_cover_witness:
  "\<exists>gs' xs. set_cudagraph_sizes (\<lambda>xs. xs) \<lparr>sz_use_graphs = True, sz_max_num_seqs = 8, sz_max_num_batched_tokens = 30, sz_num_speculative_tokens = Some 1,
       sz_sequence_parallel = False, sz_MLU_GRAPH_CAPTURE_LIST = None\<rparr>
     \<lparr>gs_max_cudagraph_capture_size = None, gs_cudagraph_capture_sizes = None, gs_has_set_capture_list = False\<rparr> = Inr gs'
   \<and> gs_cudagraph_capture_sizes gs' = Some xs \<and> xs = [2, 4, 8, 16] \<and> (\<exists>s\<in>set xs. 9 \<le> s \<and> s < 9 + 16 * 2)"
proof -
  let ?cfg = "\<lparr>sz_use_graphs = True, sz_max_num_seqs = 8, sz_max_num_batched_tokens = 30, sz_num_speculative_tokens = Some 1,
       sz_sequence_parallel = False, sz_MLU_GRAPH_CAPTURE_LIST = None\<rparr>"
  let ?gs = "\<lparr>gs_max_cudagraph_capture_size = None, gs_cudagraph_capture_sizes = None, gs_has_set_capture_list = False\<rparr>"
  have "default_sizes 16 = [1, 2, 4, 8, 16]" by (simp add: default_sizes_def py_range_def upt_rec numeral_2_eq_2)
  then have run: "set_cudagraph_sizes (\<lambda>xs. xs) ?cfg ?gs = Inr (?gs\<lparr>gs_max_cudagraph_capture_size := Some 16, gs_cudagraph_capture_sizes := Some [2, 4, 8, 16],
      gs_has_set_capture_list := True\<rparr>)"
    by (simp add: set_cudagraph_sizes_def initial_sizes_def override_sizes_def draft_sizes_def Let_def)
  show ?thesis using default_sizes_cover[OF run] run by (auto simp: query_len_of_def)
qed

text \<open>
  C36. when the user gives both the sizes and the largest of them (with graphs, without sequence parallelism and without
  the environment variable), the settings are accepted exactly when the largest of the multiplied sizes that fit into the
  tokens of a batch is that largest size, and else refused with a ValueError as inconsistent. So when the multiplied
  largest size fits into a batch, the settings are accepted without drafts and refused with them; with a smaller batch
  they can be accepted with drafts too, when another size multiplied gives the largest.
\<close>

theorem consistent_sizes_with_drafts_raise:
  assumes sizes: "sizes \<noteq> []" "\<forall>s\<in>set sizes. 0 < s" and T: "1 \<le> sz_max_num_batched_tokens cfg"
    and gs: "gs = \<lparr>gs_max_cudagraph_capture_size = Some (Max (set sizes)), gs_cudagraph_capture_sizes = Some sizes, gs_has_set_capture_list = False\<rparr>"
    and cfg: "sz_use_graphs cfg" "sz_MLU_GRAPH_CAPTURE_LIST cfg = None" "\<not> sz_sequence_parallel cfg"
    and fitting: "fitting = {t. \<exists>s\<in>set sizes. t = s * query_len_of cfg \<and> t \<le> sz_max_num_batched_tokens cfg}"
  shows "set_cudagraph_sizes update_sizes cfg gs =
      (if Max (insert 0 fitting) = Max (set sizes)
       then Inr (gs\<lparr>gs_cudagraph_capture_sizes := Some (sorted_list_of_set fitting), gs_has_set_capture_list := True\<rparr>)
       else Inl ValueError)
    \<and> (Max (set sizes) * query_len_of cfg \<le> sz_max_num_batched_tokens cfg
        \<longrightarrow> (Max (insert 0 fitting) = Max (set sizes) \<longleftrightarrow> query_len_of cfg = 1))"
proof -
  let ?q = "query_len_of cfg" and ?m = "Max (set sizes)" and ?T = "sz_max_num_batched_tokens cfg"
  have m: "?m \<in> set sizes" "\<forall>s\<in>set sizes. s \<le> ?m" using sizes(1) by auto
  then have pos: "0 < ?m" using sizes(2) by blast
  have q: "1 \<le> ?q" by (auto simp: query_len_of_def max_def split: option.splits)
  have grow: "s \<le> s * ?q" if "s \<in> set sizes" for s
    using mult_left_mono[OF q, of s] sizes(2) that by fastforce
  define xs where "xs = sort (filter (\<lambda>i. i \<le> ?T) (remdups sizes))"
  have xs: "sorted_wrt (<) xs" "set xs = {s \<in> set sizes. s \<le> ?T}" by (auto simp: xs_def strict_sorted_iff)
  define ys where "ys = draft_sizes cfg xs"
  have ys: "set ys = fitting" using xs(2) grow by (fastforce simp: ys_def draft_sizes_scale fitting)
  have "sorted_wrt (<) ys"
    unfolding ys_def draft_sizes_scale using q
    by (auto simp: sorted_wrt_map intro!: sorted_wrt_filter sorted_wrt_mono_rel[OF _ xs(1)])
  then have sorted: "ys = sorted_list_of_set fitting"
    using ys sorted_list_of_set.idem_if_sorted_distinct[of ys] by (simp add: strict_sorted_iff)
  have last: "(if ys = [] then 0 else last ys) = Max (insert 0 fitting)"
  proof (cases "ys = []")
    case False
    have "0 < last ys" using last_in_set[OF False] ys sizes(2) q unfolding fitting by auto
    moreover have "\<forall>t\<in>fitting. t \<le> last ys" using last_is_max[OF \<open>sorted_wrt (<) ys\<close>] ys by blast
    ultimately show ?thesis
      using False last_in_set[OF False] ys List.finite_set[of ys] by (intro Max_eqI[symmetric]) auto
  qed (use ys in auto)
  have init: "initial_sizes cfg gs = Inr xs"
    unfolding initial_sizes_def gs Let_def graph_sizes.select_convs option.case xs_def
    using T pos sizes(1) by (simp add: require_eq_Inr)
  have "set_cudagraph_sizes update_sizes cfg gs =
      (if Max (insert 0 fitting) = ?m
       then Inr (gs\<lparr>gs_cudagraph_capture_sizes := Some (sorted_list_of_set fitting), gs_has_set_capture_list := True\<rparr>)
       else Inl ValueError)"
    using init gs cfg last sorted
    by (auto simp: set_cudagraph_sizes_def override_sizes_def Let_def ys_def[symmetric] simp del: Max_insert)
  moreover have "Max (insert 0 fitting) = ?m * ?q" if "?m * ?q \<le> ?T"
  proof (rule Max_eqI)
    show "t \<le> ?m * ?q" if "t \<in> insert 0 fitting" for t
      using that m(2) pos q mult_right_mono[of _ ?m ?q] by (fastforce simp: fitting)
    show "?m * ?q \<in> insert 0 fitting" using that m(1) by (auto simp: fitting)
  qed (use ys List.finite_set[of ys] in simp)
  moreover have "?m * ?q = ?m \<longleftrightarrow> ?q = 1" using pos by simp
  ultimately show ?thesis by simp
qed

theorem consistent_sizes_with_drafts_raise_witness:
  "set_cudagraph_sizes (\<lambda>xs. xs) \<lparr>sz_use_graphs = True, sz_max_num_seqs = 8, sz_max_num_batched_tokens = 30, sz_num_speculative_tokens = Some 1,
       sz_sequence_parallel = False, sz_MLU_GRAPH_CAPTURE_LIST = None\<rparr>
     \<lparr>gs_max_cudagraph_capture_size = Some 4, gs_cudagraph_capture_sizes = Some [1, 2, 4], gs_has_set_capture_list = False\<rparr> = Inl ValueError
   \<and> set_cudagraph_sizes (\<lambda>xs. xs) \<lparr>sz_use_graphs = True, sz_max_num_seqs = 8, sz_max_num_batched_tokens = 4, sz_num_speculative_tokens = Some 1,
       sz_sequence_parallel = False, sz_MLU_GRAPH_CAPTURE_LIST = None\<rparr>
     \<lparr>gs_max_cudagraph_capture_size = Some 4, gs_cudagraph_capture_sizes = Some [2, 4], gs_has_set_capture_list = False\<rparr>
     = Inr \<lparr>gs_max_cudagraph_capture_size = Some 4, gs_cudagraph_capture_sizes = Some [4], gs_has_set_capture_list = True\<rparr>"
proof -
  let ?cfg = "\<lambda>T. \<lparr>sz_use_graphs = True, sz_max_num_seqs = 8, sz_max_num_batched_tokens = T,
      sz_num_speculative_tokens = Some 1, sz_sequence_parallel = False, sz_MLU_GRAPH_CAPTURE_LIST = None\<rparr>"
  have fit: "{t. \<exists>s\<in>set [1, 2, 4]. t = s * query_len_of (?cfg 30) \<and> t \<le> sz_max_num_batched_tokens (?cfg 30)} = {2, 4, 8}"
    "{t. \<exists>s\<in>set [2, 4]. t = s * query_len_of (?cfg 4) \<and> t \<le> sz_max_num_batched_tokens (?cfg 4)} = {4}"
    by (auto simp: query_len_of_def)
  show ?thesis
    using consistent_sizes_with_drafts_raise[of "[1, 2, 4]" "?cfg 30", OF _ _ _ refl _ _ _ fit(1)[symmetric]]
      consistent_sizes_with_drafts_raise[of "[2, 4]" "?cfg 4", OF _ _ _ refl _ _ _ fit(2)[symmetric]]
    by simp
qed

end
