(* ===== verification/GraphCapture.thy ===== *)
theory GraphCapture
  imports GraphWrapper
begin

text \<open>
  Dummy runs and the capture of graphs (\<open>_dummy_run\<close>, \<open>_capture_cudagraphs\<close> and \<open>capture_model\<close> of
  \<^verbatim>\<open>vllm_mlu/v1/worker/gpu_model_runner.py\<close>). A dummy run makes up a batch, builds metadata for it when attention
  is wanted, and calls the model through the wrapper of \<open>GraphWrapper\<close>, which runs it, captures a graph or replays
  one. The input buffers, the swapping of adapters and the timing are left out; a mode that is missing is the mode that runs
  without a graph.
\<close>

section \<open>Dummy batches\<close>

record dummy_args =
  da_num_tokens :: nat
  da_is_capturing_prefill :: bool
  da_prefill_batch_size :: nat
  da_prefill_seq_len :: nat
  da_cudagraph_runtime_mode :: "graph_mode option"
  da_force_attention :: bool
  da_uniform_decode :: bool
  da_allow_microbatching :: bool
  da_skip_eplb :: bool
  da_is_profile :: bool
  da_create_mixed_batch :: bool
  da_activate_lora :: bool

record capture_config =
  cc_max_num_batched_tokens :: nat
  cc_max_num_seqs :: nat
  cc_max_num_tokens :: nat
  cc_uniform_decode_query_len :: nat
  cc_dp_rank :: nat
  cc_num_computed_tokens :: "int list"
  cc_lora_config :: bool
  cc_specialize_lora :: bool
  cc_graphs_enabled :: bool
  cc_mixed_mode :: graph_mode
  cc_decode_mode :: graph_mode
  cc_separate_routine :: bool
  cc_num_of_warmups :: nat
  cc_enable_dbo :: bool
  cc_prefill_enable_mlugraph :: bool
  cc_prefill_batch_size :: nat
  cc_prefill_seq_len :: nat
  cc_cudagraph_batch_sizes :: "nat list option"
  cc_uses_eagle :: bool
  cc_spec_enforce_eager :: bool
  cc_deepseek_v4 :: bool
  cc_kv_state_free_slots :: "nat list"

definition ceil_div_res :: "nat \<Rightarrow> nat \<Rightarrow> nat res" where
  "ceil_div_res a b = (if b = 0 then Inl ZeroDivisionError else Inr ((a + b - 1) div b))"

text \<open>The longest query, the number of requests and their tokens.\<close>

definition dummy_split :: "capture_config \<Rightarrow> dummy_args \<Rightarrow> (nat \<times> nat \<times> nat list) res" where
  "dummy_split cfg a =
     (let num_tokens = da_num_tokens a;
          max_query_len = (if da_uniform_decode a then cc_uniform_decode_query_len cfg else num_tokens);
          max_num_reqs = cc_max_num_seqs cfg
      in if da_create_mixed_batch a
         then require (\<not> da_uniform_decode a) AssertionError
           (let num_decode_tokens = min (max_num_reqs - 1) (num_tokens div 2);
                num_prefill_tokens = num_tokens - num_decode_tokens
            in Inr (num_prefill_tokens, num_decode_tokens + 1, replicate num_decode_tokens 1 @ [num_prefill_tokens]))
         else if da_uniform_decode a
         then bind_res (ceil_div_res num_tokens max_query_len) (\<lambda>n.
           let num_reqs = min max_num_reqs n; tokens = replicate num_reqs max_query_len
           in if num_tokens mod max_query_len \<noteq> 0
              then bind_res (put_res tokens (num_reqs - 1) (num_tokens mod max_query_len)) (\<lambda>tokens. Inr (max_query_len, num_reqs, tokens))
              else Inr (max_query_len, num_reqs, tokens))
         else let num_reqs = min num_tokens max_num_reqs in
           if num_reqs = 0 then Inl ZeroDivisionError
           else let tokens = replicate num_reqs (num_tokens div num_reqs)
             in Inr (max_query_len, num_reqs, tokens[num_reqs - 1 := tokens ! (num_reqs - 1) + num_tokens mod num_reqs]))"

definition dummy_batch :: "capture_config \<Rightarrow> dummy_args \<Rightarrow> (nat \<times> nat \<times> nat list) res" where
  "dummy_batch cfg a =
     require (da_num_tokens a \<le> cc_max_num_batched_tokens cfg) AssertionError
     (bind_res (dummy_split cfg a) (\<lambda>(max_query_len, num_reqs, tokens).
      require (sum_list tokens = da_num_tokens a) AssertionError
     (require (length tokens = num_reqs) AssertionError (Inr (max_query_len, num_reqs, tokens)))))"

section \<open>The metadata of a dummy batch\<close>

record dummy_metadata =
  dm_seq_lens :: "nat list"
  dm_query_start_loc :: "nat list"
  dm_seq_start_loc :: "nat list"
  dm_max_query_len :: nat
  dm_num_reqs :: nat
  dm_infer_mode :: infer_mode

text \<open>The lengths of the requests are followed by zeros up to the size of the buffer.\<close>

definition dummy_attention :: "capture_config \<Rightarrow> dummy_args \<Rightarrow> nat \<Rightarrow> nat \<Rightarrow> nat list \<Rightarrow> dummy_metadata res" where
  "dummy_attention cfg a max_query_len num_reqs tokens =
     (let seq_lens = (if da_create_mixed_batch a then replicate (num_reqs - 1) 1 @ [max_query_len + 1]
                      else if da_is_capturing_prefill a then replicate num_reqs (da_prefill_seq_len a)
                      else replicate num_reqs max_query_len);
          computed = take num_reqs (cc_num_computed_tokens cfg)
      in if computed = [] then Inl ValueError
         else let mode = infer_mode_build (int max_query_len) (Max (set computed)) (cc_uniform_decode_query_len cfg)
         in Inr \<lparr>dm_seq_lens = seq_lens @ replicate (cc_max_num_seqs cfg - num_reqs) 0,
                 dm_query_start_loc = 0 # accumulate tokens, dm_seq_start_loc = 0 # accumulate seq_lens,
                 dm_max_query_len = max_query_len,
                 dm_num_reqs = (if da_is_capturing_prefill a then da_prefill_batch_size a else num_reqs),
                 dm_infer_mode = (if da_is_capturing_prefill a then PREFILL_ONLY else mode)\<rparr>)"

section \<open>Dummy runs\<close>

text \<open>
  The exchange of the data parallel ranks, the dispatcher and the thresholds of micro batches are functions of vLLM:
  \<open>coordinate\<close> gives the tokens of the first micro batch, if there are any, and those of the ranks, if there are several.
\<close>

record 'd capture_env =
  ce_coordinate :: "nat \<Rightarrow> bool \<Rightarrow> bool \<Rightarrow> bool \<Rightarrow> nat list \<Rightarrow> nat option \<times> nat list option"
  ce_dispatch :: "nat \<Rightarrow> bool \<Rightarrow> bool \<Rightarrow> graph_mode \<times> 'd"
  ce_no_descriptor :: 'd
  ce_check_ubatch_thresholds :: "nat \<Rightarrow> bool \<Rightarrow> bool"

record 'd dummy_result =
  dr_event :: "'d graph_event"
  dr_args :: dummy_args
  dr_tokens :: "nat list"
  dr_metadata :: "dummy_metadata option"
  dr_num_tokens_forward :: nat
  dr_drafter_graphs :: "bool option"
  dr_eplb_step :: bool
  dr_logit_indices :: "nat list"

definition common_metadata_of :: "dummy_metadata option \<Rightarrow> (infer_mode option \<times> int list) option" where
  "common_metadata_of md = (case md of None \<Rightarrow> None
     | Some m \<Rightarrow> Some (Some (dm_infer_mode m), map int (take (dm_num_reqs m) (dm_seq_lens m))))"

text \<open>The mode and the descriptor of the run: those of the dispatcher, which a wanted mode must match.\<close>

definition dummy_mode :: "'d capture_env \<Rightarrow> capture_config \<Rightarrow> dummy_args \<Rightarrow> nat \<Rightarrow> (graph_mode \<times> 'd) res" where
  "dummy_mode env cfg a padded =
     (let (cg_mode, descriptor) = (if da_is_profile a then (Graph_none, ce_no_descriptor env)
            else ce_dispatch env padded (da_uniform_decode a) (da_activate_lora a \<and> cc_lora_config cfg));
          cg_mode = (if da_is_capturing_prefill a
            then (case da_cudagraph_runtime_mode a of None \<Rightarrow> Graph_none | Some m \<Rightarrow> m) else cg_mode)
      in case da_cudagraph_runtime_mode a of None \<Rightarrow> Inr (cg_mode, descriptor)
         | Some m \<Rightarrow> require (m = Graph_none \<or> m = cg_mode) AssertionError (Inr (m, descriptor)))"

definition dummy_forward ::
  "capture_config \<Rightarrow> bool \<Rightarrow> dummy_args \<Rightarrow> nat list \<Rightarrow> dummy_metadata option \<Rightarrow> nat \<Rightarrow> graph_mode \<Rightarrow> 'd \<Rightarrow> 'd wrapper
    \<Rightarrow> ('d dummy_result \<times> 'd wrapper) res" where
  "dummy_forward cfg capturing_enabled a tokens md forward_tokens mode descriptor w =
     require (\<not> cc_deepseek_v4 cfg \<or> cc_kv_state_free_slots cfg \<noteq> []) AssertionError
     (bind_res (graph_call Graph_full capturing_enabled
         \<lparr>gx_descriptor = descriptor, gx_runtime_mode = mode, gx_common_metadata = common_metadata_of md\<rparr>
         \<lparr>ga_is_capturing_prefill = da_is_capturing_prefill a, ga_prefill_enable_mlugraph = False,
          ga_prefill_batch_size = da_prefill_batch_size a, ga_prefill_seq_len = int (da_prefill_seq_len a),
          ga_is_running_drafter = False\<rparr> w) (\<lambda>(event, w).
      Inr (\<lparr>dr_event = event, dr_args = a, dr_tokens = tokens, dr_metadata = md, dr_num_tokens_forward = forward_tokens,
            dr_drafter_graphs = (if cc_uses_eagle cfg
              then Some (mode = Graph_full \<and> \<not> cc_spec_enforce_eager cfg \<and> \<not> (cc_specialize_lora cfg \<and> da_activate_lora a)) else None),
            dr_eplb_step = (\<not> da_skip_eplb a), dr_logit_indices = map (\<lambda>c. c - 1) (accumulate tokens)\<rparr>, w)))"

definition dummy_run ::
  "'d capture_env \<Rightarrow> capture_config \<Rightarrow> bool \<Rightarrow> dummy_args \<Rightarrow> 'd wrapper \<Rightarrow> ('d dummy_result \<times> 'd wrapper) res" where
  "dummy_run env cfg capturing_enabled a w =
     bind_res (dummy_batch cfg a) (\<lambda>(max_query_len, num_reqs, tokens).
     let (ubatch, across) = ce_coordinate env (da_num_tokens a) (da_allow_microbatching a) (cc_graphs_enabled cfg) (da_uniform_decode a) tokens
     in bind_res (case across of None \<Rightarrow> Inr (da_num_tokens a) | Some ts \<Rightarrow> nth_res ts (cc_dp_rank cfg)) (\<lambda>padded.
        bind_res (if da_force_attention a \<or> da_cudagraph_runtime_mode a = Some Graph_full
                  then bind_res (dummy_attention cfg a max_query_len num_reqs tokens) (\<lambda>m. Inr (Some m)) else Inr None) (\<lambda>md.
        require (padded \<le> cc_max_num_tokens cfg) AssertionError
       (bind_res (dummy_mode env cfg a padded) (\<lambda>(mode, descriptor).
        dummy_forward cfg capturing_enabled a tokens md (case ubatch of None \<Rightarrow> padded | Some n \<Rightarrow> n) mode descriptor w)))))"

section \<open>Capturing\<close>

text \<open>All dummy runs of a list, with the wrapper they leave.\<close>

definition dummy_runs ::
  "'d capture_env \<Rightarrow> capture_config \<Rightarrow> bool \<Rightarrow> dummy_args list \<Rightarrow> 'd dummy_result list \<times> 'd wrapper \<Rightarrow> ('d dummy_result list \<times> 'd wrapper) res" where
  "dummy_runs env cfg capturing_enabled = fold_res (\<lambda>a (rs, w). bind_res (dummy_run env cfg capturing_enabled a w) (\<lambda>(r, w). Inr (rs @ [r], w)))"

definition capture_cudagraphs ::
  "'d capture_env \<Rightarrow> capture_config \<Rightarrow> bool \<Rightarrow> bool \<Rightarrow> nat \<Rightarrow> nat \<Rightarrow> (nat \<times> bool) list \<Rightarrow> graph_mode \<Rightarrow> bool
    \<Rightarrow> 'd dummy_result list \<times> 'd wrapper \<Rightarrow> ('d dummy_result list \<times> 'd wrapper) res" where
  "capture_cudagraphs env cfg capturing_enabled is_capturing_prefill prefill_batch_size prefill_seq_len compilation_cases mode uniform_decode st =
     require (mode \<noteq> Graph_none) AssertionError
     (fold_res (\<lambda>(num_tokens, activate_lora) st.
        let allow_microbatching = (cc_enable_dbo cfg \<and> mode = Graph_full \<and> uniform_decode \<and> ce_check_ubatch_thresholds env num_tokens uniform_decode);
            args = (\<lambda>m force. \<lparr>da_num_tokens = num_tokens, da_is_capturing_prefill = is_capturing_prefill,
              da_prefill_batch_size = prefill_batch_size, da_prefill_seq_len = prefill_seq_len, da_cudagraph_runtime_mode = Some m,
              da_force_attention = force, da_uniform_decode = uniform_decode, da_allow_microbatching = allow_microbatching, da_skip_eplb = True,
              da_is_profile = False, da_create_mixed_batch = False, da_activate_lora = activate_lora\<rparr>)
        in dummy_runs env cfg capturing_enabled
             (replicate (cc_num_of_warmups cfg) (args Graph_none (mode = Graph_full)) @ [args mode False]) st) compilation_cases st)"

definition lora_cases :: "capture_config \<Rightarrow> bool list" where
  "lora_cases cfg = (if cc_lora_config cfg then if cc_specialize_lora cfg then [True, False] else [True] else [False])"

definition decode_capture_sizes :: "capture_config \<Rightarrow> nat list \<Rightarrow> nat list" where
  "decode_capture_sizes cfg sizes =
     (let max_num_tokens = cc_max_num_seqs cfg * cc_uniform_decode_query_len cfg
      in filter (\<lambda>x. x \<le> max_num_tokens \<and> cc_uniform_decode_query_len cfg \<le> x) sizes)"

definition capture_model :: "'d capture_env \<Rightarrow> capture_config \<Rightarrow> 'd wrapper \<Rightarrow> ('d dummy_result list \<times> 'd wrapper) res" where
  "capture_model env cfg w =
     (if \<not> cc_graphs_enabled cfg then Inr ([], w)
      else bind_res
        (if cc_prefill_enable_mlugraph cfg
         then let num_tokens = cc_prefill_batch_size cfg * cc_prefill_seq_len cfg in
           require (num_tokens \<le> cc_max_num_batched_tokens cfg) AssertionError
          (require (cc_prefill_batch_size cfg \<le> cc_max_num_seqs cfg) AssertionError
          (capture_cudagraphs env cfg True True (cc_prefill_batch_size cfg) (cc_prefill_seq_len cfg)
             (List.product [num_tokens] (lora_cases cfg)) Graph_full False ([], w)))
         else Inr ([], w)) (\<lambda>st.
        bind_res
        (if cc_mixed_mode cfg \<noteq> Graph_none
         then (case cc_cudagraph_batch_sizes cfg of None \<Rightarrow> Inl AttributeError
           | Some sizes \<Rightarrow> capture_cudagraphs env cfg True False 0 0 (List.product (rev sizes) (lora_cases cfg)) (cc_mixed_mode cfg) False st)
         else Inr st) (\<lambda>st.
        case cc_cudagraph_batch_sizes cfg of None \<Rightarrow> Inr st
        | Some sizes \<Rightarrow>
            if cc_decode_mode cfg = Graph_full \<and> cc_separate_routine cfg
            then capture_cudagraphs env cfg True False 0 0 (List.product (rev (decode_capture_sizes cfg sizes)) (lora_cases cfg)) Graph_full True st
            else Inr st)))"

section \<open>Dummy batches divide their tokens\<close>

lemma dummy_split_reqs:
  assumes "dummy_split cfg a = Inr (max_query_len, num_reqs, tokens)" "0 < cc_max_num_seqs cfg"
  shows "num_reqs \<le> cc_max_num_seqs cfg"
proof (cases "da_create_mixed_batch a")
  case True
  then have "num_reqs = min (cc_max_num_seqs cfg - 1) (da_num_tokens a div 2) + 1"
    using assms(1) by (auto simp: dummy_split_def Let_def require_eq_Inr)
  then show ?thesis using assms(2) by linarith
next
  case False
  then show ?thesis using assms
    by (cases "da_uniform_decode a") (auto simp: dummy_split_def Let_def bind_res_eq_Inr split: if_splits)
qed

lemma dummy_batch_sums:
  assumes "dummy_batch cfg a = Inr (max_query_len, num_reqs, tokens)" "0 < cc_max_num_seqs cfg"
  shows "sum_list tokens = da_num_tokens a \<and> length tokens = num_reqs \<and> num_reqs \<le> cc_max_num_seqs cfg"
proof -
  have "dummy_split cfg a = Inr (max_query_len, num_reqs, tokens)" "sum_list tokens = da_num_tokens a" "length tokens = num_reqs"
    using assms(1) by (auto simp: dummy_batch_def bind_res_eq_Inr require_eq_Inr)
  then show ?thesis using dummy_split_reqs assms(2) by blast
qed

lemma uniform_batch:
  assumes "da_uniform_decode a" "\<not> da_create_mixed_batch a" "da_num_tokens a \<le> cc_max_num_batched_tokens cfg" "0 < cc_uniform_decode_query_len cfg"
    and "0 < da_num_tokens a" "da_num_tokens a \<le> cc_max_num_seqs cfg * cc_uniform_decode_query_len cfg"
  shows "\<exists>num_reqs tokens. dummy_batch cfg a = Inr (cc_uniform_decode_query_len cfg, num_reqs, tokens) \<and> 0 < num_reqs
    \<and> (\<forall>t\<in>set tokens. 0 < t \<and> t \<le> cc_uniform_decode_query_len cfg)"
proof -
  let ?q = "cc_uniform_decode_query_len cfg" and ?n = "da_num_tokens a"
  define m where "m = ?n div ?q"
  define r where "r = ?n mod ?q"
  have n: "?n = m * ?q + r" "r < ?q" using assms(4) by (simp_all add: m_def r_def)
  have reqs: "(?n + ?q - 1) div ?q = (if r = 0 then m else Suc m)"
  proof (cases "r = 0")
    case True
    then have "?n + ?q - 1 = (?q - 1) + m * ?q" using n assms(4) by simp
    moreover have "((?q - 1) + m * ?q) div ?q = m" using assms(4) by (subst div_mult_self1) simp_all
    ultimately show ?thesis using True by simp
  next
    case False
    then have "?n + ?q - 1 = (r - 1) + (Suc m) * ?q" using n by simp
    moreover have "((r - 1) + (Suc m) * ?q) div ?q = Suc m" using n(2) assms(4) by (subst div_mult_self1) simp_all
    ultimately show ?thesis using False by (simp only: if_False)
  qed
  have le: "(if r = 0 then m else Suc m) \<le> cc_max_num_seqs cfg"
  proof (rule ccontr)
    assume "\<not> (if r = 0 then m else Suc m) \<le> cc_max_num_seqs cfg"
    then have "cc_max_num_seqs cfg < m \<or> (r \<noteq> 0 \<and> cc_max_num_seqs cfg \<le> m)" by (auto split: if_splits)
    then show False
    proof
      assume "cc_max_num_seqs cfg < m"
      then have "cc_max_num_seqs cfg * ?q < m * ?q" using assms(4) by simp
      then show False using assms(6) n(1) by linarith
    next
      assume "r \<noteq> 0 \<and> cc_max_num_seqs cfg \<le> m"
      then have "0 < r" "cc_max_num_seqs cfg * ?q \<le> m * ?q" by (simp_all add: mult_right_mono)
      then show False using assms(6) n(1) by linarith
    qed
  qed
  show ?thesis
  proof (cases "r = 0")
    case True
    then have "0 < m" using n assms(5) by (cases m) simp_all
    moreover have "dummy_batch cfg a = Inr (?q, m, replicate m ?q)"
    proof -
      have "min (cc_max_num_seqs cfg) ((?n + ?q - 1) div ?q) = m" "?n mod ?q = 0" "m * ?q = ?n"
        using reqs le n(1) True unfolding if_P[OF True] r_def[symmetric]
        by (simp_all only: if_P[OF True] min_absorb2 add_0_right)
      then show ?thesis using assms(1-4) by (simp add: dummy_batch_def dummy_split_def ceil_div_res_def sum_list_replicate Let_def)
    qed
    ultimately show ?thesis using assms(4) by auto
  next
    case False
    have rep: "(replicate (Suc m) ?q)[m := r] = replicate m ?q @ [r]"
      by (simp add: replicate_append_same[symmetric] list_update_append)
    have "dummy_batch cfg a = Inr (?q, Suc m, replicate m ?q @ [r])"
    proof -
      have "min (cc_max_num_seqs cfg) ((?n + ?q - 1) div ?q) = Suc m" "?n mod ?q = r" "m * ?q + r = ?n"
        using reqs le False by (simp add: min_absorb2, simp add: r_def, simp add: n(1)[symmetric])
      then show ?thesis using assms(1-4) False rep
        by (simp add: dummy_batch_def dummy_split_def ceil_div_res_def sum_list_replicate Let_def del: replicate_Suc)
    qed
    then show ?thesis using False n(2) assms(4) by auto
  qed
qed

lemma mixed_batch:
  assumes "\<not> da_uniform_decode a" "\<not> da_create_mixed_batch a" "da_num_tokens a \<le> cc_max_num_batched_tokens cfg" "0 < cc_max_num_seqs cfg" "0 < da_num_tokens a"
  shows "\<exists>num_reqs tokens. dummy_batch cfg a = Inr (da_num_tokens a, num_reqs, tokens) \<and> 0 < num_reqs"
proof -
  let ?n = "da_num_tokens a"
  define k where "k = min ?n (cc_max_num_seqs cfg)"
  obtain k' where k': "k = Suc k'" using assms(4,5) by (cases k) (simp_all add: k_def)
  have rep: "(replicate k (?n div k))[k - 1 := replicate k (?n div k) ! (k - 1) + ?n mod k] = replicate k' (?n div k) @ [?n div k + ?n mod k]"
    unfolding k' by (simp add: replicate_append_same[symmetric] list_update_append nth_append)
  have "k' * (?n div k) + (?n div k + ?n mod k) = ?n" using mult_div_mod_eq[of k ?n] by (simp add: k')
  then have "dummy_batch cfg a = Inr (?n, k, replicate k' (?n div k) @ [?n div k + ?n mod k])"
    using assms(1-3) rep k' by (simp add: dummy_batch_def dummy_split_def Let_def k_def[symmetric] sum_list_replicate)
  then show ?thesis using k' by blast
qed

section \<open>Calls of the wrapper while capturing\<close>

definition has_graph :: "'d wrapper \<Rightarrow> 'd \<Rightarrow> bool" where
  "has_graph w d \<longleftrightarrow> (\<exists>g. dict_get (gw_entries w) d = Some (Some g))"

definition entries_ok :: "'d wrapper \<Rightarrow> bool" where
  "entries_ok w \<longleftrightarrow> (\<forall>d g. dict_get (gw_entries w) d = Some (Some g) \<longrightarrow> \<not> cp_is_prefill g \<and> cp_descriptor g = d)"

text \<open>A later wrapper keeps the graphs of an earlier one.\<close>

definition keeps_graphs :: "'d wrapper \<Rightarrow> 'd wrapper \<Rightarrow> bool" where
  "keeps_graphs w w' \<longleftrightarrow> entries_ok w' \<and> (\<forall>d. has_graph w d \<longrightarrow> has_graph w' d)"

lemma keeps_graphs_refl: "entries_ok w \<Longrightarrow> keeps_graphs w w"
  by (simp add: keeps_graphs_def)

lemma keeps_graphs_trans: "keeps_graphs w1 w2 \<Longrightarrow> keeps_graphs w2 w3 \<Longrightarrow> keeps_graphs w1 w3"
  by (simp add: keeps_graphs_def)

lemma graph_call_enabled:
  assumes "\<not> ga_prefill_enable_mlugraph a" "entries_ok w"
  shows "\<exists>e w'. graph_call Graph_full True ctx a w = Inr (e, w') \<and> keeps_graphs w w'
    \<and> (gx_runtime_mode ctx = Graph_full \<and> \<not> ga_is_capturing_prefill a \<longrightarrow> has_graph w' (gx_descriptor ctx))"
proof (cases "gx_runtime_mode ctx = Graph_full")
  case False
  then show ?thesis using assms(2) by (simp add: graph_call_def keeps_graphs_refl)
next
  case full: True
  show ?thesis
  proof (cases "ga_is_capturing_prefill a")
    case True
    then show ?thesis using full assms(2)
      by (simp add: graph_call_def new_entry_def Let_def keeps_graphs_def has_graph_def entries_ok_def)
  next
    case False
    let ?d = "gx_descriptor ctx" and ?w = "new_entry ctx a w"
    have same: "dict_get (gw_entries ?w) d = Some (Some g) \<longleftrightarrow> dict_get (gw_entries w) d = Some (Some g)" for d g
      by (rule new_entry_entries)
    have "?d \<in> set (dict_keys (gw_entries ?w))" using False by (simp add: new_entry_def)
    then obtain entry where entry: "dict_get (gw_entries ?w) ?d = Some entry" by (metis map_of_eq_None_iff not_None_eq list.set_map)
    show ?thesis
    proof (cases entry)
      case None
      let ?g = "\<lparr>cp_is_prefill = False, cp_descriptor = ?d, cp_batch_size = 0, cp_seq_len = 0\<rparr>"
      let ?w' = "?w\<lparr>gw_entries := dict_set ?d (Some ?g) (gw_entries ?w)\<rparr>"
      have "graph_call Graph_full True ctx a w = Inr (Captured ?g, ?w')"
        using full False assms(1) entry None by (simp add: graph_call_def Let_def dict_at_def)
      moreover have "keeps_graphs w ?w'" "has_graph ?w' ?d"
        using assms(2) by (auto simp: keeps_graphs_def has_graph_def entries_ok_def same)
      ultimately show ?thesis by blast
    next
      case (Some g)
      have "graph_call Graph_full True ctx a w = Inr (Replayed g, ?w)"
        using full False assms(1) entry Some by (simp add: graph_call_def Let_def dict_at_def)
      moreover have "keeps_graphs w ?w" "has_graph ?w ?d"
        using assms(2) entry Some by (auto simp: keeps_graphs_def has_graph_def entries_ok_def same)
      ultimately show ?thesis by blast
    qed
  qed
qed

lemma captured_is_replayed:
  assumes "has_graph w (gx_descriptor ctx)" "entries_ok w" "gx_runtime_mode ctx = Graph_full" "\<not> ga_is_capturing_prefill a"
    and "gx_common_metadata ctx = Some (Some DECODE_ONLY, lens)"
  shows "\<exists>g. graph_call Graph_full enabled ctx a w = Inr (Replayed g, w) \<and> cp_descriptor g = gx_descriptor ctx \<and> \<not> cp_is_prefill g"
proof -
  obtain g where g: "dict_get (gw_entries w) (gx_descriptor ctx) = Some (Some g)" using assms(1) by (auto simp: has_graph_def)
  then have "gx_descriptor ctx \<in> set (dict_keys (gw_entries w))" by (metis map_of_eq_None_iff option.distinct(1) list.set_map)
  then have "new_entry ctx a w = w" using assms(4) by (simp add: new_entry_def)
  moreover have "\<not> is_running_in_prefill ctx (gw_prefill_entry w)" using assms(5) by (simp add: is_running_in_prefill_def split: option.splits)
  ultimately have "graph_call Graph_full enabled ctx a w = Inr (Replayed g, w)"
    using assms(3,4) g by (simp add: graph_call_def Let_def dict_at_def)
  then show ?thesis using assms(2) g by (auto simp: entries_ok_def)
qed

section \<open>Dummy runs that capture\<close>

text \<open>One rank, and a runner that is ready for dummy runs.\<close>

definition single_rank :: "'d capture_env \<Rightarrow> bool" where
  "single_rank env \<longleftrightarrow> (\<forall>n m p u ts. ce_coordinate env n m p u ts = (None, None))"

definition runner_ready :: "capture_config \<Rightarrow> bool" where
  "runner_ready cfg \<longleftrightarrow> 0 < cc_max_num_seqs cfg \<and> 0 < cc_uniform_decode_query_len cfg \<and> cc_num_computed_tokens cfg \<noteq> []
     \<and> cc_max_num_batched_tokens cfg \<le> cc_max_num_tokens cfg \<and> (cc_deepseek_v4 cfg \<longrightarrow> cc_kv_state_free_slots cfg \<noteq> [])"

definition descriptor_of :: "'d capture_env \<Rightarrow> capture_config \<Rightarrow> nat \<Rightarrow> bool \<Rightarrow> bool \<Rightarrow> 'd" where
  "descriptor_of env cfg n uniform lora = snd (ce_dispatch env n uniform (lora \<and> cc_lora_config cfg))"

definition dispatches :: "'d capture_env \<Rightarrow> capture_config \<Rightarrow> nat \<Rightarrow> bool \<Rightarrow> bool \<Rightarrow> graph_mode \<Rightarrow> bool" where
  "dispatches env cfg n uniform lora m \<longleftrightarrow> fst (ce_dispatch env n uniform (lora \<and> cc_lora_config cfg)) = m"

definition result_ok :: "capture_config \<Rightarrow> 'd dummy_result \<Rightarrow> bool" where
  "result_ok cfg r \<longleftrightarrow> sum_list (dr_tokens r) = da_num_tokens (dr_args r) \<and> length (dr_tokens r) \<le> cc_max_num_seqs cfg
     \<and> (da_uniform_decode (dr_args r) \<longrightarrow> (\<forall>t\<in>set (dr_tokens r). 0 < t \<and> t \<le> cc_uniform_decode_query_len cfg))"

lemma dummy_run_captures:
  assumes env: "single_rank env" "runner_ready cfg" and w: "entries_ok w"
    and a: "\<not> da_create_mixed_batch a" "\<not> da_is_profile a" "0 < da_num_tokens a" "da_num_tokens a \<le> cc_max_num_batched_tokens cfg"
      "da_uniform_decode a \<longrightarrow> da_num_tokens a \<le> cc_max_num_seqs cfg * cc_uniform_decode_query_len cfg"
    and mode: "da_cudagraph_runtime_mode a = Some m"
      "m = Graph_none \<or> da_is_capturing_prefill a \<or> dispatches env cfg (da_num_tokens a) (da_uniform_decode a) (da_activate_lora a) m"
  shows "\<exists>r w'. dummy_run env cfg True a w = Inr (r, w') \<and> keeps_graphs w w' \<and> result_ok cfg r
    \<and> (m = Graph_full \<and> \<not> da_is_capturing_prefill a \<longrightarrow> has_graph w' (descriptor_of env cfg (da_num_tokens a) (da_uniform_decode a) (da_activate_lora a)))"
proof -
  let ?n = "da_num_tokens a"
  have ready: "0 < cc_max_num_seqs cfg" "0 < cc_uniform_decode_query_len cfg" "cc_num_computed_tokens cfg \<noteq> []" "?n \<le> cc_max_num_tokens cfg"
    using env(2) a(4) by (auto simp: runner_ready_def)
  obtain q reqs tokens where batch: "dummy_batch cfg a = Inr (q, reqs, tokens)" "0 < reqs"
      "da_uniform_decode a \<longrightarrow> (\<forall>t\<in>set tokens. 0 < t \<and> t \<le> cc_uniform_decode_query_len cfg)"
    using uniform_batch[of a cfg] mixed_batch[of a cfg] a ready by (cases "da_uniform_decode a") blast+
  have "\<exists>md. dummy_attention cfg a q reqs tokens = Inr md" using batch(2) ready(3) by (simp add: dummy_attention_def Let_def)
  then obtain md where md: "(if da_force_attention a \<or> da_cudagraph_runtime_mode a = Some Graph_full
      then bind_res (dummy_attention cfg a q reqs tokens) (\<lambda>m. Inr (Some m)) else Inr None) = Inr md" by fastforce
  define ctx where "ctx = \<lparr>gx_descriptor = descriptor_of env cfg ?n (da_uniform_decode a) (da_activate_lora a), gx_runtime_mode = m, gx_common_metadata = common_metadata_of md\<rparr>"
  define args where "args = \<lparr>ga_is_capturing_prefill = da_is_capturing_prefill a, ga_prefill_enable_mlugraph = False,
                  ga_prefill_batch_size = da_prefill_batch_size a, ga_prefill_seq_len = int (da_prefill_seq_len a), ga_is_running_drafter = False\<rparr>"
  obtain e w' where call: "graph_call Graph_full True ctx args w = Inr (e, w')" "keeps_graphs w w'"
      "m = Graph_full \<and> \<not> da_is_capturing_prefill a \<longrightarrow> has_graph w' (descriptor_of env cfg ?n (da_uniform_decode a) (da_activate_lora a))"
    using graph_call_enabled[OF _ w, of args ctx] by (auto simp: ctx_def args_def)
  obtain cg d where disp: "ce_dispatch env ?n (da_uniform_decode a) (da_activate_lora a \<and> cc_lora_config cfg) = (cg, d)" by fastforce
  then have d: "descriptor_of env cfg ?n (da_uniform_decode a) (da_activate_lora a) = d" by (simp add: descriptor_of_def)
  have m: "m = Graph_none \<or> m = (if da_is_capturing_prefill a then case da_cudagraph_runtime_mode a of None \<Rightarrow> Graph_none | Some m \<Rightarrow> m else cg)"
    using mode disp by (auto simp: dispatches_def)
  have ds4: "\<not> cc_deepseek_v4 cfg \<or> cc_kv_state_free_slots cfg \<noteq> []" using env(2) by (auto simp: runner_ready_def)
  have "ce_coordinate env ?n (da_allow_microbatching a) (cc_graphs_enabled cfg) (da_uniform_decode a) tokens = (None, None)"
    using env(1) by (simp add: single_rank_def)
  then obtain r where "dummy_run env cfg True a w = Inr (r, w')" "dr_tokens r = tokens" "dr_args r = a"
    using batch(1) md ready(4) a(2) mode(1) m disp ds4 call(1)[unfolded ctx_def args_def d]
    by (simp add: dummy_run_def dummy_mode_def dummy_forward_def Let_def split del: if_split)
  then show ?thesis using call(2,3) batch(3) dummy_batch_sums[OF batch(1) ready(1)] by (auto simp: result_ok_def)
qed

section \<open>Capturing all sizes\<close>

definition run_ready :: "'d capture_env \<Rightarrow> capture_config \<Rightarrow> dummy_args \<Rightarrow> bool" where
  "run_ready env cfg a \<longleftrightarrow> \<not> da_create_mixed_batch a \<and> \<not> da_is_profile a \<and> 0 < da_num_tokens a \<and> da_num_tokens a \<le> cc_max_num_batched_tokens cfg
     \<and> (da_uniform_decode a \<longrightarrow> da_num_tokens a \<le> cc_max_num_seqs cfg * cc_uniform_decode_query_len cfg)
     \<and> (\<exists>m. da_cudagraph_runtime_mode a = Some m \<and> (m = Graph_none \<or> da_is_capturing_prefill a
          \<or> dispatches env cfg (da_num_tokens a) (da_uniform_decode a) (da_activate_lora a) m))"

lemma dummy_runs_capture:
  assumes env: "single_rank env" "runner_ready cfg" and "\<forall>a\<in>set as. run_ready env cfg a" "entries_ok w"
  shows "\<exists>rs' w'. dummy_runs env cfg True as (rs, w) = Inr (rs @ rs', w') \<and> keeps_graphs w w' \<and> (\<forall>r\<in>set rs'. result_ok cfg r)
    \<and> (\<forall>a\<in>set as. da_cudagraph_runtime_mode a = Some Graph_full \<and> \<not> da_is_capturing_prefill a
         \<longrightarrow> has_graph w' (descriptor_of env cfg (da_num_tokens a) (da_uniform_decode a) (da_activate_lora a)))"
  using assms(3,4)
proof (induction as arbitrary: rs w)
  case Nil
  then show ?case by (simp add: dummy_runs_def keeps_graphs_refl)
next
  case (Cons a as)
  obtain m where m: "da_cudagraph_runtime_mode a = Some m" "m = Graph_none \<or> da_is_capturing_prefill a
      \<or> dispatches env cfg (da_num_tokens a) (da_uniform_decode a) (da_activate_lora a) m"
    using Cons.prems(1) by (auto simp: run_ready_def)
  obtain r w1 where r: "dummy_run env cfg True a w = Inr (r, w1)" "keeps_graphs w w1" "result_ok cfg r"
      "m = Graph_full \<and> \<not> da_is_capturing_prefill a \<longrightarrow> has_graph w1 (descriptor_of env cfg (da_num_tokens a) (da_uniform_decode a) (da_activate_lora a))"
    using dummy_run_captures[OF env Cons.prems(2) _ _ _ _ _ m] Cons.prems(1) by (auto simp: run_ready_def)
  have "entries_ok w1" using r(2) by (simp add: keeps_graphs_def)
  then obtain rs' w' where rest: "dummy_runs env cfg True as (rs @ [r], w1) = Inr ((rs @ [r]) @ rs', w')" "keeps_graphs w1 w'" "\<forall>r\<in>set rs'. result_ok cfg r"
      "\<forall>a\<in>set as. da_cudagraph_runtime_mode a = Some Graph_full \<and> \<not> da_is_capturing_prefill a
         \<longrightarrow> has_graph w' (descriptor_of env cfg (da_num_tokens a) (da_uniform_decode a) (da_activate_lora a))"
    using Cons.IH[of w1 "rs @ [r]"] Cons.prems(1) by auto
  have "dummy_runs env cfg True (a # as) (rs, w) = Inr (rs @ (r # rs'), w')"
    using r(1) rest(1) by (simp add: dummy_runs_def)
  moreover have "keeps_graphs w w'" by (rule keeps_graphs_trans[OF r(2) rest(2)])
  moreover have "\<forall>r\<in>set (r # rs'). result_ok cfg r" using r(3) rest(3) by simp
  ultimately show ?case using r(4) rest(2,4) m(1) unfolding keeps_graphs_def by (intro exI conjI) (assumption | simp)+
qed

lemma capture_cudagraphs_captures:
  assumes env: "single_rank env" "runner_ready cfg" and mode: "mode \<noteq> Graph_none"
    and "\<forall>(n, l)\<in>set cases. 0 < n \<and> n \<le> cc_max_num_batched_tokens cfg
         \<and> (uniform \<longrightarrow> n \<le> cc_max_num_seqs cfg * cc_uniform_decode_query_len cfg) \<and> (prefill \<or> dispatches env cfg n uniform l mode)" "entries_ok w"
  shows "\<exists>rs' w'. capture_cudagraphs env cfg True prefill batch len cases mode uniform (rs, w) = Inr (rs @ rs', w') \<and> keeps_graphs w w'
    \<and> (\<forall>r\<in>set rs'. result_ok cfg r) \<and> (mode = Graph_full \<and> \<not> prefill \<longrightarrow> (\<forall>(n, l)\<in>set cases. has_graph w' (descriptor_of env cfg n uniform l)))"
  using assms(4,5)
proof (induction cases arbitrary: rs w)
  case Nil
  then show ?case using mode by (simp add: capture_cudagraphs_def keeps_graphs_refl)
next
  case (Cons c cases)
  obtain n l where c: "c = (n, l)" by (cases c)
  define args where "args m force = \<lparr>da_num_tokens = n, da_is_capturing_prefill = prefill,
              da_prefill_batch_size = batch, da_prefill_seq_len = len, da_cudagraph_runtime_mode = Some m,
              da_force_attention = force, da_uniform_decode = uniform,
              da_allow_microbatching = cc_enable_dbo cfg \<and> mode = Graph_full \<and> uniform \<and> ce_check_ubatch_thresholds env n uniform,
              da_skip_eplb = True, da_is_profile = False, da_create_mixed_batch = False, da_activate_lora = l\<rparr>" for m force
  let ?as = "replicate (cc_num_of_warmups cfg) (args Graph_none (mode = Graph_full)) @ [args mode False]"
  have "\<forall>a\<in>set ?as. run_ready env cfg a" using Cons.prems(1) c by (auto simp: run_ready_def args_def)
  then obtain rs1 w1 where one: "dummy_runs env cfg True ?as (rs, w) = Inr (rs @ rs1, w1)" "keeps_graphs w w1" "\<forall>r\<in>set rs1. result_ok cfg r"
      "\<forall>a\<in>set ?as. da_cudagraph_runtime_mode a = Some Graph_full \<and> \<not> da_is_capturing_prefill a
         \<longrightarrow> has_graph w1 (descriptor_of env cfg (da_num_tokens a) (da_uniform_decode a) (da_activate_lora a))"
    using dummy_runs_capture[OF env _ Cons.prems(2)] by blast
  have "entries_ok w1" using one(2) by (simp add: keeps_graphs_def)
  then obtain rs2 w' where rest: "capture_cudagraphs env cfg True prefill batch len cases mode uniform (rs @ rs1, w1) = Inr ((rs @ rs1) @ rs2, w')"
      "keeps_graphs w1 w'" "\<forall>r\<in>set rs2. result_ok cfg r" "mode = Graph_full \<and> \<not> prefill \<longrightarrow> (\<forall>(n, l)\<in>set cases. has_graph w' (descriptor_of env cfg n uniform l))"
    using Cons.IH[of w1 "rs @ rs1"] Cons.prems(1) by auto
  have "capture_cudagraphs env cfg True prefill batch len (c # cases) mode uniform (rs, w) = Inr (rs @ (rs1 @ rs2), w')"
    using one(1) rest(1) mode c unfolding args_def by (simp add: capture_cudagraphs_def Let_def)
  moreover have "keeps_graphs w w'" by (rule keeps_graphs_trans[OF one(2) rest(2)])
  moreover have "\<forall>r\<in>set (rs1 @ rs2). result_ok cfg r" using one(3) rest(3) by auto
  moreover have "has_graph w1 (descriptor_of env cfg n uniform l)" if "mode = Graph_full" "\<not> prefill"
    using one(4)[rule_format, of "args mode False"] that by (simp add: args_def)
  then have "mode = Graph_full \<and> \<not> prefill \<longrightarrow> (\<forall>(n, l)\<in>set (c # cases). has_graph w' (descriptor_of env cfg n uniform l))"
    using rest(2,4) c unfolding keeps_graphs_def by simp
  ultimately show ?case by blast
qed

text \<open>The sizes fit the runner, and the dispatcher knows the graphs that are to be captured.\<close>

definition capture_ready :: "'d capture_env \<Rightarrow> capture_config \<Rightarrow> nat list \<Rightarrow> bool" where
  "capture_ready env cfg sizes \<longleftrightarrow> cc_cudagraph_batch_sizes cfg = Some sizes \<and> (\<forall>n\<in>set sizes. 0 < n \<and> n \<le> cc_max_num_batched_tokens cfg)
     \<and> (\<forall>n\<in>set (decode_capture_sizes cfg sizes). \<forall>l. dispatches env cfg n True l Graph_full)
     \<and> (cc_mixed_mode cfg \<noteq> Graph_none \<longrightarrow> (\<forall>n\<in>set sizes. \<forall>l. dispatches env cfg n False l (cc_mixed_mode cfg)))
     \<and> (cc_prefill_enable_mlugraph cfg \<longrightarrow> 0 < cc_prefill_batch_size cfg * cc_prefill_seq_len cfg
          \<and> cc_prefill_batch_size cfg * cc_prefill_seq_len cfg \<le> cc_max_num_batched_tokens cfg \<and> cc_prefill_batch_size cfg \<le> cc_max_num_seqs cfg)"

lemma capture_model_captures:
  assumes env: "single_rank env" "runner_ready cfg" and ready: "capture_ready env cfg sizes" "entries_ok w"
    and on: "cc_graphs_enabled cfg" "cc_decode_mode cfg = Graph_full" "cc_separate_routine cfg"
  shows "\<exists>rs w'. capture_model env cfg w = Inr (rs, w') \<and> entries_ok w' \<and> (\<forall>r\<in>set rs. result_ok cfg r)
    \<and> (\<forall>n\<in>set (decode_capture_sizes cfg sizes). \<forall>l\<in>set (lora_cases cfg). has_graph w' (descriptor_of env cfg n True l))"
proof -
  let ?prod = "\<lambda>ns. List.product ns (lora_cases cfg)"
  have sizes: "cc_cudagraph_batch_sizes cfg = Some sizes" "\<forall>n\<in>set sizes. 0 < n \<and> n \<le> cc_max_num_batched_tokens cfg"
    using ready(1) by (simp_all add: capture_ready_def)
  obtain rs1 w1 where one: "(if cc_prefill_enable_mlugraph cfg
         then let num_tokens = cc_prefill_batch_size cfg * cc_prefill_seq_len cfg in
           require (num_tokens \<le> cc_max_num_batched_tokens cfg) AssertionError
          (require (cc_prefill_batch_size cfg \<le> cc_max_num_seqs cfg) AssertionError
          (capture_cudagraphs env cfg True True (cc_prefill_batch_size cfg) (cc_prefill_seq_len cfg)
             (?prod [num_tokens]) Graph_full False ([], w)))
         else Inr ([], w)) = Inr (rs1, w1)" "keeps_graphs w w1" "\<forall>r\<in>set rs1. result_ok cfg r"
  proof (cases "cc_prefill_enable_mlugraph cfg")
    case True
    then show ?thesis
      using capture_cudagraphs_captures[OF env, of Graph_full "?prod [cc_prefill_batch_size cfg * cc_prefill_seq_len cfg]" False True w
          "cc_prefill_batch_size cfg" "cc_prefill_seq_len cfg" "[]"] ready that by (auto simp: capture_ready_def Let_def)
  qed (use that keeps_graphs_refl[OF ready(2)] in auto)
  obtain rs2 w2 where two: "(if cc_mixed_mode cfg \<noteq> Graph_none
         then (case cc_cudagraph_batch_sizes cfg of None \<Rightarrow> Inl AttributeError
           | Some sizes \<Rightarrow> capture_cudagraphs env cfg True False 0 0 (?prod (rev sizes)) (cc_mixed_mode cfg) False (rs1, w1))
         else Inr (rs1, w1)) = Inr (rs2, w2)" "keeps_graphs w1 w2" "\<forall>r\<in>set rs2. result_ok cfg r"
  proof (cases "cc_mixed_mode cfg = Graph_none")
    case False
    obtain rs' w2 where "capture_cudagraphs env cfg True False 0 0 (?prod (rev sizes)) (cc_mixed_mode cfg) False (rs1, w1) = Inr (rs1 @ rs', w2)"
        "keeps_graphs w1 w2" "\<forall>r\<in>set rs'. result_ok cfg r"
      using capture_cudagraphs_captures[OF env False, of "?prod (rev sizes)" False False w1 0 0 rs1] ready(1) sizes False one(2)
      by (auto simp: capture_ready_def keeps_graphs_def)
    then show ?thesis using False one(3) sizes(1) by (intro that[of "rs1 @ rs'" w2]) auto
  qed (use that[of rs1 w1] one(2,3) in \<open>auto simp: keeps_graphs_def\<close>)
  have decode: "\<forall>n\<in>set (decode_capture_sizes cfg sizes). n \<in> set sizes \<and> n \<le> cc_max_num_seqs cfg * cc_uniform_decode_query_len cfg"
    by (simp add: decode_capture_sizes_def Let_def)
  obtain rs' w3 where three: "capture_cudagraphs env cfg True False 0 0 (?prod (rev (decode_capture_sizes cfg sizes))) Graph_full True (rs2, w2) = Inr (rs2 @ rs', w3)"
      "keeps_graphs w2 w3" "\<forall>r\<in>set rs'. result_ok cfg r" "\<forall>(n, l)\<in>set (?prod (rev (decode_capture_sizes cfg sizes))). has_graph w3 (descriptor_of env cfg n True l)"
    using capture_cudagraphs_captures[OF env, of Graph_full "?prod (rev (decode_capture_sizes cfg sizes))" True False w2 0 0 rs2] ready(1) sizes decode two(2)
    by (auto simp: capture_ready_def keeps_graphs_def)
  have "capture_model env cfg w = Inr (rs2 @ rs', w3)"
    unfolding capture_model_def one(1) bind_res_simps two(1) using on sizes(1) three(1) by simp
  then show ?thesis using two(3) three by (auto simp: keeps_graphs_def)
qed

section \<open>Properties\<close>

text \<open>The configuration of a step is that of the runner that captured.\<close>

definition same_runner :: "exec_graph_config \<Rightarrow> capture_config \<Rightarrow> bool" where
  "same_runner gcfg cfg \<longleftrightarrow> gc_cudagraph_batch_sizes gcfg = cc_cudagraph_batch_sizes cfg \<and> gc_graphs_enabled gcfg = cc_graphs_enabled cfg
     \<and> gc_max_num_seqs gcfg = cc_max_num_seqs cfg \<and> gc_uniform_decode_query_len gcfg = cc_uniform_decode_query_len cfg"

text \<open>
  C20. capturing the model ends, with dummy batches whose requests hold exactly the tokens of the size and at most the tokens of
  a decode; afterwards, with capturing disabled, every step of decodes for which the runner decides for a graph replays the
  graph of its padded size.
\<close>

theorem captured_decodes_replay:
  assumes env: "single_rank env" "runner_ready cfg" "capture_ready env cfg (sort capture_sizes)"
    and on: "cc_graphs_enabled cfg" "cc_decode_mode cfg = Graph_full" "cc_separate_routine cfg"
    and gcfg: "same_runner gcfg cfg" "capture_sizes \<noteq> []" "cc_uniform_decode_query_len cfg = 1 + num_spec_of gcfg"
    and pad: "\<And>n s. s \<in> set capture_sizes \<Longrightarrow> n \<le> s \<Longrightarrow>
        pad_for_cudagraph n \<in> set capture_sizes \<and> n \<le> pad_for_cudagraph n \<and> pad_for_cudagraph n \<le> s"
  shows "\<exists>rs w. capture_model env cfg \<lparr>gw_prefill_entry = None, gw_entries = []\<rparr> = Inr (rs, w)
    \<and> (\<forall>r\<in>set rs. sum_list (dr_tokens r) = da_num_tokens (dr_args r) \<and> length (dr_tokens r) \<le> cc_max_num_seqs cfg
         \<and> (da_uniform_decode (dr_args r) \<longrightarrow> (\<forall>t\<in>set (dr_tokens r). 0 < t \<and> t \<le> cc_uniform_decode_query_len cfg)))
    \<and> (\<forall>tokens ubatch dp dp_rank n l ctx a lens. tokens \<noteq> [] \<and> l \<in> set (lora_cases cfg)
         \<and> padding_decision pad_for_cudagraph gcfg DECODE_ONLY (length tokens) tokens (sum_list tokens) ubatch dp dp_rank = Inr (Some True, n)
         \<and> gx_descriptor ctx = descriptor_of env cfg n True l \<and> gx_runtime_mode ctx = Graph_full
         \<and> gx_common_metadata ctx = Some (Some DECODE_ONLY, lens) \<and> \<not> ga_is_capturing_prefill a
       \<longrightarrow> (\<exists>g. graph_call Graph_full False ctx a w = Inr (Replayed g, w) \<and> cp_descriptor g = gx_descriptor ctx \<and> \<not> cp_is_prefill g))"
proof -
  let ?w = "\<lparr>gw_prefill_entry = None, gw_entries = []\<rparr>"
  have "entries_ok ?w" by (simp add: entries_ok_def)
  then obtain rs w where cap: "capture_model env cfg ?w = Inr (rs, w)" "entries_ok w" "\<forall>r\<in>set rs. result_ok cfg r"
      "\<forall>n\<in>set (decode_capture_sizes cfg (sort capture_sizes)). \<forall>l\<in>set (lora_cases cfg). has_graph w (descriptor_of env cfg n True l)"
    using capture_model_captures[OF env(1,2,3) _ on] by blast
  have sizes: "gc_cudagraph_batch_sizes gcfg = sorted_batch_sizes (Some capture_sizes) (gc_graphs_enabled gcfg)" "gc_graphs_enabled gcfg"
    using gcfg(1,2) env(3) on(1) by (auto simp: same_runner_def capture_ready_def sorted_batch_sizes_def)
  have eq: "set (decode_capture_sizes cfg (sort capture_sizes)) = set (decode_batch_sizes gcfg capture_sizes)"
    using gcfg(1) by (simp add: same_runner_def decode_capture_sizes_def decode_batch_sizes_def Let_def)
  have K: "gc_uniform_decode_query_len gcfg = 1 + num_spec_of gcfg" using gcfg(1,3) by (simp add: same_runner_def)
  have "\<exists>g. graph_call Graph_full False ctx a w = Inr (Replayed g, w) \<and> cp_descriptor g = gx_descriptor ctx \<and> \<not> cp_is_prefill g"
    if "tokens \<noteq> []" "l \<in> set (lora_cases cfg)"
      and run: "padding_decision pad_for_cudagraph gcfg DECODE_ONLY (length tokens) tokens (sum_list tokens) ubatch dp dp_rank = Inr (Some True, n)"
      and ctx: "gx_descriptor ctx = descriptor_of env cfg n True l" "gx_runtime_mode ctx = Graph_full" "gx_common_metadata ctx = Some (Some DECODE_ONLY, lens)"
      and a: "\<not> ga_is_capturing_prefill a" for tokens :: "nat list" and l n ubatch dp dp_rank ctx a lens
  proof -
    have "n \<in> set (decode_batch_sizes gcfg capture_sizes)"
      using padded_decode_size(1)[OF sizes K pad refl _ refl run] that(1) by simp
    then have "has_graph w (gx_descriptor ctx)" using cap(4) that(2) ctx(1) unfolding eq by simp
    then show ?thesis by (rule captured_is_replayed[OF _ cap(2) ctx(2) a ctx(3)])
  qed
  then show ?thesis using cap(1,3) unfolding result_ok_def by blast
qed

definition ex_env :: "(nat \<times> bool) capture_env" where
  "ex_env = \<lparr>ce_coordinate = \<lambda>_ _ _ _ _. (None, None), ce_dispatch = \<lambda>n u l. (if u then Graph_full else Graph_piecewise, (n, u)),
     ce_no_descriptor = (0, False), ce_check_ubatch_thresholds = \<lambda>_ _. False\<rparr>"

definition ex_capture :: capture_config where
  "ex_capture = \<lparr>cc_max_num_batched_tokens = 16, cc_max_num_seqs = 4, cc_max_num_tokens = 16, cc_uniform_decode_query_len = 2, cc_dp_rank = 0,
     cc_num_computed_tokens = [0, 0, 0, 0], cc_lora_config = False, cc_specialize_lora = False, cc_graphs_enabled = True,
     cc_mixed_mode = Graph_piecewise, cc_decode_mode = Graph_full, cc_separate_routine = True, cc_num_of_warmups = 1, cc_enable_dbo = False,
     cc_prefill_enable_mlugraph = True, cc_prefill_batch_size = 2, cc_prefill_seq_len = 4, cc_cudagraph_batch_sizes = Some [2, 4, 8],
     cc_uses_eagle = True, cc_spec_enforce_eager = False, cc_deepseek_v4 = False, cc_kv_state_free_slots = []\<rparr>"

theorem captured_decodes_replay_witness:
  "\<exists>rs w. capture_model ex_env ex_capture \<lparr>gw_prefill_entry = None, gw_entries = []\<rparr> = Inr (rs, w)
   \<and> (\<exists>g. graph_call Graph_full False \<lparr>gx_descriptor = (8, True), gx_runtime_mode = Graph_full, gx_common_metadata = Some (Some DECODE_ONLY, [5, 5, 5])\<rparr>
       (prefill_args False) w = Inr (Replayed g, w))"
proof -
  have env: "single_rank ex_env" "runner_ready ex_capture" "capture_ready ex_env ex_capture (sort [8, 2, 4])"
    by (auto simp: single_rank_def runner_ready_def capture_ready_def ex_env_def ex_capture_def dispatches_def decode_capture_sizes_def)
  have gcfg: "same_runner demo_graph ex_capture" "[8, 2, 4 :: nat] \<noteq> []" "cc_uniform_decode_query_len ex_capture = 1 + num_spec_of demo_graph"
    by (simp_all add: same_runner_def demo_graph_def ex_capture_def num_spec_of_def)
  have on: "cc_graphs_enabled ex_capture" "cc_decode_mode ex_capture = Graph_full" "cc_separate_routine ex_capture" by (simp_all add: ex_capture_def)
  have run: "padding_decision smallest_size demo_graph DECODE_ONLY (length [2, 2, 2]) [2, 2, 2] (sum_list [2, 2, 2]) False None 0 = Inr (Some True, 8)"
    by (simp add: padding_decision_def demo_graph_def decode_batch_sizes_def num_spec_of_def get_num_input_tokens_def pad_config_of_def smallest_size_def)
  have case_and_key: "False \<in> set (lora_cases ex_capture)" "descriptor_of ex_env ex_capture 8 True False = (8, True)"
    by (simp_all add: lora_cases_def ex_capture_def descriptor_of_def ex_env_def)
  have law: "\<And>n s. s \<in> set [8, 2, 4] \<Longrightarrow> n \<le> s \<Longrightarrow> smallest_size n \<in> set [8, 2, 4] \<and> n \<le> smallest_size n \<and> smallest_size n \<le> s"
    by (rule smallest_size_law)
  obtain rs w where
    cap: "capture_model ex_env ex_capture \<lparr>gw_prefill_entry = None, gw_entries = []\<rparr> = Inr (rs, w)"
    and replay: "\<forall>tokens ubatch dp dp_rank n l ctx a lens. tokens \<noteq> [] \<and> l \<in> set (lora_cases ex_capture)
         \<and> padding_decision smallest_size demo_graph DECODE_ONLY (length tokens) tokens (sum_list tokens) ubatch dp dp_rank = Inr (Some True, n)
         \<and> gx_descriptor ctx = descriptor_of ex_env ex_capture n True l \<and> gx_runtime_mode ctx = Graph_full
         \<and> gx_common_metadata ctx = Some (Some DECODE_ONLY, lens) \<and> \<not> ga_is_capturing_prefill a
       \<longrightarrow> (\<exists>g. graph_call Graph_full False ctx a w = Inr (Replayed g, w) \<and> cp_descriptor g = gx_descriptor ctx \<and> \<not> cp_is_prefill g)"
    by (rule exE[OF captured_decodes_replay[where pad_for_cudagraph = smallest_size, OF env on gcfg]], erule (1) law, elim exE conjE, rule that)
  let ?ctx = "\<lparr>gx_descriptor = (8, True), gx_runtime_mode = Graph_full, gx_common_metadata = Some (Some DECODE_ONLY, [5, 5, 5])\<rparr>"
  have "\<exists>g. graph_call Graph_full False ?ctx (prefill_args False) w = Inr (Replayed g, w)"
    using replay[rule_format, of "[2, 2, 2]" False False None 0 8 ?ctx "[5, 5, 5]" "prefill_args False"] run case_and_key
    by (auto simp: prefill_args_def)
  then show ?thesis using cap by blast
qed

text \<open>
  The metadata a prefill graph is captured with has the number of requests and the lengths of the captured prefill, but its
  queries are those of the dummy batch: one token each when the runner has room for as many requests as tokens.
\<close>

lemma prefill_capture_query_lens:
  assumes "dummy_batch cfg a = Inr (q, num_reqs, tokens)" "dummy_attention cfg a q num_reqs tokens = Inr md"
    and "da_is_capturing_prefill a" "\<not> da_create_mixed_batch a" "\<not> da_uniform_decode a"
    and "da_num_tokens a = da_prefill_batch_size a * da_prefill_seq_len a" "da_num_tokens a \<le> cc_max_num_seqs cfg" "0 < da_prefill_seq_len a"
  shows "dm_num_reqs md = da_prefill_batch_size a \<and> dm_query_start_loc md ! dm_num_reqs md = da_prefill_batch_size a"
proof -
  let ?B = "da_prefill_batch_size a"
  have le: "?B \<le> da_num_tokens a" using assms(6,8) by simp
  have pos: "0 < da_num_tokens a" using assms(1,4,5,7) by (auto simp: dummy_batch_def dummy_split_def bind_res_eq_Inr require_eq_Inr Let_def split: if_splits)
  then have "tokens = replicate (da_num_tokens a) 1"
    using assms(1,4,5,7) by (auto simp: dummy_batch_def dummy_split_def bind_res_eq_Inr require_eq_Inr Let_def min_absorb1 list_update_same_conv split: if_splits)
  moreover have "dm_query_start_loc md = 0 # accumulate tokens" "dm_num_reqs md = ?B"
    using assms(2,3) by (auto simp: dummy_attention_def Let_def split: if_splits)
  ultimately show ?thesis using le by (simp add: nth_zero_accumulate min_absorb1 sum_list_replicate)
qed

end
