(* ===== verification/Spec2Isabelle.thy ===== *)
theory Spec2Isabelle
  imports Prelude DpMetadata Partition SchedProps SchedUpdate RejectionSample Reorder LocalIds CnMem RunnerInputs KvCache MoeAlign DpRunner Bookkeeping SharedStorage StorageLayout EngineCore Eagle KvLayers GdnMetadata MlaReorder MlaMetadata FlashMetadata ExecuteModel PromptLogprobs RayWorkers Hijack AttentionGroups GraphWrapper NixlConnector FusedMoeKernel FusedExperts DraftDispatch LoraKernels GraphConfig GraphCapture
begin

text \<open>
  This is a verification of vLLM-MLU, the plugin that runs vLLM on MLU devices. The plugin replaces parts of
  vLLM by its own: two schedulers, the engine core's loop, the model runners with their input preparation,
  sampling and KV cache, drafters for speculative decoding, data parallel execution of models, connectors of the
  KV cache and a memory allocator. The development models the parts that compute with integers, lists, sets and
  state machines, and treats what runs on tensors, processes and vLLM itself as arguments. All paths below are
  relative to \<^verbatim>\<open>src/vllm_mlu/\<close>.

  A request moves through the parts as follows. The engine core asks the scheduler for a step, hands the step to
  the model runner, and gives the tokens back to the scheduler. The runner updates its cached states from the
  step, assigns cache slots, orders the batch, prepares positions, tokens and attention metadata (padded when a
  captured graph runs), runs the model, samples, proposes drafts and records the tokens; on several data parallel
  ranks the runners first exchange their token counts, and every layer moves the tokens between the ranks.
\<close>

section \<open>Theories and sources\<close>

text \<open>
  \<^bold>\<open>Foundations.\<close> \<open>Prelude\<close> holds Python errors as values (\<open>'a res\<close>: \<open>Inl\<close> an error, \<open>Inr\<close> a result),
  insertion ordered dictionaries as association lists, prefix sums and loops with errors (\<open>map_res\<close>, \<open>fold_res\<close>).
  \<open>SlotPool\<close> is the contract of a component that hands out a fixed number of slots.

  \<^bold>\<open>Scheduling.\<close> \<open>SchedData\<close>, \<open>SchedRunning\<close>, \<open>SchedWaiting\<close> and \<open>Schedule\<close> are the chunked and the unchunked
  \<^verbatim>\<open>schedule\<close> of \<^verbatim>\<open>v1/core/sched/scheduler.py\<close>: the state of requests, the running phase with its
  preemptions, the waiting phase with its skipped requests, and the output of \<^verbatim>\<open>v1/core/sched/output.py\<close>. \<open>SchedInv\<close> has the
  invariant of a step and the laws of the queue, the cache manager and the encoder cache; \<open>SchedProps\<close> the properties.
  \<open>SchedUpdate\<close> is \<^verbatim>\<open>update_from_output\<close> and the asynchronous schedulers of \<^verbatim>\<open>v1/core/sched/async_scheduler.py\<close>.
  \<open>EngineCore\<close> is the loop of \<^verbatim>\<open>v1/engine/core.py\<close>: steps with and without a queue of batches, and the requests of the clients.

  \<^bold>\<open>Model runner.\<close> From \<^verbatim>\<open>v1/worker/gpu_model_runner.py\<close>: \<open>UpdateStates\<close> (\<^verbatim>\<open>_update_states\<close>), \<open>KvState\<close> (the slots of the cached
  states), \<open>RunnerInputs\<close> (\<^verbatim>\<open>_prepare_inputs\<close>), \<open>AttentionGroups\<close> (\<^verbatim>\<open>_build_attention_metadata\<close>), \<open>ExecuteModel\<close> (\<^verbatim>\<open>execute_model\<close> and
  \<^verbatim>\<open>sample_tokens\<close> with the choice of a captured graph), \<open>GrammarMask\<close> (the bitmask of structured outputs), \<open>Bookkeeping\<close>
  (\<^verbatim>\<open>_bookkeeping_sync\<close>), \<open>PromptLogprobs\<close> (\<^verbatim>\<open>_get_prompt_logprobs_dict\<close>), \<open>KvTensors\<close> and \<open>KvLayers\<close> (memory, shapes and
  sharing of the KV cache). \<open>GraphWrapper\<close>, \<open>GraphConfig\<close> and \<open>GraphCapture\<close>: capturing and replaying
  device graphs (\<^verbatim>\<open>compilation/mlu_graph.py\<close>), their sizes (\<^verbatim>\<open>config/vllm.py\<close>), and the dummy runs that capture them.

  \<^bold>\<open>Attention metadata.\<close> \<open>Reorder\<close> is the ordering of the batch in \<^verbatim>\<open>v1/attention/backends/utils.py\<close>; \<open>FlashMetadata\<close> the
  chunked batches and the padding of \<^verbatim>\<open>v1/attention/backends/flash_attn.py\<close>, with its inverse; \<open>MlaReorder\<close> and \<open>MlaMetadata\<close> the builder
  in \<^verbatim>\<open>v1/attention/backends/mla/flashmla.py\<close>; \<open>GdnMetadata\<close> and \<open>LocalIds\<close> the builder and the local state ids of
  \<^verbatim>\<open>v1/attention/backends/gdn_attn.py\<close>.

  \<^bold>\<open>KV cache.\<close> \<open>KvCache\<close>: page sizes, the division of the memory and the slots of a request (\<^verbatim>\<open>v1/kv_cache_interface.py\<close>,
  \<^verbatim>\<open>v1/core/kv_cache_utils.py\<close>, \<^verbatim>\<open>v1/core/kv_cache_manager.py\<close>). \<open>HybridConfig\<close>: block and page sizes of models with linear attention
  (\<^verbatim>\<open>model_executor/models/config.py\<close>). \<open>SharedStorage\<close> and \<open>StorageLayout\<close>: the connector to a shared disk
  (\<^verbatim>\<open>distributed/kv_transfer/kv_connector/v1/shared_storage_connector.py\<close>). \<open>NixlConnector\<close>: the connector to other engines
  (\<^verbatim>\<open>distributed/kv_transfer/kv_connector/v1/nixl_connector.py\<close>). \<open>CnMem\<close>: the allocator of sleep mode (\<^verbatim>\<open>device_allocator/cnmem.py\<close>).

  \<^bold>\<open>Speculative decoding.\<close> \<open>Sampler\<close>, \<open>AcceptRate\<close> and \<open>RejectionSample\<close> are \<^verbatim>\<open>v1/sample/rejection_sampler.py\<close>, with probabilities as rational
  numbers; \<open>Eagle\<close> is the drafter of \<^verbatim>\<open>v1/spec_decode/eagle.py\<close> and \<open>DraftDispatch\<close> its call by the runner.

  \<^bold>\<open>Parallel execution.\<close> \<open>DpMetadata\<close> (\<^verbatim>\<open>mlu_forward_context.py\<close>), \<open>Partition\<close> (\<^verbatim>\<open>model_executor/models/partition_utils.py\<close>), \<open>DpForward\<close> and \<open>DpRefine\<close>
  (\<^verbatim>\<open>model_executor/models/dp_utils.py\<close>), \<open>DpRunner\<close> (the exchange at the start of a step, \<^verbatim>\<open>v1/worker/dp_gpu_model_runner.py\<close>), \<open>MoeAlign\<close>
  (\<^verbatim>\<open>model_executor/layers/fused_moe/moe_align_block_size.py\<close>), \<open>FusedMoeKernel\<close> and \<open>FusedExperts\<close> (the experts of
  \<^verbatim>\<open>model_executor/layers/fused_moe/fused_moe.py\<close>, over exact numbers), \<open>RayWorkers\<close> (the ranks of \<^verbatim>\<open>v1/executor/ray_executor.py\<close>), \<open>Hijack\<close> (replacing functions of
  vLLM, \<^verbatim>\<open>mlu_hijack_utils.py\<close>).

  \<^bold>\<open>Adapters.\<close> \<open>LoraKernels\<close>: the kernels that apply low rank adapters to sequences (\<^verbatim>\<open>lora/ops/triton_ops\<close>, \<^verbatim>\<open>lora/punica_wrapper/punica_mlu.py\<close>).
\<close>

section \<open>What is proved\<close>

text \<open>
  \<^item> Scheduling: a step books exactly the tokens, blocks and requests it reports, loses and duplicates no
    request, terminates, keeps prefills and decodes apart in the unchunked scheduler, and preempts the last
    request of its policy; the update reports every request once, and asynchronous rounds close.
  \<^item> Engine: with a queue of batches every batch is finished in order and the queue drains; waiting ends.
  \<^item> Runner: cached states follow the output of the scheduler; prepared positions, tokens and slots are those of
    the scheduled tokens; the two halves of a step alternate; a padded decode has a captured graph; recorded
    tokens agree with the sampled ones; the bitmask follows its requests; a replayed graph fits its call, and
    every decode the runner pads has a captured graph.
  \<^item> Attention: every reordering is a permutation that sorts the batch; the metadata describes the parts of the
    batch it is divided into; padding adds requests without slots and is undone; every layer is bound to the
    metadata of its group; the context chunks of latent attention fit their workspace.
  \<^item> Cache: the bytes of the tensors are bounded by the memory and what is set aside of it; what sleeps wakes; slots and
    local ids are unique; the descriptors of the blocks tile the caches.
  \<^item> Speculative decoding: rows of accepted tokens, their equivalence with a reference, the drafting loop as
    steps of plain autoregressive decoding, and the agreement of the two ways of preparing its inputs.
  \<^item> Parallel execution: the data parallel forward refines the plain transformer on every rank, for every
    layout of the metadata that the constructor produces; expert alignment equals its reference, and the
    experts built on it compute the weighted mixture of their products; the kernels of adapters add the low rank
    update of every token; ranks follow nodes.

  Several properties state where the code departs from its intention, among them the slots of the shared storage
  connector, which stand for heads of blocks instead of tokens, the output of a KV connector,
  which never reaches the runner's output, prompt log probabilities that are computed and dropped, and steps that raise with
  data parallel padding or micro batches.
\<close>

section \<open>Modelling\<close>

text \<open>
  \<^bold>\<open>State and effects.\<close> Objects are records, mutated by functions that return the new state; a raised error ends the
  computation with a value of \<open>py_error\<close>, and states after an error are kept only where the code continues
  (\<open>CnMem\<close>, \<open>Hijack\<close>, \<open>EngineCore\<close>). Tensors of integers are lists; a tensor and its copy on the host are one list, so that
  transfers are taken to have finished when their result is read. Where objects are shared on purpose, the
  model writes both places.

  \<^bold>\<open>Loops.\<close> Loops are structural recursion over what they iterate. Loops without such a bound have fuel: the waiting
  phase of the schedulers as much as the queues hold (which \<open>SchedProps\<close> shows to suffice), the cycles of the batch order
  as many steps as the map has entries. \<open>NonTermination\<close> is the value of a rank that waits for others that never arrive in the
  data parallel forward, and of an engine that waits for work that nobody sends; the properties there say when it does
  not occur.

  \<^bold>\<open>Interfaces.\<close> Locales state contracts that several operations share: \<open>splitter\<close> (dividing tokens among parts, interpreted
  by \<open>get_data_num_and_offset\<close>), \<open>slot_pool\<close> (interpreted by the slots of the cached states and by the mapper of local ids) and \<open>page_spec\<close>
  (interpreted by full, latent and sliding attention). Code outside the repository is an argument of the definitions:
  the queue, cache manager and encoder cache of the schedulers (\<open>ext_laws\<close>), collective operations of the device (\<open>comm_ok\<close>,
  \<open>layer_ok\<close>), the batch of vLLM (\<open>ops_ok\<close>, \<open>swaps_rows\<close>), sorting and sets without an order (\<open>argsort_ok\<close>, \<open>enumerates_set\<close>), the draft model
  (\<open>model_laws\<close>), the grids and block sizes of the experts (\<open>experts_env\<close>), the allocator of the device (\<open>device_laws\<close>). Each hypothesis is met by a concrete instance in the theory that uses it.
\<close>

section \<open>Not modelled\<close>

text \<open>
  Kernels and layers are tensor programs over operators of PyTorch and the device (\<^verbatim>\<open>_mlu_ops.py\<close>, \<^verbatim>\<open>model_executor/layers\<close>, quantization,
  the layers of LoRA, the attention implementations, the definitions of models); their integer parts are modelled where they
  have any of their own. Setting up workers, loading (\<^verbatim>\<open>v1/worker/gpu_worker.py\<close>, the constructors, \<^verbatim>\<open>load_model\<close>), the other configuration, entry points, metrics, profiling and the rewriting of compiled graphs are calls of vLLM and of the device
  without state of their own. \<^verbatim>\<open>tools/ray_mlu\<close> consists of patched copies of files of Ray, \<^verbatim>\<open>csrc\<close> of bindings. Floating point numbers are not
  modelled: probabilities and rates are rational, thresholds are compared exactly.
\<close>

end
